(* ===== verification/Prelude.thy ===== *)
theory Prelude
  imports Main "HOL-Library.Word" "HOL-Library.Monad_Syntax"
begin

text \<open>
  Shared vocabulary of the development: the machine-integer types of the Rust sources, the
  \<open>Result\<close> and panic conventions, the named collections of rewrite rules the component
  theories feed, and the generic facts about words, bytes and options they share.

  Conventions used by every theory.
  \<^item> An unsigned or signed Rust integer of width \<open>w\<close> is a \<open>w word\<close>; a signed one is read with
    \<open>sint\<close> and compared with the signed order, an unsigned one with \<open>unat\<close>.
  \<^item> \<open>Result<T, E>\<close> is \<open>E + T\<close>: \<open>Inl\<close> is the error, \<open>Inr\<close> the value.
  \<^item> A function that can panic (\<open>assert!\<close>, \<open>expect\<close>, \<open>unwrap\<close>, an index out of range) returns
    an \<open>option\<close>; \<open>None\<close> is the panic.
\<close>

unbundle bit_operations_syntax

type_synonym u8 = "8 word"
type_synonym u16 = "16 word"
type_synonym u32 = "32 word"
type_synonym u64 = "64 word"
type_synonym i8 = "8 word"
type_synonym i32 = "32 word"
type_synonym i64 = "64 word"

text \<open>Rules that evaluate an encoder, an emitter, or an instruction's meaning.\<close>

named_theorems field_simps16
named_theorems isa_simps
named_theorems sem_simps

section \<open>Results and panics\<close>

definition expect :: "'e + 'a \<Rightarrow> 'a option" where
  "expect r = (case r of Inl _ \<Rightarrow> None | Inr v \<Rightarrow> Some v)"

lemma expect_simps [simp]:
  "expect (Inl e) = None" "expect (Inr v) = Some v"
  by (simp_all add: expect_def)

lemma expect_eq_Some_iff: "expect r = Some v \<longleftrightarrow> r = Inr v"
  by (cases r) (auto simp: expect_def)

definition assert_that :: "bool \<Rightarrow> unit option" where
  "assert_that b = (if b then Some () else None)"

lemma assert_that_simps [simp]:
  "assert_that True = Some ()" "assert_that False = None"
  by (simp_all add: assert_that_def)

lemma assert_that_bind: "(assert_that b \<bind> f = Some v) \<longleftrightarrow> b \<and> f () = Some v"
  by (cases b) auto

section \<open>Little-endian bytes\<close>

definition u16_to_le_bytes :: "u16 \<Rightarrow> u8 list" where
  "u16_to_le_bytes w = [ucast w, ucast (drop_bit 8 w)]"

definition u16_from_le_bytes :: "u8 \<Rightarrow> u8 \<Rightarrow> u16" where
  "u16_from_le_bytes b0 b1 = ucast b0 OR push_bit 8 (ucast b1)"

definition u32_to_le_bytes :: "u32 \<Rightarrow> u8 list" where
  "u32_to_le_bytes w =
     [ucast w, ucast (drop_bit 8 w), ucast (drop_bit 16 w), ucast (drop_bit 24 w)]"

definition u32_from_le_bytes :: "u8 \<Rightarrow> u8 \<Rightarrow> u8 \<Rightarrow> u8 \<Rightarrow> u32" where
  "u32_from_le_bytes b0 b1 b2 b3 =
     ucast b0 OR push_bit 8 (ucast b1) OR push_bit 16 (ucast b2) OR push_bit 24 (ucast b3)"

lemma length_le_bytes [simp]:
  "length (u16_to_le_bytes w) = 2" "length (u32_to_le_bytes v) = 4"
  by (simp_all add: u16_to_le_bytes_def u32_to_le_bytes_def)

lemma u16_le_bytes_roundtrip:
  "u16_to_le_bytes w = [b0, b1] \<Longrightarrow> u16_from_le_bytes b0 b1 = w"
  by (auto simp: u16_to_le_bytes_def u16_from_le_bytes_def intro!: bit_word_eqI)
     (auto simp: bit_simps)

lemma u32_le_bytes_roundtrip:
  assumes "u32_to_le_bytes w = [b0, b1, b2, b3]"
  shows "u32_from_le_bytes b0 b1 b2 b3 = w"
proof (rule bit_word_eqI)
  fix n assume n: "n < LENGTH(32)"
  consider "n < 8" | "8 \<le> n" "n < 16" | "16 \<le> n" "n < 24" | "24 \<le> n"
    by linarith
  then show "bit (u32_from_le_bytes b0 b1 b2 b3) n = bit w n"
    using assms n by cases (auto simp: u32_to_le_bytes_def u32_from_le_bytes_def bit_simps)
qed

section \<open>Sign extension\<close>

lemma bit_sign_extension:
  assumes "- (2 ^ k) \<le> sint (v :: 'a::len word)" "sint v < 2 ^ k" "k < LENGTH('a)" "n < LENGTH('a)"
  shows "bit v (min k n) = bit v n"
proof -
  have s: "bit (sint v) m = bit v m" if "m < LENGTH('a)" for m
    using that by (simp add: bit_sint_iff)
  have "signed_take_bit k (sint v) = sint v"
    using assms by (simp add: signed_take_bit_int_eq_self)
  then have "bit (sint v) (min k n) = bit (sint v) n"
    by (metis bit_signed_take_bit_iff possible_bit_int)
  then show ?thesis using s assms by simp
qed

lemma signed_take_bit_recover:
  assumes "- (2 ^ k) \<le> sint (v :: i32)" "sint v < 2 ^ k" "k < 16"
    and low: "\<And>n. n \<le> k \<Longrightarrow> bit w n = bit v n"
  shows "signed_take_bit k (ucast (w :: u16)) = v"
proof (rule bit_word_eqI)
  fix n assume "n < LENGTH(32)"
  then show "bit (signed_take_bit k (ucast w) :: i32) n = bit v n"
    using assms bit_sign_extension [of k v n] low [of "min k n"] by (auto simp: bit_simps)
qed

text \<open>
  Bits of the constant masks the encoders and fixups use. The simplifier reads a bit of a word
  numeral as a bit of the integer numeral.
\<close>

lemma bit_low_masks:
  "bit (0xF :: int) n \<longleftrightarrow> n < 4" "bit (0x7F :: int) n \<longleftrightarrow> n < 7" "bit (0xFF :: int) n \<longleftrightarrow> n < 8"
  "bit (0x7FF :: int) n \<longleftrightarrow> n < 11"
  using bit_mask_iff [where 'a = int, of 4 n] bit_mask_iff [where 'a = int, of 7 n]
    bit_mask_iff [where 'a = int, of 8 n] bit_mask_iff [where 'a = int, of 11 n]
  by (simp_all add: mask_eq_exp_minus_1)

lemma bit_u8_high [simp]: "8 \<le> n \<Longrightarrow> \<not> bit (b :: u8) n"
  using bit_imp_le_length [of b n] by auto

lemma bit_u32_high [simp]: "32 \<le> n \<Longrightarrow> \<not> bit (w :: u32) n"
  using bit_imp_le_length [of w n] by auto

lemma bit_u8D: "bit (b :: u8) n \<Longrightarrow> n < 8"
  using bit_u8_high [of n b] by (metis not_le)

section \<open>Ranges\<close>

lemma uint_u32_less: "uint (a :: u32) < 2 ^ 32"
  using unsigned_less [of a, where ?'a = int] by simp

lemma unat_u32_less: "unat (a :: u32) < 2 ^ 32"
  using unsigned_less [of a, where ?'a = nat] by simp

lemma sint_u32_ge: "- (2 ^ 31) \<le> sint (a :: u32)"
  using sint_ge [of a] by simp

lemma sint_u32_less: "sint (a :: u32) < 2 ^ 31"
  using sint_less [of a] by simp

lemma sint_scast_64 [simp]: "sint (scast (a :: u32) :: u64) = sint a"
  using sint_u32_ge [of a] sint_u32_less [of a]
  by (simp add: signed_scast_eq signed_take_bit_int_eq_self)

lemma sint_eq_uint_pos:
  assumes "\<not> bit (x :: u32) 31" shows "sint x = uint x"
proof (rule bit_eqI)
  fix n :: nat
  consider "n < 31" | "n = 31" | "32 \<le> n" by linarith
  then show "bit (sint x) n = bit (uint x) n"
    using assms by cases (simp_all add: bit_sint_iff bit_uint_iff)
qed

lemma ucast_eq_scast_down: "(ucast (w :: u64) :: u32) = scast w"
  by (rule bit_word_eqI) (simp add: bit_simps)

section \<open>Bit counts\<close>

definition clz32 :: "u32 \<Rightarrow> u32" where
  "clz32 w = word_of_nat (length (takeWhile (\<lambda>i. \<not> bit w i) (rev [0..<32])))"

definition ctz32 :: "u32 \<Rightarrow> u32" where
  "ctz32 w = word_of_nat (length (takeWhile (\<lambda>i. \<not> bit w i) [0..<32]))"

definition cpop32 :: "u32 \<Rightarrow> u32" where
  "cpop32 w = word_of_nat (length (filter (bit w) [0..<32]))"

end
