(* ===== verification/Condcodes.thy ===== *)
theory Condcodes
  imports Prelude
begin

text \<open>
  \<open>src/cranelift/codegen/src/ir/condcodes.rs\<close>: the integer and floating-point condition codes of
  \<open>icmp\<close> and \<open>fcmp\<close>. The trait \<open>CondCode\<close> is the locale \<open>cond_code\<close>: what its documentation
  promises of \<open>complement\<close> and \<open>swap_args\<close> are the locale's laws, relative to what a comparison
  with the code means, and both implementations are interpretations of it. The \<open>Ok(())\<close> and
  \<open>Err(())\<close> results of the parsers are \<open>Some\<close> and \<open>None\<close>.
\<close>

datatype int_cc =
    IntEqual
  | IntNotEqual
  | IntSignedLessThan
  | IntSignedGreaterThanOrEqual
  | IntSignedGreaterThan
  | IntSignedLessThanOrEqual
  | IntUnsignedLessThan
  | IntUnsignedGreaterThanOrEqual
  | IntUnsignedGreaterThan
  | IntUnsignedLessThanOrEqual

fun int_complement :: "int_cc \<Rightarrow> int_cc" where
  "int_complement IntEqual = IntNotEqual"
| "int_complement IntNotEqual = IntEqual"
| "int_complement IntSignedLessThan = IntSignedGreaterThanOrEqual"
| "int_complement IntSignedGreaterThanOrEqual = IntSignedLessThan"
| "int_complement IntSignedGreaterThan = IntSignedLessThanOrEqual"
| "int_complement IntSignedLessThanOrEqual = IntSignedGreaterThan"
| "int_complement IntUnsignedLessThan = IntUnsignedGreaterThanOrEqual"
| "int_complement IntUnsignedGreaterThanOrEqual = IntUnsignedLessThan"
| "int_complement IntUnsignedGreaterThan = IntUnsignedLessThanOrEqual"
| "int_complement IntUnsignedLessThanOrEqual = IntUnsignedGreaterThan"

fun int_swap_args :: "int_cc \<Rightarrow> int_cc" where
  "int_swap_args IntEqual = IntEqual"
| "int_swap_args IntNotEqual = IntNotEqual"
| "int_swap_args IntSignedGreaterThan = IntSignedLessThan"
| "int_swap_args IntSignedGreaterThanOrEqual = IntSignedLessThanOrEqual"
| "int_swap_args IntSignedLessThan = IntSignedGreaterThan"
| "int_swap_args IntSignedLessThanOrEqual = IntSignedGreaterThanOrEqual"
| "int_swap_args IntUnsignedGreaterThan = IntUnsignedLessThan"
| "int_swap_args IntUnsignedGreaterThanOrEqual = IntUnsignedLessThanOrEqual"
| "int_swap_args IntUnsignedLessThan = IntUnsignedGreaterThan"
| "int_swap_args IntUnsignedLessThanOrEqual = IntUnsignedGreaterThanOrEqual"

definition int_all :: "int_cc list" where
  "int_all =
     [IntEqual,
      IntNotEqual,
      IntSignedLessThan,
      IntSignedGreaterThanOrEqual,
      IntSignedGreaterThan,
      IntSignedLessThanOrEqual,
      IntUnsignedLessThan,
      IntUnsignedGreaterThanOrEqual,
      IntUnsignedGreaterThan,
      IntUnsignedLessThanOrEqual]"

fun int_without_equal :: "int_cc \<Rightarrow> int_cc" where
  "int_without_equal IntSignedGreaterThan = IntSignedGreaterThan"
| "int_without_equal IntSignedGreaterThanOrEqual = IntSignedGreaterThan"
| "int_without_equal IntSignedLessThan = IntSignedLessThan"
| "int_without_equal IntSignedLessThanOrEqual = IntSignedLessThan"
| "int_without_equal IntUnsignedGreaterThan = IntUnsignedGreaterThan"
| "int_without_equal IntUnsignedGreaterThanOrEqual = IntUnsignedGreaterThan"
| "int_without_equal IntUnsignedLessThan = IntUnsignedLessThan"
| "int_without_equal IntUnsignedLessThanOrEqual = IntUnsignedLessThan"
| "int_without_equal cc = cc"

fun int_unsigned :: "int_cc \<Rightarrow> int_cc" where
  "int_unsigned IntSignedGreaterThan = IntUnsignedGreaterThan"
| "int_unsigned IntUnsignedGreaterThan = IntUnsignedGreaterThan"
| "int_unsigned IntSignedGreaterThanOrEqual = IntUnsignedGreaterThanOrEqual"
| "int_unsigned IntUnsignedGreaterThanOrEqual = IntUnsignedGreaterThanOrEqual"
| "int_unsigned IntSignedLessThan = IntUnsignedLessThan"
| "int_unsigned IntUnsignedLessThan = IntUnsignedLessThan"
| "int_unsigned IntSignedLessThanOrEqual = IntUnsignedLessThanOrEqual"
| "int_unsigned IntUnsignedLessThanOrEqual = IntUnsignedLessThanOrEqual"
| "int_unsigned cc = cc"

fun int_to_static_str :: "int_cc \<Rightarrow> string" where
  "int_to_static_str IntEqual = ''eq''"
| "int_to_static_str IntNotEqual = ''ne''"
| "int_to_static_str IntSignedGreaterThan = ''sgt''"
| "int_to_static_str IntSignedGreaterThanOrEqual = ''sge''"
| "int_to_static_str IntSignedLessThan = ''slt''"
| "int_to_static_str IntSignedLessThanOrEqual = ''sle''"
| "int_to_static_str IntUnsignedGreaterThan = ''ugt''"
| "int_to_static_str IntUnsignedGreaterThanOrEqual = ''uge''"
| "int_to_static_str IntUnsignedLessThan = ''ult''"
| "int_to_static_str IntUnsignedLessThanOrEqual = ''ule''"

definition int_from_str :: "string \<Rightarrow> int_cc option" where
  "int_from_str s =
     (if s = ''eq'' then Some IntEqual
      else if s = ''ne'' then Some IntNotEqual
      else if s = ''sge'' then Some IntSignedGreaterThanOrEqual
      else if s = ''sgt'' then Some IntSignedGreaterThan
      else if s = ''sle'' then Some IntSignedLessThanOrEqual
      else if s = ''slt'' then Some IntSignedLessThan
      else if s = ''uge'' then Some IntUnsignedGreaterThanOrEqual
      else if s = ''ugt'' then Some IntUnsignedGreaterThan
      else if s = ''ule'' then Some IntUnsignedLessThanOrEqual
      else if s = ''ult'' then Some IntUnsignedLessThan
      else None)"

datatype float_cc =
    FloatOrdered
  | FloatUnordered
  | FloatEqual
  | FloatNotEqual
  | FloatOrderedNotEqual
  | FloatUnorderedOrEqual
  | FloatLessThan
  | FloatLessThanOrEqual
  | FloatGreaterThan
  | FloatGreaterThanOrEqual
  | FloatUnorderedOrLessThan
  | FloatUnorderedOrLessThanOrEqual
  | FloatUnorderedOrGreaterThan
  | FloatUnorderedOrGreaterThanOrEqual

definition float_all :: "float_cc list" where
  "float_all =
     [FloatOrdered,
      FloatUnordered,
      FloatEqual,
      FloatNotEqual,
      FloatOrderedNotEqual,
      FloatUnorderedOrEqual,
      FloatLessThan,
      FloatLessThanOrEqual,
      FloatGreaterThan,
      FloatGreaterThanOrEqual,
      FloatUnorderedOrLessThan,
      FloatUnorderedOrLessThanOrEqual,
      FloatUnorderedOrGreaterThan,
      FloatUnorderedOrGreaterThanOrEqual]"

fun float_complement :: "float_cc \<Rightarrow> float_cc" where
  "float_complement FloatOrdered = FloatUnordered"
| "float_complement FloatUnordered = FloatOrdered"
| "float_complement FloatEqual = FloatNotEqual"
| "float_complement FloatNotEqual = FloatEqual"
| "float_complement FloatOrderedNotEqual = FloatUnorderedOrEqual"
| "float_complement FloatUnorderedOrEqual = FloatOrderedNotEqual"
| "float_complement FloatLessThan = FloatUnorderedOrGreaterThanOrEqual"
| "float_complement FloatLessThanOrEqual = FloatUnorderedOrGreaterThan"
| "float_complement FloatGreaterThan = FloatUnorderedOrLessThanOrEqual"
| "float_complement FloatGreaterThanOrEqual = FloatUnorderedOrLessThan"
| "float_complement FloatUnorderedOrLessThan = FloatGreaterThanOrEqual"
| "float_complement FloatUnorderedOrLessThanOrEqual = FloatGreaterThan"
| "float_complement FloatUnorderedOrGreaterThan = FloatLessThanOrEqual"
| "float_complement FloatUnorderedOrGreaterThanOrEqual = FloatLessThan"

fun float_swap_args :: "float_cc \<Rightarrow> float_cc" where
  "float_swap_args FloatOrdered = FloatOrdered"
| "float_swap_args FloatUnordered = FloatUnordered"
| "float_swap_args FloatEqual = FloatEqual"
| "float_swap_args FloatNotEqual = FloatNotEqual"
| "float_swap_args FloatOrderedNotEqual = FloatOrderedNotEqual"
| "float_swap_args FloatUnorderedOrEqual = FloatUnorderedOrEqual"
| "float_swap_args FloatLessThan = FloatGreaterThan"
| "float_swap_args FloatLessThanOrEqual = FloatGreaterThanOrEqual"
| "float_swap_args FloatGreaterThan = FloatLessThan"
| "float_swap_args FloatGreaterThanOrEqual = FloatLessThanOrEqual"
| "float_swap_args FloatUnorderedOrLessThan = FloatUnorderedOrGreaterThan"
| "float_swap_args FloatUnorderedOrLessThanOrEqual = FloatUnorderedOrGreaterThanOrEqual"
| "float_swap_args FloatUnorderedOrGreaterThan = FloatUnorderedOrLessThan"
| "float_swap_args FloatUnorderedOrGreaterThanOrEqual = FloatUnorderedOrLessThanOrEqual"

fun float_fmt :: "float_cc \<Rightarrow> string" where
  "float_fmt FloatOrdered = ''ord''"
| "float_fmt FloatUnordered = ''uno''"
| "float_fmt FloatEqual = ''eq''"
| "float_fmt FloatNotEqual = ''ne''"
| "float_fmt FloatOrderedNotEqual = ''one''"
| "float_fmt FloatUnorderedOrEqual = ''ueq''"
| "float_fmt FloatLessThan = ''lt''"
| "float_fmt FloatLessThanOrEqual = ''le''"
| "float_fmt FloatGreaterThan = ''gt''"
| "float_fmt FloatGreaterThanOrEqual = ''ge''"
| "float_fmt FloatUnorderedOrLessThan = ''ult''"
| "float_fmt FloatUnorderedOrLessThanOrEqual = ''ule''"
| "float_fmt FloatUnorderedOrGreaterThan = ''ugt''"
| "float_fmt FloatUnorderedOrGreaterThanOrEqual = ''uge''"

definition float_from_str :: "string \<Rightarrow> float_cc option" where
  "float_from_str s =
     (if s = ''ord'' then Some FloatOrdered
      else if s = ''uno'' then Some FloatUnordered
      else if s = ''eq'' then Some FloatEqual
      else if s = ''ne'' then Some FloatNotEqual
      else if s = ''one'' then Some FloatOrderedNotEqual
      else if s = ''ueq'' then Some FloatUnorderedOrEqual
      else if s = ''lt'' then Some FloatLessThan
      else if s = ''le'' then Some FloatLessThanOrEqual
      else if s = ''gt'' then Some FloatGreaterThan
      else if s = ''ge'' then Some FloatGreaterThanOrEqual
      else if s = ''ult'' then Some FloatUnorderedOrLessThan
      else if s = ''ule'' then Some FloatUnorderedOrLessThanOrEqual
      else if s = ''ugt'' then Some FloatUnorderedOrGreaterThan
      else if s = ''uge'' then Some FloatUnorderedOrGreaterThanOrEqual
      else None)"

section \<open>What a comparison means\<close>

text \<open>The doc comments of the variants: the comparison each integer code stands for.\<close>

fun int_holds :: "int_cc \<Rightarrow> 'a::len word \<Rightarrow> 'a word \<Rightarrow> bool" where
  "int_holds IntEqual x y = (x = y)"
| "int_holds IntNotEqual x y = (x \<noteq> y)"
| "int_holds IntSignedLessThan x y = (sint x < sint y)"
| "int_holds IntSignedGreaterThanOrEqual x y = (sint x \<ge> sint y)"
| "int_holds IntSignedGreaterThan x y = (sint x > sint y)"
| "int_holds IntSignedLessThanOrEqual x y = (sint x \<le> sint y)"
| "int_holds IntUnsignedLessThan x y = (x < y)"
| "int_holds IntUnsignedGreaterThanOrEqual x y = (x \<ge> y)"
| "int_holds IntUnsignedGreaterThan x y = (x > y)"
| "int_holds IntUnsignedLessThanOrEqual x y = (x \<le> y)"

text \<open>Two floating-point values relate in exactly one of four ways.\<close>

datatype float_rel = Rel_UN | Rel_EQ | Rel_LT | Rel_GT

fun float_rels :: "float_cc \<Rightarrow> float_rel list" where
  "float_rels FloatOrdered = [Rel_EQ, Rel_LT, Rel_GT]"
| "float_rels FloatUnordered = [Rel_UN]"
| "float_rels FloatEqual = [Rel_EQ]"
| "float_rels FloatNotEqual = [Rel_UN, Rel_LT, Rel_GT]"
| "float_rels FloatOrderedNotEqual = [Rel_LT, Rel_GT]"
| "float_rels FloatUnorderedOrEqual = [Rel_UN, Rel_EQ]"
| "float_rels FloatLessThan = [Rel_LT]"
| "float_rels FloatLessThanOrEqual = [Rel_LT, Rel_EQ]"
| "float_rels FloatGreaterThan = [Rel_GT]"
| "float_rels FloatGreaterThanOrEqual = [Rel_GT, Rel_EQ]"
| "float_rels FloatUnorderedOrLessThan = [Rel_UN, Rel_LT]"
| "float_rels FloatUnorderedOrLessThanOrEqual = [Rel_UN, Rel_LT, Rel_EQ]"
| "float_rels FloatUnorderedOrGreaterThan = [Rel_UN, Rel_GT]"
| "float_rels FloatUnorderedOrGreaterThanOrEqual = [Rel_UN, Rel_GT, Rel_EQ]"

fun swap_rel :: "float_rel \<Rightarrow> float_rel" where
  "swap_rel Rel_UN = Rel_UN"
| "swap_rel Rel_EQ = Rel_EQ"
| "swap_rel Rel_LT = Rel_GT"
| "swap_rel Rel_GT = Rel_LT"

text \<open>
  The trait. \<open>holds cc v\<close> says that a comparison with code \<open>cc\<close> succeeds on the pair \<open>v\<close> (for
  floats: on the way the pair relates) and \<open>swap v\<close> is the pair with its components exchanged.
\<close>

locale cond_code =
  fixes complement :: "'c \<Rightarrow> 'c" and swap_args :: "'c \<Rightarrow> 'c"
    and holds :: "'c \<Rightarrow> 'v \<Rightarrow> bool" and swap :: "'v \<Rightarrow> 'v"
  assumes holds_complement: "holds (complement cc) v \<longleftrightarrow> \<not> holds cc v"
    and holds_swap_args: "holds (swap_args cc) v \<longleftrightarrow> holds cc (swap v)"
    and holds_inject: "(\<And>v. holds c1 v = holds c2 v) \<Longrightarrow> c1 = c2"
    and swap_swap: "swap (swap v) = v"
begin

text \<open>Two codes with the same meaning are equal, so the laws determine both operations.\<close>

lemma complement_complement: "complement (complement cc) = cc"
  by (rule holds_inject) (simp add: holds_complement)

lemma complement_neq: "complement cc \<noteq> cc"
  using holds_complement [of cc] by metis

lemma swap_args_swap_args: "swap_args (swap_args cc) = cc"
  by (rule holds_inject) (simp add: holds_swap_args swap_swap)

lemma complement_swap_args: "complement (swap_args cc) = swap_args (complement cc)"
  by (rule holds_inject) (simp add: holds_complement holds_swap_args)

lemma complement_unique: "(\<And>v. holds c' v \<longleftrightarrow> \<not> holds cc v) \<Longrightarrow> c' = complement cc"
  by (rule holds_inject) (simp add: holds_complement)

end

section \<open>Both implementations satisfy the trait's contract\<close>

lemma int_holds_complement: "int_holds (int_complement cc) x y \<longleftrightarrow> \<not> int_holds cc x y"
  by (cases cc) auto

lemma int_holds_swap_args: "int_holds (int_swap_args cc) x y \<longleftrightarrow> int_holds cc y x"
  by (cases cc) auto

text \<open>Four pairs of 32-bit values tell the ten codes apart.\<close>

definition int_table :: "int_cc \<Rightarrow> bool list" where
  "int_table cc =
     [int_holds cc 0 (0 :: u32), int_holds cc 0 (1 :: u32), int_holds cc (-1) (0 :: u32),
      int_holds cc 1 (0 :: u32), int_holds cc 0 (-1 :: u32)]"

lemma int_holds_inject:
  assumes "\<And>x y. int_holds c1 x (y :: u32) = int_holds c2 x y" shows "c1 = c2"
proof -
  have "int_table c1 = int_table c2" by (simp add: int_table_def assms)
  then show ?thesis by (cases c1; cases c2; simp add: int_table_def)
qed

interpretation int_cc: cond_code int_complement int_swap_args
  "\<lambda>cc (x, y :: u32). int_holds cc x y" prod.swap
  by unfold_locales
    (auto simp: int_holds_complement int_holds_swap_args intro: int_holds_inject)

lemma float_rels_inject:
  assumes "set (float_rels c1) = set (float_rels c2)" shows "c1 = c2"
proof -
  have "(r \<in> set (float_rels c1)) = (r \<in> set (float_rels c2))" for r using assms by simp
  note this [of Rel_UN] this [of Rel_EQ] this [of Rel_LT] this [of Rel_GT]
  then show ?thesis by (cases c1; simp; cases c2; simp)
qed

interpretation float_cc: cond_code float_complement float_swap_args
  "\<lambda>cc r. r \<in> set (float_rels cc)" swap_rel
proof unfold_locales
  fix cc r
  show "(r \<in> set (float_rels (float_complement cc))) = (r \<notin> set (float_rels cc))"
    by (cases cc; cases r) simp_all
  show "(r \<in> set (float_rels (float_swap_args cc))) = (swap_rel r \<in> set (float_rels cc))"
    by (cases cc; cases r) simp_all
  show "swap_rel (swap_rel r) = r" by (cases r) simp_all
qed (rule float_rels_inject, blast)

section \<open>Properties\<close>

text \<open>
  C37: the contract of the \<open>CondCode\<close> trait for integers. For every code and every pair of 32-bit
  values the complemented code gives the opposite result and the swapped code the result with the
  operands exchanged; \<open>complement\<close> and \<open>swap_args\<close> are involutions that commute, and no code is
  its own complement.
\<close>

theorem int_cc_contract:
  "(int_holds (int_complement cc) x (y :: u32) = (\<not> int_holds cc x y)) \<and>
   (int_holds (int_swap_args cc) x y = int_holds cc y x) \<and>
   (int_complement (int_complement cc) = cc) \<and>
   (int_swap_args (int_swap_args cc) = cc) \<and>
   (int_complement cc \<noteq> cc) \<and>
   (int_complement (int_swap_args cc) = int_swap_args (int_complement cc))"
  by (simp_all add: int_holds_complement int_holds_swap_args int_cc.complement_complement
      int_cc.swap_args_swap_args int_cc.complement_neq int_cc.complement_swap_args)

text \<open>The contract of the \<open>CondCode\<close> trait for floats, against the documented relation sets: the
  complement accepts exactly the relations the code rejects, the swapped code the mirrored ones,
  and both operations are involutions that commute.
\<close>

theorem float_cc_contract:
  "((r \<in> set (float_rels (float_complement cc))) = (r \<notin> set (float_rels cc))) \<and>
   ((r \<in> set (float_rels (float_swap_args cc))) = (swap_rel r \<in> set (float_rels cc))) \<and>
   (float_complement (float_complement cc) = cc) \<and>
   (float_swap_args (float_swap_args cc) = cc) \<and>
   (float_complement cc \<noteq> cc) \<and>
   (float_complement (float_swap_args cc) = float_swap_args (float_complement cc))"
  by (simp_all add: float_cc.holds_complement float_cc.holds_swap_args
      float_cc.complement_complement float_cc.swap_args_swap_args float_cc.complement_neq
      float_cc.complement_swap_args)

text \<open>Printing and parsing a condition code round-trips, in both directions and for both kinds:
  parsing accepts exactly the printed names.
\<close>

theorem cond_code_text_roundtrip:
  "(int_from_str s = Some ic \<longleftrightarrow> s = int_to_static_str ic) \<and>
   (float_from_str t = Some fc \<longleftrightarrow> t = float_fmt fc)"
proof
  show "int_from_str s = Some ic \<longleftrightarrow> s = int_to_static_str ic"
    by (cases ic; auto simp: int_from_str_def)
  show "float_from_str t = Some fc \<longleftrightarrow> t = float_fmt fc"
    by (cases fc; auto simp: float_from_str_def)
qed

text \<open>
  \<open>without_equal\<close> removes exactly the equal pairs from an ordering code, and \<open>unsigned\<close> keeps
  the relation but reads the operands unsigned, which changes nothing when neither has its sign
  bit set.
\<close>

theorem int_cc_projections:
  fixes x y :: u32
  shows "(cc \<noteq> IntEqual \<and> cc \<noteq> IntNotEqual \<longrightarrow>
      (int_holds (int_without_equal cc) x y \<longleftrightarrow> int_holds cc x y \<and> x \<noteq> y)) \<and>
    (\<not> bit x 31 \<and> \<not> bit y 31 \<longrightarrow> (int_holds (int_unsigned cc) x y \<longleftrightarrow> int_holds cc x y))"
proof (intro conjI impI)
  show "int_holds (int_without_equal cc) x y \<longleftrightarrow> int_holds cc x y \<and> x \<noteq> y"
    if "cc \<noteq> IntEqual \<and> cc \<noteq> IntNotEqual"
    using that by (cases cc) (auto simp: order_less_le word_eq_iff_signed [where ?'a = int])
  assume "\<not> bit x 31 \<and> \<not> bit y 31"
  then have "sint x = uint x" "sint y = uint y" by (simp_all add: sint_eq_uint_pos)
  then show "int_holds (int_unsigned cc) x y \<longleftrightarrow> int_holds cc x y"
    by (cases cc) (simp_all add: word_less_def word_le_def)
qed

theorem int_cc_projections_witness:
  "(int_holds (int_without_equal IntSignedLessThanOrEqual) (2 :: u32) 5 \<longleftrightarrow>
     int_holds IntSignedLessThanOrEqual (2 :: u32) 5 \<and> (2 :: u32) \<noteq> 5) \<and>
   (int_holds (int_unsigned IntSignedLessThanOrEqual) (2 :: u32) 5 \<longleftrightarrow>
     int_holds IntSignedLessThanOrEqual (2 :: u32) 5)"
  using int_cc_projections [of IntSignedLessThanOrEqual 2 5] by simp

end
