(* ===== verification/Ir_Types.thy ===== *)
theory Ir_Types
  imports Prelude
begin

text \<open>
  \<open>src/cranelift/codegen/src/ir/types.rs\<close>: the type of an SSA value, a 16-bit number whose low
  nibble is the lane type and whose next bits count the lanes. The scalar constants are generated
  from the numbering in \<open>meta/src/cdsl/types.rs\<close> and the bases in \<open>shared/src/constants.rs\<close>.
  \<open>unimplemented!()\<close> and failed assertions (debug assertions included) are \<open>None\<close>; the
  \<open>u32\<close> sizes, which are at most \<open>128 * 256\<close>, are \<open>nat\<close>.
\<close>

type_synonym ir_type = u16

definition LANE_BASE :: u16 where "LANE_BASE = 0x70"
definition VECTOR_BASE :: u16 where "VECTOR_BASE = 0x80"
definition DYNAMIC_VECTOR_BASE :: u16 where "DYNAMIC_VECTOR_BASE = 0x100"

definition ty_INVALID :: ir_type where "ty_INVALID = 0"
definition ty_I8 :: ir_type where "ty_I8 = LANE_BASE + 4"
definition ty_I16 :: ir_type where "ty_I16 = LANE_BASE + 5"
definition ty_I32 :: ir_type where "ty_I32 = LANE_BASE + 6"
definition ty_I64 :: ir_type where "ty_I64 = LANE_BASE + 7"
definition ty_I128 :: ir_type where "ty_I128 = LANE_BASE + 8"
definition ty_F16 :: ir_type where "ty_F16 = LANE_BASE + 9"
definition ty_F32 :: ir_type where "ty_F32 = LANE_BASE + 10"
definition ty_F64 :: ir_type where "ty_F64 = LANE_BASE + 11"
definition ty_F128 :: ir_type where "ty_F128 = LANE_BASE + 12"

lemmas type_bases = LANE_BASE_def VECTOR_BASE_def DYNAMIC_VECTOR_BASE_def

lemmas ty_defs = ty_INVALID_def ty_I8_def ty_I16_def ty_I32_def ty_I64_def ty_I128_def ty_F16_def ty_F32_def ty_F64_def ty_F128_def type_bases

definition lane_type :: "ir_type \<Rightarrow> ir_type" where
  "lane_type t = (if t < VECTOR_BASE then t else LANE_BASE OR (t AND 0x0f))"

definition lane_of :: "ir_type \<Rightarrow> ir_type" where
  "lane_of t = lane_type t"

definition log2_lane_bits :: "ir_type \<Rightarrow> nat" where
  "log2_lane_bits t =
     (let l = lane_type t in
      if l = ty_I8 then 3
      else if l = ty_I16 \<or> l = ty_F16 then 4
      else if l = ty_I32 \<or> l = ty_F32 then 5
      else if l = ty_I64 \<or> l = ty_F64 then 6
      else if l = ty_I128 \<or> l = ty_F128 then 7
      else 0)"

definition lane_bits :: "ir_type \<Rightarrow> nat" where
  "lane_bits t =
     (let l = lane_type t in
      if l = ty_I8 then 8
      else if l = ty_I16 \<or> l = ty_F16 then 16
      else if l = ty_I32 \<or> l = ty_F32 then 32
      else if l = ty_I64 \<or> l = ty_F64 then 64
      else if l = ty_I128 \<or> l = ty_F128 then 128
      else 0)"

definition ty_bounds :: "ir_type \<Rightarrow> bool \<Rightarrow> (128 word \<times> 128 word) option" where
  "ty_bounds t is_signed =
     (let l = lane_type t; n = lane_bits t in
      if l = ty_I8 \<or> l = ty_I16 \<or> l = ty_I32 \<or> l = ty_I64 \<or> l = ty_I128
      then if is_signed then Some (- (2 ^ (n - 1)), 2 ^ (n - 1) - 1) else Some (0, 2 ^ n - 1)
      else None)"

definition type_int :: "nat \<Rightarrow> ir_type option" where
  "type_int n =
     (if n = 8 then Some ty_I8 else if n = 16 then Some ty_I16 else if n = 32 then Some ty_I32
      else if n = 64 then Some ty_I64 else if n = 128 then Some ty_I128 else None)"

definition int_with_byte_size :: "nat \<Rightarrow> ir_type option" where
  "int_with_byte_size n = (if n * 8 < 2 ^ 16 then type_int (n * 8) else None)"

definition is_invalid :: "ir_type \<Rightarrow> bool" where
  "is_invalid t = (t = ty_INVALID)"

definition is_special :: "ir_type \<Rightarrow> bool" where
  "is_special t = (t < LANE_BASE)"

definition is_lane :: "ir_type \<Rightarrow> bool" where
  "is_lane t = (LANE_BASE \<le> t \<and> t < VECTOR_BASE)"

definition is_dynamic_vector :: "ir_type \<Rightarrow> bool" where
  "is_dynamic_vector t = (DYNAMIC_VECTOR_BASE \<le> t)"

definition is_vector :: "ir_type \<Rightarrow> bool" where
  "is_vector t = (VECTOR_BASE \<le> t \<and> \<not> is_dynamic_vector t)"

definition is_int :: "ir_type \<Rightarrow> bool" where
  "is_int t = (t = ty_I8 \<or> t = ty_I16 \<or> t = ty_I32 \<or> t = ty_I64 \<or> t = ty_I128)"

definition is_float :: "ir_type \<Rightarrow> bool" where
  "is_float t = (t = ty_F16 \<or> t = ty_F32 \<or> t = ty_F64 \<or> t = ty_F128)"

definition replace_lanes :: "ir_type \<Rightarrow> ir_type \<Rightarrow> ir_type option" where
  "replace_lanes t lane =
     (if is_lane lane \<and> \<not> is_special t then Some ((lane AND 0x0f) OR (t AND 0xf0)) else None)"

definition as_truthy_pedantic :: "ir_type \<Rightarrow> ir_type option" where
  "as_truthy_pedantic t =
     (let l = lane_type t in
      if l = ty_I8 then replace_lanes t ty_I8
      else if l = ty_I16 \<or> l = ty_F16 then replace_lanes t ty_I16
      else if l = ty_I32 \<or> l = ty_F32 then replace_lanes t ty_I32
      else if l = ty_I64 \<or> l = ty_F64 then replace_lanes t ty_I64
      else if l = ty_I128 \<or> l = ty_F128 then replace_lanes t ty_I128
      else replace_lanes t ty_I8)"

definition as_truthy :: "ir_type \<Rightarrow> ir_type option" where
  "as_truthy t = (if \<not> is_vector t then Some ty_I8 else as_truthy_pedantic t)"

definition as_int :: "ir_type \<Rightarrow> ir_type option" where
  "as_int t =
     (let l = lane_type t in
      if l = ty_I8 then replace_lanes t ty_I8
      else if l = ty_I16 \<or> l = ty_F16 then replace_lanes t ty_I16
      else if l = ty_I32 \<or> l = ty_F32 then replace_lanes t ty_I32
      else if l = ty_I64 \<or> l = ty_F64 then replace_lanes t ty_I64
      else if l = ty_I128 \<or> l = ty_F128 then replace_lanes t ty_I128
      else None)"

text \<open>The inner \<open>None\<close> is the function's own \<open>None\<close>, the outer one a failed assertion.\<close>

definition half_width :: "ir_type \<Rightarrow> ir_type option option" where
  "half_width t =
     (let l = lane_type t in
      if l = ty_I16 then map_option Some (replace_lanes t ty_I8)
      else if l = ty_I32 then map_option Some (replace_lanes t ty_I16)
      else if l = ty_I64 then map_option Some (replace_lanes t ty_I32)
      else if l = ty_I128 then map_option Some (replace_lanes t ty_I64)
      else if l = ty_F32 then map_option Some (replace_lanes t ty_F16)
      else if l = ty_F64 then map_option Some (replace_lanes t ty_F32)
      else if l = ty_F128 then map_option Some (replace_lanes t ty_F64)
      else Some None)"

definition double_width :: "ir_type \<Rightarrow> ir_type option option" where
  "double_width t =
     (let l = lane_type t in
      if l = ty_I8 then map_option Some (replace_lanes t ty_I16)
      else if l = ty_I16 then map_option Some (replace_lanes t ty_I32)
      else if l = ty_I32 then map_option Some (replace_lanes t ty_I64)
      else if l = ty_I64 then map_option Some (replace_lanes t ty_I128)
      else if l = ty_F16 then map_option Some (replace_lanes t ty_F32)
      else if l = ty_F32 then map_option Some (replace_lanes t ty_F64)
      else if l = ty_F64 then map_option Some (replace_lanes t ty_F128)
      else Some None)"

definition log2_lane_count :: "ir_type \<Rightarrow> nat" where
  "log2_lane_count t =
     (if is_dynamic_vector t then 0
      else unat (drop_bit 4 (if LANE_BASE \<le> t then t - LANE_BASE else 0)))"

definition log2_min_lane_count :: "ir_type \<Rightarrow> nat" where
  "log2_min_lane_count t =
     (if is_dynamic_vector t
      then unat (drop_bit 4 (if VECTOR_BASE + LANE_BASE \<le> t then t - (VECTOR_BASE + LANE_BASE) else 0))
      else log2_lane_count t)"

definition lane_count :: "ir_type \<Rightarrow> nat" where
  "lane_count t = (if is_dynamic_vector t then 0 else 2 ^ log2_lane_count t)"

definition ty_bits :: "ir_type \<Rightarrow> nat" where
  "ty_bits t = (if is_dynamic_vector t then 0 else lane_bits t * lane_count t)"

definition min_lane_count :: "ir_type \<Rightarrow> nat" where
  "min_lane_count t =
     (if is_dynamic_vector t then 2 ^ log2_min_lane_count t else 2 ^ log2_lane_count t)"

definition min_bits :: "ir_type \<Rightarrow> nat" where
  "min_bits t = (if is_dynamic_vector t then lane_bits t * min_lane_count t else ty_bits t)"

definition ty_bytes :: "ir_type \<Rightarrow> nat" where
  "ty_bytes t = (ty_bits t + 7) div 8"

text \<open>\<open>is_power_of_two\<close> and \<open>trailing_zeros\<close> of a \<open>u32\<close>.\<close>

definition is_power_of_two :: "u32 \<Rightarrow> bool" where
  "is_power_of_two n = (n \<noteq> 0 \<and> n AND (n - 1) = 0)"

definition ty_by :: "ir_type \<Rightarrow> u32 \<Rightarrow> ir_type option" where
  "ty_by t n =
     (if is_dynamic_vector t then None
      else if lane_bits t = 0 \<or> \<not> is_power_of_two n then None
      else let log2_lanes = ctz32 n;
               new_type = ucast t + push_bit 4 log2_lanes
           in if new_type < ucast DYNAMIC_VECTOR_BASE \<and> (ucast new_type :: u16) < DYNAMIC_VECTOR_BASE
              then Some (ucast new_type) else None)"

definition vector_to_dynamic :: "ir_type \<Rightarrow> ir_type option option" where
  "vector_to_dynamic t =
     (if \<not> is_vector t then None
      else if 256 < ty_bits t then Some None
      else if is_dynamic_vector (t + VECTOR_BASE) then Some (Some (t + VECTOR_BASE)) else None)"

definition dynamic_to_vector :: "ir_type \<Rightarrow> ir_type option option" where
  "dynamic_to_vector t =
     (if is_dynamic_vector t then Some (Some (t - VECTOR_BASE)) else None)"

definition split_lanes :: "ir_type \<Rightarrow> ir_type option option" where
  "split_lanes t =
     (case half_width t of
        None \<Rightarrow> None
      | Some None \<Rightarrow> Some None
      | Some (Some h) \<Rightarrow> Some (ty_by h 2))"

definition merge_lanes :: "ir_type \<Rightarrow> ir_type option option" where
  "merge_lanes t =
     (case double_width t of
        None \<Rightarrow> None
      | Some None \<Rightarrow> Some None
      | Some (Some d) \<Rightarrow>
          Some (if is_vector d \<and> \<not> is_dynamic_vector d then Some (d - 0x10) else None))"

definition wider_or_equal :: "ir_type \<Rightarrow> ir_type \<Rightarrow> bool" where
  "wider_or_equal t other = (lane_count t = lane_count other \<and> lane_bits other \<le> lane_bits t)"

text \<open>
  \<open>Display\<close>; \<open>None\<close> is the panic on a type that has no name. The lane of a dynamic vector is printed
  with \<open>Debug\<close>, which prefixes \<open>types::\<close> and capitalises.
\<close>

fun show_nat :: "nat \<Rightarrow> string" where
  "show_nat n =
     (if n < 10 then [char_of (48 + n)] else show_nat (n div 10) @ [char_of (48 + n mod 10)])"

declare show_nat.simps [simp del]

definition show_scalar :: "string \<Rightarrow> string \<Rightarrow> ir_type \<Rightarrow> string option" where
  "show_scalar i f t =
     (if is_int t then Some (i @ show_nat (lane_bits t))
      else if is_float t then Some (f @ show_nat (lane_bits t)) else None)"

definition ty_fmt :: "ir_type \<Rightarrow> string option" where
  "ty_fmt t =
     (case show_scalar ''i'' ''f'' t of
        Some s \<Rightarrow> Some s
      | None \<Rightarrow>
          if is_vector t
          then map_option (\<lambda>s. s @ ''x'' @ show_nat (lane_count t))
            (show_scalar ''i'' ''f'' (lane_type t))
          else if is_dynamic_vector t
          then map_option (\<lambda>s. s @ ''x'' @ show_nat (min_lane_count t) @ ''xN'')
            (show_scalar ''types::I'' ''types::F'' (lane_type t))
          else None)"

section \<open>Shape of the valid types\<close>

definition lane_types :: "ir_type list" where
  "lane_types = [ty_I8, ty_I16, ty_I32, ty_I64, ty_I128, ty_F16, ty_F32, ty_F64, ty_F128]"

text \<open>The static types: \<open>2 ^ k\<close> lanes, \<open>k \<le> 8\<close>, of one of the nine lane types.\<close>

definition static_type :: "ir_type \<Rightarrow> nat \<Rightarrow> ir_type" where
  "static_type l k = l + push_bit 4 (word_of_nat k)"

lemma less_nine: "k \<le> (8 :: nat) \<longleftrightarrow> k \<in> set [0, 1, 2, 3, 4, 5, 6, 7, 8]"
  by auto

lemma all_static:
  fixes P :: "ir_type \<Rightarrow> nat \<Rightarrow> bool"
  shows "(\<forall>l \<in> set lane_types. \<forall>k \<le> 8. P l k) \<longleftrightarrow>
     list_all (\<lambda>l. list_all (P l) [0, 1, 2, 3, 4, 5, 6, 7, 8]) lane_types"
  unfolding list_all_iff less_nine by blast

lemmas type_shape_defs =
  static_type_def lane_types_def ty_defs lane_type_def lane_count_def log2_lane_count_def
  lane_bits_def log2_lane_bits_def is_vector_def is_lane_def is_dynamic_vector_def is_special_def

lemma shape_table:
  "\<forall>l \<in> set lane_types. \<forall>k \<le> 8.
     lane_type (static_type l k) = l \<and> lane_count (static_type l k) = 2 ^ k \<and>
     is_vector (static_type l k) = (0 < k) \<and> is_lane (static_type l k) = (k = 0) \<and>
     \<not> is_dynamic_vector (static_type l k) \<and> \<not> is_special (static_type l k)"
  unfolding all_static by (simp add: type_shape_defs)

lemma width_table:
  "\<forall>l \<in> set lane_types. \<forall>k \<le> 8. case half_width (static_type l k) of
       None \<Rightarrow> False
     | Some None \<Rightarrow> l = ty_I8 \<or> l = ty_F16
     | Some (Some h) \<Rightarrow> lane_count h = 2 ^ k \<and> 2 * lane_bits h = lane_bits l \<and>
         double_width h = Some (Some (static_type l k))"
  unfolding all_static by (simp add: type_shape_defs half_width_def double_width_def replace_lanes_def)

lemma split_table:
  "\<forall>l \<in> set lane_types. \<forall>k \<le> 8. case split_lanes (static_type l k) of
       None \<Rightarrow> False
     | Some None \<Rightarrow> k = 8 \<or> l = ty_I8 \<or> l = ty_F16
     | Some (Some h) \<Rightarrow> lane_count h = 2 * 2 ^ k \<and> ty_bits h = ty_bits (static_type l k) \<and>
         merge_lanes h = Some (Some (static_type l k))"
proof -
  have c: "ctz32 2 = 1" "is_power_of_two 2"
    by (simp_all add: ctz32_def is_power_of_two_def upt_rec bit_simps)
  show ?thesis
    unfolding all_static
    by (simp add: type_shape_defs half_width_def double_width_def replace_lanes_def split_lanes_def
        merge_lanes_def ty_by_def ty_bits_def c)
qed

section \<open>Properties\<close>

text \<open>
  C40: the numbering of static types is a faithful encoding: the type with \<open>2 ^ k\<close> lanes of a lane
  type reports that lane type, that lane count and the product as its size in bits, it is a scalar
  exactly for one lane and a vector exactly for more, and is never mistaken for a special or a
  dynamic type.
\<close>

theorem static_type_shape:
  assumes "l \<in> set lane_types" "k \<le> 8"
  shows "lane_type (static_type l k) = l \<and> lane_count (static_type l k) = 2 ^ k \<and>
    ty_bits (static_type l k) = lane_bits l * 2 ^ k \<and>
    is_vector (static_type l k) = (0 < k) \<and> is_lane (static_type l k) = (k = 0) \<and>
    \<not> is_dynamic_vector (static_type l k) \<and> \<not> is_special (static_type l k)"
proof -
  have "lane_type l = l" using shape_table assms(1) by (force simp: static_type_def)
  then have "lane_bits (static_type l k) = lane_bits l"
    using shape_table assms by (simp add: lane_bits_def)
  then show ?thesis using shape_table assms by (simp add: ty_bits_def)
qed

theorem static_type_shape_witness:
  "lane_type (static_type ty_I32 2) = ty_I32 \<and> lane_count (static_type ty_I32 2) = 2 ^ 2 \<and>
    ty_bits (static_type ty_I32 2) = lane_bits ty_I32 * 2 ^ 2 \<and>
    is_vector (static_type ty_I32 2) = (0 < (2 :: nat)) \<and> is_lane (static_type ty_I32 2) = ((2 :: nat) = 0) \<and>
    \<not> is_dynamic_vector (static_type ty_I32 2) \<and> \<not> is_special (static_type ty_I32 2)"
  by (rule static_type_shape) (simp_all add: lane_types_def)

text \<open>
  Halving and doubling lane widths are inverse on static types, keep the number of lanes and
  halve the lane size; they refuse exactly the narrowest integer and float lanes. Splitting lanes
  keeps the total size and is undone by merging, and is refused only for those lanes and for 256
  lanes.
\<close>

theorem width_changes_invert:
  assumes "l \<in> set lane_types" "k \<le> 8"
  shows "(case half_width (static_type l k) of
       None \<Rightarrow> False
     | Some None \<Rightarrow> l = ty_I8 \<or> l = ty_F16
     | Some (Some h) \<Rightarrow> lane_count h = 2 ^ k \<and> 2 * lane_bits h = lane_bits l \<and>
         double_width h = Some (Some (static_type l k))) \<and>
    (case split_lanes (static_type l k) of
       None \<Rightarrow> False
     | Some None \<Rightarrow> k = 8 \<or> l = ty_I8 \<or> l = ty_F16
     | Some (Some h) \<Rightarrow> lane_count h = 2 * 2 ^ k \<and> ty_bits h = ty_bits (static_type l k) \<and>
         merge_lanes h = Some (Some (static_type l k)))"
  using width_table split_table assms by blast

theorem width_changes_invert_witness:
  "(case half_width (static_type ty_I64 1) of
       None \<Rightarrow> False
     | Some None \<Rightarrow> ty_I64 = ty_I8 \<or> ty_I64 = ty_F16
     | Some (Some h) \<Rightarrow> lane_count h = 2 ^ 1 \<and> 2 * lane_bits h = lane_bits ty_I64 \<and>
         double_width h = Some (Some (static_type ty_I64 1))) \<and>
    (case split_lanes (static_type ty_I64 1) of
       None \<Rightarrow> False
     | Some None \<Rightarrow> (1 :: nat) = 8 \<or> ty_I64 = ty_I8 \<or> ty_I64 = ty_F16
     | Some (Some h) \<Rightarrow> lane_count h = 2 * 2 ^ 1 \<and> ty_bits h = ty_bits (static_type ty_I64 1) \<and>
         merge_lanes h = Some (Some (static_type ty_I64 1)))"
  by (rule width_changes_invert) (simp_all add: lane_types_def)

text \<open>On dynamic vectors the lane-replacing operations do not keep the number of lanes: halving
  the lanes of \<open>i32x4xN\<close> yields the number \<open>0x15\<close>, which is not a vector but a special type with
  no lane bits (the mask \<open>0xf0\<close> drops the bit that marks dynamic vectors).
\<close>

theorem half_width_dynamic_loses_shape:
  "is_dynamic_vector (ty_I32 + VECTOR_BASE + 0x20) \<and>
   min_lane_count (ty_I32 + VECTOR_BASE + 0x20) = 4 \<and>
   half_width (ty_I32 + VECTOR_BASE + 0x20) = Some (Some 0x15) \<and>
   is_special 0x15 \<and> lane_bits 0x15 = 0"
  by (simp add: type_shape_defs half_width_def replace_lanes_def min_lane_count_def
      log2_min_lane_count_def)

end
