(* ===== verification/Sia32_Regs.thy ===== *)
theory Sia32_Regs
  imports Prelude
begin

text \<open>
  \<open>src/cranelift/codegen/src/isa/sia32/regs.rs\<close>: the sixteen architectural integer registers,
  their ABI roles and the register-allocation environment.

  The Rust type is \<open>struct Reg(u8)\<close> with a private field that every constructor keeps below 16
  (\<open>Reg::new\<close> and the constants of the module), so it is modelled by its four significant bits:
  \<open>reg\<close> is a \<open>4 word\<close> and \<open>index\<close> widens it back to the \<open>u8\<close> the code reads.
  \<open>PReg\<close>, \<open>RegClass\<close> and \<open>PRegSet\<close> belong to regalloc2; of them the code uses the hardware
  number, the class, and sets, which is what is kept here.
\<close>

type_synonym reg = "4 word"

definition reg_ZERO :: reg where "reg_ZERO = 0"
definition reg_SP :: reg where "reg_SP = 13"
definition reg_LR :: reg where "reg_LR = 14"
definition reg_SCRATCH :: reg where "reg_SCRATCH = 12"
definition reg_FP :: reg where "reg_FP = 15"

lemmas reg_consts = reg_ZERO_def reg_SP_def reg_LR_def reg_SCRATCH_def reg_FP_def

definition reg_new :: "u8 \<Rightarrow> reg option" where
  "reg_new index = (if index < 16 then Some (ucast index) else None)"

definition reg_index :: "reg \<Rightarrow> u8" where
  "reg_index r = ucast r"

definition reg_is_zero :: "reg \<Rightarrow> bool" where
  "reg_is_zero r = (reg_index r = 0)"

definition reg_is_sp :: "reg \<Rightarrow> bool" where
  "reg_is_sp r = (reg_index r = 13)"

definition reg_is_lr :: "reg \<Rightarrow> bool" where
  "reg_is_lr r = (reg_index r = 14)"

definition reg_is_backend_scratch :: "reg \<Rightarrow> bool" where
  "reg_is_backend_scratch r = (reg_index r = 12)"

definition reg_normally_allocatable :: "reg \<Rightarrow> bool" where
  "reg_normally_allocatable r = (1 \<le> reg_index r \<and> reg_index r \<le> 11)"

definition reg_caller_saved :: "reg \<Rightarrow> bool" where
  "reg_caller_saved r = (1 \<le> reg_index r \<and> reg_index r \<le> 8)"

definition reg_callee_saved :: "reg \<Rightarrow> bool" where
  "reg_callee_saved r = (9 \<le> reg_index r \<and> reg_index r \<le> 11)"

definition reg_argument_index :: "reg \<Rightarrow> u8 option" where
  "reg_argument_index r =
     (if 1 \<le> reg_index r \<and> reg_index r \<le> 6 then Some (reg_index r - 1) else None)"

text \<open>Decimal digits of a number below 100, for \<open>write!(f, "r{n}")\<close>.\<close>

definition show_u8 :: "u8 \<Rightarrow> string" where
  "show_u8 n =
     (let k = unat n; d = (\<lambda>j::nat. char_of (48 + j))
      in if k < 10 then [d k] else if k < 100 then [d (k div 10), d (k mod 10)]
         else [d (k div 100), d (k div 10 mod 10), d (k mod 10)])"

definition reg_fmt :: "reg \<Rightarrow> string" where
  "reg_fmt r =
     (if reg_index r = 13 then ''sp''
      else if reg_index r = 14 then ''lr''
      else ''r'' @ show_u8 (reg_index r))"

definition RETURN_LOW :: reg where "RETURN_LOW = 1"
definition RETURN_HIGH :: reg where "RETURN_HIGH = 2"
definition ARG_REGS :: "reg list" where "ARG_REGS = [1, 2, 3, 4, 5, 6]"
definition CALLER_SAVED :: "reg list" where "CALLER_SAVED = [1, 2, 3, 4, 5, 6, 7, 8]"
definition CALLEE_SAVED :: "reg list" where "CALLEE_SAVED = [9, 10, 11]"

section \<open>Cranelift's register representation\<close>

datatype reg_class = Int_class | Float_class | Vector_class

text \<open>A physical register: its hardware encoding and its class.\<close>

record preg =
  hw_enc :: u8
  preg_class :: reg_class

text \<open>
  \<open>machinst::Reg\<close> names a virtual register or, once allocated, a physical one (a spill slot never
  reaches an SIA32 instruction).
\<close>

datatype mreg = Virtual nat reg_class | Real preg

fun to_real_reg :: "mreg \<Rightarrow> preg option" where
  "to_real_reg (Real p) = Some p"
| "to_real_reg (Virtual n c) = None"

text \<open>\<open>assert!(index < 16)\<close> guards the constructor: outside it the code panics.\<close>

definition preg_of :: "u8 \<Rightarrow> preg option" where
  "preg_of index =
     (if index < 16 then Some \<lparr>hw_enc = index, preg_class = Int_class\<rparr> else None)"

definition mach_reg :: "u8 \<Rightarrow> mreg option" where
  "mach_reg index = map_option Real (preg_of index)"

definition int_preg :: "reg \<Rightarrow> preg" where
  "int_preg r = \<lparr>hw_enc = reg_index r, preg_class = Int_class\<rparr>"

definition zero_reg :: mreg where "zero_reg = Real (int_preg reg_ZERO)"
definition stack_reg :: mreg where "stack_reg = Real (int_preg reg_SP)"
definition link_reg :: mreg where "link_reg = Real (int_preg reg_LR)"
definition frame_reg :: mreg where "frame_reg = Real (int_preg reg_FP)"
definition scratch_reg :: mreg where "scratch_reg = Real (int_preg reg_SCRATCH)"
definition stacklimit_reg :: mreg where "stacklimit_reg = scratch_reg"

lemmas fixed_reg_defs =
  zero_reg_def stack_reg_def link_reg_def frame_reg_def scratch_reg_def stacklimit_reg_def

text \<open>
  The allocation environment handed to regalloc2, per register class in the order integer,
  float, vector.
\<close>

record machine_env =
  preferred_regs_by_class :: "preg list list"
  non_preferred_regs_by_class :: "preg list list"
  scratch_by_class :: "preg option list"
  fixed_stack_slots :: "preg list"

definition create_reg_environment :: machine_env where
  "create_reg_environment =
     \<lparr>preferred_regs_by_class = [map int_preg [1, 2, 3, 4, 5, 6, 7, 8], [], []],
      non_preferred_regs_by_class = [map int_preg [9, 10, 11], [], []],
      scratch_by_class = [None, None, None],
      fixed_stack_slots = []\<rparr>"

section \<open>Facts\<close>

lemma reg_le_15: "unat (r :: reg) < 16"
  using unsigned_less [of r, where ?'a = nat] by simp

lemma unat_reg_index [simp]: "unat (reg_index r) = unat r"
  using reg_le_15 [of r] by (simp add: reg_index_def unsigned_ucast_eq take_bit_nat_eq_self)

lemma reg_index_lt_16 [simp]: "reg_index r < 16"
  using reg_le_15 [of r] by (simp add: word_less_nat_alt)

lemma ucast_reg_index [simp]: "ucast (reg_index r) = (r :: reg)"
  using reg_le_15 [of r] by (simp add: word_unat_eq_iff unsigned_ucast_eq take_bit_nat_eq_self)

lemma reg_new_index [simp]: "reg_new (reg_index r) = Some r"
  by (simp add: reg_new_def)

lemma reg_index_inject [simp]: "reg_index a = reg_index b \<longleftrightarrow> a = b"
  by (metis ucast_reg_index)

lemma reg_new_eq_Some: "reg_new i = Some r \<longleftrightarrow> i = reg_index r"
proof
  assume "reg_new i = Some r"
  then have "i < 16" "r = ucast i" by (auto simp: reg_new_def split: if_splits)
  then have "unat (reg_index r) = unat i"
    by (simp add: unsigned_ucast_eq word_less_nat_alt take_bit_nat_eq_self)
  then show "i = reg_index r" by (simp only: word_unat_eq_iff)
qed simp

lemma reg_index_eq_iff: "reg_index r = i \<longleftrightarrow> i < 16 \<and> r = ucast i"
  using reg_new_eq_Some [of i r] by (auto simp: reg_new_def split: if_splits)

lemma mach_reg_index [simp]: "mach_reg (reg_index r) = Some (Real (int_preg r))"
  by (simp add: mach_reg_def preg_of_def int_preg_def)

lemma int_preg_inject [simp]: "int_preg a = int_preg b \<longleftrightarrow> a = b"
  by (simp add: int_preg_def)

lemma int_preg_sel [simp]:
  "hw_enc (int_preg r) = reg_index r" "preg_class (int_preg r) = Int_class"
  by (simp_all add: int_preg_def)

text \<open>Sixteen cases: a statement about every register is decided by evaluation.\<close>

lemma reg_cases:
  fixes r :: reg
  shows "r \<in> {0, 1, 2, 3, 4, 5, 6, 7, 8, 9, 10, 11, 12, 13, 14, 15}"
proof -
  have "unat r \<in> set [0..<16]" using reg_le_15 [of r] by simp
  then have "word_of_nat (unat r) \<in> (word_of_nat :: nat \<Rightarrow> reg) ` set [0..<16]" by blast
  then show ?thesis by (simp add: upt_rec)
qed

end
