(* ===== verification/Sia32_I64.thy ===== *)
theory Sia32_I64
  imports Sia32_Regs
begin

text \<open>
  \<open>src/cranelift/codegen/src/isa/sia32/i64_prep.rs\<close>: the frozen representation of a 64-bit value
  as two 32-bit words, the register pairs it may occupy, the carry and borrow sequences and the
  runtime-helper policy.
\<close>

record i64_words =
  low :: u32
  high :: u32

definition from_u64 :: "u64 \<Rightarrow> i64_words" where
  "from_u64 value = \<lparr>low = ucast value, high = ucast (drop_bit 32 value)\<rparr>"

definition to_u64 :: "i64_words \<Rightarrow> u64" where
  "to_u64 w = ucast (low w) OR push_bit 32 (ucast (high w))"

record i64_reg_pair =
  pair_low :: reg
  pair_high :: reg

definition i64_reg_pair_new :: "reg \<Rightarrow> reg \<Rightarrow> i64_reg_pair option" where
  "i64_reg_pair_new lo hi =
     (if reg_index lo mod 2 = 1 \<and> reg_index hi = reg_index lo + 1
         \<and> reg_normally_allocatable lo \<and> reg_normally_allocatable hi
      then Some \<lparr>pair_low = lo, pair_high = hi\<rparr> else None)"

definition I64_ALLOCATABLE_PAIRS :: "i64_reg_pair list" where
  "I64_ALLOCATABLE_PAIRS =
     [\<lparr>pair_low = 1, pair_high = 2\<rparr>,
      \<lparr>pair_low = 3, pair_high = 4\<rparr>,
      \<lparr>pair_low = 5, pair_high = 6\<rparr>,
      \<lparr>pair_low = 7, pair_high = 8\<rparr>,
      \<lparr>pair_low = 9, pair_high = 10\<rparr>]"

definition I64_STACK_SIZE :: u32 where "I64_STACK_SIZE = 8"
definition I64_STACK_ALIGN :: u32 where "I64_STACK_ALIGN = 8"
definition I64_LOW_WORD_OFFSET :: u32 where "I64_LOW_WORD_OFFSET = 0"
definition I64_HIGH_WORD_OFFSET :: u32 where "I64_HIGH_WORD_OFFSET = 4"

datatype pair_arithmetic_step =
    AddLow | CarryIfLowUnsignedLessThanLhs | AddHigh | AddCarryToHigh
  | SubLow | BorrowIfLhsLowUnsignedLessThanRhs | SubHigh | SubBorrowFromHigh

definition ADD64_SEQUENCE :: "pair_arithmetic_step list" where
  "ADD64_SEQUENCE = [AddLow, CarryIfLowUnsignedLessThanLhs, AddHigh, AddCarryToHigh]"

definition SUB64_SEQUENCE :: "pair_arithmetic_step list" where
  "SUB64_SEQUENCE = [SubLow, BorrowIfLhsLowUnsignedLessThanRhs, SubHigh, SubBorrowFromHigh]"

datatype i64_expensive_op = I64_Mul | I64_SignedDiv | I64_UnsignedDiv | I64_SignedRem | I64_UnsignedRem

record helper_call_policy =
  symbol :: string
  lhs_low :: reg
  lhs_high :: reg
  rhs_low :: reg
  rhs_high :: reg
  ret_low :: reg
  ret_high :: reg

definition helper_policy :: "i64_expensive_op \<Rightarrow> helper_call_policy" where
  "helper_policy op =
     \<lparr>symbol = (case op of
          I64_Mul \<Rightarrow> ''__sia32_i64_mul''
        | I64_SignedDiv \<Rightarrow> ''__sia32_i64_sdiv''
        | I64_UnsignedDiv \<Rightarrow> ''__sia32_i64_udiv''
        | I64_SignedRem \<Rightarrow> ''__sia32_i64_srem''
        | I64_UnsignedRem \<Rightarrow> ''__sia32_i64_urem''),
      lhs_low = 1, lhs_high = 2, rhs_low = 3, rhs_high = 4, ret_low = 1, ret_high = 2\<rparr>"

text \<open>\<open>u32::overflowing_add\<close> and \<open>overflowing_sub\<close>: the wrapped result and whether it wrapped.\<close>

definition overflowing_add :: "u32 \<Rightarrow> u32 \<Rightarrow> u32 \<times> bool" where
  "overflowing_add a b = (a + b, 2 ^ 32 \<le> unat a + unat b)"

definition overflowing_sub :: "u32 \<Rightarrow> u32 \<Rightarrow> u32 \<times> bool" where
  "overflowing_sub a b = (a - b, unat a < unat b)"

definition add_reference :: "i64_words \<Rightarrow> i64_words \<Rightarrow> i64_words" where
  "add_reference lhs rhs =
     (let (lo, carry) = overflowing_add (low lhs) (low rhs);
          hi = high lhs + high rhs + of_bool carry
      in \<lparr>low = lo, high = hi\<rparr>)"

definition sub_reference :: "i64_words \<Rightarrow> i64_words \<Rightarrow> i64_words" where
  "sub_reference lhs rhs =
     (let (lo, borrow) = overflowing_sub (low lhs) (low rhs);
          hi = high lhs - high rhs - of_bool borrow
      in \<lparr>low = lo, high = hi\<rparr>)"

section \<open>The pair as one number\<close>

lemma from_to_u64: "from_u64 (to_u64 w) = w"
  by (auto simp: from_u64_def to_u64_def bit_simps intro!: i64_words.equality bit_word_eqI)

lemma to_from_u64: "to_u64 (from_u64 v) = v"
  by (auto simp: from_u64_def to_u64_def bit_simps intro!: bit_word_eqI)

lemma to_u64_sum: "to_u64 w = ucast (low w) + 2 ^ 32 * ucast (high w)"
proof -
  have d: "ucast (low w) AND push_bit 32 (ucast (high w) :: u64) = 0"
    by (auto simp: bit_simps intro!: bit_word_eqI)
  show ?thesis
    unfolding to_u64_def disjunctive_add_eq_or [OF d, symmetric]
    by (simp add: push_bit_eq_mult mult.commute)
qed

text \<open>
  Widening to 64 bits: the low word's sum loses its carry, and a carry out of the high word is
  shifted out of the pair.
\<close>

lemma two32_squared [simp]: "(4294967296 :: u64) * 4294967296 = 0" "(4294967296 :: u64) * (4294967296 * x) = 0"
proof -
  have "(2 :: u64) ^ 32 * 2 ^ 32 = 0"
    using word_pow_0 [where 'a = 64] unfolding power_add [symmetric] by simp
  then show z: "(4294967296 :: u64) * 4294967296 = 0" by simp
  then show "(4294967296 :: u64) * (4294967296 * x) = 0"
    by (simp only: mult.assoc [symmetric] z mult_zero_left)
qed

lemma unat_carry_uint: "(2 ^ 32 \<le> unat (a :: u32) + unat b) = (2 ^ 32 \<le> uint a + uint b)"
  unfolding uint_nat by (metis of_nat_add of_nat_le_iff of_nat_numeral of_nat_power)

lemma unat_carry_iff: "(2 ^ 32 \<le> unat (a :: u32) + unat b) = (a + b < a)"
  unfolding unat_carry_uint word_less_def uint_plus_if'
  using uint_u32_less [of b] uint_ge_0 [of b] uint_ge_0 [of a] by (auto simp del: uint_ge_0)

lemma ucast_eq_of_uint: "(ucast (a :: u32) :: u64) = word_of_int (uint a)"
  by simp

lemma ucast_add_carry:
  "(ucast (a + b :: u32) :: u64) = ucast a + ucast b - 4294967296 * of_bool (a + b < a)"
proof -
  have "uint (a + b) = uint a + uint b - 4294967296 * of_bool (a + b < a)"
    unfolding unat_carry_iff [symmetric] unat_carry_uint uint_plus_if' by (simp add: of_bool_def)
  then show ?thesis by (simp only: ucast_eq_of_uint) (simp add: of_bool_def)
qed

lemma ucast_sub_borrow:
  "(ucast (a - b :: u32) :: u64) = ucast a - ucast b + 4294967296 * of_bool (a < b)"
proof -
  have "uint (a - b) = uint a - uint b + 4294967296 * of_bool (a < b)"
    unfolding uint_sub_if' by (simp add: of_bool_def word_less_def)
  then show ?thesis by (simp only: ucast_eq_of_uint) (simp add: of_bool_def)
qed

lemma high_mult_add:
  "(4294967296 * ucast (a + b :: u32) :: u64) = 4294967296 * ucast a + 4294967296 * ucast b"
  "(4294967296 * ucast (a - b :: u32) :: u64) = 4294967296 * ucast a - 4294967296 * ucast b"
  by (simp_all add: ucast_add_carry ucast_sub_borrow distrib_left right_diff_distrib)

lemma to_u64_add_reference: "to_u64 (add_reference a b) = to_u64 a + to_u64 b"
proof -
  let ?c = "low a + low b < low a"
  have r: "add_reference a b = \<lparr>low = low a + low b, high = high a + high b + of_bool ?c\<rparr>"
    unfolding add_reference_def overflowing_add_def unat_carry_iff by simp
  have "(4294967296 * ucast (high a + high b + of_bool ?c) :: u64) =
      4294967296 * ucast (high a) + 4294967296 * ucast (high b) + 4294967296 * of_bool ?c"
    by (simp only: high_mult_add) simp
  then show ?thesis
    by (simp add: to_u64_sum r ucast_add_carry [of "low a"])
qed

lemma to_u64_sub_reference: "to_u64 (sub_reference a b) = to_u64 a - to_u64 b"
proof -
  let ?c = "low a < low b"
  have r: "sub_reference a b = \<lparr>low = low a - low b, high = high a - high b - of_bool ?c\<rparr>"
    unfolding sub_reference_def overflowing_sub_def word_less_nat_alt by simp
  have "(4294967296 * ucast (high a - high b - of_bool ?c) :: u64) =
      4294967296 * ucast (high a) - 4294967296 * ucast (high b) - 4294967296 * of_bool ?c"
    by (simp only: high_mult_add) simp
  then show ?thesis
    by (simp add: to_u64_sum r ucast_sub_borrow [of "low a"])
qed

section \<open>Register pairs\<close>

lemma odd_pair_nat:
  "(a mod 2 = 1 \<and> b = a + 1 \<and> 1 \<le> a \<and> b \<le> 11) \<longleftrightarrow>
     a = 1 \<and> b = 2 \<or> a = 3 \<and> b = 4 \<or> a = 5 \<and> b = 6 \<or> a = 7 \<and> b = 8 \<or> a = 9 \<and> b = (10::nat)"
  by presburger

lemma i64_reg_pair_new_eq:
  "i64_reg_pair_new lo hi =
     (if \<lparr>pair_low = lo, pair_high = hi\<rparr> \<in> set I64_ALLOCATABLE_PAIRS
      then Some \<lparr>pair_low = lo, pair_high = hi\<rparr> else None)"
proof -
  have n: "unat (reg_index lo + 1) = unat lo + 1"
    using reg_le_15 [of lo] by (simp add: unat_word_ariths)
  have "(reg_index lo mod 2 = 1 \<and> reg_index hi = reg_index lo + 1
         \<and> reg_normally_allocatable lo \<and> reg_normally_allocatable hi) \<longleftrightarrow>
        unat lo mod 2 = 1 \<and> unat hi = unat lo + 1 \<and> 1 \<le> unat lo \<and> unat hi \<le> 11"
    unfolding reg_normally_allocatable_def word_unat_eq_iff word_le_nat_alt n
    by (auto simp: unat_mod)
  also have "\<dots> \<longleftrightarrow> (unat lo, unat hi) \<in> {(1, 2), (3, 4), (5, 6), (7, 8), (9, 10)}"
    using odd_pair_nat [of "unat lo" "unat hi"] by simp
  also have "\<dots> \<longleftrightarrow> (lo, hi) \<in> set [(1, 2), (3, 4), (5, 6), (7, 8), (9, 10)]"
    by (simp add: word_unat_eq_iff)
  finally have "(reg_index lo mod 2 = 1 \<and> reg_index hi = reg_index lo + 1
         \<and> reg_normally_allocatable lo \<and> reg_normally_allocatable hi) \<longleftrightarrow>
        (lo, hi) \<in> set [(1, 2), (3, 4), (5, 6), (7, 8), (9, 10)]" .
  then show ?thesis by (auto simp: i64_reg_pair_new_def I64_ALLOCATABLE_PAIRS_def)
qed

section \<open>Properties\<close>

text \<open>
  C39: splitting a 64-bit value into two words and joining them round-trips in both directions, and
  the word-wise reference addition and subtraction (carry and borrow between the halves) are
  addition and subtraction modulo \<open>2 ^ 64\<close>.
\<close>

theorem i64_reference_arith:
  "from_u64 (to_u64 w) = w \<and> to_u64 (from_u64 v) = v \<and>
   to_u64 (add_reference a b) = to_u64 a + to_u64 b \<and>
   to_u64 (sub_reference a b) = to_u64 a - to_u64 b"
  by (simp add: from_to_u64 to_from_u64 to_u64_add_reference to_u64_sub_reference)

text \<open>
  \<open>I64RegPair::new\<close> accepts exactly the five aligned pairs of \<open>I64_ALLOCATABLE_PAIRS\<close> and
  rejects every other combination of the sixteen registers.
\<close>

theorem i64_reg_pair_exact:
  "i64_reg_pair_new lo hi = Some p \<longleftrightarrow>
     p = \<lparr>pair_low = lo, pair_high = hi\<rparr> \<and> p \<in> set I64_ALLOCATABLE_PAIRS"
  by (auto simp: i64_reg_pair_new_eq)

end
