(* ===== verification/Sia32_Abi_Contract.thy ===== *)
theory Sia32_Abi_Contract
  imports Prelude
begin

text \<open>
  \<open>src/cranelift/codegen/src/isa/sia32/abi_contract.rs\<close>: the placement oracle of the SIA32
  calling convention. Register numbers (\<open>u8\<close>) and stack offsets (\<open>u32\<close>) are \<open>nat\<close>: a register
  number never passes 8, and an offset stays below eight bytes per parameter.

  The loop of \<open>place_args\<close> is the recursion \<open>place_step\<close>/\<open>place_loop\<close> over its cursor. The
  properties say that no two values share a register word or a stack byte, that every location is
  aligned and inside the declared area, and that values are never dropped.
\<close>

datatype value_kind = Kind_I8 | Kind_I16 | Kind_I32 | Kind_Ptr32 | Kind_I64

fun stack_size :: "value_kind \<Rightarrow> nat" where
  "stack_size Kind_I64 = 8"
| "stack_size _ = 4"

definition stack_align :: "value_kind \<Rightarrow> nat" where
  "stack_align k = stack_size k"

fun register_words :: "value_kind \<Rightarrow> nat" where
  "register_words Kind_I64 = 2"
| "register_words _ = 1"

datatype location = Loc_Reg nat | Loc_RegPair nat nat | Loc_Stack nat nat nat

record placement =
  placed :: "location list"
  placement_size :: nat

definition ARG_FIRST :: nat where "ARG_FIRST = 1"
definition ARG_LAST :: nat where "ARG_LAST = 6"
definition STACK_ALIGN :: nat where "STACK_ALIGN = 8"

text \<open>
  \<open>(value + (align - 1)) & !(align - 1)\<close> for a power of two: rounding up to a multiple.
\<close>

definition align_to :: "nat \<Rightarrow> nat \<Rightarrow> nat" where
  "align_to value align = (value + (align - 1)) div align * align"

record cursor =
  next_reg :: nat
  stack_only :: bool
  next_stack :: nat

text \<open>
  The \<open>match words\<close> of the loop: the register location, if there is one, and the register cursor
  afterwards (skipping an even register for a pair is kept even when the pair does not fit).
\<close>

definition reg_location :: "value_kind \<Rightarrow> nat \<Rightarrow> location option \<times> nat" where
  "reg_location kind nr =
     (if register_words kind = 1 \<and> nr \<le> ARG_LAST then (Some (Loc_Reg nr), nr + 1)
      else if register_words kind = 2
      then let nr = (if nr mod 2 = 0 then nr + 1 else nr)
           in if nr + 1 \<le> ARG_LAST then (Some (Loc_RegPair nr (nr + 1)), nr + 2) else (None, nr)
      else (None, nr))"

definition place_step :: "value_kind \<Rightarrow> cursor \<Rightarrow> location \<times> cursor" where
  "place_step kind c =
     (let (loc, nr) = (if \<not> stack_only c then reg_location kind (next_reg c) else (None, next_reg c))
      in case loc of
           Some l \<Rightarrow> (l, c\<lparr>next_reg := nr\<rparr>)
         | None \<Rightarrow>
             let off = align_to (next_stack c) (stack_align kind)
             in (Loc_Stack off (stack_size kind) (stack_align kind),
                 c\<lparr>next_reg := nr, stack_only := True, next_stack := off + stack_size kind\<rparr>))"

fun place_loop :: "value_kind list \<Rightarrow> cursor \<Rightarrow> location list \<times> cursor" where
  "place_loop [] c = ([], c)"
| "place_loop (k # ks) c =
     (let (l, c') = place_step k c; (ls, c'') = place_loop ks c' in (l # ls, c''))"

definition place_args :: "value_kind list \<Rightarrow> bool \<Rightarrow> placement" where
  "place_args kinds hidden_sret =
     (let (ls, c) = place_loop kinds
        \<lparr>next_reg = (if hidden_sret then 2 else ARG_FIRST), stack_only = False, next_stack = 0\<rparr>
      in \<lparr>placed = ls, placement_size = align_to (next_stack c) STACK_ALIGN\<rparr>)"

fun place_rets :: "value_kind list \<Rightarrow> placement option" where
  "place_rets [] = Some \<lparr>placed = [], placement_size = 0\<rparr>"
| "place_rets [k] =
     (if k = Kind_I64 then Some \<lparr>placed = [Loc_RegPair 1 2], placement_size = 0\<rparr>
      else Some \<lparr>placed = [Loc_Reg 1], placement_size = 0\<rparr>)"
| "place_rets [k1, k2] =
     (if k1 \<noteq> Kind_I64 \<and> k2 \<noteq> Kind_I64
      then Some \<lparr>placed = [Loc_Reg 1, Loc_Reg 2], placement_size = 0\<rparr> else None)"
| "place_rets _ = None"

section \<open>Occupied registers and stack bytes\<close>

fun loc_regs :: "location \<Rightarrow> nat list" where
  "loc_regs (Loc_Reg r) = [r]"
| "loc_regs (Loc_RegPair lo hi) = [lo, hi]"
| "loc_regs (Loc_Stack _ _ _) = []"

fun loc_bytes :: "location \<Rightarrow> nat list" where
  "loc_bytes (Loc_Stack off n _) = [off..<off + n]"
| "loc_bytes _ = []"

fun loc_ok :: "location \<Rightarrow> value_kind \<Rightarrow> bool" where
  "loc_ok (Loc_Reg r) k = (k \<noteq> Kind_I64 \<and> 1 \<le> r \<and> r \<le> 6)"
| "loc_ok (Loc_RegPair lo hi) k = (k = Kind_I64 \<and> odd lo \<and> hi = lo + 1 \<and> hi \<le> 6)"
| "loc_ok (Loc_Stack off n align) k =
     (n = stack_size k \<and> align = stack_size k \<and> off mod align = 0)"

lemma align_to_bounds:
  assumes "0 < a" shows "v \<le> align_to v a" "align_to v a < v + a"
proof -
  have "(v + (a - 1)) mod a \<le> a - 1" using mod_less_divisor [OF assms, of "v + (a - 1)"] by linarith
  then show "v \<le> align_to v a" "align_to v a < v + a"
    using assms div_mult_mod_eq [of "v + (a - 1)" a] unfolding align_to_def by linarith+
qed

lemmas align_to_ge = align_to_bounds(1)

lemma align_to_mod [simp]: "align_to v a mod a = 0"
  by (simp add: align_to_def)

lemma align_to_id:
  assumes "0 < a" "v mod a = 0" shows "align_to v a = v"
proof -
  obtain k where "v = k * a" using assms(2) by (metis dvd_eq_mod_eq_0 dvdE mult.commute)
  moreover have "(k * a + (a - 1)) div a = k"
    using assms(1) div_mult_self3 [of a k "a - 1"] by simp
  ultimately show ?thesis by (simp add: align_to_def)
qed

lemma stack_size_pos [simp]: "0 < stack_size k"
  by (cases k) auto

lemma register_words_cases: "register_words k = (if k = Kind_I64 then 2 else 1)"
  by (cases k) auto

lemma reg_location_cases:
  assumes "reg_location k nr = (l, nr')" "1 \<le> nr"
  shows "nr \<le> nr' \<and> (case l of None \<Rightarrow> True
    | Some loc \<Rightarrow> loc_ok loc k \<and> distinct (loc_regs loc) \<and> set (loc_regs loc) \<subseteq> {nr..<nr'} \<and> loc_bytes loc = [])"
  using assms by (cases k) (auto simp: reg_location_def ARG_LAST_def Let_def split: if_splits)

text \<open>One iteration: what it places lies between the old and the new cursor.\<close>

lemma place_step_props:
  assumes "place_step k c = (l, c')" "1 \<le> next_reg c"
  shows "loc_ok l k" "next_reg c \<le> next_reg c'" "next_stack c \<le> next_stack c'"
    "stack_only c \<longrightarrow> stack_only c' \<and> loc_regs l = []"
    "distinct (loc_regs l)" "set (loc_regs l) \<subseteq> {next_reg c..<next_reg c'}"
    "distinct (loc_bytes l)" "set (loc_bytes l) \<subseteq> {next_stack c..<next_stack c'}"
  using assms align_to_ge [of "stack_size k" "next_stack c"]
    reg_location_cases [of k "next_reg c" "fst (reg_location k (next_reg c))" "snd (reg_location k (next_reg c))"]
  by (auto simp: place_step_def Let_def stack_align_def split: option.splits prod.splits if_splits)

lemma place_loop_props:
  assumes "place_loop ks c = (ls, c')" "1 \<le> next_reg c"
  shows "list_all2 loc_ok ls ks \<and> next_reg c \<le> next_reg c' \<and> next_stack c \<le> next_stack c' \<and>
    distinct (concat (map loc_regs ls)) \<and>
    set (concat (map loc_regs ls)) \<subseteq> {next_reg c..<next_reg c'} \<and>
    distinct (concat (map loc_bytes ls)) \<and>
    set (concat (map loc_bytes ls)) \<subseteq> {next_stack c..<next_stack c'}"
  using assms
proof (induction ks arbitrary: c ls)
  case (Cons k ks)
  obtain l c1 ls1 where s: "place_step k c = (l, c1)" and r: "place_loop ks c1 = (ls1, c')"
    and ls: "ls = l # ls1"
    using Cons.prems(1) by (auto split: prod.splits)
  note p = place_step_props [OF s Cons.prems(2)]
  have ih: "list_all2 loc_ok ls1 ks" "next_reg c1 \<le> next_reg c'" "next_stack c1 \<le> next_stack c'"
    "distinct (concat (map loc_regs ls1))"
    "set (concat (map loc_regs ls1)) \<subseteq> {next_reg c1..<next_reg c'}"
    "distinct (concat (map loc_bytes ls1))"
    "set (concat (map loc_bytes ls1)) \<subseteq> {next_stack c1..<next_stack c'}"
    using Cons.IH [OF r] p(2) Cons.prems(2) by simp_all
  have "set (loc_regs l) \<inter> set (concat (map loc_regs ls1)) = {}"
    "set (loc_bytes l) \<inter> set (concat (map loc_bytes ls1)) = {}"
    using p(6,8) ih(5,7) by fastforce+
  moreover have "{next_reg c..<next_reg c1} \<subseteq> {next_reg c..<next_reg c'}"
    "{next_reg c1..<next_reg c'} \<subseteq> {next_reg c..<next_reg c'}"
    "{next_stack c..<next_stack c1} \<subseteq> {next_stack c..<next_stack c'}"
    "{next_stack c1..<next_stack c'} \<subseteq> {next_stack c..<next_stack c'}"
    using p(2,3) ih(2,3) by auto
  ultimately show ?case
    unfolding ls using p ih by (simp only: list.map concat.simps set_append distinct_append) auto
qed simp

section \<open>Properties\<close>

text \<open>The SIA32 argument placement is well formed for every signature. Each argument gets exactly
  one location suited to its kind (an I64 an odd-even register pair or an 8-aligned stack slot),
  no two arguments share a register word or a stack byte, the hidden return pointer keeps r1 for
  itself, every stack slot ends within the declared stack area, and that area is a multiple of
  the 8-byte stack alignment.
\<close>

theorem place_args_sound:
  "list_all2 loc_ok (placed (place_args kinds sret)) kinds \<and>
   distinct (concat (map loc_regs (placed (place_args kinds sret)))) \<and>
   distinct (concat (map loc_bytes (placed (place_args kinds sret)))) \<and>
   set (concat (map loc_bytes (placed (place_args kinds sret)))) \<subseteq> {..<placement_size (place_args kinds sret)} \<and>
   1 \<notin> (if sret then set (concat (map loc_regs (placed (place_args kinds sret)))) else {}) \<and>
   placement_size (place_args kinds sret) mod STACK_ALIGN = 0"
proof -
  let ?c = "\<lparr>next_reg = (if sret then 2 else ARG_FIRST), stack_only = False, next_stack = 0\<rparr>"
  obtain ls c where r: "place_loop kinds ?c = (ls, c)" by fastforce
  have eq: "place_args kinds sret = \<lparr>placed = ls, placement_size = align_to (next_stack c) STACK_ALIGN\<rparr>"
    by (simp add: place_args_def r)
  have le: "next_stack c \<le> align_to (next_stack c) STACK_ALIGN"
    by (rule align_to_ge) (simp add: STACK_ALIGN_def)
  have "1 \<le> next_reg ?c" by (simp add: ARG_FIRST_def)
  note p = place_loop_props [OF r this]
  have "set (concat (map loc_bytes ls)) \<subseteq> {..<align_to (next_stack c) STACK_ALIGN}"
    using p le by (meson atLeastLessThan_iff lessThan_iff order_less_le_trans subset_iff)
  moreover have "1 \<notin> set (concat (map loc_regs ls))" if sret
    using p that by fastforce
  ultimately show ?thesis unfolding eq using p by simp
qed

lemma place_step_stack_only:
  "place_step k c = (l, c') \<Longrightarrow> loc_regs l = [] \<Longrightarrow> stack_only c'"
  "place_step k c = (l, c') \<Longrightarrow> stack_only c \<Longrightarrow> loc_regs l = [] \<and> stack_only c'"
  by (cases k; auto simp: place_step_def reg_location_def Let_def split: if_splits)+

lemma place_loop_stack_only:
  "stack_only c \<Longrightarrow> place_loop ks c = (ls, c') \<Longrightarrow> \<forall>l \<in> set ls. loc_regs l = []"
proof (induction ks arbitrary: c ls)
  case (Cons k ks)
  then show ?case
    using place_step_stack_only(2) [of k c] by (fastforce split: prod.splits)
qed simp

lemma place_loop_prefix:
  "place_loop ks c = (ls, c') \<Longrightarrow> i \<le> j \<Longrightarrow> j < length ls \<Longrightarrow> loc_regs (ls ! i) = [] \<Longrightarrow> loc_regs (ls ! j) = []"
proof (induction ks arbitrary: c ls i j)
  case (Cons k ks)
  obtain l c1 ls1 where s: "place_step k c = (l, c1)" and r: "place_loop ks c1 = (ls1, c')"
    and ls: "ls = l # ls1"
    using Cons.prems(1) by (auto split: prod.splits)
  show ?case
  proof (cases i)
    case 0
    then show ?thesis
      using Cons.prems ls place_loop_stack_only [OF place_step_stack_only(1) [OF s] r]
      by (cases j) auto
  next
    case (Suc i')
    then show ?thesis using Cons.prems ls Cons.IH [OF r, of i' "j - 1"] by (cases j) auto
  qed
qed simp

text \<open>
  The register arguments form a prefix of the argument list: once an argument has been placed
  on the stack, no later one is placed in a register, even a narrower one that would still fit.
\<close>

theorem place_args_prefix:
  assumes "i \<le> j" "j < length kinds" "loc_regs (placed (place_args kinds sret) ! i) = []"
  shows "loc_regs (placed (place_args kinds sret) ! j) = []"
proof -
  obtain ls c where r: "place_loop kinds
      \<lparr>next_reg = (if sret then 2 else ARG_FIRST), stack_only = False, next_stack = 0\<rparr> = (ls, c)"
    by fastforce
  have "list_all2 loc_ok ls kinds"
    using place_loop_props [OF r] by (simp add: ARG_FIRST_def)
  then have "length ls = length kinds" by (rule list_all2_lengthD)
  then show ?thesis
    using place_loop_prefix [OF r assms(1)] assms(2,3) by (simp add: place_args_def r)
qed

theorem place_args_prefix_witness:
  "loc_regs (placed (place_args [Kind_I32, Kind_I32, Kind_I32, Kind_I32, Kind_I32, Kind_I64, Kind_I32] False) ! 6) = []"
  by (rule place_args_prefix [of 5]) (simp_all add: place_args_def place_step_def reg_location_def
      ARG_FIRST_def ARG_LAST_def stack_align_def align_to_def)

end
