(* ===== verification/Sia32_Encode.thy ===== *)
theory Sia32_Encode
  imports Sia32_Regs
begin

text \<open>
  \<open>src/cranelift/codegen/src/isa/sia32/encode.rs\<close>: the exact 16-bit SIA32-I / SIA32-P
  instruction encodings. One definition per encoder function, named \<open>encode_<function>\<close>; the
  infallible \<open>const fn\<close> encoders return a word, the validating ones a result with the source's
  error values. The second half derives the bit fields of each encoding form, which is what the
  decoder of theory \<open>Sia32_Isa\<close> and every emission proof rest on.
\<close>

definition BREAK :: u16 where "BREAK = 0xCFEF"
definition NOP :: u16 where "NOP = 0xCFFF"
definition EXT_RESERVED :: u16 where "EXT_RESERVED = 0xF000"

datatype encode_error =
    ImmediateOutOfRange string i32 i32 i32
  | InvalidAlias string
  | RegisterGroupWrap string u8 u8
  | UpdatingLoadBaseOverlap string u8 u8 u8
  | TrapImmediateReserved u8

type_synonym 'a encode_result = "encode_error + 'a"

definition encode_r3 :: "u16 \<Rightarrow> reg \<Rightarrow> reg \<Rightarrow> reg \<Rightarrow> u16" where
  "encode_r3 primary a b c =
     push_bit 12 primary OR push_bit 8 (ucast (reg_index a)) OR push_bit 4 (ucast (reg_index b))
     OR ucast (reg_index c)"

definition encode_r2f :: "u16 \<Rightarrow> reg \<Rightarrow> reg \<Rightarrow> u8 \<Rightarrow> u16" where
  "encode_r2f primary a b function =
     push_bit 12 primary OR push_bit 8 (ucast (reg_index a)) OR push_bit 4 (ucast (reg_index b))
     OR ucast function"

definition signed_range :: "string \<Rightarrow> i32 \<Rightarrow> i32 \<Rightarrow> i32 \<Rightarrow> unit encode_result" where
  "signed_range kind value lo hi =
     (if sint lo \<le> sint value \<and> sint value \<le> sint hi then Inr ()
      else Inl (ImmediateOutOfRange kind value lo hi))"

definition encode_group :: "string \<Rightarrow> reg \<Rightarrow> u8 \<Rightarrow> unit encode_result" where
  "encode_group kind first width =
     (if reg_index first \<le> 16 - width then Inr ()
      else Inl (RegisterGroupWrap kind (reg_index first) width))"

definition updating_load_group :: "string \<Rightarrow> reg \<Rightarrow> u8 \<Rightarrow> reg \<Rightarrow> unit encode_result" where
  "updating_load_group kind first width base =
     (case encode_group kind first width of
        Inl e \<Rightarrow> Inl e
      | Inr _ \<Rightarrow>
          (if reg_index first \<le> reg_index base \<and> reg_index base < reg_index first + width
           then Inl (UpdatingLoadBaseOverlap kind (reg_index first) width (reg_index base))
           else Inr ()))"

text \<open>\<open>check; Ok(word)\<close>: the guard's error, or the word.\<close>

definition guarded :: "unit encode_result \<Rightarrow> u16 \<Rightarrow> u16 encode_result" where
  "guarded r w = (case r of Inl e \<Rightarrow> Inl e | Inr _ \<Rightarrow> Inr w)"

section \<open>Three-register forms\<close>

definition encode_add :: "reg \<Rightarrow> reg \<Rightarrow> reg \<Rightarrow> u16" where
  "encode_add rd ra rb = encode_r3 0x0 rd ra rb"

definition encode_mov :: "reg \<Rightarrow> reg \<Rightarrow> u16" where
  "encode_mov rd rs = encode_add rd reg_ZERO rs"

definition encode_clz :: "reg \<Rightarrow> reg \<Rightarrow> u16" where
  "encode_clz rd rs = encode_r3 0x0 reg_ZERO rd rs"

definition encode_cmov :: "reg \<Rightarrow> reg \<Rightarrow> reg \<Rightarrow> u16" where
  "encode_cmov rd rs rc = encode_r3 0x1 rd rs rc"

definition encode_ctz :: "reg \<Rightarrow> reg \<Rightarrow> u16" where
  "encode_ctz rd rs = encode_r3 0x1 reg_ZERO rd rs"

definition encode_lda_w :: "reg \<Rightarrow> reg \<Rightarrow> reg \<Rightarrow> u16" where
  "encode_lda_w rd rb ri = encode_r3 0x2 rd rb ri"

definition encode_cpop :: "reg \<Rightarrow> reg \<Rightarrow> u16" where
  "encode_cpop rd rs = encode_r3 0x2 reg_ZERO rd rs"

definition encode_sta_w :: "reg \<Rightarrow> reg \<Rightarrow> reg \<Rightarrow> u16" where
  "encode_sta_w rs rb ri = encode_r3 0x3 rs rb ri"


section \<open>Two-register arithmetic and logic\<close>

definition encode_sub :: "reg \<Rightarrow> reg \<Rightarrow> u16" where
  "encode_sub rd rs = encode_r2f 0x4 rd rs 0x0"

definition encode_addo :: "reg \<Rightarrow> reg \<Rightarrow> u16" where
  "encode_addo rd rs = encode_r2f 0x4 rd rs 0x1"

definition encode_subo :: "reg \<Rightarrow> reg \<Rightarrow> u16" where
  "encode_subo rd rs = encode_r2f 0x4 rd rs 0x2"

definition encode_cmpeq :: "reg \<Rightarrow> reg \<Rightarrow> u16" where
  "encode_cmpeq rd rs = encode_r2f 0x4 rd rs 0x3"

definition encode_cmplt :: "reg \<Rightarrow> reg \<Rightarrow> u16" where
  "encode_cmplt rd rs = encode_r2f 0x4 rd rs 0x4"

definition encode_cmpltu :: "reg \<Rightarrow> reg \<Rightarrow> u16" where
  "encode_cmpltu rd rs = encode_r2f 0x4 rd rs 0x5"

definition encode_min :: "reg \<Rightarrow> reg \<Rightarrow> u16" where
  "encode_min rd rs = encode_r2f 0x4 rd rs 0x6"

definition encode_minu :: "reg \<Rightarrow> reg \<Rightarrow> u16" where
  "encode_minu rd rs = encode_r2f 0x4 rd rs 0x7"

definition encode_max :: "reg \<Rightarrow> reg \<Rightarrow> u16" where
  "encode_max rd rs = encode_r2f 0x4 rd rs 0x8"

definition encode_maxu :: "reg \<Rightarrow> reg \<Rightarrow> u16" where
  "encode_maxu rd rs = encode_r2f 0x4 rd rs 0x9"

definition encode_and :: "reg \<Rightarrow> reg \<Rightarrow> u16" where
  "encode_and rd rs = encode_r2f 0x5 rd rs 0x0"

definition encode_or :: "reg \<Rightarrow> reg \<Rightarrow> u16" where
  "encode_or rd rs = encode_r2f 0x5 rd rs 0x1"

definition encode_xor :: "reg \<Rightarrow> reg \<Rightarrow> u16" where
  "encode_xor rd rs = encode_r2f 0x5 rd rs 0x2"

definition encode_shl :: "reg \<Rightarrow> reg \<Rightarrow> u16" where
  "encode_shl rd rs = encode_r2f 0x5 rd rs 0x3"

definition encode_shr :: "reg \<Rightarrow> reg \<Rightarrow> u16" where
  "encode_shr rd rs = encode_r2f 0x5 rd rs 0x4"

definition encode_sar :: "reg \<Rightarrow> reg \<Rightarrow> u16" where
  "encode_sar rd rs = encode_r2f 0x5 rd rs 0x5"


section \<open>Immediate shifts and small immediates\<close>

text \<open>
  The nibble is below 16 on both branches, so the \<open>expect\<close> on \<open>Reg::new\<close> cannot fail; its
  result is the low four bits.
\<close>

definition shift_imm :: "reg \<Rightarrow> u8 \<Rightarrow> u8 \<Rightarrow> u8 \<Rightarrow> u16 encode_result" where
  "shift_imm rd amount low_function high_function =
     (if 32 \<le> amount then Inl (ImmediateOutOfRange ''shift amount'' (ucast amount) 0 31)
      else let (nibble, function) =
                 (if amount < 16 then (amount, low_function) else (amount - 16, high_function));
               imm = the (reg_new nibble)
           in Inr (encode_r2f 0x5 rd imm function))"

definition encode_shli :: "reg \<Rightarrow> u8 \<Rightarrow> u16 encode_result" where
  "encode_shli rd amount = shift_imm rd amount 0x6 0x7"

definition encode_shri :: "reg \<Rightarrow> u8 \<Rightarrow> u16 encode_result" where
  "encode_shri rd amount = shift_imm rd amount 0x8 0x9"

definition encode_sari :: "reg \<Rightarrow> u8 \<Rightarrow> u16 encode_result" where
  "encode_sari rd amount = shift_imm rd amount 0xA 0xB"

definition encode_li :: "reg \<Rightarrow> i32 \<Rightarrow> u16 encode_result" where
  "encode_li rd imm = guarded (signed_range ''LI imm7'' imm (-64) 63)
     (0x6000 OR push_bit 7 (ucast (reg_index rd)) OR (ucast imm AND 0x7F))"

definition encode_addi :: "reg \<Rightarrow> i32 \<Rightarrow> u16 encode_result" where
  "encode_addi rd imm = guarded (signed_range ''ADDI imm7'' imm (-64) 63)
     (0x6800 OR push_bit 7 (ucast (reg_index rd)) OR (ucast imm AND 0x7F))"

section \<open>Scalar memory\<close>

definition encode_lb :: "reg \<Rightarrow> reg \<Rightarrow> u16" where
  "encode_lb rv rb = encode_r2f 0x7 rv rb 0x0"

definition encode_lbu :: "reg \<Rightarrow> reg \<Rightarrow> u16" where
  "encode_lbu rv rb = encode_r2f 0x7 rv rb 0x1"

definition encode_lh :: "reg \<Rightarrow> reg \<Rightarrow> u16" where
  "encode_lh rv rb = encode_r2f 0x7 rv rb 0x2"

definition encode_lhu :: "reg \<Rightarrow> reg \<Rightarrow> u16" where
  "encode_lhu rv rb = encode_r2f 0x7 rv rb 0x3"

definition encode_lw :: "reg \<Rightarrow> reg \<Rightarrow> u16" where
  "encode_lw rv rb = encode_r2f 0x7 rv rb 0x4"

definition encode_sb :: "reg \<Rightarrow> reg \<Rightarrow> u16" where
  "encode_sb rv rb = encode_r2f 0x7 rv rb 0x5"

definition encode_sh :: "reg \<Rightarrow> reg \<Rightarrow> u16" where
  "encode_sh rv rb = encode_r2f 0x7 rv rb 0x6"

definition encode_sw :: "reg \<Rightarrow> reg \<Rightarrow> u16" where
  "encode_sw rv rb = encode_r2f 0x7 rv rb 0x7"

definition encode_sw_post :: "reg \<Rightarrow> reg \<Rightarrow> u16" where
  "encode_sw_post rv rb = encode_r2f 0x7 rv rb 0xD"

definition encode_sw_pre :: "reg \<Rightarrow> reg \<Rightarrow> u16" where
  "encode_sw_pre rv rb = encode_r2f 0x7 rv rb 0xF"


section \<open>Updating and multi-register memory\<close>

definition encode_lw_post :: "reg \<Rightarrow> reg \<Rightarrow> u16 encode_result" where
  "encode_lw_post rv rb =
     (if rv = rb then Inl (InvalidAlias ''LW [rb]+ requires rv != rb'')
      else Inr (encode_r2f 0x7 rv rb 0xC))"

definition encode_lw_pre :: "reg \<Rightarrow> reg \<Rightarrow> u16 encode_result" where
  "encode_lw_pre rv rb =
     (if rv = rb then Inl (InvalidAlias ''LW -[rb] requires rv != rb'')
      else Inr (encode_r2f 0x7 rv rb 0xE))"

definition encode_ldp :: "reg \<Rightarrow> reg \<Rightarrow> u16 encode_result" where
  "encode_ldp first rb = guarded (encode_group ''LDP'' first 2) (encode_r2f 0x8 first rb 0x0)"

definition encode_ldp_post :: "reg \<Rightarrow> reg \<Rightarrow> u16 encode_result" where
  "encode_ldp_post first rb = guarded (updating_load_group ''LDP [rb]+'' first 2 rb) (encode_r2f 0x8 first rb 0x1)"

definition encode_stp :: "reg \<Rightarrow> reg \<Rightarrow> u16 encode_result" where
  "encode_stp first rb = guarded (encode_group ''STP'' first 2) (encode_r2f 0x8 first rb 0x2)"

definition encode_stp_post :: "reg \<Rightarrow> reg \<Rightarrow> u16 encode_result" where
  "encode_stp_post first rb = guarded (encode_group ''STP [rb]+'' first 2) (encode_r2f 0x8 first rb 0x3)"

definition encode_stp_pre :: "reg \<Rightarrow> reg \<Rightarrow> u16 encode_result" where
  "encode_stp_pre first rb = guarded (encode_group ''STP -[rb]'' first 2) (encode_r2f 0x8 first rb 0x4)"

definition encode_ld4 :: "reg \<Rightarrow> reg \<Rightarrow> u16 encode_result" where
  "encode_ld4 first rb = guarded (encode_group ''LD4'' first 4) (encode_r2f 0x8 first rb 0x5)"

definition encode_ld4_post :: "reg \<Rightarrow> reg \<Rightarrow> u16 encode_result" where
  "encode_ld4_post first rb = guarded (updating_load_group ''LD4 [rb]+'' first 4 rb) (encode_r2f 0x8 first rb 0x6)"

definition encode_st4 :: "reg \<Rightarrow> reg \<Rightarrow> u16 encode_result" where
  "encode_st4 first rb = guarded (encode_group ''ST4'' first 4) (encode_r2f 0x8 first rb 0x7)"

definition encode_st4_post :: "reg \<Rightarrow> reg \<Rightarrow> u16 encode_result" where
  "encode_st4_post first rb = guarded (encode_group ''ST4 [rb]+'' first 4) (encode_r2f 0x8 first rb 0x8)"

definition encode_st4_pre :: "reg \<Rightarrow> reg \<Rightarrow> u16 encode_result" where
  "encode_st4_pre first rb = guarded (encode_group ''ST4 -[rb]'' first 4) (encode_r2f 0x8 first rb 0x9)"

section \<open>Literal loads and branches\<close>

definition encode_ldpc_w :: "reg \<Rightarrow> i32 \<Rightarrow> u16 encode_result" where
  "encode_ldpc_w rd displacement_words =
     guarded (signed_range ''LDPC.W disp8 words'' displacement_words (-128) 127)
       (0x9000 OR push_bit 8 (ucast (reg_index rd)) OR (ucast displacement_words AND 0xFF))"

definition encode_bnz :: "reg \<Rightarrow> i32 \<Rightarrow> u16 encode_result" where
  "encode_bnz rs displacement_halfwords =
     guarded (signed_range ''BNZ disp7 halfwords'' displacement_halfwords (-64) 63)
       (0xA000 OR push_bit 7 (ucast (reg_index rs)) OR (ucast displacement_halfwords AND 0x7F))"

definition encode_dbnz :: "reg \<Rightarrow> i32 \<Rightarrow> u16 encode_result" where
  "encode_dbnz rs displacement_halfwords =
     guarded (signed_range ''DBNZ disp7 halfwords'' displacement_halfwords (-64) 63)
       (0xA800 OR push_bit 7 (ucast (reg_index rs)) OR (ucast displacement_halfwords AND 0x7F))"

definition encode_b :: "i32 \<Rightarrow> u16 encode_result" where
  "encode_b displacement_halfwords =
     guarded (signed_range ''B disp11 halfwords'' displacement_halfwords (-1024) 1023)
       (0xB000 OR (ucast displacement_halfwords AND 0x7FF))"

definition encode_bl :: "i32 \<Rightarrow> u16 encode_result" where
  "encode_bl displacement_halfwords =
     guarded (signed_range ''BL disp11 halfwords'' displacement_halfwords (-1024) 1023)
       (0xB800 OR (ucast displacement_halfwords AND 0x7FF))"

section \<open>Jumps, bit operations, multiply and divide\<close>

definition encode_jalr :: "reg \<Rightarrow> reg \<Rightarrow> u16" where
  "encode_jalr rd rb = encode_r2f 0xC rd rb 0x0"

definition encode_jr :: "reg \<Rightarrow> u16" where
  "encode_jr rb = encode_jalr reg_ZERO rb"

definition encode_callr :: "reg \<Rightarrow> u16" where
  "encode_callr rb = encode_jalr reg_LR rb"

definition encode_ret :: "u16" where
  "encode_ret = encode_jalr reg_ZERO reg_LR"

definition encode_bset :: "reg \<Rightarrow> reg \<Rightarrow> u16" where
  "encode_bset rd rs = encode_r2f 0xC rd rs 0x1"

definition encode_bclr :: "reg \<Rightarrow> reg \<Rightarrow> u16" where
  "encode_bclr rd rs = encode_r2f 0xC rd rs 0x2"

definition encode_binv :: "reg \<Rightarrow> reg \<Rightarrow> u16" where
  "encode_binv rd rs = encode_r2f 0xC rd rs 0x3"

definition encode_bext :: "reg \<Rightarrow> reg \<Rightarrow> u16" where
  "encode_bext rd rs = encode_r2f 0xC rd rs 0x4"

definition encode_mul :: "reg \<Rightarrow> reg \<Rightarrow> u16" where
  "encode_mul rd rs = encode_r2f 0xC rd rs 0x5"

definition encode_mulh :: "reg \<Rightarrow> reg \<Rightarrow> u16" where
  "encode_mulh rd rs = encode_r2f 0xC rd rs 0x6"

definition encode_mulhu :: "reg \<Rightarrow> reg \<Rightarrow> u16" where
  "encode_mulhu rd rs = encode_r2f 0xC rd rs 0x7"

definition encode_mulhsu :: "reg \<Rightarrow> reg \<Rightarrow> u16" where
  "encode_mulhsu rd rs = encode_r2f 0xC rd rs 0x8"

definition encode_mulo :: "reg \<Rightarrow> reg \<Rightarrow> u16" where
  "encode_mulo rd rs = encode_r2f 0xC rd rs 0x9"

definition encode_div :: "reg \<Rightarrow> reg \<Rightarrow> u16" where
  "encode_div rd rs = encode_r2f 0xC rd rs 0xA"

definition encode_divu :: "reg \<Rightarrow> reg \<Rightarrow> u16" where
  "encode_divu rd rs = encode_r2f 0xC rd rs 0xB"

definition encode_rem :: "reg \<Rightarrow> reg \<Rightarrow> u16" where
  "encode_rem rd rs = encode_r2f 0xC rd rs 0xC"

definition encode_remu :: "reg \<Rightarrow> reg \<Rightarrow> u16" where
  "encode_remu rd rs = encode_r2f 0xC rd rs 0xD"

definition encode_rev8 :: "reg \<Rightarrow> reg \<Rightarrow> u16" where
  "encode_rev8 rd rs = encode_r2f 0xC rd rs 0xE"


section \<open>Traps, carries and the SYSTEM forms\<close>

definition encode_trap :: "u8 \<Rightarrow> u16 encode_result" where
  "encode_trap imm =
     (if 0xFD < imm then Inl (TrapImmediateReserved imm)
      else Inr (0xC00F OR push_bit 4 (ucast imm)))"

definition encode_adc :: "reg \<Rightarrow> reg \<Rightarrow> reg \<Rightarrow> u16 encode_result" where
  "encode_adc rd rs carry =
     (if rd = carry then Inl (InvalidAlias ''ADC requires rd != carry register'')
      else Inr (encode_r3 0xD rd rs carry))"

definition encode_sbb :: "reg \<Rightarrow> reg \<Rightarrow> reg \<Rightarrow> u16 encode_result" where
  "encode_sbb rd rs borrow =
     (if rd = borrow then Inl (InvalidAlias ''SBB requires rd != borrow register'')
      else Inr (encode_r3 0xE rd rs borrow))"

definition SYSREG_STATUS :: u8 where "SYSREG_STATUS = 0"
definition SYSREG_EPC :: u8 where "SYSREG_EPC = 1"
definition SYSREG_CAUSE :: u8 where "SYSREG_CAUSE = 2"
definition SYSREG_BADADDR :: u8 where "SYSREG_BADADDR = 3"
definition SYSREG_SCRATCH :: u8 where "SYSREG_SCRATCH = 4"
definition SYSREG_VMCTX :: u8 where "SYSREG_VMCTX = 5"

lemmas sysreg_defs =
  SYSREG_STATUS_def SYSREG_EPC_def SYSREG_CAUSE_def SYSREG_BADADDR_def SYSREG_SCRATCH_def
  SYSREG_VMCTX_def

definition encode_system :: "u8 \<Rightarrow> reg \<Rightarrow> u8 \<Rightarrow> u16" where
  "encode_system sysop r selector =
     0xF000 OR push_bit 8 (ucast sysop) OR push_bit 4 (ucast (reg_index r)) OR ucast selector"

definition encode_sread :: "reg \<Rightarrow> u8 \<Rightarrow> u16 encode_result" where
  "encode_sread rd selector =
     (if SYSREG_VMCTX < selector
      then Inl (ImmediateOutOfRange ''SREAD sysreg'' (ucast selector) 0 (ucast SYSREG_VMCTX))
      else Inr (encode_system 0x0 rd selector))"

definition encode_swrite :: "reg \<Rightarrow> u8 \<Rightarrow> u16 encode_result" where
  "encode_swrite rs selector =
     (if SYSREG_VMCTX < selector \<or> selector = SYSREG_CAUSE \<or> selector = SYSREG_BADADDR
      then Inl (InvalidAlias ''SWRITE selector is reserved or read-only'')
      else Inr (encode_system 0x1 rs selector))"

definition encode_sswap_scratch :: "reg \<Rightarrow> u16" where
  "encode_sswap_scratch reg = encode_system 0x2 reg SYSREG_SCRATCH"

definition encode_sret :: "u16" where
  "encode_sret = encode_system 0x3 reg_ZERO 0x0"

definition encode_sretctx :: "reg \<Rightarrow> u16" where
  "encode_sretctx rs = encode_system 0x3 rs 0x1"

definition encode_tlbfence :: "u16" where
  "encode_tlbfence = encode_system 0x4 reg_ZERO 0x0"

definition encode_tlbfence_va :: "reg \<Rightarrow> u16" where
  "encode_tlbfence_va rs = encode_system 0x4 rs 0x1"

definition encode_tlbfence_asid :: "reg \<Rightarrow> u16" where
  "encode_tlbfence_asid rs = encode_system 0x4 rs 0x2"

definition encode_wfi :: "u16" where
  "encode_wfi = encode_system 0x5 reg_ZERO 0x0"

definition encode_sync_i :: "u16" where
  "encode_sync_i = encode_system 0x6 reg_ZERO 0x0"

definition encode_fence :: "u16" where
  "encode_fence = encode_system 0x7 reg_ZERO 0x0"

definition encode_to_le_bytes :: "u16 \<Rightarrow> u8 list" where
  "encode_to_le_bytes word = u16_to_le_bytes word"

section \<open>Bit fields of the encoding forms\<close>

definition field_primary :: "u16 \<Rightarrow> 4 word" where "field_primary w = ucast (drop_bit 12 w)"
definition field_a :: "u16 \<Rightarrow> reg" where "field_a w = ucast (drop_bit 8 w)"
definition field_b :: "u16 \<Rightarrow> reg" where "field_b w = ucast (drop_bit 4 w)"
definition field_c :: "u16 \<Rightarrow> reg" where "field_c w = ucast w"
definition field_tag :: "u16 \<Rightarrow> 5 word" where "field_tag w = ucast (drop_bit 11 w)"
definition field_trap :: "u16 \<Rightarrow> u8" where
  "field_trap w = push_bit 4 (ucast (field_a w)) OR ucast (field_b w)"
definition field_r7 :: "u16 \<Rightarrow> reg" where "field_r7 w = ucast (drop_bit 7 w)"
definition field_imm7 :: "u16 \<Rightarrow> i32" where "field_imm7 w = signed_take_bit 6 (ucast w)"
definition field_imm8 :: "u16 \<Rightarrow> i32" where "field_imm8 w = signed_take_bit 7 (ucast w)"
definition field_imm11 :: "u16 \<Rightarrow> i32" where "field_imm11 w = signed_take_bit 10 (ucast w)"

lemmas field_defs =
  field_primary_def field_a_def field_b_def field_c_def field_tag_def field_trap_def field_r7_def
  field_imm7_def field_imm8_def field_imm11_def

lemma bit_reg_high [simp]: "4 \<le> n \<Longrightarrow> \<not> bit (r :: reg) n"
  using bit_imp_le_length [of r n] by auto

lemma bit_reg_index [simp]: "bit (reg_index r) n = bit (r :: reg) n"
  by (cases "n < 4") (auto simp: reg_index_def bit_ucast_iff)

lemma bit_u16_high [simp]: "16 \<le> n \<Longrightarrow> \<not> bit (w :: u16) n"
  using bit_imp_le_length [of w n] by auto

lemma ucast_reg_u16 [simp]:
  "(ucast (ucast (reg_index r) :: u16) :: u8) = reg_index r"
  "(ucast (ucast (reg_index r) :: u16) :: reg) = r"
  by (auto simp: bit_simps intro!: bit_word_eqI)

lemma field_r3 [field_simps16]:
  "field_primary (encode_r3 p a b c) = ucast p"
  "field_a (encode_r3 p a b c) = a"
  "field_b (encode_r3 p a b c) = b"
  "field_c (encode_r3 p a b c) = c"
  by (auto simp: encode_r3_def field_defs bit_simps intro!: bit_word_eqI)

lemma bit_encode_r3:
  assumes "n < 16"
  shows "bit (encode_r3 p a b c) n =
    (if n < 4 then bit c n else if n < 8 then bit b (n - 4)
     else if n < 12 then bit a (n - 8) else bit p (n - 12))"
proof -
  consider "n < 4" | "4 \<le> n" "n < 8" | "8 \<le> n" "n < 12" | "12 \<le> n" by linarith
  then show ?thesis
    using assms by cases (simp_all add: encode_r3_def bit_simps less_diff_conv2)
qed

text \<open>A word is the three-register form of its own fields.\<close>

lemma encode_r3_fields:
  "encode_r3 (drop_bit 12 w) (field_a w) (field_b w) (field_c w) = w"
proof (rule bit_word_eqI)
  fix n assume n: "n < LENGTH(16)"
  consider "n < 4" | "4 \<le> n" "n < 8" | "8 \<le> n" "n < 12" | "12 \<le> n" by linarith
  then show "bit (encode_r3 (drop_bit 12 w) (field_a w) (field_b w) (field_c w)) n = bit w n"
    using n by cases (simp_all add: bit_encode_r3 field_defs bit_simps less_diff_conv2)
qed

lemma drop_12_r3:
  assumes "p < 16"
  shows "drop_bit 12 (encode_r3 p a b c) = p"
proof (rule bit_word_eqI)
  have tb: "take_bit 4 p = p"
    using assms by (simp add: word_unat_eq_iff unsigned_take_bit_eq take_bit_nat_eq_self word_less_nat_alt)
  fix n assume "n < LENGTH(16)"
  moreover have "\<not> bit p n" if "4 \<le> n"
    using that tb by (metis bit_take_bit_iff not_le)
  ultimately show "bit (drop_bit 12 (encode_r3 p a b c)) n = bit p n"
    by (cases "n < 4") (simp_all add: bit_simps bit_encode_r3)
qed

lemma encode_r2f_eq_r3 [field_simps16]:
  "f < 16 \<Longrightarrow> encode_r2f p a b f = encode_r3 p a b (ucast f)"
  using reg_new_eq_Some [of f "ucast f"] by (simp add: encode_r2f_def encode_r3_def reg_new_def)

lemma encode_system_eq_r3 [field_simps16]:
  "op < 16 \<Longrightarrow> sel < 16 \<Longrightarrow> encode_system op r sel = encode_r3 0xF (ucast op) r (ucast sel)"
  using reg_new_eq_Some [of op "ucast op"] reg_new_eq_Some [of sel "ucast sel"]
  by (simp add: encode_system_def encode_r3_def reg_new_def)


text \<open>The immediate-carrying forms, by their five-bit tag or primary opcode.\<close>

definition imm7_form :: "u16 \<Rightarrow> reg \<Rightarrow> i32 \<Rightarrow> u16" where
  "imm7_form t r imm = push_bit 11 t OR push_bit 7 (ucast (reg_index r)) OR (ucast imm AND 0x7F)"

definition imm11_form :: "u16 \<Rightarrow> i32 \<Rightarrow> u16" where
  "imm11_form t imm = push_bit 11 t OR (ucast imm AND 0x7FF)"

definition imm8_form :: "u16 \<Rightarrow> reg \<Rightarrow> i32 \<Rightarrow> u16" where
  "imm8_form p r imm = push_bit 12 p OR push_bit 8 (ucast (reg_index r)) OR (ucast imm AND 0xFF)"

lemma encode_imm_forms:
  "encode_li rd imm = guarded (signed_range ''LI imm7'' imm (-64) 63) (imm7_form 0xC rd imm)"
  "encode_addi rd imm = guarded (signed_range ''ADDI imm7'' imm (-64) 63) (imm7_form 0xD rd imm)"
  "encode_bnz rd d = guarded (signed_range ''BNZ disp7 halfwords'' d (-64) 63) (imm7_form 0x14 rd d)"
  "encode_dbnz rd d = guarded (signed_range ''DBNZ disp7 halfwords'' d (-64) 63) (imm7_form 0x15 rd d)"
  "encode_b d = guarded (signed_range ''B disp11 halfwords'' d (-1024) 1023) (imm11_form 0x16 d)"
  "encode_bl d = guarded (signed_range ''BL disp11 halfwords'' d (-1024) 1023) (imm11_form 0x17 d)"
  "encode_ldpc_w rd d = guarded (signed_range ''LDPC.W disp8 words'' d (-128) 127) (imm8_form 0x9 rd d)"
  by (simp_all add: encode_li_def encode_addi_def encode_bnz_def encode_dbnz_def encode_b_def
      encode_bl_def encode_ldpc_w_def imm7_form_def imm11_form_def imm8_form_def)

lemma signed_range_Inr [simp]: "signed_range k v lo hi = Inr u \<longleftrightarrow> sint lo \<le> sint v \<and> sint v \<le> sint hi"
  by (simp add: signed_range_def)

lemma guarded_Inr: "guarded r w = Inr v \<longleftrightarrow> r = Inr () \<and> v = w"
  by (auto simp: guarded_def split: sum.splits)

lemma field_imm7_form [field_simps16]:
  "field_tag (imm7_form t r imm) = ucast t"
  "field_r7 (imm7_form t r imm) = r"
  by (auto simp: imm7_form_def field_defs bit_simps bit_low_masks intro!: bit_word_eqI)

lemma field_imm11_form [field_simps16]: "field_tag (imm11_form t imm) = ucast t"
  by (auto simp: imm11_form_def field_defs bit_simps bit_low_masks intro!: bit_word_eqI)

lemma field_imm8_form [field_simps16]:
  "field_primary (imm8_form p r imm) = ucast p"
  "field_a (imm8_form p r imm) = r"
  by (auto simp: imm8_form_def field_defs bit_simps bit_low_masks intro!: bit_word_eqI)

lemma field_imm7_recover [field_simps16]:
  "-64 \<le> sint imm \<Longrightarrow> sint imm \<le> 63 \<Longrightarrow> field_imm7 (imm7_form t r imm) = imm"
  unfolding field_imm7_def
  by (rule signed_take_bit_recover) (auto simp: imm7_form_def bit_simps bit_low_masks)

lemma field_imm11_recover [field_simps16]:
  "-1024 \<le> sint imm \<Longrightarrow> sint imm \<le> 1023 \<Longrightarrow> field_imm11 (imm11_form t imm) = imm"
  unfolding field_imm11_def
  by (rule signed_take_bit_recover) (auto simp: imm11_form_def bit_simps bit_low_masks)

lemma field_imm8_recover [field_simps16]:
  "-128 \<le> sint imm \<Longrightarrow> sint imm \<le> 127 \<Longrightarrow> field_imm8 (imm8_form p r imm) = imm"
  unfolding field_imm8_def
  by (rule signed_take_bit_recover) (auto simp: imm8_form_def bit_simps bit_low_masks)

text \<open>The trap immediate sits between the primary opcode and the function nibble.\<close>

lemma trap_form_eq: "(0xC00F OR push_bit 4 (ucast (imm :: u8)) :: u16) =
    encode_r3 0xC (ucast (drop_bit 4 imm)) (ucast imm) 0xF"
proof -
  have c: "(0xC00F :: u16) = push_bit 12 0xC OR ucast (reg_index 0xF)"
    by (simp add: reg_index_def)
  have d: "push_bit 4 (ucast imm :: u16) =
      push_bit 8 (ucast (reg_index (ucast (drop_bit 4 imm)))) OR
      push_bit 4 (ucast (reg_index (ucast imm)))"
    by (auto simp: bit_simps intro!: bit_word_eqI) (auto dest: bit_u8D)
  show ?thesis unfolding encode_r3_def c d by (simp only: ac_simps)
qed

lemma field_trap_form [field_simps16]:
  "field_trap (encode_r3 p (ucast (drop_bit 4 imm)) (ucast imm) c) = imm"
  by (auto simp: field_trap_def field_r3 bit_simps intro!: bit_word_eqI)

text \<open>A shift amount below 32 splits into a register-sized nibble and the choice of function.\<close>

lemma shift_imm_low:
  "amount < 16 \<Longrightarrow> shift_imm rd amount f g = Inr (encode_r2f 0x5 rd (ucast amount) f)"
  by (simp add: shift_imm_def reg_new_def not_le) (auto simp: word_le_nat_alt word_less_nat_alt)

lemma shift_imm_high:
  "16 \<le> amount \<Longrightarrow> amount < 32 \<Longrightarrow>
     shift_imm rd amount f g = Inr (encode_r2f 0x5 rd (ucast (amount - 16)) g)"
  by (simp add: shift_imm_def reg_new_def not_le) (unat_arith)

lemma shift_imm_error:
  "32 \<le> amount \<Longrightarrow>
     shift_imm rd amount f g = Inl (ImmediateOutOfRange ''shift amount'' (ucast amount) 0 31)"
  by (simp add: shift_imm_def)

end
