(* ===== verification/Sia32_M7.thy ===== *)
theory Sia32_M7
  imports Sia32_Encode "HOL-Library.Signed_Division"
begin

text \<open>
  \<open>src/cranelift/codegen/src/isa/sia32/m7.rs\<close>: the two-address bit-manipulation, multiply and
  divide group. The encoder and decoder of the group, its mnemonics, and \<open>execute_reference\<close>, the
  architectural reference semantics the sources give for these instructions.
\<close>

datatype m7_op =
    M7_Bset | M7_Bclr | M7_Binv | M7_Bext | M7_Mul | M7_Mulh | M7_Mulhu | M7_Mulhsu | M7_Mulo
  | M7_Div | M7_Divu | M7_Rem | M7_Remu | M7_Rev8

record m7_inst =
  m7_op_of :: m7_op
  m7_rd :: reg
  m7_rs :: reg

datatype m7_decode_error = NotM7 | ReservedFunction

definition m7_new :: "m7_op \<Rightarrow> reg \<Rightarrow> reg \<Rightarrow> m7_inst" where
  "m7_new op rd rs = \<lparr>m7_op_of = op, m7_rd = rd, m7_rs = rs\<rparr>"

definition m7_encode :: "m7_inst \<Rightarrow> u16" where
  "m7_encode i =
     (case m7_op_of i of
        M7_Bset \<Rightarrow> encode_bset (m7_rd i) (m7_rs i)
      | M7_Bclr \<Rightarrow> encode_bclr (m7_rd i) (m7_rs i)
      | M7_Binv \<Rightarrow> encode_binv (m7_rd i) (m7_rs i)
      | M7_Bext \<Rightarrow> encode_bext (m7_rd i) (m7_rs i)
      | M7_Mul \<Rightarrow> encode_mul (m7_rd i) (m7_rs i)
      | M7_Mulh \<Rightarrow> encode_mulh (m7_rd i) (m7_rs i)
      | M7_Mulhu \<Rightarrow> encode_mulhu (m7_rd i) (m7_rs i)
      | M7_Mulhsu \<Rightarrow> encode_mulhsu (m7_rd i) (m7_rs i)
      | M7_Mulo \<Rightarrow> encode_mulo (m7_rd i) (m7_rs i)
      | M7_Div \<Rightarrow> encode_div (m7_rd i) (m7_rs i)
      | M7_Divu \<Rightarrow> encode_divu (m7_rd i) (m7_rs i)
      | M7_Rem \<Rightarrow> encode_rem (m7_rd i) (m7_rs i)
      | M7_Remu \<Rightarrow> encode_remu (m7_rd i) (m7_rs i)
      | M7_Rev8 \<Rightarrow> encode_rev8 (m7_rd i) (m7_rs i))"

definition m7_function :: "u16 \<Rightarrow> m7_op option" where
  "m7_function f =
     (if f = 0x1 then Some M7_Bset
      else if f = 0x2 then Some M7_Bclr
      else if f = 0x3 then Some M7_Binv
      else if f = 0x4 then Some M7_Bext
      else if f = 0x5 then Some M7_Mul
      else if f = 0x6 then Some M7_Mulh
      else if f = 0x7 then Some M7_Mulhu
      else if f = 0x8 then Some M7_Mulhsu
      else if f = 0x9 then Some M7_Mulo
      else if f = 0xA then Some M7_Div
      else if f = 0xB then Some M7_Divu
      else if f = 0xC then Some M7_Rem
      else if f = 0xD then Some M7_Remu
      else if f = 0xE then Some M7_Rev8
      else None)"

text \<open>
  The two \<open>Reg::new(..).expect("four-bit register")\<close> calls get a value masked with \<open>0xf\<close>; \<open>the\<close>
  of the option is that register.
\<close>

definition m7_decode :: "u16 \<Rightarrow> m7_decode_error + m7_inst" where
  "m7_decode word =
     (if drop_bit 12 word \<noteq> 0xC then Inl NotM7
      else let rd = the (reg_new (ucast (drop_bit 8 word AND 0xf)));
               rs = the (reg_new (ucast (drop_bit 4 word AND 0xf)))
           in (case m7_function (word AND 0xf) of
                 None \<Rightarrow> Inl ReservedFunction
               | Some op \<Rightarrow> Inr \<lparr>m7_op_of = op, m7_rd = rd, m7_rs = rs\<rparr>))"

fun m7_mnemonic :: "m7_op \<Rightarrow> string" where
  "m7_mnemonic M7_Bset = ''bset''"
| "m7_mnemonic M7_Bclr = ''bclr''"
| "m7_mnemonic M7_Binv = ''binv''"
| "m7_mnemonic M7_Bext = ''bext''"
| "m7_mnemonic M7_Mul = ''mul''"
| "m7_mnemonic M7_Mulh = ''mulh''"
| "m7_mnemonic M7_Mulhu = ''mulhu''"
| "m7_mnemonic M7_Mulhsu = ''mulhsu''"
| "m7_mnemonic M7_Mulo = ''mulo''"
| "m7_mnemonic M7_Div = ''div''"
| "m7_mnemonic M7_Divu = ''divu''"
| "m7_mnemonic M7_Rem = ''rem''"
| "m7_mnemonic M7_Remu = ''remu''"
| "m7_mnemonic M7_Rev8 = ''rev8''"

definition m7_disassemble :: "m7_inst \<Rightarrow> string" where
  "m7_disassemble i =
     m7_mnemonic (m7_op_of i) @ '' '' @ reg_fmt (m7_rd i) @ '', '' @ reg_fmt (m7_rs i)"

section \<open>Reference semantics\<close>

definition i32_MIN :: i32 where "i32_MIN = 0x80000000"

definition u32_MAX :: u32 where "u32_MAX = 0xFFFFFFFF"

text \<open>
  \<open>wrapping_div\<close> and \<open>wrapping_rem\<close> truncate towards zero; the overflowing quotient is handled by
  the branch before it.
\<close>

definition signed_div :: "u32 \<Rightarrow> u32 \<Rightarrow> u32" where
  "signed_div lhs rhs =
     (if rhs = 0 then u32_MAX
      else if lhs = i32_MIN \<and> rhs = -1 then i32_MIN
      else word_of_int (sint lhs sdiv sint rhs))"

definition signed_rem :: "u32 \<Rightarrow> u32 \<Rightarrow> u32" where
  "signed_rem lhs rhs =
     (if rhs = 0 then lhs
      else if lhs = i32_MIN \<and> rhs = -1 then 0
      else word_of_int (sint lhs smod sint rhs))"

definition swap_bytes :: "u32 \<Rightarrow> u32" where
  "swap_bytes w =
     u32_from_le_bytes (ucast (drop_bit 24 w)) (ucast (drop_bit 16 w)) (ucast (drop_bit 8 w)) (ucast w)"

definition execute_reference :: "m7_op \<Rightarrow> u32 \<Rightarrow> u32 \<Rightarrow> u32" where
  "execute_reference op rd rs =
     (case op of
        M7_Bset \<Rightarrow> rd OR push_bit (unat (rs AND 31)) 1
      | M7_Bclr \<Rightarrow> rd AND NOT (push_bit (unat (rs AND 31)) 1)
      | M7_Binv \<Rightarrow> rd XOR push_bit (unat (rs AND 31)) 1
      | M7_Bext \<Rightarrow> drop_bit (unat (rs AND 31)) rd AND 1
      | M7_Mul \<Rightarrow> rd * rs
      | M7_Mulh \<Rightarrow> ucast (signed_drop_bit 32 (scast rd * scast rs :: 64 word))
      | M7_Mulhu \<Rightarrow> ucast (drop_bit 32 (ucast rd * ucast rs :: 64 word))
      | M7_Mulhsu \<Rightarrow> ucast (signed_drop_bit 32 (scast rd * ucast rs :: 128 word))
      | M7_Mulo \<Rightarrow> of_bool ((scast rd * scast rs :: 64 word) \<noteq> scast (rd * rs))
      | M7_Div \<Rightarrow> signed_div rd rs
      | M7_Divu \<Rightarrow> (if rs = 0 then u32_MAX else rd div rs)
      | M7_Rem \<Rightarrow> signed_rem rd rs
      | M7_Remu \<Rightarrow> (if rs = 0 then rd else rd mod rs)
      | M7_Rev8 \<Rightarrow> swap_bytes rd)"

section \<open>Encoding\<close>

fun m7_code :: "m7_op \<Rightarrow> reg" where
  "m7_code M7_Bset = 1" | "m7_code M7_Bclr = 2" | "m7_code M7_Binv = 3" | "m7_code M7_Bext = 4"
| "m7_code M7_Mul = 5" | "m7_code M7_Mulh = 6" | "m7_code M7_Mulhu = 7" | "m7_code M7_Mulhsu = 8"
| "m7_code M7_Mulo = 9" | "m7_code M7_Div = 10" | "m7_code M7_Divu = 11" | "m7_code M7_Rem = 12"
| "m7_code M7_Remu = 13" | "m7_code M7_Rev8 = 14"

lemmas m7_encoder_defs =
  encode_bset_def encode_bclr_def encode_binv_def encode_bext_def encode_mul_def encode_mulh_def
  encode_mulhu_def encode_mulhsu_def encode_mulo_def encode_div_def encode_divu_def encode_rem_def
  encode_remu_def encode_rev8_def

lemma m7_encode_r3:
  "m7_encode i = encode_r3 0xC (m7_rd i) (m7_rs i) (m7_code (m7_op_of i))"
  by (cases "m7_op_of i")
     (simp_all add: m7_encode_def m7_encoder_defs encode_r2f_eq_r3)

lemma m7_function_code [simp]:
  "m7_function (ucast (reg_index (m7_code op))) = Some op"
  by (cases op) (simp_all add: m7_function_def reg_index_def)

lemma m7_function_eq_Some: "f < 16 \<Longrightarrow> m7_function f = Some op \<Longrightarrow> ucast f = m7_code op"
  by (auto simp: m7_function_def split: if_splits)

lemma and_nibble: "(w AND 0xf :: u16) = ucast (reg_index (ucast w))"
  by (auto simp: bit_simps bit_low_masks intro!: bit_word_eqI)

lemma reg_new_nibble: "reg_new (ucast (w AND 0xf :: u16)) = Some (ucast w)"
proof -
  have "(ucast (w AND 0xf :: u16) :: u8) = reg_index (ucast w)"
    by (auto simp: bit_simps bit_low_masks intro!: bit_word_eqI)
  then show ?thesis by simp
qed

lemma m7_decode_fields:
  "m7_decode w =
     (if drop_bit 12 w \<noteq> 0xC then Inl NotM7
      else case m7_function (ucast (reg_index (field_c w))) of
             None \<Rightarrow> Inl ReservedFunction
           | Some op \<Rightarrow> Inr \<lparr>m7_op_of = op, m7_rd = field_a w, m7_rs = field_b w\<rparr>)"
  by (simp add: m7_decode_def reg_new_nibble and_nibble field_defs cong: option.case_cong)

lemma ucast_nibble_lt_16: "(ucast (reg_index r) :: u16) < 16"
  by (simp add: word_less_nat_alt unsigned_ucast_eq take_bit_nat_eq_self reg_le_15 less_trans [OF reg_le_15])

lemma m7_decode_encode_eq: "m7_decode (m7_encode i) = Inr i"
  by (cases i) (simp add: m7_encode_r3 m7_decode_fields drop_12_r3 field_r3)

lemma m7_encode_decode_eq:
  assumes "m7_decode w = Inr i"
  shows "m7_encode i = w"
proof -
  from assms have p: "drop_bit 12 w = 0xC"
    and f: "m7_function (ucast (reg_index (field_c w))) = Some (m7_op_of i)"
    and r: "m7_rd i = field_a w" "m7_rs i = field_b w"
    by (auto simp: m7_decode_fields split: if_splits option.splits)
  from f have "m7_code (m7_op_of i) = field_c w"
    using m7_function_eq_Some [OF ucast_nibble_lt_16 f] by simp
  then show ?thesis
    using encode_r3_fields [of w] by (simp add: m7_encode_r3 p r)
qed

section \<open>Arithmetic of the multiply and divide group\<close>

text \<open>
  \<open>mulhu\<close> and \<open>mul\<close> are the two halves of the unsigned 64-bit product, and \<open>mulh\<close> and \<open>mul\<close>
  of the signed one.
\<close>

lemma mulhu_uint:
  "uint (execute_reference M7_Mulhu a b) = (uint a * uint b) div 2 ^ 32"
proof -
  have "uint a * uint b < 2 ^ 32 * 2 ^ 32"
    using uint_u32_less [of a] uint_u32_less [of b] by (intro mult_strict_mono) simp_all
  then have ab: "uint a * uint b < 2 ^ 64" by simp
  then have "uint (ucast a * ucast b :: 64 word) = uint a * uint b"
    using uint_u32_less [of a] uint_u32_less [of b]
    by (simp add: uint_word_ariths unsigned_ucast_eq take_bit_eq_mod)
  with ab have "uint (drop_bit 32 (ucast a * ucast b :: 64 word)) = (uint a * uint b) div 2 ^ 32"
    by (simp only: unsigned_drop_bit_eq) (simp add: drop_bit_eq_div take_bit_int_eq_self)
  moreover have "(uint a * uint b) div 2 ^ 32 < 2 ^ 32"
    using ab by (simp add: div_less_iff_less_mult)
  ultimately show ?thesis
    by (simp add: execute_reference_def unsigned_ucast_eq take_bit_eq_mod mod_pos_pos_trivial
        pos_imp_zdiv_nonneg_iff)
qed

lemma signed_product_bound:
  fixes x y :: int
  assumes "- (2 ^ 31) \<le> x" "x < 2 ^ 31" "- (2 ^ 31) \<le> y" "y < 2 ^ 31"
  shows "\<bar>x * y\<bar> \<le> 2 ^ 62"
proof -
  have "\<bar>x\<bar> \<le> 2 ^ 31" "\<bar>y\<bar> \<le> 2 ^ 31" using assms by auto
  then have "\<bar>x\<bar> * \<bar>y\<bar> \<le> 2 ^ 31 * 2 ^ 31" by (intro mult_mono) auto
  then show ?thesis by (simp add: abs_mult)
qed

lemma sint_product_64:
  "sint (scast (a :: u32) * scast (b :: u32) :: 64 word) = sint a * sint b"
proof -
  have "\<bar>sint a * sint b\<bar> \<le> 2 ^ 62"
    by (rule signed_product_bound) (rule sint_u32_ge sint_u32_less)+
  then show ?thesis
    by (simp add: sint_word_ariths signed_take_bit_int_eq_self)
qed

lemma mulh_sint:
  "sint (execute_reference M7_Mulh a b) = (sint a * sint b) div 2 ^ 32"
proof -
  have "\<bar>sint a * sint b\<bar> \<le> 2 ^ 62"
    by (rule signed_product_bound) (rule sint_u32_ge sint_u32_less)+
  then have "- (2 ^ 31) \<le> (sint a * sint b) div 2 ^ 32" "(sint a * sint b) div 2 ^ 32 < 2 ^ 31"
    by simp_all
  then show ?thesis
    by (simp add: execute_reference_def ucast_eq_scast_down signed_scast_eq sint_product_64
        sint_signed_drop_bit_eq drop_bit_eq_div signed_take_bit_int_eq_self)
qed

lemma mulo_iff:
  "execute_reference M7_Mulo a b = of_bool (\<not> (- (2 ^ 31) \<le> sint a * sint b \<and> sint a * sint b < 2 ^ 31))"
proof -
  have "(scast a * scast b :: 64 word) = scast (a * b) \<longleftrightarrow> sint a * sint b = sint (a * b)"
    using word_eq_iff_signed [of "scast a * scast b :: 64 word" "scast (a * b)", where ?'a = int]
    by (simp add: sint_product_64)
  also have "\<dots> \<longleftrightarrow> - (2 ^ 31) \<le> sint a * sint b \<and> sint a * sint b < 2 ^ 31"
    using sint_u32_ge [of "a * b"] sint_u32_less [of "a * b"]
    by (auto simp: sint_word_ariths signed_take_bit_int_eq_self)
  finally show ?thesis by (simp add: execute_reference_def)
qed

section \<open>Properties\<close>

text \<open>
  C38: the M7 decoder is the exact inverse of the encoder. A 16-bit word decodes to an instruction
  if and only if it is the encoding of that instruction, so no two instructions share a word and
  every word outside the image is refused.
\<close>

theorem m7_decode_exact: "m7_decode w = Inr i \<longleftrightarrow> w = m7_encode i"
  using m7_decode_encode_eq m7_encode_decode_eq by blast

text \<open>What the reference executor computes, read in unbounded integers. The high products are the
  upper words of the exact unsigned and signed 64-bit products, and \<open>mulo\<close> is 1 exactly when the
  signed product does not fit 32 bits.
\<close>

theorem m7_products_exact:
  "uint (execute_reference M7_Mulhu a b) = (uint a * uint b) div 2 ^ 32 \<and>
   sint (execute_reference M7_Mulh a b) = (sint a * sint b) div 2 ^ 32 \<and>
   execute_reference M7_Mulo a b =
     of_bool (\<not> (- (2 ^ 31) \<le> sint a * sint b \<and> sint a * sint b < 2 ^ 31))"
  using mulhu_uint mulh_sint mulo_iff by blast

text \<open>Quotient and remainder of the reference executor agree with each other on every input,
  division by zero and the overflowing signed quotient included: quotient times divisor plus
  remainder is the dividend, for the signed and the unsigned pair of instructions.
\<close>

theorem m7_divrem_identity:
  "execute_reference M7_Div a b * b + execute_reference M7_Rem a b = a \<and>
   execute_reference M7_Divu a b * b + execute_reference M7_Remu a b = a"
proof
  have "word_of_int (sint a sdiv sint b) * b + word_of_int (sint a smod sint b) =
      (word_of_int (sint a sdiv sint b * sint b + sint a smod sint b) :: u32)"
    by simp
  also have "\<dots> = a" by (simp only: sdiv_mult_smod_eq) simp
  finally show "execute_reference M7_Div a b * b + execute_reference M7_Rem a b = a"
    by (simp add: execute_reference_def signed_div_def signed_rem_def i32_MIN_def)
  show "execute_reference M7_Divu a b * b + execute_reference M7_Remu a b = a"
    by (simp add: execute_reference_def div_mult_mod_eq)
qed

end
