(* ===== verification/Sia32_Isa.thy ===== *)
theory Sia32_Isa
  imports Sia32_M7
begin

text \<open>
  What the code generator relies on of the SIA32 processor. The processor is not part of the
  repository; it is a parameter \<open>exec\<close>, the effect of one 16-bit instruction word on the machine
  state, and the locale \<open>sia_isa\<close> states the documented meaning of every encoding the backend
  emits for ordinary code: r0 reads as zero and ignores writes, comparisons produce all ones or
  zero, register shift counts are taken modulo 32, the multiply/divide/bit group is the reference
  executor of \<open>m7.rs\<close>, branch displacements count halfwords from the following instruction and
  literal displacements count words from the aligned \<open>pc + 4\<close>. Word and halfword accesses are
  specified only at aligned addresses; \<open>ADDO\<close>, \<open>SUBO\<close> and the privileged instructions are
  left unspecified.

  \<open>sia_exec\<close> is a concrete processor that decodes by bit fields; its interpretation of the locale
  shows that the laws are consistent with each other, that is, that no two of the encodings clash.
\<close>

record cpu =
  gpr :: "reg \<Rightarrow> u32"
  pc :: u32
  mem :: "u32 \<Rightarrow> u8"

definition get_gpr :: "cpu \<Rightarrow> reg \<Rightarrow> u32" where
  "get_gpr s r = (if r = reg_ZERO then 0 else gpr s r)"

definition set_gpr :: "reg \<Rightarrow> u32 \<Rightarrow> cpu \<Rightarrow> cpu" where
  "set_gpr r v s = (if r = reg_ZERO then s else s\<lparr>gpr := (gpr s)(r := v)\<rparr>)"

definition advance :: "cpu \<Rightarrow> cpu" where
  "advance s = s\<lparr>pc := pc s + 2\<rparr>"

definition load8 :: "cpu \<Rightarrow> u32 \<Rightarrow> u8" where
  "load8 s a = mem s a"

definition load16 :: "cpu \<Rightarrow> u32 \<Rightarrow> u16" where
  "load16 s a = u16_from_le_bytes (mem s a) (mem s (a + 1))"

definition load32 :: "cpu \<Rightarrow> u32 \<Rightarrow> u32" where
  "load32 s a = u32_from_le_bytes (mem s a) (mem s (a + 1)) (mem s (a + 2)) (mem s (a + 3))"

definition store8 :: "u32 \<Rightarrow> u8 \<Rightarrow> cpu \<Rightarrow> cpu" where
  "store8 a v s = s\<lparr>mem := (mem s)(a := v)\<rparr>"

definition store16 :: "u32 \<Rightarrow> u16 \<Rightarrow> cpu \<Rightarrow> cpu" where
  "store16 a v s = s\<lparr>mem := (mem s)(a := ucast v, a + 1 := ucast (drop_bit 8 v))\<rparr>"

definition store32 :: "u32 \<Rightarrow> u32 \<Rightarrow> cpu \<Rightarrow> cpu" where
  "store32 a v s = s\<lparr>mem := (mem s)(a := ucast v, a + 1 := ucast (drop_bit 8 v),
     a + 2 := ucast (drop_bit 16 v), a + 3 := ucast (drop_bit 24 v))\<rparr>"

text \<open>The shape of a two-address law: \<open>rd\<close> becomes a function of \<open>rd\<close> and \<open>rs\<close>.\<close>

definition two_law :: "(u16 \<Rightarrow> cpu \<Rightarrow> cpu) \<Rightarrow> (reg \<Rightarrow> reg \<Rightarrow> u16) \<Rightarrow> (u32 \<Rightarrow> u32 \<Rightarrow> u32) \<Rightarrow> bool" where
  "two_law exec enc f \<longleftrightarrow>
     (\<forall>d r s. exec (enc d r) s = advance (set_gpr d (f (get_gpr s d) (get_gpr s r)) s))"

text \<open>Unary and load laws: \<open>rd\<close> becomes a function of the state and \<open>rs\<close>, if \<open>ok\<close> holds of \<open>rs\<close>.\<close>

definition unary_law ::
  "(u16 \<Rightarrow> cpu \<Rightarrow> cpu) \<Rightarrow> (reg \<Rightarrow> reg \<Rightarrow> u16) \<Rightarrow> (u32 \<Rightarrow> bool) \<Rightarrow> (cpu \<Rightarrow> u32 \<Rightarrow> u32) \<Rightarrow> bool" where
  "unary_law exec enc ok f \<longleftrightarrow>
     (\<forall>d r s. ok (get_gpr s r) \<longrightarrow> exec (enc d r) s = advance (set_gpr d (f s (get_gpr s r)) s))"

definition store_law ::
  "(u16 \<Rightarrow> cpu \<Rightarrow> cpu) \<Rightarrow> (reg \<Rightarrow> reg \<Rightarrow> u16) \<Rightarrow> (u32 \<Rightarrow> bool) \<Rightarrow> (u32 \<Rightarrow> u32 \<Rightarrow> cpu \<Rightarrow> cpu) \<Rightarrow> bool" where
  "store_law exec enc ok f \<longleftrightarrow>
     (\<forall>v b s. ok (get_gpr s b) \<longrightarrow> exec (enc v b) s = advance (f (get_gpr s b) (get_gpr s v) s))"

definition aligned2 :: "u32 \<Rightarrow> bool" where "aligned2 a \<longleftrightarrow> a AND 1 = 0"
definition aligned4 :: "u32 \<Rightarrow> bool" where "aligned4 a \<longleftrightarrow> a AND 3 = 0"

locale sia_alu =
  fixes exec :: "u16 \<Rightarrow> cpu \<Rightarrow> cpu"
  assumes isa_add: "d \<noteq> reg_ZERO \<Longrightarrow>
      exec (encode_add d a b) s = advance (set_gpr d (get_gpr s a + get_gpr s b) s)"
    and isa_clz: "unary_law exec encode_clz (\<lambda>_. True) (\<lambda>_. clz32)"
    and isa_ctz: "unary_law exec encode_ctz (\<lambda>_. True) (\<lambda>_. ctz32)"
    and isa_cpop: "unary_law exec encode_cpop (\<lambda>_. True) (\<lambda>_. cpop32)"
    and isa_sub: "two_law exec encode_sub (\<lambda>a b. a - b)"
    and isa_cmpeq: "two_law exec encode_cmpeq (\<lambda>a b. if a = b then -1 else 0)"
    and isa_cmplt: "two_law exec encode_cmplt (\<lambda>a b. if sint a < sint b then -1 else 0)"
    and isa_cmpltu: "two_law exec encode_cmpltu (\<lambda>a b. if a < b then -1 else 0)"
    and isa_min: "two_law exec encode_min (\<lambda>a b. if sint a \<le> sint b then a else b)"
    and isa_minu: "two_law exec encode_minu (\<lambda>a b. if a \<le> b then a else b)"
    and isa_max: "two_law exec encode_max (\<lambda>a b. if sint a \<le> sint b then b else a)"
    and isa_maxu: "two_law exec encode_maxu (\<lambda>a b. if a \<le> b then b else a)"
    and isa_and: "two_law exec encode_and (\<lambda>a b. a AND b)"
    and isa_or: "two_law exec encode_or (\<lambda>a b. a OR b)"
    and isa_xor: "two_law exec encode_xor (\<lambda>a b. a XOR b)"
    and isa_shl: "two_law exec encode_shl (\<lambda>a b. push_bit (unat (b AND 31)) a)"
    and isa_shr: "two_law exec encode_shr (\<lambda>a b. drop_bit (unat (b AND 31)) a)"
    and isa_sar: "two_law exec encode_sar (\<lambda>a b. signed_drop_bit (unat (b AND 31)) a)"
    and isa_bset: "two_law exec encode_bset (execute_reference M7_Bset)"
    and isa_bclr: "two_law exec encode_bclr (execute_reference M7_Bclr)"
    and isa_binv: "two_law exec encode_binv (execute_reference M7_Binv)"
    and isa_bext: "two_law exec encode_bext (execute_reference M7_Bext)"
    and isa_mul: "two_law exec encode_mul (execute_reference M7_Mul)"
    and isa_mulhu: "two_law exec encode_mulhu (execute_reference M7_Mulhu)"
    and isa_div: "two_law exec encode_div (execute_reference M7_Div)"
    and isa_divu: "two_law exec encode_divu (execute_reference M7_Divu)"
    and isa_rem: "two_law exec encode_rem (execute_reference M7_Rem)"
    and isa_remu: "two_law exec encode_remu (execute_reference M7_Remu)"
    and isa_rev8: "two_law exec encode_rev8 (execute_reference M7_Rev8)"
    and isa_shli: "encode_shli d n = Inr w \<Longrightarrow>
      exec w s = advance (set_gpr d (push_bit (unat n) (get_gpr s d)) s)"
    and isa_shri: "encode_shri d n = Inr w \<Longrightarrow>
      exec w s = advance (set_gpr d (drop_bit (unat n) (get_gpr s d)) s)"
    and isa_sari: "encode_sari d n = Inr w \<Longrightarrow>
      exec w s = advance (set_gpr d (signed_drop_bit (unat n) (get_gpr s d)) s)"
    and isa_li: "encode_li d i = Inr w \<Longrightarrow> exec w s = advance (set_gpr d i s)"
    and isa_addi: "encode_addi d i = Inr w \<Longrightarrow>
      exec w s = advance (set_gpr d (get_gpr s d + i) s)"

locale sia_isa = sia_alu +
  assumes isa_lb: "unary_law exec encode_lb (\<lambda>_. True) (\<lambda>s a. scast (load8 s a))"
    and isa_lbu: "unary_law exec encode_lbu (\<lambda>_. True) (\<lambda>s a. ucast (load8 s a))"
    and isa_lh: "unary_law exec encode_lh aligned2 (\<lambda>s a. scast (load16 s a))"
    and isa_lhu: "unary_law exec encode_lhu aligned2 (\<lambda>s a. ucast (load16 s a))"
    and isa_lw: "unary_law exec encode_lw aligned4 load32"
    and isa_sb: "store_law exec encode_sb (\<lambda>_. True) (\<lambda>a v. store8 a (ucast v))"
    and isa_sh: "store_law exec encode_sh aligned2 (\<lambda>a v. store16 a (ucast v))"
    and isa_sw: "store_law exec encode_sw aligned4 store32"
    and isa_lda_w: "d \<noteq> reg_ZERO \<Longrightarrow> aligned4 (get_gpr s b + get_gpr s ix) \<Longrightarrow>
      exec (encode_lda_w d b ix) s = advance (set_gpr d (load32 s (get_gpr s b + get_gpr s ix)) s)"
    and isa_sta_w: "aligned4 (get_gpr s b + get_gpr s ix) \<Longrightarrow>
      exec (encode_sta_w v b ix) s = advance (store32 (get_gpr s b + get_gpr s ix) (get_gpr s v) s)"
    and isa_sw_pre: "aligned4 (get_gpr s b - 4) \<Longrightarrow> v \<noteq> b \<Longrightarrow>
      exec (encode_sw_pre v b) s =
        advance (set_gpr b (get_gpr s b - 4) (store32 (get_gpr s b - 4) (get_gpr s v) s))"
    and isa_lw_post: "encode_lw_post v b = Inr w \<Longrightarrow> aligned4 (get_gpr s b) \<Longrightarrow>
      exec w s = advance (set_gpr b (get_gpr s b + 4) (set_gpr v (load32 s (get_gpr s b)) s))"
    and isa_ldpc_w: "encode_ldpc_w d i = Inr w \<Longrightarrow>
      exec w s = advance (set_gpr d (load32 s (((pc s + 4) AND NOT 3) + 4 * i)) s)"
    and isa_bnz: "encode_bnz r i = Inr w \<Longrightarrow>
      exec w s = s\<lparr>pc := pc s + 2 + (if get_gpr s r \<noteq> 0 then 2 * i else 0)\<rparr>"
    and isa_b: "encode_b i = Inr w \<Longrightarrow> exec w s = s\<lparr>pc := pc s + 2 + 2 * i\<rparr>"
    and isa_bl: "encode_bl i = Inr w \<Longrightarrow>
      exec w s = (set_gpr reg_LR (pc s + 2) s)\<lparr>pc := pc s + 2 + 2 * i\<rparr>"
    and isa_jalr: "exec (encode_jalr d b) s = (set_gpr d (pc s + 2) s)\<lparr>pc := get_gpr s b\<rparr>"

section \<open>A concrete processor\<close>

definition alu_write :: "reg \<Rightarrow> u32 \<Rightarrow> cpu \<Rightarrow> cpu" where
  "alu_write d v s = advance (set_gpr d v s)"

definition exec_group4 :: "reg \<Rightarrow> u32 \<Rightarrow> u32 \<Rightarrow> u32" where
  "exec_group4 f a b =
     (if f = 0 then a - b
      else if f = 3 then (if a = b then -1 else 0)
      else if f = 4 then (if sint a < sint b then -1 else 0)
      else if f = 5 then (if a < b then -1 else 0)
      else if f = 6 then (if sint a \<le> sint b then a else b)
      else if f = 7 then (if a \<le> b then a else b)
      else if f = 8 then (if sint a \<le> sint b then b else a)
      else if f = 9 then (if a \<le> b then b else a)
      else 0)"

definition exec_group5 :: "reg \<Rightarrow> reg \<Rightarrow> u32 \<Rightarrow> u32 \<Rightarrow> u32" where
  "exec_group5 f n a b =
     (if f = 0 then a AND b
      else if f = 1 then a OR b
      else if f = 2 then a XOR b
      else if f = 3 then push_bit (unat (b AND 31)) a
      else if f = 4 then drop_bit (unat (b AND 31)) a
      else if f = 5 then signed_drop_bit (unat (b AND 31)) a
      else if f = 6 then push_bit (unat n) a
      else if f = 7 then push_bit (unat n + 16) a
      else if f = 8 then drop_bit (unat n) a
      else if f = 9 then drop_bit (unat n + 16) a
      else if f = 10 then signed_drop_bit (unat n) a
      else if f = 11 then signed_drop_bit (unat n + 16) a
      else 0)"

definition exec_group7 :: "reg \<Rightarrow> reg \<Rightarrow> reg \<Rightarrow> cpu \<Rightarrow> cpu" where
  "exec_group7 f v b s =
     (let a = get_gpr s b in
      if f = 0 then alu_write v (scast (load8 s a)) s
      else if f = 1 then alu_write v (ucast (load8 s a)) s
      else if f = 2 then alu_write v (scast (load16 s a)) s
      else if f = 3 then alu_write v (ucast (load16 s a)) s
      else if f = 4 then alu_write v (load32 s a) s
      else if f = 5 then advance (store8 a (ucast (get_gpr s v)) s)
      else if f = 6 then advance (store16 a (ucast (get_gpr s v)) s)
      else if f = 7 then advance (store32 a (get_gpr s v) s)
      else if f = 12 then advance (set_gpr b (a + 4) (set_gpr v (load32 s a) s))
      else if f = 15 then advance (set_gpr b (a - 4) (store32 (a - 4) (get_gpr s v) s))
      else advance s)"

definition sia_exec :: "u16 \<Rightarrow> cpu \<Rightarrow> cpu" where
  "sia_exec w s =
     (let p = field_primary w; a = field_a w; b = field_b w; c = field_c w;
          x = get_gpr s a; y = get_gpr s b; z = get_gpr s c in
      if p = 0 then (if a = 0 then alu_write b (clz32 z) s else alu_write a (y + z) s)
      else if p = 1 then (if a = 0 then alu_write b (ctz32 z) s else advance s)
      else if p = 2 then (if a = 0 then alu_write b (cpop32 z) s else alu_write a (load32 s (y + z)) s)
      else if p = 3 then advance (store32 (y + z) x s)
      else if p = 4 then alu_write a (exec_group4 c x y) s
      else if p = 5 then alu_write a (exec_group5 c b x y) s
      else if p = 6 then alu_write (field_r7 w)
        ((if field_tag w = 0xC then 0 else get_gpr s (field_r7 w)) + field_imm7 w) s
      else if p = 7 then exec_group7 c a b s
      else if p = 9 then alu_write a (load32 s (((pc s + 4) AND NOT 3) + 4 * field_imm8 w)) s
      else if p = 10 then
        s\<lparr>pc := pc s + 2 + (if get_gpr s (field_r7 w) \<noteq> 0 then 2 * field_imm7 w else 0)\<rparr>
      else if p = 11 then
        (if field_tag w = 0x16 then s else set_gpr reg_LR (pc s + 2) s)\<lparr>pc := pc s + 2 + 2 * field_imm11 w\<rparr>
      else if p = 12 then
        (if c = 0 then (set_gpr a (pc s + 2) s)\<lparr>pc := y\<rparr>
         else case m7_decode w of Inr i \<Rightarrow> alu_write a (execute_reference (m7_op_of i) x y) s
              | Inl _ \<Rightarrow> advance s)
      else advance s)"

section \<open>The concrete processor satisfies the laws\<close>

lemma field_primary_tag: "field_primary w = ucast (drop_bit 1 (field_tag w))"
  by (auto simp: field_defs bit_simps intro!: bit_word_eqI)

lemma sia_exec_r3:
  "sia_exec (encode_r3 0 a b c) s =
     (if a = 0 then alu_write b (clz32 (get_gpr s c)) s
      else alu_write a (get_gpr s b + get_gpr s c) s)"
  "sia_exec (encode_r3 1 0 b c) s = alu_write b (ctz32 (get_gpr s c)) s"
  "sia_exec (encode_r3 2 a b c) s =
     (if a = 0 then alu_write b (cpop32 (get_gpr s c)) s
      else alu_write a (load32 s (get_gpr s b + get_gpr s c)) s)"
  "sia_exec (encode_r3 3 a b c) s = advance (store32 (get_gpr s b + get_gpr s c) (get_gpr s a) s)"
  "sia_exec (encode_r3 4 a b c) s = alu_write a (exec_group4 c (get_gpr s a) (get_gpr s b)) s"
  "sia_exec (encode_r3 5 a b c) s = alu_write a (exec_group5 c b (get_gpr s a) (get_gpr s b)) s"
  "sia_exec (encode_r3 7 a b c) s = exec_group7 c a b s"
  "sia_exec (encode_r3 12 a b 0) s = (set_gpr a (pc s + 2) s)\<lparr>pc := get_gpr s b\<rparr>"
  by (simp_all add: sia_exec_def field_r3 Let_def)

lemma sia_exec_m7:
  "sia_exec (encode_r3 0xC d r (m7_code op)) s =
     advance (set_gpr d (execute_reference op (get_gpr s d) (get_gpr s r)) s)"
proof -
  have "m7_decode (encode_r3 0xC d r (m7_code op)) = Inr (m7_new op d r)"
    using m7_decode_encode_eq [of "m7_new op d r"] by (simp add: m7_encode_r3 m7_new_def)
  moreover have "m7_code op \<noteq> 0" by (cases op) auto
  ultimately show ?thesis
    by (simp add: sia_exec_def field_r3 m7_new_def alu_write_def Let_def)
qed

lemmas group_defs = exec_group4_def exec_group5_def exec_group7_def alu_write_def

lemmas alu_encoder_defs =
  encode_sub_def encode_cmpeq_def encode_cmplt_def encode_cmpltu_def encode_min_def
  encode_minu_def encode_max_def encode_maxu_def encode_and_def encode_or_def encode_xor_def
  encode_shl_def encode_shr_def encode_sar_def

lemmas mem_encoder_defs =
  encode_lb_def encode_lbu_def encode_lh_def encode_lhu_def encode_lw_def encode_sb_def
  encode_sh_def encode_sw_def encode_lda_w_def encode_sta_w_def encode_sw_pre_def

lemmas law_defs = two_law_def unary_law_def store_law_def

lemma m7_laws:
  "two_law sia_exec encode_bset (execute_reference M7_Bset)"
  "two_law sia_exec encode_bclr (execute_reference M7_Bclr)"
  "two_law sia_exec encode_binv (execute_reference M7_Binv)"
  "two_law sia_exec encode_bext (execute_reference M7_Bext)"
  "two_law sia_exec encode_mul (execute_reference M7_Mul)"
  "two_law sia_exec encode_mulhu (execute_reference M7_Mulhu)"
  "two_law sia_exec encode_div (execute_reference M7_Div)"
  "two_law sia_exec encode_divu (execute_reference M7_Divu)"
  "two_law sia_exec encode_rem (execute_reference M7_Rem)"
  "two_law sia_exec encode_remu (execute_reference M7_Remu)"
  "two_law sia_exec encode_rev8 (execute_reference M7_Rev8)"
  unfolding two_law_def m7_encoder_defs
  using sia_exec_m7 [where op = M7_Bset] sia_exec_m7 [where op = M7_Bclr]
    sia_exec_m7 [where op = M7_Binv] sia_exec_m7 [where op = M7_Bext]
    sia_exec_m7 [where op = M7_Mul] sia_exec_m7 [where op = M7_Mulhu]
    sia_exec_m7 [where op = M7_Div] sia_exec_m7 [where op = M7_Divu]
    sia_exec_m7 [where op = M7_Rem] sia_exec_m7 [where op = M7_Remu]
    sia_exec_m7 [where op = M7_Rev8]
  by (simp_all add: encode_r2f_eq_r3)

lemma sia_exec_imm7:
  assumes "-64 \<le> sint i" "sint i \<le> 63"
  shows "sia_exec (imm7_form 0xC d i) s = advance (set_gpr d i s)"
    "sia_exec (imm7_form 0xD d i) s = advance (set_gpr d (get_gpr s d + i) s)"
    "sia_exec (imm7_form 0x14 d i) s =
       s\<lparr>pc := pc s + 2 + (if get_gpr s d \<noteq> 0 then 2 * i else 0)\<rparr>"
  using assms
  by (simp_all add: sia_exec_def field_primary_tag field_imm7_form field_imm7_recover alu_write_def Let_def)

lemma sia_exec_imm_branch:
  assumes "-1024 \<le> sint i" "sint i \<le> 1023"
  shows "sia_exec (imm11_form 0x16 i) s = s\<lparr>pc := pc s + 2 + 2 * i\<rparr>"
    "sia_exec (imm11_form 0x17 i) s = (set_gpr reg_LR (pc s + 2) s)\<lparr>pc := pc s + 2 + 2 * i\<rparr>"
  using assms
  by (simp_all add: sia_exec_def field_primary_tag field_imm11_form field_imm11_recover Let_def)

lemma sia_exec_imm8:
  assumes "-128 \<le> sint i" "sint i \<le> 127"
  shows "sia_exec (imm8_form 0x9 d i) s =
    advance (set_gpr d (load32 s (((pc s + 4) AND NOT 3) + 4 * i)) s)"
  using assms by (simp add: sia_exec_def field_imm8_form field_imm8_recover alu_write_def Let_def)

lemma u8_shift_cases:
  assumes "shift_imm d n f g = Inr w"
  obtains (low) "w = encode_r2f 5 d (ucast n) f" "unat (ucast n :: reg) = unat n"
    | (high) "w = encode_r2f 5 d (ucast (n - 16)) g" "unat (ucast (n - 16) :: reg) + 16 = unat n"
proof -
  have "n < 32" using assms by (cases "32 \<le> n") (simp_all add: shift_imm_error not_le)
  show thesis
  proof (cases "n < 16")
    case True
    then have "unat (ucast n :: reg) = unat n"
      by (simp add: unsigned_ucast_eq take_bit_nat_eq_self word_less_nat_alt)
    with True assms show thesis by (intro low) (simp_all add: shift_imm_low)
  next
    case False
    with \<open>n < 32\<close> have "unat (n - 16) = unat n - 16" "unat n < 32" "16 \<le> unat n"
      by (simp_all add: unat_sub word_le_nat_alt word_less_nat_alt)
    then have "unat (ucast (n - 16) :: reg) + 16 = unat n"
      by (simp add: unsigned_ucast_eq take_bit_nat_eq_self)
    with False \<open>n < 32\<close> assms show thesis by (intro high) (simp_all add: shift_imm_high)
  qed
qed

lemma sia_exec_shift_imm:
  "encode_shli d n = Inr w \<Longrightarrow>
     sia_exec w s = advance (set_gpr d (push_bit (unat n) (get_gpr s d)) s)"
  "encode_shri d n = Inr w \<Longrightarrow>
     sia_exec w s = advance (set_gpr d (drop_bit (unat n) (get_gpr s d)) s)"
  "encode_sari d n = Inr w \<Longrightarrow>
     sia_exec w s = advance (set_gpr d (signed_drop_bit (unat n) (get_gpr s d)) s)"
  unfolding encode_shli_def encode_shri_def encode_sari_def
  by (erule u8_shift_cases; simp add: encode_r2f_eq_r3 sia_exec_r3 group_defs Let_def)+

lemma alu_laws:
  "two_law sia_exec encode_sub (\<lambda>a b. a - b)"
  "two_law sia_exec encode_cmpeq (\<lambda>a b. if a = b then -1 else 0)"
  "two_law sia_exec encode_cmplt (\<lambda>a b. if sint a < sint b then -1 else 0)"
  "two_law sia_exec encode_cmpltu (\<lambda>a b. if a < b then -1 else 0)"
  "two_law sia_exec encode_min (\<lambda>a b. if sint a \<le> sint b then a else b)"
  "two_law sia_exec encode_minu (\<lambda>a b. if a \<le> b then a else b)"
  "two_law sia_exec encode_max (\<lambda>a b. if sint a \<le> sint b then b else a)"
  "two_law sia_exec encode_maxu (\<lambda>a b. if a \<le> b then b else a)"
  "two_law sia_exec encode_and (\<lambda>a b. a AND b)"
  "two_law sia_exec encode_or (\<lambda>a b. a OR b)"
  "two_law sia_exec encode_xor (\<lambda>a b. a XOR b)"
  "two_law sia_exec encode_shl (\<lambda>a b. push_bit (unat (b AND 31)) a)"
  "two_law sia_exec encode_shr (\<lambda>a b. drop_bit (unat (b AND 31)) a)"
  "two_law sia_exec encode_sar (\<lambda>a b. signed_drop_bit (unat (b AND 31)) a)"
  by (simp_all add: two_law_def alu_encoder_defs encode_r2f_eq_r3 sia_exec_r3 group_defs)

lemma unary_laws:
  "unary_law sia_exec encode_clz (\<lambda>_. True) (\<lambda>_. clz32)"
  "unary_law sia_exec encode_ctz (\<lambda>_. True) (\<lambda>_. ctz32)"
  "unary_law sia_exec encode_cpop (\<lambda>_. True) (\<lambda>_. cpop32)"
  by (simp_all add: unary_law_def encode_clz_def encode_ctz_def encode_cpop_def sia_exec_r3
      alu_write_def reg_ZERO_def)

lemma mem_laws:
  "unary_law sia_exec encode_lb (\<lambda>_. True) (\<lambda>s a. scast (load8 s a))"
  "unary_law sia_exec encode_lbu (\<lambda>_. True) (\<lambda>s a. ucast (load8 s a))"
  "unary_law sia_exec encode_lh aligned2 (\<lambda>s a. scast (load16 s a))"
  "unary_law sia_exec encode_lhu aligned2 (\<lambda>s a. ucast (load16 s a))"
  "unary_law sia_exec encode_lw aligned4 load32"
  "store_law sia_exec encode_sb (\<lambda>_. True) (\<lambda>a v. store8 a (ucast v))"
  "store_law sia_exec encode_sh aligned2 (\<lambda>a v. store16 a (ucast v))"
  "store_law sia_exec encode_sw aligned4 store32"
  by (simp_all add: law_defs mem_encoder_defs encode_r2f_eq_r3 sia_exec_r3 group_defs)

interpretation sia: sia_alu sia_exec
  by unfold_locales
    (simp_all add: alu_laws unary_laws m7_laws sia_exec_shift_imm encode_imm_forms guarded_Inr
      sia_exec_imm7 encode_add_def sia_exec_r3 alu_write_def reg_ZERO_def)

interpretation sia: sia_isa sia_exec
  by unfold_locales
    (auto simp: mem_laws mem_encoder_defs encode_r2f_eq_r3 sia_exec_r3 group_defs reg_ZERO_def
      encode_lw_post_def encode_jalr_def encode_imm_forms guarded_Inr sia_exec_imm7
      sia_exec_imm_branch sia_exec_imm8 Let_def split: if_splits)

end
