(* ===== verification/Sia32_Label.thy ===== *)
theory Sia32_Label
  imports Sia32_Encode
begin

text \<open>
  \<open>src/cranelift/codegen/src/isa/sia32/label.rs\<close>: how a branch or literal load refers to a label,
  how far it reaches, how the finished displacement is patched into the instruction bytes, and the
  veneers that extend the reach.

  A \<open>CodeOffset\<close> (\<open>u32\<close>) is a \<open>nat\<close>; the one place that wraps, \<open>wrapping_sub\<close> in the long form,
  writes the reduction modulo \<open>2 ^ 32\<close> out. Displacements, \<open>i64\<close> in the source, are \<open>int\<close>: they
  are differences of two \<open>u32\<close> values and cannot overflow. A byte slice is a list and an assertion
  that fails, or a slice that is too short, is \<open>None\<close>.
\<close>

type_synonym code_offset = nat

datatype label_use = Cond7 | Branch11 | Literal8 | LongDelta32 u8

fun read_word :: "u8 list \<Rightarrow> u16 option" where
  "read_word (b0 # b1 # bs) = Some (u16_from_le_bytes b0 b1)"
| "read_word _ = None"

fun write_word :: "u8 list \<Rightarrow> u16 \<Rightarrow> u8 list option" where
  "write_word (b0 # b1 # bs) word = Some (u16_to_le_bytes word @ bs)"
| "write_word _ word = None"

text \<open>The asserted divisibility makes the truncating division of the source exact.\<close>

definition branch_disp_halfwords :: "code_offset \<Rightarrow> code_offset \<Rightarrow> int option" where
  "branch_disp_halfwords use_offset label_offset =
     (let delta = int label_offset - (int use_offset + 2)
      in if delta mod 2 = 0 then Some (delta div 2) else None)"

definition literal_disp_words :: "code_offset \<Rightarrow> code_offset \<Rightarrow> int option" where
  "literal_disp_words use_offset label_offset =
     (if label_offset mod 4 \<noteq> 0 then None
      else let base = (use_offset + 4) div 4 * 4;
               delta = int label_offset - int base
           in if delta mod 4 = 0 then Some (delta div 4) else None)"

definition LABEL_USE_ALIGN :: code_offset where "LABEL_USE_ALIGN = 2"

definition u32_max :: nat where "u32_max = 2 ^ 32 - 1"

text \<open>\<open>a + b\<close> on \<open>u32\<close> where overflow checks are on: overflow is a panic.\<close>

definition u32_add :: "nat \<Rightarrow> nat \<Rightarrow> nat option" where
  "u32_add a b = (if a + b \<le> u32_max then Some (a + b) else None)"

fun max_pos_range :: "label_use \<Rightarrow> code_offset" where
  "max_pos_range Cond7 = 128"
| "max_pos_range Branch11 = 2048"
| "max_pos_range Literal8 = 508"
| "max_pos_range (LongDelta32 _) = u32_max"

fun max_neg_range :: "label_use \<Rightarrow> code_offset" where
  "max_neg_range Cond7 = 126"
| "max_neg_range Branch11 = 2046"
| "max_neg_range Literal8 = 508"
| "max_neg_range (LongDelta32 _) = u32_max"

fun patch_size :: "label_use \<Rightarrow> code_offset" where
  "patch_size (LongDelta32 _) = 4"
| "patch_size _ = 2"

text \<open>
  \<open>(old & !mask) | (disp as u16 & mask)\<close>, after the assertion that the displacement is in range.
\<close>

definition patch_field :: "u8 list \<Rightarrow> int \<Rightarrow> int \<Rightarrow> u16 \<Rightarrow> int \<Rightarrow> u8 list option" where
  "patch_field buffer lo hi m disp = do {
     old \<leftarrow> read_word buffer;
     assert_that (lo \<le> disp \<and> disp \<le> hi);
     write_word buffer ((old AND NOT m) OR (word_of_int disp AND m))
   }"

fun patch :: "label_use \<Rightarrow> u8 list \<Rightarrow> code_offset \<Rightarrow> code_offset \<Rightarrow> u8 list option" where
  "patch (LongDelta32 pc_back) buffer use_offset label_offset =
     (if length buffer < 4 \<or> use_offset < unat pc_back then None
      else let anchor = use_offset - unat pc_back
           in Some (u32_to_le_bytes (word_of_int (int label_offset - int anchor)) @ drop 4 buffer))"
| "patch Cond7 buffer use_offset label_offset = do {
     assert_that (2 \<le> length buffer);
     disp \<leftarrow> branch_disp_halfwords use_offset label_offset;
     patch_field buffer (-64) 63 0x007f disp
   }"
| "patch Branch11 buffer use_offset label_offset = do {
     assert_that (2 \<le> length buffer);
     disp \<leftarrow> branch_disp_halfwords use_offset label_offset;
     patch_field buffer (-1024) 1023 0x07ff disp
   }"
| "patch Literal8 buffer use_offset label_offset = do {
     assert_that (2 \<le> length buffer);
     disp \<leftarrow> literal_disp_words use_offset label_offset;
     patch_field buffer (-128) 127 0x00ff disp
   }"

fun supports_veneer :: "label_use \<Rightarrow> bool" where
  "supports_veneer Cond7 = True"
| "supports_veneer Branch11 = True"
| "supports_veneer _ = False"

fun veneer_size :: "label_use \<Rightarrow> code_offset" where
  "veneer_size Cond7 = 2"
| "veneer_size Branch11 = 24"
| "veneer_size Literal8 = 0"
| "veneer_size (LongDelta32 _) = 0"

definition worst_case_veneer_size :: code_offset where "worst_case_veneer_size = 24"

text \<open>
  The long veneer: push LR, capture the PC with \<open>BL +0\<close>, load the literal delta, add, pop LR and
  jump. \<open>None\<close> is a failed assertion, a failed \<open>unwrap\<close> of an encoder, or a slice out of range.
\<close>

definition veneer_literal :: "code_offset \<Rightarrow> code_offset" where
  "veneer_literal veneer_offset = (veneer_offset + 19) div 4 * 4"

definition long_veneer_words :: "code_offset \<Rightarrow> u16 list option" where
  "long_veneer_words veneer_offset = do {
     bl \<leftarrow> expect (encode_bl 0);
     ldpc \<leftarrow> expect (encode_ldpc_w reg_SCRATCH
       (word_of_nat ((veneer_literal veneer_offset - (veneer_offset + 8) div 4 * 4) div 4)));
     lw \<leftarrow> expect (encode_lw_post reg_LR reg_SP);
     Some [encode_sw_pre reg_LR reg_SP, bl, ldpc,
           encode_add reg_SCRATCH reg_LR reg_SCRATCH, lw, encode_jr reg_SCRATCH]
   }"

fun generate_veneer ::
  "label_use \<Rightarrow> u8 list \<Rightarrow> code_offset \<Rightarrow> (u8 list \<times> code_offset \<times> label_use) option" where
  "generate_veneer Cond7 buffer veneer_offset = do {
     b \<leftarrow> expect (encode_b 0);
     buffer' \<leftarrow> write_word buffer b;
     Some (buffer', veneer_offset, Branch11)
   }"
| "generate_veneer Branch11 buffer veneer_offset = do {
     assert_that (24 \<le> length buffer);
     words \<leftarrow> long_veneer_words veneer_offset;
     let bytes = concat (map u16_to_le_bytes words);
     let literal = veneer_literal veneer_offset;
     Some (bytes @ replicate (length buffer - length bytes) 0, literal,
           LongDelta32 (word_of_nat (literal - veneer_offset - 4)))
   }"
| "generate_veneer _ buffer veneer_offset = None"

section \<open>Patched instruction words\<close>

lemma write_word_eq: "2 \<le> length bs \<Longrightarrow> write_word bs w = Some (u16_to_le_bytes w @ drop 2 bs)"
  by (cases bs rule: read_word.cases) auto

lemma read_word_eq: "2 \<le> length bs \<Longrightarrow> read_word bs = Some (u16_from_le_bytes (bs ! 0) (bs ! 1))"
  by (cases bs rule: read_word.cases) auto

lemma read_word_bytes [simp]: "read_word (u16_to_le_bytes w @ bs) = Some w"
  using u16_le_bytes_roundtrip [of w] by (simp add: u16_to_le_bytes_def)

lemma read_word_length: "read_word bs = Some w \<Longrightarrow> 2 \<le> length bs"
  by (cases bs rule: read_word.cases) auto

lemma patch_field_eq:
  assumes "read_word bs = Some old" "lo \<le> disp" "disp \<le> hi"
  shows "patch_field bs lo hi m disp =
    Some (u16_to_le_bytes ((old AND NOT m) OR (word_of_int disp AND m)) @ drop 2 bs)"
  using assms read_word_length [OF assms(1)] by (simp add: patch_field_def write_word_eq)

lemma patch_field_None: "\<not> (lo \<le> disp \<and> disp \<le> hi) \<Longrightarrow> patch_field bs lo hi m disp = None"
  by (auto simp: patch_field_def Option.bind_eq_None_conv assert_that_def)

lemma sint_word_of_int_small:
  "- (2 ^ 31) \<le> d \<Longrightarrow> d < 2 ^ 31 \<Longrightarrow> sint (word_of_int d :: i32) = d"
  by (simp add: sint_sbintrunc' signed_take_bit_int_eq_self)

lemma bit_replace_low:
  assumes "\<And>n. n < 16 \<Longrightarrow> bit m n = (n < k)"
  shows "n < 16 \<Longrightarrow> bit ((old AND NOT m) OR (word_of_int disp AND m) :: u16) n =
    (if n < k then bit disp n else bit old n)"
  using assms by (simp add: bit_simps)

lemma replace_low_recover:
  assumes "\<And>n. n < 16 \<Longrightarrow> bit m n = (n < Suc k)" "k < 16" "- (2 ^ k) \<le> disp" "disp < 2 ^ k"
  shows "signed_take_bit k (ucast ((old AND NOT m) OR (word_of_int disp AND m) :: u16)) =
    (word_of_int disp :: i32)"
proof (rule signed_take_bit_recover)
  have "(2 :: int) ^ k \<le> 2 ^ 15" using assms(2) by (intro power_increasing) simp_all
  then have s: "sint (word_of_int disp :: i32) = disp"
    using assms(3,4) by (intro sint_word_of_int_small) simp_all
  show "- (2 ^ k) \<le> sint (word_of_int disp :: i32)" "sint (word_of_int disp :: i32) < 2 ^ k"
    using assms s by simp_all
  show "bit ((old AND NOT m) OR (word_of_int disp AND m)) n = bit (word_of_int disp :: i32) n"
    if "n \<le> k" for n
    using that assms(1,2) by (simp add: bit_replace_low [where k = "Suc k"] bit_simps)
qed (use assms in simp)

lemma cond7_word:
  fixes old :: u16 and disp :: int
  assumes "-64 \<le> disp" "disp \<le> 63"
  defines "w \<equiv> (old AND NOT 0x7f) OR (word_of_int disp AND 0x7f) :: u16"
  shows "field_tag w = field_tag old" "field_r7 w = field_r7 old" "field_imm7 w = word_of_int disp"
proof -
  have m: "bit (0x7f :: u16) n = (n < Suc 6)" if "n < 16" for n
    using that by (auto simp: bit_low_masks)
  have b: "bit w n = (if n < Suc 6 then bit disp n else bit old n)" if "n < 16" for n
    unfolding w_def by (rule bit_replace_low [OF m that])
  show "field_tag w = field_tag old" "field_r7 w = field_r7 old"
    by (rule bit_word_eqI; simp add: field_defs bit_simps b)+
  show "field_imm7 w = word_of_int disp"
    unfolding w_def field_defs using assms m by (intro replace_low_recover) auto
qed

lemma branch11_word:
  fixes old :: u16 and disp :: int
  assumes "-1024 \<le> disp" "disp \<le> 1023"
  defines "w \<equiv> (old AND NOT 0x7ff) OR (word_of_int disp AND 0x7ff) :: u16"
  shows "field_tag w = field_tag old" "field_imm11 w = word_of_int disp"
proof -
  have m: "bit (0x7ff :: u16) n = (n < Suc 10)" if "n < 16" for n
    using that by (auto simp: bit_low_masks)
  have b: "bit w n = (if n < Suc 10 then bit disp n else bit old n)" if "n < 16" for n
    unfolding w_def by (rule bit_replace_low [OF m that])
  show "field_tag w = field_tag old"
    by (rule bit_word_eqI; simp add: field_defs bit_simps b)
  show "field_imm11 w = word_of_int disp"
    unfolding w_def field_defs using assms m by (intro replace_low_recover) auto
qed

lemma literal8_word:
  fixes old :: u16 and disp :: int
  assumes "-128 \<le> disp" "disp \<le> 127"
  defines "w \<equiv> (old AND NOT 0xff) OR (word_of_int disp AND 0xff) :: u16"
  shows "field_primary w = field_primary old" "field_a w = field_a old" "field_imm8 w = word_of_int disp"
proof -
  have m: "bit (0xff :: u16) n = (n < Suc 7)" if "n < 16" for n
    using that by (auto simp: bit_low_masks)
  have b: "bit w n = (if n < Suc 7 then bit disp n else bit old n)" if "n < 16" for n
    unfolding w_def by (rule bit_replace_low [OF m that])
  show "field_primary w = field_primary old" "field_a w = field_a old"
    by (rule bit_word_eqI; simp add: field_defs bit_simps b)+
  show "field_imm8 w = word_of_int disp"
    unfolding w_def field_defs using assms m by (intro replace_low_recover) auto
qed

section \<open>Reach\<close>

lemma branch_disp_even:
  "even u \<Longrightarrow> even l \<Longrightarrow> branch_disp_halfwords u l = Some ((int l - (int u + 2)) div 2)"
  by (auto simp: branch_disp_halfwords_def Let_def)

lemma branch_disp_target:
  "branch_disp_halfwords u l = Some d \<Longrightarrow> int u + 2 + 2 * d = int l"
  by (auto simp: branch_disp_halfwords_def Let_def split: if_splits)

lemma literal_disp_aligned:
  "l mod 4 = 0 \<Longrightarrow> literal_disp_words u l = Some ((int l - int ((u + 4) div 4 * 4)) div 4)"
  by (auto simp: literal_disp_words_def Let_def)

lemma literal_disp_target:
  "literal_disp_words u l = Some d \<Longrightarrow> int ((u + 4) div 4 * 4) + 4 * d = int l"
  by (auto simp: literal_disp_words_def Let_def split: if_splits)

lemma patch_field_not_None:
  "2 \<le> length bs \<Longrightarrow> patch_field bs lo hi m d \<noteq> None \<longleftrightarrow> lo \<le> d \<and> d \<le> hi"
  using patch_field_eq [OF read_word_eq] patch_field_None by (metis option.discI)

lemma patch_field_Some:
  assumes "patch_field bs lo hi m d = Some bs'" "read_word bs = Some old"
  shows "lo \<le> d \<and> d \<le> hi \<and>
    bs' = u16_to_le_bytes ((old AND NOT m) OR (word_of_int d AND m)) @ drop 2 bs"
  using assms patch_field_eq [OF assms(2)] patch_field_None by (metis option.distinct(1) option.inject)

text \<open>
  C14: the declared branch ranges are exact. For a conditional or unconditional branch at an even
  offset and an even target, patching succeeds (no assertion fails) exactly when the target lies
  within \<open>max_pos_range\<close> ahead of and \<open>max_neg_range\<close> behind the instruction; so a fixup the
  buffer considers in range can always be patched, and one it considers out of range never could.
\<close>

theorem patch_reach_exact:
  assumes "supports_veneer k" "even u" "even l" "2 \<le> length bs"
  shows "patch k bs u l \<noteq> None \<longleftrightarrow>
    int l - int u \<le> int (max_pos_range k) \<and> int u - int l \<le> int (max_neg_range k)"
proof -
  obtain h where h: "int l - (int u + 2) = 2 * h"
    using assms(2,3) by (metis diff_add_eq dvdE even_diff even_add even_of_nat even_numeral)
  have d: "branch_disp_halfwords u l = Some h"
    using branch_disp_even [OF assms(2,3)] unfolding h by simp
  show ?thesis
  proof (cases k)
    case Cond7
    then have "patch k bs u l = patch_field bs (-64) 63 0x007f h"
      using assms(4) d by (simp only: patch.simps assert_that_simps bind.bind_lunit)
    then show ?thesis using patch_field_not_None [OF assms(4)] Cond7 h by auto
  next
    case Branch11
    then have "patch k bs u l = patch_field bs (-1024) 1023 0x07ff h"
      using assms(4) d by (simp only: patch.simps assert_that_simps bind.bind_lunit)
    then show ?thesis using patch_field_not_None [OF assms(4)] Branch11 h by auto
  qed (use assms(1) in simp_all)
qed

theorem patch_reach_exact_witness:
  "patch Cond7 [0, 0xA0] 100 228 \<noteq> None \<longleftrightarrow>
     int 228 - int 100 \<le> int (max_pos_range Cond7) \<and> int 100 - int 228 \<le> int (max_neg_range Cond7)"
  by (rule patch_reach_exact) simp_all

text \<open>A literal load within its declared range is always patchable. With a four-byte aligned
  literal and an even instruction offset, every target at most \<open>max_pos_range\<close> ahead and
  \<open>max_neg_range\<close> behind fits the signed eight-bit word displacement.
\<close>

theorem patch_literal_in_range:
  assumes "even u" "l mod 4 = 0" "2 \<le> length bs"
    and "int l - int u \<le> int (max_pos_range Literal8)" "int u - int l \<le> int (max_neg_range Literal8)"
  shows "\<exists>bs'. patch Literal8 bs u l = Some bs' \<and> length bs' = length bs \<and> drop 2 bs' = drop 2 bs"
proof -
  let ?d = "(int l - int ((u + 4) div 4 * 4)) div 4"
  have "-128 \<le> ?d" "?d \<le> 127" using assms by (simp_all add: zdiv_int)
  then show ?thesis
    using assms by (simp add: literal_disp_aligned patch_field_eq [OF read_word_eq])
qed

theorem patch_literal_in_range_witness:
  "\<exists>bs'. patch Literal8 [0, 0x95] 0x1002 0xE08 = Some bs' \<and> length bs' = length [0 :: u8, 0x95]
     \<and> drop 2 bs' = drop 2 [0 :: u8, 0x95]"
  by (rule patch_literal_in_range) simp_all

end
