(* ===== verification/Mach_Types.thy ===== *)
theory Mach_Types
  imports Ir_Types Sia32_Regs
begin

text \<open>
  The data of \<open>src/cranelift/codegen/src/machinst\<close> that instructions, frames and the code buffer
  share: labels, trap codes, external names, stack addressing modes, frame layouts, call
  classification and the register operands an instruction reports to the allocator.

  A \<open>u32\<close> size is a \<open>nat\<close> and an \<open>i64\<close> offset an \<open>int\<close>; conversions that can fail are written out
  where the code performs them. A set of physical registers (\<open>PRegSet\<close>) is a set.
\<close>

type_synonym mach_label = nat

type_synonym trap_code = u8

text \<open>Names refer to tables of other crates by number.\<close>

datatype external_name = User_name nat | Test_case string | Lib_call nat | Known_symbol nat

datatype stack_amode = IncomingArg int nat | Slot int | OutgoingArg int

definition offset_by :: "stack_amode \<Rightarrow> nat \<Rightarrow> stack_amode option" where
  "offset_by m offset =
     (let add = (\<lambda>off. if off + int offset < 2 ^ 63 then Some (off + int offset) else None)
      in case m of
           IncomingArg off sz \<Rightarrow> map_option (\<lambda>o'. IncomingArg o' sz) (add off)
         | Slot off \<Rightarrow> map_option Slot (add off)
         | OutgoingArg off \<Rightarrow> map_option OutgoingArg (add off))"

section \<open>Calls\<close>

datatype call_type = Call_None | Call_Regular | Call_TailCall

datatype function_calls = Calls_None | Calls_TailOnly | Calls_Regular

fun function_calls_update :: "function_calls \<Rightarrow> call_type \<Rightarrow> function_calls" where
  "function_calls_update current Call_None = current"
| "function_calls_update _ Call_Regular = Calls_Regular"
| "function_calls_update Calls_None Call_TailCall = Calls_TailOnly"
| "function_calls_update current Call_TailCall = current"

datatype terminator = Term_None | Term_Ret | Term_RetCall | Term_Branch

datatype call_conv = CC_Fast | CC_Cold | CC_Tail | CC_SystemV | CC_WindowsFastcall
  | CC_AppleAarch64 | CC_Probestack | CC_Winch | CC_PreserveAll

datatype try_call_handler = Handler_Tag nat mach_label | Handler_Default mach_label
  | Handler_Context mreg

record try_call_info =
  continuation :: mach_label
  try_handlers :: "try_call_handler list"

datatype ret_location = Ret_Reg mreg ir_type | Ret_Stack stack_amode ir_type

record 'd call_info =
  dest :: 'd
  uses :: "(mreg \<times> mreg) list"
  defs :: "(mreg \<times> ret_location) list"
  clobbers :: "preg set"
  callee_conv :: call_conv
  caller_conv :: call_conv
  callee_pop_size :: nat
  try_call_info_of :: "try_call_info option"
  patchable :: bool

definition call_info_empty :: "'d \<Rightarrow> call_conv \<Rightarrow> 'd call_info" where
  "call_info_empty d cc = \<lparr>dest = d, uses = [], defs = [], clobbers = {}, callee_conv = cc,
     caller_conv = cc, callee_pop_size = 0, try_call_info_of = None, patchable = False\<rparr>"

section \<open>Frames\<close>

record frame_layout =
  word_bytes :: nat
  incoming_args_size :: nat
  tail_args_size :: nat
  setup_area_size :: nat
  clobber_size :: nat
  fixed_frame_storage_size :: nat
  stackslots_size :: nat
  outgoing_args_size :: nat
  clobbered_callee_saves :: "preg list"
  function_calls_of :: function_calls

definition active_size :: "frame_layout \<Rightarrow> nat" where
  "active_size f = outgoing_args_size f + fixed_frame_storage_size f + clobber_size f"

definition sp_to_sized_stack_slots :: "frame_layout \<Rightarrow> nat" where
  "sp_to_sized_stack_slots f = outgoing_args_size f"

definition spillslot_offset :: "frame_layout \<Rightarrow> nat \<Rightarrow> int" where
  "spillslot_offset f slot = int (stackslots_size f) + int slot * int (word_bytes f)"

definition sp_to_fp :: "frame_layout \<Rightarrow> nat" where
  "sp_to_fp f = outgoing_args_size f + fixed_frame_storage_size f + clobber_size f"

text \<open>
  \<open>clobbered_callee_saves_by_class\<close>: the list is sorted with integer registers first, so the
  partition point is the end of its integer prefix.
\<close>

definition clobbered_callee_saves_by_class :: "frame_layout \<Rightarrow> (preg list \<times> preg list) option" where
  "clobbered_callee_saves_by_class f = do {
     let ints = takeWhile (\<lambda>r. preg_class r = Int_class) (clobbered_callee_saves f);
     let floats = dropWhile (\<lambda>r. preg_class r = Int_class) (clobbered_callee_saves f);
     assert_that (\<forall>r \<in> set floats. preg_class r = Float_class);
     Some (ints, floats)
   }"

section \<open>Register operands\<close>

datatype operand =
    Reg_Use mreg | Reg_Def mreg | Reg_Early_Def mreg
  | Reg_Fixed_Use mreg mreg | Reg_Fixed_Def mreg mreg
  | Any_Def mreg | Any_Late_Use mreg | Reg_Clobbers "preg set"

fun handler_operands :: "try_call_handler \<Rightarrow> operand list" where
  "handler_operands (Handler_Context r) = [Any_Late_Use r]"
| "handler_operands _ = []"

definition try_collect_operands :: "try_call_info \<Rightarrow> operand list" where
  "try_collect_operands t = concat (map handler_operands (try_handlers t))"

text \<open>What an instruction reads and writes, from its operand list.\<close>

fun operand_uses :: "operand \<Rightarrow> mreg list" where
  "operand_uses (Reg_Use r) = [r]"
| "operand_uses (Reg_Fixed_Use r _) = [r]"
| "operand_uses (Any_Late_Use r) = [r]"
| "operand_uses _ = []"

fun operand_defs :: "operand \<Rightarrow> mreg list" where
  "operand_defs (Reg_Def r) = [r]"
| "operand_defs (Reg_Early_Def r) = [r]"
| "operand_defs (Reg_Fixed_Def r _) = [r]"
| "operand_defs (Any_Def r) = [r]"
| "operand_defs _ = []"

end
