(* ===== verification/Sia32_Inst.thy ===== *)
theory Sia32_Inst
  imports Mach_Types Condcodes Sia32_Encode
begin

text \<open>
  \<open>src/cranelift/codegen/src/isa/sia32/inst.rs\<close> (data, classification and the pure helpers): the
  machine-instruction vocabulary of the SIA32 backend, the register operands each instruction
  reports, its classification for the generic machinery, the balanced base-128 digits of a
  constant and the frame-relative offset of a stack location. Emission is in theory
  \<open>Sia32_Emit\<close>.
\<close>

datatype two_op =
    Op_Sub | Op_Addo | Op_Subo | Op_CmpEq | Op_CmpLt | Op_CmpLtu | Op_Min | Op_MinU | Op_Max
  | Op_MaxU | Op_And | Op_Or | Op_Xor | Op_Shl | Op_Shr | Op_Sar | Op_BSet | Op_BClr | Op_BInv
  | Op_BExt | Op_Mul | Op_MulUHigh | Op_Div | Op_DivU | Op_Rem | Op_RemU | Op_Rev8

datatype unary_op = Op_Clz | Op_Ctz | Op_Cpop

datatype load_op = Load_I8 | Load_U8 | Load_I16 | Load_U16 | Load_I32

datatype store_op = Store_I8 | Store_I16 | Store_I32

datatype privileged_op =
    Priv_SoftwareTrap u8 | Priv_SRead u8 | Priv_SWrite u8 | Priv_SSwapScratch | Priv_SRet
  | Priv_SRetCtx | Priv_TlbFence | Priv_TlbFenceVa | Priv_TlbFenceAsid | Priv_Wfi | Priv_SyncI
  | Priv_Fence

text \<open>
  Field order as in the source; a \<open>Writable<Reg>\<close> is the register. Register arguments name the
  destination first.
\<close>

datatype (plugins only:) inst =
    Args "(mreg \<times> mreg) list"
  | Rets "(mreg \<times> mreg) list"
  | DummyUse mreg
  | Nop
  | SoftwareTrap u8
  | Udf trap_code
  | TrapIfNz mreg trap_code
  | TrapIfZ mreg trap_code
  | Mov mreg mreg
  | Add mreg mreg mreg
  | Unary unary_op mreg mreg
  | TwoOp two_op mreg mreg mreg
  | Icmp mreg int_cc mreg mreg
  | ShiftImm two_op mreg mreg u8
  | Li7 mreg i8
  | Addi7 mreg mreg i8
  | LoadConst32 mreg u32
  | LoadExtName mreg external_name i64
  | Load load_op mreg mreg
  | Store store_op mreg mreg
  | IndexedLoad mreg mreg mreg
  | IndexedStore mreg mreg mreg
  | Fence
  | SRead mreg u8
  | ReadFixedGpr mreg u8
  | WriteFixedGpr mreg u8
  | SWrite mreg u8
  | SSwapScratch mreg mreg
  | SRet
  | SRetCtx mreg
  | TlbFence
  | TlbFenceVa mreg
  | TlbFenceAsid mreg
  | Wfi
  | SyncI
  | LoadStack mreg stack_amode ir_type
  | StoreStack mreg stack_amode ir_type
  | StackAddr mreg stack_amode
  | LoadBaseOffset mreg mreg i32 ir_type
  | StoreBaseOffset mreg mreg i32 ir_type
  | Extend mreg mreg bool u8 u8
  | AddImm mreg mreg i32
  | SpAdjust i32
  | StackLowerBoundTrap mreg
  | Jump mach_label
  | BrNz mreg mach_label mach_label
  | Select mreg mreg mreg mreg
  | BrTable mreg mreg "mach_label list"
  | Call "external_name call_info"
  | CallInd "mreg call_info"
  | Ret

text \<open>The reports carried by verifier and register-allocator errors belong to those components.\<close>

datatype codegen_error = Verifier_errors | ImplLimitExceeded | CodeTooLarge | Unsupported string
  | Regalloc_errors

definition rc_for_type :: "ir_type \<Rightarrow> codegen_error + (reg_class list \<times> ir_type list)" where
  "rc_for_type ty =
     (if is_int ty \<and> ty_bits ty \<le> 32 then Inr ([Int_class], [ty_I32])
      else if ty = ty_I64 then Inr ([Int_class, Int_class], [ty_I32, ty_I32])
      else Inl (Unsupported ''SIA32 does not yet support SSA value type''))"

definition arch_reg :: "mreg \<Rightarrow> reg option" where
  "arch_reg r = do {
     real \<leftarrow> to_real_reg r;
     assert_that (preg_class real = Int_class);
     reg_new (hw_enc real)
   }"

definition load_op_of :: "ir_type \<Rightarrow> load_op option" where
  "load_op_of ty =
     (if ty = ty_I8 then Some Load_U8 else if ty = ty_I16 then Some Load_U16
      else if ty = ty_I32 then Some Load_I32 else None)"

definition store_op_of :: "ir_type \<Rightarrow> store_op option" where
  "store_op_of ty =
     (if ty = ty_I8 then Some Store_I8 else if ty = ty_I16 then Some Store_I16
      else if ty = ty_I32 then Some Store_I32 else None)"

section \<open>Constants as balanced digits\<close>

text \<open>
  The \<open>while\<close> loop of \<open>const_digits\<close>, lowest digit first. \<open>rem_euclid(128)\<close> is \<open>mod\<close>, and the
  division by 128 is exact.
\<close>

function low_digits :: "int \<Rightarrow> int list" where
  "low_digits n =
     (if n < -64 \<or> n > 63
      then let digit = (if n mod 128 > 63 then n mod 128 - 128 else n mod 128)
           in digit # low_digits ((n - digit) div 128)
      else [n])"
  by pat_completeness auto

termination
  by (relation "measure (\<lambda>n. nat \<bar>n\<bar>)") (auto simp: Let_def split: if_splits)

declare low_digits.simps [simp del]

definition const_digits :: "u32 \<Rightarrow> int list" where
  "const_digits value = rev (low_digits (sint value))"

section \<open>Frame offsets\<close>

text \<open>\<open>i32::try_from(offset).expect(..)\<close>: \<open>None\<close> when the offset does not fit.\<close>

definition frame_stack_offset :: "stack_amode \<Rightarrow> frame_layout \<Rightarrow> i32 option" where
  "frame_stack_offset m frame =
     (let offset = (case m of
          OutgoingArg off \<Rightarrow> off
        | Slot off \<Rightarrow> off + int (outgoing_args_size frame)
        | IncomingArg off stack_args_size \<Rightarrow>
            let current_sp_delta =
              tail_args_size frame + setup_area_size frame + clobber_size frame
              + fixed_frame_storage_size frame + stackslots_size frame + outgoing_args_size frame
              + (if function_calls_of frame = Calls_Regular then 8 else 0)
            in int current_sp_delta - (int stack_args_size - off))
      in if - (2 ^ 31) \<le> offset \<and> offset < 2 ^ 31 then Some (word_of_int offset) else None)"

section \<open>Operands\<close>

text \<open>
  Register returns are definitions, so their registers are removed from the reported clobbers;
  a return register that is not physical is a panic.
\<close>

fun ret_operands :: "(mreg \<times> ret_location) list \<Rightarrow> preg set \<Rightarrow> (operand list \<times> preg set) option" where
  "ret_operands [] cl = Some ([], cl)"
| "ret_operands ((v, Ret_Reg p ty) # rs) cl = do {
     real \<leftarrow> to_real_reg p;
     (ops, cl') \<leftarrow> ret_operands rs (cl - {real});
     Some (Reg_Fixed_Def v p # ops, cl')
   }"
| "ret_operands ((v, Ret_Stack m ty) # rs) cl = do {
     (ops, cl') \<leftarrow> ret_operands rs cl;
     Some (Any_Def v # ops, cl')
   }"

definition collect_call_operands :: "'d call_info \<Rightarrow> operand list option" where
  "collect_call_operands info = do {
     (ops, cl) \<leftarrow> ret_operands (defs info) (clobbers info);
     Some (map (\<lambda>(v, p). Reg_Fixed_Use v p) (uses info) @ ops @ [Reg_Clobbers cl]
       @ (case try_call_info_of info of None \<Rightarrow> [] | Some t \<Rightarrow> try_collect_operands t))
   }"

definition get_operands :: "inst \<Rightarrow> operand list option" where
  "get_operands i =
     (case i of
        Args args \<Rightarrow> Some (map (\<lambda>(v, p). Reg_Fixed_Def v p) args)
      | Rets rets \<Rightarrow> Some (map (\<lambda>(v, p). Reg_Fixed_Use v p) rets)
      | DummyUse r \<Rightarrow> Some [Reg_Use r]
      | SRead d _ \<Rightarrow> Some [Reg_Def d]
      | ReadFixedGpr d index \<Rightarrow> map_option (\<lambda>p. [Reg_Clobbers {p}, Reg_Def d]) (preg_of index)
      | WriteFixedGpr s index \<Rightarrow> map_option (\<lambda>p. [Reg_Use s, Reg_Clobbers {p}]) (preg_of index)
      | SWrite s _ \<Rightarrow> Some [Reg_Use s]
      | SRetCtx s \<Rightarrow> Some [Reg_Use s]
      | TlbFenceVa s \<Rightarrow> Some [Reg_Use s]
      | TlbFenceAsid s \<Rightarrow> Some [Reg_Use s]
      | SSwapScratch d s \<Rightarrow> Some [Reg_Use s, Reg_Def d]
      | TrapIfNz t _ \<Rightarrow> Some [Reg_Use t]
      | TrapIfZ t _ \<Rightarrow> Some [Reg_Use t]
      | Mov d s \<Rightarrow> Some [Reg_Use s, Reg_Def d]
      | Add d l r \<Rightarrow> Some [Reg_Use l, Reg_Use r, Reg_Def d]
      | TwoOp _ d l r \<Rightarrow> Some [Reg_Use l, Reg_Use r, Reg_Def d]
      | Icmp d _ l r \<Rightarrow> Some [Reg_Use l, Reg_Use r, Reg_Def d]
      | Unary _ d s \<Rightarrow> Some [Reg_Use s, Reg_Def d]
      | ShiftImm _ d s _ \<Rightarrow> Some [Reg_Use s, Reg_Def d]
      | Addi7 d s _ \<Rightarrow> Some [Reg_Use s, Reg_Def d]
      | Extend d s _ _ _ \<Rightarrow> Some [Reg_Use s, Reg_Def d]
      | AddImm d s _ \<Rightarrow> Some [Reg_Use s, Reg_Def d]
      | Li7 d _ \<Rightarrow> Some [Reg_Def d]
      | LoadConst32 d _ \<Rightarrow> Some [Reg_Def d]
      | LoadExtName d _ _ \<Rightarrow> Some [Reg_Def d]
      | StackAddr d _ \<Rightarrow> Some [Reg_Def d]
      | Load _ d b \<Rightarrow> Some [Reg_Use b, Reg_Def d]
      | LoadBaseOffset d b _ _ \<Rightarrow> Some [Reg_Use b, Reg_Def d]
      | Store _ s b \<Rightarrow> Some [Reg_Use s, Reg_Use b]
      | StoreBaseOffset s b _ _ \<Rightarrow> Some [Reg_Use s, Reg_Use b]
      | IndexedLoad d b x \<Rightarrow> Some [Reg_Use b, Reg_Use x, Reg_Def d]
      | IndexedStore s b x \<Rightarrow> Some [Reg_Use s, Reg_Use b, Reg_Use x]
      | LoadStack d _ _ \<Rightarrow> Some [Reg_Def d]
      | StoreStack s _ _ \<Rightarrow> Some [Reg_Use s]
      | StackLowerBoundTrap l \<Rightarrow> Some [Reg_Use l]
      | BrNz t _ _ \<Rightarrow> Some [Reg_Use t]
      | Select d t y n \<Rightarrow> Some [Reg_Use t, Reg_Use y, Reg_Use n, Reg_Def d]
      | BrTable x tmp _ \<Rightarrow> Some [Reg_Use x, Reg_Early_Def tmp]
      | Call info \<Rightarrow> collect_call_operands info
      | CallInd info \<Rightarrow> map_option (\<lambda>ops. Reg_Use (dest info) # ops) (collect_call_operands info)
      | _ \<Rightarrow> Some [])"

section \<open>Classification\<close>

definition TRAP_OPCODE :: "u8 list" where "TRAP_OPCODE = [0x00, 0xf8]"

definition is_move :: "inst \<Rightarrow> (mreg \<times> mreg) option" where
  "is_move i =
     (case i of
        Mov d s \<Rightarrow> Some (d, s)
      | _ \<Rightarrow> None)"

definition is_term :: "inst \<Rightarrow> terminator" where
  "is_term i =
     (case i of
        Rets _ \<Rightarrow> Term_Ret
      | Ret \<Rightarrow> Term_Ret
      | Jump _ \<Rightarrow> Term_Branch
      | BrNz _ _ _ \<Rightarrow> Term_Branch
      | BrTable _ _ _ \<Rightarrow> Term_Branch
      | _ \<Rightarrow> Term_None)"

definition is_trap :: "inst \<Rightarrow> bool" where
  "is_trap i =
     (case i of
        Udf _ \<Rightarrow> True
      | _ \<Rightarrow> False)"

definition is_args :: "inst \<Rightarrow> bool" where
  "is_args i =
     (case i of
        Args _ \<Rightarrow> True
      | _ \<Rightarrow> False)"

definition call_type_of :: "inst \<Rightarrow> call_type" where
  "call_type_of i =
     (case i of
        Call _ \<Rightarrow> Call_Regular
      | CallInd _ \<Rightarrow> Call_Regular
      | _ \<Rightarrow> Call_None)"

definition is_included_in_clobbers :: "inst \<Rightarrow> bool" where
  "is_included_in_clobbers i = (\<not> is_args i)"

definition is_mem_access :: "inst \<Rightarrow> bool" where
  "is_mem_access i =
     (case i of
        Load _ _ _ \<Rightarrow> True
      | Store _ _ _ \<Rightarrow> True
      | IndexedLoad _ _ _ \<Rightarrow> True
      | IndexedStore _ _ _ \<Rightarrow> True
      | LoadStack _ _ _ \<Rightarrow> True
      | StoreStack _ _ _ \<Rightarrow> True
      | LoadBaseOffset _ _ _ _ \<Rightarrow> True
      | StoreBaseOffset _ _ _ _ \<Rightarrow> True
      | _ \<Rightarrow> False)"

definition gen_move :: "mreg \<Rightarrow> mreg \<Rightarrow> ir_type \<Rightarrow> inst option" where
  "gen_move to_reg from_reg ty = do {
     assert_that (ty = ty_I32);
     Some (Mov to_reg from_reg)
   }"

text \<open>The inherent method of the same name, which the ABI code calls, asserts only the width.\<close>

definition abi_gen_move :: "mreg \<Rightarrow> mreg \<Rightarrow> ir_type \<Rightarrow> inst option" where
  "abi_gen_move to_reg from_reg ty = do {
     assert_that (ty_bits ty = 32);
     Some (Mov to_reg from_reg)
   }"

definition gen_dummy_use :: "mreg \<Rightarrow> inst" where
  "gen_dummy_use r = DummyUse r"

definition canonical_type_for_rc :: "reg_class \<Rightarrow> ir_type option" where
  "canonical_type_for_rc rc = (if rc = Int_class then Some ty_I32 else None)"

definition gen_jump :: "mach_label \<Rightarrow> inst" where
  "gen_jump target = Jump target"

definition gen_imm_u64 :: "u64 \<Rightarrow> mreg \<Rightarrow> inst option" where
  "gen_imm_u64 value dst =
     (if unat value < 2 ^ 32 then Some (LoadConst32 dst (ucast value)) else None)"

definition gen_nop :: "nat \<Rightarrow> inst" where
  "gen_nop preferred_size = Nop"

definition gen_nop_units :: "u8 list list" where
  "gen_nop_units = [u16_to_le_bytes NOP]"

definition worst_case_size :: nat where "worst_case_size = 24"

definition worst_case_island_growth :: nat where "worst_case_island_growth = 34"

definition is_safepoint :: "inst \<Rightarrow> bool" where
  "is_safepoint i =
     (case i of
        SoftwareTrap _ \<Rightarrow> True
      | Udf _ \<Rightarrow> True
      | Call _ \<Rightarrow> True
      | CallInd _ \<Rightarrow> True
      | _ \<Rightarrow> False)"

record function_alignment =
  align_minimum :: nat
  align_preferred :: nat

definition function_alignment_of :: function_alignment where
  "function_alignment_of = \<lparr>align_minimum = 4, align_preferred = 4\<rparr>"

definition encoded_worst_case_size :: "inst \<Rightarrow> nat" where
  "encoded_worst_case_size i =
     (case i of
        TwoOp _ _ _ _ \<Rightarrow> 6
      | ShiftImm _ _ _ _ \<Rightarrow> 4
      | Addi7 _ _ _ \<Rightarrow> 4
      | Icmp _ _ _ _ \<Rightarrow> 12
      | LoadConst32 _ _ \<Rightarrow> 18
      | LoadExtName _ _ _ \<Rightarrow> 10
      | BrNz _ _ _ \<Rightarrow> 4
      | Select _ _ _ _ \<Rightarrow> 8
      | Extend _ _ _ _ _ \<Rightarrow> 6
      | AddImm _ _ _ \<Rightarrow> 22
      | SpAdjust _ \<Rightarrow> 22
      | StackAddr _ _ \<Rightarrow> 22
      | LoadStack _ _ _ \<Rightarrow> 24
      | LoadBaseOffset _ _ _ _ \<Rightarrow> 24
      | StoreStack _ _ _ \<Rightarrow> 24
      | StoreBaseOffset _ _ _ _ \<Rightarrow> 24
      | Call _ \<Rightarrow> 12
      | CallInd _ \<Rightarrow> 2
      | StackLowerBoundTrap _ \<Rightarrow> 12
      | TrapIfNz _ _ \<Rightarrow> 6
      | TrapIfZ _ _ \<Rightarrow> 4
      | Args _ \<Rightarrow> 0
      | Rets _ \<Rightarrow> 0
      | DummyUse _ \<Rightarrow> 0
      | _ \<Rightarrow> 2)"

section \<open>The digits of a constant\<close>

definition balanced :: "int \<Rightarrow> int" where
  "balanced n = (if n mod 128 > 63 then n mod 128 - 128 else n mod 128)"

lemma balanced_range: "-64 \<le> balanced n" "balanced n \<le> 63"
proof -
  obtain m where m: "n mod 128 = m" by blast
  have "0 \<le> m" "m < 128" unfolding m [symmetric] by simp_all
  then show "-64 \<le> balanced n" "balanced n \<le> 63" unfolding balanced_def m by auto
qed

lemma balanced_div: "128 * ((n - balanced n) div 128) = n - balanced n"
proof -
  have "n - balanced n = 128 * (n div 128 + (if n mod 128 > 63 then 1 else 0))"
    using minus_mod_eq_mult_div [of n 128] by (simp add: balanced_def)
  then show ?thesis by simp
qed

lemma low_digits_step:
  "low_digits n =
     (if n < -64 \<or> n > 63 then balanced n # low_digits ((n - balanced n) div 128) else [n])"
  by (subst low_digits.simps) (simp only: balanced_def Let_def)

lemma low_digits_range: "\<forall>d \<in> set (low_digits n). -64 \<le> d \<and> d \<le> 63"
  by (induction n rule: low_digits.induct)
     (subst low_digits_step, use balanced_range in \<open>simp add: balanced_def Let_def\<close>)

lemma low_digits_value: "foldr (\<lambda>d acc. acc * 128 + d) (low_digits n) 0 = n"
proof (induction n rule: low_digits.induct)
  case (1 n)
  then show ?case
    by (subst low_digits_step) (use balanced_div [of n] in \<open>auto simp: balanced_def Let_def\<close>)
qed

lemma low_digits_length:
  "- (64 * 128 ^ k) \<le> n \<Longrightarrow> n \<le> 63 * 128 ^ k \<Longrightarrow> length (low_digits n) \<le> Suc k"
proof (induction k arbitrary: n)
  case 0
  then show ?case by (subst low_digits_step) simp
next
  case (Suc k)
  have "length (low_digits ((n - balanced n) div 128)) \<le> Suc k"
    using Suc.prems balanced_range [of n] balanced_div [of n] by (intro Suc.IH) simp_all
  then show ?case by (subst low_digits_step) simp
qed

lemma const_digits_nonempty: "const_digits v \<noteq> []"
  by (simp add: const_digits_def) (subst low_digits_step, simp)

lemma const_digits_length: "length (const_digits v) \<le> 5"
  using low_digits_length [of 4 "sint v"] sint_u32_ge [of v] sint_u32_less [of v]
  by (simp add: const_digits_def)

lemma const_digits_range: "d \<in> set (const_digits v) \<Longrightarrow> -64 \<le> d \<and> d \<le> 63"
  using low_digits_range by (auto simp: const_digits_def)

lemma const_digits_value: "foldl (\<lambda>acc d. acc * 128 + d) 0 (const_digits v) = sint v"
  using low_digits_value [of "sint v"] by (simp add: const_digits_def foldl_conv_foldr)

section \<open>Properties\<close>

text \<open>
  Every 32-bit constant has between one and five balanced base-128 digits, each of which fits
  the seven-bit signed immediate of \<open>LI\<close> and \<open>ADDI\<close>, and evaluating the digits from the most
  significant one gives back the constant exactly.
\<close>

theorem const_digits_exact:
  "const_digits value \<noteq> [] \<and> length (const_digits value) \<le> 5 \<and>
   list_all (\<lambda>d. -64 \<le> d \<and> d \<le> 63) (const_digits value) \<and>
   foldl (\<lambda>acc d. acc * 128 + d) 0 (const_digits value) = sint value"
  using const_digits_nonempty const_digits_length const_digits_range const_digits_value
  by (auto simp: list_all_iff)

end
