(* ===== verification/Mach_Buffer.thy ===== *)
theory Mach_Buffer
  imports Sia32_Label Sia32_Inst
begin

text \<open>
  \<open>src/cranelift/codegen/src/machinst/buffer.rs\<close>: the code buffer, with its labels, fixups, branch
  simplification, veneers and islands, for the SIA32 instance of its type parameter (the label
  uses of theory \<open>Sia32_Label\<close>).

  The vectors are lists in source order. \<open>UNKNOWN_LABEL_OFFSET\<close> and \<open>UNKNOWN_LABEL\<close> are \<open>None\<close>.
  Offsets are \<open>nat\<close>; saturating additions saturate at \<open>u32_max\<close>. The binary heap of fixups is a
  list from which an entry of least deadline is taken (the order among equal deadlines is
  unspecified in the source). The control plane is that of a build without chaos mode, whose
  decisions are always false. The build is one with debug assertions and overflow checks: \<open>None\<close> as
  the result of an operation is a panic, and an \<open>assert!\<close>, a \<open>debug_assert!\<close>, an index out of range
  and an overflowing addition are all panics. The vectors of patchable call sites, unwind records
  and debug tag values and the frame layout metadata are not modelled: the buffer only stores them.
\<close>

record mach_fixup =
  fix_label :: mach_label
  fix_offset :: code_offset
  fix_kind :: label_use

record mach_branch =
  br_start :: code_offset
  br_end :: code_offset
  br_target :: mach_label
  br_fixup :: nat
  br_inverted :: "u8 list option"
  br_labels :: "mach_label list"

record mach_srcloc =
  sl_start :: code_offset
  sl_end :: code_offset
  sl_loc :: nat

datatype reloc_kind = Reloc_Abs4 | Reloc_Other nat

record mach_reloc =
  rel_offset :: code_offset
  rel_kind :: reloc_kind
  rel_target :: external_name
  rel_addend :: int

datatype exception_context_loc = SPOffset nat | GPR u8

datatype mach_exception_handler = EH_Tag nat mach_label | EH_Default mach_label
  | EH_Context exception_context_loc

record mach_call_site =
  ret_addr :: code_offset
  frame_offset :: "nat option"
  handler_range :: "nat \<times> nat"

record mach_label_trap =
  mlt_label :: mach_label
  mlt_code :: trap_code
  mlt_loc :: "nat option"

record buffer_constant =
  upcoming_label :: "mach_label option"
  bc_align :: nat
  bc_size :: nat

text \<open>A stack map: offsets of references per type, and the frame offset filled in at emission.\<close>

record user_stack_map =
  by_type :: "(ir_type \<times> nat list) list"
  sp_to_sized :: "nat option"

record mach_buffer =
  data :: "u8 list"
  relocs :: "mach_reloc list"
  traps :: "(code_offset \<times> trap_code) list"
  call_sites :: "mach_call_site list"
  exception_handlers :: "mach_exception_handler list"
  srclocs :: "mach_srcloc list"
  debug_tags :: "code_offset list"
  user_stack_maps :: "(code_offset \<times> nat \<times> user_stack_map) list"
  cur_srcloc :: "(code_offset \<times> nat) option"
  label_offsets :: "code_offset option list"
  label_aliases :: "mach_label option list"
  pending_constants :: "nat list"
  pending_constants_size :: code_offset
  pending_traps :: "mach_label_trap list"
  pending_fixup_records :: "mach_fixup list"
  pending_fixup_deadline :: code_offset
  fixup_records :: "mach_fixup list"
  latest_branches :: "mach_branch list"
  labels_at_tail :: "mach_label list"
  labels_at_tail_off :: code_offset
  constants :: "buffer_constant list"
  used_constants :: "(nat \<times> code_offset) list"
  open_patchable :: bool
  min_alignment :: nat

definition sat_add :: "nat \<Rightarrow> nat \<Rightarrow> nat" where
  "sat_add a b = min (a + b) u32_max"

definition sat_mul :: "nat \<Rightarrow> nat \<Rightarrow> nat" where
  "sat_mul a b = min (a * b) u32_max"

definition fixup_deadline :: "mach_fixup \<Rightarrow> code_offset" where
  "fixup_deadline f = sat_add (fix_offset f) (max_pos_range (fix_kind f))"

definition is_cond :: "mach_branch \<Rightarrow> bool" where "is_cond b = (br_inverted b \<noteq> None)"
definition is_uncond :: "mach_branch \<Rightarrow> bool" where "is_uncond b = (br_inverted b = None)"

definition LABEL_LIST_THRESHOLD :: nat where "LABEL_LIST_THRESHOLD = 100"

definition buffer_new :: mach_buffer where
  "buffer_new = \<lparr>data = [], relocs = [], traps = [], call_sites = [], exception_handlers = [],
     srclocs = [], debug_tags = [], user_stack_maps = [], cur_srcloc = None, label_offsets = [], label_aliases = [],
     pending_constants = [], pending_constants_size = 0, pending_traps = [],
     pending_fixup_records = [], pending_fixup_deadline = u32_max, fixup_records = [],
     latest_branches = [], labels_at_tail = [], labels_at_tail_off = 0, constants = [],
     used_constants = [], open_patchable = False,
     min_alignment = align_minimum function_alignment_of\<rparr>"

section \<open>Appending bytes\<close>

definition cur_offset :: "mach_buffer \<Rightarrow> code_offset" where
  "cur_offset b = length (data b)"

definition put_data :: "u8 list \<Rightarrow> mach_buffer \<Rightarrow> mach_buffer" where
  "put_data bytes b = b\<lparr>data := data b @ bytes\<rparr>"

definition put1 :: "u8 \<Rightarrow> mach_buffer \<Rightarrow> mach_buffer" where
  "put1 value b = b\<lparr>data := data b @ [value]\<rparr>"

definition put2 :: "u16 \<Rightarrow> mach_buffer \<Rightarrow> mach_buffer" where
  "put2 value b = put_data (u16_to_le_bytes value) b"

definition put4 :: "u32 \<Rightarrow> mach_buffer \<Rightarrow> mach_buffer" where
  "put4 value b = put_data (u32_to_le_bytes value) b"

definition get_appended_space :: "nat \<Rightarrow> mach_buffer \<Rightarrow> mach_buffer" where
  "get_appended_space len b = b\<lparr>data := data b @ replicate len 0\<rparr>"

text \<open>
  \<open>align_to\<close> pushes zero bytes until the offset is a multiple of the power of two; a value that is
  not a power of two is a panic.
\<close>

definition is_pow2 :: "nat \<Rightarrow> bool" where
  "is_pow2 n = (\<exists>k \<le> n. n = 2 ^ k)"

definition align_buffer :: "nat \<Rightarrow> mach_buffer \<Rightarrow> mach_buffer option" where
  "align_buffer a b =
     (if is_pow2 a
      then Some (get_appended_space ((a - cur_offset b mod a) mod a) b) else None)"

text \<open>
  A patchable region: \<open>start_patchable\<close> returns where it starts, \<open>end_patchable\<close> its range, and
  writing through the slice that \<open>PatchRegion::patch\<close> yields replaces the bytes of the range.
\<close>

definition start_patchable :: "mach_buffer \<Rightarrow> (code_offset \<times> mach_buffer) option" where
  "start_patchable b =
     (if open_patchable b then None else Some (cur_offset b, b\<lparr>open_patchable := True\<rparr>))"

definition end_patchable :: "code_offset \<Rightarrow> mach_buffer \<Rightarrow> (code_offset \<times> code_offset) \<times> mach_buffer" where
  "end_patchable start b = ((start, cur_offset b), b\<lparr>open_patchable := False\<rparr>)"

definition patch_region :: "code_offset \<times> code_offset \<Rightarrow> u8 list \<Rightarrow> mach_buffer \<Rightarrow> mach_buffer option" where
  "patch_region region bytes b =
     (case region of (start, stop) \<Rightarrow> do {
        assert_that (start \<le> stop \<and> stop \<le> length (data b) \<and> length bytes = stop - start);
        Some (b\<lparr>data := take start (data b) @ bytes @ drop stop (data b)\<rparr>)
      })"

section \<open>Labels\<close>

definition get_label :: "mach_buffer \<Rightarrow> mach_label \<times> mach_buffer" where
  "get_label b =
     (length (label_offsets b),
      b\<lparr>label_offsets := label_offsets b @ [None], label_aliases := label_aliases b @ [None]\<rparr>)"

definition reserve_labels_for_blocks :: "nat \<Rightarrow> mach_buffer \<Rightarrow> mach_buffer option" where
  "reserve_labels_for_blocks n b = do {
     assert_that (label_offsets b = []);
     Some (b\<lparr>label_offsets := take n (label_offsets b @ replicate n None),
             label_aliases := take n (label_aliases b @ replicate n None)\<rparr>)
   }"

definition lazily_clear_labels_at_tail :: "mach_buffer \<Rightarrow> mach_buffer" where
  "lazily_clear_labels_at_tail b =
     (if labels_at_tail_off b < cur_offset b
      then b\<lparr>labels_at_tail_off := cur_offset b, labels_at_tail := []\<rparr> else b)"

text \<open>
  Following the alias chain. The source asserts \<open>iters < 1_000_000\<close> after each hop: at most
  999999 hops, the first argument. The outer \<open>None\<close> is a panic (too long a chain or a label out of
  range), \<open>Some None\<close> an unknown offset.
\<close>

fun resolve_hops :: "nat \<Rightarrow> mach_buffer \<Rightarrow> mach_label \<Rightarrow> code_offset option option" where
  "resolve_hops n b l =
     (if length (label_aliases b) \<le> l then None
      else case label_aliases b ! l of
        None \<Rightarrow> if length (label_offsets b) \<le> l then None else Some (label_offsets b ! l)
      | Some l' \<Rightarrow> if n = 0 then None else resolve_hops (n - 1) b l')"

declare resolve_hops.simps [simp del]

definition MAX_ALIAS_HOPS :: nat where "MAX_ALIAS_HOPS = 999999"

definition resolve_label_offset :: "mach_buffer \<Rightarrow> mach_label \<Rightarrow> code_offset option option" where
  "resolve_label_offset b l = resolve_hops MAX_ALIAS_HOPS b l"

definition use_label_at_offset ::
  "code_offset \<Rightarrow> mach_label \<Rightarrow> label_use \<Rightarrow> mach_buffer \<Rightarrow> mach_buffer" where
  "use_label_at_offset offset label kind b =
     (let fixup = \<lparr>fix_label = label, fix_offset = offset, fix_kind = kind\<rparr>
      in b\<lparr>pending_fixup_deadline :=
             min (pending_fixup_deadline b) (fixup_deadline fixup - LABEL_USE_ALIGN),
           pending_fixup_records := pending_fixup_records b @ [fixup]\<rparr>)"

section \<open>Branches\<close>

definition add_branch ::
  "code_offset \<Rightarrow> code_offset \<Rightarrow> mach_label \<Rightarrow> u8 list option \<Rightarrow> mach_buffer \<Rightarrow> mach_buffer option" where
  "add_branch start stop target inverted b =
     (if \<not> open_patchable b \<and> cur_offset b = start \<and> start < stop \<and> pending_fixup_records b \<noteq> []
         \<and> (case inverted of None \<Rightarrow> True | Some i \<Rightarrow> length i = stop - start)
      then let fixup = length (pending_fixup_records b) - 1;
               b' = lazily_clear_labels_at_tail b
           in Some (b'\<lparr>latest_branches := latest_branches b' @
                [\<lparr>br_start = start, br_end = stop, br_target = target, br_fixup = fixup,
                  br_inverted = inverted, br_labels = labels_at_tail b'\<rparr>]\<rparr>)
      else None)"

definition add_uncond_branch ::
  "code_offset \<Rightarrow> code_offset \<Rightarrow> mach_label \<Rightarrow> mach_buffer \<Rightarrow> mach_buffer option" where
  "add_uncond_branch start stop target b = add_branch start stop target None b"

definition add_cond_branch ::
  "code_offset \<Rightarrow> code_offset \<Rightarrow> mach_label \<Rightarrow> u8 list \<Rightarrow> mach_buffer \<Rightarrow> mach_buffer option" where
  "add_cond_branch start stop target inverted b = add_branch start stop target (Some inverted) b"

text \<open>Source locations past the truncation point are cut or dropped, debug tags dropped.\<close>

fun trim_srclocs :: "code_offset \<Rightarrow> mach_srcloc list \<Rightarrow> mach_srcloc list" where
  "trim_srclocs off [] = []"
| "trim_srclocs off (s # rest) =
     (if sl_end s \<le> off then s # rest
      else if sl_start s < off then s\<lparr>sl_end := off\<rparr> # rest
      else trim_srclocs off rest)"

text \<open>
  \<open>for &l in &self.labels_at_tail { self.label_offsets[l] = cur_off }\<close>; an index out of range is
  excluded by the caller's check.
\<close>

definition set_offsets :: "mach_label list \<Rightarrow> code_offset \<Rightarrow> mach_buffer \<Rightarrow> mach_buffer" where
  "set_offsets ls off b =
     b\<lparr>label_offsets := fold (\<lambda>l os. os[l := Some off]) ls (label_offsets b)\<rparr>"

definition truncate_last_branch :: "mach_buffer \<Rightarrow> mach_buffer option" where
  "truncate_last_branch b0 =
     (let b = lazily_clear_labels_at_tail b0 in
      if open_patchable b0 then None
      else if latest_branches b = [] then None
      else let br = last (latest_branches b) in
        if br_end br \<noteq> cur_offset b \<or> (\<exists>l \<in> set (labels_at_tail b). length (label_offsets b) \<le> l)
        then None
        else let cur_off = min (br_start br) (cur_offset b);
                 b1 = b\<lparr>latest_branches := butlast (latest_branches b),
                        data := take (br_start br) (data b),
                        pending_fixup_records := take (br_fixup br) (pending_fixup_records b),
                        srclocs := rev (trim_srclocs (br_start br) (rev (srclocs b))),
                        debug_tags := rev (dropWhile (\<lambda>o'. br_start br < o') (rev (debug_tags b))),
                        labels_at_tail_off := cur_off\<rparr>;
                 b2 = set_offsets (labels_at_tail b1) cur_off b1
             in Some (b2\<lparr>labels_at_tail := labels_at_tail b2 @ br_labels br\<rparr>))"

text \<open>
  One pass of the loop body of \<open>optimize_branches\<close>: \<open>Inl\<close> leaves the loop, \<open>Inr\<close> is \<open>continue\<close>,
  \<open>None\<close> a panic. \<open>redirect_labels\<close> is the aliasing of the labels at an unconditional branch,
  \<open>invert_prev\<close> the folding of a branch around an unconditional branch.
\<close>

definition redirect_labels :: "mach_branch \<Rightarrow> mach_buffer \<Rightarrow> mach_buffer" where
  "redirect_labels br b =
     b\<lparr>label_aliases := fold (\<lambda>l as. as[l := Some (br_target br)]) (br_labels br) (label_aliases b),
       latest_branches := butlast (latest_branches b) @ [(last (latest_branches b))\<lparr>br_labels := []\<rparr>]\<rparr>"

definition invert_prev :: "mach_label \<Rightarrow> u8 list \<Rightarrow> mach_buffer \<Rightarrow> mach_buffer option" where
  "invert_prev target inverted b =
     (let prev = last (latest_branches b) in
      if latest_branches b = [] \<or> length (data b) < br_end prev \<or> br_end prev < br_start prev
         \<or> length (pending_fixup_records b) \<le> br_fixup prev
         \<or> cur_offset b \<noteq> br_start prev + length inverted
      then None
      else let not_inverted = take (br_end prev - br_start prev) (drop (br_start prev) (data b))
           in Some (b\<lparr>data := take (br_start prev) (data b) @ inverted,
                pending_fixup_records :=
                  (pending_fixup_records b)[br_fixup prev :=
                     (pending_fixup_records b ! br_fixup prev)\<lparr>fix_label := target\<rparr>],
                latest_branches := butlast (latest_branches b) @
                  [prev\<lparr>br_inverted := Some not_inverted, br_target := target\<rparr>]\<rparr>))"

definition prev_branch_rules :: "mach_buffer \<Rightarrow> (mach_buffer + mach_buffer) option" where
  "prev_branch_rules b =
     (let bs = latest_branches b; br = last bs; prev = bs ! (length bs - 2); cur_off = cur_offset b in
      if length bs \<le> 1 then Some (Inl b)
      else if is_uncond prev \<and> br_end prev = br_start br \<and> br_labels br = []
      then map_option Inr (truncate_last_branch b)
      else if is_cond prev \<and> br_end prev = br_start br
      then do {
        off \<leftarrow> resolve_label_offset b (br_target prev);
        if off = Some cur_off
        then do {
          b' \<leftarrow> truncate_last_branch b;
          b'' \<leftarrow> invert_prev (br_target br) (the (br_inverted prev)) b';
          Some (Inr b'')
        }
        else Some (Inl b)
      }
      else Some (Inl b))"

definition branch_rules ::
  "code_offset option \<Rightarrow> mach_branch \<Rightarrow> mach_buffer \<Rightarrow> (mach_buffer + mach_buffer) option" where
  "branch_rules target_off br b =
     (if target_off = Some (cur_offset b) then map_option Inr (truncate_last_branch b)
      else if \<not> is_uncond br then Some (Inl b)
      else if target_off = Some (br_start br) then Some (Inl b)
      else if \<exists>l \<in> set (br_labels br). length (label_aliases b) \<le> l then None
      else if br_labels br \<noteq> [] then Some (Inr (redirect_labels br b))
      else prev_branch_rules (redirect_labels br b))"

definition optimize_step :: "mach_buffer \<Rightarrow> (mach_buffer + mach_buffer) option" where
  "optimize_step b =
     (let br = last (latest_branches b) in
      if latest_branches b = [] then Some (Inl b)
      else if br_end br < cur_offset b then Some (Inl b)
      else if LABEL_LIST_THRESHOLD < length (br_labels br) then Some (Inl b)
      else resolve_label_offset b (br_target br) \<bind> (\<lambda>target_off. branch_rules target_off br b))"

definition purge_latest_branches :: "mach_buffer \<Rightarrow> mach_buffer" where
  "purge_latest_branches b =
     (if latest_branches b \<noteq> [] \<and> br_end (last (latest_branches b)) < cur_offset b
      then b\<lparr>latest_branches := []\<rparr> else b)"

text \<open>
  The loop ends because every \<open>continue\<close> removes a branch or empties the last branch's label
  list: \<open>opt_measure\<close> decreases.
\<close>

definition opt_measure :: "mach_buffer \<Rightarrow> nat" where
  "opt_measure b = 2 * length (latest_branches b) +
     (if latest_branches b \<noteq> [] \<and> br_labels (last (latest_branches b)) \<noteq> [] then 1 else 0)"

lemma truncate_last_branch_latest:
  assumes "truncate_last_branch b = Some b'"
  shows "latest_branches b \<noteq> []" "latest_branches b' = butlast (latest_branches b)"
  using assms
  by (auto simp: truncate_last_branch_def lazily_clear_labels_at_tail_def set_offsets_def Let_def
      split: if_splits)

lemma invert_prev_length:
  "invert_prev t i b = Some b' \<Longrightarrow> length (latest_branches b') = length (latest_branches b)"
  by (auto simp: invert_prev_def Let_def split: if_splits)

lemma opt_measure_less: "length (latest_branches b') < length (latest_branches b) \<Longrightarrow> opt_measure b' < opt_measure b"
  by (auto simp: opt_measure_def)

lemma truncate_measure: "truncate_last_branch b = Some b' \<Longrightarrow> length (latest_branches b') < length (latest_branches b)"
  using truncate_last_branch_latest [of b b'] by (cases "latest_branches b") auto

lemma prev_branch_rules_measure:
  "prev_branch_rules b = Some (Inr b') \<Longrightarrow> length (latest_branches b') < length (latest_branches b)"
  using invert_prev_length truncate_measure
  by (auto simp: prev_branch_rules_def Let_def split: if_splits bind_splits)

lemma redirect_labels_latest [simp]:
  "latest_branches (redirect_labels br b) =
     butlast (latest_branches b) @ [(last (latest_branches b))\<lparr>br_labels := []\<rparr>]"
  by (simp add: redirect_labels_def)

lemma branch_rules_continue:
  "branch_rules off br b = Some (Inr b') \<Longrightarrow>
     truncate_last_branch b = Some b' \<or> br_labels br \<noteq> [] \<and> b' = redirect_labels br b \<or>
     prev_branch_rules (redirect_labels br b) = Some (Inr b')"
  unfolding branch_rules_def by (simp split: if_split_asm)

lemma optimize_step_continue:
  assumes "optimize_step b = Some r" "latest_branches b \<noteq> []"
  shows "r = Inl b \<or> br_end (last (latest_branches b)) \<ge> cur_offset b \<and>
    (\<exists>off. resolve_label_offset b (br_target (last (latest_branches b))) = Some off \<and>
      branch_rules off (last (latest_branches b)) b = Some r)"
  using assms unfolding optimize_step_def Let_def
  by (cases "resolve_label_offset b (br_target (last (latest_branches b)))")
     (simp_all split: if_split_asm)

lemma optimize_step_measure:
  assumes "optimize_step b = Some (Inr b')" shows "opt_measure b' < opt_measure b"
proof -
  let ?br = "last (latest_branches b)"
  have ne: "latest_branches b \<noteq> []"
    using assms by (cases "latest_branches b = []") (simp_all add: optimize_step_def)
  obtain off where "branch_rules off ?br b = Some (Inr b')"
    using optimize_step_continue [OF assms ne] by blast
  from branch_rules_continue [OF this]
  consider (trunc) "truncate_last_branch b = Some b'"
    | (redir) "br_labels ?br \<noteq> []" "b' = redirect_labels ?br b"
    | (prev) "prev_branch_rules (redirect_labels ?br b) = Some (Inr b')"
    by blast
  then show ?thesis
  proof cases
    case trunc
    then show ?thesis by (intro opt_measure_less truncate_measure)
  next
    case redir
    then show ?thesis using ne by (simp add: opt_measure_def)
  next
    case prev
    have "length (latest_branches (redirect_labels ?br b)) = length (latest_branches b)"
      using ne by simp
    then show ?thesis using prev_branch_rules_measure [OF prev] by (intro opt_measure_less) simp
  qed
qed

function optimize_loop :: "mach_buffer \<Rightarrow> mach_buffer option" where
  "optimize_loop b =
     (case optimize_step b of
        None \<Rightarrow> None
      | Some (Inl b') \<Rightarrow> Some b'
      | Some (Inr b') \<Rightarrow> optimize_loop b')"
  by pat_completeness auto

termination
  by (relation "measure opt_measure") (auto simp: optimize_step_measure)

declare optimize_loop.simps [simp del]

definition optimize_branches :: "mach_buffer \<Rightarrow> mach_buffer option" where
  "optimize_branches b =
     map_option purge_latest_branches (optimize_loop (lazily_clear_labels_at_tail b))"

definition bind_label :: "mach_label \<Rightarrow> mach_buffer \<Rightarrow> mach_buffer option" where
  "bind_label label b =
     (if length (label_offsets b) \<le> label \<or> length (label_aliases b) \<le> label
         \<or> label_offsets b ! label \<noteq> None \<or> label_aliases b ! label \<noteq> None
      then None
      else let b1 = lazily_clear_labels_at_tail
                 (b\<lparr>label_offsets := (label_offsets b)[label := Some (cur_offset b)]\<rparr>)
           in optimize_branches (b1\<lparr>labels_at_tail := labels_at_tail b1 @ [label]\<rparr>))"

section \<open>Records\<close>

definition start_srcloc :: "nat \<Rightarrow> mach_buffer \<Rightarrow> mach_buffer" where
  "start_srcloc loc b = b\<lparr>cur_srcloc := Some (cur_offset b, loc)\<rparr>"

definition end_srcloc :: "mach_buffer \<Rightarrow> mach_buffer option" where
  "end_srcloc b =
     (case cur_srcloc b of
        None \<Rightarrow> None
      | Some (start, loc) \<Rightarrow>
          if cur_offset b < start then None
          else Some (b\<lparr>cur_srcloc := None,
            srclocs := srclocs b @ (if start < cur_offset b
              then [\<lparr>sl_start = start, sl_end = cur_offset b, sl_loc = loc\<rparr>] else [])\<rparr>))"

definition add_reloc_at_offset ::
  "code_offset \<Rightarrow> reloc_kind \<Rightarrow> external_name \<Rightarrow> int \<Rightarrow> mach_buffer \<Rightarrow> mach_buffer" where
  "add_reloc_at_offset offset kind target addend b =
     b\<lparr>relocs := relocs b @
        [\<lparr>rel_offset = offset, rel_kind = kind, rel_target = target, rel_addend = addend\<rparr>]\<rparr>"

definition add_reloc :: "reloc_kind \<Rightarrow> external_name \<Rightarrow> int \<Rightarrow> mach_buffer \<Rightarrow> mach_buffer" where
  "add_reloc kind target addend b = add_reloc_at_offset (length (data b)) kind target addend b"

definition add_trap :: "trap_code \<Rightarrow> mach_buffer \<Rightarrow> mach_buffer" where
  "add_trap code b = b\<lparr>traps := traps b @ [(length (data b), code)]\<rparr>"

definition add_try_call_site ::
  "nat option \<Rightarrow> mach_exception_handler list \<Rightarrow> mach_buffer \<Rightarrow> mach_buffer" where
  "add_try_call_site frame_off handlers b =
     (let start = length (exception_handlers b); ehs = exception_handlers b @ handlers
      in b\<lparr>exception_handlers := ehs,
           call_sites := call_sites b @ [\<lparr>ret_addr = length (data b), frame_offset = frame_off,
             handler_range = (start, length ehs)\<rparr>]\<rparr>)"

definition add_call_site :: "mach_buffer \<Rightarrow> mach_buffer" where
  "add_call_site b = add_try_call_site None [] b"

definition finalize_stack_map :: "nat \<Rightarrow> user_stack_map \<Rightarrow> user_stack_map" where
  "finalize_stack_map off m = m\<lparr>sp_to_sized := Some off\<rparr>"

definition push_user_stack_map ::
  "frame_layout \<Rightarrow> code_offset \<Rightarrow> user_stack_map \<Rightarrow> mach_buffer \<Rightarrow> mach_buffer option" where
  "push_user_stack_map frame return_addr m b =
     (if user_stack_maps b \<noteq> [] \<and> return_addr \<le> fst (last (user_stack_maps b)) then None
      else Some (b\<lparr>user_stack_maps := user_stack_maps b @
        [(return_addr, active_size frame, finalize_stack_map (sp_to_sized_stack_slots frame) m)]\<rparr>))"

definition push_user_stack_map_sp_relative ::
  "code_offset \<Rightarrow> nat \<Rightarrow> user_stack_map \<Rightarrow> mach_buffer \<Rightarrow> mach_buffer option" where
  "push_user_stack_map_sp_relative return_addr frame_size m b =
     (if user_stack_maps b \<noteq> [] \<and> return_addr \<le> fst (last (user_stack_maps b)) then None
      else Some (b\<lparr>user_stack_maps := user_stack_maps b @ [(return_addr, frame_size, m)]\<rparr>))"

text \<open>\<open>checked_shl\<close> refuses a shift of 32 or more.\<close>

definition set_log2_min_function_alignment :: "nat \<Rightarrow> mach_buffer \<Rightarrow> mach_buffer option" where
  "set_log2_min_function_alignment log2 b =
     (if 32 \<le> log2 then None else Some (b\<lparr>min_alignment := max (min_alignment b) (2 ^ log2)\<rparr>))"

text \<open>The offset of a debug tag record; the tags themselves go to a pool.\<close>

definition push_debug_tags :: "mach_buffer \<Rightarrow> mach_buffer" where
  "push_debug_tags b = b\<lparr>debug_tags := debug_tags b @ [cur_offset b]\<rparr>"

definition defer_trap :: "trap_code \<Rightarrow> mach_buffer \<Rightarrow> mach_label \<times> mach_buffer" where
  "defer_trap code b =
     (let (label, b') = get_label b
      in (label, b'\<lparr>pending_traps := pending_traps b' @
            [\<lparr>mlt_label = label, mlt_code = code, mlt_loc = map_option snd (cur_srcloc b')\<rparr>]\<rparr>))"

definition register_constant :: "nat \<Rightarrow> nat \<Rightarrow> nat \<Rightarrow> mach_buffer \<Rightarrow> mach_buffer option" where
  "register_constant constant al sz b =
     (if constant = length (constants b)
      then Some (b\<lparr>constants := constants b @ [\<lparr>upcoming_label = None, bc_align = al, bc_size = sz\<rparr>]\<rparr>)
      else None)"

definition get_label_for_constant :: "nat \<Rightarrow> mach_buffer \<Rightarrow> (mach_label \<times> mach_buffer) option" where
  "get_label_for_constant constant b =
     (if length (constants b) \<le> constant then None
      else case upcoming_label (constants b ! constant) of
        Some label \<Rightarrow> Some (label, b)
      | None \<Rightarrow>
          let (label, b') = get_label b;
              c = constants b' ! constant
          in map_option (\<lambda>size. (label, b'\<lparr>pending_constants := pending_constants b' @ [constant],
               pending_constants_size := size,
               constants := (constants b')[constant := c\<lparr>upcoming_label := Some label\<rparr>]\<rparr>))
             (u32_add (pending_constants_size b') (bc_size c)))"

section \<open>Islands, veneers and fixups\<close>

definition min_fixup_deadline :: "mach_fixup list \<Rightarrow> code_offset option" where
  "min_fixup_deadline fs = (if fs = [] then None else Some (Min (fixup_deadline ` set fs)))"

text \<open>\<open>as u32\<close> keeps the low 32 bits of the size of the pending traps.\<close>

definition worst_case_end_of_island :: "code_offset \<Rightarrow> mach_buffer \<Rightarrow> code_offset option" where
  "worst_case_end_of_island distance b = do {
     let max_veneer_count = length (fixup_records b) + length (pending_fixup_records b);
     assert_that (max_veneer_count \<le> u32_max);
     size \<leftarrow> u32_add (sat_mul max_veneer_count worst_case_veneer_size) (pending_constants_size b);
     island_worst_case_size \<leftarrow>
       u32_add size (length (pending_traps b) * length TRAP_OPCODE mod 2 ^ 32);
     Some (sat_add (sat_add (cur_offset b) distance) island_worst_case_size)
   }"

definition island_needed :: "code_offset \<Rightarrow> mach_buffer \<Rightarrow> bool option" where
  "island_needed distance b =
     (let deadline = (case min_fixup_deadline (fixup_records b) of
          Some d \<Rightarrow> min d (pending_fixup_deadline b)
        | None \<Rightarrow> pending_fixup_deadline b)
      in if deadline < u32_max
         then map_option (\<lambda>worst. deadline < worst) (worst_case_end_of_island distance b)
         else Some False)"

definition should_apply_fixup :: "mach_fixup \<Rightarrow> code_offset \<Rightarrow> mach_buffer \<Rightarrow> bool option" where
  "should_apply_fixup fixup forced_threshold b =
     (case resolve_label_offset b (fix_label fixup) of
        None \<Rightarrow> None
      | Some label_offset \<Rightarrow>
          Some (label_offset \<noteq> None \<or>
            (fixup_deadline fixup < forced_threshold \<and> supports_veneer (fix_kind fixup))))"

text \<open>\<open>kind.patch(&mut self.data[start..end], offset, label_offset)\<close>\<close>

definition patch_data ::
  "label_use \<Rightarrow> code_offset \<Rightarrow> code_offset \<Rightarrow> mach_buffer \<Rightarrow> mach_buffer option" where
  "patch_data kind offset label_offset b =
     (if length (data b) < offset + patch_size kind then None
      else do {
        bytes \<leftarrow> patch kind (take (patch_size kind) (drop offset (data b))) offset label_offset;
        Some (b\<lparr>data := take offset (data b) @ bytes @ drop (offset + patch_size kind) (data b)\<rparr>)
      })"

definition emit_veneer ::
  "mach_label \<Rightarrow> code_offset \<Rightarrow> label_use \<Rightarrow> mach_buffer \<Rightarrow> mach_buffer option" where
  "emit_veneer label offset kind b0 = do {
     assert_that (supports_veneer kind);
     b1 \<leftarrow> align_buffer LABEL_USE_ALIGN b0;
     let veneer_offset = cur_offset b1;
     b2 \<leftarrow> patch_data kind offset veneer_offset b1;
     (bytes, fixup_off, use) \<leftarrow> generate_veneer kind (replicate (veneer_size kind) 0) veneer_offset;
     Some (use_label_at_offset fixup_off label use (put_data bytes b2))
   }"

datatype force_veneers = ForceVeneers_Yes | ForceVeneers_No

definition handle_fixup ::
  "mach_fixup \<Rightarrow> force_veneers \<Rightarrow> code_offset \<Rightarrow> mach_buffer \<Rightarrow> mach_buffer option" where
  "handle_fixup fixup force forced_threshold b =
     (let label = fix_label fixup; offset = fix_offset fixup; kind = fix_kind fixup in
      case resolve_label_offset b label of
        None \<Rightarrow> None
      | Some (Some label_offset) \<Rightarrow>
          if offset \<le> label_offset \<and> max_pos_range kind < label_offset - offset then None
          else let veneer_required = (label_offset < offset \<and> max_neg_range kind < offset - label_offset)
               in if force = ForceVeneers_Yes \<and> supports_veneer kind \<or> veneer_required
                  then emit_veneer label offset kind b
                  else patch_data kind offset label_offset b
      | Some None \<Rightarrow>
          if forced_threshold < offset \<or> forced_threshold - offset \<le> max_pos_range kind then None
          else emit_veneer label offset kind b)"

fun flush_pending ::
  "mach_fixup list \<Rightarrow> force_veneers \<Rightarrow> code_offset \<Rightarrow> mach_buffer \<Rightarrow> mach_buffer option" where
  "flush_pending [] force threshold b = Some b"
| "flush_pending (f # fs) force threshold b = do {
     apply \<leftarrow> should_apply_fixup f threshold b;
     b' \<leftarrow> (if apply then handle_fixup f force threshold b
            else Some (b\<lparr>fixup_records := fixup_records b @ [f]\<rparr>));
     flush_pending fs force threshold b'
   }"

text \<open>\<open>peek\<close> and \<open>pop\<close> of the heap: the first record of least deadline.\<close>

fun take_first :: "('a \<Rightarrow> bool) \<Rightarrow> 'a list \<Rightarrow> ('a \<times> 'a list) option" where
  "take_first P [] = None"
| "take_first P (x # xs) =
     (if P x then Some (x, xs) else map_option (\<lambda>(y, ys). (y, x # ys)) (take_first P xs))"

definition heap_pop :: "mach_fixup list \<Rightarrow> (mach_fixup \<times> mach_fixup list) option" where
  "heap_pop fs = take_first (\<lambda>f. Some (fixup_deadline f) = min_fixup_deadline fs) fs"

lemma take_first_length: "take_first P xs = Some (y, ys) \<Longrightarrow> length xs = Suc (length ys)"
  by (induction xs arbitrary: y ys) (auto split: if_splits)

text \<open>
  The heap loop: every round takes one record from the heap, and what a veneer adds goes to the
  pending records, so as many rounds as there are records are enough.
\<close>

fun flush_heap :: "nat \<Rightarrow> force_veneers \<Rightarrow> code_offset \<Rightarrow> mach_buffer \<Rightarrow> mach_buffer option" where
  "flush_heap 0 force threshold b = Some b"
| "flush_heap (Suc n) force threshold b =
     (case heap_pop (fixup_records b) of
        None \<Rightarrow> Some b
      | Some (f, rest) \<Rightarrow> do {
          apply \<leftarrow> should_apply_fixup f threshold b;
          if \<not> apply then Some b
          else do {
            b' \<leftarrow> handle_fixup f force threshold (b\<lparr>fixup_records := rest\<rparr>);
            flush_heap n force threshold b'
          }
        })"

definition emit_pending_trap :: "mach_label_trap \<Rightarrow> mach_buffer \<Rightarrow> mach_buffer option" where
  "emit_pending_trap t b = do {
     let b = (case mlt_loc t of Some loc \<Rightarrow> start_srcloc loc b | None \<Rightarrow> b);
     b \<leftarrow> align_buffer LABEL_USE_ALIGN b;
     b \<leftarrow> bind_label (mlt_label t) b;
     let b = put_data TRAP_OPCODE (add_trap (mlt_code t) b);
     if mlt_loc t \<noteq> None then end_srcloc b else Some b
   }"

definition emit_pending_constant :: "nat \<Rightarrow> mach_buffer \<Rightarrow> mach_buffer option" where
  "emit_pending_constant constant b = do {
     assert_that (constant < length (constants b));
     let c = constants b ! constant;
     label \<leftarrow> upcoming_label c;
     let b = b\<lparr>constants := (constants b)[constant := c\<lparr>upcoming_label := None\<rparr>]\<rparr>;
     b \<leftarrow> align_buffer (bc_align c) b;
     b \<leftarrow> bind_label label b;
     let b = b\<lparr>used_constants := used_constants b @ [(constant, cur_offset b)]\<rparr>;
     Some (get_appended_space (bc_size c) b)
   }"

fun fold_option :: "('a \<Rightarrow> 'b \<Rightarrow> 'b option) \<Rightarrow> 'a list \<Rightarrow> 'b \<Rightarrow> 'b option" where
  "fold_option f [] b = Some b"
| "fold_option f (x # xs) b = f x b \<bind> fold_option f xs"

definition emit_island_maybe_forced ::
  "force_veneers \<Rightarrow> code_offset \<Rightarrow> mach_buffer \<Rightarrow> mach_buffer option" where
  "emit_island_maybe_forced force distance b0 = do {
     let b = b0\<lparr>latest_branches := []\<rparr>;
     let cur_loc = map_option snd (cur_srcloc b);
     b \<leftarrow> (if cur_loc \<noteq> None then end_srcloc b else Some b);
     forced_threshold \<leftarrow> worst_case_end_of_island distance b;
     b \<leftarrow> flush_pending (pending_fixup_records b) force forced_threshold
            (b\<lparr>pending_fixup_records := []\<rparr>);
     let b = b\<lparr>pending_fixup_deadline := u32_max\<rparr>;
     b \<leftarrow> flush_heap (length (fixup_records b)) force forced_threshold b;
     b \<leftarrow> fold_option emit_pending_trap (pending_traps b) (b\<lparr>pending_traps := []\<rparr>);
     b \<leftarrow> fold_option emit_pending_constant (pending_constants b) (b\<lparr>pending_constants := []\<rparr>);
     Some (case cur_loc of Some loc \<Rightarrow> start_srcloc loc b | None \<Rightarrow> b)
   }"

definition emit_island :: "code_offset \<Rightarrow> mach_buffer \<Rightarrow> mach_buffer option" where
  "emit_island distance b = emit_island_maybe_forced ForceVeneers_No distance b"

text \<open>
  Emission ends when nothing is pending. A label that is never bound keeps the loop running for
  ever, so the loop is a partial function: \<open>None\<close> is a panic or non-termination.
\<close>

partial_function (option) finish_loop :: "force_veneers \<Rightarrow> mach_buffer \<Rightarrow> mach_buffer option" where
  "finish_loop force b =
     (if pending_constants b = [] \<and> pending_traps b = [] \<and> fixup_records b = []
         \<and> pending_fixup_records b = []
      then Some b
      else emit_island_maybe_forced force 0 b \<bind> finish_loop force)"

definition finish_emission_maybe_forcing_veneers ::
  "force_veneers \<Rightarrow> mach_buffer \<Rightarrow> mach_buffer option" where
  "finish_emission_maybe_forcing_veneers force b = finish_loop force b"

end
