(* ===== verification/Sia32_Emit.thy ===== *)
theory Sia32_Emit
  imports Mach_Buffer
begin

text \<open>
  \<open>src/cranelift/codegen/src/isa/sia32/inst.rs\<close> (emission) and \<open>reloc.rs\<close>: how each machine
  instruction is expanded into 16-bit words in the code buffer. One definition per helper function
  of the source and one per group of arms of the \<open>match\<close> in \<open>emit\<close>. The code buffer is passed
  explicitly; \<open>None\<close> is a panic (\<open>assert!\<close>, \<open>expect\<close>, \<open>unwrap\<close>, \<open>panic!\<close>). The encoders of SREAD
  and similar validating forms are called with \<open>expect\<close>, as in the source.
\<close>

record emit_state =
  frame_layout_of :: frame_layout
  user_stack_map_of :: "user_stack_map option"

type_synonym emitter = "mach_buffer \<Rightarrow> mach_buffer option"

definition put_word :: "u16 \<Rightarrow> emitter" where
  "put_word word b = Some (put2 word b)"

text \<open>\<open>put_word(code, encode::f(..).unwrap())\<close>\<close>

definition put_checked :: "u16 encode_result \<Rightarrow> emitter" where
  "put_checked r b = expect r \<bind> (\<lambda>w. put_word w b)"

text \<open>\<open>for &digit in &digits[1..] { shli 7; if digit != 0 { addi digit } }\<close>\<close>

fun emit_digits :: "reg \<Rightarrow> int list \<Rightarrow> emitter" where
  "emit_digits dst [] b = Some b"
| "emit_digits dst (digit # ds) b = do {
     b \<leftarrow> put_checked (encode_shli dst 7) b;
     b \<leftarrow> (if digit \<noteq> 0 then put_checked (encode_addi dst (word_of_int digit)) b else Some b);
     emit_digits dst ds b
   }"

definition emit_const32 :: "reg \<Rightarrow> u32 \<Rightarrow> emitter" where
  "emit_const32 dst value b =
     (case const_digits value of
        [] \<Rightarrow> None
      | d # ds \<Rightarrow> put_checked (encode_li dst (word_of_int d)) b \<bind> emit_digits dst ds)"

text \<open>
  The tail shared by the literal sequences: branch over an aligned literal word, bind the literal,
  let \<open>word\<close> emit it, and bind the continuation.
\<close>

definition emit_branch_over ::
  "mach_label \<Rightarrow> mach_label \<Rightarrow> emitter \<Rightarrow> emitter" where
  "emit_branch_over literal fin word b = do {
     let branch_at = cur_offset b;
     let b = use_label_at_offset branch_at fin Branch11 b;
     b \<leftarrow> add_uncond_branch branch_at (branch_at + 2) fin b;
     b \<leftarrow> put_checked (encode_b 0) b;
     b \<leftarrow> align_buffer 4 b;
     b \<leftarrow> bind_label literal b;
     b \<leftarrow> word b;
     bind_label fin b
   }"

definition emit_literal32 :: "reg \<Rightarrow> u32 \<Rightarrow> emitter" where
  "emit_literal32 dst value b = do {
     let (literal, b) = get_label b;
     let (fin, b) = get_label b;
     let b = use_label_at_offset (cur_offset b) literal Literal8 b;
     b \<leftarrow> put_checked (encode_ldpc_w dst 0) b;
     emit_branch_over literal fin (\<lambda>b. Some (put4 value b)) b
   }"

definition emit_add_imm32 :: "reg \<Rightarrow> reg \<Rightarrow> i32 \<Rightarrow> emitter" where
  "emit_add_imm32 dst src imm b =
     (if -64 \<le> sint imm \<and> sint imm \<le> 63
      then do {
        b \<leftarrow> (if dst \<noteq> src then put_word (encode_mov dst src) b else Some b);
        if imm \<noteq> 0 then put_checked (encode_addi dst imm) b else Some b
      }
      else if dst = reg_SCRATCH
      then do {
        assert_that (src \<noteq> reg_SCRATCH);
        b \<leftarrow> emit_const32 reg_SCRATCH imm b;
        put_word (encode_add reg_SCRATCH reg_SCRATCH src) b
      }
      else do {
        b \<leftarrow> (if dst \<noteq> src then put_word (encode_mov dst src) b else Some b);
        b \<leftarrow> emit_const32 reg_SCRATCH imm b;
        put_word (encode_add dst dst reg_SCRATCH) b
      })"

fun load_word :: "load_op \<Rightarrow> reg \<Rightarrow> reg \<Rightarrow> u16" where
  "load_word Load_I8 dst base = encode_lb dst base"
| "load_word Load_U8 dst base = encode_lbu dst base"
| "load_word Load_I16 dst base = encode_lh dst base"
| "load_word Load_U16 dst base = encode_lhu dst base"
| "load_word Load_I32 dst base = encode_lw dst base"

definition emit_load_zero_offset :: "load_op \<Rightarrow> reg \<Rightarrow> reg \<Rightarrow> emitter" where
  "emit_load_zero_offset op dst base b = put_word (load_word op dst base) b"

fun store_word :: "store_op \<Rightarrow> reg \<Rightarrow> reg \<Rightarrow> u16" where
  "store_word Store_I8 src base = encode_sb src base"
| "store_word Store_I16 src base = encode_sh src base"
| "store_word Store_I32 src base = encode_sw src base"

definition emit_store_zero_offset :: "store_op \<Rightarrow> reg \<Rightarrow> reg \<Rightarrow> emitter" where
  "emit_store_zero_offset op src base b = put_word (store_word op src base) b"

definition emit_load_base_offset :: "load_op \<Rightarrow> reg \<Rightarrow> reg \<Rightarrow> i32 \<Rightarrow> emitter" where
  "emit_load_base_offset op dst base offset b =
     (if offset = 0 then emit_load_zero_offset op dst base b
      else if dst \<noteq> base
      then emit_add_imm32 dst base offset b \<bind> emit_load_zero_offset op dst dst
      else do {
        assert_that (base \<noteq> reg_SCRATCH);
        b \<leftarrow> emit_add_imm32 reg_SCRATCH base offset b;
        emit_load_zero_offset op dst reg_SCRATCH b
      })"

definition emit_store_base_offset :: "store_op \<Rightarrow> reg \<Rightarrow> reg \<Rightarrow> i32 \<Rightarrow> emitter" where
  "emit_store_base_offset op src base offset b =
     (if offset = 0 then emit_store_zero_offset op src base b
      else do {
        assert_that (src \<noteq> reg_SCRATCH \<and> base \<noteq> reg_SCRATCH);
        b \<leftarrow> emit_add_imm32 reg_SCRATCH base offset b;
        emit_store_zero_offset op src reg_SCRATCH b
      })"

section \<open>Calls and relocated words\<close>

text \<open>
  The handlers of a try call. A spilled context never reaches the model's register type, so the
  context is a physical register or the panic of the source.
\<close>

fun exception_handler_of :: "try_call_handler \<Rightarrow> mach_exception_handler option" where
  "exception_handler_of (Handler_Tag tag l) = Some (EH_Tag tag l)"
| "exception_handler_of (Handler_Default l) = Some (EH_Default l)"
| "exception_handler_of (Handler_Context r) =
     map_option (\<lambda>p. EH_Context (GPR (hw_enc p))) (to_real_reg r)"

fun option_list :: "'a option list \<Rightarrow> 'a list option" where
  "option_list [] = Some []"
| "option_list (x # xs) = do { y \<leftarrow> x; ys \<leftarrow> option_list xs; Some (y # ys) }"

definition record_call :: "emit_state \<Rightarrow> 'd call_info \<Rightarrow> mach_buffer \<Rightarrow> (mach_buffer \<times> emit_state) option" where
  "record_call st info b = do {
     assert_that (callee_pop_size info = 0);
     assert_that (\<not> patchable info);
     b \<leftarrow> (case try_call_info_of info of
        Some t \<Rightarrow> do {
          hs \<leftarrow> option_list (map exception_handler_of (try_handlers t));
          Some (add_try_call_site (Some (sp_to_fp (frame_layout_of st))) hs b)
        }
      | None \<Rightarrow> Some (add_call_site b));
     (case user_stack_map_of st of
        Some m \<Rightarrow> do {
          b \<leftarrow> push_user_stack_map (frame_layout_of st) (cur_offset b) m b;
          Some (b, st\<lparr>user_stack_map_of := None\<rparr>)
        }
      | None \<Rightarrow> Some (b, st))
   }"

definition emit_ext_name32 :: "reg \<Rightarrow> external_name \<Rightarrow> int \<Rightarrow> emitter" where
  "emit_ext_name32 dst name addend b = do {
     let (literal, b) = get_label b;
     let (fin, b) = get_label b;
     let b = use_label_at_offset (cur_offset b) literal Literal8 b;
     b \<leftarrow> put_checked (encode_ldpc_w dst 0) b;
     emit_branch_over literal fin (\<lambda>b. Some (put4 0 (add_reloc Reloc_Abs4 name addend b))) b
   }"

definition emit_direct_call ::
  "emit_state \<Rightarrow> external_name call_info \<Rightarrow> mach_buffer \<Rightarrow> (mach_buffer \<times> emit_state) option" where
  "emit_direct_call st info b = do {
     let (literal, b) = get_label b;
     let (fin, b) = get_label b;
     let b = use_label_at_offset (cur_offset b) literal Literal8 b;
     b \<leftarrow> put_checked (encode_ldpc_w reg_SCRATCH 0) b;
     b \<leftarrow> put_word (encode_callr reg_SCRATCH) b;
     (b, st) \<leftarrow> record_call st info b;
     b \<leftarrow> emit_branch_over literal fin
            (\<lambda>b. Some (put4 0 (add_reloc Reloc_Abs4 (dest info) 0 b))) b;
     Some (b, st)
   }"

definition emit_abs32_word :: "external_name \<Rightarrow> i32 \<Rightarrow> mach_buffer \<Rightarrow> (code_offset \<times> mach_buffer) option" where
  "emit_abs32_word target addend b = do {
     b \<leftarrow> align_buffer 4 b;
     Some (cur_offset b, put4 0 (add_reloc Reloc_Abs4 target (sint addend) b))
   }"

definition checked_abs32_value :: "u64 \<Rightarrow> i32 \<Rightarrow> u32 option" where
  "checked_abs32_value symbol_address addend =
     (let value = uint symbol_address + sint addend
      in if 0 \<le> value \<and> value < 2 ^ 32 then Some (word_of_int value) else None)"

section \<open>Two-address arithmetic\<close>

text \<open>
  The operand shuffle shared by \<open>TwoOp\<close> and \<open>Icmp\<close>: keep the right operand in the scratch register
  when the destination overwrites it, then move the left operand into the destination.
\<close>

definition emit_two_address :: "reg \<Rightarrow> reg \<Rightarrow> reg \<Rightarrow> (reg \<Rightarrow> emitter) \<Rightarrow> emitter" where
  "emit_two_address d l r k b = do {
     (r, b) \<leftarrow> (if d = r \<and> d \<noteq> l
        then do { b \<leftarrow> put_word (encode_mov reg_SCRATCH r) b; Some (reg_SCRATCH, b) }
        else Some (r, b));
     b \<leftarrow> (if d \<noteq> l then put_word (encode_mov d l) b else Some b);
     k r b
   }"

fun two_op_word :: "two_op \<Rightarrow> reg \<Rightarrow> reg \<Rightarrow> u16" where
  "two_op_word Op_Sub d r = encode_sub d r"
| "two_op_word Op_Addo d r = encode_addo d r"
| "two_op_word Op_Subo d r = encode_subo d r"
| "two_op_word Op_CmpEq d r = encode_cmpeq d r"
| "two_op_word Op_CmpLt d r = encode_cmplt d r"
| "two_op_word Op_CmpLtu d r = encode_cmpltu d r"
| "two_op_word Op_Min d r = encode_min d r"
| "two_op_word Op_MinU d r = encode_minu d r"
| "two_op_word Op_Max d r = encode_max d r"
| "two_op_word Op_MaxU d r = encode_maxu d r"
| "two_op_word Op_And d r = encode_and d r"
| "two_op_word Op_Or d r = encode_or d r"
| "two_op_word Op_Xor d r = encode_xor d r"
| "two_op_word Op_Shl d r = encode_shl d r"
| "two_op_word Op_Shr d r = encode_shr d r"
| "two_op_word Op_Sar d r = encode_sar d r"
| "two_op_word Op_BSet d r = encode_bset d r"
| "two_op_word Op_BClr d r = encode_bclr d r"
| "two_op_word Op_BInv d r = encode_binv d r"
| "two_op_word Op_BExt d r = encode_bext d r"
| "two_op_word Op_Mul d r = encode_mul d r"
| "two_op_word Op_MulUHigh d r = encode_mulhu d r"
| "two_op_word Op_Div d r = encode_div d r"
| "two_op_word Op_DivU d r = encode_divu d r"
| "two_op_word Op_Rem d r = encode_rem d r"
| "two_op_word Op_RemU d r = encode_remu d r"
| "two_op_word Op_Rev8 d r = encode_rev8 d r"

definition emit_two_op :: "two_op \<Rightarrow> reg \<Rightarrow> reg \<Rightarrow> reg \<Rightarrow> emitter" where
  "emit_two_op op d l r b = emit_two_address d l r (\<lambda>r. put_word (two_op_word op d r)) b"

text \<open>\<open>(left, right, signed, equal, invert)\<close>\<close>

fun icmp_plan :: "int_cc \<Rightarrow> reg \<Rightarrow> reg \<Rightarrow> reg \<times> reg \<times> bool \<times> bool \<times> bool" where
  "icmp_plan IntEqual l r = (l, r, False, True, False)"
| "icmp_plan IntNotEqual l r = (l, r, False, True, True)"
| "icmp_plan IntSignedLessThan l r = (l, r, True, False, False)"
| "icmp_plan IntUnsignedLessThan l r = (l, r, False, False, False)"
| "icmp_plan IntSignedGreaterThan l r = (r, l, True, False, False)"
| "icmp_plan IntUnsignedGreaterThan l r = (r, l, False, False, False)"
| "icmp_plan IntSignedLessThanOrEqual l r = (r, l, True, False, True)"
| "icmp_plan IntUnsignedLessThanOrEqual l r = (r, l, False, False, True)"
| "icmp_plan IntSignedGreaterThanOrEqual l r = (l, r, True, False, True)"
| "icmp_plan IntUnsignedGreaterThanOrEqual l r = (l, r, False, False, True)"

definition emit_icmp :: "int_cc \<Rightarrow> reg \<Rightarrow> reg \<Rightarrow> reg \<Rightarrow> emitter" where
  "emit_icmp cc d l r b =
     (case icmp_plan cc l r of (left, right, is_signed, equal, invert) \<Rightarrow>
        emit_two_address d left right (\<lambda>right b. do {
          b \<leftarrow> put_word (if equal then encode_cmpeq d right
                 else if is_signed then encode_cmplt d right else encode_cmpltu d right) b;
          b \<leftarrow> put_checked (encode_shri d 31) b;
          if invert
          then do {
            b \<leftarrow> put_checked (encode_li reg_SCRATCH 1) b;
            put_word (encode_xor d reg_SCRATCH) b
          }
          else Some b
        }) b)"

definition emit_shift_imm :: "two_op \<Rightarrow> reg \<Rightarrow> reg \<Rightarrow> u8 \<Rightarrow> emitter" where
  "emit_shift_imm op d s amount b = do {
     b \<leftarrow> (if d \<noteq> s then put_word (encode_mov d s) b else Some b);
     if op = Op_Shl then put_checked (encode_shli d amount) b
     else if op = Op_Shr then put_checked (encode_shri d amount) b
     else if op = Op_Sar then put_checked (encode_sari d amount) b
     else None
   }"

definition emit_addi7 :: "reg \<Rightarrow> reg \<Rightarrow> i8 \<Rightarrow> emitter" where
  "emit_addi7 d s imm b = do {
     b \<leftarrow> (if d \<noteq> s then put_word (encode_mov d s) b else Some b);
     put_checked (encode_addi d (scast imm)) b
   }"

definition emit_load_const32 :: "reg \<Rightarrow> u32 \<Rightarrow> emitter" where
  "emit_load_const32 dst value b =
     (if length (const_digits value) \<le> 2 then emit_const32 dst value b
      else emit_literal32 dst value b)"

definition emit_extend :: "reg \<Rightarrow> reg \<Rightarrow> bool \<Rightarrow> u8 \<Rightarrow> u8 \<Rightarrow> emitter" where
  "emit_extend d s is_signed from_bits to_bits b = do {
     assert_that (from_bits \<le> to_bits \<and> to_bits \<le> 32 \<and> 0 < from_bits);
     b \<leftarrow> (if d \<noteq> s then put_word (encode_mov d s) b else Some b);
     let shift = 32 - from_bits;
     if from_bits < to_bits \<and> shift \<noteq> 0
     then do {
       b \<leftarrow> put_checked (encode_shli d shift) b;
       if is_signed then put_checked (encode_sari d shift) b else put_checked (encode_shri d shift) b
     }
     else Some b
   }"

section \<open>Control flow\<close>

definition emit_uncond :: "mach_label \<Rightarrow> emitter" where
  "emit_uncond target b = do {
     let site = cur_offset b;
     let b = use_label_at_offset site target Branch11 b;
     b \<leftarrow> add_uncond_branch site (site + 2) target b;
     put_checked (encode_b 0) b
   }"

definition emit_cond :: "reg \<Rightarrow> mach_label \<Rightarrow> emitter" where
  "emit_cond test target b =
     put_checked (encode_bnz test 0) (use_label_at_offset (cur_offset b) target Cond7 b)"

definition emit_udf :: "trap_code \<Rightarrow> emitter" where
  "emit_udf code b = put_word 0xf800 (add_trap code b)"

definition emit_trap_if_nz :: "reg \<Rightarrow> trap_code \<Rightarrow> emitter" where
  "emit_trap_if_nz test code b = do {
     let (trap, b) = get_label b;
     let (fin, b) = get_label b;
     b \<leftarrow> emit_cond test trap b;
     b \<leftarrow> emit_uncond fin b;
     b \<leftarrow> bind_label trap b;
     b \<leftarrow> emit_udf code b;
     bind_label fin b
   }"

definition emit_trap_if_z :: "reg \<Rightarrow> trap_code \<Rightarrow> emitter" where
  "emit_trap_if_z test code b = do {
     let (fin, b) = get_label b;
     b \<leftarrow> emit_cond test fin b;
     b \<leftarrow> emit_udf code b;
     bind_label fin b
   }"

definition emit_br_nz :: "reg \<Rightarrow> mach_label \<Rightarrow> mach_label \<Rightarrow> emitter" where
  "emit_br_nz test taken not_taken b = emit_cond test taken b \<bind> emit_uncond not_taken"

definition emit_select :: "reg \<Rightarrow> reg \<Rightarrow> reg \<Rightarrow> reg \<Rightarrow> emitter" where
  "emit_select dst test yes no b = do {
     let (taken, b) = get_label b;
     let (fin, b) = get_label b;
     b \<leftarrow> emit_cond test taken b;
     b \<leftarrow> put_word (encode_mov dst no) b;
     b \<leftarrow> put_checked (encode_b 0) (use_label_at_offset (cur_offset b) fin Branch11 b);
     b \<leftarrow> bind_label taken b;
     b \<leftarrow> put_word (encode_mov dst yes) b;
     bind_label fin b
   }"

text \<open>The island check and the comparison of one indexed destination of a branch table.\<close>

definition emit_table_island :: emitter where
  "emit_table_island b = do {
     needed \<leftarrow> island_needed 26 b;
     if needed
     then do {
       let (after, b) = get_label b;
       b \<leftarrow> emit_uncond after b;
       b \<leftarrow> emit_island 28 b;
       bind_label after b
     }
     else Some b
   }"

fun emit_table_cases :: "reg \<Rightarrow> reg \<Rightarrow> nat \<Rightarrow> mach_label list \<Rightarrow> emitter" where
  "emit_table_cases index tmp value [] b = Some b"
| "emit_table_cases index tmp value (target # targets) b = do {
     b \<leftarrow> emit_table_island b;
     b \<leftarrow> emit_const32 tmp (word_of_nat value) b;
     b \<leftarrow> put_word (encode_mov reg_SCRATCH index) b;
     b \<leftarrow> put_word (encode_cmpeq reg_SCRATCH tmp) b;
     b \<leftarrow> emit_cond reg_SCRATCH target b;
     emit_table_cases index tmp (value + 1) targets b
   }"

definition emit_br_table :: "reg \<Rightarrow> reg \<Rightarrow> mach_label list \<Rightarrow> emitter" where
  "emit_br_table index tmp targets b =
     (case targets of
        [] \<Rightarrow> None
      | dflt # indexed \<Rightarrow> emit_table_cases index tmp 0 indexed b \<bind> emit_uncond dflt)"

section \<open>The instruction match\<close>

text \<open>Arms that use neither labels nor the emission state beyond the frame.\<close>

definition emit_simple :: "inst \<Rightarrow> frame_layout \<Rightarrow> emitter" where
  "emit_simple i frame b =
     (case i of
        Args _ \<Rightarrow> Some b
      | Rets _ \<Rightarrow> Some b
      | DummyUse _ \<Rightarrow> Some b
      | Nop \<Rightarrow> put_word NOP b
      | SRead dst sel \<Rightarrow> do { d \<leftarrow> arch_reg dst; put_checked (encode_sread d sel) b }
      | ReadFixedGpr dst index \<Rightarrow> do {
          d \<leftarrow> arch_reg dst;
          fixed \<leftarrow> reg_new index;
          if d \<noteq> fixed then put_word (encode_mov d fixed) b else Some b
        }
      | WriteFixedGpr src index \<Rightarrow> do {
          s \<leftarrow> arch_reg src;
          fixed \<leftarrow> reg_new index;
          if s \<noteq> fixed then put_word (encode_mov fixed s) b else Some b
        }
      | SWrite src sel \<Rightarrow> do { s \<leftarrow> arch_reg src; put_checked (encode_swrite s sel) b }
      | SSwapScratch dst src \<Rightarrow> do {
          d \<leftarrow> arch_reg dst;
          s \<leftarrow> arch_reg src;
          b \<leftarrow> (if d \<noteq> s then put_word (encode_mov d s) b else Some b);
          put_word (encode_sswap_scratch d) b
        }
      | SRet \<Rightarrow> put_word encode_sret b
      | SRetCtx src \<Rightarrow> do { s \<leftarrow> arch_reg src; put_word (encode_sretctx s) b }
      | TlbFence \<Rightarrow> put_word encode_tlbfence b
      | TlbFenceVa src \<Rightarrow> do { s \<leftarrow> arch_reg src; put_word (encode_tlbfence_va s) b }
      | TlbFenceAsid src \<Rightarrow> do { s \<leftarrow> arch_reg src; put_word (encode_tlbfence_asid s) b }
      | Wfi \<Rightarrow> put_word encode_wfi b
      | SyncI \<Rightarrow> put_word encode_sync_i b
      | SoftwareTrap code \<Rightarrow> put_checked (encode_trap code) b
      | Mov dst src \<Rightarrow> do { d \<leftarrow> arch_reg dst; s \<leftarrow> arch_reg src; put_word (encode_mov d s) b }
      | Add dst lhs rhs \<Rightarrow> do {
          d \<leftarrow> arch_reg dst;
          l \<leftarrow> arch_reg lhs;
          r \<leftarrow> arch_reg rhs;
          put_word (encode_add d l r) b
        }
      | Unary op dst src \<Rightarrow> do {
          d \<leftarrow> arch_reg dst;
          s \<leftarrow> arch_reg src;
          put_word (case op of Op_Clz \<Rightarrow> encode_clz d s | Op_Ctz \<Rightarrow> encode_ctz d s
                    | Op_Cpop \<Rightarrow> encode_cpop d s) b
        }
      | TwoOp op dst lhs rhs \<Rightarrow> do {
          d \<leftarrow> arch_reg dst;
          l \<leftarrow> arch_reg lhs;
          r \<leftarrow> arch_reg rhs;
          emit_two_op op d l r b
        }
      | Icmp dst cc lhs rhs \<Rightarrow> do {
          d \<leftarrow> arch_reg dst;
          l \<leftarrow> arch_reg lhs;
          r \<leftarrow> arch_reg rhs;
          emit_icmp cc d l r b
        }
      | ShiftImm op dst src amount \<Rightarrow> do {
          d \<leftarrow> arch_reg dst;
          s \<leftarrow> arch_reg src;
          emit_shift_imm op d s amount b
        }
      | Li7 dst imm \<Rightarrow> do { d \<leftarrow> arch_reg dst; put_checked (encode_li d (scast imm)) b }
      | Addi7 dst src imm \<Rightarrow> do { d \<leftarrow> arch_reg dst; s \<leftarrow> arch_reg src; emit_addi7 d s imm b }
      | Load op dst base \<Rightarrow> do {
          d \<leftarrow> arch_reg dst;
          a \<leftarrow> arch_reg base;
          emit_load_zero_offset op d a b
        }
      | Store op src base \<Rightarrow> do {
          s \<leftarrow> arch_reg src;
          a \<leftarrow> arch_reg base;
          emit_store_zero_offset op s a b
        }
      | IndexedLoad dst base index \<Rightarrow> do {
          d \<leftarrow> arch_reg dst;
          a \<leftarrow> arch_reg base;
          x \<leftarrow> arch_reg index;
          put_word (encode_lda_w d a x) b
        }
      | IndexedStore src base index \<Rightarrow> do {
          s \<leftarrow> arch_reg src;
          a \<leftarrow> arch_reg base;
          x \<leftarrow> arch_reg index;
          put_word (encode_sta_w s a x) b
        }
      | Fence \<Rightarrow> put_word encode_fence b
      | LoadStack dst m ty \<Rightarrow> do {
          off \<leftarrow> frame_stack_offset m frame;
          op \<leftarrow> load_op_of ty;
          d \<leftarrow> arch_reg dst;
          emit_load_base_offset op d reg_FP off b
        }
      | StoreStack src m ty \<Rightarrow> do {
          off \<leftarrow> frame_stack_offset m frame;
          op \<leftarrow> store_op_of ty;
          s \<leftarrow> arch_reg src;
          emit_store_base_offset op s reg_FP off b
        }
      | StackAddr dst m \<Rightarrow> do {
          off \<leftarrow> frame_stack_offset m frame;
          d \<leftarrow> arch_reg dst;
          emit_add_imm32 d reg_FP off b
        }
      | LoadBaseOffset dst base offset ty \<Rightarrow> do {
          op \<leftarrow> load_op_of ty;
          d \<leftarrow> arch_reg dst;
          a \<leftarrow> arch_reg base;
          emit_load_base_offset op d a offset b
        }
      | StoreBaseOffset src base offset ty \<Rightarrow> do {
          op \<leftarrow> store_op_of ty;
          s \<leftarrow> arch_reg src;
          a \<leftarrow> arch_reg base;
          emit_store_base_offset op s a offset b
        }
      | Extend dst src is_signed from_bits to_bits \<Rightarrow> do {
          d \<leftarrow> arch_reg dst;
          s \<leftarrow> arch_reg src;
          emit_extend d s is_signed from_bits to_bits b
        }
      | AddImm dst src imm \<Rightarrow> do {
          d \<leftarrow> arch_reg dst;
          s \<leftarrow> arch_reg src;
          emit_add_imm32 d s imm b
        }
      | SpAdjust amount \<Rightarrow> emit_add_imm32 reg_SP reg_SP amount b
      | Ret \<Rightarrow> put_word encode_ret b
      | _ \<Rightarrow> None)"

text \<open>
  The whole \<open>match\<close>: the arms with labels, calls and constants, and the ones above. A branch table
  with a default only reads no register.
\<close>

definition emit_match :: "inst \<Rightarrow> emit_state \<Rightarrow> mach_buffer \<Rightarrow> (mach_buffer \<times> emit_state) option" where
  "emit_match i st b =
     (let keep = map_option (\<lambda>b. (b, st)) in
      case i of
        Udf code \<Rightarrow> keep (emit_udf code b)
      | TrapIfNz test code \<Rightarrow> keep (do { t \<leftarrow> arch_reg test; emit_trap_if_nz t code b })
      | TrapIfZ test code \<Rightarrow> keep (do { t \<leftarrow> arch_reg test; emit_trap_if_z t code b })
      | LoadConst32 dst value \<Rightarrow> keep (do { d \<leftarrow> arch_reg dst; emit_load_const32 d value b })
      | LoadExtName dst name offset \<Rightarrow>
          keep (do { d \<leftarrow> arch_reg dst; emit_ext_name32 d name (sint offset) b })
      | StackLowerBoundTrap _ \<Rightarrow> None
      | Jump target \<Rightarrow> keep (emit_uncond target b)
      | BrNz test taken not_taken \<Rightarrow>
          keep (do { t \<leftarrow> arch_reg test; emit_br_nz t taken not_taken b })
      | Select dst test yes no \<Rightarrow> keep (do {
          t \<leftarrow> arch_reg test;
          d \<leftarrow> arch_reg dst;
          n \<leftarrow> arch_reg no;
          y \<leftarrow> arch_reg yes;
          emit_select d t y n b
        })
      | BrTable index tmp targets \<Rightarrow> keep (
          if length targets \<le> 1 then emit_br_table reg_ZERO reg_ZERO targets b
          else do {
            x \<leftarrow> arch_reg index;
            t \<leftarrow> arch_reg tmp;
            emit_br_table x t targets b
          })
      | Call info \<Rightarrow> emit_direct_call st info b
      | CallInd info \<Rightarrow> do {
          d \<leftarrow> arch_reg (dest info);
          b \<leftarrow> put_word (encode_callr d) b;
          record_call st info b
        }
      | _ \<Rightarrow> keep (emit_simple i (frame_layout_of st) b))"

text \<open>
  After the \<open>match\<close> the source asserts that every instruction but a branch table emitted at most
  \<open>worst_case_size\<close> bytes; the subtraction of the offsets panics when it underflows.
\<close>

fun is_br_table :: "inst \<Rightarrow> bool" where
  "is_br_table (BrTable _ _ _) = True"
| "is_br_table _ = False"

definition emit :: "inst \<Rightarrow> emit_state \<Rightarrow> mach_buffer \<Rightarrow> (mach_buffer \<times> emit_state) option" where
  "emit i st b = do {
     (b', st') \<leftarrow> emit_match i st b;
     assert_that (is_br_table i \<or>
       cur_offset b \<le> cur_offset b' \<and> cur_offset b' - cur_offset b \<le> worst_case_size);
     Some (b', st')
   }"

end
