(* ===== verification/Sia32_Sem.thy ===== *)
theory Sia32_Sem
  imports Sia32_Isa Sia32_Emit
begin

text \<open>
  What the register-to-register machine instructions mean, independently of how they are encoded,
  and that the code emitted for them computes exactly that on every processor that satisfies the
  laws of theory \<open>Sia32_Isa\<close>.

  \<open>writes exec ws d f\<close> says of a word sequence that running it puts \<open>f\<close> of the initial state into
  register \<open>d\<close>, advances the program counter past the sequence, leaves memory alone and changes no
  register but \<open>d\<close> and the reserved scratch register r12. \<open>emits\<close> relates an emitter to the words it
  appends.
\<close>

section \<open>Meaning of the operations\<close>

text \<open>\<open>None\<close>: the overflow-trapping forms, whose meaning the repository does not define.\<close>

fun two_op_sem :: "two_op \<Rightarrow> u32 \<Rightarrow> u32 \<Rightarrow> u32 option" where
  "two_op_sem Op_Sub a b = Some (a - b)"
| "two_op_sem Op_Addo a b = None"
| "two_op_sem Op_Subo a b = None"
| "two_op_sem Op_CmpEq a b = Some (if a = b then -1 else 0)"
| "two_op_sem Op_CmpLt a b = Some (if sint a < sint b then -1 else 0)"
| "two_op_sem Op_CmpLtu a b = Some (if a < b then -1 else 0)"
| "two_op_sem Op_Min a b = Some (if sint a \<le> sint b then a else b)"
| "two_op_sem Op_MinU a b = Some (if a \<le> b then a else b)"
| "two_op_sem Op_Max a b = Some (if sint a \<le> sint b then b else a)"
| "two_op_sem Op_MaxU a b = Some (if a \<le> b then b else a)"
| "two_op_sem Op_And a b = Some (a AND b)"
| "two_op_sem Op_Or a b = Some (a OR b)"
| "two_op_sem Op_Xor a b = Some (a XOR b)"
| "two_op_sem Op_Shl a b = Some (push_bit (unat (b AND 31)) a)"
| "two_op_sem Op_Shr a b = Some (drop_bit (unat (b AND 31)) a)"
| "two_op_sem Op_Sar a b = Some (signed_drop_bit (unat (b AND 31)) a)"
| "two_op_sem Op_BSet a b = Some (execute_reference M7_Bset a b)"
| "two_op_sem Op_BClr a b = Some (execute_reference M7_Bclr a b)"
| "two_op_sem Op_BInv a b = Some (execute_reference M7_Binv a b)"
| "two_op_sem Op_BExt a b = Some (execute_reference M7_Bext a b)"
| "two_op_sem Op_Mul a b = Some (execute_reference M7_Mul a b)"
| "two_op_sem Op_MulUHigh a b = Some (execute_reference M7_Mulhu a b)"
| "two_op_sem Op_Div a b = Some (execute_reference M7_Div a b)"
| "two_op_sem Op_DivU a b = Some (execute_reference M7_Divu a b)"
| "two_op_sem Op_Rem a b = Some (execute_reference M7_Rem a b)"
| "two_op_sem Op_RemU a b = Some (execute_reference M7_Remu a b)"
| "two_op_sem Op_Rev8 a b = Some (execute_reference M7_Rev8 a b)"

fun unary_sem :: "unary_op \<Rightarrow> u32 \<Rightarrow> u32" where
  "unary_sem Op_Clz a = clz32 a"
| "unary_sem Op_Ctz a = ctz32 a"
| "unary_sem Op_Cpop a = cpop32 a"

definition icmp_sem :: "int_cc \<Rightarrow> u32 \<Rightarrow> u32 \<Rightarrow> u32" where
  "icmp_sem cc a b = of_bool (int_holds cc a b)"

fun shift_imm_sem :: "two_op \<Rightarrow> nat \<Rightarrow> u32 \<Rightarrow> u32" where
  "shift_imm_sem Op_Shl n a = push_bit n a"
| "shift_imm_sem Op_Shr n a = drop_bit n a"
| "shift_imm_sem Op_Sar n a = signed_drop_bit n a"
| "shift_imm_sem _ n a = a"

definition extend_sem :: "bool \<Rightarrow> nat \<Rightarrow> nat \<Rightarrow> u32 \<Rightarrow> u32" where
  "extend_sem is_signed from_bits to_bits a =
     (if from_bits = to_bits then a
      else if is_signed then signed_take_bit (from_bits - 1) a else take_bit from_bits a)"

section \<open>Running emitted words\<close>

lemma get_set_gpr [simp]:
  "get_gpr (set_gpr d v s) r = (if r = d \<and> d \<noteq> reg_ZERO then v else get_gpr s r)"
  by (auto simp: get_gpr_def set_gpr_def)

lemma set_gpr_sel [simp]: "pc (set_gpr d v s) = pc s" "mem (set_gpr d v s) = mem s"
  by (simp_all add: set_gpr_def)

lemma advance_sel [simp]:
  "get_gpr (advance s) r = get_gpr s r" "pc (advance s) = pc s + 2" "mem (advance s) = mem s"
  by (simp_all add: advance_def get_gpr_def)

lemma get_gpr_zero [simp]: "get_gpr s reg_ZERO = 0"
  by (simp add: get_gpr_def)

lemma reg_scratch_nonzero [simp]: "reg_SCRATCH \<noteq> reg_ZERO" "reg_ZERO \<noteq> reg_SCRATCH"
  by (simp_all add: reg_SCRATCH_def reg_ZERO_def)

definition run :: "(u16 \<Rightarrow> cpu \<Rightarrow> cpu) \<Rightarrow> u16 list \<Rightarrow> cpu \<Rightarrow> cpu" where
  "run exec ws s = fold exec ws s"

lemma run_simps [simp]:
  "run exec [] s = s" "run exec (w # ws) s = run exec ws (exec w s)"
  "run exec (ws @ vs) s = run exec vs (run exec ws s)"
  by (simp_all add: run_def)

definition writes :: "(u16 \<Rightarrow> cpu \<Rightarrow> cpu) \<Rightarrow> u16 list \<Rightarrow> reg \<Rightarrow> (cpu \<Rightarrow> u32) \<Rightarrow> bool" where
  "writes exec ws d f \<longleftrightarrow>
     (\<forall>s. get_gpr (run exec ws s) d = f s \<and>
          pc (run exec ws s) = pc s + 2 * word_of_nat (length ws) \<and>
          mem (run exec ws s) = mem s \<and>
          (\<forall>r. r \<noteq> d \<and> r \<noteq> reg_SCRATCH \<longrightarrow> get_gpr (run exec ws s) r = get_gpr s r))"

lemma writesI:
  assumes "\<And>s. get_gpr (run exec ws s) d = f s"
    "\<And>s. pc (run exec ws s) = pc s + 2 * word_of_nat (length ws)"
    "\<And>s. mem (run exec ws s) = mem s"
    "\<And>s r. r \<noteq> d \<Longrightarrow> r \<noteq> reg_SCRATCH \<Longrightarrow> get_gpr (run exec ws s) r = get_gpr s r"
  shows "writes exec ws d f"
  using assms by (simp add: writes_def)

lemma writesD:
  assumes "writes exec ws d f"
  shows "get_gpr (run exec ws s) d = f s" "pc (run exec ws s) = pc s + 2 * word_of_nat (length ws)"
    "mem (run exec ws s) = mem s"
    "r \<noteq> d \<Longrightarrow> r \<noteq> reg_SCRATCH \<Longrightarrow> get_gpr (run exec ws s) r = get_gpr s r"
  using assms by (simp_all add: writes_def)

text \<open>Continuing with code that works on the register just written.\<close>

lemma writes_trans:
  assumes "writes exec ws d f" "writes exec vs d g" "d \<noteq> reg_SCRATCH"
    and "\<And>s. g (run exec ws s) = h s"
  shows "writes exec (ws @ vs) d h"
  using assms writesD [OF assms(1)] writesD [OF assms(2)]
  by (intro writesI) (simp_all add: algebra_simps)

section \<open>Emitters that append words\<close>

definition put_words :: "u16 list \<Rightarrow> mach_buffer \<Rightarrow> mach_buffer" where
  "put_words ws b = put_data (concat (map u16_to_le_bytes ws)) b"

lemma put_words_simps [simp]:
  "put_words [] b = b" "put2 w b = put_words [w] b" "put_words vs (put_words ws b) = put_words (ws @ vs) b"
  by (simp_all add: put_words_def put2_def put_data_def)

definition emits :: "emitter \<Rightarrow> u16 list \<Rightarrow> bool" where
  "emits e ws \<longleftrightarrow> (\<forall>b. e b = Some (put_words ws b))"

lemma emitsD: "emits e ws \<Longrightarrow> e b = Some (put_words ws b)"
  by (simp add: emits_def)

lemma put_word_eq [simp]: "put_word w b = Some (put_words [w] b)"
  by (simp add: put_word_def)

lemma put_checked_eq [simp]: "put_checked (Inr w) b = Some (put_words [w] b)"
  by (simp add: put_checked_def)

text \<open>\<open>if d != s { mov d, s }\<close>\<close>

definition mov_words :: "reg \<Rightarrow> reg \<Rightarrow> u16 list" where
  "mov_words d s = (if d \<noteq> s then [encode_mov d s] else [])"

lemma put_mov [simp]:
  "(if d \<noteq> s then put_word (encode_mov d s) b else Some b) = Some (put_words (mov_words d s) b)"
  by (simp add: mov_words_def)

context sia_alu
begin

lemma exec_mov: "d \<noteq> reg_ZERO \<Longrightarrow> exec (encode_mov d r) s = advance (set_gpr d (get_gpr s r) s)"
  unfolding encode_mov_def by (simp add: isa_add)

lemma exec_two: "two_law exec enc f \<Longrightarrow>
    exec (enc d r) s = advance (set_gpr d (f (get_gpr s d) (get_gpr s r)) s)"
  by (simp add: two_law_def)

lemma writes_mov: "d \<noteq> reg_ZERO \<Longrightarrow> writes exec (mov_words d r) d (\<lambda>s. get_gpr s r)"
  by (rule writesI) (auto simp: mov_words_def exec_mov)

lemma exec_two_op:
  assumes "\<And>a b. two_op_sem op a b = Some (f a b)"
  shows "exec (two_op_word op d r) s = advance (set_gpr d (f (get_gpr s d) (get_gpr s r)) s)"
  using assms
  by (cases op; simp add: exec_two [OF isa_sub] exec_two [OF isa_cmpeq] exec_two [OF isa_cmplt]
      exec_two [OF isa_cmpltu] exec_two [OF isa_min] exec_two [OF isa_minu] exec_two [OF isa_max]
      exec_two [OF isa_maxu] exec_two [OF isa_and] exec_two [OF isa_or] exec_two [OF isa_xor]
      exec_two [OF isa_shl] exec_two [OF isa_shr] exec_two [OF isa_sar] exec_two [OF isa_bset]
      exec_two [OF isa_bclr] exec_two [OF isa_binv] exec_two [OF isa_bext] exec_two [OF isa_mul]
      exec_two [OF isa_mulhu] exec_two [OF isa_div] exec_two [OF isa_divu] exec_two [OF isa_rem]
      exec_two [OF isa_remu] exec_two [OF isa_rev8])

end

section \<open>Two-address arithmetic and comparison\<close>

definition right_reg :: "reg \<Rightarrow> reg \<Rightarrow> reg \<Rightarrow> reg" where
  "right_reg d l r = (if d = r \<and> d \<noteq> l then reg_SCRATCH else r)"

definition two_address_words :: "reg \<Rightarrow> reg \<Rightarrow> reg \<Rightarrow> u16 list" where
  "two_address_words d l r =
     (if d = r \<and> d \<noteq> l then [encode_mov reg_SCRATCH r] else []) @ mov_words d l"

lemma emit_two_address_eq:
  "emit_two_address d l r k b = k (right_reg d l r) (put_words (two_address_words d l r) b)"
  by (simp add: emit_two_address_def right_reg_def two_address_words_def mov_words_def)

lemma emit_two_op_eq:
  "emit_two_op op d l r b =
     Some (put_words (two_address_words d l r @ [two_op_word op d (right_reg d l r)]) b)"
  by (simp add: emit_two_op_def emit_two_address_eq)

text \<open>Registers an allocated operand can name: anything but the reserved scratch register.\<close>

definition operand_ok :: "reg \<Rightarrow> bool" where "operand_ok r \<longleftrightarrow> r \<noteq> reg_SCRATCH"

definition dest_ok :: "reg \<Rightarrow> bool" where "dest_ok d \<longleftrightarrow> d \<noteq> reg_SCRATCH \<and> d \<noteq> reg_ZERO"

context sia_alu
begin

lemma two_address_run:
  fixes s :: cpu
  assumes "dest_ok d" "operand_ok l" "operand_ok r"
  defines "s' \<equiv> run exec (two_address_words d l r) s"
  shows "get_gpr s' d = get_gpr s l" "get_gpr s' (right_reg d l r) = get_gpr s r"
    "pc s' = pc s + 2 * word_of_nat (length (two_address_words d l r))" "mem s' = mem s"
    "x \<noteq> d \<Longrightarrow> x \<noteq> reg_SCRATCH \<Longrightarrow> get_gpr s' x = get_gpr s x"
  using assms
  by (auto simp: two_address_words_def right_reg_def mov_words_def exec_mov dest_ok_def operand_ok_def)

text \<open>A sequence that continues from the shuffled operands.\<close>

lemma writes_two_address:
  assumes ok: "dest_ok d" "operand_ok l" "operand_ok r"
    and k: "writes exec ws d (\<lambda>s. f (get_gpr s d) (get_gpr s (right_reg d l r)))"
  shows "writes exec (two_address_words d l r @ ws) d (\<lambda>s. f (get_gpr s l) (get_gpr s r))"
  using two_address_run [OF ok] writesD [OF k] by (intro writesI) (simp_all add: algebra_simps)

lemma writes_two_op_word:
  assumes "d \<noteq> reg_ZERO" "\<And>a b. two_op_sem op a b = Some (f a b)"
  shows "writes exec [two_op_word op d r] d (\<lambda>s. f (get_gpr s d) (get_gpr s r))"
  using assms by (intro writesI) (simp_all add: exec_two_op [OF assms(2)])

lemma writes_two_op:
  assumes "dest_ok d" "operand_ok l" "operand_ok r" "\<And>a b. two_op_sem op a b = Some (f a b)"
  shows "writes exec (two_address_words d l r @ [two_op_word op d (right_reg d l r)]) d
    (\<lambda>s. f (get_gpr s l) (get_gpr s r))"
  using assms by (intro writes_two_address writes_two_op_word) (simp_all add: dest_ok_def)

end

text \<open>The words after the shuffle: compare, turn all ones into one, and invert if asked to.\<close>

definition compare_word :: "bool \<Rightarrow> bool \<Rightarrow> reg \<Rightarrow> reg \<Rightarrow> u16" where
  "compare_word equal is_signed d r =
     (if equal then encode_cmpeq d r else if is_signed then encode_cmplt d r else encode_cmpltu d r)"

definition compare_sem :: "bool \<Rightarrow> bool \<Rightarrow> u32 \<Rightarrow> u32 \<Rightarrow> bool" where
  "compare_sem equal is_signed a b =
     (if equal then a = b else if is_signed then sint a < sint b else a < b)"

lemma shri_31: "encode_shri d 31 = Inr (encode_r2f 5 d 15 9)"
  by (simp add: encode_shri_def shift_imm_high)

lemma li_one: "encode_li d 1 = Inr (imm7_form 0xC d 1)"
  by (simp add: encode_imm_forms guarded_Inr)

definition icmp_words :: "int_cc \<Rightarrow> reg \<Rightarrow> reg \<Rightarrow> reg \<Rightarrow> u16 list" where
  "icmp_words cc d l r =
     (case icmp_plan cc l r of (left, right, is_signed, equal, invert) \<Rightarrow>
        two_address_words d left right
        @ [compare_word equal is_signed d (right_reg d left right), encode_r2f 5 d 15 9]
        @ (if invert then [imm7_form 0xC reg_SCRATCH 1, encode_xor d reg_SCRATCH] else []))"

lemma emit_icmp_eq: "emit_icmp cc d l r b = Some (put_words (icmp_words cc d l r) b)"
  by (simp add: emit_icmp_def icmp_words_def emit_two_address_eq shri_31 li_one compare_word_def
      split: prod.splits)

lemma icmp_words_length: "length (icmp_words cc d l r) \<le> 6"
  by (simp add: icmp_words_def two_address_words_def mov_words_def split: prod.splits)

lemma drop_bit_31_bool: "drop_bit 31 (if P then -1 else 0 :: u32) = of_bool P"
  by simp

lemma icmp_plan_sem:
  "icmp_plan cc l r = (left, right, is_signed, equal, invert) \<Longrightarrow>
     (left = l \<and> right = r \<and> (compare_sem equal is_signed a b \<noteq> invert) = int_holds cc a b) \<or>
     (left = r \<and> right = l \<and> (compare_sem equal is_signed b a \<noteq> invert) = int_holds cc a b)"
  by (cases cc) (auto simp: compare_sem_def)

context sia_alu
begin

lemma exec_compare:
  "exec (compare_word equal is_signed d r) s =
     advance (set_gpr d (if compare_sem equal is_signed (get_gpr s d) (get_gpr s r) then -1 else 0) s)"
  by (simp add: compare_word_def compare_sem_def exec_two [OF isa_cmpeq] exec_two [OF isa_cmplt]
      exec_two [OF isa_cmpltu])

lemma writes_compare:
  assumes "dest_ok d"
  shows "writes exec ([compare_word equal is_signed d r, encode_r2f 5 d 15 9]
      @ (if invert then [imm7_form 0xC reg_SCRATCH 1, encode_xor d reg_SCRATCH] else [])) d
    (\<lambda>s. of_bool (compare_sem equal is_signed (get_gpr s d) (get_gpr s r) \<noteq> invert))"
  using assms
  by (intro writesI)
     (simp_all add: dest_ok_def exec_compare isa_shri [OF shri_31] isa_li [OF li_one]
       exec_two [OF isa_xor] drop_bit_31_bool)

lemma writes_icmp:
  assumes "dest_ok d" "operand_ok l" "operand_ok r"
  shows "writes exec (icmp_words cc d l r) d (\<lambda>s. icmp_sem cc (get_gpr s l) (get_gpr s r))"
proof -
  obtain left right sg eq inv where plan: "icmp_plan cc l r = (left, right, sg, eq, inv)"
    by (cases "icmp_plan cc l r") auto
  have ops: "operand_ok left" "operand_ok right"
    using icmp_plan_sem [OF plan, of 0 0] assms by auto
  have "writes exec (icmp_words cc d l r) d
      (\<lambda>s. of_bool (compare_sem eq sg (get_gpr s left) (get_gpr s right) \<noteq> inv))"
    unfolding icmp_words_def plan prod.case
    by (rule writes_two_address [OF assms(1) ops, where f = "\<lambda>a b. of_bool (compare_sem eq sg a b \<noteq> inv)"])
       (rule writes_compare [OF assms(1)])
  moreover have "(\<lambda>s. of_bool (compare_sem eq sg (get_gpr s left) (get_gpr s right) \<noteq> inv)) =
      (\<lambda>s. icmp_sem cc (get_gpr s l) (get_gpr s r))"
  proof
    fix s
    show "of_bool (compare_sem eq sg (get_gpr s left) (get_gpr s right) \<noteq> inv) =
        icmp_sem cc (get_gpr s l) (get_gpr s r)"
      using icmp_plan_sem [OF plan, of "get_gpr s l" "get_gpr s r"] by (auto simp: icmp_sem_def)
  qed
  ultimately show ?thesis by simp
qed

end

section \<open>Immediates, shifts and extensions\<close>

lemma encode_li_small: "-64 \<le> d \<Longrightarrow> d \<le> 63 \<Longrightarrow> encode_li r (word_of_int d) = Inr (imm7_form 0xC r (word_of_int d))"
  by (simp add: encode_imm_forms guarded_Inr sint_word_of_int_small)

lemma encode_addi_small: "-64 \<le> d \<Longrightarrow> d \<le> 63 \<Longrightarrow> encode_addi r (word_of_int d) = Inr (imm7_form 0xD r (word_of_int d))"
  by (simp add: encode_imm_forms guarded_Inr sint_word_of_int_small)

lemma encode_addi_in_range: "-64 \<le> sint i \<Longrightarrow> sint i \<le> 63 \<Longrightarrow> encode_addi r i = Inr (imm7_form 0xD r i)"
  by (simp add: encode_imm_forms guarded_Inr)

lemma shli_7: "encode_shli d 7 = Inr (encode_r2f 5 d 7 6)"
  by (simp add: encode_shli_def shift_imm_low)

definition digit_words :: "reg \<Rightarrow> int \<Rightarrow> u16 list" where
  "digit_words r d = encode_r2f 5 r 7 6 # (if d \<noteq> 0 then [imm7_form 0xD r (word_of_int d)] else [])"

definition const_words :: "reg \<Rightarrow> u32 \<Rightarrow> u16 list" where
  "const_words r v =
     imm7_form 0xC r (word_of_int (hd (const_digits v))) # concat (map (digit_words r) (tl (const_digits v)))"

lemma emit_digits_eq:
  "list_all (\<lambda>d. -64 \<le> d \<and> d \<le> 63) ds \<Longrightarrow>
     emit_digits r ds b = Some (put_words (concat (map (digit_words r) ds)) b)"
  by (induction ds arbitrary: b) (simp_all add: shli_7 encode_addi_small digit_words_def)

lemma emit_const32_eq: "emit_const32 r v b = Some (put_words (const_words r v) b)"
proof -
  obtain d ds where ds: "const_digits v = d # ds"
    using const_digits_nonempty by (cases "const_digits v") auto
  have "list_all (\<lambda>d. -64 \<le> d \<and> d \<le> 63) (d # ds)"
    using const_digits_range [of _ v] by (auto simp: list_all_iff ds)
  then show ?thesis
    by (simp add: emit_const32_def const_words_def ds encode_li_small emit_digits_eq)
qed

lemma const_words_length: "length (const_words r v) \<le> 9"
proof -
  have "length (concat (map (digit_words r) ds)) \<le> 2 * length ds" for ds
    by (induction ds) (auto simp: digit_words_def)
  from this [of "tl (const_digits v)"] show ?thesis
    using const_digits_length [of v] by (simp add: const_words_def)
qed

lemma word_of_int_shift_add: "push_bit 7 (word_of_int a) + word_of_int d = (word_of_int (a * 128 + d) :: u32)"
  by (simp add: push_bit_eq_mult)

text \<open>What is left in the scratch register does not matter, unless it is itself the target.\<close>

context sia_alu
begin

lemma digit_words_run:
  assumes "r \<noteq> reg_ZERO" "-64 \<le> d" "d \<le> 63" "get_gpr s r = word_of_int a"
  defines "s' \<equiv> run exec (digit_words r d) s"
  shows "get_gpr s' r = word_of_int (a * 128 + d)" "mem s' = mem s"
    "pc s' = pc s + 2 * word_of_nat (length (digit_words r d))"
    "x \<noteq> r \<Longrightarrow> get_gpr s' x = get_gpr s x"
  using assms word_of_int_shift_add [of a d]
  by (auto simp: digit_words_def isa_shli [OF shli_7] isa_addi [OF encode_addi_small] push_bit_eq_mult)

lemma digits_run:
  assumes "r \<noteq> reg_ZERO" "list_all (\<lambda>d. -64 \<le> d \<and> d \<le> 63) ds" "get_gpr s r = word_of_int a"
  defines "ws \<equiv> concat (map (digit_words r) ds)"
  shows "get_gpr (run exec ws s) r = word_of_int (foldl (\<lambda>acc d. acc * 128 + d) a ds) \<and>
    mem (run exec ws s) = mem s \<and> pc (run exec ws s) = pc s + 2 * word_of_nat (length ws) \<and>
    (\<forall>x. x \<noteq> r \<longrightarrow> get_gpr (run exec ws s) x = get_gpr s x)"
  using assms(2,3) unfolding ws_def
proof (induction ds arbitrary: s a)
  case (Cons d ds)
  then have d: "-64 \<le> d" "d \<le> 63" "list_all (\<lambda>d. -64 \<le> d \<and> d \<le> 63) ds" by simp_all
  note step = digit_words_run [OF assms(1) d(1,2) Cons.prems(2)]
  show ?case
    using Cons.IH [OF d(3) step(1)] step by (simp add: algebra_simps)
qed simp

lemma const_words_run:
  fixes v :: u32
  assumes "r \<noteq> reg_ZERO"
  defines "ws \<equiv> const_words r v"
  shows "get_gpr (run exec ws s) r = v" "mem (run exec ws s) = mem s"
    "pc (run exec ws s) = pc s + 2 * word_of_nat (length ws)"
    "x \<noteq> r \<Longrightarrow> get_gpr (run exec ws s) x = get_gpr s x"
proof -
  obtain d ds where ds: "const_digits v = d # ds"
    using const_digits_nonempty by (cases "const_digits v") auto
  have r: "-64 \<le> d" "d \<le> 63" "list_all (\<lambda>d. -64 \<le> d \<and> d \<le> 63) ds"
    using const_digits_range [of _ v] by (auto simp: list_all_iff ds)
  let ?s = "advance (set_gpr r (word_of_int d) s)"
  have s: "run exec ws s = run exec (concat (map (digit_words r) ds)) ?s"
    unfolding ws_def const_words_def ds by (simp add: isa_li [OF encode_li_small [OF r(1,2)]])
  have v: "word_of_int (foldl (\<lambda>acc d. acc * 128 + d) d ds) = v"
    using const_digits_value [of v] by (simp add: ds)
  have "get_gpr ?s r = word_of_int d" using assms(1) by simp
  note run = digits_run [OF assms(1) r(3) this]
  show "get_gpr (run exec ws s) r = v" unfolding s using run v by simp
  show "mem (run exec ws s) = mem s" unfolding s using run by simp
  show "pc (run exec ws s) = pc s + 2 * word_of_nat (length ws)"
    unfolding s using run by (simp add: ws_def const_words_def ds algebra_simps)
  show "x \<noteq> r \<Longrightarrow> get_gpr (run exec ws s) x = get_gpr s x" unfolding s using run by simp
qed

end

definition add_imm_words :: "reg \<Rightarrow> reg \<Rightarrow> i32 \<Rightarrow> u16 list" where
  "add_imm_words d s imm =
     (if -64 \<le> sint imm \<and> sint imm \<le> 63
      then mov_words d s @ (if imm \<noteq> 0 then [imm7_form 0xD d imm] else [])
      else if d = reg_SCRATCH then const_words reg_SCRATCH imm @ [encode_add reg_SCRATCH reg_SCRATCH s]
      else mov_words d s @ const_words reg_SCRATCH imm @ [encode_add d d reg_SCRATCH])"

text \<open>The expansion exists unless it would need a second scratch register.\<close>

definition add_imm_ok :: "reg \<Rightarrow> reg \<Rightarrow> i32 \<Rightarrow> bool" where
  "add_imm_ok d s imm \<longleftrightarrow> \<not> (d = reg_SCRATCH \<and> s = reg_SCRATCH) \<or> (-64 \<le> sint imm \<and> sint imm \<le> 63)"

lemma emit_add_imm32_eq:
  "emit_add_imm32 d s imm b =
     (if add_imm_ok d s imm then Some (put_words (add_imm_words d s imm) b) else None)"
  by (auto simp: emit_add_imm32_def add_imm_words_def add_imm_ok_def encode_addi_in_range
      emit_const32_eq mov_words_def)

lemma add_imm_words_length: "length (add_imm_words d s imm) \<le> 11"
  using const_words_length [of reg_SCRATCH imm] by (auto simp: add_imm_words_def mov_words_def)

lemma drop_push_bit: "drop_bit n (push_bit n a) = (take_bit (32 - n) a :: u32)"
  by (rule bit_word_eqI) (auto simp: bit_simps)

lemma signed_drop_push_bit:
  assumes "n < 32" shows "signed_drop_bit n (push_bit n a) = (signed_take_bit (31 - n) a :: u32)"
proof (rule bit_word_eqI)
  fix k assume "k < LENGTH(32)"
  then consider "k < 31 - n" | "k = 31 - n" | "32 - n \<le> k" using assms by fastforce
  then show "bit (signed_drop_bit n (push_bit n a)) k = bit (signed_take_bit (31 - n) a) k"
    using assms \<open>k < LENGTH(32)\<close> by cases (auto simp: bit_simps min_def)
qed

definition shift_imm_word :: "two_op \<Rightarrow> reg \<Rightarrow> u8 \<Rightarrow> u16 encode_result" where
  "shift_imm_word op d n =
     (if op = Op_Shl then encode_shli d n else if op = Op_Shr then encode_shri d n else encode_sari d n)"

lemma shift_imm_word_ok: "n < 32 \<Longrightarrow> \<exists>w. shift_imm_word op d n = Inr w"
  by (cases "n < 16") (auto simp: shift_imm_word_def encode_shli_def encode_shri_def encode_sari_def
      shift_imm_low shift_imm_high not_less)

definition shift_words :: "two_op \<Rightarrow> reg \<Rightarrow> u8 \<Rightarrow> u16 list" where
  "shift_words op d n = (case shift_imm_word op d n of Inr w \<Rightarrow> [w] | Inl _ \<Rightarrow> [])"

lemma emit_shift_imm_eq:
  assumes "n < 32" "op \<in> {Op_Shl, Op_Shr, Op_Sar}"
  shows "emit_shift_imm op d s n b = Some (put_words (mov_words d s @ shift_words op d n) b)"
  using assms shift_imm_word_ok [OF assms(1), of op d]
  by (auto simp: emit_shift_imm_def shift_words_def shift_imm_word_def)

definition extend_words :: "reg \<Rightarrow> reg \<Rightarrow> bool \<Rightarrow> u8 \<Rightarrow> u8 \<Rightarrow> u16 list" where
  "extend_words d s is_signed from_bits to_bits =
     mov_words d s @ (if from_bits < to_bits
       then shift_words Op_Shl d (32 - from_bits)
         @ shift_words (if is_signed then Op_Sar else Op_Shr) d (32 - from_bits)
       else [])"

lemma emit_extend_eq:
  assumes "from_bits \<le> to_bits" "to_bits \<le> 32" "0 < from_bits"
  shows "emit_extend d s sg from_bits to_bits b = Some (put_words (extend_words d s sg from_bits to_bits) b)"
proof (cases "from_bits < to_bits")
  case True
  then have "from_bits < 32" using assms by simp
  then have "unat (32 - from_bits) = 32 - unat from_bits" "unat from_bits < 32" "0 < unat from_bits"
    using assms(3) by (simp_all add: unat_sub word_le_nat_alt word_less_nat_alt)
  then have n: "32 - from_bits < 32" "32 - from_bits \<noteq> 0"
    by (simp_all add: word_less_nat_alt word_unat_eq_iff)
  show ?thesis
    using assms True n shift_imm_word_ok [OF n(1), of Op_Shl d] shift_imm_word_ok [OF n(1), of Op_Sar d]
      shift_imm_word_ok [OF n(1), of Op_Shr d]
    by (auto simp: emit_extend_def extend_words_def shift_words_def shift_imm_word_def mov_words_def)
next
  case False
  then show ?thesis using assms by (simp add: emit_extend_def extend_words_def)
qed

lemma length_shift_words: "length (shift_words op d n) \<le> 1"
  by (simp add: shift_words_def split: sum.splits)

lemma extend_words_length: "length (extend_words d s sg from_bits to_bits) \<le> 3"
  using length_shift_words [of Op_Shl d "32 - from_bits"]
    length_shift_words [of "if sg then Op_Sar else Op_Shr" d "32 - from_bits"]
  unfolding extend_words_def mov_words_def by (simp only: length_append split: if_split) auto

context sia_alu
begin

lemma writes_add_imm:
  assumes "d \<noteq> reg_ZERO" "add_imm_ok d r imm"
  shows "writes exec (add_imm_words d r imm) d (\<lambda>s. get_gpr s r + imm)"
  using assms
  by (intro writesI)
     (auto simp: add_imm_words_def add_imm_ok_def mov_words_def exec_mov isa_addi [OF encode_addi_in_range]
       isa_add const_words_run algebra_simps)

lemma writes_shift_word:
  assumes "d \<noteq> reg_ZERO" "n < 32" "op \<in> {Op_Shl, Op_Shr, Op_Sar}"
  shows "writes exec (shift_words op d n) d (\<lambda>s. shift_imm_sem op (unat n) (get_gpr s d))"
proof -
  obtain w where "shift_imm_word op d n = Inr w" using shift_imm_word_ok [OF assms(2)] by blast
  then show ?thesis
    using assms
    by (intro writesI)
       (auto simp: shift_words_def shift_imm_word_def isa_shli isa_shri isa_sari split: if_splits)
qed

lemma writes_shift_imm:
  assumes "dest_ok d" "n < 32" "op \<in> {Op_Shl, Op_Shr, Op_Sar}"
  shows "writes exec (mov_words d r @ shift_words op d n) d (\<lambda>s. shift_imm_sem op (unat n) (get_gpr s r))"
  using assms writes_mov [of d r] writesD [OF writes_mov [of d r]]
  by (intro writes_trans [OF _ writes_shift_word]) (auto simp: dest_ok_def)

lemma writes_extend:
  assumes "dest_ok d" "from_bits \<le> to_bits" "to_bits \<le> 32" "0 < from_bits"
  shows "writes exec (extend_words d r sg from_bits to_bits) d
    (\<lambda>s. extend_sem sg (unat from_bits) (unat to_bits) (get_gpr s r))"
proof (cases "from_bits < to_bits")
  case False
  then have "unat from_bits = unat to_bits" using assms(2) by simp
  then show ?thesis
    using False assms(1) writes_mov [of d r] by (simp add: extend_words_def extend_sem_def dest_ok_def)
next
  case True
  let ?n = "32 - from_bits" and ?op = "if sg then Op_Sar else Op_Shr"
  have f: "unat from_bits < 32" "0 < unat from_bits" "unat from_bits \<noteq> unat to_bits"
    using True assms by (auto simp: word_less_nat_alt word_le_nat_alt)
  then have n: "unat ?n = 32 - unat from_bits" by (simp add: unat_sub word_le_nat_alt)
  then have n32: "?n < 32" using f by (simp add: word_less_nat_alt)
  have "shift_imm_sem ?op (unat ?n) (shift_imm_sem Op_Shl (unat ?n) a) =
      extend_sem sg (unat from_bits) (unat to_bits) a" for a
    using f n by (auto simp: extend_sem_def drop_push_bit signed_drop_push_bit)
  then have "writes exec (shift_words Op_Shl d ?n @ shift_words ?op d ?n) d
      (\<lambda>s. extend_sem sg (unat from_bits) (unat to_bits) (get_gpr s d))"
    using assms(1) n32 writesD(1) [OF writes_shift_word [of d ?n Op_Shl]]
    by (intro writes_trans [OF writes_shift_word writes_shift_word]) (auto simp: dest_ok_def)
  then have "writes exec (mov_words d r @ (shift_words Op_Shl d ?n @ shift_words ?op d ?n)) d
      (\<lambda>s. extend_sem sg (unat from_bits) (unat to_bits) (get_gpr s r))"
    using assms(1) writesD(1) [OF writes_mov [of d r]]
    by (intro writes_trans [OF writes_mov]) (auto simp: dest_ok_def)
  then show ?thesis using True by (simp add: extend_words_def)
qed

end

end
