(* ===== verification/Sia32_Emit_Correct.thy ===== *)
theory Sia32_Emit_Correct
  imports Sia32_Sem
begin

text \<open>
  Correctness of the emitted code, instruction by instruction: for every machine instruction whose
  expansion is straight-line code, emission appends a word sequence that, on any processor with
  the documented behaviour, has exactly the instruction's meaning; and it stays within the size
  the instruction declares.
\<close>

section \<open>Memory access\<close>

fun load_sem :: "load_op \<Rightarrow> cpu \<Rightarrow> u32 \<Rightarrow> u32" where
  "load_sem Load_I8 s a = scast (load8 s a)"
| "load_sem Load_U8 s a = ucast (load8 s a)"
| "load_sem Load_I16 s a = scast (load16 s a)"
| "load_sem Load_U16 s a = ucast (load16 s a)"
| "load_sem Load_I32 s a = load32 s a"

fun load_aligned :: "load_op \<Rightarrow> u32 \<Rightarrow> bool" where
  "load_aligned Load_I8 a = True"
| "load_aligned Load_U8 a = True"
| "load_aligned Load_I16 a = aligned2 a"
| "load_aligned Load_U16 a = aligned2 a"
| "load_aligned Load_I32 a = aligned4 a"

fun store_sem :: "store_op \<Rightarrow> u32 \<Rightarrow> u32 \<Rightarrow> cpu \<Rightarrow> cpu" where
  "store_sem Store_I8 a v s = store8 a (ucast v) s"
| "store_sem Store_I16 a v s = store16 a (ucast v) s"
| "store_sem Store_I32 a v s = store32 a v s"

fun store_aligned :: "store_op \<Rightarrow> u32 \<Rightarrow> bool" where
  "store_aligned Store_I8 a = True"
| "store_aligned Store_I16 a = aligned2 a"
| "store_aligned Store_I32 a = aligned4 a"

lemma load_sem_mem: "mem s' = mem s \<Longrightarrow> load_sem op s' a = load_sem op s a"
  by (cases op) (simp_all add: load8_def load16_def load32_def)

lemma store_sem_sel [simp]:
  "pc (store_sem op a v s) = pc s" "get_gpr (store_sem op a v s) r = get_gpr s r"
  by (cases op; simp add: store8_def store16_def store32_def get_gpr_def)+

lemma store_sem_mem: "mem s' = mem s \<Longrightarrow> mem (store_sem op a v s') = mem (store_sem op a v s)"
  by (cases op) (simp_all add: store8_def store16_def store32_def)

definition load_words :: "load_op \<Rightarrow> reg \<Rightarrow> reg \<Rightarrow> i32 \<Rightarrow> u16 list" where
  "load_words op d base off =
     (if off = 0 then [load_word op d base]
      else if d \<noteq> base then add_imm_words d base off @ [load_word op d d]
      else add_imm_words reg_SCRATCH base off @ [load_word op d reg_SCRATCH])"

definition store_words :: "store_op \<Rightarrow> reg \<Rightarrow> reg \<Rightarrow> i32 \<Rightarrow> u16 list" where
  "store_words op r base off =
     (if off = 0 then [store_word op r base]
      else add_imm_words reg_SCRATCH base off @ [store_word op r reg_SCRATCH])"

lemma emit_load_base_offset_eq:
  "emit_load_base_offset op d base off b =
     (if off \<noteq> 0 \<and> d = base \<and> base = reg_SCRATCH then None
      else Some (put_words (load_words op d base off) b))"
  by (auto simp: emit_load_base_offset_def load_words_def emit_load_zero_offset_def
      emit_add_imm32_eq add_imm_ok_def assert_that_def)

lemma emit_store_base_offset_eq:
  "emit_store_base_offset op r base off b =
     (if off \<noteq> 0 \<and> (r = reg_SCRATCH \<or> base = reg_SCRATCH) then None
      else Some (put_words (store_words op r base off) b))"
  by (auto simp: emit_store_base_offset_def store_words_def emit_store_zero_offset_def
      emit_add_imm32_eq add_imm_ok_def assert_that_def)

lemma memory_words_length:
  "length (load_words op d base off) \<le> 12" "length (store_words sop r base off) \<le> 12"
  using add_imm_words_length [of d base off] add_imm_words_length [of reg_SCRATCH base off]
  by (simp_all add: load_words_def store_words_def)

text \<open>
  \<open>loads\<close> is \<open>writes\<close> under a condition on the address; \<open>stores\<close> says that only memory and the
  scratch register change.
\<close>

definition loads ::
  "(u16 \<Rightarrow> cpu \<Rightarrow> cpu) \<Rightarrow> u16 list \<Rightarrow> reg \<Rightarrow> (cpu \<Rightarrow> bool) \<Rightarrow> (cpu \<Rightarrow> u32) \<Rightarrow> bool" where
  "loads exec ws d ok f \<longleftrightarrow>
     (\<forall>s. ok s \<longrightarrow> get_gpr (run exec ws s) d = f s \<and>
          pc (run exec ws s) = pc s + 2 * word_of_nat (length ws) \<and>
          mem (run exec ws s) = mem s \<and>
          (\<forall>r. r \<noteq> d \<and> r \<noteq> reg_SCRATCH \<longrightarrow> get_gpr (run exec ws s) r = get_gpr s r))"

definition stores ::
  "(u16 \<Rightarrow> cpu \<Rightarrow> cpu) \<Rightarrow> u16 list \<Rightarrow> (cpu \<Rightarrow> bool) \<Rightarrow> (cpu \<Rightarrow> cpu) \<Rightarrow> bool" where
  "stores exec ws ok f \<longleftrightarrow>
     (\<forall>s. ok s \<longrightarrow> mem (run exec ws s) = mem (f s) \<and>
          pc (run exec ws s) = pc s + 2 * word_of_nat (length ws) \<and>
          (\<forall>r. r \<noteq> reg_SCRATCH \<longrightarrow> get_gpr (run exec ws s) r = get_gpr s r))"

context sia_isa
begin

lemma exec_load:
  "load_aligned op (get_gpr s r) \<Longrightarrow>
     exec (load_word op d r) s = advance (set_gpr d (load_sem op s (get_gpr s r)) s)"
  using isa_lb isa_lbu isa_lh isa_lhu isa_lw by (cases op) (simp_all add: unary_law_def)

lemma exec_store:
  "store_aligned op (get_gpr s r) \<Longrightarrow>
     exec (store_word op v r) s = advance (store_sem op (get_gpr s r) (get_gpr s v) s)"
  using isa_sb isa_sh isa_sw by (cases op) (simp_all add: store_law_def)

lemma loads_words:
  assumes "d \<noteq> reg_ZERO" "\<not> (off \<noteq> 0 \<and> d = base \<and> base = reg_SCRATCH)"
  shows "loads exec (load_words op d base off) d (\<lambda>s. load_aligned op (get_gpr s base + off))
    (\<lambda>s. load_sem op s (get_gpr s base + off))"
proof -
  have "writes exec (add_imm_words x base off) x (\<lambda>s. get_gpr s base + off)"
    if "off \<noteq> 0" "x = d \<and> d \<noteq> base \<or> x = reg_SCRATCH \<and> d = base" for x
    using that assms by (intro writes_add_imm) (auto simp: add_imm_ok_def)
  note add = writesD [OF this]
  show ?thesis
  proof (cases "off = 0")
    case True
    then show ?thesis using assms by (simp add: loads_def load_words_def exec_load)
  next
    case False
    show ?thesis
    proof (cases "d = base")
      case True
      with False assms show ?thesis
        by (simp add: loads_def load_words_def exec_load add load_sem_mem [OF add(3)] algebra_simps)
    next
      case d: False
      with False assms show ?thesis
        by (simp add: loads_def load_words_def exec_load add load_sem_mem [OF add(3)] algebra_simps)
    qed
  qed
qed

lemma stores_words:
  assumes "\<not> (off \<noteq> 0 \<and> (r = reg_SCRATCH \<or> base = reg_SCRATCH))"
  shows "stores exec (store_words op r base off) (\<lambda>s. store_aligned op (get_gpr s base + off))
    (\<lambda>s. store_sem op (get_gpr s base + off) (get_gpr s r) s)"
proof -
  have "writes exec (add_imm_words reg_SCRATCH base off) reg_SCRATCH (\<lambda>s. get_gpr s base + off)"
    if "off \<noteq> 0"
    using that assms by (intro writes_add_imm) (auto simp: add_imm_ok_def)
  note add = writesD [OF this]
  show ?thesis
  proof (cases "off = 0")
    case True
    then show ?thesis by (simp add: stores_def store_words_def exec_store)
  next
    case False
    then have "base \<noteq> reg_SCRATCH" "r \<noteq> reg_SCRATCH" using assms by auto
    with False show ?thesis
      by (simp add: stores_def store_words_def exec_store store_sem_mem [OF add(3)] add algebra_simps)
  qed
qed

end

section \<open>Properties\<close>

abbreviation areg :: "reg \<Rightarrow> mreg" where "areg r \<equiv> Real (int_preg r)"

lemma arch_reg_areg [simp]: "arch_reg (areg r) = Some r"
  by (simp add: arch_reg_def)

lemmas emit_arms = emit_match_def emit_simple_def Let_def

text \<open>What is emitted as at most twelve words passes the assertion on the worst-case size.\<close>

lemma cur_offset_put_words [simp]: "cur_offset (put_words ws b) = cur_offset b + 2 * length ws"
  by (induction ws arbitrary: b) (simp_all add: put_words_def put_data_def cur_offset_def)

lemma emit_words:
  "emit_match i st b = Some (put_words ws b, st) \<Longrightarrow> length ws \<le> 12 \<Longrightarrow> emit i st b = Some (put_words ws b, st)"
  by (simp add: emit_def worst_case_size_def)

lemma emit_panics: "emit_match i st b = None \<Longrightarrow> emit i st b = None"
  by (simp add: emit_def)

lemma sia_isa_alu: "sia_isa exec \<Longrightarrow> sia_alu exec"
  by (simp add: sia_isa_def)

text \<open>
  C6: two-address arithmetic is emitted correctly for every operation with a defined meaning and
  every allocation of its three registers, the destination equal to either operand included:
  emission appends at most three words, and running them on any processor with the documented
  behaviour leaves the operation's result in the destination and changes nothing else but the
  reserved scratch register.
\<close>

theorem emit_two_op_correct:
  assumes "sia_isa exec" "dest_ok d" "operand_ok l" "operand_ok r"
    and "\<And>a b. two_op_sem op a b = Some (f a b)"
  shows "\<exists>ws. emit (TwoOp op (areg d) (areg l) (areg r)) st b = Some (put_words ws b, st) \<and>
    length ws \<le> 3 \<and> writes exec ws d (\<lambda>s. f (get_gpr s l) (get_gpr s r))"
  using sia_alu.writes_two_op [OF sia_isa_alu [OF assms(1)] assms(2-5)]
  by (intro exI [of _ "two_address_words d l r @ [two_op_word op d (right_reg d l r)]"] conjI emit_words)
     (simp_all add: emit_arms emit_two_op_eq two_address_words_def mov_words_def)

text \<open>An empty frame without a pending stack map, for the concrete instances below.\<close>

definition demo_state :: emit_state where
  "demo_state = \<lparr>frame_layout_of = \<lparr>word_bytes = 4, incoming_args_size = 0, tail_args_size = 0,
     setup_area_size = 0, clobber_size = 0, fixed_frame_storage_size = 0, stackslots_size = 0,
     outgoing_args_size = 0, clobbered_callee_saves = [], function_calls_of = Calls_None\<rparr>,
     user_stack_map_of = None\<rparr>"

theorem emit_two_op_correct_witness:
  "\<exists>ws. emit (TwoOp Op_Sub (areg 2) (areg 1) (areg 2)) demo_state buffer_new = Some (put_words ws buffer_new, demo_state) \<and>
    length ws \<le> 3 \<and> writes sia_exec ws 2 (\<lambda>s. get_gpr s 1 - get_gpr s 2)"
  by (rule emit_two_op_correct [where f = "(-)"])
     (rule sia.sia_isa_axioms, simp_all add: dest_ok_def operand_ok_def reg_consts)

text \<open>Integer comparison is emitted correctly for all ten condition codes and every register
  allocation: the destination ends up 1 if the comparison holds of the two operands and 0
  otherwise, in at most six words.
\<close>

theorem emit_icmp_correct:
  assumes "sia_isa exec" "dest_ok d" "operand_ok l" "operand_ok r"
  shows "\<exists>ws. emit (Icmp (areg d) cc (areg l) (areg r)) st b = Some (put_words ws b, st) \<and>
    length ws \<le> 6 \<and>
    writes exec ws d (\<lambda>s. if int_holds cc (get_gpr s l) (get_gpr s r) then 1 else 0)"
  using sia_alu.writes_icmp [OF sia_isa_alu [OF assms(1)] assms(2-4), of cc]
  by (intro exI [of _ "icmp_words cc d l r"] conjI emit_words order_trans [OF icmp_words_length])
     (simp_all add: emit_arms emit_icmp_eq icmp_sem_def of_bool_def)

theorem emit_icmp_correct_witness:
  "\<exists>ws. emit (Icmp (areg 3) IntSignedLessThanOrEqual (areg 1) (areg 3)) demo_state buffer_new =
      Some (put_words ws buffer_new, demo_state) \<and> length ws \<le> 6 \<and>
    writes sia_exec ws 3 (\<lambda>s. if int_holds IntSignedLessThanOrEqual (get_gpr s 1) (get_gpr s 3) then 1 else 0)"
  by (rule emit_icmp_correct)
     (rule sia.sia_isa_axioms, simp_all add: dest_ok_def operand_ok_def reg_consts)

text \<open>Sign and zero extension are emitted correctly for every pair of widths the emitter accepts:
  the destination holds the source's low \<open>from_bits\<close> bits, sign- or zero-extended.
\<close>

theorem emit_extend_correct:
  assumes "sia_isa exec" "dest_ok d" "from_bits \<le> to_bits" "to_bits \<le> 32" "0 < from_bits"
  shows "\<exists>ws. emit (Extend (areg d) (areg r) sg from_bits to_bits) st b = Some (put_words ws b, st) \<and>
    length ws \<le> 3 \<and>
    writes exec ws d (\<lambda>s. extend_sem sg (unat from_bits) (unat to_bits) (get_gpr s r))"
  using sia_alu.writes_extend [OF sia_isa_alu [OF assms(1)] assms(2-5), of r sg]
    extend_words_length
  by (intro exI [of _ "extend_words d r sg from_bits to_bits"] conjI emit_words
      order_trans [OF extend_words_length]) (simp_all add: emit_arms emit_extend_eq [OF assms(3-5)])

theorem emit_extend_correct_witness:
  "\<exists>ws. emit (Extend (areg 4) (areg 5) True 8 32) demo_state buffer_new = Some (put_words ws buffer_new, demo_state) \<and>
    length ws \<le> 3 \<and> writes sia_exec ws 4 (\<lambda>s. extend_sem True (unat (8 :: u8)) (unat (32 :: u8)) (get_gpr s 5))"
  by (rule emit_extend_correct) (rule sia.sia_isa_axioms, simp_all add: dest_ok_def reg_consts)

text \<open>Adding an arbitrary 32-bit immediate is emitted correctly, whether it fits \<open>ADDI\<close> or has to
  be built digit by digit in the scratch register; the only request that panics is an in-place add
  of a large immediate to the scratch register itself.
\<close>

theorem emit_add_imm_correct:
  assumes "sia_isa exec" "d \<noteq> reg_ZERO"
  shows "if add_imm_ok d r imm
    then \<exists>ws. emit (AddImm (areg d) (areg r) imm) st b = Some (put_words ws b, st) \<and>
      length ws \<le> 11 \<and> writes exec ws d (\<lambda>s. get_gpr s r + imm)
    else emit (AddImm (areg d) (areg r) imm) st b = None"
  using sia_alu.writes_add_imm [OF sia_isa_alu [OF assms(1)] assms(2), of r imm]
    add_imm_words_length [of d r imm]
  by (auto simp: emit_arms emit_add_imm32_eq intro!: emit_panics emit_words)

theorem emit_add_imm_correct_witness:
  "if add_imm_ok 13 13 (-0x12345)
    then \<exists>ws. emit (AddImm (areg 13) (areg 13) (-0x12345)) demo_state buffer_new = Some (put_words ws buffer_new, demo_state) \<and>
      length ws \<le> 11 \<and> writes sia_exec ws 13 (\<lambda>s. get_gpr s 13 + -0x12345)
    else emit (AddImm (areg 13) (areg 13) (-0x12345)) demo_state buffer_new = None"
  by (rule emit_add_imm_correct) (rule sia.sia_isa_axioms, simp add: reg_ZERO_def)

text \<open>
  C7: loads with a base and offset are emitted correctly: with the effective address aligned for
  the access, the destination receives the zero-extended byte or halfword, or the word, at
  base plus offset, for any 32-bit offset and also when the destination is the base register.
\<close>

theorem emit_load_base_offset_correct:
  assumes "sia_isa exec" "dest_ok d" "load_op_of ty = Some op"
  shows "\<exists>ws. emit (LoadBaseOffset (areg d) (areg base) off ty) st b = Some (put_words ws b, st) \<and>
    length ws \<le> 12 \<and>
    loads exec ws d (\<lambda>s. load_aligned op (get_gpr s base + off)) (\<lambda>s. load_sem op s (get_gpr s base + off))"
  using sia_isa.loads_words [OF assms(1), of d off base op] memory_words_length(1) assms(2,3)
  by (intro exI [of _ "load_words op d base off"] conjI emit_words)
     (auto simp: emit_arms emit_load_base_offset_eq dest_ok_def)

theorem emit_load_base_offset_correct_witness:
  "\<exists>ws. emit (LoadBaseOffset (areg 1) (areg 1) 400 ty_I32) demo_state buffer_new = Some (put_words ws buffer_new, demo_state) \<and>
    length ws \<le> 12 \<and>
    loads sia_exec ws 1 (\<lambda>s. load_aligned Load_I32 (get_gpr s 1 + 400)) (\<lambda>s. load_sem Load_I32 s (get_gpr s 1 + 400))"
  by (rule emit_load_base_offset_correct)
     (rule sia.sia_isa_axioms, simp_all add: dest_ok_def reg_consts load_op_of_def ty_defs)

text \<open>
  C8: stores with a base and offset are emitted correctly: with the effective address aligned,
  exactly the addressed bytes change to the low bytes of the source register, and no register but
  the scratch register changes.
\<close>

theorem emit_store_base_offset_correct:
  assumes "sia_isa exec" "operand_ok r" "operand_ok base" "store_op_of ty = Some op"
  shows "\<exists>ws. emit (StoreBaseOffset (areg r) (areg base) off ty) st b = Some (put_words ws b, st) \<and>
    length ws \<le> 12 \<and>
    stores exec ws (\<lambda>s. store_aligned op (get_gpr s base + off))
      (\<lambda>s. store_sem op (get_gpr s base + off) (get_gpr s r) s)"
  using sia_isa.stores_words [OF assms(1), of off r base op] memory_words_length(2) assms(2-4)
  by (intro exI [of _ "store_words op r base off"] conjI emit_words)
     (auto simp: emit_arms emit_store_base_offset_eq operand_ok_def)

theorem emit_store_base_offset_correct_witness:
  "\<exists>ws. emit (StoreBaseOffset (areg 14) (areg 13) 72 ty_I32) demo_state buffer_new = Some (put_words ws buffer_new, demo_state) \<and>
    length ws \<le> 12 \<and>
    stores sia_exec ws (\<lambda>s. store_aligned Store_I32 (get_gpr s 13 + 72))
      (\<lambda>s. store_sem Store_I32 (get_gpr s 13 + 72) (get_gpr s 14) s)"
  by (rule emit_store_base_offset_correct)
     (rule sia.sia_isa_axioms, simp_all add: operand_ok_def reg_consts store_op_of_def ty_defs)

end
