(* ===== verification/Sia32_Fixup_Correct.thy ===== *)
theory Sia32_Fixup_Correct
  imports Sia32_Label Sia32_Sem
begin

text \<open>
  Fixups and veneers against the processor laws: a patched branch transfers control to its label,
  a patched literal load reads the word at its label, and the long veneer reaches any label,
  changing nothing but the scratch register and the word below the stack pointer.
  The code is loaded at a base address; offsets are those of the buffer.
\<close>

section \<open>A patched word is the encoding of the displacement\<close>

lemma patched_imm7:
  "(imm7_form t r i AND NOT 0x7F) OR (word_of_int d AND 0x7F) = imm7_form t r (word_of_int d)"
  by (rule bit_word_eqI) (auto simp: imm7_form_def bit_simps bit_low_masks)

lemma patched_imm11:
  "(imm11_form t i AND NOT 0x7FF) OR (word_of_int d AND 0x7FF) = imm11_form t (word_of_int d)"
  by (rule bit_word_eqI) (auto simp: imm11_form_def bit_simps bit_low_masks)

lemma patched_imm8:
  "(imm8_form p r i AND NOT 0xFF) OR (word_of_int d AND 0xFF) = imm8_form p r (word_of_int d)"
  by (rule bit_word_eqI) (auto simp: imm8_form_def bit_simps bit_low_masks)

lemma patch_bytes:
  assumes "patch_field (u16_to_le_bytes w) lo hi m d = Some bs"
  shows "lo \<le> d \<and> d \<le> hi \<and> bs = u16_to_le_bytes ((w AND NOT m) OR (word_of_int d AND m))"
  using patch_field_Some [OF assms] read_word_bytes [of w "[]"] by simp

lemma patch_bnz:
  assumes "encode_bnz r i = Inr w" "patch Cond7 (u16_to_le_bytes w) u l = Some bs"
  shows "\<exists>d w'. branch_disp_halfwords u l = Some d \<and> encode_bnz r (word_of_int d) = Inr w' \<and>
    bs = u16_to_le_bytes w'"
proof -
  obtain d where d: "branch_disp_halfwords u l = Some d" "patch_field (u16_to_le_bytes w) (-64) 63 0x7F d = Some bs"
    using assms(2) by (auto simp: bind_eq_Some_conv)
  from patch_bytes [OF d(2)] assms(1) have "-64 \<le> d" "d \<le> 63" "bs = u16_to_le_bytes (imm7_form 0x14 r (word_of_int d))"
    by (simp_all add: encode_imm_forms guarded_Inr patched_imm7 [simplified])
  then show ?thesis using d(1) by (auto simp: encode_imm_forms guarded_Inr sint_word_of_int_small)
qed

lemma patch_branch11:
  assumes "encode_b i = Inr w \<or> encode_bl i = Inr w" "patch Branch11 (u16_to_le_bytes w) u l = Some bs"
  shows "\<exists>d w'. branch_disp_halfwords u l = Some d \<and> bs = u16_to_le_bytes w' \<and>
    (encode_b i = Inr w \<longrightarrow> encode_b (word_of_int d) = Inr w') \<and>
    (encode_bl i = Inr w \<longrightarrow> encode_bl (word_of_int d) = Inr w')"
proof -
  obtain d where d: "branch_disp_halfwords u l = Some d" "patch_field (u16_to_le_bytes w) (-1024) 1023 0x7FF d = Some bs"
    using assms(2) by (auto simp: bind_eq_Some_conv)
  let ?w = "(w AND NOT 0x7FF) OR (word_of_int d AND 0x7FF)"
  from patch_bytes [OF d(2)] have r: "-1024 \<le> d" "d \<le> 1023" "bs = u16_to_le_bytes ?w" by simp_all
  moreover have "encode_b i = Inr w \<longrightarrow> encode_b (word_of_int d) = Inr ?w"
    "encode_bl i = Inr w \<longrightarrow> encode_bl (word_of_int d) = Inr ?w"
    using r by (auto simp: encode_imm_forms guarded_Inr patched_imm11 [simplified] sint_word_of_int_small)
  ultimately show ?thesis using d(1) by blast
qed

lemma patch_ldpc:
  assumes "encode_ldpc_w r i = Inr w" "patch Literal8 (u16_to_le_bytes w) u l = Some bs"
  shows "\<exists>d w'. literal_disp_words u l = Some d \<and> encode_ldpc_w r (word_of_int d) = Inr w' \<and>
    bs = u16_to_le_bytes w'"
proof -
  obtain d where d: "literal_disp_words u l = Some d" "patch_field (u16_to_le_bytes w) (-128) 127 0xFF d = Some bs"
    using assms(2) by (auto simp: bind_eq_Some_conv)
  from patch_bytes [OF d(2)] assms(1) have "-128 \<le> d" "d \<le> 127" "bs = u16_to_le_bytes (imm8_form 0x9 r (word_of_int d))"
    by (simp_all add: encode_imm_forms guarded_Inr patched_imm8 [simplified])
  then show ?thesis using d(1) by (auto simp: encode_imm_forms guarded_Inr sint_word_of_int_small)
qed

section \<open>Where a patched branch goes\<close>

lemma branch_target_word:
  assumes "branch_disp_halfwords u l = Some d"
  shows "(base :: u32) + word_of_nat u + 2 + 2 * word_of_int d = base + word_of_nat l"
proof -
  have "word_of_int (int u + 2 + 2 * d) = (word_of_int (int l) :: u32)"
    using branch_disp_target [OF assms] by simp
  then show ?thesis by (simp add: algebra_simps)
qed

lemma align_down_4: "(x AND NOT 3 :: u32) = x - take_bit 2 x"
proof -
  have "x AND NOT (mask 2) = push_bit 2 (drop_bit 2 x)"
    by (rule bit_word_eqI) (auto simp: bit_simps simp del: add_2_eq_Suc)
  then show ?thesis using bits_ident [of 2 x] by (simp add: mask_eq_exp_minus_1 eq_diff_eq)
qed

lemma take_bit_2_offset:
  assumes "take_bit 2 (base :: u32) = 0"
  shows "take_bit 2 (base + word_of_nat v) = word_of_nat (v mod 4)"
proof -
  have "unat base mod 4 = 0"
    using arg_cong [OF assms, of unat] by (simp add: unat_mod take_bit_eq_mod)
  then have "(unat base + v) mod 4 = v mod 4" by (metis add_0 mod_add_left_eq)
  moreover have "unat (base + word_of_nat v) mod 4 = (unat base + v) mod 4"
    by (simp add: unat_word_ariths unat_of_nat take_bit_eq_mod mod_mod_cancel mod_simps)
  ultimately show ?thesis
    by (simp add: word_unat_eq_iff unat_mod take_bit_eq_mod unat_of_nat)
qed

lemma literal_target_word:
  assumes "literal_disp_words u l = Some d" "aligned4 (base :: u32)"
  shows "((base + word_of_nat u + 4) AND NOT 3) + 4 * word_of_int d = base + word_of_nat l"
proof -
  have b: "take_bit 2 base = 0"
    using assms(2) by (simp add: aligned4_def take_bit_eq_mask mask_eq_exp_minus_1)
  have "base + word_of_nat u + 4 = base + word_of_nat (u + 4)" by simp
  then have "(base + word_of_nat u + 4) AND NOT 3 = base + word_of_nat (u + 4) - word_of_nat ((u + 4) mod 4)"
    by (simp only: align_down_4 take_bit_2_offset [OF b])
  also have "\<dots> = base + word_of_nat ((u + 4) div 4 * 4)"
    by (metis add_diff_eq minus_mod_eq_div_mult of_nat_diff mod_less_eq_dividend)
  finally have s: "(base + word_of_nat u + 4) AND NOT 3 = base + word_of_int (int ((u + 4) div 4 * 4))"
    by (simp only: of_int_of_nat_eq)
  have "word_of_int (int ((u + 4) div 4 * 4) + 4 * d) = (word_of_int (int l) :: u32)"
    using literal_disp_target [OF assms(1)] by (simp only:)
  then show ?thesis unfolding s by (simp add: algebra_simps del: of_nat_mult of_nat_add)
qed

section \<open>The long veneer\<close>

lemma cpu_sel_simps [simp]:
  "get_gpr (s\<lparr>pc := p\<rparr>) r = get_gpr s r" "get_gpr (store32 a v s) r = get_gpr s r"
  "pc (store32 a v s) = pc s"
  by (simp_all add: get_gpr_def store32_def)

lemma aligned4_sub: "aligned4 a \<Longrightarrow> aligned4 (a - 4)"
proof -
  have e: "a + word_of_nat 4294967292 = a - 4" by (simp add: diff_conv_add_uminus del: add_uminus_conv_diff)
  show "aligned4 a \<Longrightarrow> aligned4 (a - 4)"
    using take_bit_2_offset [of a 4294967292] unfolding e
    by (simp add: aligned4_def take_bit_eq_mask mask_eq_exp_minus_1)
qed

lemma load32_cong: "mem s = mem s' \<Longrightarrow> load32 s a = load32 s' a"
  by (simp add: load32_def)

definition word_addrs :: "u32 \<Rightarrow> u32 set" where
  "word_addrs a = {a, a + 1, a + 2, a + 3}"

lemma load32_store32_same: "load32 (store32 a v s) a = v"
  using u32_le_bytes_roundtrip [OF u32_to_le_bytes_def]
  by (simp add: load32_def store32_def)

lemma load32_store32_disjoint:
  "word_addrs a \<inter> word_addrs b = {} \<Longrightarrow> load32 (store32 a v s) b = load32 s b"
  by (simp add: load32_def store32_def word_addrs_def)

context sia_isa
begin

lemma bnz_patched:
  assumes "encode_bnz r i = Inr w" "patch Cond7 (u16_to_le_bytes w) u l = Some bs"
  obtains w' where "bs = u16_to_le_bytes w'"
    "\<And>s base. pc s = base + word_of_nat u \<Longrightarrow> exec w' s =
      s\<lparr>pc := if get_gpr s r \<noteq> 0 then base + word_of_nat l else base + word_of_nat u + 2\<rparr>"
proof -
  from patch_bnz [OF assms] obtain d w' where w: "branch_disp_halfwords u l = Some d"
    "encode_bnz r (word_of_int d) = Inr w'" "bs = u16_to_le_bytes w'" by blast
  show thesis
    using isa_bnz [OF w(2)] branch_target_word [OF w(1)] by (intro that [OF w(3)]) simp
qed

lemma b_patched:
  assumes "encode_b i = Inr w" "patch Branch11 (u16_to_le_bytes w) u l = Some bs"
  obtains w' where "bs = u16_to_le_bytes w'"
    "\<And>s base. pc s = base + word_of_nat u \<Longrightarrow> exec w' s = s\<lparr>pc := base + word_of_nat l\<rparr>"
proof -
  from patch_branch11 [OF disjI1, OF assms] assms(1) obtain d w' where w: "branch_disp_halfwords u l = Some d"
    "encode_b (word_of_int d) = Inr w'" "bs = u16_to_le_bytes w'" by blast
  show thesis
    using isa_b [OF w(2)] branch_target_word [OF w(1)] by (intro that [OF w(3)]) simp
qed

lemma bl_patched:
  assumes "encode_bl i = Inr w" "patch Branch11 (u16_to_le_bytes w) u l = Some bs"
  obtains w' where "bs = u16_to_le_bytes w'"
    "\<And>s base. pc s = base + word_of_nat u \<Longrightarrow> exec w' s =
      (set_gpr reg_LR (base + word_of_nat u + 2) s)\<lparr>pc := base + word_of_nat l\<rparr>"
proof -
  from patch_branch11 [OF disjI2, OF assms] assms(1) obtain d w' where w: "branch_disp_halfwords u l = Some d"
    "encode_bl (word_of_int d) = Inr w'" "bs = u16_to_le_bytes w'" by blast
  show thesis
    using isa_bl [OF w(2)] branch_target_word [OF w(1)] by (intro that [OF w(3)]) simp
qed

lemma ldpc_patched:
  assumes "encode_ldpc_w r i = Inr w" "patch Literal8 (u16_to_le_bytes w) u l = Some bs"
  obtains w' where "bs = u16_to_le_bytes w'"
    "\<And>s base. pc s = base + word_of_nat u \<Longrightarrow> aligned4 base \<Longrightarrow> exec w' s =
      advance (set_gpr r (load32 s (base + word_of_nat l)) s)"
proof -
  from patch_ldpc [OF assms] obtain d w' where w: "literal_disp_words u l = Some d"
    "encode_ldpc_w r (word_of_int d) = Inr w'" "bs = u16_to_le_bytes w'" by blast
  show thesis
    using isa_ldpc_w [OF w(2)] literal_target_word [OF w(1)] by (intro that [OF w(3)]) simp
qed

end

text \<open>C10: A patched short branch goes to its label. On every processor with the documented branch
  semantics, once a BNZ, B or BL has been patched successfully, executing the patched word at its
  place sets the program counter to the label's address (for BNZ, only when the register is not
  zero, and to the next instruction otherwise), BL also sets the link register, and nothing else
  changes.\<close>

theorem patched_branch_reaches_label:
  assumes "sia_isa exec" "pc s = base + word_of_nat u"
  shows "(encode_bnz r i = Inr w \<and> patch Cond7 (u16_to_le_bytes w) u l = Some bs \<longrightarrow>
      (\<exists>w'. bs = u16_to_le_bytes w' \<and> exec w' s =
        s\<lparr>pc := if get_gpr s r \<noteq> 0 then base + word_of_nat l else base + word_of_nat u + 2\<rparr>)) \<and>
    (encode_b i = Inr w \<and> patch Branch11 (u16_to_le_bytes w) u l = Some bs \<longrightarrow>
      (\<exists>w'. bs = u16_to_le_bytes w' \<and> exec w' s = s\<lparr>pc := base + word_of_nat l\<rparr>)) \<and>
    (encode_bl i = Inr w \<and> patch Branch11 (u16_to_le_bytes w) u l = Some bs \<longrightarrow>
      (\<exists>w'. bs = u16_to_le_bytes w' \<and> exec w' s =
        (set_gpr reg_LR (base + word_of_nat u + 2) s)\<lparr>pc := base + word_of_nat l\<rparr>))"
  using sia_isa.bnz_patched [OF assms(1), of r i w u l bs] sia_isa.b_patched [OF assms(1), of i w u l bs]
    sia_isa.bl_patched [OF assms(1), of i w u l bs] assms(2)
  by (intro conjI impI; elim conjE) metis+

text \<open>A concrete machine: the code at 0x1000, the stack at 0x2000, the patched literal at 0x1010.\<close>

definition demo_cpu :: "u32 \<Rightarrow> cpu" where
  "demo_cpu start = \<lparr>gpr = (\<lambda>_. 0)(reg_SP := 0x2000, reg_LR := 0x77), pc = start,
     mem = (\<lambda>_. 0)(0x1010 := 0xFC, 0x1011 := 0x4F)\<rparr>"

theorem patched_branch_reaches_label_witness:
  "\<exists>w'. [49, 176] = u16_to_le_bytes w' \<and>
     sia_exec w' (demo_cpu 0x1064) = (demo_cpu 0x1064)\<lparr>pc := 0x1000 + word_of_nat 200\<rparr>"
proof -
  have "encode_b 0 = Inr 0xB000" by code_simp
  moreover have "patch Branch11 (u16_to_le_bytes 0xB000) 100 200 = Some [49, 176]" by code_simp
  ultimately show ?thesis
    using patched_branch_reaches_label [where exec = sia_exec and s = "demo_cpu 0x1064" and base = "0x1000"
        and u = 100 and i = 0 and w = "0xB000" and l = 200 and bs = "[49, 176]"]
      sia.sia_isa_axioms by (simp add: demo_cpu_def)
qed

text \<open>A patched literal load reads its literal. With code loaded at a word-aligned address, a
  successfully patched LDPC.W puts the word stored at the label's address into its register.\<close>

theorem patched_literal_loads_label:
  assumes "sia_isa exec" "encode_ldpc_w r i = Inr w" "patch Literal8 (u16_to_le_bytes w) u l = Some bs"
    and "pc s = base + word_of_nat u" "aligned4 base"
  shows "\<exists>w'. bs = u16_to_le_bytes w' \<and>
    exec w' s = advance (set_gpr r (load32 s (base + word_of_nat l)) s)"
  using sia_isa.ldpc_patched [OF assms(1-3)] assms(4,5) by metis

theorem patched_literal_loads_label_witness:
  "\<exists>w'. [24, 145] = u16_to_le_bytes w' \<and> sia_exec w' (demo_cpu 0x1064) =
     advance (set_gpr 1 (load32 (demo_cpu 0x1064) (0x1000 + word_of_nat 200)) (demo_cpu 0x1064))"
proof (rule patched_literal_loads_label)
  show "sia_isa sia_exec" by (rule sia.sia_isa_axioms)
  show "encode_ldpc_w 1 0 = Inr 0x9100" by code_simp
  show "patch Literal8 (u16_to_le_bytes 0x9100) 100 200 = Some [24, 145]" by code_simp
qed (simp_all add: demo_cpu_def aligned4_def)

lemma long_veneer_cases:
  assumes "long_veneer_words vo = Some ws"
  obtains bl ld lw d where "encode_bl 0 = Inr bl" "encode_ldpc_w reg_SCRATCH (word_of_nat d) = Inr ld"
    "encode_lw_post reg_LR reg_SP = Inr lw" "d = (veneer_literal vo - (vo + 8) div 4 * 4) div 4"
    "ws = [encode_sw_pre reg_LR reg_SP, bl, ld, encode_add reg_SCRATCH reg_LR reg_SCRATCH, lw, encode_jr reg_SCRATCH]"
  using assms by (auto simp: long_veneer_words_def bind_eq_Some_conv expect_eq_Some_iff)

lemma veneer_literal_disp:
  "literal_disp_words (vo + 4) (veneer_literal vo) = Some (int ((veneer_literal vo - (vo + 8) div 4 * 4) div 4))"
proof -
  have le: "(vo + 8) div 4 * 4 \<le> veneer_literal vo" by (simp add: veneer_literal_def)
  have "vo + 4 + 4 = vo + 8" by simp
  then show ?thesis
    using le by (simp add: literal_disp_words_def Let_def veneer_literal_def zdiv_int of_nat_diff)
qed

context sia_isa
begin

lemma long_veneer_run:
  assumes "long_veneer_words vo = Some ws" "pc s = base + word_of_nat vo" "aligned4 base"
    and "aligned4 (get_gpr s reg_SP)"
    and lit: "load32 s (base + word_of_nat (veneer_literal vo)) = target - (base + word_of_nat (vo + 4))"
    and disj: "word_addrs (get_gpr s reg_SP - 4) \<inter> word_addrs (base + word_of_nat (veneer_literal vo)) = {}"
  shows "pc (run exec ws s) = target" "r \<noteq> reg_SCRATCH \<Longrightarrow> get_gpr (run exec ws s) r = get_gpr s r"
    "mem (run exec ws s) = mem (store32 (get_gpr s reg_SP - 4) (get_gpr s reg_LR) s)"
proof -
  obtain bl ld lw d where e: "encode_bl 0 = Inr bl"
    "encode_ldpc_w reg_SCRATCH (word_of_nat d) = Inr ld" "encode_lw_post reg_LR reg_SP = Inr lw"
    "d = (veneer_literal vo - (vo + 8) div 4 * 4) div 4"
    and ws: "ws = [encode_sw_pre reg_LR reg_SP, bl, ld, encode_add reg_SCRATCH reg_LR reg_SCRATCH, lw, encode_jr reg_SCRATCH]"
    by (rule long_veneer_cases [OF assms(1)])
  let ?sp = "get_gpr s reg_SP" and ?lr = "get_gpr s reg_LR"
  have al: "aligned4 (?sp - 4)" using assms(4) aligned4_sub by blast
  have regs: "reg_LR \<noteq> reg_SP" "reg_LR \<noteq> reg_SCRATCH" "reg_SP \<noteq> reg_SCRATCH" "reg_LR \<noteq> reg_ZERO" "reg_SP \<noteq> reg_ZERO"
    by (simp_all add: reg_consts)
  define s1 where "s1 = exec (encode_sw_pre reg_LR reg_SP) s"
  have s1: "s1 = advance (set_gpr reg_SP (?sp - 4) (store32 (?sp - 4) ?lr s))"
    unfolding s1_def by (rule isa_sw_pre) (use al regs in simp_all)
  define s2 where "s2 = exec bl s1"
  have s2: "s2 = (set_gpr reg_LR (pc s1 + 2) s1)\<lparr>pc := pc s1 + 2\<rparr>"
    unfolding s2_def using isa_bl [OF e(1)] by simp
  define s3 where "s3 = exec ld s2"
  have pc2: "pc s2 = base + word_of_nat (vo + 4)" by (simp add: s2 s1 assms(2) algebra_simps)
  have a3: "((pc s2 + 4) AND NOT 3) + 4 * word_of_nat d = base + word_of_nat (veneer_literal vo)"
    using literal_target_word [OF veneer_literal_disp assms(3)] by (simp only: pc2 e(4) of_int_of_nat_eq)
  have m2: "mem s2 = mem (store32 (?sp - 4) ?lr s)" by (simp add: s2 s1)
  have "load32 s2 (base + word_of_nat (veneer_literal vo)) = target - (base + word_of_nat (vo + 4))"
    using load32_cong [OF m2] load32_store32_disjoint [OF disj] lit by simp
  then have s3: "s3 = advance (set_gpr reg_SCRATCH (target - (base + word_of_nat (vo + 4))) s2)"
    unfolding s3_def isa_ldpc_w [OF e(2)] a3 by simp
  define s4 where "s4 = exec (encode_add reg_SCRATCH reg_LR reg_SCRATCH) s3"
  have lr: "get_gpr s3 reg_LR = base + word_of_nat (vo + 4)"
    using regs by (simp add: s3 s2 s1 assms(2) algebra_simps)
  have s4: "s4 = advance (set_gpr reg_SCRATCH target s3)"
    unfolding s4_def using isa_add lr by (simp add: s3 regs)
  define s5 where "s5 = exec lw s4"
  have sp4: "get_gpr s4 reg_SP = ?sp - 4" using regs by (simp add: s4 s3 s2 s1)
  have "load32 s4 (?sp - 4) = ?lr"
    using load32_cong [of s4 "store32 (?sp - 4) ?lr s"] load32_store32_same by (simp add: s4 s3 m2)
  then have s5: "s5 = advance (set_gpr reg_SP ?sp (set_gpr reg_LR ?lr s4))"
    unfolding s5_def using isa_lw_post [OF e(3), of s4] al by (simp add: sp4)
  have sc: "get_gpr s5 reg_SCRATCH = target" using regs by (simp add: s5 s4)
  have fin: "run exec ws s = (set_gpr reg_ZERO (pc s5 + 2) s5)\<lparr>pc := target\<rparr>"
    unfolding ws by (simp add: s5_def s4_def s3_def s2_def s1_def encode_jr_def isa_jalr flip: sc)
  show "pc (run exec ws s) = target" by (simp add: fin)
  show "mem (run exec ws s) = mem (store32 (get_gpr s reg_SP - 4) (get_gpr s reg_LR) s)"
    by (simp add: fin s5 s4 s3 m2)
  show "get_gpr (run exec ws s) r = get_gpr s r" if "r \<noteq> reg_SCRATCH"
    using that regs by (simp add: fin s5 s4 s3 s2 s1)
qed

end

lemma le_bytes_inject: "u32_to_le_bytes v = u32_to_le_bytes w \<Longrightarrow> v = w"
  by (metis u32_le_bytes_roundtrip u32_to_le_bytes_def)

lemma generate_long_veneer:
  assumes "generate_veneer Branch11 (replicate 24 0) vo = Some (bytes, literal, use)"
  shows "\<exists>ws. long_veneer_words vo = Some ws \<and> length ws = 6 \<and>
    bytes = concat (map u16_to_le_bytes ws) @ replicate 12 0 \<and> literal = veneer_literal vo \<and>
    use = LongDelta32 (word_of_nat (literal - vo - 4))"
proof -
  obtain ws where ws: "long_veneer_words vo = Some ws"
    using assms by (cases "long_veneer_words vo") simp_all
  then have len: "length ws = 6" by (rule long_veneer_cases) simp
  then have "length (concat (map u16_to_le_bytes ws)) = 12"
    by (simp add: length_concat comp_def sum_list_triv)
  then have "(concat (map u16_to_le_bytes ws) @ replicate 12 0, veneer_literal vo,
      LongDelta32 (word_of_nat (veneer_literal vo - vo - 4))) = (bytes, literal, use)"
    using assms by (simp only: generate_veneer.simps ws bind.bind_lunit Let_def length_replicate
        assert_that_simps order_refl option.inject) auto
  then show ?thesis using ws len by auto
qed

text \<open>C9: The long veneer reaches every label. The 24 bytes generated for an out-of-range branch are
  six instructions and a word-aligned literal slot inside the veneer; once the literal has been
  patched for a label and the code is loaded at a word-aligned base, running the instructions
  from the veneer's address, with the stack pointer aligned and the pushed word not overlapping
  the literal, ends at the label with every register but the scratch register unchanged (the
  link register and the stack pointer included) and memory changed only in the word below the
  stack pointer.\<close>

theorem long_veneer_reaches_label:
  assumes "sia_isa exec" "generate_veneer Branch11 (replicate 24 0) vo = Some (bytes, literal, use)"
    and "patch use (take 4 (drop (literal - vo) bytes)) literal label = Some delta"
    and "pc s = base + word_of_nat vo" "aligned4 base" "aligned4 (get_gpr s reg_SP)"
    and "u32_to_le_bytes (load32 s (base + word_of_nat literal)) = delta"
    and "word_addrs (get_gpr s reg_SP - 4) \<inter> word_addrs (base + word_of_nat literal) = {}"
  shows "\<exists>ws. take (2 * length ws) bytes = concat (map u16_to_le_bytes ws) \<and>
    vo + 2 * length ws \<le> literal \<and> literal mod 4 = 0 \<and> literal + 4 \<le> vo + length bytes \<and>
    pc (run exec ws s) = base + word_of_nat label \<and>
    (\<forall>r. r \<noteq> reg_SCRATCH \<longrightarrow> get_gpr (run exec ws s) r = get_gpr s r) \<and>
    (\<forall>a. a \<notin> word_addrs (get_gpr s reg_SP - 4) \<longrightarrow> mem (run exec ws s) a = mem s a)"
proof -
  from generate_long_veneer [OF assms(2)] obtain ws where ws: "long_veneer_words vo = Some ws" "length ws = 6"
    "bytes = concat (map u16_to_le_bytes ws) @ replicate 12 0" "literal = veneer_literal vo"
    "use = LongDelta32 (word_of_nat (literal - vo - 4))" by blast
  have len: "length (concat (map u16_to_le_bytes ws)) = 12"
    using ws(2) by (simp add: length_concat comp_def sum_list_triv)
  have b: "vo + 16 \<le> literal" "literal \<le> vo + 19" "literal mod 4 = 0"
    by (simp_all add: ws(4) veneer_literal_def)
  have "delta = u32_to_le_bytes (word_of_int (int label - int (vo + 4)))"
  proof -
    have "unat (word_of_nat (literal - vo - 4) :: u8) = literal - vo - 4"
      unfolding unat_of_nat using b by (intro mod_less) simp
    then show ?thesis using assms(3) b by (simp add: ws(5) Let_def split: if_splits)
  qed
  then have "load32 s (base + word_of_nat literal) = word_of_int (int label - int (vo + 4))"
    using assms(7) le_bytes_inject by simp
  also have "\<dots> = base + word_of_nat label - (base + word_of_nat (vo + 4))" by simp
  finally have lit: "load32 s (base + word_of_nat (veneer_literal vo)) =
      base + word_of_nat label - (base + word_of_nat (vo + 4))" by (simp only: ws(4))
  note run = sia_isa.long_veneer_run [OF assms(1) ws(1) assms(4-6) lit assms(8) [unfolded ws(4)]]
  have m: "mem (run exec ws s) a = mem s a" if "a \<notin> word_addrs (get_gpr s reg_SP - 4)" for a
    using that run(3) by (simp add: store32_def word_addrs_def)
  show ?thesis
    using b len m run(1,2) ws(2) by (intro exI [of _ ws]) (simp add: ws(3))
qed

theorem long_veneer_reaches_label_witness:
  "\<exists>ws. pc (run sia_exec ws (demo_cpu 0x1000)) = 0x1000 + word_of_nat 0x5000 \<and>
    get_gpr (run sia_exec ws (demo_cpu 0x1000)) reg_LR = 0x77"
proof -
  have "generate_veneer Branch11 (replicate 24 0) 0 =
      Some ([223, 126, 0, 184, 2, 156, 236, 12, 220, 126, 192, 192] @ replicate 12 0, 16, LongDelta32 12)"
    by code_simp
  moreover have "patch (LongDelta32 12) (take 4 (drop (16 - 0)
      ([223, 126, 0, 184, 2, 156, 236, 12, 220, 126, 192, 192] @ replicate 12 0))) 16 0x5000 = Some [0xFC, 0x4F, 0, 0]"
    by (simp add: u32_to_le_bytes_def)
  moreover have "u32_to_le_bytes (load32 (demo_cpu 0x1000) (0x1000 + word_of_nat 16)) = [0xFC, 0x4F, 0, 0]"
    by (simp add: load32_def demo_cpu_def u32_from_le_bytes_def u32_to_le_bytes_def)
  moreover have "word_addrs (get_gpr (demo_cpu 0x1000) reg_SP - 4) \<inter> word_addrs (0x1000 + word_of_nat 16) = {}"
    by (simp add: word_addrs_def demo_cpu_def get_gpr_def reg_consts)
  ultimately obtain ws where "pc (run sia_exec ws (demo_cpu 0x1000)) = 0x1000 + word_of_nat 0x5000"
    "\<forall>r. r \<noteq> reg_SCRATCH \<longrightarrow> get_gpr (run sia_exec ws (demo_cpu 0x1000)) r = get_gpr (demo_cpu 0x1000) r"
    using long_veneer_reaches_label [OF sia.sia_isa_axioms, where vo = 0 and literal = 16 and
        use = "LongDelta32 12" and label = "0x5000" and delta = "[0xFC, 0x4F, 0, 0]" and s = "demo_cpu 0x1000"
        and base = "0x1000"]
    by (auto simp: demo_cpu_def aligned4_def get_gpr_def reg_consts)
  moreover have "get_gpr (demo_cpu 0x1000) reg_LR = 0x77" "reg_LR \<noteq> reg_SCRATCH"
    by (simp_all add: demo_cpu_def get_gpr_def reg_consts)
  ultimately show ?thesis by metis
qed

end
