(* ===== verification/Sia32_Abi.thy ===== *)
theory Sia32_Abi
  imports Sia32_Abi_Contract Sia32_Inst Sia32_Label
begin

text \<open>
  \<open>src/cranelift/codegen/src/isa/sia32/abi.rs\<close>: the machine-specific half of Cranelift's ABI for
  SIA32, with the argument data of \<open>machinst/abi.rs\<close> and \<open>ir/extfunc.rs\<close> it fills in.

  Sizes and stack offsets (\<open>u32\<close>) are \<open>nat\<close>. \<open>ensure_call_conv(..).expect(..)\<close> is a panic, the
  outer \<open>None\<close>; \<open>ensure_call_conv(..)?\<close> is an error, \<open>Inl\<close>. The placement cursor is the record
  \<open>cursor\<close> of theory \<open>Sia32_Abi_Contract\<close>, whose oracle \<open>compute_arg_locs\<close> is proved to implement.
\<close>

section \<open>Parameters and argument locations\<close>

datatype argument_extension = Ext_None | Ext_Uext | Ext_Sext

datatype argument_purpose = Purpose_Normal | Purpose_StructArgument nat | Purpose_StructReturn
  | Purpose_VMContext | Purpose_SystemVVariadicCount

record abi_param =
  value_type :: ir_type
  param_purpose :: argument_purpose
  param_extension :: argument_extension

datatype abi_arg_slot =
    ABI_Reg preg ir_type argument_extension
  | ABI_Stack int ir_type argument_extension

fun slot_type :: "abi_arg_slot \<Rightarrow> ir_type" where
  "slot_type (ABI_Reg _ ty _) = ty"
| "slot_type (ABI_Stack _ ty _) = ty"

datatype abi_arg =
    Arg_Slots "abi_arg_slot list" argument_purpose
  | Arg_Struct int nat argument_purpose
  | Arg_ImplicitPtr abi_arg_slot int ir_type argument_purpose

definition abi_arg_reg ::
  "preg \<Rightarrow> ir_type \<Rightarrow> argument_extension \<Rightarrow> argument_purpose \<Rightarrow> abi_arg" where
  "abi_arg_reg r ty ext purpose = Arg_Slots [ABI_Reg r ty ext] purpose"

definition abi_arg_stack ::
  "int \<Rightarrow> ir_type \<Rightarrow> argument_extension \<Rightarrow> argument_purpose \<Rightarrow> abi_arg" where
  "abi_arg_stack off ty ext purpose = Arg_Slots [ABI_Stack off ty ext] purpose"

datatype args_or_rets = Aor_Args | Aor_Rets

datatype abi_arg_location = Arg_Loc_Reg | Arg_Loc_Stack

section \<open>Argument placement\<close>

definition ensure_call_conv :: "call_conv \<Rightarrow> codegen_error + unit" where
  "ensure_call_conv cc =
     (if cc = CC_SystemV then Inr ()
      else Inl (Unsupported ''SIA32 initially supports only the SystemV compiler ABI''))"

definition word_bits :: nat where "word_bits = 32"

definition STACK_ARG_RET_SIZE_LIMIT :: nat where "STACK_ARG_RET_SIZE_LIMIT = 128 * 1024 * 1024"

definition stack_align_of :: "call_conv \<Rightarrow> nat option" where
  "stack_align_of cc = do { expect (ensure_call_conv cc); Some 8 }"

text \<open>\<open>regs::preg(index)\<close> for the register numbers of the placement, which never pass 15.\<close>

definition preg_real :: "nat \<Rightarrow> preg" where
  "preg_real index = int_preg (word_of_nat index)"

definition get_ext_mode ::
  "call_conv \<Rightarrow> argument_extension \<Rightarrow> abi_arg_location \<Rightarrow> argument_extension option" where
  "get_ext_mode cc specified loc = do { expect (ensure_call_conv cc); Some specified }"

definition slot_extension :: "abi_param \<Rightarrow> abi_arg_location \<Rightarrow> argument_extension" where
  "slot_extension p loc = the (get_ext_mode CC_SystemV (param_extension p) loc)"

text \<open>The slots of one value: consecutive registers, or consecutive stack words.\<close>

definition reg_slots :: "abi_param \<Rightarrow> ir_type list \<Rightarrow> nat \<Rightarrow> abi_arg_slot list" where
  "reg_slots p tys nr =
     map (\<lambda>(part, ty). ABI_Reg (preg_real (nr + part)) ty
            (if length tys = 1 then slot_extension p Arg_Loc_Reg else Ext_None))
       (enumerate 0 tys)"

definition stack_slots :: "abi_param \<Rightarrow> ir_type list \<Rightarrow> nat \<Rightarrow> abi_arg_slot list" where
  "stack_slots p tys off =
     map (\<lambda>(part, ty). ABI_Stack (int (off + part * 4)) ty
            (if length tys = 1 then slot_extension p Arg_Loc_Stack else Ext_None))
       (enumerate 0 tys)"

text \<open>
  One iteration of the loop over the parameters: the argument and the cursor after it, or the
  error the source returns.
\<close>

definition arg_step ::
  "bool \<Rightarrow> args_or_rets \<Rightarrow> abi_param \<Rightarrow> cursor \<Rightarrow> codegen_error + (abi_arg \<times> cursor)" where
  "arg_step multi_ret aor p c =
     (case param_purpose p of
        Purpose_StructArgument _ \<Rightarrow>
          Inl (Unsupported ''SIA32 passes aggregates by address; lower StructArgument to an explicit pointer'')
      | _ \<Rightarrow>
          case rc_for_type (value_type p) of
            Inl e \<Rightarrow> Inl e
          | Inr (_, tys) \<Rightarrow>
              let parts = length tys;
                  reg_last = (case aor of Aor_Args \<Rightarrow> 6 | Aor_Rets \<Rightarrow> 2);
                  nr = (if parts = 2 \<and> next_reg c mod 2 = 0 then next_reg c + 1 else next_reg c)
              in if \<not> stack_only c \<and> nr \<le> reg_last \<and> nr + parts - 1 \<le> reg_last
                 then Inr (Arg_Slots (reg_slots p tys nr) (param_purpose p), c\<lparr>next_reg := nr + parts\<rparr>)
                 else if aor = Aor_Rets \<and> \<not> multi_ret
                 then Inl (Unsupported ''SIA32 return values exceed r1:r2; enable implicit sret or use StructReturn'')
                 else let off = align_to (next_stack c) (if parts = 2 then 8 else 4)
                      in Inr (Arg_Slots (stack_slots p tys off) (param_purpose p),
                           c\<lparr>next_reg := nr, stack_only := stack_only c \<or> aor = Aor_Args,
                             next_stack := off + (if parts = 2 then 8 else 4)\<rparr>))"

fun arg_loop ::
  "bool \<Rightarrow> args_or_rets \<Rightarrow> abi_param list \<Rightarrow> cursor \<Rightarrow> codegen_error + (abi_arg list \<times> cursor)" where
  "arg_loop multi_ret aor [] c = Inr ([], c)"
| "arg_loop multi_ret aor (p # ps) c =
     (case arg_step multi_ret aor p c of
        Inl e \<Rightarrow> Inl e
      | Inr (a, c') \<Rightarrow>
          case arg_loop multi_ret aor ps c' of
            Inl e \<Rightarrow> Inl e
          | Inr (as, c'') \<Rightarrow> Inr (a # as, c''))"

text \<open>
  \<open>args\<close> is the vector shared by all signatures, to which the accumulator appends. The result is
  the stack space, the position of the return-area pointer among the arguments of this call, and
  the extended vector.
\<close>

definition compute_arg_locs ::
  "call_conv \<Rightarrow> bool \<Rightarrow> abi_param list \<Rightarrow> args_or_rets \<Rightarrow> bool \<Rightarrow> abi_arg list
     \<Rightarrow> codegen_error + (nat \<times> nat option \<times> abi_arg list)" where
  "compute_arg_locs cc multi_ret params aor add_ret_area_ptr args =
     (if \<exists>p \<in> set params. param_purpose p = Purpose_SystemVVariadicCount
      then Inl (Unsupported ''sysv_varargs is supported only by x86-64 SystemV'')
      else case ensure_call_conv cc of
        Inl e \<Rightarrow> Inl e
      | Inr _ \<Rightarrow>
          if add_ret_area_ptr \<and> aor \<noteq> Aor_Args
          then Inl (Unsupported ''SIA32 return-area pointer is valid only for arguments'')
          else case arg_loop multi_ret aor params
                 \<lparr>next_reg = (if add_ret_area_ptr then 2 else 1), stack_only = False, next_stack = 0\<rparr> of
            Inl e \<Rightarrow> Inl e
          | Inr (as, c) \<Rightarrow>
              let as' = as @ (if add_ret_area_ptr
                    then [abi_arg_reg (preg_real 1) ty_I32 Ext_None Purpose_Normal] else [])
              in Inr (align_to (next_stack c) 8,
                      (if add_ret_area_ptr then Some (length as' - 1) else None), args @ as'))"

section \<open>Instruction constructors\<close>

definition gen_load_stack :: "stack_amode \<Rightarrow> mreg \<Rightarrow> ir_type \<Rightarrow> inst" where
  "gen_load_stack m into ty = LoadStack into m ty"

definition gen_store_stack :: "stack_amode \<Rightarrow> mreg \<Rightarrow> ir_type \<Rightarrow> inst" where
  "gen_store_stack m from_reg ty = StoreStack from_reg m ty"

definition gen_extend :: "mreg \<Rightarrow> mreg \<Rightarrow> bool \<Rightarrow> u8 \<Rightarrow> u8 \<Rightarrow> inst" where
  "gen_extend to_reg from_reg sg from_bits to_bits = Extend to_reg from_reg sg from_bits to_bits"

definition gen_args :: "(mreg \<times> mreg) list \<Rightarrow> inst" where "gen_args args = Args args"

definition gen_rets :: "(mreg \<times> mreg) list \<Rightarrow> inst" where "gen_rets rets = Rets rets"

definition gen_add_imm :: "call_conv \<Rightarrow> mreg \<Rightarrow> mreg \<Rightarrow> nat \<Rightarrow> inst list option" where
  "gen_add_imm cc into from_reg imm = do {
     expect (ensure_call_conv cc);
     assert_that (imm < 2 ^ 31);
     Some [AddImm into from_reg (word_of_nat imm)]
   }"

definition gen_stack_lower_bound_trap :: "mreg \<Rightarrow> inst list" where
  "gen_stack_lower_bound_trap limit = [StackLowerBoundTrap limit]"

definition gen_get_stack_addr :: "stack_amode \<Rightarrow> mreg \<Rightarrow> inst" where
  "gen_get_stack_addr m into = StackAddr into m"

definition get_stacklimit_reg :: "call_conv \<Rightarrow> mreg option" where
  "get_stacklimit_reg cc = do { expect (ensure_call_conv cc); Some stacklimit_reg }"

definition gen_load_base_offset :: "mreg \<Rightarrow> mreg \<Rightarrow> i32 \<Rightarrow> ir_type \<Rightarrow> inst" where
  "gen_load_base_offset into base off ty = LoadBaseOffset into base off ty"

definition gen_store_base_offset :: "mreg \<Rightarrow> i32 \<Rightarrow> mreg \<Rightarrow> ir_type \<Rightarrow> inst" where
  "gen_store_base_offset base off from_reg ty = StoreBaseOffset from_reg base off ty"

definition gen_sp_reg_adjust :: "i32 \<Rightarrow> inst list" where
  "gen_sp_reg_adjust amount = (if amount = 0 then [] else [SpAdjust amount])"

section \<open>Frames\<close>

definition callee_save_enc :: "preg \<Rightarrow> bool" where
  "callee_save_enc p = (9 \<le> hw_enc p \<and> hw_enc p \<le> 11 \<or> hw_enc p = 15)"

text \<open>
  \<open>sort_by_key\<close> is stable and \<open>dedup_by_key\<close> drops an element whose key equals the key of the last
  one kept.
\<close>

fun dedup_by_enc :: "preg list \<Rightarrow> preg list" where
  "dedup_by_enc (p # q # ps) =
     (if hw_enc p = hw_enc q then dedup_by_enc (p # ps) else p # dedup_by_enc (q # ps))"
| "dedup_by_enc ps = ps"

definition clobbered_saves ::
  "preg list \<Rightarrow> function_calls \<Rightarrow> nat \<Rightarrow> nat \<Rightarrow> nat \<Rightarrow> preg list" where
  "clobbered_saves regs_written calls slots fixed outgoing =
     (let saves = filter callee_save_enc regs_written;
          saves = (if calls = Calls_Regular \<or> slots \<noteq> 0 \<or> fixed \<noteq> 0 \<or> outgoing \<noteq> 0 \<or> saves \<noteq> []
                   then saves @ [int_preg reg_FP] else saves)
      in dedup_by_enc (sort_key hw_enc saves))"

text \<open>The sum \<open>value + align - 1\<close> inside \<open>align_to\<close> is a \<open>u32\<close>: it panics when it overflows.\<close>

definition compute_frame_layout ::
  "call_conv \<Rightarrow> preg list \<Rightarrow> function_calls \<Rightarrow> nat \<Rightarrow> nat \<Rightarrow> nat \<Rightarrow> nat \<Rightarrow> nat \<Rightarrow> frame_layout option" where
  "compute_frame_layout cc regs_written calls incoming tail_args slots fixed outgoing = do {
     expect (ensure_call_conv cc);
     let saves = clobbered_saves regs_written calls slots fixed outgoing;
     assert_that (fixed + 8 \<le> u32_max \<and> outgoing + 8 \<le> u32_max);
     Some \<lparr>word_bytes = 4, incoming_args_size = incoming, tail_args_size = tail_args,
       setup_area_size = 0,
       clobber_size = (if saves = [] then 0 else align_to (length saves * 4) 8),
       fixed_frame_storage_size = align_to fixed 8, stackslots_size = slots,
       outgoing_args_size = align_to outgoing 8, clobbered_callee_saves = saves,
       function_calls_of = calls\<rparr>
   }"

definition gen_prologue_frame_setup :: "call_conv \<Rightarrow> frame_layout \<Rightarrow> inst list option" where
  "gen_prologue_frame_setup cc frame = do { expect (ensure_call_conv cc); Some [] }"

definition gen_epilogue_frame_restore :: "call_conv \<Rightarrow> frame_layout \<Rightarrow> inst list option" where
  "gen_epilogue_frame_restore cc frame = do { expect (ensure_call_conv cc); Some [] }"

definition gen_return :: "call_conv \<Rightarrow> frame_layout \<Rightarrow> inst list option" where
  "gen_return cc frame = do { expect (ensure_call_conv cc); Some [Ret] }"

definition gen_probestack :: "inst list \<Rightarrow> nat \<Rightarrow> inst list option" where
  "gen_probestack insts frame_size = None"

definition gen_inline_probestack :: "inst list \<Rightarrow> call_conv \<Rightarrow> nat \<Rightarrow> nat \<Rightarrow> inst list option" where
  "gen_inline_probestack insts cc frame_size guard_size = None"

definition lr_size :: "frame_layout \<Rightarrow> nat" where
  "lr_size f = (if function_calls_of f = Calls_Regular then 8 else 0)"

definition save_base :: "frame_layout \<Rightarrow> nat" where
  "save_base f = fixed_frame_storage_size f + stackslots_size f + outgoing_args_size f"

definition frame_stack_size :: "frame_layout \<Rightarrow> nat" where
  "frame_stack_size f =
     lr_size f + clobber_size f + fixed_frame_storage_size f + stackslots_size f + outgoing_args_size f"

text \<open>\<open>as i32\<close> conversions of sizes wrap.\<close>

definition gen_clobber_save :: "call_conv \<Rightarrow> frame_layout \<Rightarrow> inst list option" where
  "gen_clobber_save cc f = do {
     expect (ensure_call_conv cc);
     Some (if frame_stack_size f = 0 then []
       else [SpAdjust (- word_of_nat (frame_stack_size f))]
         @ (if lr_size f \<noteq> 0
            then [StoreBaseOffset link_reg stack_reg (word_of_nat (save_base f + clobber_size f)) ty_I32] else [])
         @ map (\<lambda>(i, r). StoreBaseOffset (Real r) stack_reg (word_of_nat (save_base f) + word_of_nat i * 4) ty_I32)
             (enumerate 0 (clobbered_callee_saves f))
         @ [Mov frame_reg stack_reg])
   }"

definition gen_clobber_restore :: "call_conv \<Rightarrow> frame_layout \<Rightarrow> inst list option" where
  "gen_clobber_restore cc f = do {
     expect (ensure_call_conv cc);
     Some (if frame_stack_size f = 0 then []
       else [Mov stack_reg frame_reg]
         @ (if lr_size f \<noteq> 0
            then [LoadBaseOffset link_reg stack_reg (word_of_nat (save_base f + clobber_size f)) ty_I32] else [])
         @ map (\<lambda>(i, r). LoadBaseOffset (Real r) stack_reg (word_of_nat (save_base f) + word_of_nat i * 4) ty_I32)
             (enumerate 0 (clobbered_callee_saves f))
         @ [SpAdjust (word_of_nat (frame_stack_size f))])
   }"

definition gen_memcpy :: "call_conv \<Rightarrow> mreg \<Rightarrow> mreg \<Rightarrow> nat \<Rightarrow> inst list option" where
  "gen_memcpy cc dst src sz = None"

fun get_number_of_spillslots_for_value :: "reg_class \<Rightarrow> nat option" where
  "get_number_of_spillslots_for_value Int_class = Some 1"
| "get_number_of_spillslots_for_value _ = None"

definition get_machine_env :: "call_conv \<Rightarrow> machine_env option" where
  "get_machine_env cc = do { expect (ensure_call_conv cc); Some create_reg_environment }"

definition get_regs_clobbered_by_call :: "call_conv \<Rightarrow> bool \<Rightarrow> preg set option" where
  "get_regs_clobbered_by_call cc is_exception = do {
     expect (ensure_call_conv cc);
     Some (set (map int_preg [1, 2, 3, 4, 5, 6, 7, 8]))
   }"

definition retval_temp_reg :: "call_conv \<Rightarrow> mreg option" where
  "retval_temp_reg cc = do { expect (ensure_call_conv cc); Some scratch_reg }"

definition exception_payload_regs :: "call_conv \<Rightarrow> mreg list option" where
  "exception_payload_regs cc = do { expect (ensure_call_conv cc); Some [Real (int_preg 1), Real (int_preg 2)] }"

section \<open>The placement implements the contract\<close>

text \<open>The contract's value kind of an IR type, and the contract's location of an ABI argument.\<close>

definition value_kind_of :: "ir_type \<Rightarrow> value_kind option" where
  "value_kind_of ty =
     (if ty = ty_I8 then Some Kind_I8 else if ty = ty_I16 then Some Kind_I16
      else if ty = ty_I32 then Some Kind_I32 else if ty = ty_I64 then Some Kind_I64 else None)"

fun arg_location :: "abi_arg \<Rightarrow> location option" where
  "arg_location (Arg_Slots [ABI_Reg r _ _] _) = Some (Loc_Reg (unat (hw_enc r)))"
| "arg_location (Arg_Slots [ABI_Reg lo _ _, ABI_Reg hi _ _] _) =
     Some (Loc_RegPair (unat (hw_enc lo)) (unat (hw_enc hi)))"
| "arg_location (Arg_Slots [ABI_Stack off _ _] _) = Some (Loc_Stack (nat off) 4 4)"
| "arg_location (Arg_Slots [ABI_Stack lo _ _, ABI_Stack hi _ _] _) =
     (if hi = lo + 4 then Some (Loc_Stack (nat lo) 8 8) else None)"
| "arg_location _ = None"

definition plain_param :: "abi_param \<Rightarrow> bool" where
  "plain_param p \<longleftrightarrow> (case param_purpose p of Purpose_StructArgument _ \<Rightarrow> False
     | Purpose_SystemVVariadicCount \<Rightarrow> False | _ \<Rightarrow> True)"

lemma rc_for_kind:
  assumes "value_kind_of ty = Some k"
  shows "rc_for_type ty = (if k = Kind_I64 then Inr ([Int_class, Int_class], [ty_I32, ty_I32])
    else Inr ([Int_class], [ty_I32]))"
  using assms
  by (auto simp: value_kind_of_def rc_for_type_def split: if_splits) (simp_all add: is_int_def ty_bits_def type_shape_defs)

lemma preg_real_enc: "n < 16 \<Longrightarrow> unat (hw_enc (preg_real n)) = n"
  by (simp add: preg_real_def unat_of_nat)

text \<open>Once placement is on the stack, the register cursor no longer matters.\<close>

definition cursor_rel :: "cursor \<Rightarrow> cursor \<Rightarrow> bool" where
  "cursor_rel c d \<longleftrightarrow> stack_only c = stack_only d \<and> next_stack c = next_stack d \<and>
     (\<not> stack_only c \<longrightarrow> next_reg c = next_reg d)"

lemma arg_step_refines:
  assumes "plain_param p" "value_kind_of (value_type p) = Some k" "cursor_rel c d"
    and "place_step k d = (l, d')"
  shows "\<exists>a c'. arg_step m Aor_Args p c = Inr (a, c') \<and> arg_location a = Some l \<and> cursor_rel c' d'"
  using assms
  by (cases k; cases "stack_only c")
     (auto simp: arg_step_def plain_param_def rc_for_kind cursor_rel_def place_step_def reg_location_def
       ARG_LAST_def reg_slots_def stack_slots_def stack_align_def preg_real_enc Let_def
       split: argument_purpose.splits if_splits)

lemma place_loop_length: "place_loop ks c = (ls, c') \<Longrightarrow> length ls = length ks"
  by (induction ks arbitrary: c ls) (auto split: prod.splits)

lemma arg_loop_refines:
  assumes "list_all plain_param ps" "map (value_kind_of o value_type) ps = map Some ks"
    and "cursor_rel c d" "place_loop ks d = (ls, d')"
  shows "\<exists>as c'. arg_loop m Aor_Args ps c = Inr (as, c') \<and> map arg_location as = map Some ls \<and> cursor_rel c' d'"
  using assms
proof (induction ps arbitrary: ks c d ls)
  case (Cons p ps)
  then obtain k ks' where k: "ks = k # ks'" "value_kind_of (value_type p) = Some k" by (cases ks) auto
  obtain l d1 ls' where s: "place_step k d = (l, d1)" "place_loop ks' d1 = (ls', d')" "ls = l # ls'"
    using Cons.prems(4) k(1) by (auto split: prod.splits)
  obtain a c1 where
    "arg_step m Aor_Args p c = Inr (a, c1)" "arg_location a = Some l" "cursor_rel c1 d1"
    using arg_step_refines [OF _ k(2) Cons.prems(3) s(1), of m] Cons.prems(1) by auto
  moreover from this Cons.IH [of ks' c1 d1 ls'] Cons.prems(1,2) k s obtain as c' where
    "arg_loop m Aor_Args ps c1 = Inr (as, c')" "map arg_location as = map Some ls'" "cursor_rel c' d'" by auto
  ultimately show ?case by (simp add: s(3))
qed simp

text \<open>
  C27: argument placement implements the frozen contract. For parameters of the supported integer
  types and ordinary purposes, with or without a hidden return-area pointer, the locations
  computed for arguments are exactly those of the placement oracle, in order, after the arguments
  already accumulated; the stack space is the oracle's; and the hidden pointer is the register
  argument r1 whose position is reported.
\<close>

theorem compute_arg_locs_refines_contract:
  assumes "list_all plain_param ps" "map (value_kind_of o value_type) ps = map Some ks"
  shows "\<exists>as. compute_arg_locs CC_SystemV multi_ret ps Aor_Args hidden acc =
      Inr (placement_size (place_args ks hidden), if hidden then Some (length ps) else None,
        acc @ as @ (if hidden then [abi_arg_reg (preg_real 1) ty_I32 Ext_None Purpose_Normal] else [])) \<and>
    map arg_location as = map Some (placed (place_args ks hidden))"
proof -
  let ?c = "\<lparr>next_reg = (if hidden then 2 else 1), stack_only = False, next_stack = 0\<rparr>"
  obtain ls d' where pl: "place_loop ks ?c = (ls, d')" by (cases "place_loop ks ?c") simp
  have "cursor_rel ?c ?c" by (simp add: cursor_rel_def)
  from arg_loop_refines [OF assms this pl] obtain as c' where
    al: "arg_loop multi_ret Aor_Args ps ?c = Inr (as, c')" "map arg_location as = map Some ls" "cursor_rel c' d'"
    by blast
  have nv: "\<not> (\<exists>p \<in> set ps. param_purpose p = Purpose_SystemVVariadicCount)"
    using assms(1) by (auto simp: list_all_iff plain_param_def)
  have len: "length as = length ps"
    using arg_cong [OF al(2), of length] place_loop_length [OF pl] arg_cong [OF assms(2), of length] by simp
  have pa: "place_args ks hidden = \<lparr>placed = ls, placement_size = align_to (next_stack c') 8\<rparr>"
    using pl al(3) by (cases hidden) (simp_all add: place_args_def ARG_FIRST_def STACK_ALIGN_def cursor_rel_def)
  show ?thesis
    using al nv len by (intro exI [of _ as]) (simp add: compute_arg_locs_def ensure_call_conv_def pa Let_def)
qed

theorem compute_arg_locs_refines_contract_witness:
  "\<exists>as. compute_arg_locs CC_SystemV False
      [\<lparr>value_type = ty_I8, param_purpose = Purpose_Normal, param_extension = Ext_Sext\<rparr>,
       \<lparr>value_type = ty_I64, param_purpose = Purpose_Normal, param_extension = Ext_None\<rparr>] Aor_Args True [] =
      Inr (0, Some 2, as @ [abi_arg_reg (preg_real 1) ty_I32 Ext_None Purpose_Normal]) \<and>
    map arg_location as = [Some (Loc_Reg 2), Some (Loc_RegPair 3 4)]"
proof -
  have pa: "place_args [Kind_I8, Kind_I64] True = \<lparr>placed = [Loc_Reg 2, Loc_RegPair 3 4], placement_size = 0\<rparr>"
    by code_simp
  have "length [a, b] = (2 :: nat)" for a b :: abi_param by simp
  then show ?thesis
    using compute_arg_locs_refines_contract [of
      "[\<lparr>value_type = ty_I8, param_purpose = Purpose_Normal, param_extension = Ext_Sext\<rparr>,
        \<lparr>value_type = ty_I64, param_purpose = Purpose_Normal, param_extension = Ext_None\<rparr>]"
      "[Kind_I8, Kind_I64]" False True "[]"]
    unfolding pa by (simp add: plain_param_def value_kind_of_def ty_defs flip: numeral_2_eq_2)
qed

lemma ret_step:
  assumes "plain_param p" "value_kind_of (value_type p) = Some k" "\<not> stack_only c" "1 \<le> next_reg c"
  shows "arg_step False Aor_Rets p c =
    (if k \<noteq> Kind_I64 \<and> next_reg c \<le> 2
     then Inr (Arg_Slots (reg_slots p [ty_I32] (next_reg c)) (param_purpose p), c\<lparr>next_reg := next_reg c + 1\<rparr>)
     else if k = Kind_I64 \<and> next_reg c = 1
     then Inr (Arg_Slots (reg_slots p [ty_I32, ty_I32] 1) (param_purpose p), c\<lparr>next_reg := 3\<rparr>)
     else Inl (Unsupported ''SIA32 return values exceed r1:r2; enable implicit sret or use StructReturn''))"
  using assms
  by (cases "k = Kind_I64")
     (auto simp: arg_step_def plain_param_def rc_for_kind Let_def split: argument_purpose.splits)

lemma reg_slots_location:
  "nr < 16 \<Longrightarrow> arg_location (Arg_Slots (reg_slots p [ty] nr) u) = Some (Loc_Reg nr)"
  "nr < 15 \<Longrightarrow> arg_location (Arg_Slots (reg_slots p [ty, ty'] nr) u) = Some (Loc_RegPair nr (nr + 1))"
  by (simp_all add: reg_slots_def preg_real_enc)

text \<open>Return-value placement implements the frozen contract. Without implicit return areas, for
  return values of the supported integer types, the computed locations are the oracle's and use no
  stack when the oracle accepts the values, and the computation fails with an unsupported-feature
  error, rather than placing a value anywhere, exactly when the oracle rejects them.
\<close>

theorem compute_ret_locs_refines_contract:
  assumes "list_all plain_param ps" "map (value_kind_of o value_type) ps = map Some ks"
  shows "case place_rets ks of
      Some pl \<Rightarrow> \<exists>as. compute_arg_locs CC_SystemV False ps Aor_Rets False acc =
          Inr (placement_size pl, None, acc @ as) \<and> map arg_location as = map Some (placed pl)
    | None \<Rightarrow> \<exists>e. compute_arg_locs CC_SystemV False ps Aor_Rets False acc = Inl (Unsupported e)"
proof -
  have nv: "\<not> (\<exists>p \<in> set ps. param_purpose p = Purpose_SystemVVariadicCount)"
    using assms(1) by (auto simp: list_all_iff plain_param_def)
  have loc: "compute_arg_locs CC_SystemV False ps Aor_Rets False acc =
      (case arg_loop False Aor_Rets ps \<lparr>next_reg = 1, stack_only = False, next_stack = 0\<rparr> of
         Inl e \<Rightarrow> Inl e | Inr (as, c) \<Rightarrow> Inr (align_to (next_stack c) 8, None, acc @ as))"
    using nv by (simp add: compute_arg_locs_def ensure_call_conv_def Let_def split: sum.splits prod.splits)
  consider "ps = []" | p where "ps = [p]" | p q where "ps = [p, q]" | p q r rs where "ps = p # q # r # rs"
    by (metis neq_Nil_conv)
  then show ?thesis
  proof cases
    case 1
    then show ?thesis using assms loc by (simp add: align_to_def)
  next
    case (2 p)
    then obtain k where "ks = [k]" "value_kind_of (value_type p) = Some k" using assms(2) by auto
    then show ?thesis using assms(1) 2 loc
      by (auto simp: ret_step reg_slots_location align_to_def)
  next
    case (3 p q)
    then obtain k k' where "ks = [k, k']" "value_kind_of (value_type p) = Some k"
      "value_kind_of (value_type q) = Some k'" using assms(2) by auto
    then show ?thesis using assms(1) 3 loc
      by (auto simp: ret_step reg_slots_location align_to_def)
  next
    case (4 p q r rs)
    then obtain k k' k'' ks' where "ks = k # k' # k'' # ks'" "value_kind_of (value_type p) = Some k"
      "value_kind_of (value_type q) = Some k'" "value_kind_of (value_type r) = Some k''"
      using assms(2) by (auto simp: map_eq_Cons_conv Cons_eq_map_conv)
    then show ?thesis using assms(1) 4 loc by (auto simp: ret_step)
  qed
qed

theorem compute_ret_locs_refines_contract_witness:
  "\<exists>as. compute_arg_locs CC_SystemV False
      [\<lparr>value_type = ty_I64, param_purpose = Purpose_Normal, param_extension = Ext_None\<rparr>] Aor_Rets False [] =
      Inr (0, None, as) \<and> map arg_location as = [Some (Loc_RegPair 1 2)]"
  using compute_ret_locs_refines_contract [of
      "[\<lparr>value_type = ty_I64, param_purpose = Purpose_Normal, param_extension = Ext_None\<rparr>]" "[Kind_I64]" "[]"]
  by (simp add: plain_param_def value_kind_of_def ty_defs)

end
