(* ===== verification/Sia32_Frame.thy ===== *)
theory Sia32_Frame
  imports Sia32_Abi Sia32_Fixup_Correct Sia32_Emit_Correct
begin

text \<open>
  Frames of theory \<open>Sia32_Abi\<close> against the processor laws: running the code emitted for
  \<open>gen_clobber_save\<close>, then any body that leaves the frame pointer and the save area alone, then
  the code emitted for \<open>gen_clobber_restore\<close> gives the caller its stack pointer, frame pointer,
  link register and callee-saved registers back. \<open>step_sem\<close> is the meaning of the four
  instructions that prologues and epilogues consist of; \<open>agree\<close> compares machine states up to the
  program counter and the scratch register.
\<close>

section \<open>Instruction sequences\<close>

fun emit_seq :: "inst list \<Rightarrow> emit_state \<Rightarrow> mach_buffer \<Rightarrow> (mach_buffer \<times> emit_state) option" where
  "emit_seq [] st b = Some (b, st)"
| "emit_seq (i # is) st b = emit i st b \<bind> (\<lambda>(b', st'). emit_seq is st' b')"

definition step_sem :: "inst \<Rightarrow> cpu \<Rightarrow> cpu option" where
  "step_sem i s =
     (case i of
        SpAdjust amount \<Rightarrow> Some (set_gpr reg_SP (get_gpr s reg_SP + amount) s)
      | Mov dst src \<Rightarrow> do { d \<leftarrow> arch_reg dst; r \<leftarrow> arch_reg src; Some (set_gpr d (get_gpr s r) s) }
      | StoreBaseOffset src base off ty \<Rightarrow> do {
          r \<leftarrow> arch_reg src;
          b \<leftarrow> arch_reg base;
          op \<leftarrow> store_op_of ty;
          assert_that (store_aligned op (get_gpr s b + off));
          Some (store_sem op (get_gpr s b + off) (get_gpr s r) s)
        }
      | LoadBaseOffset dst base off ty \<Rightarrow> do {
          d \<leftarrow> arch_reg dst;
          b \<leftarrow> arch_reg base;
          op \<leftarrow> load_op_of ty;
          assert_that (load_aligned op (get_gpr s b + off));
          Some (set_gpr d (load_sem op s (get_gpr s b + off)) s)
        }
      | _ \<Rightarrow> None)"

fun steps_sem :: "inst list \<Rightarrow> cpu \<Rightarrow> cpu option" where
  "steps_sem [] s = Some s"
| "steps_sem (i # is) s = step_sem i s \<bind> steps_sem is"

lemma steps_sem_append: "steps_sem (is @ js) s = steps_sem is s \<bind> steps_sem js"
  by (induction "is" arbitrary: s) (auto split: bind_splits)

text \<open>Instructions whose registers are fixed, not the scratch register, and not r0 as a target.\<close>

definition frame_inst :: "inst \<Rightarrow> bool" where
  "frame_inst i =
     (case i of
        SpAdjust _ \<Rightarrow> True
      | Mov dst src \<Rightarrow> (\<exists>d r. dst = areg d \<and> src = areg r \<and> dest_ok d \<and> r \<noteq> reg_SCRATCH)
      | StoreBaseOffset src base off ty \<Rightarrow>
          (\<exists>r b op. src = areg r \<and> base = areg b \<and> operand_ok r \<and> operand_ok b \<and> store_op_of ty = Some op)
      | LoadBaseOffset dst base off ty \<Rightarrow>
          (\<exists>d b op. dst = areg d \<and> base = areg b \<and> dest_ok d \<and> operand_ok b \<and> load_op_of ty = Some op)
      | _ \<Rightarrow> False)"

definition agree :: "cpu \<Rightarrow> cpu \<Rightarrow> bool" where
  "agree s t \<longleftrightarrow> mem s = mem t \<and> (\<forall>r. r \<noteq> reg_SCRATCH \<longrightarrow> get_gpr s r = get_gpr t r)"

lemma agree_refl [simp]: "agree s s"
  by (simp add: agree_def)

context sia_isa
begin

lemma frame_inst_sound:
  assumes "frame_inst i"
  shows "\<exists>ws. (\<forall>st b. emit i st b = Some (put_words ws b, st)) \<and>
    (\<forall>s t t'. agree s t \<and> step_sem i t = Some t' \<longrightarrow> agree (run exec ws s) t')"
proof -
  consider (sp) a where "i = SpAdjust a"
    | (mov) d r where "i = Mov (areg d) (areg r)" "dest_ok d" "r \<noteq> reg_SCRATCH"
    | (store) r b off ty op where "i = StoreBaseOffset (areg r) (areg b) off ty" "operand_ok r" "operand_ok b"
        "store_op_of ty = Some op"
    | (load) d b off ty op where "i = LoadBaseOffset (areg d) (areg b) off ty" "dest_ok d" "operand_ok b"
        "load_op_of ty = Some op"
    using assms by (cases i) (auto simp: frame_inst_def)
  then show ?thesis
  proof cases
    case (sp a)
    have ok: "add_imm_ok reg_SP reg_SP a" "reg_SP \<noteq> reg_ZERO" "reg_SP \<noteq> reg_SCRATCH"
      by (simp_all add: add_imm_ok_def reg_consts)
    note w = writesD [OF writes_add_imm [OF ok(2,1)]]
    show ?thesis
      using ok w order_trans [OF add_imm_words_length [of reg_SP reg_SP a], of 12]
      by (intro exI [of _ "add_imm_words reg_SP reg_SP a"])
        (auto simp: sp emit_arms emit_add_imm32_eq step_sem_def agree_def intro!: emit_words)
  next
    case (mov d r)
    then have "d \<noteq> reg_ZERO" "d \<noteq> reg_SCRATCH" by (simp_all add: dest_ok_def)
    then show ?thesis
      using mov by (intro exI [of _ "[encode_mov d r]"])
        (auto simp: emit_arms step_sem_def agree_def exec_mov intro!: emit_words)
  next
    case (store r b off ty op)
    then have ok: "\<not> (off \<noteq> 0 \<and> (r = reg_SCRATCH \<or> b = reg_SCRATCH))" "r \<noteq> reg_SCRATCH" "b \<noteq> reg_SCRATCH"
      by (simp_all add: operand_ok_def)
    have eq: "emit i st bu = Some (put_words (store_words op r b off) bu, st)" for st bu
      using store ok(2,3) memory_words_length(2)
      by (intro emit_words) (simp_all add: emit_arms emit_store_base_offset_eq)
    have "agree (run exec (store_words op r b off) s) t'" if "agree s t" "step_sem i t = Some t'" for s t t'
    proof -
      have t': "t' = store_sem op (get_gpr t b + off) (get_gpr t r) t" "store_aligned op (get_gpr s b + off)"
        using that ok(2,3) by (auto simp: step_sem_def store(1,4) bind_eq_Some_conv assert_that_def agree_def
            split: if_splits)
      have "mem (store_sem op (get_gpr s b + off) (get_gpr s r) s) = mem t'"
        using that(1) ok(2,3) store_sem_mem [of s t op] by (simp add: agree_def t'(1))
      then show ?thesis
        using stores_words [OF ok(1), of op] t'(2) that(1) unfolding stores_def agree_def by (simp add: t'(1))
    qed
    then show ?thesis using eq by blast
  next
    case (load d b off ty op)
    then have ok: "d \<noteq> reg_ZERO" "d \<noteq> reg_SCRATCH" "b \<noteq> reg_SCRATCH"
      by (simp_all add: operand_ok_def dest_ok_def)
    have eq: "emit i st bu = Some (put_words (load_words op d b off) bu, st)" for st bu
      using load ok memory_words_length(1)
      by (intro emit_words) (simp_all add: emit_arms emit_load_base_offset_eq)
    have ok': "\<not> (off \<noteq> 0 \<and> d = b \<and> b = reg_SCRATCH)" using ok by simp
    have "agree (run exec (load_words op d b off) s) t'" if "agree s t" "step_sem i t = Some t'" for s t t'
    proof -
      have t': "t' = set_gpr d (load_sem op t (get_gpr t b + off)) t" "load_aligned op (get_gpr s b + off)"
        using that ok(3) by (auto simp: step_sem_def load(1,4) bind_eq_Some_conv assert_that_def agree_def
            split: if_splits)
      have "load_sem op s (get_gpr s b + off) = load_sem op t (get_gpr t b + off)"
        using that(1) ok(3) load_sem_mem [of s t op] by (simp add: agree_def)
      then show ?thesis
        using loads_words [OF ok(1) ok', of op] t'(2) that(1) ok(1) unfolding loads_def t'(1) agree_def by simp
    qed
    then show ?thesis using eq by blast
  qed
qed

lemma frame_seq_sound:
  assumes "list_all frame_inst is"
  shows "\<exists>ws. (\<forall>st b. emit_seq is st b = Some (put_words ws b, st)) \<and>
    (\<forall>s t t'. agree s t \<and> steps_sem is t = Some t' \<longrightarrow> agree (run exec ws s) t')"
  using assms
proof (induction "is")
  case Nil
  then show ?case by (intro exI [of _ "[]"]) simp
next
  case (Cons i "is")
  then obtain ws vs where
    w: "\<forall>st b. emit i st b = Some (put_words ws b, st)"
       "\<forall>s t t'. agree s t \<and> step_sem i t = Some t' \<longrightarrow> agree (run exec ws s) t'"
    and v: "\<forall>st b. emit_seq is st b = Some (put_words vs b, st)"
       "\<forall>s t t'. agree s t \<and> steps_sem is t = Some t' \<longrightarrow> agree (run exec vs s) t'"
    using frame_inst_sound [of i] by auto
  have "agree (run exec (ws @ vs) s) t'" if "agree s t" "steps_sem (i # is) t = Some t'" for s t t'
    using that w(2) v(2) by (auto simp: bind_eq_Some_conv) blast
  then show ?case
    using w(1) v(1) by (intro exI [of _ "ws @ vs"]) auto
qed

end

section \<open>Words at consecutive offsets\<close>

lemma word_addrs_iff: "x \<in> word_addrs a \<longleftrightarrow> (\<exists>i < 4. x = a + word_of_nat i)"
proof -
  have "{..<4 :: nat} = {0, 1, 2, 3}" by auto
  then have "(\<exists>i < 4. x = a + word_of_nat i) \<longleftrightarrow> (\<exists>i \<in> {0, 1, 2, 3 :: nat}. x = a + word_of_nat i)"
    by (metis lessThan_iff)
  then show ?thesis by (simp add: word_addrs_def)
qed

lemma word_of_nat_inject32:
  assumes "m < 2 ^ 32" "n < 2 ^ 32" "(word_of_nat m :: u32) = word_of_nat n" shows "m = n"
proof -
  have "unat (word_of_nat m :: u32) = unat (word_of_nat n :: u32)" using assms(3) by simp
  then show ?thesis using assms(1,2) unfolding unat_of_nat by simp
qed

lemma word_addrs_disjoint:
  assumes "x + 4 \<le> y \<or> y + 4 \<le> x" "x + 4 \<le> 2 ^ 32" "y + 4 \<le> 2 ^ 32"
  shows "word_addrs (p + word_of_nat x) \<inter> word_addrs (p + word_of_nat y) = {}"
proof -
  have False if "i < 4" "j < 4" and e: "p + word_of_nat x + word_of_nat i = p + word_of_nat y + word_of_nat j" for i j
  proof -
    have "word_of_nat (x + i) = (word_of_nat (y + j) :: u32)" using e by (simp add: add.assoc)
    then have "x + i = y + j" using assms that by (intro word_of_nat_inject32) auto
    then show False using assms(1) that by auto
  qed
  then show ?thesis by (fastforce simp: word_addrs_iff)
qed

lemma aligned4_offset: "aligned4 p \<Longrightarrow> n mod 4 = 0 \<Longrightarrow> aligned4 (p + word_of_nat n)"
  using take_bit_2_offset [of p n] by (simp add: aligned4_def take_bit_eq_mask mask_eq_exp_minus_1)

lemma store_sem_word: "store_op_of ty_I32 = Some Store_I32" "load_op_of ty_I32 = Some Load_I32"
  by (simp_all add: store_op_of_def load_op_of_def ty_defs)

lemma arch_reg_stack [simp]: "arch_reg stack_reg = Some reg_SP" "arch_reg frame_reg = Some reg_FP"
    "arch_reg link_reg = Some reg_LR"
  by (simp_all add: stack_reg_def frame_reg_def link_reg_def)

lemma step_store:
  "aligned4 (get_gpr s reg_SP + off) \<Longrightarrow>
     step_sem (StoreBaseOffset (areg r) stack_reg off ty_I32) s =
       Some (store32 (get_gpr s reg_SP + off) (get_gpr s r) s)"
  by (simp add: step_sem_def store_sem_word)

lemma step_load:
  "aligned4 (get_gpr s reg_SP + off) \<Longrightarrow>
     step_sem (LoadBaseOffset (areg r) stack_reg off ty_I32) s =
       Some (set_gpr r (load32 s (get_gpr s reg_SP + off)) s)"
  by (simp add: step_sem_def store_sem_word)

lemma store32_outside: "a \<notin> word_addrs x \<Longrightarrow> mem (store32 x v s) a = mem s a"
  by (simp add: store32_def word_addrs_def)

text \<open>Saving registers word by word, the stores of \<open>gen_clobber_save\<close>.\<close>

definition save_insts :: "nat \<Rightarrow> nat \<Rightarrow> reg list \<Rightarrow> inst list" where
  "save_insts base k rs =
     map (\<lambda>(i, r). StoreBaseOffset (areg r) stack_reg (word_of_nat base + word_of_nat i * 4) ty_I32) (enumerate k rs)"

definition restore_insts :: "nat \<Rightarrow> nat \<Rightarrow> reg list \<Rightarrow> inst list" where
  "restore_insts base k rs =
     map (\<lambda>(i, r). LoadBaseOffset (areg r) stack_reg (word_of_nat base + word_of_nat i * 4) ty_I32) (enumerate k rs)"

abbreviation slot_addr :: "cpu \<Rightarrow> nat \<Rightarrow> nat \<Rightarrow> u32" where
  "slot_addr s base i \<equiv> get_gpr s reg_SP + word_of_nat (base + 4 * i)"

lemma slot_addr_word: "get_gpr s reg_SP + (word_of_nat base + word_of_nat i * 4) = slot_addr s base i"
  by (simp add: mult.commute)

lemma save_insts_run:
  assumes "aligned4 (get_gpr s reg_SP)" "base mod 4 = 0" "base + 4 * (k + length rs) \<le> 2 ^ 32"
  shows "\<exists>s'. steps_sem (save_insts base k rs) s = Some s' \<and> (\<forall>r. get_gpr s' r = get_gpr s r) \<and>
    (\<forall>j < length rs. load32 s' (slot_addr s base (k + j)) = get_gpr s (rs ! j)) \<and>
    (\<forall>a. (\<forall>j < length rs. a \<notin> word_addrs (slot_addr s base (k + j))) \<longrightarrow> mem s' a = mem s a)"
  using assms
proof (induction rs arbitrary: k s)
  case (Cons r rs)
  let ?a = "slot_addr s base k"
  let ?s1 = "store32 ?a (get_gpr s r) s"
  have al: "aligned4 ?a" using Cons.prems by (intro aligned4_offset) (auto simp: mod_add_eq)
  have st: "step_sem (StoreBaseOffset (areg r) stack_reg (word_of_nat base + word_of_nat k * 4) ty_I32) s = Some ?s1"
    using step_store [of s "word_of_nat base + word_of_nat k * 4" r] al unfolding slot_addr_word by simp
  have IH: "\<exists>s'. steps_sem (save_insts base (Suc k) rs) ?s1 = Some s' \<and> (\<forall>q. get_gpr s' q = get_gpr ?s1 q) \<and>
    (\<forall>j < length rs. load32 s' (slot_addr ?s1 base (Suc k + j)) = get_gpr ?s1 (rs ! j)) \<and>
    (\<forall>a. (\<forall>j < length rs. a \<notin> word_addrs (slot_addr ?s1 base (Suc k + j))) \<longrightarrow> mem s' a = mem ?s1 a)"
    using Cons.prems by (intro Cons.IH) simp_all
  then obtain s' where s': "steps_sem (save_insts base (Suc k) rs) ?s1 = Some s'"
    "\<forall>q. get_gpr s' q = get_gpr s q"
    "\<forall>j < length rs. load32 s' (slot_addr s base (Suc k + j)) = get_gpr s (rs ! j)"
    "\<forall>a. (\<forall>j < length rs. a \<notin> word_addrs (slot_addr s base (Suc k + j))) \<longrightarrow> mem s' a = mem ?s1 a"
    by auto
  have disj: "word_addrs ?a \<inter> word_addrs (slot_addr s base (Suc k + j)) = {}" if "j < length rs" for j
    using Cons.prems(3) that by (intro word_addrs_disjoint) auto
  have "mem s' x = mem ?s1 x" if "x \<in> word_addrs ?a" for x using s'(4) that disj by blast
  then have "load32 s' ?a = load32 ?s1 ?a" unfolding load32_def by (simp add: word_addrs_def)
  then have hd: "load32 s' ?a = get_gpr s r" by (simp add: load32_store32_same)
  have "steps_sem (save_insts base k (r # rs)) s = Some s'"
    using st s'(1) by (simp add: save_insts_def)
  moreover have "load32 s' (slot_addr s base (k + j)) = get_gpr s ((r # rs) ! j)" if "j < length (r # rs)" for j
    using that hd s'(3) by (cases j) auto
  moreover have "mem s' a = mem s a" if "\<forall>j < length (r # rs). a \<notin> word_addrs (slot_addr s base (k + j))" for a
  proof -
    have "a \<notin> word_addrs ?a" using that by force
    moreover have "\<forall>j < length rs. a \<notin> word_addrs (slot_addr s base (Suc k + j))"
      using that by (metis Suc_less_eq add_Suc_shift length_Cons)
    ultimately show ?thesis using s'(4) store32_outside by metis
  qed
  ultimately show ?case using s'(2) by blast
qed (simp add: save_insts_def)

lemma restore_insts_run:
  assumes "aligned4 (get_gpr t reg_SP)" "base mod 4 = 0"
    and "distinct rs" "reg_ZERO \<notin> set rs" "reg_SP \<notin> set rs"
  shows "\<exists>t'. steps_sem (restore_insts base k rs) t = Some t' \<and> mem t' = mem t \<and>
    (\<forall>j < length rs. get_gpr t' (rs ! j) = load32 t (slot_addr t base (k + j))) \<and>
    (\<forall>r. r \<notin> set rs \<longrightarrow> get_gpr t' r = get_gpr t r)"
  using assms
proof (induction rs arbitrary: k t)
  case (Cons r rs)
  let ?a = "slot_addr t base k"
  let ?t1 = "set_gpr r (load32 t ?a) t"
  have al: "aligned4 ?a" using Cons.prems by (intro aligned4_offset) (auto simp: mod_add_eq)
  have st: "step_sem (LoadBaseOffset (areg r) stack_reg (word_of_nat base + word_of_nat k * 4) ty_I32) t = Some ?t1"
    using step_load [of t "word_of_nat base + word_of_nat k * 4" r] al unfolding slot_addr_word by simp
  have sp: "get_gpr ?t1 reg_SP = get_gpr t reg_SP" using Cons.prems by auto
  have "\<exists>t'. steps_sem (restore_insts base (Suc k) rs) ?t1 = Some t' \<and> mem t' = mem ?t1 \<and>
    (\<forall>j < length rs. get_gpr t' (rs ! j) = load32 ?t1 (slot_addr ?t1 base (Suc k + j))) \<and>
    (\<forall>q. q \<notin> set rs \<longrightarrow> get_gpr t' q = get_gpr ?t1 q)"
    using Cons.prems sp by (intro Cons.IH) simp_all
  then obtain t' where t': "steps_sem (restore_insts base (Suc k) rs) ?t1 = Some t'" "mem t' = mem t"
    "\<forall>j < length rs. get_gpr t' (rs ! j) = load32 t (slot_addr t base (Suc k + j))"
    "\<forall>q. q \<notin> set rs \<longrightarrow> get_gpr t' q = get_gpr ?t1 q"
    using load32_cong [of ?t1 t] unfolding sp by auto
  have "get_gpr t' ((r # rs) ! j) = load32 t (slot_addr t base (k + j))" if "j < length (r # rs)" for j
    using that t'(3,4) Cons.prems(3,4) by (cases j) auto
  moreover have "get_gpr t' q = get_gpr t q" if "q \<notin> set (r # rs)" for q using that t'(4) by simp
  moreover have "steps_sem (restore_insts base k (r # rs)) t = Some t'"
    using st t'(1) by (simp add: restore_insts_def)
  ultimately show ?case using t'(2) by blast
qed (simp add: restore_insts_def)

section \<open>The registers a frame saves\<close>

lemma dedup_by_enc_hd: "ps \<noteq> [] \<Longrightarrow> dedup_by_enc ps \<noteq> [] \<and> hd (dedup_by_enc ps) = hd ps"
  by (induction ps rule: dedup_by_enc.induct) auto

lemma dedup_by_enc_props:
  assumes "sorted (map hw_enc ps)"
  shows "distinct (map hw_enc (dedup_by_enc ps)) \<and> hw_enc ` set (dedup_by_enc ps) = hw_enc ` set ps \<and>
    set (dedup_by_enc ps) \<subseteq> set ps"
  using assms
proof (induction ps rule: dedup_by_enc.induct)
  case (1 p q ps)
  show ?case
  proof (cases "hw_enc p = hw_enc q")
    case True
    then show ?thesis using 1 by auto
  next
    case False
    with 1 have IH: "distinct (map hw_enc (dedup_by_enc (q # ps)))"
      "hw_enc ` set (dedup_by_enc (q # ps)) = hw_enc ` set (q # ps)" "set (dedup_by_enc (q # ps)) \<subseteq> set (q # ps)"
      by auto
    have "hw_enc p < hw_enc x" if "x \<in> set (q # ps)" for x
      using "1.prems" False that by (auto simp: order_less_le intro: order_trans)
    then have "hw_enc p \<notin> hw_enc ` set (dedup_by_enc (q # ps))" unfolding IH(2) by fastforce
    then show ?thesis using False IH by auto
  qed
qed auto

lemma int_preg_of_enc:
  assumes "callee_save_enc p" "preg_class p = Int_class"
  shows "int_preg (ucast (hw_enc p)) = p" "ucast (hw_enc p) \<in> {9, 10, 11, 15 :: reg}"
proof -
  have "hw_enc p \<in> {9, 10, 11, 15}" (is "?e \<in> _")
  proof -
    have "unat ?e = 9 \<or> unat ?e = 10 \<or> unat ?e = 11 \<or> unat ?e = 15"
      using assms(1) by (auto simp: callee_save_enc_def word_le_nat_alt)
    then show ?thesis by (auto simp: word_unat_eq_iff)
  qed
  then show "ucast (hw_enc p) \<in> {9, 10, 11, 15 :: reg}" by auto
  have "reg_index (ucast (hw_enc p)) = hw_enc p"
    using \<open>hw_enc p \<in> {9, 10, 11, 15}\<close> by (auto simp: reg_index_def)
  then show "int_preg (ucast (hw_enc p)) = p" using assms(2) by (simp add: int_preg_def)
qed

lemma clobbered_saves_regs:
  assumes "\<forall>p \<in> set regs_written. preg_class p = Int_class"
    and saves_def: "saves = clobbered_saves regs_written calls slots fixed outgoing"
  shows "\<exists>rs. saves = map int_preg rs \<and> distinct rs \<and> set rs \<subseteq> {9, 10, 11, 15} \<and>
    (\<forall>r \<in> {9, 10, 11, 15}. int_preg r \<in> set regs_written \<longrightarrow> r \<in> set rs) \<and>
    (calls = Calls_Regular \<or> slots \<noteq> 0 \<or> fixed \<noteq> 0 \<or> outgoing \<noteq> 0 \<or> rs \<noteq> [] \<longrightarrow> 15 \<in> set rs)"
proof -
  define need where "need \<longleftrightarrow> calls = Calls_Regular \<or> slots \<noteq> 0 \<or> fixed \<noteq> 0 \<or> outgoing \<noteq> 0 \<or>
    filter callee_save_enc regs_written \<noteq> []"
  define raw where "raw = filter callee_save_enc regs_written @ (if need then [int_preg reg_FP] else [])"
  have s: "saves = dedup_by_enc (sort_key hw_enc raw)"
    by (simp add: saves_def clobbered_saves_def Let_def raw_def need_def)
  have fp: "callee_save_enc (int_preg reg_FP)" by (simp add: callee_save_enc_def reg_index_def reg_FP_def)
  have raw: "callee_save_enc p \<and> preg_class p = Int_class" if "p \<in> set raw" for p
    using that assms(1) fp by (auto simp: raw_def split: if_splits)
  note d = dedup_by_enc_props [of "sort_key hw_enc raw", folded s, simplified]
  let ?rs = "map (\<lambda>p. ucast (hw_enc p) :: reg) saves"
  have unenc: "int_preg (ucast (hw_enc p)) = p" if "p \<in> set raw" for p using int_preg_of_enc(1) raw [OF that] by blast
  have "map (int_preg o (\<lambda>p. ucast (hw_enc p))) saves = saves"
    using d unenc by (intro map_idI) auto
  then have mp: "saves = map int_preg ?rs" by simp
  have "distinct saves" using d by (simp add: distinct_map)
  then have "distinct ?rs" using mp by (metis distinct_map)
  moreover have "set ?rs \<subseteq> {9, 10, 11, 15}"
  proof
    fix r assume "r \<in> set ?rs"
    then obtain p where "p \<in> set raw" "r = ucast (hw_enc p)" using d by auto
    then show "r \<in> {9, 10, 11, 15}" using int_preg_of_enc(2) raw by blast
  qed
  moreover have mem: "r \<in> set ?rs" if "int_preg r \<in> set raw" for r
  proof -
    have "reg_index r \<in> hw_enc ` set saves" using d that by (metis image_eqI int_preg_sel(1))
    then obtain p where "p \<in> set saves" "reg_index r = hw_enc p" by auto
    then show ?thesis by (metis (no_types, lifting) image_eqI list.set_map ucast_reg_index)
  qed
  moreover have "r \<in> set ?rs" if "r \<in> {9, 10, 11, 15}" "int_preg r \<in> set regs_written" for r
  proof -
    have "callee_save_enc (int_preg r)" using that(1) by (auto simp: callee_save_enc_def reg_index_def)
    then show ?thesis using that(2) by (intro mem) (simp add: raw_def)
  qed
  moreover have "need" if "?rs \<noteq> []"
  proof (rule ccontr)
    assume "\<not> need"
    then have "raw = []" by (auto simp: raw_def need_def)
    then show False using that by (simp add: s)
  qed
  moreover have "15 \<in> set ?rs" if need
    using that mem [of 15] by (simp add: raw_def reg_FP_def)
  ultimately show ?thesis
    using mp by (intro exI [of _ ?rs]) (auto simp: need_def)
qed

section \<open>Prologue and epilogue\<close>

lemma aligned4_sub_offset:
  assumes "aligned4 p" "n mod 4 = 0" shows "aligned4 (p - word_of_nat n)"
proof -
  have "(word_of_nat 4294967295 :: u32) = -1" by simp
  then have e: "p - word_of_nat n = p + word_of_nat (n * 4294967295)" by (simp only: of_nat_mult) simp
  have "n * 4294967295 mod 4 = 0" using assms(2) by (metis mod_mult_left_eq mult_0 mod_0)
  then show ?thesis unfolding e by (rule aligned4_offset [OF assms(1)])
qed

text \<open>What the prologue and the epilogue rely on of a frame layout.\<close>

definition frame_ok :: "frame_layout \<Rightarrow> reg list \<Rightarrow> bool" where
  "frame_ok f rs \<longleftrightarrow> clobbered_callee_saves f = map int_preg rs \<and> distinct rs \<and>
     set rs \<subseteq> {9, 10, 11, 15} \<and> 15 \<in> set rs \<and> 4 * length rs \<le> clobber_size f \<and>
     clobber_size f mod 4 = 0 \<and> save_base f mod 4 = 0 \<and> frame_stack_size f < 2 ^ 31"

definition save_link :: "frame_layout \<Rightarrow> reg list" where
  "save_link f = (if lr_size f \<noteq> 0 then [reg_LR] else [])"

lemma frame_size_split: "frame_stack_size f = save_base f + clobber_size f + lr_size f"
  by (simp add: frame_stack_size_def save_base_def)

lemma frame_ok_nonempty: "frame_ok f rs \<Longrightarrow> frame_stack_size f \<noteq> 0"
  by (cases rs) (auto simp: frame_ok_def frame_size_split)

lemma map_enumerate_map:
  "map (\<lambda>(i, r). F i r) (enumerate k (map g rs)) = map (\<lambda>(i, r). F i (g r)) (enumerate k rs)"
  by (induction rs arbitrary: k) auto

lemma clobber_save_insts:
  assumes "frame_ok f rs"
  shows "gen_clobber_save CC_SystemV f = Some ([SpAdjust (- word_of_nat (frame_stack_size f))]
    @ save_insts (save_base f + clobber_size f) 0 (save_link f) @ save_insts (save_base f) 0 rs
    @ [Mov frame_reg stack_reg])"
  using assms frame_ok_nonempty [OF assms]
  by (auto simp: gen_clobber_save_def ensure_call_conv_def frame_ok_def save_insts_def save_link_def
      map_enumerate_map link_reg_def)

lemma clobber_restore_insts:
  assumes "frame_ok f rs"
  shows "gen_clobber_restore CC_SystemV f = Some ([Mov stack_reg frame_reg]
    @ restore_insts (save_base f + clobber_size f) 0 (save_link f) @ restore_insts (save_base f) 0 rs
    @ [SpAdjust (word_of_nat (frame_stack_size f))])"
  using assms frame_ok_nonempty [OF assms]
  by (auto simp: gen_clobber_restore_def ensure_call_conv_def frame_ok_def restore_insts_def save_link_def
      map_enumerate_map link_reg_def)

text \<open>The save slots lie inside the frame.\<close>

lemma slot_in_frame:
  assumes "a \<in> word_addrs (p + word_of_nat x)" "x + 4 \<le> n"
  shows "\<exists>i < n. a = p + word_of_nat i"
proof -
  obtain i where "i < 4" "a = p + word_of_nat (x + i)"
    using assms(1) by (auto simp: word_addrs_iff add.assoc)
  then show ?thesis using assms(2) by (intro exI [of _ "x + i"]) auto
qed

lemma prologue_run:
  assumes ok: "frame_ok f rs" and al: "aligned4 (get_gpr s reg_SP)"
    and pro: "gen_clobber_save CC_SystemV f = Some pro"
  defines "sp \<equiv> get_gpr s reg_SP - word_of_nat (frame_stack_size f)"
  shows "\<exists>s'. steps_sem pro s = Some s' \<and> get_gpr s' reg_SP = sp \<and> get_gpr s' reg_FP = sp \<and>
    (\<forall>r. r \<noteq> reg_SP \<and> r \<noteq> reg_FP \<longrightarrow> get_gpr s' r = get_gpr s r) \<and>
    (\<forall>j < length rs. load32 s' (sp + word_of_nat (save_base f + 4 * j)) = get_gpr s (rs ! j)) \<and>
    (lr_size f \<noteq> 0 \<longrightarrow> load32 s' (sp + word_of_nat (save_base f + clobber_size f)) = get_gpr s reg_LR) \<and>
    (\<forall>a. (\<forall>i < frame_stack_size f. a \<noteq> sp + word_of_nat i) \<longrightarrow> mem s' a = mem s a)"
proof -
  let ?B = "save_base f" and ?C = "clobber_size f" and ?N = "frame_stack_size f"
  have facts: "set rs \<subseteq> {9, 10, 11, 15}" "4 * length rs \<le> ?C" "?C mod 4 = 0" "?B mod 4 = 0" "?N < 2 ^ 31"
    using ok by (auto simp: frame_ok_def)
  have lr: "4 * length (save_link f) \<le> lr_size f" "lr_size f mod 4 = 0" "(lr_size f \<noteq> 0) = (save_link f = [reg_LR])"
    by (auto simp: save_link_def lr_size_def)
  have N: "?N = ?B + ?C + lr_size f" by (rule frame_size_split)
  have spne: "reg_SP \<noteq> reg_ZERO" "reg_FP \<noteq> reg_ZERO" "reg_FP \<noteq> reg_SP" by (simp_all add: reg_consts)
  define s0 where "s0 = set_gpr reg_SP sp s"
  have s0: "step_sem (SpAdjust (- word_of_nat ?N)) s = Some s0"
    by (simp add: step_sem_def s0_def sp_def)
  have sp0: "get_gpr s0 reg_SP = sp" "\<And>r. r \<noteq> reg_SP \<Longrightarrow> get_gpr s0 r = get_gpr s r" "mem s0 = mem s"
    using spne by (simp_all add: s0_def)
  have "?N mod 4 = 0" using facts lr(2) unfolding N by (metis add_cancel_left_left mod_add_eq mod_add_self1 mod_0)
  then have al0: "aligned4 sp" unfolding sp_def by (rule aligned4_sub_offset [OF al])
  have bc: "(?B + ?C) mod 4 = 0" using facts by (metis add.right_neutral mod_add_eq mod_0)
  have "\<exists>s1. steps_sem (save_insts (?B + ?C) 0 (save_link f)) s0 = Some s1 \<and> (\<forall>r. get_gpr s1 r = get_gpr s0 r) \<and>
    (\<forall>j < length (save_link f). load32 s1 (slot_addr s0 (?B + ?C) (0 + j)) = get_gpr s0 (save_link f ! j)) \<and>
    (\<forall>a. (\<forall>j < length (save_link f). a \<notin> word_addrs (slot_addr s0 (?B + ?C) (0 + j))) \<longrightarrow> mem s1 a = mem s0 a)"
    using al0 sp0 bc lr(1) facts(5) N by (intro save_insts_run) simp_all
  then obtain s1 where s1: "steps_sem (save_insts (?B + ?C) 0 (save_link f)) s0 = Some s1"
    "\<forall>r. get_gpr s1 r = get_gpr s0 r"
    "\<forall>j < length (save_link f). load32 s1 (sp + word_of_nat (?B + ?C + 4 * j)) = get_gpr s0 (save_link f ! j)"
    "\<forall>a. (\<forall>j < length (save_link f). a \<notin> word_addrs (sp + word_of_nat (?B + ?C + 4 * j))) \<longrightarrow> mem s1 a = mem s0 a"
    unfolding sp0 add_0 by blast
  have "\<exists>s2. steps_sem (save_insts ?B 0 rs) s1 = Some s2 \<and> (\<forall>r. get_gpr s2 r = get_gpr s1 r) \<and>
    (\<forall>j < length rs. load32 s2 (slot_addr s1 ?B (0 + j)) = get_gpr s1 (rs ! j)) \<and>
    (\<forall>a. (\<forall>j < length rs. a \<notin> word_addrs (slot_addr s1 ?B (0 + j))) \<longrightarrow> mem s2 a = mem s1 a)"
    using al0 sp0 s1(2) facts N by (intro save_insts_run) simp_all
  then obtain s2 where s2: "steps_sem (save_insts ?B 0 rs) s1 = Some s2" "\<forall>r. get_gpr s2 r = get_gpr s0 r"
    "\<forall>j < length rs. load32 s2 (sp + word_of_nat (?B + 4 * j)) = get_gpr s0 (rs ! j)"
    "\<forall>a. (\<forall>j < length rs. a \<notin> word_addrs (sp + word_of_nat (?B + 4 * j))) \<longrightarrow> mem s2 a = mem s1 a"
    unfolding s1(2)[rule_format] sp0 add_0 by auto
  define s3 where "s3 = set_gpr reg_FP sp s2"
  have s3: "step_sem (Mov frame_reg stack_reg) s2 = Some s3"
    using s2(2) sp0 by (simp add: step_sem_def s3_def)
  have run: "steps_sem pro s = Some s3"
    using pro s0 s1(1) s2(1) s3 unfolding clobber_save_insts [OF ok] by (auto simp: steps_sem_append)
  have m3: "mem s3 = mem s2" by (simp add: s3_def)
  have lrv: "load32 s3 (sp + word_of_nat (?B + ?C)) = get_gpr s reg_LR" if "lr_size f \<noteq> 0"
  proof -
    have "word_addrs (sp + word_of_nat (?B + 4 * j)) \<inter> word_addrs (sp + word_of_nat (?B + ?C)) = {}"
      if "j < length rs" for j
      using that facts N lr(1,3) \<open>lr_size f \<noteq> 0\<close> by (intro word_addrs_disjoint) auto
    then have "mem s2 x = mem s1 x" if "x \<in> word_addrs (sp + word_of_nat (?B + ?C))" for x
      using s2(4) that by blast
    then have "load32 s2 (sp + word_of_nat (?B + ?C)) = load32 s1 (sp + word_of_nat (?B + ?C))"
      unfolding load32_def by (simp add: word_addrs_def)
    then show ?thesis
      using s1(3) that lr(3) load32_cong [OF m3] sp0(2) [of reg_LR] by (simp add: reg_consts)
  qed
  have outer: "mem s3 a = mem s a" if o: "\<forall>i < ?N. a \<noteq> sp + word_of_nat i" for a
  proof -
    have out: "a \<notin> word_addrs (sp + word_of_nat x)" if "x + 4 \<le> ?N" for x
      using slot_in_frame o that by blast
    have "\<forall>j < length rs. a \<notin> word_addrs (sp + word_of_nat (?B + 4 * j))"
      using facts(2) N by (intro allI impI out) auto
    moreover have "\<forall>j < length (save_link f). a \<notin> word_addrs (sp + word_of_nat (?B + ?C + 4 * j))"
      using lr(1) N by (intro allI impI out) auto
    ultimately show ?thesis using s2(4) s1(4) m3 sp0(3) by simp
  qed
  have "get_gpr s0 (rs ! j) = get_gpr s (rs ! j)" if "j < length rs" for j
  proof -
    have "rs ! j \<in> {9, 10, 11, 15}" using facts(1) that nth_mem by blast
    then show ?thesis by (intro sp0(2)) (auto simp: reg_consts)
  qed
  then have regs: "\<forall>j < length rs. load32 s3 (sp + word_of_nat (?B + 4 * j)) = get_gpr s (rs ! j)"
    using s2(3) load32_cong [OF m3] by simp
  show ?thesis
    using run regs lrv outer s2(2) sp0 spne by (intro exI [of _ s3]) (simp add: s3_def)
qed

lemma epilogue_run:
  assumes ok: "frame_ok f rs" and al: "aligned4 (get_gpr t reg_FP)"
    and epi: "gen_clobber_restore CC_SystemV f = Some epi"
  defines "sp \<equiv> get_gpr t reg_FP"
  shows "\<exists>t'. steps_sem epi t = Some t' \<and> mem t' = mem t \<and>
    get_gpr t' reg_SP = sp + word_of_nat (frame_stack_size f) \<and>
    (\<forall>j < length rs. get_gpr t' (rs ! j) = load32 t (sp + word_of_nat (save_base f + 4 * j))) \<and>
    (lr_size f \<noteq> 0 \<longrightarrow> get_gpr t' reg_LR = load32 t (sp + word_of_nat (save_base f + clobber_size f))) \<and>
    (\<forall>r. r \<noteq> reg_SP \<and> r \<notin> set rs \<and> (r = reg_LR \<longrightarrow> lr_size f = 0) \<longrightarrow> get_gpr t' r = get_gpr t r)"
proof -
  let ?B = "save_base f" and ?C = "clobber_size f" and ?N = "frame_stack_size f"
  have facts: "set rs \<subseteq> {9, 10, 11, 15}" "distinct rs" "?C mod 4 = 0" "?B mod 4 = 0"
    using ok by (auto simp: frame_ok_def)
  have lr: "distinct (save_link f)" "reg_ZERO \<notin> set (save_link f)" "reg_SP \<notin> set (save_link f)"
    "set (save_link f) \<inter> {9, 10, 11, 15} = {}" "(lr_size f \<noteq> 0) = (save_link f = [reg_LR])" "(lr_size f = 0) = (save_link f = [])"
    by (auto simp: save_link_def reg_consts)
  have rs: "reg_ZERO \<notin> set rs" "reg_SP \<notin> set rs" "reg_LR \<notin> set rs" using facts(1) by (auto simp: reg_consts)
  have spne: "reg_SP \<noteq> reg_ZERO" "reg_LR \<noteq> reg_SP" by (simp_all add: reg_consts)
  have bc: "(?B + ?C) mod 4 = 0" using facts by (metis add.right_neutral mod_add_eq mod_0)
  define t0 where "t0 = set_gpr reg_SP sp t"
  have t0: "step_sem (Mov stack_reg frame_reg) t = Some t0" by (simp add: step_sem_def t0_def sp_def)
  have sp0: "get_gpr t0 reg_SP = sp" "\<And>r. r \<noteq> reg_SP \<Longrightarrow> get_gpr t0 r = get_gpr t r" "mem t0 = mem t"
    using spne by (simp_all add: t0_def)
  have "\<exists>t1. steps_sem (restore_insts (?B + ?C) 0 (save_link f)) t0 = Some t1 \<and> mem t1 = mem t0 \<and>
    (\<forall>j < length (save_link f). get_gpr t1 (save_link f ! j) = load32 t0 (slot_addr t0 (?B + ?C) (0 + j))) \<and>
    (\<forall>r. r \<notin> set (save_link f) \<longrightarrow> get_gpr t1 r = get_gpr t0 r)"
    using al sp0 bc lr by (intro restore_insts_run) (simp_all add: sp_def)
  then obtain t1 where t1: "steps_sem (restore_insts (?B + ?C) 0 (save_link f)) t0 = Some t1" "mem t1 = mem t"
    "\<forall>j < length (save_link f). get_gpr t1 (save_link f ! j) = load32 t (sp + word_of_nat (?B + ?C + 4 * j))"
    "\<forall>r. r \<notin> set (save_link f) \<longrightarrow> get_gpr t1 r = get_gpr t0 r"
    using load32_cong [OF sp0(3)] unfolding sp0 add_0 by auto
  have sp1: "get_gpr t1 reg_SP = sp" using t1(4) lr(3) sp0(1) by simp
  have "\<exists>t2. steps_sem (restore_insts ?B 0 rs) t1 = Some t2 \<and> mem t2 = mem t1 \<and>
    (\<forall>j < length rs. get_gpr t2 (rs ! j) = load32 t1 (slot_addr t1 ?B (0 + j))) \<and>
    (\<forall>r. r \<notin> set rs \<longrightarrow> get_gpr t2 r = get_gpr t1 r)"
    using al sp1 facts rs by (intro restore_insts_run) (simp_all add: sp_def)
  then obtain t2 where t2: "steps_sem (restore_insts ?B 0 rs) t1 = Some t2" "mem t2 = mem t"
    "\<forall>j < length rs. get_gpr t2 (rs ! j) = load32 t (sp + word_of_nat (?B + 4 * j))"
    "\<forall>r. r \<notin> set rs \<longrightarrow> get_gpr t2 r = get_gpr t1 r"
    using load32_cong [OF t1(2)] unfolding sp1 add_0 t1(2) by auto
  define t3 where "t3 = set_gpr reg_SP (sp + word_of_nat ?N) t2"
  have t3: "step_sem (SpAdjust (word_of_nat ?N)) t2 = Some t3"
    using t2(4) rs(2) sp1 by (simp add: step_sem_def t3_def)
  have run: "steps_sem epi t = Some t3"
    using epi t0 t1(1) t2(1) t3 unfolding clobber_restore_insts [OF ok] by (auto simp: steps_sem_append)
  have lrv: "get_gpr t3 reg_LR = load32 t (sp + word_of_nat (?B + ?C))" if "lr_size f \<noteq> 0"
    using that t1(3) t2(4) rs(3) lr(5) spne by (simp add: t3_def)
  have regs: "get_gpr t3 (rs ! j) = load32 t (sp + word_of_nat (?B + 4 * j))" if "j < length rs" for j
  proof -
    have "rs ! j \<noteq> reg_SP" using rs(2) that nth_mem by metis
    then show ?thesis using t2(3) that by (simp add: t3_def)
  qed
  have other: "get_gpr t3 r = get_gpr t r" if "r \<noteq> reg_SP" "r \<notin> set rs" "r = reg_LR \<longrightarrow> lr_size f = 0" for r
  proof -
    have "r \<notin> set (save_link f)" using that(3) by (auto simp: save_link_def)
    then show ?thesis using that t2(4) t1(4) sp0(2) by (simp add: t3_def)
  qed
  show ?thesis
    using run lrv regs other t2(2) spne by (intro exI [of _ t3]) (auto simp: t3_def)
qed

lemma compute_frame_layout_sel:
  assumes "compute_frame_layout CC_SystemV rw calls inc ta slots fixed out = Some f"
  shows "clobbered_callee_saves f = clobbered_saves rw calls slots fixed out"
    "clobber_size f = align_to (length (clobbered_saves rw calls slots fixed out) * 4) 8"
    "fixed_frame_storage_size f = align_to fixed 8" "stackslots_size f = slots"
    "outgoing_args_size f = align_to out 8" "function_calls_of f = calls" "tail_args_size f = ta"
    "setup_area_size f = 0"
  using assms by (auto simp: compute_frame_layout_def ensure_call_conv_def Let_def align_to_def assert_that_bind)

lemma align_to_mod4: "align_to v 8 mod 4 = 0"
  by (simp add: align_to_def mod_eq_0_iff_dvd)

lemma layout_frame_ok:
  assumes f: "compute_frame_layout CC_SystemV rw calls inc ta slots fixed out = Some f"
    and "\<forall>p \<in> set rw. preg_class p = Int_class" "slots mod 4 = 0"
    and "frame_stack_size f \<noteq> 0" "frame_stack_size f < 2 ^ 31"
  shows "\<exists>rs. frame_ok f rs \<and> (\<forall>r \<in> {9, 10, 11, 15}. int_preg r \<in> set rw \<longrightarrow> r \<in> set rs)"
proof -
  note sel = compute_frame_layout_sel [OF f]
  obtain rs where rs: "clobbered_callee_saves f = map int_preg rs" "distinct rs" "set rs \<subseteq> {9, 10, 11, 15}"
    "\<forall>r \<in> {9, 10, 11, 15}. int_preg r \<in> set rw \<longrightarrow> r \<in> set rs"
    "calls = Calls_Regular \<or> slots \<noteq> 0 \<or> fixed \<noteq> 0 \<or> out \<noteq> 0 \<or> rs \<noteq> [] \<longrightarrow> 15 \<in> set rs"
    using clobbered_saves_regs [OF assms(2) refl, of calls slots fixed out] unfolding sel(1) by blast
  have "align_to 0 8 = 0" by (simp add: align_to_def)
  then have "15 \<in> set rs"
    using rs assms(4) unfolding frame_stack_size_def lr_size_def sel(2-6) sel(1) [symmetric]
    by (auto split: if_splits)
  moreover have "4 * length rs \<le> clobber_size f"
    using align_to_ge [of 8 "length rs * 4"] rs(1) unfolding sel(2) sel(1) [symmetric] by simp
  moreover have "save_base f mod 4 = 0"
    using align_to_mod4 assms(3) unfolding save_base_def sel(3-5) by (metis add.right_neutral mod_add_eq mod_0)
  moreover have "clobber_size f mod 4 = 0" unfolding sel(2) by (rule align_to_mod4)
  ultimately show ?thesis using rs assms(5) by (auto simp: frame_ok_def)
qed

text \<open>
  A function body between prologue and epilogue, from the state after the prologue: it gives back
  the frame pointer, leaves the save area above the fixed storage alone, and changes a callee-saved
  register only if the allocator reported it.
\<close>

definition body_keeps :: "frame_layout \<Rightarrow> preg list \<Rightarrow> cpu \<Rightarrow> cpu \<Rightarrow> bool" where
  "body_keeps f rw s t \<longleftrightarrow> get_gpr t reg_FP = get_gpr s reg_FP \<and>
     (\<forall>i. save_base f \<le> i \<and> i < frame_stack_size f \<longrightarrow>
        mem t (get_gpr s reg_FP + word_of_nat i) = mem s (get_gpr s reg_FP + word_of_nat i)) \<and>
     (\<forall>r \<in> {9, 10, 11}. int_preg r \<notin> set rw \<longrightarrow> get_gpr t r = get_gpr s r)"

lemma load32_same_word:
  "(\<And>i. i < 4 \<Longrightarrow> mem t (a + word_of_nat i) = mem s (a + word_of_nat i)) \<Longrightarrow> load32 t a = load32 s a"
  using word_addrs_iff [of _ a] unfolding load32_def word_addrs_def by (metis insert_iff)

lemma save_slot_kept:
  assumes "body_keeps f rw s t" "save_base f \<le> x" "x + 4 \<le> frame_stack_size f"
  shows "load32 t (get_gpr s reg_FP + word_of_nat x) = load32 s (get_gpr s reg_FP + word_of_nat x)"
proof (rule load32_same_word)
  fix i :: nat assume "i < 4"
  then show "mem t (get_gpr s reg_FP + word_of_nat x + word_of_nat i) =
      mem s (get_gpr s reg_FP + word_of_nat x + word_of_nat i)"
    using assms unfolding body_keeps_def by (metis (no_types, lifting) add.assoc add_less_cancel_left
        le_add1 of_nat_add order.strict_trans2 order_trans)
qed

lemma frame_insts_ok:
  assumes "frame_ok f rs"
  shows "list_all frame_inst ([SpAdjust a] @ save_insts x 0 (save_link f) @ save_insts y 0 rs @ [Mov frame_reg stack_reg])"
    "list_all frame_inst ([Mov stack_reg frame_reg] @ restore_insts x 0 (save_link f) @ restore_insts y 0 rs @ [SpAdjust a])"
proof -
  have rs: "operand_ok r \<and> dest_ok r" if "r \<in> set rs \<union> set (save_link f)" for r
    using that assms by (auto simp: frame_ok_def save_link_def operand_ok_def dest_ok_def reg_consts split: if_splits)
  have "list_all frame_inst (save_insts x k qs)" "list_all frame_inst (restore_insts x k qs)"
    if "set qs \<subseteq> set rs \<union> set (save_link f)" for x k qs
    using that rs
    by (induction qs arbitrary: k)
       (auto simp: save_insts_def restore_insts_def frame_inst_def store_sem_word stack_reg_def operand_ok_def
         reg_consts)
  then show "list_all frame_inst ([SpAdjust a] @ save_insts x 0 (save_link f) @ save_insts y 0 rs @ [Mov frame_reg stack_reg])"
    "list_all frame_inst ([Mov stack_reg frame_reg] @ restore_insts x 0 (save_link f) @ restore_insts y 0 rs @ [SpAdjust a])"
    by (simp_all add: frame_inst_def fixed_reg_defs dest_ok_def reg_consts)
qed

text \<open>What the caller gets back.\<close>

definition caller_state_kept :: "function_calls \<Rightarrow> cpu \<Rightarrow> cpu \<Rightarrow> cpu \<Rightarrow> bool" where
  "caller_state_kept calls s t t' \<longleftrightarrow> mem t' = mem t \<and>
     (\<forall>r \<in> {9, 10, 11, reg_FP, reg_SP}. get_gpr t' r = get_gpr s r) \<and>
     (calls = Calls_Regular \<longrightarrow> get_gpr t' reg_LR = get_gpr s reg_LR) \<and>
     (\<forall>r. 1 \<le> unat r \<and> unat r \<le> 8 \<longrightarrow> get_gpr t' r = get_gpr t r)"

lemma low_reg:
  fixes r :: reg
  assumes "unat r \<le> 8"
  shows "r \<notin> {9, 10, 11, 15}" "r \<noteq> reg_SP" "r \<noteq> reg_LR" "r \<noteq> reg_SCRATCH" "r \<noteq> reg_FP"
  using assms by (auto simp: reg_consts)

lemma caller_state_keptI:
  assumes "mem t' = mem t" "get_gpr t' reg_SP = get_gpr s reg_SP" "get_gpr t' reg_FP = get_gpr s reg_FP"
    and "\<And>r. r \<in> {9, 10, 11} \<Longrightarrow> get_gpr t' r = get_gpr s r"
    and "calls = Calls_Regular \<Longrightarrow> get_gpr t' reg_LR = get_gpr s reg_LR"
    and "\<And>r. unat r \<le> 8 \<Longrightarrow> get_gpr t' r = get_gpr t r"
  shows "caller_state_kept calls s t t'"
  using assms by (auto simp: caller_state_kept_def)

lemma caller_state_kept_agree:
  assumes "agree u t'" "caller_state_kept calls s t t'" shows "caller_state_kept calls s t u"
proof -
  have g: "get_gpr u r = get_gpr t' r" if "r \<noteq> reg_SCRATCH" for r using assms(1) that by (simp add: agree_def)
  have k: "mem t' = mem t" "\<forall>r \<in> {9, 10, 11, reg_FP, reg_SP}. get_gpr t' r = get_gpr s r"
    "calls = Calls_Regular \<longrightarrow> get_gpr t' reg_LR = get_gpr s reg_LR"
    "\<forall>r. 1 \<le> unat r \<and> unat r \<le> 8 \<longrightarrow> get_gpr t' r = get_gpr t r"
    using assms(2) by (simp_all add: caller_state_kept_def)
  show ?thesis
  proof (unfold caller_state_kept_def, intro conjI ballI allI impI)
    show "mem u = mem t" using assms(1) k(1) by (simp add: agree_def)
    show "get_gpr u r = get_gpr s r" if "r \<in> {9, 10, 11, reg_FP, reg_SP}" for r
      using that k(2) g [of r] by (auto simp: reg_consts)
    show "get_gpr u reg_LR = get_gpr s reg_LR" if "calls = Calls_Regular"
      using that k(3) g [of reg_LR] by (simp add: reg_consts)
    show "get_gpr u r = get_gpr t r" if "1 \<le> unat r \<and> unat r \<le> 8" for r
      using that k(4) g [of r] low_reg(4) [of r] by simp
  qed
qed

lemma frame_round_trip:
  assumes ok: "frame_ok f rs" "\<forall>r \<in> {9, 10, 11, 15}. int_preg r \<in> set rw \<longrightarrow> r \<in> set rs"
    and pro: "gen_clobber_save CC_SystemV f = Some pro" and epi: "gen_clobber_restore CC_SystemV f = Some epi"
    and "aligned4 (get_gpr s reg_SP)" "steps_sem pro s = Some s1" "body_keeps f rw s1 t"
  shows "\<exists>t'. steps_sem epi t = Some t' \<and> caller_state_kept (function_calls_of f) s t t'"
proof -
  let ?sp = "get_gpr s reg_SP - word_of_nat (frame_stack_size f)"
  have facts: "set rs \<subseteq> {9, 10, 11, 15}" "4 * length rs \<le> clobber_size f" "15 \<in> set rs"
    using ok(1) by (auto simp: frame_ok_def)
  from prologue_run [OF ok(1) assms(5) pro] assms(6) have s1: "get_gpr s1 reg_SP = ?sp" "get_gpr s1 reg_FP = ?sp"
    "\<forall>r. r \<noteq> reg_SP \<and> r \<noteq> reg_FP \<longrightarrow> get_gpr s1 r = get_gpr s r"
    "\<forall>j < length rs. load32 s1 (?sp + word_of_nat (save_base f + 4 * j)) = get_gpr s (rs ! j)"
    "lr_size f \<noteq> 0 \<longrightarrow> load32 s1 (?sp + word_of_nat (save_base f + clobber_size f)) = get_gpr s reg_LR"
    by auto
  have fp: "get_gpr t reg_FP = ?sp" using assms(7) s1(2) by (simp add: body_keeps_def)
  have "frame_stack_size f mod 4 = 0"
    using ok(1) unfolding frame_ok_def frame_size_split by (auto simp: lr_size_def mod_eq_0_iff_dvd)
  then have "aligned4 (get_gpr t reg_FP)" unfolding fp by (rule aligned4_sub_offset [OF assms(5)])
  from epilogue_run [OF ok(1) this epi] obtain t' where t': "steps_sem epi t = Some t'" "mem t' = mem t"
    "get_gpr t' reg_SP = ?sp + word_of_nat (frame_stack_size f)"
    "\<forall>j < length rs. get_gpr t' (rs ! j) = load32 t (?sp + word_of_nat (save_base f + 4 * j))"
    "lr_size f \<noteq> 0 \<longrightarrow> get_gpr t' reg_LR = load32 t (?sp + word_of_nat (save_base f + clobber_size f))"
    "\<forall>r. r \<noteq> reg_SP \<and> r \<notin> set rs \<and> (r = reg_LR \<longrightarrow> lr_size f = 0) \<longrightarrow> get_gpr t' r = get_gpr t r"
    unfolding fp by blast
  note kept = save_slot_kept [OF assms(7), unfolded s1(2)]
  have saved: "get_gpr t' r = get_gpr s r" if "r \<in> set rs" for r
  proof -
    from that obtain j where j: "j < length rs" "r = rs ! j" by (auto simp: in_set_conv_nth)
    then have "save_base f + 4 * j + 4 \<le> frame_stack_size f" using facts(2) by (simp add: frame_size_split)
    then show ?thesis using kept [of "save_base f + 4 * j"] t'(4) s1(4) j by simp
  qed
  have lr: "get_gpr t' reg_LR = get_gpr s reg_LR" if "function_calls_of f = Calls_Regular"
    using that kept [of "save_base f + clobber_size f"] t'(5) s1(5) by (simp add: lr_size_def frame_size_split)
  have callee: "get_gpr t' r = get_gpr s r" if "r \<in> {9, 10, 11}" for r
  proof (cases "r \<in> set rs")
    case False
    then have "int_preg r \<notin> set rw" using ok(2) that by auto
    then have "get_gpr t r = get_gpr s r" using assms(7) that s1(3) by (auto simp: body_keeps_def reg_consts)
    then show ?thesis using t'(6) that False by (auto simp: reg_consts)
  qed (rule saved)
  have caller: "get_gpr t' r = get_gpr t r" if "unat r \<le> 8" for r
    using t'(6) facts(1) low_reg [OF that] by blast
  have fp': "get_gpr t' reg_FP = get_gpr s reg_FP" using saved [of 15] facts(3) by (simp add: reg_FP_def)
  have "caller_state_kept (function_calls_of f) s t t'"
    by (rule caller_state_keptI) (use t'(2,3) fp' lr callee caller in simp_all)
  then show ?thesis using t'(1) by blast
qed

text \<open>
  C26: prologue and epilogue preserve the caller's state. For the frame layout computed for any set
  of written integer registers and any word-aligned frame below two gigabytes, the code emitted to
  save and to restore the clobbered registers is such that: run the first from a state with an
  aligned stack pointer, then any body that keeps the frame pointer, the save area and the
  callee-saved registers it does not report as written, then the second; then r9 to r11, the frame
  pointer, the stack pointer and, in functions that call, the link register are what they were on
  entry, the argument and return registers r1 to r8 are as the body left them, and the epilogue
  writes no memory.
\<close>

theorem frame_preserves_caller_state:
  assumes "sia_isa exec" "compute_frame_layout CC_SystemV rw calls inc ta slots fixed out = Some f"
    and "\<forall>p \<in> set rw. preg_class p = Int_class" "slots mod 4 = 0"
    and "frame_stack_size f \<noteq> 0" "frame_stack_size f < 2 ^ 31"
  shows "\<exists>pro epi pw ew. gen_clobber_save CC_SystemV f = Some pro \<and> gen_clobber_restore CC_SystemV f = Some epi \<and>
    (\<forall>st b. emit_seq pro st b = Some (put_words pw b, st)) \<and>
    (\<forall>st b. emit_seq epi st b = Some (put_words ew b, st)) \<and>
    (\<forall>s t. aligned4 (get_gpr s reg_SP) \<and> body_keeps f rw (run exec pw s) t \<longrightarrow>
       caller_state_kept calls s t (run exec ew t))"
proof -
  obtain rs where ok: "frame_ok f rs" "\<forall>r \<in> {9, 10, 11, 15}. int_preg r \<in> set rw \<longrightarrow> r \<in> set rs"
    using layout_frame_ok [OF assms(2-)] by blast
  note insts = clobber_save_insts [OF ok(1)] clobber_restore_insts [OF ok(1)]
  let ?pro = "the (gen_clobber_save CC_SystemV f)" and ?epi = "the (gen_clobber_restore CC_SystemV f)"
  have gen: "gen_clobber_save CC_SystemV f = Some ?pro" "gen_clobber_restore CC_SystemV f = Some ?epi"
    by (simp_all add: insts)
  have ok2: "list_all frame_inst ?pro" "list_all frame_inst ?epi"
    using frame_insts_ok [OF ok(1)] unfolding insts option.sel by simp_all
  obtain pw where pw: "\<forall>st b. emit_seq ?pro st b = Some (put_words pw b, st)"
    "\<forall>s t t'. agree s t \<and> steps_sem ?pro t = Some t' \<longrightarrow> agree (run exec pw s) t'"
    using sia_isa.frame_seq_sound [OF assms(1) ok2(1)] by blast
  obtain ew where ew: "\<forall>st b. emit_seq ?epi st b = Some (put_words ew b, st)"
    "\<forall>s t t'. agree s t \<and> steps_sem ?epi t = Some t' \<longrightarrow> agree (run exec ew s) t'"
    using sia_isa.frame_seq_sound [OF assms(1) ok2(2)] by blast
  have "caller_state_kept calls s t (run exec ew t)"
    if al: "aligned4 (get_gpr s reg_SP)" and body: "body_keeps f rw (run exec pw s) t" for s t
  proof -
    obtain s1 where s1: "steps_sem ?pro s = Some s1" using prologue_run [OF ok(1) al gen(1)] by blast
    then have ag: "agree (run exec pw s) s1" using pw(2) agree_refl by blast
    have "body_keeps f rw s1 t"
      using body ag unfolding body_keeps_def agree_def by (auto simp: reg_consts)
    from frame_round_trip [OF ok gen al s1 this] obtain t' where
      t': "steps_sem ?epi t = Some t'" "caller_state_kept (function_calls_of f) s t t'" by blast
    then have "agree (run exec ew t) t'" using ew(2) agree_refl by blast
    then show ?thesis
      using t'(2) compute_frame_layout_sel(6) [OF assms(2)] caller_state_kept_agree by simp
  qed
  then show ?thesis using gen pw(1) ew(1) by blast
qed

text \<open>A function that writes r10, calls, and has four bytes of stack slots.\<close>

definition demo_frame :: frame_layout where
  "demo_frame = the (compute_frame_layout CC_SystemV [int_preg 10] Calls_Regular 0 0 4 8 0)"

lemma demo_frame_layout:
  "compute_frame_layout CC_SystemV [int_preg 10] Calls_Regular 0 0 4 8 0 = Some demo_frame"
  by (simp add: demo_frame_def compute_frame_layout_def ensure_call_conv_def Let_def u32_max_def)

lemma demo_frame_size: "frame_stack_size demo_frame = 28"
proof -
  have "clobbered_saves [int_preg 10] Calls_Regular 4 8 0 = [int_preg 10, int_preg 15]"
    by (simp add: clobbered_saves_def callee_save_enc_def reg_index_def reg_FP_def)
  note sel = compute_frame_layout_sel [OF demo_frame_layout, unfolded this]
  show ?thesis unfolding frame_stack_size_def lr_size_def sel by (simp add: align_to_def)
qed

theorem frame_preserves_caller_state_witness:
  "\<exists>pro epi pw ew. gen_clobber_save CC_SystemV demo_frame = Some pro \<and>
    gen_clobber_restore CC_SystemV demo_frame = Some epi \<and>
    (\<forall>st b. emit_seq pro st b = Some (put_words pw b, st)) \<and>
    (\<forall>st b. emit_seq epi st b = Some (put_words ew b, st)) \<and>
    (\<forall>s t. aligned4 (get_gpr s reg_SP) \<and> body_keeps demo_frame [int_preg 10] (run sia_exec pw s) t \<longrightarrow>
       caller_state_kept Calls_Regular s t (run sia_exec ew t))"
  by (rule frame_preserves_caller_state [OF sia.sia_isa_axioms demo_frame_layout])
     (simp_all add: demo_frame_size)

text \<open>The addresses of a frame. Relative to the stack pointer after the prologue, outgoing
  arguments occupy the bottom, stack and spill slots the fixed storage above them and below the
  save area, and an incoming argument is at the stack pointer on entry plus its offset, for every
  offset that fits; so code that writes slots and outgoing arguments keeps the save area, as the
  preservation of the caller's state requires.
\<close>

theorem frame_addresses:
  assumes "compute_frame_layout CC_SystemV rw calls inc ta slots fixed out = Some f"
    and "frame_stack_size f < 2 ^ 30" "0 \<le> off" "off < 2 ^ 30"
  shows "(off < int (outgoing_args_size f) \<longrightarrow>
      frame_stack_offset (OutgoingArg off) f = Some (word_of_int off) \<and> off < int (save_base f)) \<and>
    (off < int (fixed_frame_storage_size f) \<longrightarrow>
      frame_stack_offset (Slot off) f = Some (word_of_int (int (outgoing_args_size f) + off)) \<and>
      int (outgoing_args_size f) + off < int (save_base f)) \<and>
    (\<exists>w. frame_stack_offset (IncomingArg off ta) f = Some w \<and>
      (\<forall>entry_sp. entry_sp - word_of_nat (frame_stack_size f) + w = entry_sp + word_of_int off))"
proof -
  note sel = compute_frame_layout_sel(6-8) [OF assms(1)]
  have sz: "save_base f \<le> frame_stack_size f" "fixed_frame_storage_size f + outgoing_args_size f \<le> save_base f"
    by (simp_all add: frame_size_split save_base_def)
  have delta: "int (tail_args_size f + setup_area_size f + clobber_size f + fixed_frame_storage_size f
      + stackslots_size f + outgoing_args_size f + (if function_calls_of f = Calls_Regular then 8 else 0))
      - (int ta - off) = int (frame_stack_size f) + off"
    by (simp add: sel frame_stack_size_def lr_size_def)
  have "frame_stack_offset (IncomingArg off ta) f = Some (word_of_int (int (frame_stack_size f) + off))"
    unfolding frame_stack_offset_def Let_def stack_amode.case delta using assms(2-4) by auto
  then show ?thesis
    using assms(2-4) sz by (auto simp: frame_stack_offset_def Let_def add.commute)
qed

theorem frame_addresses_witness:
  "\<exists>w. frame_stack_offset (IncomingArg 4 0) demo_frame = Some w \<and>
     (\<forall>entry_sp. entry_sp - word_of_nat (frame_stack_size demo_frame) + w = entry_sp + word_of_int 4)"
  using frame_addresses [OF demo_frame_layout, of 4] by (simp add: demo_frame_size)

text \<open>
  C30: the frame size follows the stack slots modulo the stack alignment. The convention aligns the
  stack pointer to eight bytes, and every other part of the frame is rounded up to eight; but the
  size of the stack slots, already part of the fixed storage, is added again as it is, so a
  function whose slots take four bytes modulo eight runs with a stack pointer that is off by four.
\<close>

theorem frame_size_misaligned_by_slots:
  assumes "compute_frame_layout CC_SystemV rw calls inc ta slots fixed out = Some f"
  shows "stack_align_of CC_SystemV = Some 8 \<and> frame_stack_size f mod 8 = slots mod 8 \<and>
    (fixed = align_to slots 8 \<longrightarrow> frame_stack_size f \<ge> 2 * slots)"
proof -
  note sel = compute_frame_layout_sel [OF assms]
  have "8 dvd lr_size f" "8 dvd clobber_size f" "8 dvd fixed_frame_storage_size f" "8 dvd outgoing_args_size f"
    unfolding sel by (simp_all add: lr_size_def align_to_def)
  then have "8 dvd lr_size f + clobber_size f + fixed_frame_storage_size f + outgoing_args_size f"
    by (intro dvd_add)
  then have "(slots + (lr_size f + clobber_size f + fixed_frame_storage_size f + outgoing_args_size f)) mod 8 = slots mod 8"
    by (metis add.right_neutral mod_add_right_eq mod_eq_0_iff_dvd)
  then have "frame_stack_size f mod 8 = slots mod 8"
    unfolding frame_stack_size_def sel(4) by (simp add: ac_simps)
  moreover have "frame_stack_size f \<ge> 2 * slots" if "fixed = align_to slots 8"
    using align_to_ge [of 8 slots] align_to_ge [of 8 fixed] that unfolding frame_stack_size_def sel(3,4) by simp
  ultimately show ?thesis by (simp add: stack_align_of_def ensure_call_conv_def)
qed

theorem frame_size_misaligned_by_slots_witness:
  "stack_align_of CC_SystemV = Some 8 \<and> frame_stack_size demo_frame mod 8 = 4"
  using frame_size_misaligned_by_slots [OF demo_frame_layout] by simp

end
