(* ===== verification/Mach_Abi.thy ===== *)
theory Mach_Abi
  imports Sia32_Frame
begin

text \<open>
  \<open>src/cranelift/codegen/src/machinst/abi.rs\<close>: the machine-independent half of the ABI, for the
  SIA32 instance of its type parameter: the set of ABI signatures, the layout of stack slots, the
  frame of a function body, and its prologue and epilogue.

  A \<open>u32\<close> is a \<open>nat\<close>. The additions of slot, spill and frame sizes are checked against \<open>u32_max\<close>:
  those with \<open>checked_add\<close> in the source give its error, the others panic. The sums in the prologue
  are of fields of a layout that passed the limit on the frame size. The outer \<open>None\<close> is a panic. A signature is the
  record \<open>signature\<close>; a signature reference is an index. When a signature is rejected the source
  abandons the compilation, so what it had appended to the shared vector is not kept.
\<close>

section \<open>Signatures\<close>

record signature =
  sig_params :: "abi_param list"
  sig_returns :: "abi_param list"
  sig_call_conv :: call_conv

fun rposition :: "('a \<Rightarrow> bool) \<Rightarrow> 'a list \<Rightarrow> nat option" where
  "rposition P [] = None"
| "rposition P (x # xs) =
     (case rposition P xs of Some i \<Rightarrow> Some (Suc i) | None \<Rightarrow> if P x then Some 0 else None)"

definition special_param_index :: "signature \<Rightarrow> argument_purpose \<Rightarrow> nat option" where
  "special_param_index s purpose = rposition (\<lambda>a. param_purpose a = purpose) (sig_params s)"

definition special_return_index :: "signature \<Rightarrow> argument_purpose \<Rightarrow> nat option" where
  "special_return_index s purpose = rposition (\<lambda>a. param_purpose a = purpose) (sig_returns s)"

definition uses_special_param :: "signature \<Rightarrow> argument_purpose \<Rightarrow> bool" where
  "uses_special_param s purpose = (special_param_index s purpose \<noteq> None)"

definition uses_special_return :: "signature \<Rightarrow> argument_purpose \<Rightarrow> bool" where
  "uses_special_return s purpose = (special_return_index s purpose \<noteq> None)"

record sig_data =
  args_end :: nat
  rets_end :: nat
  sized_stack_arg_space :: nat
  sized_stack_ret_space :: nat
  stack_ret_arg :: "nat option"
  sd_call_conv :: call_conv

record sig_set =
  ir_signature_to_abi_sig :: "signature \<Rightarrow> nat option"
  ir_sig_ref_to_abi_sig :: "nat \<Rightarrow> nat option"
  abi_args :: "abi_arg list"
  sigs_of :: "sig_data list"

text \<open>The values returned: with a struct-return parameter, its pointer and nothing else.\<close>

definition abi_returns :: "signature \<Rightarrow> abi_param list option" where
  "abi_returns s =
     (if uses_special_return s Purpose_StructReturn then None
      else case special_param_index s Purpose_StructReturn of
        Some i \<Rightarrow> if sig_returns s \<noteq> [] then None else Some [sig_params s ! i]
      | None \<Rightarrow> Some (sig_returns s))"

definition from_func_sig ::
  "bool \<Rightarrow> signature \<Rightarrow> sig_set \<Rightarrow> (codegen_error + sig_data \<times> sig_set) option" where
  "from_func_sig multi_ret s set0 = do {
     returns \<leftarrow> abi_returns s;
     case compute_arg_locs (sig_call_conv s) multi_ret returns Aor_Rets False (abi_args set0) of
       Inl e \<Rightarrow> Some (Inl e)
     | Inr (ret_space, _, args1) \<Rightarrow>
         if \<not> multi_ret \<and> ret_space \<noteq> 0 then None
         else if STACK_ARG_RET_SIZE_LIMIT < ret_space then Some (Inl ImplLimitExceeded)
         else if 0 < ret_space \<and> uses_special_param s Purpose_StructReturn then None
         else case compute_arg_locs (sig_call_conv s) multi_ret (sig_params s) Aor_Args (0 < ret_space) args1 of
           Inl e \<Rightarrow> Some (Inl e)
         | Inr (arg_space, ret_arg, args2) \<Rightarrow>
             if STACK_ARG_RET_SIZE_LIMIT < arg_space then Some (Inl ImplLimitExceeded)
             else if (case ret_arg of Some i \<Rightarrow> 2 ^ 16 \<le> i | None \<Rightarrow> False) then None
             else Some (Inr (\<lparr>args_end = length args2, rets_end = length args1,
                    sized_stack_arg_space = arg_space, sized_stack_ret_space = ret_space,
                    stack_ret_arg = ret_arg, sd_call_conv = sig_call_conv s\<rparr>,
                  set0\<lparr>abi_args := args2\<rparr>))
   }"

definition make_abi_sig_from_ir_signature ::
  "bool \<Rightarrow> signature \<Rightarrow> sig_set \<Rightarrow> (codegen_error + nat \<times> sig_set) option" where
  "make_abi_sig_from_ir_signature multi_ret s set0 = do {
     assert_that (ir_signature_to_abi_sig set0 s = None);
     r \<leftarrow> from_func_sig multi_ret s set0;
     Some (case r of
       Inl e \<Rightarrow> Inl e
     | Inr (d, set1) \<Rightarrow>
         let sig = length (sigs_of set1)
         in Inr (sig, set1\<lparr>sigs_of := sigs_of set1 @ [d],
              ir_signature_to_abi_sig := (ir_signature_to_abi_sig set1)(s \<mapsto> sig)\<rparr>))
   }"

definition make_abi_sig_from_ir_sig_ref ::
  "bool \<Rightarrow> nat \<Rightarrow> signature list \<Rightarrow> sig_set \<Rightarrow> (codegen_error + nat \<times> sig_set) option" where
  "make_abi_sig_from_ir_sig_ref multi_ret r signatures set0 =
     (case ir_sig_ref_to_abi_sig set0 r of
        Some sig \<Rightarrow> Some (Inr (sig, set0))
      | None \<Rightarrow> do {
          assert_that (r < length signatures);
          res \<leftarrow> from_func_sig multi_ret (signatures ! r) set0;
          Some (case res of
            Inl e \<Rightarrow> Inl e
          | Inr (d, set1) \<Rightarrow>
              let sig = length (sigs_of set1)
              in Inr (sig, set1\<lparr>sigs_of := sigs_of set1 @ [d],
                   ir_sig_ref_to_abi_sig := (ir_sig_ref_to_abi_sig set1)(r \<mapsto> sig)\<rparr>))
        })"

fun intern_sig_refs ::
  "bool \<Rightarrow> nat list \<Rightarrow> signature list \<Rightarrow> sig_set \<Rightarrow> (codegen_error + sig_set) option" where
  "intern_sig_refs multi_ret [] signatures set0 = Some (Inr set0)"
| "intern_sig_refs multi_ret (r # rs) signatures set0 = do {
     res \<leftarrow> make_abi_sig_from_ir_sig_ref multi_ret r signatures set0;
     case res of
       Inl e \<Rightarrow> Some (Inl e)
     | Inr (_, set1) \<Rightarrow> intern_sig_refs multi_ret rs signatures set1
   }"

definition sig_set_new :: "bool \<Rightarrow> signature \<Rightarrow> signature list \<Rightarrow> (codegen_error + sig_set) option" where
  "sig_set_new multi_ret func_sig signatures = do {
     res \<leftarrow> make_abi_sig_from_ir_signature multi_ret func_sig
       \<lparr>ir_signature_to_abi_sig = (\<lambda>_. None), ir_sig_ref_to_abi_sig = (\<lambda>_. None), abi_args = [], sigs_of = []\<rparr>;
     case res of
       Inl e \<Rightarrow> Some (Inl e)
     | Inr (_, set1) \<Rightarrow> intern_sig_refs multi_ret [0..<length signatures] signatures set1
   }"

text \<open>\<open>&self.abi_args[start..end]\<close>\<close>

definition slice :: "nat \<Rightarrow> nat \<Rightarrow> 'a list \<Rightarrow> 'a list option" where
  "slice start stop xs =
     (if start \<le> stop \<and> stop \<le> length xs then Some (take (stop - start) (drop start xs)) else None)"

definition sig_args :: "sig_set \<Rightarrow> nat \<Rightarrow> abi_arg list option" where
  "sig_args set0 sig =
     (if sig < length (sigs_of set0)
      then slice (rets_end (sigs_of set0 ! sig)) (args_end (sigs_of set0 ! sig)) (abi_args set0) else None)"

definition sig_rets :: "sig_set \<Rightarrow> nat \<Rightarrow> abi_arg list option" where
  "sig_rets set0 sig =
     (if sig < length (sigs_of set0)
      then slice (case sig of 0 \<Rightarrow> 0 | Suc prev \<Rightarrow> args_end (sigs_of set0 ! prev))
             (rets_end (sigs_of set0 ! sig)) (abi_args set0) else None)"

definition get_ret_arg :: "sig_set \<Rightarrow> nat \<Rightarrow> abi_arg option option" where
  "get_ret_arg set0 sig = do {
     args \<leftarrow> sig_args set0 sig;
     case stack_ret_arg (sigs_of set0 ! sig) of
       None \<Rightarrow> Some None
     | Some i \<Rightarrow> if i < length args then Some (Some (args ! i)) else None
   }"

definition num_args :: "sig_set \<Rightarrow> nat \<Rightarrow> nat option" where
  "num_args set0 sig = do {
     args \<leftarrow> sig_args set0 sig;
     Some (if stack_ret_arg (sigs_of set0 ! sig) \<noteq> None then length args - 1 else length args)
   }"

definition num_rets :: "sig_set \<Rightarrow> nat \<Rightarrow> nat option" where
  "num_rets set0 sig = map_option length (sig_rets set0 sig)"

section \<open>Stack slots\<close>

definition checked_round_up :: "nat \<Rightarrow> nat \<Rightarrow> nat option" where
  "checked_round_up val m = (if val + m \<le> u32_max then Some ((val + m) div (m + 1) * (m + 1)) else None)"

record stack_slot_data =
  slot_size :: nat
  align_shift :: nat

text \<open>
  The first loop of \<open>Callee::new\<close>: the start offsets of the sized slots, and the end offset after
  the last one. The outer \<open>None\<close> is the assertion on the requested alignment.
\<close>

fun layout_slots :: "stack_slot_data list \<Rightarrow> nat \<Rightarrow> (codegen_error + (nat list \<times> nat)) option" where
  "layout_slots [] end_offset = Some (Inr ([], end_offset))"
| "layout_slots (d # ds) end_offset =
     (if 32 \<le> align_shift d then None
      else case checked_round_up end_offset (max 4 (2 ^ align_shift d) - 1) of
        None \<Rightarrow> Some (Inl ImplLimitExceeded)
      | Some start \<Rightarrow>
          if u32_max < start + slot_size d then Some (Inl ImplLimitExceeded)
          else map_option (map_sum id (\<lambda>(starts, fin). (start # starts, fin)))
                 (layout_slots ds (start + slot_size d)))"

text \<open>
  The second loop, over the dynamic slots. A dynamic type is given by its base vector type; a slot
  refers to its type by index. On SIA32 every dynamic vector takes zero bytes.
\<close>

definition dynamic_vector_bytes :: "ir_type \<Rightarrow> nat" where
  "dynamic_vector_bytes ty = 0"

definition get_concrete_dynamic_ty :: "ir_type list \<Rightarrow> nat \<Rightarrow> ir_type option option" where
  "get_concrete_dynamic_ty types ty = (if ty < length types then vector_to_dynamic (types ! ty) else None)"

fun layout_dynamic_slots ::
  "ir_type list \<Rightarrow> nat list \<Rightarrow> nat \<Rightarrow> (codegen_error + (nat list \<times> nat)) option" where
  "layout_dynamic_slots types [] end_offset = Some (Inr ([], end_offset))"
| "layout_dynamic_slots types (dyn_ty # slots) end_offset =
     (case checked_round_up end_offset 3 of
        None \<Rightarrow> Some (Inl ImplLimitExceeded)
      | Some start \<Rightarrow>
          (case get_concrete_dynamic_ty types dyn_ty of
             None \<Rightarrow> None
           | Some None \<Rightarrow> Some (Inl (Unsupported ''invalid dynamic vector type''))
           | Some (Some ty) \<Rightarrow>
               if u32_max < start + dynamic_vector_bytes ty then Some (Inl ImplLimitExceeded)
               else map_option (map_sum id (\<lambda>(starts, fin). (start # starts, fin)))
                      (layout_dynamic_slots types slots (start + dynamic_vector_bytes ty))))"

text \<open>Both loops and the rounding of the total: sized starts, dynamic starts, total size.\<close>

definition stack_slots_layout ::
  "stack_slot_data list \<Rightarrow> ir_type list \<Rightarrow> nat list
     \<Rightarrow> (codegen_error + (nat list \<times> nat list \<times> nat)) option" where
  "stack_slots_layout ds types dyns =
     (case layout_slots ds 0 of
        None \<Rightarrow> None
      | Some (Inl e) \<Rightarrow> Some (Inl e)
      | Some (Inr (starts, sized_end)) \<Rightarrow>
          (case layout_dynamic_slots types dyns sized_end of
             None \<Rightarrow> None
           | Some (Inl e) \<Rightarrow> Some (Inl e)
           | Some (Inr (dyn_starts, dyn_end)) \<Rightarrow>
               Some (case checked_round_up dyn_end 3 of
                  None \<Rightarrow> Inl ImplLimitExceeded
                | Some whole \<Rightarrow> Inr (starts, dyn_starts, whole))))"

section \<open>The body of a function\<close>

definition missing_struct_return :: "signature \<Rightarrow> bool" where
  "missing_struct_return s \<longleftrightarrow>
     uses_special_param s Purpose_StructReturn \<and> \<not> uses_special_return s Purpose_StructReturn"

definition ensure_struct_return_ptr_is_returned :: "signature \<Rightarrow> signature option" where
  "ensure_struct_return_ptr_is_returned s =
     (if uses_special_return s Purpose_StructReturn then None
      else case special_param_index s Purpose_StructReturn of
        Some i \<Rightarrow> if sig_returns s \<noteq> [] then None
                  else Some (s\<lparr>sig_returns := [sig_params s ! i]\<rparr>)
      | None \<Rightarrow> Some s)"

text \<open>
  The part of \<open>Callee\<close> that frame generation reads. \<open>body_stack_limit\<close> is the register holding the
  stack limit and the instructions that load it. A probestack request is a panic on SIA32, so only
  whether it is enabled, whether it is inline, and the guard size matter.
\<close>

record callee =
  sized_stackslots :: "nat list"
  dynamic_stackslots :: "nat list"
  body_stackslots_size :: nat
  body_outgoing_args_size :: nat
  body_tail_args_size :: nat
  body_incoming_args_size :: nat
  body_frame_layout :: "frame_layout option"
  body_call_conv :: call_conv
  body_stack_limit :: "(mreg \<times> inst list) option"
  enable_probestack :: bool
  probestack_inline :: bool
  probestack_size_log2 :: nat

text \<open>
  \<open>Callee::new\<close>. The assertions are on the calling convention and, when the sizes of the dynamic
  types are collected, on each declared dynamic type having a concrete one.
\<close>

definition callee_new ::
  "stack_slot_data list \<Rightarrow> ir_type list \<Rightarrow> nat list \<Rightarrow> nat \<Rightarrow> call_conv \<Rightarrow> (mreg \<times> inst list) option
     \<Rightarrow> bool \<Rightarrow> bool \<Rightarrow> nat \<Rightarrow> (codegen_error + callee) option" where
  "callee_new slots types dyns arg_space cc limit probe inline_probe log2 = do {
     assert_that (cc \<in> {CC_SystemV, CC_Tail, CC_Fast, CC_WindowsFastcall, CC_AppleAarch64, CC_Winch,
       CC_PreserveAll});
     r \<leftarrow> stack_slots_layout slots types dyns;
     case r of
       Inl e \<Rightarrow> Some (Inl e)
     | Inr (starts, dyn_starts, whole) \<Rightarrow> do {
         assert_that (list_all (\<lambda>t. case vector_to_dynamic t of Some (Some ty) \<Rightarrow> True | _ \<Rightarrow> False) types);
         Some (Inr \<lparr>sized_stackslots = starts, dynamic_stackslots = dyn_starts, body_stackslots_size = whole,
           body_outgoing_args_size = 0, body_tail_args_size = arg_space, body_incoming_args_size = arg_space,
           body_frame_layout = None, body_call_conv = cc, body_stack_limit = limit,
           enable_probestack = probe, probestack_inline = inline_probe, probestack_size_log2 = log2\<rparr>)
       }
   }"

definition accumulate_outgoing_args_size :: "nat \<Rightarrow> callee \<Rightarrow> callee" where
  "accumulate_outgoing_args_size sz c =
     (if body_outgoing_args_size c < sz then c\<lparr>body_outgoing_args_size := sz\<rparr> else c)"

definition accumulate_tail_args_size :: "nat \<Rightarrow> callee \<Rightarrow> callee" where
  "accumulate_tail_args_size sz c =
     (if body_tail_args_size c < sz then c\<lparr>body_tail_args_size := sz\<rparr> else c)"

definition sized_stackslot_addr :: "callee \<Rightarrow> nat \<Rightarrow> nat \<Rightarrow> mreg \<Rightarrow> inst option" where
  "sized_stackslot_addr c slot offset into =
     (if slot < length (sized_stackslots c)
      then Some (gen_get_stack_addr (Slot (int (sized_stackslots c ! slot) + int offset)) into) else None)"

definition maximum_frame_size :: nat where "maximum_frame_size = 2 ^ 30"

definition frame_layout_exceeds_limit :: "frame_layout \<Rightarrow> nat \<Rightarrow> bool" where
  "frame_layout_exceeds_limit f limit \<longleftrightarrow>
     limit < incoming_args_size f + tail_args_size f + setup_area_size f + clobber_size f
       + fixed_frame_storage_size f + outgoing_args_size f"

definition callee_compute_frame_layout ::
  "nat \<Rightarrow> preg list \<Rightarrow> function_calls \<Rightarrow> callee \<Rightarrow> (codegen_error + callee) option" where
  "callee_compute_frame_layout spillslots clobbered calls c = do {
     let spills = 4 * (spillslots mod 2 ^ 32);
     assert_that (spills \<le> u32_max);
     used \<leftarrow> u32_add (body_stackslots_size c) spills;
     align \<leftarrow> stack_align_of (body_call_conv c);
     u32_add used (align - 1);
     let whole = align_to used align;
     f \<leftarrow> compute_frame_layout (body_call_conv c) clobbered calls (body_incoming_args_size c)
       (body_tail_args_size c) (body_stackslots_size c) whole (body_outgoing_args_size c);
     Some (if frame_layout_exceeds_limit f maximum_frame_size then Inl ImplLimitExceeded
           else Inr (c\<lparr>body_frame_layout := Some f\<rparr>))
   }"

definition insert_stack_check :: "call_conv \<Rightarrow> mreg \<Rightarrow> nat \<Rightarrow> inst list \<Rightarrow> inst list option" where
  "insert_stack_check cc limit sz insts =
     (if sz = 0 then Some (insts @ gen_stack_lower_bound_trap limit)
      else do {
        let insts = insts @ (if 32 * 1024 \<le> sz then gen_stack_lower_bound_trap limit else []);
        scratch \<leftarrow> get_stacklimit_reg cc;
        add \<leftarrow> gen_add_imm cc scratch limit sz;
        Some (insts @ add @ gen_stack_lower_bound_trap scratch)
      })"

definition prologue_stacksize :: "frame_layout \<Rightarrow> nat" where
  "prologue_stacksize f = (tail_args_size f - incoming_args_size f) + clobber_size f
     + fixed_frame_storage_size f + outgoing_args_size f
     + (if function_calls_of f = Calls_None then 0 else setup_area_size f)"

definition gen_prologue :: "callee \<Rightarrow> inst list option" where
  "gen_prologue c = do {
     f \<leftarrow> body_frame_layout c;
     insts \<leftarrow> gen_prologue_frame_setup (body_call_conv c) f;
     let whole = prologue_stacksize f;
     insts \<leftarrow> (if 0 < whole \<or> function_calls_of f \<noteq> Calls_None
       then do {
         insts \<leftarrow> (case body_stack_limit c of
             Some (reg, limit_load) \<Rightarrow> insert_stack_check (body_call_conv c) reg whole (insts @ limit_load)
           | None \<Rightarrow> Some insts);
         if enable_probestack c
         then if probestack_inline c
              then gen_inline_probestack insts (body_call_conv c) whole (2 ^ probestack_size_log2 c)
              else if 2 ^ probestack_size_log2 c \<le> whole then gen_probestack insts whole else Some insts
         else Some insts
       }
       else Some insts);
     saves \<leftarrow> gen_clobber_save (body_call_conv c) f;
     Some (insts @ saves)
   }"

definition gen_epilogue :: "callee \<Rightarrow> inst list option" where
  "gen_epilogue c = do {
     f \<leftarrow> body_frame_layout c;
     restores \<leftarrow> gen_clobber_restore (body_call_conv c) f;
     teardown \<leftarrow> gen_epilogue_frame_restore (body_call_conv c) f;
     ret \<leftarrow> gen_return (body_call_conv c) f;
     Some (restores @ teardown @ ret)
   }"

definition sp_to_fp_offset :: "callee \<Rightarrow> nat option" where
  "sp_to_fp_offset c = do {
     f \<leftarrow> body_frame_layout c;
     Some (clobber_size f + fixed_frame_storage_size f + outgoing_args_size f)
   }"

definition slot_base_to_caller_sp_offset :: "callee \<Rightarrow> nat option" where
  "slot_base_to_caller_sp_offset c = do {
     f \<leftarrow> body_frame_layout c;
     Some (clobber_size f + fixed_frame_storage_size f + setup_area_size f
       + (tail_args_size f - incoming_args_size f))
   }"

definition gen_spill :: "callee \<Rightarrow> nat \<Rightarrow> preg \<Rightarrow> inst option" where
  "gen_spill c to_slot from_reg = do {
     ty \<leftarrow> canonical_type_for_rc (preg_class from_reg);
     f \<leftarrow> body_frame_layout c;
     Some (gen_store_stack (Slot (spillslot_offset f to_slot)) (Real from_reg) ty)
   }"

definition gen_reload :: "callee \<Rightarrow> preg \<Rightarrow> nat \<Rightarrow> inst option" where
  "gen_reload c to_reg from_slot = do {
     ty \<leftarrow> canonical_type_for_rc (preg_class to_reg);
     f \<leftarrow> body_frame_layout c;
     Some (gen_load_stack (Slot (spillslot_offset f from_slot)) (Real to_reg) ty)
   }"

text \<open>The offsets published for stack slots, and the distance to the frame pointer.\<close>

definition frame_slot_metadata :: "callee \<Rightarrow> (nat \<times> nat list) option" where
  "frame_slot_metadata c = do {
     to_fp \<leftarrow> sp_to_fp_offset c;
     f \<leftarrow> body_frame_layout c;
     assert_that (\<forall>o' \<in> set (sized_stackslots c). outgoing_args_size f + o' \<le> u32_max);
     Some (to_fp, map (\<lambda>o'. outgoing_args_size f + o') (sized_stackslots c))
   }"

section \<open>Stack slots do not overlap\<close>

lemma checked_round_up_props:
  assumes "checked_round_up v m = Some r"
  shows "v \<le> r" "r mod (m + 1) = 0" "r \<le> u32_max"
proof -
  have r: "r = (v + m) div (m + 1) * (m + 1)" "v + m \<le> u32_max"
    using assms by (auto simp: checked_round_up_def split: if_splits)
  then show "r mod (m + 1) = 0" by (simp only: mod_mult_self2_is_0)
  have "(v + m) mod (m + 1) \<le> m" using mod_less_divisor [of "m + 1" "v + m"] by linarith
  moreover have "(v + m) div (m + 1) * (m + 1) + (v + m) mod (m + 1) = v + m" by (rule div_mult_mod_eq)
  ultimately show "v \<le> r" "r \<le> u32_max" using r by linarith+
qed

lemma map_sum_eq_Inr: "map_sum f g x = Inr y \<longleftrightarrow> (\<exists>z. x = Inr z \<and> y = g z)"
  by (cases x) auto

definition slot_align :: "stack_slot_data \<Rightarrow> nat" where
  "slot_align d = max 4 (2 ^ align_shift d)"

text \<open>\<open>slots_fit ds starts lo hi\<close>: the slots lie in order between the two offsets, each aligned.\<close>

fun slots_fit :: "stack_slot_data list \<Rightarrow> nat list \<Rightarrow> nat \<Rightarrow> nat \<Rightarrow> bool" where
  "slots_fit [] [] lo hi \<longleftrightarrow> lo \<le> hi"
| "slots_fit (d # ds) (s # ss) lo hi \<longleftrightarrow>
     lo \<le> s \<and> s mod slot_align d = 0 \<and> slots_fit ds ss (s + slot_size d) hi"
| "slots_fit _ _ lo hi \<longleftrightarrow> False"

lemma layout_slots_fit: "layout_slots ds lo = Some (Inr (starts, hi)) \<Longrightarrow> slots_fit ds starts lo hi"
proof (induction ds arbitrary: lo starts)
  case (Cons d ds)
  then obtain s ss where s: "checked_round_up lo (slot_align d - 1) = Some s"
    "layout_slots ds (s + slot_size d) = Some (Inr (ss, hi))" "starts = s # ss"
    by (auto simp: slot_align_def map_sum_eq_Inr split: if_splits option.splits)
  have "slot_align d - 1 + 1 = slot_align d" by (simp add: slot_align_def)
  with checked_round_up_props [OF s(1)] show ?case using Cons.IH [OF s(2)] by (simp add: s(3))
qed simp

text \<open>The dynamic slots lie in order after the sized ones, each at a word boundary.\<close>

lemma layout_dynamic_slots_fit:
  "layout_dynamic_slots types dyns lo = Some (Inr (starts, hi)) \<Longrightarrow>
     lo \<le> hi \<and> length starts = length dyns \<and> sorted starts \<and> (\<forall>s \<in> set starts. lo \<le> s \<and> s \<le> hi \<and> s mod 4 = 0)"
proof (induction dyns arbitrary: lo starts)
  case (Cons d dyns)
  then obtain s ss where s: "checked_round_up lo 3 = Some s"
    "layout_dynamic_slots types dyns s = Some (Inr (ss, hi))" "starts = s # ss"
    by (auto simp: map_sum_eq_Inr dynamic_vector_bytes_def split: if_splits option.splits)
  show ?case using checked_round_up_props [OF s(1)] Cons.IH [OF s(2)] by (fastforce simp: s(3))
qed simp

lemma slots_fit_le: "slots_fit ds starts lo hi \<Longrightarrow> lo \<le> hi"
  by (induction ds starts lo hi rule: slots_fit.induct) auto

lemma slots_fit_mono: "slots_fit ds starts lo hi \<Longrightarrow> hi \<le> hi' \<Longrightarrow> slots_fit ds starts lo hi'"
  by (induction ds starts lo hi rule: slots_fit.induct) auto

lemma slots_fit_lower: "slots_fit ds starts lo hi \<Longrightarrow> i < length ds \<Longrightarrow> lo \<le> starts ! i"
proof (induction ds starts lo hi arbitrary: i rule: slots_fit.induct)
  case (2 d ds s ss lo hi)
  then show ?case by (cases i) fastforce+
qed auto

lemma slots_fit_nth:
  assumes "slots_fit ds starts lo hi"
  shows "length starts = length ds"
    "i < length ds \<Longrightarrow> lo \<le> starts ! i \<and> starts ! i mod slot_align (ds ! i) = 0 \<and>
       starts ! i + slot_size (ds ! i) \<le> hi"
    "i < j \<Longrightarrow> j < length ds \<Longrightarrow> starts ! i + slot_size (ds ! i) \<le> starts ! j"
proof -
  show "length starts = length ds"
    using assms by (induction ds starts lo hi rule: slots_fit.induct) auto
  show one: "i < length ds \<Longrightarrow> lo \<le> starts ! i \<and> starts ! i mod slot_align (ds ! i) = 0 \<and>
       starts ! i + slot_size (ds ! i) \<le> hi" for i
    using assms by (induction ds starts lo hi arbitrary: i rule: slots_fit.induct)
      (fastforce simp: less_Suc_eq_0_disj nth_Cons' dest: slots_fit_le)+
  show "i < j \<Longrightarrow> j < length ds \<Longrightarrow> starts ! i + slot_size (ds ! i) \<le> starts ! j"
    using assms
  proof (induction ds starts lo hi arbitrary: i j rule: slots_fit.induct)
    case (2 d ds s ss lo hi)
    then show ?case
    proof (cases i)
      case 0
      have "s + slot_size d \<le> ss ! (j - 1)"
        using 2 slots_fit_lower [of ds ss "s + slot_size d" hi "j - 1"] 0 by auto
      then show ?thesis using 0 2 by (cases j) auto
    next
      case (Suc i')
      then show ?thesis using 2 by (cases j) auto
    qed
  qed auto
qed

lemma stack_slots_layout_cases:
  assumes "stack_slots_layout ds types dyns = Some (Inr (starts, dyn_starts, whole))"
  obtains sized_end last where "layout_slots ds 0 = Some (Inr (starts, sized_end))"
    "layout_dynamic_slots types dyns sized_end = Some (Inr (dyn_starts, last))"
    "checked_round_up last 3 = Some whole"
  using assms by (auto simp: stack_slots_layout_def split: option.splits sum.splits)

text \<open>
  C28: stack slots are laid out soundly. When the layout of the stack slots succeeds, every sized
  slot starts at a multiple of its alignment, at least the machine word; no two sized slots overlap;
  the dynamic slots follow all of them in order, at word boundaries; every slot ends within the
  reported total, which is a multiple of the word and fits 32 bits.
\<close>

theorem stack_slot_layout_sound:
  assumes "stack_slots_layout ds types dyns = Some (Inr (starts, dyn_starts, whole))"
  shows "length starts = length ds \<and> whole mod 4 = 0 \<and> whole \<le> u32_max \<and>
    (\<forall>i < length ds. starts ! i mod slot_align (ds ! i) = 0 \<and> starts ! i + slot_size (ds ! i) \<le> whole) \<and>
    (\<forall>j < length ds. \<forall>i < j. starts ! i + slot_size (ds ! i) \<le> starts ! j) \<and>
    length dyn_starts = length dyns \<and> sorted dyn_starts \<and>
    (\<forall>s \<in> set dyn_starts. s mod 4 = 0 \<and> s \<le> whole \<and> (\<forall>i < length ds. starts ! i + slot_size (ds ! i) \<le> s))"
proof -
  obtain e last where l: "layout_slots ds 0 = Some (Inr (starts, e))"
    "layout_dynamic_slots types dyns e = Some (Inr (dyn_starts, last))" "checked_round_up last 3 = Some whole"
    by (rule stack_slots_layout_cases [OF assms])
  note r = checked_round_up_props [OF l(3)] and d = layout_dynamic_slots_fit [OF l(2)]
  note fit = slots_fit_nth [OF layout_slots_fit [OF l(1)]]
  show ?thesis using fit r d by (fastforce intro: order_trans)
qed

theorem stack_slot_layout_sound_witness:
  "stack_slots_layout [\<lparr>slot_size = 3, align_shift = 0\<rparr>, \<lparr>slot_size = 16, align_shift = 4\<rparr>] [] [] = Some (Inr ([0, 16], [], 32)) \<and>
    (0 :: nat) + 3 \<le> 16 \<and> length [0, 16 :: nat] = 2"
proof -
  have e: "stack_slots_layout [\<lparr>slot_size = 3, align_shift = 0\<rparr>, \<lparr>slot_size = 16, align_shift = 4\<rparr>] [] [] = Some (Inr ([0, 16], [], 32))"
    by (simp add: stack_slots_layout_def checked_round_up_def u32_max_def)
  then show ?thesis using stack_slot_layout_sound [OF e] by (auto simp: All_less_Suc2)
qed

lemma callee_layout_cases:
  assumes "callee_compute_frame_layout n cl calls c0 = Some (Inr c)"
  obtains f where "body_call_conv c0 = CC_SystemV" "c = c0\<lparr>body_frame_layout := Some f\<rparr>"
    "compute_frame_layout CC_SystemV cl calls (body_incoming_args_size c0) (body_tail_args_size c0)
       (body_stackslots_size c0) (align_to (body_stackslots_size c0 + 4 * (n mod 2 ^ 32)) 8)
       (body_outgoing_args_size c0) = Some f"
    "incoming_args_size f = body_incoming_args_size c0" "word_bytes f = 4"
  using assms
  by (auto simp: callee_compute_frame_layout_def stack_align_of_def ensure_call_conv_def Let_def u32_add_def
      bind_eq_Some_conv compute_frame_layout_def assert_that_bind split: if_splits)

lemma callee_new_cases:
  assumes "callee_new ds types dyns arg_space cc limit probe inl log2 = Some (Inr c)"
  obtains starts dyn_starts whole where
    "stack_slots_layout ds types dyns = Some (Inr (starts, dyn_starts, whole))"
    "body_stackslots_size c = whole" "sized_stackslots c = starts" "body_call_conv c = cc"
proof -
  obtain r where r: "stack_slots_layout ds types dyns = Some r"
    using assms by (auto simp: callee_new_def bind_eq_Some_conv)
  then obtain starts dyn_starts whole where "r = Inr (starts, dyn_starts, whole)"
    using assms by (cases r) (auto simp: callee_new_def bind_eq_Some_conv)
  then show ?thesis using that r assms by (auto simp: callee_new_def bind_eq_Some_conv)
qed

text \<open>Spill slots are inside the frame and apart from the stack slots. For a body with the given
  slots and number of spill slots, whenever a frame is laid out, spill slot \<open>i\<close> occupies four
  bytes, at a word boundary, past the end of all stack slots and inside the fixed storage, and
  different spill slots do not overlap.
\<close>

theorem spill_slots_in_frame:
  assumes "callee_new ds types dyns arg_space CC_SystemV limit probe inl log2 = Some (Inr c0)"
    and "callee_compute_frame_layout spillslots clobbered calls c0 = Some (Inr c)" "spillslots \<le> u32_max"
    and "body_frame_layout c = Some f" "i < spillslots"
  shows "spillslot_offset f i mod 4 = 0 \<and>
    (\<forall>k < length ds. int (sized_stackslots c ! k + slot_size (ds ! k)) \<le> spillslot_offset f i) \<and>
    spillslot_offset f i + 4 \<le> int (fixed_frame_storage_size f) \<and>
    (\<forall>j < i. spillslot_offset f j + 4 \<le> spillslot_offset f i)"
proof -
  obtain starts dyn_starts whole where l: "stack_slots_layout ds types dyns = Some (Inr (starts, dyn_starts, whole))"
    "body_stackslots_size c0 = whole" "sized_stackslots c0 = starts" "body_call_conv c0 = CC_SystemV"
    by (rule callee_new_cases [OF assms(1)])
  obtain e last where l2: "layout_slots ds 0 = Some (Inr (starts, e))"
    "layout_dynamic_slots types dyns e = Some (Inr (dyn_starts, last))" "checked_round_up last 3 = Some whole"
    by (rule stack_slots_layout_cases [OF l(1)])
  note r = checked_round_up_props [OF l2(3)]
  have "e \<le> whole" using layout_dynamic_slots_fit [OF l2(2)] r(1) by simp
  note fit = slots_fit_nth [OF slots_fit_mono [OF layout_slots_fit [OF l2(1)] this]]
  have n: "spillslots mod 2 ^ 32 = spillslots" using assms(3) by (simp add: u32_max_def)
  let ?fixed = "align_to (whole + 4 * spillslots) 8"
  obtain f' where f': "compute_frame_layout CC_SystemV clobbered calls (body_incoming_args_size c0)
      (body_tail_args_size c0) whole ?fixed (body_outgoing_args_size c0) = Some f'"
    "c = c0\<lparr>body_frame_layout := Some f'\<rparr>" "word_bytes f' = 4"
    by (rule callee_layout_cases [OF assms(2), unfolded l(2) n])
  note sel = compute_frame_layout_sel [OF f'(1)]
  have f: "f = f'" using assms(4) f'(2) by simp
  have wb: "word_bytes f = 4" using f f'(3) by simp
  have off: "spillslot_offset f k = int (whole + 4 * k)" for k
    using wb by (simp add: spillslot_offset_def f sel(4))
  have "whole + 4 * spillslots \<le> fixed_frame_storage_size f"
    using align_to_ge [of 8 "whole + 4 * spillslots"] align_to_ge [of 8 ?fixed] unfolding f sel(3) by simp
  moreover have "int (whole + 4 * i) mod 4 = 0"
  proof -
    have "(whole + 4 * i) mod 4 = 0" using r(2) by simp
    then show ?thesis using zmod_int [of "whole + 4 * i" 4] by (simp only: of_nat_numeral of_nat_0)
  qed
  moreover have "sized_stackslots c = starts" using f'(2) l(3) by simp
  moreover have "int (starts ! k + slot_size (ds ! k)) \<le> int (whole + 4 * i)" if "k < length ds" for k
    using fit(2) [OF that] by simp
  ultimately show ?thesis unfolding off using assms(5) by simp
qed

definition demo_callee :: callee where
  "demo_callee = (case callee_new [\<lparr>slot_size = 4, align_shift = 2\<rparr>] [] [] 0 CC_SystemV None False False 0 of
     Some (Inr c) \<Rightarrow> c)"

lemma demo_callee_new:
  "callee_new [\<lparr>slot_size = 4, align_shift = 2\<rparr>] [] [] 0 CC_SystemV None False False 0 = Some (Inr demo_callee)"
  by (simp add: demo_callee_def callee_new_def stack_slots_layout_def checked_round_up_def u32_max_def)

lemma demo_callee_sel:
  "body_stackslots_size demo_callee = 4" "sized_stackslots demo_callee = [0]" "body_call_conv demo_callee = CC_SystemV"
  "body_incoming_args_size demo_callee = 0" "body_tail_args_size demo_callee = 0" "body_outgoing_args_size demo_callee = 0"
  by (simp_all add: demo_callee_def callee_new_def stack_slots_layout_def checked_round_up_def u32_max_def)

definition demo_body :: callee where
  "demo_body = demo_callee\<lparr>body_frame_layout :=
     compute_frame_layout CC_SystemV [int_preg 10] Calls_Regular 0 0 4 8 0\<rparr>"

lemma demo_body_layout:
  "callee_compute_frame_layout 1 [int_preg 10] Calls_Regular demo_callee = Some (Inr demo_body)"
proof -
  have "clobbered_saves [int_preg 10] Calls_Regular 4 8 0 = [int_preg 10, int_preg 15]"
    by (simp add: clobbered_saves_def callee_save_enc_def reg_index_def reg_FP_def)
  then show ?thesis
    by (simp add: callee_compute_frame_layout_def demo_callee_sel demo_body_def stack_align_of_def
        ensure_call_conv_def compute_frame_layout_def Let_def align_to_def frame_layout_exceeds_limit_def
        maximum_frame_size_def u32_add_def u32_max_def)
qed

theorem spill_slots_in_frame_witness:
  "\<exists>f. body_frame_layout demo_body = Some f \<and> spillslot_offset f 0 mod 4 = 0 \<and>
     spillslot_offset f 0 + 4 \<le> int (fixed_frame_storage_size f)"
proof -
  obtain f where "body_frame_layout demo_body = Some f"
    by (simp add: demo_body_def compute_frame_layout_def ensure_call_conv_def Let_def u32_max_def)
  then show ?thesis using spill_slots_in_frame [OF demo_callee_new demo_body_layout, of f 0] by (simp add: u32_max_def)
qed

text \<open>
  C29: the stack-limit check covers less than the prologue takes. For every layout computed for a
  body without tail calls, the size the prologue compares with the stack limit is smaller than the
  amount by which it then lowers the stack pointer by exactly the stack-slot size, which the frame
  counts twice, plus the eight bytes for the link register in functions that call.
\<close>

theorem stack_check_undercounts:
  assumes "callee_compute_frame_layout spillslots clobbered calls c0 = Some (Inr c)"
    and "body_frame_layout c = Some f" "body_tail_args_size c0 = body_incoming_args_size c0"
  shows "frame_stack_size f = prologue_stacksize f + body_stackslots_size c0 + (if calls = Calls_Regular then 8 else 0)"
proof -
  obtain fixed where f: "compute_frame_layout CC_SystemV clobbered calls (body_incoming_args_size c0)
      (body_tail_args_size c0) (body_stackslots_size c0) fixed (body_outgoing_args_size c0) = Some f"
    "incoming_args_size f = body_incoming_args_size c0"
    using assms(2) by (cases rule: callee_layout_cases [OF assms(1)]) simp
  then show ?thesis
    using compute_frame_layout_sel [OF f(1)] assms(3)
    by (simp add: frame_stack_size_def prologue_stacksize_def lr_size_def)
qed

theorem stack_check_undercounts_witness:
  "\<exists>f. body_frame_layout demo_body = Some f \<and> frame_stack_size f = prologue_stacksize f + 12"
proof -
  obtain f where f: "body_frame_layout demo_body = Some f"
    by (simp add: demo_body_def compute_frame_layout_def ensure_call_conv_def Let_def u32_max_def)
  then show ?thesis using stack_check_undercounts [OF demo_body_layout f] by (simp add: demo_callee_sel)
qed

end
