(* ===== verification/Mach_Buffer_Inv.thy ===== *)
theory Mach_Buffer_Inv
  imports Mach_Buffer
begin

text \<open>
  The invariants that the module documentation of \<open>buffer.rs\<close> states for the branch optimisation
  (section "Branch-optimization Correctness"), and that every operation of theory \<open>Mach_Buffer\<close> that
  instruction emission calls keeps them: the label lists of the latest branches and of the tail are
  complete and precise, no listed label is an alias, branch ranges are ordered and do not overlap, no
  label is bound past the tail, and aliases never form a cycle. The operations are the steps of
  \<open>buffer_step\<close>: bytes, labels, branches, deferred traps and constants, islands, patchable regions and
  records. From the invariants follows that resolving a label never panics, and that binding one
  panics only when it would remove a branch inside a patchable region.
\<close>

section \<open>Label sets and aliases\<close>

text \<open>The labels that are bound to an offset and are not aliases.\<close>

definition labels_at :: "mach_buffer \<Rightarrow> code_offset \<Rightarrow> mach_label set" where
  "labels_at b off = {l. l < length (label_offsets b) \<and> l < length (label_aliases b) \<and>
     label_aliases b ! l = None \<and> label_offsets b ! l = Some off}"

definition alias_rel :: "mach_buffer \<Rightarrow> (mach_label \<times> mach_label) set" where
  "alias_rel b = {(l, l'). l < length (label_aliases b) \<and> label_aliases b ! l = Some l'}"

definition labels_wf :: "mach_buffer \<Rightarrow> bool" where
  "labels_wf b \<longleftrightarrow> length (label_aliases b) = length (label_offsets b) \<and>
     (\<forall>(l, l') \<in> alias_rel b. l' < length (label_aliases b)) \<and> acyclic (alias_rel b)"

lemma alias_rel_single: "(l, x) \<in> alias_rel b \<Longrightarrow> (l, y) \<in> alias_rel b \<Longrightarrow> x = y"
  by (simp add: alias_rel_def)

text \<open>The labels a label is an alias of, directly or not.\<close>

definition alias_targets :: "mach_buffer \<Rightarrow> mach_label \<Rightarrow> mach_label set" where
  "alias_targets b l = {l'. (l, l') \<in> (alias_rel b)\<^sup>+}"

lemma alias_targets_bounded:
  assumes "labels_wf b" shows "alias_targets b l \<subseteq> {..<length (label_aliases b)}"
proof -
  have "l' < length (label_aliases b)" if "(l, l') \<in> (alias_rel b)\<^sup>+" for l'
    using that assms by (induction) (auto simp: labels_wf_def)
  then show ?thesis by (auto simp: alias_targets_def)
qed

lemma alias_targets_step:
  assumes "labels_wf b" "(l, l') \<in> alias_rel b"
  shows "alias_targets b l' \<subset> alias_targets b l"
proof -
  have "l' \<in> alias_targets b l" using assms(2) by (auto simp: alias_targets_def)
  moreover have "l' \<notin> alias_targets b l'"
    using assms(1) by (simp add: alias_targets_def labels_wf_def acyclic_def)
  moreover have "alias_targets b l' \<subseteq> alias_targets b l"
    using assms(2) by (auto simp: alias_targets_def intro: trancl_into_trancl2)
  ultimately show ?thesis by blast
qed

lemma resolve_hops_total:
  assumes "labels_wf b" "l < length (label_offsets b)" "card (alias_targets b l) \<le> n"
  shows "\<exists>off. resolve_hops n b l = Some off"
  using assms(2,3)
proof (induction n arbitrary: l)
  case 0
  have "finite (alias_targets b l)"
    using alias_targets_bounded [OF assms(1)] finite_subset by blast
  with 0 have "alias_targets b l = {}" by simp
  then have "(l, l') \<notin> alias_rel b" for l' by (auto simp: alias_targets_def)
  then have "label_aliases b ! l = None"
    using 0 assms(1) by (cases "label_aliases b ! l") (auto simp: alias_rel_def labels_wf_def)
  then show ?case using 0 assms(1) by (simp add: resolve_hops.simps labels_wf_def)
next
  case (Suc n)
  have len: "length (label_aliases b) = length (label_offsets b)" using assms(1) by (simp add: labels_wf_def)
  show ?case
  proof (cases "label_aliases b ! l")
    case None
    then show ?thesis using Suc.prems len by (simp add: resolve_hops.simps)
  next
    case (Some l')
    then have r: "(l, l') \<in> alias_rel b" using Suc.prems len by (simp add: alias_rel_def)
    have "finite (alias_targets b l)"
      using alias_targets_bounded [OF assms(1)] finite_subset by blast
    then have "card (alias_targets b l') < card (alias_targets b l)"
      using alias_targets_step [OF assms(1) r] by (rule psubset_card_mono)
    moreover have "l' < length (label_offsets b)" using assms(1) r len by (auto simp: labels_wf_def)
    ultimately have "\<exists>off. resolve_hops n b l' = Some off" using Suc by auto
    then show ?thesis using Suc.prems Some len by (subst resolve_hops.simps) simp
  qed
qed

lemma card_alias_targets:
  assumes "labels_wf b" "l < length (label_offsets b)"
  shows "card (alias_targets b l) < length (label_offsets b)"
proof -
  have "l \<notin> alias_targets b l"
    using assms(1) by (simp add: alias_targets_def labels_wf_def acyclic_def)
  then have "alias_targets b l \<subset> {..<length (label_offsets b)}"
    using alias_targets_bounded [OF assms(1), of l] assms by (auto simp: labels_wf_def)
  from psubset_card_mono [OF _ this] show ?thesis by simp
qed

lemma resolve_total:
  assumes "labels_wf b" "l < length (label_offsets b)" "length (label_offsets b) \<le> Suc MAX_ALIAS_HOPS"
  shows "\<exists>off. resolve_label_offset b l = Some off"
  unfolding resolve_label_offset_def
  using assms card_alias_targets [OF assms(1,2)] by (intro resolve_hops_total) auto

text \<open>What resolving returns: the offset of the unaliased end of the chain.\<close>

lemma resolve_hops_chain:
  "resolve_hops n b l = Some off \<Longrightarrow> (l, l') \<in> (alias_rel b)\<^sup>* \<Longrightarrow> label_aliases b ! l' = None \<Longrightarrow>
     label_offsets b ! l' = off"
proof (induction n arbitrary: l)
  case 0
  then show ?case
    by (auto simp: resolve_hops.simps [of 0] alias_rel_def elim: converse_rtranclE
        split: if_splits option.splits)
next
  case (Suc n)
  show ?case
  proof (cases "label_aliases b ! l")
    case None
    then have "l' = l" using Suc.prems(2) by (auto simp: alias_rel_def elim: converse_rtranclE)
    then show ?thesis using Suc.prems None by (simp add: resolve_hops.simps [of "Suc n"] split: if_splits)
  next
    case (Some x)
    then have "(x, l') \<in> (alias_rel b)\<^sup>*"
      using Suc.prems(2,3) by (auto simp: alias_rel_def elim: converse_rtranclE)
    moreover have "resolve_hops n b x = Some off"
      using Suc.prems(1) Some by (simp add: resolve_hops.simps [of "Suc n"] split: if_splits)
    ultimately show ?thesis using Suc.IH Suc.prems(3) by blast
  qed
qed

lemma resolve_chain:
  "resolve_label_offset b l = Some off \<Longrightarrow> (l, l') \<in> (alias_rel b)\<^sup>* \<Longrightarrow> label_aliases b ! l' = None \<Longrightarrow>
     label_offsets b ! l' = off"
  unfolding resolve_label_offset_def by (rule resolve_hops_chain)

lemma resolve_target_bound: "resolve_label_offset b l = Some off \<Longrightarrow> l < length (label_aliases b)"
  by (simp add: resolve_label_offset_def resolve_hops.simps split: if_splits)

section \<open>Aliasing a set of labels to one target\<close>

lemma acyclic_alias_all:
  assumes "acyclic r" "\<forall>l \<in> L. (t, l) \<notin> r\<^sup>*" "finite L"
  shows "acyclic (r \<union> L \<times> {t})"
  using assms(3,2,1)
proof (induction L arbitrary: r)
  case (insert l L)
  have tl: "(t, l) \<notin> r\<^sup>*" using insert.prems by simp
  let ?r = "insert (l, t) r"
  have "acyclic ?r" using insert.prems(2) tl by (simp add: acyclic_insert)
  moreover have "\<forall>x \<in> L. (t, x) \<notin> ?r\<^sup>*"
    using insert.prems(1) tl by (auto simp: rtrancl_insert)
  ultimately have "acyclic (?r \<union> L \<times> {t})" using insert.IH by blast
  then show ?case by (simp add: insert_Times_insert Un_ac)
qed simp

lemma fold_update_nth:
  "\<forall>l \<in> set ls. l < length xs \<Longrightarrow> i < length xs \<Longrightarrow>
     fold (\<lambda>l xs. xs[l := v]) ls xs ! i = (if i \<in> set ls then v else xs ! i)"
  by (induction ls arbitrary: xs) auto

lemma fold_update_length [simp]: "length (fold (\<lambda>l xs. xs[l := v]) ls xs) = length xs"
  by (induction ls arbitrary: xs) auto

section \<open>The invariant\<close>

definition branch_ok :: "mach_buffer \<Rightarrow> mach_branch \<Rightarrow> bool" where
  "branch_ok b br \<longleftrightarrow> br_start br < br_end br \<and> br_end br \<le> cur_offset b \<and>
     set (br_labels br) = labels_at b (br_start br) \<and>
     (\<forall>off. br_start br < off \<and> off < br_end br \<longrightarrow> labels_at b off = {}) \<and>
     (\<forall>inv. br_inverted br = Some inv \<longrightarrow> length inv = br_end br - br_start br) \<and>
     br_target br < length (label_offsets b) \<and>
     br_fixup br < length (pending_fixup_records b)"

definition branches_ordered :: "mach_branch list \<Rightarrow> bool" where
  "branches_ordered bs \<longleftrightarrow>
     sorted_wrt (\<lambda>x y. br_end x \<le> br_start y \<and> br_fixup x < br_fixup y) bs"

definition tail_ok :: "mach_buffer \<Rightarrow> bool" where
  "tail_ok b \<longleftrightarrow> labels_at_tail_off b \<le> cur_offset b \<and>
     labels_at b (cur_offset b) =
       (if labels_at_tail_off b = cur_offset b then set (labels_at_tail b) else {})"

definition buffer_inv :: "mach_buffer \<Rightarrow> bool" where
  "buffer_inv b \<longleftrightarrow> labels_wf b \<and> tail_ok b \<and>
     (\<forall>off. cur_offset b < off \<longrightarrow> labels_at b off = {}) \<and>
     (\<forall>br \<in> set (latest_branches b). branch_ok b br) \<and> branches_ordered (latest_branches b)"

text \<open>
  The parts of the state the invariant depends on; \<open>data\<close> only through its length.
\<close>

lemma labels_at_cong:
  "label_offsets b' = label_offsets b \<Longrightarrow> label_aliases b' = label_aliases b \<Longrightarrow>
     labels_at b' off = labels_at b off"
  by (simp add: labels_at_def)

lemma labels_wf_cong:
  "label_offsets b' = label_offsets b \<Longrightarrow> label_aliases b' = label_aliases b \<Longrightarrow>
     labels_wf b' = labels_wf b"
  by (simp add: labels_wf_def alias_rel_def)

lemma buffer_invD:
  assumes "buffer_inv b"
  shows "labels_wf b" "tail_ok b" "cur_offset b < off \<Longrightarrow> labels_at b off = {}"
    "br \<in> set (latest_branches b) \<Longrightarrow> branch_ok b br" "branches_ordered (latest_branches b)"
    "length (label_aliases b) = length (label_offsets b)"
  using assms by (auto simp: buffer_inv_def labels_wf_def)

lemma labels_at_unaliased:
  "l \<in> labels_at b off \<Longrightarrow> l < length (label_aliases b) \<and> l < length (label_offsets b) \<and>
     label_aliases b ! l = None \<and> label_offsets b ! l = Some off"
  by (simp add: labels_at_def)

section \<open>Appending bytes and allocating labels\<close>

lemma put_data_inv:
  assumes "buffer_inv b" shows "buffer_inv (put_data bytes b)"
proof (cases "bytes = []")
  case True
  then show ?thesis using assms by (simp add: put_data_def)
next
  case False
  let ?b = "put_data bytes b"
  have co: "cur_offset ?b = cur_offset b + length bytes"
    by (simp add: put_data_def cur_offset_def)
  have la: "labels_at ?b off = labels_at b off" for off
    by (rule labels_at_cong) (simp_all add: put_data_def)
  have empty: "labels_at b (cur_offset b + length bytes) = {}"
    using assms False by (simp add: buffer_inv_def)
  have t: "labels_at_tail_off b \<le> cur_offset b"
    using buffer_invD(2) [OF assms] by (simp add: tail_ok_def)
  have "labels_at_tail_off b \<noteq> cur_offset b + length bytes" using t False by auto
  then have "tail_ok ?b"
    using t empty unfolding tail_ok_def la co by (simp add: put_data_def)
  moreover have "labels_wf ?b"
    using buffer_invD(1) [OF assms] labels_wf_cong [of ?b b] by (simp add: put_data_def)
  moreover have "branch_ok ?b br" if "br \<in> set (latest_branches b)" for br
    using buffer_invD(4) [OF assms that] unfolding branch_ok_def la co by (simp add: put_data_def)
  ultimately show ?thesis
    using assms unfolding buffer_inv_def la co by (simp add: put_data_def)
qed

lemma get_appended_space_inv: "buffer_inv b \<Longrightarrow> buffer_inv (get_appended_space n b)"
  using put_data_inv [of b "replicate n 0"] by (simp add: put_data_def get_appended_space_def)

lemma align_buffer_inv: "buffer_inv b \<Longrightarrow> align_buffer a b = Some b' \<Longrightarrow> buffer_inv b'"
  by (auto simp: align_buffer_def get_appended_space_inv split: if_splits)

lemma get_label_inv:
  assumes "buffer_inv b" "get_label b = (l, b')"
  shows "buffer_inv b'" "l < length (label_offsets b')" "\<forall>off. l \<notin> labels_at b' off"
proof -
  have b': "b' = b\<lparr>label_offsets := label_offsets b @ [None], label_aliases := label_aliases b @ [None]\<rparr>"
    and l: "l = length (label_offsets b)"
    using assms(2) by (simp_all add: get_label_def)
  note len = buffer_invD(6) [OF assms(1)]
  have la: "labels_at b' off = labels_at b off" for off
    using len by (auto simp: labels_at_def b' nth_append)
  have ar: "alias_rel b' = alias_rel b"
    by (auto simp: alias_rel_def b' nth_append split: if_splits)
  have "labels_wf b'"
    using buffer_invD(1) [OF assms(1)] unfolding labels_wf_def ar by (fastforce simp: b')
  moreover have "tail_ok b'"
    using buffer_invD(2) [OF assms(1)] unfolding tail_ok_def la by (simp add: b' cur_offset_def)
  moreover have "branch_ok b' br" if "br \<in> set (latest_branches b)" for br
    using buffer_invD(4) [OF assms(1) that] unfolding branch_ok_def la by (simp add: b' cur_offset_def)
  ultimately show "buffer_inv b'"
    using assms(1) unfolding buffer_inv_def la by (simp add: b' cur_offset_def)
  show "l < length (label_offsets b')" by (simp add: b' l)
  show "\<forall>off. l \<notin> labels_at b' off" using len by (simp add: labels_at_def b' l nth_append)
qed

lemma use_label_inv:
  assumes "buffer_inv b" shows "buffer_inv (use_label_at_offset off l k b)"
proof -
  let ?b = "use_label_at_offset off l k b"
  have la: "labels_at ?b o' = labels_at b o'" for o'
    by (rule labels_at_cong) (simp_all add: use_label_at_offset_def Let_def)
  have f: "cur_offset ?b = cur_offset b" "latest_branches ?b = latest_branches b"
    "labels_at_tail ?b = labels_at_tail b" "labels_at_tail_off ?b = labels_at_tail_off b"
    "label_offsets ?b = label_offsets b" "label_aliases ?b = label_aliases b"
    "length (pending_fixup_records ?b) = Suc (length (pending_fixup_records b))"
    by (simp_all add: use_label_at_offset_def Let_def cur_offset_def)
  have "labels_wf ?b" using buffer_invD(1) [OF assms] labels_wf_cong [of ?b b] f by simp
  moreover have "branch_ok ?b br" if "br \<in> set (latest_branches b)" for br
    using buffer_invD(4) [OF assms that] unfolding branch_ok_def la f by simp
  ultimately show ?thesis
    using assms unfolding buffer_inv_def tail_ok_def la f by simp
qed

section \<open>Branches and branch optimisation\<close>

lemma lazily_clear_inv:
  assumes "buffer_inv b"
  shows "buffer_inv (lazily_clear_labels_at_tail b)"
    "set (labels_at_tail (lazily_clear_labels_at_tail b)) = labels_at b (cur_offset b)"
    "labels_at_tail_off (lazily_clear_labels_at_tail b) = cur_offset b"
proof -
  let ?b = "lazily_clear_labels_at_tail b"
  have la: "labels_at ?b o' = labels_at b o'" for o'
    by (rule labels_at_cong) (simp_all add: lazily_clear_labels_at_tail_def)
  have f: "cur_offset ?b = cur_offset b" "latest_branches ?b = latest_branches b"
    "label_offsets ?b = label_offsets b" "label_aliases ?b = label_aliases b"
    "pending_fixup_records ?b = pending_fixup_records b"
    by (simp_all add: lazily_clear_labels_at_tail_def cur_offset_def)
  have t: "tail_ok b" by (rule buffer_invD(2) [OF assms])
  then show tail: "set (labels_at_tail ?b) = labels_at b (cur_offset b)"
    and off: "labels_at_tail_off ?b = cur_offset b"
    by (auto simp: tail_ok_def lazily_clear_labels_at_tail_def)
  have "labels_wf ?b" using buffer_invD(1) [OF assms] labels_wf_cong [of ?b b] f by simp
  moreover have "branch_ok ?b br" if "br \<in> set (latest_branches b)" for br
    using buffer_invD(4) [OF assms that] unfolding branch_ok_def la f by simp
  ultimately show "buffer_inv ?b"
    using assms tail off unfolding buffer_inv_def tail_ok_def la f by simp
qed

text \<open>
  Announcing a branch and emitting its bytes at once, as every emitter does: the branch record
  refers to the last fixup, spans exactly the bytes, and its labels are those at the tail.
\<close>

lemma add_branch_put_inv:
  assumes "buffer_inv b" "add_branch start stop target opp b = Some b1"
    and "length bytes = stop - start" "target < length (label_offsets b)"
    and fresh: "\<forall>br \<in> set (latest_branches b). br_fixup br < length (pending_fixup_records b) - 1"
  shows "buffer_inv (put_data bytes b1)"
proof -
  let ?c = "lazily_clear_labels_at_tail b"
  let ?new = "\<lparr>br_start = start, br_end = stop, br_target = target,
    br_fixup = length (pending_fixup_records b) - 1, br_inverted = opp, br_labels = labels_at_tail ?c\<rparr>"
  have start: "start = cur_offset b" and ne: "pending_fixup_records b \<noteq> []" and lt: "start < stop"
    and opp: "\<And>i. opp = Some i \<Longrightarrow> length i = stop - start"
    and b1: "b1 = ?c\<lparr>latest_branches := latest_branches ?c @ [?new]\<rparr>"
    using assms(2) by (auto simp: add_branch_def Let_def split: if_splits)
  note c = lazily_clear_inv [OF assms(1)]
  have cf: "cur_offset ?c = cur_offset b" "latest_branches ?c = latest_branches b"
    "label_offsets ?c = label_offsets b" "label_aliases ?c = label_aliases b"
    "pending_fixup_records ?c = pending_fixup_records b"
    by (simp_all add: lazily_clear_labels_at_tail_def cur_offset_def)
  let ?p = "put_data bytes ?c" and ?q = "put_data bytes b1"
  have p: "buffer_inv ?p" by (rule put_data_inv [OF c(1)])
  have q: "?q = ?p\<lparr>latest_branches := latest_branches ?p @ [?new]\<rparr>"
    by (simp add: b1 put_data_def)
  have la: "labels_at ?q off = labels_at b off" for off
    by (rule labels_at_cong) (simp_all add: b1 put_data_def cf)
  have lap: "labels_at ?p off = labels_at b off" for off
    by (rule labels_at_cong) (simp_all add: put_data_def cf)
  have co: "cur_offset ?q = stop" "cur_offset ?p = stop"
    using assms(3) lt start cf(1) by (simp_all add: b1 put_data_def cur_offset_def)
  have old: "branch_ok ?q br" if "br \<in> set (latest_branches b)" for br
    using buffer_invD(4) [OF p, of br] that cf
    unfolding branch_ok_def la lap co by (simp add: b1 put_data_def)
  have "branch_ok ?q ?new"
    using assms(4) lt opp buffer_invD(3) [OF assms(1)] ne c(2) start
    unfolding branch_ok_def la co by (simp add: b1 put_data_def cf)
  moreover have "br_end br \<le> start \<and> br_fixup br < length (pending_fixup_records b) - 1"
    if "br \<in> set (latest_branches b)" for br
    using buffer_invD(4) [OF assms(1) that] fresh that start by (simp add: branch_ok_def)
  ultimately have "\<forall>br \<in> set (latest_branches b @ [?new]). branch_ok ?q br"
    "branches_ordered (latest_branches b @ [?new])"
    using old buffer_invD(5) [OF assms(1)] by (auto simp: branches_ordered_def sorted_wrt_append)
  moreover have "labels_wf ?q"
    using buffer_invD(1) [OF p] labels_wf_cong [of ?q ?p] by (simp add: b1 put_data_def)
  moreover have "tail_ok ?q"
    using buffer_invD(2) [OF p] unfolding tail_ok_def la lap co by (simp add: b1 put_data_def)
  moreover have "latest_branches ?q = latest_branches b @ [?new]" by (simp add: b1 put_data_def cf)
  ultimately show ?thesis
    using buffer_invD(3) [OF p] unfolding buffer_inv_def la lap co by simp
qed

text \<open>
  Truncating the last branch: every label at the tail and at the branch's start is at the new tail.
\<close>

lemma lazily_clear_sel [simp]:
  "cur_offset (lazily_clear_labels_at_tail b) = cur_offset b"
  "latest_branches (lazily_clear_labels_at_tail b) = latest_branches b"
  "label_offsets (lazily_clear_labels_at_tail b) = label_offsets b"
  "label_aliases (lazily_clear_labels_at_tail b) = label_aliases b"
  "pending_fixup_records (lazily_clear_labels_at_tail b) = pending_fixup_records b"
  "data (lazily_clear_labels_at_tail b) = data b"
  "open_patchable (lazily_clear_labels_at_tail b) = open_patchable b"
  by (simp_all add: lazily_clear_labels_at_tail_def cur_offset_def)

lemma truncate_cases:
  assumes "truncate_last_branch b = Some b'" "branch_ok b (last (latest_branches b))"
  defines "br \<equiv> last (latest_branches b)" and "tail \<equiv> labels_at_tail (lazily_clear_labels_at_tail b)"
  shows "br_end br = cur_offset b" "\<forall>l \<in> set tail. l < length (label_offsets b)"
    "label_offsets b' = fold (\<lambda>l os. os[l := Some (br_start br)]) tail (label_offsets b)"
    "label_aliases b' = label_aliases b" "latest_branches b' = butlast (latest_branches b)"
    "pending_fixup_records b' = take (br_fixup br) (pending_fixup_records b)"
    "labels_at_tail b' = tail @ br_labels br" "labels_at_tail_off b' = br_start br"
    "cur_offset b' = br_start br" "open_patchable b' = open_patchable b"
proof -
  have "br_start br \<le> cur_offset b"
    using assms(2) by (simp add: branch_ok_def br_def)
  then have m: "min (br_start br) (cur_offset b) = br_start br" by simp
  have eqs: "br_end br = cur_offset b \<and> (\<forall>l \<in> set tail. l < length (label_offsets b)) \<and>
    b' = (let c = lazily_clear_labels_at_tail b;
              b1 = c\<lparr>latest_branches := butlast (latest_branches c),
                     data := take (br_start br) (data c),
                     pending_fixup_records := take (br_fixup br) (pending_fixup_records c),
                     srclocs := rev (trim_srclocs (br_start br) (rev (srclocs c))),
                     debug_tags := rev (dropWhile (\<lambda>o'. br_start br < o') (rev (debug_tags c))),
                     labels_at_tail_off := br_start br\<rparr>;
              b2 = set_offsets (labels_at_tail b1) (br_start br) b1
          in b2\<lparr>labels_at_tail := labels_at_tail b2 @ br_labels br\<rparr>)"
    using assms(1) m unfolding truncate_last_branch_def br_def tail_def
    by (simp add: Let_def not_le split: if_split_asm)
  then show "br_end br = cur_offset b" "\<forall>l \<in> set tail. l < length (label_offsets b)" by simp_all
  from eqs have b': "b' = (let c = lazily_clear_labels_at_tail b;
              b1 = c\<lparr>latest_branches := butlast (latest_branches c),
                     data := take (br_start br) (data c),
                     pending_fixup_records := take (br_fixup br) (pending_fixup_records c),
                     srclocs := rev (trim_srclocs (br_start br) (rev (srclocs c))),
                     debug_tags := rev (dropWhile (\<lambda>o'. br_start br < o') (rev (debug_tags c))),
                     labels_at_tail_off := br_start br\<rparr>;
              b2 = set_offsets (labels_at_tail b1) (br_start br) b1
          in b2\<lparr>labels_at_tail := labels_at_tail b2 @ br_labels br\<rparr>)" by simp
  show "label_offsets b' = fold (\<lambda>l os. os[l := Some (br_start br)]) tail (label_offsets b)"
    "label_aliases b' = label_aliases b" "latest_branches b' = butlast (latest_branches b)"
    "pending_fixup_records b' = take (br_fixup br) (pending_fixup_records b)"
    "labels_at_tail b' = tail @ br_labels br" "labels_at_tail_off b' = br_start br"
    unfolding b' tail_def by (simp_all add: Let_def set_offsets_def)
  show "cur_offset b' = br_start br"
    using m unfolding b' by (simp add: Let_def set_offsets_def cur_offset_def)
  show "open_patchable b' = open_patchable b" unfolding b' by (simp add: Let_def set_offsets_def)
qed

text \<open>The branches before the last one end before it starts and use earlier fixups.\<close>

lemma branches_before_last:
  assumes "branches_ordered bs" "x \<in> set (butlast bs)"
  shows "br_end x \<le> br_start (last bs) \<and> br_fixup x < br_fixup (last bs)"
proof -
  have "bs = butlast bs @ [last bs]" using assms(2) by (metis append_butlast_last_id in_set_butlastD empty_iff list.set(1))
  then have "sorted_wrt (\<lambda>x y. br_end x \<le> br_start y \<and> br_fixup x < br_fixup y) (butlast bs @ [last bs])"
    using assms(1) by (simp add: branches_ordered_def)
  then show ?thesis using assms(2) by (auto simp: sorted_wrt_append)
qed

lemma branches_ordered_butlast:
  assumes "branches_ordered bs" shows "branches_ordered (butlast bs)"
  using assms unfolding branches_ordered_def by (simp add: butlast_conv_take sorted_wrt_take)

lemma truncate_labels_at:
  assumes "buffer_inv b" "truncate_last_branch b = Some b'"
  defines "br \<equiv> last (latest_branches b)"
  shows "labels_at b' off =
    (if off = br_start br then labels_at b off \<union> labels_at b (cur_offset b)
     else if off = cur_offset b then {} else labels_at b off)"
proof -
  have ne: "latest_branches b \<noteq> []" using truncate_last_branch_latest [OF assms(2)] by simp
  then have ok: "branch_ok b br" using buffer_invD(4) [OF assms(1)] by (simp add: br_def)
  note tc = truncate_cases [OF assms(2) ok [unfolded br_def]]
  have lt: "br_start br < cur_offset b" using ok tc(1) by (simp add: branch_ok_def br_def)
  have tl: "set (labels_at_tail (lazily_clear_labels_at_tail b)) = labels_at b (cur_offset b)"
    by (rule lazily_clear_inv(2) [OF assms(1)])
  have len: "length (label_offsets b') = length (label_offsets b)" by (simp add: tc(3))
  have nth: "label_offsets b' ! l =
      (if l \<in> labels_at b (cur_offset b) then Some (br_start br) else label_offsets b ! l)"
    if "l < length (label_offsets b)" for l
    using that tc(2) by (simp add: tc(3) fold_update_nth tl br_def)
  show ?thesis
    unfolding labels_at_def [of b'] len tc(4)
    using lt by (auto simp: nth labels_at_def split: if_splits)
qed

lemma truncate_inv:
  assumes "buffer_inv b" "truncate_last_branch b = Some b'"
  shows "buffer_inv b'" "length (label_offsets b') = length (label_offsets b)"
    "open_patchable b' = open_patchable b"
proof -
  define br where "br = last (latest_branches b)"
  have ne: "latest_branches b \<noteq> []" using truncate_last_branch_latest [OF assms(2)] by simp
  then have ok: "branch_ok b br" using buffer_invD(4) [OF assms(1)] by (simp add: br_def)
  note tc = truncate_cases [OF assms(2) ok [unfolded br_def], folded br_def]
  note la = truncate_labels_at [OF assms, folded br_def]
  have lt: "br_start br < cur_offset b" using ok tc(1) by (simp add: branch_ok_def)
  show len: "length (label_offsets b') = length (label_offsets b)" by (simp add: tc(3))
  show "open_patchable b' = open_patchable b" by (rule tc(10))
  have gone: "labels_at b' off = {}" if "br_start br < off" for off
    using that ok tc(1) buffer_invD(3) [OF assms(1), of off] unfolding la branch_ok_def
    by (cases "off < cur_offset b"; cases "off = cur_offset b") auto
  have bo: "branch_ok b' x" if x: "x \<in> set (butlast (latest_branches b))" for x
  proof -
    have okx: "branch_ok b x" using buffer_invD(4) [OF assms(1)] in_set_butlastD [OF x] by simp
    have before: "br_end x \<le> br_start br" "br_fixup x < br_fixup br"
      using branches_before_last [OF buffer_invD(5) [OF assms(1)] x] by (simp_all add: br_def)
    have same: "labels_at b' off = labels_at b off" if "off < br_start br" for off
      using that lt unfolding la by simp
    have "br_start x < br_start br" using okx before by (simp add: branch_ok_def)
    then show ?thesis
      using okx before ok same unfolding branch_ok_def tc(6,9) len by (auto simp: branch_ok_def)
  qed
  have ar: "alias_rel b' = alias_rel b" by (simp add: alias_rel_def tc(4))
  have "labels_wf b'" using buffer_invD(1) [OF assms(1)] unfolding labels_wf_def ar tc(4) len .
  moreover have "tail_ok b'"
    using ok lazily_clear_inv(2) [OF assms(1)] unfolding tail_ok_def tc(7-9) la branch_ok_def
    by (simp add: Un_commute)
  ultimately show "buffer_inv b'"
    using gone bo branches_ordered_butlast [OF buffer_invD(5) [OF assms(1)]]
    unfolding buffer_inv_def tc(5,9) by simp
qed

text \<open>Redirecting the labels of an unconditional branch to its target.\<close>

lemma redirect_inv:
  assumes "buffer_inv b" "latest_branches b \<noteq> []"
  defines "br \<equiv> last (latest_branches b)"
  assumes target: "resolve_label_offset b (br_target br) = Some off" "off \<noteq> Some (br_start br)"
    and at_tail: "br_end br = cur_offset b"
  shows "buffer_inv (redirect_labels br b)"
    "label_offsets (redirect_labels br b) = label_offsets b"
proof -
  let ?b = "redirect_labels br b" and ?t = "br_target br"
  have ok: "branch_ok b br" using buffer_invD(4) [OF assms(1)] assms(2) by (simp add: br_def)
  have L: "set (br_labels br) = labels_at b (br_start br)" using ok by (simp add: branch_ok_def)
  have lb: "\<forall>l \<in> set (br_labels br). l < length (label_aliases b)" by (simp add: L labels_at_def)
  have sel: "label_offsets ?b = label_offsets b" "cur_offset ?b = cur_offset b"
    "labels_at_tail ?b = labels_at_tail b" "labels_at_tail_off ?b = labels_at_tail_off b"
    "pending_fixup_records ?b = pending_fixup_records b" "length (label_aliases ?b) = length (label_aliases b)"
    by (simp_all add: redirect_labels_def cur_offset_def)
  then show "label_offsets ?b = label_offsets b" by simp
  have nth: "label_aliases ?b ! l = (if l \<in> labels_at b (br_start br) then Some ?t else label_aliases b ! l)"
    if "l < length (label_aliases b)" for l
    using that lb by (simp add: redirect_labels_def fold_update_nth L)
  have la: "labels_at ?b o' = (if o' = br_start br then {} else labels_at b o')" for o'
    unfolding labels_at_def [of ?b] sel by (auto simp: nth labels_at_def split: if_splits)
  have rel: "alias_rel ?b = alias_rel b \<union> labels_at b (br_start br) \<times> {?t}"
  proof -
    have "(l, l') \<in> alias_rel ?b \<longleftrightarrow> (l, l') \<in> alias_rel b \<or> l \<in> labels_at b (br_start br) \<and> l' = ?t" for l l'
      by (cases "l < length (label_aliases b)"; cases "l \<in> labels_at b (br_start br)")
         (auto simp: alias_rel_def sel nth dest: labels_at_unaliased)
    then show ?thesis by auto
  qed
  have fin: "finite (labels_at b (br_start br))" unfolding L [symmetric] by simp
  have "\<forall>l \<in> labels_at b (br_start br). (?t, l) \<notin> (alias_rel b)\<^sup>*"
    using resolve_chain [OF target(1)] target(2) labels_at_unaliased by metis
  then have "acyclic (alias_rel ?b)"
    unfolding rel using buffer_invD(1) [OF assms(1)] fin
    by (intro acyclic_alias_all) (simp_all add: labels_wf_def)
  moreover have "?t < length (label_aliases b)" by (rule resolve_target_bound [OF target(1)])
  ultimately have wf: "labels_wf ?b"
    using buffer_invD(1) [OF assms(1)] unfolding labels_wf_def sel by (auto simp: rel)
  have lt: "br_start br < cur_offset b" using ok at_tail by (simp add: branch_ok_def)
  have tail: "tail_ok ?b"
    using buffer_invD(2) [OF assms(1)] lt unfolding tail_ok_def sel la by simp
  have lb': "latest_branches ?b = butlast (latest_branches b) @ [br\<lparr>br_labels := []\<rparr>]"
    by (simp add: br_def)
  have "branch_ok ?b x" if "x \<in> set (butlast (latest_branches b))" for x
  proof -
    have "branch_ok b x" using buffer_invD(4) [OF assms(1)] in_set_butlastD [OF that] by simp
    moreover have "br_end x \<le> br_start br"
      using branches_before_last [OF buffer_invD(5) [OF assms(1)] that] by (simp add: br_def)
    ultimately show ?thesis unfolding branch_ok_def sel la by auto
  qed
  moreover have "branch_ok ?b (br\<lparr>br_labels := []\<rparr>)"
    using ok unfolding branch_ok_def sel la by simp
  moreover have "branches_ordered (butlast (latest_branches b) @ [br\<lparr>br_labels := []\<rparr>])"
    using branches_before_last [OF buffer_invD(5) [OF assms(1)]]
      branches_ordered_butlast [OF buffer_invD(5) [OF assms(1)]]
    by (auto simp: branches_ordered_def sorted_wrt_append br_def)
  ultimately show "buffer_inv ?b"
    using wf tail buffer_invD(3) [OF assms(1)] unfolding buffer_inv_def lb' sel la
    by (simp add: ball_Un)
qed

text \<open>Folding the branch around an unconditional branch.\<close>

lemma invert_prev_inv:
  assumes "buffer_inv b" "latest_branches b \<noteq> []" "target < length (label_offsets b)"
  defines "prev \<equiv> last (latest_branches b)"
  assumes "br_end prev = cur_offset b" "length inverted = br_end prev - br_start prev"
  shows "\<exists>b'. invert_prev target inverted b = Some b' \<and> buffer_inv b' \<and>
    label_offsets b' = label_offsets b \<and> open_patchable b' = open_patchable b"
proof -
  have ok: "branch_ok b prev" using buffer_invD(4) [OF assms(1)] assms(2) by (simp add: prev_def)
  let ?new = "prev\<lparr>br_inverted := Some (take (br_end prev - br_start prev) (drop (br_start prev) (data b))),
    br_target := target\<rparr>"
  let ?b = "b\<lparr>data := take (br_start prev) (data b) @ inverted,
     pending_fixup_records := (pending_fixup_records b)[br_fixup prev :=
       (pending_fixup_records b ! br_fixup prev)\<lparr>fix_label := target\<rparr>],
     latest_branches := butlast (latest_branches b) @ [?new]\<rparr>"
  have eq: "invert_prev target inverted b = Some ?b"
    using ok assms(2,5,6) by (auto simp: invert_prev_def Let_def prev_def branch_ok_def cur_offset_def)
  have la: "labels_at ?b off = labels_at b off" for off
    by (rule labels_at_cong) simp_all
  have co: "cur_offset ?b = cur_offset b"
    using assms(5,6) ok by (simp add: cur_offset_def branch_ok_def)
  have "branch_ok ?b ?new"
    using ok assms(3,5) unfolding branch_ok_def la co by (simp add: cur_offset_def)
  moreover have "branch_ok ?b x" if "x \<in> set (butlast (latest_branches b))" for x
    using buffer_invD(4) [OF assms(1) in_set_butlastD [OF that]] unfolding branch_ok_def la co by simp
  moreover have "branches_ordered (butlast (latest_branches b) @ [?new])"
    using branches_before_last [OF buffer_invD(5) [OF assms(1)]]
      branches_ordered_butlast [OF buffer_invD(5) [OF assms(1)]]
    by (auto simp: branches_ordered_def sorted_wrt_append prev_def)
  moreover have "labels_wf ?b" using buffer_invD(1) [OF assms(1)] labels_wf_cong [of ?b b] by simp
  moreover have "tail_ok ?b"
    using buffer_invD(2) [OF assms(1)] unfolding tail_ok_def la co by simp
  ultimately have "buffer_inv ?b"
    using buffer_invD(3) [OF assms(1)] unfolding buffer_inv_def la co by (simp add: ball_Un)
  then show ?thesis using eq by simp
qed

lemma truncate_total:
  assumes "buffer_inv b" "latest_branches b \<noteq> []" "br_end (last (latest_branches b)) = cur_offset b"
    and "\<not> open_patchable b"
  shows "\<exists>b'. truncate_last_branch b = Some b'"
proof -
  have "\<forall>l \<in> set (labels_at_tail (lazily_clear_labels_at_tail b)). l < length (label_offsets b)"
    unfolding lazily_clear_inv(2) [OF assms(1)] by (simp add: labels_at_def)
  then show ?thesis
    using assms(2-4) by (auto simp: truncate_last_branch_def Let_def not_le)
qed

lemma truncate_patchable: "open_patchable b \<Longrightarrow> truncate_last_branch b = None"
  by (simp add: truncate_last_branch_def)

text \<open>
  A result of the optimisation keeps the invariant, the number of labels and the patchable mark; the
  only panic is that of removing a branch inside a patchable region.
\<close>

definition keeps :: "mach_buffer \<Rightarrow> mach_buffer \<Rightarrow> bool" where
  "keeps b b' \<longleftrightarrow> buffer_inv b' \<and> length (label_offsets b') = length (label_offsets b) \<and>
     open_patchable b' = open_patchable b"

lemma keeps_refl: "buffer_inv b \<Longrightarrow> keeps b b"
  by (simp add: keeps_def)

lemma keeps_trans: "keeps a b \<Longrightarrow> keeps b c \<Longrightarrow> keeps a c"
  by (simp add: keeps_def)

definition step_result :: "mach_buffer \<Rightarrow> (mach_buffer + mach_buffer) option \<Rightarrow> bool" where
  "step_result b r \<longleftrightarrow> open_patchable b \<and> r = None \<or>
     (\<exists>b'. (r = Some (Inl b') \<or> r = Some (Inr b')) \<and> keeps b b')"

lemma step_resultI:
  "buffer_inv b \<Longrightarrow> step_result b (Some (Inl b))"
  "keeps b b' \<Longrightarrow> step_result b (Some (Inr b'))"
  by (auto simp: step_result_def keeps_refl)

lemma step_result_trans: "keeps a b \<Longrightarrow> step_result b r \<Longrightarrow> step_result a r"
  unfolding step_result_def by (auto simp: keeps_def)

lemma truncate_keeps: "buffer_inv b \<Longrightarrow> truncate_last_branch b = Some b' \<Longrightarrow> keeps b b'"
  unfolding keeps_def using truncate_inv [of b b'] by blast

lemma truncate_step:
  assumes "buffer_inv b" "latest_branches b \<noteq> []" "br_end (last (latest_branches b)) = cur_offset b"
  shows "step_result b (map_option Inr (truncate_last_branch b))"
proof (cases "open_patchable b")
  case True
  then show ?thesis by (simp add: step_result_def truncate_patchable)
next
  case False
  then show ?thesis using truncate_total [OF assms] truncate_keeps [OF assms(1)] by (auto intro: step_resultI)
qed

lemma butlast_last_nth:
  assumes "1 < length xs" shows "butlast xs \<noteq> []" "last (butlast xs) = xs ! (length xs - 2)"
proof -
  show ne: "butlast xs \<noteq> []" using assms by (auto simp flip: length_greater_0_conv)
  have "length xs - 1 - 1 = length xs - 2" by simp
  then show "last (butlast xs) = xs ! (length xs - 2)"
    using assms by (simp only: last_conv_nth [OF ne] length_butlast) (simp add: nth_butlast)
qed

lemma branch_target_resolves:
  assumes "buffer_inv b" "br \<in> set (latest_branches b)" "length (label_offsets b) \<le> Suc MAX_ALIAS_HOPS"
  shows "\<exists>off. resolve_label_offset b (br_target br) = Some off"
  using buffer_invD(1,4) [OF assms(1)] assms(2,3) by (intro resolve_total) (auto simp: branch_ok_def)

lemma prev_branch_rules_step:
  assumes "buffer_inv b" "latest_branches b \<noteq> []" "br_end (last (latest_branches b)) = cur_offset b"
    and "length (label_offsets b) \<le> Suc MAX_ALIAS_HOPS"
  shows "step_result b (prev_branch_rules b)"
proof (cases "length (latest_branches b) \<le> 1")
  case True
  then show ?thesis using assms(1) by (simp add: prev_branch_rules_def Let_def step_resultI)
next
  case False
  define br where "br = last (latest_branches b)"
  define prev where "prev = latest_branches b ! (length (latest_branches b) - 2)"
  have bl: "butlast (latest_branches b) \<noteq> []" "last (butlast (latest_branches b)) = prev"
    using butlast_last_nth False by (auto simp: prev_def not_le)
  then have mem: "prev \<in> set (latest_branches b)" by (metis in_set_butlastD last_in_set)
  have okp: "branch_ok b prev" and okb: "branch_ok b br"
    using buffer_invD(4) [OF assms(1)] mem assms(2) by (simp_all add: br_def)
  obtain off where off: "resolve_label_offset b (br_target prev) = Some off"
    using branch_target_resolves [OF assms(1) mem assms(4)] by blast
  have "step_result b (do { b' \<leftarrow> truncate_last_branch b;
      b'' \<leftarrow> invert_prev (br_target br) (the (br_inverted prev)) b'; Some (Inr b'') })"
    if c: "is_cond prev" and adj: "br_end prev = br_start br"
  proof (cases "truncate_last_branch b")
    case None
    then have "open_patchable b" using truncate_total [OF assms(1-3)] by auto
    then show ?thesis using None by (simp add: step_result_def)
  next
    case (Some b1)
    note inv1 = truncate_inv [OF assms(1) Some]
    have lb1: "latest_branches b1 = butlast (latest_branches b)"
      using truncate_last_branch_latest [OF Some] by simp
    have co1: "cur_offset b1 = br_start br"
      using truncate_cases(9) [OF Some okb [unfolded br_def]] by (simp add: br_def)
    obtain i where i: "br_inverted prev = Some i" "length i = br_end prev - br_start prev"
      using c okp by (auto simp: is_cond_def branch_ok_def)
    have "\<exists>b'. invert_prev (br_target br) i b1 = Some b' \<and> buffer_inv b' \<and> label_offsets b' = label_offsets b1
        \<and> open_patchable b' = open_patchable b1"
      using adj okb i(2) bl co1 inv1
      by (intro invert_prev_inv) (simp_all add: lb1 branch_ok_def)
    then show ?thesis using Some i(1) inv1(2,3) by (auto intro!: step_resultI simp: keeps_def)
  qed
  then show ?thesis
    using False assms(1) off truncate_step [OF assms(1-3)]
    by (auto simp: prev_branch_rules_def Let_def step_resultI simp flip: br_def prev_def)
qed

lemma optimize_step_ok:
  assumes "buffer_inv b" "length (label_offsets b) \<le> Suc MAX_ALIAS_HOPS"
  shows "step_result b (optimize_step b)"
proof (cases "latest_branches b = []")
  case True
  then show ?thesis using assms(1) by (simp add: optimize_step_def step_resultI)
next
  case False
  define br where "br = last (latest_branches b)"
  have ok: "branch_ok b br" using buffer_invD(4) [OF assms(1)] False by (simp add: br_def)
  obtain off where off: "resolve_label_offset b (br_target br) = Some off"
    using branch_target_resolves [OF assms(1) _ assms(2), of br] False unfolding br_def by (meson last_in_set)
  have "step_result b (branch_rules off br b)" if e: "br_end br = cur_offset b"
  proof -
    let ?r = "redirect_labels br b"
    note trunc = truncate_step [OF assms(1) False e [unfolded br_def]]
    have range: "\<not> (\<exists>l \<in> set (br_labels br). length (label_aliases b) \<le> l)"
      using ok by (auto simp: branch_ok_def labels_at_def)
    have "step_result b (if br_labels br \<noteq> [] then Some (Inr ?r) else prev_branch_rules ?r)"
      if "off \<noteq> Some (br_start br)"
    proof -
      note r = redirect_inv [OF assms(1) False off [unfolded br_def] that [unfolded br_def] e [unfolded br_def],
          folded br_def]
      have "step_result ?r (prev_branch_rules ?r)"
        using r assms(2) e False by (intro prev_branch_rules_step) (simp_all add: redirect_labels_def cur_offset_def flip: br_def)
      moreover have "keeps b ?r" using r by (simp add: keeps_def redirect_labels_def)
      ultimately show ?thesis using step_result_trans by (simp add: step_resultI)
    qed
    then show ?thesis
      using range trunc assms(1) by (simp add: branch_rules_def step_resultI)
  qed
  moreover have "br_end br \<le> cur_offset b" using ok by (simp add: branch_ok_def)
  ultimately show ?thesis
    using assms(1) off False by (auto simp: optimize_step_def Let_def step_resultI not_less simp flip: br_def)
qed

lemma optimize_loop_ok:
  "buffer_inv b \<Longrightarrow> length (label_offsets b) \<le> Suc MAX_ALIAS_HOPS \<Longrightarrow>
     open_patchable b \<and> optimize_loop b = None \<or> (\<exists>b'. optimize_loop b = Some b' \<and> keeps b b')"
proof (induction b rule: optimize_loop.induct)
  case (1 b)
  have "step_result b (optimize_step b)" by (rule optimize_step_ok [OF "1.prems"])
  then consider (panic) "open_patchable b" "optimize_step b = None"
    | (leave) b1 where "optimize_step b = Some (Inl b1)" "keeps b b1"
    | (again) b1 where "optimize_step b = Some (Inr b1)" "keeps b b1"
    by (auto simp: step_result_def)
  then show ?case
  proof cases
    case panic
    then show ?thesis by (subst (1 2) optimize_loop.simps) simp
  next
    case leave
    then show ?thesis by (subst (1 2) optimize_loop.simps) simp
  next
    case again
    then have k: "buffer_inv b1" "length (label_offsets b1) = length (label_offsets b)"
      "open_patchable b1 = open_patchable b"
      by (simp_all add: keeps_def)
    have "open_patchable b1 \<and> optimize_loop b1 = None \<or> (\<exists>b'. optimize_loop b1 = Some b' \<and> keeps b1 b')"
      by (rule "1.IH" [OF again(1) refl k(1)]) (simp add: k(2) "1.prems"(2))
    then show ?thesis
      using again(1) k(3) keeps_trans [OF again(2)] by (subst (1 2) optimize_loop.simps) auto
  qed
qed

lemma purge_latest_branches_inv:
  assumes "buffer_inv b"
  shows "buffer_inv (purge_latest_branches b)"
    "label_offsets (purge_latest_branches b) = label_offsets b"
proof -
  have c: "buffer_inv (b\<lparr>latest_branches := []\<rparr>)"
    using assms by (auto simp: buffer_inv_def labels_wf_def alias_rel_def tail_ok_def labels_at_def
        branches_ordered_def cur_offset_def)
  show "buffer_inv (purge_latest_branches b)"
    using assms c by (simp add: purge_latest_branches_def Let_def)
  show "label_offsets (purge_latest_branches b) = label_offsets b"
    by (simp add: purge_latest_branches_def Let_def)
qed

lemma optimize_branches_ok:
  assumes "buffer_inv b" "length (label_offsets b) \<le> Suc MAX_ALIAS_HOPS"
  shows "open_patchable b \<and> optimize_branches b = None \<or> (\<exists>b'. optimize_branches b = Some b' \<and> keeps b b')"
proof -
  have "keeps b' (purge_latest_branches b')" if "buffer_inv b'" for b'
    using purge_latest_branches_inv [OF that] by (simp add: keeps_def purge_latest_branches_def)
  then have "keeps b (purge_latest_branches b')" if "keeps (lazily_clear_labels_at_tail b) b'" for b'
    using that by (simp add: keeps_def)
  then show ?thesis
    using optimize_loop_ok [OF lazily_clear_inv(1) [OF assms(1)]] assms(2)
    by (auto simp: optimize_branches_def)
qed

text \<open>
  Binding a label: the only panic in a state with the invariant, for a label that is neither bound
  nor an alias, is that of removing a branch inside a patchable region.
\<close>

lemma bind_label_ok:
  assumes "buffer_inv b" "length (label_offsets b) \<le> Suc MAX_ALIAS_HOPS"
    and "l < length (label_offsets b)" "label_offsets b ! l = None" "label_aliases b ! l = None"
  shows "open_patchable b \<and> bind_label l b = None \<or> (\<exists>b'. bind_label l b = Some b' \<and> keeps b b')"
proof -
  let ?a = "b\<lparr>label_offsets := (label_offsets b)[l := Some (cur_offset b)]\<rparr>"
  let ?c = "lazily_clear_labels_at_tail ?a"
  let ?b = "?c\<lparr>labels_at_tail := labels_at_tail ?c @ [l]\<rparr>"
  have co: "cur_offset ?b = cur_offset b" "cur_offset ?a = cur_offset b"
    by (simp_all add: lazily_clear_labels_at_tail_def cur_offset_def)
  have la: "labels_at ?b off = (if off = cur_offset b then insert l (labels_at b off) else labels_at b off)" for off
    using assms(3-5) buffer_invD(6) [OF assms(1)]
    by (auto simp: labels_at_def nth_list_update split: if_splits)
  have "labels_at_tail ?c = labels_at_tail (lazily_clear_labels_at_tail b)"
    "labels_at_tail_off ?c = labels_at_tail_off (lazily_clear_labels_at_tail b)"
    by (simp_all add: lazily_clear_labels_at_tail_def cur_offset_def)
  then have tail: "tail_ok ?b"
    using lazily_clear_inv(2,3) [OF assms(1)] unfolding tail_ok_def la co by simp
  have br: "branch_ok ?b br" if "br \<in> set (latest_branches b)" for br
    using buffer_invD(4) [OF assms(1) that] unfolding branch_ok_def la co by auto
  have ar: "alias_rel ?b = alias_rel b" by (simp add: alias_rel_def)
  have "labels_wf ?b" using buffer_invD(1) [OF assms(1)] unfolding labels_wf_def ar by auto
  then have inv: "buffer_inv ?b"
    using tail br assms(1) unfolding buffer_inv_def la co by simp
  have "open_patchable ?b \<and> optimize_branches ?b = None \<or> (\<exists>b'. optimize_branches ?b = Some b' \<and> keeps ?b b')"
    by (rule optimize_branches_ok [OF inv]) (simp add: assms(2))
  moreover have "keeps b b'" if "keeps ?b b'" for b' using that by (simp add: keeps_def)
  moreover have "bind_label l b = optimize_branches ?b"
    using assms(3-5) buffer_invD(6) [OF assms(1)] by (simp add: bind_label_def Let_def)
  ultimately show ?thesis by auto
qed

lemma bind_label_keeps:
  assumes "buffer_inv b" "length (label_offsets b) \<le> Suc MAX_ALIAS_HOPS" "bind_label l b = Some b'"
  shows "keeps b b'"
proof -
  have "l < length (label_offsets b)" "label_offsets b ! l = None" "label_aliases b ! l = None"
    using assms(3) by (auto simp: bind_label_def split: if_splits)
  from bind_label_ok [OF assms(1,2) this] show ?thesis using assms(3) by auto
qed

section \<open>Records, patchable regions, islands\<close>

text \<open>
  The invariant depends only on the labels, the latest branches, the length of the data and the
  number of pending fixups.
\<close>

lemma buffer_inv_cong:
  assumes "buffer_inv b" "label_offsets b' = label_offsets b" "label_aliases b' = label_aliases b"
    and "latest_branches b' = latest_branches b" "labels_at_tail b' = labels_at_tail b"
    and "labels_at_tail_off b' = labels_at_tail_off b" "length (data b') = length (data b)"
    and "length (pending_fixup_records b) \<le> length (pending_fixup_records b')"
  shows "buffer_inv b'"
proof -
  have la: "labels_at b' off = labels_at b off" for off by (rule labels_at_cong [OF assms(2,3)])
  have co: "cur_offset b' = cur_offset b" using assms(7) by (simp add: cur_offset_def)
  have "branch_ok b' br" if "br \<in> set (latest_branches b)" for br
    using buffer_invD(4) [OF assms(1) that] assms(8) unfolding branch_ok_def la co assms(2) by auto
  then show ?thesis
    using assms(1) labels_wf_cong [OF assms(2,3)]
    unfolding buffer_inv_def tail_ok_def la co assms(2-6) by simp
qed

lemma keeps_cong:
  assumes "buffer_inv b" "label_offsets b' = label_offsets b" "label_aliases b' = label_aliases b"
    and "latest_branches b' = latest_branches b" "labels_at_tail b' = labels_at_tail b"
    and "labels_at_tail_off b' = labels_at_tail_off b" "length (data b') = length (data b)"
    and "length (pending_fixup_records b) \<le> length (pending_fixup_records b')"
    and "open_patchable b' = open_patchable b"
  shows "keeps b b'"
  unfolding keeps_def using buffer_inv_cong [OF assms(1-8)] assms(2,9) by simp

lemma clear_pending_keeps:
  assumes "buffer_inv b"
  shows "keeps b (b\<lparr>latest_branches := []\<rparr>)"
    "latest_branches b = [] \<Longrightarrow> keeps b (b\<lparr>pending_fixup_records := fs\<rparr>)"
  using assms by (auto simp: keeps_def buffer_inv_def labels_wf_def alias_rel_def tail_ok_def labels_at_def
      branches_ordered_def cur_offset_def)

lemma put_data_keeps: "buffer_inv b \<Longrightarrow> keeps b (put_data bytes b)"
  by (simp add: keeps_def put_data_inv) (simp add: put_data_def)

lemma get_appended_space_keeps: "buffer_inv b \<Longrightarrow> keeps b (get_appended_space n b)"
  by (simp add: keeps_def get_appended_space_inv) (simp add: get_appended_space_def)

lemma align_buffer_keeps: "buffer_inv b \<Longrightarrow> align_buffer a b = Some b' \<Longrightarrow> keeps b b'"
  by (auto simp: align_buffer_def get_appended_space_keeps split: if_splits)

lemma use_label_keeps: "buffer_inv b \<Longrightarrow> keeps b (use_label_at_offset off l k b)"
  by (rule keeps_cong) (simp_all add: use_label_at_offset_def Let_def)

lemma srcloc_keeps:
  assumes "buffer_inv b"
  shows "keeps b (start_srcloc loc b)" "end_srcloc b = Some b' \<Longrightarrow> keeps b b'"
proof -
  show "keeps b (start_srcloc loc b)" by (rule keeps_cong [OF assms]) (simp_all add: start_srcloc_def)
  assume e: "end_srcloc b = Some b'"
  show "keeps b b'"
    by (rule keeps_cong [OF assms]; insert e)
       (auto simp: end_srcloc_def split: option.splits prod.splits if_splits)
qed

lemma write_word_length: "write_word bs w = Some bs' \<Longrightarrow> length bs' = length bs"
  by (cases "(bs, w)" rule: write_word.cases) auto

lemma patch_length:
  assumes "patch k bytes off label = Some bytes'" "length bytes = patch_size k"
  shows "length bytes' = patch_size k"
  using assms by (cases k) (auto simp: bind_eq_Some_conv patch_field_def Let_def dest: write_word_length split: if_splits)

lemma patch_data_keeps:
  assumes "buffer_inv b" "patch_data k off label b = Some b'" shows "keeps b b'"
proof -
  obtain bytes where p: "off + patch_size k \<le> length (data b)"
    "patch k (take (patch_size k) (drop off (data b))) off label = Some bytes"
    "b' = b\<lparr>data := take off (data b) @ bytes @ drop (off + patch_size k) (data b)\<rparr>"
    using assms(2) by (auto simp: patch_data_def bind_eq_Some_conv not_less split: if_splits)
  have "length bytes = patch_size k" using p(1) by (intro patch_length [OF p(2)]) simp
  then show ?thesis using p(1) by (intro keeps_cong [OF assms(1)]) (simp_all add: p(3))
qed

lemma emit_veneer_keeps:
  assumes "buffer_inv b" "emit_veneer label off k b = Some b'" shows "keeps b b'"
proof -
  obtain b1 b2 bytes fixup_off k' where v: "align_buffer LABEL_USE_ALIGN b = Some b1"
    "patch_data k off (cur_offset b1) b1 = Some b2" "b' = use_label_at_offset fixup_off label k' (put_data bytes b2)"
    using assms(2) by (auto simp: emit_veneer_def assert_that_bind bind_eq_Some_conv Let_def)
  have k1: "keeps b b1" by (rule align_buffer_keeps [OF assms(1) v(1)])
  then have k2: "keeps b1 b2" using v(2) by (intro patch_data_keeps) (simp_all add: keeps_def)
  then have k3: "keeps b2 (put_data bytes b2)" by (intro put_data_keeps) (simp add: keeps_def)
  then have "keeps (put_data bytes b2) b'" unfolding v(3) by (intro use_label_keeps) (simp add: keeps_def)
  with k1 k2 k3 show ?thesis by (meson keeps_trans)
qed

lemma handle_fixup_keeps:
  assumes "buffer_inv b" "handle_fixup f force threshold b = Some b'" shows "keeps b b'"
  using assms emit_veneer_keeps patch_data_keeps
  by (auto simp: handle_fixup_def Let_def split: option.splits if_splits)

lemma fixup_records_keeps: "buffer_inv b \<Longrightarrow> keeps b (b\<lparr>fixup_records := fs\<rparr>)"
  by (rule keeps_cong) simp_all

lemma flush_pending_keeps:
  "buffer_inv b \<Longrightarrow> flush_pending fs force threshold b = Some b' \<Longrightarrow> keeps b b'"
proof (induction fs arbitrary: b)
  case (Cons f fs)
  then obtain b1 where b1: "handle_fixup f force threshold b = Some b1 \<or> b1 = b\<lparr>fixup_records := fixup_records b @ [f]\<rparr>"
    "flush_pending fs force threshold b1 = Some b'"
    by (auto simp: bind_eq_Some_conv split: if_splits)
  then have "keeps b b1" using handle_fixup_keeps fixup_records_keeps Cons.prems(1) by blast
  with Cons.IH [OF _ b1(2)] show ?case using keeps_trans by (auto simp: keeps_def)
qed (simp add: keeps_refl)

lemma flush_heap_keeps:
  "buffer_inv b \<Longrightarrow> flush_heap n force threshold b = Some b' \<Longrightarrow> keeps b b'"
proof (induction n arbitrary: b)
  case (Suc n)
  consider (fin) "b' = b"
    | (more) f rest b1 where "handle_fixup f force threshold (b\<lparr>fixup_records := rest\<rparr>) = Some b1"
        "flush_heap n force threshold b1 = Some b'"
    using Suc.prems(2) by (auto simp: bind_eq_Some_conv split: option.splits if_splits)
  then show ?case
  proof cases
    case fin
    then show ?thesis using Suc.prems(1) by (simp add: keeps_refl)
  next
    case more
    have k: "keeps b (b\<lparr>fixup_records := rest\<rparr>)" by (rule fixup_records_keeps [OF Suc.prems(1)])
    have k1: "keeps (b\<lparr>fixup_records := rest\<rparr>) b1"
      using k by (intro handle_fixup_keeps [OF _ more(1)]) (simp add: keeps_def)
    have "keeps b1 b'" using k1 by (intro Suc.IH [OF _ more(2)]) (simp add: keeps_def)
    with k k1 show ?thesis by (meson keeps_trans)
  qed
qed (simp add: keeps_refl)

text \<open>States with the invariant and few enough labels to bind.\<close>

definition bindable :: "mach_buffer \<Rightarrow> bool" where
  "bindable b \<longleftrightarrow> buffer_inv b \<and> length (label_offsets b) \<le> Suc MAX_ALIAS_HOPS"

lemma bindable_keeps: "bindable b \<Longrightarrow> keeps b b' \<Longrightarrow> bindable b'"
  by (simp add: bindable_def keeps_def)

lemma bindable_inv: "bindable b \<Longrightarrow> buffer_inv b"
  by (simp add: bindable_def)

lemma keeps_trans2: "bindable a \<Longrightarrow> keeps a b \<Longrightarrow> (bindable b \<Longrightarrow> keeps b c) \<Longrightarrow> keeps a c"
  using bindable_keeps keeps_trans by blast

lemma fold_option_keeps:
  assumes "\<And>x b b'. bindable b \<Longrightarrow> f x b = Some b' \<Longrightarrow> keeps b b'"
  shows "bindable b \<Longrightarrow> fold_option f xs b = Some b' \<Longrightarrow> keeps b b'"
proof (induction xs arbitrary: b)
  case (Cons x xs)
  then obtain b1 where b1: "f x b = Some b1" "fold_option f xs b1 = Some b'" by (auto simp: bind_eq_Some_conv)
  show ?case by (rule keeps_trans2 [OF Cons.prems(1) assms [OF Cons.prems(1) b1(1)] Cons.IH [OF _ b1(2)]])
qed (simp add: keeps_refl bindable_inv)

lemma emit_pending_trap_keeps:
  assumes "bindable b" "emit_pending_trap t b = Some b'" shows "keeps b b'"
proof -
  define b0 where "b0 = (case mlt_loc t of Some loc \<Rightarrow> start_srcloc loc b | None \<Rightarrow> b)"
  obtain b1 b2 where s: "align_buffer LABEL_USE_ALIGN b0 = Some b1" "bind_label (mlt_label t) b1 = Some b2"
    "(if mlt_loc t \<noteq> None then end_srcloc (put_data TRAP_OPCODE (add_trap (mlt_code t) b2))
      else Some (put_data TRAP_OPCODE (add_trap (mlt_code t) b2))) = Some b'"
    using assms(2) by (auto simp: emit_pending_trap_def bind_eq_Some_conv Let_def b0_def)
  have k0: "keeps b b0"
    using srcloc_keeps(1) keeps_refl bindable_inv [OF assms(1)] by (simp add: b0_def split: option.split)
  have k1: "keeps b0 b1" using bindable_keeps [OF assms(1) k0] align_buffer_keeps [OF bindable_inv s(1)] by simp
  have k2: "keeps b1 b2"
    using bindable_keeps [OF assms(1) keeps_trans [OF k0 k1]] bind_label_keeps [OF _ _ s(2)] by (simp add: bindable_def)
  have "keeps b2 (add_trap (mlt_code t) b2)"
    using k2 by (intro keeps_cong) (simp_all add: add_trap_def keeps_def)
  moreover from this have "keeps (add_trap (mlt_code t) b2) (put_data TRAP_OPCODE (add_trap (mlt_code t) b2))"
    by (intro put_data_keeps) (simp add: keeps_def)
  ultimately have k3: "keeps b2 (put_data TRAP_OPCODE (add_trap (mlt_code t) b2))" by (rule keeps_trans)
  then have "keeps (put_data TRAP_OPCODE (add_trap (mlt_code t) b2)) b'"
    using s(3) srcloc_keeps(2) keeps_refl by (auto simp: keeps_def [of b2] split: if_splits)
  with k0 k1 k2 k3 show ?thesis by (meson keeps_trans)
qed

lemma emit_pending_constant_keeps:
  assumes "bindable b" "emit_pending_constant constant b = Some b'" shows "keeps b b'"
proof -
  define c where "c = constants b ! constant"
  define b0 where "b0 = b\<lparr>constants := (constants b)[constant := c\<lparr>upcoming_label := None\<rparr>]\<rparr>"
  obtain label b1 b2 where s: "align_buffer (bc_align c) b0 = Some b1" "bind_label label b1 = Some b2"
    "b' = get_appended_space (bc_size c) (b2\<lparr>used_constants := used_constants b2 @ [(constant, cur_offset b2)]\<rparr>)"
    using assms(2) by (auto simp: emit_pending_constant_def bind_eq_Some_conv assert_that_bind Let_def b0_def c_def)
  have k0: "keeps b b0" by (rule keeps_cong [OF bindable_inv [OF assms(1)]]) (simp_all add: b0_def)
  have k1: "keeps b0 b1" using bindable_keeps [OF assms(1) k0] align_buffer_keeps [OF bindable_inv s(1)] by simp
  have k2: "keeps b1 b2"
    using bindable_keeps [OF assms(1) keeps_trans [OF k0 k1]] bind_label_keeps [OF _ _ s(2)] by (simp add: bindable_def)
  have k3: "keeps b2 (b2\<lparr>used_constants := used_constants b2 @ [(constant, cur_offset b2)]\<rparr>)"
    using k2 by (intro keeps_cong) (simp_all add: keeps_def)
  then have "keeps (b2\<lparr>used_constants := used_constants b2 @ [(constant, cur_offset b2)]\<rparr>) b'"
    unfolding s(3) by (intro get_appended_space_keeps) (simp add: keeps_def)
  with k0 k1 k2 k3 show ?thesis by (meson keeps_trans)
qed

lemma emit_island_keeps:
  assumes "bindable b" "emit_island_maybe_forced force distance b = Some b'" shows "keeps b b'"
proof -
  define loc where "loc = map_option snd (cur_srcloc (b\<lparr>latest_branches := []\<rparr>))"
  obtain b1 b2 b3 b4 b5 threshold where
    e: "(if loc \<noteq> None then end_srcloc (b\<lparr>latest_branches := []\<rparr>) else Some (b\<lparr>latest_branches := []\<rparr>)) = Some b1"
    and p: "flush_pending (pending_fixup_records b1) force threshold (b1\<lparr>pending_fixup_records := []\<rparr>) = Some b2"
    and h: "flush_heap (length (fixup_records b2)) force threshold (b2\<lparr>pending_fixup_deadline := u32_max\<rparr>) = Some b3"
    and t: "fold_option emit_pending_trap (pending_traps b3) (b3\<lparr>pending_traps := []\<rparr>) = Some b4"
    and c: "fold_option emit_pending_constant (pending_constants b4) (b4\<lparr>pending_constants := []\<rparr>) = Some b5"
    and b': "b' = (case loc of Some loc \<Rightarrow> start_srcloc loc b5 | None \<Rightarrow> b5)"
    using assms(2) unfolding emit_island_maybe_forced_def Let_def loc_def [symmetric]
    by (auto simp: bind_eq_Some_conv)
  have k0: "keeps b (b\<lparr>latest_branches := []\<rparr>)"
    by (rule clear_pending_keeps(1) [OF bindable_inv [OF assms(1)]])
  then have inv0: "buffer_inv (b\<lparr>latest_branches := []\<rparr>)" by (simp add: keeps_def)
  have k1: "keeps (b\<lparr>latest_branches := []\<rparr>) b1"
  proof (cases "loc = None")
    case True
    then show ?thesis using e keeps_refl [OF inv0] by simp
  next
    case False
    then show ?thesis using e by (intro srcloc_keeps(2) [OF inv0]) simp
  qed
  note g1 = bindable_keeps [OF assms(1) keeps_trans [OF k0 k1]]
  have "latest_branches b1 = []"
    using e by (auto simp: end_srcloc_def split: if_splits option.splits)
  then have "keeps b1 (b1\<lparr>pending_fixup_records := []\<rparr>)"
    by (rule clear_pending_keeps(2) [OF bindable_inv [OF g1]])
  from keeps_trans2 [OF g1 this flush_pending_keeps [OF bindable_inv p]] have k2: "keeps b1 b2" .
  note g2 = bindable_keeps [OF g1 k2]
  have "keeps b2 (b2\<lparr>pending_fixup_deadline := u32_max\<rparr>)" by (rule keeps_cong [OF bindable_inv [OF g2]]) simp_all
  from keeps_trans2 [OF g2 this flush_heap_keeps [OF bindable_inv h]] have k3: "keeps b2 b3" .
  note g3 = bindable_keeps [OF g2 k3]
  have "keeps b3 (b3\<lparr>pending_traps := []\<rparr>)" by (rule keeps_cong [OF bindable_inv [OF g3]]) simp_all
  from keeps_trans2 [OF g3 this fold_option_keeps [OF emit_pending_trap_keeps _ t]] have k4: "keeps b3 b4" by simp
  note g4 = bindable_keeps [OF g3 k4]
  have "keeps b4 (b4\<lparr>pending_constants := []\<rparr>)" by (rule keeps_cong [OF bindable_inv [OF g4]]) simp_all
  from keeps_trans2 [OF g4 this fold_option_keeps [OF emit_pending_constant_keeps _ c]] have k5: "keeps b4 b5" by simp
  have "keeps b5 b'"
    using srcloc_keeps(1) keeps_refl bindable_inv [OF bindable_keeps [OF g4 k5]] by (simp add: b' split: option.split)
  with keeps_trans [OF keeps_trans [OF keeps_trans [OF k0 k1] keeps_trans [OF k2 k3]] keeps_trans [OF k4 k5]]
  show ?thesis by (rule keeps_trans)
qed

section \<open>The life of a buffer\<close>

text \<open>
  The operations with which instruction emission drives the buffer, as a step relation. A branch
  is announced the way \<open>add_uncond_branch\<close> documents it: its label use first, then the branch record,
  then exactly its bytes. \<open>put1\<close>, \<open>put2\<close> and \<open>put4\<close> are \<open>put_data\<close> of one, two and four bytes.
  \<open>finish_emission_maybe_forcing_veneers\<close> only repeats the emission of islands. A step is an
  operation that returns: one that panics ends the compilation.
\<close>

definition put_branch ::
  "mach_label \<Rightarrow> label_use \<Rightarrow> u8 list option \<Rightarrow> u8 list \<Rightarrow> mach_buffer \<Rightarrow> mach_buffer option" where
  "put_branch target kind inverted bytes b = do {
     let start = cur_offset b;
     b1 \<leftarrow> add_branch start (start + length bytes) target inverted
             (use_label_at_offset start target kind b);
     Some (put_data bytes b1)
   }"

inductive buffer_step :: "mach_buffer \<Rightarrow> mach_buffer \<Rightarrow> bool" where
  step_put: "buffer_step b (put_data bytes b)"
| step_space: "buffer_step b (get_appended_space n b)"
| step_align: "align_buffer a b = Some b' \<Longrightarrow> buffer_step b b'"
| step_label: "get_label b = (l, b') \<Longrightarrow> buffer_step b b'"
| step_use: "buffer_step b (use_label_at_offset off l k b)"
| step_branch: "put_branch target k inverted bytes b = Some b' \<Longrightarrow> target < length (label_offsets b) \<Longrightarrow>
    buffer_step b b'"
| step_bind: "bind_label l b = Some b' \<Longrightarrow> buffer_step b b'"
| step_defer_trap: "defer_trap code b = (l, b') \<Longrightarrow> buffer_step b b'"
| step_register_constant: "register_constant constant al sz b = Some b' \<Longrightarrow> buffer_step b b'"
| step_constant_label: "get_label_for_constant constant b = Some (l, b') \<Longrightarrow> buffer_step b b'"
| step_island: "emit_island_maybe_forced force distance b = Some b' \<Longrightarrow> buffer_step b b'"
| step_start_patchable: "start_patchable b = Some (start, b') \<Longrightarrow> buffer_step b b'"
| step_end_patchable: "end_patchable start b = (region, b') \<Longrightarrow> buffer_step b b'"
| step_patch: "patch_region region bytes b = Some b' \<Longrightarrow> buffer_step b b'"
| step_start_srcloc: "buffer_step b (start_srcloc loc b)"
| step_end_srcloc: "end_srcloc b = Some b' \<Longrightarrow> buffer_step b b'"
| step_reloc: "buffer_step b (add_reloc_at_offset off rk name addend b)"
| step_trap: "buffer_step b (add_trap code b)"
| step_call_site: "buffer_step b (add_try_call_site frame_off handlers b)"
| step_stack_map: "push_user_stack_map frame addr m b = Some b' \<Longrightarrow> buffer_step b b'"
| step_stack_map_sp: "push_user_stack_map_sp_relative addr sz m b = Some b' \<Longrightarrow> buffer_step b b'"
| step_debug_tags: "buffer_step b (push_debug_tags b)"
| step_alignment: "set_log2_min_function_alignment log2 b = Some b' \<Longrightarrow> buffer_step b b'"

inductive buffer_reachable :: "nat \<Rightarrow> mach_buffer \<Rightarrow> bool" for n where
  reach_new: "reserve_labels_for_blocks n buffer_new = Some b \<Longrightarrow> buffer_reachable n b"
| reach_step: "buffer_reachable n b \<Longrightarrow> buffer_step b b' \<Longrightarrow>
    length (label_offsets b') \<le> Suc MAX_ALIAS_HOPS \<Longrightarrow> buffer_reachable n b'"

lemma reserve_new_inv:
  assumes "reserve_labels_for_blocks n buffer_new = Some b"
  shows "buffer_inv b" "length (label_offsets b) = n"
proof -
  have b: "b = buffer_new\<lparr>label_offsets := replicate n None, label_aliases := replicate n None\<rparr>"
    using assms by (simp add: reserve_labels_for_blocks_def buffer_new_def)
  then have "alias_rel b = {}" by (auto simp: alias_rel_def)
  then show "buffer_inv b"
    by (simp add: b buffer_inv_def labels_wf_def tail_ok_def labels_at_def acyclic_def
        branches_ordered_def buffer_new_def cur_offset_def)
  show "length (label_offsets b) = n" by (simp add: b)
qed

lemma use_label_sel [simp]:
  "cur_offset (use_label_at_offset off l k b) = cur_offset b"
  "label_offsets (use_label_at_offset off l k b) = label_offsets b"
  "latest_branches (use_label_at_offset off l k b) = latest_branches b"
  "length (pending_fixup_records (use_label_at_offset off l k b)) = Suc (length (pending_fixup_records b))"
  by (simp_all add: use_label_at_offset_def cur_offset_def Let_def)

lemma put_branch_inv:
  assumes "buffer_inv b" "put_branch target k inverted bytes b = Some b'"
    and "target < length (label_offsets b)"
  shows "buffer_inv b'"
proof -
  let ?u = "use_label_at_offset (cur_offset b) target k b"
  obtain b1 where b1: "add_branch (cur_offset b) (cur_offset b + length bytes) target inverted ?u = Some b1"
    and b': "b' = put_data bytes b1"
    using assms(2) by (auto simp: put_branch_def Let_def bind_eq_Some_conv)
  have "\<forall>br \<in> set (latest_branches ?u). br_fixup br < length (pending_fixup_records ?u) - 1"
    using buffer_invD(4) [OF assms(1)] by (auto simp: branch_ok_def)
  with add_branch_put_inv [OF use_label_inv [OF assms(1)] b1] show ?thesis
    using assms(3) unfolding b' by auto
qed

text \<open>Operations that only store something the invariant does not look at.\<close>

lemma defer_trap_inv:
  assumes "buffer_inv b" "defer_trap code b = (l, b')" shows "buffer_inv b'"
proof -
  obtain b1 where g: "get_label b = (l, b1)" using assms(2) by (auto simp: defer_trap_def split: prod.splits)
  show ?thesis
    by (rule buffer_inv_cong [OF get_label_inv(1) [OF assms(1) g]]; insert assms(2) g)
       (auto simp: defer_trap_def)
qed

lemma constant_label_inv:
  assumes "buffer_inv b" "get_label_for_constant constant b = Some (l, b')" shows "buffer_inv b'"
proof (cases "upcoming_label (constants b ! constant)")
  case None
  obtain l1 b1 where g: "get_label b = (l1, b1)" by fastforce
  show ?thesis
    by (rule buffer_inv_cong [OF get_label_inv(1) [OF assms(1) g]]; insert assms(2) g None)
       (auto simp: get_label_for_constant_def Let_def split: if_splits)
next
  case (Some l1)
  then show ?thesis using assms by (auto simp: get_label_for_constant_def split: if_splits)
qed

lemma patch_region_inv: "buffer_inv b \<Longrightarrow> patch_region region bytes b = Some b' \<Longrightarrow> buffer_inv b'"
  by (erule buffer_inv_cong) (auto simp: patch_region_def assert_that_bind split: prod.splits)

lemma record_inv:
  assumes "buffer_inv b"
  shows "buffer_inv (add_reloc_at_offset off rk name addend b)" "buffer_inv (add_trap code b)"
    "buffer_inv (add_try_call_site frame_off handlers b)" "buffer_inv (push_debug_tags b)"
    "register_constant constant al sz b = Some b' \<Longrightarrow> buffer_inv b'"
    "push_user_stack_map frame addr m b = Some b' \<Longrightarrow> buffer_inv b'"
    "push_user_stack_map_sp_relative addr sz m b = Some b' \<Longrightarrow> buffer_inv b'"
    "set_log2_min_function_alignment log2 b = Some b' \<Longrightarrow> buffer_inv b'"
    "start_patchable b = Some (start, b') \<Longrightarrow> buffer_inv b'"
    "end_patchable start b = (region, b') \<Longrightarrow> buffer_inv b'"
  by (rule buffer_inv_cong [OF assms];
      auto simp: add_reloc_at_offset_def add_trap_def add_try_call_site_def push_debug_tags_def Let_def
        register_constant_def push_user_stack_map_def push_user_stack_map_sp_relative_def
        set_log2_min_function_alignment_def start_patchable_def end_patchable_def split: if_splits)+

lemmas step_inv = put_data_inv get_appended_space_inv align_buffer_inv get_label_inv(1) use_label_inv
  put_branch_inv defer_trap_inv constant_label_inv patch_region_inv record_inv

lemma keeps_inv: "keeps b b' \<Longrightarrow> buffer_inv b'"
  by (simp add: keeps_def)

lemma buffer_step_inv:
  assumes "buffer_step b b'" "buffer_inv b" "length (label_offsets b) \<le> Suc MAX_ALIAS_HOPS"
  shows "buffer_inv b'"
  using assms(1)
proof cases
  case (step_bind l)
  then show ?thesis using bind_label_keeps [OF assms(2,3)] keeps_inv by blast
next
  case (step_island force distance)
  have "bindable b" using assms(2,3) by (simp add: bindable_def)
  then show ?thesis using emit_island_keeps step_island keeps_inv by blast
next
  case (step_start_srcloc loc)
  then show ?thesis using srcloc_keeps(1) [OF assms(2)] keeps_inv by blast
next
  case step_end_srcloc
  then show ?thesis using srcloc_keeps(2) [OF assms(2)] keeps_inv by blast
qed (auto intro: step_inv [OF assms(2)])

lemma buffer_reachable_inv:
  "buffer_reachable n b \<Longrightarrow> n \<le> Suc MAX_ALIAS_HOPS \<Longrightarrow>
     buffer_inv b \<and> length (label_offsets b) \<le> Suc MAX_ALIAS_HOPS"
proof (induction rule: buffer_reachable.induct)
  case (reach_new b)
  then show ?case using reserve_new_inv [OF reach_new(1)] by simp
next
  case (reach_step b b')
  then show ?case using buffer_step_inv by blast
qed

text \<open>
  C11: The documented invariants of the branch optimisation hold at every state the buffer reaches
  from a fresh buffer with labels reserved for the blocks by its operations: bytes, alignment,
  labels, branches, deferred traps and constants, islands with their veneers and fixups, patchable
  regions and the records of relocations, traps, call sites, stack maps and source locations, as long
  as no more labels are allocated than the alias chain limit allows. The label lists of the tail and
  of the recent branches are complete and precise, recent branches are ordered, disjoint and end
  before the tail, their fixups are still pending, no label is bound past the tail, and aliases are
  acyclic. A branch is one step: its label use, its record and its bytes.
\<close>

theorem buffer_invariant_reachable:
  assumes "buffer_reachable n b" "n \<le> 1000000"
  shows "buffer_inv b"
  using buffer_reachable_inv [OF assms(1)] assms(2) by (simp add: MAX_ALIAS_HOPS_def)

text \<open>
  C12: Resolving a label never panics: in a state reached by any of the buffer's operations, islands,
  veneers and deferred traps included, the alias chain from any allocated label ends within the limit
  on hops, and what it returns is the offset of every unaliased label on the chain.
\<close>

theorem resolve_label_never_panics:
  assumes "buffer_reachable n b" "n \<le> 1000000" "l < length (label_offsets b)"
  shows "\<exists>off. resolve_label_offset b l = Some off \<and>
    (\<forall>l'. (l, l') \<in> (alias_rel b)\<^sup>* \<and> label_aliases b ! l' = None \<longrightarrow> label_offsets b ! l' = off)"
proof -
  have inv: "buffer_inv b" "length (label_offsets b) \<le> Suc MAX_ALIAS_HOPS"
    using buffer_reachable_inv [OF assms(1)] assms(2) by (simp_all add: MAX_ALIAS_HOPS_def)
  from resolve_total [OF buffer_invD(1) [OF inv(1)] assms(3) inv(2)] show ?thesis
    using resolve_chain by blast
qed

text \<open>
  C13: Binding a label in a reachable state outside a patchable region, with the branch optimisation
  it triggers, terminates and trips none of the assertions of the code, debug assertions included,
  when the label is allocated, not yet bound and not an alias; and the buffer it leaves satisfies the
  invariants again. Inside a patchable region opened right after a branch the optimisation may have
  to remove that branch, and an assertion forbids that.
\<close>

theorem bind_label_never_panics:
  assumes "buffer_reachable n b" "n \<le> 1000000" "l < length (label_offsets b)"
    and "label_offsets b ! l = None" "label_aliases b ! l = None" "\<not> open_patchable b"
  shows "\<exists>b'. bind_label l b = Some b' \<and> buffer_inv b' \<and> length (label_offsets b') = length (label_offsets b)"
proof -
  have inv: "buffer_inv b" "length (label_offsets b) \<le> Suc MAX_ALIAS_HOPS"
    using buffer_reachable_inv [OF assms(1)] assms(2) by (simp_all add: MAX_ALIAS_HOPS_def)
  from bind_label_ok [OF inv assms(3-5)] assms(6) show ?thesis by (auto simp: keeps_def)
qed

text \<open>
  A concrete life: two blocks, an unconditional branch to the second one, a deferred trap, and an
  island, which emits the trap and keeps the branch's fixup for later.
\<close>

definition demo_branch :: mach_buffer where
  "demo_branch = buffer_new\<lparr>data := [0, 96], label_offsets := [None, None], label_aliases := [None, None],
     pending_fixup_deadline := 2046,
     pending_fixup_records := [\<lparr>fix_label = 1, fix_offset = 0, fix_kind = Branch11\<rparr>],
     latest_branches := [\<lparr>br_start = 0, br_end = 2, br_target = 1, br_fixup = 0, br_inverted = None, br_labels = []\<rparr>]\<rparr>"

definition demo_buffer :: mach_buffer where
  "demo_buffer = demo_branch\<lparr>data := [0, 96, 0, 0xf8], label_offsets := [None, None, Some 2],
     label_aliases := [None, None, None], traps := [(2, 1)], latest_branches := [],
     pending_fixup_records := [], pending_fixup_deadline := u32_max,
     fixup_records := [\<lparr>fix_label = 1, fix_offset = 0, fix_kind = Branch11\<rparr>],
     labels_at_tail := [2], labels_at_tail_off := 2\<rparr>"

definition demo_blocks :: mach_buffer where
  "demo_blocks = buffer_new\<lparr>label_offsets := [None, None], label_aliases := [None, None]\<rparr>"

lemma demo_blocks_new: "reserve_labels_for_blocks 2 buffer_new = Some demo_blocks"
  by (simp add: reserve_labels_for_blocks_def demo_blocks_def buffer_new_def numeral_2_eq_2)

lemma demo_branch_put: "put_branch 1 Branch11 None [0, 96] demo_blocks = Some demo_branch"
  by (simp add: demo_branch_def put_branch_def add_branch_def use_label_at_offset_def cur_offset_def demo_blocks_def
      buffer_new_def lazily_clear_labels_at_tail_def put_data_def Let_def fixup_deadline_def sat_add_def
      LABEL_USE_ALIGN_def u32_max_def)

lemma is_pow2_2: "is_pow2 2"
  by (auto simp: is_pow2_def intro: exI [of _ 1])

lemma demo_island: "emit_island 0 (snd (defer_trap 1 demo_branch)) = Some demo_buffer"
  by (simp add: demo_buffer_def emit_island_def emit_island_maybe_forced_def demo_branch_def defer_trap_def get_label_def
      worst_case_end_of_island_def u32_add_def u32_max_def sat_add_def sat_mul_def worst_case_veneer_size_def TRAP_OPCODE_def
      cur_offset_def buffer_new_def demo_blocks_def Let_def should_apply_fixup_def resolve_label_offset_def resolve_hops.simps
      fixup_deadline_def heap_pop_def min_fixup_deadline_def emit_pending_trap_def align_buffer_def LABEL_USE_ALIGN_def
      is_pow2_2 [unfolded numeral_2_eq_2] is_pow2_2 bind_label_def optimize_branches_def optimize_loop.simps optimize_step_def
      purge_latest_branches_def lazily_clear_labels_at_tail_def get_appended_space_def put_data_def add_trap_def)

lemma demo_buffer_sel:
  "label_offsets demo_buffer = [None, None, Some 2]" "label_aliases demo_buffer = [None, None, None]"
  "\<not> open_patchable demo_buffer"
  by (simp_all add: demo_buffer_def demo_branch_def buffer_new_def)

lemma demo_buffer_reachable: "buffer_reachable 2 demo_buffer"
proof -
  have "buffer_reachable 2 demo_branch"
    using demo_branch_put
    by (intro reach_step [OF reach_new [OF demo_blocks_new]] step_branch)
       (auto simp: demo_branch_def demo_blocks_def MAX_ALIAS_HOPS_def)
  then have "buffer_reachable 2 (snd (defer_trap 1 demo_branch))"
    by (rule reach_step) (rule step_defer_trap [OF prod.collapse [symmetric]],
        simp add: defer_trap_def get_label_def demo_branch_def MAX_ALIAS_HOPS_def)
  then show ?thesis
    by (rule reach_step [OF _ step_island [OF demo_island [unfolded emit_island_def]]])
       (simp add: demo_buffer_sel MAX_ALIAS_HOPS_def)
qed

theorem buffer_invariant_reachable_witness: "buffer_reachable 2 demo_buffer \<and> buffer_inv demo_buffer"
  using buffer_invariant_reachable [OF demo_buffer_reachable] demo_buffer_reachable by simp

theorem resolve_label_never_panics_witness:
  "\<exists>off. resolve_label_offset demo_buffer 1 = Some off"
  using resolve_label_never_panics [OF demo_buffer_reachable, of 1] by (auto simp: demo_buffer_sel)

theorem bind_label_never_panics_witness:
  "\<exists>b'. bind_label 1 demo_buffer = Some b' \<and> buffer_inv b'"
  using bind_label_never_panics [OF demo_buffer_reachable, of 1] by (auto simp: demo_buffer_sel)

end
