(* ===== verification/Ir_Layout.thy ===== *)
theory Ir_Layout
  imports Prelude
begin

text \<open>
  \<open>src/cranelift/codegen/src/ir/layout.rs\<close>: the order of the blocks of a function and of the instructions
  of a block. Blocks form a doubly linked list, and so do the instructions of each block; instructions
  carry sequence numbers that increase along a block, with gaps for insertion, and are renumbered when a
  gap is used up.

  A block or an instruction is its number. A \<open>SecondaryMap\<close> reads the default node for a key that was
  never written, so it is a total function. A sequence number is a \<open>nat\<close> that addition keeps within 32
  bits; an overflow is a panic, like a failed assertion.
\<close>

section \<open>Nodes\<close>

type_synonym block = nat
type_synonym instr = nat

record block_node =
  bn_prev :: "block option"
  bn_next :: "block option"
  bn_first_inst :: "instr option"
  bn_last_inst :: "instr option"
  bn_cold :: bool

record inst_node =
  in_block :: "block option"
  in_prev :: "instr option"
  in_next :: "instr option"
  in_seq :: nat

record layout =
  lay_blocks :: "block \<Rightarrow> block_node"
  lay_insts :: "instr \<Rightarrow> inst_node"
  first_block :: "block option"
  last_block :: "block option"

definition default_block :: block_node where
  "default_block = \<lparr>bn_prev = None, bn_next = None, bn_first_inst = None, bn_last_inst = None, bn_cold = False\<rparr>"

definition default_inst :: inst_node where
  "default_inst = \<lparr>in_block = None, in_prev = None, in_next = None, in_seq = 0\<rparr>"

definition layout_new :: layout where
  "layout_new = \<lparr>lay_blocks = (\<lambda>b. default_block), lay_insts = (\<lambda>i. default_inst),
     first_block = None, last_block = None\<rparr>"

definition layout_clear :: "layout \<Rightarrow> layout" where
  "layout_clear l = l\<lparr>lay_blocks := (\<lambda>b. default_block), lay_insts := (\<lambda>i. default_inst),
     first_block := None, last_block := None\<rparr>"

definition upd_block :: "block \<Rightarrow> (block_node \<Rightarrow> block_node) \<Rightarrow> layout \<Rightarrow> layout" where
  "upd_block b f l = l\<lparr>lay_blocks := (lay_blocks l)(b := f (lay_blocks l b))\<rparr>"

definition upd_inst :: "instr \<Rightarrow> (inst_node \<Rightarrow> inst_node) \<Rightarrow> layout \<Rightarrow> layout" where
  "upd_inst i f l = l\<lparr>lay_insts := (lay_insts l)(i := f (lay_insts l i))\<rparr>"

section \<open>Sequence numbers\<close>

definition MAJOR_STRIDE :: nat where "MAJOR_STRIDE = 10"
definition MINOR_STRIDE :: nat where "MINOR_STRIDE = 2"
definition LOCAL_LIMIT :: nat where "LOCAL_LIMIT = 100 * MINOR_STRIDE"
definition SEQ_MAX :: nat where "SEQ_MAX = 0xFFFFFFFF"

definition add_seq :: "nat \<Rightarrow> nat \<Rightarrow> nat option" where
  "add_seq a b = (if a + b \<le> SEQ_MAX then Some (a + b) else None)"

text \<open>The outer option is the failed assertion.\<close>

definition midpoint :: "nat \<Rightarrow> nat \<Rightarrow> nat option option" where
  "midpoint a b = do {
     assert_that (a < b);
     let m = a + (b - a) div 2;
     Some (if m > a then Some m else None)
   }"

definition seq_of :: "layout \<Rightarrow> instr \<Rightarrow> nat" where
  "seq_of l i = in_seq (lay_insts l i)"

definition set_seq :: "instr \<Rightarrow> nat \<Rightarrow> layout \<Rightarrow> layout" where
  "set_seq i s l = upd_inst i (\<lambda>n. n\<lparr>in_seq := s\<rparr>) l"

definition inst_block :: "layout \<Rightarrow> instr \<Rightarrow> block option" where
  "inst_block l i = in_block (lay_insts l i)"

text \<open>The loop of \<open>full_block_renumber\<close>; \<open>None\<close> also stands for a walk that does not end.\<close>

partial_function (option) renumber_from :: "instr option \<Rightarrow> nat \<Rightarrow> layout \<Rightarrow> layout option" where
  "renumber_from next_inst s l =
     (case next_inst of
        None \<Rightarrow> Some l
      | Some i \<Rightarrow> add_seq s MAJOR_STRIDE \<bind> (\<lambda>s'.
          let l = set_seq i s l in renumber_from (in_next (lay_insts l i)) s' l))"

definition full_block_renumber :: "block \<Rightarrow> layout \<Rightarrow> layout option" where
  "full_block_renumber b l = renumber_from (bn_first_inst (lay_blocks l b)) MAJOR_STRIDE l"

partial_function (option) renumber_insts :: "instr \<Rightarrow> nat \<Rightarrow> nat \<Rightarrow> layout \<Rightarrow> layout option" where
  "renumber_insts i s limit l0 =
     (let l = set_seq i s l0 in
      case in_next (lay_insts l i) of
        None \<Rightarrow> Some l
      | Some j \<Rightarrow>
          if s < seq_of l j then Some l
          else if s > limit then inst_block l j \<bind> (\<lambda>b. full_block_renumber b l)
          else add_seq s MINOR_STRIDE \<bind> (\<lambda>s'. renumber_insts j s' limit l))"

definition assign_inst_seq :: "instr \<Rightarrow> layout \<Rightarrow> layout option" where
  "assign_inst_seq i l =
     (let n = lay_insts l i;
          prev_seq = (case in_prev n of Some p \<Rightarrow> seq_of l p | None \<Rightarrow> 0) in
      case in_next n of
        None \<Rightarrow> do { s \<leftarrow> add_seq prev_seq MAJOR_STRIDE; Some (set_seq i s l) }
      | Some j \<Rightarrow> do {
          m \<leftarrow> midpoint prev_seq (seq_of l j);
          (case m of
             Some s \<Rightarrow> Some (set_seq i s l)
           | None \<Rightarrow> do {
               s \<leftarrow> add_seq prev_seq MINOR_STRIDE;
               limit \<leftarrow> add_seq prev_seq LOCAL_LIMIT;
               renumber_insts i s limit l
             })
        })"

datatype program_point = PP_Inst instr | PP_Block block

definition pp_block :: "layout \<Rightarrow> program_point \<Rightarrow> block option" where
  "pp_block l pp = (case pp of PP_Block b \<Rightarrow> Some b | PP_Inst i \<Rightarrow> inst_block l i)"

datatype ordering = Less | Equal | Greater

definition seq_cmp :: "nat \<Rightarrow> nat \<Rightarrow> ordering" where
  "seq_cmp a b = (if a < b then Less else if a = b then Equal else Greater)"

definition pp_cmp :: "layout \<Rightarrow> program_point \<Rightarrow> program_point \<Rightarrow> ordering option" where
  "pp_cmp l a b = do {
     ba \<leftarrow> pp_block l a;
     bb \<leftarrow> pp_block l b;
     assert_that (ba = bb);
     let pp_seq = (\<lambda>pp. case pp of PP_Block _ \<Rightarrow> 0 | PP_Inst i \<Rightarrow> seq_of l i);
     Some (seq_cmp (pp_seq a) (pp_seq b))
   }"

section \<open>Blocks\<close>

definition is_block_inserted :: "layout \<Rightarrow> block \<Rightarrow> bool" where
  "is_block_inserted l b \<longleftrightarrow> first_block l = Some b \<or> bn_prev (lay_blocks l b) \<noteq> None"

definition append_block :: "block \<Rightarrow> layout \<Rightarrow> layout option" where
  "append_block b l = do {
     assert_that (\<not> is_block_inserted l b);
     assert_that (bn_first_inst (lay_blocks l b) = None \<and> bn_last_inst (lay_blocks l b) = None);
     let l' = upd_block b (\<lambda>n. n\<lparr>bn_prev := last_block l, bn_next := None\<rparr>) l;
     let l' = (case last_block l of
         Some lst \<Rightarrow> upd_block lst (\<lambda>n. n\<lparr>bn_next := Some b\<rparr>) l'
       | None \<Rightarrow> l'\<lparr>first_block := Some b\<rparr>);
     Some (l'\<lparr>last_block := Some b\<rparr>)
   }"

definition insert_block :: "block \<Rightarrow> block \<Rightarrow> layout \<Rightarrow> layout option" where
  "insert_block b before l = do {
     assert_that (\<not> is_block_inserted l b);
     assert_that (is_block_inserted l before);
     let after = bn_prev (lay_blocks l before);
     let l = upd_block b (\<lambda>n. n\<lparr>bn_next := Some before, bn_prev := after\<rparr>) l;
     let l = upd_block before (\<lambda>n. n\<lparr>bn_prev := Some b\<rparr>) l;
     Some (case after of
         None \<Rightarrow> l\<lparr>first_block := Some b\<rparr>
       | Some a \<Rightarrow> upd_block a (\<lambda>n. n\<lparr>bn_next := Some b\<rparr>) l)
   }"

definition insert_block_after :: "block \<Rightarrow> block \<Rightarrow> layout \<Rightarrow> layout option" where
  "insert_block_after b after l = do {
     assert_that (\<not> is_block_inserted l b);
     assert_that (is_block_inserted l after);
     let before = bn_next (lay_blocks l after);
     let l = upd_block b (\<lambda>n. n\<lparr>bn_next := before, bn_prev := Some after\<rparr>) l;
     let l = upd_block after (\<lambda>n. n\<lparr>bn_next := Some b\<rparr>) l;
     Some (case before of
         None \<Rightarrow> l\<lparr>last_block := Some b\<rparr>
       | Some a \<Rightarrow> upd_block a (\<lambda>n. n\<lparr>bn_prev := Some b\<rparr>) l)
   }"

definition remove_block :: "block \<Rightarrow> layout \<Rightarrow> layout option" where
  "remove_block b l = do {
     assert_that (is_block_inserted l b);
     assert_that (bn_first_inst (lay_blocks l b) = None);
     let prev = bn_prev (lay_blocks l b);
     let next_b = bn_next (lay_blocks l b);
     let l = upd_block b (\<lambda>n. n\<lparr>bn_prev := None, bn_next := None\<rparr>) l;
     let l = (case prev of
         None \<Rightarrow> l\<lparr>first_block := next_b\<rparr>
       | Some p \<Rightarrow> upd_block p (\<lambda>n. n\<lparr>bn_next := next_b\<rparr>) l);
     Some (case next_b of
         None \<Rightarrow> l\<lparr>last_block := prev\<rparr>
       | Some x \<Rightarrow> upd_block x (\<lambda>n. n\<lparr>bn_prev := prev\<rparr>) l)
   }"

definition set_cold :: "block \<Rightarrow> layout \<Rightarrow> layout" where
  "set_cold b l = upd_block b (\<lambda>n. n\<lparr>bn_cold := True\<rparr>) l"

definition is_cold :: "layout \<Rightarrow> block \<Rightarrow> bool" where
  "is_cold l b = bn_cold (lay_blocks l b)"

text \<open>The iterator \<open>Blocks\<close>: its state is the next block.\<close>

definition blocks_next :: "layout \<Rightarrow> block option \<Rightarrow> block option \<times> block option" where
  "blocks_next l st = (case st of Some b \<Rightarrow> (Some b, bn_next (lay_blocks l b)) | None \<Rightarrow> (None, None))"

section \<open>Instructions\<close>

definition append_inst :: "instr \<Rightarrow> block \<Rightarrow> layout \<Rightarrow> layout option" where
  "append_inst i b l = do {
     assert_that (inst_block l i = None);
     assert_that (is_block_inserted l b);
     assert_that (in_next (lay_insts l i) = None);
     let bn = lay_blocks l b;
     let l = upd_inst i (\<lambda>n. n\<lparr>in_block := Some b, in_prev := bn_last_inst bn\<rparr>) l;
     l \<leftarrow> (if bn_first_inst bn = None then Some (upd_block b (\<lambda>n. n\<lparr>bn_first_inst := Some i\<rparr>) l)
       else do { lst \<leftarrow> bn_last_inst bn; Some (upd_inst lst (\<lambda>n. n\<lparr>in_next := Some i\<rparr>) l) });
     assign_inst_seq i (upd_block b (\<lambda>n. n\<lparr>bn_last_inst := Some i\<rparr>) l)
   }"

definition insert_inst :: "instr \<Rightarrow> instr \<Rightarrow> layout \<Rightarrow> layout option" where
  "insert_inst i before l = do {
     assert_that (inst_block l i = None);
     b \<leftarrow> inst_block l before;
     let after = in_prev (lay_insts l before);
     let l = upd_inst i (\<lambda>n. n\<lparr>in_block := Some b, in_next := Some before, in_prev := after\<rparr>) l;
     let l = upd_inst before (\<lambda>n. n\<lparr>in_prev := Some i\<rparr>) l;
     let l = (case after of
         None \<Rightarrow> upd_block b (\<lambda>n. n\<lparr>bn_first_inst := Some i\<rparr>) l
       | Some a \<Rightarrow> upd_inst a (\<lambda>n. n\<lparr>in_next := Some i\<rparr>) l);
     assign_inst_seq i l
   }"

definition remove_inst :: "instr \<Rightarrow> layout \<Rightarrow> layout option" where
  "remove_inst i l = do {
     b \<leftarrow> inst_block l i;
     let prev = in_prev (lay_insts l i);
     let next_i = in_next (lay_insts l i);
     let l = upd_inst i (\<lambda>n. n\<lparr>in_block := None, in_prev := None, in_next := None\<rparr>) l;
     let l = (case prev of
         None \<Rightarrow> upd_block b (\<lambda>n. n\<lparr>bn_first_inst := next_i\<rparr>) l
       | Some p \<Rightarrow> upd_inst p (\<lambda>n. n\<lparr>in_next := next_i\<rparr>) l);
     Some (case next_i of
         None \<Rightarrow> upd_block b (\<lambda>n. n\<lparr>bn_last_inst := prev\<rparr>) l
       | Some x \<Rightarrow> upd_inst x (\<lambda>n. n\<lparr>in_prev := prev\<rparr>) l)
   }"

partial_function (option) remove_insts :: "block \<Rightarrow> layout \<Rightarrow> layout option" where
  "remove_insts b l =
     (case bn_first_inst (lay_blocks l b) of
        None \<Rightarrow> Some l
      | Some i \<Rightarrow> remove_inst i l \<bind> remove_insts b)"

definition remove_block_and_insts :: "block \<Rightarrow> layout \<Rightarrow> layout option" where
  "remove_block_and_insts b l = remove_insts b l \<bind> remove_block b"

text \<open>The double-ended iterator \<open>Insts\<close>: its state is the pair of the head and the tail.\<close>

definition block_insts :: "layout \<Rightarrow> block \<Rightarrow> instr option \<times> instr option" where
  "block_insts l b = (bn_first_inst (lay_blocks l b), bn_last_inst (lay_blocks l b))"

definition insts_next :: "layout \<Rightarrow> instr option \<times> instr option \<Rightarrow> instr option \<times> (instr option \<times> instr option)" where
  "insts_next l st =
     (case st of (hd_i, tl_i) \<Rightarrow>
        (hd_i, case hd_i of
           None \<Rightarrow> (hd_i, tl_i)
         | Some i \<Rightarrow> if hd_i = tl_i then (None, None) else (in_next (lay_insts l i), tl_i)))"

definition insts_next_back ::
  "layout \<Rightarrow> instr option \<times> instr option \<Rightarrow> instr option \<times> (instr option \<times> instr option)" where
  "insts_next_back l st =
     (case st of (hd_i, tl_i) \<Rightarrow>
        (tl_i, case tl_i of
           None \<Rightarrow> (hd_i, tl_i)
         | Some i \<Rightarrow> if hd_i = tl_i then (None, None) else (hd_i, in_prev (lay_insts l i))))"

definition block_contains_exactly_one_inst :: "layout \<Rightarrow> block \<Rightarrow> bool" where
  "block_contains_exactly_one_inst l b \<longleftrightarrow>
     bn_first_inst (lay_blocks l b) \<noteq> None \<and> bn_first_inst (lay_blocks l b) = bn_last_inst (lay_blocks l b)"

text \<open>The last loop of \<open>split_block\<close>: the instructions from a point on move to the new block.\<close>

partial_function (option) move_insts :: "instr option \<Rightarrow> block \<Rightarrow> block \<Rightarrow> layout \<Rightarrow> layout option" where
  "move_insts opt_i old_block new_block l =
     (case opt_i of
        None \<Rightarrow> Some l
      | Some i \<Rightarrow>
          assert_that (inst_block l i = Some old_block) \<bind> (\<lambda>_.
            let l = upd_inst i (\<lambda>n. n\<lparr>in_block := Some new_block\<rparr>) l
            in move_insts (in_next (lay_insts l i)) old_block new_block l))"

definition split_block :: "block \<Rightarrow> instr \<Rightarrow> layout \<Rightarrow> layout option" where
  "split_block new_block before l = do {
     old_block \<leftarrow> inst_block l before;
     assert_that (\<not> is_block_inserted l new_block);
     let next_b = bn_next (lay_blocks l old_block);
     let last_i = bn_last_inst (lay_blocks l old_block);
     let l = upd_block new_block (\<lambda>n. n\<lparr>bn_prev := Some old_block, bn_next := next_b,
       bn_first_inst := Some before, bn_last_inst := last_i\<rparr>) l;
     let l = upd_block old_block (\<lambda>n. n\<lparr>bn_next := Some new_block\<rparr>) l;
     l \<leftarrow> (if last_block l = Some old_block then Some (l\<lparr>last_block := Some new_block\<rparr>)
       else do { x \<leftarrow> next_b; Some (upd_block x (\<lambda>n. n\<lparr>bn_prev := Some new_block\<rparr>) l) });
     let prev_i = in_prev (lay_insts l before);
     let l = upd_inst before (\<lambda>n. n\<lparr>in_prev := None\<rparr>) l;
     let l = upd_block old_block (\<lambda>n. n\<lparr>bn_last_inst := prev_i\<rparr>) l;
     let l = (case prev_i of
         None \<Rightarrow> upd_block old_block (\<lambda>n. n\<lparr>bn_first_inst := None\<rparr>) l
       | Some p \<Rightarrow> upd_inst p (\<lambda>n. n\<lparr>in_next := None\<rparr>) l);
     move_insts (Some before) old_block new_block l
   }"

section \<open>Accessors\<close>

definition entry_block :: "layout \<Rightarrow> block option" where "entry_block l = first_block l"
definition prev_block :: "layout \<Rightarrow> block \<Rightarrow> block option" where "prev_block l b = bn_prev (lay_blocks l b)"
definition next_block :: "layout \<Rightarrow> block \<Rightarrow> block option" where "next_block l b = bn_next (lay_blocks l b)"
definition first_inst :: "layout \<Rightarrow> block \<Rightarrow> instr option" where "first_inst l b = bn_first_inst (lay_blocks l b)"
definition last_inst :: "layout \<Rightarrow> block \<Rightarrow> instr option" where "last_inst l b = bn_last_inst (lay_blocks l b)"
definition next_inst :: "layout \<Rightarrow> instr \<Rightarrow> instr option" where "next_inst l i = in_next (lay_insts l i)"
definition prev_inst :: "layout \<Rightarrow> instr \<Rightarrow> instr option" where "prev_inst l i = in_prev (lay_insts l i)"

section \<open>Equality\<close>

text \<open>
  \<open>PartialEq\<close>: the nodes of instructions are compared without their sequence numbers. Keys never written
  read as default nodes, so equality of two maps is equality at every key.
\<close>

definition inst_node_eq :: "inst_node \<Rightarrow> inst_node \<Rightarrow> bool" where
  "inst_node_eq m n \<longleftrightarrow> in_block m = in_block n \<and> in_prev m = in_prev n \<and> in_next m = in_next n"

definition layout_eq :: "layout \<Rightarrow> layout \<Rightarrow> bool" where
  "layout_eq l m \<longleftrightarrow> lay_blocks l = lay_blocks m \<and> (\<forall>i. inst_node_eq (lay_insts l i) (lay_insts m i)) \<and>
     first_block l = first_block m \<and> last_block l = last_block m"

section \<open>Serialization\<close>

text \<open>
  The module \<open>serde\<close>: a layout is stored as the sequence of its blocks, each with its cold flag, its number of
  instructions and the instructions. A \<open>for\<close> loop over an iterator visits what \<open>drain\<close> collects; \<open>None\<close> is
  an iteration that does not end. The elements carry the type they are written and read with.
\<close>

partial_function (option) drain :: "('s \<Rightarrow> 'a option \<times> 's) \<Rightarrow> 's \<Rightarrow> 'a list option" where
  "drain nxt st =
     (case nxt st of
        (None, _) \<Rightarrow> Some []
      | (Some x, st') \<Rightarrow> drain nxt st' \<bind> (\<lambda>xs. Some (x # xs)))"

datatype ser_elem = E_Block block | E_Bool bool | E_U32 nat | E_Inst instr

definition layout_blocks :: "layout \<Rightarrow> block list option" where
  "layout_blocks l = drain (blocks_next l) (first_block l)"

definition layout_insts :: "layout \<Rightarrow> block \<Rightarrow> instr list option" where
  "layout_insts l b = drain (insts_next l) (block_insts l b)"

fun serialize_blocks :: "layout \<Rightarrow> block list \<Rightarrow> ser_elem list option" where
  "serialize_blocks l [] = Some []"
| "serialize_blocks l (b # bs) = do {
     xs \<leftarrow> layout_insts l b;
     assert_that (length xs \<le> SEQ_MAX);
     rest \<leftarrow> serialize_blocks l bs;
     Some (E_Block b # E_Bool (bn_cold (lay_blocks l b)) # E_U32 (length xs) # map E_Inst xs @ rest)
   }"

fun count_insts :: "layout \<Rightarrow> block list \<Rightarrow> nat option" where
  "count_insts l [] = Some 0"
| "count_insts l (b # bs) = do { xs \<leftarrow> layout_insts l b; n \<leftarrow> count_insts l bs; Some (length xs + n) }"

text \<open>The result is the size announced to the serializer and the elements.\<close>

definition serialize :: "layout \<Rightarrow> (nat \<times> ser_elem list) option" where
  "serialize l = do {
     bs \<leftarrow> layout_blocks l;
     n \<leftarrow> count_insts l bs;
     es \<leftarrow> serialize_blocks l bs;
     Some (length bs * 3 + n, es)
   }"

datatype de_error = Missing_Field string | Invalid_Type | Panicked

text \<open>\<open>next_element\<close> at the type of its reader: the end of the sequence, an element or an error.\<close>

definition next_elem :: "(ser_elem \<Rightarrow> 'a option) \<Rightarrow> ser_elem list \<Rightarrow> de_error + ('a option \<times> ser_elem list)" where
  "next_elem rd es =
     (case es of
        [] \<Rightarrow> Inr (None, [])
      | e # es \<Rightarrow> (case rd e of Some v \<Rightarrow> Inr (Some v, es) | None \<Rightarrow> Inl Invalid_Type))"

definition field :: "string \<Rightarrow> (ser_elem \<Rightarrow> 'a option) \<Rightarrow> ser_elem list \<Rightarrow> de_error + ('a \<times> ser_elem list)" where
  "field name rd es =
     (case next_elem rd es of
        Inl e \<Rightarrow> Inl e
      | Inr (None, _) \<Rightarrow> Inl (Missing_Field name)
      | Inr (Some v, es) \<Rightarrow> Inr (v, es))"

definition rd_block :: "ser_elem \<Rightarrow> block option" where
  "rd_block e = (case e of E_Block b \<Rightarrow> Some b | _ \<Rightarrow> None)"

definition rd_bool :: "ser_elem \<Rightarrow> bool option" where
  "rd_bool e = (case e of E_Bool b \<Rightarrow> Some b | _ \<Rightarrow> None)"

definition rd_u32 :: "ser_elem \<Rightarrow> nat option" where
  "rd_u32 e = (case e of E_U32 n \<Rightarrow> Some n | _ \<Rightarrow> None)"

definition rd_inst :: "ser_elem \<Rightarrow> instr option" where
  "rd_inst e = (case e of E_Inst i \<Rightarrow> Some i | _ \<Rightarrow> None)"

fun visit_insts :: "nat \<Rightarrow> block \<Rightarrow> ser_elem list \<Rightarrow> layout \<Rightarrow> de_error + (ser_elem list \<times> layout)" where
  "visit_insts 0 b es l = Inr (es, l)"
| "visit_insts (Suc n) b es l =
     (case field ''inst'' rd_inst es of
        Inl e \<Rightarrow> Inl e
      | Inr (i, es) \<Rightarrow> (case append_inst i b l of None \<Rightarrow> Inl Panicked | Some l \<Rightarrow> visit_insts n b es l))"

definition visit_block :: "block \<Rightarrow> ser_elem list \<Rightarrow> layout \<Rightarrow> de_error + (ser_elem list \<times> layout)" where
  "visit_block b es l =
     (case append_block b l of
        None \<Rightarrow> Inl Panicked
      | Some l \<Rightarrow>
          (case field ''cold'' rd_bool es of
             Inl e \<Rightarrow> Inl e
           | Inr (cold, es) \<Rightarrow>
               (let l = upd_block b (\<lambda>n. n\<lparr>bn_cold := cold\<rparr>) l in
                case field ''count'' rd_u32 es of
                  Inl e \<Rightarrow> Inl e
                | Inr (count, es) \<Rightarrow> visit_insts count b es l)))"

lemma next_elem_length: "next_elem rd es = Inr (v, es') \<Longrightarrow> length es' \<le> length es \<and> (v \<noteq> None \<longrightarrow> length es' < length es)"
  by (auto simp: next_elem_def split: list.splits option.splits)

lemma field_length: "field name rd es = Inr (v, es') \<Longrightarrow> length es' < length es"
  using next_elem_length by (fastforce simp: field_def split: sum.splits prod.splits option.splits)

lemma visit_insts_length: "visit_insts n b es l = Inr (es', l') \<Longrightarrow> length es' \<le> length es"
proof (induction n arbitrary: es l)
  case (Suc n)
  then obtain i es1 l1 where "field ''inst'' rd_inst es = Inr (i, es1)" "visit_insts n b es1 l1 = Inr (es', l')"
    by (auto split: sum.splits prod.splits option.splits)
  then show ?case using Suc.IH field_length by fastforce
qed simp

lemma visit_block_length: "visit_block b es l = Inr (es', l') \<Longrightarrow> length es' \<le> length es"
  by (auto simp: visit_block_def Let_def split: option.splits sum.splits prod.splits dest!: visit_insts_length field_length)

function visit_blocks :: "ser_elem list \<Rightarrow> layout \<Rightarrow> de_error + layout" where
  "visit_blocks es l =
     (case next_elem rd_block es of
        Inl e \<Rightarrow> Inl e
      | Inr (None, _) \<Rightarrow> Inr l
      | Inr (Some b, es1) \<Rightarrow>
          (case visit_block b es1 l of
             Inl e \<Rightarrow> Inl e
           | Inr (es2, l) \<Rightarrow> visit_blocks es2 l))"
  by auto
termination
  by (relation "measure (\<lambda>(es, l). length es)") (auto dest!: visit_block_length next_elem_length)

declare visit_blocks.simps [simp del]

definition visit_seq :: "ser_elem list \<Rightarrow> de_error + layout" where
  "visit_seq es = visit_blocks es layout_new"

end
