(* ===== verification/Ir_Layout_Inv.thy ===== *)
theory Ir_Layout_Inv
  imports Ir_Layout
begin

text \<open>
  The layout as lists: \<open>layout_rel l bs is\<close> says that \<open>l\<close> represents the block order \<open>bs\<close> and, for each
  block \<open>b\<close>, the instruction order \<open>is b\<close>: the links in both directions spell the lists, whatever is not
  inserted has no links, and sequence numbers are positive and increase along each block. Every operation
  refines the corresponding operation on lists.
\<close>

section \<open>Doubly linked chains\<close>

definition hd_or :: "'a list \<Rightarrow> 'a option \<Rightarrow> 'a option" where
  "hd_or xs q = (case xs of [] \<Rightarrow> q | x # _ \<Rightarrow> Some x)"

definition last_or :: "'a option \<Rightarrow> 'a list \<Rightarrow> 'a option" where
  "last_or p xs = (if xs = [] then p else Some (last xs))"

lemma hd_or_simps [simp]:
  "hd_or [] q = q" "hd_or (x # xs) q = Some x" "hd_or (xs @ ys) q = hd_or xs (hd_or ys q)"
  by (simp_all add: hd_or_def split: list.splits)

lemma last_or_simps [simp]:
  "last_or p [] = p" "last_or p (xs @ [x]) = Some x" "last_or p (x # xs) = last_or (Some x) xs"
  "last_or p (xs @ ys) = last_or (last_or p xs) ys"
  by (simp_all add: last_or_def)

fun chain :: "('a \<Rightarrow> 'a option) \<Rightarrow> ('a \<Rightarrow> 'a option) \<Rightarrow> 'a option \<Rightarrow> 'a list \<Rightarrow> 'a option \<Rightarrow> bool" where
  "chain pv nx p [] q \<longleftrightarrow> True"
| "chain pv nx p (x # xs) q \<longleftrightarrow> pv x = p \<and> nx x = hd_or xs q \<and> chain pv nx (Some x) xs q"

lemma chain_append [simp]:
  "chain pv nx p (xs @ ys) q \<longleftrightarrow> chain pv nx p xs (hd_or ys q) \<and> chain pv nx (last_or p xs) ys q"
  by (induction xs arbitrary: p) auto

lemma chain_cong:
  "(\<And>x. x \<in> set xs \<Longrightarrow> pv x = pv' x \<and> nx x = nx' x) \<Longrightarrow> chain pv nx p xs q = chain pv' nx' p xs q"
  by (induction xs arbitrary: p) auto

lemma chain_upd [simp]:
  "x \<notin> set xs \<Longrightarrow> chain (pv(x := v)) nx p xs q = chain pv nx p xs q"
  "x \<notin> set xs \<Longrightarrow> chain pv (nx(x := v)) p xs q = chain pv nx p xs q"
  by (auto intro!: chain_cong)

lemma hd_or_None [simp]: "hd_or xs q = None \<longleftrightarrow> xs = [] \<and> q = None"
  by (cases xs) auto

lemma last_or_None [simp]: "last_or None xs = None \<longleftrightarrow> xs = []"
  by (simp add: last_or_def)

lemma hd_or_in: "hd_or xs None = Some x \<Longrightarrow> x \<in> set xs"
  by (cases xs) auto

lemma last_or_in: "last_or None xs = Some x \<Longrightarrow> x \<in> set xs"
  by (auto simp: last_or_def split: if_splits)

text \<open>A list with its two ends: what a list header and the links of its nodes represent.\<close>

definition ring :: "('a \<Rightarrow> 'a option) \<Rightarrow> ('a \<Rightarrow> 'a option) \<Rightarrow> 'a option \<Rightarrow> 'a option \<Rightarrow> 'a list \<Rightarrow> bool" where
  "ring pv nx f t xs \<longleftrightarrow> distinct xs \<and> f = hd_or xs None \<and> t = last_or None xs \<and> chain pv nx None xs None"

lemma ring_middle:
  assumes "ring pv nx f t (xs @ x # ys)"
  shows "pv x = last_or None xs" "nx x = hd_or ys None"
  using assms by (simp_all add: ring_def)

lemma ring_cong:
  "ring pv nx f t xs \<Longrightarrow> (\<And>x. x \<in> set xs \<Longrightarrow> pv' x = pv x \<and> nx' x = nx x) \<Longrightarrow> ring pv' nx' f t xs"
  unfolding ring_def by (metis chain_cong)

lemma chain_retarget:
  assumes "chain pv nx p xs q" "distinct xs" "\<And>x. x \<in> set xs \<Longrightarrow> pv' x = (if hd_or xs None = Some x then p' else pv x)"
    and "\<And>x. x \<in> set xs \<Longrightarrow> nx' x = (if last_or None xs = Some x then q' else nx x)"
  shows "chain pv' nx' p' xs q'"
  using assms
proof (induction xs arbitrary: p p' pv)
  case (Cons x xs)
  have "chain pv' nx' (Some x) xs q'"
  proof (rule Cons.IH)
    show "chain pv nx (Some x) xs q" "distinct xs" using Cons.prems by simp_all
    show "pv' y = (if hd_or xs None = Some y then Some x else pv y)" if "y \<in> set xs" for y
      using Cons.prems that by (cases xs) auto
    show "nx' y = (if last_or None xs = Some y then q' else nx y)" if "y \<in> set xs" for y
      using Cons.prems(4) [of y] that by (auto simp: last_or_def)
  qed
  moreover have "pv' x = p'" using Cons.prems(3) [of x] by simp
  moreover have "nx' x = hd_or xs q'"
    using Cons.prems(1,2) Cons.prems(4) [of x] by (cases xs) (auto simp: last_or_def)
  ultimately show ?case by simp
qed simp

text \<open>
  The three ways the operations relink a list: a new element between two parts, an element taken out,
  and a cut in two. The new links are given by their values on the elements.
\<close>

lemma ring_insert:
  assumes "ring pv nx f t (xs @ ys)" "b \<notin> set (xs @ ys)" "pv' b = last_or None xs" "nx' b = hd_or ys None"
    and "\<And>x. x \<in> set (xs @ ys) \<Longrightarrow> pv' x = (if hd_or ys None = Some x then Some b else pv x)"
    and "\<And>x. x \<in> set (xs @ ys) \<Longrightarrow> nx' x = (if last_or None xs = Some x then Some b else nx x)"
    and "f' = (if xs = [] then Some b else f)" "t' = (if ys = [] then Some b else t)"
  shows "ring pv' nx' f' t' (xs @ b # ys)"
proof -
  have d: "distinct xs" "distinct ys" "set xs \<inter> set ys = {}" using assms(1) by (auto simp: ring_def)
  have "chain pv' nx' None xs (Some b)"
  proof (rule chain_retarget)
    show "chain pv nx None xs (hd_or ys None)" "distinct xs" using assms(1) d by (simp_all add: ring_def)
    fix x assume x: "x \<in> set xs"
    then have "hd_or ys None \<noteq> Some x" using d(3) hd_or_in by fastforce
    moreover have "hd_or xs None = Some x \<Longrightarrow> pv x = None" using assms(1) by (cases xs) (auto simp: ring_def)
    ultimately show "pv' x = (if hd_or xs None = Some x then None else pv x)" using assms(5) x by auto
    show "nx' x = (if last_or None xs = Some x then Some b else nx x)" using assms(6) x by auto
  qed
  moreover have "chain pv' nx' (Some b) ys None"
  proof (rule chain_retarget)
    show "chain pv nx (last_or None xs) ys None" "distinct ys" using assms(1) d by (simp_all add: ring_def)
    fix x assume x: "x \<in> set ys"
    then have "last_or None xs \<noteq> Some x" using d(3) last_or_in by fastforce
    moreover have "last_or None ys = Some x \<Longrightarrow> nx x = None" using assms(1) by (cases ys rule: rev_cases) (auto simp: ring_def)
    ultimately show "nx' x = (if last_or None ys = Some x then None else nx x)" using assms(6) x by auto
    show "pv' x = (if hd_or ys None = Some x then Some b else pv x)" using assms(5) x by auto
  qed
  ultimately show ?thesis using assms by (auto simp: ring_def last_or_def hd_or_def split: list.splits)
qed

lemma ring_remove:
  assumes "ring pv nx f t (xs @ b # ys)"
    and "\<And>x. x \<in> set (xs @ ys) \<Longrightarrow> pv' x = (if hd_or ys None = Some x then last_or None xs else pv x)"
    and "\<And>x. x \<in> set (xs @ ys) \<Longrightarrow> nx' x = (if last_or None xs = Some x then hd_or ys None else nx x)"
    and "f' = (if xs = [] then hd_or ys None else f)" "t' = (if ys = [] then last_or None xs else t)"
  shows "ring pv' nx' f' t' (xs @ ys)"
proof -
  have d: "distinct xs" "distinct ys" "set xs \<inter> set ys = {}" using assms(1) by (auto simp: ring_def)
  have "chain pv' nx' None xs (hd_or ys None)"
  proof (rule chain_retarget)
    show "chain pv nx None xs (Some b)" "distinct xs" using assms(1) d by (simp_all add: ring_def)
    fix x assume x: "x \<in> set xs"
    then have "hd_or ys None \<noteq> Some x" using d(3) hd_or_in by fastforce
    moreover have "hd_or xs None = Some x \<Longrightarrow> pv x = None" using assms(1) by (cases xs) (auto simp: ring_def)
    ultimately show "pv' x = (if hd_or xs None = Some x then None else pv x)" using assms(2) x by auto
    show "nx' x = (if last_or None xs = Some x then hd_or ys None else nx x)" using assms(3) x by auto
  qed
  moreover have "chain pv' nx' (last_or None xs) ys None"
  proof (rule chain_retarget)
    show "chain pv nx (Some b) ys None" "distinct ys" using assms(1) d by (simp_all add: ring_def)
    fix x assume x: "x \<in> set ys"
    then have "last_or None xs \<noteq> Some x" using d(3) last_or_in by fastforce
    moreover have "last_or None ys = Some x \<Longrightarrow> nx x = None" using assms(1) by (cases ys rule: rev_cases) (auto simp: ring_def)
    ultimately show "nx' x = (if last_or None ys = Some x then None else nx x)" using assms(3) x by auto
    show "pv' x = (if hd_or ys None = Some x then last_or None xs else pv x)" using assms(2) x by auto
  qed
  ultimately show ?thesis using assms d by (auto simp: ring_def last_or_def hd_or_def split: list.splits)
qed

lemma ring_split:
  assumes "ring pv nx f t (xs @ y # ys)"
    and "\<And>x. x \<in> set (xs @ y # ys) \<Longrightarrow> pv' x = (if x = y then None else pv x)"
    and "\<And>x. x \<in> set (xs @ y # ys) \<Longrightarrow> nx' x = (if last_or None xs = Some x then None else nx x)"
  shows "ring pv' nx' (if xs = [] then None else f) (last_or None xs) xs" "ring pv' nx' (Some y) t (y # ys)"
proof -
  have d: "distinct xs" "distinct (y # ys)" "set xs \<inter> set (y # ys) = {}" using assms(1) by (auto simp: ring_def)
  have "chain pv' nx' None xs None"
  proof (rule chain_retarget)
    show "chain pv nx None xs (Some y)" "distinct xs" using assms(1) d by (simp_all add: ring_def)
    fix x assume x: "x \<in> set xs"
    have "hd_or xs None = Some x \<Longrightarrow> pv x = None" using assms(1) by (cases xs) (auto simp: ring_def)
    then show "pv' x = (if hd_or xs None = Some x then None else pv x)" using assms(2) [of x] x d by auto
    show "nx' x = (if last_or None xs = Some x then None else nx x)" using assms(3) x by auto
  qed
  then show "ring pv' nx' (if xs = [] then None else f) (last_or None xs) xs"
    using assms(1) d by (auto simp: ring_def hd_or_def split: list.splits)
  have "chain pv' nx' None (y # ys) None"
  proof (rule chain_retarget)
    show "chain pv nx (last_or None xs) (y # ys) None" "distinct (y # ys)" using assms(1) d by (simp_all add: ring_def)
    fix x assume x: "x \<in> set (y # ys)"
    then have "last_or None xs \<noteq> Some x" using d(3) last_or_in by fastforce
    moreover have "last_or None (y # ys) = Some x \<Longrightarrow> nx x = None"
      using assms(1) by (cases ys rule: rev_cases) (auto simp: ring_def)
    ultimately show "nx' x = (if last_or None (y # ys) = Some x then None else nx x)" using assms(3) x by auto
    show "pv' x = (if hd_or (y # ys) None = Some x then None else pv x)" using assms(2) x by auto
  qed
  then show "ring pv' nx' (Some y) t (y # ys)" using assms(1) d by (auto simp: ring_def)
qed

section \<open>Representation\<close>

abbreviation b_prev :: "layout \<Rightarrow> block \<Rightarrow> block option" where "b_prev l b \<equiv> bn_prev (lay_blocks l b)"
abbreviation b_next :: "layout \<Rightarrow> block \<Rightarrow> block option" where "b_next l b \<equiv> bn_next (lay_blocks l b)"
abbreviation b_first :: "layout \<Rightarrow> block \<Rightarrow> instr option" where "b_first l b \<equiv> bn_first_inst (lay_blocks l b)"
abbreviation b_last :: "layout \<Rightarrow> block \<Rightarrow> instr option" where "b_last l b \<equiv> bn_last_inst (lay_blocks l b)"
abbreviation i_prev :: "layout \<Rightarrow> instr \<Rightarrow> instr option" where "i_prev l i \<equiv> in_prev (lay_insts l i)"
abbreviation i_next :: "layout \<Rightarrow> instr \<Rightarrow> instr option" where "i_next l i \<equiv> in_next (lay_insts l i)"
abbreviation i_block :: "layout \<Rightarrow> instr \<Rightarrow> block option" where "i_block l i \<equiv> in_block (lay_insts l i)"

definition blocks_ok :: "layout \<Rightarrow> block list \<Rightarrow> bool" where
  "blocks_ok l bs \<longleftrightarrow> ring (b_prev l) (b_next l) (first_block l) (last_block l) bs \<and>
     (\<forall>b. b \<notin> set bs \<longrightarrow> b_prev l b = None \<and> b_next l b = None)"

definition insts_ok :: "layout \<Rightarrow> (block \<Rightarrow> instr list) \<Rightarrow> bool" where
  "insts_ok l is \<longleftrightarrow>
     (\<forall>b. ring (i_prev l) (i_next l) (b_first l b) (b_last l b) (is b)) \<and>
     (\<forall>i b. i_block l i = Some b \<longleftrightarrow> i \<in> set (is b)) \<and>
     (\<forall>i. i_block l i = None \<longrightarrow> i_prev l i = None \<and> i_next l i = None)"

definition seqs_ok :: "layout \<Rightarrow> instr list \<Rightarrow> bool" where
  "seqs_ok l xs \<longleftrightarrow> sorted_wrt (<) (0 # map (seq_of l) xs)"

definition layout_rel :: "layout \<Rightarrow> block list \<Rightarrow> (block \<Rightarrow> instr list) \<Rightarrow> bool" where
  "layout_rel l bs is \<longleftrightarrow> blocks_ok l bs \<and> insts_ok l is \<and> (\<forall>b. b \<notin> set bs \<longrightarrow> is b = []) \<and> (\<forall>b. seqs_ok l (is b))"

lemma upd_sel [simp]:
  "lay_blocks (upd_block b f l) = (lay_blocks l)(b := f (lay_blocks l b))" "lay_insts (upd_block b f l) = lay_insts l"
  "first_block (upd_block b f l) = first_block l" "last_block (upd_block b f l) = last_block l"
  "lay_insts (upd_inst i g l) = (lay_insts l)(i := g (lay_insts l i))" "lay_blocks (upd_inst i g l) = lay_blocks l"
  "first_block (upd_inst i g l) = first_block l" "last_block (upd_inst i g l) = last_block l"
  by (simp_all add: upd_block_def upd_inst_def)

lemma layout_new_rel: "layout_rel layout_new [] (\<lambda>b. [])"
  by (simp add: layout_rel_def blocks_ok_def insts_ok_def ring_def seqs_ok_def layout_new_def default_block_def default_inst_def)

lemma blocks_ok_inserted:
  assumes "blocks_ok l bs" shows "is_block_inserted l b \<longleftrightarrow> b \<in> set bs"
proof (cases "b \<in> set bs")
  case True
  then obtain xs ys where bs: "bs = xs @ b # ys" by (meson split_list)
  then have "b_prev l b = last_or None xs" "first_block l = hd_or bs None"
    using assms ring_middle(1) by (auto simp: blocks_ok_def ring_def)
  then show ?thesis using bs by (cases xs) (auto simp: is_block_inserted_def last_or_def)
next
  case False
  then have "first_block l \<noteq> Some b" using assms hd_or_in [of bs b] by (auto simp: blocks_ok_def ring_def)
  then show ?thesis using assms False by (auto simp: blocks_ok_def is_block_inserted_def)
qed

section \<open>Blocks\<close>

text \<open>
  A block is put between two parts of the order when its links, the links to it and the ends of the list
  are the following. The three operations that add a block only differ in how they reach this state.
\<close>

definition block_linked :: "block list \<Rightarrow> block \<Rightarrow> block list \<Rightarrow> layout \<Rightarrow> layout \<Rightarrow> bool" where
  "block_linked xs b ys l l' \<longleftrightarrow>
     (\<forall>x. b_prev l' x = (if x = b then last_or None xs else if hd_or ys None = Some x then Some b else b_prev l x)) \<and>
     (\<forall>x. b_next l' x = (if x = b then hd_or ys None else if last_or None xs = Some x then Some b else b_next l x)) \<and>
     first_block l' = (if xs = [] then Some b else first_block l) \<and>
     last_block l' = (if ys = [] then Some b else last_block l)"

definition same_insts :: "layout \<Rightarrow> layout \<Rightarrow> bool" where
  "same_insts l l' \<longleftrightarrow> lay_insts l' = lay_insts l \<and> (\<forall>x. b_first l' x = b_first l x \<and> b_last l' x = b_last l x)"

lemma block_linked_ok:
  assumes "blocks_ok l (xs @ ys)" "b \<notin> set (xs @ ys)" "block_linked xs b ys l l'"
  shows "blocks_ok l' (xs @ b # ys)"
proof -
  have "ring (b_prev l') (b_next l') (first_block l') (last_block l') (xs @ b # ys)"
    by (rule ring_insert [where pv = "b_prev l" and nx = "b_next l"])
      (use assms in \<open>auto simp: blocks_ok_def block_linked_def\<close>)
  moreover have "b_prev l' x = None \<and> b_next l' x = None" if "x \<notin> set (xs @ b # ys)" for x
    using assms that hd_or_in [of ys x] last_or_in [of xs x] by (auto simp: blocks_ok_def block_linked_def)
  ultimately show ?thesis by (simp add: blocks_ok_def)
qed

lemma insts_ok_same: "same_insts l l' \<Longrightarrow> insts_ok l is \<Longrightarrow> insts_ok l' is"
  by (simp add: same_insts_def insts_ok_def)

lemma seqs_ok_same: "same_insts l l' \<Longrightarrow> seqs_ok l xs \<Longrightarrow> seqs_ok l' xs"
  by (simp add: same_insts_def seqs_ok_def seq_of_def [abs_def])

lemma layout_rel_linked:
  assumes "layout_rel l (xs @ ys) is" "b \<notin> set (xs @ ys)" "block_linked xs b ys l l'" "same_insts l l'"
  shows "layout_rel l' (xs @ b # ys) is"
  using assms block_linked_ok [of l xs ys b l'] by (auto simp: layout_rel_def intro: insts_ok_same seqs_ok_same)

lemma layout_rel_empty_block:
  "layout_rel l bs is \<Longrightarrow> b \<notin> set bs \<Longrightarrow> b_first l b = None \<and> b_last l b = None"
  by (auto simp: layout_rel_def insts_ok_def ring_def)

lemma layout_rel_inserted: "layout_rel l bs is \<Longrightarrow> is_block_inserted l b \<longleftrightarrow> b \<in> set bs"
  by (simp add: layout_rel_def blocks_ok_inserted)

lemma layout_rel_ends:
  assumes "layout_rel l bs is" shows "first_block l = hd_or bs None" "last_block l = last_or None bs"
  using assms by (auto simp: layout_rel_def blocks_ok_def ring_def)

lemma layout_rel_block_links:
  assumes "layout_rel l (xs @ b # ys) is" shows "b_prev l b = last_or None xs" "b_next l b = hd_or ys None"
  using assms by (auto simp: layout_rel_def blocks_ok_def ring_def)

lemma layout_rel_unlinked:
  assumes "layout_rel l (xs @ b # ys) is" "is b = []" "same_insts l l'"
    and "ring (b_prev l') (b_next l') (first_block l') (last_block l') (xs @ ys)"
    and "\<And>x. x \<notin> set (xs @ ys) \<Longrightarrow> b_prev l' x = None \<and> b_next l' x = None"
  shows "layout_rel l' (xs @ ys) is"
proof -
  have "is x = []" if "x \<notin> set (xs @ ys)" for x
    using assms(1,2) that by (cases "x = b") (auto simp: layout_rel_def)
  then show ?thesis using assms by (auto simp: layout_rel_def blocks_ok_def intro: insts_ok_same seqs_ok_same)
qed

lemma append_block_rel:
  assumes "layout_rel l bs is" "b \<notin> set bs"
  obtains l' where "append_block b l = Some l'" "layout_rel l' (bs @ [b]) is"
proof -
  let ?l = "upd_block b (\<lambda>n. n\<lparr>bn_prev := last_block l, bn_next := None\<rparr>) l"
  let ?l' = "(case last_block l of Some x \<Rightarrow> upd_block x (\<lambda>n. n\<lparr>bn_next := Some b\<rparr>) ?l | None \<Rightarrow> ?l\<lparr>first_block := Some b\<rparr>)
    \<lparr>last_block := Some b\<rparr>"
  have "block_linked bs b [] l ?l'" "same_insts l ?l'"
    using assms layout_rel_ends [OF assms(1)] last_or_in [of bs b]
    by (auto simp: block_linked_def same_insts_def split: option.splits)
  then show thesis
    by (intro that [of ?l'] layout_rel_linked [where ys = "[]"])
      (use assms layout_rel_empty_block [OF assms] in \<open>auto simp: append_block_def layout_rel_inserted split: option.splits\<close>)
qed

lemma insert_block_rel:
  assumes "layout_rel l (xs @ c # ys) is" "b \<notin> set (xs @ c # ys)"
  obtains l' where "insert_block b c l = Some l'" "layout_rel l' (xs @ b # c # ys) is"
proof -
  let ?l = "upd_block c (\<lambda>n. n\<lparr>bn_prev := Some b\<rparr>) (upd_block b (\<lambda>n. n\<lparr>bn_next := Some c, bn_prev := b_prev l c\<rparr>) l)"
  let ?l' = "case b_prev l c of None \<Rightarrow> ?l\<lparr>first_block := Some b\<rparr> | Some a \<Rightarrow> upd_block a (\<lambda>n. n\<lparr>bn_next := Some b\<rparr>) ?l"
  have "block_linked xs b (c # ys) l ?l'" "same_insts l ?l'"
    using assms layout_rel_block_links [OF assms(1)] last_or_in [of xs b]
    by (auto simp: block_linked_def same_insts_def split: option.splits)
  then show thesis
    by (intro that [of ?l'] layout_rel_linked [where ys = "c # ys"])
      (use assms in \<open>auto simp: insert_block_def layout_rel_inserted split: option.splits\<close>)
qed

lemma insert_block_after_rel:
  assumes "layout_rel l (xs @ c # ys) is" "b \<notin> set (xs @ c # ys)"
  obtains l' where "insert_block_after b c l = Some l'" "layout_rel l' (xs @ c # b # ys) is"
proof -
  let ?l = "upd_block c (\<lambda>n. n\<lparr>bn_next := Some b\<rparr>) (upd_block b (\<lambda>n. n\<lparr>bn_next := b_next l c, bn_prev := Some c\<rparr>) l)"
  let ?l' = "case b_next l c of None \<Rightarrow> ?l\<lparr>last_block := Some b\<rparr> | Some a \<Rightarrow> upd_block a (\<lambda>n. n\<lparr>bn_prev := Some b\<rparr>) ?l"
  have "block_linked (xs @ [c]) b ys l ?l'" "same_insts l ?l'"
    using assms layout_rel_block_links [OF assms(1)] hd_or_in [of ys b]
    by (auto simp: block_linked_def same_insts_def split: option.splits)
  then show thesis
    using layout_rel_linked [of l "xs @ [c]" ys "is" b ?l'] assms
    by (intro that [of ?l']) (auto simp: insert_block_after_def layout_rel_inserted split: option.splits)
qed

lemma remove_block_rel:
  assumes "layout_rel l (xs @ b # ys) is" "is b = []"
  obtains l' where "remove_block b l = Some l'" "layout_rel l' (xs @ ys) is"
proof -
  let ?l = "upd_block b (\<lambda>n. n\<lparr>bn_prev := None, bn_next := None\<rparr>) l"
  let ?l1 = "case b_prev l b of None \<Rightarrow> ?l\<lparr>first_block := b_next l b\<rparr> | Some p \<Rightarrow> upd_block p (\<lambda>n. n\<lparr>bn_next := b_next l b\<rparr>) ?l"
  let ?l' = "case b_next l b of None \<Rightarrow> ?l1\<lparr>last_block := b_prev l b\<rparr> | Some x \<Rightarrow> upd_block x (\<lambda>n. n\<lparr>bn_prev := b_prev l b\<rparr>) ?l1"
  note links = layout_rel_block_links [OF assms(1)]
  have d: "b \<notin> set xs" "b \<notin> set ys" using assms(1) by (auto simp: layout_rel_def blocks_ok_def ring_def)
  then have nb: "last_or None xs \<noteq> Some b" "hd_or ys None \<noteq> Some b" using hd_or_in [of ys b] last_or_in [of xs b] by auto
  have same: "same_insts l ?l'" by (auto simp: same_insts_def split: option.splits)
  have ring: "ring (b_prev ?l') (b_next ?l') (first_block ?l') (last_block ?l') (xs @ ys)"
    by (rule ring_remove [where pv = "b_prev l" and nx = "b_next l" and f = "first_block l" and t = "last_block l" and b = b])
      (use assms(1) links nb d in \<open>auto simp: layout_rel_def blocks_ok_def split: option.splits\<close>)
  have out: "b_prev ?l' x = None \<and> b_next ?l' x = None" if "x \<notin> set (xs @ ys)" for x
    using assms(1) that links nb hd_or_in [of ys x] last_or_in [of xs x]
    by (cases "x = b") (auto simp: layout_rel_def blocks_ok_def split: option.splits)
  have "layout_rel ?l' (xs @ ys) is"
    using assms same ring out by (rule layout_rel_unlinked)
  moreover have "is_block_inserted l b" "b_first l b = None"
    using assms by (auto simp: layout_rel_inserted) (auto simp: layout_rel_def insts_ok_def ring_def)
  then have "remove_block b l = Some ?l'" by (simp add: remove_block_def Let_def)
  ultimately show thesis by (rule that [rotated])
qed

section \<open>Sequence numbers\<close>

text \<open>Numbering changes nothing but the sequence numbers of the instructions \<open>xs\<close>.\<close>

definition reseq :: "instr list \<Rightarrow> layout \<Rightarrow> layout \<Rightarrow> bool" where
  "reseq xs l l' \<longleftrightarrow> lay_blocks l' = lay_blocks l \<and> first_block l' = first_block l \<and> last_block l' = last_block l \<and>
     (\<forall>i. i_prev l' i = i_prev l i \<and> i_next l' i = i_next l i \<and> i_block l' i = i_block l i) \<and>
     (\<forall>i. i \<notin> set xs \<longrightarrow> seq_of l' i = seq_of l i)"

lemma reseq_refl [simp]: "reseq xs l l"
  by (simp add: reseq_def)

lemma reseq_trans: "reseq xs l l' \<Longrightarrow> reseq xs l' l'' \<Longrightarrow> reseq xs l l''"
  by (simp add: reseq_def)

lemma reseq_mono: "reseq xs l l' \<Longrightarrow> set xs \<subseteq> set ys \<Longrightarrow> reseq ys l l'"
  by (auto simp: reseq_def)

lemma set_seq_sel [simp]:
  "lay_blocks (set_seq i s l) = lay_blocks l" "first_block (set_seq i s l) = first_block l"
  "last_block (set_seq i s l) = last_block l" "i_prev (set_seq i s l) j = i_prev l j"
  "i_next (set_seq i s l) j = i_next l j" "i_block (set_seq i s l) j = i_block l j"
  "seq_of (set_seq i s l) j = (if j = i then s else seq_of l j)"
  by (simp_all add: set_seq_def seq_of_def)

lemma reseq_set_seq: "i \<in> set xs \<Longrightarrow> reseq xs l (set_seq i s l)"
  by (auto simp: reseq_def)

lemma seqs_ok_append:
  "seqs_ok l (xs @ ys) \<longleftrightarrow> seqs_ok l xs \<and> seqs_ok l ys \<and> (\<forall>x \<in> set xs. \<forall>y \<in> set ys. seq_of l x < seq_of l y)"
  by (auto simp: seqs_ok_def sorted_wrt_append)

lemma seqs_ok_Cons:
  "seqs_ok l (x # xs) \<longleftrightarrow> 0 < seq_of l x \<and> seqs_ok l xs \<and> (\<forall>y \<in> set xs. seq_of l x < seq_of l y)"
  by (auto simp: seqs_ok_def)

lemma seqs_ok_Nil [simp]: "seqs_ok l []"
  by (simp add: seqs_ok_def)

lemma seqs_ok_cong: "(\<And>x. x \<in> set xs \<Longrightarrow> seq_of l' x = seq_of l x) \<Longrightarrow> seqs_ok l' xs = seqs_ok l xs"
  by (simp add: seqs_ok_def cong: map_cong)

text \<open>What renumbering a block with instructions \<open>xs\<close> gives, with a bound on the numbers it assigns.\<close>

definition renumbered :: "instr list \<Rightarrow> nat \<Rightarrow> layout \<Rightarrow> layout option \<Rightarrow> bool" where
  "renumbered xs M l r \<longleftrightarrow>
     (case r of
        None \<Rightarrow> SEQ_MAX < M + MAJOR_STRIDE
      | Some l' \<Rightarrow> reseq xs l l' \<and> seqs_ok l' xs \<and> (\<forall>x \<in> set xs. seq_of l' x \<le> M))"

lemma renumbered_trans: "reseq xs l l' \<Longrightarrow> renumbered xs M l' r \<Longrightarrow> renumbered xs M l r"
  by (auto simp: renumbered_def intro: reseq_trans split: option.splits)

lemma renumber_from_ok:
  assumes "chain (i_prev l) (i_next l) p xs None" "distinct xs" "0 < s" "s + MAJOR_STRIDE * length xs \<le> M + MAJOR_STRIDE"
  shows "case renumber_from (hd_or xs None) s l of
      None \<Rightarrow> SEQ_MAX < M + MAJOR_STRIDE
    | Some l' \<Rightarrow> reseq xs l l' \<and> seqs_ok l' xs \<and> (\<forall>x \<in> set xs. s \<le> seq_of l' x \<and> seq_of l' x \<le> M)"
  using assms
proof (induction xs arbitrary: p s l)
  case (Cons x xs)
  let ?l = "set_seq x s l"
  have "chain (i_prev ?l) (i_next ?l) (Some x) xs None" using Cons.prems(1) by simp
  from Cons.IH [OF this, of "s + MAJOR_STRIDE"] Cons.prems
  have IH: "case renumber_from (hd_or xs None) (s + MAJOR_STRIDE) ?l of
      None \<Rightarrow> SEQ_MAX < M + MAJOR_STRIDE
    | Some l' \<Rightarrow> reseq xs ?l l' \<and> seqs_ok l' xs \<and> (\<forall>x \<in> set xs. s + MAJOR_STRIDE \<le> seq_of l' x \<and> seq_of l' x \<le> M)"
    by (simp add: algebra_simps)
  have step: "renumber_from (Some x) s l =
      add_seq s MAJOR_STRIDE \<bind> (\<lambda>s'. renumber_from (hd_or xs None) s' ?l)"
    using Cons.prems(1) by (subst renumber_from.simps) (simp add: Let_def)
  show ?case
  proof (cases "s + MAJOR_STRIDE \<le> SEQ_MAX")
    case True
    then have eq: "renumber_from (Some x) s l = renumber_from (hd_or xs None) (s + MAJOR_STRIDE) ?l"
      by (simp add: step add_seq_def)
    show ?thesis
    proof (cases "renumber_from (hd_or xs None) (s + MAJOR_STRIDE) ?l")
      case (Some l')
      with IH have l': "reseq xs ?l l'" "seqs_ok l' xs" "\<forall>x \<in> set xs. s + MAJOR_STRIDE \<le> seq_of l' x \<and> seq_of l' x \<le> M"
        by simp_all
      then have x: "seq_of l' x = s" using Cons.prems(2) by (simp add: reseq_def)
      have "reseq (x # xs) l l'"
        using reseq_trans [OF reseq_set_seq [of x "x # xs"] reseq_mono [OF l'(1)]] by auto
      moreover have "s \<le> M" using Cons.prems(4) by (simp add: MAJOR_STRIDE_def)
      moreover have "\<forall>y \<in> set xs. s < seq_of l' y \<and> seq_of l' y \<le> M" using l'(3) by (auto simp: MAJOR_STRIDE_def)
      ultimately show ?thesis using l'(2) x Cons.prems(3) by (auto simp: eq Some seqs_ok_Cons)
    qed (use IH eq in simp)
  next
    case False
    then show ?thesis using Cons.prems(4) by (simp add: step add_seq_def MAJOR_STRIDE_def)
  qed
qed (simp add: renumber_from.simps)

lemma full_block_renumber_ok:
  assumes "chain (i_prev l) (i_next l) None xs None" "distinct xs" "b_first l b = hd_or xs None" "MAJOR_STRIDE * length xs \<le> M"
  shows "renumbered xs M l (full_block_renumber b l)"
proof -
  have "0 < MAJOR_STRIDE" by (simp add: MAJOR_STRIDE_def)
  then show ?thesis
    using renumber_from_ok [of l None xs MAJOR_STRIDE M] assms
    by (auto simp: full_block_renumber_def renumbered_def split: option.splits)
qed

lemma renumber_insts_ok:
  assumes "chain (i_prev l) (i_next l) None (zs @ i # ys) None" "distinct (zs @ i # ys)"
    and "b_first l b = hd_or (zs @ i # ys) None" "\<And>x. x \<in> set ys \<Longrightarrow> i_block l x = Some b"
    and "seqs_ok l zs" "\<And>z. z \<in> set zs \<Longrightarrow> seq_of l z < s" "seqs_ok l ys" "0 < s"
    and "s \<le> limit + MINOR_STRIDE" "limit + MINOR_STRIDE \<le> M" "MAJOR_STRIDE * length (zs @ i # ys) \<le> M"
    and "\<And>x. x \<in> set (zs @ ys) \<Longrightarrow> seq_of l x \<le> M"
  shows "renumbered (zs @ i # ys) M l (renumber_insts i s limit l)"
  using assms
proof (induction ys arbitrary: zs i s l)
  case Nil
  then have "renumber_insts i s limit l = Some (set_seq i s l)" by (subst renumber_insts.simps) (simp add: Let_def)
  moreover have "seqs_ok (set_seq i s l) zs" using Nil.prems(2,5) by (subst seqs_ok_cong [of _ _ l]) auto
  ultimately show ?case
    using Nil.prems by (auto simp: renumbered_def reseq_set_seq seqs_ok_append seqs_ok_Cons)
next
  case (Cons j ys)
  let ?l = "set_seq i s l"
  have re: "reseq (zs @ i # j # ys) l ?l" by (simp add: reseq_set_seq)
  have zs: "seqs_ok ?l zs" using Cons.prems(2,5) by (subst seqs_ok_cong [of _ _ l]) auto
  have ys: "seqs_ok ?l (j # ys)" using Cons.prems(2,7) by (subst seqs_ok_cong [of _ _ l]) auto
  have j: "seq_of ?l j = seq_of l j" "i_next ?l i = Some j" "inst_block ?l j = Some b"
    using Cons.prems(1,2,4) by (auto simp: inst_block_def)
  have step: "renumber_insts i s limit l =
      (if s < seq_of l j then Some ?l else if s > limit then full_block_renumber b ?l
       else add_seq s MINOR_STRIDE \<bind> (\<lambda>s'. renumber_insts j s' limit ?l))"
    using j Cons.prems(2) by (subst renumber_insts.simps) (simp add: Let_def)
  consider "s < seq_of l j" | "\<not> s < seq_of l j" "s > limit" | "\<not> s < seq_of l j" "\<not> s > limit" by blast
  then show ?case
  proof cases
    case 1
    have "seqs_ok ?l (zs @ i # j # ys)"
      using 1 Cons.prems(2,6,7,8) zs ys by (fastforce simp: seqs_ok_append seqs_ok_Cons)
    then show ?thesis using 1 step re Cons.prems by (auto simp: renumbered_def)
  next
    case 2
    have "renumbered (zs @ i # j # ys) M ?l (full_block_renumber b ?l)"
      by (rule full_block_renumber_ok) (use Cons.prems(1,2,3,11) in simp_all)
    then show ?thesis using 2 step re renumbered_trans by simp
  next
    case 3
    have "renumbered ((zs @ [i]) @ j # ys) M ?l (renumber_insts j (s + MINOR_STRIDE) limit ?l)"
    proof (rule Cons.IH)
      show "seqs_ok ?l (zs @ [i])" using zs Cons.prems(2,6,8) by (auto simp: seqs_ok_append seqs_ok_Cons)
      show "seq_of ?l z < s + MINOR_STRIDE" if "z \<in> set (zs @ [i])" for z
        using that Cons.prems(2) Cons.prems(6) [of z] by (auto simp: MINOR_STRIDE_def)
      show "seqs_ok ?l ys" using ys by (simp add: seqs_ok_Cons)
      show "seq_of ?l x \<le> M" if "x \<in> set ((zs @ [i]) @ ys)" for x
        using that Cons.prems(9,10) Cons.prems(12) [of x] by auto
    qed (use 3 Cons.prems in auto)
    moreover have "add_seq s MINOR_STRIDE = Some (s + MINOR_STRIDE) \<or> SEQ_MAX < M + MAJOR_STRIDE"
      using 3 Cons.prems(10) by (auto simp: add_seq_def)
    ultimately show ?thesis
      using 3 step re renumbered_trans [of "zs @ i # j # ys" l ?l M] by (auto simp: renumbered_def add_seq_def)
  qed
qed

lemma midpoint_between: "midpoint a b = Some (Some m) \<Longrightarrow> a < m \<and> m < b"
  by (auto simp: midpoint_def assert_that_bind split: if_splits)

lemma assign_inst_seq_ok:
  assumes "chain (i_prev l) (i_next l) None (zs @ i # ys) None" "distinct (zs @ i # ys)"
    and "b_first l b = hd_or (zs @ i # ys) None" "\<And>x. x \<in> set ys \<Longrightarrow> i_block l x = Some b"
    and "seqs_ok l (zs @ ys)" "MAJOR_STRIDE * length (zs @ i # ys) \<le> M"
    and "\<And>x. x \<in> set (zs @ ys) \<Longrightarrow> seq_of l x + LOCAL_LIMIT + MINOR_STRIDE \<le> M" "LOCAL_LIMIT + MINOR_STRIDE \<le> M"
  shows "renumbered (zs @ i # ys) M l (assign_inst_seq i l)"
proof -
  define prev where "prev = (case last_or None zs of Some p \<Rightarrow> seq_of l p | None \<Rightarrow> 0)"
  have links: "i_prev l i = last_or None zs" "i_next l i = hd_or ys None" using assms(1) by simp_all
  have prev: "seq_of l z \<le> prev" if "z \<in> set zs" for z
    using that assms(5) by (cases zs rule: rev_cases) (auto simp: prev_def seqs_ok_append intro: less_imp_le)
  have prev_M: "prev + LOCAL_LIMIT + MINOR_STRIDE \<le> M"
    using assms(7,8) by (cases zs rule: rev_cases) (auto simp: prev_def)
  have put: "renumbered (zs @ i # ys) M l (Some (set_seq i s l))"
    if s: "prev < s" "\<And>y. y \<in> set ys \<Longrightarrow> s < seq_of l y" "s \<le> M" for s
  proof -
    have "seqs_ok (set_seq i s l) zs \<and> seqs_ok (set_seq i s l) ys"
      using assms(2,5) by (subst (1 2) seqs_ok_cong [of _ _ l]) (auto simp: seqs_ok_append)
    then have "seqs_ok (set_seq i s l) (zs @ i # ys)"
      using s prev assms(2,5) by (fastforce simp: seqs_ok_append seqs_ok_Cons)
    moreover have "seq_of l x \<le> M" if "x \<in> set (zs @ ys)" for x using assms(7) [OF that] by simp
    ultimately show ?thesis using s by (auto simp: renumbered_def reseq_set_seq)
  qed
  show ?thesis
  proof (cases ys)
    case Nil
    then have "assign_inst_seq i l = add_seq prev MAJOR_STRIDE \<bind> (\<lambda>s. Some (set_seq i s l))"
      using links by (simp add: assign_inst_seq_def prev_def)
    then show ?thesis
      using put [of "prev + MAJOR_STRIDE"] prev_M Nil
      by (auto simp: add_seq_def renumbered_def MAJOR_STRIDE_def LOCAL_LIMIT_def MINOR_STRIDE_def)
  next
    case (Cons j ys')
    have lt: "prev < seq_of l j"
      using assms(5) Cons by (cases zs rule: rev_cases) (auto simp: prev_def seqs_ok_append seqs_ok_Cons)
    have y: "seq_of l j \<le> seq_of l y" if "y \<in> set ys" for y
      using that assms(5) Cons by (auto simp: seqs_ok_append seqs_ok_Cons intro: less_imp_le)
    have step: "assign_inst_seq i l = midpoint prev (seq_of l j) \<bind> (\<lambda>m. case m of Some s \<Rightarrow> Some (set_seq i s l)
        | None \<Rightarrow> add_seq prev MINOR_STRIDE \<bind> (\<lambda>s. add_seq prev LOCAL_LIMIT \<bind> (\<lambda>limit. renumber_insts i s limit l)))"
      unfolding assign_inst_seq_def Let_def links Cons prev_def by simp
    have ri: "renumbered (zs @ i # ys) M l (renumber_insts i (prev + MINOR_STRIDE) (prev + LOCAL_LIMIT) l)"
    proof (rule renumber_insts_ok [where b = b])
      show "seq_of l z < prev + MINOR_STRIDE" if "z \<in> set zs" for z using prev [OF that] by (simp add: MINOR_STRIDE_def)
      show "seq_of l x \<le> M" if "x \<in> set (zs @ ys)" for x using assms(7) [OF that] by simp
    qed (use assms prev_M in \<open>auto simp: seqs_ok_append MINOR_STRIDE_def LOCAL_LIMIT_def\<close>)
    obtain m where m: "midpoint prev (seq_of l j) = Some m" using lt by (auto simp: midpoint_def)
    show ?thesis
    proof (cases m)
      case None
      then show ?thesis using ri prev_M by (auto simp: step m add_seq_def renumbered_def MAJOR_STRIDE_def)
    next
      case (Some s)
      then have "prev < s" "s < seq_of l j" using midpoint_between m by blast+
      moreover have "seq_of l j \<le> M" using assms(7) [of j] Cons by simp
      ultimately show ?thesis using put [of s] y by (fastforce simp: step m Some)
    qed
  qed
qed

section \<open>Instructions\<close>

text \<open>An instruction put between two parts of a block, before it is numbered.\<close>

definition inst_linked :: "instr list \<Rightarrow> instr \<Rightarrow> instr list \<Rightarrow> block \<Rightarrow> layout \<Rightarrow> layout \<Rightarrow> bool" where
  "inst_linked xs i ys b l l' \<longleftrightarrow>
     (\<forall>x. i_prev l' x = (if x = i then last_or None xs else if hd_or ys None = Some x then Some i else i_prev l x)) \<and>
     (\<forall>x. i_next l' x = (if x = i then hd_or ys None else if last_or None xs = Some x then Some i else i_next l x)) \<and>
     (\<forall>x. i_block l' x = (if x = i then Some b else i_block l x)) \<and>
     (\<forall>c. b_first l' c = (if c = b \<and> xs = [] then Some i else b_first l c)) \<and>
     (\<forall>c. b_last l' c = (if c = b \<and> ys = [] then Some i else b_last l c))"

definition same_blocks :: "layout \<Rightarrow> layout \<Rightarrow> bool" where
  "same_blocks l l' \<longleftrightarrow> first_block l' = first_block l \<and> last_block l' = last_block l \<and>
     (\<forall>x. b_prev l' x = b_prev l x \<and> b_next l' x = b_next l x \<and> is_cold l' x = is_cold l x)"

lemma blocks_ok_same: "same_blocks l l' \<Longrightarrow> blocks_ok l bs \<Longrightarrow> blocks_ok l' bs"
  by (simp add: same_blocks_def blocks_ok_def)

lemma insts_okD:
  assumes "insts_ok l is"
  shows "ring (i_prev l) (i_next l) (b_first l b) (b_last l b) (is b)" "i_block l i = Some b \<longleftrightarrow> i \<in> set (is b)"
    and "i_block l i = None \<Longrightarrow> i_prev l i = None \<and> i_next l i = None"
  using assms by (auto simp: insts_ok_def)

lemma insts_ok_disjoint: "insts_ok l is \<Longrightarrow> i \<in> set (is b) \<Longrightarrow> i \<in> set (is c) \<Longrightarrow> b = c"
  by (metis insts_okD(2) option.inject)

lemma inst_linked_ok:
  assumes "insts_ok l is" "is b = xs @ ys" "i_block l i = None" "inst_linked xs i ys b l l'"
  shows "insts_ok l' (is(b := xs @ i # ys))"
proof -
  let ?is = "is(b := xs @ i # ys)"
  have out: "i \<notin> set (is c)" for c using insts_okD(2) [OF assms(1)] assms(3) by (metis option.distinct(1))
  have at_b: "x \<in> set (is b)" if "hd_or ys None = Some x \<or> last_or None xs = Some x" for x
    using that assms(2) hd_or_in [of ys x] last_or_in [of xs x] by auto
  have "ring (i_prev l') (i_next l') (b_first l' c) (b_last l' c) (?is c)" for c
  proof (cases "c = b")
    case True
    have "ring (i_prev l') (i_next l') (b_first l' b) (b_last l' b) (xs @ i # ys)"
      by (rule ring_insert [where pv = "i_prev l" and nx = "i_next l" and f = "b_first l b" and t = "b_last l b"])
        (use insts_okD(1) [OF assms(1), of b] out [of b] assms(2,4) in \<open>auto simp: inst_linked_def\<close>)
    then show ?thesis using True by simp
  next
    case False
    then have c: "ring (i_prev l) (i_next l) (b_first l' c) (b_last l' c) (is c)"
      using insts_okD(1) [OF assms(1), of c] assms(4) by (simp add: inst_linked_def)
    have "ring (i_prev l') (i_next l') (b_first l' c) (b_last l' c) (is c)"
    proof (rule ring_cong [OF c])
      fix x assume "x \<in> set (is c)"
      then have "x \<noteq> i" "x \<notin> set (is b)" using out False insts_ok_disjoint [OF assms(1)] by blast+
      then show "i_prev l' x = i_prev l x \<and> i_next l' x = i_next l x"
        using at_b [of x] assms(4) by (auto simp: inst_linked_def)
    qed
    then show ?thesis using False by simp
  qed
  moreover have "i_block l' x = Some c \<longleftrightarrow> x \<in> set (?is c)" for x c
    using insts_okD(2) [OF assms(1), of x c] out [of c] assms(2,4) by (auto simp: inst_linked_def)
  moreover have "i_prev l' x = None \<and> i_next l' x = None" if "i_block l' x = None" for x
  proof -
    have "x \<noteq> i" "i_block l x = None" using that assms(4) by (auto simp: inst_linked_def split: if_splits)
    moreover have "x \<notin> set (is b)" using calculation insts_okD(2) [OF assms(1), of x b] by auto
    ultimately show ?thesis using at_b [of x] insts_okD(3) [OF assms(1)] assms(4) by (auto simp: inst_linked_def)
  qed
  ultimately show ?thesis by (simp add: insts_ok_def)
qed

text \<open>
  The bound under which numbering an instruction of block \<open>b\<close> cannot overflow, and the outcome of adding an
  instruction: an overflow only beyond the bound, otherwise the instruction in place and the numbers
  within the bound.
\<close>

definition seq_room :: "layout \<Rightarrow> instr list \<Rightarrow> nat \<Rightarrow> bool" where
  "seq_room l xs M \<longleftrightarrow> LOCAL_LIMIT + MINOR_STRIDE \<le> M \<and> MAJOR_STRIDE * Suc (length xs) \<le> M \<and>
     (\<forall>x \<in> set xs. seq_of l x + LOCAL_LIMIT + MINOR_STRIDE \<le> M)"

definition inst_added :: "block list \<Rightarrow> (block \<Rightarrow> instr list) \<Rightarrow> block \<Rightarrow> instr list \<Rightarrow> nat \<Rightarrow> layout \<Rightarrow> layout option \<Rightarrow> bool" where
  "inst_added bs is b zs M l r \<longleftrightarrow>
     (case r of
        None \<Rightarrow> SEQ_MAX < M + MAJOR_STRIDE
      | Some l' \<Rightarrow> layout_rel l' bs (is(b := zs)) \<and> (\<forall>x \<in> set zs. seq_of l' x \<le> M) \<and>
          (\<forall>c \<noteq> b. \<forall>x \<in> set (is c). seq_of l' x = seq_of l x) \<and> (\<forall>c. is_cold l' c = is_cold l c))"

lemma insts_ok_reseq: "reseq xs l l' \<Longrightarrow> insts_ok l is \<Longrightarrow> insts_ok l' is"
  by (simp add: reseq_def insts_ok_def)

lemma inst_added_ok:
  assumes l: "layout_rel l bs is" and b: "b \<in> set bs" "is b = xs @ ys" and i: "i_block l i = None"
    and l1: "inst_linked xs i ys b l l1" "same_blocks l l1" "\<And>x. seq_of l1 x = seq_of l x" and room: "seq_room l (is b) M"
  shows "inst_added bs is b (xs @ i # ys) M l (assign_inst_seq i l1)"
proof -
  let ?is = "is(b := xs @ i # ys)"
  have insts: "insts_ok l is" and seqs: "seqs_ok l (is c)" for c using l by (simp_all add: layout_rel_def)
  have ok1: "insts_ok l1 ?is" by (rule inst_linked_ok [OF insts b(2) i l1(1)])
  have ring1: "ring (i_prev l1) (i_next l1) (b_first l1 b) (b_last l1 b) (xs @ i # ys)"
    using insts_okD(1) [OF ok1, of b] by simp
  have "renumbered (xs @ i # ys) M l1 (assign_inst_seq i l1)"
  proof (rule assign_inst_seq_ok [where b = b])
    show "i_block l1 x = Some b" if "x \<in> set ys" for x using insts_okD(2) [OF ok1, of x b] that by simp
    show "seqs_ok l1 (xs @ ys)" using seqs [of b] b(2) l1(3) by (subst seqs_ok_cong [of _ _ l]) simp_all
  qed (use ring1 room l1(3) b(2) in \<open>auto simp: ring_def seq_room_def\<close>)
  then show ?thesis
  proof (cases "assign_inst_seq i l1")
    case (Some l')
    with \<open>renumbered _ _ _ _\<close> have l': "reseq (xs @ i # ys) l1 l'" "seqs_ok l' (xs @ i # ys)"
      "\<forall>x \<in> set (xs @ i # ys). seq_of l' x \<le> M" by (simp_all add: renumbered_def)
    have other: "seq_of l' x = seq_of l x" if "c \<noteq> b" "x \<in> set (is c)" for c x
    proof -
      have "x \<notin> set (xs @ i # ys)" using insts_ok_disjoint [OF ok1, of x c b] that by auto
      then show ?thesis using l'(1) l1(3) by (simp add: reseq_def)
    qed
    have "seqs_ok l' (?is c)" for c
      using l'(2) seqs [of c] other [of c] by (cases "c = b") (simp, subst seqs_ok_cong [of _ _ l], simp_all)
    moreover have "insts_ok l' ?is" using l'(1) ok1 by (rule insts_ok_reseq)
    moreover have "blocks_ok l' bs"
      using l l1(2) l'(1) blocks_ok_same [of l l'] by (simp add: layout_rel_def same_blocks_def reseq_def is_cold_def)
    ultimately have "layout_rel l' bs ?is" using l b(1) by (auto simp: layout_rel_def)
    moreover have "is_cold l' c = is_cold l c" for c using l'(1) l1(2) by (simp add: reseq_def same_blocks_def is_cold_def)
    ultimately show ?thesis using Some l'(3) other by (simp add: inst_added_def)
  qed (simp add: renumbered_def inst_added_def)
qed

lemma append_inst_added:
  assumes "layout_rel l bs is" "b \<in> set bs" "inst_block l i = None" "seq_room l (is b) M"
  shows "inst_added bs is b (is b @ [i]) M l (append_inst i b l)"
proof -
  have ok: "insts_ok l is" using assms(1) by (simp add: layout_rel_def)
  have ends: "b_first l b = hd_or (is b) None" "b_last l b = last_or None (is b)"
    using insts_okD(1) [OF ok, of b] by (simp_all add: ring_def)
  have i: "i_block l i = None" "i_next l i = None" "i \<notin> set (is b)"
    using assms(3) insts_okD(2) [OF ok, of i b] insts_okD(3) [OF ok, of i] by (auto simp: inst_block_def)
  let ?l = "upd_inst i (\<lambda>n. n\<lparr>in_block := Some b, in_prev := b_last l b\<rparr>) l"
  let ?l1 = "upd_block b (\<lambda>n. n\<lparr>bn_last_inst := Some i\<rparr>)
    (case b_last l b of None \<Rightarrow> upd_block b (\<lambda>n. n\<lparr>bn_first_inst := Some i\<rparr>) ?l
      | Some t \<Rightarrow> upd_inst t (\<lambda>n. n\<lparr>in_next := Some i\<rparr>) ?l)"
  have "inst_linked (is b) i [] b l ?l1"
    using ends i last_or_in [of "is b" i] by (auto simp: inst_linked_def split: option.splits)
  moreover have "same_blocks l ?l1" by (auto simp: same_blocks_def is_cold_def split: option.splits)
  moreover have "seq_of ?l1 x = seq_of l x" for x by (auto simp: seq_of_def split: option.splits)
  ultimately have "inst_added bs is b (is b @ [i]) M l (assign_inst_seq i ?l1)"
    using assms i(1) by (intro inst_added_ok) simp_all
  moreover have "append_inst i b l = assign_inst_seq i ?l1"
    using assms(2,3) i(2) ends layout_rel_inserted [OF assms(1)]
    by (cases "is b" rule: rev_cases) (auto simp: append_inst_def Let_def last_or_def)
  ultimately show ?thesis by simp
qed

lemma insert_inst_added:
  assumes "layout_rel l bs is" "is b = xs @ j # ys" "inst_block l i = None" "seq_room l (is b) M"
  shows "inst_added bs is b (xs @ i # j # ys) M l (insert_inst i j l)"
proof -
  have ok: "insts_ok l is" using assms(1) by (simp add: layout_rel_def)
  have b: "b \<in> set bs" using assms(1,2) by (auto simp: layout_rel_def)
  have j: "inst_block l j = Some b" "i_prev l j = last_or None xs"
    using insts_okD(2) [OF ok, of j b] insts_okD(1) [OF ok, of b] assms(2) ring_middle(1) by (auto simp: inst_block_def)
  have i: "i_block l i = None" "i \<notin> set (is b)"
    using assms(3) insts_okD(2) [OF ok, of i b] by (auto simp: inst_block_def)
  let ?l = "upd_inst j (\<lambda>n. n\<lparr>in_prev := Some i\<rparr>)
    (upd_inst i (\<lambda>n. n\<lparr>in_block := Some b, in_next := Some j, in_prev := i_prev l j\<rparr>) l)"
  let ?l1 = "case i_prev l j of None \<Rightarrow> upd_block b (\<lambda>n. n\<lparr>bn_first_inst := Some i\<rparr>) ?l
    | Some a \<Rightarrow> upd_inst a (\<lambda>n. n\<lparr>in_next := Some i\<rparr>) ?l"
  have "inst_linked xs i (j # ys) b l ?l1"
    using j i assms(2) last_or_in [of xs i] by (auto simp: inst_linked_def split: option.splits)
  moreover have "same_blocks l ?l1" by (auto simp: same_blocks_def is_cold_def split: option.splits)
  moreover have "seq_of ?l1 x = seq_of l x" for x by (auto simp: seq_of_def split: option.splits)
  ultimately have "inst_added bs is b (xs @ i # j # ys) M l (assign_inst_seq i ?l1)"
    using assms i(1) b by (intro inst_added_ok) simp_all
  moreover have "insert_inst i j l = assign_inst_seq i ?l1"
    using assms(3) j(1) by (simp add: insert_inst_def Let_def)
  ultimately show ?thesis by simp
qed

text \<open>Any numbers leave room under some bound, so an operation that returns is always right.\<close>

lemma seq_room_exists: obtains M where "seq_room l xs M"
proof -
  let ?M = "LOCAL_LIMIT + MINOR_STRIDE + MAJOR_STRIDE * Suc (length xs) + sum_list (map (seq_of l) xs)"
  have "seq_of l x \<le> sum_list (map (seq_of l) xs)" if "x \<in> set xs" for x
    using that by (simp add: member_le_sum_list)
  then have "seq_room l xs ?M" by (fastforce simp: seq_room_def)
  then show thesis by (rule that)
qed

lemma append_inst_rel:
  assumes "layout_rel l bs is" "b \<in> set bs" "inst_block l i = None" "append_inst i b l = Some l'"
  shows "layout_rel l' bs (is(b := is b @ [i]))"
proof -
  obtain M where "seq_room l (is b) M" by (rule seq_room_exists)
  from append_inst_added [OF assms(1-3) this] assms(4) show ?thesis by (simp add: inst_added_def)
qed

lemma insert_inst_rel:
  assumes "layout_rel l bs is" "is b = xs @ j # ys" "inst_block l i = None" "insert_inst i j l = Some l'"
  shows "layout_rel l' bs (is(b := xs @ i # j # ys))"
proof -
  obtain M where "seq_room l (is b) M" by (rule seq_room_exists)
  from insert_inst_added [OF assms(1-3) this] assms(4) show ?thesis by (simp add: inst_added_def)
qed

subsection \<open>Removal\<close>

lemma inst_unlinked_ok:
  assumes "insts_ok l is" "is b = xs @ i # ys"
    and "\<And>x. i_prev l' x = (if x = i then None else if hd_or ys None = Some x then last_or None xs else i_prev l x)"
    and "\<And>x. i_next l' x = (if x = i then None else if last_or None xs = Some x then hd_or ys None else i_next l x)"
    and "\<And>x. i_block l' x = (if x = i then None else i_block l x)"
    and "\<And>c. b_first l' c = (if c = b \<and> xs = [] then hd_or ys None else b_first l c)"
    and "\<And>c. b_last l' c = (if c = b \<and> ys = [] then last_or None xs else b_last l c)"
  shows "insts_ok l' (is(b := xs @ ys))"
proof -
  let ?is = "is(b := xs @ ys)"
  have d: "i \<notin> set xs" "i \<notin> set ys" using insts_okD(1) [OF assms(1), of b] assms(2) by (auto simp: ring_def)
  have at_b: "x \<in> set (is b)" if "hd_or ys None = Some x \<or> last_or None xs = Some x \<or> x = i" for x
    using that assms(2) hd_or_in [of ys x] last_or_in [of xs x] by auto
  have "ring (i_prev l') (i_next l') (b_first l' c) (b_last l' c) (?is c)" for c
  proof (cases "c = b")
    case True
    have "ring (i_prev l') (i_next l') (b_first l' b) (b_last l' b) (xs @ ys)"
      by (rule ring_remove [where pv = "i_prev l" and nx = "i_next l" and f = "b_first l b" and t = "b_last l b" and b = i])
        (use insts_okD(1) [OF assms(1), of b] d assms(2-) in auto)
    then show ?thesis using True by simp
  next
    case False
    then have c: "ring (i_prev l) (i_next l) (b_first l' c) (b_last l' c) (is c)"
      using insts_okD(1) [OF assms(1), of c] assms(6,7) by simp
    have "ring (i_prev l') (i_next l') (b_first l' c) (b_last l' c) (is c)"
    proof (rule ring_cong [OF c])
      fix x assume "x \<in> set (is c)"
      then have "x \<notin> set (is b)" using False insts_ok_disjoint [OF assms(1)] by blast
      then show "i_prev l' x = i_prev l x \<and> i_next l' x = i_next l x" using at_b [of x] assms(3,4) by auto
    qed
    then show ?thesis using False by simp
  qed
  moreover have "i_block l' x = Some c \<longleftrightarrow> x \<in> set (?is c)" for x c
    using insts_okD(2) [OF assms(1), of x c] insts_okD(2) [OF assms(1), of i] d assms(2,5) by auto
  moreover have "i_prev l' x = None \<and> i_next l' x = None" if "i_block l' x = None" for x
  proof (cases "x = i")
    case False
    then have n: "i_block l x = None" using that assms(5) by simp
    then have "x \<notin> set (is b)" using insts_okD(2) [OF assms(1), of x b] by auto
    then show ?thesis using at_b [of x] insts_okD(3) [OF assms(1) n] assms(3,4) by auto
  qed (simp add: assms(3,4))
  ultimately show ?thesis by (simp add: insts_ok_def)
qed

lemma remove_inst_rel:
  assumes "layout_rel l bs is" "is b = xs @ i # ys"
  obtains l' where "remove_inst i l = Some l'" "layout_rel l' bs (is(b := xs @ ys))" "\<And>x. seq_of l' x = seq_of l x"
proof -
  have ok: "insts_ok l is" using assms(1) by (simp add: layout_rel_def)
  have ring: "ring (i_prev l) (i_next l) (b_first l b) (b_last l b) (xs @ i # ys)"
    using insts_okD(1) [OF ok, of b] assms(2) by simp
  note links = ring_middle [OF ring]
  have i: "inst_block l i = Some b" using insts_okD(2) [OF ok, of i b] assms(2) by (simp add: inst_block_def)
  have n: "last_or None xs \<noteq> Some i" "hd_or ys None \<noteq> Some i"
    using ring last_or_in [of xs i] hd_or_in [of ys i] by (auto simp: ring_def)
  let ?l = "upd_inst i (\<lambda>n. n\<lparr>in_block := None, in_prev := None, in_next := None\<rparr>) l"
  let ?l1 = "case last_or None xs of None \<Rightarrow> upd_block b (\<lambda>n. n\<lparr>bn_first_inst := hd_or ys None\<rparr>) ?l
    | Some p \<Rightarrow> upd_inst p (\<lambda>n. n\<lparr>in_next := hd_or ys None\<rparr>) ?l"
  let ?l' = "case hd_or ys None of None \<Rightarrow> upd_block b (\<lambda>n. n\<lparr>bn_last_inst := last_or None xs\<rparr>) ?l1
    | Some x \<Rightarrow> upd_inst x (\<lambda>n. n\<lparr>in_prev := last_or None xs\<rparr>) ?l1"
  have "insts_ok ?l' (is(b := xs @ ys))"
    by (rule inst_unlinked_ok [OF ok assms(2)]) (use n in \<open>auto split: option.splits\<close>)
  moreover have "blocks_ok ?l' bs"
    by (rule blocks_ok_same [of l]) (use assms(1) in \<open>auto simp: layout_rel_def same_blocks_def is_cold_def split: option.splits\<close>)
  moreover have seq: "seq_of ?l' x = seq_of l x" for x by (auto simp: seq_of_def split: option.splits)
  moreover have "seqs_ok l (is c)" for c using assms(1) by (simp add: layout_rel_def)
  then have "seqs_ok l ((is(b := xs @ ys)) c)" for c
    using assms(2) by (metis fun_upd_apply seqs_ok_append seqs_ok_Cons list.set_intros(2))
  then have "seqs_ok ?l' ((is(b := xs @ ys)) c)" for c by (subst seqs_ok_cong [of _ _ l]) (use seq in simp_all)
  ultimately have "layout_rel ?l' bs (is(b := xs @ ys))" using assms by (auto simp: layout_rel_def)
  moreover have "remove_inst i l = Some ?l'" using i links by (simp add: remove_inst_def Let_def)
  ultimately show thesis using seq by (intro that)
qed

text \<open>The loop of \<open>remove_block_and_insts\<close> empties the block.\<close>

lemma remove_insts_rel:
  assumes "layout_rel l bs is"
  obtains l' where "remove_insts b l = Some l'" "layout_rel l' bs (is(b := []))" "\<And>x. seq_of l' x = seq_of l x"
proof -
  have "\<exists>l'. remove_insts b l = Some l' \<and> layout_rel l' bs (is(b := [])) \<and> (\<forall>x. seq_of l' x = seq_of l x)"
    if "is b = xs" for xs
    using assms that
  proof (induction xs arbitrary: l "is")
    case Nil
    then have "b_first l b = None" using insts_okD(1) [of l "is" b] by (auto simp: layout_rel_def ring_def)
    then have "remove_insts b l = Some l" by (subst remove_insts.simps) simp
    then show ?case using Nil by (auto simp: fun_upd_idem)
  next
    case (Cons i xs)
    then have first: "b_first l b = Some i" using insts_okD(1) [of l "is" b] by (auto simp: layout_rel_def ring_def)
    obtain l1 where l1: "remove_inst i l = Some l1" "layout_rel l1 bs (is(b := xs))" "\<And>x. seq_of l1 x = seq_of l x"
      using remove_inst_rel [of l bs "is" b "[]" i xs] Cons.prems by auto
    obtain l' where l': "remove_insts b l1 = Some l'" "layout_rel l' bs (is(b := []))" "\<forall>x. seq_of l' x = seq_of l1 x"
      using Cons.IH [OF l1(2) fun_upd_same] by (auto simp del: fun_upd_apply)
    moreover have "remove_insts b l = remove_insts b l1" by (subst remove_insts.simps) (simp add: first l1(1))
    ultimately show ?case using l1(3) by (simp add: fun_upd_def)
  qed
  then show thesis using that by blast
qed

lemma remove_block_and_insts_rel:
  assumes "layout_rel l (xs @ b # ys) is"
  obtains l' where "remove_block_and_insts b l = Some l'" "layout_rel l' (xs @ ys) (is(b := []))"
proof -
  obtain l1 where l1: "remove_insts b l = Some l1" "layout_rel l1 (xs @ b # ys) (is(b := []))"
    using remove_insts_rel [OF assms] by blast
  obtain l' where "remove_block b l1 = Some l'" "layout_rel l' (xs @ ys) (is(b := []))"
    using remove_block_rel [OF l1(2)] by auto
  then show thesis using l1(1) by (intro that) (simp_all add: remove_block_and_insts_def)
qed

subsection \<open>Splitting a block\<close>

lemma move_insts_ok:
  assumes "chain (i_prev l) (i_next l) p xs None" "distinct xs" "\<And>x. x \<in> set xs \<Longrightarrow> i_block l x = Some old"
  shows "\<exists>l'. move_insts (hd_or xs None) old new l = Some l' \<and> lay_blocks l' = lay_blocks l \<and>
     first_block l' = first_block l \<and> last_block l' = last_block l \<and>
     (\<forall>x. i_prev l' x = i_prev l x \<and> i_next l' x = i_next l x \<and> seq_of l' x = seq_of l x \<and>
        i_block l' x = (if x \<in> set xs then Some new else i_block l x))"
  using assms
proof (induction xs arbitrary: p l)
  case (Cons x xs)
  let ?l = "upd_inst x (\<lambda>n. n\<lparr>in_block := Some new\<rparr>) l"
  have eq: "i_prev ?l y = i_prev l y" "i_next ?l y = i_next l y" "seq_of ?l y = seq_of l y"
    "i_block ?l y = (if y = x then Some new else i_block l y)" for y
    by (simp_all add: seq_of_def)
  have "chain (i_prev ?l) (i_next ?l) (Some x) xs None" using Cons.prems(1) by (simp add: eq del: upd_sel)
  moreover have "i_block ?l y = Some old" if "y \<in> set xs" for y using that Cons.prems(2,3) by (auto simp: eq(4) simp del: upd_sel)
  ultimately obtain l' where l': "move_insts (hd_or xs None) old new ?l = Some l'" "lay_blocks l' = lay_blocks ?l"
     "first_block l' = first_block ?l" "last_block l' = last_block ?l"
     "\<And>y. i_prev l' y = i_prev ?l y \<and> i_next l' y = i_next ?l y \<and> seq_of l' y = seq_of ?l y \<and>
        i_block l' y = (if y \<in> set xs then Some new else i_block ?l y)"
    using Cons.IH [of ?l "Some x"] Cons.prems(2) by (auto simp del: upd_sel)
  have "move_insts (Some x) old new l = move_insts (hd_or xs None) old new ?l"
    using Cons.prems(1,3) by (subst move_insts.simps) (simp add: inst_block_def Let_def)
  then show ?case using l' by (intro exI [of _ l']) (simp add: seq_of_def)
qed (simp add: move_insts.simps)

text \<open>The links once the tail of block \<open>b\<close> from \<open>i\<close> on is the new block \<open>n\<close>.\<close>

definition block_split :: "instr list \<Rightarrow> instr \<Rightarrow> instr list \<Rightarrow> block \<Rightarrow> block \<Rightarrow> layout \<Rightarrow> layout \<Rightarrow> bool" where
  "block_split zs i ys b n l l' \<longleftrightarrow>
     (\<forall>x. i_prev l' x = (if x = i then None else i_prev l x)) \<and>
     (\<forall>x. i_next l' x = (if last_or None zs = Some x then None else i_next l x)) \<and>
     (\<forall>c. b_first l' c = (if c = n then Some i else if c = b \<and> zs = [] then None else b_first l c)) \<and>
     (\<forall>c. b_last l' c = (if c = n then b_last l b else if c = b then last_or None zs else b_last l c))"

lemma block_split_ok:
  assumes "insts_ok l is" "is b = zs @ i # ys" "is n = []" "block_split zs i ys b n l l'"
    and blk: "\<And>x. i_block l' x = (if x \<in> set (i # ys) then Some n else i_block l x)"
  shows "insts_ok l' (is(b := zs, n := i # ys))"
proof -
  let ?is = "is(b := zs, n := i # ys)"
  have nb: "n \<noteq> b" using assms(2,3) by auto
  have ring: "ring (i_prev l) (i_next l) (b_first l b) (b_last l b) (zs @ i # ys)" using insts_okD(1) [OF assms(1), of b] assms(2) by simp
  then have d: "set zs \<inter> set (i # ys) = {}" by (auto simp: ring_def)
  have at_b: "x \<in> set (is b)" if "last_or None zs = Some x \<or> x = i" for x
    using that assms(2) last_or_in [of zs x] by auto
  have "ring (i_prev l') (i_next l') (b_first l' c) (b_last l' c) (?is c)" for c
  proof -
    have new: "i_prev l' x = (if x = i then None else i_prev l x)" "i_next l' x = (if last_or None zs = Some x then None else i_next l x)"
      for x using assms(4) by (simp_all add: block_split_def)
    note parts = ring_split [OF ring new]
    consider "c = n" | "c = b" | "c \<noteq> n" "c \<noteq> b" by blast
    then show ?thesis
    proof cases
      case 3
      then have c: "ring (i_prev l) (i_next l) (b_first l' c) (b_last l' c) (is c)"
        using insts_okD(1) [OF assms(1), of c] assms(4) by (simp add: block_split_def)
      have "ring (i_prev l') (i_next l') (b_first l' c) (b_last l' c) (is c)"
      proof (rule ring_cong [OF c])
        fix x assume "x \<in> set (is c)"
        then have "x \<notin> set (is b)" using 3 insts_ok_disjoint [OF assms(1)] by blast
        then show "i_prev l' x = i_prev l x \<and> i_next l' x = i_next l x" using at_b [of x] new by auto
      qed
      then show ?thesis using 3 by simp
    qed (use parts nb assms(4) in \<open>simp_all add: block_split_def\<close>)
  qed
  moreover have "i_block l' x = Some c \<longleftrightarrow> x \<in> set (?is c)" for x c
  proof (cases "x \<in> set (i # ys)")
    case True
    then have "i_block l x = Some b" using insts_okD(2) [OF assms(1), of x b] assms(2) by auto
    then have "x \<in> set (is c) \<longleftrightarrow> c = b" using insts_okD(2) [OF assms(1), of x c] by auto
    then show ?thesis using True blk [of x] d nb by auto
  next
    case False
    then show ?thesis using insts_okD(2) [OF assms(1), of x c] blk [of x] assms(2,3) by auto
  qed
  moreover have "i_prev l' x = None \<and> i_next l' x = None" if "i_block l' x = None" for x
  proof -
    have n: "i_block l x = None" using that blk [of x] by (auto split: if_splits)
    show ?thesis using insts_okD(3) [OF assms(1) n] assms(4) by (auto simp: block_split_def)
  qed
  ultimately show ?thesis by (simp add: insts_ok_def)
qed

lemma split_moved:
  assumes "layout_rel l (xs @ b # cs) is" "is b = zs @ i # ys" "n \<notin> set (xs @ b # cs)"
    and split: "block_split zs i ys b n l l1" and link: "block_linked (xs @ [b]) n cs l l1"
    and blk: "\<And>x. i_block l1 x = i_block l x" and seq: "\<And>x. seq_of l1 x = seq_of l x"
  obtains l' where "move_insts (Some i) b n l1 = Some l'" "layout_rel l' (xs @ b # n # cs) (is(b := zs, n := i # ys))"
    "\<And>x. seq_of l' x = seq_of l x"
proof -
  have ok: "insts_ok l is" and bk: "blocks_ok l ((xs @ [b]) @ cs)" and seqs: "\<And>c. seqs_ok l (is c)"
    using assms(1) by (simp_all add: layout_rel_def)
  have ring: "ring (i_prev l) (i_next l) (b_first l b) (b_last l b) (zs @ i # ys)"
    using insts_okD(1) [OF ok, of b] assms(2) by simp
  have is_n: "is n = []" using assms(1,3) by (simp add: layout_rel_def)
  have "chain (i_prev l1) (i_next l1) None (i # ys) None"
    using ring_split(2) [OF ring, of "i_prev l1" "i_next l1"] split by (simp add: block_split_def ring_def)
  moreover have "i_block l1 x = Some b" if "x \<in> set (i # ys)" for x
    using blk [of x] insts_okD(2) [OF ok, of x b] that assms(2) by auto
  ultimately obtain l' where l': "move_insts (Some i) b n l1 = Some l'" "lay_blocks l' = lay_blocks l1"
     "first_block l' = first_block l1" "last_block l' = last_block l1"
     "\<And>x. i_prev l' x = i_prev l1 x \<and> i_next l' x = i_next l1 x \<and> seq_of l' x = seq_of l1 x \<and>
        i_block l' x = (if x \<in> set (i # ys) then Some n else i_block l1 x)"
    using move_insts_ok [of l1 None "i # ys" b n] ring by (auto simp: ring_def)
  have "insts_ok l' (is(b := zs, n := i # ys))"
    by (rule block_split_ok [OF ok assms(2) is_n]) (use split l' blk in \<open>simp_all add: block_split_def\<close>)
  moreover have "blocks_ok l' (xs @ b # n # cs)"
    using block_linked_ok [OF bk, of n l'] link l'(2-4) assms(3) by (simp add: block_linked_def)
  moreover have seq': "seq_of l' x = seq_of l x" for x using l'(5) [of x] seq [of x] by simp
  moreover have "seqs_ok l' ((is(b := zs, n := i # ys)) c)" for c
    using seqs [of c] seqs [of b] assms(2) by (subst seqs_ok_cong [of _ _ l]) (auto simp: seq' seqs_ok_append)
  ultimately have "layout_rel l' (xs @ b # n # cs) (is(b := zs, n := i # ys))"
    using assms(1) by (auto simp: layout_rel_def)
  then show thesis using l'(1) seq' by (intro that [of l'])
qed

lemma split_block_rel:
  assumes "layout_rel l (xs @ b # cs) is" "is b = zs @ i # ys" "n \<notin> set (xs @ b # cs)"
  obtains l' where "split_block n i l = Some l'" "layout_rel l' (xs @ b # n # cs) (is(b := zs, n := i # ys))"
    "\<And>x. seq_of l' x = seq_of l x"
proof -
  have ok: "insts_ok l is" and bk: "blocks_ok l (xs @ b # cs)" using assms(1) by (simp_all add: layout_rel_def)
  have ring: "ring (i_prev l) (i_next l) (b_first l b) (b_last l b) (zs @ i # ys)"
    using insts_okD(1) [OF ok, of b] assms(2) by simp
  have i: "inst_block l i = Some b" "i_prev l i = last_or None zs"
    using insts_okD(2) [OF ok, of i b] ring_middle(1) [OF ring] assms(2) by (auto simp: inst_block_def)
  have next_b: "b_next l b = hd_or cs None" by (rule layout_rel_block_links(2) [OF assms(1)])
  have last: "last_block l = Some b \<longleftrightarrow> cs = []"
    using layout_rel_ends(2) [OF assms(1)] bk by (cases cs rule: rev_cases) (auto simp: blocks_ok_def ring_def)
  have nb: "n \<noteq> b" "hd_or cs None \<noteq> Some n" "hd_or cs None \<noteq> Some b"
    using assms(3) bk hd_or_in [of cs] by (auto simp: blocks_ok_def ring_def)
  let ?l1 = "upd_block b (\<lambda>m. m\<lparr>bn_next := Some n\<rparr>) (upd_block n (\<lambda>m. m\<lparr>bn_prev := Some b, bn_next := b_next l b,
    bn_first_inst := Some i, bn_last_inst := b_last l b\<rparr>) l)"
  let ?l2 = "case hd_or cs None of None \<Rightarrow> ?l1\<lparr>last_block := Some n\<rparr> | Some x \<Rightarrow> upd_block x (\<lambda>m. m\<lparr>bn_prev := Some n\<rparr>) ?l1"
  let ?l3 = "upd_block b (\<lambda>m. m\<lparr>bn_last_inst := last_or None zs\<rparr>) (upd_inst i (\<lambda>m. m\<lparr>in_prev := None\<rparr>) ?l2)"
  let ?l4 = "case last_or None zs of None \<Rightarrow> upd_block b (\<lambda>m. m\<lparr>bn_first_inst := None\<rparr>) ?l3
    | Some p \<Rightarrow> upd_inst p (\<lambda>m. m\<lparr>in_next := None\<rparr>) ?l3"
  have insts2: "lay_insts ?l2 = lay_insts l" by (simp split: option.splits)
  have step: "split_block n i l = move_insts (Some i) b n ?l4"
    using i next_b last nb assms(3) layout_rel_inserted [OF assms(1)] insts2
    by (cases cs; cases "last_or None zs") (simp_all add: split_block_def Let_def)
  have split4: "block_split zs i ys b n l ?l4"
    using nb i by (auto simp: block_split_def split: option.splits)
  have link4: "block_linked (xs @ [b]) n cs l ?l4"
    using nb next_b last by (auto simp: block_linked_def split: option.splits)
  have blk4: "i_block ?l4 x = i_block l x" and seq4: "seq_of ?l4 x = seq_of l x" for x
    by (auto simp: seq_of_def split: option.splits)
  show thesis
    using split_moved [OF assms split4 link4 blk4 seq4] step that by metis
qed

end
