(* ===== verification/Ir_Layout_Correct.thy ===== *)
theory Ir_Layout_Correct
  imports Ir_Layout_Inv
begin

text \<open>
  What the layout promises its clients: the iterators enumerate the lists it represents, the sequence
  numbers decide the order of two program points, any sequence of edits has the outcome of the same edits
  on lists, and a stored layout reads back as an equal one.
\<close>

section \<open>Iterators\<close>

text \<open>
  An iterator whose states stand for lists: a step at the empty list ends, any other step gives the head
  and moves to a state for the tail. A \<open>for\<close> loop over such an iterator ends and visits the list.
\<close>

locale list_iterator =
  fixes step :: "'s \<Rightarrow> 'a option \<times> 's" and at_list :: "'s \<Rightarrow> 'a list \<Rightarrow> bool"
  assumes ends: "at_list st [] \<Longrightarrow> fst (step st) = None"
    and yields: "at_list st (x # xs) \<Longrightarrow> \<exists>st'. step st = (Some x, st') \<and> at_list st' xs"
begin

lemma drain_list: "at_list st xs \<Longrightarrow> drain step st = Some xs"
proof (induction xs arbitrary: st)
  case Nil
  then obtain st' where "step st = (None, st')" using ends by (metis prod.collapse)
  then show ?case by (simp add: drain.simps)
next
  case (Cons x xs)
  then obtain st' where "step st = (Some x, st')" "at_list st' xs" using yields by blast
  then show ?case using Cons.IH by (subst drain.simps) simp
qed

end

definition blocks_at :: "layout \<Rightarrow> block option \<Rightarrow> block list \<Rightarrow> bool" where
  "blocks_at l st xs \<longleftrightarrow> st = hd_or xs None \<and> (\<exists>p. chain (b_prev l) (b_next l) p xs None)"

definition insts_at :: "layout \<Rightarrow> instr option \<times> instr option \<Rightarrow> instr list \<Rightarrow> bool" where
  "insts_at l st xs \<longleftrightarrow> distinct xs \<and> st = (hd_or xs None, last_or None xs) \<and>
     (\<exists>p q. chain (i_prev l) (i_next l) p xs q)"

text \<open>Reading from the back, a state stands for the reversed list.\<close>

definition insts_back_at :: "layout \<Rightarrow> instr option \<times> instr option \<Rightarrow> instr list \<Rightarrow> bool" where
  "insts_back_at l st xs \<longleftrightarrow> insts_at l st (rev xs)"

interpretation block_iter: list_iterator "blocks_next l" "blocks_at l" for l
proof
  fix st xs and x :: block
  assume "blocks_at l st (x # xs)"
  then show "\<exists>st'. blocks_next l st = (Some x, st') \<and> blocks_at l st' xs" by (auto simp: blocks_at_def blocks_next_def)
qed (auto simp: blocks_at_def blocks_next_def)

interpretation inst_iter: list_iterator "insts_next l" "insts_at l" for l
proof
  fix st xs and x :: instr
  assume at: "insts_at l st (x # xs)"
  show "\<exists>st'. insts_next l st = (Some x, st') \<and> insts_at l st' xs"
  proof (cases xs)
    case (Cons y ys)
    then have "last_or None xs \<noteq> Some x" using at last_or_in [of xs x] by (auto simp: insts_at_def)
    then show ?thesis using at Cons by (auto simp: insts_at_def insts_next_def last_or_def)
  qed (use at in \<open>auto simp: insts_at_def insts_next_def\<close>)
qed (auto simp: insts_at_def insts_next_def)

interpretation inst_iter_back: list_iterator "insts_next_back l" "insts_back_at l" for l
proof
  fix st xs and x :: instr
  assume at: "insts_back_at l st (x # xs)"
  show "\<exists>st'. insts_next_back l st = (Some x, st') \<and> insts_back_at l st' xs"
  proof (cases "rev xs")
    case (Cons y ys)
    then have "hd_or (rev xs) None = Some y" "x \<noteq> y" using at by (auto simp: insts_back_at_def insts_at_def)
    then show ?thesis using at Cons by (auto simp: insts_back_at_def insts_at_def insts_next_back_def)
  qed (use at in \<open>auto simp: insts_back_at_def insts_at_def insts_next_back_def\<close>)
qed (auto simp: insts_back_at_def insts_at_def insts_next_back_def)

lemma layout_blocks_rel: "layout_rel l bs is \<Longrightarrow> layout_blocks l = Some bs"
  unfolding layout_blocks_def
  by (rule block_iter.drain_list) (auto simp: blocks_at_def layout_rel_def blocks_ok_def ring_def)

lemma block_insts_at: "layout_rel l bs is \<Longrightarrow> insts_at l (block_insts l b) (is b)"
  by (auto simp: insts_at_def block_insts_def layout_rel_def insts_ok_def ring_def)

lemma layout_insts_rel: "layout_rel l bs is \<Longrightarrow> layout_insts l b = Some (is b)"
  unfolding layout_insts_def by (rule inst_iter.drain_list) (rule block_insts_at)

lemma layout_insts_back_rel: "layout_rel l bs is \<Longrightarrow> drain (insts_next_back l) (block_insts l b) = Some (rev (is b))"
  by (rule inst_iter_back.drain_list) (simp add: insts_back_at_def block_insts_at)

lemma exactly_one_inst_rel: "layout_rel l bs is \<Longrightarrow> block_contains_exactly_one_inst l b \<longleftrightarrow> length (is b) = 1"
proof -
  assume "layout_rel l bs is"
  then have "insts_at l (block_insts l b) (is b)" by (rule block_insts_at)
  then show ?thesis
    by (cases "is b"; cases "tl (is b)" rule: rev_cases)
      (auto simp: block_contains_exactly_one_inst_def insts_at_def block_insts_def)
qed

section \<open>The order of program points\<close>

lemma seqs_ok_nth: "seqs_ok l xs \<Longrightarrow> m < n \<Longrightarrow> n < length xs \<Longrightarrow> seq_of l (xs ! m) < seq_of l (xs ! n)"
  unfolding seqs_ok_def using sorted_wrt_nth_less [of "(<)" "map (seq_of l) xs" m n] by simp

lemma seqs_ok_cmp:
  assumes "seqs_ok l xs" "m < length xs" "n < length xs"
  shows "seq_cmp (seq_of l (xs ! m)) (seq_of l (xs ! n)) = seq_cmp m n"
  using seqs_ok_nth [OF assms(1), of m n] seqs_ok_nth [OF assms(1), of n m] assms(2,3)
  by (cases m n rule: linorder_cases) (auto simp: seq_cmp_def)

lemma inst_block_rel: "layout_rel l bs is \<Longrightarrow> inst_block l i = Some b \<longleftrightarrow> i \<in> set (is b)"
  by (simp add: layout_rel_def insts_ok_def inst_block_def)

lemma pp_cmp_rel:
  assumes "layout_rel l bs is" "m < length (is b)"
  shows "n < length (is b) \<Longrightarrow> pp_cmp l (PP_Inst (is b ! m)) (PP_Inst (is b ! n)) = Some (seq_cmp m n)"
    and "pp_cmp l (PP_Block b) (PP_Inst (is b ! m)) = Some Less" "pp_cmp l (PP_Inst (is b ! m)) (PP_Block b) = Some Greater"
    and "c \<noteq> b \<Longrightarrow> j \<in> set (is c) \<Longrightarrow> pp_cmp l (PP_Inst (is b ! m)) (PP_Inst j) = None"
proof -
  have seqs: "seqs_ok l (is b)" using assms(1) by (simp add: layout_rel_def)
  have blk: "inst_block l (is b ! k) = Some b" if "k < length (is b)" for k using that inst_block_rel [OF assms(1)] by simp
  have pos: "0 < seq_of l (is b ! m)" using seqs assms(2) by (auto simp: seqs_ok_def)
  show "pp_cmp l (PP_Inst (is b ! m)) (PP_Inst (is b ! n)) = Some (seq_cmp m n)" if "n < length (is b)"
    using that assms(2) by (simp add: pp_cmp_def pp_block_def blk seqs_ok_cmp [OF seqs])
  show "pp_cmp l (PP_Block b) (PP_Inst (is b ! m)) = Some Less" "pp_cmp l (PP_Inst (is b ! m)) (PP_Block b) = Some Greater"
    using assms(2) pos by (simp_all add: pp_cmp_def pp_block_def blk seq_cmp_def)
  show "pp_cmp l (PP_Inst (is b ! m)) (PP_Inst j) = None" if "c \<noteq> b" "j \<in> set (is c)"
  proof -
    have "inst_block l j = Some c" using that inst_block_rel [OF assms(1)] by simp
    then show ?thesis using that(1) assms(2) by (simp add: pp_cmp_def pp_block_def blk)
  qed
qed

section \<open>Edits\<close>

text \<open>The operations that change a layout, as data.\<close>

datatype layout_op =
    Append_Block block
  | Insert_Block block block
  | Insert_Block_After block block
  | Remove_Block block
  | Remove_Block_And_Insts block
  | Append_Inst instr block
  | Insert_Inst instr instr
  | Remove_Inst instr
  | Split_Block block instr
  | Set_Cold block

fun apply_op :: "layout_op \<Rightarrow> layout \<Rightarrow> layout option" where
  "apply_op (Append_Block b) l = append_block b l"
| "apply_op (Insert_Block b c) l = insert_block b c l"
| "apply_op (Insert_Block_After b c) l = insert_block_after b c l"
| "apply_op (Remove_Block b) l = remove_block b l"
| "apply_op (Remove_Block_And_Insts b) l = remove_block_and_insts b l"
| "apply_op (Append_Inst i b) l = append_inst i b l"
| "apply_op (Insert_Inst i j) l = insert_inst i j l"
| "apply_op (Remove_Inst i) l = remove_inst i l"
| "apply_op (Split_Block n i) l = split_block n i l"
| "apply_op (Set_Cold b) l = Some (set_cold b l)"

text \<open>
  The specification: the order of the blocks and the instructions of each block are plain lists. \<open>None\<close> is
  an edit whose precondition fails.
\<close>

type_synonym lists = "block list \<times> (block \<Rightarrow> instr list)"

definition before :: "'a \<Rightarrow> 'a list \<Rightarrow> 'a list" where "before x xs = takeWhile (\<lambda>y. y \<noteq> x) xs"
definition onward :: "'a \<Rightarrow> 'a list \<Rightarrow> 'a list" where "onward x xs = dropWhile (\<lambda>y. y \<noteq> x) xs"

definition owner :: "lists \<Rightarrow> instr \<Rightarrow> block option" where
  "owner s i = find (\<lambda>b. i \<in> set (snd s b)) (fst s)"

fun spec_op :: "layout_op \<Rightarrow> lists \<Rightarrow> lists option" where
  "spec_op (Append_Block b) (bs, is) = (if b \<in> set bs then None else Some (bs @ [b], is))"
| "spec_op (Insert_Block b c) (bs, is) =
     (if b \<in> set bs \<or> c \<notin> set bs then None else Some (before c bs @ b # onward c bs, is))"
| "spec_op (Insert_Block_After b c) (bs, is) =
     (if b \<in> set bs \<or> c \<notin> set bs then None else Some (before c bs @ c # b # tl (onward c bs), is))"
| "spec_op (Remove_Block b) (bs, is) =
     (if b \<notin> set bs \<or> is b \<noteq> [] then None else Some (remove1 b bs, is))"
| "spec_op (Remove_Block_And_Insts b) (bs, is) =
     (if b \<notin> set bs then None else Some (remove1 b bs, is(b := [])))"
| "spec_op (Append_Inst i b) (bs, is) =
     (if b \<notin> set bs \<or> owner (bs, is) i \<noteq> None then None else Some (bs, is(b := is b @ [i])))"
| "spec_op (Insert_Inst i j) (bs, is) =
     (if owner (bs, is) i \<noteq> None then None
      else map_option (\<lambda>b. (bs, is(b := before j (is b) @ i # onward j (is b)))) (owner (bs, is) j))"
| "spec_op (Remove_Inst i) (bs, is) =
     map_option (\<lambda>b. (bs, is(b := remove1 i (is b)))) (owner (bs, is) i)"
| "spec_op (Split_Block n i) (bs, is) =
     (if n \<in> set bs then None
      else map_option (\<lambda>b. (before b bs @ b # n # tl (onward b bs), is(b := before i (is b), n := onward i (is b))))
        (owner (bs, is) i))"
| "spec_op (Set_Cold b) s = Some s"

fun run_ops :: "layout_op list \<Rightarrow> layout \<Rightarrow> layout option" where
  "run_ops [] l = Some l"
| "run_ops (p # ps) l = apply_op p l \<bind> run_ops ps"

fun spec_ops :: "layout_op list \<Rightarrow> lists \<Rightarrow> lists option" where
  "spec_ops [] s = Some s"
| "spec_ops (p # ps) s = spec_op p s \<bind> spec_ops ps"

lemma before_onward: "x \<in> set xs \<Longrightarrow> xs = before x xs @ x # tl (onward x xs)" "x \<in> set xs \<Longrightarrow> onward x xs = x # tl (onward x xs)"
proof -
  show "onward x xs = x # tl (onward x xs)" if "x \<in> set xs"
    using that by (induction xs) (auto simp: onward_def)
  then show "xs = before x xs @ x # tl (onward x xs)" if "x \<in> set xs"
    using that takeWhile_dropWhile_id [of "\<lambda>y. y \<noteq> x" xs] by (auto simp: before_def onward_def)
qed

lemma before_onward_split:
  assumes "x \<in> set xs" "distinct xs"
  obtains ys zs where "xs = ys @ x # zs" "before x xs = ys" "onward x xs = x # zs" "remove1 x xs = ys @ zs"
proof -
  have eq: "xs = before x xs @ x # tl (onward x xs)" by (rule before_onward(1) [OF assms(1)])
  then have "x \<notin> set (before x xs)" using assms(2) by (metis distinct_append list.set_intros(1) disjoint_iff)
  then have "remove1 x xs = before x xs @ tl (onward x xs)" by (subst eq) (simp add: remove1_append)
  then show thesis using that eq before_onward(2) [OF assms(1)] by metis
qed

lemma owner_rel:
  assumes "layout_rel l bs is" shows "owner (bs, is) i = inst_block l i"
proof (cases "inst_block l i")
  case None
  then have "i \<notin> set (is b)" for b using inst_block_rel [OF assms, of i b] by auto
  then show ?thesis using None by (simp add: owner_def find_None_iff)
next
  case (Some b)
  then have "i \<in> set (is c) \<longleftrightarrow> c = b" for c using inst_block_rel [OF assms, of i c] by auto
  moreover have "b \<in> set bs" using Some calculation [of b] assms by (auto simp: layout_rel_def)
  then have "find (\<lambda>c. c = b) bs = Some b" by (induction bs) auto
  ultimately show ?thesis using Some by (simp add: owner_def)
qed

text \<open>
  Each edit raises the largest sequence number by at most the window of a local renumbering, so after \<open>k\<close>
  edits the numbers are bounded by \<open>k\<close> windows.
\<close>

definition seq_bounded :: "nat \<Rightarrow> layout \<Rightarrow> (block \<Rightarrow> instr list) \<Rightarrow> bool" where
  "seq_bounded k l is \<longleftrightarrow> (\<forall>b. length (is b) \<le> k \<and> (\<forall>x \<in> set (is b). seq_of l x \<le> (LOCAL_LIMIT + MINOR_STRIDE) * k))"

definition refines_op :: "nat \<Rightarrow> layout option \<Rightarrow> lists option \<Rightarrow> bool" where
  "refines_op k r s \<longleftrightarrow>
     (case s of
        None \<Rightarrow> r = None
      | Some (bs, is) \<Rightarrow>
          (case r of
             None \<Rightarrow> SEQ_MAX < (LOCAL_LIMIT + MINOR_STRIDE) * k + MAJOR_STRIDE
           | Some l \<Rightarrow> layout_rel l bs is \<and> seq_bounded k l is))"

lemma seq_bounded_mono:
  assumes "seq_bounded k l is" "\<And>x. seq_of l' x = seq_of l x" "\<And>b. \<exists>c. set (is' b) \<subseteq> set (is c) \<and> length (is' b) \<le> length (is c)"
  shows "seq_bounded (Suc k) l' is'"
  unfolding seq_bounded_def
proof (intro allI conjI ballI)
  fix b
  obtain c where c: "set (is' b) \<subseteq> set (is c)" "length (is' b) \<le> length (is c)" using assms(3) by blast
  then show "length (is' b) \<le> Suc k" using assms(1) le_SucI order_trans by (metis seq_bounded_def)
  fix x assume "x \<in> set (is' b)"
  then have "seq_of l' x \<le> (LOCAL_LIMIT + MINOR_STRIDE) * k" using assms(1,2) c(1) by (auto simp: seq_bounded_def)
  also have "\<dots> \<le> (LOCAL_LIMIT + MINOR_STRIDE) * Suc k" by simp
  finally show "seq_of l' x \<le> (LOCAL_LIMIT + MINOR_STRIDE) * Suc k" .
qed

lemma block_ops_keep_insts:
  "append_block b l = Some l' \<Longrightarrow> lay_insts l' = lay_insts l"
  "insert_block b c l = Some l' \<Longrightarrow> lay_insts l' = lay_insts l"
  "insert_block_after b c l = Some l' \<Longrightarrow> lay_insts l' = lay_insts l"
  "remove_block b l = Some l' \<Longrightarrow> lay_insts l' = lay_insts l"
  by (auto simp: append_block_def insert_block_def insert_block_after_def remove_block_def assert_that_bind Let_def
      split: option.splits)

lemma refines_same_insts:
  assumes "layout_rel l' bs' is" "seq_bounded k l is" "lay_insts l' = lay_insts l"
  shows "refines_op (Suc k) (Some l') (Some (bs', is))"
  using assms seq_bounded_mono [OF assms(2), of l' "is"] by (auto simp: refines_op_def seq_of_def)

lemma refines_inst_added:
  assumes "inst_added bs is b zs ((LOCAL_LIMIT + MINOR_STRIDE) * Suc k) l r" "seq_bounded k l is" "length zs = Suc (length (is b))"
  shows "refines_op (Suc k) r (Some (bs, is(b := zs)))"
proof (cases r)
  case (Some l')
  have "length ((is(b := zs)) c) \<le> Suc k" for c using assms(2,3) by (auto simp: seq_bounded_def le_SucI)
  moreover have "seq_of l' x \<le> (LOCAL_LIMIT + MINOR_STRIDE) * Suc k" if "x \<in> set ((is(b := zs)) c)" for c x
    using that assms(1,2) Some by (cases "c = b") (force simp: inst_added_def seq_bounded_def)+
  ultimately show ?thesis using assms(1) Some by (simp add: refines_op_def inst_added_def seq_bounded_def)
qed (use assms(1) in \<open>simp add: inst_added_def refines_op_def\<close>)

lemma seq_bounded_room: "seq_bounded k l is \<Longrightarrow> seq_room l (is b) ((LOCAL_LIMIT + MINOR_STRIDE) * Suc k)"
proof -
  assume bd: "seq_bounded k l is"
  then have "length (is b) \<le> k" by (simp add: seq_bounded_def)
  then have "MAJOR_STRIDE * Suc (length (is b)) \<le> (LOCAL_LIMIT + MINOR_STRIDE) * Suc k"
    by (intro mult_le_mono) (simp_all add: MAJOR_STRIDE_def LOCAL_LIMIT_def MINOR_STRIDE_def)
  then show ?thesis using bd by (auto simp: seq_room_def seq_bounded_def)
qed

lemma layout_rel_distinct:
  assumes "layout_rel l bs is" shows "distinct bs" "distinct (is b)"
  using assms by (auto simp: layout_rel_def blocks_ok_def insts_ok_def ring_def)

lemma refines_None [simp]: "refines_op k r None \<longleftrightarrow> r = None"
  by (simp add: refines_op_def)

lemma block_op_refines:
  assumes l: "layout_rel l bs is" and k: "seq_bounded k l is"
  shows "refines_op (Suc k) (append_block b l) (spec_op (Append_Block b) (bs, is))"
    and "refines_op (Suc k) (insert_block b c l) (spec_op (Insert_Block b c) (bs, is))"
    and "refines_op (Suc k) (insert_block_after b c l) (spec_op (Insert_Block_After b c) (bs, is))"
    and "refines_op (Suc k) (remove_block b l) (spec_op (Remove_Block b) (bs, is))"
proof -
  note ins = layout_rel_inserted [OF l] and keep = refines_same_insts [OF _ k block_ops_keep_insts(1)]
    refines_same_insts [OF _ k block_ops_keep_insts(2)] refines_same_insts [OF _ k block_ops_keep_insts(3)]
    refines_same_insts [OF _ k block_ops_keep_insts(4)]
  note split = before_onward_split [OF _ layout_rel_distinct(1) [OF l]]
  show "refines_op (Suc k) (append_block b l) (spec_op (Append_Block b) (bs, is))"
  proof (cases "b \<in> set bs")
    case False
    obtain l' where "append_block b l = Some l'" "layout_rel l' (bs @ [b]) is" by (rule append_block_rel [OF l False])
    then show ?thesis using keep(1) False by simp
  qed (simp add: append_block_def ins)
  show "refines_op (Suc k) (insert_block b c l) (spec_op (Insert_Block b c) (bs, is))"
  proof (cases "b \<notin> set bs \<and> c \<in> set bs")
    case True
    then obtain xs ys where s: "bs = xs @ c # ys" "before c bs = xs" "onward c bs = c # ys" using split by metis
    obtain l' where "insert_block b c l = Some l'" "layout_rel l' (xs @ b # c # ys) is"
      using insert_block_rel [of l xs c ys "is" b] l True s(1) by auto
    then show ?thesis using keep(2) True s by simp
  qed (auto simp: insert_block_def ins)
  show "refines_op (Suc k) (insert_block_after b c l) (spec_op (Insert_Block_After b c) (bs, is))"
  proof (cases "b \<notin> set bs \<and> c \<in> set bs")
    case True
    then obtain xs ys where s: "bs = xs @ c # ys" "before c bs = xs" "onward c bs = c # ys" using split by metis
    obtain l' where "insert_block_after b c l = Some l'" "layout_rel l' (xs @ c # b # ys) is"
      using insert_block_after_rel [of l xs c ys "is" b] l True s(1) by auto
    then show ?thesis using keep(3) True s by simp
  qed (auto simp: insert_block_after_def ins)
  show "refines_op (Suc k) (remove_block b l) (spec_op (Remove_Block b) (bs, is))"
  proof (cases "b \<in> set bs \<and> is b = []")
    case True
    then obtain xs ys where s: "bs = xs @ b # ys" "remove1 b bs = xs @ ys" using split by metis
    obtain l' where "remove_block b l = Some l'" "layout_rel l' (xs @ ys) is"
      using remove_block_rel [of l xs b ys "is"] l True s(1) by auto
    then show ?thesis using keep(4) True s by simp
  next
    case False
    moreover have "b_first l b = None \<longleftrightarrow> is b = []"
      using l by (auto simp: layout_rel_def insts_ok_def ring_def)
    ultimately show ?thesis by (auto simp: remove_block_def ins)
  qed
qed

lemma add_inst_refines:
  assumes l: "layout_rel l bs is" and k: "seq_bounded k l is"
  shows "refines_op (Suc k) (append_inst i b l) (spec_op (Append_Inst i b) (bs, is))"
    and "refines_op (Suc k) (insert_inst i j l) (spec_op (Insert_Inst i j) (bs, is))"
proof -
  note own = owner_rel [OF l] and room = seq_bounded_room [OF k]
  show "refines_op (Suc k) (append_inst i b l) (spec_op (Append_Inst i b) (bs, is))"
  proof (cases "b \<in> set bs \<and> inst_block l i = None")
    case True
    then have "inst_added bs is b (is b @ [i]) ((LOCAL_LIMIT + MINOR_STRIDE) * Suc k) l (append_inst i b l)"
      using append_inst_added [OF l _ _ room] by simp
    then show ?thesis using refines_inst_added [OF _ k] True by (simp add: own)
  qed (auto simp: append_inst_def own layout_rel_inserted [OF l])
  show "refines_op (Suc k) (insert_inst i j l) (spec_op (Insert_Inst i j) (bs, is))"
  proof (cases "inst_block l i = None \<and> inst_block l j \<noteq> None")
    case True
    then obtain b where b: "inst_block l j = Some b" by blast
    then have "j \<in> set (is b)" using inst_block_rel [OF l] by simp
    then obtain xs ys where s: "is b = xs @ j # ys" "before j (is b) = xs" "onward j (is b) = j # ys"
      using before_onward_split [OF _ layout_rel_distinct(2) [OF l]] by metis
    have "inst_added bs is b (xs @ i # j # ys) ((LOCAL_LIMIT + MINOR_STRIDE) * Suc k) l (insert_inst i j l)"
      using insert_inst_added [OF l s(1) _ room] True by simp
    then show ?thesis using refines_inst_added [OF _ k] True b s by (simp add: own)
  qed (auto simp: insert_inst_def own)
qed

lemma refines_shrunk:
  assumes "layout_rel l' bs' is'" "seq_bounded k l is" "\<And>x. seq_of l' x = seq_of l x"
    and "\<And>b. \<exists>c. set (is' b) \<subseteq> set (is c) \<and> length (is' b) \<le> length (is c)"
  shows "refines_op (Suc k) (Some l') (Some (bs', is'))"
  using assms(1) seq_bounded_mono [OF assms(2-4)] by (simp add: refines_op_def)

lemma remove_refines:
  assumes l: "layout_rel l bs is" and k: "seq_bounded k l is"
  shows "refines_op (Suc k) (remove_inst i l) (spec_op (Remove_Inst i) (bs, is))"
    and "refines_op (Suc k) (remove_block_and_insts b l) (spec_op (Remove_Block_And_Insts b) (bs, is))"
proof -
  show "refines_op (Suc k) (remove_inst i l) (spec_op (Remove_Inst i) (bs, is))"
  proof (cases "inst_block l i")
    case (Some b)
    then have "i \<in> set (is b)" using inst_block_rel [OF l] by simp
    then obtain xs ys where s: "is b = xs @ i # ys" "remove1 i (is b) = xs @ ys"
      using before_onward_split [OF _ layout_rel_distinct(2) [OF l]] by metis
    obtain l' where l': "remove_inst i l = Some l'" "layout_rel l' bs (is(b := xs @ ys))" "\<And>x. seq_of l' x = seq_of l x"
      using remove_inst_rel [OF l s(1)] by blast
    have "refines_op (Suc k) (Some l') (Some (bs, is(b := xs @ ys)))"
      using l'(2) k l'(3) by (rule refines_shrunk) (use s(1) in \<open>auto intro: exI [of _ b]\<close>)
    then show ?thesis using l'(1) Some s(2) by (simp add: owner_rel [OF l])
  qed (simp add: remove_inst_def owner_rel [OF l])
  obtain l1 where l1: "remove_insts b l = Some l1" "layout_rel l1 bs (is(b := []))" "\<And>x. seq_of l1 x = seq_of l x"
    using remove_insts_rel [OF l] by blast
  show "refines_op (Suc k) (remove_block_and_insts b l) (spec_op (Remove_Block_And_Insts b) (bs, is))"
  proof (cases "b \<in> set bs")
    case True
    then obtain xs ys where s: "bs = xs @ b # ys" "remove1 b bs = xs @ ys"
      using before_onward_split [OF _ layout_rel_distinct(1) [OF l]] by metis
    obtain l' where l': "remove_block b l1 = Some l'" "layout_rel l' (xs @ ys) (is(b := []))"
      using remove_block_rel [of l1 xs b ys "is(b := [])"] l1(2) s(1) by auto
    have "seq_of l' x = seq_of l x" for x using block_ops_keep_insts(4) [OF l'(1)] l1(3) [of x] by (simp add: seq_of_def)
    with l'(2) k have "refines_op (Suc k) (Some l') (Some (xs @ ys, is(b := [])))"
      by (rule refines_shrunk) auto
    then show ?thesis using l'(1) l1(1) True s(2) by (simp add: remove_block_and_insts_def)
  qed (simp add: remove_block_and_insts_def remove_block_def l1(1) layout_rel_inserted [OF l1(2)])
qed

lemma split_refines:
  assumes l: "layout_rel l bs is" and k: "seq_bounded k l is"
  shows "refines_op (Suc k) (split_block n i l) (spec_op (Split_Block n i) (bs, is))"
proof (cases "n \<notin> set bs \<and> inst_block l i \<noteq> None")
  case True
  then obtain b where b: "inst_block l i = Some b" by blast
  then have i: "i \<in> set (is b)" using inst_block_rel [OF l] by simp
  then have "b \<in> set bs" using l by (auto simp: layout_rel_def)
  then obtain xs cs where s: "bs = xs @ b # cs" "before b bs = xs" "onward b bs = b # cs"
    using before_onward_split [OF _ layout_rel_distinct(1) [OF l]] by metis
  obtain zs ys where z: "is b = zs @ i # ys" "before i (is b) = zs" "onward i (is b) = i # ys"
    using before_onward_split [OF i layout_rel_distinct(2) [OF l]] by metis
  obtain l' where l': "split_block n i l = Some l'" "layout_rel l' (xs @ b # n # cs) (is(b := zs, n := i # ys))"
    "\<And>x. seq_of l' x = seq_of l x"
    using split_block_rel [of l xs b cs "is" zs i ys n] l s(1) z(1) True by blast
  have "\<exists>d. set ((is(b := zs, n := i # ys)) c) \<subseteq> set (is d) \<and> length ((is(b := zs, n := i # ys)) c) \<le> length (is d)" for c
    using z(1) by (cases "c = n \<or> c = b") (auto intro: exI [of _ b] exI [of _ c])
  with l'(2) k l'(3) have "refines_op (Suc k) (Some l') (Some (xs @ b # n # cs, is(b := zs, n := i # ys)))"
    by (rule refines_shrunk)
  then show ?thesis using l'(1) True b s(2,3) z(2,3) by (simp add: owner_rel [OF l])
qed (auto simp: split_block_def owner_rel [OF l] layout_rel_inserted [OF l])

lemma cold_rel:
  fixes l :: layout and b :: block and c :: bool
  defines "l' \<equiv> upd_block b (\<lambda>n. n\<lparr>bn_cold := c\<rparr>) l"
  shows "layout_rel l' bs is \<longleftrightarrow> layout_rel l bs is" "seq_of l' x = seq_of l x" "is_cold l' x = (if x = b then c else is_cold l x)"
proof -
  have eq: "b_prev l' = b_prev l" "b_next l' = b_next l" "b_first l' x = b_first l x"
    "b_last l' x = b_last l x" "first_block l' = first_block l" "last_block l' = last_block l"
    "lay_insts l' = lay_insts l" for x
    by (auto simp: l'_def)
  show "seq_of l' x = seq_of l x" by (simp add: seq_of_def eq)
  have "seq_of l' = seq_of l" by (rule ext) (simp add: seq_of_def eq)
  then show "layout_rel l' bs is \<longleftrightarrow> layout_rel l bs is"
    by (simp add: layout_rel_def blocks_ok_def insts_ok_def seqs_ok_def eq fun_cong [OF eq(1)] fun_cong [OF eq(2)])
  show "is_cold l' x = (if x = b then c else is_cold l x)" by (simp add: l'_def is_cold_def)
qed

lemma op_refines:
  assumes "layout_rel l bs is" "seq_bounded k l is"
  shows "refines_op (Suc k) (apply_op p l) (spec_op p (bs, is))"
proof (cases p)
  case (Set_Cold b)
  then show ?thesis using refines_shrunk [of "set_cold b l" bs "is", OF _ assms(2)] assms(1) by (auto simp: set_cold_def cold_rel)
qed (use block_op_refines [OF assms] add_inst_refines [OF assms] remove_refines [OF assms] split_refines [OF assms] in simp_all)

lemma run_refines:
  assumes "layout_rel l bs is" "seq_bounded k l is"
  shows "refines_op (k + length ps) (run_ops ps l) (spec_ops ps (bs, is))"
  using assms
proof (induction ps arbitrary: l bs "is" k)
  case (Cons p ps)
  note step = op_refines [OF Cons.prems, of p]
  show ?case
  proof (cases "apply_op p l")
    case None
    then show ?thesis
      using step by (auto simp: refines_op_def split: option.splits elim!: order.strict_trans2)
  next
    case (Some l')
    then obtain bs' is' where s: "spec_op p (bs, is) = Some (bs', is')" "layout_rel l' bs' is'" "seq_bounded (Suc k) l' is'"
      using step by (auto simp: refines_op_def split: option.splits)
    then show ?thesis using Cons.IH [OF s(2,3)] Some by simp
  qed
qed (simp add: refines_op_def)

section \<open>Storing and reading back\<close>

lemma ring_determines:
  assumes "ring pv nx f t xs" "ring pv' nx' f' t' xs"
  shows "f = f'" "t = t'" "x \<in> set xs \<Longrightarrow> pv x = pv' x \<and> nx x = nx' x"
proof -
  show "f = f'" "t = t'" using assms by (simp_all add: ring_def)
  assume "x \<in> set xs"
  then obtain ys zs where "xs = ys @ x # zs" by (meson split_list)
  then show "pv x = pv' x \<and> nx x = nx' x" using assms ring_middle by metis
qed

text \<open>The lists and the cold flags determine a layout up to its sequence numbers.\<close>

lemma layout_rel_determines:
  assumes l: "layout_rel l bs is" and m: "layout_rel m bs is" and cold: "\<And>b. is_cold l b = is_cold m b"
  shows "layout_eq l m"
proof -
  note ld = l [unfolded layout_rel_def blocks_ok_def] and md = m [unfolded layout_rel_def blocks_ok_def]
  have bl: "ring (b_prev l) (b_next l) (first_block l) (last_block l) bs"
    and bm: "ring (b_prev m) (b_next m) (first_block m) (last_block m) bs" using ld md by blast+
  have il: "insts_ok l is" and im: "insts_ok m is" using ld md by blast+
  have "b_prev l b = b_prev m b \<and> b_next l b = b_next m b" for b
    using ring_determines(3) [OF bl bm] ld md by (cases "b \<in> set bs") auto
  moreover have "b_first l b = b_first m b \<and> b_last l b = b_last m b" for b
    using ring_determines(1,2) [OF insts_okD(1) [OF il, of b] insts_okD(1) [OF im, of b]] by simp
  ultimately have "lay_blocks l b = lay_blocks m b" for b
    using cold [of b] by (intro block_node.equality) (simp_all add: is_cold_def)
  moreover have blk: "i_block l i = i_block m i" for i
    by (metis insts_okD(2) [OF il] insts_okD(2) [OF im] not_Some_eq)
  moreover have "i_prev l i = i_prev m i \<and> i_next l i = i_next m i" for i
  proof (cases "i_block l i")
    case None
    then show ?thesis using insts_okD(3) [OF il, of i] insts_okD(3) [OF im, of i] blk [of i] by simp
  next
    case (Some b)
    then have "i \<in> set (is b)" using insts_okD(2) [OF il] by simp
    then show ?thesis by (rule ring_determines(3) [OF insts_okD(1) [OF il] insts_okD(1) [OF im]])
  qed
  ultimately show ?thesis
    using ring_determines(1,2) [OF bl bm] by (auto simp: layout_eq_def inst_node_eq_def)
qed

lemma field_elem [simp]:
  "field s rd_block (E_Block b # es) = Inr (b, es)" "field s rd_bool (E_Bool c # es) = Inr (c, es)"
  "field s rd_u32 (E_U32 n # es) = Inr (n, es)" "field s rd_inst (E_Inst i # es) = Inr (i, es)"
  by (simp_all add: field_def next_elem_def rd_block_def rd_bool_def rd_u32_def rd_inst_def)

lemma append_block_cold: "append_block b l = Some l' \<Longrightarrow> is_cold l' c = is_cold l c"
  by (auto simp: append_block_def is_cold_def assert_that_bind Let_def split: option.splits if_splits)

text \<open>Room for the sequence numbers of a layout whose serialized form has \<open>n\<close> elements.\<close>

definition small_layout :: "nat \<Rightarrow> bool" where
  "small_layout n \<longleftrightarrow> (LOCAL_LIMIT + MINOR_STRIDE) * n + MAJOR_STRIDE \<le> SEQ_MAX"

lemma small_layout_mono: "small_layout n \<Longrightarrow> m \<le> n \<Longrightarrow> small_layout m"
  unfolding small_layout_def by (erule order_trans [rotated]) simp

lemma refines_success:
  assumes "refines_op k r (Some (bs, is))" "small_layout k"
  obtains l where "r = Some l" "layout_rel l bs is" "seq_bounded k l is"
  using assms by (auto simp: refines_op_def small_layout_def split: option.splits)

lemma append_inst_success:
  assumes "layout_rel l bs is" "seq_bounded k l is" "b \<in> set bs" "inst_block l i = None" "small_layout (Suc k)"
  obtains l' where "append_inst i b l = Some l'" "layout_rel l' bs (is(b := is b @ [i]))"
    "seq_bounded (Suc k) l' (is(b := is b @ [i]))" "\<And>c. is_cold l' c = is_cold l c"
proof -
  have "refines_op (Suc k) (append_inst i b l) (Some (bs, is(b := is b @ [i])))"
    using add_inst_refines(1) [OF assms(1,2), of i b] assms(3,4) by (simp add: owner_rel [OF assms(1)])
  then obtain l' where l': "append_inst i b l = Some l'" "layout_rel l' bs (is(b := is b @ [i]))"
    "seq_bounded (Suc k) l' (is(b := is b @ [i]))" by (rule refines_success [OF _ assms(5)])
  have "is_cold l' c = is_cold l c" for c
    using append_inst_added [OF assms(1,3,4) seq_bounded_room [OF assms(2)]] l'(1) by (simp add: inst_added_def)
  then show thesis using l' by (intro that)
qed

lemma visit_insts_ok:
  assumes "layout_rel l bs is" "seq_bounded k l is" "b \<in> set bs" "distinct xs"
    and "\<And>x. x \<in> set xs \<Longrightarrow> inst_block l x = None" "small_layout (k + length xs)"
  shows "\<exists>l'. visit_insts (length xs) b (map E_Inst xs @ es) l = Inr (es, l') \<and> layout_rel l' bs (is(b := is b @ xs)) \<and>
    seq_bounded (k + length xs) l' (is(b := is b @ xs)) \<and> (\<forall>c. is_cold l' c = is_cold l c)"
  using assms
proof (induction xs arbitrary: l "is" k)
  case (Cons x xs)
  have "small_layout (Suc k)" using Cons.prems(6) by (rule small_layout_mono) simp
  then obtain l1 where l1: "append_inst x b l = Some l1" "layout_rel l1 bs (is(b := is b @ [x]))"
    "seq_bounded (Suc k) l1 (is(b := is b @ [x]))" "\<And>c. is_cold l1 c = is_cold l c"
    using append_inst_success [OF Cons.prems(1,2,3)] Cons.prems(5) by (metis list.set_intros(1))
  have "inst_block l1 y = None" if "y \<in> set xs" for y
  proof -
    have "y \<noteq> x" "\<And>c. y \<notin> set (is c)"
      using that Cons.prems(4,5) inst_block_rel [OF Cons.prems(1), of y] by auto
    then have "inst_block l1 y \<noteq> Some c" for c using inst_block_rel [OF l1(2), of y c] by auto
    then show ?thesis by (cases "inst_block l1 y") auto
  qed
  with Cons.IH [OF l1(2,3) Cons.prems(3)] Cons.prems(4,6) l1(1,4) show ?case by (auto cong: if_cong)
qed (auto simp: fun_upd_idem)

text \<open>The elements of one block, and of a list of blocks.\<close>

definition ser_block :: "(block \<Rightarrow> bool) \<Rightarrow> (block \<Rightarrow> instr list) \<Rightarrow> block \<Rightarrow> ser_elem list" where
  "ser_block cold is b = E_Block b # E_Bool (cold b) # E_U32 (length (is b)) # map E_Inst (is b)"

definition restrict_lists :: "block list \<Rightarrow> (block \<Rightarrow> instr list) \<Rightarrow> block \<Rightarrow> instr list" where
  "restrict_lists bs is b = (if b \<in> set bs then is b else [])"

lemma visit_block_ok:
  assumes l: "layout_rel l bs (restrict_lists bs is)" "seq_bounded k l (restrict_lists bs is)" and b: "b \<notin> set bs"
    and d: "distinct (is b)" "\<And>c. c \<in> set bs \<Longrightarrow> set (is c) \<inter> set (is b) = {}" and small: "small_layout (Suc (k + length (is b)))"
  shows "\<exists>l'. visit_block b (tl (ser_block cold is b) @ es) l = Inr (es, l') \<and>
    layout_rel l' (bs @ [b]) (restrict_lists (bs @ [b]) is) \<and>
    seq_bounded (Suc (k + length (is b))) l' (restrict_lists (bs @ [b]) is) \<and>
    (\<forall>c. is_cold l' c = (if c = b then cold b else is_cold l c))"
proof -
  let ?is = "restrict_lists bs is"
  have "small_layout (Suc k)" using small by (rule small_layout_mono) simp
  then obtain l1 where l1: "append_block b l = Some l1" "layout_rel l1 (bs @ [b]) ?is" "seq_bounded (Suc k) l1 ?is"
    using block_op_refines(1) [OF l, of b] b by (auto elim: refines_success)
  let ?l2 = "upd_block b (\<lambda>n. n\<lparr>bn_cold := cold b\<rparr>) l1"
  have l2: "layout_rel ?l2 (bs @ [b]) ?is" "seq_bounded (Suc k) ?l2 ?is"
    using l1 by (simp_all add: cold_rel seq_bounded_def)
  have "inst_block ?l2 x = None" if "x \<in> set (is b)" for x
  proof -
    have "x \<notin> set (?is c)" for c using that d(2) [of c] by (auto simp: restrict_lists_def)
    then have "inst_block ?l2 x \<noteq> Some c" for c using inst_block_rel [OF l2(1), of x c] by simp
    then show ?thesis by (cases "inst_block ?l2 x") auto
  qed
  then obtain l' where l': "visit_insts (length (is b)) b (map E_Inst (is b) @ es) ?l2 = Inr (es, l')"
      "layout_rel l' (bs @ [b]) (?is(b := ?is b @ is b))" "seq_bounded (Suc k + length (is b)) l' (?is(b := ?is b @ is b))"
      "\<forall>c. is_cold l' c = is_cold ?l2 c"
    using visit_insts_ok [OF l2, of b "is b" es] d(1) small by auto
  moreover have "?is(b := ?is b @ is b) = restrict_lists (bs @ [b]) is" using b by (auto simp: restrict_lists_def)
  moreover have "is_cold ?l2 c = (if c = b then cold b else is_cold l c)" for c
    using append_block_cold [OF l1(1)] by (simp add: cold_rel)
  ultimately show ?thesis using l1(1) by (intro exI [of _ l']) (simp add: visit_block_def ser_block_def)
qed

lemma visit_blocks_ok:
  assumes "layout_rel l bs (restrict_lists bs is)" "seq_bounded k l (restrict_lists bs is)" "distinct (bs @ cs)"
    and "\<And>c. distinct (is c)" "\<And>b c. b \<noteq> c \<Longrightarrow> set (is b) \<inter> set (is c) = {}"
    and "small_layout (k + length cs + sum_list (map (\<lambda>c. length (is c)) cs))"
  shows "\<exists>l'. visit_blocks (concat (map (ser_block cold is) cs)) l = Inr l' \<and>
    layout_rel l' (bs @ cs) (restrict_lists (bs @ cs) is) \<and>
    (\<forall>c. is_cold l' c = (if c \<in> set cs then cold c else is_cold l c))"
  using assms(1-3,6)
proof (induction cs arbitrary: l bs k)
  case Nil
  then show ?case by (simp add: visit_blocks.simps next_elem_def)
next
  case (Cons b cs)
  let ?es = "concat (map (ser_block cold is) cs)"
  have "small_layout (Suc (k + length (is b)))" using Cons.prems(4) by (rule small_layout_mono) simp
  moreover have b: "b \<notin> set bs" using Cons.prems(3) by simp
  moreover have "set (is c) \<inter> set (is b) = {}" if "c \<in> set bs" for c by (rule assms(5)) (use that b in auto)
  ultimately obtain l1 where l1: "visit_block b (tl (ser_block cold is b) @ ?es) l = Inr (?es, l1)"
    "layout_rel l1 (bs @ [b]) (restrict_lists (bs @ [b]) is)"
    "seq_bounded (Suc (k + length (is b))) l1 (restrict_lists (bs @ [b]) is)"
    "\<forall>c. is_cold l1 c = (if c = b then cold b else is_cold l c)"
    using visit_block_ok [OF Cons.prems(1,2) b assms(4)] by blast
  have "next_elem rd_block (concat (map (ser_block cold is) (b # cs))) = Inr (Some b, tl (ser_block cold is b) @ ?es)"
    by (simp add: next_elem_def rd_block_def ser_block_def)
  then have step: "visit_blocks (concat (map (ser_block cold is) (b # cs))) l = visit_blocks ?es l1"
    using l1(1) by (subst visit_blocks.simps) simp
  have "small_layout (Suc (k + length (is b)) + length cs + sum_list (map (\<lambda>c. length (is c)) cs))"
    using Cons.prems(4) by (simp add: ac_simps)
  from Cons.IH [OF l1(2,3) _ this] Cons.prems(3)
  obtain l' where l': "visit_blocks ?es l1 = Inr l'" "layout_rel l' ((bs @ [b]) @ cs) (restrict_lists ((bs @ [b]) @ cs) is)"
    "\<forall>c. is_cold l' c = (if c \<in> set cs then cold c else is_cold l1 c)" by auto
  then show ?case unfolding step using l1(4) by (intro exI [of _ l']) simp
qed

lemma serialize_rel:
  assumes "layout_rel l bs is" "serialize l = Some (n, es)"
  shows "n = length bs * 3 + sum_list (map (\<lambda>b. length (is b)) bs)" "es = concat (map (ser_block (is_cold l) is) bs)"
    "length es = n"
proof -
  have count: "count_insts l cs = Some (sum_list (map (\<lambda>b. length (is b)) cs))" for cs
    by (induction cs) (simp_all add: layout_insts_rel [OF assms(1)])
  have elems: "serialize_blocks l cs = Some fs \<Longrightarrow> fs = concat (map (ser_block (is_cold l) is) cs)" for cs fs
    by (induction cs arbitrary: fs)
      (auto simp: layout_insts_rel [OF assms(1)] ser_block_def is_cold_def assert_that_bind bind_eq_Some_conv)
  show n: "n = length bs * 3 + sum_list (map (\<lambda>b. length (is b)) bs)"
    and es: "es = concat (map (ser_block (is_cold l) is) bs)"
    using assms(2) elems by (auto simp: serialize_def layout_blocks_rel [OF assms(1)] count bind_eq_Some_conv)
  have "length (concat (map (ser_block (is_cold l) is) cs)) = length cs * 3 + sum_list (map (\<lambda>b. length (is b)) cs)" for cs
    by (induction cs) (simp_all add: ser_block_def)
  then show "length es = n" using n es by simp
qed

lemma layout_rel_disjoint: "layout_rel l bs is \<Longrightarrow> b \<noteq> c \<Longrightarrow> set (is b) \<inter> set (is c) = {}"
  using insts_ok_disjoint by (fastforce simp: layout_rel_def)

lemma serialize_visit:
  assumes l: "layout_rel l bs is" and cold: "\<And>b. b \<notin> set bs \<Longrightarrow> \<not> is_cold l b"
    and small: "small_layout (length bs + sum_list (map (\<lambda>b. length (is b)) bs))"
  shows "\<exists>m. visit_seq (concat (map (ser_block (is_cold l) is) bs)) = Inr m \<and> layout_eq m l"
proof -
  have new: "layout_rel layout_new [] (restrict_lists [] is)" "seq_bounded 0 layout_new (restrict_lists [] is)"
    using layout_new_rel by (simp_all add: restrict_lists_def [abs_def] seq_bounded_def)
  obtain m where m: "visit_blocks (concat (map (ser_block (is_cold l) is) bs)) layout_new = Inr m"
      "layout_rel m bs (restrict_lists bs is)" "\<forall>c. is_cold m c = (if c \<in> set bs then is_cold l c else is_cold layout_new c)"
    using visit_blocks_ok [OF new, of bs "is_cold l"] layout_rel_distinct [OF l] layout_rel_disjoint [OF l] small by auto
  have "restrict_lists bs is = is" using l by (auto simp: restrict_lists_def layout_rel_def)
  moreover have "is_cold m b = is_cold l b" for b
    using m(3) cold by (simp add: is_cold_def layout_new_def default_block_def)
  ultimately have "layout_eq m l" using layout_rel_determines m(2) l by metis
  then show ?thesis using m(1) by (simp add: visit_seq_def)
qed

lemma run_ops_rel:
  assumes "run_ops ps layout_new = Some l"
  obtains bs "is" where "spec_ops ps ([], \<lambda>b. []) = Some (bs, is)" "layout_rel l bs is" "seq_bounded (length ps) l is"
proof -
  have "seq_bounded 0 layout_new (\<lambda>b. [])" by (simp add: seq_bounded_def)
  from run_refines [OF layout_new_rel this, of ps] assms that show thesis
    by (auto simp: refines_op_def split: option.splits)
qed

section \<open>A layout to evaluate\<close>

definition demo_edits :: "layout_op list" where
  "demo_edits = [Append_Block 0, Append_Inst 0 0, Append_Inst 1 0, Insert_Inst 2 1, Split_Block 1 2, Set_Cold 1]"

definition demo_layout :: layout where
  "demo_layout = the (run_ops demo_edits layout_new)"

text \<open>The definitions that evaluate an edit of a concrete layout.\<close>

lemmas layout_eval = append_block_def insert_block_def insert_block_after_def remove_block_def append_inst_def insert_inst_def
  remove_inst_def split_block_def set_cold_def move_insts.simps assign_inst_seq_def renumber_insts.simps renumber_from.simps
  full_block_renumber_def inst_block_def is_block_inserted_def add_seq_def midpoint_def set_seq_def seq_of_def
  SEQ_MAX_def MAJOR_STRIDE_def MINOR_STRIDE_def LOCAL_LIMIT_def layout_new_def default_block_def default_inst_def
  upd_block_def upd_inst_def Let_def

lemma demo_layout_run: "run_ops demo_edits layout_new = Some demo_layout"
  by (simp add: demo_layout_def demo_edits_def layout_eval)

lemma demo_layout_insts: "layout_insts demo_layout 1 = Some [2, 1]"
  by (simp add: demo_layout_def demo_edits_def layout_eval layout_insts_def block_insts_def drain.simps insts_next_def)

lemma demo_layout_serialize:
  "serialize demo_layout = Some (9, [E_Block 0, E_Bool False, E_U32 1, E_Inst 0,
     E_Block 1, E_Bool True, E_U32 2, E_Inst 2, E_Inst 1])"
  by (simp add: demo_layout_def demo_edits_def layout_eval layout_insts_def block_insts_def drain.simps insts_next_def
      serialize_def layout_blocks_def blocks_next_def)

lemma demo_layout_cold: "is_cold demo_layout b \<Longrightarrow> is_block_inserted demo_layout b"
  by (auto simp: demo_layout_def demo_edits_def layout_eval is_cold_def split: if_splits)

section \<open>Properties\<close>

text \<open>C15: a layout refines plain lists. Whatever edits have been made to an empty layout, if none of them
  panicked, the same edits on a list of blocks with a list of instructions each are all allowed and give
  exactly what the layout shows: the iterators return the lists (forwards and backwards), a block is
  inserted when it is in the list, and an instruction is in the block whose list holds it.\<close>

theorem layout_edits_refine_lists:
  assumes "run_ops ps layout_new = Some l"
  shows "\<exists>bs is. spec_ops ps ([], \<lambda>b. []) = Some (bs, is) \<and> layout_blocks l = Some bs \<and> first_block l = hd_or bs None \<and>
    last_block l = last_or None bs \<and>
    (\<forall>b. layout_insts l b = Some (is b) \<and> drain (insts_next_back l) (block_insts l b) = Some (rev (is b)) \<and>
      (is_block_inserted l b \<longleftrightarrow> b \<in> set bs) \<and> (block_contains_exactly_one_inst l b \<longleftrightarrow> length (is b) = 1) \<and>
      (\<forall>i. inst_block l i = Some b \<longleftrightarrow> i \<in> set (is b)))"
proof -
  obtain bs "is" where s: "spec_ops ps ([], \<lambda>b. []) = Some (bs, is)" and l: "layout_rel l bs is"
    by (rule run_ops_rel [OF assms])
  then show ?thesis
    using layout_blocks_rel layout_insts_rel layout_insts_back_rel layout_rel_inserted layout_rel_ends
      exactly_one_inst_rel inst_block_rel by (intro exI [of _ bs] exI [of _ "is"]) simp
qed

theorem layout_edits_refine_lists_witness:
  "run_ops demo_edits layout_new = Some demo_layout \<and>
   (\<exists>bs is. spec_ops demo_edits ([], \<lambda>b. []) = Some (bs, is) \<and> layout_blocks demo_layout = Some bs \<and> bs = [0, 1] \<and>
      is 0 = [0] \<and> is 1 = [2, 1] \<and> drain (insts_next_back demo_layout) (block_insts demo_layout 1) = Some [1, 2])"
proof -
  obtain bs "is" where s: "spec_ops demo_edits ([], \<lambda>b. []) = Some (bs, is)" "layout_blocks demo_layout = Some bs"
    "drain (insts_next_back demo_layout) (block_insts demo_layout 1) = Some (rev (is 1))"
    using layout_edits_refine_lists [OF demo_layout_run] by blast
  moreover from s(1) have "bs = [0, 1]" "is 0 = [0]" "is 1 = [2, 1]"
    by (auto simp: demo_edits_def owner_def before_def onward_def)
  ultimately show ?thesis using demo_layout_run by auto
qed

text \<open>C16: edits of a layout panic exactly when the same edits on lists are refused: sequence numbers never
  overflow, and renumbering always ends, in the first 21 million edits, since an edit raises the largest
  number by at most the 202 of a local renumbering window.\<close>

theorem layout_edits_never_overflow:
  assumes "202 * length ps + 10 \<le> 0xFFFFFFFF"
  shows "(\<exists>l. run_ops ps layout_new = Some l) \<longleftrightarrow> (\<exists>s. spec_ops ps ([], \<lambda>b. []) = Some s)"
proof
  assume "\<exists>l. run_ops ps layout_new = Some l"
  then show "\<exists>s. spec_ops ps ([], \<lambda>b. []) = Some s" using run_ops_rel by blast
next
  assume "\<exists>s. spec_ops ps ([], \<lambda>b. []) = Some s"
  then obtain bs "is" where s: "spec_ops ps ([], \<lambda>b. []) = Some (bs, is)" by (metis prod.collapse)
  have "seq_bounded 0 layout_new (\<lambda>b. [])" by (simp add: seq_bounded_def)
  with run_refines [OF layout_new_rel this, of ps] s have "refines_op (length ps) (run_ops ps layout_new) (Some (bs, is))"
    by simp
  moreover have "small_layout (length ps)"
    using assms by (simp add: small_layout_def LOCAL_LIMIT_def MINOR_STRIDE_def MAJOR_STRIDE_def SEQ_MAX_def)
  ultimately show "\<exists>l. run_ops ps layout_new = Some l" by (auto elim: refines_success)
qed

theorem layout_edits_never_overflow_witness:
  "202 * length [Append_Block 3, Append_Inst 5 3, Remove_Block 3] + 10 \<le> 0xFFFFFFFF \<and>
   run_ops [Append_Block 3, Append_Inst 5 3, Remove_Block 3] layout_new = None \<and>
   (\<exists>l. run_ops [Append_Block 3, Append_Inst 5 3, Remove_Block_And_Insts 3] layout_new = Some l)"
proof -
  have "spec_ops [Append_Block 3, Append_Inst 5 3, Remove_Block 3] ([], \<lambda>b. []) = None"
    "\<exists>s. spec_ops [Append_Block 3, Append_Inst 5 3, Remove_Block_And_Insts 3] ([], \<lambda>b. []) = Some s"
    by (simp_all add: owner_def)
  then show ?thesis
    using layout_edits_never_overflow [of "[Append_Block 3, Append_Inst 5 3, Remove_Block 3]"]
      layout_edits_never_overflow [of "[Append_Block 3, Append_Inst 5 3, Remove_Block_And_Insts 3]"] by auto
qed

text \<open>C17: sequence numbers decide the order of program points. In a layout made by any edits, comparing two
  instructions of a block compares their positions in the block, a block header comes before all its
  instructions, and a comparison across blocks panics.\<close>

theorem pp_cmp_is_layout_order:
  assumes "run_ops ps layout_new = Some l" "layout_insts l b = Some xs" "m < length xs"
  shows "(n < length xs \<longrightarrow> pp_cmp l (PP_Inst (xs ! m)) (PP_Inst (xs ! n)) = Some (seq_cmp m n)) \<and>
    pp_cmp l (PP_Block b) (PP_Inst (xs ! m)) = Some Less \<and> pp_cmp l (PP_Inst (xs ! m)) (PP_Block b) = Some Greater \<and>
    (c \<noteq> b \<and> layout_insts l c = Some ys \<and> k < length ys \<longrightarrow> pp_cmp l (PP_Inst (xs ! m)) (PP_Inst (ys ! k)) = None)"
proof -
  obtain bs "is" where l: "layout_rel l bs is" using run_ops_rel [OF assms(1)] by metis
  have xs: "xs = is b" and ys: "layout_insts l c = Some ys \<Longrightarrow> ys = is c" using layout_insts_rel [OF l] assms(2) by simp_all
  then show ?thesis using pp_cmp_rel [OF l, of m b] assms(3) by auto
qed

theorem pp_cmp_is_layout_order_witness:
  "run_ops demo_edits layout_new = Some demo_layout \<and> layout_insts demo_layout 1 = Some [2, 1] \<and>
   pp_cmp demo_layout (PP_Inst 2) (PP_Inst 1) = Some Less"
  using pp_cmp_is_layout_order [OF demo_layout_run demo_layout_insts, of 0 1] demo_layout_run demo_layout_insts
  by (simp add: seq_cmp_def)

text \<open>C18: a layout that is written and read back is equal to itself. A layout made by any edits, whose cold
  blocks are all inserted and whose written form is not astronomically long, is written as as many elements
  as announced, and reading them gives a layout equal to it (sequence numbers aside).\<close>

theorem layout_serde_roundtrip:
  assumes "run_ops ps layout_new = Some l" "\<And>b. is_cold l b \<Longrightarrow> is_block_inserted l b"
    and "serialize l = Some (n, es)" "202 * n + 10 \<le> 0xFFFFFFFF"
  shows "length es = n \<and> (\<exists>m. visit_seq es = Inr m \<and> layout_eq m l)"
proof -
  obtain bs "is" where l: "layout_rel l bs is" using run_ops_rel [OF assms(1)] by metis
  note ser = serialize_rel [OF l assms(3)]
  have "small_layout n"
    using assms(4) by (simp add: small_layout_def LOCAL_LIMIT_def MINOR_STRIDE_def MAJOR_STRIDE_def SEQ_MAX_def)
  then have "small_layout (length bs + sum_list (map (\<lambda>b. length (is b)) bs))" by (rule small_layout_mono) (simp add: ser(1))
  moreover have "\<not> is_cold l b" if "b \<notin> set bs" for b using that assms(2) layout_rel_inserted [OF l] by blast
  ultimately show ?thesis using serialize_visit [OF l] ser(2,3) by simp
qed

theorem layout_serde_roundtrip_witness:
  "serialize demo_layout = Some (9, [E_Block 0, E_Bool False, E_U32 1, E_Inst 0,
     E_Block 1, E_Bool True, E_U32 2, E_Inst 2, E_Inst 1]) \<and>
   (\<exists>m. visit_seq [E_Block 0, E_Bool False, E_U32 1, E_Inst 0, E_Block 1, E_Bool True, E_U32 2, E_Inst 2, E_Inst 1] = Inr m \<and>
     layout_eq m demo_layout)"
  using layout_serde_roundtrip [OF demo_layout_run demo_layout_cold demo_layout_serialize] demo_layout_serialize by simp

end
