(* ===== verification/Ir_Sourceloc.thy ===== *)
theory Ir_Sourceloc
  imports Prelude
begin

unbundle bit_operations_syntax

text \<open>
  \<open>src/cranelift/codegen/src/ir/sourceloc.rs\<close> and the source locations of a function
  (\<open>src/cranelift/codegen/src/ir/function.rs\<close>): a location is a 31-bit number; a function keeps the locations of
  its instructions relative to the first one it was given, so that compiled code can be reused when the
  function moves, and the machine code records carry either form in one word.
\<close>

section \<open>Locations\<close>

type_synonym source_loc = "32 word"
type_synonym rel_source_loc = "32 word"
type_synonym maybe_rel_source_loc = "32 word"

definition default_srcloc :: source_loc where "default_srcloc = 0x7fffffff"

definition srcloc_is_default :: "source_loc \<Rightarrow> bool" where "srcloc_is_default loc \<longleftrightarrow> loc = default_srcloc"

definition default_rel_srcloc :: rel_source_loc where "default_rel_srcloc = 0x7fffffff"

definition rel_is_default :: "rel_source_loc \<Rightarrow> bool" where "rel_is_default loc \<longleftrightarrow> loc = default_rel_srcloc"

definition REL_BIT :: "32 word" where "REL_BIT = 0x80000000"
definition MASK :: "32 word" where "MASK = NOT REL_BIT"

definition from_base_offset :: "source_loc \<Rightarrow> source_loc \<Rightarrow> rel_source_loc" where
  "from_base_offset base off =
     (if srcloc_is_default base \<or> srcloc_is_default off then default_rel_srcloc else (off - base) AND MASK)"

definition rel_expand :: "rel_source_loc \<Rightarrow> source_loc \<Rightarrow> source_loc" where
  "rel_expand loc base =
     (if rel_is_default loc \<or> srcloc_is_default base then default_srcloc else (loc + base) AND MASK)"

text \<open>The packed form of the machine code records. \<open>None\<close> is a failed assertion.\<close>

definition maybe_rel :: "rel_source_loc \<Rightarrow> maybe_rel_source_loc option" where
  "maybe_rel loc = do { assert_that (loc AND MASK = loc); Some (loc OR REL_BIT) }"

definition maybe_abs :: "source_loc \<Rightarrow> maybe_rel_source_loc option" where
  "maybe_abs loc = do { assert_that (loc AND MASK = loc); Some loc }"

definition is_rel :: "maybe_rel_source_loc \<Rightarrow> bool" where "is_rel w \<longleftrightarrow> w AND REL_BIT \<noteq> 0"
definition is_abs :: "maybe_rel_source_loc \<Rightarrow> bool" where "is_abs w \<longleftrightarrow> w AND REL_BIT = 0"

definition as_rel :: "maybe_rel_source_loc \<Rightarrow> rel_source_loc option" where
  "as_rel w = do { assert_that (is_rel w); Some (w AND MASK) }"

definition as_abs :: "maybe_rel_source_loc \<Rightarrow> source_loc option" where
  "as_abs w = do { assert_that (is_abs w); Some w }"

definition relocate :: "maybe_rel_source_loc \<Rightarrow> source_loc \<Rightarrow> source_loc option" where
  "relocate w base = map_option (\<lambda>loc. rel_expand loc base) (as_rel w)"

definition apply_base_srcloc :: "source_loc \<Rightarrow> maybe_rel_source_loc \<Rightarrow> maybe_rel_source_loc option" where
  "apply_base_srcloc base w = relocate w base \<bind> maybe_abs"

section \<open>The locations of a function\<close>

record func_srclocs =
  base_srcloc :: "source_loc option"
  inst_srclocs :: "nat \<Rightarrow> rel_source_loc"

definition func_srclocs_new :: func_srclocs where
  "func_srclocs_new = \<lparr>base_srcloc = None, inst_srclocs = (\<lambda>i. default_rel_srcloc)\<rparr>"

definition base_srcloc_or_default :: "func_srclocs \<Rightarrow> source_loc" where
  "base_srcloc_or_default f = (case base_srcloc f of Some b \<Rightarrow> b | None \<Rightarrow> default_srcloc)"

definition ensure_base_srcloc :: "source_loc \<Rightarrow> func_srclocs \<Rightarrow> source_loc \<times> func_srclocs" where
  "ensure_base_srcloc loc f =
     (case base_srcloc f of Some v \<Rightarrow> (v, f) | None \<Rightarrow> (loc, f\<lparr>base_srcloc := Some loc\<rparr>))"

definition set_inst_srcloc :: "nat \<Rightarrow> source_loc \<Rightarrow> func_srclocs \<Rightarrow> func_srclocs" where
  "set_inst_srcloc i loc f =
     (case ensure_base_srcloc loc f of
        (base, f) \<Rightarrow> f\<lparr>inst_srclocs := (inst_srclocs f)(i := from_base_offset base loc)\<rparr>)"

definition inst_srcloc :: "func_srclocs \<Rightarrow> nat \<Rightarrow> source_loc" where
  "inst_srcloc f i = rel_expand (inst_srclocs f i) (base_srcloc_or_default f)"

section \<open>31-bit arithmetic\<close>

lemma MASK_mask: "MASK = mask 31"
  by (simp add: MASK_def REL_BIT_def mask_eq_exp_minus_1)

lemma and_MASK: "w AND MASK = take_bit 31 w"
  by (simp add: MASK_mask take_bit_eq_mask)

lemma uint_and_MASK: "uint (w AND MASK) = uint w mod 2 ^ 31"
  unfolding and_MASK unsigned_take_bit_eq by (simp add: take_bit_eq_mod)

lemma fits_31: "w AND MASK = w \<longleftrightarrow> uint w < 2 ^ 31"
proof
  assume "w AND MASK = w"
  then show "uint w < 2 ^ 31" by (metis uint_and_MASK pos_mod_bound zero_less_numeral zero_less_power)
next
  assume "uint w < 2 ^ 31"
  then show "w AND MASK = w" by (intro word_uint_eqI) (simp add: uint_and_MASK)
qed

lemma mod_2_32_31: "(x mod 2 ^ 32) mod 2 ^ 31 = x mod (2 ^ 31 :: int)"
  by (rule mod_mod_cancel) (simp add: dvd_def)

lemma uint_sub_MASK: "uint ((a - b) AND MASK) = (uint a - uint b) mod 2 ^ 31" for a b :: "32 word"
proof -
  have "uint (a - b) = (uint a - uint b) mod 2 ^ 32" using uint_word_ariths(2) [of a b] by simp
  then show ?thesis by (simp only: uint_and_MASK mod_2_32_31)
qed

lemma uint_add_MASK: "uint ((a + b) AND MASK) = (uint a + uint b) mod 2 ^ 31" for a b :: "32 word"
proof -
  have "uint (a + b) = (uint a + uint b) mod 2 ^ 32" using uint_word_ariths(1) [of a b] by simp
  then show ?thesis by (simp only: uint_and_MASK mod_2_32_31)
qed

section \<open>Moving a location to another base\<close>

definition srcloc_ok :: "source_loc \<Rightarrow> bool" where
  "srcloc_ok loc \<longleftrightarrow> loc AND MASK = loc \<and> \<not> srcloc_is_default loc"

lemma srcloc_ok_uint: "srcloc_ok loc \<longleftrightarrow> uint loc < 2 ^ 31 - 1"
proof -
  have "loc = default_srcloc \<longleftrightarrow> uint loc = 2 ^ 31 - 1" by (simp add: default_srcloc_def word_uint_eq_iff)
  then show ?thesis by (auto simp: srcloc_ok_def fits_31 srcloc_is_default_def)
qed

lemma from_base_offset_fits: "from_base_offset base loc AND MASK = from_base_offset base loc"
  unfolding fits_31 by (simp add: from_base_offset_def default_rel_srcloc_def uint_and_MASK)

lemma from_base_offset_uint:
  "srcloc_ok base \<Longrightarrow> srcloc_ok loc \<Longrightarrow> uint (from_base_offset base loc) = (uint loc - uint base) mod 2 ^ 31"
  by (simp add: from_base_offset_def srcloc_ok_def uint_sub_MASK)

lemma from_base_offset_default:
  assumes "srcloc_ok base" "srcloc_ok loc"
  shows "rel_is_default (from_base_offset base loc) \<longleftrightarrow> loc + 1 = base"
proof -
  have b: "0 \<le> uint base" "uint base < 2 ^ 31 - 1" "0 \<le> uint loc" "uint loc < 2 ^ 31 - 1"
    using assms by (simp_all add: srcloc_ok_uint)
  have "rel_is_default (from_base_offset base loc) \<longleftrightarrow> (uint loc - uint base) mod 2 ^ 31 = 2 ^ 31 - 1"
    using from_base_offset_uint [OF assms] by (simp add: rel_is_default_def default_rel_srcloc_def word_uint_eq_iff)
  also have "\<dots> \<longleftrightarrow> uint loc + 1 = uint base"
  proof (cases "uint base \<le> uint loc")
    case True
    then have "(uint loc - uint base) mod 2 ^ 31 = uint loc - uint base" 
      by (intro mod_pos_pos_trivial) (use True b in linarith)+
    moreover have "uint loc - uint base \<noteq> 2 ^ 31 - 1" "uint loc + 1 \<noteq> uint base" using True b by linarith+
    ultimately show ?thesis by simp
  next
    case False
    have "(uint loc - uint base) mod 2 ^ 31 = (uint loc - uint base + 2 ^ 31) mod 2 ^ 31" by simp
    also have "\<dots> = uint loc - uint base + 2 ^ 31" 
      by (intro mod_pos_pos_trivial) (use False b in linarith)+
    finally show ?thesis by auto
  qed
  also have "\<dots> \<longleftrightarrow> loc + 1 = base"
  proof -
    have "uint (loc + 1) = (uint loc + 1) mod 2 ^ 32" using uint_word_ariths(1) [of loc 1] by simp
    also have "\<dots> = uint loc + 1" by (intro mod_pos_pos_trivial) (use b in simp_all)
    finally have "uint (loc + 1) = uint loc + 1" .
    then show ?thesis by (simp add: word_uint_eq_iff)
  qed
  finally show ?thesis .
qed

lemma expand_from_base:
  assumes "srcloc_ok base" "srcloc_ok loc" "srcloc_ok base'"
  shows "rel_expand (from_base_offset base loc) base' = (if loc + 1 = base then default_srcloc else (loc - base + base') AND MASK)"
proof (cases "loc + 1 = base")
  case False
  have "uint ((from_base_offset base loc + base') AND MASK) = ((uint loc - uint base) mod 2 ^ 31 + uint base') mod 2 ^ 31"
    by (simp add: uint_add_MASK from_base_offset_uint [OF assms(1,2)])
  also have "\<dots> = uint ((loc - base + base') AND MASK)"
    using mod_2_32_31 [of "uint loc - uint base"] uint_word_ariths(2) [of loc base]
    by (metis (no_types) uint_add_MASK mod_add_left_eq uint_and_MASK uint_sub_MASK)
  finally show ?thesis
    using False from_base_offset_default [OF assms(1,2)] assms(3) by (simp add: rel_expand_def srcloc_ok_def word_uint_eq_iff)
qed (use from_base_offset_default [OF assms(1,2)] in \<open>simp add: rel_expand_def\<close>)

lemma expand_same_base:
  assumes "srcloc_ok base" "srcloc_ok loc" "loc + 1 \<noteq> base" shows "rel_expand (from_base_offset base loc) base = loc"
  using expand_from_base [OF assms(1,2,1)] assms(2,3) by (simp add: srcloc_ok_def)

lemma maybe_rel_round: "loc AND MASK = loc \<Longrightarrow> maybe_rel loc \<bind> as_rel = Some loc"
proof -
  assume fits: "loc AND MASK = loc"
  have "REL_BIT AND MASK = 0" "REL_BIT AND REL_BIT \<noteq> 0" by (simp_all add: MASK_def REL_BIT_def)
  moreover have "(loc OR REL_BIT) AND MASK = (loc AND MASK) OR (REL_BIT AND MASK)" by (simp add: bit.conj_disj_distrib2)
  moreover have "(loc OR REL_BIT) AND REL_BIT = REL_BIT" by (simp add: word_ao_absorbs)
  ultimately show ?thesis using fits by (simp add: maybe_rel_def as_rel_def is_rel_def)
qed

lemma rel_expand_fits: "rel_expand loc base AND MASK = rel_expand loc base"
  unfolding fits_31 by (simp add: rel_expand_def default_srcloc_def uint_and_MASK)

lemma apply_base_srcloc_eq:
  assumes "loc AND MASK = loc" shows "maybe_rel loc \<bind> apply_base_srcloc base = Some (rel_expand loc base)"
proof -
  obtain w where w: "maybe_rel loc = Some w" "as_rel w = Some loc"
    using maybe_rel_round [OF assms] by (auto simp: bind_eq_Some_conv)
  then show ?thesis by (simp add: apply_base_srcloc_def relocate_def maybe_abs_def rel_expand_fits)
qed

section \<open>Properties\<close>

text \<open>A source location moves with the base of its function. A location recorded relative to one base,
  packed into a record of the machine code and relocated to another base, comes out shifted by the
  difference of the bases modulo \<open>2\<^sup>31\<close>, and no assertion of the packing fails, except that the
  location just below the base comes out as the default location.\<close>

theorem relocated_srcloc_exact:
  assumes "srcloc_ok base" "srcloc_ok loc" "srcloc_ok base'"
  shows "maybe_rel (from_base_offset base loc) \<bind> apply_base_srcloc base' \<bind> as_abs =
    Some (if loc + 1 = base then default_srcloc else (loc - base + base') AND MASK)"
proof -
  have "is_abs (rel_expand l b)" for l b
  proof -
    have "REL_BIT AND MASK = 0" by (simp add: MASK_def)
    then have "(rel_expand l b AND MASK) AND REL_BIT = 0" by (metis and.assoc and.commute bit.conj_zero_right)
    then show ?thesis by (simp add: is_abs_def rel_expand_fits)
  qed
  then show ?thesis
    by (simp add: apply_base_srcloc_eq from_base_offset_fits as_abs_def expand_from_base [OF assms, symmetric])
qed

theorem relocated_srcloc_exact_witness:
  "srcloc_ok 100 \<and> srcloc_ok 107 \<and> srcloc_ok 5000 \<and>
   maybe_rel (from_base_offset 100 107) \<bind> apply_base_srcloc 5000 \<bind> as_abs = Some 5007"
proof -
  have ok: "srcloc_ok 100" "srcloc_ok 107" "srcloc_ok 5000" by (simp_all add: srcloc_ok_uint)
  then show ?thesis using relocated_srcloc_exact [OF ok] by (simp add: MASK_def REL_BIT_def)
qed

text \<open>What an instruction is given is what it reads back: setting the location of an instruction, in a
  function whose base is unset or a proper location, reads back as that location unless it is the one just
  below the base, and leaves the locations of the other instructions of a function with a base alone.\<close>

theorem inst_srcloc_roundtrip:
  assumes "srcloc_ok loc" "\<And>b. base_srcloc f = Some b \<Longrightarrow> srcloc_ok b \<and> loc + 1 \<noteq> b"
  shows "inst_srcloc (set_inst_srcloc i loc f) i = loc \<and>
    (base_srcloc f \<noteq> None \<and> j \<noteq> i \<longrightarrow> inst_srcloc (set_inst_srcloc i loc f) j = inst_srcloc f j)"
proof (cases "base_srcloc f")
  case None
  have "loc + 1 \<noteq> loc" by simp
  then show ?thesis using None assms(1) expand_same_base [of loc loc]
    by (simp add: inst_srcloc_def set_inst_srcloc_def ensure_base_srcloc_def base_srcloc_or_default_def)
next
  case (Some b)
  then show ?thesis using assms expand_same_base [of b loc]
    by (simp add: inst_srcloc_def set_inst_srcloc_def ensure_base_srcloc_def base_srcloc_or_default_def)
qed

theorem inst_srcloc_roundtrip_witness:
  "srcloc_ok 20 \<and> inst_srcloc (set_inst_srcloc 1 20 (set_inst_srcloc 0 30 func_srclocs_new)) 1 = 20 \<and>
   inst_srcloc (set_inst_srcloc 1 20 (set_inst_srcloc 0 30 func_srclocs_new)) 0 = 30"
proof -
  let ?f = "set_inst_srcloc 0 30 func_srclocs_new"
  have ok: "srcloc_ok 20" "srcloc_ok 30" by (simp_all add: srcloc_ok_uint)
  have base: "base_srcloc ?f = Some 30" by (simp add: set_inst_srcloc_def ensure_base_srcloc_def func_srclocs_new_def)
  have "inst_srcloc ?f 0 = 30" using inst_srcloc_roundtrip [of 30 func_srclocs_new 0] ok by (simp add: func_srclocs_new_def)
  then show ?thesis using inst_srcloc_roundtrip [of 20 ?f 1 0] ok base by simp
qed

text \<open>C20: two ways a source location is lost. In a function whose base is the default location, and for the
  location just below the base of a function, an instruction reads back the default location whatever it
  was given.\<close>

theorem srcloc_lost:
  "base_srcloc f = Some default_srcloc \<or> (\<exists>b. base_srcloc f = Some b \<and> srcloc_ok b \<and> srcloc_ok loc \<and> loc + 1 = b) \<Longrightarrow>
   inst_srcloc (set_inst_srcloc i loc f) i = default_srcloc"
  using from_base_offset_default [of "loc + 1" loc]
  by (auto simp: inst_srcloc_def set_inst_srcloc_def ensure_base_srcloc_def base_srcloc_or_default_def rel_expand_def
      srcloc_is_default_def)

theorem srcloc_lost_witness:
  "inst_srcloc (set_inst_srcloc 1 41 (set_inst_srcloc 0 default_srcloc func_srclocs_new)) 1 = default_srcloc \<and>
   inst_srcloc (set_inst_srcloc 1 41 (set_inst_srcloc 0 42 func_srclocs_new)) 1 = default_srcloc"
proof -
  have "base_srcloc (set_inst_srcloc 0 loc func_srclocs_new) = Some loc" for loc
    by (simp add: set_inst_srcloc_def ensure_base_srcloc_def func_srclocs_new_def)
  then show ?thesis using srcloc_lost by (simp add: srcloc_ok_uint)
qed

end
