(* ===== verification/Ir_Cursor.thy ===== *)
theory Ir_Cursor
  imports Ir_Layout_Correct Ir_Sourceloc
begin

text \<open>
  \<open>src/cranelift/codegen/src/cursor.rs\<close>: a position in a function at which instructions are inserted,
  removed and visited. The model is \<open>FuncCursor\<close> with the parts of the function it works on, the layout and
  the source locations. An outer \<open>None\<close> is a panic (a failed assertion or an \<open>expect\<close>).
\<close>

section \<open>Positions\<close>

datatype cursor_position = Nowhere | At instr | Before block | After block

record func_cursor =
  cur_pos :: cursor_position
  cur_loc :: source_loc
  cur_layout :: layout
  cur_srclocs :: func_srclocs

definition func_cursor_new :: "layout \<Rightarrow> func_srclocs \<Rightarrow> func_cursor" where
  "func_cursor_new l f = \<lparr>cur_pos = Nowhere, cur_loc = default_srcloc, cur_layout = l, cur_srclocs = f\<rparr>"

definition set_position :: "cursor_position \<Rightarrow> func_cursor \<Rightarrow> func_cursor" where
  "set_position p c = c\<lparr>cur_pos := p\<rparr>"

definition use_srcloc :: "instr \<Rightarrow> func_cursor \<Rightarrow> func_cursor" where
  "use_srcloc i c = c\<lparr>cur_loc := inst_srcloc (cur_srclocs c) i\<rparr>"

definition cur_set_srcloc :: "source_loc \<Rightarrow> func_cursor \<Rightarrow> func_cursor" where
  "cur_set_srcloc loc c = c\<lparr>cur_srclocs := snd (ensure_base_srcloc loc (cur_srclocs c)), cur_loc := loc\<rparr>"

definition current_block :: "func_cursor \<Rightarrow> block option" where
  "current_block c =
     (case cur_pos c of
        Nowhere \<Rightarrow> None
      | At i \<Rightarrow> inst_block (cur_layout c) i
      | Before b \<Rightarrow> Some b
      | After b \<Rightarrow> Some b)"

definition current_inst :: "func_cursor \<Rightarrow> instr option" where
  "current_inst c = (case cur_pos c of At i \<Rightarrow> Some i | _ \<Rightarrow> None)"

section \<open>Moving to a place\<close>

definition goto_after_inst :: "instr \<Rightarrow> func_cursor \<Rightarrow> func_cursor option" where
  "goto_after_inst i c = do {
     b \<leftarrow> inst_block (cur_layout c) i;
     Some (set_position (case next_inst (cur_layout c) i of Some j \<Rightarrow> At j | None \<Rightarrow> After b) c)
   }"

definition goto_inst :: "instr \<Rightarrow> func_cursor \<Rightarrow> func_cursor option" where
  "goto_inst i c = do {
     assert_that (inst_block (cur_layout c) i \<noteq> None);
     Some (set_position (At i) c)
   }"

definition goto_top :: "block \<Rightarrow> func_cursor \<Rightarrow> func_cursor option" where
  "goto_top b c = do {
     assert_that (is_block_inserted (cur_layout c) b);
     Some (set_position (Before b) c)
   }"

definition goto_bottom :: "block \<Rightarrow> func_cursor \<Rightarrow> func_cursor option" where
  "goto_bottom b c = do {
     assert_that (is_block_inserted (cur_layout c) b);
     Some (set_position (After b) c)
   }"

definition goto_first_insertion_point :: "block \<Rightarrow> func_cursor \<Rightarrow> func_cursor option" where
  "goto_first_insertion_point b c =
     (case first_inst (cur_layout c) b of Some i \<Rightarrow> goto_inst i c | None \<Rightarrow> goto_bottom b c)"

definition goto_first_inst :: "block \<Rightarrow> func_cursor \<Rightarrow> func_cursor option" where
  "goto_first_inst b c = first_inst (cur_layout c) b \<bind> (\<lambda>i. goto_inst i c)"

definition goto_last_inst :: "block \<Rightarrow> func_cursor \<Rightarrow> func_cursor option" where
  "goto_last_inst b c = last_inst (cur_layout c) b \<bind> (\<lambda>i. goto_inst i c)"

text \<open>The builder forms, which take a cursor and return it moved.\<close>

definition with_srcloc :: "source_loc \<Rightarrow> func_cursor \<Rightarrow> func_cursor" where "with_srcloc loc c = cur_set_srcloc loc c"
definition at_position :: "cursor_position \<Rightarrow> func_cursor \<Rightarrow> func_cursor" where "at_position p c = set_position p c"
definition at_inst :: "instr \<Rightarrow> func_cursor \<Rightarrow> func_cursor option" where "at_inst i c = goto_inst i c"
definition at_first_insertion_point :: "block \<Rightarrow> func_cursor \<Rightarrow> func_cursor option" where
  "at_first_insertion_point b c = goto_first_insertion_point b c"
definition at_first_inst :: "block \<Rightarrow> func_cursor \<Rightarrow> func_cursor option" where "at_first_inst b c = goto_first_inst b c"
definition at_last_inst :: "block \<Rightarrow> func_cursor \<Rightarrow> func_cursor option" where "at_last_inst b c = goto_last_inst b c"
definition after_inst :: "instr \<Rightarrow> func_cursor \<Rightarrow> func_cursor option" where "after_inst i c = goto_after_inst i c"
definition at_top :: "block \<Rightarrow> func_cursor \<Rightarrow> func_cursor option" where "at_top b c = goto_top b c"
definition at_bottom :: "block \<Rightarrow> func_cursor \<Rightarrow> func_cursor option" where "at_bottom b c = goto_bottom b c"

section \<open>Stepping\<close>

definition next_block_position :: "func_cursor \<Rightarrow> cursor_position" where
  "next_block_position c =
     (let nxt = (case current_block c of
          Some b \<Rightarrow> next_block (cur_layout c) b
        | None \<Rightarrow> entry_block (cur_layout c))
      in case nxt of Some b \<Rightarrow> Before b | None \<Rightarrow> Nowhere)"

definition prev_block_position :: "func_cursor \<Rightarrow> cursor_position" where
  "prev_block_position c =
     (let prv = (case current_block c of
          Some b \<Rightarrow> prev_block (cur_layout c) b
        | None \<Rightarrow> last_block (cur_layout c))
      in case prv of Some b \<Rightarrow> After b | None \<Rightarrow> Nowhere)"

definition cur_next_block :: "func_cursor \<Rightarrow> block option \<times> func_cursor" where
  "cur_next_block c = (let c' = set_position (next_block_position c) c in (current_block c', c'))"

definition cur_prev_block :: "func_cursor \<Rightarrow> block option \<times> func_cursor" where
  "cur_prev_block c = (let c' = set_position (prev_block_position c) c in (current_block c', c'))"

definition next_inst_position :: "func_cursor \<Rightarrow> cursor_position option option" where
  "next_inst_position c =
     (case cur_pos c of
        Nowhere \<Rightarrow> Some None
      | After _ \<Rightarrow> Some None
      | At i \<Rightarrow>
          (case next_inst (cur_layout c) i of
             Some j \<Rightarrow> Some (Some (At j))
           | None \<Rightarrow> map_option (\<lambda>b. Some (After b)) (inst_block (cur_layout c) i))
      | Before b \<Rightarrow>
          (case first_inst (cur_layout c) b of
             Some j \<Rightarrow> Some (Some (At j))
           | None \<Rightarrow> Some (Some (After b))))"

definition prev_inst_position :: "func_cursor \<Rightarrow> cursor_position option option" where
  "prev_inst_position c =
     (case cur_pos c of
        Nowhere \<Rightarrow> Some None
      | Before _ \<Rightarrow> Some None
      | At i \<Rightarrow>
          (case prev_inst (cur_layout c) i of
             Some j \<Rightarrow> Some (Some (At j))
           | None \<Rightarrow> map_option (\<lambda>b. Some (Before b)) (inst_block (cur_layout c) i))
      | After b \<Rightarrow>
          (case last_inst (cur_layout c) b of
             Some j \<Rightarrow> Some (Some (At j))
           | None \<Rightarrow> Some (Some (Before b))))"

definition next_position :: "func_cursor \<Rightarrow> cursor_position option" where
  "next_position c = map_option (\<lambda>p. case p of Some q \<Rightarrow> q | None \<Rightarrow> next_block_position c) (next_inst_position c)"

definition prev_position :: "func_cursor \<Rightarrow> cursor_position option" where
  "prev_position c = map_option (\<lambda>p. case p of Some q \<Rightarrow> q | None \<Rightarrow> prev_block_position c) (prev_inst_position c)"

definition cur_next_inst :: "func_cursor \<Rightarrow> (instr option \<times> func_cursor) option" where
  "cur_next_inst c =
     map_option (\<lambda>p. case p of
         None \<Rightarrow> (None, c)
       | Some q \<Rightarrow> (let c' = set_position q c in (current_inst c', c'))) (next_inst_position c)"

definition cur_prev_inst :: "func_cursor \<Rightarrow> (instr option \<times> func_cursor) option" where
  "cur_prev_inst c =
     map_option (\<lambda>p. case p of
         None \<Rightarrow> (None, c)
       | Some q \<Rightarrow> (let c' = set_position q c in (current_inst c', c'))) (prev_inst_position c)"

section \<open>Editing\<close>

definition cur_insert_inst :: "instr \<Rightarrow> func_cursor \<Rightarrow> func_cursor option" where
  "cur_insert_inst i c =
     map_option (\<lambda>l. c\<lparr>cur_layout := l\<rparr>)
       (case cur_pos c of
          Nowhere \<Rightarrow> None
        | Before _ \<Rightarrow> None
        | At j \<Rightarrow> insert_inst i j (cur_layout c)
        | After b \<Rightarrow> append_inst i b (cur_layout c))"

definition cur_remove_inst :: "func_cursor \<Rightarrow> (instr \<times> func_cursor) option" where
  "cur_remove_inst c = do {
     i \<leftarrow> current_inst c;
     (_, c) \<leftarrow> cur_next_inst c;
     l \<leftarrow> remove_inst i (cur_layout c);
     Some (i, c\<lparr>cur_layout := l\<rparr>)
   }"

definition remove_inst_and_step_back :: "func_cursor \<Rightarrow> (instr \<times> func_cursor) option" where
  "remove_inst_and_step_back c = do {
     i \<leftarrow> current_inst c;
     (_, c) \<leftarrow> cur_prev_inst c;
     l \<leftarrow> remove_inst i (cur_layout c);
     Some (i, c\<lparr>cur_layout := l\<rparr>)
   }"

definition replace_inst :: "instr \<Rightarrow> func_cursor \<Rightarrow> (instr \<times> func_cursor) option" where
  "replace_inst new c = do {
     (old, c) \<leftarrow> cur_remove_inst c;
     c \<leftarrow> cur_insert_inst new c;
     Some (old, c)
   }"

definition cur_insert_block :: "block \<Rightarrow> func_cursor \<Rightarrow> func_cursor option" where
  "cur_insert_block n c =
     (case cur_pos c of
        At i \<Rightarrow> map_option (\<lambda>l. c\<lparr>cur_layout := l\<rparr>) (split_block n i (cur_layout c))
      | Nowhere \<Rightarrow> map_option (\<lambda>l. set_position (After n) (c\<lparr>cur_layout := l\<rparr>)) (append_block n (cur_layout c))
      | Before b \<Rightarrow> map_option (\<lambda>l. set_position (After n) (c\<lparr>cur_layout := l\<rparr>)) (insert_block n b (cur_layout c))
      | After b \<Rightarrow> map_option (\<lambda>l. set_position (After n) (c\<lparr>cur_layout := l\<rparr>)) (insert_block_after n b (cur_layout c)))"

text \<open>An instruction inserted by a builder takes the location of the cursor.\<close>

definition insert_built_inst :: "instr \<Rightarrow> func_cursor \<Rightarrow> func_cursor option" where
  "insert_built_inst i c = do {
     c \<leftarrow> cur_insert_inst i c;
     Some (if srcloc_is_default (cur_loc c) then c
       else c\<lparr>cur_srclocs := set_inst_srcloc i (cur_loc c) (cur_srclocs c)\<rparr>)
   }"

definition insert_aux_inst :: "instr \<Rightarrow> func_cursor \<Rightarrow> func_cursor option" where
  "insert_aux_inst i c = do {
     c \<leftarrow> cur_insert_inst i c;
     Some (if srcloc_is_default (cur_loc c) then c
       else c\<lparr>cur_srclocs := set_inst_srcloc i (cur_loc c) (cur_srclocs c)\<rparr>)
   }"

text \<open>The two loops of the documentation of \<open>next_block\<close> and \<open>prev_block\<close>, collecting what they visit.\<close>

partial_function (option) walk_insts ::
  "(func_cursor \<Rightarrow> (instr option \<times> func_cursor) option) \<Rightarrow> func_cursor \<Rightarrow> (instr list \<times> func_cursor) option" where
  "walk_insts step c =
     step c \<bind> (\<lambda>(r, c).
       case r of
         None \<Rightarrow> Some ([], c)
       | Some i \<Rightarrow> walk_insts step c \<bind> (\<lambda>(xs, c). Some (i # xs, c)))"

partial_function (option) walk_blocks ::
  "(func_cursor \<Rightarrow> block option \<times> func_cursor) \<Rightarrow> (func_cursor \<Rightarrow> (instr option \<times> func_cursor) option) \<Rightarrow> func_cursor
   \<Rightarrow> (block \<times> instr list) list option" where
  "walk_blocks bstep istep c =
     (case bstep c of
        (None, _) \<Rightarrow> Some []
      | (Some b, c) \<Rightarrow> walk_insts istep c \<bind> (\<lambda>(xs, c).
          walk_blocks bstep istep c \<bind> (\<lambda>r. Some ((b, xs) # r))))"

section \<open>Visiting\<close>

lemma set_position_sel [simp]:
  "cur_pos (set_position p c) = p" "cur_layout (set_position p c) = cur_layout c" "set_position q (set_position p c) = set_position q c"
  "cur_srclocs (set_position p c) = cur_srclocs c" "cur_loc (set_position p c) = cur_loc c"
  by (simp_all add: set_position_def)

lemma layout_rel_inst_links:
  assumes "layout_rel l bs is" "is b = xs @ i # ys"
  shows "inst_block l i = Some b" "prev_inst l i = last_or None xs" "next_inst l i = hd_or ys None"
proof -
  have ok: "insts_ok l is" using assms(1) by (simp add: layout_rel_def)
  show "inst_block l i = Some b" using inst_block_rel [OF assms(1)] assms(2) by simp
  show "prev_inst l i = last_or None xs" "next_inst l i = hd_or ys None"
    using ring_middle [of _ _ _ _ xs i ys] insts_okD(1) [OF ok, of b] assms(2) by (simp_all add: prev_inst_def next_inst_def)
qed

lemma layout_rel_inst_ends:
  assumes "layout_rel l bs is" shows "first_inst l b = hd_or (is b) None" "last_inst l b = last_or None (is b)"
  using assms by (auto simp: layout_rel_def insts_ok_def ring_def first_inst_def last_inst_def)

text \<open>Where a cursor stands between two parts of a block: on an instruction, or at an end.\<close>

definition pos_next :: "block \<Rightarrow> instr list \<Rightarrow> cursor_position" where
  "pos_next b ys = (case ys of i # _ \<Rightarrow> At i | [] \<Rightarrow> After b)"

definition pos_prev :: "block \<Rightarrow> instr list \<Rightarrow> cursor_position" where
  "pos_prev b xs = (if xs = [] then Before b else At (last xs))"

lemma next_step:
  assumes l: "layout_rel l bs is" "cur_layout c = l" and b: "is b = xs @ ys" "cur_pos c = pos_prev b xs"
  shows "cur_next_inst c = Some (hd_or ys None, set_position (pos_next b ys) c)"
proof (cases xs rule: rev_cases)
  case Nil
  then show ?thesis using assms layout_rel_inst_ends(1) [OF l(1), of b]
    by (cases ys) (simp_all add: cur_next_inst_def next_inst_position_def pos_prev_def pos_next_def current_inst_def)
next
  case (snoc zs i)
  then have "is b = zs @ i # ys" using b by simp
  from layout_rel_inst_links [OF l(1) this] snoc assms(2) b(2) show ?thesis
    by (cases ys) (simp_all add: cur_next_inst_def next_inst_position_def pos_prev_def pos_next_def current_inst_def)
qed

lemma prev_step:
  assumes l: "layout_rel l bs is" "cur_layout c = l" and b: "is b = xs @ ys" "cur_pos c = pos_next b ys"
  shows "cur_prev_inst c = Some (last_or None xs, set_position (pos_prev b xs) c)"
proof (cases ys)
  case Nil
  then show ?thesis using assms layout_rel_inst_ends(2) [OF l(1), of b]
    by (cases xs rule: rev_cases) (simp_all add: cur_prev_inst_def prev_inst_position_def pos_prev_def pos_next_def current_inst_def)
next
  case (Cons i zs)
  from layout_rel_inst_links [OF l(1) b(1) [unfolded Cons]] Cons assms(2) b(2) show ?thesis
    by (cases xs rule: rev_cases) (simp_all add: cur_prev_inst_def prev_inst_position_def pos_prev_def pos_next_def current_inst_def)
qed

lemma walk_next:
  assumes l: "layout_rel (cur_layout c) bs is"
  shows "is b = xs @ ys \<Longrightarrow> cur_pos c = pos_prev b xs \<Longrightarrow> walk_insts cur_next_inst c = Some (ys, set_position (After b) c)"
  using l
proof (induction ys arbitrary: xs c)
  case Nil
  then show ?case using next_step [OF Nil.prems(3) refl Nil.prems(1,2)] by (subst walk_insts.simps) (simp add: pos_next_def)
next
  case (Cons y ys)
  have step: "cur_next_inst c = Some (Some y, set_position (At y) c)"
    using next_step [OF Cons.prems(3) refl Cons.prems(1,2)] by (simp add: pos_next_def)
  have "walk_insts cur_next_inst (set_position (At y) c) = Some (ys, set_position (After b) c)"
    using Cons.IH [of "xs @ [y]" "set_position (At y) c"] Cons.prems(1,3) by (simp add: pos_prev_def)
  then show ?case by (subst walk_insts.simps) (simp add: step)
qed

lemma walk_prev:
  assumes l: "layout_rel (cur_layout c) bs is"
  shows "is b = xs @ ys \<Longrightarrow> cur_pos c = pos_next b ys \<Longrightarrow> walk_insts cur_prev_inst c = Some (rev xs, set_position (Before b) c)"
  using l
proof (induction xs arbitrary: ys c rule: rev_induct)
  case Nil
  then show ?case using prev_step [OF Nil.prems(3) refl Nil.prems(1,2)] by (subst walk_insts.simps) (simp add: pos_prev_def)
next
  case (snoc x xs)
  have step: "cur_prev_inst c = Some (Some x, set_position (At x) c)"
    using prev_step [OF snoc.prems(3) refl snoc.prems(1,2)] by (simp add: pos_prev_def)
  have "walk_insts cur_prev_inst (set_position (At x) c) = Some (rev xs, set_position (Before b) c)"
    using snoc.IH [of "x # ys" "set_position (At x) c"] snoc.prems(1,3) by (simp add: pos_next_def)
  then show ?case by (subst walk_insts.simps) (simp add: step)
qed

lemma next_block_step:
  assumes l: "layout_rel (cur_layout c) (xs @ ys) is" and c: "current_block c = last_or None xs"
  shows "cur_next_block c = (hd_or ys None, set_position (case ys of b # _ \<Rightarrow> Before b | [] \<Rightarrow> Nowhere) c)"
proof -
  have "(case current_block c of Some b \<Rightarrow> next_block (cur_layout c) b | None \<Rightarrow> entry_block (cur_layout c)) = hd_or ys None"
    using layout_rel_block_links(2) [of "cur_layout c" "butlast xs" "last xs" ys "is"] layout_rel_ends(1) [OF l] l c
    by (cases xs rule: rev_cases) (simp_all add: next_block_def entry_block_def)
  then show ?thesis by (cases ys) (simp_all add: cur_next_block_def next_block_position_def current_block_def)
qed

lemma prev_block_step:
  assumes l: "layout_rel (cur_layout c) (xs @ ys) is" and c: "current_block c = hd_or ys None"
  shows "cur_prev_block c = (last_or None xs, set_position (if xs = [] then Nowhere else After (last xs)) c)"
proof -
  have "(case current_block c of Some b \<Rightarrow> prev_block (cur_layout c) b | None \<Rightarrow> last_block (cur_layout c)) = last_or None xs"
    using layout_rel_block_links(1) [of "cur_layout c" xs "hd ys" "tl ys" "is"] layout_rel_ends(2) [OF l] l c
    by (cases ys) (simp_all add: prev_block_def)
  then show ?thesis
    by (cases xs rule: rev_cases) (simp_all add: cur_prev_block_def prev_block_position_def current_block_def)
qed

lemma walk_blocks_next:
  "layout_rel (cur_layout c) (xs @ ys) is \<Longrightarrow> current_block c = last_or None xs \<Longrightarrow>
   walk_blocks cur_next_block cur_next_inst c = Some (map (\<lambda>b. (b, is b)) ys)"
proof (induction ys arbitrary: xs c)
  case Nil
  then show ?case using next_block_step [OF Nil.prems] by (subst walk_blocks.simps) simp
next
  case (Cons b ys)
  let ?c = "set_position (Before b) c"
  have step: "cur_next_block c = (Some b, ?c)" using next_block_step [OF Cons.prems] by simp
  have "walk_insts cur_next_inst ?c = Some (is b, set_position (After b) c)"
    using walk_next [of ?c "xs @ b # ys" "is" b "[]" "is b"] Cons.prems(1) by (simp add: pos_prev_def)
  moreover have "walk_blocks cur_next_block cur_next_inst (set_position (After b) c) = Some (map (\<lambda>b. (b, is b)) ys)"
    using Cons.IH [of "set_position (After b) c" "xs @ [b]"] Cons.prems(1) by (simp add: current_block_def)
  ultimately show ?case by (subst walk_blocks.simps) (simp add: step)
qed

lemma walk_blocks_prev:
  "layout_rel (cur_layout c) (xs @ ys) is \<Longrightarrow> current_block c = hd_or ys None \<Longrightarrow>
   walk_blocks cur_prev_block cur_prev_inst c = Some (map (\<lambda>b. (b, rev (is b))) (rev xs))"
proof (induction xs arbitrary: ys c rule: rev_induct)
  case Nil
  then show ?case using prev_block_step [OF Nil.prems] by (subst walk_blocks.simps) simp
next
  case (snoc b xs)
  let ?c = "set_position (After b) c"
  have step: "cur_prev_block c = (Some b, ?c)" using prev_block_step [OF snoc.prems] by simp
  have "walk_insts cur_prev_inst ?c = Some (rev (is b), set_position (Before b) c)"
    using walk_prev [of ?c "xs @ b # ys" "is" b "is b" "[]"] snoc.prems(1) by (simp add: pos_next_def)
  moreover have "walk_blocks cur_prev_block cur_prev_inst (set_position (Before b) c) = Some (map (\<lambda>b. (b, rev (is b))) (rev xs))"
    using snoc.IH [of "set_position (Before b) c" "b # ys"] snoc.prems(1) by (simp add: current_block_def)
  ultimately show ?case by (subst walk_blocks.simps) (simp add: step)
qed

section \<open>Inserting and replacing\<close>

lemma fresh_keeps:
  assumes "layout_rel l bs is" "layout_rel l' bs (is(b := zs))" "set zs \<subseteq> insert i (set (is b))" "inst_block l x = None" "x \<noteq> i"
  shows "inst_block l' x = None"
proof -
  have "x \<notin> set (is c)" for c using inst_block_rel [OF assms(1), of x c] assms(4) by auto
  then have "inst_block l' x \<noteq> Some c" for c using inst_block_rel [OF assms(2), of x c] assms(3,5) by auto
  then show ?thesis by (cases "inst_block l' x") auto
qed

lemma insert_at_pos:
  assumes l: "layout_rel (cur_layout c) bs is" "seq_bounded k (cur_layout c) is" "small_layout (Suc k)"
    and b: "b \<in> set bs" "is b = xs @ ys" "cur_pos c = pos_next b ys" "inst_block (cur_layout c) i = None"
  obtains l' where "cur_insert_inst i c = Some (c\<lparr>cur_layout := l'\<rparr>)" "layout_rel l' bs (is(b := xs @ i # ys))"
    "seq_bounded (Suc k) l' (is(b := xs @ i # ys))"
proof -
  have "refines_op (Suc k) (case cur_pos c of At j \<Rightarrow> insert_inst i j (cur_layout c) | After b \<Rightarrow> append_inst i b (cur_layout c) | _ \<Rightarrow> None)
     (Some (bs, is(b := xs @ i # ys)))"
  proof (cases ys)
    case Nil
    then show ?thesis
      using add_inst_refines(1) [OF l(1,2), of i b] b by (simp add: owner_rel [OF l(1)] pos_next_def)
  next
    case (Cons j zs)
    have "inst_added bs is b (xs @ i # ys) ((LOCAL_LIMIT + MINOR_STRIDE) * Suc k) (cur_layout c) (insert_inst i j (cur_layout c))"
      using insert_inst_added [OF l(1) b(2) [unfolded Cons] b(4) seq_bounded_room [OF l(2)]] Cons by simp
    then show ?thesis using refines_inst_added [OF _ l(2)] b Cons by (simp add: pos_next_def)
  qed
  then obtain l' where "(case cur_pos c of At j \<Rightarrow> insert_inst i j (cur_layout c) | After b \<Rightarrow> append_inst i b (cur_layout c) | _ \<Rightarrow> None) = Some l'"
      "layout_rel l' bs (is(b := xs @ i # ys))" "seq_bounded (Suc k) l' (is(b := xs @ i # ys))"
    by (rule refines_success [OF _ l(3)])
  then show thesis using b(3) by (intro that) (auto simp: cur_insert_inst_def pos_next_def split: list.splits)
qed

fun cur_insert_insts :: "instr list \<Rightarrow> func_cursor \<Rightarrow> func_cursor option" where
  "cur_insert_insts [] c = Some c"
| "cur_insert_insts (i # is) c = cur_insert_inst i c \<bind> cur_insert_insts is"

lemma insert_insts_at_pos:
  assumes "layout_rel (cur_layout c) bs is" "seq_bounded k (cur_layout c) is" "small_layout (k + length new)"
    and "b \<in> set bs" "is b = xs @ ys" "cur_pos c = pos_next b ys"
    and "distinct new" "\<And>i. i \<in> set new \<Longrightarrow> inst_block (cur_layout c) i = None"
  shows "\<exists>l'. cur_insert_insts new c = Some (c\<lparr>cur_layout := l'\<rparr>) \<and> layout_rel l' bs (is(b := xs @ new @ ys))"
  using assms
proof (induction new arbitrary: c "is" k xs)
  case Nil
  then show ?case by (intro exI [of _ "cur_layout c"]) (simp add: fun_upd_idem)
next
  case (Cons i new)
  have "small_layout (Suc k)" using Cons.prems(3) by (rule small_layout_mono) simp
  moreover have i: "inst_block (cur_layout c) i = None" using Cons.prems(8) by simp
  ultimately obtain l1 where l1: "cur_insert_inst i c = Some (c\<lparr>cur_layout := l1\<rparr>)" "layout_rel l1 bs (is(b := xs @ i # ys))"
    "seq_bounded (Suc k) l1 (is(b := xs @ i # ys))"
    by (rule insert_at_pos [OF Cons.prems(1,2) _ Cons.prems(4,5,6)])
  have fresh: "inst_block l1 x = None" if "x \<in> set new" for x
    using fresh_keeps [OF Cons.prems(1) l1(2), of i x] Cons.prems(5,7,8) that by auto
  obtain l' where "cur_insert_insts new (c\<lparr>cur_layout := l1\<rparr>) = Some (c\<lparr>cur_layout := l'\<rparr>)"
      "layout_rel l' bs (is(b := xs @ i # ys, b := (xs @ [i]) @ new @ ys))"
    using Cons.IH [of "c\<lparr>cur_layout := l1\<rparr>" "is(b := xs @ i # ys)" "Suc k" "xs @ [i]"] l1(2,3) fresh Cons.prems(3,4,6,7)
    by (auto simp: fun_upd_def cong: if_cong)
  then show ?case using l1(1) by (intro exI [of _ l']) (simp add: fun_upd_def cong: if_cong)
qed

lemma replace_at_pos:
  assumes l: "layout_rel (cur_layout c) bs is" "seq_bounded k (cur_layout c) is" "small_layout (Suc (Suc k))"
    and b: "is b = xs @ i # ys" "cur_pos c = At i" "inst_block (cur_layout c) new = None"
  obtains l' where "replace_inst new c = Some (i, set_position (pos_next b ys) (c\<lparr>cur_layout := l'\<rparr>))"
    "layout_rel l' bs (is(b := xs @ new # ys))"
proof -
  let ?c = "set_position (pos_next b ys) c" and ?is = "is(b := xs @ ys)"
  have step: "cur_next_inst c = Some (hd_or ys None, ?c)"
    using next_step [OF l(1) refl, of b "xs @ [i]" ys] b(1,2) by (simp add: pos_prev_def)
  obtain l1 where l1: "remove_inst i (cur_layout c) = Some l1" "layout_rel l1 bs ?is" "\<And>x. seq_of l1 x = seq_of (cur_layout c) x"
    using remove_inst_rel [OF l(1) b(1)] by blast
  have sb: "seq_bounded (Suc k) l1 ?is"
    using l(2) l1(3) by (rule seq_bounded_mono) (use b(1) in \<open>auto intro: exI [of _ b]\<close>)
  have removed: "cur_remove_inst c = Some (i, ?c\<lparr>cur_layout := l1\<rparr>)"
    by (simp add: cur_remove_inst_def current_inst_def b(2) step l1(1))
  have "b \<in> set bs" using l(1) b(1) by (auto simp: layout_rel_def)
  moreover have "inst_block l1 new = None"
  proof -
    have "new \<notin> set (is d)" for d using inst_block_rel [OF l(1), of new d] b(3) by auto
    then have "inst_block l1 new \<noteq> Some d" for d using inst_block_rel [OF l1(2), of new d] b(1) by (metis Un_iff fun_upd_apply list.set_intros(2) set_append)
    then show ?thesis by (cases "inst_block l1 new") auto
  qed
  ultimately obtain l' where "cur_insert_inst new (?c\<lparr>cur_layout := l1\<rparr>) = Some (?c\<lparr>cur_layout := l1\<rparr>\<lparr>cur_layout := l'\<rparr>)"
    "layout_rel l' bs (?is(b := xs @ new # ys))"
    using insert_at_pos [of "?c\<lparr>cur_layout := l1\<rparr>" bs ?is "Suc k" b xs ys new] l1(2) sb l(3) by (auto simp: set_position_def)
  then show thesis
    by (intro that [of l']) (simp_all add: replace_inst_def removed set_position_def)
qed

section \<open>Properties\<close>

text \<open>The documented loops over a function visit all of it in order. From a new cursor on a layout made by
  any edits, the nested loops over \<open>next_block\<close> and \<open>next_inst\<close> end and visit every block with all its
  instructions in layout order, and those over \<open>prev_block\<close> and \<open>prev_inst\<close> in the opposite order.\<close>

theorem cursor_walk_visits_layout:
  assumes "run_ops ps layout_new = Some l"
  shows "\<exists>bs is. layout_blocks l = Some bs \<and> (\<forall>b. layout_insts l b = Some (is b)) \<and>
    walk_blocks cur_next_block cur_next_inst (func_cursor_new l f) = Some (map (\<lambda>b. (b, is b)) bs) \<and>
    walk_blocks cur_prev_block cur_prev_inst (func_cursor_new l f) = Some (map (\<lambda>b. (b, rev (is b))) (rev bs))"
proof -
  let ?c = "func_cursor_new l f"
  obtain bs "is" where l: "layout_rel l bs is" using run_ops_rel [OF assms] by metis
  have c: "cur_layout ?c = l" "current_block ?c = None" by (simp_all add: func_cursor_new_def current_block_def)
  show ?thesis
    using layout_blocks_rel [OF l] layout_insts_rel [OF l] walk_blocks_next [of ?c "[]" bs "is"]
      walk_blocks_prev [of ?c bs "[]" "is"] l c by (intro exI [of _ bs] exI [of _ "is"]) simp
qed

theorem cursor_walk_visits_layout_witness:
  "run_ops demo_edits layout_new = Some demo_layout \<and>
   walk_blocks cur_next_block cur_next_inst (func_cursor_new demo_layout func_srclocs_new) = Some [(0, [0]), (1, [2, 1])]"
proof -
  have "layout_blocks demo_layout = Some [0, 1]" "layout_insts demo_layout 0 = Some [0]"
    by (simp_all add: demo_layout_def demo_edits_def layout_eval layout_insts_def block_insts_def drain.simps insts_next_def
        layout_blocks_def blocks_next_def)
  then show ?thesis
    using cursor_walk_visits_layout [OF demo_layout_run, of func_srclocs_new] demo_layout_run demo_layout_insts by auto
qed

text \<open>Instructions inserted at a cursor come out in program order. At a cursor on an instruction, or at the
  bottom of a block, inserting fresh instructions one after the other puts them in that order before the
  cursor, leaves the cursor where it is, and touches no other block.\<close>

theorem cursor_inserts_in_order:
  assumes "run_ops ps layout_new = Some (cur_layout c)" "202 * (length ps + length new) + 10 \<le> 0xFFFFFFFF"
    and "is_block_inserted (cur_layout c) b" "layout_insts (cur_layout c) b = Some (xs @ ys)" "cur_pos c = pos_next b ys"
    and "distinct new" "\<And>i. i \<in> set new \<Longrightarrow> inst_block (cur_layout c) i = None"
  shows "\<exists>l. cur_insert_insts new c = Some (c\<lparr>cur_layout := l\<rparr>) \<and> layout_insts l b = Some (xs @ new @ ys) \<and>
    (\<forall>d. d \<noteq> b \<longrightarrow> layout_insts l d = layout_insts (cur_layout c) d) \<and> layout_blocks l = layout_blocks (cur_layout c)"
proof -
  obtain bs "is" where l: "layout_rel (cur_layout c) bs is" "seq_bounded (length ps) (cur_layout c) is"
    using run_ops_rel [OF assms(1)] by metis
  have b: "b \<in> set bs" "is b = xs @ ys"
    using layout_rel_inserted [OF l(1)] layout_insts_rel [OF l(1), of b] assms(3,4) by simp_all
  have "small_layout (length ps + length new)"
    using assms(2) by (simp add: small_layout_def LOCAL_LIMIT_def MINOR_STRIDE_def MAJOR_STRIDE_def SEQ_MAX_def)
  then obtain l' where l': "cur_insert_insts new c = Some (c\<lparr>cur_layout := l'\<rparr>)" "layout_rel l' bs (is(b := xs @ new @ ys))"
    using insert_insts_at_pos [OF l _ b assms(5,6,7)] by blast
  show ?thesis
    using l'(1) layout_insts_rel [OF l'(2)] layout_blocks_rel [OF l'(2)] layout_insts_rel [OF l(1)] layout_blocks_rel [OF l(1)]
    by (intro exI [of _ l']) simp
qed

theorem cursor_inserts_in_order_witness:
  "\<exists>l. cur_insert_insts [7, 8] (set_position (At 1) (func_cursor_new demo_layout func_srclocs_new)) =
     Some (set_position (At 1) (func_cursor_new l func_srclocs_new)) \<and> layout_insts l 1 = Some [2, 7, 8, 1]"
proof -
  let ?c = "set_position (At 1) (func_cursor_new demo_layout func_srclocs_new)"
  have "is_block_inserted demo_layout 1" "inst_block demo_layout 7 = None" "inst_block demo_layout 8 = None"
    by (simp_all add: demo_layout_def demo_edits_def layout_eval)
  then have "\<exists>l. cur_insert_insts [7, 8] ?c = Some (?c\<lparr>cur_layout := l\<rparr>) \<and> layout_insts l 1 = Some [2, 7, 8, 1]"
    using cursor_inserts_in_order [of demo_edits ?c "[7, 8]" 1 "[2]" "[1]"] demo_layout_run demo_layout_insts
    by (auto simp: func_cursor_new_def pos_next_def demo_edits_def)
  then show ?thesis by (auto simp: func_cursor_new_def set_position_def)
qed

text \<open>C19: replacing the instruction under a cursor puts the new one in its place: the old instruction is
  returned and no longer in the layout, the block reads the same with the new instruction in its place, and
  the cursor stands on what follows it. The documentation of \<open>replace_inst\<close> says that the cursor is left
  pointing at the new instruction; it is left one position further, on the next instruction or at the bottom of
  the block.\<close>

theorem cursor_replaces_in_place:
  assumes "run_ops ps layout_new = Some (cur_layout c)" "202 * (length ps + 2) + 10 \<le> 0xFFFFFFFF"
    and "layout_insts (cur_layout c) b = Some (xs @ i # ys)" "cur_pos c = At i" "inst_block (cur_layout c) new = None"
  shows "\<exists>l. replace_inst new c = Some (i, set_position (pos_next b ys) (c\<lparr>cur_layout := l\<rparr>)) \<and>
    layout_insts l b = Some (xs @ new # ys) \<and> inst_block l new = Some b \<and> inst_block l i = None"
proof -
  obtain bs "is" where l: "layout_rel (cur_layout c) bs is" "seq_bounded (length ps) (cur_layout c) is"
    using run_ops_rel [OF assms(1)] by metis
  have b: "is b = xs @ i # ys" using layout_insts_rel [OF l(1), of b] assms(3) by simp
  have "small_layout (Suc (Suc (length ps)))"
    using assms(2) by (simp add: small_layout_def LOCAL_LIMIT_def MINOR_STRIDE_def MAJOR_STRIDE_def SEQ_MAX_def)
  then obtain l' where l': "replace_inst new c = Some (i, set_position (pos_next b ys) (c\<lparr>cur_layout := l'\<rparr>))"
    "layout_rel l' bs (is(b := xs @ new # ys))"
    by (rule replace_at_pos [OF l _ b assms(4,5)])
  have "inst_block l' i = None"
  proof -
    have "i \<noteq> new" using inst_block_rel [OF l(1), of i b] b assms(5) by auto
    moreover have "i \<notin> set xs" "i \<notin> set ys" using layout_rel_distinct(2) [OF l(1), of b] b by simp_all
    moreover have "i \<notin> set (is d)" if "d \<noteq> b" for d using layout_rel_disjoint [OF l(1) that] b by auto
    ultimately have "inst_block l' i \<noteq> Some d" for d using inst_block_rel [OF l'(2), of i d] by (cases "d = b") auto
    then show ?thesis by (cases "inst_block l' i") auto
  qed
  then show ?thesis
    using l'(1) layout_insts_rel [OF l'(2), of b] inst_block_rel [OF l'(2), of new b] by (intro exI [of _ l']) simp
qed

theorem cursor_replaces_in_place_witness:
  "\<exists>l. replace_inst 7 (set_position (At 2) (func_cursor_new demo_layout func_srclocs_new)) =
     Some (2, set_position (At 1) (func_cursor_new l func_srclocs_new)) \<and> layout_insts l 1 = Some [7, 1]"
proof -
  let ?c = "set_position (At 2) (func_cursor_new demo_layout func_srclocs_new)"
  have "inst_block demo_layout 7 = None" by (simp add: demo_layout_def demo_edits_def layout_eval)
  then have "\<exists>l. replace_inst 7 ?c = Some (2, set_position (At 1) (?c\<lparr>cur_layout := l\<rparr>)) \<and> layout_insts l 1 = Some [7, 1]"
    using cursor_replaces_in_place [of demo_edits ?c 1 "[]" 2 "[1]" 7] demo_layout_run demo_layout_insts
    by (auto simp: func_cursor_new_def pos_next_def demo_edits_def)
  then show ?thesis by (auto simp: func_cursor_new_def set_position_def)
qed

end
