(* ===== verification/Entity_List.thy ===== *)
theory Entity_List
  imports Prelude
begin

text \<open>
  Lists of entity references in a shared pool, \<open>src/cranelift/entity/src/list.rs\<close>: value lists of instructions
  and block parameters live here. A list is a 32-bit index into the vector of the pool; a list in use is a block
  whose first word is the length, and blocks whose sizes are powers of two are recycled through free lists that
  are threaded through the vector itself.

  An entity is modelled by its index; \<open>None\<close> is a panic, of a bounds check or of an assertion.
\<close>

section \<open>Entities and slices\<close>

definition reserved_value :: nat where "reserved_value = 2 ^ 32 - 1"

definition entity_new :: "nat \<Rightarrow> nat option" where
  "entity_new i = (if i < 2 ^ 32 - 1 then Some i else None)"

definition vec_get :: "'a list \<Rightarrow> nat \<Rightarrow> 'a option" where
  "vec_get xs i = (if i < length xs then Some (xs ! i) else None)"

definition vec_set :: "'a list \<Rightarrow> nat \<Rightarrow> 'a \<Rightarrow> 'a list option" where
  "vec_set xs i v = (if i < length xs then Some (xs[i := v]) else None)"

definition write_at :: "'a list \<Rightarrow> nat \<Rightarrow> 'a list \<Rightarrow> 'a list" where
  "write_at xs i ys = take i xs @ ys @ drop (i + length ys) xs"

text \<open>\<open>&xs[i..i + n]\<close>, \<open>copy_from_slice\<close> and \<open>copy_within\<close>.\<close>

definition sub_slice :: "'a list \<Rightarrow> nat \<Rightarrow> nat \<Rightarrow> 'a list option" where
  "sub_slice xs i n = (if i + n \<le> length xs then Some (take n (drop i xs)) else None)"

definition copy_within :: "'a list \<Rightarrow> nat \<Rightarrow> nat \<Rightarrow> nat \<Rightarrow> 'a list option" where
  "copy_within xs start stop dest =
     (if start \<le> stop \<and> stop \<le> length xs \<and> dest + (stop - start) \<le> length xs
      then Some (write_at xs dest (take (stop - start) (drop start xs))) else None)"

section \<open>Size classes\<close>

definition sclass_size :: "nat \<Rightarrow> nat" where
  "sclass_size sclass = 4 * 2 ^ sclass"

definition sclass_for_length :: "nat \<Rightarrow> nat" where
  "sclass_for_length len = unat (30 - clz32 (word_of_nat len OR 3))"

definition is_sclass_min_length :: "nat \<Rightarrow> bool" where
  "is_sclass_min_length len = (3 < len \<and> (\<exists>k \<in> set [0..<Suc len]. len = 2 ^ k))"

section \<open>The pool\<close>

record list_pool =
  pool_data :: "nat list"
  pool_free :: "nat list"

definition pool_new :: list_pool where
  "pool_new = \<lparr>pool_data = [], pool_free = []\<rparr>"

definition pool_clear :: "list_pool \<Rightarrow> list_pool" where
  "pool_clear p = p\<lparr>pool_data := [], pool_free := []\<rparr>"

definition pool_eq :: "list_pool \<Rightarrow> list_pool \<Rightarrow> bool" where
  "pool_eq p q = (pool_data p = pool_data q)"

text \<open>The subtraction wraps at the empty list, whose length field is then out of range.\<close>

definition len_of :: "nat \<Rightarrow> list_pool \<Rightarrow> nat option" where
  "len_of l p = (if l = 0 then None else vec_get (pool_data p) (l - 1))"

definition pool_grow :: "nat \<Rightarrow> list_pool \<Rightarrow> nat \<times> list_pool" where
  "pool_grow sclass p =
     (length (pool_data p), p\<lparr>pool_data := pool_data p @ replicate (sclass_size sclass) reserved_value\<rparr>)"

definition pool_alloc :: "nat \<Rightarrow> list_pool \<Rightarrow> (nat \<times> list_pool) option" where
  "pool_alloc sclass p =
     (case vec_get (pool_free p) sclass of
        Some head \<Rightarrow>
          if 0 < head then do {
            nxt \<leftarrow> vec_get (pool_data p) head;
            Some (head - 1, p\<lparr>pool_free := (pool_free p)[sclass := nxt]\<rparr>)
          } else Some (pool_grow sclass p)
      | None \<Rightarrow> Some (pool_grow sclass p))"

definition pool_free_block :: "nat \<Rightarrow> nat \<Rightarrow> list_pool \<Rightarrow> list_pool option" where
  "pool_free_block block sclass p = do {
     let heads = (if length (pool_free p) \<le> sclass
       then pool_free p @ replicate (sclass + 1 - length (pool_free p)) 0 else pool_free p);
     z \<leftarrow> entity_new 0;
     d \<leftarrow> vec_set (pool_data p) block z;
     n \<leftarrow> entity_new (heads ! sclass);
     d \<leftarrow> vec_set d (block + 1) n;
     Some (p\<lparr>pool_data := d, pool_free := heads[sclass := block + 1]\<rparr>)
   }"

text \<open>The tails of the vector at the two blocks, cut where the later one begins.\<close>

definition mut_slices :: "nat \<Rightarrow> nat \<Rightarrow> nat list \<Rightarrow> (nat list \<times> nat list) option" where
  "mut_slices block0 block1 d =
     (if block0 < block1 then do {
        assert_that (block1 \<le> length d);
        Some (drop block0 (take block1 d), drop block1 d)
      } else do {
        assert_that (block0 \<le> length d);
        Some (drop block0 d, drop block1 (take block0 d))
      })"

definition pool_realloc :: "nat \<Rightarrow> nat \<Rightarrow> nat \<Rightarrow> nat \<Rightarrow> list_pool \<Rightarrow> (nat \<times> list_pool) option" where
  "pool_realloc block from_sclass to_sclass elems_to_copy p = do {
     assert_that (elems_to_copy \<le> sclass_size from_sclass);
     assert_that (elems_to_copy \<le> sclass_size to_sclass);
     (new_block, p) \<leftarrow> pool_alloc to_sclass p;
     d \<leftarrow> (if 0 < elems_to_copy then do {
         (old, new) \<leftarrow> mut_slices block new_block (pool_data p);
         assert_that (elems_to_copy \<le> length new \<and> elems_to_copy \<le> length old);
         Some (write_at (pool_data p) new_block (take elems_to_copy old))
       } else Some (pool_data p));
     p \<leftarrow> pool_free_block block from_sclass (p\<lparr>pool_data := d\<rparr>);
     Some (new_block, p)
   }"

section \<open>Reading a list\<close>

definition list_index :: "nat \<Rightarrow> nat" where
  "list_index block = (block + 1) mod 2 ^ 32"

definition list_new :: nat where "list_new = 0"

definition from_slice :: "nat list \<Rightarrow> list_pool \<Rightarrow> (nat \<times> list_pool) option" where
  "from_slice xs p =
     (if length xs = 0 then Some (list_new, p)
      else do {
        (block, p) \<leftarrow> pool_alloc (sclass_for_length (length xs)) p;
        n \<leftarrow> entity_new (length xs);
        d \<leftarrow> vec_set (pool_data p) block n;
        assert_that (block + 1 + length xs \<le> length d);
        Some (list_index block, p\<lparr>pool_data := write_at d (block + 1) xs\<rparr>)
      })"

definition list_is_empty :: "nat \<Rightarrow> bool" where "list_is_empty l = (l = 0)"

definition list_len :: "nat \<Rightarrow> list_pool \<Rightarrow> nat" where
  "list_len l p = (case len_of l p of Some n \<Rightarrow> n | None \<Rightarrow> 0)"

definition list_is_valid :: "nat \<Rightarrow> list_pool \<Rightarrow> bool" where
  "list_is_valid l p = (list_is_empty l \<or> len_of l p \<noteq> None)"

definition as_slice :: "nat \<Rightarrow> list_pool \<Rightarrow> nat list option" where
  "as_slice l p = (case len_of l p of None \<Rightarrow> Some [] | Some len \<Rightarrow> sub_slice (pool_data p) l len)"

definition list_get :: "nat \<Rightarrow> nat \<Rightarrow> list_pool \<Rightarrow> nat option option" where
  "list_get l index p = do { s \<leftarrow> as_slice l p; Some (vec_get s index) }"

definition list_first :: "nat \<Rightarrow> list_pool \<Rightarrow> nat option option" where
  "list_first l p = (if list_is_empty l then Some None else map_option Some (vec_get (pool_data p) l))"

text \<open>A write through \<open>as_mut_slice\<close>, and an assignment through \<open>get_mut\<close> when the element exists.\<close>

definition put_slice :: "nat \<Rightarrow> nat list \<Rightarrow> list_pool \<Rightarrow> list_pool" where
  "put_slice l s p = p\<lparr>pool_data := write_at (pool_data p) l s\<rparr>"

definition list_set :: "nat \<Rightarrow> nat \<Rightarrow> nat \<Rightarrow> list_pool \<Rightarrow> list_pool option option" where
  "list_set l index v p = do {
     s \<leftarrow> as_slice l p;
     Some (if index < length s then Some (put_slice l (s[index := v]) p) else None)
   }"

section \<open>Growing and shrinking\<close>

definition deep_clone :: "nat \<Rightarrow> list_pool \<Rightarrow> (nat \<times> list_pool) option" where
  "deep_clone l p =
     (case len_of l p of
        None \<Rightarrow> Some (list_new, p)
      | Some len \<Rightarrow> do {
          (block, p) \<leftarrow> pool_alloc (sclass_for_length len) p;
          n \<leftarrow> entity_new len;
          d \<leftarrow> vec_set (pool_data p) block n;
          d \<leftarrow> copy_within d l (l + len) (block + 1);
          Some (list_index block, p\<lparr>pool_data := d\<rparr>)
        })"

definition list_clear :: "nat \<Rightarrow> list_pool \<Rightarrow> (nat \<times> list_pool) option" where
  "list_clear l p = do {
     p \<leftarrow> (case len_of l p of
         None \<Rightarrow> do { assert_that (l = 0); Some p }
       | Some len \<Rightarrow> pool_free_block (l - 1) (sclass_for_length len) p);
     Some (0, p)
   }"

text \<open>The list left behind and the list taken.\<close>

definition list_take :: "nat \<Rightarrow> nat \<times> nat" where
  "list_take l = (list_new, l)"

definition push :: "nat \<Rightarrow> nat \<Rightarrow> list_pool \<Rightarrow> (nat \<times> nat \<times> list_pool) option" where
  "push l x p =
     (case len_of l p of
        None \<Rightarrow> do {
          assert_that (l = 0);
          (block, p) \<leftarrow> pool_alloc (sclass_for_length 1) p;
          n \<leftarrow> entity_new 1;
          d \<leftarrow> vec_set (pool_data p) block n;
          d \<leftarrow> vec_set d (block + 1) x;
          Some (0, list_index block, p\<lparr>pool_data := d\<rparr>)
        }
      | Some len \<Rightarrow> do {
          let new_len = len + 1;
          (block, l, p) \<leftarrow> (if is_sclass_min_length new_len then do {
              (block, p) \<leftarrow> pool_realloc (l - 1) (sclass_for_length len) (sclass_for_length len + 1) (len + 1) p;
              Some (block, list_index block, p)
            } else Some (l - 1, l, p));
          d \<leftarrow> vec_set (pool_data p) (block + new_len) x;
          n \<leftarrow> entity_new new_len;
          d \<leftarrow> vec_set d block n;
          Some (len, l, p\<lparr>pool_data := d\<rparr>)
        })"

text \<open>The result is the list, the length of the slice that is handed out, and the pool.\<close>

definition grow :: "nat \<Rightarrow> nat \<Rightarrow> list_pool \<Rightarrow> (nat \<times> nat \<times> list_pool) option" where
  "grow l count p =
     (case len_of l p of
        None \<Rightarrow> do {
          assert_that (l = 0);
          (if count = 0 then Some (l, 0, p)
           else do {
             (block, p) \<leftarrow> pool_alloc (sclass_for_length count) p;
             n \<leftarrow> entity_new count;
             d \<leftarrow> vec_set (pool_data p) block n;
             assert_that (block + 1 + count \<le> length d);
             Some (list_index block, count, p\<lparr>pool_data := d\<rparr>)
           })
        }
      | Some len \<Rightarrow> do {
          let sclass = sclass_for_length len;
          let new_len = len + count;
          let new_sclass = sclass_for_length new_len;
          (block, l, p) \<leftarrow> (if new_sclass \<noteq> sclass then do {
              (block, p) \<leftarrow> pool_realloc (l - 1) sclass new_sclass (len + 1) p;
              Some (block, list_index block, p)
            } else Some (l - 1, l, p));
          n \<leftarrow> entity_new new_len;
          d \<leftarrow> vec_set (pool_data p) block n;
          assert_that (block + 1 + new_len \<le> length d);
          Some (l, new_len, p\<lparr>pool_data := d\<rparr>)
        })"

fun push_all :: "nat \<Rightarrow> nat list \<Rightarrow> list_pool \<Rightarrow> (nat \<times> list_pool) option" where
  "push_all l [] p = Some (l, p)"
| "push_all l (x # xs) p = do { (_, l, p) \<leftarrow> push l x p; push_all l xs p }"

text \<open>\<open>exact\<close>: the bounds of the iterator agree, as they do for slices.\<close>

definition list_extend :: "bool \<Rightarrow> nat \<Rightarrow> nat list \<Rightarrow> list_pool \<Rightarrow> (nat \<times> list_pool) option" where
  "list_extend exact l xs p =
     (if exact then do {
        (l, n, p) \<leftarrow> grow l (length xs) p;
        s \<leftarrow> sub_slice (pool_data p) l n;
        assert_that (length xs \<le> length s);
        Some (l, put_slice l (write_at s (length s - length xs) xs) p)
      } else push_all l xs p)"

definition from_iter :: "bool \<Rightarrow> nat list \<Rightarrow> list_pool \<Rightarrow> (nat \<times> list_pool) option" where
  "from_iter exact xs p = list_extend exact list_new xs p"

text \<open>The loop of \<open>grow_at\<close>: the last \<open>n\<close> elements from \<open>lo\<close> on, from the end.\<close>

fun move_up :: "nat \<Rightarrow> nat \<Rightarrow> nat \<Rightarrow> 'a list \<Rightarrow> 'a list" where
  "move_up count lo 0 s = s"
| "move_up count lo (Suc n) s = move_up count lo n (s[lo + n := s ! (lo + n - count)])"

definition grow_at :: "nat \<Rightarrow> nat \<Rightarrow> nat \<Rightarrow> list_pool \<Rightarrow> (nat \<times> list_pool) option" where
  "grow_at l index count p = do {
     (l, n, p) \<leftarrow> grow l count p;
     s \<leftarrow> sub_slice (pool_data p) l n;
     Some (l, put_slice l (move_up count (index + count) (length s - (index + count)) s) p)
   }"

datatype bound = Included nat | Excluded nat | Unbounded

definition start_of :: "bound \<Rightarrow> nat" where
  "start_of b = (case b of Included x \<Rightarrow> x | Excluded x \<Rightarrow> x + 1 | Unbounded \<Rightarrow> 0)"

definition end_of :: "bound \<Rightarrow> nat \<Rightarrow> nat" where
  "end_of b other_len = (case b of Included x \<Rightarrow> x + 1 | Excluded x \<Rightarrow> x | Unbounded \<Rightarrow> other_len)"

definition copy_from :: "nat \<Rightarrow> nat \<Rightarrow> bound \<Rightarrow> bound \<Rightarrow> nat \<Rightarrow> list_pool \<Rightarrow> (nat \<times> list_pool) option" where
  "copy_from l other lo hi index p = do {
     assert_that (index \<le> list_len l p);
     assert_that (l \<noteq> other);
     let other_len = list_len other p;
     let start = start_of lo + other;
     let stop = end_of hi other_len + other;
     assert_that (start \<le> stop);
     assert_that (stop - start \<le> other_len);
     (l, p) \<leftarrow> grow_at l index (stop - start) p;
     d \<leftarrow> copy_within (pool_data p) start stop (index + l);
     Some (l, p\<lparr>pool_data := d\<rparr>)
   }"

text \<open>The loop of \<open>insert\<close>: \<open>tail[i] = tail[i - 1]\<close> from the end down to 1.\<close>

fun shift_up :: "nat \<Rightarrow> 'a list \<Rightarrow> 'a list" where
  "shift_up 0 t = t"
| "shift_up (Suc i) t = shift_up i (t[Suc i := t ! i])"

definition list_insert :: "nat \<Rightarrow> nat \<Rightarrow> nat \<Rightarrow> list_pool \<Rightarrow> (nat \<times> list_pool) option" where
  "list_insert l index x p = do {
     (_, l, p) \<leftarrow> push l x p;
     s \<leftarrow> as_slice l p;
     (if index < length s then do {
        let t = drop index s;
        Some (l, put_slice l (take index s @ (shift_up (length t - 1) t)[0 := x]) p)
      } else do { assert_that (index = length s); Some (l, p) })
   }"

definition remove_last :: "nat \<Rightarrow> nat \<Rightarrow> list_pool \<Rightarrow> (nat \<times> list_pool) option" where
  "remove_last l len p =
     (if len = 1 then list_clear l p
      else do {
        assert_that (1 \<le> l);
        (block, l, p) \<leftarrow> (if is_sclass_min_length len then do {
            (block, p) \<leftarrow> pool_realloc (l - 1) (sclass_for_length len) (sclass_for_length len - 1) len p;
            Some (block, list_index block, p)
          } else Some (l - 1, l, p));
        n \<leftarrow> entity_new (len - 1);
        d \<leftarrow> vec_set (pool_data p) block n;
        Some (l, p\<lparr>pool_data := d\<rparr>)
      })"

text \<open>The loop of \<open>remove\<close>: \<open>n\<close> steps from position \<open>i\<close>.\<close>

fun shift_down :: "nat \<Rightarrow> nat \<Rightarrow> 'a list \<Rightarrow> 'a list" where
  "shift_down i 0 s = s"
| "shift_down i (Suc n) s = shift_down (Suc i) n (s[i := s ! Suc i])"

definition list_remove :: "nat \<Rightarrow> nat \<Rightarrow> list_pool \<Rightarrow> (nat \<times> list_pool) option" where
  "list_remove l index p = do {
     s \<leftarrow> as_slice l p;
     assert_that (index < length s);
     remove_last l (length s) (put_slice l (shift_down index (length s - 1 - index) s) p)
   }"

definition swap_remove :: "nat \<Rightarrow> nat \<Rightarrow> list_pool \<Rightarrow> (nat \<times> list_pool) option" where
  "swap_remove l index p = do {
     s \<leftarrow> as_slice l p;
     assert_that (index < length s);
     let s' = (if index \<noteq> length s - 1 then s[index := s ! (length s - 1), length s - 1 := s ! index] else s);
     remove_last l (length s) (put_slice l s' p)
   }"

definition list_truncate :: "nat \<Rightarrow> nat \<Rightarrow> list_pool \<Rightarrow> (nat \<times> list_pool) option" where
  "list_truncate l new_len p =
     (if new_len = 0 then list_clear l p
      else case len_of l p of
        None \<Rightarrow> Some (l, p)
      | Some len \<Rightarrow>
          if len \<le> new_len then Some (l, p)
          else do {
            let sclass = sclass_for_length len;
            let new_sclass = sclass_for_length new_len;
            (block, l, p) \<leftarrow> (if sclass \<noteq> new_sclass then do {
                (block, p) \<leftarrow> pool_realloc (l - 1) sclass new_sclass (new_len + 1) p;
                Some (block, list_index block, p)
              } else Some (l - 1, l, p));
            n \<leftarrow> entity_new new_len;
            d \<leftarrow> vec_set (pool_data p) block n;
            Some (l, p\<lparr>pool_data := d\<rparr>)
          })"

end
