(* ===== verification/Entity_List_Inv.thy ===== *)
theory Entity_List_Inv
  imports Entity_List
begin

text \<open>
  The invariant of a list pool, \<open>src/cranelift/entity/src/list.rs\<close>: the vector is tiled by blocks whose sizes
  are powers of two, and every block is a list in use, a member of the free list of its size class, or handed out
  to the operation that runs. Allocation, release and reallocation of a block keep it.
\<close>

section \<open>Size classes\<close>

lemma bit_unat: "bit w i \<longleftrightarrow> odd (unat w div 2 ^ i)"
  by (simp add: bit_unsigned_iff flip: bit_iff_odd)

lemma clz32_top:
  assumes "bit w k" "\<And>i. k < i \<Longrightarrow> \<not> bit w i" "k < 32" shows "clz32 w = word_of_nat (31 - k)"
proof -
  have "rev [0..<32] = rev [Suc k..<32] @ k # rev [0..<k]"
    using upt_add_eq_append [of 0 k "32 - k"] upt_conv_Cons [of k 32] assms(3) by simp
  then have "takeWhile (\<lambda>i. \<not> bit w i) (rev [0..<32]) = rev [Suc k..<32]"
    using assms(1,2) by (simp add: takeWhile_tail takeWhile_append2 Suc_le_eq)
  then show ?thesis by (simp add: clz32_def)
qed

lemma top_bit_range:
  assumes "2 ^ k \<le> unat w" "unat w < 2 ^ Suc k" shows "bit w k" "k < i \<Longrightarrow> \<not> bit w i"
proof -
  have "unat w div 2 ^ k = 1" using assms by (intro div_nat_eqI) simp_all
  then show "bit w k" by (simp add: bit_unat)
  assume "k < i"
  then have "unat w < 2 ^ i" using assms(2) power_increasing [of "Suc k" i "2 :: nat"] by linarith
  then show "\<not> bit w i" by (simp add: bit_unat)
qed

lemma bit_or_3: "bit (w OR 3) i \<longleftrightarrow> bit w i \<or> i < 2" for w :: u32
proof -
  have m: "(3 :: u32) = mask 2" by (simp add: mask_eq_exp_minus_1)
  show ?thesis unfolding m bit_or_iff bit_mask_iff by auto
qed

lemma sclass_for_length_log:
  assumes "2 ^ k \<le> n" "n < 2 ^ Suc k" "2 \<le> k" "k < 32" shows "sclass_for_length n = k - 1"
proof -
  have "n < 2 ^ 32" using assms(2,4) power_increasing [of "Suc k" 32 "2 :: nat"] by linarith
  then have u: "unat (word_of_nat n :: u32) = n" by (simp add: unat_of_nat)
  have b: "bit (word_of_nat n :: u32) k" "\<And>i. k < i \<Longrightarrow> \<not> bit (word_of_nat n :: u32) i"
    using top_bit_range [of k "word_of_nat n :: u32", unfolded u, OF assms(1,2)] by simp_all
  have "clz32 (word_of_nat n OR 3) = word_of_nat (31 - k)"
    by (rule clz32_top) (use b assms(3,4) in \<open>auto simp: bit_or_3\<close>)
  moreover have "(30 :: u32) - word_of_nat (31 - k) = word_of_nat (k - 1)"
    using assms(3,4) by (simp add: of_nat_diff)
  ultimately show ?thesis using assms(4) by (simp add: sclass_for_length_def unat_of_nat)
qed

lemma sclass_for_length_small: "n \<le> 3 \<Longrightarrow> sclass_for_length n = 0"
proof -
  assume "n \<le> 3"
  then have "n = 0 \<or> n = 1 \<or> n = 2 \<or> n = 3" by auto
  moreover have "sclass_for_length 0 = 0" "sclass_for_length 1 = 0" "sclass_for_length 2 = 0" "sclass_for_length 3 = 0" by code_simp+
  ultimately show ?thesis by auto
qed

lemma sclass_bounds:
  assumes "n < 2 ^ 32" "s = sclass_for_length n"
  shows "n < sclass_size s" "s = 0 \<or> sclass_size s \<le> 2 * n"
proof -
  have "n < sclass_size s \<and> (s = 0 \<or> sclass_size s \<le> 2 * n)"
  proof (cases "n \<le> 3")
    case True
    then show ?thesis using assms by (simp add: sclass_for_length_small sclass_size_def)
  next
    case False
    then obtain k where k: "2 ^ k \<le> n" "n < 2 ^ Suc k" using ex_power_ivl1 [of 2 n] by auto
    have "2 \<le> k"
    proof (rule ccontr)
      assume "\<not> 2 \<le> k"
      then have "Suc k \<le> 2" by simp
      then have "(2 :: nat) ^ Suc k \<le> 2 ^ 2" by (rule power_increasing) simp
      then show False using False k(2) by simp
    qed
    moreover have "k < 32" using k(1) assms(1) power_less_imp_less_exp [of "2 :: nat" k 32] by linarith
    ultimately have s: "s = k - 1" using sclass_for_length_log [OF k] assms(2) by simp
    have "sclass_size s = 2 ^ Suc k" using \<open>2 \<le> k\<close> power_add [of "2 :: nat" 2 "k - 1"] by (simp add: s sclass_size_def flip: power_Suc)
    then show ?thesis using k by simp
  qed
  then show "n < sclass_size s" "s = 0 \<or> sclass_size s \<le> 2 * n" by simp_all
qed

text \<open>The class of a length is the least whose blocks hold it.\<close>

lemma sclass_size_less: "sclass_size s < sclass_size t \<longleftrightarrow> s < t"
  by (simp add: sclass_size_def)

lemma sclass_unique:
  assumes "n < 2 ^ 32" "n < sclass_size s" "s = 0 \<or> sclass_size s \<le> 2 * n" shows "sclass_for_length n = s"
proof -
  note b = sclass_bounds [OF assms(1) refl]
  have dbl: "2 * sclass_size a \<le> sclass_size b" if "a < b" for a b
  proof -
    have "sclass_size (Suc a) \<le> sclass_size b" using that sclass_size_less [of b "Suc a"] by linarith
    then show ?thesis by (simp add: sclass_size_def)
  qed
  show ?thesis
  proof (cases "sclass_for_length n" s rule: linorder_cases)
    case less
    then show ?thesis using dbl [OF less] b(1) assms(3) by linarith
  next
    case greater
    then show ?thesis using dbl [OF greater] b(2) assms(2) by linarith
  qed
qed

lemma sclass_step:
  assumes "1 \<le> n" "n + 1 < 2 ^ 32"
  shows "sclass_for_length (n + 1) = (if is_sclass_min_length (n + 1) then sclass_for_length n + 1 else sclass_for_length n)"
proof -
  define s where "s = sclass_for_length n"
  have b: "n < sclass_size s" "s = 0 \<or> sclass_size s \<le> 2 * n" using sclass_bounds [of n s] assms(2) by (simp_all add: s_def)
  have pow: "sclass_size s = 2 ^ (s + 2)" by (simp add: sclass_size_def)
  show ?thesis
  proof (cases "n + 1 = sclass_size s")
    case True
    have k: "s + 2 < Suc (n + 1)" "n + 1 = 2 ^ (s + 2)" using True pow less_exp [of "s + 2"] by simp_all
    moreover have "3 < n + 1"
    proof -
      have "(1 :: nat) \<le> 2 ^ s" by simp
      then have "3 < 4 * (2 :: nat) ^ s" by linarith
      then show ?thesis using k(2) by simp
    qed
    ultimately have "is_sclass_min_length (n + 1)" unfolding is_sclass_min_length_def
      by (intro conjI bexI [of _ "s + 2"]) (simp_all only: set_upt atLeastLessThan_iff, simp)
    moreover have "sclass_for_length (n + 1) = s + 1"
      by (rule sclass_unique) (use True assms(2) in \<open>simp_all add: sclass_size_def\<close>)
    ultimately show ?thesis by (simp add: s_def)
  next
    case False
    then have lt: "n + 1 < sclass_size s" using b(1) by simp
    have "\<not> is_sclass_min_length (n + 1)"
    proof
      assume "is_sclass_min_length (n + 1)"
      then obtain k where k: "n + 1 = 2 ^ k" "3 < n + 1" unfolding is_sclass_min_length_def by blast
      then have "k < s + 2" using lt pow power_less_imp_less_exp [of "2 :: nat" k "s + 2"] by simp
      then have "(2 :: nat) ^ k \<le> 2 ^ (s + 1)" by (intro power_increasing) simp_all
      then show False using b(2) k pow lt by (cases s) auto
    qed
    moreover have "sclass_for_length (n + 1) = s" by (rule sclass_unique) (use lt b assms(2) in auto)
    ultimately show ?thesis by (simp add: s_def)
  qed
qed

section \<open>Blocks, lists and free lists\<close>

text \<open>
  \<open>B\<close> gives every block of the pool its size class, by the position of its first word; blocks are never split
  or joined. Every block is in one of three states: it holds a list of \<open>L\<close>, it is on the free list \<open>F\<close> of its class, or
  it has been handed out and not yet been filled, \<open>U\<close>.
\<close>

definition tiled_ok :: "(nat \<rightharpoonup> nat) \<Rightarrow> nat \<Rightarrow> bool" where
  "tiled_ok B n \<longleftrightarrow> (\<forall>b s. B b = Some s \<longrightarrow> b + sclass_size s \<le> n) \<and>
     (\<forall>b s b' s'. B b = Some s \<longrightarrow> B b' = Some s' \<longrightarrow> b < b' \<longrightarrow> b + sclass_size s \<le> b') \<and>
     (\<forall>i < n. \<exists>b s. B b = Some s \<and> b \<le> i \<and> i < b + sclass_size s)"

fun free_chain :: "nat list \<Rightarrow> nat \<Rightarrow> nat list \<Rightarrow> bool" where
  "free_chain d x [] \<longleftrightarrow> x = 0"
| "free_chain d x (f # fs) \<longleftrightarrow> x = f \<and> f \<noteq> 0 \<and> free_chain d (d ! f) fs"

definition list_at :: "nat list \<Rightarrow> nat \<Rightarrow> nat list \<Rightarrow> bool" where
  "list_at d h xs \<longleftrightarrow> d ! (h - 1) = length xs \<and> (\<forall>i < length xs. d ! (h + i) = xs ! i)"

definition free_head :: "list_pool \<Rightarrow> nat \<Rightarrow> nat" where
  "free_head p s = (if s < length (pool_free p) then pool_free p ! s else 0)"

definition live_ok :: "nat list \<Rightarrow> (nat \<rightharpoonup> nat) \<Rightarrow> (nat \<rightharpoonup> nat list) \<Rightarrow> bool" where
  "live_ok d B L \<longleftrightarrow> (\<forall>h xs. L h = Some xs \<longrightarrow> 0 < h \<and> xs \<noteq> [] \<and> length xs < 2 ^ 32 - 1 \<and>
     B (h - 1) = Some (sclass_for_length (length xs)) \<and> list_at d h xs)"

definition free_ok :: "list_pool \<Rightarrow> (nat \<rightharpoonup> nat) \<Rightarrow> (nat \<rightharpoonup> nat list) \<Rightarrow> (nat \<Rightarrow> nat list) \<Rightarrow> bool" where
  "free_ok p B L F \<longleftrightarrow> (\<forall>s. free_chain (pool_data p) (free_head p s) (F s) \<and> distinct (F s) \<and>
     (\<forall>f \<in> set (F s). 0 < f \<and> B (f - 1) = Some s \<and> L f = None))"

definition states_ok :: "(nat \<rightharpoonup> nat) \<Rightarrow> (nat \<rightharpoonup> nat list) \<Rightarrow> (nat \<Rightarrow> nat list) \<Rightarrow> nat set \<Rightarrow> bool" where
  "states_ok B L F U \<longleftrightarrow> (\<forall>b \<in> dom B. L (b + 1) \<noteq> None \<or> (\<exists>s. b + 1 \<in> set (F s)) \<or> b \<in> U) \<and>
     (\<forall>b \<in> U. b \<in> dom B \<and> L (b + 1) = None \<and> (\<forall>s. b + 1 \<notin> set (F s)))"

definition pool_rel :: "list_pool \<Rightarrow> (nat \<rightharpoonup> nat) \<Rightarrow> (nat \<rightharpoonup> nat list) \<Rightarrow> (nat \<Rightarrow> nat list) \<Rightarrow> nat set \<Rightarrow> bool" where
  "pool_rel p B L F U \<longleftrightarrow> tiled_ok B (length (pool_data p)) \<and> live_ok (pool_data p) B L \<and> free_ok p B L F \<and> states_ok B L F U"

lemma pool_relI:
  "tiled_ok B (length (pool_data p)) \<Longrightarrow> live_ok (pool_data p) B L \<Longrightarrow> free_ok p B L F \<Longrightarrow> states_ok B L F U \<Longrightarrow> pool_rel p B L F U"
  by (simp add: pool_rel_def)

lemma pool_relD:
  assumes "pool_rel p B L F U"
  shows "tiled_ok B (length (pool_data p))" "live_ok (pool_data p) B L" "free_ok p B L F" "states_ok B L F U"
  using assms by (simp_all add: pool_rel_def)

lemma tiled_okD:
  assumes "tiled_ok B n" "B b = Some s"
  shows "b + sclass_size s \<le> n" "B b' = Some s' \<Longrightarrow> b' \<noteq> b \<Longrightarrow> b' + sclass_size s' \<le> b \<or> b + sclass_size s \<le> b'"
  using assms unfolding tiled_ok_def by (metis linorder_cases)+

lemma sclass_size_ge: "4 \<le> sclass_size s"
  by (simp add: sclass_size_def)

lemma live_okD:
  assumes "live_ok d B L" "L h = Some xs"
  shows "0 < h" "xs \<noteq> []" "length xs < 2 ^ 32 - 1" "B (h - 1) = Some (sclass_for_length (length xs))" "list_at d h xs"
    "length xs < sclass_size (sclass_for_length (length xs))"
proof -
  show l: "0 < h" "xs \<noteq> []" "length xs < 2 ^ 32 - 1" "B (h - 1) = Some (sclass_for_length (length xs))" "list_at d h xs"
    using assms by (simp_all add: live_ok_def)
  show "length xs < sclass_size (sclass_for_length (length xs))" by (rule sclass_bounds(1) [OF _ refl]) (use l(3) in simp)
qed

lemma free_head_data [simp]: "free_head (p\<lparr>pool_data := d\<rparr>) s = free_head p s"
  by (simp add: free_head_def)

lemma free_okD:
  assumes "free_ok p B L F"
  shows "free_chain (pool_data p) (free_head p s) (F s)" "distinct (F s)"
    "f \<in> set (F s) \<Longrightarrow> 0 < f" "f \<in> set (F s) \<Longrightarrow> B (f - 1) = Some s" "f \<in> set (F s) \<Longrightarrow> L f = None"
  using assms by (auto simp: free_ok_def)

lemma free_chain_cong: "(\<And>f. f \<in> set fs \<Longrightarrow> d' ! f = d ! f) \<Longrightarrow> free_chain d' x fs = free_chain d x fs"
  by (induction fs arbitrary: x) auto

lemma pool_new_rel: "pool_rel pool_new Map.empty Map.empty (\<lambda>_. []) {}"
  by (simp add: pool_rel_def pool_new_def tiled_ok_def live_ok_def free_ok_def states_ok_def free_head_def)

section \<open>The elementary changes\<close>

text \<open>Words of blocks that are handed out may be overwritten.\<close>

lemma rel_write:
  assumes rel: "pool_rel p B L F U" and d: "length d = length (pool_data p)"
    and same: "\<And>i. i < length d \<Longrightarrow> (\<And>b s. b \<in> U \<Longrightarrow> B b = Some s \<Longrightarrow> i < b \<or> b + sclass_size s \<le> i) \<Longrightarrow> d ! i = pool_data p ! i"
  shows "pool_rel (p\<lparr>pool_data := d\<rparr>) B L F U"
proof -
  note r = pool_relD [OF rel]
  have other: "d ! i = pool_data p ! i" if b: "B b = Some s" "b \<notin> U" and i: "b \<le> i" "i < b + sclass_size s" for b s i
  proof (rule same)
    show "i < length d" using tiled_okD(1) [OF r(1) b(1)] i d by simp
    fix b' s' assume "b' \<in> U" "B b' = Some s'"
    then have "b' \<noteq> b" using b(2) by blast
    then show "i < b' \<or> b' + sclass_size s' \<le> i" using tiled_okD(2) [OF r(1) b(1) \<open>B b' = Some s'\<close>] i by auto
  qed
  have nl: "h - 1 \<notin> U" if "L h = Some xs" for h xs
    using r(4) live_okD(1) [OF r(2) that] that unfolding states_ok_def by (metis Suc_eq_plus1 Suc_pred' option.distinct(1))
  have nf: "f - 1 \<notin> U" if "f \<in> set (F s)" for f s
    using r(4) free_okD(3) [OF r(3) that] that unfolding states_ok_def by (metis Suc_eq_plus1 Suc_pred')
  have "live_ok d B L"
    unfolding live_ok_def
  proof (intro allI impI conjI)
    fix h xs assume h: "L h = Some xs"
    note l = live_okD [OF r(2) h]
    show "0 < h" "xs \<noteq> []" "length xs < 2 ^ 32 - 1" "B (h - 1) = Some (sclass_for_length (length xs))" by (fact l)+
    have "d ! i = pool_data p ! i" if "h - 1 \<le> i" "i < h + length xs" for i
      using other [OF l(4) nl [OF h], of i] l(1,6) that by simp
    then show "list_at d h xs" using l(1,5) unfolding list_at_def by simp
  qed
  moreover have "free_ok (p\<lparr>pool_data := d\<rparr>) B L F"
  proof -
    have "d ! f = pool_data p ! f" if "f \<in> set (F s)" for f s
      using other [OF free_okD(4) [OF r(3) that] nf [OF that], of f] free_okD(3) [OF r(3) that] sclass_size_ge [of s] by simp
    then have "free_chain d x (F s) = free_chain (pool_data p) x (F s)" for x s by (rule free_chain_cong)
    then show ?thesis using r(3) by (simp add: free_ok_def)
  qed
  ultimately show ?thesis using r(1,4) d by (intro pool_relI) simp_all
qed

lemma rel_write_block:
  assumes "pool_rel p B L F U" "length d = length (pool_data p)" "b \<in> U" "B b = Some s"
    and "\<And>i. i < length d \<Longrightarrow> i < b \<or> b + sclass_size s \<le> i \<Longrightarrow> d ! i = pool_data p ! i"
  shows "pool_rel (p\<lparr>pool_data := d\<rparr>) B L F U"
  using rel_write [OF assms(1,2)] assms(3-5) by blast

text \<open>A handed out block that holds a list of its class becomes the list.\<close>

lemma rel_own:
  assumes rel: "pool_rel p B L F U" and b: "b \<in> U" "B b = Some (sclass_for_length (length xs))"
    and xs: "xs \<noteq> []" "length xs < 2 ^ 32 - 1" "list_at (pool_data p) (b + 1) xs"
  shows "pool_rel p B (L(b + 1 \<mapsto> xs)) F (U - {b})"
proof -
  note r = pool_relD [OF rel]
  have nf: "b + 1 \<notin> set (F s)" for s using r(4) b(1) by (simp add: states_ok_def)
  have "live_ok (pool_data p) B (L(b + 1 \<mapsto> xs))" using r(2) b(2) xs by (simp add: live_ok_def)
  moreover have "free_ok p B (L(b + 1 \<mapsto> xs)) F" using r(3) nf unfolding free_ok_def by (metis fun_upd_other)
  moreover have "states_ok B (L(b + 1 \<mapsto> xs)) F (U - {b})" using r(4) unfolding states_ok_def by auto
  ultimately show ?thesis using r(1) by (intro pool_relI)
qed

lemma rel_disown:
  assumes rel: "pool_rel p B L F U" and h: "L h = Some xs"
  shows "pool_rel p B (L(h := None)) F (insert (h - 1) U)"
proof -
  note r = pool_relD [OF rel] and l = live_okD [OF r(2) h]
  have nf: "h \<notin> set (F s)" for s using free_okD(5) [OF r(3)] h by fastforce
  have "live_ok (pool_data p) B (L(h := None))" using r(2) by (auto simp: live_ok_def)
  moreover have "free_ok p B (L(h := None)) F" using r(3) by (simp add: free_ok_def)
  moreover have "states_ok B (L(h := None)) F (insert (h - 1) U)"
    using r(4) nf l(1,4) unfolding states_ok_def by (auto simp: Suc_pred')
  ultimately show ?thesis using r(1) by (intro pool_relI)
qed

lemma chain_head: "free_chain d x fs \<Longrightarrow> x \<noteq> 0 \<Longrightarrow> \<exists>gs. fs = x # gs \<and> free_chain d (d ! x) gs"
  by (cases fs) auto

lemma block_fresh:
  assumes "tiled_ok B n" shows "B n = None"
proof (rule ccontr)
  assume "B n \<noteq> None"
  then obtain t where "B n = Some t" by blast
  from tiled_okD(1) [OF assms this] sclass_size_ge [of t] show False by simp
qed

lemma tiled_ok_extend:
  assumes ok: "tiled_ok B n" shows "tiled_ok (B(n \<mapsto> s)) (n + sclass_size s)"
  unfolding tiled_ok_def
proof (intro conjI allI impI)
  have lim: "b + sclass_size t \<le> n" "b + 4 \<le> n" if "B b = Some t" for b t
    using tiled_okD(1) [OF ok that] sclass_size_ge [of t] by simp_all
  fix b t assume b: "(B(n \<mapsto> s)) b = Some t"
  then show "b + sclass_size t \<le> n + sclass_size s" using lim(1) [of b t] by (auto split: if_splits)
  fix b' t' assume "(B(n \<mapsto> s)) b' = Some t'" "b < b'"
  then show "b + sclass_size t \<le> b'" using b lim [of b t] lim(2) [of b' t'] tiled_okD(2) [OF ok, of b' t' b t]
    by (auto split: if_splits)
next
  fix i assume i: "i < n + sclass_size s"
  show "\<exists>b t. (B(n \<mapsto> s)) b = Some t \<and> b \<le> i \<and> i < b + sclass_size t"
  proof (cases "i < n")
    case True
    then obtain b t where b: "B b = Some t" "b \<le> i" "i < b + sclass_size t" using ok unfolding tiled_ok_def by blast
    moreover have "b \<noteq> n" using b(1) block_fresh [OF ok] by auto
    ultimately show ?thesis by (intro exI [of _ b] exI [of _ t]) simp
  next
    case False
    then show ?thesis using i by (intro exI [of _ n] exI [of _ s]) simp
  qed
qed

lemma grow_rel:
  assumes rel: "pool_rel p B L F U"
  defines "n \<equiv> length (pool_data p)"
  shows "pool_rel (p\<lparr>pool_data := pool_data p @ replicate (sclass_size s) v\<rparr>) (B(n \<mapsto> s)) L F (insert n U)"
proof -
  note r = pool_relD [OF rel]
  have lim: "b + sclass_size t \<le> n" "b + 4 \<le> n" if "B b = Some t" for b t
    using tiled_okD(1) [OF r(1) that] sclass_size_ge [of t] by (simp_all add: n_def)
  have fresh: "B n = None" using block_fresh [OF r(1)] by (simp add: n_def)
  have "tiled_ok (B(n \<mapsto> s)) (n + sclass_size s)" using tiled_ok_extend [OF r(1)] by (simp add: n_def)
  moreover have live: "live_ok (pool_data p @ replicate (sclass_size s) v) (B(n \<mapsto> s)) L"
    unfolding live_ok_def
  proof (intro allI impI conjI)
    fix h xs assume h: "L h = Some xs"
    note l = live_okD [OF r(2) h]
    show "0 < h" "xs \<noteq> []" "length xs < 2 ^ 32 - 1" by (fact l)+
    show "(B(n \<mapsto> s)) (h - 1) = Some (sclass_for_length (length xs))" using l(4) fresh by auto
    have "h + length xs \<le> n" using lim(1) [OF l(4)] l(1,6) by simp
    then show "list_at (pool_data p @ replicate (sclass_size s) v) h xs"
      using l(1,5) by (auto simp: list_at_def nth_append n_def)
  qed
  moreover have "free_ok (p\<lparr>pool_data := pool_data p @ replicate (sclass_size s) v\<rparr>) (B(n \<mapsto> s)) L F"
  proof -
    have f: "f < n" if "f \<in> set (F t)" for f t using lim(2) [OF free_okD(4) [OF r(3) that]] by simp
    then have "free_chain (pool_data p @ replicate (sclass_size s) v) x (F t) = free_chain (pool_data p) x (F t)" for x t
      by (intro free_chain_cong) (simp add: nth_append n_def)
    moreover have "(B(n \<mapsto> s)) (f - 1) = B (f - 1)" if "f \<in> set (F t)" for f t using f [OF that] by auto
    ultimately show ?thesis using r(3) by (simp add: free_ok_def)
  qed
  moreover have "states_ok (B(n \<mapsto> s)) L F (insert n U)"
  proof -
    have "L (n + 1) = None"
    proof (rule ccontr)
      assume "L (n + 1) \<noteq> None"
      then obtain xs where "L (n + 1) = Some xs" by blast
      from live_okD(4) [OF r(2) this] fresh show False by simp
    qed
    moreover have "n + 1 \<notin> set (F t)" for t using free_okD(4) [OF r(3), of "n + 1" t] fresh by auto
    ultimately show ?thesis using r(4) unfolding states_ok_def by auto
  qed
  ultimately show ?thesis by (intro pool_relI) (simp_all add: n_def)
qed

lemma pop_rel:
  assumes rel: "pool_rel p B L F U" and s: "s < length (pool_free p)" "pool_free p ! s = f" "f \<noteq> 0"
  shows "f < length (pool_data p)" "B (f - 1) = Some s" "L f = None" "f - 1 \<notin> U"
    "\<exists>F'. pool_rel (p\<lparr>pool_free := (pool_free p)[s := pool_data p ! f]\<rparr>) B L F' (insert (f - 1) U)"
proof -
  note r = pool_relD [OF rel]
  have "free_chain (pool_data p) f (F s)" using free_okD(1) [OF r(3), of s] s by (simp add: free_head_def)
  then obtain fs where fs: "F s = f # fs" "free_chain (pool_data p) (pool_data p ! f) fs" using chain_head s(3) by blast
  have fB: "B (f - 1) = Some s" "L f = None" "distinct (f # fs)" using free_okD [OF r(3)] fs(1) by (metis list.set_intros(1))+
  then show "B (f - 1) = Some s" "L f = None" by simp_all
  show "f < length (pool_data p)" using tiled_okD(1) [OF r(1) fB(1)] sclass_size_ge [of s] s(3) by simp
  show "f - 1 \<notin> U"
  proof
    assume "f - 1 \<in> U"
    then have "f - 1 + 1 \<notin> set (F s)" using r(4) by (simp add: states_ok_def)
    then show False using s(3) fs(1) by simp
  qed
  let ?p = "p\<lparr>pool_free := (pool_free p)[s := pool_data p ! f]\<rparr>" and ?F = "F(s := fs)"
  have hd: "free_head ?p t = (if t = s then pool_data p ! f else free_head p t)" for t using s(1) by (simp add: free_head_def)
  have "free_ok ?p B L ?F" unfolding free_ok_def hd
  proof
    fix t
    show "free_chain (pool_data ?p) (if t = s then pool_data p ! f else free_head p t) (?F t) \<and> distinct (?F t) \<and>
        (\<forall>g \<in> set (?F t). 0 < g \<and> B (g - 1) = Some t \<and> L g = None)"
      using r(3) [unfolded free_ok_def, THEN spec, of t] fs fB(3) by (cases "t = s") simp_all
  qed
  moreover have "states_ok B L ?F (insert (f - 1) U)"
    unfolding states_ok_def
  proof (intro conjI ballI allI)
    fix b assume "b \<in> dom B"
    then show "L (b + 1) \<noteq> None \<or> (\<exists>t. b + 1 \<in> set (?F t)) \<or> b \<in> insert (f - 1) U"
      using r(4) fs(1) unfolding states_ok_def by (metis add_diff_cancel_right' fun_upd_apply insert_iff set_ConsD)
  next
    fix b t assume b: "b \<in> insert (f - 1) U"
    have sub: "set (?F t) \<subseteq> set (F t)" using fs(1) by auto
    show "b \<in> dom B" "L (b + 1) = None" using b r(4) fB s(3) by (auto simp: states_ok_def)
    show "b + 1 \<notin> set (?F t)"
    proof (cases "b = f - 1")
      case True
      have "t = s" if "f \<in> set (F t)" using free_okD(4) [OF r(3) that] fB(1) by simp
      then show ?thesis using True s(3) fB(3) sub by auto
    next
      case False
      then show ?thesis using b r(4) sub by (auto simp: states_ok_def)
    qed
  qed
  ultimately show "\<exists>F'. pool_rel ?p B L F' (insert (f - 1) U)" using r(1,2) by (intro exI pool_relI) simp_all
qed

lemma rel_alloc:
  assumes rel: "pool_rel p B L F U"
  obtains b p' B' F' where "pool_alloc s p = Some (b, p')" "pool_rel p' B' L F' (insert b U)" "B' b = Some s" "B \<subseteq>\<^sub>m B'"
    "b \<notin> U" "L (b + 1) = None" "length (pool_data p') \<le> length (pool_data p) + sclass_size s"
    "length (pool_data p) \<le> length (pool_data p')" "\<And>i. i < length (pool_data p) \<Longrightarrow> pool_data p' ! i = pool_data p ! i"
proof (cases "s < length (pool_free p) \<and> pool_free p ! s \<noteq> 0")
  case True
  note pop = pop_rel [OF rel, of s, OF _ refl]
  obtain F' where F': "pool_rel (p\<lparr>pool_free := (pool_free p)[s := pool_data p ! (pool_free p ! s)]\<rparr>) B L F' (insert (pool_free p ! s - 1) U)"
    using pop(5) True by blast
  have "pool_alloc s p = Some (pool_free p ! s - 1, p\<lparr>pool_free := (pool_free p)[s := pool_data p ! (pool_free p ! s)]\<rparr>)"
    using True pop(1) by (simp add: pool_alloc_def vec_get_def)
  from that [OF this F'] show thesis using pop(2-4) True by simp
next
  case False
  let ?n = "length (pool_data p)"
  note r = pool_relD [OF rel]
  have "pool_alloc s p = Some (?n, p\<lparr>pool_data := pool_data p @ replicate (sclass_size s) reserved_value\<rparr>)"
    using False by (auto simp: pool_alloc_def vec_get_def pool_grow_def)
  moreover note g = grow_rel [OF rel, of s reserved_value]
  moreover have "B ?n = None" by (rule block_fresh [OF r(1)])
  moreover have "L (?n + 1) = None" using pool_relD(4) [OF g] by (simp add: states_ok_def)
  moreover have "?n \<notin> U" using r(4) \<open>B ?n = None\<close> by (auto simp: states_ok_def)
  moreover have "B \<subseteq>\<^sub>m B(?n \<mapsto> s)" using \<open>B ?n = None\<close> by (auto simp: map_le_def)
  ultimately show thesis
    using that [of ?n "p\<lparr>pool_data := pool_data p @ replicate (sclass_size s) reserved_value\<rparr>" "B(?n \<mapsto> s)" F] by (simp add: nth_append)
qed

lemma nth_write_at: "i + length ys \<le> length xs \<Longrightarrow> j < length xs \<Longrightarrow> write_at xs i ys ! j = (if i \<le> j \<and> j < i + length ys then ys ! (j - i) else xs ! j)"
  by (auto simp: write_at_def nth_append min_def)

lemma length_write_at [simp]: "i + length ys \<le> length xs \<Longrightarrow> length (write_at xs i ys) = length xs"
  by (simp add: write_at_def)

lemma rel_free:
  assumes rel: "pool_rel p B L F U" and b: "b \<in> U" "B b = Some s" and small: "length (pool_data p) < 2 ^ 32"
  obtains p' where "pool_free_block b s p = Some p'" "pool_rel p' B L (F(s := (b + 1) # F s)) (U - {b})"
    "length (pool_data p') = length (pool_data p)" "\<And>i. i \<noteq> b \<Longrightarrow> i \<noteq> b + 1 \<Longrightarrow> pool_data p' ! i = pool_data p ! i"
proof -
  note r = pool_relD [OF rel]
  define heads where "heads = (if length (pool_free p) \<le> s then pool_free p @ replicate (s + 1 - length (pool_free p)) 0 else pool_free p)"
  define d where "d = (pool_data p)[b := 0, b + 1 := free_head p s]"
  have hs: "s < length heads" "heads ! s = free_head p s" by (auto simp: heads_def free_head_def nth_append)
  have ht: "(if t < length (heads[s := x]) then heads[s := x] ! t else 0) = (if t = s then x else free_head p t)" for t x
    by (auto simp: heads_def free_head_def nth_append nth_list_update)
  have lim: "b + 4 \<le> length (pool_data p)" using tiled_okD(1) [OF r(1) b(2)] sclass_size_ge [of s] by simp
  have "free_head p s < 2 ^ 32 - 1"
  proof (cases "free_head p s = 0")
    case False
    then obtain fs where "F s = free_head p s # fs" using chain_head free_okD(1) [OF r(3)] by blast
    then have "B (free_head p s - 1) = Some s" using free_okD(4) [OF r(3), of "free_head p s" s] by simp
    from tiled_okD(1) [OF r(1) this] sclass_size_ge [of s] show ?thesis using small False by linarith
  qed simp
  then have run: "pool_free_block b s p = Some (p\<lparr>pool_data := d, pool_free := heads[s := b + 1]\<rparr>)"
    using lim unfolding pool_free_block_def heads_def [symmetric] Let_def by (simp add: hs(2) entity_new_def vec_set_def d_def)
  let ?F = "F(s := (b + 1) # F s)" and ?p = "p\<lparr>pool_data := d, pool_free := heads[s := b + 1]\<rparr>"
  have "pool_rel (p\<lparr>pool_data := d\<rparr>) B L F U"
    by (rule rel_write_block [OF rel _ b]) (use sclass_size_ge [of s] in \<open>auto simp: d_def\<close>)
  note w = pool_relD [OF this]
  have nf: "b + 1 \<notin> set (F t)" "L (b + 1) = None" for t using r(4) b(1) by (simp_all add: states_ok_def)
  have "free_ok ?p B L ?F"
    unfolding free_ok_def
  proof
    fix t
    have "free_head ?p t = (if t < length (heads[s := b + 1]) then heads[s := b + 1] ! t else 0)" by (simp add: free_head_def)
    then have h: "free_head ?p t = (if t = s then b + 1 else free_head p t)" by (simp only: ht)
    have c: "free_chain d (free_head p t) (F t)" "distinct (F t)" "\<forall>f \<in> set (F t). 0 < f \<and> B (f - 1) = Some t \<and> L f = None"
      using w(3) by (simp_all add: free_ok_def)
    have "d ! (b + 1) = free_head p s" using lim by (simp add: d_def)
    then show "free_chain (pool_data ?p) (free_head ?p t) (?F t) \<and> distinct (?F t) \<and> (\<forall>f \<in> set (?F t). 0 < f \<and> B (f - 1) = Some t \<and> L f = None)"
      unfolding h using c nf b(2) by (cases "t = s") simp_all
  qed
  moreover have "states_ok B L ?F (U - {b})"
    unfolding states_ok_def
  proof (intro conjI ballI allI)
    fix x assume "x \<in> dom B"
    then show "L (x + 1) \<noteq> None \<or> (\<exists>t. x + 1 \<in> set (?F t)) \<or> x \<in> U - {b}"
      using r(4) unfolding states_ok_def by (metis DiffI fun_upd_apply list.set_intros singletonD)
  next
    fix x t assume "x \<in> U - {b}"
    then show "x \<in> dom B" "L (x + 1) = None" "x + 1 \<notin> set (?F t)" using r(4) by (auto simp: states_ok_def)
  qed
  ultimately have "pool_rel ?p B L ?F (U - {b})" using w(1,2) by (intro pool_relI) simp_all
  then show thesis using that [OF run] by (simp add: d_def)
qed

lemma mut_slices_ok:
  assumes "a \<noteq> b" "a + n \<le> b \<or> b + n \<le> a" "a + n \<le> length d" "b + n \<le> length d"
  shows "\<exists>old new. mut_slices a b d = Some (old, new) \<and> n \<le> length new \<and> n \<le> length old \<and> take n old = take n (drop a d)"
proof (cases "a < b")
  case True
  then have "b \<le> length d" "n \<le> length d - b" "n \<le> b - a" using assms by linarith+
  then show ?thesis using True by (simp add: mut_slices_def drop_take min_absorb1)
next
  case False
  then have "n \<le> length d - a" "n \<le> a - b" "a \<le> length d" using assms by linarith+
  then show ?thesis using False by (simp add: mut_slices_def)
qed

lemma rel_realloc:
  assumes rel: "pool_rel p B L F {}" and h: "L h = Some xs" and n: "0 < n" "n \<le> length xs + 1" "n \<le> sclass_size t"
    and small: "length (pool_data p) + sclass_size t < 2 ^ 32"
  obtains b p' B' F' where "pool_realloc (h - 1) (sclass_for_length (length xs)) t n p = Some (b, p')"
    "pool_rel p' B' (L(h := None)) F' {b}" "B' b = Some t" "L (b + 1) = None"
    "length (pool_data p') \<le> length (pool_data p) + sclass_size t"
    "\<And>i. i < n \<Longrightarrow> pool_data p' ! (b + i) = pool_data p ! (h - 1 + i)"
proof -
  define s where "s = sclass_for_length (length xs)"
  note r = pool_relD [OF rel] and l = live_okD [OF pool_relD(2) [OF rel] h]
  have ns: "n \<le> sclass_size s" using n(2) l(6) by (simp add: s_def)
  obtain b p1 B1 F1 where a: "pool_alloc t p = Some (b, p1)" "pool_rel p1 B1 L F1 (insert b {})" "B1 b = Some t" "B \<subseteq>\<^sub>m B1"
    "L (b + 1) = None" "length (pool_data p1) \<le> length (pool_data p) + sclass_size t"
    "length (pool_data p) \<le> length (pool_data p1)" "\<And>i. i < length (pool_data p) \<Longrightarrow> pool_data p1 ! i = pool_data p ! i"
    using rel_alloc [OF rel, of t] by metis
  have hb: "B1 (h - 1) = Some s" using a(4) l(4) by (auto simp: map_le_def s_def dest!: bspec)
  have ne: "b \<noteq> h - 1" using a(5) h l(1) by auto
  note r1 = pool_relD [OF a(2)]
  have lim: "b + sclass_size t \<le> length (pool_data p1)" "h - 1 + sclass_size s \<le> length (pool_data p1)"
    "h - 1 + sclass_size s \<le> b \<or> b + sclass_size t \<le> h - 1"
    using tiled_okD [OF r1(1) a(3)] tiled_okD(1) [OF r1(1) hb] tiled_okD(2) [OF r1(1) a(3) hb] ne by simp_all
  have old: "pool_data p1 ! (h - 1 + i) = pool_data p ! (h - 1 + i)" if "i < n" for i
    using a(8) [of "h - 1 + i"] tiled_okD(1) [OF r(1) l(4)] that ns by (simp add: s_def)
  define d where "d = write_at (pool_data p1) b (take n (drop (h - 1) (pool_data p1)))"
  have ln: "length (take n (drop (h - 1) (pool_data p1))) = n" using lim(2) ns by simp
  have ld: "length d = length (pool_data p1)" using lim(1) n(3) ln by (simp add: d_def)
  have dn: "d ! i = (if b \<le> i \<and> i < b + n then pool_data p1 ! (h - 1 + (i - b)) else pool_data p1 ! i)"
    if "i < length (pool_data p1)" for i
  proof -
    have "take n (drop (h - 1) (pool_data p1)) ! j = pool_data p1 ! (h - 1 + j)" if "j < n" for j using that lim(2) ns by simp
    then show ?thesis
      using nth_write_at [of b "take n (drop (h - 1) (pool_data p1))" "pool_data p1" i, unfolded ln, folded d_def] lim(1) n(3) that by auto
  qed
  have cp: "\<exists>old new. mut_slices (h - 1) b (pool_data p1) = Some (old, new) \<and> n \<le> length new \<and> n \<le> length old \<and>
      take n old = take n (drop (h - 1) (pool_data p1))"
    by (rule mut_slices_ok) (use lim n ns ne in auto)
  have d1: "pool_rel (p1\<lparr>pool_data := d\<rparr>) B1 L F1 {b}"
    by (rule rel_write_block [OF a(2) ld _ a(3)]) (use n(3) in \<open>auto simp: dn ld\<close>)
  have d2: "pool_rel (p1\<lparr>pool_data := d\<rparr>) B1 (L(h := None)) F1 {h - 1, b}" by (rule rel_disown [OF d1 h])
  have sm: "length (pool_data (p1\<lparr>pool_data := d\<rparr>)) < 2 ^ 32" using a(6) small ld by simp
  obtain p2 where p2: "pool_free_block (h - 1) s (p1\<lparr>pool_data := d\<rparr>) = Some p2" "pool_rel p2 B1 (L(h := None)) (F1(s := (h - 1 + 1) # F1 s)) ({h - 1, b} - {h - 1})"
    "length (pool_data p2) = length d" "\<And>i. i \<noteq> h - 1 \<Longrightarrow> i \<noteq> h - 1 + 1 \<Longrightarrow> pool_data p2 ! i = d ! i"
    using rel_free [OF d2 _ hb sm] by (metis (no_types, lifting) insertI1 list_pool.select_convs(1) list_pool.surjective list_pool.update_convs(1))
  have "pool_realloc (h - 1) s t n p = Some (b, p2)"
    using cp n(1,3) ns p2(1) by (auto simp: pool_realloc_def a(1) d_def)
  moreover have "{h - 1, b} - {h - 1} = {b}" using ne by auto
  moreover have "pool_data p2 ! (b + i) = pool_data p ! (h - 1 + i)" if "i < n" for i
  proof -
    have "b + i \<noteq> h - 1" "b + i \<noteq> h - 1 + 1" using lim(3) that n(3) ns sclass_size_ge [of s] by auto
    moreover have "b + i < length (pool_data p1)" using lim(1) n(3) that by simp
    ultimately show ?thesis using p2(4) [of "b + i"] dn [of "b + i"] old [OF that] that by simp
  qed
  ultimately show thesis using that [of b p2 B1] p2(2,3) a(3,5,6) ld by (simp add: s_def)
qed

end
