(* ===== verification/Entity_List_Ops.thy ===== *)
theory Entity_List_Ops
  imports Entity_List_Inv
begin

text \<open>
  Every operation of a list in a pool, against the operation on a list of elements: the list it names changes as
  it should, no other list of the pool changes, and it succeeds while the pool stays below 2 to the 32 words.
\<close>

section \<open>Lists in the pool\<close>

definition pool_holds :: "list_pool \<Rightarrow> (nat \<rightharpoonup> nat list) \<Rightarrow> bool" where
  "pool_holds p L \<longleftrightarrow> (\<exists>B F. pool_rel p B L F {})"

definition contents :: "(nat \<rightharpoonup> nat list) \<Rightarrow> nat \<Rightarrow> nat list option" where
  "contents L h = (if h = 0 then Some [] else L h)"

text \<open>
  List \<open>h\<close> becomes \<open>h'\<close> with elements \<open>ys\<close>, no other list changes, and the pool grows by no more than the block
  of a list of length \<open>m\<close>.
\<close>

definition list_result :: "(nat \<rightharpoonup> nat list) \<Rightarrow> nat \<Rightarrow> nat list \<Rightarrow> nat \<Rightarrow> list_pool \<Rightarrow> nat \<Rightarrow> list_pool \<Rightarrow> bool" where
  "list_result L h ys m p h' p' \<longleftrightarrow> pool_holds p' (if ys = [] then L(h := None) else L(h := None, h' \<mapsto> ys)) \<and>
     (h' = 0 \<longleftrightarrow> ys = []) \<and> (h' = 0 \<or> h' = h \<or> L h' = None) \<and> length (pool_data p') \<le> length (pool_data p) + 4 + 2 * m"

lemma contents_cases:
  assumes "pool_holds p L" "contents L h = Some xs"
  obtains (empty) "h = 0" "xs = []" "L(h := None) = L" | (live) "L h = Some xs" "0 < h" "xs \<noteq> []"
proof -
  have "L 0 = None"
  proof (rule ccontr)
    assume "L 0 \<noteq> None"
    then obtain ys where "L 0 = Some ys" by blast
    then show False using assms(1) live_okD(1) [OF pool_relD(2)] by (fastforce simp: pool_holds_def)
  qed
  then show thesis using assms that live_okD(2) [OF pool_relD(2)]
    by (cases "h = 0") (auto simp: contents_def pool_holds_def fun_upd_idem)
qed

lemma held:
  assumes "pool_holds p L" "L h = Some xs"
  shows "0 < h" "h + length xs \<le> length (pool_data p)" "list_at (pool_data p) h xs" "length xs < 2 ^ 32 - 1"
    "len_of h p = Some (length xs)" "as_slice h p = Some xs" "xs \<noteq> []"
proof -
  obtain B F where rel: "pool_rel p B L F {}" using assms(1) by (auto simp: pool_holds_def)
  note l = live_okD [OF pool_relD(2) [OF rel] assms(2)]
  show h: "0 < h" "list_at (pool_data p) h xs" "length xs < 2 ^ 32 - 1" by (fact l)+
  show "xs \<noteq> []" by (fact l)
  show n: "h + length xs \<le> length (pool_data p)" using tiled_okD(1) [OF pool_relD(1) [OF rel] l(4)] l(1,6) by simp
  show len: "len_of h p = Some (length xs)" using h(1,2) n l(2) by (cases xs) (auto simp: len_of_def vec_get_def list_at_def)
  have "take (length xs) (drop h (pool_data p)) = xs" using h(2) n by (intro nth_equalityI) (auto simp: list_at_def)
  then show "as_slice h p = Some xs" using n by (simp add: as_slice_def len sub_slice_def)
qed

lemma contents_slice:
  assumes "pool_holds p L" "contents L h = Some xs"
  shows "as_slice h p = Some xs" "list_len h p = length xs"
proof -
  have "as_slice h p = Some xs \<and> list_len h p = length xs"
    using assms
  proof (cases rule: contents_cases)
    case empty
    then show ?thesis by (simp add: as_slice_def list_len_def len_of_def)
  next
    case live
    then show ?thesis using held(5,6) [OF assms(1) live(1)] by (simp add: list_len_def)
  qed
  then show "as_slice h p = Some xs" "list_len h p = length xs" by simp_all
qed

lemma filled:
  assumes rel: "pool_rel p B L F {b}" "B b = Some (sclass_for_length (length ys))" and ys: "ys \<noteq> []" "length ys < 2 ^ 32 - 1"
    and d: "length d = length (pool_data p)" "\<And>i. i < b \<or> b + length ys < i \<Longrightarrow> d ! i = pool_data p ! i" "list_at d (b + 1) ys"
  shows "pool_holds (p\<lparr>pool_data := d\<rparr>) (L(b + 1 \<mapsto> ys))"
proof -
  have n: "length ys < sclass_size (sclass_for_length (length ys))" by (rule sclass_bounds(1) [OF _ refl]) (use ys(2) in simp)
  have "pool_rel (p\<lparr>pool_data := d\<rparr>) B L F {b}"
    by (rule rel_write_block [OF rel(1) d(1) _ rel(2)]) (use d(2) n in auto)
  from rel_own [OF this _ rel(2) ys] d(3) show ?thesis by (auto simp: pool_holds_def)
qed

lemma sclass_size_bound: "0 < m \<Longrightarrow> m < 2 ^ 32 \<Longrightarrow> sclass_size (sclass_for_length m) \<le> 4 + 2 * m"
  using sclass_bounds(2) [of m "sclass_for_length m"] by (auto simp: sclass_size_def)

lemma block_limit:
  assumes "pool_rel p B L F U" "B b = Some (sclass_for_length m)" "m < 2 ^ 32" shows "b + m < length (pool_data p)"
  using tiled_okD(1) [OF pool_relD(1) [OF assms(1)] assms(2)] sclass_bounds(1) [OF assms(3) refl] by simp

text \<open>Room for a list of length \<open>m\<close>.\<close>

definition room :: "list_pool \<Rightarrow> nat \<Rightarrow> bool" where
  "room p m \<longleftrightarrow> length (pool_data p) + 4 + 2 * m < 2 ^ 32"

lemma room_len: "room p m \<Longrightarrow> m < 2 ^ 32 - 1" "room p m \<Longrightarrow> k \<le> m \<Longrightarrow> room p k"
  by (auto simp: room_def)

text \<open>A new block for a list of length \<open>m\<close>.\<close>

lemma fresh_block:
  assumes "pool_holds p L" "0 < m" and room: "room p m"
  obtains b p1 B F where "pool_alloc (sclass_for_length m) p = Some (b, p1)" "pool_rel p1 B L F {b}" "B b = Some (sclass_for_length m)"
    "L (b + 1) = None" "length (pool_data p1) \<le> length (pool_data p) + 4 + 2 * m" "b + m < length (pool_data p1)" "list_index b = b + 1"
    "\<forall>i < length (pool_data p). pool_data p1 ! i = pool_data p ! i"
proof -
  obtain B0 F0 where rel: "pool_rel p B0 L F0 {}" using assms(1) by (auto simp: pool_holds_def)
  obtain b p1 B F where a: "pool_alloc (sclass_for_length m) p = Some (b, p1)" "pool_rel p1 B L F {b}" "B b = Some (sclass_for_length m)"
    "L (b + 1) = None" "length (pool_data p1) \<le> length (pool_data p) + sclass_size (sclass_for_length m)"
    "\<And>i. i < length (pool_data p) \<Longrightarrow> pool_data p1 ! i = pool_data p ! i"
    using rel_alloc [OF rel, of "sclass_for_length m"] by metis
  have l: "length (pool_data p1) \<le> length (pool_data p) + 4 + 2 * m" using a(5) sclass_size_bound [of m] assms(2) room_len(1) [OF room] by simp
  have b: "b + m < length (pool_data p1)" by (rule block_limit [OF a(2,3)]) (use room_len(1) [OF room] in simp)
  have "list_index b = b + 1" using l b room by (simp add: list_index_def room_def)
  then show thesis using that a l b by blast
qed

text \<open>The block of a list whose length becomes \<open>m\<close>: moved when the size class changes, which is tested by \<open>c\<close>.\<close>

lemma resized:
  assumes holds: "pool_holds p L" "L h = Some xs" and m: "0 < m" and room: "room p m" and n: "0 < n" "n \<le> length xs + 1" "n \<le> m + 1"
    and c: "c \<longleftrightarrow> sclass_for_length m \<noteq> sclass_for_length (length xs)" "c \<Longrightarrow> t = sclass_for_length m"
  obtains b p1 B F where "(if c then do { (b, p) \<leftarrow> pool_realloc (h - 1) (sclass_for_length (length xs)) t n p; Some (b, list_index b, p) }
      else Some (h - 1, h, p)) = Some (b, b + 1, p1)"
    "pool_rel p1 B (L(h := None)) F {b}" "B b = Some (sclass_for_length m)" "b + 1 = h \<or> L (b + 1) = None"
    "length (pool_data p1) \<le> length (pool_data p) + 4 + 2 * m" "b + m < length (pool_data p1)"
    "\<And>i. i < n \<Longrightarrow> pool_data p1 ! (b + i) = pool_data p ! (h - 1 + i)"
proof -
  obtain B0 F0 where rel: "pool_rel p B0 L F0 {}" using holds(1) by (auto simp: pool_holds_def)
  note l = live_okD [OF pool_relD(2) [OF rel] holds(2)]
  have m32: "m < 2 ^ 32" using room_len(1) [OF room] by simp
  have small: "length (pool_data p) + 4 + 2 * m < 2 ^ 32" using room by (simp add: room_def)
  show thesis
  proof (cases c)
    case False
    have d: "pool_rel p B0 (L(h := None)) F0 {h - 1}" using rel_disown [OF rel holds(2)] by simp
    have B: "B0 (h - 1) = Some (sclass_for_length m)" using l(4) c(1) False by simp
    show thesis using that [OF _ d B] block_limit [OF d B m32] False l(1) by simp
  next
    case True
    have ns: "n \<le> sclass_size t" using n(3) sclass_bounds(1) [OF m32 refl] c(2) [OF True] by simp
    have sm: "length (pool_data p) + sclass_size t < 2 ^ 32" using small sclass_size_bound [OF m m32] c(2) [OF True] by simp
    obtain b p' B' F' where r: "pool_realloc (h - 1) (sclass_for_length (length xs)) t n p = Some (b, p')"
      "pool_rel p' B' (L(h := None)) F' {b}" "B' b = Some t" "L (b + 1) = None"
      "length (pool_data p') \<le> length (pool_data p) + sclass_size t"
      "\<And>i. i < n \<Longrightarrow> pool_data p' ! (b + i) = pool_data p ! (h - 1 + i)"
      using rel_realloc [OF rel holds(2) n(1,2) ns sm] by metis
    have B: "B' b = Some (sclass_for_length m)" using r(3) c(2) [OF True] by simp
    have lim: "b + m < length (pool_data p')" "length (pool_data p') \<le> length (pool_data p) + 4 + 2 * m"
      using block_limit [OF r(2) B m32] r(5) sclass_size_bound [OF m m32] c(2) [OF True] by simp_all
    then have "list_index b = b + 1" using small by (simp add: list_index_def)
    then show thesis using that [OF _ r(2) B] r(1,4,6) lim True by simp
  qed
qed

section \<open>The operations\<close>

lemma zero_less_add_one: "0 < n + (1 :: nat)"
  by simp

lemma push_ok:
  assumes holds: "pool_holds p L" "contents L h = Some xs" and room: "room p (length xs + 1)"
  obtains h' p' where "push h x p = Some (length xs, h', p')" "list_result L h (xs @ [x]) (length xs + 1) p h' p'"
  using holds
proof (cases rule: contents_cases)
  case empty
  obtain b p1 B F where a: "pool_alloc (sclass_for_length 1) p = Some (b, p1)" "pool_rel p1 B L F {b}" "B b = Some (sclass_for_length 1)"
    "L (b + 1) = None" "length (pool_data p1) \<le> length (pool_data p) + 4 + 2 * 1" "b + 1 < length (pool_data p1)" "list_index b = b + 1"
    using fresh_block [OF holds(1) zero_less_one] room by (metis empty(2) list.size(3) add_0)
  let ?d = "(pool_data p1)[b := 1, b + 1 := x]"
  have "pool_holds (p1\<lparr>pool_data := ?d\<rparr>) (L(b + 1 \<mapsto> [x]))"
    by (rule filled [OF a(2)]) (use a(3,6) in \<open>auto simp: list_at_def nth_list_update\<close>)
  moreover have "push h x p = Some (0, b + 1, p1\<lparr>pool_data := ?d\<rparr>)"
    using a by (simp add: push_def len_of_def empty entity_new_def vec_set_def)
  ultimately show thesis using that a(4,5) empty by (simp add: list_result_def fun_upd_idem)
next
  case live
  let ?n = "length xs"
  have step: "is_sclass_min_length (?n + 1) \<longleftrightarrow> sclass_for_length (?n + 1) \<noteq> sclass_for_length ?n"
    "is_sclass_min_length (?n + 1) \<Longrightarrow> sclass_for_length ?n + 1 = sclass_for_length (?n + 1)"
    using sclass_step [of ?n] room_len(1) [OF room] live(3) by (simp_all add: Suc_le_eq)
  obtain b p1 B F where a: "(if is_sclass_min_length (?n + 1) then do { (b, p) \<leftarrow> pool_realloc (h - 1) (sclass_for_length ?n) (sclass_for_length ?n + 1) (?n + 1) p; Some (b, list_index b, p) }
      else Some (h - 1, h, p)) = Some (b, b + 1, p1)"
    "pool_rel p1 B (L(h := None)) F {b}" "B b = Some (sclass_for_length (?n + 1))" "b + 1 = h \<or> L (b + 1) = None"
    "length (pool_data p1) \<le> length (pool_data p) + 4 + 2 * (?n + 1)" "b + (?n + 1) < length (pool_data p1)"
    "\<And>i. i < ?n + 1 \<Longrightarrow> pool_data p1 ! (b + i) = pool_data p ! (h - 1 + i)"
    using resized [OF holds(1) live(1) _ room _ _ _ step, OF zero_less_add_one zero_less_add_one order_refl le_add1] by blast
  note hl = held [OF holds(1) live(1)]
  let ?d = "(pool_data p1)[b + (?n + 1) := x, b := ?n + 1]"
  have el: "pool_data p1 ! (b + 1 + i) = xs ! i" if "i < ?n" for i
    using a(7) [of "i + 1"] that hl(1,3) by (simp add: list_at_def)
  have "pool_holds (p1\<lparr>pool_data := ?d\<rparr>) (L(h := None, b + 1 \<mapsto> xs @ [x]))"
    by (rule filled [OF a(2)]) (use a(3,6) el room_len(1) [OF room] in \<open>auto simp: list_at_def nth_list_update nth_append less_Suc_eq\<close>)
  moreover have "push h x p = Some (?n, b + 1, p1\<lparr>pool_data := ?d\<rparr>)"
    using a(6) room_len(1) [OF room] unfolding push_def hl(5) option.case Let_def a(1) by (simp add: entity_new_def vec_set_def)
  ultimately show thesis using that a(4,5) by (simp add: list_result_def)
qed

section \<open>The loops\<close>

lemma move_up_nth:
  assumes "lo + n \<le> length s" "count \<le> lo" "j < length s"
  shows "move_up count lo n s ! j = (if lo \<le> j \<and> j < lo + n then s ! (j - count) else s ! j)"
  using assms
proof (induction n arbitrary: s)
  case (Suc n)
  let ?s = "s[lo + n := s ! (lo + n - count)]"
  have "move_up count lo n ?s ! j = (if lo \<le> j \<and> j < lo + n then ?s ! (j - count) else ?s ! j)"
    using Suc by simp
  then show ?case using Suc.prems by (auto simp: nth_list_update less_Suc_eq)
qed auto

lemma length_move_up [simp]: "length (move_up count lo n s) = length s"
  by (induction n arbitrary: s) simp_all

lemma move_up_gap:
  assumes "index \<le> length xs" "length zs = count"
  shows "\<exists>ws. length ws = count \<and>
    move_up count (index + count) (length (xs @ zs) - (index + count)) (xs @ zs) = take index xs @ ws @ drop index xs"
proof -
  let ?s = "xs @ zs" and ?m = "move_up count (index + count) (length (xs @ zs) - (index + count)) (xs @ zs)"
  have nth: "?m ! j = (if index + count \<le> j then ?s ! (j - count) else ?s ! j)" if "j < length ?s" for j
    using move_up_nth [of "index + count" "length ?s - (index + count)" ?s count j] assms that by auto
  have "?m = take index xs @ take count (drop index ?s) @ drop index xs"
  proof (rule nth_equalityI)
    fix j assume "j < length ?m"
    then have j: "j < length xs + count" using assms by simp
    consider "j < index" | "index \<le> j" "j < index + count" | "index + count \<le> j" by linarith
    then show "?m ! j = (take index xs @ take count (drop index ?s) @ drop index xs) ! j"
    proof cases
      case 1
      then show ?thesis using assms nth [of j] by (simp add: nth_append)
    next
      case 2
      have "(take index xs @ take count (drop index s) @ drop index xs) ! j = s ! j" if "length s = length xs + count" for s
      proof -
        have "j - index < length (take count (drop index s))" using 2 assms that by auto
        moreover have "index \<le> length s" using that assms by simp
        ultimately show ?thesis using 2 assms by (simp add: nth_append)
      qed
      from this [of ?s] have "(take index xs @ take count (drop index ?s) @ drop index xs) ! j = ?s ! j" using assms by simp
      then show ?thesis using 2 assms nth [of j] j by simp
    next
      case 3
      have "(take index xs @ ws @ drop index xs) ! j = drop index xs ! (j - (index + count))" if "length ws = count" for ws
        using 3 assms that by (auto simp: nth_append)
      from this [of "take count (drop index ?s)"]
      have "(take index xs @ take count (drop index ?s) @ drop index xs) ! j = drop index xs ! (j - (index + count))" using assms by simp
      also have "\<dots> = xs ! (j - count)" using 3 assms j by simp
      also have "\<dots> = ?s ! (j - count)"
      proof -
        have "j - count < length xs" using 3 j by linarith
        then show ?thesis by (simp add: nth_append)
      qed
      finally show ?thesis using 3 assms nth [of j] j by (simp only: length_append if_True)
    qed
  qed (use assms in simp)
  then show ?thesis using assms by (intro exI [of _ "take count (drop index ?s)"]) simp
qed

lemma shift_up_nth:
  "i < length t \<Longrightarrow> j < length t \<Longrightarrow> shift_up i t ! j = (if 1 \<le> j \<and> j \<le> i then t ! (j - 1) else t ! j)"
proof (induction i arbitrary: t)
  case (Suc i)
  have "shift_up i (t[Suc i := t ! i]) ! j = (if 1 \<le> j \<and> j \<le> i then t[Suc i := t ! i] ! (j - 1) else t[Suc i := t ! i] ! j)"
    using Suc by simp
  then show ?case using Suc.prems by (auto simp: nth_list_update le_Suc_eq)
qed auto

lemma length_shift_up [simp]: "length (shift_up i t) = length t"
  by (induction i arbitrary: t) simp_all

lemma shift_up_insert: "(shift_up (length ys) (ys @ [x]))[0 := x] = x # ys"
proof (rule nth_equalityI)
  fix j assume "j < length ((shift_up (length ys) (ys @ [x]))[0 := x])"
  then show "(shift_up (length ys) (ys @ [x]))[0 := x] ! j = (x # ys) ! j"
    by (cases j) (auto simp: shift_up_nth nth_append)
qed simp

lemma shift_down_nth:
  "i + n < length s \<Longrightarrow> j < length s \<Longrightarrow> shift_down i n s ! j = (if i \<le> j \<and> j < i + n then s ! Suc j else s ! j)"
proof (induction n arbitrary: i s)
  case (Suc n)
  have "shift_down (Suc i) n (s[i := s ! Suc i]) ! j =
      (if Suc i \<le> j \<and> j < Suc i + n then s[i := s ! Suc i] ! Suc j else s[i := s ! Suc i] ! j)"
    using Suc by simp
  then show ?case using Suc.prems by (auto simp: nth_list_update)
qed auto

lemma length_shift_down [simp]: "length (shift_down i n s) = length s"
  by (induction n arbitrary: i s) simp_all

lemma shift_down_remove:
  assumes "i < length s" shows "butlast (shift_down i (length s - 1 - i) s) = take i s @ drop (Suc i) s"
proof (rule nth_equalityI)
  fix j assume "j < length (butlast (shift_down i (length s - 1 - i) s))"
  then show "butlast (shift_down i (length s - 1 - i) s) ! j = (take i s @ drop (Suc i) s) ! j"
    using assms shift_down_nth [of i "length s - 1 - i" s j] by (auto simp: nth_butlast nth_append min_def)
qed (use assms in simp)

lemma swap_butlast:
  assumes "i < length s"
  shows "butlast (if i \<noteq> length s - 1 then s[i := s ! (length s - 1), length s - 1 := s ! i] else s) = (butlast s)[i := last s]"
proof -
  have l: "last s = s ! (length s - 1)" using assms by (intro last_conv_nth) auto
  show ?thesis
    by (rule nth_equalityI) (use assms l in \<open>auto simp: nth_butlast nth_list_update\<close>)
qed

section \<open>Writing through a slice\<close>

lemma put_slice_ok:
  assumes holds: "pool_holds p L" "L h = Some xs" and ys: "length ys = length xs"
  shows "pool_holds (put_slice h ys p) (L(h \<mapsto> ys))" "length (pool_data (put_slice h ys p)) = length (pool_data p)"
proof -
  obtain B F where rel: "pool_rel p B L F {}" using holds(1) by (auto simp: pool_holds_def)
  note l = live_okD [OF pool_relD(2) [OF rel] holds(2)] and hl = held [OF holds]
  let ?d = "write_at (pool_data p) h ys"
  show len: "length (pool_data (put_slice h ys p)) = length (pool_data p)" using hl(2) ys by (simp add: put_slice_def)
  have nth: "?d ! i = (if h \<le> i \<and> i < h + length ys then ys ! (i - h) else pool_data p ! i)" if "i < length (pool_data p)" for i
    using nth_write_at [of h ys "pool_data p" i] hl(2) ys that by simp
  have dis: "pool_rel p B (L(h := None)) F {h - 1}" using rel_disown [OF rel holds(2)] by simp
  have w: "pool_rel (p\<lparr>pool_data := ?d\<rparr>) B (L(h := None)) F {h - 1}"
    by (rule rel_write_block [where b = "h - 1", OF dis _ _ l(4)]) (use hl(1,2) ys l(6) nth in auto)
  have "list_at ?d h ys" using hl(1,2,3) ys nth by (auto simp: list_at_def)
  moreover have "ys \<noteq> []" using l(2) ys by auto
  ultimately show "pool_holds (put_slice h ys p) (L(h \<mapsto> ys))"
    using rel_own [OF w, of "h - 1" ys] l(1-4) ys by (auto simp: pool_holds_def put_slice_def)
qed

lemma put_slice_contents:
  assumes "pool_holds p L" "contents L h = Some xs" "length ys = length xs"
  shows "pool_holds (put_slice h ys p) (if ys = [] then L else L(h \<mapsto> ys))"
    "length (pool_data (put_slice h ys p)) = length (pool_data p)"
proof -
  have "pool_holds (put_slice h ys p) (if ys = [] then L else L(h \<mapsto> ys)) \<and> length (pool_data (put_slice h ys p)) = length (pool_data p)"
    using assms(1,2)
  proof (cases rule: contents_cases)
    case empty
    then show ?thesis using assms(1,3) by (simp add: put_slice_def write_at_def)
  next
    case live
    then show ?thesis using put_slice_ok [OF assms(1) live(1) assms(3)] assms(3) by auto
  qed
  then show "pool_holds (put_slice h ys p) (if ys = [] then L else L(h \<mapsto> ys))"
    "length (pool_data (put_slice h ys p)) = length (pool_data p)" by simp_all
qed

text \<open>What an operation leaves can be overwritten element by element.\<close>

lemma list_result_contents:
  assumes "list_result L h ys m p h' p'"
  shows "pool_holds p' (if ys = [] then L(h := None) else L(h := None, h' \<mapsto> ys))"
    "contents (if ys = [] then L(h := None) else L(h := None, h' \<mapsto> ys)) h' = Some ys" "as_slice h' p' = Some ys"
proof -
  show holds: "pool_holds p' (if ys = [] then L(h := None) else L(h := None, h' \<mapsto> ys))" using assms by (simp add: list_result_def)
  show c: "contents (if ys = [] then L(h := None) else L(h := None, h' \<mapsto> ys)) h' = Some ys"
    using assms by (auto simp: list_result_def contents_def)
  show "as_slice h' p' = Some ys" by (rule contents_slice(1) [OF holds c])
qed

lemma put_slice_result:
  assumes "list_result L h ys m p h' p'" "length zs = length ys"
  shows "list_result L h zs m p h' (put_slice h' zs p')"
  using put_slice_contents [OF list_result_contents(1,2) [OF assms(1)] assms(2)] assms by (auto simp: list_result_def)

section \<open>Shrinking\<close>

lemma clear_ok:
  assumes holds: "pool_holds p L" "contents L h = Some xs" and small: "length (pool_data p) < 2 ^ 32"
  obtains p' where "list_clear h p = Some (0, p')" "list_result L h [] m p 0 p'"
  using holds
proof (cases rule: contents_cases)
  case empty
  then show thesis using that [of p] holds(1) by (simp add: list_clear_def len_of_def list_result_def)
next
  case live
  obtain B F where rel: "pool_rel p B L F {}" using holds(1) by (auto simp: pool_holds_def)
  note l = live_okD [OF pool_relD(2) [OF rel] live(1)]
  obtain p' F' where p': "pool_free_block (h - 1) (sclass_for_length (length xs)) p = Some p'" "pool_rel p' B (L(h := None)) F' ({h - 1} - {h - 1})"
    "length (pool_data p') = length (pool_data p)"
    using rel_free [OF rel_disown [OF rel live(1)] insertI1 l(4) small] by metis
  then show thesis using that [of p'] held(5) [OF holds(1) live(1)]
    by (auto simp: list_clear_def list_result_def pool_holds_def)
qed

lemma shorten_ok:
  assumes holds: "pool_holds p L" "L h = Some xs" and m: "0 < m" "m < length xs" and room: "room p m"
    and c: "c \<longleftrightarrow> sclass_for_length m \<noteq> sclass_for_length (length xs)" "c \<Longrightarrow> t = sclass_for_length m"
  obtains b p1 where "(if c then do { (b, p) \<leftarrow> pool_realloc (h - 1) (sclass_for_length (length xs)) t (m + 1) p; Some (b, list_index b, p) }
      else Some (h - 1, h, p)) = Some (b, b + 1, p1)" "b < length (pool_data p1)"
    "list_result L h (take m xs) m p (b + 1) (p1\<lparr>pool_data := (pool_data p1)[b := m]\<rparr>)"
proof -
  have le: "m + 1 \<le> length xs + 1" using m(2) by simp
  obtain b p1 B F where a: "(if c then do { (b, p) \<leftarrow> pool_realloc (h - 1) (sclass_for_length (length xs)) t (m + 1) p; Some (b, list_index b, p) }
      else Some (h - 1, h, p)) = Some (b, b + 1, p1)"
    "pool_rel p1 B (L(h := None)) F {b}" "B b = Some (sclass_for_length m)" "b + 1 = h \<or> L (b + 1) = None"
    "length (pool_data p1) \<le> length (pool_data p) + 4 + 2 * m" "b + m < length (pool_data p1)"
    "\<And>i. i < m + 1 \<Longrightarrow> pool_data p1 ! (b + i) = pool_data p ! (h - 1 + i)"
    using resized [OF holds m(1) room zero_less_add_one le order_refl c] by blast
  note hl = held [OF holds]
  have el: "pool_data p1 ! (b + 1 + i) = xs ! i" if "i < m" for i
    using a(7) [of "i + 1"] that hl(1,3) m(2) by (simp add: list_at_def)
  have "pool_holds (p1\<lparr>pool_data := (pool_data p1)[b := m]\<rparr>) (L(h := None, b + 1 \<mapsto> take m xs))"
    by (rule filled [OF a(2)]) (use a(3,6) el m room_len(1) [OF room] in \<open>auto simp: list_at_def\<close>)
  moreover have "take m xs \<noteq> []" using m by auto
  ultimately show thesis using that [OF a(1)] a(4-6) by (simp add: list_result_def)
qed

lemma remove_last_ok:
  assumes holds: "pool_holds p L" "L h = Some xs" and room: "room p (length xs)"
  obtains h' p' where "remove_last h (length xs) p = Some (h', p')" "list_result L h (butlast xs) (length xs) p h' p'"
proof (cases "length xs = 1")
  case True
  have small: "length (pool_data p) < 2 ^ 32" using room by (simp add: room_def)
  have "contents L h = Some xs" using held(1) [OF holds] holds(2) by (simp add: contents_def)
  then obtain p' where "list_clear h p = Some (0, p')" "list_result L h [] (length xs) p 0 p'"
    using clear_ok [OF holds(1) _ small] by blast
  moreover have "butlast xs = []" using True by (cases xs) auto
  ultimately show thesis using that True by (simp add: remove_last_def)
next
  case False
  let ?n = "length xs"
  have "?n \<noteq> 0" using held(7) [OF holds] by simp
  then have n: "1 < ?n" using False by linarith
  have e: "?n - 1 + 1 = ?n" "1 \<le> ?n - 1" "?n < 2 ^ 32" using n room_len(1) [OF room] by simp_all
  have sc: "sclass_for_length ?n = (if is_sclass_min_length ?n then sclass_for_length (?n - 1) + 1 else sclass_for_length (?n - 1))"
    using sclass_step [of "?n - 1", unfolded e(1), OF e(2,3)] .
  have step: "is_sclass_min_length ?n \<longleftrightarrow> sclass_for_length (?n - 1) \<noteq> sclass_for_length ?n"
    "is_sclass_min_length ?n \<Longrightarrow> sclass_for_length ?n - 1 = sclass_for_length (?n - 1)"
    using sc by simp_all
  have r1: "room p (?n - 1)" by (rule room_len(2) [OF room]) simp
  have m: "0 < ?n - 1" "?n - 1 < ?n" using n by simp_all
  obtain b p1 where a: "(if is_sclass_min_length ?n then do { (b, p) \<leftarrow> pool_realloc (h - 1) (sclass_for_length ?n) (sclass_for_length ?n - 1) (?n - 1 + 1) p; Some (b, list_index b, p) }
      else Some (h - 1, h, p)) = Some (b, b + 1, p1)" "b < length (pool_data p1)"
    "list_result L h (take (?n - 1) xs) (?n - 1) p (b + 1) (p1\<lparr>pool_data := (pool_data p1)[b := ?n - 1]\<rparr>)"
    using shorten_ok [OF holds m r1 step] by blast
  have "remove_last h ?n p = Some (b + 1, p1\<lparr>pool_data := (pool_data p1)[b := ?n - 1]\<rparr>)"
    using a(1) [unfolded e(1)] a(2) False held(1) [OF holds] room_len(1) [OF room]
    unfolding remove_last_def by (simp add: entity_new_def vec_set_def Suc_le_eq)
  then show thesis using that a(3) by (auto simp: list_result_def butlast_conv_take)
qed

lemma truncate_ok:
  assumes holds: "pool_holds p L" "contents L h = Some xs" and room: "room p (length xs)"
  obtains h' p' where "list_truncate h k p = Some (h', p')" "list_result L h (take k xs) (length xs) p h' p'"
proof (cases "k = 0")
  case True
  have "length (pool_data p) < 2 ^ 32" using room by (simp add: room_def)
  then obtain p' where "list_clear h p = Some (0, p')" "list_result L h [] (length xs) p 0 p'" using clear_ok [OF holds] by blast
  then show thesis using that True by (simp add: list_truncate_def)
next
  case False
  show thesis using holds
  proof (cases rule: contents_cases)
    case empty
    then show thesis using that [of 0 p] holds(1) False by (simp add: list_truncate_def len_of_def list_result_def)
  next
    case live
    note hl = held [OF holds(1) live(1)]
    show thesis
    proof (cases "length xs \<le> k")
      case True
      then show thesis using that [of h p] False hl(5) live holds(1)
        by (simp add: list_truncate_def list_result_def fun_upd_idem)
    next
      case k: False
      have m: "0 < k" "k < length xs" using False k by simp_all
      have r: "room p k" by (rule room_len(2) [OF room]) (use m in simp)
      obtain b p1 where a: "(if sclass_for_length (length xs) \<noteq> sclass_for_length k then do { (b, p) \<leftarrow> pool_realloc (h - 1) (sclass_for_length (length xs)) (sclass_for_length k) (k + 1) p; Some (b, list_index b, p) }
          else Some (h - 1, h, p)) = Some (b, b + 1, p1)" "b < length (pool_data p1)"
        "list_result L h (take k xs) k p (b + 1) (p1\<lparr>pool_data := (pool_data p1)[b := k]\<rparr>)"
        using shorten_ok [OF holds(1) live(1) m r neq_commute refl] by blast
      have "list_truncate h k p = Some (b + 1, p1\<lparr>pool_data := (pool_data p1)[b := k]\<rparr>)"
        using m room_len(1) [OF r] a(2) unfolding list_truncate_def hl(5) option.case Let_def a(1)
        by (simp add: entity_new_def vec_set_def)
      then show thesis using that a(3) m by (auto simp: list_result_def)
    qed
  qed
qed

section \<open>Growing\<close>

lemma drop_take_nth: "i + n \<le> length d \<Longrightarrow> j < n \<Longrightarrow> take n (drop i d) ! j = d ! (i + j)"
  by simp

lemma holds_zero: "pool_holds p L \<Longrightarrow> L 0 = None"
  using held(1) [of p L 0] by (cases "L 0") auto

lemma grow_empty_ok:
  assumes "pool_holds p L" "0 < count" "room p count"
  obtains h' p' zs where "grow 0 count p = Some (h', count, p')" "length zs = count" "list_result L 0 zs count p h' p'"
proof -
  have c: "0 < count" "room p count" by (fact assms)+
  obtain b p1 B F where a: "pool_alloc (sclass_for_length count) p = Some (b, p1)" "pool_rel p1 B L F {b}" "B b = Some (sclass_for_length count)"
    "L (b + 1) = None" "length (pool_data p1) \<le> length (pool_data p) + 4 + 2 * count" "b + count < length (pool_data p1)" "list_index b = b + 1"
    "\<forall>i < length (pool_data p). pool_data p1 ! i = pool_data p ! i"
    by (rule fresh_block [OF assms(1) c]) (rule that)
  let ?d = "(pool_data p1)[b := count]"
  define z where "z = take count (drop (b + 1) (pool_data p1))"
  have z: "length z = count" "z \<noteq> []" "\<And>i. i < count \<Longrightarrow> z ! i = pool_data p1 ! (b + 1 + i)" using a(6) c(1) by (auto simp: z_def)
  have "pool_holds (p1\<lparr>pool_data := ?d\<rparr>) (L(b + 1 \<mapsto> z))"
  proof (rule filled [OF a(2)])
    show "list_at ?d (b + 1) z" using z a(6) by (simp add: list_at_def)
  qed (use a(3) z(1,2) room_len(1) [OF c(2)] in auto)
  moreover have "grow 0 count p = Some (b + 1, count, p1\<lparr>pool_data := ?d\<rparr>)"
    using a(1,6,7) assms(2) room_len(1) [OF c(2)] by (simp add: grow_def len_of_def entity_new_def vec_set_def)
  ultimately show thesis using that [of "b + 1" "p1\<lparr>pool_data := ?d\<rparr>" z] a(4,5) z(1,2) holds_zero [OF assms(1)] by (simp add: list_result_def fun_upd_idem)
qed

lemma grow_live_ok:
  assumes holds: "pool_holds p L" "L h = Some xs" and room: "room p (length xs + count)"
  obtains h' p' zs where "grow h count p = Some (h', length xs + count, p')" "length zs = count"
    "list_result L h (xs @ zs) (length xs + count) p h' p'"
proof -
  have ne: "xs \<noteq> []" by (rule held(7) [OF holds])
  let ?n = "length xs" and ?m = "length xs + count"
  have m: "0 < ?m" "?n + 1 \<le> ?m + 1" and n1: "0 < ?n + 1" using ne by simp_all
  obtain b p1 B F where a: "(if sclass_for_length ?m \<noteq> sclass_for_length ?n then do { (b, p) \<leftarrow> pool_realloc (h - 1) (sclass_for_length ?n) (sclass_for_length ?m) (?n + 1) p; Some (b, list_index b, p) }
      else Some (h - 1, h, p)) = Some (b, b + 1, p1)"
    "pool_rel p1 B (L(h := None)) F {b}" "B b = Some (sclass_for_length ?m)" "b + 1 = h \<or> L (b + 1) = None"
    "length (pool_data p1) \<le> length (pool_data p) + 4 + 2 * ?m" "b + ?m < length (pool_data p1)"
    "\<And>i. i < ?n + 1 \<Longrightarrow> pool_data p1 ! (b + i) = pool_data p ! (h - 1 + i)"
    using resized [OF holds(1) holds(2) m(1) room n1 order_refl m(2), where c = "sclass_for_length ?m \<noteq> sclass_for_length ?n" and t = "sclass_for_length ?m", OF refl refl] by blast
  note hl = held [OF holds(1) holds(2)]
  let ?d = "(pool_data p1)[b := ?m]"
  define z where "z = take count (drop (b + 1 + ?n) (pool_data p1))"
  have z: "length z = count" "\<And>i. i < count \<Longrightarrow> z ! i = pool_data p1 ! (b + 1 + ?n + i)" using a(6) by (auto simp: z_def)
  have el: "pool_data p1 ! (b + 1 + i) = xs ! i" if "i < ?n" for i
    using a(7) [of "i + 1"] that hl(1,3) by (simp add: list_at_def)
  have at: "?d ! (b + 1 + i) = (xs @ z) ! i" if "i < ?m" for i
  proof (cases "i < ?n")
    case True
    then show ?thesis using el by (simp add: nth_append)
  next
    case False
    then have "z ! (i - ?n) = pool_data p1 ! (b + 1 + i)" using z(2) [of "i - ?n"] that by simp
    then show ?thesis using False by (simp add: nth_append)
  qed
  have "pool_holds (p1\<lparr>pool_data := ?d\<rparr>) (L(h := None, b + 1 \<mapsto> xs @ z))"
  proof (rule filled [OF a(2)])
    show "list_at ?d (b + 1) (xs @ z)" using at a(6) z(1) by (simp add: list_at_def)
    show "B b = Some (sclass_for_length (length (xs @ z)))" unfolding length_append z(1) by (fact a(3))
    show "xs @ z \<noteq> []" using ne by simp
    show "length (xs @ z) < 2 ^ 32 - 1" unfolding length_append z(1) by (fact room_len(1) [OF room])
    show "?d ! i = pool_data p1 ! i" if "i < b \<or> b + length (xs @ z) < i" for i using that by auto
    show "length ?d = length (pool_data p1)" by simp
  qed
  moreover have "grow h count p = Some (b + 1, ?m, p1\<lparr>pool_data := ?d\<rparr>)"
    using a(6) room_len(1) [OF room] unfolding grow_def hl(5) option.case Let_def a(1) by (simp add: entity_new_def vec_set_def)
  ultimately show thesis using that [of "b + 1" "p1\<lparr>pool_data := ?d\<rparr>" z] z(1) a(4,5) ne by (simp add: list_result_def)
qed

lemma grow_ok:
  assumes holds: "pool_holds p L" "contents L h = Some xs" and room: "room p (length xs + count)"
  obtains h' p' zs where "grow h count p = Some (h', length xs + count, p')" "length zs = count"
    "list_result L h (xs @ zs) (length xs + count) p h' p'"
  using holds
proof (cases rule: contents_cases)
  case empty
  show thesis
  proof (cases "count = 0")
    case True
    then show thesis using that [of 0 p "[]"] holds(1) empty by (simp add: grow_def len_of_def list_result_def)
  next
    case False
    then have c: "0 < count" "room p count" using room empty(2) by simp_all
    show thesis by (rule grow_empty_ok [OF holds(1) c]) (use that empty in simp)
  qed
next
  case live
  show thesis by (rule grow_live_ok [OF holds(1) live(1) room]) (rule that)
qed

lemma result_sub_slice:
  assumes "list_result L h ys m p h' p'" shows "sub_slice (pool_data p') h' (length ys) = Some ys"
proof (cases "ys = []")
  case True
  then show ?thesis using assms by (simp add: list_result_def sub_slice_def)
next
  case False
  note r = list_result_contents [OF assms]
  have L: "(L(h := None, h' \<mapsto> ys)) h' = Some ys" by simp
  have "pool_holds p' (L(h := None, h' \<mapsto> ys))" using r(1) False by simp
  from held(5) [OF this L] r(3) show ?thesis by (simp add: as_slice_def)
qed

section \<open>Sequences of operations\<close>

lemma list_result_mono: "list_result L h ys m p h' p' \<Longrightarrow> m \<le> m' \<Longrightarrow> list_result L h ys m' p h' p'"
  by (auto simp: list_result_def)

lemma list_result_refl:
  assumes "pool_holds p L" "contents L h = Some xs" shows "list_result L h xs m p h p"
  using assms by (cases rule: contents_cases) (use assms(1) in \<open>auto simp: list_result_def fun_upd_idem\<close>)

lemma list_result_trans:
  assumes r1: "list_result L h ys m p h' p'"
    and r2: "list_result (if ys = [] then L(h := None) else L(h := None, h' \<mapsto> ys)) h' zs m' p' h'' p''"
  shows "list_result L h zs (m + m' + 2) p h'' p''"
proof -
  let ?L = "if ys = [] then L(h := None) else L(h := None, h' \<mapsto> ys)"
  have holds: "pool_holds p' ?L" and h': "h' = 0 \<longleftrightarrow> ys = []" "h' = 0 \<or> h' = h \<or> L h' = None" using r1 by (auto simp: list_result_def)
  have z: "?L 0 = None" by (rule holds_zero [OF holds])
  have upd: "?L(h' := None) = L(h := None)"
  proof (cases "ys = []")
    case True
    then show ?thesis using z h'(1) by (auto simp: fun_upd_idem)
  next
    case False
    then show ?thesis using h' by (auto simp: fun_eq_iff)
  qed
  have "h'' = 0 \<or> h'' = h' \<or> ?L h'' = None" using r2 unfolding list_result_def by (elim conjE)
  then have "h'' = 0 \<or> h'' = h \<or> L h'' = None" using h'(2) by (auto split: if_splits)
  moreover have "pool_holds p'' (if zs = [] then L(h := None) else L(h := None, h'' \<mapsto> zs))"
    using r2 unfolding list_result_def upd by simp
  moreover have "length (pool_data p'') \<le> length (pool_data p) + 4 + 2 * (m + m' + 2)" "h'' = 0 \<longleftrightarrow> zs = []"
    using r1 r2 unfolding list_result_def by simp_all
  ultimately show ?thesis unfolding list_result_def by (intro conjI)
qed

lemma push_all_ok:
  assumes "pool_holds p L" "contents L h = Some xs" "room p (length ys * (length xs + length ys + 3))"
  shows "\<exists>h' p'. push_all h ys p = Some (h', p') \<and> list_result L h (xs @ ys) (length ys * (length xs + length ys + 3)) p h' p'"
  using assms
proof (induction ys arbitrary: xs h p L)
  case Nil
  then show ?case using list_result_refl by simp
next
  case (Cons y ys)
  let ?n = "length xs" and ?k = "length ys"
  have le: "?n + 1 + ?k * (?n + 1 + ?k + 3) + 2 \<le> length (y # ys) * (?n + length (y # ys) + 3)" by (simp add: algebra_simps)
  have "room p (?n + 1)" by (rule room_len(2) [OF Cons.prems(3)]) (use le in linarith)
  then obtain h1 p1 where p: "push h y p = Some (?n, h1, p1)" "list_result L h (xs @ [y]) (?n + 1) p h1 p1"
    using push_ok [OF Cons.prems(1,2)] by blast
  let ?L = "if xs @ [y] = [] then L(h := None) else L(h := None, h1 \<mapsto> xs @ [y])"
  note c = list_result_contents(1,2) [OF p(2)]
  have "length (pool_data p1) \<le> length (pool_data p) + 4 + 2 * (?n + 1)" using p(2) by (simp add: list_result_def)
  then have "room p1 (?k * (length (xs @ [y]) + ?k + 3))" using Cons.prems(3) le unfolding room_def by (simp add: algebra_simps)
  then obtain h2 p2 where r: "push_all h1 ys p1 = Some (h2, p2)" "list_result ?L h1 ((xs @ [y]) @ ys) (?k * (length (xs @ [y]) + ?k + 3)) p1 h2 p2"
    using Cons.IH [OF c] by blast
  have "list_result L h (xs @ y # ys) (length (y # ys) * (?n + length (y # ys) + 3)) p h2 p2"
    using list_result_mono [OF list_result_trans [OF p(2) r(2)]] le by simp
  then show ?case using p(1) r(1) by simp
qed

section \<open>Extending, inserting and removing\<close>

lemma extend_list_ok:
  assumes "pool_holds p L" "contents L h = Some xs" "room p (length xs + length ys)"
  obtains h' p' where "list_extend True h ys p = Some (h', p')" "list_result L h (xs @ ys) (length xs + length ys) p h' p'"
proof -
  obtain h' p' zs where g: "grow h (length ys) p = Some (h', length xs + length ys, p')" "length zs = length ys"
    "list_result L h (xs @ zs) (length xs + length ys) p h' p'"
    by (rule grow_ok [OF assms]) (rule that)
  have s: "sub_slice (pool_data p') h' (length xs + length ys) = Some (xs @ zs)" using result_sub_slice [OF g(3)] g(2) by simp
  have w: "write_at (xs @ zs) (length xs + length ys - length ys) ys = xs @ ys" using g(2) by (simp add: write_at_def)
  have "list_extend True h ys p = Some (h', put_slice h' (xs @ ys) p')"
    unfolding list_extend_def g(1) using s w g(2) by simp
  moreover have "list_result L h (xs @ ys) (length xs + length ys) p h' (put_slice h' (xs @ ys) p')"
    by (rule put_slice_result [OF g(3)]) (simp add: g(2))
  ultimately show thesis using that by blast
qed

lemma insert_ok:
  assumes "pool_holds p L" "contents L h = Some xs" "room p (length xs + 1)" "i \<le> length xs"
  obtains h' p' where "list_insert h i x p = Some (h', p')" "list_result L h (take i xs @ x # drop i xs) (length xs + 1) p h' p'"
proof -
  obtain h' p' where r: "push h x p = Some (length xs, h', p')" "list_result L h (xs @ [x]) (length xs + 1) p h' p'"
    using push_ok [OF assms(1-3)] by blast
  have s: "as_slice h' p' = Some (xs @ [x])" by (rule list_result_contents(3) [OF r(2)])
  have d: "drop i (xs @ [x]) = drop i xs @ [x]" "take i (xs @ [x]) = take i xs" using assms(4) by simp_all
  have "list_insert h i x p = Some (h', put_slice h' (take i xs @ x # drop i xs) p')"
    unfolding list_insert_def r(1) using assms(4) by (simp add: s d shift_up_insert [of "drop i xs" x, simplified])
  moreover have "list_result L h (take i xs @ x # drop i xs) (length xs + 1) p h' (put_slice h' (take i xs @ x # drop i xs) p')"
    by (rule put_slice_result [OF r(2)]) (use assms(4) in simp)
  ultimately show thesis using that by blast
qed

lemma cut_last_ok:
  assumes holds: "pool_holds p L" "L h = Some xs" and room: "room p (length xs)" and ys: "length ys = length xs"
  obtains h' p' where "remove_last h (length xs) (put_slice h ys p) = Some (h', p')" "list_result L h (butlast ys) (length xs) p h' p'"
proof -
  note w = put_slice_ok [OF holds ys]
  have here: "(L(h \<mapsto> ys)) h = Some ys" by simp
  have r: "room (put_slice h ys p) (length ys)" using room w(2) ys by (simp add: room_def)
  obtain h' p' where "remove_last h (length ys) (put_slice h ys p) = Some (h', p')"
    "list_result (L(h \<mapsto> ys)) h (butlast ys) (length ys) (put_slice h ys p) h' p'"
    by (rule remove_last_ok [OF w(1) here r]) (rule that)
  then show thesis using that ys w(2) by (auto simp: list_result_def split: if_splits)
qed

lemma remove_ok:
  assumes "pool_holds p L" "contents L h = Some xs" "room p (length xs)" "i < length xs"
  obtains h' p' where "list_remove h i p = Some (h', p')" "list_result L h (take i xs @ drop (Suc i) xs) (length xs) p h' p'"
proof -
  have live: "L h = Some xs" using contents_cases [OF assms(1,2)] assms(4) by (metis length_0_conv not_less_zero)
  obtain h' p' where "remove_last h (length xs) (put_slice h (shift_down i (length xs - 1 - i) xs) p) = Some (h', p')"
    "list_result L h (butlast (shift_down i (length xs - 1 - i) xs)) (length xs) p h' p'"
    by (rule cut_last_ok [OF assms(1) live assms(3) length_shift_down]) (rule that)
  then show thesis using that contents_slice(1) [OF assms(1,2)] assms(4) unfolding shift_down_remove [OF assms(4)]
    by (simp add: list_remove_def)
qed

lemma swap_remove_ok:
  assumes "pool_holds p L" "contents L h = Some xs" "room p (length xs)" "i < length xs"
  obtains h' p' where "swap_remove h i p = Some (h', p')" "list_result L h ((butlast xs)[i := last xs]) (length xs) p h' p'"
proof -
  let ?s = "if i \<noteq> length xs - 1 then xs[i := xs ! (length xs - 1), length xs - 1 := xs ! i] else xs"
  have live: "L h = Some xs" using contents_cases [OF assms(1,2)] assms(4) by (metis length_0_conv not_less_zero)
  have l: "length ?s = length xs" by simp
  obtain h' p' where "remove_last h (length xs) (put_slice h ?s p) = Some (h', p')" "list_result L h (butlast ?s) (length xs) p h' p'"
    by (rule cut_last_ok [OF assms(1) live assms(3) l]) (rule that)
  then show thesis using that contents_slice(1) [OF assms(1,2)] assms(4)
    unfolding swap_butlast [OF assms(4)] by (simp add: swap_remove_def del: if_split)
qed

section \<open>New lists\<close>

lemma fresh_filled:
  assumes holds: "pool_holds p L" and xs: "xs \<noteq> []" and room: "room p (length xs)"
    and d: "d = write_at ((pool_data p1)[b := length xs]) (b + 1) xs"
    and a: "pool_rel p1 B L F {b}" "B b = Some (sclass_for_length (length xs))" "L (b + 1) = None"
      "length (pool_data p1) \<le> length (pool_data p) + 4 + 2 * length xs" "b + length xs < length (pool_data p1)"
  shows "list_result L 0 xs (length xs) p (b + 1) (p1\<lparr>pool_data := d\<rparr>)"
proof -
  have len: "length d = length (pool_data p1)" using a(5) by (simp add: d write_at_def)
  have nth: "d ! i = (if b + 1 \<le> i \<and> i < b + 1 + length xs then xs ! (i - (b + 1)) else (pool_data p1)[b := length xs] ! i)"
    if "i < length (pool_data p1)" for i
    unfolding d by (rule nth_write_at) (use a(5) that in simp_all)
  have out: "d ! i = pool_data p1 ! i" if "i < b \<or> b + length xs < i" for i
  proof (cases "i < length (pool_data p1)")
    case True
    then show ?thesis using nth [OF True] that by auto
  next
    case False
    then have "d = take i d @ []" "i - length d = i - length (pool_data p1)" using len by simp_all
    then show ?thesis using False len that a(5) unfolding d write_at_def by (auto simp: nth_append)
  qed
  have at: "list_at d (b + 1) xs" using a(5) nth xs len by (auto simp: list_at_def)
  have "pool_holds (p1\<lparr>pool_data := d\<rparr>) (L(b + 1 \<mapsto> xs))"
    using filled [OF a(1,2) xs room_len(1) [OF room] len _ at] out by blast
  then show ?thesis using xs a(3,4) len holds_zero [OF holds] by (simp add: list_result_def fun_upd_idem)
qed

lemma from_slice_ok:
  assumes holds: "pool_holds p L" and room: "room p (length xs)"
  obtains h' p' where "from_slice xs p = Some (h', p')" "list_result L 0 xs (length xs) p h' p'"
proof (cases "xs = []")
  case True
  then show thesis using that [of 0 p] holds holds_zero [OF holds] by (simp add: from_slice_def list_new_def list_result_def fun_upd_idem)
next
  case False
  then have c: "0 < length xs" by simp
  obtain b p1 B F where a: "pool_alloc (sclass_for_length (length xs)) p = Some (b, p1)" "pool_rel p1 B L F {b}" "B b = Some (sclass_for_length (length xs))"
    "L (b + 1) = None" "length (pool_data p1) \<le> length (pool_data p) + 4 + 2 * length xs" "b + length xs < length (pool_data p1)" "list_index b = b + 1"
    "\<forall>i < length (pool_data p). pool_data p1 ! i = pool_data p ! i"
    by (rule fresh_block [OF holds c room]) (rule that)
  let ?d = "write_at ((pool_data p1)[b := length xs]) (b + 1) xs"
  have "from_slice xs p = Some (b + 1, p1\<lparr>pool_data := ?d\<rparr>)"
    using a(1,6,7) False room_len(1) [OF room] by (simp add: from_slice_def entity_new_def vec_set_def)
  then show thesis using that fresh_filled [OF holds False room refl a(2-6)] by blast
qed

lemma deep_clone_ok:
  assumes holds: "pool_holds p L" "contents L h = Some xs" and room: "room p (length xs)"
  obtains h' p' where "deep_clone h p = Some (h', p')" "list_result L 0 xs (length xs) p h' p'"
  using holds
proof (cases rule: contents_cases)
  case empty
  then show thesis using that [of 0 p] holds by (simp add: deep_clone_def list_new_def len_of_def list_result_def)
next
  case live
  then have c: "0 < length xs" by simp
  obtain b p1 B F where a: "pool_alloc (sclass_for_length (length xs)) p = Some (b, p1)" "pool_rel p1 B L F {b}" "B b = Some (sclass_for_length (length xs))"
    "L (b + 1) = None" "length (pool_data p1) \<le> length (pool_data p) + 4 + 2 * length xs" "b + length xs < length (pool_data p1)" "list_index b = b + 1"
    "\<forall>i < length (pool_data p). pool_data p1 ! i = pool_data p ! i"
    by (rule fresh_block [OF holds(1) c room]) (rule that)
  let ?d = "(pool_data p1)[b := length xs]"
  have w: "pool_rel (p1\<lparr>pool_data := ?d\<rparr>) B L F {b}"
    by (rule rel_write_block [OF a(2) _ _ a(3)]) (use sclass_size_ge [of "sclass_for_length (length xs)"] in \<open>auto simp: nth_list_update\<close>)
  note l = live_okD [OF pool_relD(2) [OF w] live(1)]
  have at: "list_at ?d h xs" "0 < h" using l(1,5) by simp_all
  have n: "h + length xs \<le> length (pool_data p1)" using tiled_okD(1) [OF pool_relD(1) [OF w] l(4)] l(1,6) by simp
  have s: "take (length xs) (drop h ?d) = xs" using at n by (intro nth_equalityI) (auto simp: list_at_def)
  let ?e = "write_at ?d (b + 1) xs"
  have "deep_clone h p = Some (b + 1, p1\<lparr>pool_data := ?e\<rparr>)"
    using a(1,6,7) n s held(5) [OF holds(1) live(1)] room_len(1) [OF room]
    by (simp add: deep_clone_def entity_new_def vec_set_def copy_within_def)
  then show thesis using that fresh_filled [OF holds(1) live(3) room refl a(2-6)] by blast
qed

section \<open>Copying from another list\<close>

lemma grow_at_ok:
  assumes "pool_holds p L" "contents L h = Some xs" "room p (length xs + count)" "i \<le> length xs"
  obtains h' p' ws where "grow_at h i count p = Some (h', p')" "length ws = count"
    "list_result L h (take i xs @ ws @ drop i xs) (length xs + count) p h' p'"
proof -
  obtain h' p' zs where g: "grow h count p = Some (h', length xs + count, p')" "length zs = count"
    "list_result L h (xs @ zs) (length xs + count) p h' p'"
    by (rule grow_ok [OF assms(1-3)]) (rule that)
  obtain ws where ws: "length ws = count"
    "move_up count (i + count) (length (xs @ zs) - (i + count)) (xs @ zs) = take i xs @ ws @ drop i xs"
    using move_up_gap [OF assms(4) g(2)] by blast
  have s: "sub_slice (pool_data p') h' (length xs + count) = Some (xs @ zs)" using result_sub_slice [OF g(3)] g(2) by simp
  have "grow_at h i count p = Some (h', put_slice h' (take i xs @ ws @ drop i xs) p')"
    unfolding grow_at_def g(1) using s ws(2) by simp
  moreover have "list_result L h (take i xs @ ws @ drop i xs) (length xs + count) p h' (put_slice h' (take i xs @ ws @ drop i xs) p')"
    by (rule put_slice_result [OF g(3)]) (use g(2) ws(1) assms(4) in simp)
  ultimately show thesis using that ws(1) by blast
qed

lemma write_at_inner:
  assumes "sub_slice d h (length w) = Some w" "i + length zs \<le> length w"
  shows "write_at d (i + h) zs = write_at d h (write_at w i zs)"
proof -
  have w: "h + length w \<le> length d" "take (length w) (drop h d) = w" using assms(1) by (auto simp: sub_slice_def split: if_splits)
  have el: "d ! (h + j) = w ! j" if "j < length w" for j
    using that w(1) nth_take [OF that, of "drop h d"] unfolding w(2) by simp
  have lw: "length (write_at w i zs) = length w" using assms(2) by simp
  show ?thesis
  proof (rule nth_equalityI)
    show "length (write_at d (i + h) zs) = length (write_at d h (write_at w i zs))" using w(1) assms(2) lw by simp
    fix j assume "j < length (write_at d (i + h) zs)"
    then have j: "j < length d" using w(1) assms(2) by simp
    have l: "write_at d (i + h) zs ! j = (if i + h \<le> j \<and> j < i + h + length zs then zs ! (j - (i + h)) else d ! j)"
      by (rule nth_write_at) (use w(1) assms(2) j in simp_all)
    have r: "write_at d h (write_at w i zs) ! j = (if h \<le> j \<and> j < h + length w then write_at w i zs ! (j - h) else d ! j)"
      unfolding lw [symmetric] by (rule nth_write_at) (use w(1) lw j in simp_all)
    have v: "write_at w i zs ! (j - h) = (if i \<le> j - h \<and> j - h < i + length zs then zs ! (j - h - i) else w ! (j - h))" if "h \<le> j" "j < h + length w"
      by (rule nth_write_at) (use assms(2) that in simp_all)
    have e: "j - h - i = j - (i + h)" by simp
    have c: "(i \<le> j - h \<and> j - h < i + length zs) = (i + h \<le> j \<and> j < i + h + length zs)" if "h \<le> j" using that by auto
    show "write_at d (i + h) zs ! j = write_at d h (write_at w i zs) ! j"
    proof (cases "h \<le> j \<and> j < h + length w")
      case True
      then have "w ! (j - h) = d ! j" using el [of "j - h"] by auto
      then show ?thesis using True v c e unfolding l r by simp
    next
      case False
      then show ?thesis using assms(2) unfolding l r by auto
    qed
  qed
qed

lemma contents_range:
  assumes holds: "pool_holds p L" "contents L h = Some ys" and se: "s \<le> e" "e \<le> length ys"
  shows "e + h \<le> length (pool_data p) \<and> take (e - s) (drop (s + h) (pool_data p)) = take (e - s) (drop s ys)"
  using holds
proof (cases rule: contents_cases)
  case empty
  then show ?thesis using se by simp
next
  case live
  have el: "pool_data p ! (h + j) = ys ! j" if "j < length ys" for j
    using held(3) [OF holds(1) live(1)] that by (auto simp: list_at_def)
  have lim: "h + length ys \<le> length (pool_data p)" by (rule held(2) [OF holds(1) live(1)])
  have "take (e - s) (drop (s + h) (pool_data p)) = take (e - s) (drop s ys)"
    by (rule nth_equalityI) (use lim se el [of "s + j" for j] in \<open>auto simp: add.commute add.left_commute\<close>)
  then show ?thesis using lim se by simp
qed

text \<open>The copy once the list has grown: it takes the words of the pool in the range, whatever they are, as long as the
  range is inside the pool. \<open>other\<close> still has its elements.\<close>

lemma copy_from_grown:
  assumes holds: "pool_holds p L" "contents L h = Some xs" "contents L other = Some ys" and ne: "h \<noteq> other"
    and i: "i \<le> length xs" and se: "start_of lo \<le> end_of hi (length ys)" "end_of hi (length ys) - start_of lo \<le> length ys"
    and room: "room p (length xs + (end_of hi (length ys) - start_of lo))"
  obtains h' p1 L1 where "grow_at h i (end_of hi (length ys) - start_of lo) p = Some (h', p1)"
    "pool_holds p1 L1" "contents L1 other = Some ys"
    "\<And>zs. zs = take (end_of hi (length ys) - start_of lo) (drop (start_of lo + other) (pool_data p1)) \<Longrightarrow>
       end_of hi (length ys) + other \<le> length (pool_data p1) \<Longrightarrow>
       \<exists>p'. copy_from h other lo hi i p = Some (h', p') \<and>
         list_result L h (take i xs @ zs @ drop i xs) (length xs + (end_of hi (length ys) - start_of lo)) p h' p'"
proof -
  let ?s = "start_of lo" and ?e = "end_of hi (length ys)"
  let ?k = "?e - ?s"
  obtain h' p1 ws where g: "grow_at h i ?k p = Some (h', p1)" "length ws = ?k"
    "list_result L h (take i xs @ ws @ drop i xs) (length xs + ?k) p h' p1"
    by (rule grow_at_ok [OF holds(1,2) room i]) (rule that)
  let ?w = "take i xs @ ws @ drop i xs"
  have oc: "contents (if ?w = [] then L(h := None) else L(h := None, h' \<mapsto> ?w)) other = Some ys"
  proof (cases "other = 0")
    case False
    then have "L other = Some ys" using holds(3) by (simp add: contents_def)
    moreover from this have "?w = [] \<or> other \<noteq> h'" using g(3) ne by (auto simp: list_result_def)
    ultimately show ?thesis using False ne by (auto simp: contents_def)
  qed (use holds(3) in \<open>simp add: contents_def\<close>)
  have w: "sub_slice (pool_data p1) h' (length ?w) = Some ?w" by (rule result_sub_slice [OF g(3)])
  have lw: "length ?w = length xs + ?k" using i g(2) by simp
  have lim: "i + h' + ?k \<le> length (pool_data p1)" using w lw i by (auto simp: sub_slice_def split: if_splits)
  have "\<exists>p'. copy_from h other lo hi i p = Some (h', p') \<and> list_result L h (take i xs @ zs @ drop i xs) (length xs + ?k) p h' p'"
    if zs: "zs = take ?k (drop (?s + other) (pool_data p1))" and e: "?e + other \<le> length (pool_data p1)" for zs
  proof -
    have l: "length zs = ?k" using zs e se(1) by simp
    have "write_at ?w i zs = take i xs @ zs @ drop i xs" using i g(2) l by (simp add: write_at_def)
    moreover have "write_at (pool_data p1) (i + h') zs = write_at (pool_data p1) h' (write_at ?w i zs)"
      by (rule write_at_inner [OF w]) (use i g(2) l in simp)
    ultimately have wr: "write_at (pool_data p1) (i + h') zs = write_at (pool_data p1) h' (take i xs @ zs @ drop i xs)" by simp
    have "copy_from h other lo hi i p = Some (h', put_slice h' (take i xs @ zs @ drop i xs) p1)"
      using contents_slice(2) [OF holds(1,2)] contents_slice(2) [OF holds(1,3)] i ne se g(1) zs [symmetric] e lim wr
      by (simp add: copy_from_def copy_within_def put_slice_def Let_def)
    moreover have "list_result L h (take i xs @ zs @ drop i xs) (length xs + ?k) p h' (put_slice h' (take i xs @ zs @ drop i xs) p1)"
      by (rule put_slice_result [OF g(3)]) (use g(2) l in simp)
    ultimately show ?thesis by blast
  qed
  then show thesis by (rule that [OF g(1) list_result_contents(1) [OF g(3)] oc])
qed

lemma copy_from_ok:
  assumes holds: "pool_holds p L" "contents L h = Some xs" "contents L other = Some ys" and ne: "h \<noteq> other"
    and i: "i \<le> length xs" and se: "start_of lo \<le> end_of hi (length ys)" "end_of hi (length ys) \<le> length ys"
    and room: "room p (length xs + (end_of hi (length ys) - start_of lo))"
  obtains h' p' where "copy_from h other lo hi i p = Some (h', p')"
    "list_result L h (take i xs @ take (end_of hi (length ys) - start_of lo) (drop (start_of lo) ys) @ drop i xs)
       (length xs + (end_of hi (length ys) - start_of lo)) p h' p'"
proof -
  have k: "end_of hi (length ys) - start_of lo \<le> length ys" using se(2) by linarith
  obtain h' p1 L1 where g: "pool_holds p1 L1" "contents L1 other = Some ys"
    "\<And>zs. zs = take (end_of hi (length ys) - start_of lo) (drop (start_of lo + other) (pool_data p1)) \<Longrightarrow>
       end_of hi (length ys) + other \<le> length (pool_data p1) \<Longrightarrow>
       \<exists>p'. copy_from h other lo hi i p = Some (h', p') \<and>
         list_result L h (take i xs @ zs @ drop i xs) (length xs + (end_of hi (length ys) - start_of lo)) p h' p'"
    by (rule copy_from_grown [OF holds ne i se(1) k room]) (rule that)
  note c = contents_range [OF g(1,2) se]
  show thesis using g(3) [OF conjunct2 [OF c, symmetric] conjunct1 [OF c]] that by blast
qed

text \<open>No operation gives words of the pool up, so a list that grows leaves the pool at least as long.\<close>

lemma write_at_grows: "length d \<le> length (write_at d i zs)"
  by (simp add: write_at_def)

lemma pool_alloc_grows: "pool_alloc s p = Some (b, p') \<Longrightarrow> length (pool_data p) \<le> length (pool_data p')"
  by (auto simp: pool_alloc_def pool_grow_def split: option.splits bind_splits if_splits)

lemma pool_free_block_grows: "pool_free_block b s p = Some p' \<Longrightarrow> length (pool_data p) \<le> length (pool_data p')"
  by (auto simp: pool_free_block_def vec_set_def Let_def split: bind_splits if_splits)

lemma pool_realloc_grows:
  assumes "pool_realloc b s s' n p = Some (b', p')" shows "length (pool_data p) \<le> length (pool_data p')"
proof (cases "0 < n")
  case True
  then obtain q zs where a: "pool_alloc s' p = Some (b', q)" "pool_free_block b s (q\<lparr>pool_data := write_at (pool_data q) b' zs\<rparr>) = Some p'"
    using assms by (auto simp: pool_realloc_def split: bind_splits)
  show ?thesis using pool_alloc_grows [OF a(1)] pool_free_block_grows [OF a(2)] write_at_grows [of "pool_data q" b' zs] by simp
next
  case False
  then obtain q where a: "pool_alloc s' p = Some (b', q)" "pool_free_block b s q = Some p'"
    using assms by (auto simp: pool_realloc_def split: bind_splits)
  show ?thesis using pool_alloc_grows [OF a(1)] pool_free_block_grows [OF a(2)] by simp
qed

lemma grow_at_grows:
  assumes "grow_at h i n p = Some (h', p')" shows "length (pool_data p) \<le> length (pool_data p')"
proof -
  obtain m q s where g: "grow h n p = Some (h', m, q)" "p' = put_slice h' s q"
    using assms by (auto simp: grow_at_def split: bind_splits)
  have "length (pool_data p) \<le> length (pool_data q)"
    using g(1) by (auto simp: grow_def vec_set_def Let_def dest!: pool_alloc_grows pool_realloc_grows split: option.splits bind_splits if_splits)
  then show ?thesis using g(2) write_at_grows [of "pool_data q" h' s] by (simp add: put_slice_def)
qed

lemma set_ok:
  assumes "pool_holds p L" "contents L h = Some xs" "i < length xs"
  obtains p' where "list_set h i v p = Some (Some p')" "list_result L h (xs[i := v]) m p h p'"
proof -
  have "list_result L h (xs[i := v]) m p h (put_slice h (xs[i := v]) p)"
    by (rule put_slice_result [OF list_result_refl [OF assms(1,2)]]) simp
  then show thesis using that contents_slice(1) [OF assms(1,2)] assms(3) by (simp add: list_set_def)
qed

end
