(* ===== verification/Entity_List_Client.thy ===== *)
theory Entity_List_Client
  imports Entity_List_Ops
begin

text \<open>
  Programs over several lists of one pool: any sequence of operations gives the lists that the same operations on
  lists of elements give, and the words of the pool are those of the lists in use and of the free lists.
\<close>

section \<open>Clients\<close>

text \<open>
  A client holds handles of several lists of one pool. Its operations, what they do to the handles and the pool,
  and what they mean for the lists: \<open>None\<close> there is an operation outside the bounds of a list.
\<close>

datatype list_edit =
    Edit_push nat
  | Edit_extend bool "nat list"
  | Edit_insert nat nat
  | Edit_remove nat
  | Edit_swap_remove nat
  | Edit_truncate nat
  | Edit_clear
  | Edit_set nat nat

fun run_edit :: "list_edit \<Rightarrow> nat \<Rightarrow> list_pool \<Rightarrow> (nat \<times> list_pool) option" where
  "run_edit (Edit_push x) l p = do { (_, l, p) \<leftarrow> push l x p; Some (l, p) }"
| "run_edit (Edit_extend exact ys) l p = list_extend exact l ys p"
| "run_edit (Edit_insert i x) l p = list_insert l i x p"
| "run_edit (Edit_remove i) l p = list_remove l i p"
| "run_edit (Edit_swap_remove i) l p = swap_remove l i p"
| "run_edit (Edit_truncate k) l p = list_truncate l k p"
| "run_edit Edit_clear l p = list_clear l p"
| "run_edit (Edit_set i v) l p = do { r \<leftarrow> list_set l i v p; p \<leftarrow> r; Some (l, p) }"

fun abs_edit :: "list_edit \<Rightarrow> nat list \<Rightarrow> nat list option" where
  "abs_edit (Edit_push x) xs = Some (xs @ [x])"
| "abs_edit (Edit_extend _ ys) xs = Some (xs @ ys)"
| "abs_edit (Edit_insert i x) xs = (if i \<le> length xs then Some (take i xs @ x # drop i xs) else None)"
| "abs_edit (Edit_remove i) xs = (if i < length xs then Some (take i xs @ drop (Suc i) xs) else None)"
| "abs_edit (Edit_swap_remove i) xs = (if i < length xs then Some ((butlast xs)[i := last xs]) else None)"
| "abs_edit (Edit_truncate k) xs = Some (take k xs)"
| "abs_edit Edit_clear xs = Some []"
| "abs_edit (Edit_set i v) xs = (if i < length xs then Some (xs[i := v]) else None)"

text \<open>A length whose block bounds the growth of the pool.\<close>

fun edit_size :: "list_edit \<Rightarrow> nat list \<Rightarrow> nat" where
  "edit_size (Edit_push _) xs = length xs + 1"
| "edit_size (Edit_extend exact ys) xs = (if exact then length xs + length ys else length ys * (length xs + length ys + 3))"
| "edit_size (Edit_insert _ _) xs = length xs + 1"
| "edit_size _ xs = length xs"

lemma edit_ok:
  assumes "pool_holds p L" "contents L h = Some xs" "abs_edit e xs = Some ys" "room p (edit_size e xs)"
  shows "\<exists>h' p'. run_edit e h p = Some (h', p') \<and> list_result L h ys (edit_size e xs) p h' p'"
proof (cases e)
  case (Edit_push x)
  then have r: "room p (length xs + 1)" using assms(4) by simp
  show ?thesis by (rule push_ok [OF assms(1,2) r, of x]) (use Edit_push assms(3) in auto)
next
  case (Edit_extend exact zs)
  show ?thesis
  proof (cases exact)
    case True
    then have r: "room p (length xs + length zs)" using assms(4) Edit_extend by simp
    show ?thesis by (rule extend_list_ok [OF assms(1,2) r]) (use Edit_extend True assms(3) in auto)
  next
    case False
    then show ?thesis using push_all_ok [OF assms(1,2), of zs] assms(3,4) Edit_extend by (simp add: list_extend_def)
  qed
next
  case (Edit_insert i x)
  then have r: "room p (length xs + 1)" "i \<le> length xs" using assms(3,4) by (auto split: if_splits)
  show ?thesis by (rule insert_ok [OF assms(1,2) r, of x]) (use Edit_insert assms(3) r(2) in auto)
next
  case (Edit_remove i)
  then have r: "room p (length xs)" "i < length xs" using assms(3,4) by (auto split: if_splits)
  show ?thesis by (rule remove_ok [OF assms(1,2) r]) (use Edit_remove assms(3) r(2) in auto)
next
  case (Edit_swap_remove i)
  then have r: "room p (length xs)" "i < length xs" using assms(3,4) by (auto split: if_splits)
  show ?thesis by (rule swap_remove_ok [OF assms(1,2) r]) (use Edit_swap_remove assms(3) r(2) in auto)
next
  case (Edit_truncate k)
  then have r: "room p (length xs)" using assms(4) by simp
  show ?thesis by (rule truncate_ok [OF assms(1,2) r, of k]) (use Edit_truncate assms(3) in auto)
next
  case Edit_clear
  then have r: "length (pool_data p) < 2 ^ 32" using assms(4) by (simp add: room_def)
  show ?thesis by (rule clear_ok [OF assms(1,2) r, of "length xs"]) (use Edit_clear assms(3) in auto)
next
  case (Edit_set i v)
  then have i: "i < length xs" using assms(3) by (auto split: if_splits)
  show ?thesis by (rule set_ok [OF assms(1,2) i, of v "length xs"]) (use Edit_set assms(3) i in auto)
qed

datatype pool_op =
    Op_make "nat list"
  | Op_clone nat
  | Op_take nat
  | Op_copy nat nat bound bound nat
  | Op_edit nat list_edit

fun run_op :: "pool_op \<Rightarrow> nat list \<Rightarrow> list_pool \<Rightarrow> (nat list \<times> list_pool) option" where
  "run_op (Op_make xs) hs p = do { (l, p) \<leftarrow> from_slice xs p; Some (hs @ [l], p) }"
| "run_op (Op_clone k) hs p = do { l \<leftarrow> vec_get hs k; (l, p) \<leftarrow> deep_clone l p; Some (hs @ [l], p) }"
| "run_op (Op_take k) hs p = do { l \<leftarrow> vec_get hs k; Some (hs[k := fst (list_take l)] @ [snd (list_take l)], p) }"
| "run_op (Op_copy k j lo hi i) hs p = do {
     l \<leftarrow> vec_get hs k;
     other \<leftarrow> vec_get hs j;
     (l, p) \<leftarrow> copy_from l other lo hi i p;
     Some (hs[k := l], p)
   }"
| "run_op (Op_edit k e) hs p = do { l \<leftarrow> vec_get hs k; (l, p) \<leftarrow> run_edit e l p; Some (hs[k := l], p) }"

text \<open>Two empty lists have the same handle, and one cannot be copied into the other.\<close>

fun abs_op :: "pool_op \<Rightarrow> nat list list \<Rightarrow> nat list list option" where
  "abs_op (Op_make xs) xss = Some (xss @ [xs])"
| "abs_op (Op_clone k) xss = do { xs \<leftarrow> vec_get xss k; Some (xss @ [xs]) }"
| "abs_op (Op_take k) xss = do { xs \<leftarrow> vec_get xss k; Some (xss[k := []] @ [xs]) }"
| "abs_op (Op_copy k j lo hi i) xss = do {
     xs \<leftarrow> vec_get xss k;
     ys \<leftarrow> vec_get xss j;
     (if k \<noteq> j \<and> (xs \<noteq> [] \<or> ys \<noteq> []) \<and> i \<le> length xs \<and> start_of lo \<le> end_of hi (length ys) \<and> end_of hi (length ys) \<le> length ys
      then Some (xss[k := take i xs @ take (end_of hi (length ys) - start_of lo) (drop (start_of lo) ys) @ drop i xs])
      else None)
   }"
| "abs_op (Op_edit k e) xss = do { xs \<leftarrow> vec_get xss k; ys \<leftarrow> abs_edit e xs; Some (xss[k := ys]) }"

fun op_size :: "pool_op \<Rightarrow> nat list list \<Rightarrow> nat" where
  "op_size (Op_make xs) xss = length xs"
| "op_size (Op_clone k) xss = length (xss ! k)"
| "op_size (Op_take k) xss = 0"
| "op_size (Op_copy k j lo hi i) xss = length (xss ! k) + (end_of hi (length (xss ! j)) - start_of lo)"
| "op_size (Op_edit k e) xss = edit_size e (xss ! k)"

definition client :: "list_pool \<Rightarrow> (nat \<rightharpoonup> nat list) \<Rightarrow> nat list \<Rightarrow> nat list list \<Rightarrow> bool" where
  "client p L hs xss \<longleftrightarrow> pool_holds p L \<and> length hs = length xss \<and>
     (\<forall>k < length hs. contents L (hs ! k) = Some (xss ! k)) \<and>
     (\<forall>k < length hs. \<forall>j < length hs. hs ! k = hs ! j \<longrightarrow> k = j \<or> hs ! k = 0) \<and>
     dom L \<subseteq> set hs"

lemma clientD:
  assumes "client p L hs xss"
  shows "pool_holds p L" "length hs = length xss" "k < length xss \<Longrightarrow> contents L (hs ! k) = Some (xss ! k)"
    "k < length xss \<Longrightarrow> j < length xss \<Longrightarrow> hs ! k = hs ! j \<Longrightarrow> hs ! k \<noteq> 0 \<Longrightarrow> k = j" "dom L \<subseteq> set hs"
  using assms by (auto simp: client_def)

lemma client_live: "client p L hs xss \<Longrightarrow> k < length xss \<Longrightarrow> hs ! k \<noteq> 0 \<Longrightarrow> L (hs ! k) = Some (xss ! k)"
  using clientD(3) [of p L hs xss k] by (simp add: contents_def)

lemma list_result_other:
  assumes "list_result L h ys m p h' p'" "L x = Some zs" "x \<noteq> h"
  shows "(if ys = [] then L(h := None) else L(h := None, h' \<mapsto> ys)) x = Some zs" "x \<noteq> h' \<or> h' = 0"
  using assms by (auto simp: list_result_def)

lemma client_update:
  assumes c: "client p L hs xss" and k: "k < length xss" and r: "list_result L (hs ! k) ys m p h' p'"
  shows "\<exists>L'. client p' L' (hs[k := h']) (xss[k := ys])"
proof -
  let ?h = "hs ! k" and ?L = "if ys = [] then L(hs ! k := None) else L(hs ! k := None, h' \<mapsto> ys)"
  note d = clientD [OF c] and rc = list_result_contents [OF r]
  have z: "L 0 = None" by (rule holds_zero [OF d(1)])
  have other: "contents ?L (hs ! j) = Some (xss ! j)" "hs ! j = h' \<longrightarrow> h' = 0" if j: "j < length xss" "j \<noteq> k" for j
  proof -
    have both: "contents ?L (hs ! j) = Some (xss ! j) \<and> (hs ! j = h' \<longrightarrow> h' = 0)"
    proof (cases "hs ! j = 0")
      case True
      then show ?thesis using d(3) [OF j(1)] by (simp add: contents_def)
    next
      case False
      then have "hs ! j \<noteq> hs ! k" using d(4) [OF j(1) k] j(2) by auto
      from list_result_other [OF r client_live [OF c j(1) False] this]
      show ?thesis using False unfolding contents_def by (metis (mono_tags))
    qed
    show "contents ?L (hs ! j) = Some (xss ! j)" by (rule conjunct1 [OF both])
    show "hs ! j = h' \<longrightarrow> h' = 0" by (rule conjunct2 [OF both])
  qed
  have "dom ?L \<subseteq> set (hs[k := h'])"
  proof
    fix x assume x: "x \<in> dom ?L"
    show "x \<in> set (hs[k := h'])"
    proof (cases "x = h'")
      case True
      then show ?thesis using k d(2) by (simp add: set_update_memI)
    next
      case False
      then have "L x \<noteq> None" "x \<noteq> ?h" using x by (auto split: if_splits)
      then obtain j where "j < length hs" "hs ! j = x" "j \<noteq> k" using d(5) by (metis domI in_set_conv_nth option.exhaust subsetD)
      then show ?thesis using in_set_conv_nth [of x "hs[k := h']"] by (metis length_list_update nth_list_update_neq)
    qed
  qed
  moreover have "contents ?L (hs[k := h'] ! j) = Some (xss[k := ys] ! j)" if "j < length xss" for j
    using rc(2) other(1) [OF that] d(2) k by (cases "j = k") simp_all
  moreover have "hs[k := h'] ! i = hs[k := h'] ! j \<longrightarrow> i = j \<or> hs[k := h'] ! i = 0" if "i < length xss" "j < length xss" for i j
    using d(2) d(4) [OF that] other(2) [OF that(1)] other(2) [OF that(2)] k by (auto simp: nth_list_update)
  ultimately have "client p' ?L (hs[k := h']) (xss[k := ys])"
    using rc(1) d(2) unfolding client_def by simp
  then show ?thesis by blast
qed

lemma client_add:
  assumes c: "client p L hs xss" shows "client p L (hs @ [0]) (xss @ [[]])"
  using c unfolding client_def by (auto simp: nth_append contents_def less_Suc_eq)

lemma client_fresh:
  assumes c: "client p L hs xss" and r: "list_result L 0 ys m p h' p'"
  shows "\<exists>L'. client p' L' (hs @ [h']) (xss @ [ys])"
proof -
  have e: "length xss = length hs" using clientD(2) [OF c] by simp
  have u: "(hs @ [0]) ! length xss = 0" "(hs @ [0])[length xss := h'] = hs @ [h']" unfolding e by simp_all
  have "(xss @ [[]])[length xss := ys] = xss @ [ys]" "length xss < length (xss @ [[]])" by simp_all
  then show ?thesis using client_update [OF client_add [OF c], of "length xss", unfolded u(1), OF _ r] u(2) by simp
qed

section \<open>Programs\<close>

lemma vec_get_Some: "vec_get xs i = Some x \<longleftrightarrow> i < length xs \<and> xs ! i = x"
  by (auto simp: vec_get_def)

lemma list_result_length: "list_result L h ys m p h' p' \<Longrightarrow> length (pool_data p') \<le> length (pool_data p) + 4 + 2 * m"
  by (simp add: list_result_def)

lemma client_take:
  assumes c: "client p L hs xss" and k: "k < length xss"
  shows "client p L (hs[k := 0] @ [hs ! k]) (xss[k := []] @ [xss ! k])"
proof -
  note d = clientD [OF c]
  let ?hs = "hs[k := 0] @ [hs ! k]" and ?xss = "xss[k := []] @ [xss ! k]"
  have "contents L (?hs ! j) = Some (?xss ! j)" if j: "j < length ?hs" for j
  proof -
    consider "j = length xss" | "j = k" | "j < length xss" "j \<noteq> k" using j d(2) by fastforce
    then show ?thesis using d(2) d(3) [of j] d(3) [OF k] k by cases (auto simp: nth_append contents_def)
  qed
  moreover have "i = j \<or> ?hs ! i = 0" if "i < length ?hs" "j < length ?hs" "?hs ! i = ?hs ! j" for i j
    using d(2) d(4) [of i j] d(4) [of i k] d(4) [of k j] k that
    by (auto simp: nth_append nth_list_update less_Suc_eq split: if_splits)
  moreover have "set hs \<subseteq> insert (hs ! k) (set (hs[k := 0]))"
    using d(2) k by (auto simp: in_set_conv_nth nth_list_update) metis
  ultimately show ?thesis using d(1,2,5) unfolding client_def by auto
qed

lemma op_ok:
  assumes c: "client p L hs xss" and a: "abs_op op xss = Some xss'" and room: "room p (op_size op xss)"
  shows "\<exists>hs' p' L'. run_op op hs p = Some (hs', p') \<and> client p' L' hs' xss' \<and>
    length (pool_data p') \<le> length (pool_data p) + 4 + 2 * op_size op xss"
proof (cases op)
  case (Op_make xs)
  then have r: "room p (length xs)" using room by simp
  obtain h' p' where f: "from_slice xs p = Some (h', p')" "list_result L 0 xs (length xs) p h' p'"
    by (rule from_slice_ok [OF clientD(1) [OF c] r]) (rule that)
  then show ?thesis using client_fresh [OF c f(2)] list_result_length [OF f(2)] a Op_make by simp
next
  case (Op_clone k)
  then have k: "k < length xss" "k < length hs" "xss' = xss @ [xss ! k]" using a clientD(2) [OF c] by (auto simp: vec_get_Some bind_eq_Some_conv)
  have r: "room p (length (xss ! k))" using room Op_clone by simp
  obtain h' p' where f: "deep_clone (hs ! k) p = Some (h', p')" "list_result L 0 (xss ! k) (length (xss ! k)) p h' p'"
    by (rule deep_clone_ok [OF clientD(1) [OF c] clientD(3) [OF c k(1)] r]) (rule that)
  then show ?thesis using client_fresh [OF c f(2)] list_result_length [OF f(2)] Op_clone k by (simp add: vec_get_def)
next
  case (Op_take k)
  then have k: "k < length xss" "k < length hs" "xss' = xss[k := []] @ [xss ! k]" using a clientD(2) [OF c] by (auto simp: vec_get_Some bind_eq_Some_conv)
  then show ?thesis using client_take [OF c k(1)] Op_take by (auto simp: vec_get_def list_take_def list_new_def)
next
  case (Op_copy k j lo hi i)
  let ?xs = "xss ! k" and ?ys = "xss ! j"
  let ?n = "end_of hi (length ?ys) - start_of lo"
  have k: "k < length xss" "j < length xss" "k \<noteq> j" "?xs \<noteq> [] \<or> ?ys \<noteq> []" "i \<le> length ?xs"
      "start_of lo \<le> end_of hi (length ?ys)" "end_of hi (length ?ys) \<le> length ?ys"
      "xss' = xss[k := take i ?xs @ take ?n (drop (start_of lo) ?ys) @ drop i ?xs]"
    using a Op_copy by (auto simp: vec_get_Some bind_eq_Some_conv split: if_splits)
  have r: "room p (length ?xs + ?n)" using room Op_copy by simp
  have "hs ! k \<noteq> 0 \<or> hs ! j \<noteq> 0" using clientD(3) [OF c k(1)] clientD(3) [OF c k(2)] k(4) by (auto simp: contents_def split: if_splits)
  then have ne: "hs ! k \<noteq> hs ! j" using clientD(4) [OF c k(1,2)] k(3) by auto
  obtain h' p' where f: "copy_from (hs ! k) (hs ! j) lo hi i p = Some (h', p')"
    "list_result L (hs ! k) (take i ?xs @ take ?n (drop (start_of lo) ?ys) @ drop i ?xs) (length ?xs + ?n) p h' p'"
    by (rule copy_from_ok [OF clientD(1) [OF c] clientD(3) [OF c k(1)] clientD(3) [OF c k(2)] ne k(5-7) r]) (rule that)
  then show ?thesis using client_update [OF c k(1) f(2)] list_result_length [OF f(2)] Op_copy k(1,2,8) clientD(2) [OF c] by (simp add: vec_get_def)
next
  case (Op_edit k e)
  then obtain ys where k: "k < length xss" "abs_edit e (xss ! k) = Some ys" "xss' = xss[k := ys]"
    using a by (auto simp: vec_get_Some bind_eq_Some_conv)
  have r: "room p (edit_size e (xss ! k))" using room Op_edit by simp
  obtain h' p' where f: "run_edit e (hs ! k) p = Some (h', p')" "list_result L (hs ! k) ys (edit_size e (xss ! k)) p h' p'"
    using edit_ok [OF clientD(1) [OF c] clientD(3) [OF c k(1)] k(2) r] by blast
  then show ?thesis using client_update [OF c k(1) f(2)] list_result_length [OF f(2)] Op_edit k(1,3) clientD(2) [OF c] by (simp add: vec_get_def)
qed

text \<open>A sequence of steps, and what a specification of the steps lets it use.\<close>

fun run_list :: "('op \<Rightarrow> 'c \<Rightarrow> 'c option) \<Rightarrow> 'op list \<Rightarrow> 'c \<Rightarrow> 'c option" where
  "run_list step [] c = Some c"
| "run_list step (op # ops) c = do { c \<leftarrow> step op c; run_list step ops c }"

fun total_cost :: "('op \<Rightarrow> 'a \<Rightarrow> 'a option) \<Rightarrow> ('op \<Rightarrow> 'a \<Rightarrow> nat) \<Rightarrow> 'op list \<Rightarrow> 'a \<Rightarrow> nat" where
  "total_cost spec cost [] a = 0"
| "total_cost spec cost (op # ops) a = cost op a + (case spec op a of Some a' \<Rightarrow> total_cost spec cost ops a' | None \<Rightarrow> 0)"

text \<open>
  An implementation of a partial specification that may fail only when a resource runs out: steps the specification
  allows succeed while their cost fits.
\<close>

locale bounded_refinement =
  fixes step :: "'op \<Rightarrow> 'c \<Rightarrow> 'c option" and spec :: "'op \<Rightarrow> 'a \<Rightarrow> 'a option"
    and rel :: "'c \<Rightarrow> 'a \<Rightarrow> bool" and used :: "'c \<Rightarrow> nat" and cost :: "'op \<Rightarrow> 'a \<Rightarrow> nat" and limit :: nat
  assumes simulates: "rel c a \<Longrightarrow> spec op a = Some a' \<Longrightarrow> used c + cost op a < limit \<Longrightarrow>
    \<exists>c'. step op c = Some c' \<and> rel c' a' \<and> used c' \<le> used c + cost op a"
begin

lemma run_simulates:
  "rel c a \<Longrightarrow> run_list spec ops a = Some a' \<Longrightarrow> used c + total_cost spec cost ops a < limit \<Longrightarrow>
   \<exists>c'. run_list step ops c = Some c' \<and> rel c' a' \<and> used c' \<le> used c + total_cost spec cost ops a"
proof (induction ops arbitrary: c a)
  case (Cons op ops)
  then obtain b where b: "spec op a = Some b" "run_list spec ops b = Some a'" by (auto simp: bind_eq_Some_conv)
  have "used c + cost op a < limit" using Cons.prems(3) by simp
  then obtain d where d: "step op c = Some d" "rel d b" "used d \<le> used c + cost op a"
    using simulates [OF Cons.prems(1) b(1)] by blast
  have "used d + total_cost spec cost ops b < limit" using Cons.prems(3) b(1) d(3) by simp
  from Cons.IH [OF d(2) b(2) this] show ?case using b(1) d(1,3) by fastforce
qed auto

end

definition client_step :: "pool_op \<Rightarrow> nat list \<times> list_pool \<Rightarrow> (nat list \<times> list_pool) option" where
  "client_step op c = run_op op (fst c) (snd c)"

definition run_pool_ops :: "pool_op list \<Rightarrow> nat list \<Rightarrow> list_pool \<Rightarrow> (nat list \<times> list_pool) option" where
  "run_pool_ops ops hs p = run_list client_step ops (hs, p)"

definition abs_ops :: "pool_op list \<Rightarrow> nat list list \<Rightarrow> nat list list option" where
  "abs_ops = run_list abs_op"

definition ops_words :: "pool_op list \<Rightarrow> nat list list \<Rightarrow> nat" where
  "ops_words = total_cost abs_op (\<lambda>op xss. 4 + 2 * op_size op xss)"

interpretation entity_client: bounded_refinement client_step abs_op "\<lambda>c xss. \<exists>L. client (snd c) L (fst c) xss"
  "\<lambda>c. length (pool_data (snd c))" "\<lambda>op xss. 4 + 2 * op_size op xss" "2 ^ 32"
proof unfold_locales
  fix c xss op xss'
  assume c: "\<exists>L. client (snd c) L (fst c) xss" and a: "abs_op op xss = Some xss'"
    and l: "length (pool_data (snd c)) + (4 + 2 * op_size op xss) < 2 ^ 32"
  have "room (snd c) (op_size op xss)" using l by (simp add: room_def)
  then show "\<exists>c'. client_step op c = Some c' \<and> (\<exists>L. client (snd c') L (fst c') xss') \<and>
      length (pool_data (snd c')) \<le> length (pool_data (snd c)) + (4 + 2 * op_size op xss)"
    using c op_ok [OF _ a] unfolding client_step_def by fastforce
qed

lemma ops_ok:
  assumes "client p L hs xss" "abs_ops ops xss = Some xss'" "length (pool_data p) + ops_words ops xss < 2 ^ 32"
  shows "\<exists>hs' p' L'. run_pool_ops ops hs p = Some (hs', p') \<and> client p' L' hs' xss'"
  using entity_client.run_simulates [of "(hs, p)" xss ops xss'] assms unfolding run_pool_ops_def abs_ops_def ops_words_def by fastforce

lemma client_new: "client pool_new Map.empty [] []"
  using pool_new_rel by (auto simp: client_def pool_holds_def)

lemma client_slices: "client p L hs xss \<Longrightarrow> map (\<lambda>h. as_slice h p) hs = map Some xss"
  using clientD(1-3) [of p L hs xss] contents_slice(1) [of p L] by (intro nth_equalityI) auto

section \<open>Nothing is lost\<close>

definition block_words :: "nat list \<Rightarrow> nat" where
  "block_words xs = (if xs = [] then 0 else sclass_size (sclass_for_length (length xs)))"

lemma blocks_total:
  assumes "tiled_ok B n"
  shows "finite (dom B)" "(\<Sum>b \<in> dom B. sclass_size (the (B b))) = n"
proof -
  have lt: "b + sclass_size (the (B b)) \<le> n" if "b \<in> dom B" for b using that tiled_okD(1) [OF assms] by auto
  have "b < n" if "b \<in> dom B" for b using lt [OF that] sclass_size_ge [of "the (B b)"] by linarith
  then have "dom B \<subseteq> {..<n}" by blast
  then show fin: "finite (dom B)" by (rule finite_subset) simp
  have un: "(\<Union>b \<in> dom B. {b..<b + sclass_size (the (B b))}) = {..<n}"
  proof
    show "(\<Union>b \<in> dom B. {b..<b + sclass_size (the (B b))}) \<subseteq> {..<n}" using lt by fastforce
    have "\<exists>b s. B b = Some s \<and> b \<le> i \<and> i < b + sclass_size s" if "i < n" for i using assms that by (simp add: tiled_ok_def)
    then show "{..<n} \<subseteq> (\<Union>b \<in> dom B. {b..<b + sclass_size (the (B b))})" by fastforce
  qed
  have dis: "{a..<a + sclass_size (the (B a))} \<inter> {b..<b + sclass_size (the (B b))} = {}" if "a \<in> dom B" "b \<in> dom B" "a \<noteq> b" for a b
    using that tiled_okD(2) [OF assms] by fastforce
  have "card (\<Union>b \<in> dom B. {b..<b + sclass_size (the (B b))}) = (\<Sum>b \<in> dom B. card {b..<b + sclass_size (the (B b))})"
    by (rule card_UN_disjoint) (use fin dis in auto)
  then show "(\<Sum>b \<in> dom B. sclass_size (the (B b))) = n" by (simp add: un)
qed

lemma free_empty: "free_ok p B L F \<Longrightarrow> length (pool_free p) \<le> s \<Longrightarrow> F s = []"
  using free_okD(1) [of p B L F s] by (cases "F s") (auto simp: free_head_def)

lemma rel_blocks:
  assumes rel: "pool_rel p B L F {}"
  shows "dom B = (\<lambda>h. h - 1) ` dom L \<union> (\<Union>s < length (pool_free p). (\<lambda>h. h - 1) ` set (F s))" (is "_ = ?A \<union> (\<Union>s < ?n. ?C s)")
proof -
  note r = pool_relD [OF rel] and l = live_okD [OF pool_relD(2) [OF rel]] and f = free_okD [OF pool_relD(3) [OF rel]]
  show ?thesis
  proof
    show "?A \<union> (\<Union>s < ?n. ?C s) \<subseteq> dom B" using l(4) f(4) by fastforce
    show "dom B \<subseteq> ?A \<union> (\<Union>s < ?n. ?C s)"
    proof
      fix b assume "b \<in> dom B"
      then consider "b + 1 \<in> dom L" | s where "b + 1 \<in> set (F s)" using r(4) unfolding states_ok_def by blast
      then show "b \<in> ?A \<union> (\<Union>s < ?n. ?C s)"
      proof cases
        case 1
        then show ?thesis by force
      next
        case 2
        then have "s < ?n" using free_empty [OF r(3), of s] by (cases "s < ?n") auto
        then show ?thesis using 2 by force
      qed
    qed
  qed
qed

lemma rel_total:
  assumes rel: "pool_rel p B L F {}"
  shows "finite (dom L)" "length (pool_data p) = (\<Sum>h \<in> dom L. block_words (the (L h))) + (\<Sum>s < length (pool_free p). length (F s) * sclass_size s)"
proof -
  note r = pool_relD [OF rel] and l = live_okD [OF pool_relD(2) [OF rel]] and f = free_okD [OF pool_relD(3) [OF rel]]
  let ?A = "(\<lambda>h. h - 1) ` dom L" and ?C = "\<lambda>s. (\<lambda>h. h - 1) ` set (F s)" and ?n = "length (pool_free p)"
  have inj: "inj_on (\<lambda>h. h - 1) S" if "\<And>h. h \<in> S \<Longrightarrow> 0 < h" for S :: "nat set"
    using that by (intro inj_onI) (metis Suc_pred' diff_Suc_1 Suc_pred)
  have injA: "inj_on (\<lambda>h. h - 1) (dom L)" by (rule inj) (use l(1) in blast)
  have injC: "inj_on (\<lambda>h. h - 1) (set (F s))" for s by (rule inj) (rule f(3))
  have dom: "dom B = ?A \<union> (\<Union>s < ?n. ?C s)" by (rule rel_blocks [OF rel])
  have AC: "?A \<inter> (\<Union>s < ?n. ?C s) = {}"
  proof -
    have "h - 1 \<noteq> g - 1" if "L h = Some xs" "g \<in> set (F s)" for h xs g s
      using l(1) [OF that(1)] f(3,5) [OF that(2)] that(1) by (cases "h = g") auto
    then show ?thesis by blast
  qed
  have CC: "?C s \<inter> ?C t = {}" if "s \<noteq> t" for s t
  proof -
    have "g - 1 \<noteq> h - 1" if "g \<in> set (F s)" "h \<in> set (F t)" for g h using f(4) [OF that(1)] f(4) [OF that(2)] \<open>s \<noteq> t\<close> by auto
    then show ?thesis by blast
  qed
  note fin = blocks_total(1) [OF r(1)]
  have finA: "finite ?A" using fin unfolding dom by simp
  then show "finite (dom L)" using finite_imageD [OF _ injA] by blast
  have A: "(\<Sum>b \<in> ?A. sclass_size (the (B b))) = (\<Sum>h \<in> dom L. block_words (the (L h)))"
    unfolding sum.reindex [OF injA] by (rule sum.cong) (use l(2,4) in \<open>auto simp: block_words_def\<close>)
  have C: "(\<Sum>b \<in> ?C s. sclass_size (the (B b))) = length (F s) * sclass_size s" for s
    unfolding sum.reindex [OF injC] using f(2) [of s] f(4) [of _ s] by (simp add: distinct_card)
  have "length (pool_data p) = (\<Sum>b \<in> dom B. sclass_size (the (B b)))" using blocks_total(2) [OF r(1)] by simp
  also have "\<dots> = (\<Sum>b \<in> ?A. sclass_size (the (B b))) + (\<Sum>b \<in> (\<Union>s < ?n. ?C s). sclass_size (the (B b)))"
    unfolding dom by (rule sum.union_disjoint [OF finA _ AC]) simp
  also have "(\<Sum>b \<in> (\<Union>s < ?n. ?C s). sclass_size (the (B b))) = (\<Sum>s < ?n. \<Sum>b \<in> ?C s. sclass_size (the (B b)))"
    by (rule sum.UNION_disjoint) (use CC in auto)
  finally show "length (pool_data p) = (\<Sum>h \<in> dom L. block_words (the (L h))) + (\<Sum>s < ?n. length (F s) * sclass_size s)"
    unfolding A C .
qed

lemma client_words:
  assumes c: "client p L hs xss" shows "(\<Sum>h \<in> dom L. block_words (the (L h))) = (\<Sum>xs \<leftarrow> xss. block_words xs)"
proof -
  note d = clientD [OF c]
  let ?K = "{k. k < length xss \<and> hs ! k \<noteq> 0}"
  have inj: "inj_on ((!) hs) ?K" using d(4) by (auto intro!: inj_onI)
  have img: "dom L = (!) hs ` ?K"
  proof
    show "(!) hs ` ?K \<subseteq> dom L" using client_live [OF c] by blast
    show "dom L \<subseteq> (!) hs ` ?K"
    proof
      fix h assume "h \<in> dom L"
      then have "h \<in> set hs" "h \<noteq> 0" using d(5) holds_zero [OF d(1)] by (blast, metis domIff)
      then show "h \<in> (!) hs ` ?K" using d(2) by (auto simp: in_set_conv_nth)
    qed
  qed
  have "(\<Sum>xs \<leftarrow> xss. block_words xs) = (\<Sum>k < length xss. block_words (xss ! k))"
    by (simp add: sum_list_sum_nth atLeast0LessThan)
  also have "\<dots> = (\<Sum>k \<in> ?K. block_words (xss ! k))"
  proof (rule sum.mono_neutral_right)
    show "\<forall>k \<in> {..<length xss} - ?K. block_words (xss ! k) = 0"
    proof
      fix k assume "k \<in> {..<length xss} - ?K"
      then show "block_words (xss ! k) = 0" using d(3) [of k] by (simp add: block_words_def contents_def)
    qed
  qed auto
  also have "\<dots> = (\<Sum>k \<in> ?K. block_words (the (L (hs ! k))))"
    by (rule sum.cong) (use client_live [OF c] in auto)
  also have "\<dots> = (\<Sum>h \<in> dom L. block_words (the (L h)))" unfolding img sum.reindex [OF inj] by simp
  finally show ?thesis by simp
qed

lemma replicate_4: "replicate 4 x = [x, x, x, x]"
  by (simp add: eval_nat_numeral)

section \<open>Properties\<close>

text \<open>
  C21: the entity lists of a pool refine lists of elements. Any sequence of constructions, clones, moves, copies,
  pushes, extensions, insertions, removals, truncations, clears and element writes that stays inside the bounds of the
  lists succeeds, and then every handle reads exactly the elements that the same sequence gives on plain lists, as
  long as the words it may use are fewer than 2 to the 32. No list is affected by an operation on another one.
\<close>

theorem entity_lists_refine:
  assumes "abs_ops ops [] = Some xss" "ops_words ops [] < 2 ^ 32"
  shows "\<exists>hs p. run_pool_ops ops [] pool_new = Some (hs, p) \<and> map (\<lambda>h. as_slice h p) hs = map Some xss"
proof -
  have "length (pool_data pool_new) + ops_words ops [] < 2 ^ 32" using assms(2) by (simp add: pool_new_def)
  from ops_ok [OF client_new assms(1) this] show ?thesis using client_slices by blast
qed

theorem entity_lists_refine_witness:
  "\<exists>hs p. run_pool_ops [Op_make [7, 8, 9], Op_clone 0, Op_edit 0 (Edit_push 5), Op_edit 1 (Edit_insert 1 4), Op_copy 0 1 (Included 1) Unbounded 2,
      Op_edit 1 (Edit_swap_remove 0), Op_take 0, Op_edit 2 (Edit_truncate 4)] [] pool_new = Some (hs, p) \<and>
    map (\<lambda>h. as_slice h p) hs = map Some [[], [9, 4, 8], [7, 8, 4, 8]]"
  using entity_lists_refine [of "[Op_make [7, 8, 9], Op_clone 0, Op_edit 0 (Edit_push 5), Op_edit 1 (Edit_insert 1 4), Op_copy 0 1 (Included 1) Unbounded 2,
      Op_edit 1 (Edit_swap_remove 0), Op_take 0, Op_edit 2 (Edit_truncate 4)]" "[[], [9, 4, 8], [7, 8, 4, 8]]"]
  by (simp add: abs_ops_def ops_words_def vec_get_def start_of_def end_of_def)

text \<open>
  C25: a pool loses no words. After any such sequence the free lists are proper chains, and the length of the vector
  is the sum of the blocks of the lists in use and of the blocks on the free lists: nothing leaks and no block is
  counted twice.
\<close>

theorem entity_pool_no_leak:
  assumes "abs_ops ops [] = Some xss" "ops_words ops [] < 2 ^ 32"
  shows "\<exists>hs p F. run_pool_ops ops [] pool_new = Some (hs, p) \<and> (\<forall>s. free_chain (pool_data p) (free_head p s) (F s)) \<and>
    length (pool_data p) = (\<Sum>xs \<leftarrow> xss. block_words xs) + (\<Sum>s < length (pool_free p). length (F s) * sclass_size s)"
proof -
  have "length (pool_data pool_new) + ops_words ops [] < 2 ^ 32" using assms(2) by (simp add: pool_new_def)
  from ops_ok [OF client_new assms(1) this] obtain hs p L where r: "run_pool_ops ops [] pool_new = Some (hs, p)" "client p L hs xss" by blast
  obtain B F where rel: "pool_rel p B L F {}" using clientD(1) [OF r(2)] by (auto simp: pool_holds_def)
  have "\<forall>s. free_chain (pool_data p) (free_head p s) (F s)" using free_okD(1) [OF pool_relD(3) [OF rel]] by blast
  then show ?thesis using r(1) rel_total(2) [OF rel] client_words [OF r(2)] by (intro exI [of _ hs] exI [of _ p] exI [of _ F]) simp
qed

theorem entity_pool_no_leak_witness:
  "\<exists>hs p F. run_pool_ops [Op_make [1, 2, 3, 4, 5], Op_make [6], Op_edit 0 Edit_clear, Op_edit 1 (Edit_push 7)] [] pool_new = Some (hs, p) \<and>
    (\<forall>s. free_chain (pool_data p) (free_head p s) (F s)) \<and>
    length (pool_data p) = (\<Sum>xs \<leftarrow> [[], [6, 7]]. block_words xs) + (\<Sum>s < length (pool_free p). length (F s) * sclass_size s)"
  by (rule entity_pool_no_leak) (simp_all add: abs_ops_def ops_words_def vec_get_def)

text \<open>The bounds of \<open>insert\<close>. It inserts at every position up to the length of the list, panics from two past the
  end on, and at one past the end it appends: the position is compared with the length after the push.
\<close>

theorem entity_insert_bounds:
  assumes "pool_holds p L" "contents L h = Some xs" "room p (length xs + 1)"
  shows "case list_insert h i x p of
      Some (h', p') \<Rightarrow> i \<le> length xs + 1 \<and> as_slice h' p' = Some (take i xs @ x # drop i xs)
    | None \<Rightarrow> length xs + 1 < i"
proof (cases "i \<le> length xs")
  case True
  obtain h' p' where r: "list_insert h i x p = Some (h', p')" "list_result L h (take i xs @ x # drop i xs) (length xs + 1) p h' p'"
    by (rule insert_ok [OF assms True]) (rule that)
  show ?thesis using r(1) list_result_contents(3) [OF r(2)] True by simp
next
  case False
  obtain h' p' where r: "push h x p = Some (length xs, h', p')" "list_result L h (xs @ [x]) (length xs + 1) p h' p'"
    by (rule push_ok [OF assms]) (rule that)
  then show ?thesis using list_result_contents(3) [OF r(2)] False by (simp add: list_insert_def assert_that_def)
qed

theorem entity_insert_bounds_witness:
  "case list_insert 0 1 7 pool_new of
      Some (h', p') \<Rightarrow> 1 \<le> length ([] :: nat list) + 1 \<and> as_slice h' p' = Some (take 1 [] @ 7 # drop 1 [])
    | None \<Rightarrow> length ([] :: nat list) + 1 < 1"
  by (rule entity_insert_bounds [OF clientD(1) [OF client_new], of 0 "[]" 1 7]) (simp_all add: contents_def room_def pool_new_def)

text \<open>A pool with the lists \<open>[1, 2, 3]\<close>, whose handle is 1, and \<open>[4]\<close>, whose handle is 5.\<close>

definition two_lists :: list_pool where
  "two_lists = \<lparr>pool_data = [3, 1, 2, 3, 1, 4, reserved_value, reserved_value], pool_free = []\<rparr>"

lemma two_lists_client: "\<exists>L. client two_lists L [1, 5] [[1, 2, 3], [4]]"
proof -
  have "run_pool_ops [Op_make [1, 2, 3], Op_make [4]] [] pool_new = Some ([1, 5], two_lists)"
    by (simp add: run_pool_ops_def client_step_def sclass_for_length_small sclass_size_def from_slice_def pool_alloc_def pool_grow_def pool_new_def
        vec_get_def vec_set_def entity_new_def write_at_def list_index_def two_lists_def replicate_4)
  then show ?thesis
    using ops_ok [OF client_new, of "[Op_make [1, 2, 3], Op_make [4]]" "[[1, 2, 3], [4]]"]
    by (simp add: abs_ops_def ops_words_def vec_get_def pool_new_def)
qed

lemma two_lists_grown: "grow_at 5 1 2 two_lists = Some (5, \<lparr>pool_data = [3, 1, 2, 3, 3, 4, reserved_value, reserved_value], pool_free = []\<rparr>)"
  by (simp add: two_lists_def grow_at_def grow_def sclass_for_length_small sclass_size_def vec_get_def vec_set_def entity_new_def
      len_of_def sub_slice_def put_slice_def write_at_def)

text \<open>
  C32: \<open>copy_from\<close> compares only the number of elements with the length of the source. For any two different lists of a
  well-formed pool, a range that starts inside \<open>other\<close> and runs past its end is accepted as long as it has no more
  elements than \<open>other\<close> and ends inside the pool: the list receives the elements of \<open>other\<close> from the start of the
  range on and then the words that follow \<open>other\<close> in the pool, which are not elements of it.
\<close>

theorem copy_from_reads_past_end:
  assumes holds: "pool_holds p L" "contents L h = Some xs" "contents L other = Some ys" and ne: "h \<noteq> other"
    and i: "i \<le> length xs" and s: "s = start_of lo" "s \<le> length ys"
    and e: "e = end_of hi (length ys)" "length ys < e" "e - s \<le> length ys" "other + e \<le> length (pool_data p)"
    and room: "room p (length xs + (e - s))"
  shows "\<exists>h' p1 p'. grow_at h i (e - s) p = Some (h', p1) \<and> copy_from h other lo hi i p = Some (h', p') \<and>
    as_slice h' p' = Some (take i xs @ drop s ys @ take (e - length ys) (drop (other + length ys) (pool_data p1)) @ drop i xs)"
proof -
  have se: "start_of lo \<le> end_of hi (length ys)" "end_of hi (length ys) - start_of lo \<le> length ys" using s e by simp_all
  obtain h' p1 L1 where g: "grow_at h i (e - s) p = Some (h', p1)" "pool_holds p1 L1" "contents L1 other = Some ys"
    "\<And>zs. zs = take (e - s) (drop (s + other) (pool_data p1)) \<Longrightarrow> e + other \<le> length (pool_data p1) \<Longrightarrow>
       \<exists>p'. copy_from h other lo hi i p = Some (h', p') \<and> list_result L h (take i xs @ zs @ drop i xs) (length xs + (e - s)) p h' p'"
    by (rule copy_from_grown [OF holds ne i se room [unfolded s(1) e(1)], folded s(1) e(1)]) (rule that)
  let ?d = "pool_data p1"
  have "take ((length ys - s) + (e - length ys)) (drop (s + other) ?d) =
      take (length ys - s) (drop (s + other) ?d) @ take (e - length ys) (drop (length ys - s + (s + other)) ?d)"
    by (simp only: take_add drop_drop)
  moreover have "take (length ys - s) (drop (s + other) ?d) = drop s ys"
    using contents_range [OF g(2,3) s(2) order_refl] by simp
  moreover have "length ys - s + (s + other) = other + length ys" "(length ys - s) + (e - length ys) = e - s" using s(2) e(2) by simp_all
  ultimately have zs: "drop s ys @ take (e - length ys) (drop (other + length ys) ?d) = take (e - s) (drop (s + other) ?d)" by simp
  have "e + other \<le> length (pool_data p1)" using grow_at_grows [OF g(1)] e(4) by simp
  from g(4) [OF zs this] obtain p' where "copy_from h other lo hi i p = Some (h', p')"
    "as_slice h' p' = Some (take i xs @ (drop s ys @ take (e - length ys) (drop (other + length ys) (pool_data p1))) @ drop i xs)"
    using list_result_contents(3) by blast
  then show ?thesis using g(1) by auto
qed

theorem copy_from_reads_past_end_witness:
  "\<exists>p'. copy_from 5 1 (Included 2) (Excluded 4) 1 two_lists = Some (5, p') \<and> as_slice 5 p' = Some [4, 3, 3]"
proof -
  obtain L where c: "client two_lists L [1, 5] [[1, 2, 3], [4]]" using two_lists_client by blast
  have "contents L 5 = Some [4]" "contents L 1 = Some [1, 2, 3]" using clientD(3) [OF c, of 1] clientD(3) [OF c, of 0] by simp_all
  from copy_from_reads_past_end [OF clientD(1) [OF c] this, of 1 2 "Included 2" 4 "Excluded 4"]
  show ?thesis using two_lists_grown by (simp add: start_of_def end_of_def room_def two_lists_def)
qed

end
