(* ===== verification/Bitset.thy ===== *)
theory Bitset
  imports Prelude
begin

unbundle bit_operations_syntax

text \<open>
  Bit sets, \<open>src/cranelift/bitset/src\<close>: a set of small numbers in one integer (\<open>scalar.rs\<close>), generic in the
  width of the integer, and a set of any numbers in a vector of such integers together with its largest element
  (\<open>compound.rs\<close>).

  Numbers are \<open>nat\<close>; \<open>None\<close> is a panic, of an assertion, of checked arithmetic or of an unwrapped error. Whether
  the allocator can extend a vector by \<open>n\<close> words is a parameter \<open>fits n\<close>.
\<close>

section \<open>Checked arithmetic\<close>

definition plus_checked :: "'a::len word \<Rightarrow> 'a word \<Rightarrow> 'a word option" where
  "plus_checked a b = (if unat a + unat b < 2 ^ LENGTH('a) then Some (a + b) else None)"

definition minus_checked :: "'a::len word \<Rightarrow> 'a word \<Rightarrow> 'a word option" where
  "minus_checked a b = (if b \<le> a then Some (a - b) else None)"

definition shl_checked :: "'a::len word \<Rightarrow> nat \<Rightarrow> 'a word option" where
  "shl_checked a n = (if n < LENGTH('a) then Some (push_bit n a) else None)"

section \<open>Sets in one integer\<close>

definition leading_zeros :: "'a::len word \<Rightarrow> nat" where
  "leading_zeros w = length (takeWhile (\<lambda>i. \<not> bit w i) (rev [0..<LENGTH('a)]))"

definition trailing_zeros :: "'a::len word \<Rightarrow> nat" where
  "trailing_zeros w = length (takeWhile (\<lambda>i. \<not> bit w i) [0..<LENGTH('a)])"

definition count_ones :: "'a::len word \<Rightarrow> nat" where
  "count_ones w = length (filter (bit w) [0..<LENGTH('a)])"

definition sb_new :: "'a::len word" where "sb_new = 0"

definition sb_capacity :: "'a::len word \<Rightarrow> nat" where
  "sb_capacity w = LENGTH('a)"

definition sb_from_range :: "nat \<Rightarrow> nat \<Rightarrow> 'a::len word option" where
  "sb_from_range lo hi = do {
     assert_that (lo \<le> hi);
     assert_that (hi \<le> LENGTH('a));
     hi_rng \<leftarrow> (if 1 \<le> hi then do {
         a \<leftarrow> shl_checked 1 (hi - 1);
         b \<leftarrow> minus_checked a 1;
         plus_checked a b
       } else Some 0);
     a \<leftarrow> shl_checked 1 lo;
     lo_rng \<leftarrow> minus_checked a 1;
     minus_checked hi_rng lo_rng
   }"

definition sb_len :: "'a::len word \<Rightarrow> nat" where "sb_len w = count_ones w"

definition sb_is_empty :: "'a::len word \<Rightarrow> bool" where "sb_is_empty w = (w = 0)"

definition sb_contains :: "'a::len word \<Rightarrow> nat \<Rightarrow> bool option" where
  "sb_contains w i = do {
     assert_that (i < sb_capacity w);
     Some (w AND push_bit i 1 \<noteq> 0)
   }"

definition sb_insert :: "'a::len word \<Rightarrow> nat \<Rightarrow> (bool \<times> 'a word) option" where
  "sb_insert w i = do {
     was \<leftarrow> sb_contains w i;
     Some (\<not> was, w OR push_bit i 1)
   }"

definition sb_remove :: "'a::len word \<Rightarrow> nat \<Rightarrow> (bool \<times> 'a word) option" where
  "sb_remove w i = do {
     was_present \<leftarrow> sb_contains w i;
     Some (was_present, w AND NOT (push_bit i 1))
   }"

definition sb_clear :: "'a::len word \<Rightarrow> 'a word" where "sb_clear w = 0"

definition sb_min :: "'a::len word \<Rightarrow> nat option" where
  "sb_min w = (if w = 0 then None else Some (trailing_zeros w))"

definition sb_max :: "'a::len word \<Rightarrow> nat option" where
  "sb_max w = (if w = 0 then None else Some (sb_capacity w - leading_zeros w - 1))"

text \<open>The element that is found and the set without it; the removal does not panic (below).\<close>

definition sb_pop_min :: "'a::len word \<Rightarrow> (nat option \<times> 'a word) option" where
  "sb_pop_min w = (case sb_min w of
       None \<Rightarrow> Some (None, w)
     | Some i \<Rightarrow> do { (_, w) \<leftarrow> sb_remove w i; Some (Some i, w) })"

definition sb_pop_max :: "'a::len word \<Rightarrow> (nat option \<times> 'a word) option" where
  "sb_pop_max w = (case sb_max w of
       None \<Rightarrow> Some (None, w)
     | Some i \<Rightarrow> do { (_, w) \<leftarrow> sb_remove w i; Some (Some i, w) })"

text \<open>Draining the iterator from the front; the fuel is the number of elements it says it has.\<close>

fun sb_drain :: "nat \<Rightarrow> 'a::len word \<Rightarrow> nat list option" where
  "sb_drain 0 w = do { (r, w) \<leftarrow> sb_pop_min w; assert_that (r = None); Some [] }"
| "sb_drain (Suc n) w = do {
     (r, w) \<leftarrow> sb_pop_min w;
     (case r of
        None \<Rightarrow> Some []
      | Some i \<Rightarrow> do { xs \<leftarrow> sb_drain n w; Some (i # xs) })
   }"

definition sb_iter :: "'a::len word \<Rightarrow> nat list option" where
  "sb_iter w = sb_drain (sb_len w) w"

section \<open>Sets in a vector of integers\<close>

record 'w compound =
  cb_elems :: "'w list"
  cb_max :: "nat option"

definition cb_new :: "'a::len word compound" where
  "cb_new = \<lparr>cb_elems = [], cb_max = None\<rparr>"

definition cb_len :: "'a::len word compound \<Rightarrow> nat" where
  "cb_len b = sum_list (map sb_len (cb_elems b))"

definition cb_capacity :: "'a::len word compound \<Rightarrow> nat" where
  "cb_capacity b = length (cb_elems b) * LENGTH('a)"

definition cb_is_empty :: "'a::len word compound \<Rightarrow> bool" where
  "cb_is_empty b = (cb_len b = 0)"

definition word_and_bit :: "'a::len word compound \<Rightarrow> nat \<Rightarrow> nat \<times> nat" where
  "word_and_bit b i = (i div LENGTH('a), i mod LENGTH('a))"

definition cb_elem :: "'a::len word compound \<Rightarrow> nat \<Rightarrow> nat \<Rightarrow> nat option" where
  "cb_elem b word k = do {
     assert_that (k < LENGTH('a));
     Some (word * LENGTH('a) + k)
   }"

definition cb_contains :: "'a::len word compound \<Rightarrow> nat \<Rightarrow> bool option" where
  "cb_contains b i = (let (word, k) = word_and_bit b i in
     if word < length (cb_elems b) then sb_contains (cb_elems b ! word) k else Some False)"

text \<open>\<open>Inl ()\<close> is the error \<open>OutOfMemory\<close>.\<close>

definition try_ensure_capacity :: "(nat \<Rightarrow> bool) \<Rightarrow> 'a::len word compound \<Rightarrow> nat \<Rightarrow> (unit + 'a word compound) option" where
  "try_ensure_capacity fits b n =
     (if n = 0 then Some (Inr b)
      else let (word, _) = word_and_bit b (n - 1); len = length (cb_elems b) in
        if word < len then Some (Inr b)
        else do {
          assert_that (word < 2 ^ 63 - 1);
          let to_grow = max (max (word - len + 1) len) 4;
          Some (if fits to_grow then Inr (b\<lparr>cb_elems := cb_elems b @ replicate to_grow sb_new\<rparr>) else Inl ())
        })"

definition ensure_capacity :: "(nat \<Rightarrow> bool) \<Rightarrow> 'a::len word compound \<Rightarrow> nat \<Rightarrow> 'a word compound option" where
  "ensure_capacity fits b n = do { r \<leftarrow> try_ensure_capacity fits b n; expect r }"

definition try_with_capacity :: "(nat \<Rightarrow> bool) \<Rightarrow> nat \<Rightarrow> (unit + 'a::len word compound) option" where
  "try_with_capacity fits n = try_ensure_capacity fits cb_new n"

definition with_capacity :: "(nat \<Rightarrow> bool) \<Rightarrow> nat \<Rightarrow> 'a::len word compound option" where
  "with_capacity fits n = do { r \<leftarrow> try_with_capacity fits n; expect r }"

definition cb_insert :: "(nat \<Rightarrow> bool) \<Rightarrow> 'a::len word compound \<Rightarrow> nat \<Rightarrow> (bool \<times> 'a word compound) option" where
  "cb_insert fits b i = do {
     assert_that (i + 1 < 2 ^ 64);
     b \<leftarrow> ensure_capacity fits b (i + 1);
     let (word, k) = word_and_bit b i;
     assert_that (word < length (cb_elems b));
     (is_new, w) \<leftarrow> sb_insert (cb_elems b ! word) k;
     assert_that (i < 2 ^ 32);
     Some (is_new, \<lparr>cb_elems = (cb_elems b)[word := w],
       cb_max = (case cb_max b of Some m \<Rightarrow> Some (max m i) | None \<Rightarrow> Some i)\<rparr>)
   }"

text \<open>The words from \<open>word\<close> down to 0: the last element of the first that has one.\<close>

fun last_elem :: "'a::len word compound \<Rightarrow> nat \<Rightarrow> nat option option" where
  "last_elem b 0 = Some None"
| "last_elem b (Suc word) = (case sb_max (cb_elems b ! word) of
       None \<Rightarrow> last_elem b word
     | Some k \<Rightarrow> do {
         i \<leftarrow> cb_elem b word k;
         assert_that (i < 2 ^ 32);
         Some (Some i)
       })"

definition update_max :: "'a::len word compound \<Rightarrow> nat \<Rightarrow> 'a word compound option" where
  "update_max b word_of_old_max = do {
     assert_that (word_of_old_max + 1 \<le> length (cb_elems b));
     m \<leftarrow> last_elem b (word_of_old_max + 1);
     Some (b\<lparr>cb_max := m\<rparr>)
   }"

definition cb_remove :: "'a::len word compound \<Rightarrow> nat \<Rightarrow> (bool \<times> 'a word compound) option" where
  "cb_remove b i = (let (word, k) = word_and_bit b i in
     if word < length (cb_elems b) then do {
       (was_present, w) \<leftarrow> sb_remove (cb_elems b ! word) k;
       let b = b\<lparr>cb_elems := (cb_elems b)[word := w]\<rparr>;
       b \<leftarrow> (if was_present \<and> cb_max b = Some i then update_max b word else Some b);
       Some (was_present, b)
     } else Some (False, b))"

definition cb_pop :: "'a::len word compound \<Rightarrow> (nat option \<times> 'a word compound) option" where
  "cb_pop b = (case cb_max b of
       None \<Rightarrow> Some (None, b)
     | Some m \<Rightarrow> do { (_, b) \<leftarrow> cb_remove b m; Some (Some m, b) })"

definition cb_clear :: "'a::len word compound \<Rightarrow> 'a word compound option" where
  "cb_clear b = (case cb_max b of
       None \<Rightarrow> Some b
     | Some m \<Rightarrow> do {
         let (word, _) = word_and_bit b m;
         assert_that (word + 1 \<le> length (cb_elems b));
         assert_that (list_all sb_is_empty (drop (word + 1) (cb_elems b)));
         Some (b\<lparr>cb_elems := replicate (word + 1) sb_new @ drop (word + 1) (cb_elems b), cb_max := None\<rparr>)
       })"

text \<open>
  The iterator is the index of a word and what is left of that word, once it has been fetched. \<open>next\<close> loops
  over the words until one has an element left.
\<close>

function cb_next :: "'a::len word compound \<Rightarrow> nat \<Rightarrow> 'a word option \<Rightarrow> (nat option \<times> nat \<times> 'a word option) option" where
  "cb_next b word None = (if word < length (cb_elems b) then cb_next b word (Some (cb_elems b ! word)) else Some (None, word, None))"
| "cb_next b word (Some s) = (case sb_pop_min s of
       None \<Rightarrow> None
     | Some (Some k, s) \<Rightarrow> do { i \<leftarrow> cb_elem b word k; Some (Some i, word, Some s) }
     | Some (None, s) \<Rightarrow>
         if word + 1 < length (cb_elems b) then cb_next b (word + 1) (Some (cb_elems b ! (word + 1)))
         else Some (None, word + 1, Some s))"
  by pat_completeness auto
termination
  by (relation "measure (\<lambda>(b, word, sub). 2 * (length (cb_elems b) - word) + (if sub = None then 1 else 0))") auto

text \<open>Draining the iterator; the fuel is the number of elements of the set.\<close>

fun cb_drain :: "nat \<Rightarrow> 'a::len word compound \<Rightarrow> nat \<Rightarrow> 'a word option \<Rightarrow> nat list option" where
  "cb_drain 0 b word sub = do { (r, word, sub) \<leftarrow> cb_next b word sub; assert_that (r = None); Some [] }"
| "cb_drain (Suc n) b word sub = do {
     (r, word, sub) \<leftarrow> cb_next b word sub;
     (case r of
        None \<Rightarrow> Some []
      | Some i \<Rightarrow> do { xs \<leftarrow> cb_drain n b word sub; Some (i # xs) })
   }"

definition cb_iter :: "'a::len word compound \<Rightarrow> nat list option" where
  "cb_iter b = cb_drain (cb_len b) b 0 None"

definition iter_scalars :: "'a::len word compound \<Rightarrow> 'a word list" where
  "iter_scalars b = take (case cb_max b of Some n \<Rightarrow> 1 + n div LENGTH('a) | None \<Rightarrow> 0) (cb_elems b)"

text \<open>The derived equality.\<close>

definition cb_eq :: "'a::len word compound \<Rightarrow> 'a word compound \<Rightarrow> bool" where
  "cb_eq b c = (cb_elems b = cb_elems c \<and> cb_max b = cb_max c)"

end
