(* ===== verification/Entity_Maps.thy ===== *)
theory Entity_Maps
  imports Entity_List Bitset
begin

text \<open>
  The maps and sets over entities of \<open>src/cranelift/entity/src\<close>: packed options (\<open>packed_option.rs\<close>), ranges of
  keys (\<open>keys.rs\<close>), secondary maps, which are vectors with a default (\<open>map.rs\<close>), entity sets, which are bit sets
  (\<open>set.rs\<close>), and sparse maps after Briggs and Torczon (\<open>sparse.rs\<close>).

  An entity is its index. \<open>None\<close> is a panic; \<open>fits n\<close> says that the allocator can extend a vector by \<open>n\<close> elements.
\<close>

section \<open>Packed options\<close>

definition is_reserved_value :: "nat \<Rightarrow> bool" where
  "is_reserved_value t = (t = reserved_value)"

definition packed_default :: nat where "packed_default = reserved_value"

definition packed_from :: "nat \<Rightarrow> nat option" where
  "packed_from t = do { assert_that (\<not> is_reserved_value t); Some t }"

definition packed_from_option :: "nat option \<Rightarrow> nat option" where
  "packed_from_option opt = (case opt of None \<Rightarrow> Some packed_default | Some t \<Rightarrow> packed_from t)"

definition packed_is_none :: "nat \<Rightarrow> bool" where "packed_is_none p = is_reserved_value p"

definition packed_is_some :: "nat \<Rightarrow> bool" where "packed_is_some p = (\<not> is_reserved_value p)"

definition packed_expand :: "nat \<Rightarrow> nat option" where
  "packed_expand p = (if packed_is_none p then None else Some p)"

text \<open>The value taken and what is left.\<close>

definition packed_take :: "nat \<Rightarrow> nat option \<times> nat" where
  "packed_take p = (packed_expand p, packed_default)"

section \<open>Ranges of keys\<close>

record key_range =
  keys_pos :: nat
  keys_rev_pos :: nat

definition keys_with_len :: "nat \<Rightarrow> key_range" where
  "keys_with_len len = \<lparr>keys_pos = 0, keys_rev_pos = len\<rparr>"

definition keys_next :: "key_range \<Rightarrow> (nat option \<times> key_range) option" where
  "keys_next r = (if keys_pos r < keys_rev_pos r then do {
       k \<leftarrow> entity_new (keys_pos r);
       Some (Some k, r\<lparr>keys_pos := keys_pos r + 1\<rparr>)
     } else Some (None, r))"

definition keys_next_back :: "key_range \<Rightarrow> (nat option \<times> key_range) option" where
  "keys_next_back r = (if keys_pos r < keys_rev_pos r then do {
       k \<leftarrow> entity_new (keys_rev_pos r - 1);
       Some (Some k, r\<lparr>keys_rev_pos := keys_rev_pos r - 1\<rparr>)
     } else Some (None, r))"

definition keys_size_hint :: "key_range \<Rightarrow> nat" where
  "keys_size_hint r = keys_rev_pos r - keys_pos r"

text \<open>Draining a range from the front; the fuel is its size hint.\<close>

fun keys_drain :: "nat \<Rightarrow> key_range \<Rightarrow> nat list option" where
  "keys_drain 0 r = do { (k, r) \<leftarrow> keys_next r; assert_that (k = None); Some [] }"
| "keys_drain (Suc n) r = do {
     (k, r) \<leftarrow> keys_next r;
     (case k of None \<Rightarrow> Some [] | Some k \<Rightarrow> do { ks \<leftarrow> keys_drain n r; Some (k # ks) })
   }"

section \<open>Secondary maps\<close>

record 'v secondary =
  sec_elems :: "'v list"
  sec_default :: 'v

definition sec_with_default :: "'v \<Rightarrow> 'v secondary" where
  "sec_with_default d = \<lparr>sec_elems = [], sec_default = d\<rparr>"

definition sec_get :: "'v secondary \<Rightarrow> nat \<Rightarrow> 'v option" where
  "sec_get m k = vec_get (sec_elems m) k"

definition vec_resize :: "'v list \<Rightarrow> nat \<Rightarrow> 'v \<Rightarrow> 'v list" where
  "vec_resize xs n v = take n xs @ replicate (n - length xs) v"

definition sec_resize :: "'v secondary \<Rightarrow> nat \<Rightarrow> 'v secondary" where
  "sec_resize m n = m\<lparr>sec_elems := vec_resize (sec_elems m) n (sec_default m)\<rparr>"

definition sec_try_resize :: "(nat \<Rightarrow> bool) \<Rightarrow> 'v secondary \<Rightarrow> nat \<Rightarrow> unit + 'v secondary" where
  "sec_try_resize fits m n = (if n \<le> length (sec_elems m) \<or> fits (n - length (sec_elems m)) then Inr (sec_resize m n) else Inl ())"

definition sec_try_insert :: "(nat \<Rightarrow> bool) \<Rightarrow> 'v secondary \<Rightarrow> nat \<Rightarrow> 'v \<Rightarrow> unit + ('v option \<times> 'v secondary)" where
  "sec_try_insert fits m k v =
     (if k < length (sec_elems m) then Inr (Some (sec_elems m ! k), m\<lparr>sec_elems := (sec_elems m)[k := v]\<rparr>)
      else case sec_try_resize fits m (k + 1) of
        Inl e \<Rightarrow> Inl e
      | Inr m \<Rightarrow> Inr (None, m\<lparr>sec_elems := (sec_elems m)[k := v]\<rparr>))"

definition sec_insert :: "(nat \<Rightarrow> bool) \<Rightarrow> 'v secondary \<Rightarrow> nat \<Rightarrow> 'v \<Rightarrow> ('v option \<times> 'v secondary) option" where
  "sec_insert fits m k v = expect (sec_try_insert fits m k v)"

definition sec_remove :: "'v secondary \<Rightarrow> nat \<Rightarrow> 'v option \<times> 'v secondary" where
  "sec_remove m k =
     (if k < length (sec_elems m) then (Some (sec_elems m ! k), m\<lparr>sec_elems := (sec_elems m)[k := sec_default m]\<rparr>)
      else (None, m))"

definition sec_is_empty :: "'v secondary \<Rightarrow> bool" where "sec_is_empty m = (sec_elems m = [])"

definition sec_clear :: "'v secondary \<Rightarrow> 'v secondary" where "sec_clear m = m\<lparr>sec_elems := []\<rparr>"

definition sec_keys :: "'v secondary \<Rightarrow> key_range" where
  "sec_keys m = keys_with_len (length (sec_elems m))"

definition sec_index :: "'v secondary \<Rightarrow> nat \<Rightarrow> 'v" where
  "sec_index m k = (case vec_get (sec_elems m) k of Some v \<Rightarrow> v | None \<Rightarrow> sec_default m)"

text \<open>The assignment \<open>m[k] = v\<close>; the resizing of \<open>index_mut\<close> aborts when memory runs out.\<close>

definition sec_index_set :: "'v secondary \<Rightarrow> nat \<Rightarrow> 'v \<Rightarrow> 'v secondary" where
  "sec_index_set m k v = (let m = (if length (sec_elems m) \<le> k then sec_resize m (k + 1) else m) in
     m\<lparr>sec_elems := (sec_elems m)[k := v]\<rparr>)"

fun sec_from_iter :: "(nat \<times> 'v) list \<Rightarrow> 'v secondary \<Rightarrow> 'v secondary" where
  "sec_from_iter [] m = m"
| "sec_from_iter ((k, v) # kvs) m = sec_from_iter kvs (sec_index_set m k v)"

definition sec_eq :: "'v secondary \<Rightarrow> 'v secondary \<Rightarrow> bool" where
  "sec_eq m n = (let min_size = min (length (sec_elems m)) (length (sec_elems n)) in
     sec_default m = sec_default n \<and> take min_size (sec_elems m) = take min_size (sec_elems n) \<and>
     list_all (\<lambda>e. e = sec_default m) (drop min_size (sec_elems m)) \<and>
     list_all (\<lambda>e. e = sec_default n) (drop min_size (sec_elems n)))"

text \<open>The serialized form is a sequence of options, the default first.\<close>

fun elems_cnt :: "'v secondary \<Rightarrow> nat \<Rightarrow> nat" where
  "elems_cnt m 0 = 0"
| "elems_cnt m (Suc n) = (if sec_elems m ! n = sec_default m then elems_cnt m n else Suc n)"

definition sec_serialize :: "'v secondary \<Rightarrow> 'v option list" where
  "sec_serialize m = Some (sec_default m) #
     map (\<lambda>e. if e = sec_default m then None else Some e) (take (elems_cnt m (length (sec_elems m))) (sec_elems m))"

fun sec_visit :: "nat \<Rightarrow> 'v option list \<Rightarrow> 'v secondary \<Rightarrow> 'v secondary option" where
  "sec_visit idx [] m = Some m"
| "sec_visit idx (val # vals) m = do {
     k \<leftarrow> entity_new idx;
     sec_visit (idx + 1) vals (sec_index_set m k (case val of Some v \<Rightarrow> v | None \<Rightarrow> sec_default m))
   }"

text \<open>\<open>Inl ()\<close> is the error that a default value is required.\<close>

definition sec_deserialize :: "'v option list \<Rightarrow> (unit + 'v secondary) option" where
  "sec_deserialize vals = (case vals of
       Some d # vals \<Rightarrow> map_option Inr (sec_visit 0 vals (sec_with_default d))
     | _ \<Rightarrow> Some (Inl ()))"

section \<open>Entity sets\<close>

type_synonym entity_set = "64 word compound"

definition es_new :: entity_set where "es_new = cb_new"

definition es_with_capacity :: "(nat \<Rightarrow> bool) \<Rightarrow> nat \<Rightarrow> entity_set option" where
  "es_with_capacity fits n = with_capacity fits n"

definition es_contains :: "entity_set \<Rightarrow> nat \<Rightarrow> bool option" where "es_contains s k = cb_contains s k"

definition es_is_empty :: "entity_set \<Rightarrow> bool" where "es_is_empty s = cb_is_empty s"

definition es_clear :: "entity_set \<Rightarrow> entity_set option" where "es_clear s = cb_clear s"

definition es_keys :: "entity_set \<Rightarrow> key_range" where
  "es_keys s = keys_with_len (case cb_max s of None \<Rightarrow> 0 | Some x \<Rightarrow> x + 1)"

definition es_insert :: "(nat \<Rightarrow> bool) \<Rightarrow> entity_set \<Rightarrow> nat \<Rightarrow> (bool \<times> entity_set) option" where
  "es_insert fits s k = cb_insert fits s k"

definition es_remove :: "entity_set \<Rightarrow> nat \<Rightarrow> (bool \<times> entity_set) option" where
  "es_remove s k = cb_remove s k"

definition es_pop :: "entity_set \<Rightarrow> (nat option \<times> entity_set) option" where
  "es_pop s = do {
     (r, s) \<leftarrow> cb_pop s;
     (case r of None \<Rightarrow> Some (None, s) | Some i \<Rightarrow> do { k \<leftarrow> entity_new i; Some (Some k, s) })
   }"

fun es_extend :: "(nat \<Rightarrow> bool) \<Rightarrow> nat list \<Rightarrow> entity_set \<Rightarrow> entity_set option" where
  "es_extend fits [] s = Some s"
| "es_extend fits (k # ks) s = do { (_, s) \<leftarrow> es_insert fits s k; es_extend fits ks s }"

text \<open>The elements in the order of the iterator.\<close>

definition es_iter :: "entity_set \<Rightarrow> nat list option" where
  "es_iter s = do { xs \<leftarrow> cb_iter s; those (map entity_new xs) }"

section \<open>Sparse maps\<close>

text \<open>The values know their keys; a position in \<open>sp_sparse\<close> counts only if the value there has the key.\<close>

record 'v sparse_map =
  sp_sparse :: "nat secondary"
  sp_dense :: "'v list"

definition sp_new :: "'v sparse_map" where
  "sp_new = \<lparr>sp_sparse = sec_with_default 0, sp_dense = []\<rparr>"

definition sp_len :: "'v sparse_map \<Rightarrow> nat" where "sp_len m = length (sp_dense m)"

definition sp_is_empty :: "'v sparse_map \<Rightarrow> bool" where "sp_is_empty m = (sp_dense m = [])"

definition sp_clear :: "'v sparse_map \<Rightarrow> 'v sparse_map" where "sp_clear m = m\<lparr>sp_dense := []\<rparr>"

definition sp_index :: "('v \<Rightarrow> nat) \<Rightarrow> 'v sparse_map \<Rightarrow> nat \<Rightarrow> nat option" where
  "sp_index key m k = do {
     idx \<leftarrow> sec_get (sp_sparse m) k;
     entry \<leftarrow> vec_get (sp_dense m) idx;
     (if key entry = k then Some idx else None)
   }"

definition sp_get :: "('v \<Rightarrow> nat) \<Rightarrow> 'v sparse_map \<Rightarrow> nat \<Rightarrow> 'v option" where
  "sp_get key m k = do {
     idx \<leftarrow> sec_get (sp_sparse m) k;
     entry \<leftarrow> vec_get (sp_dense m) idx;
     (if key entry = k then Some entry else None)
   }"

definition sp_contains_key :: "('v \<Rightarrow> nat) \<Rightarrow> 'v sparse_map \<Rightarrow> nat \<Rightarrow> bool" where
  "sp_contains_key key m k = (sp_get key m k \<noteq> None)"

text \<open>The value that was there and the map; the replacement goes through \<open>get_mut\<close>, which finds the entry as \<open>get\<close> does.\<close>

definition sp_insert :: "('v \<Rightarrow> nat) \<Rightarrow> 'v sparse_map \<Rightarrow> 'v \<Rightarrow> ('v option \<times> 'v sparse_map) option" where
  "sp_insert key m v =
     (case sp_index key m (key v) of
        Some idx \<Rightarrow> Some (Some (sp_dense m ! idx), m\<lparr>sp_dense := (sp_dense m)[idx := v]\<rparr>)
      | None \<Rightarrow> do {
          let idx = length (sp_dense m);
          assert_that (idx \<le> 2 ^ 32 - 1);
          Some (None, \<lparr>sp_sparse = sec_index_set (sp_sparse m) (key v) idx, sp_dense = sp_dense m @ [v]\<rparr>)
        })"

definition sp_remove :: "('v \<Rightarrow> nat) \<Rightarrow> 'v sparse_map \<Rightarrow> nat \<Rightarrow> 'v option \<times> 'v sparse_map" where
  "sp_remove key m k =
     (case sp_index key m k of
        None \<Rightarrow> (None, m)
      | Some idx \<Rightarrow>
          let back = last (sp_dense m); dense = butlast (sp_dense m) in
          if idx = length dense then (Some back, m\<lparr>sp_dense := dense\<rparr>)
          else (Some (dense ! idx), \<lparr>sp_sparse = sec_index_set (sp_sparse m) (key back) idx, sp_dense = dense[idx := back]\<rparr>))"

definition sp_pop :: "'v sparse_map \<Rightarrow> 'v option \<times> 'v sparse_map" where
  "sp_pop m = (if sp_dense m = [] then (None, m) else (Some (last (sp_dense m)), m\<lparr>sp_dense := butlast (sp_dense m)\<rparr>))"

definition sp_values :: "'v sparse_map \<Rightarrow> 'v list" where "sp_values m = sp_dense m"

end
