(* ===== verification/Bitset_Correct.thy ===== *)
theory Bitset_Correct
  imports Bitset
begin

unbundle bit_operations_syntax

text \<open>
  Bit sets against sets of numbers: \<open>bits\<close> and \<open>cb_set\<close> are the sets that an integer and a vector of integers
  stand for, and \<open>cb_ok\<close> says that the largest element is the one recorded. Every operation does what it should
  to the set, and the iterators list its elements in order.
\<close>

section \<open>Sets in one integer\<close>

definition bits :: "'a::len word \<Rightarrow> nat set" where
  "bits w = {i. bit w i}"

lemma bits_less: "i \<in> bits w \<Longrightarrow> i < LENGTH('a)" for w :: "'a::len word"
  by (auto simp: bits_def dest: bit_imp_le_length)

lemma finite_bits [simp]: "finite (bits w)" for w :: "'a::len word"
  by (rule finite_subset [of _ "{..<LENGTH('a)}"]) (auto dest: bits_less)

lemma bits_0 [simp]: "bits 0 = {}"
  by (simp add: bits_def)

lemma bits_empty [simp]: "bits w = {} \<longleftrightarrow> w = 0" for w :: "'a::len word"
  by (auto simp: bits_def bit_eq_iff dest: bit_imp_le_length)

lemma bits_eqI: "bits v = bits w \<Longrightarrow> v = w" for v w :: "'a::len word"
  by (auto simp: bits_def bit_eq_iff set_eq_iff)

lemma bits_set: "i < LENGTH('a) \<Longrightarrow> bits (w OR push_bit i 1) = insert i (bits w)" for w :: "'a::len word"
  by (auto simp: bits_def bit_or_iff bit_exp_iff)

lemma bits_unset: "i < LENGTH('a) \<Longrightarrow> bits (w AND NOT (push_bit i 1)) = bits w - {i}" for w :: "'a::len word"
  by (auto simp: bits_def bit_and_iff bit_not_iff bit_exp_iff dest: bit_imp_le_length)

lemma sb_contains_bits: "sb_contains w i = (if i < LENGTH('a) then Some (i \<in> bits w) else None)" for w :: "'a::len word"
  by (simp add: sb_contains_def sb_capacity_def bits_def bit_iff_and_push_bit_not_eq_0)

lemma sb_insert_bits:
  fixes w :: "'a::len word" assumes "i < LENGTH('a)"
  obtains w' where "sb_insert w i = Some (i \<notin> bits w, w')" "bits w' = insert i (bits w)"
  by (rule that [OF _ bits_set [OF assms]]) (use assms in \<open>simp add: sb_insert_def sb_contains_bits\<close>)

lemma sb_remove_bits:
  fixes w :: "'a::len word" assumes "i < LENGTH('a)"
  obtains w' where "sb_remove w i = Some (i \<in> bits w, w')" "bits w' = bits w - {i}"
  by (rule that [OF _ bits_unset [OF assms]]) (use assms in \<open>simp add: sb_remove_def sb_contains_bits\<close>)

lemma count_ones_card: "count_ones w = card (bits w)"
proof -
  have "set (filter (bit w) [0..<LENGTH('a)]) = bits w" by (auto simp: bits_def dest: bit_imp_le_length)
  then show ?thesis unfolding count_ones_def by (metis distinct_card distinct_filter distinct_upt)
qed

lemma sb_min_bits: "sb_min w = (if bits w = {} then None else Some (Min (bits w)))" for w :: "'a::len word"
proof (cases "w = 0")
  case False
  define k where "k = Min (bits w)"
  have k: "k \<in> bits w" "\<And>i. i < k \<Longrightarrow> i \<notin> bits w" using False Min_in [of "bits w"] Min_le [of "bits w"] by (auto simp: k_def leD)
  have "[0..<LENGTH('a)] = [0..<k] @ k # [Suc k..<LENGTH('a)]"
    using bits_less [OF k(1)] upt_add_eq_append [of 0 k "LENGTH('a) - k"] upt_conv_Cons [of k "LENGTH('a)"] by simp
  then have "takeWhile (\<lambda>i. \<not> bit w i) [0..<LENGTH('a)] = [0..<k]"
    using k by (simp add: takeWhile_tail takeWhile_append2 bits_def)
  then show ?thesis using False by (simp add: sb_min_def trailing_zeros_def k_def)
qed (simp add: sb_min_def)

lemma sb_max_bits: "sb_max w = (if bits w = {} then None else Some (Max (bits w)))" for w :: "'a::len word"
proof (cases "w = 0")
  case False
  define k where "k = Max (bits w)"
  have k: "k \<in> bits w" "\<And>i. k < i \<Longrightarrow> i \<notin> bits w" using False Max_in [of "bits w"] Max_ge [of "bits w"] by (auto simp: k_def leD)
  have "rev [0..<LENGTH('a)] = rev [Suc k..<LENGTH('a)] @ k # rev [0..<k]"
    using bits_less [OF k(1)] upt_add_eq_append [of 0 k "LENGTH('a) - k"] upt_conv_Cons [of k "LENGTH('a)"] by simp
  then have "takeWhile (\<lambda>i. \<not> bit w i) (rev [0..<LENGTH('a)]) = rev [Suc k..<LENGTH('a)]"
    using k by (simp add: takeWhile_tail takeWhile_append2 bits_def Suc_le_eq)
  then have "LENGTH('a) - leading_zeros w - 1 = k" using bits_less [OF k(1)] by (simp add: leading_zeros_def)
  then show ?thesis using False by (simp add: sb_max_def sb_capacity_def k_def)
qed (simp add: sb_max_def)

lemma sb_pop_min_bits:
  fixes w :: "'a::len word" assumes "w \<noteq> 0"
  obtains w' where "sb_pop_min w = Some (Some (Min (bits w)), w')" "bits w' = bits w - {Min (bits w)}"
proof -
  have "Min (bits w) < LENGTH('a)" by (rule bits_less [of _ w]) (use assms Min_in [of "bits w"] in simp)
  from sb_remove_bits [OF this, of w] obtain w' where "sb_remove w (Min (bits w)) = Some (Min (bits w) \<in> bits w, w')" "bits w' = bits w - {Min (bits w)}" .
  then show thesis using that assms by (simp add: sb_pop_min_def sb_min_bits)
qed

lemma sb_pop_min_0 [simp]: "sb_pop_min 0 = Some (None, 0)"
  by (simp add: sb_pop_min_def sb_min_def)

lemma sb_drain_bits: "sb_drain (card (bits w)) w = Some (sorted_list_of_set (bits w))" for w :: "'a::len word"
proof (induction "card (bits w)" arbitrary: w)
  case 0
  then have "w = 0" by simp
  then show ?case by simp
next
  case (Suc n)
  then have w: "w \<noteq> 0" by auto
  then obtain w' where w': "sb_pop_min w = Some (Some (Min (bits w)), w')" "bits w' = bits w - {Min (bits w)}" by (rule sb_pop_min_bits)
  have n: "n = card (bits w')" using Suc.hyps(2) w' w by (simp add: card_Diff_singleton Min_in)
  have "sorted_list_of_set (bits w) = Min (bits w) # sorted_list_of_set (bits w')"
    unfolding w'(2) by (rule sorted_list_of_set_nonempty) (use w in simp_all)
  then show ?case using w'(1) Suc.hyps(1) [OF n] n unfolding Suc.hyps(2) [symmetric] by simp
qed

lemma sb_iter_bits: "sb_iter w = Some (sorted_list_of_set (bits w))"
  by (simp add: sb_iter_def sb_len_def count_ones_card sb_drain_bits)

text \<open>The bounds of a range: the shift by the lower bound overflows when it is the capacity.\<close>

lemma unat_shl_1: "n < LENGTH('a) \<Longrightarrow> unat (push_bit n 1 :: 'a::len word) = 2 ^ n"
  unfolding unsigned_push_bit_eq by (simp add: take_bit_push_bit push_bit_eq_mult)

lemma mask_checked:
  assumes "n < LENGTH('a)" shows "minus_checked (push_bit n 1) 1 = Some (mask n :: 'a::len word)"
  using unat_shl_1 [OF assms] by (simp add: minus_checked_def mask_eq_exp_minus_1 word_le_nat_alt)

lemma unat_mask_word: "n \<le> LENGTH('a) \<Longrightarrow> unat (mask n :: 'a::len word) = 2 ^ n - 1"
  unfolding unat_eq_nat_uint uint_mask_eq nat_mask_eq by (simp add: min_absorb2 mask_eq_exp_minus_1)

lemma hi_checked:
  assumes "1 \<le> hi" "hi \<le> LENGTH('a)"
  shows "plus_checked (push_bit (hi - 1) 1) (mask (hi - 1)) = Some (mask hi :: 'a::len word)"
proof -
  have n: "hi - 1 < LENGTH('a)" "Suc (hi - 1) = hi" using assms by simp_all
  have "unat (push_bit (hi - 1) 1 :: 'a word) + unat (mask (hi - 1) :: 'a word) < 2 ^ LENGTH('a)"
  proof -
    have "unat (mask (hi - 1) :: 'a word) < 2 ^ (hi - 1)" using n(1) by (simp add: unat_mask_word)
    then have "unat (push_bit (hi - 1) 1 :: 'a word) + unat (mask (hi - 1) :: 'a word) < 2 ^ (hi - 1) + 2 ^ (hi - 1)"
      using unat_shl_1 [OF n(1)] by simp
    also have "\<dots> = 2 ^ hi" using power_Suc [of "2 :: nat" "hi - 1"] n(2) by simp
    also have "\<dots> \<le> 2 ^ LENGTH('a)" by (rule power_increasing) (use assms in simp_all)
    finally show ?thesis .
  qed
  moreover have "push_bit (hi - 1) 1 + mask (hi - 1) = (mask hi :: 'a word)"
    using mask_Suc_exp [of "hi - 1", where 'a = "'a word"] n(2) by (simp add: disjunctive_add push_bit_eq_mult bit_exp_iff bit_mask_iff)
  ultimately show ?thesis by (simp add: plus_checked_def)
qed

lemma range_checked:
  assumes "lo \<le> hi" "hi \<le> LENGTH('a)" "lo < LENGTH('a)"
  obtains w :: "'a::len word" where "minus_checked (mask hi) (mask lo) = Some w" "bits w = {lo..<hi}"
proof -
  have sub: "bit (mask hi :: 'a word) i" if "bit (mask lo :: 'a word) i" for i using that assms(1) by (auto simp: bit_mask_iff)
  have "mask lo \<le> (mask hi :: 'a word)"
    using assms by (simp add: word_le_nat_alt unat_mask_word diff_le_mono power_increasing)
  moreover have "(mask hi :: 'a word) - mask lo = mask hi AND NOT (mask lo)" by (rule disjunctive_diff) (rule sub)
  moreover have "bits (mask hi AND NOT (mask lo) :: 'a word) = {lo..<hi}"
    using assms by (auto simp: bits_def bit_and_iff bit_not_iff bit_mask_iff)
  ultimately show thesis using that by (simp add: minus_checked_def)
qed

section \<open>Sets in a vector of integers\<close>

definition cb_set :: "'a::len word compound \<Rightarrow> nat set" where
  "cb_set b = {i. i div LENGTH('a) < length (cb_elems b) \<and> i mod LENGTH('a) \<in> bits (cb_elems b ! (i div LENGTH('a)))}"

definition max_of :: "nat set \<Rightarrow> nat option" where
  "max_of S = (if S = {} then None else Some (Max S))"

definition cb_ok :: "'a::len word compound \<Rightarrow> bool" where
  "cb_ok b \<longleftrightarrow> cb_max b = max_of (cb_set b) \<and> cb_set b \<subseteq> {..<2 ^ 32}"

lemma cb_set_less: "i \<in> cb_set b \<Longrightarrow> i < length (cb_elems b) * LENGTH('a)" for b :: "'a::len word compound"
  by (simp add: cb_set_def div_less_iff_less_mult)

lemma finite_cb_set [simp]: "finite (cb_set b)"
  using cb_set_less by (metis bounded_nat_set_is_finite)

lemma cb_set_max [simp]: "cb_set (b\<lparr>cb_max := m\<rparr>) = cb_set b"
  by (simp add: cb_set_def)

lemma cb_contains_set: "cb_contains b i = Some (i \<in> cb_set b)" for b :: "'a::len word compound"
  by (simp add: cb_contains_def word_and_bit_def sb_contains_bits cb_set_def)

lemma cb_set_new [simp]: "cb_set cb_new = {}"
  by (simp add: cb_set_def cb_new_def)

lemma cb_ok_new: "cb_ok cb_new"
  by (simp add: cb_ok_def max_of_def) (simp add: cb_new_def)

lemma cb_set_grow: "cb_set (b\<lparr>cb_elems := cb_elems b @ replicate n sb_new\<rparr>) = cb_set b"
proof -
  have "(cb_elems b @ replicate n sb_new) ! j = (if j < length (cb_elems b) then cb_elems b ! j else 0)" if "j < length (cb_elems b) + n" for j
    using that by (simp add: nth_append sb_new_def)
  then show ?thesis by (auto simp: cb_set_def split: if_splits)
qed

lemma cb_set_update:
  fixes b :: "'a::len word compound"
  assumes "i div LENGTH('a) < length (cb_elems b)"
  shows "bits w = insert (i mod LENGTH('a)) (bits (cb_elems b ! (i div LENGTH('a)))) \<Longrightarrow>
      cb_set (b\<lparr>cb_elems := (cb_elems b)[i div LENGTH('a) := w]\<rparr>) = insert i (cb_set b)"
    and "bits w = bits (cb_elems b ! (i div LENGTH('a))) - {i mod LENGTH('a)} \<Longrightarrow>
      cb_set (b\<lparr>cb_elems := (cb_elems b)[i div LENGTH('a) := w]\<rparr>) = cb_set b - {i}"
proof -
  have eq: "j div LENGTH('a) = i div LENGTH('a) \<Longrightarrow> j mod LENGTH('a) = i mod LENGTH('a) \<Longrightarrow> j = i" for j
    by (metis div_mult_mod_eq)
  show "bits w = insert (i mod LENGTH('a)) (bits (cb_elems b ! (i div LENGTH('a)))) \<Longrightarrow>
      cb_set (b\<lparr>cb_elems := (cb_elems b)[i div LENGTH('a) := w]\<rparr>) = insert i (cb_set b)"
    using assms eq by (auto simp: cb_set_def nth_list_update split: if_splits)
  show "bits w = bits (cb_elems b ! (i div LENGTH('a))) - {i mod LENGTH('a)} \<Longrightarrow>
      cb_set (b\<lparr>cb_elems := (cb_elems b)[i div LENGTH('a) := w]\<rparr>) = cb_set b - {i}"
    using assms eq by (auto simp: cb_set_def nth_list_update split: if_splits)
qed

lemma cb_set_cong: "cb_elems b = cb_elems c \<Longrightarrow> cb_set b = cb_set c"
  by (simp add: cb_set_def)

lemma ensure_ok:
  fixes b :: "'a::len word compound"
  assumes "\<And>n. fits n" "i < 2 ^ 32"
  obtains b' where "ensure_capacity fits b (i + 1) = Some b'" "cb_set b' = cb_set b" "cb_max b' = cb_max b"
    "i div LENGTH('a) < length (cb_elems b')" "length (cb_elems b) \<le> length (cb_elems b')"
proof (cases "i div LENGTH('a) < length (cb_elems b)")
  case True
  then show thesis using that [of b] by (simp add: ensure_capacity_def try_ensure_capacity_def word_and_bit_def)
next
  case False
  let ?n = "max (max (i div LENGTH('a) - length (cb_elems b) + 1) (length (cb_elems b))) 4"
  have "i div LENGTH('a) \<le> i" by simp
  also have "i < 2 ^ 63 - 1" using assms(2) by simp
  finally have "i div LENGTH('a) < 2 ^ 63 - 1" .
  then have "ensure_capacity fits b (i + 1) = Some (b\<lparr>cb_elems := cb_elems b @ replicate ?n sb_new\<rparr>)"
    using False assms(1) by (simp add: ensure_capacity_def try_ensure_capacity_def word_and_bit_def Let_def)
  moreover have "i div LENGTH('a) < length (cb_elems b) + ?n" by simp
  ultimately show thesis using that [OF _ cb_set_grow] by simp
qed

lemma max_of_insert: "finite S \<Longrightarrow> max_of (insert i S) = (case max_of S of Some m \<Rightarrow> Some (max m i) | None \<Rightarrow> Some i)"
  by (simp add: max_of_def max.commute)

lemma cb_insert_ok:
  fixes b :: "'a::len word compound"
  assumes ok: "cb_ok b" and i: "\<And>n. fits n" "i < 2 ^ 32"
  obtains b' where "cb_insert fits b i = Some (i \<notin> cb_set b, b')" "cb_set b' = insert i (cb_set b)" "cb_ok b'"
proof -
  obtain c where c: "ensure_capacity fits b (i + 1) = Some c" "cb_set c = cb_set b" "cb_max c = cb_max b"
    "i div LENGTH('a) < length (cb_elems c)" "length (cb_elems b) \<le> length (cb_elems c)"
    by (rule ensure_ok [of fits i b]) (use i in auto)
  let ?w = "cb_elems c ! (i div LENGTH('a))" and ?k = "i mod LENGTH('a)"
  obtain w where w: "sb_insert ?w ?k = Some (?k \<notin> bits ?w, w)" "bits w = insert ?k (bits ?w)" by (rule sb_insert_bits [where w = ?w and i = ?k, OF mod_less_divisor [OF len_gt_0]]) (rule that)
  let ?b = "\<lparr>cb_elems = (cb_elems c)[i div LENGTH('a) := w], cb_max = (case cb_max c of Some m \<Rightarrow> Some (max m i) | None \<Rightarrow> Some i)\<rparr>"
  have "cb_set ?b = cb_set (c\<lparr>cb_elems := (cb_elems c)[i div LENGTH('a) := w]\<rparr>)" by (rule cb_set_cong) simp
  also have "\<dots> = insert i (cb_set b)" using cb_set_update(1) [OF c(4) w(2)] c(2) by simp
  finally have s: "cb_set ?b = insert i (cb_set b)" .
  have "?k \<notin> bits ?w \<longleftrightarrow> i \<notin> cb_set b" using c(2,4) by (auto simp: cb_set_def)
  moreover have "i + 1 < 2 ^ 64" using i(2) by simp
  ultimately have "cb_insert fits b i = Some (i \<notin> cb_set b, ?b)"
    using c(1,4) w(1) i(2) by (simp add: cb_insert_def word_and_bit_def)
  moreover have "cb_ok ?b" using ok s i(2) c(3) by (simp add: cb_ok_def max_of_insert)
  ultimately show thesis using that s by blast
qed

section \<open>The largest element\<close>

lemma max_word:
  fixes b :: "'a::len word compound"
  assumes "word < length (cb_elems b)" "bits (cb_elems b ! word) \<noteq> {}"
  shows "Max {i \<in> cb_set b. i div LENGTH('a) < Suc word} = word * LENGTH('a) + Max (bits (cb_elems b ! word))" (is "Max ?S = ?m")
proof (rule Max_eqI)
  let ?k = "Max (bits (cb_elems b ! word))"
  have k: "?k \<in> bits (cb_elems b ! word)" by (rule Max_in) (use assms(2) in simp_all)
  then have d: "?m div LENGTH('a) = word" "?m mod LENGTH('a) = ?k" using bits_less [OF k] by simp_all
  show "?m \<in> ?S" unfolding cb_set_def mem_Collect_eq d using k assms(1) by simp
  fix j assume j: "j \<in> ?S"
  show "j \<le> ?m"
  proof (cases "j div LENGTH('a) = word")
    case True
    then have "j mod LENGTH('a) \<le> ?k" using j by (intro Max_ge) (auto simp: cb_set_def)
    then show ?thesis using True by (metis add_le_cancel_left div_mult_mod_eq)
  next
    case False
    then have "Suc (j div LENGTH('a)) \<le> word" using j by auto
    then have "Suc (j div LENGTH('a)) * LENGTH('a) \<le> word * LENGTH('a)" by (rule mult_le_mono1)
    moreover have "j < Suc (j div LENGTH('a)) * LENGTH('a)" using mod_less_divisor [of "LENGTH('a)" j] div_mult_mod_eq [of j "LENGTH('a)"] unfolding mult_Suc by (metis add.commute add_less_cancel_left len_gt_0)
    ultimately show ?thesis by linarith
  qed
qed (rule finite_subset [of _ "cb_set b"], auto)

lemma last_elem_max:
  fixes b :: "'a::len word compound"
  assumes "n \<le> length (cb_elems b)" "cb_set b \<subseteq> {..<2 ^ 32}"
  shows "last_elem b n = Some (max_of {i \<in> cb_set b. i div LENGTH('a) < n})"
  using assms
proof (induction n)
  case (Suc word)
  let ?w = "cb_elems b ! word"
  show ?case
  proof (cases "?w = 0")
    case True
    then have "{i \<in> cb_set b. i div LENGTH('a) < Suc word} = {i \<in> cb_set b. i div LENGTH('a) < word}"
      by (auto simp: cb_set_def less_Suc_eq)
    then show ?thesis using Suc True by (simp add: sb_max_def)
  next
    case False
    let ?m = "word * LENGTH('a) + Max (bits ?w)" and ?S = "{i \<in> cb_set b. i div LENGTH('a) < Suc word}"
    have k: "Max (bits ?w) \<in> bits ?w" using False by (intro Max_in) simp_all
    have m: "Max ?S = ?m" using max_word [of word b] Suc.prems(1) False by simp
    have ne: "?m \<in> ?S" using k Suc.prems(1) bits_less [OF k] by (auto simp: cb_set_def)
    then have "?m < 2 ^ 32" using Suc.prems(2) by auto
    then show ?thesis using False bits_less [OF k] m ne by (auto simp: sb_max_bits cb_elem_def max_of_def)
  qed
qed (simp add: max_of_def)

lemma cb_remove_ok:
  fixes b :: "'a::len word compound"
  assumes ok: "cb_ok b"
  obtains b' where "cb_remove b i = Some (i \<in> cb_set b, b')" "cb_set b' = cb_set b - {i}" "cb_ok b'"
proof (cases "i div LENGTH('a) < length (cb_elems b)")
  case False
  then show thesis using that [of b] ok by (auto simp: cb_remove_def word_and_bit_def cb_set_def)
next
  case True
  let ?w = "cb_elems b ! (i div LENGTH('a))" and ?k = "i mod LENGTH('a)"
  obtain w where w: "sb_remove ?w ?k = Some (?k \<in> bits ?w, w)" "bits w = bits ?w - {?k}" by (rule sb_remove_bits [where w = ?w and i = ?k, OF mod_less_divisor [OF len_gt_0]]) (rule that)
  let ?c = "b\<lparr>cb_elems := (cb_elems b)[i div LENGTH('a) := w]\<rparr>"
  have s: "cb_set ?c = cb_set b - {i}" by (rule cb_set_update(2) [OF True w(2)])
  have k: "?k \<in> bits ?w \<longleftrightarrow> i \<in> cb_set b" using True by (simp add: cb_set_def)
  show thesis
  proof (cases "i \<in> cb_set b \<and> cb_max b = Some i")
    case m: True
    have "j div LENGTH('a) < i div LENGTH('a) + 1" if "j \<in> cb_set ?c" for j
    proof -
      have "j \<le> i" using ok m that Max_ge [of "cb_set b" j] s by (auto simp: cb_ok_def max_of_def split: if_splits)
      then show ?thesis by (simp add: div_le_mono less_Suc_eq_le)
    qed
    then have e: "{j \<in> cb_set ?c. j div LENGTH('a) < i div LENGTH('a) + 1} = cb_set ?c" by blast
    have "last_elem ?c (i div LENGTH('a) + 1) = Some (max_of {j \<in> cb_set ?c. j div LENGTH('a) < i div LENGTH('a) + 1})"
      by (rule last_elem_max) (use True ok s in \<open>auto simp: cb_ok_def\<close>)
    then have "update_max ?c (i div LENGTH('a)) = Some (?c\<lparr>cb_max := max_of (cb_set ?c)\<rparr>)"
      unfolding update_max_def e by (simp add: True Suc_le_eq del: last_elem.simps)
    then have "cb_remove b i = Some (i \<in> cb_set b, ?c\<lparr>cb_max := max_of (cb_set ?c)\<rparr>)"
      using True w(1) k m by (simp add: cb_remove_def word_and_bit_def)
    moreover have "cb_ok (?c\<lparr>cb_max := max_of (cb_set ?c)\<rparr>)" using ok s unfolding cb_ok_def cb_set_max by auto
    moreover have "cb_set (?c\<lparr>cb_max := max_of (cb_set ?c)\<rparr>) = cb_set b - {i}" unfolding cb_set_max by (rule s)
    ultimately show thesis using that by blast
  next
    case m: False
    then have "cb_remove b i = Some (i \<in> cb_set b, ?c)" using True w(1) k by (auto simp: cb_remove_def word_and_bit_def)
    moreover have "max_of (cb_set b - {i}) = max_of (cb_set b)"
    proof (cases "i \<in> cb_set b")
      case True
      then have "Max (cb_set b) \<noteq> i" "Max (cb_set b) \<in> cb_set b" using m ok Max_in [of "cb_set b"] by (auto simp: cb_ok_def max_of_def split: if_splits)
      then have "Max (cb_set b - {i}) = Max (cb_set b)" by (intro Max_eqI) auto
      then show ?thesis using \<open>Max (cb_set b) \<noteq> i\<close> \<open>Max (cb_set b) \<in> cb_set b\<close> by (auto simp: max_of_def)
    qed simp
    then have "cb_ok ?c" using ok s unfolding cb_ok_def by auto
    ultimately show thesis using that s by blast
  qed
qed

section \<open>Emptying, counting and iterating\<close>

lemma cb_pop_ok:
  assumes ok: "cb_ok b"
  obtains b' where "cb_pop b = Some (max_of (cb_set b), b')" "cb_set b' = cb_set b - set_option (max_of (cb_set b))" "cb_ok b'"
proof (cases "max_of (cb_set b)")
  case None
  then show thesis using that [of b] ok by (simp add: cb_pop_def cb_ok_def)
next
  case (Some m)
  obtain b' where r: "cb_remove b m = Some (m \<in> cb_set b, b')" "cb_set b' = cb_set b - {m}" "cb_ok b'"
    by (rule cb_remove_ok [OF ok]) (rule that)
  then show thesis using that [of b'] Some ok by (simp add: cb_pop_def cb_ok_def)
qed

lemma word_elem:
  fixes w :: "'a::len word" assumes "k \<in> bits w"
  shows "(n * LENGTH('a) + k) div LENGTH('a) = n" "(n * LENGTH('a) + k) mod LENGTH('a) = k"
  using bits_less [OF assms] by simp_all

lemma cleared_word: "(\<And>j. n \<le> j \<Longrightarrow> j < length xs \<Longrightarrow> xs ! j = 0) \<Longrightarrow> n \<le> length xs \<Longrightarrow> j < length xs \<Longrightarrow>
    (replicate n sb_new @ drop n xs) ! j = 0" for xs :: "'a::len word list"
  by (simp add: nth_append sb_new_def)

lemma cb_clear_ok:
  fixes b :: "'a::len word compound"
  assumes ok: "cb_ok b"
  obtains b' where "cb_clear b = Some b'" "cb_set b' = {}" "cb_ok b'"
proof (cases "cb_set b = {}")
  case True
  then show thesis using that [of b] ok by (simp add: cb_clear_def cb_ok_def max_of_def)
next
  case False
  let ?m = "Max (cb_set b)"
  let ?n = "?m div LENGTH('a) + 1"
  have m: "cb_max b = Some ?m" using ok False by (simp add: cb_ok_def max_of_def)
  have mem: "?m \<in> cb_set b" by (rule Max_in) (use False in simp_all)
  then have len: "?n \<le> length (cb_elems b)" by (simp add: cb_set_def Suc_le_eq)
  have zero: "cb_elems b ! j = 0" if j: "?n \<le> j" "j < length (cb_elems b)" for j
  proof (rule ccontr)
    assume "cb_elems b ! j \<noteq> 0"
    then obtain k where k: "k \<in> bits (cb_elems b ! j)" using bits_empty by blast
    note d = word_elem [OF k, of j]
    then have "j * LENGTH('a) + k \<in> cb_set b" using k j(2) by (simp add: cb_set_def)
    then have "j * LENGTH('a) + k \<le> ?m" by (intro Max_ge) simp_all
    then have "j \<le> ?m div LENGTH('a)" using div_le_mono [of "j * LENGTH('a) + k" ?m "LENGTH('a)"] d(1) by simp
    then show False using j(1) by simp
  qed
  let ?b = "b\<lparr>cb_elems := replicate ?n sb_new @ drop ?n (cb_elems b), cb_max := None\<rparr>"
  have "list_all sb_is_empty (drop ?n (cb_elems b))" using zero by (auto simp: list_all_length sb_is_empty_def)
  then have "cb_clear b = Some ?b" using m len by (simp add: cb_clear_def word_and_bit_def)
  moreover have "cb_elems ?b ! j = 0" if "j < length (cb_elems ?b)" for j
    using cleared_word [of ?n "cb_elems b" j, OF zero len] that len by simp
  then have "cb_set ?b = {}" unfolding cb_set_def by auto
  ultimately show thesis using that [of ?b] by (simp add: cb_ok_def max_of_def)
qed

lemma cb_set_words:
  fixes b :: "'a::len word compound"
  shows "cb_set b = (\<Union>n < length (cb_elems b). (\<lambda>k. n * LENGTH('a) + k) ` bits (cb_elems b ! n))"
proof (rule set_eqI, rule iffI)
  fix i assume "i \<in> cb_set b"
  then show "i \<in> (\<Union>n < length (cb_elems b). (\<lambda>k. n * LENGTH('a) + k) ` bits (cb_elems b ! n))"
    by (intro UN_I [of "i div LENGTH('a)"] image_eqI [of _ _ "i mod LENGTH('a)"]) (simp_all add: cb_set_def)
next
  fix i assume "i \<in> (\<Union>n < length (cb_elems b). (\<lambda>k. n * LENGTH('a) + k) ` bits (cb_elems b ! n))"
  then obtain n k where "n < length (cb_elems b)" "k \<in> bits (cb_elems b ! n)" "i = n * LENGTH('a) + k" by blast
  then show "i \<in> cb_set b" using word_elem [of k "cb_elems b ! n" n] unfolding cb_set_def by simp
qed

lemma cb_len_card: "cb_len b = card (cb_set b)" for b :: "'a::len word compound"
proof -
  let ?A = "\<lambda>n. (\<lambda>k. n * LENGTH('a) + k) ` bits (cb_elems b ! n)"
  have d: "i div LENGTH('a) = n" if "i \<in> ?A n" for i n using that word_elem(1) by blast
  have "card (cb_set b) = (\<Sum>n < length (cb_elems b). card (?A n))"
    unfolding cb_set_words
  proof (rule card_UN_disjoint)
    show "\<forall>m \<in> {..<length (cb_elems b)}. \<forall>n \<in> {..<length (cb_elems b)}. m \<noteq> n \<longrightarrow> ?A m \<inter> ?A n = {}"
    proof (intro ballI impI, rule ccontr)
      fix m n assume "m \<noteq> n" "?A m \<inter> ?A n \<noteq> {}"
      then obtain i where "i \<in> ?A m" "i \<in> ?A n" by auto
      from d [OF this(1)] d [OF this(2)] \<open>m \<noteq> n\<close> show False by simp
    qed
  qed simp_all
  also have "\<dots> = (\<Sum>n < length (cb_elems b). sb_len (cb_elems b ! n))"
    by (rule sum.cong) (simp_all add: card_image inj_on_def sb_len_def count_ones_card)
  finally show ?thesis by (simp add: cb_len_def sum_list_sum_nth atLeast0LessThan)
qed

text \<open>What an iterator has left, given the words before it are done.\<close>

definition remaining :: "'a::len word compound \<Rightarrow> nat \<Rightarrow> 'a word \<Rightarrow> nat set" where
  "remaining b word s = (\<lambda>k. word * LENGTH('a) + k) ` bits s \<union> {i \<in> cb_set b. word < i div LENGTH('a)}"

lemma remaining_next:
  fixes b :: "'a::len word compound"
  shows "remaining b word 0 = (if word + 1 < length (cb_elems b) then remaining b (word + 1) (cb_elems b ! (word + 1)) else {})"
proof (cases "word + 1 < length (cb_elems b)")
  case True
  have "{i \<in> cb_set b. i div LENGTH('a) = word + 1} = (\<lambda>k. (word + 1) * LENGTH('a) + k) ` bits (cb_elems b ! (word + 1))" (is "?L = ?R")
  proof
    show "?R \<subseteq> ?L"
    proof
      fix i assume "i \<in> ?R"
      then obtain k where k: "k \<in> bits (cb_elems b ! (word + 1))" "i = (word + 1) * LENGTH('a) + k" by blast
      then have "i div LENGTH('a) = word + 1" "i mod LENGTH('a) = k" using word_elem [OF k(1), of "word + 1"] by blast+
      then show "i \<in> ?L" using k(1) True by (simp add: cb_set_def)
    qed
    show "?L \<subseteq> ?R"
    proof
      fix i assume "i \<in> ?L"
      then have "i = (word + 1) * LENGTH('a) + i mod LENGTH('a)" "i mod LENGTH('a) \<in> bits (cb_elems b ! (word + 1))"
        using div_mult_mod_eq [of i "LENGTH('a)"] by (auto simp: cb_set_def)
      then show "i \<in> ?R" by blast
    qed
  qed
  moreover have "{i \<in> cb_set b. word < i div LENGTH('a)} = {i \<in> cb_set b. i div LENGTH('a) = word + 1} \<union> {i \<in> cb_set b. word + 1 < i div LENGTH('a)}" by auto
  ultimately show ?thesis using True by (simp add: remaining_def)
next
  case False
  then show ?thesis by (auto simp: remaining_def cb_set_def)
qed

lemma remaining_pop:
  fixes b :: "'a::len word compound"
  assumes "s \<noteq> 0" "bits s' = bits s - {Min (bits s)}"
  shows "Min (remaining b word s) = word * LENGTH('a) + Min (bits s)" "word * LENGTH('a) + Min (bits s) \<in> remaining b word s"
    "remaining b word s' = remaining b word s - {word * LENGTH('a) + Min (bits s)}"
proof -
  let ?k = "Min (bits s)" and ?f = "\<lambda>k. word * LENGTH('a) + k"
  have k: "?k \<in> bits s" by (rule Min_in) (use assms(1) in simp_all)
  then show mem: "?f ?k \<in> remaining b word s" by (simp add: remaining_def)
  show "Min (remaining b word s) = ?f ?k"
  proof (rule Min_eqI)
    show "finite (remaining b word s)" unfolding remaining_def by simp
    fix j assume j: "j \<in> remaining b word s"
    show "?f ?k \<le> j"
    proof (cases "word < j div LENGTH('a)")
      case True
      then have "Suc word * LENGTH('a) \<le> j div LENGTH('a) * LENGTH('a)" by (intro mult_le_mono1) simp
      also have "\<dots> \<le> j" by simp
      finally show ?thesis using bits_less [OF k] by simp
    next
      case False
      then obtain m where "m \<in> bits s" "j = ?f m" using j by (auto simp: remaining_def)
      then show ?thesis using Min_le [of "bits s" m] by simp
    qed
  qed (fact mem)
  have "?f ?k div LENGTH('a) = word" by (rule word_elem(1) [OF k])
  then have "?f ?k \<notin> {i \<in> cb_set b. word < i div LENGTH('a)}" by simp
  moreover have "?f ` (bits s - {?k}) = ?f ` bits s - {?f ?k}" by auto
  ultimately show "remaining b word s' = remaining b word s - {?f ?k}" unfolding remaining_def assms(2) by blast
qed

lemma cb_next_remaining:
  fixes b :: "'a::len word compound"
  shows "if remaining b word s = {} then \<exists>st. cb_next b word (Some s) = Some (None, st)
    else \<exists>word' s'. cb_next b word (Some s) = Some (Some (Min (remaining b word s)), word', Some s') \<and>
      remaining b word' s' = remaining b word s - {Min (remaining b word s)}"
proof (induction "length (cb_elems b) - word" arbitrary: word s rule: less_induct)
  case less
  show ?case
  proof (cases "s = 0")
    case True
    show ?thesis
    proof (cases "word + 1 < length (cb_elems b)")
      case step: True
      then have lt: "length (cb_elems b) - (word + 1) < length (cb_elems b) - word" by simp
      have e1: "cb_next b word (Some 0) = cb_next b (word + 1) (Some (cb_elems b ! (word + 1)))"
        unfolding cb_next.simps(2) [of b word 0] sb_pop_min_0 using step by simp
      have e2: "remaining b word 0 = remaining b (word + 1) (cb_elems b ! (word + 1))"
        unfolding remaining_next [of b word] using step by simp
      show ?thesis unfolding True e1 e2 by (rule less [OF lt])
    next
      case False
      then show ?thesis using True remaining_next [of b word] by simp
    qed
  next
    case False
    then obtain s' where s': "sb_pop_min s = Some (Some (Min (bits s)), s')" "bits s' = bits s - {Min (bits s)}" by (rule sb_pop_min_bits)
    note r = remaining_pop [where b = b and word = word, OF False s'(2)]
    have "Min (bits s) < LENGTH('a)" by (rule bits_less [of _ s]) (use False in \<open>intro Min_in; simp\<close>)
    then have "cb_next b word (Some s) = Some (Some (Min (remaining b word s)), word, Some s')" using s'(1) r(1) by (simp add: cb_elem_def)
    moreover have "remaining b word s \<noteq> {}" using r(2) by blast
    ultimately show ?thesis using r(1,3) by auto
  qed
qed

lemma cb_drain_remaining:
  fixes b :: "'a::len word compound"
  shows "cb_drain (card (remaining b word s)) b word (Some s) = Some (sorted_list_of_set (remaining b word s))"
proof (induction "card (remaining b word s)" arbitrary: word s)
  case 0
  have fin: "finite (remaining b word s)" unfolding remaining_def by simp
  then have "remaining b word s = {}" using 0 by simp
  then show ?case using cb_next_remaining [of b word s] by (auto simp del: cb_next.simps)
next
  case (Suc n)
  have fin: "finite (remaining b word s)" unfolding remaining_def by simp
  have ne: "remaining b word s \<noteq> {}" using Suc.hyps(2) by auto
  then obtain word' s' where r: "cb_next b word (Some s) = Some (Some (Min (remaining b word s)), word', Some s')"
    "remaining b word' s' = remaining b word s - {Min (remaining b word s)}" using cb_next_remaining [of b word s] by auto
  have n: "n = card (remaining b word' s')" using Suc.hyps(2) r(2) fin ne by (simp add: card_Diff_singleton Min_in)
  have "sorted_list_of_set (remaining b word s) = Min (remaining b word s) # sorted_list_of_set (remaining b word' s')"
    unfolding r(2) by (rule sorted_list_of_set_nonempty [OF fin ne])
  then show ?case using r(1) Suc.hyps(1) [OF n] n unfolding Suc.hyps(2) [symmetric] by (simp del: cb_next.simps)
qed

lemma cb_iter_set: "cb_iter b = Some (sorted_list_of_set (cb_set b))" for b :: "'a::len word compound"
proof (cases "cb_elems b = []")
  case True
  then have "cb_set b = {}" by (simp add: cb_set_def)
  then show ?thesis using True by (simp add: cb_iter_def cb_len_card)
next
  case False
  have "{i \<in> cb_set b. i div LENGTH('a) = 0} = bits (cb_elems b ! 0)"
  proof (rule set_eqI, rule iffI)
    fix i assume "i \<in> {i \<in> cb_set b. i div LENGTH('a) = 0}"
    then show "i \<in> bits (cb_elems b ! 0)" by (auto simp: cb_set_def div_eq_0_iff)
  next
    fix i assume i: "i \<in> bits (cb_elems b ! 0)"
    show "i \<in> {i \<in> cb_set b. i div LENGTH('a) = 0}" using False i bits_less [OF i] by (simp add: cb_set_def)
  qed
  moreover have "{i \<in> cb_set b. i div LENGTH('a) = 0} \<union> {i \<in> cb_set b. 0 < i div LENGTH('a)} = cb_set b" using neq0_conv by blast
  ultimately have rem: "remaining b 0 (cb_elems b ! 0) = cb_set b" by (simp add: remaining_def)
  have "cb_drain n b 0 None = cb_drain n b 0 (Some (cb_elems b ! 0))" for n using False by (cases n) simp_all
  then show ?thesis using cb_drain_remaining [of b 0 "cb_elems b ! 0"] unfolding rem cb_iter_def cb_len_card by simp
qed

lemma iter_scalars_set:
  fixes b :: "'a::len word compound"
  assumes "cb_ok b" shows "cb_set \<lparr>cb_elems = iter_scalars b, cb_max = cb_max b\<rparr> = cb_set b"
proof -
  have "i div LENGTH('a) < 1 + Max (cb_set b) div LENGTH('a)" if "i \<in> cb_set b" for i
    using Max_ge [of "cb_set b" i] that by (simp add: div_le_mono less_Suc_eq_le)
  then show ?thesis using assms by (auto simp: cb_set_def iter_scalars_def cb_ok_def max_of_def)
qed

section \<open>Properties\<close>

text \<open>
  C33: the range constructor of a one-integer bit set. It succeeds exactly for \<open>lo \<le> hi \<le> capacity\<close> with \<open>lo\<close> below the
  capacity, and then holds exactly the numbers of the range. The empty range at the capacity, which the bounds it
  documents allow, overflows in the shift by \<open>lo\<close>.
\<close>

theorem scalar_from_range_exact:
  "case sb_from_range lo hi :: 'a::len word option of
     Some w \<Rightarrow> lo \<le> hi \<and> hi \<le> LENGTH('a) \<and> lo < LENGTH('a) \<and> bits w = {lo..<hi}
   | None \<Rightarrow> hi < lo \<or> LENGTH('a) < hi \<or> lo = LENGTH('a)"
proof -
  consider "hi < lo" | "LENGTH('a) < hi" | "lo \<le> hi" "hi \<le> LENGTH('a)" "lo = LENGTH('a)" | "lo \<le> hi" "hi \<le> LENGTH('a)" "lo < LENGTH('a)" by linarith
  then show ?thesis
  proof cases
    case 4
    have h: "(if 1 \<le> hi then do { a \<leftarrow> shl_checked 1 (hi - 1); b \<leftarrow> minus_checked a 1; plus_checked a b } else Some 0) = Some (mask hi :: 'a word)"
      using 4(2) hi_checked [of hi, where 'a = 'a] mask_checked [of "hi - 1", where 'a = 'a] by (cases "1 \<le> hi") (auto simp: shl_checked_def)
    obtain w :: "'a word" where w: "minus_checked (mask hi) (mask lo) = Some w" "bits w = {lo..<hi}" by (rule range_checked [OF 4])
    have "sb_from_range lo hi = Some w" unfolding sb_from_range_def h using 4 w(1) mask_checked [OF 4(3)] by (simp add: shl_checked_def)
    then show ?thesis using 4 w(2) by simp
  qed (auto simp: sb_from_range_def shl_checked_def split: option.splits)
qed

end
