(* ===== verification/Entity_Maps_Correct.thy ===== *)
theory Entity_Maps_Correct
  imports Entity_Maps Bitset_Correct
begin

text \<open>
  The maps and sets over entities against functions, partial functions and sets: what each operation returns and
  what it leaves, for single operations and for programs.
\<close>

section \<open>Packed options and keys\<close>

lemma packed_roundtrip:
  "packed_from_option opt = Some p \<Longrightarrow> packed_expand p = opt" "p < 2 ^ 32 \<Longrightarrow> packed_from_option (packed_expand p) = Some p"
  by (auto simp: packed_from_option_def packed_from_def packed_default_def packed_expand_def packed_is_none_def is_reserved_value_def
      assert_that_def bind_eq_Some_conv split: option.splits if_splits)

lemma keys_drain_range:
  "rp < 2 ^ 32 \<Longrightarrow> pos \<le> rp \<Longrightarrow> keys_drain (rp - pos) \<lparr>keys_pos = pos, keys_rev_pos = rp\<rparr> = Some [pos..<rp]"
proof (induction "rp - pos" arbitrary: pos)
  case (Suc n)
  then have n: "n = rp - Suc pos" "rp - pos = Suc n" by simp_all
  have "keys_drain n \<lparr>keys_pos = Suc pos, keys_rev_pos = rp\<rparr> = Some [Suc pos..<rp]" using Suc n by simp
  then show ?case using Suc.prems n by (simp add: keys_next_def entity_new_def upt_conv_Cons)
qed (simp add: keys_next_def)

section \<open>Secondary maps\<close>

lemma sec_index_nth: "sec_index m k = (if k < length (sec_elems m) then sec_elems m ! k else sec_default m)"
  by (simp add: sec_index_def vec_get_def)

lemma sec_resize_elems:
  "length (sec_elems (sec_resize m n)) = n" "sec_default (sec_resize m n) = sec_default m"
  "j < n \<Longrightarrow> sec_elems (sec_resize m n) ! j = sec_index m j"
  by (auto simp: sec_resize_def vec_resize_def sec_index_nth nth_append)

lemma sec_index_set_elems:
  "length (sec_elems (sec_index_set m k v)) = max (length (sec_elems m)) (k + 1)" "sec_default (sec_index_set m k v) = sec_default m"
  "sec_index (sec_index_set m k v) = (sec_index m)(k := v)"
proof -
  show l: "length (sec_elems (sec_index_set m k v)) = max (length (sec_elems m)) (k + 1)" "sec_default (sec_index_set m k v) = sec_default m"
    by (simp_all add: sec_index_set_def sec_resize_elems Let_def max_def)
  show "sec_index (sec_index_set m k v) = (sec_index m)(k := v)"
  proof
    fix j
    show "sec_index (sec_index_set m k v) j = ((sec_index m)(k := v)) j"
    proof (cases "length (sec_elems m) \<le> k")
      case True
      define r where "r = sec_resize m (k + 1)"
      have r: "length (sec_elems r) = k + 1" "sec_default r = sec_default m" "\<And>j. j < k + 1 \<Longrightarrow> sec_elems r ! j = sec_index m j"
        unfolding r_def by (rule sec_resize_elems)+
      have "sec_index_set m k v = r\<lparr>sec_elems := (sec_elems r)[k := v]\<rparr>" using True by (simp add: sec_index_set_def r_def Let_def)
      then show ?thesis using r True by (auto simp: sec_index_nth [of "r\<lparr>sec_elems := (sec_elems r)[k := v]\<rparr>"] sec_index_nth [of m] nth_list_update less_Suc_eq)
    next
      case False
      then show ?thesis by (auto simp: sec_index_nth sec_index_set_def nth_list_update)
    qed
  qed
qed

lemma sec_get_index: "sec_get m k = (if k < length (sec_elems m) then Some (sec_index m k) else None)"
  by (simp add: sec_get_def sec_index_nth vec_get_def)

lemma sec_insert_ok:
  assumes "\<And>n. fits n"
  shows "\<exists>m'. sec_insert fits m k v = Some (sec_get m k, m') \<and> sec_index m' = (sec_index m)(k := v) \<and> sec_default m' = sec_default m"
proof -
  have e: "sec_insert fits m k v = Some (sec_get m k, sec_index_set m k v)"
    using assms by (simp add: sec_insert_def sec_try_insert_def sec_try_resize_def sec_index_set_def sec_get_def vec_get_def Let_def)
  show ?thesis by (intro exI conjI) (rule e sec_index_set_elems)+
qed

lemma sec_remove_ok: "fst (sec_remove m k) = sec_get m k" "sec_index (snd (sec_remove m k)) = (sec_index m)(k := sec_default m)"
  by (auto simp: sec_remove_def sec_get_def vec_get_def sec_index_nth nth_list_update fun_eq_iff)

lemma sec_eq_iff: "sec_eq m n \<longleftrightarrow> sec_default m = sec_default n \<and> sec_index m = sec_index n"
proof
  assume e: "sec_eq m n"
  let ?l = "min (length (sec_elems m)) (length (sec_elems n))"
  have d: "sec_default m = sec_default n" using e by (simp add: sec_eq_def Let_def)
  have t: "sec_elems m ! k = sec_elems n ! k" if "k < ?l" for k using e that nth_take [of k ?l] unfolding sec_eq_def Let_def by metis
  have a: "sec_elems m ! k = sec_default m" if "?l \<le> k" "k < length (sec_elems m)" for k
    using e that nth_drop [of ?l "sec_elems m" "k - ?l"] by (auto simp: sec_eq_def Let_def list_all_length dest!: spec [of _ "k - ?l"])
  have b: "sec_elems n ! k = sec_default n" if "?l \<le> k" "k < length (sec_elems n)" for k
    using e that nth_drop [of ?l "sec_elems n" "k - ?l"] by (auto simp: sec_eq_def Let_def list_all_length dest!: spec [of _ "k - ?l"])
  have "sec_index m k = sec_index n k" for k using d t [of k] a [of k] b [of k] unfolding sec_index_nth by (cases "k < ?l") auto
  then show "sec_default m = sec_default n \<and> sec_index m = sec_index n" using d by auto
next
  assume "sec_default m = sec_default n \<and> sec_index m = sec_index n"
  then have d: "sec_default m = sec_default n" and i: "\<And>k. sec_index m k = sec_index n k" by auto
  let ?l = "min (length (sec_elems m)) (length (sec_elems n))"
  have "sec_elems m ! k = sec_elems n ! k" if "k < ?l" for k using i [of k] that by (simp add: sec_index_nth)
  then have "take ?l (sec_elems m) = take ?l (sec_elems n)" by (intro nth_equalityI) simp_all
  moreover have "list_all (\<lambda>e. e = sec_default m) (drop ?l (sec_elems m))"
    unfolding list_all_length
  proof (intro allI impI)
    fix k assume "k < length (drop ?l (sec_elems m))"
    then show "drop ?l (sec_elems m) ! k = sec_default m" using i [of "?l + k"] d by (auto simp: sec_index_nth split: if_splits)
  qed
  moreover have "list_all (\<lambda>e. e = sec_default n) (drop ?l (sec_elems n))"
    unfolding list_all_length
  proof (intro allI impI)
    fix k assume "k < length (drop ?l (sec_elems n))"
    then show "drop ?l (sec_elems n) ! k = sec_default n" using i [of "?l + k"] d by (auto simp: sec_index_nth split: if_splits)
  qed
  ultimately show "sec_eq m n" using d by (simp add: sec_eq_def Let_def)
qed

lemma elems_cnt_le: "elems_cnt m n \<le> n"
  by (induction n) auto

lemma elems_cnt_default: "elems_cnt m n \<le> k \<Longrightarrow> k < n \<Longrightarrow> sec_elems m ! k = sec_default m"
  by (induction n) (auto simp: less_Suc_eq split: if_splits)

lemma sec_visit_ok:
  assumes "sec_default m = d" "length (sec_elems m) = idx" "idx + length xs < 2 ^ 32"
  shows "\<exists>m'. sec_visit idx (map (\<lambda>e. if e = d then None else Some e) xs) m = Some m' \<and> sec_elems m' = sec_elems m @ xs \<and> sec_default m' = d"
  using assms
proof (induction xs arbitrary: idx m)
  case (Cons x xs)
  let ?m = "sec_index_set m idx x"
  have m: "sec_default ?m = d" "sec_elems ?m = sec_elems m @ [x]"
    using Cons.prems by (auto simp: sec_index_set_def sec_resize_def vec_resize_def Let_def list_update_append)
  have "\<exists>m'. sec_visit (idx + 1) (map (\<lambda>e. if e = d then None else Some e) xs) ?m = Some m' \<and> sec_elems m' = sec_elems ?m @ xs \<and> sec_default m' = d"
    by (rule Cons.IH) (use Cons.prems m in simp_all)
  moreover have "(case if x = d then None else Some x of Some v \<Rightarrow> v | None \<Rightarrow> sec_default m) = x" using Cons.prems(1) by simp
  ultimately show ?case using Cons.prems m by (simp add: entity_new_def)
qed simp

section \<open>Sparse maps\<close>

definition sparse_ok :: "('v \<Rightarrow> nat) \<Rightarrow> 'v sparse_map \<Rightarrow> bool" where
  "sparse_ok key m \<longleftrightarrow> (\<forall>i < length (sp_dense m). sec_get (sp_sparse m) (key (sp_dense m ! i)) = Some i)"

lemma sp_index_iff:
  assumes "sparse_ok key m" shows "sp_index key m k = Some i \<longleftrightarrow> i < length (sp_dense m) \<and> key (sp_dense m ! i) = k"
  using assms by (auto simp: sparse_ok_def sp_index_def vec_get_def bind_eq_Some_conv)

lemma sp_get_iff:
  assumes "sparse_ok key m" shows "sp_get key m k = Some v \<longleftrightarrow> v \<in> set (sp_dense m) \<and> key v = k"
  using assms by (auto simp: sparse_ok_def sp_get_def vec_get_def in_set_conv_nth bind_eq_Some_conv)

lemma sp_get_none: "sparse_ok key m \<Longrightarrow> sp_get key m k = None \<longleftrightarrow> (\<forall>v \<in> set (sp_dense m). key v \<noteq> k)"
  using sp_get_iff [of key m k] by (metis not_None_eq)

lemma sparse_ok_unique: "sparse_ok key m \<Longrightarrow> i < length (sp_dense m) \<Longrightarrow> j < length (sp_dense m) \<Longrightarrow>
    key (sp_dense m ! i) = key (sp_dense m ! j) \<Longrightarrow> i = j"
  by (metis sparse_ok_def option.inject)

lemma sparse_inj:
  assumes "sparse_ok key m" "u \<in> set (sp_dense m)" "v \<in> set (sp_dense m)" "key u = key v" shows "u = v"
proof -
  obtain i j where "i < length (sp_dense m)" "sp_dense m ! i = u" "j < length (sp_dense m)" "sp_dense m ! j = v"
    using assms(2,3) unfolding in_set_conv_nth by blast
  then show ?thesis using sparse_ok_unique [OF assms(1), of i j] assms(4) by auto
qed

lemma sparse_distinct: "sparse_ok key m \<Longrightarrow> distinct (sp_dense m)"
  unfolding distinct_conv_nth using sparse_ok_unique by metis

lemma sp_get_eqI:
  assumes "sparse_ok key m" "\<And>k v. M k = Some v \<longleftrightarrow> v \<in> set (sp_dense m) \<and> key v = k" shows "sp_get key m = M"
proof
  fix k show "sp_get key m k = M k" using sp_get_iff [OF assms(1), of k] assms(2) [of k] by (metis option.exhaust)
qed

lemma sec_get_set: "sec_get (sec_index_set s k v) j = (if j = k then Some v else if j < length (sec_elems s) then sec_get s j else if j < k then Some (sec_default s) else None)"
  by (auto simp: sec_get_index sec_index_set_elems sec_index_nth)

lemma sec_get_keep: "sec_get s j = Some i \<Longrightarrow> j \<noteq> k \<Longrightarrow> sec_get (sec_index_set s k v) j = Some i"
proof -
  assume g: "sec_get s j = Some i" and "j \<noteq> k"
  moreover have "j < length (sec_elems s)" using g by (simp add: sec_get_index split: if_splits)
  ultimately show ?thesis by (simp add: sec_get_set)
qed

lemma sp_insert_ok:
  assumes ok: "sparse_ok key m" and len: "length (sp_dense m) < 2 ^ 32"
  obtains m' where "sp_insert key m v = Some (sp_get key m (key v), m')" "sparse_ok key m'" "sp_get key m' = (sp_get key m)(key v \<mapsto> v)"
    "length (sp_dense m') \<le> length (sp_dense m) + 1"
proof (cases "sp_index key m (key v)")
  case None
  let ?m = "\<lparr>sp_sparse = sec_index_set (sp_sparse m) (key v) (length (sp_dense m)), sp_dense = sp_dense m @ [v]\<rparr>"
  have new: "key (sp_dense m ! i) \<noteq> key v" if "i < length (sp_dense m)" for i using sp_index_iff [OF ok, of "key v" i] None that by simp
  have ok': "sparse_ok key ?m"
    unfolding sparse_ok_def
  proof (intro allI impI)
    fix i assume i: "i < length (sp_dense ?m)"
    show "sec_get (sp_sparse ?m) (key (sp_dense ?m ! i)) = Some i"
    proof (cases "i < length (sp_dense m)")
      case True
      then show ?thesis using ok new [OF True] by (simp add: sparse_ok_def nth_append sec_get_keep)
    next
      case False
      then have "i = length (sp_dense m)" using i by simp
      then show ?thesis by (simp add: sec_get_set)
    qed
  qed
  have nk: "key u \<noteq> key v" if "u \<in> set (sp_dense m)" for u using that new by (auto simp: in_set_conv_nth)
  have "sp_get key ?m = (sp_get key m)(key v \<mapsto> v)"
    by (rule sp_get_eqI [OF ok']) (use sp_get_iff [OF ok] nk in auto)
  moreover have "sp_get key m (key v) = None" using sp_get_none [OF ok] nk by blast
  moreover have "sp_insert key m v = Some (None, ?m)" using None len by (simp add: sp_insert_def)
  ultimately show thesis using that [of ?m] ok' by simp
next
  case (Some i)
  then have i: "i < length (sp_dense m)" "key (sp_dense m ! i) = key v" using sp_index_iff [OF ok] by auto
  let ?m = "m\<lparr>sp_dense := (sp_dense m)[i := v]\<rparr>"
  have ok': "sparse_ok key ?m" using ok i by (auto simp: sparse_ok_def nth_list_update)
  have "sp_get key ?m = (sp_get key m)(key v \<mapsto> v)"
  proof (rule sp_get_eqI [OF ok'])
    fix k u
    have "set ((sp_dense m)[i := v]) = insert v (set (sp_dense m) - {sp_dense m ! i})" by (rule set_update_distinct [OF sparse_distinct [OF ok] i(1)])
    moreover have "u \<noteq> sp_dense m ! i \<longleftrightarrow> key u \<noteq> key v" if "u \<in> set (sp_dense m)"
      using sparse_inj [OF ok that nth_mem [OF i(1)]] i(2) by auto
    ultimately have "u \<in> set ((sp_dense m)[i := v]) \<longleftrightarrow> u = v \<or> (u \<in> set (sp_dense m) \<and> key u \<noteq> key v)" by auto
    then show "((sp_get key m)(key v \<mapsto> v)) k = Some u \<longleftrightarrow> u \<in> set (sp_dense ?m) \<and> key u = k"
      using sp_get_iff [OF ok, of k u] by auto
  qed
  moreover have "sp_get key m (key v) = Some (sp_dense m ! i)" using sp_get_iff [OF ok] i by auto
  moreover have "sp_insert key m v = Some (Some (sp_dense m ! i), ?m)" using Some by (simp add: sp_insert_def)
  ultimately show thesis using that [of ?m] ok' by simp
qed

lemma sparse_ok_butlast: "sparse_ok key m \<Longrightarrow> sparse_ok key (m\<lparr>sp_dense := butlast (sp_dense m)\<rparr>)"
  by (simp add: sparse_ok_def nth_butlast)

lemma sparse_split_last:
  assumes "sparse_ok key m" "sp_dense m \<noteq> []"
  shows "set (butlast (sp_dense m)) = set (sp_dense m) - {last (sp_dense m)}"
    "u \<in> set (sp_dense m) \<Longrightarrow> key u = key (last (sp_dense m)) \<Longrightarrow> u = last (sp_dense m)"
proof -
  have e: "sp_dense m = butlast (sp_dense m) @ [last (sp_dense m)]" using assms(2) by simp
  have "distinct (butlast (sp_dense m) @ [last (sp_dense m)])" using sparse_distinct [OF assms(1)] e by simp
  moreover have "set (sp_dense m) = insert (last (sp_dense m)) (set (butlast (sp_dense m)))" by (subst e) simp
  ultimately show "set (butlast (sp_dense m)) = set (sp_dense m) - {last (sp_dense m)}" by auto
  show "u \<in> set (sp_dense m) \<Longrightarrow> key u = key (last (sp_dense m)) \<Longrightarrow> u = last (sp_dense m)"
    using sparse_inj [OF assms(1) _ last_in_set [OF assms(2)]] by blast
qed

lemma sp_drop_last:
  assumes ok: "sparse_ok key m" and ne: "sp_dense m \<noteq> []"
  shows "sp_get key (m\<lparr>sp_dense := butlast (sp_dense m)\<rparr>) = (sp_get key m)(key (last (sp_dense m)) := None)"
    "sp_get key m (key (last (sp_dense m))) = Some (last (sp_dense m))"
proof -
  note s = sparse_split_last [OF ok ne]
  show "sp_get key (m\<lparr>sp_dense := butlast (sp_dense m)\<rparr>) = (sp_get key m)(key (last (sp_dense m)) := None)"
  proof (rule sp_get_eqI [OF sparse_ok_butlast [OF ok]])
    fix k u
    show "((sp_get key m)(key (last (sp_dense m)) := None)) k = Some u \<longleftrightarrow>
        u \<in> set (sp_dense (m\<lparr>sp_dense := butlast (sp_dense m)\<rparr>)) \<and> key u = k"
      using sp_get_iff [OF ok, of k u] s(1) s(2) [of u] by auto
  qed
  show "sp_get key m (key (last (sp_dense m))) = Some (last (sp_dense m))" using sp_get_iff [OF ok] ne by simp
qed

lemma sp_remove_ok:
  assumes ok: "sparse_ok key m"
  shows "\<exists>m'. sp_remove key m k = (sp_get key m k, m') \<and> sparse_ok key m' \<and> sp_get key m' = (sp_get key m)(k := None) \<and>
    length (sp_dense m') \<le> length (sp_dense m)"
proof (cases "sp_index key m k")
  case None
  have "sp_get key m k = None"
    unfolding sp_get_none [OF ok] using sp_index_iff [OF ok, of k] None by (metis in_set_conv_nth option.distinct(1))
  then show ?thesis using None ok by (simp add: sp_remove_def fun_upd_idem)
next
  case (Some i)
  let ?n = "length (sp_dense m)" and ?moved = "last (sp_dense m)"
  have i: "i < ?n" "key (sp_dense m ! i) = k" using Some sp_index_iff [OF ok] by auto
  then have ne: "sp_dense m \<noteq> []" by auto
  have l: "?moved = sp_dense m ! (?n - 1)" by (rule last_conv_nth [OF ne])
  have out: "sp_get key m k = Some (sp_dense m ! i)" using sp_get_iff [OF ok] i by auto
  show ?thesis
  proof (cases "i = ?n - 1")
    case True
    then have k: "k = key ?moved" using i l by simp
    show ?thesis using Some True sp_drop_last [OF ok ne] sparse_ok_butlast [OF ok] unfolding k by (simp add: sp_remove_def Let_def)
  next
    case False
    then have lt: "i < ?n - 1" using i(1) by simp
    have nback: "key (sp_dense m ! j) \<noteq> key ?moved" if j: "j < ?n - 1" for j
    proof
      assume e: "key (sp_dense m ! j) = key ?moved"
      have "j < ?n" "?n - 1 < ?n" using j by simp_all
      from sparse_ok_unique [OF ok this] e l j show False by simp
    qed
    let ?m = "\<lparr>sp_sparse = sec_index_set (sp_sparse m) (key ?moved) i, sp_dense = (butlast (sp_dense m))[i := ?moved]\<rparr>"
    have ok': "sparse_ok key ?m"
      unfolding sparse_ok_def
    proof (intro allI impI)
      fix j assume "j < length (sp_dense ?m)"
      then have j: "j < ?n - 1" by simp
      show "sec_get (sp_sparse ?m) (key (sp_dense ?m ! j)) = Some j"
      proof (cases "j = i")
        case True
        then show ?thesis using lt by (simp add: sec_get_set)
      next
        case False
        then have "sp_dense ?m ! j = sp_dense m ! j" using j by (simp add: nth_butlast)
        moreover have "key (sp_dense m ! j) \<noteq> key ?moved" by (rule nback [OF j])
        ultimately show ?thesis using ok j by (simp add: sparse_ok_def sec_get_keep)
      qed
    qed
    note s = sparse_split_last [OF ok ne]
    have "distinct (butlast (sp_dense m))" using sparse_distinct [OF ok] by (rule distinct_butlast)
    from set_update_distinct [OF this, of i ?moved]
    have "set (sp_dense ?m) = insert ?moved (set (sp_dense m) - {?moved} - {sp_dense m ! i})" using lt s(1) by (simp add: nth_butlast)
    moreover have "?moved \<noteq> sp_dense m ! i" using nback [OF lt] by auto
    ultimately have set: "set (sp_dense ?m) = set (sp_dense m) - {sp_dense m ! i}" using ne by auto
    have "sp_get key ?m = (sp_get key m)(k := None)"
    proof (rule sp_get_eqI [OF ok'])
      fix k' u
      show "((sp_get key m)(k := None)) k' = Some u \<longleftrightarrow> u \<in> set (sp_dense ?m) \<and> key u = k'"
        using sp_get_iff [OF ok, of k' u] sparse_inj [OF ok _ nth_mem [OF i(1)], of u] i(2) unfolding set by auto
    qed
    then show ?thesis using Some False ok' out lt by (simp add: sp_remove_def Let_def nth_butlast)
  qed
qed

text \<open>Programs on sparse maps, and what they do to a map: \<open>pop\<close> takes some entry.\<close>

datatype 'v sparse_op = Sp_insert 'v | Sp_remove nat | Sp_pop | Sp_clear

fun run_sparse :: "('v \<Rightarrow> nat) \<Rightarrow> 'v sparse_op \<Rightarrow> 'v sparse_map \<Rightarrow> ('v option \<times> 'v sparse_map) option" where
  "run_sparse key (Sp_insert v) m = sp_insert key m v"
| "run_sparse key (Sp_remove k) m = Some (sp_remove key m k)"
| "run_sparse key Sp_pop m = Some (sp_pop m)"
| "run_sparse key Sp_clear m = Some (None, sp_clear m)"

fun sparse_spec :: "('v \<Rightarrow> nat) \<Rightarrow> 'v sparse_op \<Rightarrow> (nat \<rightharpoonup> 'v) \<Rightarrow> 'v option \<Rightarrow> (nat \<rightharpoonup> 'v) \<Rightarrow> bool" where
  "sparse_spec key (Sp_insert v) M out M' \<longleftrightarrow> out = M (key v) \<and> M' = M(key v \<mapsto> v)"
| "sparse_spec key (Sp_remove k) M out M' \<longleftrightarrow> out = M k \<and> M' = M(k := None)"
| "sparse_spec key Sp_pop M None M' \<longleftrightarrow> M = Map.empty \<and> M' = M"
| "sparse_spec key Sp_pop M (Some v) M' \<longleftrightarrow> M (key v) = Some v \<and> M' = M(key v := None)"
| "sparse_spec key Sp_clear M out M' \<longleftrightarrow> out = None \<and> M' = Map.empty"

lemma run_sparse_ok:
  assumes ok: "sparse_ok key m" and len: "length (sp_dense m) < 2 ^ 32"
  shows "\<exists>out m'. run_sparse key op m = Some (out, m') \<and> sparse_ok key m' \<and> sparse_spec key op (sp_get key m) out (sp_get key m') \<and>
    length (sp_dense m') \<le> length (sp_dense m) + 1"
proof (cases op)
  case (Sp_insert v)
  show ?thesis by (rule sp_insert_ok [OF assms, of v]) (use Sp_insert in auto)
next
  case (Sp_remove k)
  then show ?thesis using sp_remove_ok [OF ok, of k] by auto
next
  case Sp_pop
  show ?thesis
  proof (cases "sp_dense m = []")
    case True
    then have "sp_get key m = Map.empty" by (intro sp_get_eqI [OF ok]) simp
    then show ?thesis using Sp_pop True ok by (simp add: sp_pop_def)
  next
    case False
    then show ?thesis using Sp_pop sp_drop_last [OF ok False] sparse_ok_butlast [OF ok] by (simp add: sp_pop_def)
  qed
next
  case Sp_clear
  have ok': "sparse_ok key (sp_clear m)" by (simp add: sparse_ok_def sp_clear_def)
  have "sp_get key (sp_clear m) = Map.empty" by (rule sp_get_eqI [OF ok']) (simp add: sp_clear_def)
  then show ?thesis using Sp_clear ok' by (simp add: sp_clear_def)
qed

fun run_sparse_ops :: "('v \<Rightarrow> nat) \<Rightarrow> 'v sparse_op list \<Rightarrow> 'v sparse_map \<Rightarrow> ('v option list \<times> 'v sparse_map) option" where
  "run_sparse_ops key [] m = Some ([], m)"
| "run_sparse_ops key (op # ops) m = do {
     (out, m) \<leftarrow> run_sparse key op m;
     (outs, m) \<leftarrow> run_sparse_ops key ops m;
     Some (out # outs, m)
   }"

fun sparse_trace :: "('v \<Rightarrow> nat) \<Rightarrow> 'v sparse_op list \<Rightarrow> (nat \<rightharpoonup> 'v) \<Rightarrow> 'v option list \<Rightarrow> (nat \<rightharpoonup> 'v) \<Rightarrow> bool" where
  "sparse_trace key [] M [] M' \<longleftrightarrow> M' = M"
| "sparse_trace key (op # ops) M (out # outs) M' \<longleftrightarrow> (\<exists>N. sparse_spec key op M out N \<and> sparse_trace key ops N outs M')"
| "sparse_trace key _ M _ M' \<longleftrightarrow> False"

lemma run_sparse_ops_ok:
  assumes "sparse_ok key m" "length (sp_dense m) + length ops \<le> 2 ^ 32"
  shows "\<exists>outs m'. run_sparse_ops key ops m = Some (outs, m') \<and> sparse_ok key m' \<and> sparse_trace key ops (sp_get key m) outs (sp_get key m')"
  using assms
proof (induction ops arbitrary: m)
  case (Cons op ops)
  have "length (sp_dense m) < 2 ^ 32" using Cons.prems(2) by simp
  then obtain out n where s: "run_sparse key op m = Some (out, n)" "sparse_ok key n" "sparse_spec key op (sp_get key m) out (sp_get key n)"
    "length (sp_dense n) \<le> length (sp_dense m) + 1" using run_sparse_ok [OF Cons.prems(1), of op] by blast
  have "length (sp_dense n) + length ops \<le> 2 ^ 32" using Cons.prems(2) s(4) by simp
  from Cons.IH [OF s(2) this] obtain outs m' where "run_sparse_ops key ops n = Some (outs, m')" "sparse_ok key m'"
    "sparse_trace key ops (sp_get key n) outs (sp_get key m')" by blast
  then show ?case using s(1,3) by auto
qed auto

section \<open>Entity sets\<close>

text \<open>Programs on entity sets, with the results of the operations, and the same on sets of numbers.\<close>

datatype set_op = Set_insert nat | Set_remove nat | Set_contains nat | Set_pop | Set_clear | Set_extend "nat list"

datatype set_out = Flag bool | Elem "nat option" | Done

fun run_set :: "(nat \<Rightarrow> bool) \<Rightarrow> set_op \<Rightarrow> entity_set \<Rightarrow> (set_out \<times> entity_set) option" where
  "run_set fits (Set_insert k) s = do { (f, s) \<leftarrow> es_insert fits s k; Some (Flag f, s) }"
| "run_set fits (Set_remove k) s = do { (f, s) \<leftarrow> es_remove s k; Some (Flag f, s) }"
| "run_set fits (Set_contains k) s = do { f \<leftarrow> es_contains s k; Some (Flag f, s) }"
| "run_set fits Set_pop s = do { (k, s) \<leftarrow> es_pop s; Some (Elem k, s) }"
| "run_set fits Set_clear s = do { s \<leftarrow> es_clear s; Some (Done, s) }"
| "run_set fits (Set_extend ks) s = do { s \<leftarrow> es_extend fits ks s; Some (Done, s) }"

fun abs_set :: "set_op \<Rightarrow> nat set \<Rightarrow> set_out \<times> nat set" where
  "abs_set (Set_insert k) S = (Flag (k \<notin> S), insert k S)"
| "abs_set (Set_remove k) S = (Flag (k \<in> S), S - {k})"
| "abs_set (Set_contains k) S = (Flag (k \<in> S), S)"
| "abs_set Set_pop S = (if S = {} then (Elem None, S) else (Elem (Some (Max S)), S - {Max S}))"
| "abs_set Set_clear S = (Done, {})"
| "abs_set (Set_extend ks) S = (Done, S \<union> set ks)"

text \<open>The entities an operation adds; the reserved value is not an entity.\<close>

fun adds :: "set_op \<Rightarrow> nat list" where
  "adds (Set_insert k) = [k]"
| "adds (Set_extend ks) = ks"
| "adds _ = []"

definition es_rel :: "entity_set \<Rightarrow> nat set \<Rightarrow> bool" where
  "es_rel s S \<longleftrightarrow> cb_ok s \<and> cb_set s = S \<and> S \<subseteq> {..<reserved_value}"

lemma es_insert_rel:
  assumes "es_rel s S" "\<forall>n. fits n" "k < reserved_value"
  shows "\<exists>s'. es_insert fits s k = Some (k \<notin> S, s') \<and> es_rel s' (insert k S)"
proof -
  have ok: "cb_ok s" "k < 2 ^ 32" using assms(1,3) by (simp_all add: es_rel_def reserved_value_def)
  obtain s' where "cb_insert fits s k = Some (k \<notin> cb_set s, s')" "cb_set s' = insert k (cb_set s)" "cb_ok s'"
    by (rule cb_insert_ok [of s fits k, OF ok(1) spec [OF assms(2)] ok(2)]) (rule that)
  then show ?thesis using assms(1,3) by (auto simp: es_insert_def es_rel_def)
qed

lemma es_extend_rel:
  assumes "es_rel s S" "\<forall>n. fits n" "\<forall>k \<in> set ks. k < reserved_value"
  shows "\<exists>s'. es_extend fits ks s = Some s' \<and> es_rel s' (S \<union> set ks)"
  using assms
proof (induction ks arbitrary: s S)
  case (Cons k ks)
  have "k < reserved_value" using Cons.prems(3) by simp
  then obtain s1 where s1: "es_insert fits s k = Some (k \<notin> S, s1)" "es_rel s1 (insert k S)"
    using es_insert_rel [of s S fits k] Cons.prems(1,2) by blast
  have ks: "\<forall>k \<in> set ks. k < reserved_value" using Cons.prems(3) by simp
  from Cons.IH [OF s1(2) Cons.prems(2) ks] s1(1) show ?case by auto
qed auto

lemma es_pop_rel:
  assumes "es_rel s S"
  shows "\<exists>s'. es_pop s = Some (max_of S, s') \<and> es_rel s' (S - set_option (max_of S))"
proof -
  have ok: "cb_ok s" using assms by (simp add: es_rel_def)
  obtain s' where p: "cb_pop s = Some (max_of (cb_set s), s')" "cb_set s' = cb_set s - set_option (max_of (cb_set s))" "cb_ok s'"
    by (rule cb_pop_ok [OF ok]) (rule that)
  have S: "cb_set s = S" "S \<subseteq> {..<reserved_value}" "finite S" using assms finite_cb_set [of s] by (auto simp: es_rel_def)
  have "i < 2 ^ 32 - 1" if "max_of S = Some i" for i
    using that S(2) Max_in [OF S(3)] by (auto simp: max_of_def reserved_value_def split: if_splits)
  then have "es_pop s = Some (max_of S, s')" using p(1) unfolding es_pop_def S(1) by (cases "max_of S") (auto simp: entity_new_def)
  moreover have "es_rel s' (S - set_option (max_of S))" using p(2,3) S by (auto simp: es_rel_def)
  ultimately show ?thesis by blast
qed

lemma run_set_ok:
  assumes rel: "es_rel s S" and fits: "\<forall>n. fits n" and k: "\<forall>k \<in> set (adds op). k < reserved_value"
  shows "\<exists>s'. run_set fits op s = Some (fst (abs_set op S), s') \<and> es_rel s' (snd (abs_set op S))"
proof (cases op)
  case (Set_insert k)
  then show ?thesis using es_insert_rel [OF rel fits, of k] assms(3) by auto
next
  case (Set_remove k)
  have ok: "cb_ok s" using rel by (simp add: es_rel_def)
  obtain s' where "cb_remove s k = Some (k \<in> cb_set s, s')" "cb_set s' = cb_set s - {k}" "cb_ok s'" by (rule cb_remove_ok [OF ok]) (rule that)
  then show ?thesis using rel Set_remove by (auto simp: es_remove_def es_rel_def)
next
  case (Set_contains k)
  then show ?thesis using rel by (simp add: es_contains_def cb_contains_set es_rel_def)
next
  case Set_pop
  then show ?thesis using es_pop_rel [OF rel] by (auto simp: max_of_def split: if_splits)
next
  case Set_clear
  have ok: "cb_ok s" using rel by (simp add: es_rel_def)
  obtain s' where "cb_clear s = Some s'" "cb_set s' = {}" "cb_ok s'" by (rule cb_clear_ok [OF ok]) (rule that)
  then show ?thesis using Set_clear by (simp add: es_clear_def es_rel_def)
next
  case (Set_extend ks)
  then show ?thesis using es_extend_rel [OF rel fits, of ks] assms(3) by auto
qed

fun run_set_ops :: "(nat \<Rightarrow> bool) \<Rightarrow> set_op list \<Rightarrow> entity_set \<Rightarrow> (set_out list \<times> entity_set) option" where
  "run_set_ops fits [] s = Some ([], s)"
| "run_set_ops fits (op # ops) s = do {
     (out, s) \<leftarrow> run_set fits op s;
     (outs, s) \<leftarrow> run_set_ops fits ops s;
     Some (out # outs, s)
   }"

fun abs_set_ops :: "set_op list \<Rightarrow> nat set \<Rightarrow> set_out list \<times> nat set" where
  "abs_set_ops [] S = ([], S)"
| "abs_set_ops (op # ops) S = (let (out, S) = abs_set op S; (outs, S) = abs_set_ops ops S in (out # outs, S))"

lemma run_set_ops_ok:
  assumes "es_rel s S" "\<forall>n. fits n" "\<forall>op \<in> set ops. \<forall>k \<in> set (adds op). k < reserved_value"
  shows "\<exists>s'. run_set_ops fits ops s = Some (fst (abs_set_ops ops S), s') \<and> es_rel s' (snd (abs_set_ops ops S))"
  using assms
proof (induction ops arbitrary: s S)
  case (Cons op ops)
  obtain out T where o: "abs_set op S = (out, T)" by fastforce
  have a: "\<forall>k \<in> set (adds op). k < reserved_value" using Cons.prems(3) by simp
  obtain s1 where s1: "run_set fits op s = Some (out, s1)" "es_rel s1 T" using run_set_ok [OF Cons.prems(1,2) a] o by auto
  have "\<forall>op \<in> set ops. \<forall>k \<in> set (adds op). k < reserved_value" using Cons.prems(3) by simp
  from Cons.IH [OF s1(2) Cons.prems(2) this] s1(1) o show ?case by (auto split: prod.splits)
qed auto

lemma those_map_id: "(\<And>x. x \<in> set xs \<Longrightarrow> f x = Some x) \<Longrightarrow> those (map f xs) = Some xs"
  by (induction xs) auto

lemma es_iter_rel: "es_rel s S \<Longrightarrow> es_iter s = Some (sorted_list_of_set S)"
  using finite_cb_set [of s] by (auto simp: es_iter_def cb_iter_set es_rel_def entity_new_def reserved_value_def intro!: those_map_id)

lemma es_is_empty_rel: "es_rel s S \<Longrightarrow> es_is_empty s \<longleftrightarrow> S = {}"
  using finite_cb_set [of s] by (auto simp: es_is_empty_def cb_is_empty_def cb_len_card es_rel_def)

text \<open>The derived equality also compares the words that are reserved: an empty set with room differs from a new one.\<close>

lemma entity_set_eq_sees_capacity:
  assumes "\<forall>n. fits n" "0 < n" "n < 2 ^ 32"
  shows "\<exists>s. es_with_capacity fits n = Some s \<and> es_iter s = es_iter es_new \<and> \<not> cb_eq s es_new"
proof -
  obtain s where s: "ensure_capacity fits (cb_new :: entity_set) (n - 1 + 1) = Some s" "cb_set s = cb_set (cb_new :: entity_set)" "cb_max s = cb_max (cb_new :: entity_set)"
    "(n - 1) div LENGTH(64) < length (cb_elems s)" "length (cb_elems (cb_new :: entity_set)) \<le> length (cb_elems s)"
    by (rule ensure_ok [of fits "n - 1" "cb_new :: entity_set"]) (use assms in auto)
  have "es_with_capacity fits n = Some s" using s(1) assms(2) by (simp add: es_with_capacity_def with_capacity_def try_with_capacity_def ensure_capacity_def)
  moreover have "es_iter s = es_iter es_new" using s(2) by (simp add: es_iter_def es_new_def cb_iter_set)
  moreover have "\<not> cb_eq s es_new" using s(4) by (auto simp: cb_eq_def es_new_def cb_new_def)
  ultimately show ?thesis by blast
qed

section \<open>Properties\<close>

text \<open>
  C22: entity sets refine sets. Any sequence of insertions, extensions, removals, membership tests, pops and clears of
  entities returns what it returns on sets of numbers, the largest element for a pop, and afterwards iteration lists
  the elements in increasing order and the test for emptiness is exact, provided memory can be had.
\<close>

theorem entity_set_refines:
  assumes "\<forall>n. fits n" "\<forall>op \<in> set ops. \<forall>k \<in> set (adds op). k < reserved_value"
  shows "\<exists>s. run_set_ops fits ops es_new = Some (fst (abs_set_ops ops {}), s) \<and>
    es_iter s = Some (sorted_list_of_set (snd (abs_set_ops ops {}))) \<and> (es_is_empty s \<longleftrightarrow> snd (abs_set_ops ops {}) = {})"
proof -
  have "es_rel es_new {}" by (simp add: es_rel_def es_new_def cb_ok_new)
  then obtain s where "run_set_ops fits ops es_new = Some (fst (abs_set_ops ops {}), s)" "es_rel s (snd (abs_set_ops ops {}))"
    using run_set_ops_ok [of es_new "{}" fits ops] assms by blast
  then show ?thesis using es_iter_rel es_is_empty_rel by blast
qed

theorem entity_set_refines_witness:
  "\<exists>s. run_set_ops (\<lambda>_. True) [Set_insert 70, Set_extend [3, 70, 9], Set_pop, Set_remove 3, Set_insert 9] es_new =
      Some ([Flag True, Done, Elem (Some 70), Flag True, Flag False], s) \<and> es_iter s = Some [9] \<and> (es_is_empty s \<longleftrightarrow> {9 :: nat} = {})"
proof -
  let ?ops = "[Set_insert 70, Set_extend [3, 70, 9], Set_pop, Set_remove 3, Set_insert 9]"
  have e: "abs_set_ops ?ops {} = ([Flag True, Done, Elem (Some 70), Flag True, Flag False], {9})" by (simp, blast)
  have a: "\<forall>op \<in> set ?ops. \<forall>k \<in> set (adds op). k < reserved_value" by (simp add: reserved_value_def)
  show ?thesis using entity_set_refines [of "\<lambda>_. True" ?ops, OF _ a] unfolding e by simp
qed

text \<open>
  C23: sparse maps refine partial functions. Any sequence of at most 2 to the 32 insertions, removals, pops and clears
  runs without panic; each insertion and removal returns the value that was at the key, a pop removes some entry of
  the map and finds one if there is one, lookups afterwards give the map that results, and the values are listed once each.
\<close>

theorem sparse_map_refines:
  assumes "length ops \<le> 2 ^ 32"
  shows "\<exists>outs m. run_sparse_ops key ops sp_new = Some (outs, m) \<and> sparse_trace key ops Map.empty outs (sp_get key m) \<and>
    distinct (map key (sp_values m)) \<and> set (sp_values m) = ran (sp_get key m)"
proof -
  have ok: "sparse_ok key sp_new" by (simp add: sparse_ok_def sp_new_def)
  have "sp_get key sp_new = Map.empty" by (rule sp_get_eqI [OF ok]) (simp add: sp_new_def)
  then obtain outs m where r: "run_sparse_ops key ops sp_new = Some (outs, m)" "sparse_ok key m" "sparse_trace key ops Map.empty outs (sp_get key m)"
    using run_sparse_ops_ok [OF ok, of ops] assms by (auto simp: sp_new_def)
  have "inj_on key (set (sp_dense m))" using sparse_inj [OF r(2)] by (auto intro!: inj_onI)
  then have "distinct (map key (sp_values m))" using sparse_distinct [OF r(2)] by (simp add: distinct_map sp_values_def)
  moreover have "set (sp_values m) = ran (sp_get key m)" using sp_get_iff [OF r(2)] by (auto simp: ran_def sp_values_def)
  ultimately show ?thesis using r(1,3) by blast
qed

theorem sparse_map_refines_witness:
  "\<exists>outs m. run_sparse_ops fst [Sp_insert (3, 1), Sp_insert (5, 2 :: nat), Sp_insert (3, 7), Sp_remove 3, Sp_pop] sp_new = Some (outs, m) \<and>
     sparse_trace fst [Sp_insert (3, 1), Sp_insert (5, 2), Sp_insert (3, 7), Sp_remove 3, Sp_pop] Map.empty outs (sp_get fst m) \<and>
     distinct (map fst (sp_values m)) \<and> set (sp_values m) = ran (sp_get fst m)"
  by (rule sparse_map_refines) simp

text \<open>
  C24: a secondary map survives serialization. The sequence that is written, with trailing defaults left out and other
  defaults written as none, reads back without error as a map that is equal to it and has the same value at every key.
\<close>

theorem secondary_map_serde_roundtrip:
  assumes "length (sec_elems m) < 2 ^ 32"
  shows "\<exists>m'. sec_deserialize (sec_serialize m) = Some (Inr m') \<and> sec_eq m m' \<and> sec_index m' = sec_index m"
proof -
  let ?n = "elems_cnt m (length (sec_elems m))"
  have n: "?n \<le> length (sec_elems m)" by (rule elems_cnt_le)
  obtain m' where v: "sec_visit 0 (map (\<lambda>e. if e = sec_default m then None else Some e) (take ?n (sec_elems m))) (sec_with_default (sec_default m)) = Some m'"
    "sec_elems m' = take ?n (sec_elems m)" "sec_default m' = sec_default m"
    using sec_visit_ok [of "sec_with_default (sec_default m)" "sec_default m" 0 "take ?n (sec_elems m)"] assms n by (auto simp: sec_with_default_def)
  have "sec_index m' = sec_index m"
    using v(2,3) n elems_cnt_default [of m "length (sec_elems m)"] by (auto simp: sec_index_nth fun_eq_iff)
  then show ?thesis using v by (simp add: sec_serialize_def sec_deserialize_def sec_eq_iff)
qed

theorem secondary_map_serde_roundtrip_witness:
  "\<exists>m'. sec_deserialize (sec_serialize \<lparr>sec_elems = [4, 0, 6, 0, 0 :: nat], sec_default = 0\<rparr>) = Some (Inr m') \<and>
     sec_eq \<lparr>sec_elems = [4, 0, 6, 0, 0], sec_default = 0\<rparr> m' \<and> sec_index m' = sec_index \<lparr>sec_elems = [4, 0, 6, 0, 0], sec_default = 0\<rparr>"
  by (rule secondary_map_serde_roundtrip) simp

end
