(* ===== verification/Sia32_Lower.thy ===== *)
theory Sia32_Lower
  imports Mach_Abi
begin

text \<open>
  Instruction selection of the SIA32 backend: the allocator of virtual registers
  (\<open>machinst/vcode.rs\<close>), the part of the lowering context that selection uses
  (\<open>machinst/lower.rs\<close>, \<open>machinst/valueregs.rs\<close>, \<open>machinst/isle.rs\<close>), the constructors of
  \<open>src/cranelift/codegen/src/isa/sia32/lower/isle.rs\<close> and the rules of \<open>lower.isle\<close>.

  An operation takes the lowering context and returns its result with the new context; \<open>None\<close> is a
  panic. An instruction emitted for one IR instruction goes to the end of \<open>ir_insts\<close>. The rule
  compiler's output is not part of the repository: \<open>lower_inst\<close> and \<open>lower_branch\<close> select by the
  patterns and priorities the rules state.
\<close>

section \<open>Value registers\<close>

datatype value_regs = One_reg mreg | Two_regs mreg mreg

fun regs_of :: "value_regs \<Rightarrow> mreg list" where
  "regs_of (One_reg r) = [r]"
| "regs_of (Two_regs r1 r2) = [r1, r2]"

fun only_reg :: "value_regs \<Rightarrow> mreg option" where
  "only_reg (One_reg r) = Some r"
| "only_reg (Two_regs _ _) = None"

text \<open>\<open>regs()[i]\<close>: an index past the valid parts panics.\<close>

definition value_regs_get :: "value_regs \<Rightarrow> nat \<Rightarrow> mreg option" where
  "value_regs_get v i = (if i < length (regs_of v) then Some (regs_of v ! i) else None)"

section \<open>Virtual registers\<close>

text \<open>
  The index bound and the packing of an index and a class into bits belong to the register
  allocator package; the allocator below only compares them.
\<close>

record vreg_limits =
  VReg_MAX :: nat
  vreg_bits :: "nat \<Rightarrow> reg_class \<Rightarrow> nat"

record vreg_allocator =
  vreg_types :: "ir_type list"
  vreg_aliases :: "nat \<rightharpoonup> nat"
  deferred_error :: "codegen_error option"

definition PINNED_VREGS :: nat where "PINNED_VREGS = 192"

definition REG_SPILLSLOT_MASK :: nat where "REG_SPILLSLOT_MASK = 0x7FFFFFFF"

definition vregs_with_capacity :: vreg_allocator where
  "vregs_with_capacity =
     \<lparr>vreg_types = replicate PINNED_VREGS ty_INVALID, vreg_aliases = Map.empty, deferred_error = None\<rparr>"

definition from_virtual_reg_checked :: "vreg_limits \<Rightarrow> nat \<Rightarrow> reg_class \<Rightarrow> mreg option" where
  "from_virtual_reg_checked lim v rc =
     (if vreg_bits lim v rc \<le> REG_SPILLSLOT_MASK then Some (Virtual v rc) else None)"

text \<open>The outer option is the panic on a type that takes more than two registers.\<close>

definition vreg_alloc ::
  "vreg_limits \<Rightarrow> ir_type \<Rightarrow> vreg_allocator \<Rightarrow> (codegen_error + value_regs \<times> vreg_allocator) option" where
  "vreg_alloc lim ty a =
     (if deferred_error a \<noteq> None then Some (Inl CodeTooLarge)
      else case rc_for_type ty of
        Inl e \<Rightarrow> Some (Inl e)
      | Inr (rcs, tys) \<Rightarrow>
          let v = length (vreg_types a); a' = a\<lparr>vreg_types := vreg_types a @ tys\<rparr> in
          if v + length rcs > VReg_MAX lim then Some (Inl CodeTooLarge)
          else case rcs of
            [rc0] \<Rightarrow> (case from_virtual_reg_checked lim v rc0 of
                None \<Rightarrow> Some (Inl CodeTooLarge)
              | Some r0 \<Rightarrow> Some (Inr (One_reg r0, a')))
          | [rc0, rc1] \<Rightarrow>
              (case (from_virtual_reg_checked lim v rc0, from_virtual_reg_checked lim (v + 1) rc1) of
                (Some r0, Some r1) \<Rightarrow> Some (Inr (Two_regs r0 r1, a'))
              | _ \<Rightarrow> Some (Inl CodeTooLarge))
          | _ \<Rightarrow> None)"

definition bogus_for_deferred_error :: "ir_type \<Rightarrow> value_regs option" where
  "bogus_for_deferred_error ty =
     (case rc_for_type ty of
        Inl e \<Rightarrow> None
      | Inr ([rc0], _) \<Rightarrow> Some (One_reg (Virtual 0 rc0))
      | Inr ([rc0, rc1], _) \<Rightarrow> Some (Two_regs (Virtual 0 rc0) (Virtual 1 rc1))
      | Inr _ \<Rightarrow> None)"

definition alloc_with_deferred_error ::
  "vreg_limits \<Rightarrow> ir_type \<Rightarrow> vreg_allocator \<Rightarrow> (value_regs \<times> vreg_allocator) option" where
  "alloc_with_deferred_error lim ty a = do {
     r \<leftarrow> vreg_alloc lim ty a;
     (case r of
        Inr x \<Rightarrow> Some x
      | Inl e \<Rightarrow> do {
          bogus \<leftarrow> bogus_for_deferred_error ty;
          Some (bogus, a\<lparr>deferred_error := Some e\<rparr>)
        })
   }"

definition take_deferred_error :: "vreg_allocator \<Rightarrow> codegen_error option \<times> vreg_allocator" where
  "take_deferred_error a = (deferred_error a, a\<lparr>deferred_error := None\<rparr>)"

text \<open>
  The \<open>while let\<close> loop over the aliases; \<open>None\<close> is a walk that does not end. Aliases are keyed by
  the number of the virtual register.
\<close>

partial_function (option) resolve_vreg_alias :: "vreg_allocator \<Rightarrow> nat \<Rightarrow> nat option" where
  "resolve_vreg_alias a v =
     (case vreg_aliases a v of None \<Rightarrow> Some v | Some to_reg \<Rightarrow> resolve_vreg_alias a to_reg)"

definition set_vreg_alias :: "nat \<Rightarrow> nat \<Rightarrow> vreg_allocator \<Rightarrow> vreg_allocator option" where
  "set_vreg_alias from_reg to_reg a = do {
     resolved_to \<leftarrow> resolve_vreg_alias a to_reg;
     assert_that (resolved_to \<noteq> from_reg);
     Some (a\<lparr>vreg_aliases := (vreg_aliases a)(from_reg \<mapsto> resolved_to)\<rparr>)
   }"

section \<open>IR instructions and the lowering context\<close>

text \<open>The IR instructions that the rules name. A value and a stack slot are their numbers.\<close>

datatype endian = Little_endian | Big_endian

datatype (plugins only:) clif =
    Iconst ir_type u64
  | Iadd ir_type nat nat | Isub ir_type nat nat | Ineg ir_type nat
  | Band ir_type nat nat | Bor ir_type nat nat | Bxor ir_type nat nat | Bnot ir_type nat
  | Ishl ir_type nat nat | Ushr ir_type nat nat | Sshr ir_type nat nat
  | Ir_Clz ir_type nat | Ir_Ctz ir_type nat | Popcnt ir_type nat
  | Uextend ir_type nat | Sextend ir_type nat | Ireduce ir_type nat
  | Imul ir_type nat nat | Umulhi ir_type nat nat | Umin ir_type nat nat
  | Udiv ir_type nat nat | Sdiv ir_type nat nat | Urem ir_type nat nat | Srem ir_type nat nat
  | Uadd_overflow ir_type nat nat
  | Ir_Icmp int_cc nat nat
  | Ir_Select ir_type nat nat nat
  | Ir_Load ir_type "endian option" nat i32
  | Ir_Store "endian option" nat nat i32
  | Symbol_value ir_type external_name i64 | Func_addr ir_type external_name
  | Stack_addr ir_type nat u32
  | Stack_alloc_dynamic ir_type nat | Stack_free_dynamic nat
  | Sia_trap u8 | Sia_gpr_read ir_type u8 | Sia_gpr_write nat u8
  | Sia_sread ir_type u8 | Sia_swrite nat u8 | Sia_sret
  | Sia_tlbfence | Sia_tlbfence_va nat | Sia_tlbfence_asid nat | Sia_wfi | Sia_sync_i
  | Ir_Fence | Ir_Trap trap_code | Trapnz nat trap_code | Trapz nat trap_code

datatype clif_branch = Ir_Jump | Brif nat | Br_table nat

record lower_ctx =
  limits :: vreg_limits
  vregs :: vreg_allocator
  ir_insts :: "inst list"
  value_type :: "nat \<Rightarrow> ir_type"
  value_def :: "nat \<Rightarrow> clif option"
  value_regs_of :: "nat \<Rightarrow> value_regs option"
  value_sunk :: "nat \<Rightarrow> bool"
  value_lowered_uses :: "nat \<Rightarrow> nat"
  lower_abi :: callee
  lower_sigs :: sig_set

definition alloc_tmp :: "ir_type \<Rightarrow> lower_ctx \<Rightarrow> (value_regs \<times> lower_ctx) option" where
  "alloc_tmp ty c = do {
     (r, a) \<leftarrow> alloc_with_deferred_error (limits c) ty (vregs c);
     Some (r, c\<lparr>vregs := a\<rparr>)
   }"

definition temp_writable_reg :: "ir_type \<Rightarrow> lower_ctx \<Rightarrow> (mreg \<times> lower_ctx) option" where
  "temp_writable_reg ty c = do {
     (v, c) \<leftarrow> alloc_tmp ty c;
     r \<leftarrow> only_reg v;
     Some (r, c)
   }"

definition emit_inst :: "inst \<Rightarrow> lower_ctx \<Rightarrow> lower_ctx option" where
  "emit_inst i c = Some (c\<lparr>ir_insts := ir_insts c @ [i]\<rparr>)"

definition put_value_in_regs :: "nat \<Rightarrow> lower_ctx \<Rightarrow> (value_regs \<times> lower_ctx) option" where
  "put_value_in_regs v c = do {
     assert_that (\<not> value_sunk c v);
     regs \<leftarrow> value_regs_of c v;
     Some (regs, c\<lparr>value_lowered_uses := (value_lowered_uses c)(v := value_lowered_uses c v + 1)\<rparr>)
   }"

definition put_in_reg :: "nat \<Rightarrow> lower_ctx \<Rightarrow> (mreg \<times> lower_ctx) option" where
  "put_in_reg v c = do {
     (regs, c) \<leftarrow> put_value_in_regs v c;
     r \<leftarrow> only_reg regs;
     Some (r, c)
   }"

section \<open>Word pairs\<close>

text \<open>The closures \<open>constant\<close>, \<open>binary\<close>, \<open>compare\<close>, \<open>add\<close> and \<open>shift\<close> that the constructors share.\<close>

definition low_constant :: "u32 \<Rightarrow> lower_ctx \<Rightarrow> (mreg \<times> lower_ctx) option" where
  "low_constant value c = do {
     (dst, c) \<leftarrow> temp_writable_reg ty_I32 c;
     c \<leftarrow> emit_inst (LoadConst32 dst value) c;
     Some (dst, c)
   }"

definition low_binary :: "two_op \<Rightarrow> mreg \<Rightarrow> mreg \<Rightarrow> lower_ctx \<Rightarrow> (mreg \<times> lower_ctx) option" where
  "low_binary op lhs rhs c = do {
     (dst, c) \<leftarrow> temp_writable_reg ty_I32 c;
     c \<leftarrow> emit_inst (TwoOp op dst lhs rhs) c;
     Some (dst, c)
   }"

definition low_compare :: "int_cc \<Rightarrow> mreg \<Rightarrow> mreg \<Rightarrow> lower_ctx \<Rightarrow> (mreg \<times> lower_ctx) option" where
  "low_compare cc lhs rhs c = do {
     (dst, c) \<leftarrow> temp_writable_reg ty_I32 c;
     c \<leftarrow> emit_inst (Icmp dst cc lhs rhs) c;
     Some (dst, c)
   }"

definition low_add :: "mreg \<Rightarrow> mreg \<Rightarrow> lower_ctx \<Rightarrow> (mreg \<times> lower_ctx) option" where
  "low_add lhs rhs c = do {
     (dst, c) \<leftarrow> temp_writable_reg ty_I32 c;
     c \<leftarrow> emit_inst (Add dst lhs rhs) c;
     Some (dst, c)
   }"

definition low_shift_imm :: "two_op \<Rightarrow> mreg \<Rightarrow> u8 \<Rightarrow> lower_ctx \<Rightarrow> (mreg \<times> lower_ctx) option" where
  "low_shift_imm op src amount c = do {
     (dst, c) \<leftarrow> temp_writable_reg ty_I32 c;
     c \<leftarrow> emit_inst (ShiftImm op dst src amount) c;
     Some (dst, c)
   }"

definition sia_select :: "mreg \<Rightarrow> mreg \<Rightarrow> mreg \<Rightarrow> lower_ctx \<Rightarrow> (mreg \<times> lower_ctx) option" where
  "sia_select test yes no c = do {
     (dst, c) \<leftarrow> temp_writable_reg ty_I32 c;
     c \<leftarrow> emit_inst (Select dst test yes no) c;
     Some (dst, c)
   }"

definition sia_umulhi :: "mreg \<Rightarrow> mreg \<Rightarrow> lower_ctx \<Rightarrow> (mreg \<times> lower_ctx) option" where
  "sia_umulhi lhs rhs c = do {
     (dst, c) \<leftarrow> temp_writable_reg ty_I32 c;
     c \<leftarrow> emit_inst (TwoOp Op_MulUHigh dst lhs rhs) c;
     Some (dst, c)
   }"

definition sia_i64_load :: "mreg \<Rightarrow> i32 \<Rightarrow> lower_ctx \<Rightarrow> (value_regs \<times> lower_ctx) option" where
  "sia_i64_load base offset c = do {
     (low, c) \<leftarrow> temp_writable_reg ty_I32 c;
     (high, c) \<leftarrow> temp_writable_reg ty_I32 c;
     c \<leftarrow> emit_inst (LoadBaseOffset low base offset ty_I32) c;
     c \<leftarrow> emit_inst (LoadBaseOffset high base (offset + 4) ty_I32) c;
     Some (Two_regs low high, c)
   }"

definition sia_i64_store :: "value_regs \<Rightarrow> mreg \<Rightarrow> i32 \<Rightarrow> lower_ctx \<Rightarrow> (value_regs list \<times> lower_ctx) option" where
  "sia_i64_store value base offset c = do {
     low \<leftarrow> value_regs_get value 0;
     c \<leftarrow> emit_inst (StoreBaseOffset low base offset ty_I32) c;
     high \<leftarrow> value_regs_get value 1;
     c \<leftarrow> emit_inst (StoreBaseOffset high base (offset + 4) ty_I32) c;
     Some ([], c)
   }"

text \<open>
  \<open>sia_i64_icmp\<close>: the operands in comparison order, whether the comparison is signed, tests equality,
  and is inverted.
\<close>

fun i64_icmp_plan :: "int_cc \<Rightarrow> 'a \<Rightarrow> 'a \<Rightarrow> 'a \<times> 'a \<times> bool \<times> bool \<times> bool" where
  "i64_icmp_plan IntEqual x y = (x, y, False, True, False)"
| "i64_icmp_plan IntNotEqual x y = (x, y, False, True, True)"
| "i64_icmp_plan IntSignedLessThan x y = (x, y, True, False, False)"
| "i64_icmp_plan IntUnsignedLessThan x y = (x, y, False, False, False)"
| "i64_icmp_plan IntSignedGreaterThan x y = (y, x, True, False, False)"
| "i64_icmp_plan IntUnsignedGreaterThan x y = (y, x, False, False, False)"
| "i64_icmp_plan IntSignedGreaterThanOrEqual x y = (x, y, True, False, True)"
| "i64_icmp_plan IntUnsignedGreaterThanOrEqual x y = (x, y, False, False, True)"
| "i64_icmp_plan IntSignedLessThanOrEqual x y = (y, x, True, False, True)"
| "i64_icmp_plan IntUnsignedLessThanOrEqual x y = (y, x, False, False, True)"

definition sia_i64_icmp :: "value_regs \<Rightarrow> value_regs \<Rightarrow> int_cc \<Rightarrow> lower_ctx \<Rightarrow> (mreg \<times> lower_ctx) option" where
  "sia_i64_icmp x y cc c = (case i64_icmp_plan cc x y of (x, y, is_signed, equal, invert) \<Rightarrow> do {
     x1 \<leftarrow> value_regs_get x 1;
     y1 \<leftarrow> value_regs_get y 1;
     (high_equal, c) \<leftarrow> low_compare IntEqual x1 y1 c;
     x0 \<leftarrow> value_regs_get x 0;
     y0 \<leftarrow> value_regs_get y 0;
     (low_test, c) \<leftarrow> low_compare (if equal then IntEqual else IntUnsignedLessThan) x0 y0 c;
     (combined, c) \<leftarrow> low_binary Op_And high_equal low_test c;
     (result, c) \<leftarrow>
       (if equal then Some (combined, c)
        else do {
          (high_less, c) \<leftarrow> low_compare (if is_signed then IntSignedLessThan else IntUnsignedLessThan) x1 y1 c;
          low_binary Op_Or high_less combined c
        });
     if \<not> invert then Some (result, c)
     else do {
       (one, c) \<leftarrow> temp_writable_reg ty_I32 c;
       (inverted, c) \<leftarrow> temp_writable_reg ty_I32 c;
       c \<leftarrow> emit_inst (LoadConst32 one 1) c;
       c \<leftarrow> emit_inst (TwoOp Op_Xor inverted result one) c;
       Some (inverted, c)
     }
   })"

fun bitcount_op :: "nat \<Rightarrow> unary_op option" where
  "bitcount_op 0 = Some Op_Clz"
| "bitcount_op (Suc 0) = Some Op_Ctz"
| "bitcount_op (Suc (Suc 0)) = Some Op_Cpop"
| "bitcount_op _ = None"

definition sia_i64_bitcount :: "value_regs \<Rightarrow> nat \<Rightarrow> lower_ctx \<Rightarrow> (value_regs \<times> lower_ctx) option" where
  "sia_i64_bitcount value operation c = do {
     op \<leftarrow> bitcount_op operation;
     (low_count, c) \<leftarrow> temp_writable_reg ty_I32 c;
     (high_count, c) \<leftarrow> temp_writable_reg ty_I32 c;
     v0 \<leftarrow> value_regs_get value 0;
     c \<leftarrow> emit_inst (Unary op low_count v0) c;
     v1 \<leftarrow> value_regs_get value 1;
     c \<leftarrow> emit_inst (Unary op high_count v1) c;
     (zero, c) \<leftarrow> temp_writable_reg ty_I32 c;
     c \<leftarrow> emit_inst (LoadConst32 zero 0) c;
     (sum_reg, c) \<leftarrow> temp_writable_reg ty_I32 c;
     (low, c) \<leftarrow>
       (if operation = 2 then do {
          c \<leftarrow> emit_inst (Add sum_reg low_count high_count) c;
          Some (sum_reg, c)
        } else do {
          (thirty_two, c) \<leftarrow> temp_writable_reg ty_I32 c;
          c \<leftarrow> emit_inst (LoadConst32 thirty_two 32) c;
          let (test, near, far) =
            (if operation = 0 then (v1, high_count, low_count) else (v0, low_count, high_count));
          c \<leftarrow> emit_inst (Add sum_reg far thirty_two) c;
          sia_select test near sum_reg c
        });
     Some (Two_regs low zero, c)
   }"

definition sia_i64_variable_shift ::
  "value_regs \<Rightarrow> value_regs \<Rightarrow> nat \<Rightarrow> lower_ctx \<Rightarrow> (value_regs \<times> lower_ctx) option" where
  "sia_i64_variable_shift value count operation c = do {
     (zero, c) \<leftarrow> low_constant 0 c;
     (mask, c) \<leftarrow> low_constant 31 c;
     (thirty_two, c) \<leftarrow> low_constant 32 c;
     count0 \<leftarrow> value_regs_get count 0;
     (amount, c) \<leftarrow> low_binary Op_And count0 mask c;
     (upper_half, c) \<leftarrow> low_binary Op_And count0 thirty_two c;
     (inverse, c) \<leftarrow> low_binary Op_Sub thirty_two amount c;
     low \<leftarrow> value_regs_get value 0;
     high \<leftarrow> value_regs_get value 1;
     if operation = 0 then do {
       (shifted_low, c) \<leftarrow> low_binary Op_Shl low amount c;
       (shifted_high, c) \<leftarrow> low_binary Op_Shl high amount c;
       (cross, c) \<leftarrow> low_binary Op_Shr low inverse c;
       (cross, c) \<leftarrow> sia_select amount cross zero c;
       (mixed_high, c) \<leftarrow> low_binary Op_Or shifted_high cross c;
       (out_low, c) \<leftarrow> sia_select upper_half zero shifted_low c;
       (out_high, c) \<leftarrow> sia_select upper_half shifted_low mixed_high c;
       Some (Two_regs out_low out_high, c)
     } else do {
       let right_op = (if operation = 2 then Op_Sar else Op_Shr);
       (shifted_low, c) \<leftarrow> low_binary Op_Shr low amount c;
       (shifted_high, c) \<leftarrow> low_binary right_op high amount c;
       (cross, c) \<leftarrow> low_binary Op_Shl high inverse c;
       (cross, c) \<leftarrow> sia_select amount cross zero c;
       (mixed_low, c) \<leftarrow> low_binary Op_Or shifted_low cross c;
       (fill, c) \<leftarrow> (if operation = 2 then low_binary Op_Sar high mask c else Some (zero, c));
       (out_low, c) \<leftarrow> sia_select upper_half shifted_high mixed_low c;
       (out_high, c) \<leftarrow> sia_select upper_half fill shifted_high c;
       Some (Two_regs out_low out_high, c)
     }
   }"

text \<open>The closure \<open>shift\<close> of \<open>sia_i64_shift\<close>; a zero amount is a move.\<close>

definition low_shift :: "mreg \<Rightarrow> two_op \<Rightarrow> u8 \<Rightarrow> lower_ctx \<Rightarrow> (mreg \<times> lower_ctx) option" where
  "low_shift src op amount c = do {
     (dst, c) \<leftarrow> temp_writable_reg ty_I32 c;
     c \<leftarrow> (if amount = 0 then emit_inst (Mov dst src) c else emit_inst (ShiftImm op dst src amount) c);
     Some (dst, c)
   }"

definition sia_i64_shift :: "value_regs \<Rightarrow> u64 \<Rightarrow> nat \<Rightarrow> lower_ctx \<Rightarrow> (value_regs \<times> lower_ctx) option" where
  "sia_i64_shift value amount64 operation c = (
     let amount = ucast (amount64 AND 63) :: u8;
         right_op = (if operation = 2 then Op_Sar else Op_Shr) in
     if amount = 0 then Some (value, c)
     else do {
       low \<leftarrow> value_regs_get value 0;
       high \<leftarrow> value_regs_get value 1;
       if amount \<ge> 32 then
         if operation = 0 then do {
           (new_high, c) \<leftarrow> low_shift low Op_Shl (amount - 32) c;
           (new_low, c) \<leftarrow> low_constant 0 c;
           Some (Two_regs new_low new_high, c)
         } else do {
           (new_low, c) \<leftarrow> low_shift high right_op (amount - 32) c;
           (new_high, c) \<leftarrow> (if operation = 2 then low_shift high Op_Sar 31 c else low_constant 0 c);
           Some (Two_regs new_low new_high, c)
         }
       else if operation = 0 then do {
         (new_low, c) \<leftarrow> low_shift low Op_Shl amount c;
         (new_high, c) \<leftarrow> low_shift high Op_Shl amount c;
         (mixed, c) \<leftarrow> low_shift low Op_Shr (32 - amount) c;
         (dst, c) \<leftarrow> low_binary Op_Or new_high mixed c;
         Some (Two_regs new_low dst, c)
       } else do {
         (new_low, c) \<leftarrow> low_shift low Op_Shr amount c;
         (new_high, c) \<leftarrow> low_shift high right_op amount c;
         (mixed, c) \<leftarrow> low_shift high Op_Shl (32 - amount) c;
         (dst, c) \<leftarrow> low_binary Op_Or new_low mixed c;
         Some (Two_regs dst new_high, c)
       }
     })"

definition sia_i64_const :: "u64 \<Rightarrow> lower_ctx \<Rightarrow> (value_regs \<times> lower_ctx) option" where
  "sia_i64_const value c = do {
     (low, c) \<leftarrow> temp_writable_reg ty_I32 c;
     (high, c) \<leftarrow> temp_writable_reg ty_I32 c;
     c \<leftarrow> emit_inst (LoadConst32 low (ucast value)) c;
     c \<leftarrow> emit_inst (LoadConst32 high (ucast (drop_bit 32 value))) c;
     Some (Two_regs low high, c)
   }"

definition sia_i64_extend :: "mreg \<Rightarrow> bool \<Rightarrow> u8 \<Rightarrow> lower_ctx \<Rightarrow> (value_regs \<times> lower_ctx) option" where
  "sia_i64_extend src is_signed from_bits c = do {
     (low, c) \<leftarrow> temp_writable_reg ty_I32 c;
     (high, c) \<leftarrow> temp_writable_reg ty_I32 c;
     c \<leftarrow> emit_inst (Extend low src is_signed from_bits 32) c;
     c \<leftarrow> (if is_signed then emit_inst (ShiftImm Op_Sar high low 31) c
           else emit_inst (LoadConst32 high 0) c);
     Some (Two_regs low high, c)
   }"

fun i64_alu_op :: "nat \<Rightarrow> two_op option" where
  "i64_alu_op n =
     (if n = 0 then Some Op_Sub else if n = 1 then Some Op_Sub else if n = 2 then Some Op_And
      else if n = 3 then Some Op_Or else if n = 4 then Some Op_Xor else None)"

definition sia_i64_alu ::
  "value_regs \<Rightarrow> value_regs \<Rightarrow> nat \<Rightarrow> lower_ctx \<Rightarrow> (value_regs \<times> lower_ctx) option" where
  "sia_i64_alu x y operation c = do {
     op \<leftarrow> i64_alu_op operation;
     (low, c) \<leftarrow> temp_writable_reg ty_I32 c;
     (high, c) \<leftarrow> temp_writable_reg ty_I32 c;
     x0 \<leftarrow> value_regs_get x 0;
     y0 \<leftarrow> value_regs_get y 0;
     let word_inst = (\<lambda>dst lhs rhs. if operation = 0 then Add dst lhs rhs else TwoOp op dst lhs rhs);
     c \<leftarrow> emit_inst (word_inst low x0 y0) c;
     x1 \<leftarrow> value_regs_get x 1;
     y1 \<leftarrow> value_regs_get y 1;
     if operation \<le> 1 then do {
       (carry, c) \<leftarrow> temp_writable_reg ty_I32 c;
       (partial_high, c) \<leftarrow> temp_writable_reg ty_I32 c;
       let (lhs, rhs) = (if operation = 0 then (low, x0) else (x0, y0));
       c \<leftarrow> emit_inst (Icmp carry IntUnsignedLessThan lhs rhs) c;
       c \<leftarrow> emit_inst (word_inst partial_high x1 y1) c;
       c \<leftarrow> emit_inst (word_inst high partial_high carry) c;
       Some (Two_regs low high, c)
     } else do {
       c \<leftarrow> emit_inst (TwoOp op high x1 y1) c;
       Some (Two_regs low high, c)
     }
   }"

definition sia_i64_mul :: "value_regs \<Rightarrow> value_regs \<Rightarrow> lower_ctx \<Rightarrow> (value_regs \<times> lower_ctx) option" where
  "sia_i64_mul x y c = do {
     (low, c) \<leftarrow> temp_writable_reg ty_I32 c;
     (upper_low_product, c) \<leftarrow> temp_writable_reg ty_I32 c;
     (cross_a, c) \<leftarrow> temp_writable_reg ty_I32 c;
     (cross_b, c) \<leftarrow> temp_writable_reg ty_I32 c;
     (part, c) \<leftarrow> temp_writable_reg ty_I32 c;
     (high, c) \<leftarrow> temp_writable_reg ty_I32 c;
     x0 \<leftarrow> value_regs_get x 0;
     y0 \<leftarrow> value_regs_get y 0;
     x1 \<leftarrow> value_regs_get x 1;
     y1 \<leftarrow> value_regs_get y 1;
     c \<leftarrow> emit_inst (TwoOp Op_Mul low x0 y0) c;
     c \<leftarrow> emit_inst (TwoOp Op_MulUHigh upper_low_product x0 y0) c;
     c \<leftarrow> emit_inst (TwoOp Op_Mul cross_a x1 y0) c;
     c \<leftarrow> emit_inst (TwoOp Op_Mul cross_b x0 y1) c;
     c \<leftarrow> emit_inst (Add part upper_low_product cross_a) c;
     c \<leftarrow> emit_inst (Add high part cross_b) c;
     Some (Two_regs low high, c)
   }"

definition low_add_carry :: "mreg \<Rightarrow> mreg \<Rightarrow> lower_ctx \<Rightarrow> ((mreg \<times> mreg) \<times> lower_ctx) option" where
  "low_add_carry lhs rhs c = do {
     (sum_reg, c) \<leftarrow> low_add lhs rhs c;
     (carry, c) \<leftarrow> temp_writable_reg ty_I32 c;
     c \<leftarrow> emit_inst (Icmp carry IntUnsignedLessThan sum_reg lhs) c;
     Some ((sum_reg, carry), c)
   }"

definition sia_i64_umulhi :: "value_regs \<Rightarrow> value_regs \<Rightarrow> lower_ctx \<Rightarrow> (value_regs \<times> lower_ctx) option" where
  "sia_i64_umulhi x y c = do {
     x0 \<leftarrow> value_regs_get x 0;
     x1 \<leftarrow> value_regs_get x 1;
     y0 \<leftarrow> value_regs_get y 0;
     y1 \<leftarrow> value_regs_get y 1;
     (p00_high, c) \<leftarrow> low_binary Op_MulUHigh x0 y0 c;
     (p10_low, c) \<leftarrow> low_binary Op_Mul x1 y0 c;
     (p10_high, c) \<leftarrow> low_binary Op_MulUHigh x1 y0 c;
     ((t_low, t_carry), c) \<leftarrow> low_add_carry p10_low p00_high c;
     (t_high, c) \<leftarrow> low_add p10_high t_carry c;
     (p01_low, c) \<leftarrow> low_binary Op_Mul x0 y1 c;
     (p01_high, c) \<leftarrow> low_binary Op_MulUHigh x0 y1 c;
     ((_, u_carry), c) \<leftarrow> low_add_carry p01_low t_low c;
     (u_high, c) \<leftarrow> low_add p01_high u_carry c;
     (p11_low, c) \<leftarrow> low_binary Op_Mul x1 y1 c;
     (p11_high, c) \<leftarrow> low_binary Op_MulUHigh x1 y1 c;
     ((partial_low, carry_a), c) \<leftarrow> low_add_carry p11_low t_high c;
     ((low, carry_b), c) \<leftarrow> low_add_carry partial_low u_high c;
     (partial_high, c) \<leftarrow> low_add p11_high carry_a c;
     (high, c) \<leftarrow> low_add partial_high carry_b c;
     Some (Two_regs low high, c)
   }"

definition INTEGER_DIVISION_BY_ZERO :: trap_code where "INTEGER_DIVISION_BY_ZERO = 254"

text \<open>The closure \<open>shift\<close> of \<open>sia_i64_divrem\<close>; a zero amount is the source register itself.\<close>

definition div_shift :: "mreg \<Rightarrow> u8 \<Rightarrow> lower_ctx \<Rightarrow> (mreg \<times> lower_ctx) option" where
  "div_shift src amount c = (if amount = 0 then Some (src, c) else low_shift_imm Op_Shr src amount c)"

text \<open>
  The body of the loop over \<open>bit_index\<close>, on the residual pair and the two quotient words. A bit index
  is below 64.
\<close>

definition div_residual_step ::
  "value_regs \<Rightarrow> value_regs \<Rightarrow> mreg \<Rightarrow> nat \<Rightarrow> value_regs \<Rightarrow> lower_ctx
     \<Rightarrow> ((mreg \<times> value_regs) \<times> lower_ctx) option" where
  "div_residual_step x y one bit_index residual c = do {
     r1 \<leftarrow> value_regs_get residual 1;
     (carry, c) \<leftarrow> div_shift r1 31 c;
     (shifted, c) \<leftarrow> sia_i64_shift residual 1 0 c;
     dividend_word \<leftarrow> value_regs_get x (bit_index div 32);
     (digit, c) \<leftarrow> div_shift dividend_word (of_nat bit_index AND 31) c;
     (digit, c) \<leftarrow> low_binary Op_And digit one c;
     s0 \<leftarrow> value_regs_get shifted 0;
     (low, c) \<leftarrow> low_binary Op_Or s0 digit c;
     s1 \<leftarrow> value_regs_get shifted 1;
     let shifted = Two_regs low s1;
     (greater_equal, c) \<leftarrow> sia_i64_icmp shifted y IntUnsignedGreaterThanOrEqual c;
     (subtract, c) \<leftarrow> low_binary Op_Or carry greater_equal c;
     (trial, c) \<leftarrow> sia_i64_alu shifted y 1 c;
     t0 \<leftarrow> value_regs_get trial 0;
     (new_low, c) \<leftarrow> sia_select subtract t0 low c;
     t1 \<leftarrow> value_regs_get trial 1;
     (new_high, c) \<leftarrow> sia_select subtract t1 s1 c;
     Some ((subtract, Two_regs new_low new_high), c)
   }"

definition div_quotient_step ::
  "nat \<Rightarrow> mreg \<Rightarrow> mreg \<times> mreg \<Rightarrow> lower_ctx \<Rightarrow> ((mreg \<times> mreg) \<times> lower_ctx) option" where
  "div_quotient_step bit_index subtract q c = do {
     (quotient_bit, c) \<leftarrow>
       (if of_nat bit_index AND (31 :: u8) = 0 then Some (subtract, c)
        else low_shift_imm Op_Shl subtract (of_nat bit_index AND 31) c);
     if bit_index div 32 = 0 then do {
       (w, c) \<leftarrow> low_binary Op_Or (fst q) quotient_bit c;
       Some ((w, snd q), c)
     } else do {
       (w, c) \<leftarrow> low_binary Op_Or (snd q) quotient_bit c;
       Some ((fst q, w), c)
     }
   }"

text \<open>\<open>for bit_index in (0..n).rev()\<close>.\<close>

fun div_loop ::
  "value_regs \<Rightarrow> value_regs \<Rightarrow> mreg \<Rightarrow> bool \<Rightarrow> nat \<Rightarrow> value_regs \<Rightarrow> mreg \<times> mreg \<Rightarrow> lower_ctx
     \<Rightarrow> ((value_regs \<times> mreg \<times> mreg) \<times> lower_ctx) option" where
  "div_loop x y one remainder 0 residual q c = Some ((residual, q), c)"
| "div_loop x y one remainder (Suc bit_index) residual q c = do {
     ((subtract, residual), c) \<leftarrow> div_residual_step x y one bit_index residual c;
     (q, c) \<leftarrow> (if \<not> remainder then div_quotient_step bit_index subtract q c else Some (q, c));
     div_loop x y one remainder bit_index residual q c
   }"

definition sia_i64_divrem ::
  "value_regs \<Rightarrow> value_regs \<Rightarrow> bool \<Rightarrow> lower_ctx \<Rightarrow> (value_regs \<times> lower_ctx) option" where
  "sia_i64_divrem x y remainder c = do {
     (zero, c) \<leftarrow> temp_writable_reg ty_I32 c;
     (one, c) \<leftarrow> temp_writable_reg ty_I32 c;
     (divisor_test, c) \<leftarrow> temp_writable_reg ty_I32 c;
     c \<leftarrow> emit_inst (LoadConst32 zero 0) c;
     c \<leftarrow> emit_inst (LoadConst32 one 1) c;
     y0 \<leftarrow> value_regs_get y 0;
     y1 \<leftarrow> value_regs_get y 1;
     c \<leftarrow> emit_inst (TwoOp Op_Or divisor_test y0 y1) c;
     c \<leftarrow> emit_inst (TrapIfZ divisor_test INTEGER_DIVISION_BY_ZERO) c;
     ((residual, q), c) \<leftarrow> div_loop x y one remainder 64 (Two_regs zero zero) (zero, zero) c;
     if remainder then Some (residual, c) else Some (Two_regs (fst q) (snd q), c)
   }"

section \<open>Narrow operations and branch tables\<close>

definition narrow_shift_op :: "nat \<Rightarrow> two_op option" where
  "narrow_shift_op operation =
     (if operation = 0 then Some Op_Shl else if operation = 1 then Some Op_Shr
      else if operation = 2 then Some Op_Sar else None)"

definition sia_narrow_shift ::
  "mreg \<Rightarrow> mreg \<Rightarrow> u8 \<Rightarrow> nat \<Rightarrow> lower_ctx \<Rightarrow> (mreg \<times> lower_ctx) option" where
  "sia_narrow_shift value count bits operation c = do {
     (normalized, c) \<leftarrow> temp_writable_reg ty_I32 c;
     (mask, c) \<leftarrow> temp_writable_reg ty_I32 c;
     (masked, c) \<leftarrow> temp_writable_reg ty_I32 c;
     (dst, c) \<leftarrow> temp_writable_reg ty_I32 c;
     c \<leftarrow> emit_inst (Extend normalized value (operation = 2) bits 32) c;
     c \<leftarrow> emit_inst (LoadConst32 mask (ucast (bits - 1))) c;
     c \<leftarrow> emit_inst (TwoOp Op_And masked count mask) c;
     op \<leftarrow> narrow_shift_op operation;
     c \<leftarrow> emit_inst (TwoOp op dst normalized masked) c;
     Some (dst, c)
   }"

definition cc_is_signed :: "int_cc \<Rightarrow> bool" where
  "cc_is_signed cc \<longleftrightarrow> cc \<in> {IntSignedLessThan, IntSignedLessThanOrEqual, IntSignedGreaterThan,
     IntSignedGreaterThanOrEqual}"

definition sia_narrow_icmp ::
  "int_cc \<Rightarrow> mreg \<Rightarrow> mreg \<Rightarrow> u8 \<Rightarrow> lower_ctx \<Rightarrow> (mreg \<times> lower_ctx) option" where
  "sia_narrow_icmp cc lhs rhs bits c = do {
     (left, c) \<leftarrow> temp_writable_reg ty_I32 c;
     (right, c) \<leftarrow> temp_writable_reg ty_I32 c;
     (dst, c) \<leftarrow> temp_writable_reg ty_I32 c;
     c \<leftarrow> emit_inst (Extend left lhs (cc_is_signed cc) bits 32) c;
     c \<leftarrow> emit_inst (Extend right rhs (cc_is_signed cc) bits 32) c;
     c \<leftarrow> emit_inst (Icmp dst cc left right) c;
     Some (dst, c)
   }"

definition sia_br_table :: "mreg \<Rightarrow> mach_label list \<Rightarrow> lower_ctx \<Rightarrow> lower_ctx option" where
  "sia_br_table index targets c = do {
     (tmp, c) \<leftarrow> temp_writable_reg ty_I32 c;
     emit_inst (BrTable index tmp targets) c
   }"

definition gen_stack_addr :: "nat \<Rightarrow> u32 \<Rightarrow> lower_ctx \<Rightarrow> (mreg \<times> lower_ctx) option" where
  "gen_stack_addr slot offset c = do {
     (result, c) \<leftarrow> temp_writable_reg ty_I32 c;
     i \<leftarrow> sized_stackslot_addr (lower_abi c) slot (unat offset) result;
     c \<leftarrow> emit_inst i c;
     Some (result, c)
   }"

text \<open>
  \<open>Callee::gen_call_info\<close> on the argument and return lists, and the two constructors that first reserve
  the outgoing area. The sum of the two sizes is checked for overflow in the debug profile.
\<close>

fun remove_ret_regs :: "(mreg \<times> ret_location) list \<Rightarrow> preg set \<Rightarrow> preg set option" where
  "remove_ret_regs [] clob = Some clob"
| "remove_ret_regs ((_, Ret_Reg r _) # ds) clob = do {
     p \<leftarrow> to_real_reg r;
     remove_ret_regs ds (clob - {p})
   }"
| "remove_ret_regs ((_, Ret_Stack _ _) # ds) clob = remove_ret_regs ds clob"

definition callee_gen_call_info ::
  "callee \<Rightarrow> sig_data \<Rightarrow> 'd \<Rightarrow> (mreg \<times> mreg) list \<Rightarrow> (mreg \<times> ret_location) list \<Rightarrow> try_call_info option
     \<Rightarrow> bool \<Rightarrow> 'd call_info option" where
  "callee_gen_call_info abi sig d us ds try_info patchable_call = do {
     clob \<leftarrow> get_regs_clobbered_by_call (sd_call_conv sig) (try_info \<noteq> None);
     clob \<leftarrow> remove_ret_regs ds clob;
     Some \<lparr>dest = d, uses = us, defs = ds, clobbers = clob, callee_conv = sd_call_conv sig,
       caller_conv = body_call_conv abi,
       callee_pop_size = (if sd_call_conv sig = CC_Tail then sized_stack_arg_space sig else 0),
       try_call_info_of = try_info, patchable = patchable_call\<rparr>
   }"

definition reserve_outgoing :: "nat \<Rightarrow> lower_ctx \<Rightarrow> (sig_data \<times> lower_ctx) option" where
  "reserve_outgoing sig c =
     (if sig < length (sigs_of (lower_sigs c))
      then let d = sigs_of (lower_sigs c) ! sig;
               space = sized_stack_ret_space d + sized_stack_arg_space d in
           if space \<le> 0xFFFFFFFF
           then Some (d, c\<lparr>lower_abi := accumulate_outgoing_args_size space (lower_abi c)\<rparr>) else None
      else None)"

definition gen_call_info ::
  "nat \<Rightarrow> external_name \<Rightarrow> (mreg \<times> mreg) list \<Rightarrow> (mreg \<times> ret_location) list \<Rightarrow> try_call_info option
     \<Rightarrow> bool \<Rightarrow> lower_ctx \<Rightarrow> (external_name call_info \<times> lower_ctx) option" where
  "gen_call_info sig d us ds try_info patchable_call c = do {
     (data, c) \<leftarrow> reserve_outgoing sig c;
     info \<leftarrow> callee_gen_call_info (lower_abi c) data d us ds try_info patchable_call;
     Some (info, c)
   }"

definition gen_call_ind_info ::
  "nat \<Rightarrow> mreg \<Rightarrow> (mreg \<times> mreg) list \<Rightarrow> (mreg \<times> ret_location) list \<Rightarrow> try_call_info option
     \<Rightarrow> lower_ctx \<Rightarrow> (mreg call_info \<times> lower_ctx) option" where
  "gen_call_ind_info sig d us ds try_info c = do {
     (data, c) \<leftarrow> reserve_outgoing sig c;
     info \<leftarrow> callee_gen_call_info (lower_abi c) data d us ds try_info False;
     Some (info, c)
   }"

section \<open>Instructions of the rule language\<close>

datatype (plugins only:) m_inst =
    M_Mov mreg mreg
  | M_StackAddr mreg stack_amode
  | M_LoadConst32 mreg u32
  | M_LoadExtName mreg external_name i64
  | M_Add mreg mreg mreg
  | M_CmpEq mreg mreg mreg
  | M_CmpLt mreg mreg mreg
  | M_CmpLtu mreg mreg mreg
  | M_Mul mreg mreg mreg
  | M_Div mreg mreg mreg
  | M_DivU mreg mreg mreg
  | M_Rem mreg mreg mreg
  | M_RemU mreg mreg mreg
  | M_Sub mreg mreg mreg
  | M_And mreg mreg mreg
  | M_Or mreg mreg mreg
  | M_Xor mreg mreg mreg
  | M_Shl mreg mreg mreg
  | M_Shr mreg mreg mreg
  | M_Sar mreg mreg mreg
  | M_Clz mreg mreg
  | M_Ctz mreg mreg
  | M_Cpop mreg mreg
  | M_Icmp mreg int_cc mreg mreg
  | M_Extend mreg mreg bool u8 u8
  | M_LoadBaseOffset mreg mreg i32 ir_type
  | M_StoreBaseOffset mreg mreg i32 ir_type
  | M_TrapIfNz mreg trap_code
  | M_TrapIfZ mreg trap_code
  | M_Call "external_name call_info"
  | M_CallInd "mreg call_info"
  | M_Jump mach_label
  | M_BrNz mreg mach_label mach_label
  | M_Fence
  | M_SRead mreg u8
  | M_ReadFixedGpr mreg u8
  | M_WriteFixedGpr mreg u8
  | M_SWrite mreg u8
  | M_SRet
  | M_TlbFence
  | M_TlbFenceVa mreg
  | M_TlbFenceAsid mreg
  | M_Wfi
  | M_SyncI
  | M_SoftwareTrap u8
  | M_Udf trap_code

primrec into_machine_inst :: "m_inst \<Rightarrow> inst" where
  "into_machine_inst (M_Mov d s) = Mov d s"
| "into_machine_inst (M_StackAddr d m) = StackAddr d m"
| "into_machine_inst (M_LoadConst32 d v) = LoadConst32 d v"
| "into_machine_inst (M_LoadExtName d n off) = LoadExtName d n off"
| "into_machine_inst (M_Add d l r) = Add d l r"
| "into_machine_inst (M_CmpEq d l r) = TwoOp Op_CmpEq d l r"
| "into_machine_inst (M_CmpLt d l r) = TwoOp Op_CmpLt d l r"
| "into_machine_inst (M_CmpLtu d l r) = TwoOp Op_CmpLtu d l r"
| "into_machine_inst (M_Mul d l r) = TwoOp Op_Mul d l r"
| "into_machine_inst (M_Div d l r) = TwoOp Op_Div d l r"
| "into_machine_inst (M_DivU d l r) = TwoOp Op_DivU d l r"
| "into_machine_inst (M_Rem d l r) = TwoOp Op_Rem d l r"
| "into_machine_inst (M_RemU d l r) = TwoOp Op_RemU d l r"
| "into_machine_inst (M_Sub d l r) = TwoOp Op_Sub d l r"
| "into_machine_inst (M_And d l r) = TwoOp Op_And d l r"
| "into_machine_inst (M_Or d l r) = TwoOp Op_Or d l r"
| "into_machine_inst (M_Xor d l r) = TwoOp Op_Xor d l r"
| "into_machine_inst (M_Shl d l r) = TwoOp Op_Shl d l r"
| "into_machine_inst (M_Shr d l r) = TwoOp Op_Shr d l r"
| "into_machine_inst (M_Sar d l r) = TwoOp Op_Sar d l r"
| "into_machine_inst (M_Clz d s) = Unary Op_Clz d s"
| "into_machine_inst (M_Ctz d s) = Unary Op_Ctz d s"
| "into_machine_inst (M_Cpop d s) = Unary Op_Cpop d s"
| "into_machine_inst (M_Icmp d cc l r) = Icmp d cc l r"
| "into_machine_inst (M_Extend d s sg fb tb) = Extend d s sg fb tb"
| "into_machine_inst (M_LoadBaseOffset d b off ty) = LoadBaseOffset d b off ty"
| "into_machine_inst (M_StoreBaseOffset s b off ty) = StoreBaseOffset s b off ty"
| "into_machine_inst (M_TrapIfNz t code) = TrapIfNz t code"
| "into_machine_inst (M_TrapIfZ t code) = TrapIfZ t code"
| "into_machine_inst (M_Call info) = Call info"
| "into_machine_inst (M_CallInd info) = CallInd info"
| "into_machine_inst (M_Jump l) = Jump l"
| "into_machine_inst (M_BrNz t l n) = BrNz t l n"
| "into_machine_inst M_Fence = Fence"
| "into_machine_inst (M_SRead d sel) = SRead d sel"
| "into_machine_inst (M_ReadFixedGpr d i) = ReadFixedGpr d i"
| "into_machine_inst (M_WriteFixedGpr s i) = WriteFixedGpr s i"
| "into_machine_inst (M_SWrite s sel) = SWrite s sel"
| "into_machine_inst M_SRet = SRet"
| "into_machine_inst M_TlbFence = TlbFence"
| "into_machine_inst (M_TlbFenceVa s) = TlbFenceVa s"
| "into_machine_inst (M_TlbFenceAsid s) = TlbFenceAsid s"
| "into_machine_inst M_Wfi = Wfi"
| "into_machine_inst M_SyncI = SyncI"
| "into_machine_inst (M_SoftwareTrap code) = SoftwareTrap code"
| "into_machine_inst (M_Udf code) = Udf code"

text \<open>\<open>From<MachineInst> for MInst\<close>: only the two instructions the shared prelude generates.\<close>

fun from_machine_inst :: "inst \<Rightarrow> m_inst option" where
  "from_machine_inst (Mov d s) = Some (M_Mov d s)"
| "from_machine_inst (StackAddr d m) = Some (M_StackAddr d m)"
| "from_machine_inst _ = None"

definition isle_emit :: "m_inst \<Rightarrow> lower_ctx \<Rightarrow> lower_ctx option" where
  "isle_emit i c = emit_inst (into_machine_inst i) c"

definition sia_load_const :: "mreg \<Rightarrow> u64 \<Rightarrow> m_inst option" where
  "sia_load_const dst value =
     (if unat value < 2 ^ 32 then Some (M_LoadConst32 dst (ucast value)) else None)"

definition fixed_gpr :: "u8 \<Rightarrow> bool" where
  "fixed_gpr register \<longleftrightarrow> 1 \<le> register \<and> register \<le> 11 \<or> register = 13 \<or> register = 15"

definition sia_m_gpr_read :: "mreg \<Rightarrow> u8 \<Rightarrow> m_inst option" where
  "sia_m_gpr_read dst register = (if fixed_gpr register then Some (M_ReadFixedGpr dst register) else None)"

definition sia_m_gpr_write :: "mreg \<Rightarrow> u8 \<Rightarrow> m_inst option" where
  "sia_m_gpr_write src register = (if fixed_gpr register then Some (M_WriteFixedGpr src register) else None)"

section \<open>The rules\<close>

text \<open>\<open>(fits_in_32 (ty_int ty))\<close>.\<close>

definition int_fits_in_32 :: "ir_type \<Rightarrow> bool" where
  "int_fits_in_32 ty \<longleftrightarrow> is_int ty \<and> ty_bits ty \<le> 32 \<and> \<not> is_dynamic_vector ty"

definition little_or_native_endian :: "endian option \<Rightarrow> bool" where
  "little_or_native_endian e \<longleftrightarrow> e \<noteq> Some Big_endian"

type_synonym lowered = "(value_regs list \<times> lower_ctx) option"

definition sia_emit_result :: "m_inst \<Rightarrow> mreg \<Rightarrow> lower_ctx \<Rightarrow> lowered" where
  "sia_emit_result i dst c = do { c \<leftarrow> isle_emit i c; Some ([One_reg dst], c) }"

definition side_effect :: "m_inst \<Rightarrow> lower_ctx \<Rightarrow> lowered" where
  "side_effect i c = do { c \<leftarrow> isle_emit i c; Some ([], c) }"

definition sia_binary_result ::
  "(mreg \<Rightarrow> mreg \<Rightarrow> mreg \<Rightarrow> m_inst) \<Rightarrow> ir_type \<Rightarrow> nat \<Rightarrow> nat \<Rightarrow> lower_ctx \<Rightarrow> lowered" where
  "sia_binary_result mk ty x y c = do {
     (dst, c) \<leftarrow> temp_writable_reg ty c;
     (lhs, c) \<leftarrow> put_in_reg x c;
     (rhs, c) \<leftarrow> put_in_reg y c;
     sia_emit_result (mk dst lhs rhs) dst c
   }"

definition sia_unary_result :: "(mreg \<Rightarrow> mreg \<Rightarrow> m_inst) \<Rightarrow> nat \<Rightarrow> lower_ctx \<Rightarrow> lowered" where
  "sia_unary_result mk x c = do {
     (dst, c) \<leftarrow> temp_writable_reg ty_I32 c;
     (src, c) \<leftarrow> put_in_reg x c;
     sia_emit_result (mk dst src) dst c
   }"

text \<open>\<open>ineg\<close> and \<open>bnot\<close>: a constant first, then the operation.\<close>

definition sia_const_result ::
  "u64 \<Rightarrow> (mreg \<Rightarrow> mreg \<Rightarrow> mreg \<Rightarrow> m_inst) \<Rightarrow> ir_type \<Rightarrow> nat \<Rightarrow> lower_ctx \<Rightarrow> lowered" where
  "sia_const_result k mk ty x c = do {
     (dst, c) \<leftarrow> temp_writable_reg ty c;
     (konst, c) \<leftarrow> temp_writable_reg ty_I32 c;
     i \<leftarrow> sia_load_const konst k;
     c \<leftarrow> isle_emit i c;
     (src, c) \<leftarrow> put_in_reg x c;
     sia_emit_result (mk dst konst src) dst c
   }"

definition sia_extend_result :: "nat \<Rightarrow> bool \<Rightarrow> u8 \<Rightarrow> lower_ctx \<Rightarrow> lowered" where
  "sia_extend_result src is_signed from_bits c = do {
     (dst, c) \<leftarrow> temp_writable_reg ty_I32 c;
     (r, c) \<leftarrow> put_in_reg src c;
     sia_emit_result (M_Extend dst r is_signed from_bits 32) dst c
   }"

definition sia_load_result :: "ir_type \<Rightarrow> nat \<Rightarrow> i32 \<Rightarrow> lower_ctx \<Rightarrow> lowered" where
  "sia_load_result ty addr offset c = do {
     (dst, c) \<leftarrow> temp_writable_reg ty c;
     (base, c) \<leftarrow> put_in_reg addr c;
     sia_emit_result (M_LoadBaseOffset dst base offset ty) dst c
   }"

definition output_regs :: "(value_regs \<times> lower_ctx) option \<Rightarrow> lowered" where
  "output_regs r = do { (v, c) \<leftarrow> r; Some ([v], c) }"

definition output_reg :: "(mreg \<times> lower_ctx) option \<Rightarrow> lowered" where
  "output_reg r = do { (v, c) \<leftarrow> r; Some ([One_reg v], c) }"

definition with_regs1 :: "nat \<Rightarrow> lower_ctx \<Rightarrow> (value_regs \<Rightarrow> lower_ctx \<Rightarrow> 'r option) \<Rightarrow> 'r option" where
  "with_regs1 x c k = do { (rx, c) \<leftarrow> put_value_in_regs x c; k rx c }"

definition with_regs2 ::
  "nat \<Rightarrow> nat \<Rightarrow> lower_ctx \<Rightarrow> (value_regs \<Rightarrow> value_regs \<Rightarrow> lower_ctx \<Rightarrow> 'r option) \<Rightarrow> 'r option" where
  "with_regs2 x y c k =
     do { (rx, c) \<leftarrow> put_value_in_regs x c; (ry, c) \<leftarrow> put_value_in_regs y c; k rx ry c }"

definition with_reg2 ::
  "nat \<Rightarrow> nat \<Rightarrow> lower_ctx \<Rightarrow> (mreg \<Rightarrow> mreg \<Rightarrow> lower_ctx \<Rightarrow> 'r option) \<Rightarrow> 'r option" where
  "with_reg2 x y c k = do { (rx, c) \<leftarrow> put_in_reg x c; (ry, c) \<leftarrow> put_in_reg y c; k rx ry c }"

text \<open>
  \<open>sia_trap_test\<close> is partial: the inner \<open>None\<close> says that no rule covers the type of the value, and
  then the rule that asked for it does not apply.
\<close>

definition sia_trap_test :: "nat \<Rightarrow> lower_ctx \<Rightarrow> (mreg \<times> lower_ctx) option option" where
  "sia_trap_test v c =
     (let extend = (\<lambda>bits. do {
            (dst, c) \<leftarrow> temp_writable_reg ty_I32 c;
            (r, c) \<leftarrow> put_in_reg v c;
            c \<leftarrow> isle_emit (M_Extend dst r False bits 32) c;
            Some (dst, c)
          }) in
      if value_type c v = ty_I32 then map_option Some (put_in_reg v c)
      else if value_type c v = ty_I8 then map_option Some (extend 8)
      else if value_type c v = ty_I16 then map_option Some (extend 16)
      else if value_type c v = ty_I64 then map_option Some (do {
        (parts, c) \<leftarrow> put_value_in_regs v c;
        (dst, c) \<leftarrow> temp_writable_reg ty_I32 c;
        p0 \<leftarrow> value_regs_get parts 0;
        p1 \<leftarrow> value_regs_get parts 1;
        c \<leftarrow> isle_emit (M_Or dst p0 p1) c;
        Some (dst, c)
      })
      else Some None)"

text \<open>
  The result of the rules: \<open>None\<close> is a panic, \<open>Some None\<close> that no rule applies (the driver then reports
  an unimplemented instruction), \<open>Some (Some (out, c))\<close> the registers of the results.
\<close>

definition rule_if :: "bool \<Rightarrow> lowered \<Rightarrow> (value_regs list \<times> lower_ctx) option option" where
  "rule_if applies r = (if applies then map_option Some r else Some None)"

text \<open>\<open>u64_from_iconst\<close> on a value, and on a value seen through one extension to \<open>I64\<close>.\<close>

definition u64_from_iconst :: "lower_ctx \<Rightarrow> nat \<Rightarrow> u64 option" where
  "u64_from_iconst c v = (case value_def c v of Some (Iconst _ n) \<Rightarrow> Some n | _ \<Rightarrow> None)"

definition shift_const :: "lower_ctx \<Rightarrow> nat \<Rightarrow> u64 option" where
  "shift_const c y =
     (case value_def c y of
        Some (Sextend ty z) \<Rightarrow> if ty = ty_I64 then u64_from_iconst c z else None
      | Some (Uextend ty z) \<Rightarrow> if ty = ty_I64 then u64_from_iconst c z else None
      | _ \<Rightarrow> u64_from_iconst c y)"

definition lower_shift ::
  "nat \<Rightarrow> (mreg \<Rightarrow> mreg \<Rightarrow> mreg \<Rightarrow> m_inst) \<Rightarrow> ir_type \<Rightarrow> nat \<Rightarrow> nat \<Rightarrow> lower_ctx
     \<Rightarrow> (value_regs list \<times> lower_ctx) option option" where
  "lower_shift operation mk ty x y c =
     (if ty = ty_I64 then
        map_option Some
          (case shift_const c y of
             Some amount \<Rightarrow> with_regs1 x c (\<lambda>rx c. output_regs (sia_i64_shift rx amount operation c))
           | None \<Rightarrow> with_regs2 x y c (\<lambda>rx ry c. output_regs (sia_i64_variable_shift rx ry operation c)))
      else if ty = ty_I32 then map_option Some (sia_binary_result mk ty_I32 x y c)
      else if ty = ty_I8 \<or> ty = ty_I16 then
        map_option Some (with_reg2 x y c (\<lambda>rx ry c.
          output_reg (sia_narrow_shift rx ry (if ty = ty_I8 then 8 else 16) operation c)))
      else Some None)"

definition lower_bitcount ::
  "nat \<Rightarrow> (mreg \<Rightarrow> mreg \<Rightarrow> m_inst) \<Rightarrow> ir_type \<Rightarrow> nat \<Rightarrow> lower_ctx
     \<Rightarrow> (value_regs list \<times> lower_ctx) option option" where
  "lower_bitcount operation mk ty x c =
     (if ty = ty_I64 then
        map_option Some (with_regs1 x c (\<lambda>rx c. output_regs (sia_i64_bitcount rx operation c)))
      else rule_if (ty = ty_I32) (sia_unary_result mk x c))"

definition lower_alu ::
  "nat \<Rightarrow> (mreg \<Rightarrow> mreg \<Rightarrow> mreg \<Rightarrow> m_inst) \<Rightarrow> ir_type \<Rightarrow> nat \<Rightarrow> nat \<Rightarrow> lower_ctx
     \<Rightarrow> (value_regs list \<times> lower_ctx) option option" where
  "lower_alu operation mk ty x y c =
     (if ty = ty_I64 then
        map_option Some (with_regs2 x y c (\<lambda>rx ry c. output_regs (sia_i64_alu rx ry operation c)))
      else rule_if (int_fits_in_32 ty) (sia_binary_result mk ty x y c))"

definition lower_extend ::
  "bool \<Rightarrow> ir_type \<Rightarrow> nat \<Rightarrow> lower_ctx \<Rightarrow> (value_regs list \<times> lower_ctx) option option" where
  "lower_extend is_signed ty x c =
     (let from = value_type c x;
          bits = (if from = ty_I8 then 8 else if from = ty_I16 then 16 else 32 :: u8) in
      if ty = ty_I64 \<and> from \<in> {ty_I8, ty_I16, ty_I32} then
        map_option Some (do {
          (r, c) \<leftarrow> put_in_reg x c;
          output_regs (sia_i64_extend r is_signed bits c)
        })
      else rule_if (ty = ty_I32 \<and> from \<in> {ty_I8, ty_I16}) (sia_extend_result x is_signed bits c))"

definition lower_reduce ::
  "ir_type \<Rightarrow> nat \<Rightarrow> lower_ctx \<Rightarrow> (value_regs list \<times> lower_ctx) option option" where
  "lower_reduce ty x c =
     (if value_type c x = ty_I64 \<and> ty \<in> {ty_I8, ty_I16, ty_I32} then
        map_option Some (with_regs1 x c (\<lambda>rx c. do {
          r0 \<leftarrow> value_regs_get rx 0;
          Some ([One_reg r0], c)
        }))
      else rule_if (value_type c x = ty_I32 \<and> ty \<in> {ty_I8, ty_I16})
        (output_regs (put_value_in_regs x c)))"

definition lower_icmp ::
  "int_cc \<Rightarrow> nat \<Rightarrow> nat \<Rightarrow> lower_ctx \<Rightarrow> (value_regs list \<times> lower_ctx) option option" where
  "lower_icmp cc x y c =
     (let ty = value_type c x in
      if ty = ty_I8 \<or> ty = ty_I16 then
        map_option Some (with_reg2 x y c (\<lambda>rx ry c.
          output_reg (sia_narrow_icmp cc rx ry (if ty = ty_I8 then 8 else 16) c)))
      else if ty = ty_I64 then
        map_option Some (with_regs2 x y c (\<lambda>rx ry c. output_reg (sia_i64_icmp rx ry cc c)))
      else rule_if (int_fits_in_32 ty) (sia_binary_result (\<lambda>d l r. M_Icmp d cc l r) ty_I32 x y c))"

definition lower_divrem ::
  "bool \<Rightarrow> (mreg \<Rightarrow> mreg \<Rightarrow> mreg \<Rightarrow> m_inst) \<Rightarrow> ir_type \<Rightarrow> nat \<Rightarrow> nat \<Rightarrow> lower_ctx
     \<Rightarrow> (value_regs list \<times> lower_ctx) option option" where
  "lower_divrem remainder mk ty x y c =
     (if ty = ty_I64 then
        map_option Some (with_regs2 x y c (\<lambda>rx ry c. output_regs (sia_i64_divrem rx ry remainder c)))
      else rule_if (int_fits_in_32 ty) (sia_binary_result mk ty_I32 x y c))"

definition lower_overflow :: "nat \<Rightarrow> nat \<Rightarrow> lower_ctx \<Rightarrow> lowered" where
  "lower_overflow x y c = do {
     (lhs, c) \<leftarrow> put_in_reg x c;
     (rhs, c) \<leftarrow> put_in_reg y c;
     (sum_reg, c) \<leftarrow> temp_writable_reg ty_I32 c;
     c \<leftarrow> isle_emit (M_Add sum_reg lhs rhs) c;
     (overflow, c) \<leftarrow> temp_writable_reg ty_I32 c;
     c \<leftarrow> isle_emit (M_CmpLtu overflow sum_reg lhs) c;
     Some ([One_reg sum_reg, One_reg overflow], c)
   }"

definition lower_umin :: "nat \<Rightarrow> nat \<Rightarrow> lower_ctx \<Rightarrow> lowered" where
  "lower_umin x y c = do {
     (lhs, c) \<leftarrow> put_in_reg x c;
     (rhs, c) \<leftarrow> put_in_reg y c;
     (condition, c) \<leftarrow> temp_writable_reg ty_I32 c;
     c \<leftarrow> isle_emit (M_Icmp condition IntUnsignedLessThan lhs rhs) c;
     output_reg (sia_select condition lhs rhs c)
   }"

definition lower_stack_adjust ::
  "(mreg \<Rightarrow> mreg \<Rightarrow> mreg \<Rightarrow> m_inst) \<Rightarrow> nat \<Rightarrow> lower_ctx \<Rightarrow> (mreg \<times> lower_ctx) option" where
  "lower_stack_adjust mk amount_value c = do {
     (saved, c) \<leftarrow> temp_writable_reg ty_I32 c;
     i \<leftarrow> sia_m_gpr_read saved 13;
     c \<leftarrow> isle_emit i c;
     (amount, c) \<leftarrow> put_in_reg amount_value c;
     (next_reg, c) \<leftarrow> temp_writable_reg ty_I32 c;
     c \<leftarrow> isle_emit (mk next_reg saved amount) c;
     i \<leftarrow> sia_m_gpr_write next_reg 13;
     c \<leftarrow> isle_emit i c;
     Some (next_reg, c)
   }"

definition lower_trap_if ::
  "(mreg \<Rightarrow> trap_code \<Rightarrow> m_inst) \<Rightarrow> nat \<Rightarrow> trap_code \<Rightarrow> lower_ctx
     \<Rightarrow> (value_regs list \<times> lower_ctx) option option" where
  "lower_trap_if mk v code c =
     (case sia_trap_test v c of
        None \<Rightarrow> None
      | Some None \<Rightarrow> Some None
      | Some (Some (test, c)) \<Rightarrow> map_option Some (side_effect (mk test code) c))"

definition lower_select ::
  "ir_type \<Rightarrow> nat \<Rightarrow> nat \<Rightarrow> nat \<Rightarrow> lower_ctx \<Rightarrow> (value_regs list \<times> lower_ctx) option option" where
  "lower_select ty cond x y c =
     (if \<not> int_fits_in_32 ty then Some None
      else case sia_trap_test cond c of
        None \<Rightarrow> None
      | Some None \<Rightarrow> Some None
      | Some (Some (test, c)) \<Rightarrow>
          map_option Some (with_reg2 x y c (\<lambda>rx ry c. output_reg (sia_select test rx ry c))))"

definition lower_load ::
  "ir_type \<Rightarrow> endian option \<Rightarrow> nat \<Rightarrow> i32 \<Rightarrow> lower_ctx \<Rightarrow> (value_regs list \<times> lower_ctx) option option" where
  "lower_load ty e addr offset c =
     (if \<not> little_or_native_endian e then Some None
      else if ty = ty_I64 then
        map_option Some (do { (base, c) \<leftarrow> put_in_reg addr c; output_regs (sia_i64_load base offset c) })
      else rule_if (int_fits_in_32 ty) (sia_load_result ty addr offset c))"

definition lower_store ::
  "endian option \<Rightarrow> nat \<Rightarrow> nat \<Rightarrow> i32 \<Rightarrow> lower_ctx \<Rightarrow> (value_regs list \<times> lower_ctx) option option" where
  "lower_store e src addr offset c =
     (let ty = value_type c src in
      if \<not> little_or_native_endian e then Some None
      else if ty = ty_I64 then
        map_option Some (with_regs1 src c (\<lambda>rs c. do {
          (base, c) \<leftarrow> put_in_reg addr c;
          sia_i64_store rs base offset c
        }))
      else rule_if (int_fits_in_32 ty) (with_reg2 src addr c (\<lambda>value base c.
          side_effect (M_StoreBaseOffset value base offset ty) c)))"

definition lower_to_temp :: "(mreg \<Rightarrow> m_inst option) \<Rightarrow> ir_type \<Rightarrow> lower_ctx \<Rightarrow> lowered" where
  "lower_to_temp mk ty c = do {
     (dst, c) \<leftarrow> temp_writable_reg ty c;
     i \<leftarrow> mk dst;
     sia_emit_result i dst c
   }"

definition lower_from_reg :: "(mreg \<Rightarrow> m_inst option) \<Rightarrow> nat \<Rightarrow> lower_ctx \<Rightarrow> lowered" where
  "lower_from_reg mk v c = do {
     (src, c) \<leftarrow> put_in_reg v c;
     i \<leftarrow> mk src;
     side_effect i c
   }"

text \<open>
  All rules but those of calls and returns, which are in theory \<open>Sia32_Call\<close> after the target-independent
  code that they call.
\<close>

primrec lower_inst :: "clif \<Rightarrow> lower_ctx \<Rightarrow> (value_regs list \<times> lower_ctx) option option" where
  "lower_inst (Iconst ty n) c =
     (if ty = ty_I64 then map_option Some (output_regs (sia_i64_const n c))
      else rule_if (int_fits_in_32 ty) (lower_to_temp (\<lambda>dst. sia_load_const dst n) ty c))"
| "lower_inst (Iadd ty x y) c = lower_alu 0 M_Add ty x y c"
| "lower_inst (Isub ty x y) c = lower_alu 1 M_Sub ty x y c"
| "lower_inst (Ineg ty x) c =
     rule_if (int_fits_in_32 ty) (sia_const_result 0 (\<lambda>d k s. M_Sub d k s) ty x c)"
| "lower_inst (Band ty x y) c = lower_alu 2 M_And ty x y c"
| "lower_inst (Bor ty x y) c = lower_alu 3 M_Or ty x y c"
| "lower_inst (Bxor ty x y) c = lower_alu 4 M_Xor ty x y c"
| "lower_inst (Bnot ty x) c =
     rule_if (int_fits_in_32 ty) (sia_const_result 0xFFFFFFFF (\<lambda>d k s. M_Xor d s k) ty x c)"
| "lower_inst (Ishl ty x y) c = lower_shift 0 M_Shl ty x y c"
| "lower_inst (Ushr ty x y) c = lower_shift 1 M_Shr ty x y c"
| "lower_inst (Sshr ty x y) c = lower_shift 2 M_Sar ty x y c"
| "lower_inst (Ir_Clz ty x) c = lower_bitcount 0 M_Clz ty x c"
| "lower_inst (Ir_Ctz ty x) c = lower_bitcount 1 M_Ctz ty x c"
| "lower_inst (Popcnt ty x) c = lower_bitcount 2 M_Cpop ty x c"
| "lower_inst (Uextend ty x) c = lower_extend False ty x c"
| "lower_inst (Sextend ty x) c = lower_extend True ty x c"
| "lower_inst (Ireduce ty x) c = lower_reduce ty x c"
| "lower_inst (Imul ty x y) c =
     (if ty = ty_I64 then
        map_option Some (with_regs2 x y c (\<lambda>rx ry c. output_regs (sia_i64_mul rx ry c)))
      else rule_if (int_fits_in_32 ty) (sia_binary_result M_Mul ty_I32 x y c))"
| "lower_inst (Umulhi ty x y) c =
     (if ty = ty_I64 then
        map_option Some (with_regs2 x y c (\<lambda>rx ry c. output_regs (sia_i64_umulhi rx ry c)))
      else rule_if (ty = ty_I32) (with_reg2 x y c (\<lambda>rx ry c. output_reg (sia_umulhi rx ry c))))"
| "lower_inst (Umin ty x y) c = rule_if (ty = ty_I32) (lower_umin x y c)"
| "lower_inst (Udiv ty x y) c = lower_divrem False M_DivU ty x y c"
| "lower_inst (Sdiv ty x y) c = rule_if (int_fits_in_32 ty) (sia_binary_result M_Div ty_I32 x y c)"
| "lower_inst (Urem ty x y) c = lower_divrem True M_RemU ty x y c"
| "lower_inst (Srem ty x y) c = rule_if (int_fits_in_32 ty) (sia_binary_result M_Rem ty_I32 x y c)"
| "lower_inst (Uadd_overflow ty x y) c = rule_if (ty = ty_I32) (lower_overflow x y c)"
| "lower_inst (Ir_Icmp cc x y) c = lower_icmp cc x y c"
| "lower_inst (Ir_Select ty b x y) c = lower_select ty b x y c"
| "lower_inst (Ir_Load ty e addr off) c = lower_load ty e addr off c"
| "lower_inst (Ir_Store e src addr off) c = lower_store e src addr off c"
| "lower_inst (Symbol_value ty name off) c =
     rule_if (ty = ty_I32) (lower_to_temp (\<lambda>dst. Some (M_LoadExtName dst name off)) ty_I32 c)"
| "lower_inst (Func_addr ty name) c =
     rule_if (ty = ty_I32) (lower_to_temp (\<lambda>dst. Some (M_LoadExtName dst name 0)) ty_I32 c)"
| "lower_inst (Stack_addr ty slot off) c =
     rule_if (ty = ty_I32) (output_reg (gen_stack_addr slot off c))"
| "lower_inst (Stack_alloc_dynamic ty sz) c =
     rule_if (ty = ty_I32) (output_reg (lower_stack_adjust M_Sub sz c))"
| "lower_inst (Stack_free_dynamic sz) c =
     map_option Some (do { (_, c) \<leftarrow> lower_stack_adjust M_Add sz c; Some ([], c) })"
| "lower_inst (Sia_trap code) c = map_option Some (side_effect (M_SoftwareTrap code) c)"
| "lower_inst (Sia_gpr_read ty register) c =
     rule_if (ty = ty_I32) (lower_to_temp (\<lambda>dst. sia_m_gpr_read dst register) ty_I32 c)"
| "lower_inst (Sia_gpr_write v register) c =
     map_option Some (lower_from_reg (\<lambda>src. sia_m_gpr_write src register) v c)"
| "lower_inst (Sia_sread ty selector) c =
     rule_if (ty = ty_I32) (lower_to_temp (\<lambda>dst. Some (M_SRead dst selector)) ty_I32 c)"
| "lower_inst (Sia_swrite v selector) c =
     map_option Some (lower_from_reg (\<lambda>src. Some (M_SWrite src selector)) v c)"
| "lower_inst Sia_sret c = map_option Some (side_effect M_SRet c)"
| "lower_inst Sia_tlbfence c = map_option Some (side_effect M_TlbFence c)"
| "lower_inst (Sia_tlbfence_va v) c =
     map_option Some (lower_from_reg (\<lambda>src. Some (M_TlbFenceVa src)) v c)"
| "lower_inst (Sia_tlbfence_asid v) c =
     map_option Some (lower_from_reg (\<lambda>src. Some (M_TlbFenceAsid src)) v c)"
| "lower_inst Sia_wfi c = map_option Some (side_effect M_Wfi c)"
| "lower_inst Sia_sync_i c = map_option Some (side_effect M_SyncI c)"
| "lower_inst Ir_Fence c = map_option Some (side_effect M_Fence c)"
| "lower_inst (Ir_Trap code) c = map_option Some (side_effect (M_Udf code) c)"
| "lower_inst (Trapnz v code) c = lower_trap_if M_TrapIfNz v code c"
| "lower_inst (Trapz v code) c = lower_trap_if M_TrapIfZ v code c"

primrec lower_branch :: "clif_branch \<Rightarrow> mach_label list \<Rightarrow> lower_ctx \<Rightarrow> lower_ctx option option" where
  "lower_branch Ir_Jump targets c =
     (case targets of [target] \<Rightarrow> map_option Some (isle_emit (M_Jump target) c) | _ \<Rightarrow> Some None)"
| "lower_branch (Brif cond) targets c =
     (case targets of
        [taken, not_taken] \<Rightarrow>
          (case sia_trap_test cond c of
             None \<Rightarrow> None
           | Some None \<Rightarrow> Some None
           | Some (Some (test, c)) \<Rightarrow> map_option Some (isle_emit (M_BrNz test taken not_taken) c))
      | _ \<Rightarrow> Some None)"
| "lower_branch (Br_table index) targets c =
     map_option Some (do { (r, c) \<leftarrow> put_in_reg index c; sia_br_table r targets c })"

end
