(* ===== verification/Sia32_Pairs.thy ===== *)
theory Sia32_Pairs
  imports Sia32_I64 Sia32_M7 Sia32_Sem
begin

text \<open>
  Arithmetic of 64-bit values held as two 32-bit words: what the word-wise sequences that instruction
  selection generates compute, stated on words alone.
\<close>

abbreviation pair :: "u32 \<Rightarrow> u32 \<Rightarrow> u64" where
  "pair lo hi \<equiv> to_u64 \<lparr>low = lo, high = hi\<rparr>"

lemma bit_pair: "bit (pair lo hi) n \<longleftrightarrow> (if n < 32 then bit lo n else bit hi (n - 32))"
  using bit_imp_le_length [of hi "n - 32"] bit_imp_le_length [of lo n]
  by (auto simp: to_u64_def bit_simps)

lemma unat_u32 [simp]: "unat (a :: u32) < 4294967296"
  using unsigned_less [where ?'a = nat, of a] by simp

lemma unat_pair: "unat (pair lo hi) = unat lo + 2 ^ 32 * unat hi"
proof -
  have "unat lo + 4294967296 * unat hi < 18446744073709551616"
    using unat_u32 [of lo] unat_u32 [of hi] by linarith
  then show ?thesis
    by (simp add: to_u64_sum unat_word_ariths unsigned_ucast_eq take_bit_eq_mod)
qed

lemma pair_eq_iff: "pair a0 a1 = pair b0 b1 \<longleftrightarrow> a0 = b0 \<and> a1 = b1"
  by (metis from_to_u64 i64_words.select_convs)

lemma pair_zero [simp]: "pair 0 0 = 0"
  by (simp add: to_u64_def)

lemma pair_eq_0_iff: "pair a b = 0 \<longleftrightarrow> a = 0 \<and> b = 0"
  using pair_eq_iff [of a b 0 0] by simp

lemma two_digit_less:
  fixes a0 b0 a1 b1 :: int
  assumes "0 \<le> a0" "a0 < 4294967296" "0 \<le> b0" "b0 < 4294967296"
  shows "a0 + 4294967296 * a1 < b0 + 4294967296 * b1 \<longleftrightarrow> a1 < b1 \<or> a1 = b1 \<and> a0 < b0"
  using assms by (cases a1 b1 rule: linorder_cases) auto

lemma uint_pair: "uint (pair lo hi) = uint lo + 4294967296 * uint hi"
  by (simp only: uint_nat unat_pair) simp

lemma uint_u32 [simp]: "uint (a :: u32) < 4294967296" "0 \<le> uint a"
  using uint_u32_less [of a] by simp_all

lemma pair_less_iff: "pair a0 a1 < pair b0 b1 \<longleftrightarrow> a1 < b1 \<or> a1 = b1 \<and> a0 < b0"
  unfolding word_less_def uint_pair by (simp add: two_digit_less word_uint_eq_iff)

lemma sint_pair: "sint (pair lo hi) = uint lo + 4294967296 * sint hi"
proof -
  have "bit (pair lo hi) 63 = bit hi 31" by (simp add: bit_pair)
  moreover have "sint (w :: u64) = uint w - (if bit w 63 then 2 ^ 64 else 0)" for w
    using unsigned_less [where ?'a = int, of w]
    by (simp add: sint_uint signed_take_bit_eq_take_bit_minus bit_uint_iff take_bit_int_eq_self)
  moreover have "sint (w :: u32) = uint w - (if bit w 31 then 2 ^ 32 else 0)" for w
    using unsigned_less [where ?'a = int, of w]
    by (simp add: sint_uint signed_take_bit_eq_take_bit_minus bit_uint_iff take_bit_int_eq_self)
  ultimately show ?thesis by (simp add: uint_pair)
qed

lemma pair_sless_iff: "sint (pair a0 a1) < sint (pair b0 b1) \<longleftrightarrow> sint a1 < sint b1 \<or> a1 = b1 \<and> a0 < b0"
proof -
  have "a1 = b1 \<longleftrightarrow> sint a1 = sint b1" using signed_word_eqI by auto
  then show ?thesis unfolding sint_pair word_less_def by (simp add: two_digit_less)
qed

section \<open>Addition, subtraction, logic\<close>

lemma pair_add: "pair (a0 + b0) (a1 + b1 + of_bool (a0 + b0 < a0)) = pair a0 a1 + pair b0 b1"
proof -
  have "add_reference \<lparr>low = a0, high = a1\<rparr> \<lparr>low = b0, high = b1\<rparr> =
      \<lparr>low = a0 + b0, high = a1 + b1 + of_bool (a0 + b0 < a0)\<rparr>"
    unfolding add_reference_def overflowing_add_def unat_carry_iff by simp
  then show ?thesis by (metis to_u64_add_reference)
qed

lemma pair_sub: "pair (a0 - b0) (a1 - b1 - of_bool (a0 < b0)) = pair a0 a1 - pair b0 b1"
proof -
  have "sub_reference \<lparr>low = a0, high = a1\<rparr> \<lparr>low = b0, high = b1\<rparr> =
      \<lparr>low = a0 - b0, high = a1 - b1 - of_bool (a0 < b0)\<rparr>"
    unfolding sub_reference_def overflowing_sub_def word_less_nat_alt by simp
  then show ?thesis by (metis to_u64_sub_reference)
qed

lemma pair_logic:
  "pair (a0 AND b0) (a1 AND b1) = pair a0 a1 AND pair b0 b1"
  "pair (a0 OR b0) (a1 OR b1) = pair a0 a1 OR pair b0 b1"
  "pair (a0 XOR b0) (a1 XOR b1) = pair a0 a1 XOR pair b0 b1"
  by (auto intro!: bit_word_eqI simp: bit_pair bit_and_iff bit_or_iff bit_xor_iff)

section \<open>Shifts\<close>

lemma pair_shl:
  assumes "0 < n" "n < 32"
  shows "pair (push_bit n l) (push_bit n h OR drop_bit (32 - n) l) = push_bit n (pair l h)"
proof (rule bit_word_eqI)
  fix i assume "i < LENGTH(64)"
  then show "bit (pair (push_bit n l) (push_bit n h OR drop_bit (32 - n) l)) i = bit (push_bit n (pair l h)) i"
    using assms bit_imp_le_length [of l] by (auto simp: bit_pair bit_simps add.commute)
qed

lemma pair_shl_high:
  assumes "32 \<le> n" "n < 64"
  shows "pair 0 (push_bit (n - 32) l) = push_bit n (pair l h)"
  by (rule bit_word_eqI) (use assms in \<open>auto simp: bit_pair bit_simps\<close>)

lemma pair_shr:
  assumes "0 < n" "n < 32"
  shows "pair (drop_bit n l OR push_bit (32 - n) h) (drop_bit n h) = drop_bit n (pair l h)"
proof (rule bit_word_eqI)
  fix i assume "i < LENGTH(64)"
  then show "bit (pair (drop_bit n l OR push_bit (32 - n) h) (drop_bit n h)) i = bit (drop_bit n (pair l h)) i"
    using assms bit_imp_le_length [of l] bit_imp_le_length [of h] by (auto simp: bit_pair bit_simps add.commute)
qed

lemma pair_shr_high:
  assumes "32 \<le> n" "n < 64"
  shows "pair (drop_bit (n - 32) h) 0 = drop_bit n (pair l h)"
  by (rule bit_word_eqI) (use assms bit_imp_le_length [of h] in \<open>auto simp: bit_pair bit_simps\<close>)

lemma pair_sar:
  assumes "0 < n" "n < 32"
  shows "pair (drop_bit n l OR push_bit (32 - n) h) (signed_drop_bit n h) = signed_drop_bit n (pair l h)"
proof (rule bit_word_eqI)
  fix i assume "i < LENGTH(64)"
  then show "bit (pair (drop_bit n l OR push_bit (32 - n) h) (signed_drop_bit n h)) i
      = bit (signed_drop_bit n (pair l h)) i"
    using assms bit_imp_le_length [of l] bit_imp_le_length [of h] by (auto simp: bit_pair bit_simps add.commute)
qed

lemma pair_sar_high:
  assumes "32 \<le> n" "n < 64"
  shows "pair (signed_drop_bit (n - 32) h) (signed_drop_bit 31 h) = signed_drop_bit n (pair l h)"
proof (rule bit_word_eqI)
  fix i assume "i < LENGTH(64)"
  then show "bit (pair (signed_drop_bit (n - 32) h) (signed_drop_bit 31 h)) i
      = bit (signed_drop_bit n (pair l h)) i"
    using assms bit_imp_le_length [of h] by (cases "i = 32") (auto simp: bit_pair bit_simps)
qed

section \<open>Products\<close>

abbreviation mulhu :: "u32 \<Rightarrow> u32 \<Rightarrow> u32" where
  "mulhu a b \<equiv> execute_reference M7_Mulhu a b"

lemma unat_mul_u64: "unat (ucast (a :: u32) * ucast (b :: u32) :: u64) = unat a * unat b"
proof -
  have "unat a * unat b \<le> 4294967295 * 4294967295"
    using unat_u32 [of a] unat_u32 [of b] by (intro mult_le_mono) linarith+
  then show ?thesis by (simp add: unat_word_ariths unsigned_ucast_eq take_bit_eq_mod mod_mult_eq)
qed

lemma unat_mulhu: "unat (mulhu a b) = unat a * unat b div 4294967296"
proof -
  have "unat a * unat b < 4294967296 * 4294967296"
    using mult_strict_mono [OF unat_u32 unat_u32, of b a] by (simp add: mult.commute)
  then have "unat a * unat b div 4294967296 < 4294967296"
    by (simp add: less_mult_imp_div_less)
  then show ?thesis
    by (simp add: execute_reference_def unsigned_ucast_eq take_bit_eq_mod unat_drop_bit_eq
        drop_bit_eq_div unat_mul_u64 unat_div)
qed

lemma unat_mul_u32: "unat (a * b :: u32) = unat a * unat b mod 4294967296"
  by (simp add: unat_word_ariths)

lemma pair_product: "pair (a * b) (mulhu a b) = ucast a * ucast b"
  unfolding word_unat_eq_iff unat_pair unat_mulhu unat_mul_u32 unat_mul_u64 by simp

lemma to_u64_sum': "pair a b = ucast a + 4294967296 * ucast b"
  by (simp add: to_u64_sum)

lemma high_mult_mult: "(4294967296 * ucast (a * b :: u32) :: u64) = 4294967296 * (ucast a * ucast b)"
proof -
  have "ucast a * ucast b = (ucast (a * b) :: u64) + 4294967296 * ucast (mulhu a b)"
    using pair_product [of a b] by (simp only: to_u64_sum')
  then show ?thesis by (simp only: distrib_left two32_squared add_0_right)
qed

lemma u64_wrap: "(18446744073709551616 :: u64) = 0"
  by simp

lemma pair_mul:
  "pair (x0 * y0) (mulhu x0 y0 + x1 * y0 + x0 * y1) = pair x0 x1 * pair y0 y1"
proof -
  have "pair (x0 * y0) (mulhu x0 y0 + x1 * y0 + x0 * y1)
      = pair (x0 * y0) (mulhu x0 y0) + 4294967296 * (ucast x1 * ucast y0) + 4294967296 * (ucast x0 * ucast y1)"
    by (simp only: to_u64_sum' high_mult_add high_mult_mult add.assoc)
  also have "\<dots> = (ucast x0 + 4294967296 * ucast x1) * (ucast y0 + 4294967296 * ucast y1)"
    by (simp add: pair_product algebra_simps u64_wrap)
  finally show ?thesis by (simp only: to_u64_sum')
qed

lemma carry_div: "unat (of_bool (a + b < a) :: u32) = (unat a + unat b) div 4294967296" for a b :: u32
proof -
  have "(a + b < a) = (4294967296 \<le> unat a + unat b)" using unat_carry_iff [of a b] by simp
  moreover have "unat a + unat b < 2 * 4294967296" using unat_u32 [of a] unat_u32 [of b] by linarith
  ultimately show ?thesis by (auto simp: div_nat_eqI)
qed

lemma unat_add_u32: "unat (a + b :: u32) = (unat a + unat b) mod 4294967296"
  by (simp add: unat_word_ariths)


text \<open>The high half of a 64 by 64 bit product from four 32-bit products, with every carry kept.\<close>

lemma mulhi_schoolbook:
  fixes x0 x1 y0 y1 B :: nat
  assumes "0 < B"
  defines "t \<equiv> x1 * y0 + x0 * y0 div B" and "u \<equiv> x0 * y1 + (x1 * y0 + x0 * y0 div B) mod B"
  shows "(x0 + B * x1) * (y0 + B * y1) div (B * B) = x1 * y1 + t div B + u div B"
proof -
  have t: "x1 * y0 + x0 * y0 div B = B * (t div B) + t mod B" by (simp add: t_def)
  have u: "u = B * (u div B) + u mod B" by simp
  have bu: "B * u = B * (B * (u div B)) + B * (u mod B)"
    using arg_cong [OF u, of "\<lambda>z. B * z"] by (simp only: distrib_left)
  have "(x0 + B * x1) * (y0 + B * y1) = x0 * y0 + B * (x1 * y0 + x0 * y1) + B * B * (x1 * y1)"
    by (simp add: algebra_simps)
  also have "\<dots> = x0 * y0 mod B + B * (x0 * y0 div B + x1 * y0 + x0 * y1) + B * B * (x1 * y1)"
    by (simp add: algebra_simps)
  also have "x0 * y0 div B + x1 * y0 + x0 * y1 = B * (t div B) + u"
    using t by (simp add: u_def t_def)
  also have "x0 * y0 mod B + B * (B * (t div B) + u) + B * B * (x1 * y1)
      = (x0 * y0 mod B + B * (u mod B)) + B * B * (x1 * y1 + t div B + u div B)"
    using bu by (simp add: algebra_simps)
  finally have "(x0 + B * x1) * (y0 + B * y1)
      = (x0 * y0 mod B + B * (u mod B)) + B * B * (x1 * y1 + t div B + u div B)" .
  moreover have "x0 * y0 mod B + B * (u mod B) < B * B"
  proof -
    have "x0 * y0 mod B < B" "u mod B + 1 \<le> B" using assms(1) by (simp_all add: Suc_leI)
    then have "B * (u mod B) + B \<le> B * B" by (metis add.commute add_mult_distrib2 mult.right_neutral mult_le_mono2)
    then show ?thesis using \<open>x0 * y0 mod B < B\<close> by linarith
  qed
  ultimately show ?thesis using assms(1) by simp
qed

lemma mac_high:
  "unat (mulhu a b + of_bool (a * b + k < a * b)) = (unat a * unat b + unat k) div 4294967296"
proof -
  let ?N = "unat a * unat b"
  have "?N \<le> 4294967295 * 4294967295"
    using unat_u32 [of a] unat_u32 [of b] by (intro mult_le_mono) linarith+
  then have "?N + unat k < 4294967296 * 4294967296" using unat_u32 [of k] by linarith
  then have small: "(?N + unat k) div 4294967296 < 4294967296" by (simp add: less_mult_imp_div_less)
  have "?N + unat k = (?N mod 4294967296 + unat k) + ?N div 4294967296 * 4294967296"
    using mod_div_mult_eq [of ?N 4294967296] by linarith
  then have "(?N + unat k) div 4294967296
      = ((?N mod 4294967296 + unat k) + ?N div 4294967296 * 4294967296) div 4294967296"
    by (rule arg_cong)
  also have "\<dots> = ?N div 4294967296 + (?N mod 4294967296 + unat k) div 4294967296"
    by (simp only: div_mult_self1 numeral_neq_zero not_False_eq_True)
  finally have e: "(?N + unat k) div 4294967296
      = ?N div 4294967296 + (?N mod 4294967296 + unat k) div 4294967296" .
  show ?thesis
    unfolding unat_add_u32 unat_mulhu carry_div unat_mul_u32 e [symmetric] using small by simp
qed

definition umulhi64 :: "u64 \<Rightarrow> u64 \<Rightarrow> u64" where
  "umulhi64 x y = word_of_nat (unat x * unat y div 2 ^ 64)"

lemma pair_zext: "pair l 0 = ucast l"
  by (simp add: to_u64_def)

lemma pair_sext: "pair l (signed_drop_bit 31 l) = scast l"
proof (rule bit_word_eqI)
  fix i assume "i < LENGTH(64)"
  then show "bit (pair l (signed_drop_bit 31 l)) i = bit (scast l :: u64) i"
    using bit_imp_le_length [of l] by (cases "i = 32") (auto simp: bit_pair bit_simps)
qed

lemma pair_umulhi:
  fixes x0 x1 y0 y1 :: u32
  defines "t_low \<equiv> x1 * y0 + mulhu x0 y0"
  defines "t_high \<equiv> mulhu x1 y0 + of_bool (t_low < x1 * y0)"
  defines "u_high \<equiv> mulhu x0 y1 + of_bool (x0 * y1 + t_low < x0 * y1)"
  defines "part \<equiv> x1 * y1 + t_high"
  shows "pair (part + u_high) (mulhu x1 y1 + of_bool (part < x1 * y1) + of_bool (part + u_high < part))
    = umulhi64 (pair x0 x1) (pair y0 y1)"
proof -
  let ?B = "4294967296 :: nat"
  have t: "unat t_high = (unat x1 * unat y0 + unat x0 * unat y0 div ?B) div ?B"
    unfolding t_high_def t_low_def mac_high unat_mulhu ..
  have l: "unat t_low = (unat x1 * unat y0 + unat x0 * unat y0 div ?B) mod ?B"
    unfolding t_low_def by (simp add: unat_add_u32 unat_mulhu unat_mul_u32 mod_simps)
  have u: "unat u_high = (unat x0 * unat y1 + unat t_low) div ?B"
    unfolding u_high_def mac_high ..
  have "pair (part + u_high) (mulhu x1 y1 + of_bool (part < x1 * y1) + of_bool (part + u_high < part))
      = pair (x1 * y1) (mulhu x1 y1) + pair t_high 0 + pair u_high 0"
    using pair_add [of part u_high "mulhu x1 y1 + of_bool (part < x1 * y1)" 0]
      pair_add [of "x1 * y1" t_high "mulhu x1 y1" 0] by (simp add: part_def)
  also have "\<dots> = word_of_nat (unat x1 * unat y1 + unat t_high + unat u_high)"
    by (simp add: pair_product pair_zext)
  also have "unat x1 * unat y1 + unat t_high + unat u_high
      = (unat x0 + ?B * unat x1) * (unat y0 + ?B * unat y1) div (?B * ?B)"
    using mulhi_schoolbook [of ?B "unat x0" "unat x1" "unat y0" "unat y1"] by (simp add: t u l)
  finally show ?thesis by (simp add: umulhi64_def unat_pair)
qed

section \<open>Bit counts\<close>

definition clz64 :: "u64 \<Rightarrow> u64" where
  "clz64 w = word_of_nat (length (takeWhile (\<lambda>i. \<not> bit w i) (rev [0..<64])))"

definition ctz64 :: "u64 \<Rightarrow> u64" where
  "ctz64 w = word_of_nat (length (takeWhile (\<lambda>i. \<not> bit w i) [0..<64]))"

definition cpop64 :: "u64 \<Rightarrow> u64" where
  "cpop64 w = word_of_nat (length (filter (bit w) [0..<64]))"

lemma upt_64: "[0..<64] = [0..<32] @ map (\<lambda>i. i + 32) [0..<32]"
  by (simp add: map_add_upt upt_add_eq_append [of 0 32 32, simplified])

lemma takeWhile_all: "takeWhile P (xs @ ys) = (if list_all P xs then xs @ takeWhile P ys else takeWhile P xs)"
  by (induction xs) auto

lemma takeWhile_map_pair:
  "takeWhile (\<lambda>i. \<not> bit (pair lo hi) i) (map (\<lambda>i. i + 32) xs) = map (\<lambda>i. i + 32) (takeWhile (\<lambda>i. \<not> bit hi i) xs)"
  by (induction xs) (auto simp: bit_pair)

lemma takeWhile_low_pair:
  "set xs \<subseteq> {..<32} \<Longrightarrow> takeWhile (\<lambda>i. \<not> bit (pair lo hi) i) xs = takeWhile (\<lambda>i. \<not> bit lo i) xs"
  by (induction xs) (auto simp: bit_pair)

lemma word_zero_iff_bits: "(w :: u32) = 0 \<longleftrightarrow> list_all (\<lambda>i. \<not> bit w i) [0..<32]"
  by (auto simp: list_all_iff intro!: bit_word_eqI)

lemma ucast_small_count: "n \<le> 32 \<Longrightarrow> ucast (word_of_nat n :: u32) = (word_of_nat n :: u64)"
  by (simp add: unsigned_of_nat take_bit_nat_eq_self)

lemma zero_half_iff:
  "list_all (\<lambda>i. \<not> bit (pair lo hi) i) [0..<32] \<longleftrightarrow> lo = 0"
  "list_all (\<lambda>i. \<not> bit (pair lo hi) i) (map (\<lambda>i. i + 32) [0..<32]) \<longleftrightarrow> hi = 0"
  "list_all (\<lambda>i. \<not> bit (pair lo hi) i) (map (\<lambda>i. i + 32) (rev [0..<32])) \<longleftrightarrow> hi = 0"
  unfolding word_zero_iff_bits list.pred_map by (simp_all add: list_all_iff bit_pair)

lemma takeWhile_low_half:
  "takeWhile (\<lambda>i. \<not> bit (pair lo hi) i) [0..<32] = takeWhile (\<lambda>i. \<not> bit lo i) [0..<32]"
  "takeWhile (\<lambda>i. \<not> bit (pair lo hi) i) (rev [0..<32]) = takeWhile (\<lambda>i. \<not> bit lo i) (rev [0..<32])"
  by (rule takeWhile_low_pair; auto)+

lemma count_le: "length (takeWhile P [0..<32]) \<le> 32" "length (takeWhile P (rev [0..<32])) \<le> 32"
  using length_takeWhile_le [of P "[0..<32]"] length_takeWhile_le [of P "rev [0..<32]"] by simp_all

lemma ucast_count_plus:
  "n \<le> 32 \<Longrightarrow> ucast (word_of_nat n + 32 :: u32) = (word_of_nat (32 + n) :: u64)"
proof -
  assume "n \<le> 32"
  then have "ucast (word_of_nat (32 + n) :: u32) = (word_of_nat (32 + n) :: u64)"
    by (simp only: unsigned_of_nat) (simp add: take_bit_nat_eq_self)
  then show ?thesis by (simp add: add.commute)
qed

lemma pair_ctz: "pair (if lo \<noteq> 0 then ctz32 lo else ctz32 hi + 32) 0 = ctz64 (pair lo hi)"
  unfolding pair_zext ctz32_def ctz64_def upt_64 takeWhile_all zero_half_iff takeWhile_map_pair
    takeWhile_low_half
  by (simp add: ucast_count_plus ucast_small_count count_le)

lemma pair_clz: "pair (if hi \<noteq> 0 then clz32 hi else clz32 lo + 32) 0 = clz64 (pair lo hi)"
  unfolding pair_zext clz32_def clz64_def upt_64 rev_append rev_map takeWhile_all zero_half_iff
    takeWhile_map_pair takeWhile_low_half
  by (simp add: ucast_count_plus ucast_small_count count_le)

lemma pair_cpop: "pair (cpop32 lo + cpop32 hi) 0 = cpop64 (pair lo hi)"
proof -
  let ?f = "\<lambda>w :: u32. length (filter (bit w) [0..<32])"
  have le: "?f w \<le> 32" for w using length_filter_le [of "bit w" "[0..<32]"] by simp
  have "length (filter (bit (pair lo hi)) [0..<64]) = ?f lo + ?f hi"
  proof -
    have "filter (bit (pair lo hi)) [0..<32] = filter (bit lo) [0..<32]"
      by (rule filter_cong) (simp_all add: bit_pair)
    then show ?thesis unfolding upt_64 filter_append filter_map by (simp add: comp_def bit_pair)
  qed
  moreover have "ucast (word_of_nat (?f lo + ?f hi) :: u32) = (word_of_nat (?f lo + ?f hi) :: u64)"
    using le [of lo] le [of hi] by (simp only: unsigned_of_nat) (simp add: take_bit_nat_eq_self)
  ultimately show ?thesis by (simp add: pair_zext cpop32_def cpop64_def)
qed

section \<open>One step of restoring division\<close>

lemma unat_u64: "unat (a :: u64) < 18446744073709551616"
  using unsigned_less [where ?'a = nat, of a] by simp

lemma unat_shift_in:
  fixes R d :: u64
  assumes "unat d \<le> 1"
  shows "2 * unat R + unat d = unat (push_bit 1 R OR d) + 18446744073709551616 * of_bool (bit R 63)"
proof -
  have dd: "d = 0 \<or> d = 1" using assms by (auto simp: word_unat_eq_iff)
  have "push_bit 1 R AND d = 0"
    using dd by (auto intro!: bit_word_eqI simp: bit_and_iff bit_push_bit_iff bit_1_iff simp del: push_bit_of_Suc_0 push_bit_Suc)
  then have "push_bit 1 R OR d = push_bit 1 R + d" by (simp add: disjunctive_add_eq_or)
  then have u: "unat (push_bit 1 R OR d) = (2 * unat R + unat d) mod 18446744073709551616"
    by (simp add: unat_word_ariths push_bit_eq_mult mod_simps mult.commute)
  have b: "bit R 63 \<longleftrightarrow> 9223372036854775808 \<le> unat R"
  proof -
    have "bit R 63 \<longleftrightarrow> odd (unat R div 9223372036854775808)"
    proof -
      have "bit R 63 = bit (unat R) 63" by (simp only: bit_unsigned_iff) (simp add: bit_imp_le_length)
      then show ?thesis unfolding bit_iff_odd [of "unat R"] by simp
    qed
    moreover have "unat R div 9223372036854775808 = (if 9223372036854775808 \<le> unat R then 1 else 0)"
      using unat_u64 [of R] by (auto intro!: div_nat_eqI)
    ultimately show ?thesis by simp
  qed
  have "2 * unat R + unat d < 2 * 18446744073709551616" using unat_u64 [of R] assms by linarith
  show ?thesis
  proof (cases "bit R 63")
    case True
    then have "18446744073709551616 \<le> 2 * unat R + unat d" using b by linarith
    then show ?thesis
      using True u \<open>2 * unat R + unat d < 2 * 18446744073709551616\<close>
      by (simp add: le_mod_geq)
  next
    case False
    then have "2 * unat R + unat d < 18446744073709551616" using b assms by linarith
    then show ?thesis using False u by simp
  qed
qed

lemma restoring_step:
  fixes R Y d :: u64
  assumes "unat R < unat Y" "unat d \<le> 1"
  defines "S \<equiv> push_bit 1 R OR d"
  shows "bit R 63 \<or> Y \<le> S \<longleftrightarrow> unat Y \<le> 2 * unat R + unat d"
    and "unat (if bit R 63 \<or> Y \<le> S then S - Y else S) = (2 * unat R + unat d) mod unat Y"
proof -
  have s: "2 * unat R + unat d = unat S + 18446744073709551616 * of_bool (bit R 63)"
    unfolding S_def using assms(2) by (rule unat_shift_in)
  show c: "bit R 63 \<or> Y \<le> S \<longleftrightarrow> unat Y \<le> 2 * unat R + unat d"
    using s unat_u64 [of Y] by (cases "bit R 63") (auto simp: word_le_nat_alt)
  have "unat (S - Y) = 2 * unat R + unat d - unat Y" if "unat Y \<le> 2 * unat R + unat d"
  proof (cases "bit R 63")
    case True
    then have "unat S < unat Y" using s assms(1,2) unat_u64 [of Y] by simp
    then show ?thesis using s True unat_u64 [of Y] by (simp add: unat_sub_if')
  next
    case False
    then show ?thesis using s that by (simp add: unat_sub_if')
  qed
  moreover have "2 * unat R + unat d < 2 * unat Y" using assms(1,2) by linarith
  ultimately show "unat (if bit R 63 \<or> Y \<le> S then S - Y else S) = (2 * unat R + unat d) mod unat Y"
    unfolding c using s c by (auto simp: le_mod_geq)
qed

end
