(* ===== verification/Sia32_Lower_Sem.thy ===== *)
theory Sia32_Lower_Sem
  imports Sia32_Lower Sia32_Pairs
begin

text \<open>
  The meaning of selected code before register allocation, and the rules by which the correctness of
  a lowering is derived.

  A state gives every register a word and memory its bytes; an instruction either produces the next
  state or traps. \<open>lowers m c s Q\<close> says that the lowering \<open>m\<close>, started in context \<open>c\<close>, succeeds, and
  that the instructions it appends, run from \<open>s\<close>, end normally in a state for which \<open>Q\<close> holds of the
  result. The specifications of the lowerings have the shape \<open>computes L K m c s P\<close>: the lowering
  allocates at most \<open>K\<close> of the registers below \<open>L\<close>, changes no older register and no memory, and its
  result satisfies \<open>P\<close>.
\<close>

section \<open>Running selected code\<close>

record vstate =
  vr :: "mreg \<Rightarrow> u32"
  vmem :: "u32 \<Rightarrow> u8"

definition set_vr :: "mreg \<Rightarrow> u32 \<Rightarrow> vstate \<Rightarrow> vstate" where
  "set_vr d v s = s\<lparr>vr := (vr s)(d := v)\<rparr>"

definition vload32 :: "vstate \<Rightarrow> u32 \<Rightarrow> u32" where
  "vload32 s a = u32_from_le_bytes (vmem s a) (vmem s (a + 1)) (vmem s (a + 2)) (vmem s (a + 3))"

definition vstore32 :: "u32 \<Rightarrow> u32 \<Rightarrow> vstate \<Rightarrow> vstate" where
  "vstore32 a v s = s\<lparr>vmem := (vmem s)(a := ucast v, a + 1 := ucast (drop_bit 8 v),
     a + 2 := ucast (drop_bit 16 v), a + 3 := ucast (drop_bit 24 v))\<rparr>"

text \<open>
  \<open>None\<close>: the instruction has no meaning at this level (control flow, stack and system instructions,
  narrow memory accesses), or a word access is not aligned.
\<close>

definition vstep :: "inst \<Rightarrow> vstate \<Rightarrow> (trap_code + vstate) option" where
  "vstep i s =
     (case i of
        Mov d a \<Rightarrow> Some (Inr (set_vr d (vr s a) s))
      | Add d a b \<Rightarrow> Some (Inr (set_vr d (vr s a + vr s b) s))
      | Unary op d a \<Rightarrow> Some (Inr (set_vr d (unary_sem op (vr s a)) s))
      | TwoOp op d a b \<Rightarrow>
          map_option (\<lambda>v. Inr (set_vr d v s)) (two_op_sem op (vr s a) (vr s b))
      | Icmp d cc a b \<Rightarrow> Some (Inr (set_vr d (icmp_sem cc (vr s a) (vr s b)) s))
      | ShiftImm op d a n \<Rightarrow>
          if unat n < 32 then Some (Inr (set_vr d (shift_imm_sem op (unat n) (vr s a)) s)) else None
      | LoadConst32 d v \<Rightarrow> Some (Inr (set_vr d v s))
      | Extend d a sg from_bits to_bits \<Rightarrow>
          Some (Inr (set_vr d (extend_sem sg (unat from_bits) (unat to_bits) (vr s a)) s))
      | Select d t a b \<Rightarrow> Some (Inr (set_vr d (if vr s t \<noteq> 0 then vr s a else vr s b) s))
      | LoadBaseOffset d b off ty \<Rightarrow>
          if ty = ty_I32 \<and> aligned4 (vr s b + off)
          then Some (Inr (set_vr d (vload32 s (vr s b + off)) s)) else None
      | StoreBaseOffset a b off ty \<Rightarrow>
          if ty = ty_I32 \<and> aligned4 (vr s b + off)
          then Some (Inr (vstore32 (vr s b + off) (vr s a) s)) else None
      | TrapIfZ t code \<Rightarrow> Some (if vr s t = 0 then Inl code else Inr s)
      | TrapIfNz t code \<Rightarrow> Some (if vr s t \<noteq> 0 then Inl code else Inr s)
      | Udf code \<Rightarrow> Some (Inl code)
      | _ \<Rightarrow> None)"

fun exec_insts :: "inst list \<Rightarrow> vstate \<Rightarrow> (trap_code + vstate) option" where
  "exec_insts [] s = Some (Inr s)"
| "exec_insts (i # is) s =
     (case vstep i s of
        Some (Inr s') \<Rightarrow> exec_insts is s'
      | r \<Rightarrow> r)"

lemma exec_insts_append:
  "exec_insts (is @ js) s =
     (case exec_insts is s of Some (Inr s') \<Rightarrow> exec_insts js s' | r \<Rightarrow> r)"
  by (induction "is" arbitrary: s) (auto split: option.splits sum.splits)

lemma set_vr_sel [simp]:
  "vr (set_vr d v s) r = (if r = d then v else vr s r)" "vmem (set_vr d v s) = vmem s"
  by (simp_all add: set_vr_def)

lemma vstep_simps [simp]:
  "vstep (Mov d a) s = Some (Inr (set_vr d (vr s a) s))"
  "vstep (Add d a b) s = Some (Inr (set_vr d (vr s a + vr s b) s))"
  "vstep (Unary uop d a) s = Some (Inr (set_vr d (unary_sem uop (vr s a)) s))"
  "vstep (TwoOp op d a b) s = map_option (\<lambda>v. Inr (set_vr d v s)) (two_op_sem op (vr s a) (vr s b))"
  "vstep (Icmp d cc a b) s = Some (Inr (set_vr d (icmp_sem cc (vr s a) (vr s b)) s))"
  "vstep (LoadConst32 d k) s = Some (Inr (set_vr d k s))"
  "vstep (Extend d a sg from_bits to_bits) s =
     Some (Inr (set_vr d (extend_sem sg (unat from_bits) (unat to_bits) (vr s a)) s))"
  "vstep (Select d t a b) s = Some (Inr (set_vr d (if vr s t \<noteq> 0 then vr s a else vr s b) s))"
  "vstep (TrapIfZ t code) s = Some (if vr s t = 0 then Inl code else Inr s)"
  "vstep (TrapIfNz t code) s = Some (if vr s t \<noteq> 0 then Inl code else Inr s)"
  "unat n < 32 \<Longrightarrow> vstep (ShiftImm op d a n) s = Some (Inr (set_vr d (shift_imm_sem op (unat n) (vr s a)) s))"
  by (simp_all add: vstep_def)

section \<open>Registers and contexts\<close>

definition vnext :: "lower_ctx \<Rightarrow> nat" where
  "vnext c = length (vreg_types (vregs c))"

definition can_alloc :: "lower_ctx \<Rightarrow> nat \<Rightarrow> bool" where
  "can_alloc c v \<longleftrightarrow> deferred_error (vregs c) = None \<and> v + 1 \<le> VReg_MAX (limits c) \<and>
     vreg_bits (limits c) v Int_class \<le> REG_SPILLSLOT_MASK"

definition alloc_ok :: "nat \<Rightarrow> lower_ctx \<Rightarrow> bool" where
  "alloc_ok L c \<longleftrightarrow> (\<forall>v < L. can_alloc c v)"

fun vold :: "nat \<Rightarrow> mreg \<Rightarrow> bool" where
  "vold n (Virtual v k) \<longleftrightarrow> v < n"
| "vold n (Real p) \<longleftrightarrow> False"

definition bump :: "lower_ctx \<Rightarrow> lower_ctx" where
  "bump c = c\<lparr>vregs := (vregs c)\<lparr>vreg_types := vreg_types (vregs c) @ [ty_I32]\<rparr>\<rparr>"

definition emitted :: "inst \<Rightarrow> lower_ctx \<Rightarrow> lower_ctx" where
  "emitted i c = c\<lparr>ir_insts := ir_insts c @ [i]\<rparr>"

lemma bump_sel [simp]:
  "vnext (bump c) = Suc (vnext c)" "can_alloc (bump c) v = can_alloc c v"
  "alloc_ok L (bump c) = alloc_ok L c" "ir_insts (bump c) = ir_insts c"
  by (simp_all add: bump_def vnext_def can_alloc_def alloc_ok_def)

lemma emitted_sel [simp]:
  "vnext (emitted i c) = vnext c" "can_alloc (emitted i c) v = can_alloc c v"
  "alloc_ok L (emitted i c) = alloc_ok L c" "ir_insts (emitted i c) = ir_insts c @ [i]"
  by (simp_all add: emitted_def vnext_def can_alloc_def alloc_ok_def)

lemma emit_inst_eq [simp]: "emit_inst i c = Some (emitted i c)"
  by (simp add: emit_inst_def emitted_def)

lemma rc_for_type_I32: "int_fits_in_32 ty \<Longrightarrow> rc_for_type ty = Inr ([Int_class], [ty_I32])"
  by (simp add: rc_for_type_def int_fits_in_32_def)

lemma int_types_fit [simp]: "int_fits_in_32 ty_I32" "int_fits_in_32 ty_I16" "int_fits_in_32 ty_I8"
  by code_simp+

lemma temp_writable_reg_eq:
  assumes "int_fits_in_32 ty" "can_alloc c (vnext c)"
  shows "temp_writable_reg ty c = Some (Virtual (vnext c) Int_class, bump c)"
  using assms
  by (simp add: temp_writable_reg_def alloc_tmp_def alloc_with_deferred_error_def vreg_alloc_def
      rc_for_type_I32 from_virtual_reg_checked_def can_alloc_def vnext_def bump_def Let_def)

lemma temp_I32_eq [simp]:
  "can_alloc c (vnext c) \<Longrightarrow> temp_writable_reg ty_I32 c = Some (Virtual (vnext c) Int_class, bump c)"
  by (simp add: temp_writable_reg_eq)

section \<open>Correctness of a lowering\<close>

definition lowers ::
  "('a \<times> lower_ctx) option \<Rightarrow> lower_ctx \<Rightarrow> vstate \<Rightarrow> ('a \<Rightarrow> lower_ctx \<Rightarrow> vstate \<Rightarrow> bool) \<Rightarrow> bool" where
  "lowers m c s Q \<longleftrightarrow> (\<exists>a c' is s'. m = Some (a, c') \<and> ir_insts c' = ir_insts c @ is
     \<and> exec_insts is s = Some (Inr s') \<and> Q a c' s')"

definition extends :: "nat \<Rightarrow> nat \<Rightarrow> lower_ctx \<Rightarrow> vstate \<Rightarrow> lower_ctx \<Rightarrow> vstate \<Rightarrow> bool" where
  "extends L K c s c' s' \<longleftrightarrow> alloc_ok L c' \<and> vnext c \<le> vnext c' \<and> vnext c' \<le> vnext c + K
     \<and> (\<forall>r. vold (vnext c) r \<longrightarrow> vr s' r = vr s r) \<and> vmem s' = vmem s"

definition computes ::
  "nat \<Rightarrow> nat \<Rightarrow> ('a \<times> lower_ctx) option \<Rightarrow> lower_ctx \<Rightarrow> vstate
     \<Rightarrow> ('a \<Rightarrow> lower_ctx \<Rightarrow> vstate \<Rightarrow> bool) \<Rightarrow> bool" where
  "computes L K m c s P \<longleftrightarrow> lowers m c s (\<lambda>a c' s'. extends L K c s c' s' \<and> P a c' s')"

lemma lowers_return: "Q a c s \<Longrightarrow> lowers (Some (a, c)) c s Q"
  by (auto simp: lowers_def)

lemma lowers_bind:
  assumes "lowers m c s R" "\<And>a c' s'. R a c' s' \<Longrightarrow> lowers (k (a, c')) c' s' Q"
  shows "lowers (m \<bind> k) c s Q"
  using assms unfolding lowers_def by (fastforce simp: exec_insts_append)

lemma lowers_mono: "lowers m c s R \<Longrightarrow> (\<And>a c' s'. R a c' s' \<Longrightarrow> Q a c' s') \<Longrightarrow> lowers m c s Q"
  unfolding lowers_def by blast

lemma vold_mono: "vold n r \<Longrightarrow> n \<le> m \<Longrightarrow> vold m r"
  by (cases r) auto

lemma extends_trans:
  assumes "extends L K c s c1 s1" "extends L K' c1 s1 c2 s2"
  shows "extends L (K + K') c s c2 s2"
proof -
  have "vold (vnext c1) r" if "vold (vnext c) r" for r
    using that assms(1) vold_mono by (auto simp: extends_def)
  then show ?thesis using assms by (auto simp: extends_def)
qed

lemma computes_bind:
  assumes "computes L K m c s R"
    and "\<And>a c' s'. extends L K c s c' s' \<Longrightarrow> R a c' s' \<Longrightarrow> computes L K' (k (a, c')) c' s' Q"
    and "K + K' \<le> K''"
  shows "computes L K'' (m \<bind> k) c s Q"
  unfolding computes_def
proof (rule lowers_bind)
  show "lowers m c s (\<lambda>a c' s'. extends L K c s c' s' \<and> R a c' s')"
    using assms(1) by (simp add: computes_def)
next
  fix a c' s' assume h: "extends L K c s c' s' \<and> R a c' s'"
  have w: "extends L (K + K') c s c2 s2 \<Longrightarrow> extends L K'' c s c2 s2" for c2 s2
    using assms(3) by (auto simp: extends_def)
  have "computes L K' (k (a, c')) c' s' Q" using assms(2) h by blast
  then show "lowers (k (a, c')) c' s' (\<lambda>a c' s'. extends L K'' c s c' s' \<and> Q a c' s')"
    unfolding computes_def by (rule lowers_mono) (use h w extends_trans in blast)
qed

lemma computes_return:
  assumes "alloc_ok L c" "P a c s"
  shows "computes L K (Some (a, c)) c s P"
  using assms by (auto simp: computes_def extends_def intro!: lowers_return)

lemma computes_mono:
  assumes "computes L K m c s P" "\<And>a c' s'. extends L K c s c' s' \<Longrightarrow> P a c' s' \<Longrightarrow> Q a c' s'" "K \<le> K'"
  shows "computes L K' m c s Q"
  using assms(1) unfolding computes_def
  by (rule lowers_mono) (use assms(2,3) in \<open>auto simp: extends_def\<close>)

section \<open>Straight-line lowerings\<close>

text \<open>
  A pair of registers holding a 64-bit value. The registers of the operands are older than the
  lowering, so its temporaries do not overwrite them.
\<close>

fun val64 :: "vstate \<Rightarrow> value_regs \<Rightarrow> u64" where
  "val64 s (Two_regs a b) = pair (vr s a) (vr s b)"
| "val64 s (One_reg a) = ucast (vr s a)"

fun pair_old :: "nat \<Rightarrow> value_regs \<Rightarrow> bool" where
  "pair_old n (Two_regs a b) \<longleftrightarrow> vold n a \<and> vold n b"
| "pair_old n (One_reg a) \<longleftrightarrow> False"

lemma vold_iff: "vold n r \<longleftrightarrow> (\<exists>v k. r = Virtual v k \<and> v < n)"
  by (cases r) auto

lemma pair_oldE:
  assumes "pair_old n p"
  obtains v k w l where "p = Two_regs (Virtual v k) (Virtual w l)" "v < n" "w < n"
  using assms by (cases p) (auto simp: vold_iff)

lemma voldE:
  assumes "vold n r"
  obtains v k where "r = Virtual v k" "v < n"
  using assms by (cases r) auto

lemma pair_old_mono: "pair_old n p \<Longrightarrow> n \<le> m \<Longrightarrow> pair_old m p"
  by (cases p) (auto intro: vold_mono)

lemma val64_extends: "extends L K c s c' s' \<Longrightarrow> pair_old (vnext c) p \<Longrightarrow> val64 s' p = val64 s p"
  by (cases p) (auto simp: extends_def)

lemma lowers_Some: "lowers (Some (a, c')) c s Q \<longleftrightarrow>
  (\<exists>is. ir_insts c' = ir_insts c @ is \<and> (\<exists>s'. exec_insts is s = Some (Inr s') \<and> Q a c' s'))"
  by (auto simp: lowers_def)

lemma extends_iff: "extends L K c s c' s' \<longleftrightarrow>
  alloc_ok L c' \<and> vnext c \<le> vnext c' \<and> vnext c' \<le> vnext c + K
  \<and> (\<forall>v k. v < vnext c \<longrightarrow> vr s' (Virtual v k) = vr s (Virtual v k)) \<and> vmem s' = vmem s"
  by (auto simp: extends_def vold_iff)

lemma alloc_okD: "alloc_ok L c \<Longrightarrow> v < L \<Longrightarrow> can_alloc c v"
  by (simp add: alloc_ok_def)

lemma value_regs_get_simps [simp]:
  "value_regs_get (Two_regs a b) 0 = Some a" "value_regs_get (Two_regs a b) (Suc 0) = Some b"
  "value_regs_get (One_reg a) 0 = Some a"
  by (simp_all add: value_regs_get_def)

lemmas straight = computes_def lowers_Some extends_iff

lemma computes_step:
  assumes "computes L K m c s R" "K \<le> K''"
    and "\<And>a c' s'. extends L K c s c' s' \<Longrightarrow> R a c' s' \<Longrightarrow> computes L (K'' - K) (k a c') c' s' Q"
  shows "computes L K'' (m \<bind> (\<lambda>(a, c'). k a c')) c s Q"
  using assms(1) by (rule computes_bind [where K' = "K'' - K"]) (use assms in auto)

lemma extends_state:
  assumes "extends L K c s c' s'"
  shows "pair_old (vnext c) p \<Longrightarrow> pair_old (vnext c') p" "vold (vnext c) r \<Longrightarrow> vold (vnext c') r"
    "vold (vnext c) r \<Longrightarrow> vr s' r = vr s r" "pair_old (vnext c) p \<Longrightarrow> val64 s' p = val64 s p"
    "alloc_ok L c'"
  using assms pair_old_mono vold_mono val64_extends by (auto simp: extends_def)

text \<open>A lowering whose code traps.\<close>

definition traps :: "('a \<times> lower_ctx) option \<Rightarrow> lower_ctx \<Rightarrow> vstate \<Rightarrow> trap_code \<Rightarrow> bool" where
  "traps m c s code \<longleftrightarrow> (\<exists>a c' is. m = Some (a, c') \<and> ir_insts c' = ir_insts c @ is
     \<and> exec_insts is s = Some (Inl code))"

text \<open>Selection does not look at the state, so code that follows a trap is still selected.\<close>

lemma traps_bind:
  assumes "traps (Some (a, c1)) c s code" "lowers (k (a, c1)) c1 s1 Q"
  shows "traps (Some (a, c1) \<bind> k) c s code"
  using assms unfolding traps_def lowers_def by (fastforce simp: exec_insts_append)

end
