(* ===== verification/Sia32_Call.thy ===== *)
theory Sia32_Call
  imports Sia32_Lower_Sem
begin

text \<open>
  Calls, returns and the arrival of arguments: the parts of \<open>src/cranelift/codegen/src/machinst/abi.rs\<close> that turn
  argument and return locations into instructions and register constraints, the wrappers of
  \<open>machinst/lower.rs\<close> that emit them, and the rules of \<open>lower.isle\<close> for calls and returns.

  The allocator of virtual registers is the one of the lowering context; \<open>arg_body\<close> holds the fields of
  \<open>Callee\<close> and \<open>Lower\<close> that only this code reads. \<open>None\<close> is a panic.
\<close>

section \<open>The fields\<close>

record arg_body =
  body_sig :: nat
  body_ir_sig :: signature
  reg_args :: "(mreg \<times> mreg) list"
  ret_area_ptr :: "mreg option"
  sret_reg :: "value_regs option"
  vmctx_use :: "mreg option"

text \<open>
  \<open>vmctx_use\<close> is the register of the context parameter when debug labels keep it alive at a return.
\<close>

definition word_type :: ir_type where "word_type = ty_I32"

definition init_retval_area :: "arg_body \<Rightarrow> lower_ctx \<Rightarrow> (codegen_error + arg_body \<times> lower_ctx) option" where
  "init_retval_area b c =
     (if body_sig b < length (sigs_of (lower_sigs c)) then
        if stack_ret_arg (sigs_of (lower_sigs c) ! body_sig b) \<noteq> None then do {
          r \<leftarrow> vreg_alloc (limits c) word_type (vregs c);
          (case r of
             Inl e \<Rightarrow> Some (Inl e)
           | Inr (v, a) \<Rightarrow> do {
               p \<leftarrow> only_reg v;
               Some (Inr (b\<lparr>ret_area_ptr := Some p\<rparr>, c\<lparr>vregs := a\<rparr>))
             })
        } else Some (Inr (b, c))
      else None)"

section \<open>Arguments of a call\<close>

definition call_stack_arg :: "bool \<Rightarrow> nat \<Rightarrow> int \<Rightarrow> stack_amode" where
  "call_stack_arg is_tail_call stack_arg_space off =
     (if is_tail_call then IncomingArg off stack_arg_space else OutgoingArg off)"

type_synonym call_setup = "(mreg \<times> mreg) list \<times> inst list"

fun process_arg_slot :: "(int \<Rightarrow> stack_amode) \<Rightarrow> abi_arg_slot \<Rightarrow> mreg \<Rightarrow> ir_type \<Rightarrow> call_setup \<Rightarrow> call_setup" where
  "process_arg_slot stack_arg (ABI_Reg r _ _) vreg ty (us, is) = (us @ [(vreg, Real r)], is)"
| "process_arg_slot stack_arg (ABI_Stack off _ _) vreg ty (us, is) = (us, is @ [gen_store_stack (stack_arg off) vreg ty])"

fun slot_parts :: "abi_arg_slot \<Rightarrow> ir_type \<times> argument_extension \<times> abi_arg_location" where
  "slot_parts (ABI_Reg _ ty ext) = (ty, ext, Arg_Loc_Reg)"
| "slot_parts (ABI_Stack _ ty ext) = (ty, ext, Arg_Loc_Stack)"

definition mreg_class :: "mreg \<Rightarrow> reg_class" where
  "mreg_class r = (case r of Virtual _ rc \<Rightarrow> rc | Real p \<Rightarrow> preg_class p)"

text \<open>
  The first pass: struct arguments are copied into their buffers. The convention of the copy is the one the
  flags select for library calls; this target panics whatever it is.
\<close>

fun call_struct_args ::
  "call_conv \<Rightarrow> (int \<Rightarrow> stack_amode) \<Rightarrow> (abi_arg \<times> value_regs) list \<Rightarrow> call_setup \<Rightarrow> lower_ctx
     \<Rightarrow> (call_setup \<times> lower_ctx) option" where
  "call_struct_args cc stack_arg [] st c = Some (st, c)"
| "call_struct_args cc stack_arg ((Arg_Struct off sz _, from_regs) # as) (us, is) c = do {
     (tmp, c) \<leftarrow> temp_writable_reg word_type c;
     src \<leftarrow> only_reg from_regs;
     copy \<leftarrow> gen_memcpy cc tmp src sz;
     call_struct_args cc stack_arg as (us, is @ gen_get_stack_addr (stack_arg off) tmp # copy) c
   }"
| "call_struct_args cc stack_arg (_ # as) st c = call_struct_args cc stack_arg as st c"

text \<open>One slot of an argument: extended to a word when its location asks for it.\<close>

definition call_slot ::
  "call_conv \<Rightarrow> (int \<Rightarrow> stack_amode) \<Rightarrow> abi_arg_slot \<Rightarrow> mreg \<Rightarrow> call_setup \<Rightarrow> lower_ctx
     \<Rightarrow> (call_setup \<times> lower_ctx) option" where
  "call_slot cc stack_arg slot from_reg st c =
     (case slot_parts slot of (ty, extension, arg_loc) \<Rightarrow> do {
        ext \<leftarrow> get_ext_mode cc extension arg_loc;
        (if ext \<noteq> Ext_None \<and> ty_bits ty < word_bits then do {
           assert_that (mreg_class from_reg = Int_class);
           (tmp, c) \<leftarrow> temp_writable_reg word_type c;
           let st = (fst st, snd st @ [gen_extend tmp from_reg (ext = Ext_Sext) (word_of_nat (ty_bits ty)) 32]);
           Some (process_arg_slot stack_arg slot tmp word_type st, c)
         } else Some (process_arg_slot stack_arg slot from_reg ty st, c))
      })"

fun call_slots ::
  "call_conv \<Rightarrow> (int \<Rightarrow> stack_amode) \<Rightarrow> (abi_arg_slot \<times> mreg) list \<Rightarrow> call_setup \<Rightarrow> lower_ctx
     \<Rightarrow> (call_setup \<times> lower_ctx) option" where
  "call_slots cc stack_arg [] st c = Some (st, c)"
| "call_slots cc stack_arg ((slot, from_reg) # ps) st c = do {
     (st, c) \<leftarrow> call_slot cc stack_arg slot from_reg st c;
     call_slots cc stack_arg ps st c
   }"

text \<open>The second pass: everything but struct arguments.\<close>

fun call_plain_args ::
  "call_conv \<Rightarrow> (int \<Rightarrow> stack_amode) \<Rightarrow> (abi_arg \<times> value_regs) list \<Rightarrow> call_setup \<Rightarrow> lower_ctx
     \<Rightarrow> (call_setup \<times> lower_ctx) option" where
  "call_plain_args cc stack_arg [] st c = Some (st, c)"
| "call_plain_args cc stack_arg ((Arg_Slots slots _, from_regs) # as) st c = do {
     assert_that (length (regs_of from_regs) = length slots);
     (st, c) \<leftarrow> call_slots cc stack_arg (zip slots (regs_of from_regs)) st c;
     call_plain_args cc stack_arg as st c
   }"
| "call_plain_args cc stack_arg ((Arg_ImplicitPtr pointer off ty _, from_regs) # as) st c = do {
     vreg \<leftarrow> only_reg from_regs;
     (tmp, c) \<leftarrow> temp_writable_reg word_type c;
     let st = (fst st, snd st @ [gen_get_stack_addr (stack_arg off) tmp, gen_store_base_offset tmp 0 vreg ty]);
     call_plain_args cc stack_arg as (process_arg_slot stack_arg pointer tmp word_type st) c
   }"
| "call_plain_args cc stack_arg ((Arg_Struct _ _ _, _) # as) st c = call_plain_args cc stack_arg as st c"

text \<open>The pointer to the area for return values on the stack.\<close>

definition call_ret_area ::
  "bool \<Rightarrow> arg_body \<Rightarrow> nat \<Rightarrow> (int \<Rightarrow> stack_amode) \<Rightarrow> abi_arg \<Rightarrow> call_setup \<Rightarrow> lower_ctx
     \<Rightarrow> (call_setup \<times> lower_ctx) option" where
  "call_ret_area is_tail_call b stack_arg_space stack_arg ret_arg st c = do {
     (ret_area, st, c) \<leftarrow> (if is_tail_call then do { r \<leftarrow> ret_area_ptr b; Some (r, st, c) }
       else do {
         (tmp, c) \<leftarrow> temp_writable_reg word_type c;
         Some (tmp, (fst st, snd st @ [gen_get_stack_addr (OutgoingArg (int stack_arg_space)) tmp]), c)
       });
     (case ret_arg of
        Arg_Slots [slot] _ \<Rightarrow> Some (process_arg_slot stack_arg slot ret_area word_type st, c)
      | _ \<Rightarrow> None)
   }"

definition callee_gen_call_args ::
  "arg_body \<Rightarrow> nat \<Rightarrow> value_regs list \<Rightarrow> bool \<Rightarrow> lower_ctx \<Rightarrow> (call_setup \<times> lower_ctx) option" where
  "callee_gen_call_args b sig args is_tail_call c = do {
     n \<leftarrow> num_args (lower_sigs c) sig;
     assert_that (length args = n);
     locs \<leftarrow> sig_args (lower_sigs c) sig;
     let data = sigs_of (lower_sigs c) ! sig;
     let cc = sd_call_conv data;
     let stack_arg = call_stack_arg is_tail_call (sized_stack_arg_space data);
     assert_that (is_tail_call \<longrightarrow> body_call_conv (lower_abi c) = CC_Tail);
     (st, c) \<leftarrow> call_struct_args cc stack_arg (zip locs args) ([], []) c;
     (st, c) \<leftarrow> call_plain_args cc stack_arg (zip locs args) st c;
     ret_arg \<leftarrow> get_ret_arg (lower_sigs c) sig;
     (case ret_arg of
        None \<Rightarrow> Some (st, c)
      | Some a \<Rightarrow> call_ret_area is_tail_call b (sized_stack_arg_space data) stack_arg a st c)
   }"

section \<open>Results of a call\<close>

definition exception_payload_types :: "call_conv \<Rightarrow> ir_type list" where
  "exception_payload_types cc =
     (if cc \<in> {CC_Tail, CC_SystemV, CC_PreserveAll, CC_AppleAarch64} then [ty_I32, ty_I32] else [])"

definition ret_slot_type :: "call_conv \<Rightarrow> abi_arg_slot \<Rightarrow> ir_type option" where
  "ret_slot_type cc slot =
     (case slot_parts slot of (ty, extension, arg_loc) \<Rightarrow> do {
        ext \<leftarrow> get_ext_mode cc extension arg_loc;
        Some (if ext \<noteq> Ext_None \<and> ty_bits ty < word_bits then word_type else ty)
      })"

fun ret_slot_defs ::
  "call_conv \<Rightarrow> nat \<Rightarrow> (abi_arg_slot \<times> mreg) list \<Rightarrow> (mreg \<times> ret_location) list option" where
  "ret_slot_defs cc space [] = Some []"
| "ret_slot_defs cc space ((slot, r) # ps) = do {
     ty \<leftarrow> ret_slot_type cc slot;
     rest \<leftarrow> ret_slot_defs cc space ps;
     Some ((r, case slot of
         ABI_Reg p _ _ \<Rightarrow> Ret_Reg (Real p) ty
       | ABI_Stack off _ _ \<Rightarrow> Ret_Stack (OutgoingArg (off + int space)) ty) # rest)
   }"

fun call_ret_defs ::
  "call_conv \<Rightarrow> nat \<Rightarrow> abi_arg list \<Rightarrow> value_regs list \<Rightarrow> (mreg \<times> ret_location) list option" where
  "call_ret_defs cc space [] outputs = do { assert_that (outputs = []); Some [] }"
| "call_ret_defs cc space (Arg_Slots slots purpose # rs) outputs =
     (if purpose = Purpose_StructReturn then call_ret_defs cc space rs outputs
      else case outputs of
        [] \<Rightarrow> None
      | o1 # os \<Rightarrow> do {
          assert_that (length (regs_of o1) = length slots);
          ds \<leftarrow> ret_slot_defs cc space (zip slots (regs_of o1));
          rest \<leftarrow> call_ret_defs cc space rs os;
          Some (ds @ rest)
        })"
| "call_ret_defs cc space (_ # rs) outputs = None"

text \<open>A payload register that is also a return register shares its definition through an alias.\<close>

fun payload_defs ::
  "(mreg \<times> mreg) list \<Rightarrow> (mreg \<times> ret_location) list \<Rightarrow> vreg_allocator
     \<Rightarrow> ((mreg \<times> ret_location) list \<times> vreg_allocator) option" where
  "payload_defs [] ds a = Some (ds, a)"
| "payload_defs ((preg, vreg) # ps) ds a =
     (case find (\<lambda>d. case snd d of Ret_Reg r _ \<Rightarrow> r = preg | _ \<Rightarrow> False) ds of
        Some (existing, _) \<Rightarrow>
          (case (vreg, existing) of
             (Virtual v _, Virtual e _) \<Rightarrow> set_vreg_alias v e a \<bind> payload_defs ps ds
           | _ \<Rightarrow> None)
      | None \<Rightarrow> payload_defs ps (ds @ [(vreg, Ret_Reg preg word_type)]) a)"

definition callee_gen_call_rets ::
  "nat \<Rightarrow> value_regs list \<Rightarrow> mreg list option \<Rightarrow> lower_ctx \<Rightarrow> ((mreg \<times> ret_location) list \<times> lower_ctx) option" where
  "callee_gen_call_rets sig outputs payloads c = do {
     locs \<leftarrow> sig_rets (lower_sigs c) sig;
     let data = sigs_of (lower_sigs c) ! sig;
     ds \<leftarrow> call_ret_defs (sd_call_conv data) (sized_stack_arg_space data) locs outputs;
     (case payloads of
        None \<Rightarrow> Some (ds, c)
      | Some vs \<Rightarrow> do {
          pregs \<leftarrow> exception_payload_regs (sd_call_conv data);
          assert_that (length (exception_payload_types (sd_call_conv data)) = length pregs);
          assert_that (length pregs \<le> length vs);
          (ds, a) \<leftarrow> payload_defs (zip pregs vs) ds (vregs c);
          Some (ds, c\<lparr>vregs := a\<rparr>)
        })
   }"

section \<open>Arguments and results of the function itself\<close>

definition copy_arg_slot ::
  "call_conv \<Rightarrow> nat \<Rightarrow> abi_arg_slot \<Rightarrow> mreg \<Rightarrow> (mreg \<times> mreg) list \<times> inst list
     \<Rightarrow> ((mreg \<times> mreg) list \<times> inst list) option" where
  "copy_arg_slot cc space slot into_reg st =
     (case slot of
        ABI_Reg r _ _ \<Rightarrow> Some (fst st @ [(into_reg, Real r)], snd st)
      | ABI_Stack off ty extension \<Rightarrow> do {
          ext \<leftarrow> get_ext_mode cc extension Arg_Loc_Stack;
          let ty = (if ext \<noteq> Ext_None \<and> word_bits > ty_bits ty then word_type else ty);
          Some (fst st, snd st @ [gen_load_stack (IncomingArg off space) into_reg ty])
        })"

fun copy_arg_slots ::
  "call_conv \<Rightarrow> nat \<Rightarrow> (abi_arg_slot \<times> mreg) list \<Rightarrow> (mreg \<times> mreg) list \<times> inst list
     \<Rightarrow> ((mreg \<times> mreg) list \<times> inst list) option" where
  "copy_arg_slots cc space [] st = Some st"
| "copy_arg_slots cc space ((slot, r) # ps) st = copy_arg_slot cc space slot r st \<bind> copy_arg_slots cc space ps"

text \<open>\<open>gen_copy_arg_to_regs\<close> extends the register arguments of the body and returns the loads.\<close>

definition gen_copy_arg_to_regs ::
  "nat \<Rightarrow> value_regs \<Rightarrow> arg_body \<Rightarrow> lower_ctx \<Rightarrow> (inst list \<times> arg_body \<times> lower_ctx) option" where
  "gen_copy_arg_to_regs idx into_regs b c = do {
     locs \<leftarrow> sig_args (lower_sigs c) (body_sig b);
     assert_that (idx < length locs);
     let data = sigs_of (lower_sigs c) ! body_sig b;
     let space = sized_stack_arg_space data;
     (case locs ! idx of
        Arg_Slots slots _ \<Rightarrow> do {
          assert_that (length (regs_of into_regs) = length slots);
          (ras, is) \<leftarrow> copy_arg_slots (sd_call_conv data) space (zip slots (regs_of into_regs)) (reg_args b, []);
          Some (is, b\<lparr>reg_args := ras\<rparr>, c)
        }
      | Arg_Struct off _ _ \<Rightarrow> do {
          r \<leftarrow> only_reg into_regs;
          Some ([gen_get_stack_addr (IncomingArg off space) r], b, c)
        }
      | Arg_ImplicitPtr pointer _ ty _ \<Rightarrow> do {
          r \<leftarrow> only_reg into_regs;
          (case pointer of
             ABI_Reg p pty _ \<Rightarrow> do {
               (tmp, c) \<leftarrow> temp_writable_reg pty c;
               Some ([gen_load_base_offset r tmp 0 ty], b\<lparr>reg_args := reg_args b @ [(tmp, Real p)]\<rparr>, c)
             }
           | ABI_Stack off pty _ \<Rightarrow> do {
               (addr, c) \<leftarrow> temp_writable_reg pty c;
               Some ([gen_load_stack (IncomingArg off space) addr pty, gen_load_base_offset r addr 0 ty], b, c)
             })
        })
   }"

definition gen_retval_area_setup :: "arg_body \<Rightarrow> lower_ctx \<Rightarrow> (inst option \<times> arg_body \<times> lower_ctx) option" where
  "gen_retval_area_setup b c =
     (if body_sig b < length (sigs_of (lower_sigs c)) then
        case stack_ret_arg (sigs_of (lower_sigs c) ! body_sig b) of
          None \<Rightarrow> Some (None, b, c)
        | Some i \<Rightarrow> do {
            p \<leftarrow> ret_area_ptr b;
            (is, b, c) \<leftarrow> gen_copy_arg_to_regs i (One_reg p) b c;
            Some (case is of [] \<Rightarrow> None | x # _ \<Rightarrow> Some x, b, c)
          }
      else None)"

definition take_args :: "arg_body \<Rightarrow> inst option \<times> arg_body" where
  "take_args b = (if reg_args b \<noteq> [] then (Some (gen_args (reg_args b)), b\<lparr>reg_args := []\<rparr>) else (None, b))"

text \<open>One slot of a return value: the register pairs of the return and the instructions before it.\<close>

definition retval_slot ::
  "call_conv \<Rightarrow> mreg option \<Rightarrow> abi_arg_slot \<Rightarrow> mreg \<Rightarrow> (mreg \<times> mreg) list \<times> inst list \<Rightarrow> lower_ctx
     \<Rightarrow> (((mreg \<times> mreg) list \<times> inst list) \<times> lower_ctx) option" where
  "retval_slot cc area slot from_reg st c =
     (case slot of
        ABI_Reg r ty extension \<Rightarrow> do {
          ext \<leftarrow> get_ext_mode cc extension Arg_Loc_Reg;
          (if ext \<noteq> Ext_None \<and> ty_bits ty < word_bits then do {
             (dst, c) \<leftarrow> temp_writable_reg ty c;
             Some ((fst st @ [(dst, Real r)],
               snd st @ [gen_extend dst from_reg (ext = Ext_Sext) (word_of_nat (ty_bits ty)) 32]), c)
           } else Some ((fst st @ [(from_reg, Real r)], snd st), c))
        }
      | ABI_Stack off ty extension \<Rightarrow> do {
          assert_that (- (2 ^ 31) \<le> off \<and> off < 2 ^ 31);
          ext \<leftarrow> get_ext_mode cc extension Arg_Loc_Stack;
          (is, ty', c) \<leftarrow> (if ext \<noteq> Ext_None \<and> ty_bits ty < word_bits then do {
              assert_that (mreg_class from_reg = Int_class);
              (dst, c) \<leftarrow> temp_writable_reg ty c;
              Some ([gen_extend dst from_reg (ext = Ext_Sext) (word_of_nat (ty_bits ty)) 32], word_type, c)
            } else Some ([], ty, c));
          p \<leftarrow> area;
          Some ((fst st, snd st @ is @ [gen_store_base_offset p (word_of_int off) from_reg ty']), c)
        })"

fun retval_slots ::
  "call_conv \<Rightarrow> mreg option \<Rightarrow> (abi_arg_slot \<times> mreg) list \<Rightarrow> (mreg \<times> mreg) list \<times> inst list \<Rightarrow> lower_ctx
     \<Rightarrow> (((mreg \<times> mreg) list \<times> inst list) \<times> lower_ctx) option" where
  "retval_slots cc area [] st c = Some (st, c)"
| "retval_slots cc area ((slot, r) # ps) st c = do {
     (st, c) \<leftarrow> retval_slot cc area slot r st c;
     retval_slots cc area ps st c
   }"

definition gen_copy_regs_to_retval ::
  "nat \<Rightarrow> value_regs \<Rightarrow> arg_body \<Rightarrow> lower_ctx \<Rightarrow> (((mreg \<times> mreg) list \<times> inst list) \<times> lower_ctx) option" where
  "gen_copy_regs_to_retval idx from_regs b c = do {
     locs \<leftarrow> sig_rets (lower_sigs c) (body_sig b);
     assert_that (idx < length locs);
     (case locs ! idx of
        Arg_Slots slots _ \<Rightarrow> do {
          assert_that (length (regs_of from_regs) = length slots);
          retval_slots (sd_call_conv (sigs_of (lower_sigs c) ! body_sig b)) (ret_area_ptr b)
            (zip slots (regs_of from_regs)) ([], []) c
        }
      | _ \<Rightarrow> None)
   }"

section \<open>Lowering\<close>

fun emit_all :: "inst list \<Rightarrow> lower_ctx \<Rightarrow> lower_ctx option" where
  "emit_all [] c = Some c"
| "emit_all (i # is) c = emit_inst i c \<bind> emit_all is"

fun gen_call_output :: "ir_type list \<Rightarrow> lower_ctx \<Rightarrow> (value_regs list \<times> lower_ctx) option" where
  "gen_call_output [] c = Some ([], c)"
| "gen_call_output (ty # tys) c = do {
     (r, c) \<leftarrow> alloc_tmp ty c;
     (rs, c) \<leftarrow> gen_call_output tys c;
     Some (r # rs, c)
   }"

definition lower_gen_call_args ::
  "arg_body \<Rightarrow> nat \<Rightarrow> value_regs list \<Rightarrow> bool \<Rightarrow> lower_ctx \<Rightarrow> ((mreg \<times> mreg) list \<times> lower_ctx) option" where
  "lower_gen_call_args b sig args is_tail_call c = do {
     ((us, is), c) \<leftarrow> callee_gen_call_args b sig args is_tail_call c;
     c \<leftarrow> emit_all is c;
     Some (us, c)
   }"

definition lower_gen_call_rets ::
  "nat \<Rightarrow> value_regs list \<Rightarrow> lower_ctx \<Rightarrow> ((mreg \<times> ret_location) list \<times> lower_ctx) option" where
  "lower_gen_call_rets sig outputs c = callee_gen_call_rets sig outputs None c"

text \<open>The loop of \<open>gen_return\<close> over the return parameters, with their index.\<close>

fun return_copies ::
  "nat \<Rightarrow> abi_param list \<Rightarrow> value_regs list \<Rightarrow> arg_body \<Rightarrow> lower_ctx \<Rightarrow> ((mreg \<times> mreg) list \<times> lower_ctx) option" where
  "return_copies i [] rets b c = Some ([], c)"
| "return_copies i (p # ps) rets b c = do {
     (regs, rets) \<leftarrow> (if param_purpose p = Purpose_StructReturn then map_option (\<lambda>r. (r, rets)) (sret_reg b)
       else case rets of [] \<Rightarrow> None | r # rs \<Rightarrow> Some (r, rs));
     ((pairs, is), c) \<leftarrow> gen_copy_regs_to_retval i regs b c;
     c \<leftarrow> emit_all is c;
     (rest, c) \<leftarrow> return_copies (Suc i) ps rets b c;
     Some (pairs @ rest, c)
   }"

definition lower_gen_return :: "value_regs list \<Rightarrow> arg_body \<Rightarrow> lower_ctx \<Rightarrow> lower_ctx option" where
  "lower_gen_return rets b c = do {
     assert_that (\<not> missing_struct_return (body_ir_sig b));
     (pairs, c) \<leftarrow> return_copies 0 (sig_returns (body_ir_sig b)) rets b c;
     c \<leftarrow> (case vmctx_use b of None \<Rightarrow> Some c | Some r \<Rightarrow> emit_inst (DummyUse r) c);
     emit_inst (gen_rets pairs) c
   }"

fun put_in_regs_vec :: "nat list \<Rightarrow> lower_ctx \<Rightarrow> (value_regs list \<times> lower_ctx) option" where
  "put_in_regs_vec [] c = Some ([], c)"
| "put_in_regs_vec (v # vs) c = do {
     (r, c) \<leftarrow> put_value_in_regs v c;
     (rs, c) \<leftarrow> put_in_regs_vec vs c;
     Some (r # rs, c)
   }"

definition abi_sig :: "nat \<Rightarrow> lower_ctx \<Rightarrow> nat option" where
  "abi_sig sig_ref c = ir_sig_ref_to_abi_sig (lower_sigs c) sig_ref"

text \<open>
  The rules for \<open>call\<close>, \<open>call_indirect\<close> and \<open>return\<close>. The types are the return types of the signature that
  the reference names.
\<close>

definition lower_call ::
  "arg_body \<Rightarrow> nat \<Rightarrow> ir_type list \<Rightarrow> external_name \<Rightarrow> bool \<Rightarrow> nat list \<Rightarrow> lower_ctx
     \<Rightarrow> (value_regs list \<times> lower_ctx) option" where
  "lower_call b sig_ref ret_tys name patchable_call args c = do {
     (output, c) \<leftarrow> gen_call_output ret_tys c;
     sig \<leftarrow> abi_sig sig_ref c;
     (regs, c) \<leftarrow> put_in_regs_vec args c;
     (us, c) \<leftarrow> lower_gen_call_args b sig regs False c;
     (ds, c) \<leftarrow> lower_gen_call_rets sig output c;
     (info, c) \<leftarrow> gen_call_info sig name us ds None patchable_call c;
     c \<leftarrow> emit_inst (Call info) c;
     Some (output, c)
   }"

definition lower_call_indirect ::
  "arg_body \<Rightarrow> nat \<Rightarrow> ir_type list \<Rightarrow> nat \<Rightarrow> nat list \<Rightarrow> lower_ctx \<Rightarrow> (value_regs list \<times> lower_ctx) option" where
  "lower_call_indirect b sig_ref ret_tys ptr args c = do {
     (output, c) \<leftarrow> gen_call_output ret_tys c;
     sig \<leftarrow> abi_sig sig_ref c;
     (target, c) \<leftarrow> put_in_reg ptr c;
     (regs, c) \<leftarrow> put_in_regs_vec args c;
     (us, c) \<leftarrow> lower_gen_call_args b sig regs False c;
     (ds, c) \<leftarrow> lower_gen_call_rets sig output c;
     (info, c) \<leftarrow> gen_call_ind_info sig target us ds None c;
     c \<leftarrow> emit_inst (CallInd info) c;
     Some (output, c)
   }"

definition lower_return :: "nat list \<Rightarrow> arg_body \<Rightarrow> lower_ctx \<Rightarrow> (value_regs list \<times> lower_ctx) option" where
  "lower_return vals b c = do {
     (rets, c) \<leftarrow> put_in_regs_vec vals c;
     c \<leftarrow> lower_gen_return rets b c;
     Some ([], c)
   }"

text \<open>
  The entry of a function: the copies of the parameters that are used, the pointer of the return area,
  and the pseudo-instruction that binds the register arguments.
\<close>

fun arg_setup_copies :: "nat \<Rightarrow> (bool \<times> value_regs) list \<Rightarrow> arg_body \<Rightarrow> lower_ctx \<Rightarrow> (arg_body \<times> lower_ctx) option" where
  "arg_setup_copies i [] b c = Some (b, c)"
| "arg_setup_copies i ((unused, regs) # ps) b c =
     (if unused then arg_setup_copies (Suc i) ps b c
      else do {
        (is, b, c) \<leftarrow> gen_copy_arg_to_regs i regs b c;
        c \<leftarrow> emit_all is c;
        arg_setup_copies (Suc i) ps b c
      })"

text \<open>
  The first component is the \<open>args\<close> instruction, which is emitted in a group of its own and comes before the
  copies, since code is built backwards.
\<close>

definition gen_arg_setup ::
  "(bool \<times> value_regs) list \<Rightarrow> arg_body \<Rightarrow> lower_ctx \<Rightarrow> (inst option \<times> arg_body \<times> lower_ctx) option" where
  "gen_arg_setup params b c = do {
     (b, c) \<leftarrow> arg_setup_copies 0 params b c;
     (setup, b, c) \<leftarrow> gen_retval_area_setup b c;
     c \<leftarrow> (case setup of None \<Rightarrow> Some c | Some i \<Rightarrow> emit_inst i c);
     let (args, b) = take_args b;
     Some (args, b, c)
   }"

end
