(* ===== verification/Mach_Sigs.thy ===== *)
theory Mach_Sigs
  imports Mach_Abi
begin

text \<open>
  The table of signatures of one compilation, \<open>SigSet\<close> of \<open>src/cranelift/codegen/src/machinst/abi.rs\<close>:
  what is read back for a signature is what was computed for it, however many others share the table.
\<close>

section \<open>The slices of a table\<close>

text \<open>Every signature's slices lie in the shared vector, in order.\<close>

definition sig_bounds :: "sig_set \<Rightarrow> nat \<Rightarrow> nat" where
  "sig_bounds s k = (case k of 0 \<Rightarrow> 0 | Suc prev \<Rightarrow> args_end (sigs_of s ! prev))"

definition sig_set_ok :: "sig_set \<Rightarrow> bool" where
  "sig_set_ok s \<longleftrightarrow> sig_bounds s (length (sigs_of s)) = length (abi_args s) \<and>
     (\<forall>k < length (sigs_of s). sig_bounds s k \<le> rets_end (sigs_of s ! k) \<and>
        rets_end (sigs_of s ! k) \<le> args_end (sigs_of s ! k) \<and>
        args_end (sigs_of s ! k) \<le> length (abi_args s))"

lemma compute_arg_locs_append:
  assumes "compute_arg_locs cc m ps aor h acc = Inr (sp, pos, acc')"
  shows "\<exists>as. acc' = acc @ as \<and> compute_arg_locs cc m ps aor h [] = Inr (sp, pos, as)"
  using assms by (auto simp: compute_arg_locs_def Let_def split: if_splits sum.splits prod.splits)

lemma from_func_sig_cases:
  assumes "from_func_sig m s s0 = Some (Inr (d, s1))"
  obtains returns rets args where
    "abi_returns s = Some returns"
    "compute_arg_locs (sig_call_conv s) m returns Aor_Rets False [] = Inr (sized_stack_ret_space d, None, rets)"
    "compute_arg_locs (sig_call_conv s) m (sig_params s) Aor_Args (0 < sized_stack_ret_space d) [] =
       Inr (sized_stack_arg_space d, stack_ret_arg d, args)"
    "s1 = s0\<lparr>abi_args := abi_args s0 @ rets @ args\<rparr>" "sd_call_conv d = sig_call_conv s"
    "rets_end d = length (abi_args s0) + length rets" "args_end d = length (abi_args s0) + length rets + length args"
    "sized_stack_ret_space d \<le> STACK_ARG_RET_SIZE_LIMIT" "sized_stack_arg_space d \<le> STACK_ARG_RET_SIZE_LIMIT"
proof -
  obtain returns where r: "abi_returns s = Some returns"
    using assms by (auto simp: from_func_sig_def bind_eq_Some_conv)
  obtain ret_space p1 args1 where
    c1: "compute_arg_locs (sig_call_conv s) m returns Aor_Rets False (abi_args s0) = Inr (ret_space, p1, args1)"
    using assms r
    by (cases "compute_arg_locs (sig_call_conv s) m returns Aor_Rets False (abi_args s0)")
       (auto simp: from_func_sig_def)
  obtain arg_space pos args2 where
    c2: "compute_arg_locs (sig_call_conv s) m (sig_params s) Aor_Args (0 < ret_space) args1 = Inr (arg_space, pos, args2)"
    using assms r c1
    by (cases "compute_arg_locs (sig_call_conv s) m (sig_params s) Aor_Args (0 < ret_space) args1")
       (auto simp: from_func_sig_def split: if_splits)
  have d: "d = \<lparr>args_end = length args2, rets_end = length args1, sized_stack_arg_space = arg_space,
      sized_stack_ret_space = ret_space, stack_ret_arg = pos, sd_call_conv = sig_call_conv s\<rparr>"
    "s1 = s0\<lparr>abi_args := args2\<rparr>" "ret_space \<le> STACK_ARG_RET_SIZE_LIMIT" "arg_space \<le> STACK_ARG_RET_SIZE_LIMIT"
    using assms r c1 c2 by (auto simp: from_func_sig_def split: if_splits)
  obtain rets where rets: "args1 = abi_args s0 @ rets"
    "compute_arg_locs (sig_call_conv s) m returns Aor_Rets False [] = Inr (ret_space, p1, rets)"
    using compute_arg_locs_append [OF c1] by blast
  obtain args where args: "args2 = args1 @ args"
    "compute_arg_locs (sig_call_conv s) m (sig_params s) Aor_Args (0 < ret_space) [] = Inr (arg_space, pos, args)"
    using compute_arg_locs_append [OF c2] by blast
  have "p1 = None" using rets(2) by (auto simp: compute_arg_locs_def Let_def split: if_splits sum.splits prod.splits)
  then show thesis using r rets args d by (intro that [of returns rets args]) simp_all
qed

lemma slice_append: "stop \<le> length xs \<Longrightarrow> slice start stop (xs @ ys) = slice start stop xs"
  by (simp add: slice_def)

lemma slice_middle:
  "start = length xs \<Longrightarrow> stop = length xs + length ys \<Longrightarrow> slice start stop (xs @ ys @ zs) = Some ys"
  by (simp add: slice_def)

section \<open>The ABI of an entry\<close>

text \<open>Entry \<open>sig\<close> of the table holds the locations, the stack space and the convention of the signature.\<close>

definition has_abi :: "bool \<Rightarrow> signature \<Rightarrow> sig_set \<Rightarrow> nat \<Rightarrow> bool" where
  "has_abi m s S sig \<longleftrightarrow> sig < length (sigs_of S) \<and> sd_call_conv (sigs_of S ! sig) = sig_call_conv s \<and>
     sized_stack_ret_space (sigs_of S ! sig) \<le> STACK_ARG_RET_SIZE_LIMIT \<and>
     sized_stack_arg_space (sigs_of S ! sig) \<le> STACK_ARG_RET_SIZE_LIMIT \<and>
     (\<exists>returns rets args. abi_returns s = Some returns \<and> sig_rets S sig = Some rets \<and> sig_args S sig = Some args \<and>
        compute_arg_locs (sig_call_conv s) m returns Aor_Rets False [] =
          Inr (sized_stack_ret_space (sigs_of S ! sig), None, rets) \<and>
        compute_arg_locs (sig_call_conv s) m (sig_params s) Aor_Args (0 < sized_stack_ret_space (sigs_of S ! sig)) [] =
          Inr (sized_stack_arg_space (sigs_of S ! sig), stack_ret_arg (sigs_of S ! sig), args))"

text \<open>Adding an entry keeps the table in order, gives the entry its ABI and leaves every other entry as it was.\<close>

lemma added_signature:
  assumes "sig_set_ok s0" "from_func_sig m s s0 = Some (Inr (d, s'))"
    and s1: "sigs_of s1 = sigs_of s' @ [d]" "abi_args s1 = abi_args s'"
  shows "sig_set_ok s1" "has_abi m s s1 (length (sigs_of s0))"
    "sigs_of s' = sigs_of s0" "ir_sig_ref_to_abi_sig s' = ir_sig_ref_to_abi_sig s0"
    "\<And>q k. has_abi m q s0 k \<Longrightarrow> has_abi m q s1 k"
proof -
  obtain returns rets args where c: "abi_returns s = Some returns"
    "compute_arg_locs (sig_call_conv s) m returns Aor_Rets False [] = Inr (sized_stack_ret_space d, None, rets)"
    "compute_arg_locs (sig_call_conv s) m (sig_params s) Aor_Args (0 < sized_stack_ret_space d) [] =
       Inr (sized_stack_arg_space d, stack_ret_arg d, args)"
    and s': "s' = s0\<lparr>abi_args := abi_args s0 @ rets @ args\<rparr>"
    and e: "rets_end d = length (abi_args s0) + length rets" "args_end d = length (abi_args s0) + length rets + length args"
    and lim: "sd_call_conv d = sig_call_conv s"
      "sized_stack_ret_space d \<le> STACK_ARG_RET_SIZE_LIMIT" "sized_stack_arg_space d \<le> STACK_ARG_RET_SIZE_LIMIT"
    using from_func_sig_cases [OF assms(2)] by metis
  let ?n = "length (sigs_of s0)"
  show "sigs_of s' = sigs_of s0" "ir_sig_ref_to_abi_sig s' = ir_sig_ref_to_abi_sig s0" by (simp_all add: s')
  have t: "sigs_of s1 = sigs_of s0 @ [d]" "abi_args s1 = abi_args s0 @ rets @ args" by (simp_all add: s1 s')
  have ok: "sig_bounds s0 ?n = length (abi_args s0)"
    "\<forall>k < ?n. sig_bounds s0 k \<le> rets_end (sigs_of s0 ! k) \<and> rets_end (sigs_of s0 ! k) \<le> args_end (sigs_of s0 ! k) \<and>
       args_end (sigs_of s0 ! k) \<le> length (abi_args s0)"
    using assms(1) by (simp_all add: sig_set_ok_def)
  have b: "sig_bounds s1 k = sig_bounds s0 k" if "k \<le> ?n" for k
    using that by (auto simp: sig_bounds_def t nth_append split: nat.splits)
  have old: "sig_args s1 k = sig_args s0 k \<and> sig_rets s1 k = sig_rets s0 k" if k: "k < ?n" for k
  proof -
    have le: "rets_end (sigs_of s0 ! k) \<le> length (abi_args s0)" "args_end (sigs_of s0 ! k) \<le> length (abi_args s0)"
      using ok(2) k by auto
    have "(case k of 0 \<Rightarrow> 0 | Suc prev \<Rightarrow> args_end (sigs_of s1 ! prev)) = sig_bounds s0 k"
      using b [of k] k by (simp add: sig_bounds_def)
    then show ?thesis
      using k le by (simp add: sig_args_def sig_rets_def t nth_append slice_append sig_bounds_def)
  qed
  have "sig_rets s1 ?n = slice (sig_bounds s1 ?n) (rets_end d) (abi_args s1)"
    by (simp add: sig_rets_def t sig_bounds_def)
  also have "\<dots> = Some rets" using b [of ?n] ok(1) by (simp add: t e slice_middle)
  finally have rets: "sig_rets s1 ?n = Some rets" .
  have args: "sig_args s1 ?n = Some args"
    using slice_middle [of "rets_end d" "abi_args s0 @ rets" "args_end d" args "[]"]
    by (simp add: sig_args_def t e)
  show "sig_set_ok s1"
    using ok b unfolding sig_set_ok_def t by (auto simp: nth_append less_Suc_eq e sig_bounds_def t(1))
  show "has_abi m s s1 ?n" using c rets args lim by (simp add: has_abi_def t)
  show "has_abi m q s1 k" if "has_abi m q s0 k" for q k
    using that old [of k] by (simp add: has_abi_def t nth_append)
qed

section \<open>Interning\<close>

definition refs_ok :: "bool \<Rightarrow> signature list \<Rightarrow> sig_set \<Rightarrow> bool" where
  "refs_ok m signatures S \<longleftrightarrow> sig_set_ok S \<and>
     (\<forall>r sig. ir_sig_ref_to_abi_sig S r = Some sig \<longrightarrow> r < length signatures \<and> has_abi m (signatures ! r) S sig)"

lemma sig_ref_interned:
  assumes "refs_ok m signatures s0" "make_abi_sig_from_ir_sig_ref m r signatures s0 = Some (Inr (sig, s1))"
  shows "refs_ok m signatures s1 \<and> ir_sig_ref_to_abi_sig s1 r \<noteq> None \<and>
    (\<forall>k. ir_sig_ref_to_abi_sig s0 k \<noteq> None \<longrightarrow> ir_sig_ref_to_abi_sig s1 k \<noteq> None) \<and>
    (\<forall>q k. has_abi m q s0 k \<longrightarrow> has_abi m q s1 k)"
proof (cases "ir_sig_ref_to_abi_sig s0 r")
  case (Some x)
  then show ?thesis using assms by (simp add: make_abi_sig_from_ir_sig_ref_def)
next
  case None
  obtain d s' where d: "r < length signatures" "from_func_sig m (signatures ! r) s0 = Some (Inr (d, s'))"
    "s1 = s'\<lparr>sigs_of := sigs_of s' @ [d],
       ir_sig_ref_to_abi_sig := (ir_sig_ref_to_abi_sig s')(r \<mapsto> length (sigs_of s'))\<rparr>"
    using assms(2) None
    by (cases "from_func_sig m (signatures ! r) s0"; cases "the (from_func_sig m (signatures ! r) s0)")
       (auto simp: make_abi_sig_from_ir_sig_ref_def assert_that_def Let_def split: if_splits)
  have s0: "sig_set_ok s0" using assms(1) by (simp add: refs_ok_def)
  have s1: "sigs_of s1 = sigs_of s' @ [d]" "abi_args s1 = abi_args s'" by (simp_all add: d(3))
  note add = added_signature [OF s0 d(2) s1]
  have m: "ir_sig_ref_to_abi_sig s1 = (ir_sig_ref_to_abi_sig s0)(r \<mapsto> length (sigs_of s0))"
    using add(3,4) by (simp add: d(3))
  have "refs_ok m signatures s1" using assms(1) add(1,2,5) d(1) by (auto simp: refs_ok_def m)
  then show ?thesis using add(5) by (simp add: m)
qed

lemma sig_refs_interned:
  assumes "intern_sig_refs m rs signatures s0 = Some (Inr s1)" "refs_ok m signatures s0"
  shows "refs_ok m signatures s1 \<and> (\<forall>r \<in> set rs. ir_sig_ref_to_abi_sig s1 r \<noteq> None) \<and>
    (\<forall>k. ir_sig_ref_to_abi_sig s0 k \<noteq> None \<longrightarrow> ir_sig_ref_to_abi_sig s1 k \<noteq> None) \<and>
    (\<forall>q k. has_abi m q s0 k \<longrightarrow> has_abi m q s1 k)"
  using assms
proof (induction rs arbitrary: s0)
  case (Cons r rs)
  obtain sig s2 where s2: "make_abi_sig_from_ir_sig_ref m r signatures s0 = Some (Inr (sig, s2))"
    "intern_sig_refs m rs signatures s2 = Some (Inr s1)"
    using Cons.prems(1)
    by (cases "make_abi_sig_from_ir_sig_ref m r signatures s0"; cases "the (make_abi_sig_from_ir_sig_ref m r signatures s0)") auto
  note i = sig_ref_interned [OF Cons.prems(2) s2(1)]
  show ?case using Cons.IH [OF s2(2)] i by (metis set_ConsD)
qed simp

text \<open>
  The table of a compilation gives the function's own signature the entry 0, and every declared signature
  an entry with its ABI.
\<close>

lemma sig_set_new_abi:
  assumes "sig_set_new m f signatures = Some (Inr S)"
  shows "has_abi m f S 0"
    "r < length signatures \<Longrightarrow> \<exists>sig. ir_sig_ref_to_abi_sig S r = Some sig \<and> has_abi m (signatures ! r) S sig"
proof -
  let ?s0 = "\<lparr>ir_signature_to_abi_sig = (\<lambda>_. None), ir_sig_ref_to_abi_sig = (\<lambda>_. None), abi_args = [], sigs_of = []\<rparr>"
  obtain d s' s1 where d: "from_func_sig m f ?s0 = Some (Inr (d, s'))"
    "s1 = s'\<lparr>sigs_of := sigs_of s' @ [d], ir_signature_to_abi_sig := (ir_signature_to_abi_sig s')(f \<mapsto> length (sigs_of s'))\<rparr>"
    "intern_sig_refs m [0..<length signatures] signatures s1 = Some (Inr S)"
    using assms
    by (auto simp: sig_set_new_def make_abi_sig_from_ir_signature_def bind_eq_Some_conv Let_def split: sum.split_asm)
  have s1: "sigs_of s1 = sigs_of s' @ [d]" "abi_args s1 = abi_args s'" by (simp_all add: d(2))
  have "sig_set_ok ?s0" by (simp add: sig_set_ok_def sig_bounds_def)
  note add = added_signature [OF this d(1) s1]
  have "refs_ok m signatures s1" using add(1,4) by (simp add: refs_ok_def d(2))
  from sig_refs_interned [OF d(3) this] have i: "refs_ok m signatures S" "\<And>r. r < length signatures \<Longrightarrow> ir_sig_ref_to_abi_sig S r \<noteq> None"
    "\<And>q k. has_abi m q s1 k \<Longrightarrow> has_abi m q S k" by auto
  show "has_abi m f S 0" using i(3) add(2) by simp
  show "\<exists>sig. ir_sig_ref_to_abi_sig S r = Some sig \<and> has_abi m (signatures ! r) S sig" if "r < length signatures"
    using i(2) [OF that] i(1) by (auto simp: refs_ok_def)
qed

end
