(* ===== verification/Sia32_Call_Correct.thy ===== *)
theory Sia32_Call_Correct
  imports Sia32_Call Mach_Sigs
begin

text \<open>
  A call delivers its arguments and its results: what the caller puts into registers and onto the stack is
  what the callee reads, slot by slot, and the same for results. The meaning of the stack addressing modes is
  relative to the stack pointer at the call, at which the outgoing area of the caller and the incoming area
  of the callee both start.
\<close>

section \<open>Slots\<close>

fun arg_slots :: "abi_arg \<Rightarrow> abi_arg_slot list" where
  "arg_slots (Arg_Slots ss _) = ss"
| "arg_slots _ = []"

fun is_slots :: "abi_arg \<Rightarrow> bool" where
  "is_slots (Arg_Slots _ _) = True"
| "is_slots _ = False"

fun slot_reg :: "abi_arg_slot \<Rightarrow> preg option" where
  "slot_reg (ABI_Reg r _ _) = Some r"
| "slot_reg _ = None"

fun slot_off :: "abi_arg_slot \<Rightarrow> int option" where
  "slot_off (ABI_Stack off _ _) = Some off"
| "slot_off _ = None"

lemma slot_type_parts: "fst (slot_parts s) = slot_type s"
  by (cases s) simp_all

text \<open>Where the placement of arguments puts them.\<close>

lemma preg_real_inj: "m < 16 \<Longrightarrow> n < 16 \<Longrightarrow> preg_real m = preg_real n \<Longrightarrow> m = n"
  by (metis preg_real_enc)

definition slots_in :: "cursor \<Rightarrow> cursor \<Rightarrow> abi_arg_slot list \<Rightarrow> bool" where
  "slots_in k k' ss \<longleftrightarrow> next_reg k \<le> next_reg k' \<and> next_stack k \<le> next_stack k' \<and> 4 dvd next_stack k' \<and>
     (\<forall>s \<in> set ss. slot_type s = ty_I32) \<and>
     set (List.map_filter slot_reg ss) \<subseteq> preg_real ` ({next_reg k..<next_reg k'} \<inter> {..6}) \<and>
     set (List.map_filter slot_off ss) \<subseteq> {off. 4 dvd off} \<inter> {int (next_stack k)..<int (next_stack k')} \<and>
     distinct (List.map_filter slot_reg ss) \<and> distinct (List.map_filter slot_off ss)"

lemma map_filter_append [simp]: "List.map_filter f (xs @ ys) = List.map_filter f xs @ List.map_filter f ys"
  by (induction xs) (auto simp: List.map_filter_simps split: option.splits)

lemma slots_in_append:
  assumes "slots_in k k1 xs" "slots_in k1 k2 ys" shows "slots_in k k2 (xs @ ys)"
proof -
  let ?R = "\<lambda>k k'. preg_real ` ({next_reg k..<next_reg k'} \<inter> {..6 :: nat})"
  let ?O = "\<lambda>k k'. {off. 4 dvd off} \<inter> {int (next_stack k)..<int (next_stack k')}"
  note x = assms(1) [unfolded slots_in_def] and y = assms(2) [unfolded slots_in_def]
  have R: "?R k k1 \<subseteq> ?R k k2" "?R k1 k2 \<subseteq> ?R k k2" using x y by (intro image_mono, force)+
  have O: "?O k k1 \<subseteq> ?O k k2" "?O k1 k2 \<subseteq> ?O k k2" using x y by force+
  have "?R k k1 \<inter> ?R k1 k2 = {}"
  proof (intro equals0I, elim IntE imageE)
    fix r m n assume "r = preg_real m" "r = preg_real n" "m \<in> {next_reg k..<next_reg k1} " "m \<in> {..6}" "n \<in> {next_reg k1..<next_reg k2}" "n \<in> {..6}"
    then show False using preg_real_inj [of m n] by simp
  qed
  moreover have "?O k k1 \<inter> ?O k1 k2 = {}" by auto
  ultimately have "set (List.map_filter slot_reg xs) \<inter> set (List.map_filter slot_reg ys) = {}"
    "set (List.map_filter slot_off xs) \<inter> set (List.map_filter slot_off ys) = {}" using x y by blast+
  then have "distinct (List.map_filter slot_reg (xs @ ys))" "distinct (List.map_filter slot_off (xs @ ys))" using x y by simp_all
  moreover have "set (List.map_filter slot_reg xs) \<subseteq> ?R k k1" "set (List.map_filter slot_reg ys) \<subseteq> ?R k1 k2"
    "set (List.map_filter slot_off xs) \<subseteq> ?O k k1" "set (List.map_filter slot_off ys) \<subseteq> ?O k1 k2" using x y by blast+
  then have "set (List.map_filter slot_reg (xs @ ys)) \<subseteq> ?R k k2" "set (List.map_filter slot_off (xs @ ys)) \<subseteq> ?O k k2"
    unfolding map_filter_append set_append using R O by blast+
  moreover have "\<forall>s \<in> set (xs @ ys). slot_type s = ty_I32" using x y by auto
  ultimately show ?thesis using x y unfolding slots_in_def by (meson le_trans)
qed

lemma rc_for_type_tys: "rc_for_type ty = Inr (rcs, tys) \<Longrightarrow> tys = [ty_I32] \<or> tys = [ty_I32, ty_I32]"
  by (auto simp: rc_for_type_def split: if_splits)

lemma reg_slots_in:
  assumes "tys = [ty_I32] \<or> tys = [ty_I32, ty_I32]" "next_reg k \<le> nr" "nr + length tys - 1 \<le> 6" "4 dvd next_stack k"
  shows "slots_in k (k\<lparr>next_reg := nr + length tys\<rparr>) (reg_slots p tys nr)"
  using assms preg_real_inj [of nr "nr + 1"] by (auto simp: slots_in_def reg_slots_def List.map_filter_simps)

lemma stack_slots_in:
  assumes "tys = [ty_I32] \<or> tys = [ty_I32, ty_I32]" "next_stack k \<le> off" "4 dvd off" "next_reg k \<le> nr"
  shows "slots_in k (k\<lparr>next_reg := nr, stack_only := so, next_stack := off + (if length tys = 2 then 8 else 4)\<rparr>) (stack_slots p tys off)"
proof -
  have "4 dvd (int off + 4)" "4 dvd int off" using assms(3) by (simp_all add: dvd_add int_dvd_int_iff [of 4 off, simplified])
  then show ?thesis using assms by (auto simp: slots_in_def stack_slots_def List.map_filter_simps algebra_simps)
qed

lemma arg_step_cases:
  assumes "arg_step multi aor p k = Inr (a, k1)"
  obtains rcs tys nr where "rc_for_type (abi_param.value_type p) = Inr (rcs, tys)" "next_reg k \<le> nr"
      "nr + length tys - 1 \<le> 6" "a = Arg_Slots (reg_slots p tys nr) (param_purpose p)" "k1 = k\<lparr>next_reg := nr + length tys\<rparr>"
    | rcs tys nr so where "rc_for_type (abi_param.value_type p) = Inr (rcs, tys)" "next_reg k \<le> nr"
      "a = Arg_Slots (stack_slots p tys (align_to (next_stack k) (if length tys = 2 then 8 else 4))) (param_purpose p)"
      "k1 = k\<lparr>next_reg := nr, stack_only := so,
         next_stack := align_to (next_stack k) (if length tys = 2 then 8 else 4) + (if length tys = 2 then 8 else 4)\<rparr>"
proof -
  obtain rcs tys where rc: "rc_for_type (abi_param.value_type p) = Inr (rcs, tys)"
    and np: "\<And>n. param_purpose p \<noteq> Purpose_StructArgument n"
    using assms by (auto simp: arg_step_def split: argument_purpose.splits sum.splits)
  define nr where "nr = (if length tys = 2 \<and> next_reg k mod 2 = 0 then next_reg k + 1 else next_reg k)"
  define reg_last where "reg_last = (case aor of Aor_Args \<Rightarrow> 6 | Aor_Rets \<Rightarrow> (2 :: nat))"
  define fits where "fits = (\<not> stack_only k \<and> nr \<le> reg_last \<and> nr + length tys - 1 \<le> reg_last)"
  have nr: "next_reg k \<le> nr" and last: "reg_last \<le> 6" by (simp_all add: nr_def reg_last_def split: args_or_rets.splits)
  have step: "arg_step multi aor p k =
      (if fits then Inr (Arg_Slots (reg_slots p tys nr) (param_purpose p), k\<lparr>next_reg := nr + length tys\<rparr>)
       else if aor = Aor_Rets \<and> \<not> multi
       then Inl (Unsupported ''SIA32 return values exceed r1:r2; enable implicit sret or use StructReturn'')
       else let off = align_to (next_stack k) (if length tys = 2 then 8 else 4)
            in Inr (Arg_Slots (stack_slots p tys off) (param_purpose p),
                 k\<lparr>next_reg := nr, stack_only := stack_only k \<or> aor = Aor_Args,
                   next_stack := off + (if length tys = 2 then 8 else 4)\<rparr>))"
  proof (cases "param_purpose p")
    case (Purpose_StructArgument n)
    then show ?thesis using np by blast
  qed (unfold arg_step_def rc fits_def nr_def reg_last_def Let_def,
       simp_all only: argument_purpose.case sum.case prod.case)
  show thesis
  proof (cases fits)
    case True
    then show thesis using that(1) [OF rc nr] assms last by (simp add: step fits_def)
  next
    case False
    then show thesis using that(2) [OF rc nr] assms by (auto simp: step Let_def split: if_splits)
  qed
qed

lemma arg_step_slots:
  assumes "arg_step multi aor p k = Inr (a, k1)" "4 dvd next_stack k"
  shows "is_slots a \<and> slots_in k k1 (arg_slots a)"
  using assms(1)
proof (cases rule: arg_step_cases)
  case (1 rcs tys nr)
  then show ?thesis using reg_slots_in [OF rc_for_type_tys [OF 1(1)] 1(2,3) assms(2)] by simp
next
  case (2 rcs tys nr so)
  let ?off = "align_to (next_stack k) (if length tys = 2 then 8 else 4)"
  have "next_stack k \<le> ?off" using align_to_ge [of 4 "next_stack k"] align_to_ge [of 8 "next_stack k"] by simp
  moreover have "4 dvd ?off" by (simp add: align_to_def dvd_mult)
  ultimately show ?thesis using stack_slots_in [OF rc_for_type_tys [OF 2(1)] _ _ 2(2)] 2(3,4) by simp
qed

lemma arg_loop_slots:
  assumes "arg_loop multi aor ps k = Inr (as, k')" "4 dvd next_stack k"
  shows "(\<forall>a \<in> set as. is_slots a) \<and> length as = length ps \<and> slots_in k k' (concat (map arg_slots as))"
  using assms
proof (induction ps arbitrary: k as)
  case (Cons p ps)
  then obtain a k1 as1 where st: "arg_step multi aor p k = Inr (a, k1)" "arg_loop multi aor ps k1 = Inr (as1, k')" "as = a # as1"
    by (auto split: sum.splits)
  have a: "is_slots a" "slots_in k k1 (arg_slots a)" using arg_step_slots [OF st(1) Cons.prems(2)] by simp_all
  then have "4 dvd next_stack k1" by (simp add: slots_in_def)
  from Cons.IH [OF st(2) this] a show ?case by (auto simp: st(3) intro: slots_in_append)
qed (auto simp: slots_in_def)

section \<open>Running the setup\<close>

text \<open>
  \<open>sp\<close> is the stack pointer at the call. Only the instructions that the setup uses have a meaning here;
  \<open>None\<close> also stands for a misaligned access.
\<close>

text \<open>
  \<open>Args\<close> moves the registers of the convention into the virtual registers of the parameters, all at once.
\<close>

definition move_regs :: "(mreg \<times> mreg) list \<Rightarrow> vstate \<Rightarrow> vstate" where
  "move_regs ps s = s\<lparr>vr := (\<lambda>r. case map_of ps r of Some p \<Rightarrow> vr s p | None \<Rightarrow> vr s r)\<rparr>"

definition cstep :: "u32 \<Rightarrow> inst \<Rightarrow> vstate \<Rightarrow> vstate option" where
  "cstep sp i s =
     (case i of
        StoreStack v (OutgoingArg off) ty \<Rightarrow>
          if ty = ty_I32 \<and> aligned4 (sp + word_of_int off) then Some (vstore32 (sp + word_of_int off) (vr s v) s) else None
      | LoadStack d (IncomingArg off _) ty \<Rightarrow>
          if ty = ty_I32 \<and> aligned4 (sp + word_of_int off) then Some (set_vr d (vload32 s (sp + word_of_int off)) s) else None
      | StackAddr d (OutgoingArg off) \<Rightarrow> Some (set_vr d (sp + word_of_int off) s)
      | Args ps \<Rightarrow> Some (move_regs ps s)
      | DummyUse _ \<Rightarrow> Some s
      | StoreBaseOffset a b off ty \<Rightarrow>
          if ty = ty_I32 \<and> aligned4 (vr s b + off) then Some (vstore32 (vr s b + off) (vr s a) s) else None
      | _ \<Rightarrow> None)"

fun crun :: "u32 \<Rightarrow> inst list \<Rightarrow> vstate \<Rightarrow> vstate option" where
  "crun sp [] s = Some s"
| "crun sp (i # is) s = cstep sp i s \<bind> crun sp is"

lemma crun_append: "crun sp (is @ js) s = crun sp is s \<bind> crun sp js"
proof (induction "is" arbitrary: s)
  case (Cons i "is")
  then show ?case by (cases "cstep sp i s") simp_all
qed simp

lemma cstep_simps [simp]:
  "cstep sp (StoreStack v (OutgoingArg off) ty_I32) s =
     (if aligned4 (sp + word_of_int off) then Some (vstore32 (sp + word_of_int off) (vr s v) s) else None)"
  "cstep sp (LoadStack d (IncomingArg off n) ty_I32) s =
     (if aligned4 (sp + word_of_int off) then Some (set_vr d (vload32 s (sp + word_of_int off)) s) else None)"
  "cstep sp (StackAddr d (OutgoingArg off)) s = Some (set_vr d (sp + word_of_int off) s)"
  "cstep sp (Args ps) s = Some (move_regs ps s)" "cstep sp (DummyUse r) s = Some s"
  "cstep sp (StoreBaseOffset a b w ty_I32) s =
     (if aligned4 (vr s b + w) then Some (vstore32 (vr s b + w) (vr s a) s) else None)"
  by (simp_all add: cstep_def)

lemma vstore32_vr [simp]: "vr (vstore32 a v s) r = vr s r"
  by (simp add: vstore32_def)

lemma vload32_set_vr [simp]: "vload32 (set_vr d v s) a = vload32 s a"
  by (simp add: vload32_def set_vr_def)

lemma aligned4_take_bit: "aligned4 a \<longleftrightarrow> take_bit 2 a = 0"
  by (simp add: aligned4_def take_bit_eq_mask mask_eq_exp_minus_1)

lemma aligned4_add_low: "aligned4 a \<Longrightarrow> take_bit 2 (a + i) = take_bit 2 i"
proof (rule word_uint_eqI)
  assume a: "aligned4 a"
  have tb: "uint (take_bit 2 w) = uint w mod 4" for w :: u32
    unfolding unsigned_take_bit_eq by (simp add: take_bit_eq_mod)
  have "uint a mod 4 = 0" using a tb [of a] by (simp add: aligned4_take_bit)
  then have "(uint a + uint i) mod 4 = uint i mod 4" using mod_add_left_eq [of "uint a" 4 "uint i"] by simp
  moreover have "uint (a + i) mod 4 = (uint a + uint i) mod 4"
    using uint_word_ariths(1) [of a i] mod_mod_cancel [of 4 "2 ^ 32" "uint a + uint i"] by simp
  ultimately show "uint (take_bit 2 (a + i)) = uint (take_bit 2 i)" by (simp add: tb)
qed

lemma aligned4_byte_eq:
  assumes "aligned4 a" "aligned4 b" "i < 4" "j < 4" "a + i = b + j" shows "i = j \<and> a = b"
proof -
  have small: "take_bit 2 w = w" if "w < 4" for w :: u32
  proof (rule word_uint_eqI)
    have "uint w < 4" using that by (simp add: word_less_def)
    then show "uint (take_bit 2 w) = uint w" unfolding unsigned_take_bit_eq by (simp add: take_bit_eq_mod)
  qed
  have "take_bit 2 i = i" "take_bit 2 j = j" using small assms(3,4) by blast+
  then have "i = j" using aligned4_add_low [OF assms(1), of i] aligned4_add_low [OF assms(2), of j] assms(5) by simp
  then show ?thesis using assms(5) by simp
qed

lemma vload32_vstore32:
  assumes "aligned4 a" "aligned4 b" shows "vload32 (vstore32 a v s) b = (if a = b then v else vload32 s b)"
proof (cases "a = b")
  case True
  then show ?thesis by (simp add: vload32_def vstore32_def u32_le_bytes_roundtrip u32_to_le_bytes_def)
next
  case False
  then have "b + j \<noteq> a + i" if "i < 4" "j < 4" for i j using aligned4_byte_eq [OF assms that] by metis
  from this [of 0 0] this [of 0 1] this [of 0 2] this [of 0 3] this [of 1 0] this [of 1 1] this [of 1 2] this [of 1 3]
    this [of 2 0] this [of 2 1] this [of 2 2] this [of 2 3] this [of 3 0] this [of 3 1] this [of 3 2] this [of 3 3]
  show ?thesis using False by (simp add: vload32_def vstore32_def)
qed

section \<open>The setup of word-sized slots\<close>

definition reg_pairs :: "(abi_arg_slot \<times> mreg) list \<Rightarrow> (mreg \<times> mreg) list" where
  "reg_pairs ps = List.map_filter (\<lambda>(s, v). map_option (\<lambda>r. (v, Real r)) (slot_reg s)) ps"

definition stack_insts :: "(mreg \<Rightarrow> int \<Rightarrow> inst) \<Rightarrow> (abi_arg_slot \<times> mreg) list \<Rightarrow> inst list" where
  "stack_insts mk ps = List.map_filter (\<lambda>(s, v). map_option (\<lambda>off. mk v off) (slot_off s)) ps"

lemma pairs_simps [simp]:
  "reg_pairs [] = []" "reg_pairs (xs @ ys) = reg_pairs xs @ reg_pairs ys"
  "reg_pairs ((ABI_Reg r ty e, v) # ps) = (v, Real r) # reg_pairs ps"
  "reg_pairs ((ABI_Stack off ty e, v) # ps) = reg_pairs ps"
  "stack_insts mk [] = []" "stack_insts mk (xs @ ys) = stack_insts mk xs @ stack_insts mk ys"
  "stack_insts mk ((ABI_Reg r ty e, v) # ps) = stack_insts mk ps"
  "stack_insts mk ((ABI_Stack off ty e, v) # ps) = mk v off # stack_insts mk ps"
  by (simp_all add: reg_pairs_def stack_insts_def List.map_filter_simps)

lemma get_ext_mode_sysv [simp]: "get_ext_mode CC_SystemV ext loc = Some ext"
  by (simp add: get_ext_mode_def ensure_call_conv_def)

lemma word_slot_bits [simp]: "\<not> ty_bits ty_I32 < word_bits"
  by code_simp

definition words :: "abi_arg_slot list \<Rightarrow> bool" where
  "words ss \<longleftrightarrow> (\<forall>s \<in> set ss. slot_type s = ty_I32)"

lemma words_simps [simp]: "words []" "words (s # ss) \<longleftrightarrow> slot_type s = ty_I32 \<and> words ss" "words (xs @ ys) \<longleftrightarrow> words xs \<and> words ys"
  by (auto simp: words_def)

text \<open>No location of this ABI is narrower than a word, so nothing is ever extended.\<close>

lemma call_slots_words:
  "words (map fst ps) \<Longrightarrow> call_slots CC_SystemV sa ps (us, is) c =
     Some ((us @ reg_pairs ps, is @ stack_insts (\<lambda>v off. StoreStack v (sa off) ty_I32) ps), c)"
proof (induction ps arbitrary: us "is")
  case (Cons p ps)
  obtain s v where p: "p = (s, v)" by force
  show ?case using Cons by (cases s) (simp_all add: p call_slot_def gen_store_stack_def)
qed simp

lemma copy_arg_slots_words:
  "words (map fst ps) \<Longrightarrow> copy_arg_slots CC_SystemV space ps (ras, is) =
     Some (ras @ reg_pairs ps, is @ stack_insts (\<lambda>v off. LoadStack v (IncomingArg off space) ty_I32) ps)"
proof (induction ps arbitrary: ras "is")
  case (Cons p ps)
  obtain s v where p: "p = (s, v)" by force
  show ?case using Cons by (cases s) (simp_all add: p copy_arg_slot_def gen_load_stack_def)
qed simp

lemma retval_slots_words:
  assumes "words (map fst ps)" "\<And>off. off \<in> set (List.map_filter slot_off (map fst ps)) \<Longrightarrow> - (2 ^ 31) \<le> off \<and> off < 2 ^ 31"
    and "List.map_filter slot_off (map fst ps) \<noteq> [] \<Longrightarrow> area = Some p"
  shows "retval_slots CC_SystemV area ps (prs, is) c =
     Some ((prs @ reg_pairs ps, is @ stack_insts (\<lambda>v off. StoreBaseOffset v p (word_of_int off) ty_I32) ps), c)"
  using assms
proof (induction ps arbitrary: prs "is")
  case (Cons q ps)
  obtain s v where q: "q = (s, v)" by force
  show ?case using Cons
    by (cases s) (simp_all add: q retval_slot_def gen_store_base_offset_def List.map_filter_simps)
qed simp

text \<open>The arguments of a call as one list of slots with their registers.\<close>

definition arg_pairs :: "(abi_arg \<times> value_regs) list \<Rightarrow> (abi_arg_slot \<times> mreg) list" where
  "arg_pairs as = concat (map (\<lambda>(a, r). zip (arg_slots a) (regs_of r)) as)"

definition args_match :: "(abi_arg \<times> value_regs) list \<Rightarrow> bool" where
  "args_match as \<longleftrightarrow> (\<forall>(a, r) \<in> set as. is_slots a \<and> words (arg_slots a) \<and> length (regs_of r) = length (arg_slots a))"

lemma args_match_simps [simp]:
  "args_match []" "args_match ((a, r) # as) \<longleftrightarrow> is_slots a \<and> words (arg_slots a) \<and> length (regs_of r) = length (arg_slots a) \<and> args_match as"
  by (auto simp: args_match_def)

lemma arg_pairs_simps [simp]:
  "arg_pairs [] = []" "arg_pairs ((a, r) # as) = zip (arg_slots a) (regs_of r) @ arg_pairs as"
  "arg_pairs (xs @ ys) = arg_pairs xs @ arg_pairs ys"
  by (simp_all add: arg_pairs_def)

lemma call_args_words:
  assumes "args_match as"
  shows "call_struct_args cc sa as st c = Some (st, c)"
    and "call_plain_args CC_SystemV sa as (us, is) c =
      Some ((us @ reg_pairs (arg_pairs as), is @ stack_insts (\<lambda>v off. StoreStack v (sa off) ty_I32) (arg_pairs as)), c)"
proof -
  show "call_struct_args cc sa as st c = Some (st, c)" using assms
  proof (induction as)
    case (Cons x as)
    then show ?case by (cases x; cases "fst x") auto
  qed simp
  show "call_plain_args CC_SystemV sa as (us, is) c =
      Some ((us @ reg_pairs (arg_pairs as), is @ stack_insts (\<lambda>v off. StoreStack v (sa off) ty_I32) (arg_pairs as)), c)"
    using assms
  proof (induction as arbitrary: us "is")
    case (Cons x as)
    obtain ss pu r where x: "x = (Arg_Slots ss pu, r)" using Cons.prems by (cases x; cases "fst x") auto
    show ?case using Cons by (simp add: x call_slots_words map_fst_zip_take)
  qed simp
qed

section \<open>Stores and loads of slots\<close>

lemma vload32_same_mem: "vmem t = vmem s \<Longrightarrow> vload32 t a = vload32 s a"
  by (simp add: vload32_def)

lemma offsets_inj: "inj_on (\<lambda>off. (b :: u32) + word_of_int off) {0..<2 ^ 32}"
proof (rule inj_onI)
  fix x y :: int assume "x \<in> {0..<2 ^ 32}" "y \<in> {0..<2 ^ 32}" "b + word_of_int x = b + word_of_int y"
  then have "(word_of_int x :: u32) = word_of_int y" by simp
  then have "x mod 2 ^ 32 = y mod 2 ^ 32" by (simp add: word_of_int_eq_iff take_bit_eq_mod)
  then show "x = y" using \<open>x \<in> _\<close> \<open>y \<in> _\<close> by simp
qed

lemma offset_aligned4:
  assumes "aligned4 b" "4 dvd off" shows "aligned4 (b + word_of_int off)"
proof -
  have "take_bit 2 (word_of_int off :: u32) = 0"
  proof (rule word_uint_eqI)
    have "off mod 2 ^ 32 mod 4 = 0" using assms(2) mod_mod_cancel [of 4 "2 ^ 32" off] by auto
    then show "uint (take_bit 2 (word_of_int off :: u32)) = uint (0 :: u32)"
      unfolding unsigned_take_bit_eq by (simp add: take_bit_eq_mod uint_word_of_int)
  qed
  then show ?thesis using aligned4_add_low [OF assms(1), of "word_of_int off"] by (simp add: aligned4_take_bit)
qed

definition slot_offs :: "(abi_arg_slot \<times> mreg) list \<Rightarrow> int list" where
  "slot_offs ps = List.map_filter (\<lambda>(s, v). slot_off s) ps"

lemma slot_offs_simps [simp]:
  "slot_offs [] = []" "slot_offs (xs @ ys) = slot_offs xs @ slot_offs ys"
  "slot_offs ((ABI_Reg r ty e, v) # ps) = slot_offs ps"
  "slot_offs ((ABI_Stack off ty e, v) # ps) = off # slot_offs ps"
  by (simp_all add: slot_offs_def List.map_filter_simps)

lemma slot_offs_fst: "slot_offs ps = List.map_filter slot_off (map fst ps)"
proof (induction ps)
  case (Cons p ps)
  obtain s v where p: "p = (s, v)" by force
  show ?case using Cons by (cases s) (simp_all add: p List.map_filter_simps)
qed (simp add: List.map_filter_simps)

lemma slot_offs_mem: "(s, v) \<in> set ps \<Longrightarrow> slot_off s = Some off \<Longrightarrow> off \<in> set (slot_offs ps)"
  by (force simp: slot_offs_def List.map_filter_def)

lemma stores_run:
  assumes mk: "\<And>v off t. vr t = f \<Longrightarrow> off \<in> D \<Longrightarrow> cstep sp (mk v off) t = Some (vstore32 (a off) (f v) t)"
    and D: "\<And>off. off \<in> D \<Longrightarrow> aligned4 (a off)" "inj_on a D"
    and ps: "set (slot_offs ps) \<subseteq> D" "distinct (slot_offs ps)" and s: "vr s = f"
  shows "\<exists>t. crun sp (stack_insts mk ps) s = Some t \<and> vr t = f \<and>
    (\<forall>(sl, v) \<in> set ps. \<forall>off. slot_off sl = Some off \<longrightarrow> vload32 t (a off) = f v) \<and>
    (\<forall>off \<in> D - set (slot_offs ps). vload32 t (a off) = vload32 s (a off))"
  using ps s
proof (induction ps arbitrary: s)
  case (Cons p ps)
  obtain sl v where p: "p = (sl, v)" by force
  show ?case
  proof (cases sl)
    case (ABI_Reg r ty e)
    then show ?thesis using Cons.IH [of s] Cons.prems by (auto simp: p)
  next
    case (ABI_Stack off ty e)
    let ?s = "vstore32 (a off) (f v) s"
    have off: "off \<in> D" "off \<notin> set (slot_offs ps)" "set (slot_offs ps) \<subseteq> D" "distinct (slot_offs ps)"
      using Cons.prems by (simp_all add: p ABI_Stack)
    have vrs: "vr ?s = f" using Cons.prems(3) by (simp add: vstore32_def)
    obtain t where t: "crun sp (stack_insts mk ps) ?s = Some t" "vr t = f"
      "\<forall>(sl, v) \<in> set ps. \<forall>off. slot_off sl = Some off \<longrightarrow> vload32 t (a off) = f v"
      "\<forall>off \<in> D - set (slot_offs ps). vload32 t (a off) = vload32 ?s (a off)"
      using Cons.IH [OF off(3,4) vrs] by blast
    have ld: "vload32 ?s (a off') = (if off' = off then f v else vload32 s (a off'))" if "off' \<in> D" for off'
      using vload32_vstore32 [OF D(1) D(1), OF off(1) that] inj_onD [OF D(2) _ off(1) that] by auto
    have "crun sp (stack_insts mk (p # ps)) s = Some t"
      using mk [OF Cons.prems(3) off(1)] t(1) by (simp add: p ABI_Stack)
    moreover have "vload32 t (a off) = f v" using t(4) off ld by auto
    moreover have "vload32 t (a off') = vload32 s (a off')" if "off' \<in> D - set (slot_offs (p # ps))" for off'
      using that t(4) ld by (auto simp: p ABI_Stack)
    ultimately show ?thesis using t(2,3) by (intro exI [of _ t]) (auto simp: p ABI_Stack)
  qed
qed auto

lemma loads_run:
  assumes mk: "\<And>v off t. off \<in> D \<Longrightarrow> cstep sp (mk v off) t = Some (set_vr v (vload32 t (a off)) t)"
    and ps: "set (slot_offs ps) \<subseteq> D" "distinct (map snd ps)"
  shows "\<exists>t. crun sp (stack_insts mk ps) s = Some t \<and> vmem t = vmem s \<and>
    (\<forall>r. r \<notin> snd ` set ps \<longrightarrow> vr t r = vr s r) \<and>
    (\<forall>(sl, v) \<in> set ps. vr t v = (case slot_off sl of Some off \<Rightarrow> vload32 s (a off) | None \<Rightarrow> vr s v))"
  using ps
proof (induction ps arbitrary: s)
  case (Cons p ps)
  obtain sl v where p: "p = (sl, v)" by force
  have v: "v \<notin> snd ` set ps" using Cons.prems(2) by (simp add: p)
  show ?case
  proof (cases sl)
    case (ABI_Reg r ty e)
    then show ?thesis using Cons.IH [of s] Cons.prems v by (force simp: p)
  next
    case (ABI_Stack off ty e)
    let ?s = "set_vr v (vload32 s (a off)) s"
    have "set (slot_offs ps) \<subseteq> D" "distinct (map snd ps)" using Cons.prems by (simp_all add: p ABI_Stack)
    from Cons.IH [OF this, of ?s] obtain t where t: "crun sp (stack_insts mk ps) ?s = Some t" "vmem t = vmem s"
      "\<And>r. r \<notin> snd ` set ps \<Longrightarrow> vr t r = vr ?s r"
      "\<And>sl v. (sl, v) \<in> set ps \<Longrightarrow> vr t v = (case slot_off sl of Some off \<Rightarrow> vload32 ?s (a off) | None \<Rightarrow> vr ?s v)"
      by fastforce
    have "crun sp (stack_insts mk (p # ps)) s = Some t"
      using mk [of off v s] t(1) Cons.prems(1) by (simp add: p ABI_Stack)
    moreover have "vr t v = vload32 s (a off)" using t(3) [OF v] by simp
    moreover have "vr t w = (case slot_off sk of Some off \<Rightarrow> vload32 s (a off) | None \<Rightarrow> vr s w)"
      if "(sk, w) \<in> set ps" for sk w
    proof -
      have "w \<noteq> v" using v that by force
      then show ?thesis using t(4) [OF that] by (simp split: option.splits)
    qed
    ultimately show ?thesis using t(2,3) by (intro exI [of _ t]) (auto simp: p ABI_Stack)
  qed
qed simp

section \<open>The locations of a signature\<close>

definition ty_parts :: "ir_type \<Rightarrow> nat" where
  "ty_parts ty = (case rc_for_type ty of Inr (_, tys) \<Rightarrow> length tys | Inl _ \<Rightarrow> 0)"

lemma arg_step_parts: "arg_step multi aor p k = Inr (a, k1) \<Longrightarrow> length (arg_slots a) = ty_parts (abi_param.value_type p)"
proof (cases rule: arg_step_cases, assumption)
  fix rcs tys nr assume a: "rc_for_type (abi_param.value_type p) = Inr (rcs, tys)" "a = Arg_Slots (reg_slots p tys nr) (param_purpose p)"
  then show ?thesis using rc_for_type_tys [OF a(1)] by (auto simp: reg_slots_def ty_parts_def)
next
  fix rcs tys nr assume a: "rc_for_type (abi_param.value_type p) = Inr (rcs, tys)"
    "a = Arg_Slots (stack_slots p tys (align_to (next_stack k) (if length tys = 2 then 8 else 4))) (param_purpose p)"
  then show ?thesis using rc_for_type_tys [OF a(1)] by (auto simp: stack_slots_def ty_parts_def)
qed

lemma arg_loop_parts:
  "arg_loop multi aor ps k = Inr (as, k') \<Longrightarrow> list_all2 (\<lambda>p a. length (arg_slots a) = ty_parts (abi_param.value_type p)) ps as"
  by (induction ps arbitrary: k as) (auto simp: arg_step_parts split: sum.splits)

definition cursor_at :: "nat \<Rightarrow> cursor" where
  "cursor_at r = \<lparr>next_reg = r, stack_only = False, next_stack = 0\<rparr>"

lemma arg_locs:
  assumes "compute_arg_locs cc m ps aor h [] = Inr (space, pos, locs)"
  obtains as k where "cc = CC_SystemV" "locs = as @ (if h then [abi_arg_reg (preg_real 1) ty_I32 Ext_None Purpose_Normal] else [])"
    "pos = (if h then Some (length as) else None)" "\<forall>a \<in> set as. is_slots a"
    "list_all2 (\<lambda>p a. length (arg_slots a) = ty_parts (abi_param.value_type p)) ps as"
    "slots_in (cursor_at (if h then 2 else 1)) k (concat (map arg_slots as))" "next_stack k \<le> space"
proof -
  obtain as k where l: "arg_loop m aor ps (cursor_at (if h then 2 else 1)) = Inr (as, k)" "cc = CC_SystemV"
    "locs = as @ (if h then [abi_arg_reg (preg_real 1) ty_I32 Ext_None Purpose_Normal] else [])"
    "pos = (if h then Some (length as) else None)" "space = align_to (next_stack k) 8"
    using assms by (auto simp: compute_arg_locs_def cursor_at_def ensure_call_conv_def Let_def split: if_splits sum.splits prod.splits)
  have "4 dvd next_stack (cursor_at (if h then 2 else 1))" by (simp add: cursor_at_def)
  from arg_loop_slots [OF l(1) this] arg_loop_parts [OF l(1)] l(2-) show thesis
    using that [of as k] align_to_ge [of 8 "next_stack k"] by simp
qed

text \<open>What the setup proofs need of the slots of a signature: registers and offsets apart.\<close>

lemma slots_in_apart:
  assumes "slots_in (cursor_at r) k ss" "next_stack k \<le> space"
  shows "words ss" "distinct (List.map_filter slot_reg ss)" "distinct (List.map_filter slot_off ss)"
    "set (List.map_filter slot_off ss) \<subseteq> {off. 4 dvd off \<and> 0 \<le> off \<and> off < int space}"
    "preg_real 1 \<in> set (List.map_filter slot_reg ss) \<Longrightarrow> r \<le> 1"
proof -
  show "words ss" "distinct (List.map_filter slot_reg ss)" "distinct (List.map_filter slot_off ss)"
    "set (List.map_filter slot_off ss) \<subseteq> {off. 4 dvd off \<and> 0 \<le> off \<and> off < int space}"
    using assms by (auto simp: slots_in_def words_def cursor_at_def)
  assume "preg_real 1 \<in> set (List.map_filter slot_reg ss)"
  moreover have "set (List.map_filter slot_reg ss) \<subseteq> preg_real ` ({r..<next_reg k} \<inter> {..6})"
    using assms(1) by (simp add: slots_in_def cursor_at_def)
  ultimately obtain n where "n \<in> {r..<next_reg k} \<inter> {..6}" "preg_real 1 = preg_real n" by blast
  then show "r \<le> 1" using preg_real_inj [of 1 n] by simp
qed

section \<open>The two sides of a call\<close>

lemma emit_all_eq: "emit_all is c = Some (c\<lparr>ir_insts := ir_insts c @ is\<rparr>)"
  by (induction "is" arbitrary: c) (simp_all add: emitted_def)

lemma lower_sigs_bump [simp]: "lower_sigs (bump c) = lower_sigs c" "lower_abi (bump c) = lower_abi c"
  by (simp_all add: bump_def)

lemma caller_args:
  assumes abi: "sig_args (lower_sigs c) sig = Some locs" "sd_call_conv (sigs_of (lower_sigs c) ! sig) = CC_SystemV"
      "sized_stack_arg_space (sigs_of (lower_sigs c) ! sig) = space"
      "stack_ret_arg (sigs_of (lower_sigs c) ! sig) = (if h then Some (length as) else None)"
      "locs = as @ (if h then [abi_arg_reg (preg_real 1) ty_I32 Ext_None Purpose_Normal] else [])"
    and args: "length args = length as" "args_match (zip as args)" and al: "can_alloc c (vnext c)"
  defines "P \<equiv> arg_pairs (zip as args)" and "tmp \<equiv> Virtual (vnext c) Int_class"
  shows "\<exists>c'. callee_gen_call_args b sig args False c =
    Some ((reg_pairs P @ (if h then [(tmp, Real (preg_real 1))] else []),
      stack_insts (\<lambda>v off. StoreStack v (OutgoingArg off) ty_I32) P @ (if h then [StackAddr tmp (OutgoingArg (int space))] else [])), c')"
proof -
  have z: "zip locs args = zip as args" using args(1) by (simp add: abi(5) zip_append1)
  have n: "num_args (lower_sigs c) sig = Some (length as)" using abi by (simp add: num_args_def)
  have r: "get_ret_arg (lower_sigs c) sig = Some (if h then Some (abi_arg_reg (preg_real 1) ty_I32 Ext_None Purpose_Normal) else None)"
    using abi by (simp add: get_ret_arg_def)
  have sa: "call_stack_arg False space = OutgoingArg" by (simp add: call_stack_arg_def fun_eq_iff)
  note w = call_args_words [OF args(2)]
  show ?thesis using abi(1-4) al
    by (simp add: callee_gen_call_args_def n z args(1) sa w r call_ret_area_def gen_get_stack_addr_def word_type_def
        abi_arg_reg_def tmp_def P_def assert_that_def)
qed

fun used_args :: "abi_arg list \<Rightarrow> (bool \<times> value_regs) list \<Rightarrow> (abi_arg \<times> value_regs) list" where
  "used_args (a # as) ((unused, r) # ps) = (if unused then used_args as ps else (a, r) # used_args as ps)"
| "used_args _ _ = []"

lemma used_args_mem:
  "i < length as \<Longrightarrow> i < length ps \<Longrightarrow> \<not> fst (ps ! i) \<Longrightarrow> (as ! i, snd (ps ! i)) \<in> set (used_args as ps)"
  by (induction as ps arbitrary: i rule: used_args.induct) (auto simp: nth_Cons split: nat.splits if_splits)

lemma arg_pairs_mem:
  "(a, r) \<in> set as \<Longrightarrow> j < length (arg_slots a) \<Longrightarrow> j < length (regs_of r) \<Longrightarrow> (arg_slots a ! j, regs_of r ! j) \<in> set (arg_pairs as)"
  by (force simp: arg_pairs_def set_zip)

lemma copy_arg_words:
  assumes "sig_args (lower_sigs c) (body_sig b) = Some locs" "sd_call_conv (sigs_of (lower_sigs c) ! body_sig b) = CC_SystemV"
    "i < length locs" "is_slots (locs ! i)" "words (arg_slots (locs ! i))" "length (regs_of r) = length (arg_slots (locs ! i))"
  defines "P \<equiv> zip (arg_slots (locs ! i)) (regs_of r)"
  shows "gen_copy_arg_to_regs i r b c = Some (stack_insts (\<lambda>v off. LoadStack v
      (IncomingArg off (sized_stack_arg_space (sigs_of (lower_sigs c) ! body_sig b))) ty_I32) P,
    b\<lparr>reg_args := reg_args b @ reg_pairs P\<rparr>, c)"
proof -
  obtain ss pu where l: "locs ! i = Arg_Slots ss pu" using assms(4) by (cases "locs ! i") auto
  show ?thesis using assms by (simp add: gen_copy_arg_to_regs_def l copy_arg_slots_words assert_that_def)
qed

lemma callee_copies:
  assumes "sig_args (lower_sigs c) (body_sig b) = Some (pre @ as @ post)" "i = length pre"
    "sd_call_conv (sigs_of (lower_sigs c) ! body_sig b) = CC_SystemV"
    "sized_stack_arg_space (sigs_of (lower_sigs c) ! body_sig b) = space"
    "length ps = length as" "args_match (zip as (map snd ps))"
  shows "arg_setup_copies i ps b c =
    Some (b\<lparr>reg_args := reg_args b @ reg_pairs (arg_pairs (used_args as ps))\<rparr>, c\<lparr>ir_insts := ir_insts c @
      stack_insts (\<lambda>v off. LoadStack v (IncomingArg off space) ty_I32) (arg_pairs (used_args as ps))\<rparr>)"
  using assms
proof (induction ps arbitrary: i pre as b c)
  case (Cons p ps)
  obtain u r where p: "p = (u, r)" by force
  obtain a as' where as: "as = a # as'" using Cons.prems(5) by (cases as) auto
  have sa: "sig_args (lower_sigs c) (body_sig b) = Some ((pre @ [a]) @ as' @ post)" using Cons.prems(1) by (simp add: as)
  have m: "is_slots a" "words (arg_slots a)" "length (regs_of r) = length (arg_slots a)" "args_match (zip as' (map snd ps))"
    using Cons.prems(6) by (simp_all add: as p)
  show ?case
  proof (cases u)
    case True
    then show ?thesis using Cons.IH [OF sa _ Cons.prems(3,4), of "Suc i"] Cons.prems(2,5) m(4) by (simp add: p as)
  next
    case False
    let ?b = "b\<lparr>reg_args := reg_args b @ reg_pairs (zip (arg_slots a) (regs_of r))\<rparr>"
    let ?c = "c\<lparr>ir_insts := ir_insts c @ stack_insts (\<lambda>v off. LoadStack v (IncomingArg off space) ty_I32) (zip (arg_slots a) (regs_of r))\<rparr>"
    have "gen_copy_arg_to_regs i r b c = Some (stack_insts (\<lambda>v off. LoadStack v (IncomingArg off space) ty_I32) (zip (arg_slots a) (regs_of r)), ?b, c)"
      using copy_arg_words [OF Cons.prems(1,3), of i r] Cons.prems(2,4) m by (simp add: as nth_append)
    moreover have "arg_setup_copies (Suc i) ps ?b ?c = Some (?b\<lparr>reg_args := reg_args ?b @ reg_pairs (arg_pairs (used_args as' ps))\<rparr>,
      ?c\<lparr>ir_insts := ir_insts ?c @ stack_insts (\<lambda>v off. LoadStack v (IncomingArg off space) ty_I32) (arg_pairs (used_args as' ps))\<rparr>)"
      using Cons.IH [of ?c ?b "pre @ [a]" as' "Suc i"] sa Cons.prems(2-5) m(4) by (simp add: as)
    ultimately show ?thesis using False by (simp add: p as emit_all_eq)
  qed
qed simp

lemma callee_setup:
  assumes abi: "sig_args (lower_sigs c) (body_sig b) = Some locs" "body_sig b < length (sigs_of (lower_sigs c))"
      "sd_call_conv (sigs_of (lower_sigs c) ! body_sig b) = CC_SystemV"
      "sized_stack_arg_space (sigs_of (lower_sigs c) ! body_sig b) = space"
      "stack_ret_arg (sigs_of (lower_sigs c) ! body_sig b) = (if h then Some (length as) else None)"
      "locs = as @ (if h then [abi_arg_reg (preg_real 1) ty_I32 Ext_None Purpose_Normal] else [])"
    and ps: "length ps = length as" "args_match (zip as (map snd ps))" and b: "reg_args b = []" "h \<Longrightarrow> ret_area_ptr b = Some p"
  defines "Q \<equiv> arg_pairs (used_args as ps)"
  defines "prs \<equiv> reg_pairs Q @ (if h then [(p, Real (preg_real 1))] else [])"
  shows "\<exists>b' c'. gen_arg_setup ps b c = Some (if prs = [] then None else Some (Args prs), b', c') \<and>
    ir_insts c' = ir_insts c @ stack_insts (\<lambda>v off. LoadStack v (IncomingArg off space) ty_I32) Q"
proof -
  let ?c = "c\<lparr>ir_insts := ir_insts c @ stack_insts (\<lambda>v off. LoadStack v (IncomingArg off space) ty_I32) Q\<rparr>"
  let ?b = "b\<lparr>reg_args := reg_pairs Q\<rparr>"
  have c1: "arg_setup_copies 0 ps b c = Some (?b, ?c)"
    using callee_copies [of c b "[]" as "if h then [abi_arg_reg (preg_real 1) ty_I32 Ext_None Purpose_Normal] else []" 0]
      abi(1,3,4) ps b(1) by (simp add: abi(6) Q_def)
  have s: "gen_retval_area_setup ?b ?c = Some (None, ?b\<lparr>reg_args := prs\<rparr>, ?c)"
  proof (cases h)
    case True
    have "gen_copy_arg_to_regs (length as) (One_reg p) ?b ?c = Some ([], ?b\<lparr>reg_args := reg_pairs Q @ [(p, Real (preg_real 1))]\<rparr>, ?c)"
      using copy_arg_words [of ?c ?b locs "length as" "One_reg p"] abi True
      by (simp add: abi_arg_reg_def)
    then show ?thesis using abi b True by (simp add: gen_retval_area_setup_def prs_def)
  qed (use abi in \<open>simp add: gen_retval_area_setup_def prs_def\<close>)
  show ?thesis by (simp add: gen_arg_setup_def c1 s take_args_def gen_args_def)
qed

section \<open>Delivery\<close>

text \<open>
  Control passes from one side to the other: the registers of the convention hold what the pairs name, memory
  is shared, and every other register of the other side is arbitrary.
\<close>

definition transfer :: "(mreg \<times> mreg) list \<Rightarrow> vstate \<Rightarrow> vstate \<Rightarrow> vstate" where
  "transfer us s t = \<lparr>vr = (\<lambda>r. case map_of (map prod.swap us) r of Some v \<Rightarrow> vr s v | None \<Rightarrow> vr t r), vmem = vmem s\<rparr>"

lemma transfer_sel:
  "distinct (map snd us) \<Longrightarrow> (v, p) \<in> set us \<Longrightarrow> vr (transfer us s t) p = vr s v" "vmem (transfer us s t) = vmem s"
proof -
  assume "distinct (map snd us)" "(v, p) \<in> set us"
  then have "map_of (map prod.swap us) p = Some v" by (intro map_of_is_SomeI) (force simp: o_def)+
  then show "vr (transfer us s t) p = vr s v" by (simp add: transfer_def)
qed (simp add: transfer_def)

lemma move_regs_sel:
  "distinct (map fst ps) \<Longrightarrow> (v, p) \<in> set ps \<Longrightarrow> vr (move_regs ps s) v = vr s p" "vmem (move_regs ps s) = vmem s"
  "v \<notin> fst ` set ps \<Longrightarrow> vr (move_regs ps s) v = vr s v"
  by (simp_all add: move_regs_def) (metis map_of_eq_None_iff option.simps(4))

lemma reg_pairs_mem: "(sl, v) \<in> set ps \<Longrightarrow> slot_reg sl = Some r \<Longrightarrow> (v, Real r) \<in> set (reg_pairs ps)"
  by (force simp: reg_pairs_def List.map_filter_def)

lemma map_fst_reg_pairs: "set (map fst (reg_pairs ps)) \<subseteq> snd ` set ps"
  by (auto simp: reg_pairs_def List.map_filter_def) force

lemma distinct_fst_reg_pairs: "distinct (map snd ps) \<Longrightarrow> distinct (map fst (reg_pairs ps))"
proof (induction ps)
  case (Cons p ps)
  obtain sl v where p: "p = (sl, v)" by force
  have "v \<notin> set (map fst (reg_pairs ps))" using Cons.prems map_fst_reg_pairs [of ps] by (auto simp: p)
  then show ?case using Cons by (cases sl) (simp_all add: p)
qed simp

lemma map_snd_reg_pairs: "map snd (reg_pairs ps) = map Real (List.map_filter slot_reg (map fst ps))"
proof (induction ps)
  case (Cons p ps)
  obtain sl v where p: "p = (sl, v)" by force
  show ?case using Cons by (cases sl) (simp_all add: p List.map_filter_simps)
qed (simp add: List.map_filter_simps)

text \<open>
  The values of \<open>P\<close>, stored by the one side below \<open>b\<close>, and the registers \<open>E\<close> and \<open>F\<close> of the hidden pointer.
\<close>

lemma delivered:
  assumes us: "distinct (map snd (reg_pairs P @ E))" and prs: "distinct (map snd Q)" "distinct (map fst F)" "fst ` set F \<inter> snd ` set Q = {}"
    and offs: "set (slot_offs Q) \<subseteq> D"
    and st: "\<forall>sl v off. (sl, v) \<in> set P \<longrightarrow> slot_off sl = Some off \<longrightarrow> vload32 s1 (sp + word_of_int off) = f v"
    and rg: "\<forall>sl v. (sl, v) \<in> set P \<longrightarrow> vr s1 v = f v"
    and D: "\<forall>off \<in> D. aligned4 (sp + word_of_int off)"
  shows "\<exists>s2. crun sp (Args (reg_pairs Q @ F) # stack_insts (\<lambda>v off. LoadStack v (IncomingArg off space) ty_I32) Q)
      (transfer (reg_pairs P @ E) s1 t) = Some s2 \<and>
    (\<forall>sl v w. (sl, v) \<in> set P \<longrightarrow> (sl, w) \<in> set Q \<longrightarrow> vr s2 w = f v) \<and>
    (\<forall>v w r. (v, r) \<in> set E \<longrightarrow> (w, r) \<in> set F \<longrightarrow> vr s2 w = vr s1 v)"
proof -
  let ?t = "transfer (reg_pairs P @ E) s1 t" and ?m = "move_regs (reg_pairs Q @ F) (transfer (reg_pairs P @ E) s1 t)"
  have df: "distinct (map fst (reg_pairs Q @ F))"
    using distinct_fst_reg_pairs [OF prs(1)] prs(2,3) map_fst_reg_pairs [of Q] by (simp only: map_append distinct_append set_map) blast
  obtain s2 where s2: "crun sp (stack_insts (\<lambda>v off. LoadStack v (IncomingArg off space) ty_I32) Q) ?m = Some s2"
    "\<And>r. r \<notin> snd ` set Q \<Longrightarrow> vr s2 r = vr ?m r"
    "\<And>sl v. (sl, v) \<in> set Q \<Longrightarrow> vr s2 v = (case slot_off sl of Some off \<Rightarrow> vload32 ?m (sp + word_of_int off) | None \<Rightarrow> vr ?m v)"
    using loads_run [where a = "\<lambda>off. sp + word_of_int off" and s = ?m and sp = sp and D = D, OF _ offs prs(1),
        of "\<lambda>v off. LoadStack v (IncomingArg off space) ty_I32"] D by fastforce
  have mem: "vload32 ?m a = vload32 s1 a" for a by (rule vload32_same_mem) (simp add: move_regs_sel transfer_sel)
  have "vr s2 w = f v" if vw: "(sl, v) \<in> set P" "(sl, w) \<in> set Q" for sl v w
  proof (cases sl)
    case (ABI_Reg r ty e)
    then have "(v, Real r) \<in> set (reg_pairs P @ E)" "(w, Real r) \<in> set (reg_pairs Q @ F)" using vw reg_pairs_mem by fastforce+
    then show ?thesis using s2(3) [OF vw(2)] move_regs_sel(1) [OF df] transfer_sel(1) [OF us] rg vw(1) ABI_Reg by simp
  next
    case (ABI_Stack off ty e)
    then show ?thesis using s2(3) [OF vw(2)] st vw(1) by (simp add: mem)
  qed
  moreover have "vr s2 w = vr s1 v" if "(v, r) \<in> set E" "(w, r) \<in> set F" for v w r
  proof -
    have "w \<notin> snd ` set Q" using prs(3) that(2) by force
    then show ?thesis using s2(2) move_regs_sel(1) [OF df, of w r] transfer_sel(1) [OF us, of v r] that by simp
  qed
  ultimately show ?thesis using s2(1) by (intro exI [of _ s2]) simp
qed

end
