(* ===== verification/Sia32_Lower_Correct.thy ===== *)
theory Sia32_Lower_Correct
  imports Sia32_Lower_Sem
begin

text \<open>
  Every word-pair constructor of \<open>lower/isle.rs\<close> computes the 64-bit operation it stands for: addition,
  subtraction and logic, multiplication and its high half, comparison, constant and variable shifts,
  bit counts, extension, and the unrolled restoring division with its zero check. Each \<open>computes\<close> lemma
  bounds the registers the constructor allocates; the 64 iterations of the division take at most 24
  registers each.
\<close>

section \<open>Arithmetic, comparison, bit counts\<close>

definition alu64 :: "nat \<Rightarrow> u64 \<Rightarrow> u64 \<Rightarrow> u64" where
  "alu64 op x y = (if op = 0 then x + y else if op = 1 then x - y else if op = 2 then x AND y
     else if op = 3 then x OR y else x XOR y)"

lemma alu_computes:
  assumes ok: "alloc_ok L c" and room: "vnext c + 4 \<le> L"
    and x: "pair_old (vnext c) x" and y: "pair_old (vnext c) y" and op: "op \<le> 4"
  shows "computes L 4 (sia_i64_alu x y op c) c s
    (\<lambda>r c' s'. pair_old (vnext c') r \<and> val64 s' r = alu64 op (val64 s x) (val64 s y))"
proof -
  obtain x0 xk x1 xl where X: "x = Two_regs (Virtual x0 xk) (Virtual x1 xl)" "x0 < vnext c" "x1 < vnext c"
    using x by (rule pair_oldE)
  obtain y0 yk y1 yl where Y: "y = Two_regs (Virtual y0 yk) (Virtual y1 yl)" "y0 < vnext c" "y1 < vnext c"
    using y by (rule pair_oldE)
  have "op = 0 \<or> op = 1 \<or> op = 2 \<or> op = 3 \<or> op = 4" using op by linarith
  then show ?thesis
    using X Y room ok
    by (elim disjE) (simp_all add: sia_i64_alu_def alloc_okD straight Let_def alu64_def icmp_sem_def
      pair_add pair_sub pair_logic)
qed

lemma exec_mul [simp]: "execute_reference M7_Mul a b = a * b"
  by (simp add: execute_reference_def)

lemma mul_computes:
  assumes ok: "alloc_ok L c" and room: "vnext c + 6 \<le> L"
    and x: "pair_old (vnext c) x" and y: "pair_old (vnext c) y"
  shows "computes L 6 (sia_i64_mul x y c) c s
    (\<lambda>r c' s'. pair_old (vnext c') r \<and> val64 s' r = val64 s x * val64 s y)"
proof -
  obtain x0 xk x1 xl where X: "x = Two_regs (Virtual x0 xk) (Virtual x1 xl)" "x0 < vnext c" "x1 < vnext c"
    using x by (rule pair_oldE)
  obtain y0 yk y1 yl where Y: "y = Two_regs (Virtual y0 yk) (Virtual y1 yl)" "y0 < vnext c" "y1 < vnext c"
    using y by (rule pair_oldE)
  show ?thesis
    using X Y room ok
    by (simp add: sia_i64_mul_def alloc_okD straight pair_mul)
qed


lemma umulhi_computes:
  assumes ok: "alloc_ok L c" and room: "vnext c + 19 \<le> L"
    and x: "pair_old (vnext c) x" and y: "pair_old (vnext c) y"
  shows "computes L 19 (sia_i64_umulhi x y c) c s
    (\<lambda>r c' s'. pair_old (vnext c') r \<and> val64 s' r = umulhi64 (val64 s x) (val64 s y))"
proof -
  obtain x0 xk x1 xl where X: "x = Two_regs (Virtual x0 xk) (Virtual x1 xl)" "x0 < vnext c" "x1 < vnext c"
    using x by (rule pair_oldE)
  obtain y0 yk y1 yl where Y: "y = Two_regs (Virtual y0 yk) (Virtual y1 yl)" "y0 < vnext c" "y1 < vnext c"
    using y by (rule pair_oldE)
  show ?thesis
    using X Y room ok
    by (simp add: sia_i64_umulhi_def low_binary_def low_add_def low_add_carry_def alloc_okD straight
        icmp_sem_def pair_umulhi)
qed

lemma const_computes:
  assumes "alloc_ok L c" "vnext c + 2 \<le> L"
  shows "computes L 2 (sia_i64_const k c) c s (\<lambda>r c' s'. pair_old (vnext c') r \<and> val64 s' r = k)"
  using assms to_from_u64 [of k]
  by (simp add: sia_i64_const_def alloc_okD straight from_u64_def)

lemma extend_computes:
  assumes ok: "alloc_ok L c" and room: "vnext c + 2 \<le> L" and r: "vold (vnext c) r"
  shows "computes L 2 (sia_i64_extend r sg bits c) c s (\<lambda>p c' s'. pair_old (vnext c') p \<and>
    val64 s' p = (if sg then scast (extend_sem True (unat bits) 32 (vr s r))
                  else ucast (extend_sem False (unat bits) 32 (vr s r))))"
proof -
  obtain v k where "r = Virtual v k" "v < vnext c" using r by (rule voldE)
  then show ?thesis using ok room
    by (cases sg) (simp_all add: sia_i64_extend_def alloc_okD straight pair_sext pair_zext)
qed

lemma icmp_pair_sem:
  "icmp_sem IntEqual a1 b1 AND icmp_sem IntEqual a0 b0 = (of_bool (pair a0 a1 = pair b0 b1) :: u32)"
  "icmp_sem IntUnsignedLessThan a1 b1 OR (icmp_sem IntEqual a1 b1 AND icmp_sem IntUnsignedLessThan a0 b0)
     = (of_bool (pair a0 a1 < pair b0 b1) :: u32)"
  "icmp_sem IntSignedLessThan a1 b1 OR (icmp_sem IntEqual a1 b1 AND icmp_sem IntUnsignedLessThan a0 b0)
     = (of_bool (sint (pair a0 a1) < sint (pair b0 b1)) :: u32)"
  by (auto simp: icmp_sem_def pair_eq_iff pair_less_iff pair_sless_iff)

lemma bool_xor_one: "of_bool b XOR (1 :: u32) = of_bool (\<not> b)"
  by (cases b) simp_all

lemma icmp_computes:
  assumes ok: "alloc_ok L c" and room: "vnext c + 7 \<le> L"
    and x: "pair_old (vnext c) x" and y: "pair_old (vnext c) y"
  shows "computes L 7 (sia_i64_icmp x y cc c) c s
    (\<lambda>r c' s'. vold (vnext c') r \<and> vr s' r = of_bool (int_holds cc (val64 s x) (val64 s y)))"
proof -
  obtain x0 xk x1 xl where X: "x = Two_regs (Virtual x0 xk) (Virtual x1 xl)" "x0 < vnext c" "x1 < vnext c"
    using x by (rule pair_oldE)
  obtain y0 yk y1 yl where Y: "y = Two_regs (Virtual y0 yk) (Virtual y1 yl)" "y0 < vnext c" "y1 < vnext c"
    using y by (rule pair_oldE)
  show ?thesis
    using X Y room ok
    by (cases cc) (simp_all add: sia_i64_icmp_def low_compare_def low_binary_def alloc_okD straight
      icmp_pair_sem bool_xor_one not_less not_le)
qed

lemma select_computes:
  assumes "alloc_ok L c" "vnext c + 1 \<le> L" "vold (vnext c) t" "vold (vnext c) a" "vold (vnext c) b"
  shows "computes L 1 (sia_select t a b c) c s
    (\<lambda>r c' s'. vold (vnext c') r \<and> vr s' r = (if vr s t \<noteq> 0 then vr s a else vr s b))"
  using assms by (auto simp: sia_select_def alloc_okD straight vold_iff)

lemma binary_computes:
  assumes "alloc_ok L c" "vnext c + 1 \<le> L" "vold (vnext c) a" "vold (vnext c) b"
    "two_op_sem op (vr s a) (vr s b) = Some v"
  shows "computes L 1 (low_binary op a b c) c s (\<lambda>r c' s'. vold (vnext c') r \<and> vr s' r = v)"
  using assms by (auto simp: low_binary_def alloc_okD straight vold_iff)

lemma bitcount_computes:
  assumes ok: "alloc_ok L c" and room: "vnext c + 6 \<le> L" and x: "pair_old (vnext c) x" and op: "op \<le> 2"
  shows "computes L 6 (sia_i64_bitcount x op c) c s (\<lambda>r c' s'. pair_old (vnext c') r \<and>
    val64 s' r = (if op = 0 then clz64 (val64 s x) else if op = 1 then ctz64 (val64 s x) else cpop64 (val64 s x)))"
proof -
  obtain x0 xk x1 xl where X: "x = Two_regs (Virtual x0 xk) (Virtual x1 xl)" "x0 < vnext c" "x1 < vnext c"
    using x by (rule pair_oldE)
  have "op = 0 \<or> op = 1 \<or> op = 2" using op by linarith
  then show ?thesis
    using X room ok
    by (elim disjE) (simp_all add: sia_i64_bitcount_def sia_select_def alloc_okD straight numeral_2_eq_2
      pair_clz [symmetric] pair_ctz [symmetric] pair_cpop)
qed

section \<open>Shifts\<close>

definition shift64 :: "nat \<Rightarrow> nat \<Rightarrow> u64 \<Rightarrow> u64" where
  "shift64 op n x = (if op = 0 then push_bit n x else if op = 1 then drop_bit n x else signed_drop_bit n x)"

lemma amount_cases:
  fixes k :: u64
  defines "a \<equiv> ucast (k AND 63) :: u8"
  shows "unat a = unat (k AND 63)" "unat a < 64"
proof -
  have "k AND 63 \<le> 63" by (simp add: word_and_le1)
  then have le: "unat (k AND 63) \<le> 63" by (simp add: word_le_nat_alt)
  then show "unat a = unat (k AND 63)" by (simp add: a_def unsigned_ucast_eq take_bit_nat_eq_self)
  then show "unat a < 64" using le by simp
qed

lemma low_shift_computes:
  assumes "alloc_ok L c" "vnext c + 1 \<le> L" "vold (vnext c) r" "unat n < 32" "op \<in> {Op_Shl, Op_Shr, Op_Sar}"
  shows "computes L 1 (low_shift r op n c) c s
    (\<lambda>d c' s'. vold (vnext c') d \<and> vr s' d = shift_imm_sem op (unat n) (vr s r))"
  using assms by (auto simp: low_shift_def alloc_okD straight vold_iff)

lemma shift_computes:
  assumes ok: "alloc_ok L c" and room: "vnext c + 4 \<le> L" and x: "pair_old (vnext c) x" and op: "op \<le> 2"
  shows "computes L 4 (sia_i64_shift x k op c) c s (\<lambda>r c' s'. pair_old (vnext c') r \<and>
    val64 s' r = shift64 op (unat (k AND 63)) (val64 s x))"
proof -
  let ?a = "ucast (k AND 63) :: u8"
  obtain x0 xk x1 xl where X: "x = Two_regs (Virtual x0 xk) (Virtual x1 xl)" "x0 < vnext c" "x1 < vnext c"
    using x by (rule pair_oldE)
  have op': "op = 0 \<or> op = 1 \<or> op = 2" using op by linarith
  note a = amount_cases [of k]
  consider "?a = 0" | "?a \<noteq> 0" "?a < 32" | "32 \<le> ?a" by fastforce
  then show ?thesis
  proof cases
    case 1
    then have "unat (k AND 63) = 0" using a(1) by simp
    then have "shift64 op (unat (k AND 63)) v = v" for v
      by (simp add: shift64_def)
    with 1 show ?thesis using ok X
      by (simp add: sia_i64_shift_def Let_def computes_return)
  next
    case 2
    have n: "0 < unat (k AND 63)" "unat (k AND 63) < 32" using 2 a(1) by (auto simp: word_less_nat_alt unat_gt_0)
    have m: "unat (32 - ?a) = 32 - unat (k AND 63)"
      using 2 a(1) by (simp add: unat_sub_if' word_less_nat_alt)
    have nz: "32 - ?a \<noteq> 0" "\<not> 32 \<le> ?a" using 2 by auto
    show ?thesis
      using op' 2 n m nz X room ok a(1)
      by (elim disjE) (simp_all add: sia_i64_shift_def low_shift_def low_binary_def low_constant_def
        Let_def alloc_okD straight shift64_def pair_shl pair_shr pair_sar)
  next
    case 3
    have n: "32 \<le> unat (k AND 63)" "unat (k AND 63) < 64" using 3 a by (auto simp: word_le_nat_alt)
    have m: "unat (?a - 32) = unat (k AND 63) - 32"
      using 3 a(1) by (simp add: unat_sub_if' word_le_nat_alt)
    have nz: "?a \<noteq> 0" using 3 by auto
    have z: "unat (k AND 63) = 32" if "?a = 32" using that a(1) by simp
    show ?thesis
      using op' 3 n m X room ok a(1) nz
      by (cases "?a = 32"; elim disjE) (simp_all add: sia_i64_shift_def low_shift_def low_constant_def
        Let_def alloc_okD straight shift64_def pair_shl_high pair_shr_high pair_sar_high z
        pair_shl_high [of 32, simplified] pair_shr_high [of 32, simplified]
        pair_sar_high [of 32, simplified])
  qed
qed

text \<open>The count word of a variable shift: bits 0 to 4 shift within a word, bit 5 swaps words.\<close>

lemma count_split:
  fixes k :: u32
  shows "unat (k AND 63) = unat (k AND 31) + (if k AND 32 \<noteq> 0 then 32 else 0)" "unat (k AND 31) < 32"
proof -
  have m: "k AND 63 = take_bit 6 k" "k AND 31 = take_bit 5 k"
    by (simp_all add: take_bit_eq_mask mask_eq_exp_minus_1)
  have "(k AND 2 ^ 5 = 0) = (\<not> bit k 5)" by (rule and_exp_eq_0_iff_not_bit)
  moreover have "bit k 5 = odd (unat k div 32)"
  proof -
    have "bit k 5 = bit (unat k) 5" by (simp add: bit_unsigned_iff)
    then show ?thesis unfolding bit_iff_odd [of "unat k"] by simp
  qed
  ultimately have b: "k AND 32 \<noteq> 0 \<longleftrightarrow> odd (unat k div 32)" by simp
  have u: "unat (k AND 63) = unat k mod 64" "unat (k AND 31) = unat k mod 32"
    unfolding m by (simp_all add: unsigned_take_bit_eq take_bit_eq_mod unat_mod)
  show "unat (k AND 31) < 32" by (simp add: u)
  show "unat (k AND 63) = unat (k AND 31) + (if k AND 32 \<noteq> 0 then 32 else 0)"
    using mod_mult2_eq [of "unat k" 32 2] by (simp add: u b odd_iff_mod_2_eq_one)
qed

lemma inverse_count:
  fixes k :: u32
  assumes "k AND 31 \<noteq> 0"
  shows "unat ((32 - (k AND 31)) AND 31) = 32 - unat (k AND 31)" "0 < unat (k AND 31)"
proof -
  have l: "unat (k AND 31) < 32" by (rule count_split)
  show p: "0 < unat (k AND 31)" using assms by (simp add: unat_gt_0)
  have "(32 - (k AND 31)) AND 31 = take_bit 5 (32 - (k AND 31))"
    by (simp add: take_bit_eq_mask mask_eq_exp_minus_1)
  then have "unat ((32 - (k AND 31)) AND 31) = unat (32 - (k AND 31)) mod 32"
    by (simp add: unsigned_take_bit_eq take_bit_eq_mod unat_mod)
  also have "unat (32 - (k AND 31)) = 32 - unat (k AND 31)" using l by (simp add: unat_sub_if')
  finally show "unat ((32 - (k AND 31)) AND 31) = 32 - unat (k AND 31)" using p by simp
qed

lemma variable_shl:
  "pair (if (k :: u32) AND 32 \<noteq> 0 then 0 else push_bit (unat (k AND 31)) l)
     (if k AND 32 \<noteq> 0 then push_bit (unat (k AND 31)) l
      else push_bit (unat (k AND 31)) h OR (if k AND 31 \<noteq> 0 then drop_bit (unat ((32 - (k AND 31)) AND 31)) l else 0))
   = push_bit (unat (k AND 63)) (pair l h)"
  using count_split [of k] inverse_count [of k] pair_shl [of "unat (k AND 31)" l h]
    pair_shl_high [of "unat (k AND 31) + 32" l h]
  by (cases "k AND 31 = 0"; cases "k AND 32 = 0") simp_all

lemma variable_shr:
  "pair (if (k :: u32) AND 32 \<noteq> 0 then drop_bit (unat (k AND 31)) h
      else drop_bit (unat (k AND 31)) l OR (if k AND 31 \<noteq> 0 then push_bit (unat ((32 - (k AND 31)) AND 31)) h else 0))
     (if k AND 32 \<noteq> 0 then 0 else drop_bit (unat (k AND 31)) h)
   = drop_bit (unat (k AND 63)) (pair l h)"
  using count_split [of k] inverse_count [of k] pair_shr [of "unat (k AND 31)" l h]
    pair_shr_high [of "unat (k AND 31) + 32" h l]
  by (cases "k AND 31 = 0"; cases "k AND 32 = 0") simp_all

lemma variable_sar:
  "pair (if (k :: u32) AND 32 \<noteq> 0 then signed_drop_bit (unat (k AND 31)) h
      else drop_bit (unat (k AND 31)) l OR (if k AND 31 \<noteq> 0 then push_bit (unat ((32 - (k AND 31)) AND 31)) h else 0))
     (if k AND 32 \<noteq> 0 then signed_drop_bit 31 h else signed_drop_bit (unat (k AND 31)) h)
   = signed_drop_bit (unat (k AND 63)) (pair l h)"
  using count_split [of k] inverse_count [of k] pair_sar [of "unat (k AND 31)" l h]
    pair_sar_high [of "unat (k AND 31) + 32" h l]
  by (cases "k AND 31 = 0"; cases "k AND 32 = 0") simp_all

lemma variable_shift_computes:
  assumes ok: "alloc_ok L c" and room: "vnext c + 14 \<le> L" and x: "pair_old (vnext c) x"
    and k: "value_regs_get cnt 0 = Some k" "vold (vnext c) k" and op: "op \<le> 2"
  shows "computes L 14 (sia_i64_variable_shift x cnt op c) c s (\<lambda>r c' s'. pair_old (vnext c') r \<and>
    val64 s' r = shift64 op (unat (vr s k AND 63)) (val64 s x))"
proof -
  obtain x0 xk x1 xl where X: "x = Two_regs (Virtual x0 xk) (Virtual x1 xl)" "x0 < vnext c" "x1 < vnext c"
    using x by (rule pair_oldE)
  obtain kv kk where K: "k = Virtual kv kk" "kv < vnext c" using k(2) by (rule voldE)
  have "op = 0 \<or> op = 1 \<or> op = 2" using op by linarith
  then show ?thesis
    using X K room ok
    by (elim disjE) (simp_all add: sia_i64_variable_shift_def low_constant_def low_binary_def sia_select_def
       k(1) alloc_okD straight Let_def shift64_def and.assoc
       variable_shl [symmetric] variable_shr [symmetric] variable_sar [symmetric])
qed

section \<open>Division\<close>

lemma top_bit_word: "drop_bit 31 (h :: u32) = of_bool (bit h 31)"
proof (rule bit_word_eqI)
  fix n assume "n < LENGTH(32)"
  show "bit (drop_bit 31 h) n = bit (of_bool (bit h 31) :: u32) n"
    using bit_imp_le_length [of h "31 + n"] by (cases n) (auto simp: bit_simps)
qed

text \<open>
  One step of the division on words: the residual doubled with the next digit, whether the divisor is
  subtracted, and the new residual.
\<close>

definition step_next :: "u64 \<Rightarrow> u32 \<Rightarrow> u64" where
  "step_next R d = push_bit 1 R OR ucast d"

definition step_sub :: "u64 \<Rightarrow> u64 \<Rightarrow> u32 \<Rightarrow> bool" where
  "step_sub R Y d \<longleftrightarrow> bit R 63 \<or> Y \<le> step_next R d"

definition step_res :: "u64 \<Rightarrow> u64 \<Rightarrow> u32 \<Rightarrow> u64" where
  "step_res R Y d = (if step_sub R Y d then step_next R d - Y else step_next R d)"

lemma shift_in_pair:
  "pair (l * 2 OR d) (h * 2 OR drop_bit 31 l) = step_next (pair l h) d"
proof -
  have "pair (push_bit 1 l OR d) (push_bit 1 h OR drop_bit 31 l)
      = pair (push_bit 1 l) (push_bit 1 h OR drop_bit 31 l) OR pair d 0"
    by (simp flip: pair_logic)
  then show ?thesis using pair_shl [of 1 l h] by (simp add: pair_zext step_next_def)
qed

lemma step_sub_word:
  "drop_bit 31 h OR (of_bool (step_next (pair l h) d < Y) XOR 1) = (of_bool (step_sub (pair l h) Y d) :: u32)"
  by (simp add: top_bit_word bool_xor_one step_sub_def bit_pair not_less flip: of_bool_or_iff)

lemma pair_sub_icmp:
  "pair (a0 - b0) (a1 - b1 - icmp_sem IntUnsignedLessThan a0 b0) = pair a0 a1 - pair b0 b1"
  by (simp add: icmp_sem_def pair_sub)

lemma u8_1_less_32: "\<not> 32 \<le> (1 :: u8)"
  by (simp add: word_le_nat_alt)

lemma residual_step_computes:
  assumes ok: "alloc_ok L c" and room: "vnext c + 22 \<le> L"
    and y: "pair_old (vnext c) y" and r: "pair_old (vnext c) r"
    and one: "vold (vnext c) one" "vr s one = 1"
    and w: "value_regs_get x (i div 32) = Some w" "vold (vnext c) w"
    and i: "unat (of_nat i AND 31 :: u8) < 32"
  shows "computes L 22 (div_residual_step x y one i r c) c s (\<lambda>(sub, r') c' s'.
    vold (vnext c') sub \<and> pair_old (vnext c') r' \<and>
    vr s' sub = of_bool (step_sub (val64 s r) (val64 s y) (drop_bit (unat (of_nat i AND 31 :: u8)) (vr s w) AND 1)) \<and>
    val64 s' r' = step_res (val64 s r) (val64 s y) (drop_bit (unat (of_nat i AND 31 :: u8)) (vr s w) AND 1))"
proof -
  obtain y0 yk y1 yl where Y: "y = Two_regs (Virtual y0 yk) (Virtual y1 yl)" "y0 < vnext c" "y1 < vnext c"
    using y by (rule pair_oldE)
  obtain r0 rk r1 rl where R: "r = Two_regs (Virtual r0 rk) (Virtual r1 rl)" "r0 < vnext c" "r1 < vnext c"
    using r by (rule pair_oldE)
  obtain o' ok' where O: "one = Virtual o' ok'" "o' < vnext c" using one(1) by (rule voldE)
  obtain wv wk where W: "w = Virtual wv wk" "wv < vnext c" using w(2) by (rule voldE)
  have a: "(ucast (1 AND 63 :: u64) :: u8) = 1" by simp
  show ?thesis
    using Y R O W one(2) room ok i
    by (cases "of_nat i AND 31 = (0 :: u8)")
      (simp_all add: div_residual_step_def div_shift_def low_shift_imm_def sia_i64_shift_def low_shift_def
        low_binary_def w(1) sia_i64_icmp_def low_compare_def sia_i64_alu_def sia_select_def Let_def
        alloc_okD straight u8_1_less_32 icmp_pair_sem shift_in_pair step_sub_word
        pair_sub_icmp step_res_def)
qed


lemma quotient_step_computes:
  assumes ok: "alloc_ok L c" and room: "vnext c + 2 \<le> L"
    and sub: "vold (vnext c) sub" and q: "vold (vnext c) q0" "vold (vnext c) q1" and i: "i < 64"
  shows "computes L 2 (div_quotient_step i sub (q0, q1) c) c s (\<lambda>(r0, r1) c' s'.
    vold (vnext c') r0 \<and> vold (vnext c') r1 \<and>
    pair (vr s' r0) (vr s' r1) = pair (vr s q0) (vr s q1) OR
      (if i < 32 then pair (push_bit (unat (of_nat i AND 31 :: u8)) (vr s sub)) 0
       else pair 0 (push_bit (unat (of_nat i AND 31 :: u8)) (vr s sub))))"
proof -
  have a: "unat (of_nat i AND 31 :: u8) < 32"
  proof -
    have "(of_nat i AND 31 :: u8) \<le> 31" by (simp add: word_and_le1)
    then show ?thesis by (simp add: word_le_nat_alt)
  qed
  obtain sv sk where S: "sub = Virtual sv sk" "sv < vnext c" using sub by (rule voldE)
  obtain v0 k0 where Q0: "q0 = Virtual v0 k0" "v0 < vnext c" using q(1) by (rule voldE)
  obtain v1 k1 where Q1: "q1 = Virtual v1 k1" "v1 < vnext c" using q(2) by (rule voldE)
  have d: "i div 32 = 0 \<longleftrightarrow> i < 32" by auto
  show ?thesis
    using S Q0 Q1 a room ok i
    by (cases "of_nat i AND 31 = (0 :: u8)"; cases "i < 32")
      (simp_all add: div_quotient_step_def d low_shift_imm_def low_binary_def alloc_okD straight
        flip: pair_logic)
qed

lemma unat_index: "i < 64 \<Longrightarrow> unat (of_nat i AND 31 :: u8) = i mod 32"
proof -
  assume i: "i < 64"
  have "(of_nat i AND 31 :: u8) = take_bit 5 (of_nat i)"
    by (simp add: take_bit_eq_mask mask_eq_exp_minus_1)
  moreover have "unat (of_nat i :: u8) = i" using i by (simp add: unat_of_nat)
  ultimately show ?thesis by (simp add: unsigned_take_bit_eq take_bit_eq_mod unat_mod)
qed

lemma digit_word: "drop_bit n (w :: u32) AND 1 = of_bool (bit w n)"
  by (simp add: and_one_eq bit_iff_odd_drop_bit odd_iff_mod_2_eq_one)

lemma quotient_digit:
  assumes "i < 64"
  shows "(if i < 32 then pair (push_bit (i mod 32) (of_bool b)) 0 else pair 0 (push_bit (i mod 32) (of_bool b)))
    = push_bit i (of_bool b :: u64)"
proof (rule bit_word_eqI)
  fix n assume "n < LENGTH(64)"
  moreover have "i mod 32 = (if i < 32 then i else i - 32)" using assms by (simp add: le_mod_geq)
  ultimately show "bit (if i < 32 then pair (push_bit (i mod 32) (of_bool b)) 0
      else pair 0 (push_bit (i mod 32) (of_bool b))) n = bit (push_bit i (of_bool b :: u64)) n"
    using assms by (auto simp: bit_pair bit_simps)
qed

lemma or_digit: "push_bit (Suc i) (w :: u64) OR push_bit i (of_bool b) = push_bit i (2 * w + of_bool b)"
proof -
  have "push_bit (Suc i) w AND push_bit i (of_bool b) = 0"
    by (auto intro!: bit_word_eqI simp: bit_and_iff bit_push_bit_iff bit_simps simp del: push_bit_Suc)
  then have "push_bit (Suc i) w OR push_bit i (of_bool b) = push_bit (Suc i) w + push_bit i (of_bool b)"
    by (simp add: disjunctive_add_eq_or)
  also have "\<dots> = push_bit i (2 * w + of_bool b)"
    by (simp add: push_bit_eq_mult algebra_simps)
  finally show ?thesis .
qed

lemma digit_step:
  fixes A Y :: nat
  assumes "0 < Y"
  shows "(2 * A + of_bool b) mod Y = (2 * (A mod Y) + of_bool b) mod Y"
    and "(2 * A + of_bool b) div Y = 2 * (A div Y) + of_bool (Y \<le> 2 * (A mod Y) + of_bool b)"
proof -
  have lt: "2 * (A mod Y) + of_bool b < 2 * Y"
    using mod_less_divisor [OF assms, of A] by (cases b) simp_all
  have e: "2 * A + of_bool b = (2 * (A mod Y) + of_bool b) + 2 * (A div Y) * Y"
    using mod_div_mult_eq [of A Y] by linarith
  show "(2 * A + of_bool b) mod Y = (2 * (A mod Y) + of_bool b) mod Y"
    by (subst e) simp
  have "(2 * (A mod Y) + of_bool b) div Y = of_bool (Y \<le> 2 * (A mod Y) + of_bool b)"
    using lt assms by (auto intro!: div_nat_eqI)
  then show "(2 * A + of_bool b) div Y = 2 * (A div Y) + of_bool (Y \<le> 2 * (A mod Y) + of_bool b)"
    using assms by (subst e) simp
qed

lemma dividend_bits: "unat (X :: u64) div 2 ^ i = 2 * (unat X div 2 ^ Suc i) + of_bool (bit X i)"
proof -
  have "bit X i = bit (unat X) i" by (simp only: bit_unsigned_iff) (auto dest: bit_imp_le_length)
  then have b: "bit X i = odd (unat X div 2 ^ i)" by (simp only: bit_iff_odd)
  have e: "unat X div 2 ^ Suc i = unat X div 2 ^ i div 2" by (simp only: power_Suc2 div_mult2_eq)
  have "N = 2 * (N div 2) + of_bool (odd N)" for N :: nat by (cases "odd N") simp_all
  then show ?thesis unfolding b e .
qed

lemma step_arith:
  fixes R Y :: u64
  assumes "unat R < unat Y"
  shows "step_sub R Y (of_bool b) \<longleftrightarrow> unat Y \<le> 2 * unat R + of_bool b"
    and "unat (step_res R Y (of_bool b)) = (2 * unat R + of_bool b) mod unat Y"
proof -
  have d: "unat (ucast (of_bool b :: u32) :: u64) = of_bool b" by (cases b) simp_all
  have le: "unat (ucast (of_bool b :: u32) :: u64) \<le> 1" by (simp add: d)
  note r = restoring_step [OF assms le, unfolded d]
  show "step_sub R Y (of_bool b) \<longleftrightarrow> unat Y \<le> 2 * unat R + of_bool b"
    unfolding step_sub_def step_next_def by (rule r(1))
  show "unat (step_res R Y (of_bool b)) = (2 * unat R + of_bool b) mod unat Y"
    unfolding step_res_def step_sub_def step_next_def by (rule r(2))
qed

definition div_state ::
  "u64 \<Rightarrow> u64 \<Rightarrow> bool \<Rightarrow> nat \<Rightarrow> value_regs \<times> mreg \<times> mreg \<Rightarrow> lower_ctx \<Rightarrow> vstate \<Rightarrow> bool" where
  "div_state X Y remainder n st c s \<longleftrightarrow> (case st of (r, q0, q1) \<Rightarrow>
     pair_old (vnext c) r \<and> vold (vnext c) q0 \<and> vold (vnext c) q1 \<and>
     unat (val64 s r) = unat X div 2 ^ n mod unat Y \<and>
     (\<not> remainder \<longrightarrow> pair (vr s q0) (vr s q1) = push_bit n (of_nat (unat X div 2 ^ n div unat Y))))"

lemma dividend_word:
  assumes "pair_old n x" "i < 64"
  obtains w where "value_regs_get x (i div 32) = Some w" "vold n w"
    "\<And>s. bit (vr s w) (i mod 32) = bit (val64 s x) i"
proof -
  obtain x0 xk x1 xl where X: "x = Two_regs (Virtual x0 xk) (Virtual x1 xl)" "x0 < n" "x1 < n"
    using assms(1) by (rule pair_oldE)
  show thesis
  proof (cases "i < 32")
    case True
    then show ?thesis using that [of "Virtual x0 xk"] X by (simp add: bit_pair)
  next
    case False
    then have "i div 32 = Suc 0" "i mod 32 = i - 32" using assms(2) by (simp_all add: div_nat_eqI le_mod_geq)
    then show ?thesis using that [of "Virtual x1 xl"] X False by (simp add: bit_pair)
  qed
qed

lemma div_body_computes:
  assumes ok: "alloc_ok L c" and room: "vnext c + 24 \<le> L" and i: "i < 64"
    and x: "pair_old (vnext c) x" and y: "pair_old (vnext c) y" and y0: "val64 s y \<noteq> 0"
    and one: "vold (vnext c) one" "vr s one = 1"
    and st: "div_state (val64 s x) (val64 s y) remainder (Suc i) (r, q) c s"
  shows "computes L 24
    (div_residual_step x y one i r c \<bind> (\<lambda>((sub, r), c).
       (if \<not> remainder then div_quotient_step i sub q c else Some (q, c)) \<bind> (\<lambda>(q, c). Some ((r, q), c))))
    c s (\<lambda>st c' s'. div_state (val64 s x) (val64 s y) remainder i st c' s')"
proof -
  let ?X = "val64 s x" and ?Y = "val64 s y" and ?R = "val64 s r"
  obtain q0 q1 where q: "q = (q0, q1)" by (cases q)
  have r: "pair_old (vnext c) r" and qo: "vold (vnext c) q0" "vold (vnext c) q1"
    and R: "unat ?R = unat ?X div 2 ^ Suc i mod unat ?Y"
    and Q: "\<not> remainder \<Longrightarrow> pair (vr s q0) (vr s q1) = push_bit (Suc i) (of_nat (unat ?X div 2 ^ Suc i div unat ?Y))"
    using st by (auto simp: div_state_def q)
  have Y: "0 < unat ?Y" using y0 by (simp add: unat_gt_0)
  then have RY: "unat ?R < unat ?Y" by (simp add: R)
  obtain w where w: "value_regs_get x (i div 32) = Some w" "vold (vnext c) w"
    "\<And>s. bit (vr s w) (i mod 32) = bit (val64 s x) i"
    using x i by (rule dividend_word) blast
  let ?b = "bit ?X i"
  have d: "drop_bit (unat (of_nat i AND 31 :: u8)) (vr s w) AND 1 = of_bool ?b"
    by (simp only: unat_index [OF i] digit_word w(3))
  have i32: "unat (of_nat i AND 31 :: u8) < 32" by (simp add: unat_index [OF i])
  have A: "unat ?X div 2 ^ i = 2 * (unat ?X div 2 ^ Suc i) + of_bool ?b" by (rule dividend_bits)
  have sub: "step_sub ?R ?Y (of_bool ?b) \<longleftrightarrow> unat ?Y \<le> 2 * (unat ?X div 2 ^ Suc i mod unat ?Y) + of_bool ?b"
    using step_arith(1) [OF RY] by (simp only: R)
  have res: "unat (step_res ?R ?Y (of_bool ?b)) = unat ?X div 2 ^ i mod unat ?Y"
    using step_arith(2) [OF RY, of ?b] digit_step(1) [OF Y] by (simp only: R A)
  have quo: "push_bit (Suc i) (of_nat (unat ?X div 2 ^ Suc i div unat ?Y) :: u64)
      OR push_bit i (of_bool (step_sub ?R ?Y (of_bool ?b))) = push_bit i (of_nat (unat ?X div 2 ^ i div unat ?Y))"
    unfolding or_digit sub A digit_step(2) [OF Y] by simp
  note step = residual_step_computes [OF ok _ y r one w(1,2) i32, unfolded d]
  show ?thesis
  proof (rule computes_step [OF step])
    show "vnext c + 22 \<le> L" "22 \<le> (24 :: nat)" using room by simp_all
  next
    fix a c' s'
    assume e: "extends L 22 c s c' s'" and post: "(case a of (sub, r') \<Rightarrow> \<lambda>c' s'.
      vold (vnext c') sub \<and> pair_old (vnext c') r' \<and> vr s' sub = of_bool (step_sub ?R ?Y (of_bool ?b))
      \<and> val64 s' r' = step_res ?R ?Y (of_bool ?b)) c' s'"
    obtain sub r' where a: "a = (sub, r')" by (cases a)
    note es = extends_state [OF e]
    have room': "vnext c' + 2 \<le> L" using e room by (simp add: extends_def)
    have fin: "div_state ?X ?Y remainder i (r', q0', q1') c2 s2"
      if "extends L 2 c' s' c2 s2" "vold (vnext c2) q0'" "vold (vnext c2) q1'"
        "\<not> remainder \<Longrightarrow> pair (vr s2 q0') (vr s2 q1') = push_bit i (of_nat (unat ?X div 2 ^ i div unat ?Y))"
      for q0' q1' c2 s2
      using that post extends_state [OF that(1)] res by (simp add: div_state_def a)
    show "computes L (24 - 22) ((case a of (sub, r) \<Rightarrow> \<lambda>c.
        (if \<not> remainder then div_quotient_step i sub q c else Some (q, c)) \<bind> (\<lambda>(q, c). Some ((r, q), c))) c')
        c' s' (\<lambda>st c2 s2. div_state ?X ?Y remainder i st c2 s2)"
    proof (cases remainder)
      case True
      then show ?thesis using fin [of c' s' q0 q1] es qo
        by (simp add: a q computes_def lowers_Some extends_def)
    next
      case False
      have v: "vold (vnext c') sub" "vr s' sub = of_bool (step_sub ?R ?Y (of_bool ?b))"
        using post by (simp_all add: a)
      have pq: "pair (vr s' q0) (vr s' q1) OR
          (if i < 32 then pair (push_bit (unat (of_nat i AND 31 :: u8)) (vr s' sub)) 0
           else pair 0 (push_bit (unat (of_nat i AND 31 :: u8)) (vr s' sub)))
          = push_bit i (of_nat (unat ?X div 2 ^ i div unat ?Y))"
        unfolding v unat_index [OF i] quotient_digit [OF i] es(3) [OF qo(1)] es(3) [OF qo(2)] Q [OF False]
        by (rule quo)
      have qs: "computes L 2 (div_quotient_step i sub (q0, q1) c') c' s' (\<lambda>(r0, r1) c2 s2.
          vold (vnext c2) r0 \<and> vold (vnext c2) r1 \<and>
          pair (vr s2 r0) (vr s2 r1) = push_bit i (of_nat (unat ?X div 2 ^ i div unat ?Y)))"
        using quotient_step_computes
          [OF es(5) room' v(1) es(2) [OF qo(1)] es(2) [OF qo(2)] i, where s = s', unfolded pq] .
      show ?thesis
        unfolding a q prod.case if_P [OF False]
        by (rule computes_bind [OF qs, where K' = 0])
          (use fin in \<open>auto simp: computes_def lowers_Some extends_def\<close>)
    qed
  qed
qed

lemma div_loop_Suc:
  "div_loop x y one remainder (Suc i) r q c =
     (div_residual_step x y one i r c \<bind> (\<lambda>((sub, r), c).
       (if \<not> remainder then div_quotient_step i sub q c else Some (q, c)) \<bind> (\<lambda>(q, c). Some ((r, q), c))))
     \<bind> (\<lambda>((r, q), c). div_loop x y one remainder i r q c)"
  by (cases remainder) (simp_all add: case_prod_unfold)

lemma div_loop_computes:
  assumes "alloc_ok L c" "vnext c + 24 * n \<le> L" "n \<le> 64"
    and "pair_old (vnext c) x" "pair_old (vnext c) y" "val64 s y \<noteq> 0"
    and "vold (vnext c) one" "vr s one = 1"
    and "div_state (val64 s x) (val64 s y) remainder n (r, q) c s"
  shows "computes L (24 * n) (div_loop x y one remainder n r q c) c s
    (\<lambda>st c' s'. div_state (val64 s x) (val64 s y) remainder 0 st c' s')"
  using assms
proof (induction n arbitrary: r q c s)
  case 0
  then show ?case by (simp add: computes_return)
next
  case (Suc i)
  have room: "vnext c + 24 \<le> L" and i: "i < 64" using Suc.prems by simp_all
  note body = div_body_computes [OF Suc.prems(1) room i Suc.prems(4-9)]
  show ?case
    unfolding div_loop_Suc
  proof (rule computes_bind [OF body, where K' = "24 * i"])
    fix a c' s'
    assume e: "extends L 24 c s c' s'" and st: "div_state (val64 s x) (val64 s y) remainder i a c' s'"
    obtain r' q' where a: "a = (r', q')" by (cases a)
    note es = extends_state [OF e]
    have "computes L (24 * i) (div_loop x y one remainder i r' q' c') c' s'
        (\<lambda>st c' s''. div_state (val64 s' x) (val64 s' y) remainder 0 st c' s'')"
      using Suc.prems e st by (intro Suc.IH) (auto simp: a es extends_def [of L 24])
    then show "computes L (24 * i) ((\<lambda>((r, q), c). div_loop x y one remainder i r q c) (a, c')) c' s'
        (\<lambda>st c' s''. div_state (val64 s x) (val64 s y) remainder 0 st c' s'')"
      using Suc.prems(4,5) by (simp add: a es)
  qed simp
qed

lemma pair_or_zero: "a OR b = 0 \<longleftrightarrow> pair a b = 0" for a b :: u32
  by (simp add: pair_eq_0_iff or_eq_0_iff)

lemma div_state_final:
  assumes "div_state X Y remainder 0 st c s"
  shows "pair_old (vnext c) (if remainder then fst st else Two_regs (fst (snd st)) (snd (snd st))) \<and>
    val64 s (if remainder then fst st else Two_regs (fst (snd st)) (snd (snd st)))
      = (if remainder then X mod Y else X div Y)"
  using assms
  by (auto simp: div_state_def case_prod_unfold word_unat_eq_iff unat_mod simp flip: unat_div)

text \<open>The context after the constants and the zero test of \<open>sia_i64_divrem\<close>.\<close>

definition div_setup :: "mreg \<Rightarrow> mreg \<Rightarrow> lower_ctx \<Rightarrow> lower_ctx" where
  "div_setup y0 y1 c =
     (let zero = Virtual (vnext c) Int_class; one = Virtual (vnext c + 1) Int_class;
          test = Virtual (vnext c + 2) Int_class in
      emitted (TrapIfZ test INTEGER_DIVISION_BY_ZERO) (emitted (TwoOp Op_Or test y0 y1)
        (emitted (LoadConst32 one 1) (emitted (LoadConst32 zero 0) (bump (bump (bump c)))))))"

lemma divrem_eq:
  assumes "alloc_ok L c" "vnext c + 3 \<le> L" "y = Two_regs y0 y1"
  shows "sia_i64_divrem x y remainder c =
    Some ((Virtual (vnext c) Int_class, Virtual (vnext c + 1) Int_class), div_setup y0 y1 c) \<bind>
    (\<lambda>((zero, one), c). div_loop x y one remainder 64 (Two_regs zero zero) (zero, zero) c \<bind>
      (\<lambda>((residual, q), c). Some (if remainder then residual else Two_regs (fst q) (snd q), c)))"
  using assms
  by (cases remainder) (simp_all add: sia_i64_divrem_def div_setup_def alloc_okD Let_def case_prod_unfold)

lemma div_setup_computes:
  assumes ok: "alloc_ok L c" and room: "vnext c + 3 \<le> L" and y: "y = Two_regs y0 y1"
    and old: "pair_old (vnext c) y" and nz: "val64 s y \<noteq> 0"
  shows "computes L 3 (Some ((Virtual (vnext c) Int_class, Virtual (vnext c + 1) Int_class), div_setup y0 y1 c)) c s
    (\<lambda>(zero, one) c' s'. vold (vnext c') zero \<and> vold (vnext c') one \<and> vr s' zero = 0 \<and> vr s' one = 1)"
proof -
  obtain v k w l where Y: "y0 = Virtual v k" "y1 = Virtual w l" "v < vnext c" "w < vnext c"
    using old by (auto simp: y vold_iff)
  moreover have "vr s y0 OR vr s y1 \<noteq> 0" using nz by (simp add: y pair_or_zero)
  ultimately show ?thesis
    using ok room by (simp add: div_setup_def Let_def straight)
qed

lemma divrem_computes:
  assumes ok: "alloc_ok L c" and room: "vnext c + 1539 \<le> L"
    and x: "pair_old (vnext c) x" and y: "pair_old (vnext c) y" and nz: "val64 s y \<noteq> 0"
  shows "computes L 1539 (sia_i64_divrem x y remainder c) c s (\<lambda>p c' s'. pair_old (vnext c') p \<and>
    val64 s' p = (if remainder then val64 s x mod val64 s y else val64 s x div val64 s y))"
proof -
  obtain y0 y1 where Y: "y = Two_regs y0 y1" using y by (auto elim: pair_oldE)
  have room3: "vnext c + 3 \<le> L" using room by simp
  have Yn: "0 < unat (val64 s y)" using nz by (simp add: unat_gt_0)
  show ?thesis
    unfolding divrem_eq [OF ok room3 Y]
  proof (rule computes_bind [OF div_setup_computes [OF ok room3 Y y nz], where K' = 1536])
    fix a c' s'
    assume e: "extends L 3 c s c' s'" and post: "(case a of (zero, one) \<Rightarrow> \<lambda>c' s'.
      vold (vnext c') zero \<and> vold (vnext c') one \<and> vr s' zero = 0 \<and> vr s' one = 1) c' s'"
    obtain zero one where a: "a = (zero, one)" by (cases a)
    note es = extends_state [OF e]
    have z: "vold (vnext c') zero" "vold (vnext c') one" "vr s' zero = 0" "vr s' one = 1"
      using post by (simp_all add: a)
    have st: "div_state (val64 s' x) (val64 s' y) remainder 64 (Two_regs zero zero, zero, zero) c' s'"
      using z unat_u64 [of "val64 s' x"] Yn by (simp add: div_state_def)
    have "computes L (24 * 64) (div_loop x y one remainder 64 (Two_regs zero zero) (zero, zero) c') c' s'
        (\<lambda>st c2 s2. div_state (val64 s' x) (val64 s' y) remainder 0 st c2 s2)"
      using e room es x y nz z st by (intro div_loop_computes) (auto simp: extends_def [of L 3])
    then have "computes L 1536 (div_loop x y one remainder 64 (Two_regs zero zero) (zero, zero) c' \<bind>
        (\<lambda>((residual, q), c). Some (if remainder then residual else Two_regs (fst q) (snd q), c))) c' s'
        (\<lambda>p c' s'. pair_old (vnext c') p \<and>
          val64 s' p = (if remainder then val64 s x mod val64 s y else val64 s x div val64 s y))"
      by (rule computes_bind [where K' = 0])
        (auto simp: extends_def es x y dest!: div_state_final intro!: computes_return)
    then show "computes L 1536 ((\<lambda>((zero, one), c).
        div_loop x y one remainder 64 (Two_regs zero zero) (zero, zero) c \<bind>
        (\<lambda>((residual, q), c). Some (if remainder then residual else Two_regs (fst q) (snd q), c))) (a, c')) c' s'
        (\<lambda>p c' s'. pair_old (vnext c') p \<and>
          val64 s' p = (if remainder then val64 s x mod val64 s y else val64 s x div val64 s y))"
      by (simp add: a)
  qed simp
qed

text \<open>With a zero divisor the code traps before the division starts.\<close>

lemma divrem_traps:
  assumes ok: "alloc_ok L c" and room: "vnext c + 1539 \<le> L"
    and x: "pair_old (vnext c) x" and y: "pair_old (vnext c) y" and z: "val64 s y = 0"
  shows "traps (sia_i64_divrem x y remainder c) c s INTEGER_DIVISION_BY_ZERO"
proof -
  obtain v k w l where Y: "y = Two_regs (Virtual v k) (Virtual w l)" "v < vnext c" "w < vnext c"
    using y by (rule pair_oldE)
  have room3: "vnext c + 3 \<le> L" using room by simp
  let ?y0 = "Virtual v k" and ?y1 = "Virtual w l"
  let ?c1 = "div_setup ?y0 ?y1 c" and ?z = "Virtual (vnext c) Int_class" and ?o = "Virtual (vnext c + 1) Int_class"
  define s1 where "s1 = \<lparr>vr = (\<lambda>_. 1)(?z := 0), vmem = vmem s\<rparr>"
  have n: "vnext ?c1 = vnext c + 3" "alloc_ok L ?c1" using ok by (simp_all add: div_setup_def Let_def)
  have "val64 s1 y \<noteq> 0" using Y by (simp add: s1_def pair_eq_0_iff)
  moreover have "div_state (val64 s1 x) (val64 s1 y) remainder 64 (Two_regs ?z ?z, ?z, ?z) ?c1 s1"
    using unat_u64 [of "val64 s1 x"] by (simp add: div_state_def n s1_def)
  ultimately have "computes L (24 * 64) (div_loop x y ?o remainder 64 (Two_regs ?z ?z) (?z, ?z) ?c1) ?c1 s1
      (\<lambda>st c2 s2. div_state (val64 s1 x) (val64 s1 y) remainder 0 st c2 s2)"
    using n room x y
    by (intro div_loop_computes) (auto simp: s1_def intro: pair_old_mono)
  then have l: "lowers ((\<lambda>((zero, one), c). div_loop x y one remainder 64 (Two_regs zero zero) (zero, zero) c \<bind>
      (\<lambda>((residual, q), c). Some (if remainder then residual else Two_regs (fst q) (snd q), c))) ((?z, ?o), ?c1))
      ?c1 s1 (\<lambda>_ _ _. True)"
    unfolding computes_def prod.case by (rule lowers_bind) (auto intro!: lowers_return)
  have "vr s ?y0 = 0" "vr s ?y1 = 0" using z by (simp_all add: Y pair_eq_0_iff)
  then have tr: "traps (Some ((?z, ?o), ?c1)) c s INTEGER_DIVISION_BY_ZERO"
    using Y by (simp add: traps_def div_setup_def Let_def)
  show ?thesis
    unfolding divrem_eq [OF ok room3 Y(1)] using tr l by (rule traps_bind)
qed

section \<open>Memory\<close>

definition vload64 :: "vstate \<Rightarrow> u32 \<Rightarrow> u64" where
  "vload64 s a = pair (vload32 s a) (vload32 s (a + 4))"

lemma vstep_memory [simp]:
  "aligned4 (vr s b + off) \<Longrightarrow>
     vstep (LoadBaseOffset d b off ty_I32) s = Some (Inr (set_vr d (vload32 s (vr s b + off)) s))"
  "aligned4 (vr s b + off) \<Longrightarrow>
     vstep (StoreBaseOffset a b off ty_I32) s = Some (Inr (vstore32 (vr s b + off) (vr s a) s))"
  by (simp_all add: vstep_def)

lemma aligned4_iff: "aligned4 a \<longleftrightarrow> unat a mod 4 = 0"
proof -
  have "a AND 3 = take_bit 2 a" by (simp add: take_bit_eq_mask mask_eq_exp_minus_1)
  then show ?thesis
    by (simp add: aligned4_def word_unat_eq_iff unsigned_take_bit_eq take_bit_eq_mod unat_mod)
qed

lemma aligned4_add4: "aligned4 a \<Longrightarrow> aligned4 (a + 4)"
  by (simp add: aligned4_iff unat_word_ariths mod_mod_cancel)

lemma load64_computes:
  assumes ok: "alloc_ok L c" and room: "vnext c + 2 \<le> L" and b: "vold (vnext c) b"
    and al: "aligned4 (vr s b + off)"
  shows "computes L 2 (sia_i64_load b off c) c s
    (\<lambda>p c' s'. pair_old (vnext c') p \<and> val64 s' p = vload64 s (vr s b + off))"
proof -
  obtain v k where B: "b = Virtual v k" "v < vnext c" using b by (rule voldE)
  have al': "aligned4 (vr s b + (off + 4))" using aligned4_add4 [OF al] by (simp add: add.assoc)
  show ?thesis
    using ok room B al al'
    by (simp add: sia_i64_load_def alloc_okD straight vload64_def vload32_def add.assoc)
qed

lemma store64_lowers:
  assumes x: "pair_old n x" and al: "aligned4 (vr s b + off)"
  shows "lowers (sia_i64_store x b off c) c s (\<lambda>out c' s'. out = [] \<and> vr s' = vr s \<and>
    vload64 s' (vr s b + off) = val64 s x \<and>
    (\<forall>a. a - (vr s b + off) \<ge> 8 \<longrightarrow> vmem s' a = vmem s a))"
proof -
  obtain v k w l where X: "x = Two_regs (Virtual v k) (Virtual w l)" using x by (rule pair_oldE)
  let ?a = "vr s b + off"
  have al': "aligned4 (vr s b + (off + 4))" using aligned4_add4 [OF al] by (simp add: add.assoc)
  let ?s2 = "vstore32 (?a + 4) (vr s (Virtual w l)) (vstore32 ?a (vr s (Virtual v k)) s)"
  have l: "lowers (sia_i64_store x b off c) c s (\<lambda>out c' s'. out = [] \<and> s' = ?s2)"
    using al al' by (simp add: sia_i64_store_def X lowers_Some vstore32_def add.assoc)
  have v: "vload64 ?s2 ?a = val64 s x"
    by (simp add: X vload64_def vload32_def vstore32_def add.assoc u32_le_bytes_roundtrip u32_to_le_bytes_def)
  have m: "vmem ?s2 a = vmem s a" if "8 \<le> a - ?a" for a
  proof -
    have "a \<noteq> ?a + of_nat j" if "j < 8" for j
      using that \<open>8 \<le> a - ?a\<close> by (auto simp: word_le_nat_alt unat_of_nat)
    from this [of 0] this [of 1] this [of 2] this [of 3] this [of 4] this [of 5] this [of 6] this [of 7]
    show ?thesis by (simp add: vstore32_def add.assoc)
  qed
  have "vr ?s2 = vr s" by (simp add: vstore32_def)
  then show ?thesis using v m by (intro lowers_mono [OF l]) auto
qed

end
