(* ===== verification/Sia32_Lower_Rules.thy ===== *)
theory Sia32_Lower_Rules
  imports Sia32_Lower_Correct
begin

text \<open>
  The selection rules against the meaning of the IR: what an integer instruction computes according to
  its documentation in \<open>cranelift/codegen/meta/src/shared/instructions.rs\<close>, how a value is represented
  in registers, and that the code the rules select computes that value.

  A value of type \<open>I64\<close> is held in a pair of registers. A narrower value is held in the low bits of one
  register and the bits above it are arbitrary, since \<open>ireduce\<close> selects no code.
\<close>

section \<open>Meaning of the integer instructions\<close>

definition trunc :: "ir_type \<Rightarrow> u64 \<Rightarrow> u64" where
  "trunc ty x = take_bit (ty_bits ty) x"

definition sext :: "ir_type \<Rightarrow> u64 \<Rightarrow> u64" where
  "sext ty x = signed_take_bit (ty_bits ty - 1) x"

definition clif_icmp :: "int_cc \<Rightarrow> ir_type \<Rightarrow> u64 \<Rightarrow> u64 \<Rightarrow> bool" where
  "clif_icmp cc ty x y =
     (if cc_is_signed cc then int_holds cc (sext ty x) (sext ty y) else int_holds cc x y)"

definition clif_shift :: "nat \<Rightarrow> ir_type \<Rightarrow> u64 \<Rightarrow> u64 \<Rightarrow> u64" where
  "clif_shift op ty x y =
     (let n = unat y mod ty_bits ty in
      if op = 0 then trunc ty (push_bit n x) else if op = 1 then drop_bit n x
      else trunc ty (signed_drop_bit n (sext ty x)))"

definition clif_bitcount :: "nat \<Rightarrow> ir_type \<Rightarrow> u64 \<Rightarrow> u64" where
  "clif_bitcount op ty x =
     (let bits = [0..<ty_bits ty] in
      word_of_nat (if op = 0 then length (takeWhile (\<lambda>i. \<not> bit x i) (rev bits))
        else if op = 1 then length (takeWhile (\<lambda>i. \<not> bit x i) bits)
        else length (filter (bit x) bits)))"

text \<open>
  The results of an instruction, each with its type, from the values of its operands, or the trap.
  \<open>None\<close>: the instruction is outside the scalar integer fragment below.
\<close>

definition INTEGER_OVERFLOW :: trap_code where "INTEGER_OVERFLOW = 252"

definition clif_sem ::
  "(nat \<Rightarrow> ir_type) \<Rightarrow> (nat \<Rightarrow> u64) \<Rightarrow> clif \<Rightarrow> (trap_code + (ir_type \<times> u64) list) option" where
  "clif_sem tys \<rho> i =
     (case i of
        Iconst ty n \<Rightarrow> Some (Inr [(ty, trunc ty n)])
      | Iadd ty x y \<Rightarrow> Some (Inr [(ty, trunc ty (\<rho> x + \<rho> y))])
      | Isub ty x y \<Rightarrow> Some (Inr [(ty, trunc ty (\<rho> x - \<rho> y))])
      | Ineg ty x \<Rightarrow> Some (Inr [(ty, trunc ty (- \<rho> x))])
      | Band ty x y \<Rightarrow> Some (Inr [(ty, \<rho> x AND \<rho> y)])
      | Bor ty x y \<Rightarrow> Some (Inr [(ty, \<rho> x OR \<rho> y)])
      | Bxor ty x y \<Rightarrow> Some (Inr [(ty, \<rho> x XOR \<rho> y)])
      | Bnot ty x \<Rightarrow> Some (Inr [(ty, trunc ty (NOT (\<rho> x)))])
      | Ishl ty x y \<Rightarrow> Some (Inr [(ty, clif_shift 0 ty (\<rho> x) (\<rho> y))])
      | Ushr ty x y \<Rightarrow> Some (Inr [(ty, clif_shift 1 ty (\<rho> x) (\<rho> y))])
      | Sshr ty x y \<Rightarrow> Some (Inr [(ty, clif_shift 2 ty (\<rho> x) (\<rho> y))])
      | Ir_Clz ty x \<Rightarrow> Some (Inr [(ty, clif_bitcount 0 ty (\<rho> x))])
      | Ir_Ctz ty x \<Rightarrow> Some (Inr [(ty, clif_bitcount 1 ty (\<rho> x))])
      | Popcnt ty x \<Rightarrow> Some (Inr [(ty, clif_bitcount 2 ty (\<rho> x))])
      | Uextend ty x \<Rightarrow> Some (Inr [(ty, \<rho> x)])
      | Sextend ty x \<Rightarrow> Some (Inr [(ty, trunc ty (sext (tys x) (\<rho> x)))])
      | Ireduce ty x \<Rightarrow> Some (Inr [(ty, trunc ty (\<rho> x))])
      | Imul ty x y \<Rightarrow> Some (Inr [(ty, trunc ty (\<rho> x * \<rho> y))])
      | Umulhi ty x y \<Rightarrow>
          Some (Inr [(ty, word_of_nat (unat (\<rho> x) * unat (\<rho> y) div 2 ^ ty_bits ty))])
      | Umin ty x y \<Rightarrow> Some (Inr [(ty, min (\<rho> x) (\<rho> y))])
      | Udiv ty x y \<Rightarrow>
          if \<rho> y = 0 then Some (Inl INTEGER_DIVISION_BY_ZERO) else Some (Inr [(ty, \<rho> x div \<rho> y)])
      | Urem ty x y \<Rightarrow>
          if \<rho> y = 0 then Some (Inl INTEGER_DIVISION_BY_ZERO) else Some (Inr [(ty, \<rho> x mod \<rho> y)])
      | Sdiv ty x y \<Rightarrow>
          let a = sint (sext ty (\<rho> x)); b = sint (sext ty (\<rho> y)) in
          if \<rho> y = 0 then Some (Inl INTEGER_DIVISION_BY_ZERO)
          else if a = - (2 ^ (ty_bits ty - 1)) \<and> b = - 1 then Some (Inl INTEGER_OVERFLOW)
          else Some (Inr [(ty, trunc ty (word_of_int (a sdiv b)))])
      | Srem ty x y \<Rightarrow>
          if \<rho> y = 0 then Some (Inl INTEGER_DIVISION_BY_ZERO)
          else Some (Inr [(ty, trunc ty (word_of_int (sint (sext ty (\<rho> x)) smod sint (sext ty (\<rho> y)))))])
      | Uadd_overflow ty x y \<Rightarrow>
          Some (Inr [(ty, trunc ty (\<rho> x + \<rho> y)),
            (ty_I8, of_bool (2 ^ ty_bits ty \<le> unat (\<rho> x) + unat (\<rho> y)))])
      | Ir_Icmp cc x y \<Rightarrow> Some (Inr [(ty_I8, of_bool (clif_icmp cc (tys x) (\<rho> x) (\<rho> y)))])
      | Ir_Select ty b x y \<Rightarrow> Some (Inr [(ty, if \<rho> b \<noteq> 0 then \<rho> x else \<rho> y)])
      | Ir_Trap code \<Rightarrow> Some (Inl code)
      | Trapnz v code \<Rightarrow> Some (if \<rho> v \<noteq> 0 then Inl code else Inr [])
      | Trapz v code \<Rightarrow> Some (if \<rho> v = 0 then Inl code else Inr [])
      | _ \<Rightarrow> None)"

section \<open>Values in registers\<close>

definition value_rep :: "ir_type \<Rightarrow> value_regs \<Rightarrow> vstate \<Rightarrow> u64 \<Rightarrow> bool" where
  "value_rep ty p s x =
     (case p of
        One_reg r \<Rightarrow> int_fits_in_32 ty \<and> trunc ty (ucast (vr s r)) = x
      | Two_regs a b \<Rightarrow> ty = ty_I64 \<and> val64 s p = x)"

definition regs_old :: "nat \<Rightarrow> value_regs \<Rightarrow> bool" where
  "regs_old n p \<longleftrightarrow> list_all (vold n) (regs_of p)"

definition holds :: "lower_ctx \<Rightarrow> vstate \<Rightarrow> nat \<Rightarrow> u64 \<Rightarrow> bool" where
  "holds c s v x \<longleftrightarrow> \<not> value_sunk c v \<and>
     (\<exists>p. value_regs_of c v = Some p \<and> regs_old (vnext c) p \<and> value_rep (value_type c v) p s x)"

text \<open>Selected code: the registers of the results represent the results.\<close>

definition selects ::
  "nat \<Rightarrow> (value_regs list \<times> lower_ctx) option option \<Rightarrow> lower_ctx \<Rightarrow> vstate \<Rightarrow> (ir_type \<times> u64) list \<Rightarrow> bool" where
  "selects L r c s outs \<longleftrightarrow> (\<exists>m. r = map_option Some m \<and>
     computes L 1539 m c s (\<lambda>out c' s'.
       list_all2 (\<lambda>p (ty, x). regs_old (vnext c') p \<and> value_rep ty p s' x) out outs))"

definition used :: "nat \<Rightarrow> lower_ctx \<Rightarrow> lower_ctx" where
  "used v c = c\<lparr>value_lowered_uses := (value_lowered_uses c)(v := value_lowered_uses c v + 1)\<rparr>"

lemma used_sel [simp]:
  "vnext (used v c) = vnext c" "can_alloc (used v c) w = can_alloc c w" "alloc_ok L (used v c) = alloc_ok L c"
  "ir_insts (used v c) = ir_insts c" "value_type (used v c) = value_type c" "value_sunk (used v c) = value_sunk c"
  "value_regs_of (used v c) = value_regs_of c"
  by (simp_all add: used_def vnext_def can_alloc_def alloc_ok_def)

lemma bump_value_sel [simp]:
  "value_type (bump c) = value_type c" "value_sunk (bump c) = value_sunk c" "value_regs_of (bump c) = value_regs_of c"
  "value_type (emitted i c) = value_type c" "value_sunk (emitted i c) = value_sunk c"
  "value_regs_of (emitted i c) = value_regs_of c"
  by (simp_all add: bump_def emitted_def)

lemma extends_used [simp]:
  "extends L K (used v c) s c' s' = extends L K c s c' s'"
  by (simp add: extends_def)

lemma computes_used: "computes L K m (used v c) s P = computes L K m c s P"
  by (simp add: computes_def lowers_def)

lemma ty_facts [simp]:
  "ty_bits ty_I8 = 8" "ty_bits ty_I16 = 16" "ty_bits ty_I32 = 32" "ty_bits ty_I64 = 64"
  "ty_I8 \<noteq> ty_I64" "ty_I16 \<noteq> ty_I64" "ty_I32 \<noteq> ty_I64" "ty_I64 \<noteq> ty_I8" "ty_I64 \<noteq> ty_I16" "ty_I64 \<noteq> ty_I32"
  "ty_I8 \<noteq> ty_I32" "ty_I16 \<noteq> ty_I32" "ty_I8 \<noteq> ty_I16" "ty_I16 \<noteq> ty_I8" "ty_I32 \<noteq> ty_I8" "ty_I32 \<noteq> ty_I16"
  "\<not> int_fits_in_32 ty_I64"
  by code_simp+

lemma fits_cases:
  assumes "int_fits_in_32 ty"
  obtains "ty = ty_I8" | "ty = ty_I16" | "ty = ty_I32"
proof -
  have "ty_bits ty_I128 = 128" by code_simp
  then show thesis using assms that by (auto simp: int_fits_in_32_def is_int_def)
qed

lemma fits_bits: "int_fits_in_32 ty \<Longrightarrow> ty_bits ty \<le> 32" "int_fits_in_32 ty \<Longrightarrow> 8 \<le> ty_bits ty"
  by (auto elim: fits_cases)

lemma fits_not_64: "int_fits_in_32 ty \<Longrightarrow> ty \<noteq> ty_I64"
  by auto

section \<open>Operands\<close>

definition word_val :: "lower_ctx \<Rightarrow> vstate \<Rightarrow> nat \<Rightarrow> u32 \<Rightarrow> bool" where
  "word_val c s v a \<longleftrightarrow> \<not> value_sunk c v \<and> (\<exists>n k. value_regs_of c v = Some (One_reg (Virtual n k))
     \<and> n < vnext c \<and> vr s (Virtual n k) = a)"

definition pair_val :: "lower_ctx \<Rightarrow> vstate \<Rightarrow> nat \<Rightarrow> u64 \<Rightarrow> bool" where
  "pair_val c s v x \<longleftrightarrow> \<not> value_sunk c v \<and> (\<exists>p. value_regs_of c v = Some p
     \<and> pair_old (vnext c) p \<and> val64 s p = x)"

lemma holds_word:
  assumes "holds c s v x" "int_fits_in_32 (value_type c v)"
  obtains a where "word_val c s v a" "trunc (value_type c v) (ucast a) = x"
proof -
  obtain p where p: "\<not> value_sunk c v" "value_regs_of c v = Some p" "regs_old (vnext c) p"
    "value_rep (value_type c v) p s x" using assms(1) by (auto simp: holds_def)
  obtain r where r: "p = One_reg r" using p(4) fits_not_64 [OF assms(2)] by (cases p) (auto simp: value_rep_def)
  obtain n k where "r = Virtual n k" "n < vnext c" using p(3) by (auto simp: r regs_old_def vold_iff)
  then show thesis using that p by (auto simp: r value_rep_def word_val_def)
qed

lemma holds_pair:
  assumes "holds c s v x" "value_type c v = ty_I64"
  shows "pair_val c s v x"
proof -
  obtain p where p: "\<not> value_sunk c v" "value_regs_of c v = Some p" "regs_old (vnext c) p"
    "value_rep ty_I64 p s x" using assms by (auto simp: holds_def)
  then show ?thesis by (cases p) (auto simp: pair_val_def value_rep_def regs_old_def)
qed

lemma put_value_eq: "value_regs_of c v = Some p \<Longrightarrow> \<not> value_sunk c v \<Longrightarrow> put_value_in_regs v c = Some (p, used v c)"
  by (simp add: put_value_in_regs_def used_def)

lemma put_in_reg_eq:
  "value_regs_of c v = Some (One_reg r) \<Longrightarrow> \<not> value_sunk c v \<Longrightarrow> put_in_reg v c = Some (r, used v c)"
  by (simp add: put_in_reg_def put_value_eq)

lemma put_in_reg_pair:
  "value_regs_of c v = Some (Two_regs a b) \<Longrightarrow> put_in_reg v c = None"
  by (auto simp: put_in_reg_def put_value_in_regs_def assert_that_def)

lemma with_regs2_eq:
  assumes "value_regs_of c x = Some p" "\<not> value_sunk c x" "value_regs_of c y = Some q" "\<not> value_sunk c y"
  shows "with_regs2 x y c k = k p q (used y (used x c))"
  using assms by (simp add: with_regs2_def put_value_eq)

lemma with_regs1_eq:
  assumes "value_regs_of c x = Some p" "\<not> value_sunk c x"
  shows "with_regs1 x c k = k p (used x c)"
  using assms by (simp add: with_regs1_def put_value_eq)

lemma with_reg2_eq:
  assumes "value_regs_of c x = Some (One_reg p)" "\<not> value_sunk c x"
    "value_regs_of c y = Some (One_reg q)" "\<not> value_sunk c y"
  shows "with_reg2 x y c k = k p q (used y (used x c))"
  using assms by (simp add: with_reg2_def put_in_reg_eq)

section \<open>Results\<close>

lemma selects_pair:
  assumes "computes L K m c s (\<lambda>r c' s'. pair_old (vnext c') r \<and> val64 s' r = x)" "K \<le> 1539"
  shows "selects L (map_option Some (output_regs m)) c s [(ty_I64, x)]"
proof -
  have "computes L 1539 (output_regs m) c s (\<lambda>out c' s'.
      list_all2 (\<lambda>p (ty, x). regs_old (vnext c') p \<and> value_rep ty p s' x) out [(ty_I64, x)])"
    unfolding output_regs_def
    by (rule computes_bind [OF assms(1), where K' = 0])
      (use assms(2) in \<open>auto intro!: computes_return elim!: pair_oldE
         simp: extends_def regs_old_def value_rep_def\<close>)
  then show ?thesis unfolding selects_def by blast
qed

lemma selects_reg:
  assumes "computes L K m c s (\<lambda>r c' s'. vold (vnext c') r \<and> vr s' r = a)" "K \<le> 1539"
    and "int_fits_in_32 ty" "trunc ty (ucast a) = x"
  shows "selects L (map_option Some (output_reg m)) c s [(ty, x)]"
proof -
  have "computes L 1539 (output_reg m) c s (\<lambda>out c' s'.
      list_all2 (\<lambda>p (ty, x). regs_old (vnext c') p \<and> value_rep ty p s' x) out [(ty, x)])"
    unfolding output_reg_def
    by (rule computes_bind [OF assms(1), where K' = 0])
      (use assms in \<open>auto intro!: computes_return simp: extends_def regs_old_def value_rep_def\<close>)
  then show ?thesis unfolding selects_def by blast
qed

lemma rule_if_True [simp]: "rule_if True m = map_option Some m"
  by (simp add: rule_if_def)

section \<open>Rules for \<open>I64\<close>\<close>

lemma trunc_64 [simp]: "trunc ty_I64 x = x"
  by (simp add: trunc_def take_bit_word_eq_self)

lemma sext_64 [simp]: "sext ty_I64 x = x"
proof (rule bit_word_eqI)
  fix n assume "n < LENGTH(64)"
  then show "bit (sext ty_I64 x) n = bit x n"
    by (cases "n = 63") (auto simp: sext_def bit_simps min_def)
qed

lemma pair_valE:
  assumes "pair_val c s v x"
  obtains p where "value_regs_of c v = Some p" "\<not> value_sunk c v" "pair_old (vnext c) p" "val64 s p = x"
  using assms by (auto simp: pair_val_def)

lemma selects_regs2:
  assumes x: "pair_val c s x X" and y: "pair_val c s y Y" and ok: "alloc_ok L c" and K: "K \<le> 1539"
    and sel: "\<And>p q c'. alloc_ok L c' \<Longrightarrow> vnext c' = vnext c \<Longrightarrow> pair_old (vnext c') p \<Longrightarrow> pair_old (vnext c') q
      \<Longrightarrow> val64 s p = X \<Longrightarrow> val64 s q = Y
      \<Longrightarrow> computes L K (f p q c') c' s (\<lambda>r c'' s'. pair_old (vnext c'') r \<and> val64 s' r = g (val64 s p) (val64 s q))"
  shows "selects L (map_option Some (with_regs2 x y c (\<lambda>rx ry c. output_regs (f rx ry c)))) c s [(ty_I64, g X Y)]"
proof -
  obtain p where p: "value_regs_of c x = Some p" "\<not> value_sunk c x" "pair_old (vnext c) p" "val64 s p = X"
    using x by (rule pair_valE)
  obtain q where q: "value_regs_of c y = Some q" "\<not> value_sunk c y" "pair_old (vnext c) q" "val64 s q = Y"
    using y by (rule pair_valE)
  have "computes L K (f p q (used y (used x c))) c s (\<lambda>r c'' s'. pair_old (vnext c'') r \<and> val64 s' r = g X Y)"
    using sel [of "used y (used x c)" p q] ok p q by (simp add: computes_used)
  then show ?thesis using p q K by (simp add: with_regs2_eq selects_pair)
qed

lemma selects_regs1:
  assumes x: "pair_val c s x X" and ok: "alloc_ok L c" and K: "K \<le> 1539"
    and sel: "\<And>p c'. alloc_ok L c' \<Longrightarrow> vnext c' = vnext c \<Longrightarrow> pair_old (vnext c') p \<Longrightarrow> val64 s p = X
      \<Longrightarrow> computes L K (f p c') c' s (\<lambda>r c'' s'. pair_old (vnext c'') r \<and> val64 s' r = g (val64 s p))"
  shows "selects L (map_option Some (with_regs1 x c (\<lambda>rx c. output_regs (f rx c)))) c s [(ty_I64, g X)]"
proof -
  obtain p where p: "value_regs_of c x = Some p" "\<not> value_sunk c x" "pair_old (vnext c) p" "val64 s p = X"
    using x by (rule pair_valE)
  have "computes L K (f p (used x c)) c s (\<lambda>r c'' s'. pair_old (vnext c'') r \<and> val64 s' r = g X)"
    using sel [of "used x c" p] ok p by (simp add: computes_used)
  then show ?thesis using p K by (simp add: with_regs1_eq selects_pair)
qed

lemma alu_64:
  assumes "pair_val c s x X" "pair_val c s y Y" "alloc_ok L c" "vnext c + 1539 \<le> L" "op \<le> 4"
  shows "selects L (lower_alu op mk ty_I64 x y c) c s [(ty_I64, alu64 op X Y)]"
  unfolding lower_alu_def if_P [OF refl]
  by (rule selects_regs2 [OF assms(1-3), where K = 4], simp, rule alu_computes) (use assms in simp_all)

lemma mul_64:
  assumes "pair_val c s x X" "pair_val c s y Y" "alloc_ok L c" "vnext c + 1539 \<le> L"
  shows "selects L (lower_inst (Imul ty_I64 x y) c) c s [(ty_I64, X * Y)]"
  unfolding lower_inst.simps if_P [OF refl]
  by (rule selects_regs2 [OF assms(1-3), where K = 6], simp, rule mul_computes) (use assms in simp_all)

lemma umulhi_64:
  assumes "pair_val c s x X" "pair_val c s y Y" "alloc_ok L c" "vnext c + 1539 \<le> L"
  shows "selects L (lower_inst (Umulhi ty_I64 x y) c) c s [(ty_I64, umulhi64 X Y)]"
  unfolding lower_inst.simps if_P [OF refl]
  by (rule selects_regs2 [OF assms(1-3), where K = 19], simp, rule umulhi_computes) (use assms in simp_all)

lemma divrem_64:
  assumes "pair_val c s x X" "pair_val c s y Y" "alloc_ok L c" "vnext c + 1539 \<le> L" "Y \<noteq> 0"
  shows "selects L (lower_divrem remainder mk ty_I64 x y c) c s
    [(ty_I64, if remainder then X mod Y else X div Y)]"
  unfolding lower_divrem_def if_P [OF refl]
  by (rule selects_regs2 [OF assms(1-3), where K = 1539], simp, rule divrem_computes) (use assms in simp_all)

lemma bitcount_64:
  assumes "pair_val c s x X" "alloc_ok L c" "vnext c + 1539 \<le> L" "op \<le> 2"
  shows "selects L (lower_bitcount op mk ty_I64 x c) c s [(ty_I64, clif_bitcount op ty_I64 X)]"
proof -
  have e: "clif_bitcount op ty_I64 X = (if op = 0 then clz64 X else if op = 1 then ctz64 X else cpop64 X)"
    by (simp add: clif_bitcount_def clz64_def ctz64_def cpop64_def)
  show ?thesis
    unfolding lower_bitcount_def if_P [OF refl] e
    by (rule selects_regs1 [OF assms(1,2), where K = 6], simp, rule bitcount_computes) (use assms in simp_all)
qed

lemma const_64:
  assumes "alloc_ok L c" "vnext c + 1539 \<le> L"
  shows "selects L (lower_inst (Iconst ty_I64 n) c) c s [(ty_I64, n)]"
  using assms by (auto intro!: selects_pair [where K = 2] const_computes)

lemma icmp_64:
  assumes x: "pair_val c s x X" and y: "pair_val c s y Y" and ok: "alloc_ok L c" and room: "vnext c + 1539 \<le> L"
    and ty: "value_type c x = ty_I64"
  shows "selects L (lower_icmp cc x y c) c s [(ty_I8, of_bool (clif_icmp cc ty_I64 X Y))]"
proof -
  obtain p where p: "value_regs_of c x = Some p" "\<not> value_sunk c x" "pair_old (vnext c) p" "val64 s p = X"
    using x by (rule pair_valE)
  obtain q where q: "value_regs_of c y = Some q" "\<not> value_sunk c y" "pair_old (vnext c) q" "val64 s q = Y"
    using y by (rule pair_valE)
  let ?c = "used y (used x c)"
  have "computes L 7 (sia_i64_icmp p q cc ?c) ?c s
      (\<lambda>r c' s'. vold (vnext c') r \<and> vr s' r = of_bool (int_holds cc X Y))"
    using icmp_computes [of L ?c p q cc s] ok room p q by simp
  moreover have "trunc ty_I8 (ucast (of_bool b :: u32)) = (of_bool b :: u64)" for b
    by (cases b) (simp_all add: trunc_def)
  ultimately have "selects L (map_option Some (output_reg (sia_i64_icmp p q cc ?c))) c s
      [(ty_I8, of_bool (clif_icmp cc ty_I64 X Y))]"
    by (intro selects_reg [where K = 7 and a = "of_bool (int_holds cc X Y)"])
      (simp_all add: computes_used clif_icmp_def)
  then show ?thesis using p q by (simp add: lower_icmp_def ty with_regs2_eq Let_def)
qed


section \<open>Shifts\<close>

text \<open>
  A shift amount counts modulo 64, and every integer type has at least eight bits, so its low six bits
  are those of the register that holds its low word, or of the constant it was defined from.
\<close>

lemma low6: "unat (k AND 63) = unat k mod 64" for k :: "'a::len word"
proof -
  have "k AND 63 = take_bit 6 k" by (simp add: take_bit_eq_mask mask_eq_exp_minus_1)
  then show ?thesis by (simp add: unsigned_take_bit_eq) (simp add: take_bit_eq_mod)
qed

lemma mod64_take: "unat (x :: u64) mod 64 = unat (take_bit 6 x)"
  by (simp only: unsigned_take_bit_eq) (simp add: take_bit_eq_mod)

lemma trunc_mod64:
  assumes "int_fits_in_32 ty \<or> ty = ty_I64"
  shows "unat (trunc ty x) mod 64 = unat x mod 64" "unat (sext ty x) mod 64 = unat x mod 64"
proof -
  have "8 \<le> ty_bits ty" using assms fits_bits by auto
  then show "unat (trunc ty x) mod 64 = unat x mod 64" "unat (sext ty x) mod 64 = unat x mod 64"
    unfolding mod64_take trunc_def sext_def by (simp_all add: take_bit_signed_take_bit min_def)
qed

lemma ucast_mod64: "unat (ucast (a :: u32) :: u64) = unat a"
proof -
  have "unat a < 18446744073709551616" using unat_u32 [of a] by linarith
  then show ?thesis by (simp add: unsigned_ucast_eq take_bit_eq_mod)
qed

lemma holds_count:
  assumes "holds c s v x"
  obtains p r where "value_regs_of c v = Some p" "\<not> value_sunk c v" "value_regs_get p 0 = Some r"
    "vold (vnext c) r" "unat (vr s r AND 63) = unat x mod 64"
proof -
  obtain p where p: "\<not> value_sunk c v" "value_regs_of c v = Some p" "regs_old (vnext c) p"
    "value_rep (value_type c v) p s x" using assms by (auto simp: holds_def)
  show thesis
  proof (cases p)
    case (One_reg r)
    then show ?thesis
      using that [of p r] p trunc_mod64(1) [of "value_type c v" "ucast (vr s r)"]
      by (auto simp: value_rep_def regs_old_def low6 ucast_mod64)
  next
    case (Two_regs a b)
    have "unat (pair (vr s a) (vr s b)) = unat (vr s a) + 64 * (67108864 * unat (vr s b))"
      by (simp add: unat_pair)
    then have "unat (pair (vr s a) (vr s b)) mod 64 = unat (vr s a) mod 64"
      by (simp only: mod_mult_self2)
    then show ?thesis
      using that [of p a] p Two_regs by (auto simp: value_rep_def regs_old_def low6)
  qed
qed

text \<open>
  Selection reads the definition of a shift amount, and only when it is a constant or an extension: the
  values of the context with such a definition have the value their definition gives them. Nothing is
  asked of values defined in any other way, loads and calls for example.
\<close>

fun const_or_extend :: "clif \<Rightarrow> bool" where
  "const_or_extend (Iconst ty n) = True"
| "const_or_extend (Uextend ty x) = True"
| "const_or_extend (Sextend ty x) = True"
| "const_or_extend _ = False"

definition defs_ok :: "lower_ctx \<Rightarrow> (nat \<Rightarrow> u64) \<Rightarrow> bool" where
  "defs_ok c \<rho> \<longleftrightarrow> (\<forall>v i. value_def c v = Some i \<and> const_or_extend i \<longrightarrow>
     (int_fits_in_32 (value_type c v) \<or> value_type c v = ty_I64) \<and>
     clif_sem (value_type c) \<rho> i = Some (Inr [(value_type c v, \<rho> v)]))"

lemma defs_okD:
  assumes "defs_ok c \<rho>" "value_def c v = Some i" "const_or_extend i"
  shows "clif_sem (value_type c) \<rho> i = Some (Inr [(value_type c v, \<rho> v)])"
    "int_fits_in_32 (value_type c v) \<or> value_type c v = ty_I64"
  using assms by (auto simp: defs_ok_def)

lemma defs_const:
  assumes "defs_ok c \<rho>" "u64_from_iconst c v = Some k"
  shows "unat (\<rho> v) mod 64 = unat k mod 64" "int_fits_in_32 (value_type c v) \<or> value_type c v = ty_I64"
proof -
  obtain ty where d: "value_def c v = Some (Iconst ty k)"
    using assms(2) by (auto simp: u64_from_iconst_def split: option.splits clif.splits)
  note t = defs_okD(2) [OF assms(1) d, simplified]
  show "int_fits_in_32 (value_type c v) \<or> value_type c v = ty_I64" by (rule t)
  have "\<rho> v = trunc (value_type c v) k"
    using defs_okD(1) [OF assms(1) d, simplified] by (auto simp: clif_sem_def)
  then show "unat (\<rho> v) mod 64 = unat k mod 64" using trunc_mod64(1) [OF t] by simp
qed

lemma defs_shift_const:
  assumes "defs_ok c \<rho>" "shift_const c v = Some k"
  shows "unat (k AND 63) = unat (\<rho> v) mod 64"
proof -
  consider ty z where "value_def c v = Some (Sextend ty z)" "ty = ty_I64" "u64_from_iconst c z = Some k"
    | ty z where "value_def c v = Some (Uextend ty z)" "ty = ty_I64" "u64_from_iconst c z = Some k"
    | "u64_from_iconst c v = Some k"
    using assms(2) by (auto simp: shift_const_def split: option.splits clif.splits if_splits)
  then show ?thesis
  proof cases
    case 1
    then have "\<rho> v = sext (value_type c z) (\<rho> z)"
      using defs_okD(1) [OF assms(1) 1(1), simplified] by (auto simp: clif_sem_def)
    then show ?thesis using defs_const [OF assms(1) 1(3)] trunc_mod64(2) by (simp add: low6)
  next
    case 2
    then have "\<rho> v = \<rho> z" using defs_okD(1) [OF assms(1) 2(1), simplified] by (auto simp: clif_sem_def)
    then show ?thesis using defs_const(1) [OF assms(1) 2(3)] by (simp add: low6)
  next
    case 3
    then show ?thesis using defs_const(1) [OF assms(1)] by (simp add: low6)
  qed
qed

lemma clif_shift_64: "clif_shift op ty_I64 x y = shift64 op (unat y mod 64) x"
  by (simp add: clif_shift_def shift64_def Let_def)

lemma shift_64:
  assumes x: "pair_val c s x (\<rho> x)" and y: "holds c s y (\<rho> y)" and ok: "alloc_ok L c"
    and room: "vnext c + 1539 \<le> L" and op: "op \<le> 2" and defs: "defs_ok c \<rho>"
  shows "selects L (lower_shift op mk ty_I64 x y c) c s [(ty_I64, clif_shift op ty_I64 (\<rho> x) (\<rho> y))]"
proof (cases "shift_const c y")
  case (Some k)
  have "selects L (map_option Some (with_regs1 x c (\<lambda>rx c. output_regs (sia_i64_shift rx k op c)))) c s
      [(ty_I64, clif_shift op ty_I64 (\<rho> x) (\<rho> y))]"
    unfolding clif_shift_64 defs_shift_const [OF defs Some, symmetric]
    by (rule selects_regs1 [OF x ok, where K = 4], simp, rule shift_computes) (use room op in simp_all)
  then show ?thesis by (simp add: lower_shift_def Some)
next
  case None
  obtain p where p: "value_regs_of c x = Some p" "\<not> value_sunk c x" "pair_old (vnext c) p" "val64 s p = \<rho> x"
    using x by (rule pair_valE)
  obtain q r where q: "value_regs_of c y = Some q" "\<not> value_sunk c y" "value_regs_get q 0 = Some r"
    "vold (vnext c) r" "unat (vr s r AND 63) = unat (\<rho> y) mod 64"
    using y by (rule holds_count)
  let ?c = "used y (used x c)"
  have "computes L 14 (sia_i64_variable_shift p q op ?c) c s (\<lambda>r c' s'. pair_old (vnext c') r \<and>
      val64 s' r = clif_shift op ty_I64 (\<rho> x) (\<rho> y))"
    using variable_shift_computes [of L ?c p q r op s] p q ok room op
    by (simp add: computes_used clif_shift_64)
  then have "selects L (map_option Some (output_regs (sia_i64_variable_shift p q op ?c))) c s
      [(ty_I64, clif_shift op ty_I64 (\<rho> x) (\<rho> y))]"
    by (rule selects_pair) simp
  then show ?thesis using p q by (simp add: lower_shift_def None with_regs2_eq)
qed

end
