(* ===== verification/Sia32_Word_Rules.thy ===== *)
theory Sia32_Word_Rules
  imports Sia32_Lower_Rules
begin

text \<open>
  The selection rules on values of at most 32 bits, each against the meaning of its instruction. The
  operand of a narrow type occupies the low bits of its register and the bits above are arbitrary, so
  a rule is correct when its result, cut to the type, depends on those low bits only.
\<close>

section \<open>Rules for one register\<close>

lemmas uint_ariths = uint_word_ariths(1-4) [folded take_bit_eq_mod]

lemma take_bit_word:
  fixes a b :: u32
  assumes "w \<le> 32"
  shows "take_bit w (ucast (a + b) :: u64) = take_bit w (take_bit w (ucast a) + take_bit w (ucast b))"
    "take_bit w (ucast (a - b) :: u64) = take_bit w (take_bit w (ucast a) - take_bit w (ucast b))"
    "take_bit w (ucast (- a) :: u64) = take_bit w (- take_bit w (ucast a))"
    "take_bit w (ucast (a * b) :: u64) = take_bit w (take_bit w (ucast a) * take_bit w (ucast b))"
proof -
  have u: "uint (ucast (x :: u32) :: u64) = uint x" for x
  proof -
    have "uint x < 18446744073709551616" using uint_u32(1) [of x] by linarith
    then show ?thesis by (simp add: unsigned_ucast_eq take_bit_int_eq_self)
  qed
  have m: "min w 32 = w" "min w 64 = w" using assms by simp_all
  show "take_bit w (ucast (a + b) :: u64) = take_bit w (take_bit w (ucast a) + take_bit w (ucast b))"
    by (simp add: word_uint_eq_iff unsigned_take_bit_eq uint_ariths u m take_bit_add)
  show "take_bit w (ucast (a - b) :: u64) = take_bit w (take_bit w (ucast a) - take_bit w (ucast b))"
    by (simp add: word_uint_eq_iff unsigned_take_bit_eq uint_ariths u m take_bit_diff)
  show "take_bit w (ucast (- a) :: u64) = take_bit w (- take_bit w (ucast a))"
    by (simp add: word_uint_eq_iff unsigned_take_bit_eq uint_ariths u m take_bit_minus)
  show "take_bit w (ucast (a * b) :: u64) = take_bit w (take_bit w (ucast a) * take_bit w (ucast b))"
    by (simp add: word_uint_eq_iff unsigned_take_bit_eq uint_ariths u m take_bit_mult)
qed

lemma trunc_32: "int_fits_in_32 ty \<Longrightarrow> trunc ty (take_bit 32 x) = trunc ty x"
  by (simp add: trunc_def fits_bits min_def)

lemma trunc_word:
  assumes "int_fits_in_32 ty"
  shows "trunc ty (ucast (a + b :: u32)) = trunc ty (trunc ty (ucast a) + trunc ty (ucast b))"
    "trunc ty (ucast (a - b :: u32)) = trunc ty (trunc ty (ucast a) - trunc ty (ucast b))"
    "trunc ty (ucast (- a :: u32)) = trunc ty (- trunc ty (ucast a))"
    "trunc ty (ucast (a * b :: u32)) = trunc ty (trunc ty (ucast a) * trunc ty (ucast b))"
  unfolding trunc_def by (rule take_bit_word; rule fits_bits; rule assms)+

lemma trunc_logic:
  assumes "int_fits_in_32 ty"
  shows "trunc ty (ucast (a AND b :: u32)) = trunc ty (ucast a) AND trunc ty (ucast b)"
    "trunc ty (ucast (a OR b :: u32)) = trunc ty (ucast a) OR trunc ty (ucast b)"
    "trunc ty (ucast (a XOR b :: u32)) = trunc ty (ucast a) XOR trunc ty (ucast b)"
    "trunc ty (ucast (NOT a :: u32)) = trunc ty (NOT (trunc ty (ucast a)))"
  using fits_bits(1) [OF assms] by (auto simp: trunc_def bit_simps intro!: bit_word_eqI)

lemma binary_result_selects:
  assumes x: "word_val c s x a" and y: "word_val c s y b" and ok: "alloc_ok L c" and room: "vnext c + 1539 \<le> L"
    and tyf: "int_fits_in_32 ty" "int_fits_in_32 ty'"
    and step: "\<And>d l r s. vstep (into_machine_inst (mk d l r)) s = Some (Inr (set_vr d (f (vr s l) (vr s r)) s))"
    and res: "trunc ty' (ucast (f a b)) = z"
  shows "selects L (map_option Some (sia_binary_result mk ty x y c)) c s [(ty', z)]"
proof -
  obtain n k where X: "\<not> value_sunk c x" "value_regs_of c x = Some (One_reg (Virtual n k))" "n < vnext c"
    "vr s (Virtual n k) = a" using x by (auto simp: word_val_def)
  obtain m l where Y: "\<not> value_sunk c y" "value_regs_of c y = Some (One_reg (Virtual m l))" "m < vnext c"
    "vr s (Virtual m l) = b" using y by (auto simp: word_val_def)
  have t: "temp_writable_reg ty c = Some (Virtual (vnext c) Int_class, bump c)"
    using room ok tyf by (intro temp_writable_reg_eq) (auto intro!: alloc_okD)
  have "computes L 1539 (sia_binary_result mk ty x y c) c s (\<lambda>out c' s'.
      list_all2 (\<lambda>p (ty, x). regs_old (vnext c') p \<and> value_rep ty p s' x) out [(ty', z)])"
    using X Y tyf res room ok
    by (simp add: sia_binary_result_def t put_in_reg_eq sia_emit_result_def isle_emit_def straight step
        regs_old_def value_rep_def)
  then show ?thesis unfolding selects_def by blast
qed


lemma const_result_selects:
  assumes x: "word_val c s x a" and ok: "alloc_ok L c" and room: "vnext c + 1539 \<le> L"
    and tyf: "int_fits_in_32 ty" and k: "unat k < 2 ^ 32"
    and step: "\<And>d l r s. vstep (into_machine_inst (mk d l r)) s = Some (Inr (set_vr d (f (vr s l) (vr s r)) s))"
    and res: "trunc ty (ucast (f (ucast k) a)) = z"
  shows "selects L (map_option Some (sia_const_result k mk ty x c)) c s [(ty, z)]"
proof -
  obtain n l where X: "\<not> value_sunk c x" "value_regs_of c x = Some (One_reg (Virtual n l))" "n < vnext c"
    "vr s (Virtual n l) = a" using x by (auto simp: word_val_def)
  have t: "temp_writable_reg ty c = Some (Virtual (vnext c) Int_class, bump c)"
    using room ok tyf by (intro temp_writable_reg_eq) (auto intro!: alloc_okD)
  have "computes L 1539 (sia_const_result k mk ty x c) c s (\<lambda>out c' s'.
      list_all2 (\<lambda>p (ty, x). regs_old (vnext c') p \<and> value_rep ty p s' x) out [(ty, z)])"
    using X tyf res room ok k
    by (simp add: sia_const_result_def t put_in_reg_eq sia_load_const_def sia_emit_result_def isle_emit_def
        straight step regs_old_def value_rep_def alloc_okD)
  then show ?thesis unfolding selects_def by blast
qed

lemma iconst_selects:
  assumes ok: "alloc_ok L c" and room: "vnext c + 1539 \<le> L" and ty: "int_fits_in_32 ty" and n: "trunc ty n = n"
  shows "selects L (lower_inst (Iconst ty n) c) c s [(ty, trunc ty n)]"
proof -
  have t: "temp_writable_reg ty c = Some (Virtual (vnext c) Int_class, bump c)"
    using room ok ty by (intro temp_writable_reg_eq) (auto intro!: alloc_okD)
  have n32: "n = take_bit 32 n" using n fits_bits(1) [OF ty] unfolding trunc_def
    by (metis min.absorb2 take_bit_take_bit)
  have "unat (take_bit 32 n) < 2 ^ 32" by (simp only: unsigned_take_bit_eq) (rule take_bit_nat_less_exp)
  then have u: "unat n < 2 ^ 32" using n32 by metis
  have "ucast (ucast n :: u32) = take_bit 32 n" by (rule bit_word_eqI) (auto simp: bit_simps)
  then have u': "ucast (ucast n :: u32) = n" using n32 by metis
  have "computes L 1539 (lower_to_temp (\<lambda>dst. sia_load_const dst n) ty c) c s (\<lambda>out c' s'.
      list_all2 (\<lambda>p (ty, x). regs_old (vnext c') p \<and> value_rep ty p s' x) out [(ty, trunc ty n)])"
    using ty room ok u u'
    by (simp add: lower_to_temp_def t sia_load_const_def sia_emit_result_def isle_emit_def straight
        regs_old_def value_rep_def)
  then show ?thesis using ty fits_not_64 [OF ty] by (auto simp: selects_def)
qed


section \<open>Widths\<close>

lemma ucast_trunc:
  "int_fits_in_32 ty \<Longrightarrow> trunc ty (ucast (a :: u32)) = ucast (take_bit (ty_bits ty) a)"
  using fits_bits(1) [of ty] by (auto simp: trunc_def bit_simps intro!: bit_word_eqI)

lemma sext_trunc:
  assumes "int_fits_in_32 ty"
  shows "sext ty (trunc ty (ucast (a :: u32))) = scast (signed_take_bit (ty_bits ty - 1) a)"
proof (rule bit_word_eqI)
  fix n assume "n < LENGTH(64)"
  then show "bit (sext ty (trunc ty (ucast a))) n = bit (scast (signed_take_bit (ty_bits ty - 1) a) :: u64) n"
    using fits_bits [OF assms] by (auto simp: sext_def trunc_def bit_simps min_def not_less)
qed

lemma int_holds_ucast:
  "\<not> cc_is_signed cc \<Longrightarrow> int_holds cc (ucast a :: u64) (ucast b) = int_holds cc (a :: u32) b"
  by (cases cc) (simp_all add: cc_is_signed_def word_less_nat_alt word_le_nat_alt ucast_mod64 word_unat_eq_iff)

lemma sint_scast64: "sint (scast (x :: u32) :: u64) = sint x"
  by (simp add: signed_scast_eq signed_take_bit_int_eq_self)

lemma int_holds_scast:
  "cc_is_signed cc \<Longrightarrow> int_holds cc (scast a :: u64) (scast b) = int_holds cc (a :: u32) b"
  by (cases cc) (simp_all add: cc_is_signed_def sint_scast64)

section \<open>Rules\<close>

text \<open>The common hypotheses on the context: enough registers.\<close>

definition ready :: "nat \<Rightarrow> lower_ctx \<Rightarrow> bool" where
  "ready L c \<longleftrightarrow> alloc_ok L c \<and> vnext c + 1539 \<le> L"

lemma word_valE:
  assumes "word_val c s v a"
  obtains n k where "\<not> value_sunk c v" "value_regs_of c v = Some (One_reg (Virtual n k))" "n < vnext c"
    "vr s (Virtual n k) = a"
  using assms by (auto simp: word_val_def)

lemma fits_iff: "int_fits_in_32 ty \<longleftrightarrow> ty = ty_I8 \<or> ty = ty_I16 \<or> ty = ty_I32"
  by (auto elim: fits_cases)

lemma step_two: "(\<And>d l r. into_machine_inst (mk d l r) = TwoOp op d l r) \<Longrightarrow> (\<And>a b. two_op_sem op a b = Some (f a b))
   \<Longrightarrow> vstep (into_machine_inst (mk d l r)) s = Some (Inr (set_vr d (f (vr s l) (vr s r)) s))"
  by simp

lemma alu_word:
  assumes x: "word_val c s x a" and y: "word_val c s y b" and "ready L c" and ty: "int_fits_in_32 ty"
    and op: "(op, mk) \<in> {(0, M_Add), (1, M_Sub), (2, M_And), (3, M_Or), (4, M_Xor)}"
  shows "selects L (lower_alu op mk ty x y c) c s
    [(ty, trunc ty (alu64 op (trunc ty (ucast a)) (trunc ty (ucast b))))]"
proof -
  have l: "trunc ty (trunc ty u AND trunc ty v) = trunc ty u AND trunc ty v"
    "trunc ty (trunc ty u OR trunc ty v) = trunc ty u OR trunc ty v"
    "trunc ty (trunc ty u XOR trunc ty v) = trunc ty u XOR trunc ty v" for u v
    by (simp_all add: trunc_def flip: take_bit_and take_bit_or take_bit_xor)
  have "selects L (map_option Some (sia_binary_result mk ty x y c)) c s
    [(ty, trunc ty (alu64 op (trunc ty (ucast a)) (trunc ty (ucast b))))]"
    using op assms(3) ty
    by (auto intro!: binary_result_selects [OF x y, where f = "if op = 0 then (+) else if op = 1 then (-)
          else if op = 2 then (AND) else if op = 3 then (OR) else (XOR)"]
        simp: ready_def alu64_def l trunc_word [OF ty] trunc_logic [OF ty] simp del: take_bit_and take_bit_or take_bit_xor)
  then show ?thesis using ty fits_not_64 [OF ty] by (simp add: lower_alu_def)
qed

lemma mul_word:
  assumes "word_val c s x a" "word_val c s y b" "ready L c" "int_fits_in_32 ty"
  shows "selects L (lower_inst (Imul ty x y) c) c s
    [(ty, trunc ty (trunc ty (ucast a) * trunc ty (ucast b)))]"
  using assms fits_not_64 [OF assms(4)]
  by (auto intro!: binary_result_selects [where f = "(*)"] simp: ready_def trunc_word)

lemma neg_word:
  assumes "word_val c s x a" "ready L c" "int_fits_in_32 ty"
  shows "selects L (lower_inst (Ineg ty x) c) c s [(ty, trunc ty (- trunc ty (ucast a)))]"
  using assms by (auto intro!: const_result_selects [where f = "(-)"] simp: ready_def trunc_word)

lemma not_word:
  assumes "word_val c s x a" "ready L c" "int_fits_in_32 ty"
  shows "selects L (lower_inst (Bnot ty x) c) c s [(ty, trunc ty (NOT (trunc ty (ucast a))))]"
proof -
  have "(4294967295 :: u32) = -1" by simp
  then have "b XOR (4294967295 :: u32) = NOT b" for b by (simp only: bit.xor_one_right)
  then have "trunc ty (ucast (a XOR ucast (4294967295 :: u64))) = trunc ty (NOT (trunc ty (ucast a)))"
    using assms by (simp add: trunc_logic)
  then show ?thesis
    using assms by (auto intro!: const_result_selects [where f = "\<lambda>k s. s XOR k"] simp: ready_def)
qed

lemma trunc_ucast_scast: "int_fits_in_32 ty \<Longrightarrow> trunc ty (ucast z) = trunc ty (scast z)" for z :: u32
  using fits_bits [of ty] by (auto intro!: bit_word_eqI simp: trunc_def bit_simps)

lemma shift_trunc:
  assumes "int_fits_in_32 ty"
  shows "trunc ty (ucast (push_bit n (take_bit (ty_bits ty) a :: u32))) = trunc ty (push_bit n (trunc ty (ucast a)))"
    "trunc ty (ucast (drop_bit n (take_bit (ty_bits ty) a))) = drop_bit n (trunc ty (ucast a))"
    "trunc ty (ucast (signed_drop_bit n (signed_take_bit (ty_bits ty - 1) a)))
       = trunc ty (signed_drop_bit n (sext ty (trunc ty (ucast a))))"
proof -
  show "trunc ty (ucast (push_bit n (take_bit (ty_bits ty) a :: u32))) = trunc ty (push_bit n (trunc ty (ucast a)))"
    "trunc ty (ucast (drop_bit n (take_bit (ty_bits ty) a))) = drop_bit n (trunc ty (ucast a))"
    using fits_bits [OF assms] by (auto intro!: bit_word_eqI simp: trunc_def bit_simps)
  let ?a = "signed_take_bit (ty_bits ty - 1) a"
  have "signed_drop_bit n (scast ?a :: u64) = scast (signed_drop_bit n ?a)"
    by (rule signed_word_eqI [where 'a = int]) (simp add: sint_signed_drop_bit_eq sint_scast64)
  moreover have "trunc ty (ucast (signed_drop_bit n ?a)) = trunc ty (scast (signed_drop_bit n ?a))"
    by (rule trunc_ucast_scast [OF assms])
  ultimately show "trunc ty (ucast (signed_drop_bit n ?a)) = trunc ty (signed_drop_bit n (sext ty (trunc ty (ucast a))))"
    by (simp only: sext_trunc [OF assms])
qed

lemma count_word:
  assumes "unat v mod 64 = unat (b :: u32) mod 64"
  shows "unat (b AND 31) = unat (v :: u64) mod 32" "unat ((b AND 15) AND 31) = unat v mod 16"
    "unat ((b AND 7) AND 31) = unat v mod 8"
proof -
  have m: "b AND 31 = take_bit 5 b" "(b AND 15) AND 31 = take_bit 4 b" "(b AND 7) AND 31 = take_bit 3 b"
    by (simp_all add: take_bit_eq_mask mask_eq_exp_minus_1 and.assoc)
  have "unat v mod k = unat b mod k" if "k dvd 64" for k
    using arg_cong [OF assms, of "\<lambda>n. n mod k"] that by (simp add: mod_mod_cancel)
  from this [of 32] this [of 16] this [of 8]
  show "unat (b AND 31) = unat v mod 32" "unat ((b AND 15) AND 31) = unat v mod 16"
    "unat ((b AND 7) AND 31) = unat v mod 8"
    by (simp_all add: m unsigned_take_bit_eq) (simp_all add: take_bit_eq_mod)
qed

lemma full_width: "take_bit 32 (a :: u32) = a" "signed_take_bit 31 a = a"
proof -
  show "take_bit 32 a = a" by (simp add: take_bit_word_eq_self)
  show "signed_take_bit 31 a = a"
  proof (rule bit_word_eqI)
    fix n assume "n < LENGTH(32)"
    then show "bit (signed_take_bit 31 a) n = bit a n" by (cases "n = 31") (auto simp: bit_simps min_def)
  qed
qed

lemma shift_word:
  assumes x: "word_val c s x a" and y: "word_val c s y b" and r: "ready L c"
    and op: "(op, mk) \<in> {(0, M_Shl), (1, M_Shr), (2, M_Sar)}"
    and cnt: "unat v mod 64 = unat b mod 64"
  shows "selects L (lower_shift op mk ty_I32 x y c) c s [(ty_I32, clif_shift op ty_I32 (trunc ty_I32 (ucast a)) v)]"
proof -
  have "selects L (map_option Some (sia_binary_result mk ty_I32 x y c)) c s
      [(ty_I32, clif_shift op ty_I32 (trunc ty_I32 (ucast a)) v)]"
    using op r
    by (auto intro!: binary_result_selects [OF x y, where f = "\<lambda>a b. if op = 0 then push_bit (unat (b AND 31)) a
          else if op = 1 then drop_bit (unat (b AND 31)) a else signed_drop_bit (unat (b AND 31)) a"]
        simp: ready_def clif_shift_def Let_def count_word [OF cnt] shift_trunc [of ty_I32 _ a, simplified, unfolded full_width, symmetric])
  then show ?thesis by (simp add: lower_shift_def)
qed

lemma selects_word2:
  assumes x: "word_val c s x a" and y: "word_val c s y b" and r: "ready L c" and K: "K \<le> 1539"
    and sel: "\<And>rx ry c'. alloc_ok L c' \<Longrightarrow> vnext c' + 1539 \<le> L \<Longrightarrow> vold (vnext c') rx \<Longrightarrow> vold (vnext c') ry
      \<Longrightarrow> vr s rx = a \<Longrightarrow> vr s ry = b
      \<Longrightarrow> computes L K (f rx ry c') c' s (\<lambda>r c'' s'. vold (vnext c'') r \<and> vr s' r = z)"
    and res: "int_fits_in_32 ty" "trunc ty (ucast z) = v"
  shows "selects L (map_option Some (with_reg2 x y c (\<lambda>rx ry c. output_reg (f rx ry c)))) c s [(ty, v)]"
proof -
  obtain n k where X: "\<not> value_sunk c x" "value_regs_of c x = Some (One_reg (Virtual n k))" "n < vnext c"
    "vr s (Virtual n k) = a" using x by (rule word_valE)
  obtain m l where Y: "\<not> value_sunk c y" "value_regs_of c y = Some (One_reg (Virtual m l))" "m < vnext c"
    "vr s (Virtual m l) = b" using y by (rule word_valE)
  have "computes L K (f (Virtual n k) (Virtual m l) (used y (used x c))) c s
      (\<lambda>r c'' s'. vold (vnext c'') r \<and> vr s' r = z)"
    using sel [of "used y (used x c)" "Virtual n k" "Virtual m l"] r X Y by (simp add: computes_used ready_def)
  then show ?thesis using X Y K res by (simp add: with_reg2_eq selects_reg)
qed

lemma narrow_shift_word:
  assumes x: "word_val c s x a" and y: "word_val c s y b" and r: "ready L c"
    and op: "op \<le> 2" and ty: "ty = ty_I8 \<or> ty = ty_I16"
    and cnt: "unat v mod 64 = unat b mod 64"
  shows "selects L (lower_shift op mk ty x y c) c s [(ty, clif_shift op ty (trunc ty (ucast a)) v)]"
proof -
  let ?w = "if ty = ty_I8 then 8 else 16 :: u8" and ?n = "unat v mod ty_bits ty"
  let ?z = "if op = 0 then push_bit ?n (take_bit (ty_bits ty) a) else if op = 1 then drop_bit ?n (take_bit (ty_bits ty) a)
    else signed_drop_bit ?n (signed_take_bit (ty_bits ty - 1) a)"
  have ops: "op = 0 \<or> op = 1 \<or> op = 2" using op by linarith
  have f: "int_fits_in_32 ty" using ty by auto
  have "selects L (map_option Some (with_reg2 x y c (\<lambda>rx ry c. output_reg (sia_narrow_shift rx ry ?w op c)))) c s
      [(ty, clif_shift op ty (trunc ty (ucast a)) v)]"
  proof (rule selects_word2 [OF x y r, where K = 4 and z = ?z])
    show "computes L 4 (sia_narrow_shift rx ry ?w op c') c' s (\<lambda>r c'' s'. vold (vnext c'') r \<and> vr s' r = ?z)"
      if h: "alloc_ok L c'" "vnext c' + 1539 \<le> L" "vold (vnext c') rx" "vold (vnext c') ry" "vr s rx = a" "vr s ry = b"
      for rx ry c'
    proof -
      obtain n k m l where "rx = Virtual n k" "n < vnext c'" "ry = Virtual m l" "m < vnext c'"
        using h(3,4) by (auto simp: vold_iff)
      then show ?thesis using h ops ty
        by (elim disjE) (simp_all add: sia_narrow_shift_def narrow_shift_op_def alloc_okD straight
          extend_sem_def count_word [OF cnt])
    qed
  qed (use op f in \<open>auto simp: clif_shift_def Let_def shift_trunc [OF f, simplified]\<close>)
  then show ?thesis using ty by (auto simp: lower_shift_def)
qed

lemma trunc_I32: "trunc ty_I32 (ucast (a :: u32)) = ucast a"
  by (simp add: ucast_trunc take_bit_word_eq_self)

lemma word_of_nat_unat64: "word_of_nat (unat (a :: u32)) = (ucast a :: u64)"
  by (simp add: word_unat_eq_iff ucast_mod64 unat_of_nat)

lemma umulhi_word:
  assumes x: "word_val c s x a" and y: "word_val c s y b" and r: "ready L c"
  shows "selects L (lower_inst (Umulhi ty_I32 x y) c) c s
    [(ty_I32, word_of_nat (unat (trunc ty_I32 (ucast a)) * unat (trunc ty_I32 (ucast b)) div 2 ^ 32))]"
proof -
  let ?z = "execute_reference M7_Mulhu a b"
  have "int (unat ?z) = int (unat a * unat b div 2 ^ 32)"
    using mulhu_uint [of a b] by (simp add: zdiv_int)
  then have "unat ?z = unat a * unat b div 2 ^ 32" by linarith
  then have "trunc ty_I32 (ucast ?z)
      = word_of_nat (unat (trunc ty_I32 (ucast a)) * unat (trunc ty_I32 (ucast b)) div 2 ^ 32)"
    by (simp only: trunc_I32 ucast_mod64) (metis ucast_mod64 word_of_nat_unat64)
  then show ?thesis
    using x y r
    by (auto intro!: selects_word2 [where K = 1 and z = ?z] simp: sia_umulhi_def alloc_okD straight vold_iff)
qed

lemma lower_umin_eq: "lower_umin x y c = with_reg2 x y c (\<lambda>l r c. output_reg (do {
     (condition, c) \<leftarrow> temp_writable_reg ty_I32 c;
     c \<leftarrow> isle_emit (M_Icmp condition IntUnsignedLessThan l r) c;
     sia_select condition l r c }))"
  by (simp add: lower_umin_def with_reg2_def output_reg_def Option.bind_assoc case_prod_unfold)

lemma umin_word:
  assumes "word_val c s x a" "word_val c s y b" "ready L c"
  shows "selects L (lower_inst (Umin ty_I32 x y) c) c s
    [(ty_I32, min (trunc ty_I32 (ucast a)) (trunc ty_I32 (ucast b)))]"
proof -
  have "trunc ty_I32 (ucast (min a b)) = min (trunc ty_I32 (ucast a)) (trunc ty_I32 (ucast b))"
    by (simp add: trunc_I32 min_def word_le_nat_alt ucast_mod64)
  then show ?thesis using assms
    by (auto intro!: selects_word2 [where K = 2 and z = "min a b"] simp: lower_umin_eq sia_select_def isle_emit_def
        alloc_okD straight vold_iff icmp_sem_def min_def)
qed

lemma selects_word1:
  assumes x: "word_val c s x a" and r: "ready L c" and K: "K \<le> 1539"
    and sel: "\<And>rx c'. alloc_ok L c' \<Longrightarrow> vnext c' + 1539 \<le> L \<Longrightarrow> vold (vnext c') rx \<Longrightarrow> vr s rx = a
      \<Longrightarrow> computes L K (f rx c') c' s (\<lambda>r c'' s'. vold (vnext c'') r \<and> vr s' r = z)"
    and res: "int_fits_in_32 ty" "trunc ty (ucast z) = v"
  shows "selects L (map_option Some (put_in_reg x c \<bind> (\<lambda>(rx, c). output_reg (f rx c)))) c s [(ty, v)]"
proof -
  obtain n k where X: "\<not> value_sunk c x" "value_regs_of c x = Some (One_reg (Virtual n k))" "n < vnext c"
    "vr s (Virtual n k) = a" using x by (rule word_valE)
  have "computes L K (f (Virtual n k) (used x c)) c s (\<lambda>r c'' s'. vold (vnext c'') r \<and> vr s' r = z)"
    using sel [of "used x c" "Virtual n k"] r X by (simp add: computes_used ready_def)
  then show ?thesis using X K res by (simp add: put_in_reg_eq selects_reg)
qed

lemma unary_result_selects:
  assumes x: "word_val c s x a" and r: "ready L c"
    and step: "\<And>d l s. vstep (into_machine_inst (mk d l)) s = Some (Inr (set_vr d (f (vr s l)) s))"
    and res: "trunc ty_I32 (ucast (f a)) = z"
  shows "selects L (map_option Some (sia_unary_result mk x c)) c s [(ty_I32, z)]"
proof -
  obtain n k where X: "\<not> value_sunk c x" "value_regs_of c x = Some (One_reg (Virtual n k))" "n < vnext c"
    "vr s (Virtual n k) = a" using x by (rule word_valE)
  have "computes L 1539 (sia_unary_result mk x c) c s (\<lambda>out c' s'.
      list_all2 (\<lambda>p (ty, x). regs_old (vnext c') p \<and> value_rep ty p s' x) out [(ty_I32, z)])"
    using X res r [unfolded ready_def, THEN conjunct1] r [unfolded ready_def, THEN conjunct2]
    by (simp add: sia_unary_result_def put_in_reg_eq sia_emit_result_def isle_emit_def straight step alloc_okD
        regs_old_def value_rep_def)
  then show ?thesis unfolding selects_def by blast
qed

lemma clif_bitcount_32:
  "clif_bitcount op ty_I32 (ucast (a :: u32)) = ucast (if op = 0 then clz32 a else if op = 1 then ctz32 a else cpop32 a)"
proof -
  have b: "bit (ucast a :: u64) i = bit a i" if "i < 32" for i using that by (simp add: bit_simps)
  have "filter (bit (ucast a :: u64)) [0..<32] = filter (bit a) [0..<32]"
    "takeWhile (\<lambda>i. \<not> bit (ucast a :: u64) i) [0..<32] = takeWhile (\<lambda>i. \<not> bit a i) [0..<32]"
    "takeWhile (\<lambda>i. \<not> bit (ucast a :: u64) i) (rev [0..<32]) = takeWhile (\<lambda>i. \<not> bit a i) (rev [0..<32])"
    by (rule filter_cong takeWhile_cong; auto simp: b)+
  moreover have "ucast (word_of_nat n :: u32) = (word_of_nat n :: u64)" if "n \<le> 32" for n
    using that by (simp add: word_unat_eq_iff ucast_mod64 unat_of_nat)
  moreover have "length (takeWhile P [0..<32]) \<le> 32" "length (takeWhile P (rev [0..<32])) \<le> 32"
    "length (filter P [0..<32]) \<le> 32" for P :: "nat \<Rightarrow> bool"
    using length_takeWhile_le [of P "[0..<32]"] length_takeWhile_le [of P "rev [0..<32]"] length_filter_le [of P "[0..<32]"]
    by simp_all
  ultimately show ?thesis
    by (simp add: clif_bitcount_def clz32_def ctz32_def cpop32_def Let_def)
qed

lemma bitcount_word:
  assumes "word_val c s x a" "ready L c" "(op, mk) \<in> {(0, M_Clz), (1, M_Ctz), (2, M_Cpop)}"
  shows "selects L (lower_bitcount op mk ty_I32 x c) c s [(ty_I32, clif_bitcount op ty_I32 (trunc ty_I32 (ucast a)))]"
proof -
  have "selects L (map_option Some (sia_unary_result mk x c)) c s
      [(ty_I32, clif_bitcount op ty_I32 (trunc ty_I32 (ucast a)))]"
    using assms(3)
    by (auto intro!: unary_result_selects [OF assms(1,2), where f = "if op = 0 then clz32 else if op = 1 then ctz32 else cpop32"]
        simp: trunc_I32 clif_bitcount_32)
  then show ?thesis by (simp add: lower_bitcount_def)
qed

lemma extend_narrow:
  assumes "ty = ty_I8 \<or> ty = ty_I16"
  shows "extend_sem sg (ty_bits ty) 32 a = (if sg then signed_take_bit (ty_bits ty - 1) a else take_bit (ty_bits ty) a)"
  using assms by (auto simp: extend_sem_def)

lemma clif_icmp_word:
  fixes a b :: u32
  assumes "int_fits_in_32 ty"
  shows "clif_icmp cc ty (trunc ty (ucast a)) (trunc ty (ucast b)) =
    (if cc_is_signed cc then int_holds cc (signed_take_bit (ty_bits ty - 1) a) (signed_take_bit (ty_bits ty - 1) b)
     else int_holds cc (take_bit (ty_bits ty) a) (take_bit (ty_bits ty) b))"
  by (simp add: clif_icmp_def sext_trunc [OF assms] int_holds_scast) (simp add: ucast_trunc [OF assms] int_holds_ucast)

lemma trunc_bool: "trunc ty_I8 (ucast (of_bool b :: u32)) = (of_bool b :: u64)"
  by (cases b) (simp_all add: trunc_def)

lemma icmp_word:
  assumes x: "word_val c s x a" and y: "word_val c s y b" and r: "ready L c" and ty: "int_fits_in_32 (value_type c x)"
  shows "selects L (lower_icmp cc x y c) c s
    [(ty_I8, of_bool (clif_icmp cc (value_type c x) (trunc (value_type c x) (ucast a)) (trunc (value_type c x) (ucast b))))]"
proof (cases "value_type c x = ty_I32")
  case True
  have "selects L (map_option Some (sia_binary_result (\<lambda>d l r. M_Icmp d cc l r) ty_I32 x y c)) c s
    [(ty_I8, of_bool (clif_icmp cc ty_I32 (trunc ty_I32 (ucast a)) (trunc ty_I32 (ucast b))))]"
    using r by (intro binary_result_selects [OF x y, where f = "icmp_sem cc"])
      (auto simp: ready_def clif_icmp_word full_width icmp_sem_def trunc_bool)
  then show ?thesis using True by (simp add: lower_icmp_def Let_def)
next
  case False
  then have n: "value_type c x = ty_I8 \<or> value_type c x = ty_I16" using ty by (auto elim: fits_cases)
  let ?ty = "value_type c x" and ?w = "if value_type c x = ty_I8 then 8 else 16 :: u8"
  let ?z = "of_bool (clif_icmp cc ?ty (trunc ?ty (ucast a)) (trunc ?ty (ucast b))) :: u32"
  have "selects L (map_option Some (with_reg2 x y c (\<lambda>rx ry c. output_reg (sia_narrow_icmp cc rx ry ?w c)))) c s
    [(ty_I8, of_bool (clif_icmp cc ?ty (trunc ?ty (ucast a)) (trunc ?ty (ucast b))))]"
  proof (rule selects_word2 [OF x y r, where K = 3 and z = ?z])
    show "computes L 3 (sia_narrow_icmp cc rx ry ?w c') c' s (\<lambda>r c'' s'. vold (vnext c'') r \<and> vr s' r = ?z)"
      if h: "alloc_ok L c'" "vnext c' + 1539 \<le> L" "vold (vnext c') rx" "vold (vnext c') ry" "vr s rx = a" "vr s ry = b"
      for rx ry c'
    proof -
      obtain n k m l where "rx = Virtual n k" "n < vnext c'" "ry = Virtual m l" "m < vnext c'"
        using h(3,4) by (auto simp: vold_iff)
      then show ?thesis using h n
        by (elim disjE) (simp_all add: sia_narrow_icmp_def alloc_okD straight extend_sem_def icmp_sem_def clif_icmp_word)
    qed
  qed (simp_all add: trunc_bool)
  then show ?thesis using n by (auto simp: lower_icmp_def)
qed

text \<open>Extensions and reductions.\<close>

lemma extend_word_32:
  assumes x: "word_val c s x a" and r: "ready L c" and ty: "value_type c x = ty_I8 \<or> value_type c x = ty_I16"
  shows "selects L (lower_extend sg ty_I32 x c) c s
    [(ty_I32, if sg then trunc ty_I32 (sext (value_type c x) (trunc (value_type c x) (ucast a)))
              else trunc (value_type c x) (ucast a))]"
proof -
  obtain n k where X: "\<not> value_sunk c x" "value_regs_of c x = Some (One_reg (Virtual n k))" "n < vnext c"
    "vr s (Virtual n k) = a" using x by (rule word_valE)
  let ?bits = "if value_type c x = ty_I8 then 8 else 16 :: u8"
  have f: "int_fits_in_32 (value_type c x)" using ty by auto
  have b: "trunc ty_I32 (scast z) = ucast z" for z :: u32
    by (simp add: trunc_I32 flip: trunc_ucast_scast)
  let ?z = "if sg then trunc ty_I32 (sext (value_type c x) (trunc (value_type c x) (ucast a)))
    else trunc (value_type c x) (ucast a)"
  have z: "trunc ty_I32 (ucast (extend_sem sg (unat ?bits) 32 a)) = ?z"
  proof (cases sg)
    case True
    then show ?thesis using ty by (elim disjE) (simp_all add: sext_trunc extend_sem_def b trunc_I32)
  next
    case False
    then show ?thesis using ty by (elim disjE) (simp_all add: ucast_trunc [of ty_I8] ucast_trunc [of ty_I16] extend_sem_def trunc_I32)
  qed
  have "computes L 1539 (sia_extend_result x sg ?bits c) c s (\<lambda>out c' s'.
      list_all2 (\<lambda>p (ty, x). regs_old (vnext c') p \<and> value_rep ty p s' x) out [(ty_I32, ?z)])"
    unfolding z [symmetric] using X r [unfolded ready_def, THEN conjunct1] r [unfolded ready_def, THEN conjunct2]
    by (simp add: sia_extend_result_def put_in_reg_eq sia_emit_result_def isle_emit_def straight
      alloc_okD regs_old_def value_rep_def)
  then show ?thesis using ty by (auto simp: lower_extend_def selects_def Let_def)
qed

lemma extend_word_64:
  assumes x: "word_val c s x a" and r: "ready L c" and ty: "int_fits_in_32 (value_type c x)"
  shows "selects L (lower_extend sg ty_I64 x c) c s
    [(ty_I64, if sg then sext (value_type c x) (trunc (value_type c x) (ucast a))
              else trunc (value_type c x) (ucast a))]"
proof -
  obtain n k where X: "\<not> value_sunk c x" "value_regs_of c x = Some (One_reg (Virtual n k))" "n < vnext c"
    "vr s (Virtual n k) = a" using x by (rule word_valE)
  let ?bits = "if value_type c x = ty_I8 then 8 else if value_type c x = ty_I16 then 16 else 32 :: u8"
  have e: "(if sg then scast (extend_sem True (unat ?bits) 32 a) else ucast (extend_sem False (unat ?bits) 32 a))
      = (if sg then sext (value_type c x) (trunc (value_type c x) (ucast a)) else trunc (value_type c x) (ucast a))"
  proof (cases sg)
    case True
    then show ?thesis using ty by (elim fits_cases) (simp_all add: sext_trunc extend_sem_def full_width)
  next
    case False
    then show ?thesis using ty by (elim fits_cases) (simp_all add: ucast_trunc extend_sem_def full_width)
  qed
  have "computes L 2 (sia_i64_extend (Virtual n k) sg ?bits (used x c)) c s (\<lambda>p c' s'. pair_old (vnext c') p \<and>
      val64 s' p = (if sg then sext (value_type c x) (trunc (value_type c x) (ucast a))
        else trunc (value_type c x) (ucast a)))"
    using extend_computes [of L "used x c" "Virtual n k" sg ?bits s] X r
    by (simp only: ready_def used_sel computes_used vold.simps X(4) e) (simp add: X)
  then have "selects L (map_option Some (output_regs (sia_i64_extend (Virtual n k) sg ?bits (used x c)))) c s
      [(ty_I64, if sg then sext (value_type c x) (trunc (value_type c x) (ucast a))
              else trunc (value_type c x) (ucast a))]"
    by (rule selects_pair) simp
  then show ?thesis using X ty by (auto simp: lower_extend_def Let_def put_in_reg_eq elim!: fits_cases)
qed

lemma reduce_word:
  assumes x: "word_val c s x a" and r: "ready L c" and ty: "value_type c x = ty_I32" "ty = ty_I8 \<or> ty = ty_I16"
  shows "selects L (lower_reduce ty x c) c s [(ty, trunc ty (trunc ty_I32 (ucast a)))]"
proof -
  obtain n k where X: "\<not> value_sunk c x" "value_regs_of c x = Some (One_reg (Virtual n k))" "n < vnext c"
    "vr s (Virtual n k) = a" using x by (rule word_valE)
  have "computes L 1539 (output_regs (put_value_in_regs x c)) c s (\<lambda>out c' s'.
      list_all2 (\<lambda>p (ty, x). regs_old (vnext c') p \<and> value_rep ty p s' x) out [(ty, trunc ty (trunc ty_I32 (ucast a)))])"
    using X r ty by (auto simp: output_regs_def put_value_eq straight ready_def regs_old_def value_rep_def trunc_I32)
  then show ?thesis using ty by (auto simp: lower_reduce_def selects_def)
qed

lemma reduce_pair:
  assumes x: "pair_val c s x X" and r: "ready L c" and ty: "value_type c x = ty_I64" "int_fits_in_32 ty"
  shows "selects L (lower_reduce ty x c) c s [(ty, trunc ty X)]"
proof -
  obtain p where P: "value_regs_of c x = Some p" "\<not> value_sunk c x" "pair_old (vnext c) p" "val64 s p = X"
    using x by (rule pair_valE)
  obtain v k w l where p: "p = Two_regs (Virtual v k) (Virtual w l)" "v < vnext c" "w < vnext c"
    using P(3) by (rule pair_oldE)
  have "trunc ty (ucast (a :: u32)) = trunc ty (pair a b)" for a b
    using fits_bits [OF ty(2)] by (auto intro!: bit_word_eqI simp: trunc_def bit_simps bit_pair)
  then have "computes L 1539 (with_regs1 x c (\<lambda>rx c. do { r0 \<leftarrow> value_regs_get rx 0; Some ([One_reg r0], c) })) c s
      (\<lambda>out c' s'. list_all2 (\<lambda>p (ty, x). regs_old (vnext c') p \<and> value_rep ty p s' x) out [(ty, trunc ty X)])"
    using P p r ty by (auto simp: with_regs1_eq straight ready_def regs_old_def value_rep_def)
  then show ?thesis using ty by (auto simp: lower_reduce_def selects_def elim!: fits_cases)
qed

text \<open>Conditions: a register that is zero exactly when the tested value is.\<close>

lemma or_zero: "a OR b = 0 \<longleftrightarrow> a = 0 \<and> b = 0" for a b :: u32
  by (auto simp: bit_eq_iff bit_simps)

lemma trap_test_computes:
  assumes v: "holds c s v x" and r: "ready L c" and ty: "int_fits_in_32 (value_type c v) \<or> value_type c v = ty_I64"
  obtains m where "sia_trap_test v c = map_option Some m"
    "computes L 1 m c s (\<lambda>t c' s'. vold (vnext c') t \<and> (vr s' t = 0 \<longleftrightarrow> x = 0) \<and>
       value_regs_of c' = value_regs_of c \<and> value_sunk c' = value_sunk c)"
proof (cases "value_type c v = ty_I64")
  case True
  obtain p where P: "value_regs_of c v = Some p" "\<not> value_sunk c v" "pair_old (vnext c) p" "val64 s p = x"
    using holds_pair [OF v True] by (rule pair_valE)
  obtain n k w l where p: "p = Two_regs (Virtual n k) (Virtual w l)" "n < vnext c" "w < vnext c"
    using P(3) by (rule pair_oldE)
  show thesis
    by (rule that, (simp add: sia_trap_test_def True; rule refl))
      (use P p r in \<open>auto simp: put_value_eq ready_def alloc_okD isle_emit_def straight or_zero pair_eq_0_iff\<close>)
next
  case False
  then have ty: "int_fits_in_32 (value_type c v)" using ty by simp
  obtain a where a: "word_val c s v a" "trunc (value_type c v) (ucast a) = x" using v ty by (rule holds_word)
  obtain n k where X: "\<not> value_sunk c v" "value_regs_of c v = Some (One_reg (Virtual n k))" "n < vnext c"
    "vr s (Virtual n k) = a" using a(1) by (rule word_valE)
  have z: "take_bit (ty_bits (value_type c v)) a = 0 \<longleftrightarrow> x = 0"
    using a(2) by (simp add: ucast_trunc [OF ty]) (metis ucast_0 ucast_mod64 unat_0 unat_eq_zero)
  show thesis using ty
  proof (rule fits_cases)
    assume t: "value_type c v = ty_I32"
    show thesis
      by (rule that, (simp add: sia_trap_test_def t; rule refl))
        (use X r z t in \<open>auto simp: put_in_reg_eq ready_def straight full_width\<close>)
  next
    assume t: "value_type c v = ty_I8"
    show thesis
      by (rule that, (simp add: sia_trap_test_def t; rule refl))
        (use X r z t in \<open>auto simp: put_in_reg_eq ready_def straight alloc_okD isle_emit_def extend_sem_def\<close>)
  next
    assume t: "value_type c v = ty_I16"
    show thesis
      by (rule that, (simp add: sia_trap_test_def t; rule refl))
        (use X r z t in \<open>auto simp: put_in_reg_eq ready_def straight alloc_okD isle_emit_def extend_sem_def\<close>)
  qed
qed

lemma word_val_extends:
  assumes "word_val c s v a" "extends L K c s c' s'" "value_regs_of c' = value_regs_of c" "value_sunk c' = value_sunk c"
  shows "word_val c' s' v a"
  using assms by (fastforce simp: word_val_def extends_iff)

lemma select_word:
  assumes v: "holds c s b B" and x: "word_val c s x a1" and y: "word_val c s y a2" and r: "ready L c"
    and vty: "int_fits_in_32 (value_type c b) \<or> value_type c b = ty_I64" and ty: "int_fits_in_32 ty"
  shows "selects L (lower_select ty b x y c) c s
    [(ty, if B \<noteq> 0 then trunc ty (ucast a1) else trunc ty (ucast a2))]"
proof -
  obtain m where m: "sia_trap_test b c = map_option Some m"
    and cm: "computes L 1 m c s (\<lambda>t c' s'. vold (vnext c') t \<and> (vr s' t = 0 \<longleftrightarrow> B = 0) \<and>
       value_regs_of c' = value_regs_of c \<and> value_sunk c' = value_sunk c)"
    using v r vty by (rule trap_test_computes)
  have "computes L 1539 (m \<bind> (\<lambda>(t, c). with_reg2 x y c (\<lambda>rx ry c. output_reg (sia_select t rx ry c)))) c s
      (\<lambda>out c' s'. list_all2 (\<lambda>p (ty, x). regs_old (vnext c') p \<and> value_rep ty p s' x) out
        [(ty, if B \<noteq> 0 then trunc ty (ucast a1) else trunc ty (ucast a2))])"
  proof (rule computes_step [OF cm], simp)
    fix t c' s'
    assume e: "extends L 1 c s c' s'" and t: "vold (vnext c') t \<and> (vr s' t = 0 \<longleftrightarrow> B = 0) \<and>
       value_regs_of c' = value_regs_of c \<and> value_sunk c' = value_sunk c"
    have w: "word_val c' s' x a1" "word_val c' s' y a2"
      using word_val_extends [OF x e] word_val_extends [OF y e] t by auto
    have k: "alloc_ok L c'" "vnext c' < L" using e r by (auto simp: extends_def ready_def)
    show "computes L (1539 - 1) (with_reg2 x y c' (\<lambda>rx ry c. output_reg (sia_select t rx ry c))) c' s'
      (\<lambda>out c' s'. list_all2 (\<lambda>p (ty, x). regs_old (vnext c') p \<and> value_rep ty p s' x) out
        [(ty, if B \<noteq> 0 then trunc ty (ucast a1) else trunc ty (ucast a2))])"
      using w t k ty
      by (auto elim!: word_valE simp: with_reg2_eq output_reg_def sia_select_def alloc_okD straight vold_iff
          regs_old_def value_rep_def)
  qed
  moreover have "lower_select ty b x y c =
      map_option Some (m \<bind> (\<lambda>(t, c). with_reg2 x y c (\<lambda>rx ry c. output_reg (sia_select t rx ry c))))"
    using ty by (cases m) (auto simp: lower_select_def m)
  ultimately show ?thesis unfolding selects_def by blast
qed

text \<open>Code that traps.\<close>

definition selects_trap ::
  "(value_regs list \<times> lower_ctx) option option \<Rightarrow> lower_ctx \<Rightarrow> vstate \<Rightarrow> trap_code \<Rightarrow> bool" where
  "selects_trap r c s code \<longleftrightarrow> (\<exists>m. r = map_option Some m \<and> traps m c s code)"

lemma trap_if_word:
  assumes v: "holds c s v x" and r: "ready L c" and ty: "int_fits_in_32 (value_type c v) \<or> value_type c v = ty_I64"
    and mk: "\<And>t s. vstep (into_machine_inst (mk t code)) s = Some (if P (vr s t = 0) then Inl code else Inr s)"
  shows "\<not> P (x = 0) \<Longrightarrow> selects L (lower_trap_if mk v code c) c s []"
    and "P (x = 0) \<Longrightarrow> selects_trap (lower_trap_if mk v code c) c s code"
proof -
  obtain m where m: "sia_trap_test v c = map_option Some m"
    and cm: "computes L 1 m c s (\<lambda>t c' s'. vold (vnext c') t \<and> (vr s' t = 0 \<longleftrightarrow> x = 0) \<and>
       value_regs_of c' = value_regs_of c \<and> value_sunk c' = value_sunk c)"
    using v r ty by (rule trap_test_computes)
  obtain t c' "is" s' where t: "m = Some (t, c')" "ir_insts c' = ir_insts c @ is" "exec_insts is s = Some (Inr s')"
    "extends L 1 c s c' s'" "vr s' t = 0 \<longleftrightarrow> x = 0"
    using cm by (auto simp: computes_def lowers_def)
  have l: "lower_trap_if mk v code c = map_option Some (side_effect (mk t code) c')"
    by (simp add: lower_trap_if_def m t)
  show "selects L (lower_trap_if mk v code c) c s []" if "\<not> P (x = 0)"
    using that t unfolding selects_def l
    by (intro exI [where x = "side_effect (mk t code) c'"])
      (auto simp: side_effect_def isle_emit_def straight exec_insts_append mk)
  show "selects_trap (lower_trap_if mk v code c) c s code" if "P (x = 0)"
    using that t unfolding selects_trap_def l
    by (intro exI [where x = "side_effect (mk t code) c'"])
      (auto simp: side_effect_def isle_emit_def traps_def exec_insts_append mk)
qed

lemma divrem_word:
  assumes x: "word_val c s x a" and y: "word_val c s y b" and r: "ready L c" and b: "b \<noteq> 0"
    and op: "(remainder, mk) \<in> {(False, M_DivU), (True, M_RemU)}"
  shows "selects L (lower_divrem remainder mk ty_I32 x y c) c s
    [(ty_I32, if remainder then trunc ty_I32 (ucast a) mod trunc ty_I32 (ucast b)
              else trunc ty_I32 (ucast a) div trunc ty_I32 (ucast b))]"
proof -
  have u: "ucast (a div b) = (ucast a div ucast b :: u64)" "ucast (a mod b) = (ucast a mod ucast b :: u64)"
    by (simp_all add: word_unat_eq_iff ucast_mod64 unat_div unat_mod)
  have "selects L (map_option Some (sia_binary_result mk ty_I32 x y c)) c s
    [(ty_I32, if remainder then trunc ty_I32 (ucast a) mod trunc ty_I32 (ucast b)
              else trunc ty_I32 (ucast a) div trunc ty_I32 (ucast b))]"
    using op r b
    by (auto intro!: binary_result_selects [OF x y, where f = "execute_reference (if remainder then M7_Remu else M7_Divu)"]
        simp: ready_def trunc_I32 execute_reference_def simp flip: u)
  then show ?thesis by (simp add: lower_divrem_def)
qed

text \<open>Signed division and remainder of whole registers.\<close>

lemma sint_sext_I32: "sint (sext ty_I32 (ucast (a :: u32))) = sint a"
proof -
  have "signed_take_bit 31 a = a" by (intro bit_word_eqI) (auto simp: bit_simps min_def le_less)
  then show ?thesis using sext_trunc [of ty_I32 a] by (simp add: trunc_I32 sint_scast64)
qed

lemma trunc_word_of_int: "ucast (word_of_int k :: u32) = trunc ty_I32 (word_of_int k)"
  unfolding trunc_def by (intro bit_word_eqI) (auto simp: bit_simps)

lemma trunc_idem: "trunc ty (trunc ty x) = trunc ty x"
  by (simp add: trunc_def)

lemma sdiv_word:
  assumes x: "word_val c s x a" and y: "word_val c s y b" and r: "ready L c" and b: "b \<noteq> 0"
    and ov: "\<not> (sint a = - (2 ^ 31) \<and> sint b = - 1)"
  shows "selects L (lower_inst (Sdiv ty_I32 x y) c) c s [(ty_I32, trunc ty_I32 (word_of_int (sint a sdiv sint b)))]"
proof -
  have "\<not> (a = i32_MIN \<and> b = - 1)" using ov by (auto simp: i32_MIN_def)
  then have "execute_reference M7_Div a b = word_of_int (sint a sdiv sint b)"
    using b by (auto simp: execute_reference_def signed_div_def)
  then show ?thesis
    using r by (auto intro!: binary_result_selects [OF x y, where f = "execute_reference M7_Div"]
        simp: ready_def trunc_word_of_int trunc_idem)
qed

lemma srem_word:
  assumes x: "word_val c s x a" and y: "word_val c s y b" and r: "ready L c" and b: "b \<noteq> 0"
  shows "selects L (lower_inst (Srem ty_I32 x y) c) c s [(ty_I32, trunc ty_I32 (word_of_int (sint a smod sint b)))]"
proof -
  have "sint (- 1 :: u32) = - 1" "k smod - 1 = 0" for k :: int by (simp_all add: smod_int_alt_def)
  then have "execute_reference M7_Rem a b = word_of_int (sint a smod sint b)"
    using b by (auto simp: execute_reference_def signed_rem_def)
  then show ?thesis
    using r by (auto intro!: binary_result_selects [OF x y, where f = "execute_reference M7_Rem"]
        simp: ready_def trunc_word_of_int trunc_idem)
qed

end
