(* ===== verification/Sia32_Rules_Correct.thy ===== *)
theory Sia32_Rules_Correct
  imports Sia32_Word_Rules
begin

text \<open>
  The selection rules of \<open>lower.isle\<close> are correct on the scalar integer instructions and types that
  \<open>clif_wf\<close> lists: the code they select computes the results the instruction means, or traps with its
  trap code, whatever the bits above a narrow operand. Rules that match outside that list do not compute
  their instruction; they are the subject of the last section.
\<close>

section \<open>Correctness of the rules\<close>

text \<open>
  The scalar integer instructions and types that the rules cover and lower to what the instruction means;
  the operand types are those the IR requires. Rules of \<open>lower.isle\<close> that match more than this are left
  out because they are wrong there: division and remainder, unsigned and signed, on \<open>I8\<close> and \<open>I16\<close> divide
  whole registers (\<open>narrow_udiv_uses_high_bits\<close> below); \<open>uadd_overflow\<close> on \<open>I32\<close> yields 255 where the
  instruction means 1 (\<open>overflow_rule\<close> below); and a shift below 64 bits whose amount is an \<open>I64\<close> makes
  selection panic. Loads, stores and calls have their own theorems.
\<close>

definition int_ty :: "ir_type \<Rightarrow> bool" where
  "int_ty ty \<longleftrightarrow> int_fits_in_32 ty \<or> ty = ty_I64"

definition clif_wf :: "(nat \<Rightarrow> ir_type) \<Rightarrow> clif \<Rightarrow> bool" where
  "clif_wf tys i =
     (let binary = (\<lambda>ty x y. int_ty ty \<and> tys x = ty \<and> tys y = ty);
          wide = (\<lambda>ty. ty = ty_I32 \<or> ty = ty_I64);
          shift = (\<lambda>ty x y. tys x = ty \<and> (int_fits_in_32 ty \<and> int_fits_in_32 (tys y) \<or> ty = ty_I64 \<and> int_ty (tys y)));
          extend = (\<lambda>ty x. ty = ty_I32 \<and> (tys x = ty_I8 \<or> tys x = ty_I16) \<or> ty = ty_I64 \<and> int_fits_in_32 (tys x)) in
      case i of
        Iconst ty n \<Rightarrow> int_ty ty \<and> trunc ty n = n
      | Iadd ty x y \<Rightarrow> binary ty x y | Isub ty x y \<Rightarrow> binary ty x y
      | Band ty x y \<Rightarrow> binary ty x y | Bor ty x y \<Rightarrow> binary ty x y | Bxor ty x y \<Rightarrow> binary ty x y
      | Imul ty x y \<Rightarrow> binary ty x y
      | Ineg ty x \<Rightarrow> int_fits_in_32 ty \<and> tys x = ty | Bnot ty x \<Rightarrow> int_fits_in_32 ty \<and> tys x = ty
      | Ishl ty x y \<Rightarrow> shift ty x y | Ushr ty x y \<Rightarrow> shift ty x y | Sshr ty x y \<Rightarrow> shift ty x y
      | Ir_Clz ty x \<Rightarrow> wide ty \<and> tys x = ty | Ir_Ctz ty x \<Rightarrow> wide ty \<and> tys x = ty
      | Popcnt ty x \<Rightarrow> wide ty \<and> tys x = ty
      | Uextend ty x \<Rightarrow> extend ty x | Sextend ty x \<Rightarrow> extend ty x
      | Ireduce ty x \<Rightarrow> (ty = ty_I8 \<or> ty = ty_I16) \<and> tys x = ty_I32 \<or> int_fits_in_32 ty \<and> tys x = ty_I64
      | Umulhi ty x y \<Rightarrow> wide ty \<and> binary ty x y
      | Umin ty x y \<Rightarrow> ty = ty_I32 \<and> binary ty x y
      | Udiv ty x y \<Rightarrow> wide ty \<and> binary ty x y | Urem ty x y \<Rightarrow> wide ty \<and> binary ty x y
      | Sdiv ty x y \<Rightarrow> ty = ty_I32 \<and> binary ty x y | Srem ty x y \<Rightarrow> ty = ty_I32 \<and> binary ty x y
      | Ir_Icmp cc x y \<Rightarrow> int_ty (tys x) \<and> tys y = tys x
      | Ir_Select ty b x y \<Rightarrow> int_fits_in_32 ty \<and> tys x = ty \<and> tys y = ty \<and> int_ty (tys b)
      | Ir_Trap code \<Rightarrow> True
      | Trapnz v code \<Rightarrow> int_ty (tys v) | Trapz v code \<Rightarrow> int_ty (tys v)
      | _ \<Rightarrow> False)"

definition clif_operands :: "clif \<Rightarrow> nat list" where
  "clif_operands i =
     (case i of
        Iadd ty x y \<Rightarrow> [x, y] | Isub ty x y \<Rightarrow> [x, y] | Ineg ty x \<Rightarrow> [x]
      | Band ty x y \<Rightarrow> [x, y] | Bor ty x y \<Rightarrow> [x, y] | Bxor ty x y \<Rightarrow> [x, y] | Bnot ty x \<Rightarrow> [x]
      | Ishl ty x y \<Rightarrow> [x, y] | Ushr ty x y \<Rightarrow> [x, y] | Sshr ty x y \<Rightarrow> [x, y]
      | Ir_Clz ty x \<Rightarrow> [x] | Ir_Ctz ty x \<Rightarrow> [x] | Popcnt ty x \<Rightarrow> [x]
      | Uextend ty x \<Rightarrow> [x] | Sextend ty x \<Rightarrow> [x] | Ireduce ty x \<Rightarrow> [x]
      | Imul ty x y \<Rightarrow> [x, y] | Umulhi ty x y \<Rightarrow> [x, y] | Umin ty x y \<Rightarrow> [x, y]
      | Udiv ty x y \<Rightarrow> [x, y] | Sdiv ty x y \<Rightarrow> [x, y] | Urem ty x y \<Rightarrow> [x, y] | Srem ty x y \<Rightarrow> [x, y]
      | Uadd_overflow ty x y \<Rightarrow> [x, y] | Ir_Icmp cc x y \<Rightarrow> [x, y] | Ir_Select ty b x y \<Rightarrow> [b, x, y]
      | Trapnz v code \<Rightarrow> [v] | Trapz v code \<Rightarrow> [v]
      | _ \<Rightarrow> [])"

lemma holds_trunc: "holds c s v x \<Longrightarrow> trunc (value_type c v) x = x"
proof -
  assume "holds c s v x"
  then obtain p where "value_rep (value_type c v) p s x" by (auto simp: holds_def)
  then show ?thesis by (cases p) (auto simp: value_rep_def trunc_def take_bit_word_eq_self)
qed

lemma int_tyE:
  assumes "int_ty ty"
  obtains "int_fits_in_32 ty" | "ty = ty_I64"
  using assms by (auto simp: int_ty_def)

lemma holds_words:
  assumes "holds c s x X" "value_type c x = ty" "holds c s y Y" "value_type c y = ty" "int_fits_in_32 ty"
  obtains a b where "word_val c s x a" "trunc ty (ucast a) = X" "word_val c s y b" "trunc ty (ucast b) = Y"
  using assms by (metis holds_word)

lemma alu_ok:
  assumes x: "holds c s x X" "value_type c x = ty" and y: "holds c s y Y" "value_type c y = ty" and r: "ready L c"
    and ty: "int_ty ty" and op: "(op, mk) \<in> {(0, M_Add), (1, M_Sub), (2, M_And), (3, M_Or), (4, M_Xor)}"
  shows "selects L (lower_alu op mk ty x y c) c s [(ty, trunc ty (alu64 op X Y))]"
  using ty
proof (rule int_tyE)
  assume f: "int_fits_in_32 ty"
  obtain a b where "word_val c s x a" "trunc ty (ucast a) = X" "word_val c s y b" "trunc ty (ucast b) = Y"
    using x y f by (rule holds_words)
  then show ?thesis using alu_word r f op by blast
next
  assume t: "ty = ty_I64"
  then have "pair_val c s x X" "pair_val c s y Y" using x y holds_pair by auto
  then show ?thesis using alu_64 [of c s x X y Y L op mk] r op by (auto simp: t ready_def)
qed

lemma mul_ok:
  assumes x: "holds c s x X" "value_type c x = ty" and y: "holds c s y Y" "value_type c y = ty" and r: "ready L c"
    and ty: "int_ty ty"
  shows "selects L (lower_inst (Imul ty x y) c) c s [(ty, trunc ty (X * Y))]"
  using ty
proof (rule int_tyE)
  assume f: "int_fits_in_32 ty"
  obtain a b where "word_val c s x a" "trunc ty (ucast a) = X" "word_val c s y b" "trunc ty (ucast b) = Y"
    using x y f by (rule holds_words)
  then show ?thesis using mul_word r f by blast
next
  assume t: "ty = ty_I64"
  then have "pair_val c s x X" "pair_val c s y Y" using x y holds_pair by auto
  then show ?thesis using mul_64 [of c s x X y Y L] r by (simp add: t ready_def)
qed

lemma shift_ok:
  assumes x: "holds c s x (\<rho> x)" "value_type c x = ty" and y: "holds c s y (\<rho> y)" and r: "ready L c" and defs: "defs_ok c \<rho>"
    and ty: "int_fits_in_32 ty \<and> int_fits_in_32 (value_type c y) \<or> ty = ty_I64"
    and op: "(op, mk) \<in> {(0, M_Shl), (1, M_Shr), (2, M_Sar)}"
  shows "selects L (lower_shift op mk ty x y c) c s [(ty, clif_shift op ty (\<rho> x) (\<rho> y))]"
proof (cases "ty = ty_I64")
  case True
  then show ?thesis using shift_64 [OF holds_pair [OF x(1)] y _ _ _ defs, of L op mk] x r op by (auto simp: ready_def)
next
  case False
  then have f: "int_fits_in_32 ty" "int_fits_in_32 (value_type c y)" using ty by auto
  obtain a where a: "word_val c s x a" "trunc ty (ucast a) = \<rho> x" using x f(1) by (metis holds_word)
  obtain b where b: "word_val c s y b" "trunc (value_type c y) (ucast b) = \<rho> y" using y f(2) by (rule holds_word)
  have n: "unat (\<rho> y) mod 64 = unat b mod 64"
    using trunc_mod64(1) [of "value_type c y" "ucast b"] f by (simp add: b ucast_mod64)
  have o2: "op \<le> 2" using op by auto
  show ?thesis using f(1)
  proof (rule fits_cases)
    assume "ty = ty_I32"
    then show ?thesis using shift_word [OF a(1) b(1) r op n] a(2) by simp
  next
    assume "ty = ty_I8"
    then show ?thesis using narrow_shift_word [OF a(1) b(1) r o2 _ n, of ty mk] a(2) by simp
  next
    assume "ty = ty_I16"
    then show ?thesis using narrow_shift_word [OF a(1) b(1) r o2 _ n, of ty mk] a(2) by simp
  qed
qed

lemma bitcount_ok:
  assumes x: "holds c s x X" "value_type c x = ty" and r: "ready L c" and ty: "ty = ty_I32 \<or> ty = ty_I64"
    and op: "(op, mk) \<in> {(0, M_Clz), (1, M_Ctz), (2, M_Cpop)}"
  shows "selects L (lower_bitcount op mk ty x c) c s [(ty, clif_bitcount op ty X)]"
  using ty
proof
  assume t: "ty = ty_I32"
  obtain a where "word_val c s x a" "trunc ty (ucast a) = X" using x t by (metis holds_word int_types_fit(1))
  then show ?thesis using bitcount_word [of c s x a L op mk] r op t by auto
next
  assume t: "ty = ty_I64"
  then show ?thesis using bitcount_64 [of c s x X L op mk] holds_pair [OF x(1)] x(2) r op by (auto simp: ready_def)
qed

lemma extend_ok:
  assumes x: "holds c s x X" and r: "ready L c"
    and ty: "ty = ty_I32 \<and> (value_type c x = ty_I8 \<or> value_type c x = ty_I16) \<or> ty = ty_I64 \<and> int_fits_in_32 (value_type c x)"
  shows "selects L (lower_extend sg ty x c) c s [(ty, if sg then trunc ty (sext (value_type c x) X) else X)]"
proof -
  have "int_fits_in_32 (value_type c x)" using ty by auto
  with x obtain a where a: "word_val c s x a" "trunc (value_type c x) (ucast a) = X" by (rule holds_word)
  show ?thesis
    using ty extend_word_32 [OF a(1) r, of sg, unfolded a(2)] extend_word_64 [OF a(1) r, of sg, unfolded a(2)] by auto
qed

lemma reduce_ok:
  assumes x: "holds c s x X" and r: "ready L c"
    and ty: "(ty = ty_I8 \<or> ty = ty_I16) \<and> value_type c x = ty_I32 \<or> int_fits_in_32 ty \<and> value_type c x = ty_I64"
  shows "selects L (lower_reduce ty x c) c s [(ty, trunc ty X)]"
  using ty
proof
  assume t: "(ty = ty_I8 \<or> ty = ty_I16) \<and> value_type c x = ty_I32"
  obtain a where "word_val c s x a" "trunc ty_I32 (ucast a) = X" using x t by (metis holds_word int_types_fit(1))
  then show ?thesis using reduce_word [of c s x a L ty] r t by auto
next
  assume t: "int_fits_in_32 ty \<and> value_type c x = ty_I64"
  then show ?thesis using reduce_pair [OF holds_pair [OF x] r] by simp
qed

lemma icmp_ok:
  assumes x: "holds c s x X" and y: "holds c s y Y" "value_type c y = value_type c x" and r: "ready L c"
    and ty: "int_ty (value_type c x)"
  shows "selects L (lower_icmp cc x y c) c s [(ty_I8, of_bool (clif_icmp cc (value_type c x) X Y))]"
  using ty
proof (rule int_tyE)
  assume f: "int_fits_in_32 (value_type c x)"
  obtain a b where "word_val c s x a" "trunc (value_type c x) (ucast a) = X"
    "word_val c s y b" "trunc (value_type c x) (ucast b) = Y"
    using x refl y f by (rule holds_words)
  then show ?thesis using icmp_word [of c s x a y b L cc] r f by simp
next
  assume t: "value_type c x = ty_I64"
  then show ?thesis using icmp_64 [OF holds_pair [OF x] holds_pair [OF y(1)]] y(2) r by (simp add: ready_def)
qed

lemma umulhi_ok:
  assumes x: "holds c s x X" "value_type c x = ty" and y: "holds c s y Y" "value_type c y = ty" and r: "ready L c"
    and ty: "ty = ty_I32 \<or> ty = ty_I64"
  shows "selects L (lower_inst (Umulhi ty x y) c) c s [(ty, word_of_nat (unat X * unat Y div 2 ^ ty_bits ty))]"
  using ty
proof
  assume t: "ty = ty_I32"
  obtain a b where "word_val c s x a" "trunc ty (ucast a) = X" "word_val c s y b" "trunc ty (ucast b) = Y"
    using x y by (rule holds_words) (simp add: t)
  then show ?thesis using umulhi_word [of c s x a y b L] r by (auto simp: t)
next
  assume t: "ty = ty_I64"
  then have "pair_val c s x X" "pair_val c s y Y" using x y holds_pair by auto
  then show ?thesis using umulhi_64 [of c s x X y Y L] r by (simp add: t ready_def umulhi64_def)
qed

lemma divrem_ok:
  assumes x: "holds c s x X" "value_type c x = ty" and y: "holds c s y Y" "value_type c y = ty" and r: "ready L c"
    and ty: "ty = ty_I32 \<or> ty = ty_I64" and nz: "Y \<noteq> 0" and op: "(remainder, mk) \<in> {(False, M_DivU), (True, M_RemU)}"
  shows "selects L (lower_divrem remainder mk ty x y c) c s [(ty, if remainder then X mod Y else X div Y)]"
  using ty
proof
  assume t: "ty = ty_I32"
  obtain a b where ab: "word_val c s x a" "trunc ty (ucast a) = X" "word_val c s y b" "trunc ty (ucast b) = Y"
    using x y by (rule holds_words) (simp add: t)
  have b: "b \<noteq> 0" using ab(4) nz by (auto simp: trunc_def)
  show ?thesis using divrem_word [OF ab(1,3) r b op] ab(2,4) by (simp only: t)
next
  assume t: "ty = ty_I64"
  then have "pair_val c s x X" "pair_val c s y Y" using x y holds_pair by auto
  then show ?thesis using divrem_64 [of c s x X y Y L remainder mk] r nz by (simp add: t ready_def)
qed

lemma signed_divrem_ok:
  assumes x: "holds c s x X" "value_type c x = ty_I32" and y: "holds c s y Y" "value_type c y = ty_I32"
    and r: "ready L c" and nz: "Y \<noteq> 0"
  shows "\<not> (sint (sext ty_I32 X) = - 2147483648 \<and> sint (sext ty_I32 Y) = - 1) \<Longrightarrow>
      selects L (lower_inst (Sdiv ty_I32 x y) c) c s
        [(ty_I32, trunc ty_I32 (word_of_int (sint (sext ty_I32 X) sdiv sint (sext ty_I32 Y))))]"
    and "selects L (lower_inst (Srem ty_I32 x y) c) c s
        [(ty_I32, trunc ty_I32 (word_of_int (sint (sext ty_I32 X) smod sint (sext ty_I32 Y))))]"
proof -
  obtain a b where ab: "word_val c s x a" "trunc ty_I32 (ucast a) = X" "word_val c s y b" "trunc ty_I32 (ucast b) = Y"
    using x y by (rule holds_words) simp
  have b: "b \<noteq> 0" using ab(4) nz by (auto simp: trunc_def)
  have e: "sint (sext ty_I32 X) = sint a" "sint (sext ty_I32 Y) = sint b"
    using sint_sext_I32 ab(2,4) by (auto simp: trunc_I32)
  show "\<not> (sint (sext ty_I32 X) = - 2147483648 \<and> sint (sext ty_I32 Y) = - 1) \<Longrightarrow>
      selects L (lower_inst (Sdiv ty_I32 x y) c) c s
        [(ty_I32, trunc ty_I32 (word_of_int (sint (sext ty_I32 X) sdiv sint (sext ty_I32 Y))))]"
    unfolding e by (rule sdiv_word [OF ab(1,3) r b]) simp
  show "selects L (lower_inst (Srem ty_I32 x y) c) c s
        [(ty_I32, trunc ty_I32 (word_of_int (sint (sext ty_I32 X) smod sint (sext ty_I32 Y))))]"
    unfolding e by (rule srem_word [OF ab(1,3) r b])
qed

lemma umin_ok:
  assumes x: "holds c s x X" "value_type c x = ty_I32" and y: "holds c s y Y" "value_type c y = ty_I32" and r: "ready L c"
  shows "selects L (lower_inst (Umin ty_I32 x y) c) c s [(ty_I32, min X Y)]"
proof -
  obtain a b where "word_val c s x a" "trunc ty_I32 (ucast a) = X" "word_val c s y b" "trunc ty_I32 (ucast b) = Y"
    using x y by (rule holds_words) simp
  then show ?thesis using umin_word r by blast
qed

lemma select_ok:
  assumes b: "holds c s b B" "int_ty (value_type c b)" and x: "holds c s x X" "value_type c x = ty"
    and y: "holds c s y Y" "value_type c y = ty" and r: "ready L c" and ty: "int_fits_in_32 ty"
  shows "selects L (lower_select ty b x y c) c s [(ty, if B \<noteq> 0 then X else Y)]"
proof -
  obtain a1 a2 where "word_val c s x a1" "trunc ty (ucast a1) = X" "word_val c s y a2" "trunc ty (ucast a2) = Y"
    using x y ty by (rule holds_words)
  then show ?thesis using select_word [OF b(1) _ _ r _ ty] b(2) unfolding int_ty_def by blast
qed

lemma unary_ok:
  assumes x: "holds c s x X" "value_type c x = ty" and r: "ready L c" and ty: "int_fits_in_32 ty"
  shows "selects L (lower_inst (Ineg ty x) c) c s [(ty, trunc ty (- X))]"
    and "selects L (lower_inst (Bnot ty x) c) c s [(ty, trunc ty (NOT X))]"
proof -
  obtain a where "word_val c s x a" "trunc ty (ucast a) = X" using x ty by (metis holds_word)
  then show "selects L (lower_inst (Ineg ty x) c) c s [(ty, trunc ty (- X))]"
    "selects L (lower_inst (Bnot ty x) c) c s [(ty, trunc ty (NOT X))]"
    using neg_word not_word r ty by blast+
qed

lemma const_ok:
  assumes r: "ready L c" and ty: "int_ty ty" "trunc ty n = n"
  shows "selects L (lower_inst (Iconst ty n) c) c s [(ty, n)]"
  using ty(1)
proof (rule int_tyE)
  assume "int_fits_in_32 ty"
  then show ?thesis using iconst_selects [of L c ty n s] r ty by (simp add: ready_def)
next
  assume "ty = ty_I64"
  then show ?thesis using const_64 [of L c n s] r by (simp add: ready_def)
qed

lemma trap_if_ok:
  assumes v: "holds c s v x" and r: "ready L c" and ty: "int_ty (value_type c v)"
  shows "x \<noteq> 0 \<Longrightarrow> selects L (lower_trap_if M_TrapIfZ v code c) c s []"
    and "x = 0 \<Longrightarrow> selects_trap (lower_trap_if M_TrapIfZ v code c) c s code"
    and "x = 0 \<Longrightarrow> selects L (lower_trap_if M_TrapIfNz v code c) c s []"
    and "x \<noteq> 0 \<Longrightarrow> selects_trap (lower_trap_if M_TrapIfNz v code c) c s code"
  using trap_if_word [OF v r ty [unfolded int_ty_def], of M_TrapIfZ code "\<lambda>z. z"]
    trap_if_word [OF v r ty [unfolded int_ty_def], of M_TrapIfNz code "\<lambda>z. \<not> z"] by simp_all

lemma trunc_logic_ok:
  assumes "holds c s x X" "holds c s y Y" "value_type c x = ty" "value_type c y = ty"
  shows "trunc ty (X AND Y) = X AND Y" "trunc ty (X OR Y) = X OR Y" "trunc ty (X XOR Y) = X XOR Y"
  using holds_trunc [OF assms(1)] holds_trunc [OF assms(2)] assms(3,4) by (simp_all add: trunc_def)

lemmas alu_rules =
  alu_ok [where op = 0 and mk = M_Add, unfolded alu64_def, simplified]
  alu_ok [where op = 1 and mk = M_Sub, unfolded alu64_def, simplified]
  alu_ok [where op = 2 and mk = M_And, unfolded alu64_def, simplified]
  alu_ok [where op = 3 and mk = M_Or, unfolded alu64_def, simplified]
  alu_ok [where op = 4 and mk = M_Xor, unfolded alu64_def, simplified]

lemma logic_ok:
  assumes x: "holds c s x X" "value_type c x = ty" and y: "holds c s y Y" "value_type c y = ty" and r: "ready L c"
    and ty: "int_ty ty"
  shows "selects L (lower_alu 2 M_And ty x y c) c s [(ty, X AND Y)]"
    and "selects L (lower_alu 3 M_Or ty x y c) c s [(ty, X OR Y)]"
    and "selects L (lower_alu 4 M_Xor ty x y c) c s [(ty, X XOR Y)]"
  using alu_rules(3-5) [OF x y r ty] trunc_logic_ok [OF x(1) y(1) x(2) y(2)] by simp_all

lemmas divrem_rules =
  divrem_ok [where remainder = False and mk = M_DivU, simplified]
  divrem_ok [where remainder = True and mk = M_RemU, simplified]

lemmas extend_rules = extend_ok [where sg = False, simplified] extend_ok [where sg = True, simplified]

lemmas rules_ok = alu_rules(1,2) logic_ok mul_ok shift_ok bitcount_ok extend_rules reduce_ok icmp_ok umulhi_ok divrem_rules
  umin_ok unary_ok const_ok signed_divrem_ok trap_if_ok(1,3)

lemma lower_inst_ok:
  assumes r: "ready L c" and wf: "clif_wf (value_type c) i" and defs: "defs_ok c \<rho>"
    and args: "list_all (\<lambda>v. holds c s v (\<rho> v)) (clif_operands i)"
    and sem: "clif_sem (value_type c) \<rho> i = Some (Inr outs)"
  shows "selects L (lower_inst i c) c s outs"
proof (cases "\<exists>ty b x y. i = Ir_Select ty b x y")
  case True
  then obtain ty b x y where i: "i = Ir_Select ty b x y" by blast
  have "outs = [(ty, if \<rho> b \<noteq> 0 then \<rho> x else \<rho> y)]" using sem by (simp add: i clif_sem_def)
  then show ?thesis
    using wf args select_ok [of c s b "\<rho> b" x "\<rho> x" ty y "\<rho> y", OF _ _ _ _ _ _ r]
    by (simp add: i clif_wf_def clif_operands_def Let_def)
next
  case False
  then show ?thesis
    using wf args sem r defs
    by (cases i) (auto simp: clif_wf_def clif_operands_def clif_sem_def Let_def split: if_splits
      simp del: lower_inst.simps(1,4,8,18-20,22,24) intro!: rules_ok)
qed

lemma divrem_trap_64:
  assumes x: "holds c s x X" "value_type c x = ty_I64" and y: "holds c s y 0" "value_type c y = ty_I64" and r: "ready L c"
  shows "selects_trap (lower_divrem remainder mk ty_I64 x y c) c s INTEGER_DIVISION_BY_ZERO"
proof -
  obtain p where p: "value_regs_of c x = Some p" "\<not> value_sunk c x" "pair_old (vnext c) p"
    using holds_pair [OF x] by (rule pair_valE)
  obtain q where q: "value_regs_of c y = Some q" "\<not> value_sunk c y" "pair_old (vnext c) q" "val64 s q = 0"
    using holds_pair [OF y] by (rule pair_valE)
  have "traps (sia_i64_divrem p q remainder (used y (used x c))) c s INTEGER_DIVISION_BY_ZERO"
    using divrem_traps [of L "used y (used x c)" p q s remainder] r p q by (simp add: ready_def traps_def)
  then have "traps (output_regs (sia_i64_divrem p q remainder (used y (used x c)))) c s INTEGER_DIVISION_BY_ZERO"
    by (auto simp: traps_def output_regs_def)
  then show ?thesis using p q unfolding selects_trap_def by (auto simp: lower_divrem_def with_regs2_eq)
qed

lemma udf_trap: "selects_trap (map_option Some (side_effect (M_Udf code) c)) c s code"
  unfolding selects_trap_def
  by (rule exI [where x = "side_effect (M_Udf code) c"]) (simp add: side_effect_def isle_emit_def traps_def vstep_def)

lemma lower_inst_traps_ok:
  assumes r: "ready L c" and wf: "clif_wf (value_type c) i"
    and args: "list_all (\<lambda>v. holds c s v (\<rho> v)) (clif_operands i)"
    and sem: "clif_sem (value_type c) \<rho> i = Some (Inl code)"
    and div: "\<And>x y. i \<noteq> Udiv ty_I32 x y \<and> i \<noteq> Urem ty_I32 x y \<and> i \<noteq> Sdiv ty_I32 x y \<and> i \<noteq> Srem ty_I32 x y"
  shows "selects_trap (lower_inst i c) c s code"
  using wf args sem r div
  by (cases i) (auto simp: clif_wf_def clif_operands_def clif_sem_def Let_def udf_trap split: if_splits
    intro!: trap_if_ok(2,4) divrem_trap_64)

section \<open>Memory\<close>

lemma store_64:
  assumes v: "pair_val c s v X" and b: "word_val c s addr A" and ty: "value_type c v = ty_I64"
    and e: "little_or_native_endian e" and al: "aligned4 (A + off)"
  obtains c' "is" s' where "lower_inst (Ir_Store e v addr off) c = Some (Some ([], c'))"
    "ir_insts c' = ir_insts c @ is" "exec_insts is s = Some (Inr s')" "vr s' = vr s" "vload64 s' (A + off) = X"
    "\<forall>a. 8 \<le> a - (A + off) \<longrightarrow> vmem s' a = vmem s a" "c' = (used addr (used v c))\<lparr>ir_insts := ir_insts c'\<rparr>"
proof -
  obtain p where P: "value_regs_of c v = Some p" "\<not> value_sunk c v" "pair_old (vnext c) p" "val64 s p = X"
    using v by (rule pair_valE)
  obtain n k where B: "\<not> value_sunk c addr" "value_regs_of c addr = Some (One_reg (Virtual n k))" "n < vnext c"
    "vr s (Virtual n k) = A" using b by (rule word_valE)
  obtain p0 p1 where p: "p = Two_regs p0 p1" using P(3) by (cases p) auto
  let ?c = "used addr (used v c)"
  have "lowers (sia_i64_store p (Virtual n k) off ?c) ?c s (\<lambda>out c' s'. out = [] \<and> vr s' = vr s \<and>
      vload64 s' (A + off) = X \<and> (\<forall>a. 8 \<le> a - (A + off) \<longrightarrow> vmem s' a = vmem s a))"
    using store64_lowers [OF P(3), of s "Virtual n k" off ?c] al B(4) P(4) by simp
  then obtain c' "is" s' where "sia_i64_store p (Virtual n k) off ?c = Some ([], c')" "ir_insts c' = ir_insts c @ is"
    "exec_insts is s = Some (Inr s')" "vr s' = vr s" "vload64 s' (A + off) = X"
    "\<forall>a. 8 \<le> a - (A + off) \<longrightarrow> vmem s' a = vmem s a"
    by (auto simp: lowers_def)
  moreover from this(1) have "c' = ?c\<lparr>ir_insts := ir_insts c'\<rparr>"
    by (auto simp: sia_i64_store_def p emitted_def)
  ultimately show thesis using that P B e ty
    by (auto simp: lower_store_def with_regs1_eq put_in_reg_eq Let_def)
qed

lemma load_64:
  assumes b: "word_val c s addr A" and r: "ready L c" and e: "little_or_native_endian e" and al: "aligned4 (A + off)"
  shows "selects L (lower_inst (Ir_Load ty_I64 e addr off) c) c s [(ty_I64, vload64 s (A + off))]"
proof -
  obtain n k where B: "\<not> value_sunk c addr" "value_regs_of c addr = Some (One_reg (Virtual n k))" "n < vnext c"
    "vr s (Virtual n k) = A" using b by (rule word_valE)
  have "computes L 2 (sia_i64_load (Virtual n k) off (used addr c)) c s
      (\<lambda>p c' s'. pair_old (vnext c') p \<and> val64 s' p = vload64 s (A + off))"
    using load64_computes [of L "used addr c" "Virtual n k" s off] r B al by (simp add: computes_used ready_def)
  then have "selects L (map_option Some (output_regs (sia_i64_load (Virtual n k) off (used addr c)))) c s
      [(ty_I64, vload64 s (A + off))]"
    by (rule selects_pair) simp
  then show ?thesis using B e by (simp add: lower_load_def put_in_reg_eq)
qed

section \<open>Rules that do not compute the instruction\<close>

lemma divrem_32_zero:
  assumes "word_val c s x a" "word_val c s y 0" "ready L c"
  shows "selects L (lower_inst (Udiv ty_I32 x y) c) c s [(ty_I32, 0xFFFFFFFF)]" (is ?div)
    "selects L (lower_inst (Urem ty_I32 x y) c) c s [(ty_I32, ucast a)]" (is ?rem)
proof -
  show ?div
    using assms by (auto simp: lower_divrem_def ready_def execute_reference_def trunc_I32 u32_MAX_def trunc_def
      intro!: binary_result_selects [where f = "execute_reference M7_Divu"])
  show ?rem
    using assms by (auto simp: lower_divrem_def ready_def execute_reference_def trunc_I32
      intro!: binary_result_selects [where f = "execute_reference M7_Remu"])
qed

lemma udiv_narrow:
  assumes "word_val c s x a" "word_val c s y b" "ready L c" "int_fits_in_32 ty" "b \<noteq> 0"
  shows "selects L (lower_inst (Udiv ty x y) c) c s [(ty, trunc ty (ucast (a div b)))]"
  using assms fits_not_64 [OF assms(4)]
  by (auto simp: lower_divrem_def ready_def execute_reference_def
      intro!: binary_result_selects [where f = "execute_reference M7_Divu"])

lemma overflow_rule:
  assumes x: "word_val c s x a" and y: "word_val c s y b" and r: "ready L c"
  shows "selects L (lower_inst (Uadd_overflow ty_I32 x y) c) c s
    [(ty_I32, ucast (a + b)), (ty_I8, if a + b < a then 0xFF else 0)]"
proof -
  obtain n k where X: "\<not> value_sunk c x" "value_regs_of c x = Some (One_reg (Virtual n k))" "n < vnext c"
    "vr s (Virtual n k) = a" using x by (rule word_valE)
  obtain m l where Y: "\<not> value_sunk c y" "value_regs_of c y = Some (One_reg (Virtual m l))" "m < vnext c"
    "vr s (Virtual m l) = b" using y by (rule word_valE)
  have m1: "trunc ty_I8 (ucast (- 1 :: u32)) = 0xFF" by code_simp
  have z: "trunc ty_I8 0 = 0" by (simp add: trunc_def)
  have "computes L 1539 (lower_overflow x y c) c s (\<lambda>out c' s'.
      list_all2 (\<lambda>p (ty, x). regs_old (vnext c') p \<and> value_rep ty p s' x) out
        [(ty_I32, ucast (a + b)), (ty_I8, if a + b < a then 0xFF else 0)])"
    using X Y r [unfolded ready_def, THEN conjunct1] r [unfolded ready_def, THEN conjunct2]
    by (simp add: lower_overflow_def put_in_reg_eq isle_emit_def straight alloc_okD regs_old_def value_rep_def trunc_I32 m1 z)
  then show ?thesis unfolding selects_def by (intro exI [where x = "lower_overflow x y c"]) simp
qed

section \<open>Properties\<close>

text \<open>
  A context for the examples: values 0 and 1 are \<open>I64\<close>, 2 and 3 are \<open>I32\<close>, 4 and 5 are \<open>I8\<close>; their
  registers follow the pinned ones, and the register limits are those of a 21-bit index.
\<close>

definition demo_lower :: lower_ctx where
  "demo_lower =
     \<lparr>limits = \<lparr>VReg_MAX = 2097151, vreg_bits = (\<lambda>v rc. 4 * v)\<rparr>,
      vregs = vregs_with_capacity\<lparr>vreg_types := replicate 200 ty_I32\<rparr>, ir_insts = [],
      value_type = (\<lambda>v. if v < 2 then ty_I64 else if v < 4 then ty_I32 else ty_I8), value_def = (\<lambda>v. None),
      value_regs_of = (\<lambda>v. if v < 2 then Some (Two_regs (Virtual (192 + 2 * v) Int_class) (Virtual (193 + 2 * v) Int_class))
        else if v < 6 then Some (One_reg (Virtual (194 + v) Int_class)) else None),
      value_sunk = (\<lambda>v. False), value_lowered_uses = (\<lambda>v. 0), lower_abi = demo_callee,
      lower_sigs = \<lparr>ir_signature_to_abi_sig = Map.empty, ir_sig_ref_to_abi_sig = Map.empty, abi_args = [], sigs_of = []\<rparr>\<rparr>"

definition demo_vstate :: "u32 \<Rightarrow> u32 \<Rightarrow> u32 \<Rightarrow> u32 \<Rightarrow> vstate" where
  "demo_vstate x0 y0 a b =
     \<lparr>vr = (\<lambda>r. case r of Virtual n k \<Rightarrow> if n = 192 then x0 else if n = 194 then y0
         else if n = 196 \<or> n = 198 then a else if n = 197 \<or> n = 199 then b else 0 | Real p \<Rightarrow> 0),
      vmem = (\<lambda>a. 0)\<rparr>"

lemma demo_lower_ready: "alloc_ok 2000 demo_lower" "vnext demo_lower + 1539 \<le> 2000"
  by (auto simp: demo_lower_def alloc_ok_def can_alloc_def vregs_with_capacity_def REG_SPILLSLOT_MASK_def vnext_def)

lemma demo_lower_sel [simp]:
  "value_type demo_lower v = (if v < 2 then ty_I64 else if v < 4 then ty_I32 else ty_I8)"
  "value_def demo_lower v = None"
  by (simp_all add: demo_lower_def)

lemma demo_defs: "defs_ok demo_lower \<rho>"
  by (simp add: defs_ok_def)

lemma demo_holds:
  "holds demo_lower (demo_vstate x0 y0 a b) 0 (ucast x0)" "holds demo_lower (demo_vstate x0 y0 a b) 1 (ucast y0)"
  "holds demo_lower (demo_vstate x0 y0 a b) 2 (ucast a)" "holds demo_lower (demo_vstate x0 y0 a b) 3 (ucast b)"
  "holds demo_lower (demo_vstate x0 y0 a b) 4 (trunc ty_I8 (ucast a))"
  "holds demo_lower (demo_vstate x0 y0 a b) 5 (trunc ty_I8 (ucast b))"
  by (simp_all add: holds_def demo_lower_def demo_vstate_def regs_old_def value_rep_def vnext_def vregs_with_capacity_def
      pair_zext trunc_I32)

text \<open>
  C2: instruction selection is correct on the scalar integer instructions that \<open>clif_wf\<close> lists:
  constants, add, subtract, logic, multiplication and comparison on \<open>I8\<close> to \<open>I64\<close>; negation, bitwise not
  and selection up to \<open>I32\<close>; shifts on \<open>I8\<close> to \<open>I64\<close>, with an amount of at most 32 bits unless the value
  is \<open>I64\<close>; extensions and reductions; bit counts, high multiplication and unsigned division and remainder
  on \<open>I32\<close> and \<open>I64\<close>; signed division, signed remainder and unsigned minimum on \<open>I32\<close>; conditional traps.
  When the registers of the operands hold their values and values defined by constants and extensions have
  the value of their definition, the rules succeed, allocate at most 1539 registers, and, if the
  instruction does not mean a trap, the selected code runs to its end without a trap, changes no older
  register and no memory, and leaves the results that the instruction means in the result registers. Not in
  this list, though rules match them: division and remainder on \<open>I8\<close> and \<open>I16\<close> and \<open>uadd_overflow\<close>, whose
  rules are wrong, and narrower shifts by an \<open>I64\<close> amount, on which selection panics.
\<close>

theorem lower_inst_correct:
  assumes "alloc_ok L c" "vnext c + 1539 \<le> L" "clif_wf (value_type c) i" "defs_ok c \<rho>"
    and "list_all (\<lambda>v. holds c s v (\<rho> v)) (clif_operands i)"
    and "clif_sem (value_type c) \<rho> i = Some (Inr outs)"
  shows "selects L (lower_inst i c) c s outs"
  using assms by (intro lower_inst_ok) (simp_all add: ready_def)

theorem lower_inst_correct_witness:
  "selects 2000 (lower_inst (Udiv ty_I64 0 1) demo_lower) demo_lower (demo_vstate 100 7 0 0) [(ty_I64, 14)]"
proof (rule lower_inst_correct [OF demo_lower_ready, where \<rho> = "\<lambda>v. if v = 0 then 100 else 7"])
  show "clif_wf (value_type demo_lower) (Udiv ty_I64 0 1)" by (simp add: clif_wf_def int_ty_def)
  show "defs_ok demo_lower (\<lambda>v. if v = 0 then 100 else 7)" by (rule demo_defs)
  show "list_all (\<lambda>v. holds demo_lower (demo_vstate 100 7 0 0) v (if v = 0 then 100 else 7)) (clif_operands (Udiv ty_I64 0 1))"
    using demo_holds [of 100 7 0 0] by (simp add: clif_operands_def)
  show "clif_sem (value_type demo_lower) (\<lambda>v. if v = 0 then 100 else 7) (Udiv ty_I64 0 1) = Some (Inr [(ty_I64, 14)])"
    by (simp add: clif_sem_def)
qed

text \<open>
  C3: traps are selected. When the meaning of a covered instruction is a trap (a trap instruction, a
  conditional trap whose condition holds, a 64-bit division or remainder by zero), the selected code
  traps with the same code; the 32-bit divisions, signed and unsigned, are the exception.
\<close>

theorem lower_inst_traps:
  assumes "alloc_ok L c" "vnext c + 1539 \<le> L" "clif_wf (value_type c) i"
    and "list_all (\<lambda>v. holds c s v (\<rho> v)) (clif_operands i)"
    and "clif_sem (value_type c) \<rho> i = Some (Inl code)"
    and "\<forall>x y. i \<noteq> Udiv ty_I32 x y \<and> i \<noteq> Urem ty_I32 x y \<and> i \<noteq> Sdiv ty_I32 x y \<and> i \<noteq> Srem ty_I32 x y"
  shows "selects_trap (lower_inst i c) c s code"
  using assms by (intro lower_inst_traps_ok [where L = L and \<rho> = \<rho>]) (simp_all add: ready_def)

theorem lower_inst_traps_witness:
  "selects_trap (lower_inst (Urem ty_I64 0 1) demo_lower) demo_lower (demo_vstate 100 0 0 0) INTEGER_DIVISION_BY_ZERO"
proof (rule lower_inst_traps [OF demo_lower_ready, where \<rho> = "\<lambda>v. if v = 0 then 100 else 0"])
  show "clif_wf (value_type demo_lower) (Urem ty_I64 0 1)" by (simp add: clif_wf_def int_ty_def)
  show "list_all (\<lambda>v. holds demo_lower (demo_vstate 100 0 0 0) v (if v = 0 then 100 else 0)) (clif_operands (Urem ty_I64 0 1))"
    using demo_holds [of 100 0 0 0] by (simp add: clif_operands_def)
  show "clif_sem (value_type demo_lower) (\<lambda>v. if v = 0 then 100 else 0) (Urem ty_I64 0 1) = Some (Inl INTEGER_DIVISION_BY_ZERO)"
    by (simp add: clif_sem_def)
qed simp

text \<open>
  C31: a 64-bit store followed by a load of the same aligned address gives the stored value back, and the
  store changes only those eight bytes and no register.
\<close>

theorem store_load_roundtrip:
  assumes "alloc_ok L c" "vnext c + 1539 \<le> L" "little_or_native_endian e"
    and "holds c s v X" "value_type c v = ty_I64" "holds c s addr (ucast A)" "value_type c addr = ty_I32"
    and "aligned4 (A + off)"
  shows "\<exists>c' is s'. lower_inst (Ir_Store e v addr off) c = Some (Some ([], c')) \<and> ir_insts c' = ir_insts c @ is
     \<and> exec_insts is s = Some (Inr s') \<and> vr s' = vr s \<and> (\<forall>a. 8 \<le> a - (A + off) \<longrightarrow> vmem s' a = vmem s a)
     \<and> selects L (lower_inst (Ir_Load ty_I64 e addr off) c') c' s' [(ty_I64, X)]"
proof -
  have b: "word_val c s addr A"
    using holds_word [OF assms(6)] assms(7) by (metis int_types_fit(1) trunc_I32 ucast_mod64 word_unat_eq_iff)
  obtain c' "is" s' where s: "lower_inst (Ir_Store e v addr off) c = Some (Some ([], c'))"
    "ir_insts c' = ir_insts c @ is" "exec_insts is s = Some (Inr s')" "vr s' = vr s" "vload64 s' (A + off) = X"
    "\<forall>a. 8 \<le> a - (A + off) \<longrightarrow> vmem s' a = vmem s a" "c' = (used addr (used v c))\<lparr>ir_insts := ir_insts c'\<rparr>"
    using holds_pair [OF assms(4,5)] b assms(5,3,8) by (rule store_64)
  have c': "ready L c'" "word_val c' s' addr A"
    using assms(1,2) b s(4)
    by (subst s(7); simp add: ready_def alloc_ok_def can_alloc_def vnext_def word_val_def used_def)+
  show ?thesis using s load_64 [OF c'(2,1) assms(3,8)] by auto
qed

theorem store_load_roundtrip_witness:
  "\<exists>c' is s'. lower_inst (Ir_Store None 0 2 4) demo_lower = Some (Some ([], c')) \<and> ir_insts c' = [] @ is
     \<and> exec_insts is (demo_vstate 100 7 64 0) = Some (Inr s')
     \<and> selects 2000 (lower_inst (Ir_Load ty_I64 None 2 4) c') c' s' [(ty_I64, 100)]"
proof -
  have "aligned4 ((64 :: u32) + 4)" by code_simp
  then show ?thesis
    using store_load_roundtrip [OF demo_lower_ready, of None "demo_vstate 100 7 64 0" 0 100 2 64 4]
      demo_holds [of 100 7 64 0]
    by (auto simp: little_or_native_endian_def demo_lower_def)
qed

text \<open>
  C35: the rules for \<open>udiv\<close> and \<open>urem\<close> on \<open>I32\<close> emit no check of the divisor, so a division by zero does
  not trap as the instruction requires: the quotient is all ones and the remainder is the dividend.
\<close>

theorem div_i32_by_zero_does_not_trap:
  assumes "alloc_ok L c" "vnext c + 1539 \<le> L" "holds c s x (\<rho> x)" "holds c s y (\<rho> y)"
    and "value_type c x = ty_I32" "value_type c y = ty_I32" "\<rho> y = 0"
  shows "clif_sem (value_type c) \<rho> (Udiv ty_I32 x y) = Some (Inl INTEGER_DIVISION_BY_ZERO)
    \<and> clif_sem (value_type c) \<rho> (Urem ty_I32 x y) = Some (Inl INTEGER_DIVISION_BY_ZERO)
    \<and> selects L (lower_inst (Udiv ty_I32 x y) c) c s [(ty_I32, 0xFFFFFFFF)]
    \<and> selects L (lower_inst (Urem ty_I32 x y) c) c s [(ty_I32, \<rho> x)]"
proof -
  obtain a b where ab: "word_val c s x a" "trunc ty_I32 (ucast a) = \<rho> x" "word_val c s y b" "trunc ty_I32 (ucast b) = 0"
    using assms(3,5,4,6) unfolding assms(7) by (rule holds_words) simp
  have "b = 0" using ab(4) by (simp add: trunc_I32) (metis ucast_mod64 unat_0 unat_eq_zero)
  then have "selects L (lower_inst (Udiv ty_I32 x y) c) c s [(ty_I32, 0xFFFFFFFF)]"
    "selects L (lower_inst (Urem ty_I32 x y) c) c s [(ty_I32, \<rho> x)]"
    using divrem_32_zero [of c s x a y L] ab assms(1,2) by (simp_all add: ready_def trunc_I32)
  then show ?thesis by (simp add: clif_sem_def assms(7) del: lower_inst.simps)
qed

theorem div_i32_by_zero_does_not_trap_witness:
  "selects 2000 (lower_inst (Udiv ty_I32 2 3) demo_lower) demo_lower (demo_vstate 0 0 5 0) [(ty_I32, 0xFFFFFFFF)]"
  using div_i32_by_zero_does_not_trap [OF demo_lower_ready, of "demo_vstate 0 0 5 0" 2 "\<lambda>v. if v = 2 then 5 else 0" 3]
    demo_holds [of 0 0 5 0] by simp

text \<open>
  C36: the rule for \<open>udiv\<close> divides whole registers also for \<open>I8\<close> and \<open>I16\<close>, whose operands occupy only the
  low bits: with the dividend 4 in a register that holds 260 and the divisor 2, the result is 130 instead
  of 2.
\<close>

theorem narrow_udiv_uses_high_bits:
  "\<exists>c s x y. value_type c x = ty_I8 \<and> value_type c y = ty_I8 \<and> holds c s x 4 \<and> holds c s y 2
     \<and> selects 2000 (lower_inst (Udiv ty_I8 x y) c) c s [(ty_I8, 130)]"
proof -
  let ?s = "demo_vstate 0 0 260 2"
  have h: "holds demo_lower ?s 4 4" "holds demo_lower ?s 5 2"
    using demo_holds(5,6) [of 0 0 260 2] by (simp_all add: trunc_def)
  have "word_val demo_lower ?s 4 260" "word_val demo_lower ?s 5 2"
    by (simp_all add: word_val_def demo_lower_def demo_vstate_def vnext_def vregs_with_capacity_def)
  then have "selects 2000 (lower_inst (Udiv ty_I8 4 5) demo_lower) demo_lower ?s
      [(ty_I8, trunc ty_I8 (ucast ((260 :: u32) div 2)))]"
    using demo_lower_ready by (intro udiv_narrow) (simp_all add: ready_def)
  moreover have "trunc ty_I8 (ucast ((260 :: u32) div 2)) = 130" by (simp add: trunc_def)
  ultimately show ?thesis using h
    by (intro exI [where x = demo_lower] exI [where x = ?s] exI [where x = 4] exI [where x = 5]) simp
qed

text \<open>The overflow result of \<open>uadd_overflow\<close> is the comparison mask of the machine. As an \<open>I8\<close> it is 255
  on overflow, where the instruction means 1.
\<close>

theorem uadd_overflow_flag_is_mask:
  assumes "alloc_ok L c" "vnext c + 1539 \<le> L" "holds c s x (\<rho> x)" "holds c s y (\<rho> y)"
    and "value_type c x = ty_I32" "value_type c y = ty_I32" "2 ^ 32 \<le> unat (\<rho> x) + unat (\<rho> y)"
  shows "clif_sem (value_type c) \<rho> (Uadd_overflow ty_I32 x y) = Some (Inr [(ty_I32, trunc ty_I32 (\<rho> x + \<rho> y)), (ty_I8, 1)])
    \<and> selects L (lower_inst (Uadd_overflow ty_I32 x y) c) c s [(ty_I32, trunc ty_I32 (\<rho> x + \<rho> y)), (ty_I8, 0xFF)]"
proof -
  obtain a b where ab: "word_val c s x a" "trunc ty_I32 (ucast a) = \<rho> x" "word_val c s y b" "trunc ty_I32 (ucast b) = \<rho> y"
    using assms(3,5,4,6) by (rule holds_words) simp
  have u: "unat (\<rho> x) = unat a" "unat (\<rho> y) = unat b" using ab(2,4) by (simp_all add: trunc_I32 flip: ucast_mod64)
  have h: "4294967296 \<le> unat a + unat b" using assms(7) by (simp add: u)
  have "unat a + unat b - 4294967296 < 4294967296" using unat_u32 [of a] unat_u32 [of b] by linarith
  with h have "(unat a + unat b) mod 4294967296 = unat a + unat b - 4294967296" by (simp add: le_mod_geq)
  with h have "unat (a + b) < unat a" using unat_u32 [of b] unfolding unat_add_u32 by linarith
  then have "a + b < a" by (simp only: word_less_nat_alt)
  moreover have "ucast (a + b) = trunc ty_I32 (\<rho> x + \<rho> y)"
    using trunc_word(1) [of ty_I32 a b] ab(2,4) by (simp add: trunc_I32)
  ultimately have "selects L (lower_inst (Uadd_overflow ty_I32 x y) c) c s
      [(ty_I32, trunc ty_I32 (\<rho> x + \<rho> y)), (ty_I8, 0xFF)]"
    using overflow_rule [OF ab(1,3), of L] assms(1,2) by (simp add: ready_def)
  then show ?thesis using assms(7) by (simp add: clif_sem_def del: lower_inst.simps)
qed

theorem uadd_overflow_flag_is_mask_witness:
  "selects 2000 (lower_inst (Uadd_overflow ty_I32 2 3) demo_lower) demo_lower (demo_vstate 0 0 0xFFFFFFFF 2)
     [(ty_I32, 1), (ty_I8, 0xFF)]"
  using uadd_overflow_flag_is_mask [OF demo_lower_ready, of "demo_vstate 0 0 0xFFFFFFFF 2" 2
      "\<lambda>v. if v = 2 then 0xFFFFFFFF else 2" 3]
    demo_holds [of 0 0 "0xFFFFFFFF" 2] by (simp add: trunc_def)

end
