(* ===== verification/Sia32_Call_Delivery.thy ===== *)
theory Sia32_Call_Delivery
  imports Sia32_Call_Correct Sia32_Rules_Correct
begin

text \<open>
  Both sides of a call meet: the caller and the callee compute the locations of the same signature in their
  own tables, and every argument and every result arrives, in registers or through the stack.
\<close>

lemma abi_agree:
  assumes "has_abi m s S i" "has_abi m s S' i'"
  shows "sig_args S' i' = sig_args S i" "sig_rets S' i' = sig_rets S i"
    "sd_call_conv (sigs_of S' ! i') = sd_call_conv (sigs_of S ! i)"
    "stack_ret_arg (sigs_of S' ! i') = stack_ret_arg (sigs_of S ! i)"
    "sized_stack_arg_space (sigs_of S' ! i') = sized_stack_arg_space (sigs_of S ! i)"
    "sized_stack_ret_space (sigs_of S' ! i') = sized_stack_ret_space (sigs_of S ! i)"
  using assms by (auto simp: has_abi_def)

definition slots_for :: "abi_param list \<Rightarrow> abi_arg list \<Rightarrow> nat \<Rightarrow> bool" where
  "slots_for ps as space \<longleftrightarrow> (\<forall>a \<in> set as. is_slots a) \<and>
     list_all2 (\<lambda>p a. length (arg_slots a) = ty_parts (abi_param.value_type p)) ps as \<and>
     (let ss = concat (map arg_slots as) in words ss \<and> distinct (List.map_filter slot_reg ss) \<and> distinct (List.map_filter slot_off ss) \<and>
       set (List.map_filter slot_off ss) \<subseteq> {off. 4 dvd off \<and> 0 \<le> off \<and> off < int space})"

text \<open>
  The arguments of an entry of the table: \<open>as\<close> for the parameters and, when results are returned in memory
  (\<open>h\<close>), the pointer to their area in \<open>r1\<close>.
\<close>

definition placed :: "sig_set \<Rightarrow> nat \<Rightarrow> abi_param list \<Rightarrow> abi_arg list \<Rightarrow> bool \<Rightarrow> bool" where
  "placed S sig ps as h \<longleftrightarrow> sig < length (sigs_of S) \<and> sd_call_conv (sigs_of S ! sig) = CC_SystemV \<and>
     stack_ret_arg (sigs_of S ! sig) = (if h then Some (length as) else None) \<and>
     sig_args S sig = Some (as @ (if h then [abi_arg_reg (preg_real 1) ty_I32 Ext_None Purpose_Normal] else [])) \<and>
     slots_for ps as (sized_stack_arg_space (sigs_of S ! sig)) \<and>
     (h \<longrightarrow> preg_real 1 \<notin> set (List.map_filter slot_reg (concat (map arg_slots as)))) \<and>
     sized_stack_arg_space (sigs_of S ! sig) + sized_stack_ret_space (sigs_of S ! sig) < 2 ^ 31"

lemma has_abi_placed:
  assumes "has_abi m s S sig"
  shows "\<exists>as. placed S sig (sig_params s) as (0 < sized_stack_ret_space (sigs_of S ! sig))"
proof -
  define d where "d = sigs_of S ! sig"
  define h where "h = (0 < sized_stack_ret_space d)"
  obtain args where a: "sig_args S sig = Some args" "sd_call_conv d = sig_call_conv s" "sig < length (sigs_of S)"
    "compute_arg_locs (sig_call_conv s) m (sig_params s) Aor_Args h [] = Inr (sized_stack_arg_space d, stack_ret_arg d, args)"
    "sized_stack_arg_space d \<le> STACK_ARG_RET_SIZE_LIMIT" "sized_stack_ret_space d \<le> STACK_ARG_RET_SIZE_LIMIT"
    using assms unfolding has_abi_def d_def h_def by blast
  obtain as k where k: "sig_call_conv s = CC_SystemV" "args = as @ (if h then [abi_arg_reg (preg_real 1) ty_I32 Ext_None Purpose_Normal] else [])"
    "stack_ret_arg d = (if h then Some (length as) else None)" "\<forall>a \<in> set as. is_slots a"
    "list_all2 (\<lambda>p a. length (arg_slots a) = ty_parts (abi_param.value_type p)) (sig_params s) as"
    "slots_in (cursor_at (if h then 2 else 1)) k (concat (map arg_slots as))" "next_stack k \<le> sized_stack_arg_space d"
    by (rule arg_locs [OF a(4)])
  note ap = slots_in_apart [OF k(6,7)]
  have "slots_for (sig_params s) as (sized_stack_arg_space d)" using ap(1-4) k(4,5) by (simp add: slots_for_def)
  moreover have "preg_real 1 \<notin> set (List.map_filter slot_reg (concat (map arg_slots as)))" if h using ap(5) that by auto
  ultimately have "placed S sig (sig_params s) as h" using a k(1-3)
    unfolding placed_def d_def [symmetric] by (simp add: STACK_ARG_RET_SIZE_LIMIT_def)
  then show ?thesis by (auto simp: h_def d_def)
qed

lemma placed_agree:
  assumes "has_abi m s S i" "has_abi m s S' i'" "placed S i ps as h" shows "placed S' i' ps as h"
proof -
  have "i' < length (sigs_of S')" using assms(2) by (simp add: has_abi_def)
  then show ?thesis using assms(3) abi_agree [OF assms(1,2)] by (simp add: placed_def)
qed

text \<open>Registers for the parameters of a signature: one per part of each type.\<close>

definition regs_for :: "abi_param list \<Rightarrow> value_regs list \<Rightarrow> bool" where
  "regs_for ps rs \<longleftrightarrow> list_all2 (\<lambda>p r. length (regs_of r) = ty_parts (abi_param.value_type p)) ps rs"

lemma slots_for_pairs:
  assumes "slots_for ps as space" "regs_for ps rs"
  shows "length rs = length as" "length as = length ps" "args_match (zip as rs)"
    "map fst (arg_pairs (zip as rs)) = concat (map arg_slots as)"
    "map snd (arg_pairs (zip as rs)) = concat (map regs_of rs)"
    "\<And>i. i < length ps \<Longrightarrow> length (arg_slots (as ! i)) = length (regs_of (rs ! i))"
proof -
  have l: "list_all2 (\<lambda>p a. length (arg_slots a) = ty_parts (abi_param.value_type p)) ps as"
    "list_all2 (\<lambda>p r. length (regs_of r) = ty_parts (abi_param.value_type p)) ps rs"
    using assms by (simp_all add: slots_for_def regs_for_def)
  then have n: "length as = length ps" "length rs = length ps" by (simp_all add: list_all2_lengthD [symmetric])
  then show "length rs = length as" "length as = length ps" by simp_all
  have eq: "list_all2 (\<lambda>a r. length (arg_slots a) = length (regs_of r)) as rs"
    using l by (simp add: list_all2_conv_all_nth)
  then show "length (arg_slots (as ! i)) = length (regs_of (rs ! i))" if "i < length ps" for i
    using that n by (simp add: list_all2_conv_all_nth)
  have w: "words (arg_slots a)" "is_slots a" if "a \<in> set as" for a
    using assms(1) that unfolding slots_for_def Let_def words_def by fastforce+
  show "args_match (zip as rs)"
    using eq w by (auto simp: args_match_def list_all2_iff dest: set_zip_leftD)
  show "map fst (arg_pairs (zip as rs)) = concat (map arg_slots as)" using eq by (induction rule: list_all2_induct) simp_all
  show "map snd (arg_pairs (zip as rs)) = concat (map regs_of rs)" using eq by (induction rule: list_all2_induct) simp_all
qed

lemma used_args_subset:
  "set (map fst (arg_pairs (used_args as ps))) \<subseteq> set (map fst (arg_pairs (zip as (map snd ps))))"
  "set (map snd (arg_pairs (used_args as ps))) \<subseteq> set (map snd (arg_pairs (zip as (map snd ps))))"
  by (induction as ps rule: used_args.induct) auto

lemma used_args_distinct:
  "distinct (map snd (arg_pairs (zip as (map snd ps)))) \<Longrightarrow> distinct (map snd (arg_pairs (used_args as ps)))"
proof (induction as ps rule: used_args.induct)
  case (1 a as unused r ps)
  then show ?case using used_args_subset(2) [of as ps] by auto
qed auto

lemma slot_offs_subset: "set (map fst Q) \<subseteq> set (map fst P) \<Longrightarrow> set (slot_offs Q) \<subseteq> set (slot_offs P)"
proof -
  have "set (List.map_filter slot_off xs) = {y. \<exists>x \<in> set xs. slot_off x = Some y}" for xs
    by (force simp: List.map_filter_def)
  then show "set (map fst Q) \<subseteq> set (map fst P) \<Longrightarrow> ?thesis" unfolding slot_offs_fst by blast
qed

lemma stored_args:
  assumes "distinct (slot_offs P)" "set (slot_offs P) \<subseteq> {off. 4 dvd off \<and> 0 \<le> off \<and> off < 2 ^ 31}" "aligned4 sp"
  obtains t where "crun sp (stack_insts (\<lambda>v off. StoreStack v (OutgoingArg off) ty_I32) P) s = Some t" "vr t = vr s"
    "\<And>sl v off. (sl, v) \<in> set P \<Longrightarrow> slot_off sl = Some off \<Longrightarrow> vload32 t (sp + word_of_int off) = vr s v"
proof -
  let ?D = "{off. 4 dvd off \<and> 0 \<le> off \<and> off < (2 :: int) ^ 31}"
  have al: "aligned4 (sp + word_of_int off)" if "off \<in> ?D" for off using offset_aligned4 [OF assms(3)] that by simp
  have inj: "inj_on (\<lambda>off. sp + word_of_int off) ?D" by (rule inj_on_subset [OF offsets_inj]) auto
  show thesis
    using stores_run [where a = "\<lambda>off. sp + word_of_int off" and D = ?D and f = "vr s" and s = s and sp = sp and ps = P
        and mk = "\<lambda>v off. StoreStack v (OutgoingArg off) ty_I32", OF _ al inj assms(2,1)] al that by (force simp: case_prod_beta)
qed

definition entry_code :: "inst option \<Rightarrow> inst list \<Rightarrow> inst list" where
  "entry_code args is = (case args of None \<Rightarrow> is | Some i \<Rightarrow> i # is)"

lemma slotwise:
  assumes "slots_for ps as space" "regs_for ps rs" "regs_for ps ws" "i < length as" "(as ! i, ws ! i) \<in> set B"
    and eq: "\<And>sl v w. (sl, v) \<in> set (arg_pairs (zip as rs)) \<Longrightarrow> (sl, w) \<in> set (arg_pairs B) \<Longrightarrow> g w = f v"
  shows "map g (regs_of (ws ! i)) = map f (regs_of (rs ! i))"
proof -
  note z = slots_for_pairs [OF assms(1,2)] and z' = slots_for_pairs [OF assms(1,3)]
  have n: "length (arg_slots (as ! i)) = length (regs_of (rs ! i))" "length (arg_slots (as ! i)) = length (regs_of (ws ! i))"
    using z(6) [of i] z'(6) [of i] z(2) assms(4) by simp_all
  have A: "(as ! i, rs ! i) \<in> set (zip as rs)" using assms(4) z(1) by (force simp: set_zip)
  have "g (regs_of (ws ! i) ! j) = f (regs_of (rs ! i) ! j)" if "j < length (arg_slots (as ! i))" for j
    using eq [OF arg_pairs_mem [OF A that] arg_pairs_mem [OF assms(5) that]] that n by simp
  then show ?thesis using n by (auto intro: nth_equalityI)
qed

lemma placed_pairs:
  assumes "placed S sig ps as h" "regs_for ps rs"
  defines "P \<equiv> arg_pairs (zip as rs)"
  shows "distinct (slot_offs P)" "set (slot_offs P) \<subseteq> {off. 4 dvd off \<and> 0 \<le> off \<and> off < int (sized_stack_arg_space (sigs_of S ! sig))}"
    "set (slot_offs P) \<subseteq> {off. 4 dvd off \<and> 0 \<le> off \<and> off < 2 ^ 31}"
    "distinct (map snd (reg_pairs P @ (if h then [(v, Real (preg_real 1))] else [])))"
proof -
  have sf: "slots_for ps as (sized_stack_arg_space (sigs_of S ! sig))" using assms(1) by (simp add: placed_def)
  note z = slots_for_pairs [OF sf assms(2)]
  show o: "distinct (slot_offs P)" "set (slot_offs P) \<subseteq> {off. 4 dvd off \<and> 0 \<le> off \<and> off < int (sized_stack_arg_space (sigs_of S ! sig))}"
    using sf by (simp_all add: slots_for_def slot_offs_fst P_def z(4) Let_def)
  show "set (slot_offs P) \<subseteq> {off. 4 dvd off \<and> 0 \<le> off \<and> off < 2 ^ 31}" using o(2) assms(1) by (auto simp: placed_def)
  have "distinct (List.map_filter slot_reg (map fst P))" using sf by (simp add: slots_for_def P_def z(4) Let_def)
  then show "distinct (map snd (reg_pairs P @ (if h then [(v, Real (preg_real 1))] else [])))"
    using assms(1) by (auto simp: map_snd_reg_pairs distinct_map inj_on_def P_def z(4) placed_def)
qed

lemma caller_side:
  assumes pl: "placed (lower_sigs c) sig ps as h" and args: "regs_for ps args"
    "\<forall>a \<in> set args. list_all (vold (vnext c)) (regs_of a)" "can_alloc c (vnext c)" and sp: "aligned4 sp"
  defines "P \<equiv> arg_pairs (zip as args)" and "tmp \<equiv> Virtual (vnext c) Int_class"
  obtains "is" c1 s1 where "callee_gen_call_args b sig args False c = Some ((reg_pairs P @ (if h then [(tmp, Real (preg_real 1))] else []), is), c1)"
    "crun sp is s = Some s1" "\<forall>sl v. (sl, v) \<in> set P \<longrightarrow> vr s1 v = vr s v"
    "\<forall>sl v off. (sl, v) \<in> set P \<longrightarrow> slot_off sl = Some off \<longrightarrow> vload32 s1 (sp + word_of_int off) = vr s v"
    "h \<Longrightarrow> vr s1 tmp = sp + word_of_nat (sized_stack_arg_space (sigs_of (lower_sigs c) ! sig))"
proof -
  define space where "space = sized_stack_arg_space (sigs_of (lower_sigs c) ! sig)"
  note d = pl [unfolded placed_def, folded space_def]
  have sf: "slots_for ps as space" using d by blast
  note z = slots_for_pairs [OF sf args(1)] and o = placed_pairs [OF pl args(1), folded P_def]
  let ?is = "stack_insts (\<lambda>v off. StoreStack v (OutgoingArg off) ty_I32) P @ (if h then [StackAddr tmp (OutgoingArg (int space))] else [])"
  obtain c1 where c1: "callee_gen_call_args b sig args False c = Some ((reg_pairs P @ (if h then [(tmp, Real (preg_real 1))] else []), ?is), c1)"
    using caller_args [where space = space and h = h and b = b and as = as, OF _ _ _ _ refl z(1,3) args(3)] d
    unfolding P_def tmp_def space_def by blast
  obtain s0 where s0: "crun sp (stack_insts (\<lambda>v off. StoreStack v (OutgoingArg off) ty_I32) P) s = Some s0" "vr s0 = vr s"
    "\<And>sl v off. (sl, v) \<in> set P \<Longrightarrow> slot_off sl = Some off \<Longrightarrow> vload32 s0 (sp + word_of_int off) = vr s v"
    using stored_args [OF o(1,3) sp, of s] by blast
  define s1 where "s1 = (if h then set_vr tmp (sp + word_of_int (int space)) s0 else s0)"
  have run: "crun sp ?is s = Some s1" using s0(1) by (simp add: crun_append s1_def)
  have old: "v \<noteq> tmp" if "(sl, v) \<in> set P" for sl v
  proof -
    have "v \<in> set (map snd P)" using that by force
    then obtain a where "a \<in> set args" "v \<in> set (regs_of a)" unfolding P_def z(5) by auto
    then have "vold (vnext c) v" using args(2) by (simp add: list_all_iff)
    then show ?thesis by (auto simp: tmp_def)
  qed
  have "vr s1 v = vr s v" if "(sl, v) \<in> set P" for sl v using old [OF that] s0(2) by (simp add: s1_def)
  moreover have "vload32 s1 (sp + word_of_int off) = vr s v" if "(sl, v) \<in> set P" "slot_off sl = Some off" for sl v off
    using s0(3) [OF that] by (simp add: s1_def)
  moreover have "h \<Longrightarrow> vr s1 tmp = sp + word_of_nat space" by (simp add: s1_def)
  ultimately show thesis using that c1 run by (simp add: space_def)
qed

lemma callee_side:
  assumes pl: "placed (lower_sigs c) (body_sig b) ps as h" and b: "reg_args b = []" "h \<Longrightarrow> ret_area_ptr b = Some p"
    and params: "regs_for ps (map snd params)" "distinct (p # concat (map (regs_of \<circ> snd) params))"
  defines "Q \<equiv> arg_pairs (used_args as params)" and "F \<equiv> (if h then [(p, Real (preg_real 1))] else [])"
  obtains entry b2 c2 where "gen_arg_setup params b c = Some (entry, b2, c2)" "ir_insts c2 = ir_insts c @
      stack_insts (\<lambda>v off. LoadStack v (IncomingArg off (sized_stack_arg_space (sigs_of (lower_sigs c) ! body_sig b))) ty_I32) Q"
    "\<And>is s. crun sp (entry_code entry is) s = crun sp (Args (reg_pairs Q @ F) # is) s"
    "distinct (map snd Q)" "distinct (map fst F)" "fst ` set F \<inter> snd ` set Q = {}" "set (slot_offs Q) \<subseteq> {off. 4 dvd off}"
proof -
  define space where "space = sized_stack_arg_space (sigs_of (lower_sigs c) ! body_sig b)"
  note d = pl [unfolded placed_def, folded space_def]
  have sf: "slots_for ps as space" using d by blast
  note z = slots_for_pairs [OF sf params(1), unfolded length_map]
  obtain b2 c2 where c2: "gen_arg_setup params b c = Some (if reg_pairs Q @ F = [] then None else Some (Args (reg_pairs Q @ F)), b2, c2)"
    "ir_insts c2 = ir_insts c @ stack_insts (\<lambda>v off. LoadStack v (IncomingArg off space) ty_I32) Q"
    using callee_setup [of c b _ space h as params p, OF _ _ _ _ _ refl z(1,3) b] d
    unfolding Q_def F_def space_def by blast
  have "crun sp (entry_code (if reg_pairs Q @ F = [] then None else Some (Args (reg_pairs Q @ F))) is) s = crun sp (Args (reg_pairs Q @ F) # is) s" for "is" s
    by (simp add: entry_code_def move_regs_def)
  moreover have "distinct (map snd Q)" "distinct (map fst F)" "fst ` set F \<inter> snd ` set Q = {}"
    using params(2) used_args_distinct [of as params] used_args_subset(2) [of as params] z(5) by (auto simp: Q_def F_def)
  moreover have "set (slot_offs Q) \<subseteq> set (slot_offs (arg_pairs (zip as (map snd params))))"
    unfolding Q_def by (rule slot_offs_subset, rule used_args_subset)
  then have "set (slot_offs Q) \<subseteq> {off. 4 dvd off}" using placed_pairs(2) [OF pl params(1)] by auto
  ultimately show thesis using that c2 by (simp add: space_def)
qed

text \<open>
  C4: a call delivers its arguments. A caller compiled with the declared signature and a function compiled
  with the same signature as its own, each with its own table of signatures: the caller's setup succeeds and
  runs; the entry of the function succeeds and runs on the registers and the memory that the call hands over;
  and then every register of every used parameter holds the word that the caller's argument register held,
  whether it travelled in a register or through the stack, and the hidden pointer, when results are returned in
  memory, is the address just above the stack arguments.
\<close>

theorem call_delivers_arguments:
  assumes caller: "sig_set_new m f sigs = Some (Inr (lower_sigs c))" "r < length sigs" "abi_sig r c = Some sig"
    and callee: "sig_set_new m (sigs ! r) sigs' = Some (Inr (lower_sigs c'))" "body_sig b' = 0" "reg_args b' = []"
    and args: "regs_for (sig_params (sigs ! r)) args" "\<forall>a \<in> set args. list_all (vold (vnext c)) (regs_of a)" "can_alloc c (vnext c)"
    and params: "regs_for (sig_params (sigs ! r)) (map snd params)" "distinct (p # concat (map (regs_of \<circ> snd) params))"
    and area: "stack_ret_arg (sigs_of (lower_sigs c') ! 0) \<noteq> None \<Longrightarrow> ret_area_ptr b' = Some p"
    and sp: "aligned4 sp"
  shows "\<exists>us is c1 entry b2 c2 js s1 s2.
    callee_gen_call_args b sig args False c = Some ((us, is), c1) \<and> crun sp is s = Some s1 \<and>
    gen_arg_setup params b' c' = Some (entry, b2, c2) \<and> ir_insts c2 = ir_insts c' @ js \<and>
    crun sp (entry_code entry js) (transfer us s1 t) = Some s2 \<and>
    (\<forall>i < length params. \<not> fst (params ! i) \<longrightarrow>
       map (vr s2) (regs_of (snd (params ! i))) = map (vr s) (regs_of (args ! i))) \<and>
    (stack_ret_arg (sigs_of (lower_sigs c') ! 0) \<noteq> None \<longrightarrow>
       vr s2 p = sp + word_of_nat (sized_stack_arg_space (sigs_of (lower_sigs c) ! sig)))"
proof -
  let ?sg = "sigs ! r" and ?tmp = "Virtual (vnext c) Int_class"
  have abi: "has_abi m ?sg (lower_sigs c) sig" using sig_set_new_abi(2) [OF caller(1,2)] caller(3) by (simp add: abi_sig_def)
  have abi': "has_abi m ?sg (lower_sigs c') (body_sig b')" using sig_set_new_abi(1) [OF callee(1)] by (simp add: callee(2))
  obtain as h where pl: "placed (lower_sigs c) sig (sig_params ?sg) as h" using has_abi_placed [OF abi] by blast
  note pl' = placed_agree [OF abi abi' pl]
  have h: "h \<longleftrightarrow> stack_ret_arg (sigs_of (lower_sigs c') ! 0) \<noteq> None" using pl' by (simp add: placed_def callee(2))
  let ?P = "arg_pairs (zip as args)" and ?Q = "arg_pairs (used_args as params)"
  obtain "is" c1 s1 where l: "callee_gen_call_args b sig args False c = Some ((reg_pairs ?P @ (if h then [(?tmp, Real (preg_real 1))] else []), is), c1)"
    "crun sp is s = Some s1" "\<forall>sl v. (sl, v) \<in> set ?P \<longrightarrow> vr s1 v = vr s v"
    "\<forall>sl v off. (sl, v) \<in> set ?P \<longrightarrow> slot_off sl = Some off \<longrightarrow> vload32 s1 (sp + word_of_int off) = vr s v"
    "h \<Longrightarrow> vr s1 ?tmp = sp + word_of_nat (sized_stack_arg_space (sigs_of (lower_sigs c) ! sig))"
    by (rule caller_side [OF pl args sp, where s = s and b = b]) blast
  obtain entry b2 c2 where r: "gen_arg_setup params b' c' = Some (entry, b2, c2)" "ir_insts c2 = ir_insts c' @
      stack_insts (\<lambda>v off. LoadStack v (IncomingArg off (sized_stack_arg_space (sigs_of (lower_sigs c') ! body_sig b'))) ty_I32) ?Q"
    "\<And>is s. crun sp (entry_code entry is) s = crun sp (Args (reg_pairs ?Q @ (if h then [(p, Real (preg_real 1))] else [])) # is) s"
    "distinct (map snd ?Q)" "distinct (map fst (if h then [(p, Real (preg_real 1))] else []))"
    "fst ` set (if h then [(p, Real (preg_real 1))] else []) \<inter> snd ` set ?Q = {}" "set (slot_offs ?Q) \<subseteq> {off. 4 dvd off}"
    using callee_side [OF pl' callee(3) _ params, where sp = sp] area h by metis
  have al: "\<forall>off \<in> {off. 4 dvd off}. aligned4 (sp + word_of_int off)" using offset_aligned4 [OF sp] by simp
  obtain s2 where s2: "crun sp (entry_code entry (stack_insts (\<lambda>v off. LoadStack v (IncomingArg off (sized_stack_arg_space (sigs_of (lower_sigs c') ! body_sig b'))) ty_I32) ?Q))
      (transfer (reg_pairs ?P @ (if h then [(?tmp, Real (preg_real 1))] else [])) s1 t) = Some s2"
    "\<And>sl v w. (sl, v) \<in> set ?P \<Longrightarrow> (sl, w) \<in> set ?Q \<Longrightarrow> vr s2 w = vr s v"
    "\<And>v w r. (v, r) \<in> set (if h then [(?tmp, Real (preg_real 1))] else []) \<Longrightarrow>
       (w, r) \<in> set (if h then [(p, Real (preg_real 1))] else []) \<Longrightarrow> vr s2 w = vr s1 v"
    using delivered [OF placed_pairs(4) [OF pl args(1), of ?tmp] r(4-7) l(4) l(3) al, where t = t] unfolding r(3) by blast
  have hidden: "h \<Longrightarrow> vr s2 p = vr s1 ?tmp" using s2(3) by auto
  have "map (vr s2) (regs_of (snd (params ! i))) = map (vr s) (regs_of (args ! i))"
    if i: "i < length params" "\<not> fst (params ! i)" for i
  proof -
    have sf: "slots_for (sig_params ?sg) as (sized_stack_arg_space (sigs_of (lower_sigs c) ! sig))" using pl by (simp add: placed_def)
    have n: "i < length as" using i(1) slots_for_pairs(1) [OF sf params(1)] by simp
    then show ?thesis
      using slotwise [OF sf args(1) params(1), of i "used_args as params" "vr s2" "vr s"] used_args_mem [OF n i] s2(2) i(1) by simp
  qed
  then show ?thesis using l(1,2,5) r(1,2) s2(1) hidden h by fastforce
qed

section \<open>Results\<close>

lemma arg_step_purpose: "arg_step multi aor p k = Inr (a, k1) \<Longrightarrow> \<exists>ss. a = Arg_Slots ss (param_purpose p)"
  by (cases rule: arg_step_cases) blast+

lemma arg_loop_purposes:
  "arg_loop multi aor ps k = Inr (as, k') \<Longrightarrow> list_all2 (\<lambda>p a. \<exists>ss. a = Arg_Slots ss (param_purpose p)) ps as"
  by (induction ps arbitrary: k as) (auto dest: arg_step_purpose split: sum.splits)

lemma ret_locs:
  assumes "compute_arg_locs cc m ps Aor_Rets False [] = Inr (space, pos, locs)"
  shows "slots_for ps locs space" "list_all2 (\<lambda>p a. \<exists>ss. a = Arg_Slots ss (param_purpose p)) ps locs"
proof -
  obtain as k where k: "locs = as" "\<forall>a \<in> set as. is_slots a"
    "list_all2 (\<lambda>p a. length (arg_slots a) = ty_parts (abi_param.value_type p)) ps as"
    "slots_in (cursor_at 1) k (concat (map arg_slots as))" "next_stack k \<le> space"
    by (rule arg_locs [OF assms]) simp
  then show "slots_for ps locs space" using slots_in_apart [OF k(4,5)] by (simp add: slots_for_def)
  show "list_all2 (\<lambda>p a. \<exists>ss. a = Arg_Slots ss (param_purpose p)) ps locs"
    using assms by (auto simp: compute_arg_locs_def Let_def dest: arg_loop_purposes split: if_splits sum.splits prod.splits)
qed

lemma arg_space_aligned: "compute_arg_locs cc m ps aor h [] = Inr (space, pos, locs) \<Longrightarrow> 4 dvd space"
  by (auto simp: compute_arg_locs_def align_to_def Let_def split: if_splits sum.splits prod.splits)

text \<open>The results of a signature that returns no structure.\<close>

definition placed_rets :: "sig_set \<Rightarrow> nat \<Rightarrow> abi_param list \<Rightarrow> abi_arg list \<Rightarrow> bool" where
  "placed_rets S sig ps as \<longleftrightarrow> sig_rets S sig = Some as \<and> sd_call_conv (sigs_of S ! sig) = CC_SystemV \<and>
     slots_for ps as (sized_stack_ret_space (sigs_of S ! sig)) \<and>
     list_all2 (\<lambda>p a. \<exists>ss. a = Arg_Slots ss (param_purpose p)) ps as \<and>
     (\<forall>p \<in> set ps. param_purpose p \<noteq> Purpose_StructReturn) \<and> 4 dvd sized_stack_arg_space (sigs_of S ! sig)"

lemma rposition_None: "rposition P xs = None \<longleftrightarrow> (\<forall>x \<in> set xs. \<not> P x)"
  by (induction xs) (auto split: option.splits)

lemma has_abi_placed_rets:
  assumes "has_abi m s S sig" "\<not> uses_special_param s Purpose_StructReturn"
  shows "\<exists>as. placed_rets S sig (sig_returns s) as"
proof -
  obtain returns rets args where a: "abi_returns s = Some returns" "sig_rets S sig = Some rets"
    "sd_call_conv (sigs_of S ! sig) = sig_call_conv s"
    "compute_arg_locs (sig_call_conv s) m returns Aor_Rets False [] = Inr (sized_stack_ret_space (sigs_of S ! sig), None, rets)"
    "compute_arg_locs (sig_call_conv s) m (sig_params s) Aor_Args (0 < sized_stack_ret_space (sigs_of S ! sig)) [] =
       Inr (sized_stack_arg_space (sigs_of S ! sig), stack_ret_arg (sigs_of S ! sig), args)"
    using assms(1) unfolding has_abi_def by blast
  have r: "returns = sig_returns s" "\<forall>p \<in> set (sig_returns s). param_purpose p \<noteq> Purpose_StructReturn"
    using a(1) assms(2)
    by (auto simp: abi_returns_def uses_special_param_def uses_special_return_def special_return_index_def rposition_None
        split: if_splits option.splits)
  have "sig_call_conv s = CC_SystemV" by (rule arg_locs [OF a(4)])
  then show ?thesis using a(2,3) ret_locs [OF a(4)] r arg_space_aligned [OF a(5)] by (auto simp: placed_rets_def)
qed

lemma callee_returns:
  assumes "sig_rets (lower_sigs c) (body_sig b) = Some (pre @ as)" "i = length pre"
    "sd_call_conv (sigs_of (lower_sigs c) ! body_sig b) = CC_SystemV" "\<forall>p \<in> set ps. param_purpose p \<noteq> Purpose_StructReturn"
    "length ps = length as" "length rs = length as" "args_match (zip as rs)"
    "\<forall>off \<in> set (slot_offs (arg_pairs (zip as rs))). 0 \<le> off \<and> off < 2 ^ 31"
    "slot_offs (arg_pairs (zip as rs)) \<noteq> [] \<Longrightarrow> ret_area_ptr b = Some p"
  defines "st \<equiv> (\<lambda>v off. StoreBaseOffset v p (word_of_int off) ty_I32)"
  shows "return_copies i ps rs b c = Some (reg_pairs (arg_pairs (zip as rs)), c\<lparr>ir_insts := ir_insts c @ stack_insts st (arg_pairs (zip as rs))\<rparr>)"
  using assms(1-9)
proof (induction ps arbitrary: i pre as rs c)
  case (Cons q ps)
  obtain a as' where as: "as = a # as'" using Cons.prems(5) by (cases as) auto
  obtain r rs' where rs: "rs = r # rs'" using Cons.prems(6) as by (cases rs) auto
  obtain ss pu where a: "a = Arg_Slots ss pu" using Cons.prems(7) by (cases a) (auto simp: as rs)
  let ?P = "zip ss (regs_of r)"
  let ?c = "c\<lparr>ir_insts := ir_insts c @ stack_insts st ?P\<rparr>"
  have len: "length (regs_of r) = length ss" and w: "words (map fst ?P)" and m: "args_match (zip as' rs')"
    using Cons.prems(7) by (simp_all add: as rs a map_fst_zip_take)
  have "\<forall>off \<in> set (slot_offs ?P). 0 \<le> off \<and> off < 2 ^ 31" using Cons.prems(8) by (simp add: as rs a ball_Un)
  then have o: "\<And>off. off \<in> set (List.map_filter slot_off (map fst ?P)) \<Longrightarrow> - (2 ^ 31) \<le> off \<and> off < 2 ^ 31"
    unfolding slot_offs_fst [of ?P, symmetric] by (meson le_less_trans less_imp_le order_trans neg_le_0_iff_le zero_le_power zero_le_numeral)
  have ar: "List.map_filter slot_off (map fst ?P) \<noteq> [] \<Longrightarrow> ret_area_ptr b = Some p"
    using Cons.prems(9) unfolding slot_offs_fst [of ?P, symmetric] by (simp add: as rs a)
  have "gen_copy_regs_to_retval i r b c = Some ((reg_pairs ?P, stack_insts st ?P), c)"
    using Cons.prems(1-3) retval_slots_words [OF w o ar, of "[]" "[]" c] len
    by (simp add: gen_copy_regs_to_retval_def as a nth_append assert_that_def st_def)
  moreover have "return_copies (Suc i) ps rs' b ?c =
      Some (reg_pairs (arg_pairs (zip as' rs')), ?c\<lparr>ir_insts := ir_insts ?c @ stack_insts st (arg_pairs (zip as' rs'))\<rparr>)"
    using Cons.IH [of ?c "pre @ [a]" as' "Suc i" rs'] Cons.prems m by (simp add: as rs)
  ultimately show ?case using Cons.prems(4) by (simp add: as rs a emit_all_eq)
qed simp

text \<open>The definitions of a call: one per register of its results.\<close>

definition ret_defs :: "nat \<Rightarrow> (abi_arg_slot \<times> mreg) list \<Rightarrow> (mreg \<times> ret_location) list" where
  "ret_defs space ps = map (\<lambda>(sl, w). (w, case sl of
     ABI_Reg p _ _ \<Rightarrow> Ret_Reg (Real p) ty_I32 | ABI_Stack off _ _ \<Rightarrow> Ret_Stack (OutgoingArg (off + int space)) ty_I32)) ps"

lemma ret_slot_defs_words: "words (map fst ps) \<Longrightarrow> ret_slot_defs CC_SystemV space ps = Some (ret_defs space ps)"
proof (induction ps)
  case (Cons p ps)
  obtain sl w where p: "p = (sl, w)" by force
  show ?case using Cons by (cases sl) (simp_all add: p ret_slot_type_def ret_defs_def word_type_def)
qed (simp add: ret_defs_def)

lemma call_ret_defs_words:
  assumes "list_all2 (\<lambda>p a. \<exists>ss. a = Arg_Slots ss (param_purpose p)) ps as" "length rs = length as"
    "\<forall>p \<in> set ps. param_purpose p \<noteq> Purpose_StructReturn" "args_match (zip as rs)"
  shows "call_ret_defs CC_SystemV space as rs = Some (ret_defs space (arg_pairs (zip as rs)))"
  using assms
proof (induction ps as arbitrary: rs rule: list_all2_induct)
  case (Cons p ps a as)
  obtain r rs' where rs: "rs = r # rs'" using Cons.prems(1) by (cases rs) auto
  obtain ss where a: "a = Arg_Slots ss (param_purpose p)" using Cons.hyps(1) by blast
  have "words (map fst (zip ss (regs_of r)))" "length (regs_of r) = length ss"
    using Cons.prems(3) by (simp_all add: rs a map_fst_zip_take)
  then show ?case using Cons.IH [of rs'] Cons.prems ret_slot_defs_words
    by (simp add: rs a ret_defs_def assert_that_def)
qed (simp add: ret_defs_def assert_that_def)

text \<open>Where the caller reads a result after the call.\<close>

fun ret_value :: "u32 \<Rightarrow> vstate \<Rightarrow> ret_location \<Rightarrow> u32" where
  "ret_value sp s (Ret_Reg p _) = vr s p"
| "ret_value sp s (Ret_Stack (OutgoingArg off) _) = vload32 s (sp + word_of_int off)"
| "ret_value sp s (Ret_Stack _ _) = 0"

definition take_results :: "u32 \<Rightarrow> (mreg \<times> ret_location) list \<Rightarrow> vstate \<Rightarrow> vstate" where
  "take_results sp ds s = s\<lparr>vr := (\<lambda>r. case map_of ds r of Some l \<Rightarrow> ret_value sp s l | None \<Rightarrow> vr s r)\<rparr>"

lemma stored_results:
  assumes "distinct (slot_offs P)" "set (slot_offs P) \<subseteq> {off. 4 dvd off \<and> 0 \<le> off \<and> off < 2 ^ 31}" "aligned4 b"
    and area: "slot_offs P \<noteq> [] \<Longrightarrow> vr s p = b"
  obtains t where "crun sp (stack_insts (\<lambda>v off. StoreBaseOffset v p (word_of_int off) ty_I32) P) s = Some t" "vr t = vr s"
    "\<And>sl v off. (sl, v) \<in> set P \<Longrightarrow> slot_off sl = Some off \<Longrightarrow> vload32 t (b + word_of_int off) = vr s v"
proof -
  let ?D = "{off. 4 dvd off \<and> 0 \<le> off \<and> off < (2 :: int) ^ 31} \<inter> set (slot_offs P)"
  have al: "aligned4 (b + word_of_int off)" if "off \<in> ?D" for off using offset_aligned4 [OF assms(3)] that by simp
  have inj: "inj_on (\<lambda>off. b + word_of_int off) ?D" by (rule inj_on_subset [OF offsets_inj]) auto
  have mk: "cstep sp (StoreBaseOffset v p (word_of_int off) ty_I32) t = Some (vstore32 (b + word_of_int off) (vr s v) t)"
    if "vr t = vr s" "off \<in> ?D" for v off t
  proof -
    have "slot_offs P \<noteq> []" using that(2) by auto
    then have "vr t p = b" using that(1) area by simp
    then show ?thesis using that(1) al [OF that(2)] by simp
  qed
  have sub: "set (slot_offs P) \<subseteq> ?D" using assms(2) by blast
  show thesis
    using stores_run [where a = "\<lambda>off. b + word_of_int off" and D = ?D and f = "vr s" and s = s and sp = sp and ps = P
        and mk = "\<lambda>v off. StoreBaseOffset v p (word_of_int off) ty_I32", OF mk al inj sub assms(1) refl] that by (force simp: case_prod_beta)
qed

lemma taken_results:
  assumes "distinct (map snd Q)" "distinct (map snd (reg_pairs P))" "(sl, v) \<in> set P" "(sl, w) \<in> set Q"
    and st: "\<And>off. slot_off sl = Some off \<Longrightarrow> vload32 s1 (sp + word_of_nat space + word_of_int off) = vr s1 v"
  shows "vr (take_results sp (ret_defs space Q) (transfer (reg_pairs P) s1 t)) w = vr s1 v"
proof -
  let ?l = "case sl of ABI_Reg p _ _ \<Rightarrow> Ret_Reg (Real p) ty_I32 | ABI_Stack off _ _ \<Rightarrow> Ret_Stack (OutgoingArg (off + int space)) ty_I32"
  have "map fst (ret_defs space Q) = map snd Q" by (simp add: ret_defs_def case_prod_beta)
  moreover have "(w, ?l) \<in> set (ret_defs space Q)" using assms(4) by (force simp: ret_defs_def)
  ultimately have m: "map_of (ret_defs space Q) w = Some ?l" using assms(1) by (intro map_of_is_SomeI) simp_all
  show ?thesis
  proof (cases sl)
    case (ABI_Reg r ty e)
    then have "(v, Real r) \<in> set (reg_pairs P)" using reg_pairs_mem [OF assms(3)] by simp
    then show ?thesis using m ABI_Reg transfer_sel(1) [OF assms(2)] by (simp add: take_results_def)
  next
    case (ABI_Stack off ty e)
    have "vload32 (transfer (reg_pairs P) s1 t) a = vload32 s1 a" for a by (rule vload32_same_mem) (simp add: transfer_sel)
    then show ?thesis using m ABI_Stack st by (simp add: take_results_def add.assoc add.commute [of "word_of_int off"])
  qed
qed

lemma callee_return_side:
  assumes pl: "placed_rets (lower_sigs c) (body_sig b) ps as" and sg: "sig_returns (body_ir_sig b) = ps" "\<not> missing_struct_return (body_ir_sig b)"
    and rs: "regs_for ps rs" and area: "slot_offs (arg_pairs (zip as rs)) \<noteq> [] \<Longrightarrow> ret_area_ptr b = Some p \<and> vr s p = a" "aligned4 a"
    and lim: "sized_stack_ret_space (sigs_of (lower_sigs c) ! body_sig b) < 2 ^ 31"
  obtains c1 js s1 where "lower_gen_return rs b c = Some c1" "ir_insts c1 = ir_insts c @ js @ [Rets (reg_pairs (arg_pairs (zip as rs)))]"
    "crun sp js s = Some s1" "vr s1 = vr s"
    "\<And>sl v off. (sl, v) \<in> set (arg_pairs (zip as rs)) \<Longrightarrow> slot_off sl = Some off \<Longrightarrow> vload32 s1 (a + word_of_int off) = vr s v"
proof -
  define P where "P = arg_pairs (zip as rs)"
  let ?st = "stack_insts (\<lambda>v off. StoreBaseOffset v p (word_of_int off) ty_I32) P"
  let ?use = "case vmctx_use b of None \<Rightarrow> [] | Some r \<Rightarrow> [DummyUse r]"
  note d = pl [unfolded placed_rets_def]
  have sf: "slots_for ps as (sized_stack_ret_space (sigs_of (lower_sigs c) ! body_sig b))" using d by blast
  note z = slots_for_pairs [OF sf rs]
  have o: "distinct (slot_offs P)" "set (slot_offs P) \<subseteq> {off. 4 dvd off \<and> 0 \<le> off \<and> off < 2 ^ 31}"
    using sf lim by (auto simp: slots_for_def slot_offs_fst P_def z(4) Let_def)
  obtain s1 where s1: "crun sp ?st s = Some s1" "vr s1 = vr s"
    "\<And>sl v off. (sl, v) \<in> set P \<Longrightarrow> slot_off sl = Some off \<Longrightarrow> vload32 s1 (a + word_of_int off) = vr s v"
    using stored_results [OF o area(2), of s p sp] area(1) by (auto simp: P_def)
  have "return_copies 0 ps rs b c = Some (reg_pairs P, c\<lparr>ir_insts := ir_insts c @ ?st\<rparr>)"
    using callee_returns [of c b "[]" as 0 ps rs p] d z o(2) area(1) unfolding P_def by auto
  then have "\<exists>c1. lower_gen_return rs b c = Some c1 \<and> ir_insts c1 = ir_insts c @ (?st @ ?use) @ [Rets (reg_pairs P)]"
    using sg by (simp add: lower_gen_return_def gen_rets_def assert_that_def split: option.splits)
  moreover have "crun sp (?st @ ?use) s = Some s1" using s1(1) by (simp add: crun_append split: option.splits)
  ultimately show thesis using that s1(2,3) unfolding P_def by blast
qed

text \<open>
  C5: a call delivers its results. When the hidden pointer of the function addresses the area above the stack
  arguments, the return sequence succeeds and runs, the definitions of the call succeed, and every result
  register of the caller holds the word that the function returned, in a register or in memory.
\<close>

theorem call_delivers_results:
  assumes caller: "sig_set_new m f sigs = Some (Inr (lower_sigs c))" "r < length sigs" "abi_sig r c = Some sig"
    and callee: "sig_set_new m (sigs ! r) sigs' = Some (Inr (lower_sigs c'))" "body_sig b' = 0" "body_ir_sig b' = sigs ! r"
    and no_sret: "\<not> uses_special_param (sigs ! r) Purpose_StructReturn"
    and rets: "regs_for (sig_returns (sigs ! r)) rets"
    and outputs: "regs_for (sig_returns (sigs ! r)) outputs" "distinct (concat (map regs_of outputs))"
    and area: "stack_ret_arg (sigs_of (lower_sigs c') ! 0) \<noteq> None \<Longrightarrow>
       ret_area_ptr b' = Some p \<and> vr s p = sp + word_of_nat (sized_stack_arg_space (sigs_of (lower_sigs c) ! sig))"
    and sp: "aligned4 sp"
  shows "\<exists>c1 js pairs s1 ds. lower_gen_return rets b' c' = Some c1 \<and> ir_insts c1 = ir_insts c' @ js @ [Rets pairs] \<and>
    crun sp js s = Some s1 \<and> lower_gen_call_rets sig outputs c = Some (ds, c) \<and>
    (\<forall>i < length outputs. map (vr (take_results sp ds (transfer pairs s1 t))) (regs_of (outputs ! i)) = map (vr s) (regs_of (rets ! i)))"
proof -
  let ?sg = "sigs ! r"
  define space where "space = sized_stack_arg_space (sigs_of (lower_sigs c) ! sig)"
  have abi: "has_abi m ?sg (lower_sigs c) sig" using sig_set_new_abi(2) [OF caller(1,2)] caller(3) by (simp add: abi_sig_def)
  have abi': "has_abi m ?sg (lower_sigs c') (body_sig b')" using sig_set_new_abi(1) [OF callee(1)] by (simp add: callee(2))
  note ag = abi_agree [OF abi abi']
  obtain as where pl: "placed_rets (lower_sigs c) sig (sig_returns ?sg) as" using has_abi_placed_rets [OF abi no_sret] by blast
  then have pl': "placed_rets (lower_sigs c') (body_sig b') (sig_returns ?sg) as" using ag by (simp add: placed_rets_def)
  obtain ps as0 where pa: "placed (lower_sigs c') (body_sig b') ps as0 (0 < sized_stack_ret_space (sigs_of (lower_sigs c') ! body_sig b'))"
    using has_abi_placed [OF abi'] by blast
  have sf: "slots_for (sig_returns ?sg) as (sized_stack_ret_space (sigs_of (lower_sigs c') ! body_sig b'))" using pl' by (simp add: placed_rets_def)
  let ?P = "arg_pairs (zip as rets)" and ?Q = "arg_pairs (zip as outputs)"
  note z = slots_for_pairs [OF sf rets] and z' = slots_for_pairs [OF sf outputs(1)]
  have "slot_offs ?P \<noteq> [] \<Longrightarrow> 0 < sized_stack_ret_space (sigs_of (lower_sigs c') ! body_sig b')"
    using sf by (cases "slot_offs ?P") (auto simp: slots_for_def slot_offs_fst z(4) Let_def)
  then have area': "slot_offs ?P \<noteq> [] \<Longrightarrow> ret_area_ptr b' = Some p \<and> vr s p = sp + word_of_nat space"
    using area pa by (simp add: placed_def callee(2) space_def)
  have "4 dvd int space" using pl by (simp add: placed_rets_def space_def int_dvd_int_iff [of 4, simplified])
  then have al: "aligned4 (sp + word_of_nat space)" using offset_aligned4 [OF sp] by fastforce
  have sr: "sig_returns (body_ir_sig b') = sig_returns ?sg" and lim: "sized_stack_ret_space (sigs_of (lower_sigs c') ! body_sig b') < 2 ^ 31"
    using pa by (simp_all add: placed_def callee(3))
  have mis: "\<not> missing_struct_return (body_ir_sig b')" using no_sret by (simp add: missing_struct_return_def callee(3))
  obtain c1 js s1 where l: "lower_gen_return rets b' c' = Some c1" "ir_insts c1 = ir_insts c' @ js @ [Rets (reg_pairs ?P)]"
    "crun sp js s = Some s1" "vr s1 = vr s"
    "\<And>sl v off. (sl, v) \<in> set ?P \<Longrightarrow> slot_off sl = Some off \<Longrightarrow> vload32 s1 (sp + word_of_nat space + word_of_int off) = vr s v"
    using callee_return_side [OF pl' sr mis rets area' al lim, of sp] by blast
  have ds: "lower_gen_call_rets sig outputs c = Some (ret_defs space ?Q, c)"
    using pl call_ret_defs_words [of "sig_returns ?sg" as outputs space] z'(1,3)
    by (simp add: lower_gen_call_rets_def callee_gen_call_rets_def placed_rets_def space_def)
  have dP: "distinct (map snd (reg_pairs ?P))"
    using sf by (simp add: map_snd_reg_pairs distinct_map inj_on_def z(4) slots_for_def Let_def)
  have dQ: "distinct (map snd ?Q)" using outputs(2) by (simp add: z'(5))
  have "map (vr (take_results sp (ret_defs space ?Q) (transfer (reg_pairs ?P) s1 t))) (regs_of (outputs ! i)) = map (vr s) (regs_of (rets ! i))"
    if i: "i < length outputs" for i
  proof (rule slotwise [OF sf rets outputs(1), where B = "zip as outputs"])
    show "i < length as" "(as ! i, outputs ! i) \<in> set (zip as outputs)" using i z'(1) by (force simp: set_zip)+
    fix sl v w assume "(sl, v) \<in> set ?P" "(sl, w) \<in> set ?Q"
    then show "vr (take_results sp (ret_defs space ?Q) (transfer (reg_pairs ?P) s1 t)) w = vr s v"
      using taken_results [OF dQ dP, of sl v w s1 sp space t] l(4,5) by simp
  qed
  then show ?thesis using l(1-3) ds by blast
qed

section \<open>Examples\<close>

text \<open>
  A signature with a hidden pointer, an argument pair in \<open>r3:r4\<close>, a pair on the stack and a result pair in memory.
\<close>

definition word_param :: "ir_type \<Rightarrow> argument_extension \<Rightarrow> abi_param" where
  "word_param ty ext = \<lparr>abi_param.value_type = ty, param_purpose = Purpose_Normal, param_extension = ext\<rparr>"

definition demo_sig :: signature where
  "demo_sig = \<lparr>sig_params = [word_param ty_I64 Ext_None, word_param ty_I8 Ext_Sext, word_param ty_I32 Ext_None, word_param ty_I64 Ext_None],
     sig_returns = [word_param ty_I32 Ext_None, word_param ty_I64 Ext_None], sig_call_conv = CC_SystemV\<rparr>"

lemma rc_word_types:
  "rc_for_type ty_I8 = Inr ([Int_class], [ty_I32])" "rc_for_type ty_I32 = Inr ([Int_class], [ty_I32])"
  "rc_for_type ty_I64 = Inr ([Int_class, Int_class], [ty_I32, ty_I32])"
  by code_simp+

lemma demo_from_func_sig:
  "\<exists>d args. from_func_sig True demo_sig S = Some (Inr (d, S\<lparr>abi_args := args\<rparr>)) \<and> stack_ret_arg d = Some 4 \<and> sized_stack_arg_space d = 8"
  by (simp add: demo_sig_def word_param_def from_func_sig_def abi_returns_def uses_special_return_def uses_special_param_def
    special_return_index_def special_param_index_def compute_arg_locs_def ensure_call_conv_def arg_step_def rc_word_types align_to_def
    STACK_ARG_RET_SIZE_LIMIT_def Let_def) (rule exI, rule refl)

lemma demo_sig_set:
  obtains S where "sig_set_new True demo_sig [demo_sig] = Some (Inr S)" "abi_sig 0 (c\<lparr>lower_sigs := S\<rparr>) = Some 1"
    "stack_ret_arg (sigs_of S ! 0) = Some 4" "sized_stack_arg_space (sigs_of S ! 1) = 8"
proof -
  let ?s0 = "\<lparr>ir_signature_to_abi_sig = (\<lambda>_. None), ir_sig_ref_to_abi_sig = (\<lambda>_. None), abi_args = [], sigs_of = []\<rparr>"
  obtain d args where d: "from_func_sig True demo_sig ?s0 = Some (Inr (d, ?s0\<lparr>abi_args := args\<rparr>))" "stack_ret_arg d = Some 4"
    using demo_from_func_sig by blast
  let ?s1 = "?s0\<lparr>abi_args := args, sigs_of := [d], ir_signature_to_abi_sig := [demo_sig \<mapsto> 0]\<rparr>"
  obtain d' args' where d': "from_func_sig True demo_sig ?s1 = Some (Inr (d', ?s1\<lparr>abi_args := args'\<rparr>))" "sized_stack_arg_space d' = 8"
    using demo_from_func_sig by blast
  show thesis
    by (rule that [of "?s1\<lparr>abi_args := args', sigs_of := [d, d'], ir_sig_ref_to_abi_sig := [0 \<mapsto> 1]\<rparr>"])
       (use d d' in \<open>simp_all add: sig_set_new_def make_abi_sig_from_ir_signature_def make_abi_sig_from_ir_sig_ref_def Let_def abi_sig_def assert_that_def\<close>)
qed

definition demo_body_args :: arg_body where
  "demo_body_args = \<lparr>body_sig = 0, body_ir_sig = demo_sig, reg_args = [], ret_area_ptr = Some (Virtual 199 Int_class),
     sret_reg = None, vmctx_use = None\<rparr>"

definition demo_actuals :: "value_regs list" where
  "demo_actuals = [Two_regs (Virtual 192 Int_class) (Virtual 193 Int_class), One_reg (Virtual 196 Int_class),
     One_reg (Virtual 197 Int_class), Two_regs (Virtual 194 Int_class) (Virtual 195 Int_class)]"

definition demo_formals :: "(bool \<times> value_regs) list" where
  "demo_formals = [(False, Two_regs (Virtual 180 Int_class) (Virtual 181 Int_class)), (True, One_reg (Virtual 182 Int_class)),
     (False, One_reg (Virtual 183 Int_class)), (False, Two_regs (Virtual 184 Int_class) (Virtual 185 Int_class))]"

lemma ty_parts_word [simp]: "ty_parts ty_I8 = 1" "ty_parts ty_I32 = 1" "ty_parts ty_I64 = 2"
  by (simp_all add: ty_parts_def rc_word_types)

lemma demo_regs_for:
  "regs_for (sig_params demo_sig) demo_actuals" "regs_for (sig_params demo_sig) (map snd demo_formals)"
  "distinct (Virtual 199 Int_class # concat (map (regs_of \<circ> snd) demo_formals))"
  "\<forall>a \<in> set demo_actuals. list_all (vold 200) (regs_of a)" "aligned4 0x1000"
  by (simp_all add: regs_for_def demo_sig_def word_param_def demo_actuals_def demo_formals_def aligned4_def)

lemma demo_call_ctx:
  "vnext (demo_lower\<lparr>lower_sigs := S\<rparr>) = 200" "can_alloc (demo_lower\<lparr>lower_sigs := S\<rparr>) 200" "lower_sigs (demo_lower\<lparr>lower_sigs := S\<rparr>) = S"
  by (simp_all add: demo_lower_def vnext_def can_alloc_def vregs_with_capacity_def REG_SPILLSLOT_MASK_def)

theorem call_delivers_arguments_witness:
  "\<exists>S us is c1 entry b2 c2 js s1 s2. sig_set_new True demo_sig [demo_sig] = Some (Inr S) \<and>
    callee_gen_call_args demo_body_args 1 demo_actuals False (demo_lower\<lparr>lower_sigs := S\<rparr>) = Some ((us, is), c1) \<and>
    crun 0x1000 is (demo_vstate 100 7 3 4) = Some s1 \<and>
    gen_arg_setup demo_formals demo_body_args (demo_lower\<lparr>lower_sigs := S\<rparr>) = Some (entry, b2, c2) \<and>
    ir_insts c2 = ir_insts demo_lower @ js \<and>
    crun 0x1000 (entry_code entry js) (transfer us s1 (demo_vstate 0 0 0 0)) = Some s2 \<and>
    vr s2 (Virtual 180 Int_class) = 100 \<and> vr s2 (Virtual 183 Int_class) = 4 \<and> vr s2 (Virtual 184 Int_class) = 7 \<and>
    vr s2 (Virtual 199 Int_class) = 0x1008"
proof -
  obtain S where S: "sig_set_new True demo_sig [demo_sig] = Some (Inr S)" "abi_sig 0 (demo_lower\<lparr>lower_sigs := S\<rparr>) = Some 1"
    "stack_ret_arg (sigs_of S ! 0) = Some 4" "sized_stack_arg_space (sigs_of S ! 1) = 8" by (rule demo_sig_set)
  let ?c = "demo_lower\<lparr>lower_sigs := S\<rparr>"
  have "\<exists>us is c1 entry b2 c2 js s1 s2. callee_gen_call_args demo_body_args 1 demo_actuals False ?c = Some ((us, is), c1) \<and>
    crun 0x1000 is (demo_vstate 100 7 3 4) = Some s1 \<and> gen_arg_setup demo_formals demo_body_args ?c = Some (entry, b2, c2) \<and>
    ir_insts c2 = ir_insts ?c @ js \<and> crun 0x1000 (entry_code entry js) (transfer us s1 (demo_vstate 0 0 0 0)) = Some s2 \<and>
    (\<forall>i < length demo_formals. \<not> fst (demo_formals ! i) \<longrightarrow>
       map (vr s2) (regs_of (snd (demo_formals ! i))) = map (vr (demo_vstate 100 7 3 4)) (regs_of (demo_actuals ! i))) \<and>
    (stack_ret_arg (sigs_of (lower_sigs ?c) ! 0) \<noteq> None \<longrightarrow>
       vr s2 (Virtual 199 Int_class) = 0x1000 + word_of_nat (sized_stack_arg_space (sigs_of (lower_sigs ?c) ! 1)))"
    using demo_regs_for S(1,2)
    by (intro call_delivers_arguments [where m = True and f = demo_sig and sigs = "[demo_sig]" and r = 0 and sigs' = "[demo_sig]"])
       (simp_all add: demo_call_ctx demo_body_args_def)
  then obtain us "is" c1 entry b2 c2 js s1 s2 where
    w: "callee_gen_call_args demo_body_args 1 demo_actuals False ?c = Some ((us, is), c1)"
    "crun 0x1000 is (demo_vstate 100 7 3 4) = Some s1" "gen_arg_setup demo_formals demo_body_args ?c = Some (entry, b2, c2)"
    "ir_insts c2 = ir_insts ?c @ js" "crun 0x1000 (entry_code entry js) (transfer us s1 (demo_vstate 0 0 0 0)) = Some s2"
    and v: "\<And>i. i < length demo_formals \<Longrightarrow> \<not> fst (demo_formals ! i) \<Longrightarrow>
       map (vr s2) (regs_of (snd (demo_formals ! i))) = map (vr (demo_vstate 100 7 3 4)) (regs_of (demo_actuals ! i))"
    and p: "stack_ret_arg (sigs_of (lower_sigs ?c) ! 0) \<noteq> None \<Longrightarrow>
       vr s2 (Virtual 199 Int_class) = 0x1000 + word_of_nat (sized_stack_arg_space (sigs_of (lower_sigs ?c) ! 1))" by blast
  have "vr s2 (Virtual 180 Int_class) = 100" "vr s2 (Virtual 183 Int_class) = 4" "vr s2 (Virtual 184 Int_class) = 7"
    using v [of 0] v [of 2] v [of 3] by (simp_all add: demo_formals_def demo_actuals_def demo_vstate_def)
  moreover have "vr s2 (Virtual 199 Int_class) = 0x1008" using p S(3,4) by simp
  ultimately show ?thesis using S(1) w by fastforce
qed

definition demo_rets :: "value_regs list" where
  "demo_rets = [One_reg (Virtual 196 Int_class), Two_regs (Virtual 192 Int_class) (Virtual 194 Int_class)]"

definition demo_outputs :: "value_regs list" where
  "demo_outputs = [One_reg (Virtual 186 Int_class), Two_regs (Virtual 187 Int_class) (Virtual 188 Int_class)]"

theorem call_delivers_results_witness:
  "\<exists>S c1 js pairs s1 ds. sig_set_new True demo_sig [demo_sig] = Some (Inr S) \<and>
    lower_gen_return demo_rets demo_body_args (demo_lower\<lparr>lower_sigs := S\<rparr>) = Some c1 \<and>
    ir_insts c1 = ir_insts demo_lower @ js @ [Rets pairs] \<and>
    crun 0x1000 js (set_vr (Virtual 199 Int_class) 0x1008 (demo_vstate 100 7 3 4)) = Some s1 \<and>
    lower_gen_call_rets 1 demo_outputs (demo_lower\<lparr>lower_sigs := S\<rparr>) = Some (ds, demo_lower\<lparr>lower_sigs := S\<rparr>) \<and>
    vr (take_results 0x1000 ds (transfer pairs s1 (demo_vstate 0 0 0 0))) (Virtual 186 Int_class) = 3 \<and>
    vr (take_results 0x1000 ds (transfer pairs s1 (demo_vstate 0 0 0 0))) (Virtual 188 Int_class) = 7"
proof -
  obtain S where S: "sig_set_new True demo_sig [demo_sig] = Some (Inr S)" "abi_sig 0 (demo_lower\<lparr>lower_sigs := S\<rparr>) = Some 1"
    "stack_ret_arg (sigs_of S ! 0) = Some 4" "sized_stack_arg_space (sigs_of S ! 1) = 8" by (rule demo_sig_set)
  let ?c = "demo_lower\<lparr>lower_sigs := S\<rparr>" and ?s = "set_vr (Virtual 199 Int_class) 0x1008 (demo_vstate 100 7 3 4)"
  have r: "regs_for (sig_returns demo_sig) demo_rets" "regs_for (sig_returns demo_sig) demo_outputs"
    "distinct (concat (map regs_of demo_outputs))" "\<not> uses_special_param demo_sig Purpose_StructReturn"
    by (simp_all add: regs_for_def demo_sig_def word_param_def demo_rets_def demo_outputs_def uses_special_param_def special_param_index_def)
  have "\<exists>c1 js pairs s1 ds. lower_gen_return demo_rets demo_body_args ?c = Some c1 \<and> ir_insts c1 = ir_insts ?c @ js @ [Rets pairs] \<and>
    crun 0x1000 js ?s = Some s1 \<and> lower_gen_call_rets 1 demo_outputs ?c = Some (ds, ?c) \<and>
    (\<forall>i < length demo_outputs. map (vr (take_results 0x1000 ds (transfer pairs s1 (demo_vstate 0 0 0 0)))) (regs_of (demo_outputs ! i)) =
       map (vr ?s) (regs_of (demo_rets ! i)))"
    using demo_regs_for(5) S r
    by (intro call_delivers_results [where m = True and f = demo_sig and sigs = "[demo_sig]" and r = 0 and sigs' = "[demo_sig]" and p = "Virtual 199 Int_class"])
       (simp_all add: demo_call_ctx demo_body_args_def)
  then obtain c1 js pairs s1 ds where
    w: "lower_gen_return demo_rets demo_body_args ?c = Some c1" "ir_insts c1 = ir_insts ?c @ js @ [Rets pairs]"
    "crun 0x1000 js ?s = Some s1" "lower_gen_call_rets 1 demo_outputs ?c = Some (ds, ?c)"
    and v: "\<And>i. i < length demo_outputs \<Longrightarrow> map (vr (take_results 0x1000 ds (transfer pairs s1 (demo_vstate 0 0 0 0)))) (regs_of (demo_outputs ! i)) =
       map (vr ?s) (regs_of (demo_rets ! i))" by blast
  have "vr (take_results 0x1000 ds (transfer pairs s1 (demo_vstate 0 0 0 0))) (Virtual 186 Int_class) = 3"
    "vr (take_results 0x1000 ds (transfer pairs s1 (demo_vstate 0 0 0 0))) (Virtual 188 Int_class) = 7"
    using v [of 0] v [of 1] by (simp_all add: demo_rets_def demo_outputs_def demo_vstate_def)
  then show ?thesis using S(1) w by fastforce
qed

text \<open>
  C34: a narrow argument is passed as it is. Whatever extension the signature declares for a parameter of at
  most 32 bits, the call emits no instruction for it and constrains the argument's own register to \<open>r1\<close>: the
  bits above the narrow type are those of the register. The slot types are always \<open>I32\<close>, so the test for a
  type narrower than a word never succeeds.
\<close>

theorem narrow_argument_not_extended:
  assumes "sig_set_new m f sigs = Some (Inr (lower_sigs c))" "r < length sigs" "abi_sig r c = Some sig"
    and "sig_params (sigs ! r) = [p]" "int_fits_in_32 (abi_param.value_type p)" "stack_ret_arg (sigs_of (lower_sigs c) ! sig) = None"
  shows "callee_gen_call_args b sig [One_reg v] False c = Some (([(v, Real (preg_real 1))], []), c)"
proof -
  have abi: "has_abi m (sigs ! r) (lower_sigs c) sig" using sig_set_new_abi(2) [OF assms(1,2)] assms(3) by (simp add: abi_sig_def)
  obtain as h where pl: "placed (lower_sigs c) sig [p] as h" using has_abi_placed [OF abi] assms(4) by auto
  then have h: "\<not> h" "sd_call_conv (sigs_of (lower_sigs c) ! sig) = CC_SystemV" "sig_args (lower_sigs c) sig = Some as"
    using assms(6) by (auto simp: placed_def split: if_splits)
  have "as = [Arg_Slots [ABI_Reg (preg_real 1) ty_I32 (slot_extension p Arg_Loc_Reg)] (param_purpose p)]"
    using abi h(3) assms(4,6) rc_for_type_I32 [OF assms(5)]
    by (auto simp: has_abi_def compute_arg_locs_def arg_step_def reg_slots_def Let_def split: if_splits sum.splits argument_purpose.splits)
  then show ?thesis using h(2,3) assms(6)
    by (simp add: callee_gen_call_args_def num_args_def get_ret_arg_def call_slot_def assert_that_def word_bits_def Let_def)
qed

definition sext_sig :: signature where
  "sext_sig = \<lparr>sig_params = [word_param ty_I8 Ext_Sext], sig_returns = [], sig_call_conv = CC_SystemV\<rparr>"

lemma sext_sig_set:
  obtains S where "sig_set_new False sext_sig [sext_sig] = Some (Inr S)" "abi_sig 0 (c\<lparr>lower_sigs := S\<rparr>) = Some 1"
    "stack_ret_arg (sigs_of S ! 1) = None"
proof -
  have "\<exists>S. sig_set_new False sext_sig [sext_sig] = Some (Inr S) \<and> ir_sig_ref_to_abi_sig S 0 = Some 1 \<and> stack_ret_arg (sigs_of S ! 1) = None"
    by (simp add: sig_set_new_def make_abi_sig_from_ir_signature_def make_abi_sig_from_ir_sig_ref_def sext_sig_def word_param_def from_func_sig_def
        abi_returns_def uses_special_return_def uses_special_param_def special_return_index_def special_param_index_def compute_arg_locs_def
        ensure_call_conv_def arg_step_def rc_word_types align_to_def STACK_ARG_RET_SIZE_LIMIT_def assert_that_def Let_def)
  then show thesis using that by (auto simp: abi_sig_def)
qed

theorem narrow_argument_not_extended_witness:
  "\<exists>S. sig_set_new False sext_sig [sext_sig] = Some (Inr S) \<and>
    callee_gen_call_args demo_body_args 1 [One_reg (Virtual 196 Int_class)] False (demo_lower\<lparr>lower_sigs := S\<rparr>) =
      Some (([(Virtual 196 Int_class, Real (preg_real 1))], []), demo_lower\<lparr>lower_sigs := S\<rparr>)"
proof -
  obtain S where S: "sig_set_new False sext_sig [sext_sig] = Some (Inr S)" "abi_sig 0 (demo_lower\<lparr>lower_sigs := S\<rparr>) = Some 1"
    "stack_ret_arg (sigs_of S ! 1) = None" by (rule sext_sig_set)
  have "callee_gen_call_args demo_body_args 1 [One_reg (Virtual 196 Int_class)] False (demo_lower\<lparr>lower_sigs := S\<rparr>) =
      Some (([(Virtual 196 Int_class, Real (preg_real 1))], []), demo_lower\<lparr>lower_sigs := S\<rparr>)"
    by (rule narrow_argument_not_extended [where m = False and f = sext_sig and sigs = "[sext_sig]" and r = 0 and p = "word_param ty_I8 Ext_Sext"])
       (use S in \<open>simp_all add: sext_sig_def word_param_def\<close>)
  then show ?thesis using S(1) by blast
qed

end
