(* ===== verification/Sia32_Codegen_Correct.thy ===== *)
theory Sia32_Codegen_Correct
  imports Sia32_Rules_Correct Sia32_Emit_Correct
begin

text \<open>
  Selection, register assignment and emission together. The register allocator is a separate package;
  here an allocation is any map of the registers of the selected code to distinct architectural
  registers other than zero and scratch, which is what an allocation without spills amounts to, and
  \<open>assign\<close> puts it into the instructions as \<open>VCode::emit\<close> does before emission. On every processor with
  the documented behaviour the emitted words then do what the selected code does.
\<close>

section \<open>Assigning registers\<close>

text \<open>
  \<open>VCode::emit\<close> writes the allocation of each operand that \<open>get_operands\<close> visits into the
  instruction. An operand with a fixed register is allocated that register.
\<close>

definition assign_fixed :: "mreg \<times> mreg \<Rightarrow> mreg \<times> mreg" where
  "assign_fixed vp = (snd vp, snd vp)"

fun assign_def_loc :: "(mreg \<Rightarrow> reg) \<Rightarrow> mreg \<times> ret_location \<Rightarrow> mreg \<times> ret_location" where
  "assign_def_loc \<alpha> (v, Ret_Reg r ty) = (r, Ret_Reg r ty)"
| "assign_def_loc \<alpha> (v, Ret_Stack m ty) = (areg (\<alpha> v), Ret_Stack m ty)"

fun assign_handler :: "(mreg \<Rightarrow> reg) \<Rightarrow> try_call_handler \<Rightarrow> try_call_handler" where
  "assign_handler \<alpha> (Handler_Context r) = Handler_Context (areg (\<alpha> r))"
| "assign_handler \<alpha> h = h"

definition assign_call :: "(mreg \<Rightarrow> reg) \<Rightarrow> ('d \<Rightarrow> 'd) \<Rightarrow> 'd call_info \<Rightarrow> 'd call_info" where
  "assign_call \<alpha> g info = info\<lparr>dest := g (dest info), uses := map assign_fixed (uses info),
     defs := map (assign_def_loc \<alpha>) (defs info),
     try_call_info_of := map_option (\<lambda>t. t\<lparr>try_handlers := map (assign_handler \<alpha>) (try_handlers t)\<rparr>)
       (try_call_info_of info)\<rparr>"

definition assign :: "(mreg \<Rightarrow> reg) \<Rightarrow> inst \<Rightarrow> inst" where
  "assign \<alpha> i =
     (let g = (\<lambda>r. areg (\<alpha> r)) in
      case i of
        Args args \<Rightarrow> Args (map assign_fixed args)
      | Rets rets \<Rightarrow> Rets (map assign_fixed rets)
      | DummyUse r \<Rightarrow> DummyUse (g r)
      | SRead d sel \<Rightarrow> SRead (g d) sel
      | ReadFixedGpr d index \<Rightarrow> ReadFixedGpr (g d) index
      | WriteFixedGpr s index \<Rightarrow> WriteFixedGpr (g s) index
      | SWrite s sel \<Rightarrow> SWrite (g s) sel
      | SRetCtx s \<Rightarrow> SRetCtx (g s)
      | TlbFenceVa s \<Rightarrow> TlbFenceVa (g s)
      | TlbFenceAsid s \<Rightarrow> TlbFenceAsid (g s)
      | SSwapScratch d s \<Rightarrow> SSwapScratch (g d) (g s)
      | TrapIfNz t code \<Rightarrow> TrapIfNz (g t) code
      | TrapIfZ t code \<Rightarrow> TrapIfZ (g t) code
      | Mov d a \<Rightarrow> Mov (g d) (g a)
      | Add d a b \<Rightarrow> Add (g d) (g a) (g b)
      | TwoOp op d a b \<Rightarrow> TwoOp op (g d) (g a) (g b)
      | Icmp d cc a b \<Rightarrow> Icmp (g d) cc (g a) (g b)
      | Unary op d a \<Rightarrow> Unary op (g d) (g a)
      | ShiftImm op d a n \<Rightarrow> ShiftImm op (g d) (g a) n
      | Addi7 d s imm \<Rightarrow> Addi7 (g d) (g s) imm
      | Extend d a sg from_bits to_bits \<Rightarrow> Extend (g d) (g a) sg from_bits to_bits
      | AddImm d s imm \<Rightarrow> AddImm (g d) (g s) imm
      | Li7 d imm \<Rightarrow> Li7 (g d) imm
      | LoadConst32 d v \<Rightarrow> LoadConst32 (g d) v
      | LoadExtName d name off \<Rightarrow> LoadExtName (g d) name off
      | StackAddr d m \<Rightarrow> StackAddr (g d) m
      | Load op d b \<Rightarrow> Load op (g d) (g b)
      | LoadBaseOffset d b off ty \<Rightarrow> LoadBaseOffset (g d) (g b) off ty
      | Store op s b \<Rightarrow> Store op (g s) (g b)
      | StoreBaseOffset a b off ty \<Rightarrow> StoreBaseOffset (g a) (g b) off ty
      | IndexedLoad d b x \<Rightarrow> IndexedLoad (g d) (g b) (g x)
      | IndexedStore s b x \<Rightarrow> IndexedStore (g s) (g b) (g x)
      | LoadStack d m ty \<Rightarrow> LoadStack (g d) m ty
      | StoreStack s m ty \<Rightarrow> StoreStack (g s) m ty
      | StackLowerBoundTrap l \<Rightarrow> StackLowerBoundTrap (g l)
      | BrNz t taken not_taken \<Rightarrow> BrNz (g t) taken not_taken
      | Select d t y n \<Rightarrow> Select (g d) (g t) (g y) (g n)
      | BrTable x tmp targets \<Rightarrow> BrTable (g x) (g tmp) targets
      | Call info \<Rightarrow> Call (assign_call \<alpha> id info)
      | CallInd info \<Rightarrow> CallInd (assign_call \<alpha> g info)
      | _ \<Rightarrow> i)"

text \<open>Instructions over the registers \<open>R\<close> that are emitted as straight-line code.\<close>

definition straight_inst :: "mreg set \<Rightarrow> inst \<Rightarrow> bool" where
  "straight_inst R i =
     (case i of
        Mov d a \<Rightarrow> d \<in> R \<and> a \<in> R
      | Add d a b \<Rightarrow> d \<in> R \<and> a \<in> R \<and> b \<in> R
      | Unary op d a \<Rightarrow> d \<in> R \<and> a \<in> R
      | TwoOp op d a b \<Rightarrow> d \<in> R \<and> a \<in> R \<and> b \<in> R \<and> op \<noteq> Op_Addo \<and> op \<noteq> Op_Subo
      | Icmp d cc a b \<Rightarrow> d \<in> R \<and> a \<in> R \<and> b \<in> R
      | ShiftImm op d a n \<Rightarrow> d \<in> R \<and> a \<in> R \<and> op \<in> {Op_Shl, Op_Shr, Op_Sar} \<and> n < 32
      | LoadConst32 d v \<Rightarrow> d \<in> R \<and> length (const_digits v) \<le> 2
      | Extend d a sg from_bits to_bits \<Rightarrow>
          d \<in> R \<and> a \<in> R \<and> from_bits \<le> to_bits \<and> to_bits \<le> 32 \<and> 0 < from_bits
      | LoadBaseOffset d b off ty \<Rightarrow> d \<in> R \<and> b \<in> R \<and> ty = ty_I32
      | StoreBaseOffset a b off ty \<Rightarrow> a \<in> R \<and> b \<in> R \<and> ty = ty_I32
      | _ \<Rightarrow> False)"

definition allocation :: "(mreg \<Rightarrow> reg) \<Rightarrow> mreg set \<Rightarrow> bool" where
  "allocation \<alpha> R \<longleftrightarrow> inj_on \<alpha> R \<and> (\<forall>r \<in> R. \<alpha> r \<noteq> reg_SCRATCH \<and> \<alpha> r \<noteq> reg_ZERO)"

text \<open>The machine seen through an allocation, and agreement on the allocated registers.\<close>

definition machine_view :: "(mreg \<Rightarrow> reg) \<Rightarrow> cpu \<Rightarrow> vstate" where
  "machine_view \<alpha> m = \<lparr>vr = (\<lambda>r. get_gpr m (\<alpha> r)), vmem = mem m\<rparr>"

definition veq :: "mreg set \<Rightarrow> vstate \<Rightarrow> vstate \<Rightarrow> bool" where
  "veq R v w \<longleftrightarrow> (\<forall>r \<in> R. vr v r = vr w r) \<and> vmem v = vmem w"

lemma machine_view_sel [simp]:
  "vr (machine_view \<alpha> m) r = get_gpr m (\<alpha> r)" "vmem (machine_view \<alpha> m) = mem m"
  by (simp_all add: machine_view_def)

lemma veq_trans: "veq R u v \<Longrightarrow> veq R v w \<Longrightarrow> veq R u w"
  by (simp add: veq_def)

lemma veq_set: "veq R v w \<Longrightarrow> veq R (set_vr d x v) (set_vr d x w)"
  by (simp add: veq_def)

section \<open>Simulation\<close>

lemma vload32_cong: "vmem v = vmem w \<Longrightarrow> vload32 v a = vload32 w a"
  by (simp add: vload32_def)

lemma vstep_cong:
  assumes "straight_inst R i" "veq R v w" "vstep i v = Some (Inr v')"
  obtains w' where "vstep i w = Some (Inr w')" "veq R v' w'"
  using assms
  by (cases i) (auto simp: straight_inst_def vstep_def veq_def vstore32_def vload32_def split: if_splits)

definition emit_insts :: "inst list \<Rightarrow> emit_state \<Rightarrow> mach_buffer \<Rightarrow> (mach_buffer \<times> emit_state) option" where
  "emit_insts is st b = fold (\<lambda>i r. r \<bind> (\<lambda>(b, st). emit i st b)) is (Some (b, st))"

definition simulated :: "(u16 \<Rightarrow> cpu \<Rightarrow> cpu) \<Rightarrow> (mreg \<Rightarrow> reg) \<Rightarrow> mreg set \<Rightarrow> inst \<Rightarrow> u16 list \<Rightarrow> bool" where
  "simulated exec \<alpha> R i ws \<longleftrightarrow> (\<forall>st b. emit (assign \<alpha> i) st b = Some (put_words ws b, st)) \<and>
     (\<forall>m v'. vstep i (machine_view \<alpha> m) = Some (Inr v') \<longrightarrow> veq R v' (machine_view \<alpha> (run exec ws m)))"

lemma writes_veq:
  assumes w: "writes exec ws (\<alpha> d) f" and \<alpha>: "allocation \<alpha> R" "d \<in> R"
  shows "veq R (set_vr d (f m) (machine_view \<alpha> m)) (machine_view \<alpha> (run exec ws m))"
proof -
  have "\<alpha> r \<noteq> \<alpha> d" if "r \<in> R" "r \<noteq> d" for r using that \<alpha> by (auto simp: allocation_def dest: inj_onD)
  then show ?thesis using w \<alpha> unfolding writes_def veq_def allocation_def by auto
qed

lemma simulated_writes:
  assumes "\<And>st b. emit_match (assign \<alpha> i) st b = Some (put_words ws b, st)" "writes exec ws (\<alpha> d) f"
    "allocation \<alpha> R" "d \<in> R" "length ws \<le> 12"
    and "\<And>m v'. vstep i (machine_view \<alpha> m) = Some (Inr v') \<Longrightarrow> v' = set_vr d (f m) (machine_view \<alpha> m)"
  shows "simulated exec \<alpha> R i ws"
  using assms(5,6) writes_veq [OF assms(2-4)] emit_words [OF assms(1)] unfolding simulated_def by blast


context sia_isa
begin

lemma writes_add: "d \<noteq> reg_ZERO \<Longrightarrow> writes exec [encode_add d a b] d (\<lambda>s. get_gpr s a + get_gpr s b)"
  by (rule writesI) (auto simp: isa_add)

lemma writes_unary:
  "d \<noteq> reg_ZERO \<Longrightarrow> writes exec [case op of Op_Clz \<Rightarrow> encode_clz d a | Op_Ctz \<Rightarrow> encode_ctz d a
     | Op_Cpop \<Rightarrow> encode_cpop d a] d (\<lambda>s. unary_sem op (get_gpr s a))"
  using isa_clz isa_ctz isa_cpop by (cases op) (auto intro!: writesI simp: unary_law_def)

lemma writes_const: "d \<noteq> reg_ZERO \<Longrightarrow> writes exec (const_words d v) d (\<lambda>s. v)"
  by (rule writesI) (auto simp: const_words_run)

lemma load_simulated:
  assumes r: "d \<in> R" "a \<in> R" and \<alpha>: "allocation \<alpha> R"
  shows "simulated exec \<alpha> R (LoadBaseOffset d a off ty_I32) (load_words Load_I32 (\<alpha> d) (\<alpha> a) off)"
  unfolding simulated_def
proof (intro conjI allI impI)
  have ok: "\<alpha> d \<noteq> reg_SCRATCH" "\<alpha> d \<noteq> reg_ZERO" using r \<alpha> by (auto simp: allocation_def)
  show "emit (assign \<alpha> (LoadBaseOffset d a off ty_I32)) st b = Some (put_words (load_words Load_I32 (\<alpha> d) (\<alpha> a) off) b, st)"
    for st b using ok memory_words_length(1)
    by (intro emit_words) (auto simp: assign_def emit_arms emit_load_base_offset_eq load_op_of_def)
  fix m v' assume "vstep (LoadBaseOffset d a off ty_I32) (machine_view \<alpha> m) = Some (Inr v')"
  then have v: "aligned4 (get_gpr m (\<alpha> a) + off)"
    "v' = set_vr d (load32 m (get_gpr m (\<alpha> a) + off)) (machine_view \<alpha> m)"
    by (auto simp: vstep_def vload32_def load32_def split: if_splits)
  have "\<alpha> r \<noteq> \<alpha> d" if "r \<in> R" "r \<noteq> d" for r using that r \<alpha> by (auto simp: allocation_def dest: inj_onD)
  then show "veq R v' (machine_view \<alpha> (run exec (load_words Load_I32 (\<alpha> d) (\<alpha> a) off) m))"
    using v r ok \<alpha> loads_words [of "\<alpha> d" off "\<alpha> a" Load_I32] by (auto simp: loads_def veq_def allocation_def)
qed

lemma store_simulated:
  assumes r: "a \<in> R" "c \<in> R" and \<alpha>: "allocation \<alpha> R"
  shows "simulated exec \<alpha> R (StoreBaseOffset a c off ty_I32) (store_words Store_I32 (\<alpha> a) (\<alpha> c) off)"
  unfolding simulated_def
proof (intro conjI allI impI)
  have ok: "\<alpha> a \<noteq> reg_SCRATCH" "\<alpha> c \<noteq> reg_SCRATCH" using r \<alpha> by (auto simp: allocation_def)
  show "emit (assign \<alpha> (StoreBaseOffset a c off ty_I32)) st b = Some (put_words (store_words Store_I32 (\<alpha> a) (\<alpha> c) off) b, st)"
    for st b using ok memory_words_length(2)
    by (intro emit_words) (auto simp: assign_def emit_arms emit_store_base_offset_eq store_op_of_def)
  fix m v' assume "vstep (StoreBaseOffset a c off ty_I32) (machine_view \<alpha> m) = Some (Inr v')"
  then show "veq R v' (machine_view \<alpha> (run exec (store_words Store_I32 (\<alpha> a) (\<alpha> c) off) m))"
    using ok \<alpha> stores_words [of off "\<alpha> a" "\<alpha> c" Store_I32]
    by (auto simp: stores_def veq_def allocation_def vstep_def vstore32_def store32_def split: if_splits)
qed

lemma straight_simulated:
  assumes i: "straight_inst R i" and \<alpha>: "allocation \<alpha> R"
  shows "\<exists>ws. simulated exec \<alpha> R i ws"
proof -
  have ok: "dest_ok (\<alpha> r)" "operand_ok (\<alpha> r)" "\<alpha> r \<noteq> reg_ZERO" if "r \<in> R" for r
    using that \<alpha> by (auto simp: allocation_def dest_ok_def operand_ok_def)
  note step = assign_def emit_arms vstep_def
  show ?thesis
  proof (cases i)
    case (Mov d a)
    then have r: "d \<in> R" "a \<in> R" using i by (simp_all add: straight_inst_def)
    show ?thesis
      by (rule exI, rule simulated_writes [where d = d, OF _ writes_add [where a = reg_ZERO and b = "\<alpha> a"] \<alpha>])
        (use ok r in \<open>auto simp: Mov step encode_mov_def\<close>)
  next
    case (Add d a b)
    then have r: "d \<in> R" "a \<in> R" "b \<in> R" using i by (simp_all add: straight_inst_def)
    show ?thesis
      by (rule exI, rule simulated_writes [where d = d, OF _ writes_add [where a = "\<alpha> a" and b = "\<alpha> b"] \<alpha>])
        (use ok r in \<open>auto simp: Add step\<close>)
  next
    case (Unary op d a)
    then have r: "d \<in> R" "a \<in> R" using i by (simp_all add: straight_inst_def)
    show ?thesis
      by (rule exI, rule simulated_writes [where d = d, OF _ writes_unary [where a = "\<alpha> a" and op = op] \<alpha>])
        (use ok r in \<open>auto simp: Unary step\<close>)
  next
    case (TwoOp op d a b)
    then have r: "d \<in> R" "a \<in> R" "b \<in> R" and op: "op \<noteq> Op_Addo" "op \<noteq> Op_Subo"
      using i by (simp_all add: straight_inst_def)
    obtain f where f: "\<And>x y. two_op_sem op x y = Some (f x y)" using op by (cases op) auto
    show ?thesis
      by (rule exI, rule simulated_writes [where d = d, OF _ writes_two_op [where l = "\<alpha> a" and r = "\<alpha> b", OF _ _ _ f] \<alpha>])
        (use ok r in \<open>auto simp: TwoOp step emit_two_op_eq f two_address_words_def mov_words_def\<close>)
  next
    case (Icmp d cc a b)
    then have r: "d \<in> R" "a \<in> R" "b \<in> R" using i by (simp_all add: straight_inst_def)
    show ?thesis
      by (rule exI, rule simulated_writes [where d = d, OF _ writes_icmp [where l = "\<alpha> a" and r = "\<alpha> b" and cc = cc] \<alpha>])
        (use ok r order_trans [OF icmp_words_length, of 12] in \<open>auto simp: Icmp step emit_icmp_eq\<close>)
  next
    case (ShiftImm op d a n)
    then have r: "d \<in> R" "a \<in> R" and n: "op \<in> {Op_Shl, Op_Shr, Op_Sar}" "n < 32"
      using i by (simp_all add: straight_inst_def)
    show ?thesis
      by (rule exI, rule simulated_writes [where d = d, OF _ writes_shift_imm [where r = "\<alpha> a", OF _ n(2,1)] \<alpha>])
        (use ok r n order_trans [OF length_shift_words, of 12] order_trans [OF length_shift_words, of 11] in
          \<open>auto simp: ShiftImm step emit_shift_imm_eq mov_words_def split: if_splits\<close>)
  next
    case (LoadConst32 d v)
    then have r: "d \<in> R" "length (const_digits v) \<le> 2" using i by (simp_all add: straight_inst_def)
    show ?thesis
      by (rule exI, rule simulated_writes [where d = d, OF _ writes_const [where v = v] \<alpha>])
        (use ok r order_trans [OF const_words_length, of 12] in
          \<open>auto simp: LoadConst32 step emit_load_const32_def emit_const32_eq\<close>)
  next
    case (Extend d a sg from_bits to_bits)
    then have r: "d \<in> R" "a \<in> R" and w: "from_bits \<le> to_bits" "to_bits \<le> 32" "0 < from_bits"
      using i by (simp_all add: straight_inst_def)
    show ?thesis
      by (rule exI, rule simulated_writes [where d = d, OF _ writes_extend [where r = "\<alpha> a" and sg = sg, OF _ w] \<alpha>])
        (use ok r order_trans [OF extend_words_length, of 12] in \<open>auto simp: Extend step emit_extend_eq [OF w]\<close>)
  next
    case (LoadBaseOffset d a off ty)
    then show ?thesis using i \<alpha> load_simulated [of d R a \<alpha> off] by (auto simp: straight_inst_def)
  next
    case (StoreBaseOffset a b off ty)
    then show ?thesis using i \<alpha> store_simulated [of a R b \<alpha> off] by (auto simp: straight_inst_def)
  qed (use i in \<open>simp_all add: straight_inst_def\<close>)
qed

lemma straight_list_simulated:
  assumes "list_all (straight_inst R) is" and \<alpha>: "allocation \<alpha> R"
  shows "\<exists>ws. (\<forall>st b. emit_insts (map (assign \<alpha>) is) st b = Some (put_words ws b, st)) \<and>
    (\<forall>v m v'. veq R v (machine_view \<alpha> m) \<longrightarrow> exec_insts is v = Some (Inr v')
       \<longrightarrow> veq R v' (machine_view \<alpha> (run exec ws m)))"
  using assms(1)
proof (induction "is")
  case Nil
  show ?case by (rule exI [where x = "[]"]) (simp add: emit_insts_def)
next
  case (Cons i js)
  obtain ws where ws: "\<And>st b. emit_insts (map (assign \<alpha>) js) st b = Some (put_words ws b, st)"
    "\<And>v m v'. veq R v (machine_view \<alpha> m) \<Longrightarrow> exec_insts js v = Some (Inr v') \<Longrightarrow> veq R v' (machine_view \<alpha> (run exec ws m))"
    using Cons by auto
  have i: "straight_inst R i" using Cons.prems by simp
  obtain us where us: "simulated exec \<alpha> R i us" using straight_simulated [OF i \<alpha>] by blast
  have "emit_insts (map (assign \<alpha>) (i # js)) st b = Some (put_words (us @ ws) b, st)" for st b
    using us ws(1) [of st "put_words us b"] by (simp add: emit_insts_def simulated_def)
  moreover have "veq R v' (machine_view \<alpha> (run exec (us @ ws) m))"
    if v: "veq R v (machine_view \<alpha> m)" and e: "exec_insts (i # js) v = Some (Inr v')" for v m v'
  proof -
    obtain u where u: "vstep i v = Some (Inr u)" "exec_insts js u = Some (Inr v')"
      using e by (auto split: option.splits sum.splits)
    obtain w where w: "vstep i (machine_view \<alpha> m) = Some (Inr w)" "veq R u w"
      using i v u(1) by (rule vstep_cong)
    have "veq R u (machine_view \<alpha> (run exec us m))"
      using us w veq_trans unfolding simulated_def by blast
    then show ?thesis using ws(2) u(2) by simp
  qed
  ultimately show ?case by blast
qed

end


section \<open>Selected code on the machine\<close>

lemma value_rep_veq: "veq R v w \<Longrightarrow> set (regs_of p) \<subseteq> R \<Longrightarrow> value_rep ty p v x = value_rep ty p w x"
  by (cases p) (auto simp: value_rep_def veq_def)

lemma selects_runs:
  assumes isa: "sia_isa exec" and \<alpha>: "allocation \<alpha> R"
    and sel: "selects L (Some (Some (out, c'))) c (machine_view \<alpha> m) outs"
    and c': "ir_insts c' = ir_insts c @ is" "list_all (straight_inst R) is" "\<forall>p \<in> set out. set (regs_of p) \<subseteq> R"
  shows "\<exists>ws. emit_insts (map (assign \<alpha>) is) st b = Some (put_words ws b, st) \<and>
    list_all2 (\<lambda>p (ty, x). value_rep ty p (machine_view \<alpha> (run exec ws m)) x) out outs \<and> mem (run exec ws m) = mem m"
proof -
  obtain v' where v': "exec_insts is (machine_view \<alpha> m) = Some (Inr v')" "vmem v' = mem m"
    and out: "list_all2 (\<lambda>p (ty, x). regs_old (vnext c') p \<and> value_rep ty p v' x) out outs"
    using sel c'(1) by (auto simp: selects_def computes_def lowers_def extends_def)
  obtain ws where ws: "\<And>st b. emit_insts (map (assign \<alpha>) is) st b = Some (put_words ws b, st)"
    "\<And>v m v'. veq R v (machine_view \<alpha> m) \<Longrightarrow> exec_insts is v = Some (Inr v') \<Longrightarrow> veq R v' (machine_view \<alpha> (run exec ws m))"
    using sia_isa.straight_list_simulated [OF isa c'(2) \<alpha>] by blast
  have e: "veq R v' (machine_view \<alpha> (run exec ws m))" using ws(2) [OF _ v'(1)] by (simp add: veq_def)
  have "list_all2 (\<lambda>p (ty, x). value_rep ty p (machine_view \<alpha> (run exec ws m)) x) out outs"
    using out by (rule list.rel_mono_strong) (use c'(3) value_rep_veq [OF e] in auto)
  moreover have "mem (run exec ws m) = mem m" using e v'(2) by (simp add: veq_def)
  ultimately show ?thesis using ws(1) by blast
qed

end
