(* ===== verification/Spec2Isabelle.thy ===== *)
theory Spec2Isabelle
  imports Condcodes Ir_Types Sia32_I64 Sia32_Abi_Contract Sia32_Emit_Correct Sia32_Fixup_Correct Mach_Abi
    Mach_Buffer_Inv Ir_Cursor Entity_List_Client Entity_Maps_Correct Sia32_Call_Delivery Sia32_Codegen_Correct
begin

text \<open>
  A verification library for the SIA32 code generator of this Cranelift tree
  (\<open>src/cranelift/codegen/src/isa/sia32\<close>) and the target-independent code it rests on
  (\<open>codegen/src/machinst\<close>, \<open>codegen/src/ir\<close>).

  \<^bold>\<open>The program.\<close> Cranelift compiles functions of its SSA form to machine code. For SIA32, a 32-bit
  processor with 16-bit instruction words, an IR instruction is first lowered: the rules of
  \<open>lower.isle\<close> and the constructors of \<open>lower/isle.rs\<close> select machine instructions over virtual
  registers, a 64-bit value living in a pair of them. The register allocator (the package regalloc2,
  not part of the tree) then names physical registers, \<open>abi.rs\<close> with \<open>machinst/abi.rs\<close> lay out the
  frame and produce prologue and epilogue, \<open>inst.rs\<close> emits every instruction as 16-bit words through
  \<open>encode.rs\<close>, and \<open>machinst/buffer.rs\<close> keeps the bytes with their labels, simplifies branches, and
  patches label uses or inserts veneers as \<open>label.rs\<close> says.

  \<^bold>\<open>Theories, in the order of the code.\<close>
  \<^item> \<open>Prelude\<close>: Rust integers as words, \<open>Result\<close> as a sum, panics as \<open>None\<close>, byte orders, named
    collections of rewrite rules.
  \<^item> \<open>Condcodes\<close> (\<open>ir/condcodes.rs\<close>) and \<open>Ir_Types\<close> (\<open>ir/types.rs\<close>): condition codes with their
    complement, swap and text; the 16-bit type encoding with every operation of \<open>Type\<close>.
  \<^item> \<open>Ir_Layout\<close>, \<open>Ir_Layout_Inv\<close>, \<open>Ir_Layout_Correct\<close> (\<open>ir/layout.rs\<close>, \<open>ir/progpoint.rs\<close>): the order of blocks
    and instructions as doubly linked lists over total maps, with the sequence numbers of instructions. The
    relation \<open>layout_rel\<close> says which lists a layout represents; every edit refines the same edit on lists,
    sequence numbers increase along a block and do not overflow within 21 million edits, so comparing them
    compares positions; the iterators satisfy the interface \<open>list_iterator\<close>; serialization round-trips.
  \<^item> \<open>Ir_Sourceloc\<close> (\<open>ir/sourceloc.rs\<close>, the locations of \<open>ir/function.rs\<close>) and \<open>Ir_Cursor\<close> (\<open>cursor.rs\<close>): source
    locations relative to a base, and the cursor through which a function is visited and edited, on top of
    the layout.
  \<^item> \<open>Entity_List\<close>, \<open>Entity_List_Inv\<close>, \<open>Entity_List_Ops\<close>, \<open>Entity_List_Client\<close> (\<open>entity/src/list.rs\<close>): the lists of values
    and blocks that instructions hold, as handles into a pool whose vector contains both the lists and the free
    lists of recycled blocks. The relation \<open>pool_rel\<close> tiles the vector by blocks and says which list each block
    holds; every operation refines the same operation on lists and touches no other list; programs over several
    lists follow through the interface \<open>bounded_refinement\<close>, and no word of the pool is lost.
  \<^item> \<open>Bitset\<close>, \<open>Bitset_Correct\<close>, \<open>Entity_Maps\<close>, \<open>Entity_Maps_Correct\<close> (\<open>bitset/src\<close>; \<open>map.rs\<close>, \<open>set.rs\<close>, \<open>sparse.rs\<close>,
    \<open>keys.rs\<close>, \<open>packed_option.rs\<close> of \<open>entity/src\<close>): bit sets in one integer of any width and in a vector of
    integers, entity sets over them, secondary maps with their equality and serialized form, sparse maps. Each
    refines the set or function it stands for; whether memory can be had is a parameter.
  \<^item> \<open>Sia32_Regs\<close>, \<open>Sia32_Encode\<close>, \<open>Sia32_M7\<close>, \<open>Sia32_I64\<close>, \<open>Sia32_Label\<close> (\<open>regs.rs\<close>, \<open>encode.rs\<close>,
    \<open>m7.rs\<close>, \<open>i64_prep.rs\<close>, \<open>label.rs\<close>): registers, instruction words with their operand checks, the
    multiply and divide group with its reference arithmetic, 64-bit reference arithmetic on word pairs,
    reach, patching and veneers of label uses.
  \<^item> \<open>Sia32_Isa\<close>: the processor as a parameter. The locales \<open>sia_alu\<close> and \<open>sia_isa\<close> state the documented
    effect of each instruction word; they are interpreted on \<open>sia_exec\<close>, a decoder and executor of all
    words, so the laws are consistent. What emission relies on is proved inside these locales.
  \<^item> \<open>Mach_Types\<close>, \<open>Sia32_Inst\<close>, \<open>Sia32_Emit\<close> (\<open>machinst/mod.rs\<close>, \<open>inst.rs\<close>, \<open>reloc.rs\<close>): machine
    instructions as a datatype with the source's variants, operand collection, worst-case sizes, and
    \<open>emit\<close> with one arm per variant.
  \<^item> \<open>Mach_Buffer\<close>, \<open>Mach_Buffer_Inv\<close> (\<open>machinst/buffer.rs\<close>): the buffer as a record, one definition per
    method. The label aliases, the branch list and the label offsets satisfy an invariant that every
    operation of \<open>buffer_step\<close> keeps: bytes, labels, branches, deferred traps and constants, islands with
    veneers and fixups, patchable regions, records. From it, label resolution ends and never panics, and
    binding a label with the branch optimisation trips no assertion outside a patchable region.
  \<^item> \<open>Sia32_Sem\<close>, \<open>Sia32_Emit_Correct\<close>, \<open>Sia32_Fixup_Correct\<close>: the emitted words of each straight-line
    instruction have the meaning of the instruction on every processor that satisfies the laws; patched
    branches, literals and veneers reach their labels.
  \<^item> \<open>Sia32_Abi_Contract\<close>, \<open>Sia32_Abi\<close>, \<open>Sia32_Frame\<close>, \<open>Mach_Abi\<close> (\<open>abi_contract.rs\<close>, \<open>abi.rs\<close>,
    \<open>machinst/abi.rs\<close>): argument placement and its refinement of the frozen contract, stack slots,
    signatures, frame layout; prologue and epilogue keep the caller's state.
  \<^item> \<open>Sia32_Lower\<close> (\<open>lower.isle\<close>, \<open>lower/isle.rs\<close>, the register allocator of \<open>machinst/vcode.rs\<close> and the
    part of \<open>machinst/lower.rs\<close> that selection uses): lowering as state passing on the context \<open>lower_ctx\<close>;
    \<open>None\<close> is a panic, \<open>Some None\<close> that no rule applies.
  \<^item> \<open>Sia32_Pairs\<close>, \<open>Sia32_Lower_Sem\<close>, \<open>Sia32_Lower_Correct\<close>, \<open>Sia32_Lower_Rules\<close>, \<open>Sia32_Word_Rules\<close>,
    \<open>Sia32_Rules_Correct\<close>: 64-bit arithmetic on pairs of words; the meaning of selected code before
    register allocation and a small calculus (\<open>computes\<close>) for lowerings; every 64-bit constructor computes
    its operation, the unrolled restoring division included; the rules compute what their IR instruction
    means on the instructions and types that \<open>clif_wf\<close> lists, and those that do not are exhibited.
  \<^item> \<open>Mach_Sigs\<close>, \<open>Sia32_Call\<close>, \<open>Sia32_Call_Correct\<close>, \<open>Sia32_Call_Delivery\<close> (\<open>SigSet\<close>, \<open>gen_call_args\<close>,
    \<open>gen_call_rets\<close>, \<open>gen_copy_arg_to_regs\<close>, \<open>gen_copy_regs_to_retval\<close> of \<open>machinst/abi.rs\<close>, their callers in
    \<open>machinst/lower.rs\<close>, the call and return rules of \<open>lower.isle\<close>): the table of signatures gives every
    signature its own locations; the two sides of a call, each with its own table, agree, and arguments,
    hidden pointer and results arrive. The declared extension of narrow arguments is shown to be ignored.
  \<^item> \<open>Sia32_Codegen_Correct\<close>: selection, register assignment and emission composed; the theorem is below.

  \<^bold>\<open>Conventions.\<close> A value of an IR type below 64 bits occupies the low bits of a register and the bits
  above are arbitrary, because \<open>ireduce\<close> selects no code. The debug profile is modelled: failed
  assertions, debug assertions included, and overflow in the checked arithmetic of sizes and offsets are
  panics, that is \<open>None\<close>. Code offsets of the buffer are natural numbers, so a buffer of more than 2 to the 32
  bytes is outside the model.

  \<^bold>\<open>Bounds and fuel.\<close> A label alias chain is followed for at most 1000000 hops, as in the source, and the
  invariant shows that a chain is shorter than the number of labels. Branch optimisation recurses with
  a measure. The rounds of an island flush are bounded by the number of pending fixups. A 64-bit division
  takes at most 1539 virtual registers (three for its setup and 24 for each of 64 steps), which is the
  bound that the correctness of selection asks the allocator to have free. Loops over the lists of a layout
  are partial functions whose value \<open>None\<close> includes a walk that does not end; they are shown to end on every
  layout that edits can produce. A list handle has 32 bits, so the theorems on entity lists ask that the words an
  operation may need, at most four plus twice the length of the list, keep the pool below 2 to the 32 words.

  \<^bold>\<open>Not modelled.\<close> The rule compiler and its generated matcher (the rules are read by their patterns and
  priorities); register allocation itself; exception calls beyond the registers of their payloads; object
  files, unwind and debug tables; text printing; the dominator tree and loop analysis; the B+ trees of
  \<open>bforest\<close> and primary maps; the instruction data of the IR, which are generated at build time, and with
  them the optimiser and the verifier; the other backends, front ends and tools.
\<close>

section \<open>The compiler from IR instruction to machine words\<close>

text \<open>
  C1: from IR instruction to machine words. For every scalar integer instruction that \<open>clif_wf\<close> lists (all
  that the selection rules match except division and remainder on \<open>I8\<close> and \<open>I16\<close> and \<open>uadd_overflow\<close>, whose
  rules are wrong, and shifts below 64 bits by an \<open>I64\<close> amount, on which selection panics) and that does
  not mean a trap on its operands, every allocation of distinct registers to the selected code without
  spills, and every processor with the documented behaviour: if the registers of a machine hold the
  operands, values defined by constants and extensions have the value of their definition, and the selected
  code is straight-line, then emission of the selected code, with the registers assigned, succeeds and
  appends words whose execution leaves the results of the instruction in the registers assigned to them and
  memory unchanged.
\<close>

theorem compile_inst_correct:
  assumes "sia_isa exec" "allocation \<alpha> R" "alloc_ok L c" "vnext c + 1539 \<le> L"
    and "clif_wf (value_type c) i" "defs_ok c \<rho>"
    and "list_all (\<lambda>v. holds c (machine_view \<alpha> m) v (\<rho> v)) (clif_operands i)"
    and "clif_sem (value_type c) \<rho> i = Some (Inr outs)"
    and "lower_inst i c = Some (Some (out, c'))" "ir_insts c' = ir_insts c @ is"
    and "list_all (straight_inst R) is" "\<forall>p \<in> set out. set (regs_of p) \<subseteq> R"
  shows "\<exists>ws. emit_insts (map (assign \<alpha>) is) st b = Some (put_words ws b, st) \<and>
    list_all2 (\<lambda>p (ty, x). value_rep ty p (machine_view \<alpha> (run exec ws m)) x) out outs \<and>
    mem (run exec ws m) = mem m"
proof -
  have "selects L (lower_inst i c) c (machine_view \<alpha> m) outs"
    using assms(3-8) by (intro lower_inst_ok) (simp_all add: ready_def)
  then show ?thesis using assms(1,2,9-12) selects_runs by simp
qed

text \<open>
  The instance: the four instructions of a 64-bit addition, its operands in r1:r2 and r3:r4 and its
  temporaries in r5 to r8, on a machine that holds 5000000000 and 7000000000.
\<close>

definition demo_alloc :: "mreg \<Rightarrow> reg" where
  "demo_alloc r = (case r of Virtual n k \<Rightarrow> if n < 196 then word_of_nat (n - 191) else word_of_nat (n - 195) | Real p \<Rightarrow> 0)"

definition demo_regs :: "mreg set" where
  "demo_regs = (\<lambda>n. Virtual n Int_class) ` {192, 193, 194, 195, 200, 201, 202, 203}"

definition demo_machine :: cpu where
  "demo_machine = \<lparr>gpr = (\<lambda>r. if r = 1 then 705032704 else if r = 2 then 1 else if r = 3 then 2705032704
     else if r = 4 then 1 else 0), pc = 0, mem = (\<lambda>a. 0)\<rparr>"

definition demo_code :: "inst list" where
  "demo_code = (let v = (\<lambda>n. Virtual n Int_class) in
     [Add (v 200) (v 192) (v 194), Icmp (v 202) IntUnsignedLessThan (v 200) (v 192),
      Add (v 203) (v 193) (v 195), Add (v 201) (v 203) (v 202)])"

lemma demo_lower_add:
  obtains c' where "lower_inst (Iadd ty_I64 0 1) demo_lower
      = Some (Some ([Two_regs (Virtual 200 Int_class) (Virtual 201 Int_class)], c'))"
    "ir_insts c' = ir_insts demo_lower @ demo_code"
proof -
  have r: "value_regs_of demo_lower 0 = Some (Two_regs (Virtual 192 Int_class) (Virtual 193 Int_class))"
    "value_regs_of demo_lower (Suc 0) = Some (Two_regs (Virtual 194 Int_class) (Virtual 195 Int_class))"
    "\<not> value_sunk demo_lower v" "vnext demo_lower = 200" for v
    by (simp_all add: demo_lower_def vnext_def vregs_with_capacity_def)
  have k: "can_alloc demo_lower n" if "n < 2000" for n using demo_lower_ready(1) that by (rule alloc_okD)
  show thesis
    by (rule that, simp add: lower_alu_def with_regs2_eq r k output_regs_def sia_i64_alu_def Let_def)
      (simp add: demo_code_def)
qed

lemma demo_allocation: "allocation demo_alloc demo_regs"
  by (auto simp: allocation_def inj_on_def demo_regs_def demo_alloc_def reg_consts)

theorem compile_inst_correct_witness:
  "\<exists>ws. emit_insts (map (assign demo_alloc) demo_code) demo_state buffer_new = Some (put_words ws buffer_new, demo_state) \<and>
    list_all2 (\<lambda>p (ty, x). value_rep ty p (machine_view demo_alloc (run sia_exec ws demo_machine)) x)
      [Two_regs (Virtual 200 Int_class) (Virtual 201 Int_class)] [(ty_I64, 12000000000)] \<and>
    mem (run sia_exec ws demo_machine) = mem demo_machine"
proof -
  obtain c' where c': "lower_inst (Iadd ty_I64 0 1) demo_lower
      = Some (Some ([Two_regs (Virtual 200 Int_class) (Virtual 201 Int_class)], c'))"
    "ir_insts c' = ir_insts demo_lower @ demo_code" by (rule demo_lower_add)
  let ?\<rho> = "\<lambda>v :: nat. if v = 0 then 5000000000 else 7000000000 :: u64"
  have p: "pair 705032704 1 = 5000000000" "pair 2705032704 1 = 7000000000" by code_simp+
  show ?thesis
  proof (rule compile_inst_correct [OF sia.sia_isa_axioms demo_allocation demo_lower_ready _ demo_defs _ _ c', where \<rho> = ?\<rho>])
    show "clif_wf (value_type demo_lower) (Iadd ty_I64 0 1)" by (simp add: clif_wf_def int_ty_def)
    show "list_all (\<lambda>v. holds demo_lower (machine_view demo_alloc demo_machine) v (?\<rho> v)) (clif_operands (Iadd ty_I64 0 1))"
      by (simp add: clif_operands_def holds_def demo_lower_def regs_old_def value_rep_def vnext_def vregs_with_capacity_def
          demo_alloc_def demo_machine_def get_gpr_def reg_consts p)
    show "clif_sem (value_type demo_lower) ?\<rho> (Iadd ty_I64 0 1) = Some (Inr [(ty_I64, 12000000000)])"
      by (simp add: clif_sem_def)
    show "list_all (straight_inst demo_regs) demo_code"
      by (simp add: demo_code_def straight_inst_def demo_regs_def Let_def)
    show "\<forall>p \<in> set [Two_regs (Virtual 200 Int_class) (Virtual 201 Int_class)]. set (regs_of p) \<subseteq> demo_regs"
      by (simp add: demo_regs_def)
  qed
qed

end
